(* ===== verification/Prelude.thy ===== *)
theory Prelude
  imports Main "HOL-Library.Word"
begin

text \<open>
  Shared vocabulary of the development: the outcome type of a C function, the machine
  integer types, the two loop shapes the code is written in (search a table for the first
  slot that satisfies a test, and run a body over a range of indices), and the page
  arithmetic used by every memory component.
\<close>

unbundle bit_operations_syntax

named_theorems outcome_simps \<open>evaluation of sequenced outcomes\<close>
named_theorems table_simps \<open>evaluation of table searches\<close>

section \<open>Machine integers\<close>

type_synonym u8 = "8 word"
type_synonym u16 = "16 word"
type_synonym u32 = "32 word"
type_synonym u64 = "64 word"

section \<open>Outcomes\<close>

text \<open>
  A C function either returns a value (\<open>Ret\<close>), never returns because it spins or halts
  for ever (\<open>Hang\<close>), or executes an undefined operation: an access outside an array, a
  division by zero, a read through a null pointer (\<open>Fault\<close>). Error codes are ordinary
  returned values.
\<close>

datatype 'a outcome = Ret 'a | Hang | Fault

primrec bindR :: "'a outcome \<Rightarrow> ('a \<Rightarrow> 'b outcome) \<Rightarrow> 'b outcome" where
  "bindR (Ret x) f = f x"
| "bindR Hang f = Hang"
| "bindR Fault f = Fault"

lemmas [outcome_simps] = bindR.simps

lemma bindR_eq_Ret_iff [outcome_simps]:
  "bindR m f = Ret y \<longleftrightarrow> (\<exists>x. m = Ret x \<and> f x = Ret y)"
  by (cases m) auto

lemma bindR_eq_Hang_iff [outcome_simps]:
  "bindR m f = Hang \<longleftrightarrow> m = Hang \<or> (\<exists>x. m = Ret x \<and> f x = Hang)"
  by (cases m) auto

lemma bindR_eq_Fault_iff [outcome_simps]:
  "bindR m f = Fault \<longleftrightarrow> m = Fault \<or> (\<exists>x. m = Ret x \<and> f x = Fault)"
  by (cases m) auto

lemma bindR_assoc: "bindR (bindR m f) g = bindR m (\<lambda>x. bindR (f x) g)"
  by (cases m) auto

lemma bindR_cong [fundef_cong]:
  "m = m' \<Longrightarrow> (\<And>x. m' = Ret x \<Longrightarrow> f x = g x) \<Longrightarrow> bindR m f = bindR m' g"
  by (cases m') auto

text \<open>A loop body run once per element; it stops at the first body that does not return.\<close>

primrec forR :: "('i \<Rightarrow> 's \<Rightarrow> 's outcome) \<Rightarrow> 'i list \<Rightarrow> 's \<Rightarrow> 's outcome" where
  "forR body [] s = Ret s"
| "forR body (i # is) s = bindR (body i s) (forR body is)"

lemma forR_append: "forR body (xs @ ys) s = bindR (forR body xs s) (forR body ys)"
proof (induction xs arbitrary: s)
  case (Cons a xs)
  then show ?case by (cases "body a s") simp_all
qed simp

lemma forR_invariant:
  assumes "forR body xs s = Ret t" and "P s"
    and "\<And>i u v. i \<in> set xs \<Longrightarrow> P u \<Longrightarrow> body i u = Ret v \<Longrightarrow> P v"
  shows "P t"
  using assms
proof (induction xs arbitrary: s)
  case Nil
  then show ?case by simp
next
  case (Cons x xs)
  from Cons.prems(1) obtain u where u: "body x s = Ret u" "forR body xs u = Ret t"
    by (auto simp: outcome_simps)
  have "P u" using Cons.prems(2,3) u(1) by auto
  with u(2) show ?case using Cons.IH Cons.prems(3) by auto
qed

section \<open>Searching a table\<close>

text \<open>
  \<open>for (i = lo; i < hi; i++) if (P(i)) break;\<close> -- the index found, \<open>None\<close> when the loop
  runs to the end.
\<close>

function first_from :: "(nat \<Rightarrow> bool) \<Rightarrow> nat \<Rightarrow> nat \<Rightarrow> nat option" where
  "first_from P i n = (if i < n then (if P i then Some i else first_from P (Suc i) n) else None)"
  by pat_completeness auto
termination
  by (relation "measure (\<lambda>(P, i, n). n - i)") auto

declare first_from.simps [simp del]

lemma first_from_hit [table_simps]: "i < n \<Longrightarrow> P i \<Longrightarrow> first_from P i n = Some i"
  by (simp add: first_from.simps)

lemma first_from_skip [table_simps]: "\<not> P i \<Longrightarrow> first_from P i n = first_from P (Suc i) n"
  by (cases "i < n") (simp_all add: first_from.simps [of P i n] first_from.simps [of P "Suc i" n])

lemma first_from_end [table_simps]: "n \<le> i \<Longrightarrow> first_from P i n = None"
  by (simp add: first_from.simps)

lemma first_from_None_iff:
  "first_from P i n = None \<longleftrightarrow> (\<forall>j. i \<le> j \<and> j < n \<longrightarrow> \<not> P j)"
proof (induction P i n rule: first_from.induct)
  case (1 P i n)
  show ?case
  proof (cases "i < n \<and> \<not> P i")
    case True
    then have "first_from P i n = None \<longleftrightarrow> (\<forall>j. Suc i \<le> j \<and> j < n \<longrightarrow> \<not> P j)"
      using "1.IH" by (simp add: first_from.simps [of P i n])
    also have "\<dots> \<longleftrightarrow> (\<forall>j. i \<le> j \<and> j < n \<longrightarrow> \<not> P j)"
      using True by (metis Suc_le_eq order_le_less)
    finally show ?thesis .
  qed (auto simp: first_from.simps [of P i n])
qed

lemma first_from_SomeD:
  assumes "first_from P i n = Some k"
  shows "i \<le> k" "k < n" "P k" "\<And>j. i \<le> j \<Longrightarrow> j < k \<Longrightarrow> \<not> P j"
proof -
  have "i \<le> k \<and> k < n \<and> P k \<and> (\<forall>j. i \<le> j \<and> j < k \<longrightarrow> \<not> P j)"
    using assms
  proof (induction P i n rule: first_from.induct)
    case (1 P i n)
    show ?case
    proof (cases "i < n \<and> \<not> P i")
      case True
      with "1.prems" have "first_from P (Suc i) n = Some k"
        by (simp add: first_from.simps [of P i n])
      with "1.IH" True have "Suc i \<le> k \<and> k < n \<and> P k \<and> (\<forall>j. Suc i \<le> j \<and> j < k \<longrightarrow> \<not> P j)"
        by blast
      with True show ?thesis by (metis Suc_le_eq order_le_less)
    qed (use "1.prems" in \<open>auto simp: first_from.simps [of P i n] split: if_splits\<close>)
  qed
  then show "i \<le> k" "k < n" "P k" "\<And>j. i \<le> j \<Longrightarrow> j < k \<Longrightarrow> \<not> P j" by auto
qed

lemma first_from_SomeI:
  assumes "i \<le> k" "k < n" "P k" "\<And>j. i \<le> j \<Longrightarrow> j < k \<Longrightarrow> \<not> P j"
  shows "first_from P i n = Some k"
proof (cases "first_from P i n")
  case None
  with assms show ?thesis by (auto simp: first_from_None_iff)
next
  case (Some m)
  have "\<not> m < k" using first_from_SomeD(1,3) [OF Some] assms(4) by blast
  moreover have "\<not> k < m" using first_from_SomeD(4) [OF Some] assms(1,3) by blast
  ultimately show ?thesis using Some by simp
qed

lemma first_from_cong:
  assumes "\<And>j. i \<le> j \<Longrightarrow> j < n \<Longrightarrow> P j = Q j"
  shows "first_from P i n = first_from Q i n"
proof (cases "first_from Q i n")
  case None
  with assms have "first_from P i n = None" by (auto simp: first_from_None_iff)
  with None show ?thesis by simp
next
  case (Some k)
  note Q = first_from_SomeD [OF Some]
  show ?thesis
    unfolding Some by (rule first_from_SomeI) (use Q assms in auto)
qed

lemma first_from_unique:
  assumes "i \<le> k" "k < n" "P k" "\<And>j. j < n \<Longrightarrow> P j \<Longrightarrow> j = k"
  shows "first_from P i n = Some k"
proof (rule first_from_SomeI)
  show "\<not> P j" if "i \<le> j" "j < k" for j
    using that assms(2) assms(4) [of j] by auto
qed (fact assms(1-3))+

section \<open>Bit slices\<close>

lemma unat_take_bit: "unat (take_bit n (w :: 'w::len word)) = unat w mod 2 ^ n"
  by (rule trans [OF unsigned_take_bit_eq take_bit_eq_mod])

lemma unat_drop_bit: "unat (drop_bit n (w :: 'w::len word)) = unat w div 2 ^ n"
proof -
  have "take_bit LENGTH('w) (unat w) = unat w" by (rule take_bit_nat_eq_self [OF unsigned_less])
  then show ?thesis
    by (subst unsigned_drop_bit_eq) (simp only: drop_bit_eq_div)
qed

lemma unat_and_mask: "unat ((w :: 'w::len word) AND mask n) = unat w mod 2 ^ n"
  by (simp only: take_bit_eq_mask [symmetric] unat_take_bit)

section \<open>Counters\<close>

lemma unat_ucast_up:
  fixes x :: "'a::len word"
  assumes "LENGTH('a) \<le> LENGTH('b::len)"
  shows "unat (ucast x :: 'b word) = unat x"
proof -
  have "unat x < 2 ^ LENGTH('a)" by (rule unsigned_less)
  also have "(2 :: nat) ^ LENGTH('a) \<le> 2 ^ LENGTH('b)" using assms by (rule power_increasing) simp
  finally have "take_bit LENGTH('b) (unat x) = unat x" by (simp add: take_bit_nat_eq_self_iff)
  then show ?thesis by (simp add: unsigned_ucast_eq)
qed

lemma unat_inc:
  fixes x :: "'w::len word"
  assumes "x \<noteq> - 1"
  shows "unat (x + 1) = Suc (unat x)"
proof -
  have "1 + x \<noteq> 0" using assms by (metis add.commute add_eq_0_iff2)
  then show ?thesis using unatSuc [of x] by (simp add: add.commute)
qed

lemma less_inc:
  fixes x :: "'w::len word"
  shows "x \<noteq> - 1 \<Longrightarrow> x < x + 1"
  by (simp add: word_less_nat_alt unat_inc)

lemma word_card_remove:
  assumes "finite A" "x \<in> A"
  shows "of_nat (card A) - 1 = (of_nat (card (A - {x})) :: 'w::len word)"
proof -
  have "card A = Suc (card (A - {x}))" using card_Suc_Diff1 [OF assms] by simp
  then have "(of_nat (card A) :: 'w word) = 1 + of_nat (card (A - {x}))" by (simp only: of_nat_Suc)
  then show ?thesis by simp
qed

lemma mod_add_cancel_nat:
  fixes a i j m :: nat
  assumes "(a + i) mod m = (a + j) mod m" "i < m" "j < m"
  shows "i = j"
proof -
  have le: "i = j" if "i \<le> j" "(a + j) mod m = (a + i) mod m" "j < m" for i j :: nat
  proof -
    have "m dvd (a + j) - (a + i)" using that(1,2) by (simp add: mod_eq_dvd_iff_nat)
    then have "m dvd j - i" by simp
    then have "j - i = 0" using that(3) by (auto dest: dvd_imp_le)
    with that(1) show ?thesis by simp
  qed
  show ?thesis using le [of i j] le [of j i] assms by (cases "i \<le> j") auto
qed

section \<open>Index ranges\<close>

lemma upt_split: "i \<le> j \<Longrightarrow> j \<le> k \<Longrightarrow> [i..<k] = [i..<j] @ [j..<k]"
  using upt_add_eq_append [of i j "k - j"] by simp

section \<open>Page arithmetic\<close>

definition PAGE_SIZE :: u64 where "PAGE_SIZE = 4096"

text \<open>\<open>(size + PAGE_SIZE - 1) / PAGE_SIZE\<close>, wrapping as \<open>uint64_t\<close> does.\<close>

definition pages_for :: "u64 \<Rightarrow> u64" where
  "pages_for sz = (sz + PAGE_SIZE - 1) div PAGE_SIZE"

lemma unat_div_PAGE_SIZE: "unat (a div PAGE_SIZE) = unat a div 4096"
  by (simp add: PAGE_SIZE_def unat_div)

lemma page_index_less: "unat (a div PAGE_SIZE) < 2 ^ 52"
proof -
  have "unat a < 2 ^ 64" using unsigned_less [of a] by simp
  then have "unat a div 4096 < 2 ^ 52" by simp
  then show ?thesis by (simp only: unat_div_PAGE_SIZE)
qed

lemma unat_page_addr:
  "n < 2 ^ 52 \<Longrightarrow> unat ((of_nat n :: u64) * PAGE_SIZE) = n * 4096"
  by (simp add: PAGE_SIZE_def unat_word_ariths unat_of_nat take_bit_eq_mod mod_mult_left_eq)

lemma page_addr_div:
  "n < 2 ^ 52 \<Longrightarrow> ((of_nat n :: u64) * PAGE_SIZE) div PAGE_SIZE = of_nat n"
  by (rule word_unat_eq_iff [THEN iffD2])
    (simp add: unat_div_PAGE_SIZE unat_page_addr unat_of_nat take_bit_eq_mod)

lemma page_addr_eq_0_iff:
  "n < 2 ^ 52 \<Longrightarrow> ((of_nat n :: u64) * PAGE_SIZE = 0) = (n = 0)"
  by (metis unat_page_addr mult_eq_0_iff unat_eq_zero zero_neq_numeral)

lemma unat_pages_for:
  assumes "unat sz \<le> 2 ^ 64 - 4096"
  shows "unat (pages_for sz) = (unat sz + 4095) div 4096"
proof -
  have "unat (sz + 4095) = unat sz + 4095"
    using assms by (simp add: unat_word_ariths)
  moreover have "sz + PAGE_SIZE - 1 = sz + 4095"
    by (simp add: PAGE_SIZE_def)
  ultimately show ?thesis
    by (simp only: pages_for_def unat_div_PAGE_SIZE)
qed

lemma pages_for_less: "unat (pages_for sz) < 2 ^ 52"
  by (simp only: pages_for_def page_index_less)

end
