(* ===== verification/Spinlock.thy ===== *)
theory Spinlock
  imports Prelude
begin

text \<open>
  The spinlock every component carries (\<open>spin_lock\<close>/\<open>spin_unlock\<close>, defined identically in
  each file of Core-0 and Core-1 over \<open>__sync_lock_test_and_set\<close>). Two views of the same
  code: the loop as one processor runs it, which decides whether a call returns, and the
  interleaving of any number of processors, whose invariant is mutual exclusion. The locale
  \<open>spin_locked\<close> states what a component's locked operations may rely on.
\<close>

section \<open>The lock word\<close>

text \<open>\<open>__sync_lock_test_and_set(lock, 1)\<close>: the old value and the new one.\<close>

definition test_and_set :: "'w::len word \<Rightarrow> 'w word \<times> 'w word" where
  "test_and_set l = (l, 1)"

text \<open>The loop on one processor: nobody else writes the word while it spins.\<close>

partial_function (option) spin_lock :: "'w::len word \<Rightarrow> 'w word option" where
  "spin_lock l = (case test_and_set l of (old, l') \<Rightarrow> if old \<noteq> 0 then spin_lock l' else Some l')"

definition spin_unlock :: "'w::len word \<Rightarrow> 'w word" where
  "spin_unlock l = 0"

lemma spin_lock_free: "spin_lock 0 = Some 1"
  by (simp add: spin_lock.simps test_and_set_def)

lemma spin_lock_returns:
  fixes l :: "'w::len word"
  assumes "spin_lock l = Some l'"
  shows "l = 0 \<and> l' = 1"
proof (rule spin_lock.raw_induct [where P = "\<lambda>l l'. l = 0 \<and> l' = 1", OF _ assms])
  fix f :: "'w word \<Rightarrow> 'w word option" and l l'
  assume IH: "\<And>l l'. f l = Some l' \<Longrightarrow> l = 0 \<and> l' = 1"
    and eq: "(case test_and_set l of (old, l') \<Rightarrow> if old \<noteq> 0 then f l' else Some l') = Some l'"
  show "l = 0 \<and> l' = 1"
  proof (cases "l = 0")
    case True
    with eq show ?thesis by (simp add: test_and_set_def)
  next
    case False
    with eq have "f 1 = Some l'" by (simp add: test_and_set_def)
    then have "(1 :: 'w word) = 0" using IH by blast
    then show ?thesis by simp
  qed
qed

text \<open>The loop returns exactly when the word is free at its first test.\<close>

lemma spin_lock_eq: "spin_lock l = (if l = 0 then Some 1 else None)"
  using spin_lock_returns [of l] by (cases "spin_lock l") (auto simp: spin_lock_free)

section \<open>Locked operations\<close>

text \<open>
  The shape of every locked function: take the lock, run the body, and release the lock on
  whatever path the body leaves by. \<open>lk\<close> and \<open>upd\<close> are the selector and the update of the
  lock field of the component's state.
\<close>

definition acquire ::
  "('s \<Rightarrow> 'w::len word) \<Rightarrow> (('w word \<Rightarrow> 'w word) \<Rightarrow> 's \<Rightarrow> 's) \<Rightarrow> 's \<Rightarrow> 's outcome" where
  "acquire lk upd s = (case spin_lock (lk s) of None \<Rightarrow> Hang | Some l \<Rightarrow> Ret (upd (\<lambda>_. l) s))"

definition locked ::
  "('s \<Rightarrow> 'w::len word) \<Rightarrow> (('w word \<Rightarrow> 'w word) \<Rightarrow> 's \<Rightarrow> 's) \<Rightarrow>
   ('s \<Rightarrow> ('r \<times> 's) outcome) \<Rightarrow> 's \<Rightarrow> ('r \<times> 's) outcome" where
  "locked lk upd body s =
     bindR (acquire lk upd s) (\<lambda>s1. bindR (body s1) (\<lambda>(r, s2). Ret (r, upd spin_unlock s2)))"

lemma acquire_eq: "acquire lk upd s = (if lk s = 0 then Ret (upd (\<lambda>_. 1) s) else Hang)"
  by (simp add: acquire_def spin_lock_eq)

lemma spin_unlock_fun: "spin_unlock = (\<lambda>_. 0)"
  by (rule ext) (simp add: spin_unlock_def)

lemma locked_eq [outcome_simps]:
  "locked lk upd body s =
     (if lk s = 0 then bindR (body (upd (\<lambda>_. 1) s)) (\<lambda>(r, s2). Ret (r, upd (\<lambda>_. 0) s2)) else Hang)"
  by (simp add: locked_def acquire_eq spin_unlock_fun)

locale spin_locked =
  fixes lk :: "'s \<Rightarrow> 'w::len word"
    and upd :: "('w word \<Rightarrow> 'w word) \<Rightarrow> 's \<Rightarrow> 's"
  assumes lk_upd: "lk (upd f s) = f (lk s)"
begin

text \<open>A component whose lock is held by its own caller never returns.\<close>

lemma held_hangs: "lk s \<noteq> 0 \<Longrightarrow> locked lk upd body s = Hang"
  by (simp add: locked_eq)

lemma returns_released:
  "locked lk upd body s = Ret (r, t) \<Longrightarrow> lk s = 0 \<and> lk t = 0"
  by (auto simp: locked_eq outcome_simps lk_upd split: if_splits prod.splits)

lemma returnsE:
  assumes "locked lk upd body s = Ret (r, t)"
  obtains u where "lk s = 0" "body (upd (\<lambda>_. 1) s) = Ret (r, u)" "t = upd (\<lambda>_. 0) u"
  using assms by (auto simp: locked_eq outcome_simps split: if_splits prod.splits)

text \<open>Taking the lock again inside the body is a self-deadlock.\<close>

lemma nested_hangs:
  assumes "body (upd (\<lambda>_. 1) s) = bindR (locked lk upd inner u) k" and "lk u \<noteq> 0"
  shows "locked lk upd body s = Hang"
  using assms held_hangs [of u inner] by (simp add: locked_eq)

lemma progress:
  assumes "lk s = 0" and "body (upd (\<lambda>_. 1) s) = Ret (r, u)"
  shows "locked lk upd body s = Ret (r, upd (\<lambda>_. 0) u)"
  using assms by (simp add: locked_eq)

lemma hangs_iff:
  "locked lk upd body s = Hang \<longleftrightarrow> lk s \<noteq> 0 \<or> body (upd (\<lambda>_. 1) s) = Hang"
  by (auto simp: locked_eq outcome_simps split: prod.splits)

end

section \<open>Several processors\<close>

datatype cpu_pc = Outside | Acquiring | Inside

record lock_sys =
  lock_word :: u64
  pcs :: "nat \<Rightarrow> cpu_pc"

text \<open>
  A processor decides to enter, executes one atomic test-and-set of the loop (leaving the
  loop when the old value was 0), or stores 0 on its way out.
\<close>

inductive lock_step :: "lock_sys \<Rightarrow> lock_sys \<Rightarrow> bool" where
  want: "pcs s i = Outside \<Longrightarrow> lock_step s (s\<lparr>pcs := (pcs s)(i := Acquiring)\<rparr>)"
| spin: "pcs s i = Acquiring \<Longrightarrow> test_and_set (lock_word s) = (old, l') \<Longrightarrow>
    lock_step s (s\<lparr>lock_word := l',
                   pcs := (pcs s)(i := (if old \<noteq> 0 then Acquiring else Inside))\<rparr>)"
| leave: "pcs s i = Inside \<Longrightarrow>
    lock_step s (s\<lparr>lock_word := spin_unlock (lock_word s), pcs := (pcs s)(i := Outside)\<rparr>)"

inductive_cases lock_stepE: "lock_step s t"

inductive lock_reach :: "lock_sys \<Rightarrow> bool" where
  boot: "lock_reach \<lparr>lock_word = 0, pcs = (\<lambda>_. Outside)\<rparr>"
| move: "lock_reach s \<Longrightarrow> lock_step s t \<Longrightarrow> lock_reach t"

definition inside :: "lock_sys \<Rightarrow> nat set" where
  "inside s = {i. pcs s i = Inside}"

text \<open>The lock word is 0 with nobody inside, or set with exactly one processor inside.\<close>

definition lock_inv :: "lock_sys \<Rightarrow> bool" where
  "lock_inv s \<longleftrightarrow> (if lock_word s = 0 then inside s = {} else (\<exists>i. inside s = {i}))"

lemma inside_pcs [simp]:
  "inside (s\<lparr>pcs := (pcs s)(i := Inside)\<rparr>) = insert i (inside s)"
  "p \<noteq> Inside \<Longrightarrow> inside (s\<lparr>pcs := (pcs s)(i := p)\<rparr>) = inside s - {i}"
  "inside (s\<lparr>lock_word := w\<rparr>) = inside s"
  by (auto simp: inside_def)

lemma inside_both [simp]:
  "inside (s\<lparr>lock_word := w, pcs := (pcs s)(i := Inside)\<rparr>) = insert i (inside s)"
  "p \<noteq> Inside \<Longrightarrow> inside (s\<lparr>lock_word := w, pcs := (pcs s)(i := p)\<rparr>) = inside s - {i}"
  by (auto simp: inside_def)

lemma lock_inv_step: "lock_step s t \<Longrightarrow> lock_inv s \<Longrightarrow> lock_inv t"
proof (induction rule: lock_step.induct)
  case (want s i)
  then have "inside s - {i} = inside s" by (auto simp: inside_def)
  with want show ?case by (simp add: lock_inv_def)
next
  case (spin s i old l')
  then have "inside s - {i} = inside s" by (auto simp: inside_def)
  with spin show ?case by (auto simp: lock_inv_def test_and_set_def)
next
  case (leave s i)
  then have "i \<in> inside s" by (simp add: inside_def)
  with leave show ?case by (auto simp: lock_inv_def spin_unlock_def split: if_splits)
qed

lemma lock_inv_reach: "lock_reach s \<Longrightarrow> lock_inv s"
  by (induction rule: lock_reach.induct)
    (simp add: lock_inv_def inside_def, erule (1) lock_inv_step)

text \<open>
  C38. Mutual exclusion: in every reachable state of any number of processors contending for
  a spinlock, at most one of them is between \<open>spin_lock\<close> and \<open>spin_unlock\<close>.
\<close>

theorem spinlock_mutual_exclusion:
  assumes "lock_reach s" "pcs s i = Inside" "pcs s j = Inside"
  shows "i = j"
proof -
  have "i \<in> inside s" "j \<in> inside s" using assms(2,3) by (simp_all add: inside_def)
  moreover have "(\<exists>k. inside s = {k}) \<or> inside s = {}"
    using lock_inv_reach [OF assms(1)] unfolding lock_inv_def by (cases "lock_word s = 0") simp_all
  ultimately show ?thesis by (elim disjE exE) simp_all
qed

text \<open>A run of two processors in which processor 0 wins the lock and 1 spins.\<close>

definition one_inside :: lock_sys where
  "one_inside = \<lparr>lock_word = 1, pcs = (\<lambda>_. Outside)(0 := Inside)\<rparr>"

lemma one_inside_reach: "lock_reach one_inside"
proof -
  let ?s = "\<lparr>lock_word = 0, pcs = (\<lambda>_. Outside)\<rparr>"
  let ?t = "?s\<lparr>pcs := (pcs ?s)(0 := Acquiring)\<rparr>"
  have "lock_step ?s ?t" by (rule lock_step.want) simp
  then have reach: "lock_reach ?t" by (rule lock_reach.move [OF lock_reach.boot])
  have "lock_step ?t (?t\<lparr>lock_word := 1,
      pcs := (pcs ?t)(0 := (if (0 :: u64) \<noteq> 0 then Acquiring else Inside))\<rparr>)"
    by (rule lock_step.spin) (simp_all add: test_and_set_def)
  moreover have "?t\<lparr>lock_word := 1, pcs := (pcs ?t)(0 := (if (0 :: u64) \<noteq> 0 then Acquiring else Inside))\<rparr> =
      one_inside"
    by (simp add: one_inside_def)
  ultimately show ?thesis using lock_reach.move [OF reach] by simp
qed

theorem spinlock_mutual_exclusion_witness: "{j. pcs one_inside j = Inside} = {0}"
proof -
  have zero: "pcs one_inside 0 = Inside" by (simp add: one_inside_def)
  from spinlock_mutual_exclusion [OF one_inside_reach zero] zero show ?thesis by blast
qed

end
