(* ===== verification/Mm.thy ===== *)
theory Mm
  imports Spinlock
begin

text \<open>
  The physical frame allocator of Core-0 (\<open>Core-0/include/mm.h\<close>, \<open>Core-0/mm/mm.c\<close>): the global
  frame table with its two page counters, first-fit allocation of contiguous frames, freeing,
  reservation and the queries. The array \<open>frames[MAX_PAGES]\<close> is a function of the index; an
  access at \<open>MAX_PAGES\<close> or beyond is a \<open>Fault\<close>.
\<close>

section \<open>Data\<close>

datatype mem_type =
    MEM_TYPE_RESERVED
  | MEM_TYPE_AVAILABLE
  | MEM_TYPE_KERNEL
  | MEM_TYPE_SERVICE
  | MEM_TYPE_APPLICATION
  | MEM_TYPE_DEVICE
  | MEM_TYPE_CUSTOM

record mem_frame =
  frame_type :: mem_type
  frame_owner :: u64

record mm_state =
  frames :: "nat \<Rightarrow> mem_frame"
  total_pages :: u64
  available_pages :: u64
  allocated_pages :: u64
  mm_lock :: u64

text \<open>\<open>MAX_PHYSICAL_MEMORY / PAGE_SIZE\<close>, 512 MB in pages.\<close>

definition MAX_PAGES :: nat where "MAX_PAGES = 131072"

definition zero_frame :: mem_frame where
  "zero_frame = \<lparr>frame_type = MEM_TYPE_RESERVED, frame_owner = 0\<rparr>"

interpretation mml: spin_locked mm_lock mm_lock_update
  by unfold_locales simp

section \<open>Operations\<close>

text \<open>The loop that writes type and owner into \<open>n\<close> frames from \<open>i\<close>.\<close>

primrec fill_frames ::
  "mem_type \<Rightarrow> u64 \<Rightarrow> nat \<Rightarrow> nat \<Rightarrow> (nat \<Rightarrow> mem_frame) \<Rightarrow> (nat \<Rightarrow> mem_frame) outcome" where
  "fill_frames ty ow i 0 fr = Ret fr"
| "fill_frames ty ow i (Suc n) fr =
     (if i < MAX_PAGES
      then fill_frames ty ow (Suc i) n (fr(i := \<lparr>frame_type = ty, frame_owner = ow\<rparr>))
      else Fault)"

definition mm_init :: "u64 \<Rightarrow> mm_state \<Rightarrow> (int \<times> mm_state) outcome" where
  "mm_init total_memory s =
     (let tp = total_memory div PAGE_SIZE in
      bindR (fill_frames MEM_TYPE_RESERVED 0 0 (unat tp) (\<lambda>_. zero_frame)) (\<lambda>fr.
      Ret (0, \<lparr>frames = fr, total_pages = tp, available_pages = tp,
               allocated_pages = 0, mm_lock = 0\<rparr>)))"

text \<open>
  The search loop of \<open>mm_alloc\<close>: \<open>i\<close> is the page looked at, \<open>start\<close> and \<open>found\<close> the current
  run. A run that is long enough but starts at a page that is not a multiple of
  \<open>align_pages\<close> is dropped; the remainder by \<open>align_pages = 0\<close> is undefined.
\<close>

function mm_scan ::
  "mm_state \<Rightarrow> nat \<Rightarrow> nat \<Rightarrow> nat \<Rightarrow> nat \<Rightarrow> nat \<Rightarrow> nat option outcome" where
  "mm_scan s pages_needed align_pages i start found =
     (if i < unat (total_pages s) then
        if MAX_PAGES \<le> i then Fault
        else if frame_type (frames s i) = MEM_TYPE_AVAILABLE then
          (let start' = (if found = 0 then i else start); found' = Suc found in
           if pages_needed \<le> found' then
             if align_pages = 0 then Fault
             else if start' mod align_pages = 0 then Ret (Some start')
             else mm_scan s pages_needed align_pages (Suc i) start' 0
           else mm_scan s pages_needed align_pages (Suc i) start' found')
        else mm_scan s pages_needed align_pages (Suc i) start 0
      else Ret None)"
  by pat_completeness auto
termination
  by (relation "measure (\<lambda>(s, _, _, i, _, _). unat (total_pages s) - i)") auto

declare mm_scan.simps [simp del]

definition mm_alloc :: "u64 \<Rightarrow> u64 \<Rightarrow> mem_type \<Rightarrow> u64 \<Rightarrow> mm_state \<Rightarrow> (u64 \<times> mm_state) outcome" where
  "mm_alloc sz align ty ow = locked mm_lock mm_lock_update (\<lambda>s.
     let pages_needed = pages_for sz; align_pages = pages_for align in
     bindR (mm_scan s (unat pages_needed) (unat align_pages) 0 0 0) (\<lambda>r.
     case r of
       None \<Rightarrow> Ret (0, s)
     | Some start_page \<Rightarrow>
         bindR (fill_frames ty ow start_page (unat pages_needed) (frames s)) (\<lambda>fr.
         Ret (of_nat start_page * PAGE_SIZE,
              s\<lparr>frames := fr,
                available_pages := available_pages s - pages_needed,
                allocated_pages := allocated_pages s + pages_needed\<rparr>))))"

definition mm_free :: "u64 \<Rightarrow> mm_state \<Rightarrow> (int \<times> mm_state) outcome" where
  "mm_free addr = locked mm_lock mm_lock_update (\<lambda>s.
     let page = addr div PAGE_SIZE in
     if total_pages s \<le> page then Ret (-1, s)
     else if MAX_PAGES \<le> unat page then Fault
     else Ret (0, s\<lparr>frames := (frames s)(unat page :=
                       \<lparr>frame_type = MEM_TYPE_AVAILABLE, frame_owner = 0\<rparr>),
                    available_pages := available_pages s + 1,
                    allocated_pages := allocated_pages s - 1\<rparr>))"

text \<open>
  The loop of \<open>mm_reserve\<close>: it tests the bound before each write, so a region that runs past
  the end leaves the frames before it already written. \<open>Inl\<close> is the early return.
\<close>

primrec reserve_frames ::
  "nat \<Rightarrow> mem_type \<Rightarrow> u64 \<Rightarrow> nat \<Rightarrow> nat \<Rightarrow> (nat \<Rightarrow> mem_frame) \<Rightarrow>
   ((nat \<Rightarrow> mem_frame) + (nat \<Rightarrow> mem_frame)) outcome" where
  "reserve_frames tp ty ow i 0 fr = Ret (Inr fr)"
| "reserve_frames tp ty ow i (Suc n) fr =
     (if tp \<le> i then Ret (Inl fr)
      else if MAX_PAGES \<le> i then Fault
      else reserve_frames tp ty ow (Suc i) n (fr(i := \<lparr>frame_type = ty, frame_owner = ow\<rparr>)))"

definition mm_reserve :: "u64 \<Rightarrow> u64 \<Rightarrow> mem_type \<Rightarrow> u64 \<Rightarrow> mm_state \<Rightarrow> (int \<times> mm_state) outcome" where
  "mm_reserve base sz ty ow = locked mm_lock mm_lock_update (\<lambda>s.
     let start_page = base div PAGE_SIZE; num_pages = pages_for sz in
     bindR (reserve_frames (unat (total_pages s)) ty ow (unat start_page) (unat num_pages) (frames s))
      (\<lambda>r. case r of
        Inl fr \<Rightarrow> Ret (-1, s\<lparr>frames := fr\<rparr>)
      | Inr fr \<Rightarrow>
          if ty = MEM_TYPE_AVAILABLE
          then Ret (0, s\<lparr>frames := fr, available_pages := available_pages s + num_pages\<rparr>)
          else Ret (0, s\<lparr>frames := fr,
                         available_pages := available_pages s - num_pages,
                         allocated_pages := allocated_pages s + num_pages\<rparr>)))"

definition mm_get_type :: "u64 \<Rightarrow> mm_state \<Rightarrow> mem_type outcome" where
  "mm_get_type addr s =
     (let page = addr div PAGE_SIZE in
      if total_pages s \<le> page then Ret MEM_TYPE_RESERVED
      else if MAX_PAGES \<le> unat page then Fault
      else Ret (frame_type (frames s (unat page))))"

text \<open>A returned frame pointer is the index of the frame.\<close>

definition mm_get_frame :: "u64 \<Rightarrow> mm_state \<Rightarrow> nat option outcome" where
  "mm_get_frame addr s =
     (let page = addr div PAGE_SIZE in
      if total_pages s \<le> page then Ret None
      else if MAX_PAGES < unat page then Fault
      else Ret (Some (unat page)))"

definition mm_get_available :: "mm_state \<Rightarrow> u64" where
  "mm_get_available s = available_pages s * PAGE_SIZE"

definition mm_get_allocated :: "mm_state \<Rightarrow> u64" where
  "mm_get_allocated s = allocated_pages s * PAGE_SIZE"

section \<open>Loops in closed form\<close>

definition paint :: "mem_type \<Rightarrow> u64 \<Rightarrow> nat \<Rightarrow> nat \<Rightarrow> (nat \<Rightarrow> mem_frame) \<Rightarrow> nat \<Rightarrow> mem_frame" where
  "paint ty ow i n fr = (\<lambda>j. if i \<le> j \<and> j < i + n then \<lparr>frame_type = ty, frame_owner = ow\<rparr> else fr j)"

lemma paint_0 [simp]: "paint ty ow i 0 fr = fr"
  by (auto simp: paint_def fun_eq_iff)

lemma paint_Suc: "paint ty ow i (Suc n) fr =
    paint ty ow (Suc i) n (fr(i := \<lparr>frame_type = ty, frame_owner = ow\<rparr>))"
  by (auto simp: paint_def fun_eq_iff)

lemma fill_frames_eq: "i + n \<le> MAX_PAGES \<Longrightarrow> fill_frames ty ow i n fr = Ret (paint ty ow i n fr)"
  by (induction n arbitrary: i fr) (simp_all add: paint_Suc)

lemma fill_frames_fault:
  "MAX_PAGES < i + n \<Longrightarrow> 0 < n \<Longrightarrow> fill_frames ty ow i n fr = Fault"
proof (induction n arbitrary: i fr)
  case (Suc n)
  show ?case
  proof (cases n)
    case 0
    with Suc.prems show ?thesis by simp
  next
    case (Suc m)
    with Suc.prems Suc.IH [of "Suc i"] show ?thesis by simp
  qed
qed simp

lemma fill_frames_Ret_iff:
  "fill_frames ty ow i n fr = Ret fr' \<longleftrightarrow> fr' = paint ty ow i n fr \<and> (n = 0 \<or> i + n \<le> MAX_PAGES)"
proof (cases "n = 0 \<or> i + n \<le> MAX_PAGES")
  case True
  then show ?thesis using fill_frames_eq [of i n ty ow fr] by (cases "n = 0") auto
next
  case False
  then show ?thesis using fill_frames_fault [of i n ty ow fr] by simp
qed

section \<open>The allocator's contract\<close>

text \<open>The abstract view: which pages of the managed range are free.\<close>

definition avail :: "mm_state \<Rightarrow> nat \<Rightarrow> bool" where
  "avail s i \<longleftrightarrow> frame_type (frames s i) = MEM_TYPE_AVAILABLE"

definition run :: "mm_state \<Rightarrow> nat \<Rightarrow> nat \<Rightarrow> bool" where
  "run s st n \<longleftrightarrow> (\<forall>j<n. avail s (st + j))"

definition npages :: "mm_state \<Rightarrow> nat" where
  "npages s = unat (total_pages s)"

text \<open>The managed range fits the frame array.\<close>

definition mm_ok :: "mm_state \<Rightarrow> bool" where
  "mm_ok s \<longleftrightarrow> npages s \<le> MAX_PAGES"

text \<open>The reference: the lowest start of a free run of \<open>n\<close> pages.\<close>

definition first_fit :: "mm_state \<Rightarrow> nat \<Rightarrow> nat option" where
  "first_fit s n = first_from (\<lambda>st. run s st n) 0 (Suc (npages s) - n)"

lemma run_Suc: "run s st (Suc n) \<longleftrightarrow> run s st n \<and> avail s (st + n)"
  by (auto simp: run_def less_Suc_eq)

lemma run_0 [simp]: "run s st 0"
  by (simp add: run_def)

lemma runD: "run s st n \<Longrightarrow> st \<le> j \<Longrightarrow> j < st + n \<Longrightarrow> avail s j"
proof -
  assume "run s st n" "st \<le> j" "j < st + n"
  then show ?thesis by (auto simp: run_def dest: spec [where x = "j - st"])
qed

text \<open>Soundness of the search, whatever the alignment.\<close>

lemma mm_scan_sound:
  assumes "mm_scan s n al i start found = Ret (Some st)"
    and "0 < found \<Longrightarrow> start + found = i \<and> run s start found \<and> found < n"
  shows "run s st (max 1 n) \<and> st + max 1 n \<le> npages s \<and> st mod al = 0 \<and> al \<noteq> 0 \<and>
         st + max 1 n \<le> MAX_PAGES"
  using assms
proof (induction s n al i start found rule: mm_scan.induct)
  case (1 s n al i start found)
  define start' where "start' = (if found = 0 then i else start)"
  from "1.prems"(1) have i: "i < unat (total_pages s)" "i < MAX_PAGES"
    by (auto simp: mm_scan.simps [of s n al i start found] split: if_splits)
  show ?case
  proof (cases "avail s i")
    case False
    with i "1.prems"(1) have "mm_scan s n al (Suc i) start 0 = Ret (Some st)"
      by (auto simp: mm_scan.simps [of s n al i start found] avail_def)
    then show ?thesis using "1.IH"(3) i False by (auto simp: avail_def)
  next
    case True
    have run': "start' + Suc found = Suc i \<and> run s start' (Suc found)"
      using "1.prems"(2) True by (auto simp: start'_def run_Suc)
    consider (hit) "n \<le> Suc found" "al \<noteq> 0" "start' mod al = 0" "st = start'"
      | (drop) "n \<le> Suc found" "al \<noteq> 0" "start' mod al \<noteq> 0" "mm_scan s n al (Suc i) start' 0 = Ret (Some st)"
      | (more) "\<not> n \<le> Suc found" "mm_scan s n al (Suc i) start' (Suc found) = Ret (Some st)"
      using "1.prems"(1) i True
      by (auto simp: mm_scan.simps [of s n al i start found] avail_def start'_def Let_def split: if_splits)
    then show ?thesis
    proof cases
      case hit
      then have "max 1 n = Suc found" using "1.prems"(2) by (cases "found = 0") auto
      with hit run' i show ?thesis by (auto simp: npages_def)
    next
      case drop
      then show ?thesis using "1.IH"(1) i True by (auto simp: avail_def start'_def)
    next
      case more
      then show ?thesis using "1.IH"(2) i True run' by (auto simp: avail_def start'_def)
    qed
  qed
qed

text \<open>
  With page alignment or less the search is first fit: invariant of the loop, the pages before
  \<open>i\<close> hold no run of \<open>n\<close> pages and the free suffix that ends at \<open>i\<close> has length \<open>found\<close>.
\<close>

lemma run_blocked:
  assumes "run s st n" "st \<le> p" "p < st + n" "\<not> avail s p"
  shows False
  using runD [OF assms(1-3)] assms(4) by simp

lemma mm_scan_first:
  assumes "mm_ok s" "0 < n" "found < n" "found \<le> i"
    and "run s (i - found) found" "0 < found \<Longrightarrow> start = i - found"
    and "found < i \<Longrightarrow> \<not> avail s (i - Suc found)"
    and "\<And>st. st + n \<le> i \<Longrightarrow> \<not> run s st n"
  shows "mm_scan s n 1 i start found = Ret (first_from (\<lambda>st. run s st n) 0 (Suc (npages s) - n))"
  using assms
proof (induction s n "1 :: nat" i start found rule: mm_scan.induct)
  case (1 s n i start found)
  note unfold = mm_scan.simps [of s n "Suc 0" i start found]
  show ?case
  proof (cases "i < npages s")
    case False
    then have "\<not> run s st n" if "st < Suc (npages s) - n" for st
      using "1.prems"(8) [of st] that by simp
    then have "first_from (\<lambda>st. run s st n) 0 (Suc (npages s) - n) = None"
      by (simp add: first_from_None_iff)
    with False show ?thesis by (simp add: unfold npages_def)
  next
    case i: True
    then have iM: "i < MAX_PAGES" using "1.prems"(1) by (simp add: mm_ok_def)
    show ?thesis
    proof (cases "avail s i")
      case False
      have "\<not> run s st n" if "st + n \<le> Suc i" for st
        using "1.prems"(2) "1.prems"(8) [of st] run_blocked [of s st n i] that False
        by (cases "st + n \<le> i") auto
      then have "mm_scan s n 1 (Suc i) start 0 = Ret (first_from (\<lambda>st. run s st n) 0 (Suc (npages s) - n))"
        using "1.hyps"(3) i iM False "1.prems"(1,2) by (auto simp: avail_def npages_def)
      with i iM False show ?thesis by (simp add: unfold npages_def avail_def)
    next
      case True
      define start' where "start' = (if found = 0 then i else start)"
      have start': "start' = i - found" using "1.prems"(6) by (simp add: start'_def)
      have run': "run s (i - found) (Suc found)"
        using "1.prems"(4,5) True by (simp add: run_Suc)
      show ?thesis
      proof (cases "n \<le> Suc found")
        case hit: True
        with "1.prems"(3) have n: "n = Suc found" by simp
        have "first_from (\<lambda>st. run s st n) 0 (Suc (npages s) - n) = Some (i - found)"
        proof (rule first_from_SomeI)
          show "i - found < Suc (npages s) - n" using n i "1.prems"(4) by simp
          show "run s (i - found) n" using run' n by simp
          show "\<not> run s j n" if "j < i - found" for j
            using that "1.prems"(8) [of j] n by simp
        qed simp
        with hit i iM True start' show ?thesis
          by (simp add: unfold npages_def avail_def start'_def Let_def)
      next
        case more: False
        have "\<not> run s st n" if "st + n \<le> Suc i" for st
        proof (cases "st + n \<le> i")
          case True
          then show ?thesis using "1.prems"(8) by blast
        next
          case False
          with that more have st: "st + n = Suc i" "st < i - found" by auto
          then have "\<not> avail s (i - Suc found)" using "1.prems"(7) by simp
          moreover have "st \<le> i - Suc found" "i - Suc found < st + n" using st by linarith+
          ultimately show ?thesis using run_blocked by blast
        qed
        moreover have "Suc found < Suc i \<Longrightarrow> \<not> avail s (i - Suc found)"
          using "1.prems"(7) by simp
        ultimately have "mm_scan s n 1 (Suc i) start' (Suc found) =
            Ret (first_from (\<lambda>st. run s st n) 0 (Suc (npages s) - n))"
          using "1.hyps"(2) i iM True more "1.prems"(1,2,4) start' run'
          by (simp add: avail_def npages_def start'_def)
        with more i iM True show ?thesis
          by (simp add: unfold npages_def avail_def start'_def Let_def)
      qed
    qed
  qed
qed

lemma mm_scan_first_fit:
  "mm_ok s \<Longrightarrow> 0 < n \<Longrightarrow> mm_scan s n 1 0 0 0 = Ret (first_fit s n)"
  unfolding first_fit_def by (rule mm_scan_first) auto

lemma mm_scan_no_memory:
  "(\<forall>i<npages s. \<not> avail s i) \<Longrightarrow> mm_ok s \<Longrightarrow> mm_scan s n al i start found = Ret None"
proof (induction s n al i start found rule: mm_scan.induct)
  case (1 s n al i start found)
  then show ?case
    by (auto simp: mm_scan.simps [of s n al i start found] npages_def avail_def mm_ok_def)
qed

section \<open>Allocation\<close>

text \<open>What a call of \<open>mm_alloc\<close> does when the search found a start page.\<close>

definition alloc_at :: "mem_type \<Rightarrow> u64 \<Rightarrow> nat \<Rightarrow> nat \<Rightarrow> mm_state \<Rightarrow> mm_state" where
  "alloc_at ty ow st n s = s\<lparr>frames := paint ty ow st n (frames s),
     available_pages := available_pages s - of_nat n,
     allocated_pages := allocated_pages s + of_nat n\<rparr>"

lemma alloc_at_simps [simp]:
  "total_pages (alloc_at ty ow st n s) = total_pages s"
  "mm_lock (alloc_at ty ow st n s) = mm_lock s"
  "npages (alloc_at ty ow st n s) = npages s"
  "mm_ok (alloc_at ty ow st n s) = mm_ok s"
  by (simp_all add: alloc_at_def npages_def mm_ok_def)

lemma avail_alloc_at:
  "ty \<noteq> MEM_TYPE_AVAILABLE \<Longrightarrow>
   avail (alloc_at ty ow st n s) p \<longleftrightarrow> avail s p \<and> \<not> (st \<le> p \<and> p < st + n)"
  by (simp add: alloc_at_def avail_def paint_def)

lemma lock_irrelevant [simp]:
  "avail (s\<lparr>mm_lock := l\<rparr>) = avail s"
  "run (s\<lparr>mm_lock := l\<rparr>) = run s"
  "npages (s\<lparr>mm_lock := l\<rparr>) = npages s"
  "mm_ok (s\<lparr>mm_lock := l\<rparr>) = mm_ok s"
  "first_fit (s\<lparr>mm_lock := l\<rparr>) = first_fit s"
  by (simp_all add: avail_def run_def npages_def mm_ok_def first_fit_def fun_eq_iff)

lemma mm_alloc_cases:
  assumes "mm_alloc sz align ty ow s = Ret (a, t)"
  shows "mm_lock s = 0 \<and>
    (a = 0 \<and> t = s \<or>
     (\<exists>st. mm_scan (s\<lparr>mm_lock := 1\<rparr>) (unat (pages_for sz)) (unat (pages_for align)) 0 0 0 = Ret (Some st) \<and>
        a = of_nat st * PAGE_SIZE \<and> t = alloc_at ty ow st (unat (pages_for sz)) s))"
proof -
  have "t = s" if "t = s\<lparr>mm_lock := 0\<rparr>" "mm_lock s = 0"
    using that by (metis mm_state.surjective mm_state.update_convs(5))
  then show ?thesis
    using assms
    by (auto simp: mm_alloc_def outcome_simps Let_def alloc_at_def fill_frames_Ret_iff
        split: if_splits option.splits)
qed

lemma mm_alloc_result:
  assumes "mm_alloc sz align ty ow s = Ret (a, t)" and "a \<noteq> 0"
  obtains st where "mm_lock s = 0" "unat a = st * 4096" "a = of_nat st * PAGE_SIZE" "0 < st"
    "run s st (max 1 (unat (pages_for sz)))" "st + max 1 (unat (pages_for sz)) \<le> npages s"
    "st mod unat (pages_for align) = 0" "pages_for align \<noteq> 0"
    "t = alloc_at ty ow st (unat (pages_for sz)) s"
proof -
  from mm_alloc_cases [OF assms(1)] assms(2) obtain st where
    scan: "mm_scan (s\<lparr>mm_lock := 1\<rparr>) (unat (pages_for sz)) (unat (pages_for align)) 0 0 0 = Ret (Some st)"
    and a: "a = of_nat st * PAGE_SIZE" and t: "t = alloc_at ty ow st (unat (pages_for sz)) s"
    and lock: "mm_lock s = 0"
    by auto
  note sound = mm_scan_sound [OF scan]
  then have "st < MAX_PAGES" by auto
  then have st: "st < 2 ^ 52" by (simp add: MAX_PAGES_def)
  then have "unat a = st * 4096" using a by (simp only: unat_page_addr)
  moreover have "0 < st" using a assms(2) by (cases st) auto
  ultimately show thesis using that [of st] sound a t lock by (auto simp: unat_eq_zero)
qed

locale page_allocator =
  fixes alloc :: "'s \<Rightarrow> (u64 \<times> 's) outcome"
    and free_page :: "'s \<Rightarrow> nat \<Rightarrow> bool"
    and ok :: "'s \<Rightarrow> bool"
    and n :: nat
  assumes alloc_ok: "ok s \<Longrightarrow> alloc s = Ret (a, t) \<Longrightarrow> ok t"
    and alloc_aligned: "ok s \<Longrightarrow> alloc s = Ret (a, t) \<Longrightarrow> a \<noteq> 0 \<Longrightarrow> unat a mod 4096 = 0"
    and alloc_fresh: "ok s \<Longrightarrow> alloc s = Ret (a, t) \<Longrightarrow> a \<noteq> 0 \<Longrightarrow> j < n \<Longrightarrow>
      free_page s (unat a div 4096 + j) \<and> \<not> free_page t (unat a div 4096 + j)"
    and alloc_shrinks: "ok s \<Longrightarrow> alloc s = Ret (a, t) \<Longrightarrow> free_page t p \<Longrightarrow> free_page s p"
begin

text \<open>An allocation stays clear of every page in use, and its own pages become in use.\<close>

lemma clear_of_used:
  assumes "ok s" "alloc s = Ret (a, t)" "a \<noteq> 0" "\<forall>p\<in>U. \<not> free_page s p"
  shows "{unat a div 4096..<unat a div 4096 + n} \<inter> U = {}"
    and "\<forall>p\<in>U \<union> {unat a div 4096..<unat a div 4096 + n}. \<not> free_page t p"
proof -
  have pages: "\<exists>j<n. p = unat a div 4096 + j"
    if "p \<in> {unat a div 4096..<unat a div 4096 + n}" for p
    using that by (auto intro: exI [where x = "p - unat a div 4096"])
  show "{unat a div 4096..<unat a div 4096 + n} \<inter> U = {}"
    using pages alloc_fresh [OF assms(1-3)] assms(4) by fastforce
  show "\<forall>p\<in>U \<union> {unat a div 4096..<unat a div 4096 + n}. \<not> free_page t p"
    using pages alloc_fresh [OF assms(1-3)] assms(4) alloc_shrinks [OF assms(1,2)] by fastforce
qed

text \<open>Two allocations that both succeed never overlap.\<close>

lemma two_disjoint:
  assumes "ok s" "alloc s = Ret (a, t)" "a \<noteq> 0" "alloc t = Ret (b, u)" "b \<noteq> 0"
  shows "{unat a div 4096..<unat a div 4096 + n} \<inter> {unat b div 4096..<unat b div 4096 + n} = {}"
  using clear_of_used(1) [OF alloc_ok [OF assms(1,2)] assms(4,5)]
    clear_of_used(2) [OF assms(1-3), of "{}"] by blast

end

lemma mm_page_allocator:
  assumes "ty \<noteq> MEM_TYPE_AVAILABLE" and n: "n = unat (pages_for sz)"
  shows "page_allocator (mm_alloc sz align ty ow) avail mm_ok n"
proof
  fix s a t p
  assume ok: "mm_ok s" and ret: "mm_alloc sz align ty ow s = Ret (a, t)"
  show "mm_ok t" using mm_alloc_cases [OF ret] ok by auto
  show "avail s p" if "avail t p"
    using mm_alloc_cases [OF ret] that assms(1) by (auto simp: avail_alloc_at)
  assume a: "a \<noteq> 0"
  obtain st where st: "unat a = st * 4096" "run s st (max 1 n)" "t = alloc_at ty ow st n s"
    using mm_alloc_result [OF ret a] n by metis
  show "unat a mod 4096 = 0" using st(1) by simp
  show "avail s (unat a div 4096 + j) \<and> \<not> avail t (unat a div 4096 + j)" if "j < n" for j
    using st that assms(1) by (auto simp: run_def avail_alloc_at)
qed

text \<open>The request for one page-table frame, \<open>mm_alloc(PAGE_SIZE, PAGE_SIZE, KERNEL, 0)\<close>.\<close>

lemma pages_for_PAGE_SIZE: "pages_for PAGE_SIZE = 1"
  by (simp add: pages_for_def PAGE_SIZE_def)

interpretation kernel_page: page_allocator
  "mm_alloc PAGE_SIZE PAGE_SIZE MEM_TYPE_KERNEL 0" avail mm_ok 1
  by (rule mm_page_allocator) (simp_all add: pages_for_PAGE_SIZE)

section \<open>Sequences of calls\<close>

text \<open>
  Every call a client can make once the allocator is initialised, with the number of pages a successful \<open>mm_reserve\<close>
  with the type \<open>MEM_TYPE_AVAILABLE\<close> hands over; and runs of calls, with the pages handed over in all.
\<close>

inductive mm_step :: "mm_state \<Rightarrow> u64 \<Rightarrow> mm_state \<Rightarrow> bool" where
  alloc: "mm_alloc sz align ty ow s = Ret (a, t) \<Longrightarrow> mm_step s 0 t"
| free: "mm_free addr s = Ret (r, t) \<Longrightarrow> mm_step s 0 t"
| reserve: "mm_reserve base sz ty ow s = Ret (r, t) \<Longrightarrow>
    mm_step s (if ty = MEM_TYPE_AVAILABLE \<and> r = 0 then pages_for sz else 0) t"

inductive mm_steps :: "mm_state \<Rightarrow> u64 \<Rightarrow> mm_state \<Rightarrow> bool" where
  start: "mm_steps s 0 s"
| call: "mm_steps s d t \<Longrightarrow> mm_step t e u \<Longrightarrow> mm_steps s (d + e) u"

text \<open>The same pages are managed, and the sum of the two counters has grown by \<open>d\<close>.\<close>

definition same_pool :: "mm_state \<Rightarrow> u64 \<Rightarrow> mm_state \<Rightarrow> bool" where
  "same_pool s d t \<longleftrightarrow>
     total_pages t = total_pages s \<and>
     available_pages t + allocated_pages t = available_pages s + allocated_pages s + d \<and>
     (\<forall>i. npages s \<le> i \<longrightarrow> frames t i = frames s i)"

lemma same_pool_refl [simp]: "same_pool s 0 s"
  by (simp add: same_pool_def)

lemma same_pool_trans: "same_pool s d t \<Longrightarrow> same_pool t e u \<Longrightarrow> same_pool s (d + e) u"
  by (auto simp: same_pool_def npages_def)

lemma same_pool_lock [simp]: "same_pool s d (t\<lparr>mm_lock := l\<rparr>) = same_pool s d t"
  by (simp add: same_pool_def)

lemma paint_outside: "st + n \<le> p \<Longrightarrow> paint ty ow st n fr p = fr p"
  by (simp add: paint_def)

lemma reserve_frames_outside:
  "reserve_frames tp ty ow i n fr = Ret r \<Longrightarrow> tp \<le> p \<Longrightarrow> case_sum id id r p = fr p"
proof (induction n arbitrary: i fr)
  case (Suc n)
  show ?case
  proof (cases "tp \<le> i")
    case False
    with Suc.prems(1)
    have "reserve_frames tp ty ow (Suc i) n (fr(i := \<lparr>frame_type = ty, frame_owner = ow\<rparr>)) = Ret r"
      by (simp split: if_splits)
    from Suc.IH [OF this Suc.prems(2)] False Suc.prems(2) show ?thesis by simp
  qed (use Suc.prems in auto)
qed auto

lemma same_pool_alloc:
  assumes "mm_alloc sz align ty ow s = Ret (a, t)"
  shows "same_pool s 0 t"
proof -
  from mm_alloc_cases [OF assms] consider "t = s"
    | st where "mm_scan (s\<lparr>mm_lock := 1\<rparr>) (unat (pages_for sz)) (unat (pages_for align)) 0 0 0 = Ret (Some st)"
        "t = alloc_at ty ow st (unat (pages_for sz)) s"
    by blast
  then show ?thesis
  proof cases
    case 2
    then have "st + unat (pages_for sz) \<le> npages s" using mm_scan_sound [OF 2(1)] by auto
    with 2 show ?thesis by (auto simp: same_pool_def alloc_at_def paint_outside)
  qed simp
qed

lemma same_pool_free: "mm_free addr s = Ret (r, t) \<Longrightarrow> same_pool s 0 t"
  by (auto simp: mm_free_def outcome_simps Let_def same_pool_def npages_def word_le_nat_alt
      split: if_splits)

lemma same_pool_reserve:
  assumes "mm_reserve base sz ty ow s = Ret (r, t)"
  shows "same_pool s (if ty = MEM_TYPE_AVAILABLE \<and> r = 0 then pages_for sz else 0) t"
proof -
  from assms obtain x where
    x: "reserve_frames (npages s) ty ow (unat (base div PAGE_SIZE)) (unat (pages_for sz)) (frames s) = Ret x"
    and t: "case x of Inl fr \<Rightarrow> r = -1 \<and> t = s\<lparr>frames := fr, mm_lock := 0\<rparr>
      | Inr fr \<Rightarrow> r = 0 \<and> t = (if ty = MEM_TYPE_AVAILABLE
          then s\<lparr>frames := fr, available_pages := available_pages s + pages_for sz, mm_lock := 0\<rparr>
          else s\<lparr>frames := fr, available_pages := available_pages s - pages_for sz,
            allocated_pages := allocated_pages s + pages_for sz, mm_lock := 0\<rparr>)"
    by (fastforce simp: mm_reserve_def outcome_simps Let_def npages_def split: if_splits sum.split_asm)
  from reserve_frames_outside [OF x] t show ?thesis
    by (cases x) (auto simp: same_pool_def)
qed

text \<open>
  C37. The page counters are conserved: after any sequence of returning calls of \<open>mm_alloc\<close>, \<open>mm_free\<close> and \<open>mm_reserve\<close>,
  failing ones included, the two counters add up to what they did before plus the pages that calls of \<open>mm_reserve\<close> have
  handed over as available (modulo 2^64), the number of managed pages is unchanged, and no frame outside the managed
  range was written.
\<close>

theorem mm_counters_conserved: "mm_steps s d t \<Longrightarrow> same_pool s d t"
  by (induction rule: mm_steps.induct)
    (auto elim!: mm_step.cases
      intro: same_pool_trans same_pool_trans [where e = 0, simplified] same_pool_alloc same_pool_free same_pool_reserve)

section \<open>Correctness of allocation and freeing\<close>

lemma mm_alloc_first_fit_eq:
  assumes "mm_ok s" "mm_lock s = 0" "pages_for align = 1" "pages_for sz \<noteq> 0"
  shows "mm_alloc sz align ty ow s =
    Ret (case first_fit s (unat (pages_for sz)) of
           None \<Rightarrow> (0, s)
         | Some st \<Rightarrow> (of_nat st * PAGE_SIZE, alloc_at ty ow st (unat (pages_for sz)) s))"
proof -
  have n: "0 < unat (pages_for sz)" using assms(4) by (simp add: unat_gt_0)
  have "mm_scan (s\<lparr>mm_lock := 1\<rparr>) (unat (pages_for sz)) 1 0 0 0 =
      Ret (first_fit (s\<lparr>mm_lock := 1\<rparr>) (unat (pages_for sz)))"
    by (rule mm_scan_first_fit) (use assms n in auto)
  moreover have "s\<lparr>mm_lock := 0\<rparr> = s" using assms(2) by simp
  moreover have "st + unat (pages_for sz) \<le> MAX_PAGES"
    if "first_fit s (unat (pages_for sz)) = Some st" for st
    using first_from_SomeD(2) [OF that [unfolded first_fit_def]] assms(1) n
    by (simp add: mm_ok_def)
  ultimately show ?thesis
    using assms(2,3)
    by (auto simp: mm_alloc_def outcome_simps Let_def fill_frames_Ret_iff alloc_at_def
        split: option.splits)
qed

text \<open>A small machine: eight managed pages, of which 1 to 5 are free.\<close>

definition sample_mm :: mm_state where
  "sample_mm = \<lparr>frames = (\<lambda>i. if 1 \<le> i \<and> i \<le> 5 then zero_frame\<lparr>frame_type := MEM_TYPE_AVAILABLE\<rparr>
                            else zero_frame),
    total_pages = 8, available_pages = 5, allocated_pages = 3, mm_lock = 0\<rparr>"

lemma sample_mm_simps [simp]:
  "mm_ok sample_mm" "mm_lock sample_mm = 0" "npages sample_mm = 8"
  "avail sample_mm i \<longleftrightarrow> 1 \<le> i \<and> i \<le> 5" "frame_owner (frames sample_mm i) = 0"
  by (auto simp: sample_mm_def mm_ok_def npages_def MAX_PAGES_def avail_def zero_frame_def)

lemma sample_pages: "pages_for 8192 = 2" "pages_for 4096 = 1" "pages_for 16384 = 4"
  by (simp_all add: pages_for_def PAGE_SIZE_def)

lemma sample_first_fit: "first_fit sample_mm 2 = Some 1" "first_fit sample_mm 1 = Some 1"
  "first_fit sample_mm (Suc 0) = Some 1"
  unfolding first_fit_def by (rule first_from_SomeI; auto simp: run_def less_Suc_eq numeral_2_eq_2)+

text \<open>
  C8. Allocation is first fit: on an initialised allocator, a request aligned to at most a
  page returns the address of the lowest run of free pages that is long enough, with exactly
  that run retyped and both counters moved by its length; if there is no such run it returns
  0 and changes nothing.
\<close>

theorem mm_alloc_first_fit:
  assumes "mm_ok s" "mm_lock s = 0" "pages_for align = 1" "pages_for sz \<noteq> 0"
  shows "mm_alloc sz align ty ow s =
    Ret (case first_fit s (unat (pages_for sz)) of
           None \<Rightarrow> (0, s)
         | Some st \<Rightarrow> (of_nat st * PAGE_SIZE, alloc_at ty ow st (unat (pages_for sz)) s))"
  using assms by (rule mm_alloc_first_fit_eq)

theorem mm_alloc_first_fit_witness:
  "mm_alloc 8192 4096 MEM_TYPE_KERNEL 7 sample_mm =
     Ret (4096, alloc_at MEM_TYPE_KERNEL 7 1 2 sample_mm)"
  using mm_alloc_first_fit [of sample_mm 4096 8192 MEM_TYPE_KERNEL 7]
  by (simp add: sample_pages sample_first_fit PAGE_SIZE_def)

text \<open>
  C16. Whatever the size and the alignment, a successful allocation returns a page address that
  is a multiple of the requested alignment (in pages), every page of the block was free and is
  now of the requested type and owner, no other frame changed, and the counters moved by the
  length of the block.
\<close>

theorem mm_alloc_sound:
  assumes "mm_alloc sz align ty ow s = Ret (a, t)" and "a \<noteq> 0"
  shows "\<exists>st. unat a = st * 4096 \<and> st mod unat (pages_for align) = 0 \<and>
     st + unat (pages_for sz) \<le> npages s \<and>
     (\<forall>p. st \<le> p \<and> p < st + unat (pages_for sz) \<longrightarrow>
        frame_type (frames s p) = MEM_TYPE_AVAILABLE \<and>
        frames t p = \<lparr>frame_type = ty, frame_owner = ow\<rparr>) \<and>
     (\<forall>p. p < st \<or> st + unat (pages_for sz) \<le> p \<longrightarrow> frames t p = frames s p) \<and>
     available_pages t = available_pages s - pages_for sz \<and>
     allocated_pages t = allocated_pages s + pages_for sz"
proof -
  obtain st where st: "unat a = st * 4096" "run s st (max 1 (unat (pages_for sz)))"
    "st + max 1 (unat (pages_for sz)) \<le> npages s" "st mod unat (pages_for align) = 0"
    "t = alloc_at ty ow st (unat (pages_for sz)) s"
    using assms by (rule mm_alloc_result)
  have "avail s p" if "st \<le> p" "p < st + unat (pages_for sz)" for p
    using runD [OF st(2) that(1)] that(2) by simp
  with st show ?thesis
    by (intro exI [where x = st]) (auto simp: alloc_at_def paint_def avail_def)
qed

theorem mm_alloc_sound_witness:
  "\<exists>st. unat (4096 :: u64) = st * 4096 \<and> st + 2 \<le> npages sample_mm"
  using mm_alloc_sound [of 8192 4096 MEM_TYPE_KERNEL 7 sample_mm 4096]
    mm_alloc_first_fit_eq [of sample_mm 4096 8192 MEM_TYPE_KERNEL 7]
  by (auto simp: sample_pages sample_first_fit PAGE_SIZE_def)

text \<open>
  \<open>mm_free\<close> gives back one page: freeing an \<open>n\<close>-page block that was just allocated leaves
  exactly the allocator in which the block's last \<open>n - 1\<close> pages are still allocated. For a
  one-page block that is the original state; a longer block leaks.
\<close>

theorem mm_free_after_alloc:
  assumes "mm_alloc sz align ty ow s = Ret (a, t)" "a \<noteq> 0" "pages_for sz \<noteq> 0" "mm_ok s"
    and "\<And>p. avail s p \<Longrightarrow> frame_owner (frames s p) = 0"
  shows "mm_free a t =
    Ret (0, alloc_at ty ow (Suc (unat a div 4096)) (unat (pages_for sz) - 1) s)"
proof -
  define n where "n = unat (pages_for sz)"
  have n: "0 < n" using assms(3) by (simp add: n_def unat_gt_0)
  obtain st where lock: "mm_lock s = 0" and a: "unat a = st * 4096"
    and run: "run s st (max 1 n)" and bound: "st + max 1 n \<le> npages s"
    and t: "t = alloc_at ty ow st n s"
    using assms(1,2) unfolding n_def by (rule mm_alloc_result)
  have page: "unat (a div PAGE_SIZE) = st" by (simp add: unat_div_PAGE_SIZE a)
  have st: "st < npages s" "st < MAX_PAGES" using n bound assms(4) by (auto simp: mm_ok_def)
  have "frames s st = \<lparr>frame_type = MEM_TYPE_AVAILABLE, frame_owner = 0\<rparr>"
    using runD [OF run, of st] assms(5) [of st] by (simp add: avail_def)
  then have "(paint ty ow st n (frames s))(st := \<lparr>frame_type = MEM_TYPE_AVAILABLE, frame_owner = 0\<rparr>) =
      paint ty ow (Suc st) (n - 1) (frames s)"
    using n by (auto simp: paint_def fun_eq_iff)
  moreover have "of_nat n = (of_nat (n - 1) + 1 :: u64)" using n by (cases n) auto
  moreover have "\<not> total_pages s \<le> a div PAGE_SIZE"
    using st(1) page by (simp add: word_le_nat_alt npages_def)
  ultimately show ?thesis
    using lock st page
    by (simp add: mm_free_def outcome_simps Let_def t alloc_at_def a n_def [symmetric])
qed

theorem mm_free_after_alloc_witness:
  "mm_free 4096 (alloc_at MEM_TYPE_KERNEL 7 1 2 sample_mm) =
     Ret (0, alloc_at MEM_TYPE_KERNEL 7 2 1 sample_mm)"
proof -
  have "mm_alloc 8192 4096 MEM_TYPE_KERNEL 7 sample_mm =
      Ret (4096, alloc_at MEM_TYPE_KERNEL 7 1 2 sample_mm)"
    using mm_alloc_first_fit_eq [of sample_mm 4096 8192 MEM_TYPE_KERNEL 7]
    by (simp add: sample_pages sample_first_fit PAGE_SIZE_def)
  from mm_free_after_alloc [OF this] show ?thesis
    by (simp add: sample_pages) (simp add: numeral_2_eq_2)
qed

text \<open>
  \<open>mm_init\<close> writes outside the frame array for more than 512 MB, and otherwise leaves no
  page that can be allocated: every allocation returns 0, at any size and page alignment,
  although the allocator reports the whole memory as available.
\<close>

theorem mm_init_outcome:
  "mm_init mem s =
     (if MAX_PAGES < unat mem div 4096 then Fault
      else Ret (0, \<lparr>frames = \<lambda>_. zero_frame, total_pages = mem div PAGE_SIZE,
                    available_pages = mem div PAGE_SIZE, allocated_pages = 0, mm_lock = 0\<rparr>)) \<and>
   (mm_init mem s = Ret (r, t) \<longrightarrow>
      mm_alloc sz align ty ow t = Ret (0, t) \<and> mm_get_available t = mem div PAGE_SIZE * PAGE_SIZE)"
proof (cases "MAX_PAGES < unat mem div 4096")
  case True
  then have "fill_frames MEM_TYPE_RESERVED 0 0 (unat mem div 4096) fr = Fault" for fr
    by (intro fill_frames_fault) auto
  with True show ?thesis by (simp add: mm_init_def Let_def unat_div_PAGE_SIZE outcome_simps)
next
  case False
  have zero: "paint MEM_TYPE_RESERVED 0 0 n (\<lambda>_. zero_frame) = (\<lambda>_. zero_frame)" for n
    by (auto simp: paint_def zero_frame_def fun_eq_iff)
  have init: "mm_init mem s =
      Ret (0, \<lparr>frames = \<lambda>_. zero_frame, total_pages = mem div PAGE_SIZE,
               available_pages = mem div PAGE_SIZE, allocated_pages = 0, mm_lock = 0\<rparr>)"
    using False by (simp add: mm_init_def Let_def unat_div_PAGE_SIZE fill_frames_eq zero)
  have alloc: "mm_alloc sz align ty ow t = Ret (0, t)" if "mm_init mem s = Ret (r, t)"
  proof -
    from that init have t: "t = \<lparr>frames = \<lambda>_. zero_frame, total_pages = mem div PAGE_SIZE,
        available_pages = mem div PAGE_SIZE, allocated_pages = 0, mm_lock = 0\<rparr>" by simp
    have "mm_scan (t\<lparr>mm_lock := 1\<rparr>) n al 0 0 0 = Ret None" for n al
      by (rule mm_scan_no_memory)
        (use False in \<open>auto simp: t avail_def zero_frame_def mm_ok_def npages_def unat_div_PAGE_SIZE\<close>)
    then show ?thesis by (simp add: mm_alloc_def outcome_simps Let_def) (simp add: t)
  qed
  show ?thesis using False init alloc by (auto simp: mm_get_available_def)
qed

theorem mm_init_outcome_witness:
  "mm_alloc 4096 4096 MEM_TYPE_KERNEL 0 \<lparr>frames = \<lambda>_. zero_frame, total_pages = 131072,
      available_pages = 131072, allocated_pages = 0, mm_lock = 0\<rparr> =
   Ret (0, \<lparr>frames = \<lambda>_. zero_frame, total_pages = 131072,
      available_pages = 131072, allocated_pages = 0, mm_lock = 0\<rparr>)"
  using mm_init_outcome [of "0x20000000" sample_mm 0 "\<lparr>frames = \<lambda>_. zero_frame,
      total_pages = 131072, available_pages = 131072, allocated_pages = 0, mm_lock = 0\<rparr>"
      4096 4096 MEM_TYPE_KERNEL 0]
  by (simp add: MAX_PAGES_def PAGE_SIZE_def)

text \<open>
  The search is not complete for a coarser alignment: with pages 1 to 5 free, a request
  for two pages at a four-page boundary is refused, although the free pages 4 and 5 satisfy it.
\<close>

theorem mm_alloc_misses_aligned_block:
  "mm_alloc 8192 16384 ty ow sample_mm = Ret (0, sample_mm) \<and>
   run sample_mm 4 2 \<and> 4 mod unat (pages_for 16384) = 0"
proof -
  have tp: "total_pages sample_mm = 8" by (simp add: sample_mm_def)
  have fr: "frame_type (frames sample_mm i) = MEM_TYPE_AVAILABLE \<longleftrightarrow> 1 \<le> i \<and> i \<le> 5" for i
    by (simp add: sample_mm_def zero_frame_def)
  have "mm_scan (sample_mm\<lparr>mm_lock := 1\<rparr>) 2 4 0 0 0 = Ret None"
    by (simp add: mm_scan.simps tp fr MAX_PAGES_def Let_def)
  then show ?thesis
    by (simp add: mm_alloc_def outcome_simps sample_pages run_def)
qed

text \<open>
  Two live blocks never overlap: after a successful allocation of any size, a second
  successful allocation of any size returns a block disjoint from the first.
\<close>

theorem mm_alloc_disjoint:
  assumes "mm_alloc sz align ty ow s = Ret (a, t)" "a \<noteq> 0" "ty \<noteq> MEM_TYPE_AVAILABLE"
    and "mm_alloc sz' align' ty' ow' t = Ret (b, u)" "b \<noteq> 0"
  shows "{unat a div 4096..<unat a div 4096 + unat (pages_for sz)} \<inter>
         {unat b div 4096..<unat b div 4096 + unat (pages_for sz')} = {}"
proof -
  obtain st where st: "unat a = st * 4096" "t = alloc_at ty ow st (unat (pages_for sz)) s"
    using assms(1,2) by (rule mm_alloc_result)
  obtain st' where st': "unat b = st' * 4096" "run t st' (max 1 (unat (pages_for sz')))"
    using assms(4,5) by (rule mm_alloc_result)
  have "\<not> (st \<le> p \<and> p < st + unat (pages_for sz))" if "st' \<le> p" "p < st' + unat (pages_for sz')" for p
  proof -
    have "avail t p" using runD [OF st'(2) that(1)] that(2) by simp
    then show ?thesis using assms(3) by (simp add: st(2) avail_alloc_at)
  qed
  then show ?thesis using st(1) st'(1) by fastforce
qed

theorem mm_alloc_disjoint_witness: "{1..<1 + 2} \<inter> {3..<3 + (1 :: nat)} = {}"
proof -
  let ?t = "alloc_at MEM_TYPE_KERNEL 7 1 2 sample_mm"
  have first: "mm_alloc 8192 4096 MEM_TYPE_KERNEL 7 sample_mm = Ret (4096, ?t)"
    using mm_alloc_first_fit_eq [of sample_mm 4096 8192 MEM_TYPE_KERNEL 7]
    by (simp add: sample_pages sample_first_fit PAGE_SIZE_def)
  have "first_fit ?t 1 = Some 3"
    unfolding first_fit_def
    by (rule first_from_SomeI) (auto simp: run_def avail_alloc_at)
  then have second: "mm_alloc 4096 4096 MEM_TYPE_KERNEL 7 ?t =
      Ret (12288, alloc_at MEM_TYPE_KERNEL 7 3 1 ?t)"
    using mm_alloc_first_fit_eq [of ?t 4096 4096 MEM_TYPE_KERNEL 7]
    by (simp add: sample_pages PAGE_SIZE_def)
  from mm_alloc_disjoint [OF first _ _ second] show ?thesis by (simp add: sample_pages)
qed

lemma mm_scan_0: "mm_scan s 0 al i start 0 = mm_scan s 1 al i start 0"
proof (induction "npages s - i" arbitrary: i start)
  case 0
  then show ?case
    by (simp add: mm_scan.simps [of s 0 al i] mm_scan.simps [of s "Suc 0" al i] npages_def)
next
  case (Suc d)
  then have "mm_scan s 0 al (Suc i) st 0 = mm_scan s 1 al (Suc i) st 0" for st by simp
  then show ?case
    by (simp add: mm_scan.simps [of s 0 al i] mm_scan.simps [of s "Suc 0" al i] npages_def Let_def)
qed

lemma pages_for_wrap:
  assumes "2 ^ 64 - 4096 < unat sz"
  shows "pages_for sz = 0"
proof -
  define k where "k = 2 ^ 64 - 1 - unat sz"
  have "unat sz < 2 ^ 64" using unsigned_less [of sz] by simp
  then have k: "k < 4095" "unat sz + k = 2 ^ 64 - 1" using assms by (auto simp: k_def)
  have "unat (sz + PAGE_SIZE - 1) = (unat sz + 4095) mod 2 ^ 64"
    by (simp add: PAGE_SIZE_def unat_word_ariths) (simp only: add.commute)
  also have "\<dots> = unat sz + 4095 - 2 ^ 64"
    using k by (subst le_mod_geq) auto
  finally have "unat (sz + PAGE_SIZE - 1) < 4096" using k by simp
  then have "unat (pages_for sz) = 0" by (simp add: pages_for_def unat_div_PAGE_SIZE)
  then show ?thesis by (simp add: unat_eq_zero)
qed

text \<open>
  The page count of a request wraps: a size within 4095 bytes of 2^64 needs no page at
  all, so the request succeeds with the address of the lowest free page and takes nothing.
\<close>

theorem mm_alloc_size_wraps:
  assumes "mm_ok s" "mm_lock s = 0" "pages_for align = 1"
    and "2 ^ 64 - 4096 < unat sz" "first_fit s 1 = Some p"
  shows "mm_alloc sz align ty ow s = Ret (of_nat p * PAGE_SIZE, s)"
proof -
  have "mm_scan (s\<lparr>mm_lock := 1\<rparr>) 0 1 0 0 0 = Ret (Some p)"
    unfolding mm_scan_0 by (subst mm_scan_first_fit) (use assms in auto)
  then show ?thesis
    using assms(2,3) pages_for_wrap [OF assms(4)]
    by (simp add: mm_alloc_def outcome_simps) 
qed

theorem mm_alloc_size_wraps_witness:
  "mm_alloc 18446744073709551615 4096 MEM_TYPE_KERNEL 7 sample_mm = Ret (4096, sample_mm)"
  using mm_alloc_size_wraps [of sample_mm 4096 18446744073709551615 1 MEM_TYPE_KERNEL 7]
  by (simp add: sample_pages sample_first_fit PAGE_SIZE_def)

theorem mm_counters_conserved_witness:
  "same_pool sample_mm 0 (alloc_at MEM_TYPE_KERNEL 7 1 2 sample_mm)"
proof -
  have "mm_alloc 8192 4096 MEM_TYPE_KERNEL 7 sample_mm =
      Ret (4096, alloc_at MEM_TYPE_KERNEL 7 1 2 sample_mm)"
    using mm_alloc_first_fit_eq [of sample_mm 4096 8192 MEM_TYPE_KERNEL 7]
    by (simp add: sample_pages sample_first_fit PAGE_SIZE_def)
  then have "mm_steps sample_mm (0 + 0) (alloc_at MEM_TYPE_KERNEL 7 1 2 sample_mm)"
    by (rule mm_steps.call [OF mm_steps.start mm_step.alloc])
  from mm_counters_conserved [OF this] show ?thesis by simp
qed

end
