(* ===== verification/Tables.thy ===== *)
theory Tables
  imports Prelude
begin

text \<open>
  The fixed-size tables of the kernel. Every manager (capabilities, domains, threads,
  services, processes) claims the first free slot of a C array and finds an entry again by
  scanning for its identifier; the two locales are the contract of that idiom, proved once
  and interpreted on each table.
\<close>

locale slot_table =
  fixes slot :: "'s \<Rightarrow> nat \<Rightarrow> 'e"
    and put :: "nat \<Rightarrow> 'e \<Rightarrow> 's \<Rightarrow> 's"
    and cap :: nat
    and free :: "'e \<Rightarrow> bool"
  assumes slot_put: "slot (put i e s) j = (if j = i then e else slot s j)"
begin

lemma claim_free:
  "first_from (\<lambda>i. free (slot s i)) 0 cap = Some k \<Longrightarrow> k < cap \<and> free (slot s k)"
  by (auto dest: first_from_SomeD)

lemma full_iff:
  "first_from (\<lambda>i. free (slot s i)) 0 cap = None \<longleftrightarrow> (\<forall>i<cap. \<not> free (slot s i))"
  by (auto simp: first_from_None_iff)

text \<open>Claiming a slot never overwrites an entry in use.\<close>

lemma claim_keeps_used:
  "first_from (\<lambda>i. free (slot s i)) 0 cap = Some k \<Longrightarrow> \<not> free (slot s j) \<Longrightarrow>
   slot (put k e s) j = slot s j"
  by (auto simp: slot_put dest: first_from_SomeD)

lemma used_put_busy:
  assumes "k < cap" "\<not> free e"
  shows "{i. i < cap \<and> \<not> free (slot (put k e s) i)} = insert k {i. i < cap \<and> \<not> free (slot s i)}"
  using assms by (auto simp: slot_put)

lemma used_put_free:
  assumes "free e"
  shows "{i. i < cap \<and> \<not> free (slot (put k e s) i)} = {i. i < cap \<and> \<not> free (slot s i)} - {k}"
  using assms by (auto simp: slot_put)

lemma count_claim:
  assumes "first_from (\<lambda>i. free (slot s i)) 0 cap = Some k" "\<not> free e"
  shows "card {i. i < cap \<and> \<not> free (slot (put k e s) i)} =
         Suc (card {i. i < cap \<and> \<not> free (slot s i)})"
  using claim_free [OF assms(1)] used_put_busy [of k e s] assms(2) by simp

lemma count_replace:
  assumes "k < cap" "free (slot s k) = free e"
  shows "card {i. i < cap \<and> \<not> free (slot (put k e s) i)} =
         card {i. i < cap \<and> \<not> free (slot s i)}"
proof -
  have "{i. i < cap \<and> \<not> free (slot (put k e s) i)} = {i. i < cap \<and> \<not> free (slot s i)}"
    using assms by (auto simp: slot_put)
  then show ?thesis by simp
qed

lemma count_release:
  assumes "k < cap" "\<not> free (slot s k)" "free e"
  shows "Suc (card {i. i < cap \<and> \<not> free (slot (put k e s) i)}) =
         card {i. i < cap \<and> \<not> free (slot s i)}"
  unfolding used_put_free [OF assms(3)]
  by (rule card_Suc_Diff1) (use assms in auto)

end

text \<open>Entries carry an identifier, and are found again by the first match.\<close>

locale id_table = slot_table slot put cap free
  for slot :: "'s \<Rightarrow> nat \<Rightarrow> 'e" and put and cap and free +
  fixes ident :: "'e \<Rightarrow> 'id"
begin

lemma lookup_found:
  "first_from (\<lambda>i. ident (slot s i) = x) 0 cap = Some k \<Longrightarrow> k < cap \<and> ident (slot s k) = x"
  by (auto dest: first_from_SomeD)

lemma lookup_None_iff:
  "first_from (\<lambda>i. ident (slot s i) = x) 0 cap = None \<longleftrightarrow> (\<forall>i<cap. ident (slot s i) \<noteq> x)"
  by (auto simp: first_from_None_iff)

lemma lookup_put_fresh:
  assumes "k < cap" "\<And>i. i < cap \<Longrightarrow> ident (slot s i) \<noteq> ident e"
  shows "first_from (\<lambda>i. ident (slot (put k e s) i) = ident e) 0 cap = Some k"
  by (rule first_from_unique) (use assms in \<open>auto simp: slot_put split: if_splits\<close>)

lemma lookup_put_other:
  assumes "x \<noteq> ident e" "x \<noteq> ident (slot s k)"
  shows "first_from (\<lambda>i. ident (slot (put k e s) i) = x) 0 cap =
         first_from (\<lambda>i. ident (slot s i) = x) 0 cap"
  by (rule first_from_cong) (use assms in \<open>auto simp: slot_put\<close>)

lemma lookup_put_same_id:
  assumes "ident e = ident (slot s k)"
  shows "first_from (\<lambda>i. ident (slot (put k e s) i) = x) 0 cap =
         first_from (\<lambda>i. ident (slot s i) = x) 0 cap"
  by (rule first_from_cong) (use assms in \<open>auto simp: slot_put\<close>)

end

end
