(* ===== verification/Capability.thy ===== *)
theory Capability
  imports Spinlock Tables
begin

text \<open>
  The capability system of Core-0 (\<open>Core-0/include/capability.h\<close>,
  \<open>Core-0/capability/capability.c\<close>): the global capability table, the domain table with its
  per-domain capability space, and every operation on them. Pointers into the two tables are
  indices; \<open>capabilities\<close> and \<open>domains\<close> are read below \<open>MAX_CAPABILITIES\<close> and \<open>MAX_DOMAINS\<close>
  only, and an access of \<open>cap_space\<close> at \<open>DOMAIN_CAP_SPACE_SIZE\<close> or beyond is a \<open>Fault\<close>.
\<close>

section \<open>Data\<close>

text \<open>\<open>CAP_TYPE_NONE\<close> is the value 0 of a cleared entry.\<close>

datatype cap_type =
    CAP_TYPE_NONE
  | CAP_TYPE_MEMORY
  | CAP_TYPE_IO_PORT
  | CAP_TYPE_IRQ
  | CAP_TYPE_IPC_ENDPOINT
  | CAP_TYPE_SERVICE
  | CAP_TYPE_DEVICE
  | CAP_TYPE_CUSTOM

primrec cap_type_code :: "cap_type \<Rightarrow> u32" where
  "cap_type_code CAP_TYPE_NONE = 0"
| "cap_type_code CAP_TYPE_MEMORY = 1"
| "cap_type_code CAP_TYPE_IO_PORT = 2"
| "cap_type_code CAP_TYPE_IRQ = 3"
| "cap_type_code CAP_TYPE_IPC_ENDPOINT = 4"
| "cap_type_code CAP_TYPE_SERVICE = 5"
| "cap_type_code CAP_TYPE_DEVICE = 6"
| "cap_type_code CAP_TYPE_CUSTOM = 99"

definition CAP_PERM_READ :: u32 where "CAP_PERM_READ = 0x01"
definition CAP_PERM_WRITE :: u32 where "CAP_PERM_WRITE = 0x02"
definition CAP_PERM_EXECUTE :: u32 where "CAP_PERM_EXECUTE = 0x04"
definition CAP_PERM_GRANT :: u32 where "CAP_PERM_GRANT = 0x08"
definition CAP_PERM_REVOKE :: u32 where "CAP_PERM_REVOKE = 0x10"

definition MAX_CAPABILITIES :: nat where "MAX_CAPABILITIES = 1024"
definition MAX_DOMAINS :: nat where "MAX_DOMAINS = 256"
definition DOMAIN_CAP_SPACE_SIZE :: nat where "DOMAIN_CAP_SPACE_SIZE = 64"
definition HIK_CAP_MAGIC :: u64 where "HIK_CAP_MAGIC = 0x43415000"

record capability =
  cap_magic :: u64
  cap_kind :: cap_type
  permissions :: u32
  resource_id :: u64
  resource_base :: u64
  resource_size :: u64
  owner_domain :: u64
  ref_count :: u32
  cap_flags :: u32

record domain =
  domain_id :: u64
  memory_base :: u64
  memory_size :: u64
  cap_space :: "nat \<Rightarrow> u32"
  dom_num_caps :: u32
  dom_state :: u32

definition DOMAIN_STATE_STOPPED :: u32 where "DOMAIN_STATE_STOPPED = 0"

record cap_system =
  capabilities :: "nat \<Rightarrow> capability"
  domains :: "nat \<Rightarrow> domain"
  next_cap_handle :: u32
  next_domain_id :: u32
  num_caps :: u32
  num_domains :: u32
  cap_lock :: u64

definition zero_capability :: capability where
  "zero_capability = \<lparr>cap_magic = 0, cap_kind = CAP_TYPE_NONE, permissions = 0, resource_id = 0,
     resource_base = 0, resource_size = 0, owner_domain = 0, ref_count = 0, cap_flags = 0\<rparr>"

definition zero_domain :: domain where
  "zero_domain = \<lparr>domain_id = 0, memory_base = 0, memory_size = 0, cap_space = (\<lambda>_. 0),
     dom_num_caps = 0, dom_state = 0\<rparr>"

definition put_cap :: "nat \<Rightarrow> capability \<Rightarrow> cap_system \<Rightarrow> cap_system" where
  "put_cap i c s = s\<lparr>capabilities := (capabilities s)(i := c)\<rparr>"

definition put_domain :: "nat \<Rightarrow> domain \<Rightarrow> cap_system \<Rightarrow> cap_system" where
  "put_domain i d s = s\<lparr>domains := (domains s)(i := d)\<rparr>"

section \<open>Lookup\<close>

definition cap_init :: "cap_system \<Rightarrow> (int \<times> cap_system) outcome" where
  "cap_init s = Ret (0, \<lparr>capabilities = (\<lambda>_. zero_capability), domains = (\<lambda>_. zero_domain),
     next_cap_handle = 1, next_domain_id = 1, num_caps = 0, num_domains = 0, cap_lock = 0\<rparr>)"

definition cap_get_domain :: "u64 \<Rightarrow> cap_system \<Rightarrow> nat option" where
  "cap_get_domain did s = first_from (\<lambda>i. domain_id (domains s i) = did) 0 MAX_DOMAINS"

definition cap_get_capability :: "u32 \<Rightarrow> cap_system \<Rightarrow> nat option" where
  "cap_get_capability handle s =
     (if handle = 0 \<or> next_cap_handle s \<le> handle then None
      else first_from (\<lambda>i. cap_magic (capabilities s i) = HIK_CAP_MAGIC \<and>
                           i = unat (handle - 1) mod MAX_CAPABILITIES) 0 MAX_CAPABILITIES)"

section \<open>Capability spaces\<close>

definition cap_domain_add_cap :: "u64 \<Rightarrow> u32 \<Rightarrow> cap_system \<Rightarrow> int \<times> cap_system" where
  "cap_domain_add_cap did handle s =
     (case cap_get_domain did s of
        None \<Rightarrow> (-1, s)
      | Some d \<Rightarrow>
          let dom = domains s d; n = dom_num_caps dom in
          if DOMAIN_CAP_SPACE_SIZE \<le> unat n then (-2, s)
          else (0, put_domain d (dom\<lparr>cap_space := (cap_space dom)(unat n := handle),
                                     dom_num_caps := n + 1\<rparr>) s))"

text \<open>The inner loop \<open>for (j = i; j < num_caps - 1; j++) cap_space[j] = cap_space[j + 1]\<close>.\<close>

definition shift_caps :: "nat \<Rightarrow> nat \<Rightarrow> (nat \<Rightarrow> u32) \<Rightarrow> nat \<Rightarrow> u32" where
  "shift_caps i n sp = fold (\<lambda>j c. c(j := c (Suc j))) [i..<n - 1] sp"

text \<open>
  A count above the size of the space makes the search, or the shift after a hit, leave the
  array.
\<close>

definition cap_domain_remove_cap :: "u64 \<Rightarrow> u32 \<Rightarrow> cap_system \<Rightarrow> (int \<times> cap_system) outcome" where
  "cap_domain_remove_cap did handle s =
     (case cap_get_domain did s of
        None \<Rightarrow> Ret (-1, s)
      | Some d \<Rightarrow>
          let dom = domains s d; n = unat (dom_num_caps dom) in
          if DOMAIN_CAP_SPACE_SIZE < n then Fault
          else (case first_from (\<lambda>i. cap_space dom i = handle) 0 n of
                  None \<Rightarrow> Ret (-2, s)
                | Some i \<Rightarrow>
                    Ret (0, put_domain d
                      (dom\<lparr>cap_space := (shift_caps i n (cap_space dom))(n - 1 := 0),
                           dom_num_caps := dom_num_caps dom - 1\<rparr>) s)))"

section \<open>Operations on capabilities\<close>

definition cap_create ::
  "cap_type \<Rightarrow> u32 \<Rightarrow> u64 \<Rightarrow> u64 \<Rightarrow> u64 \<Rightarrow> u64 \<Rightarrow> cap_system \<Rightarrow> (u32 \<times> cap_system) outcome" where
  "cap_create ty perms rid base sz did = locked cap_lock cap_lock_update (\<lambda>s.
     case first_from (\<lambda>i. cap_magic (capabilities s i) \<noteq> HIK_CAP_MAGIC) 0 MAX_CAPABILITIES of
       None \<Rightarrow> Ret (0, s)
     | Some slot \<Rightarrow>
         let c = \<lparr>cap_magic = HIK_CAP_MAGIC, cap_kind = ty, permissions = perms, resource_id = rid,
                  resource_base = base, resource_size = sz, owner_domain = did,
                  ref_count = 1, cap_flags = 0\<rparr>;
             s1 = put_cap slot c s;
             handle = next_cap_handle s1;
             s2 = s1\<lparr>next_cap_handle := handle + 1\<rparr>;
             s3 = (case cap_get_domain did s2 of
                     None \<Rightarrow> s2
                   | Some d \<Rightarrow> snd (cap_domain_add_cap did handle s2))
         in Ret (handle, s3\<lparr>num_caps := num_caps s3 + 1\<rparr>))"

definition cap_delete :: "u32 \<Rightarrow> cap_system \<Rightarrow> (int \<times> cap_system) outcome" where
  "cap_delete handle = locked cap_lock cap_lock_update (\<lambda>s.
     case cap_get_capability handle s of
       None \<Rightarrow> Ret (-1, s)
     | Some c \<Rightarrow>
         bindR (forR (\<lambda>i u. bindR (cap_domain_remove_cap (domain_id (domains u i)) handle u)
                                  (\<lambda>(r, u'). Ret u')) [0..<MAX_DOMAINS] s) (\<lambda>s1.
         let s2 = put_cap c zero_capability s1 in
         Ret (0, s2\<lparr>num_caps := num_caps s2 - 1\<rparr>)))"

definition cap_grant :: "u32 \<Rightarrow> u64 \<Rightarrow> cap_system \<Rightarrow> (u32 \<times> cap_system) outcome" where
  "cap_grant handle target = locked cap_lock cap_lock_update (\<lambda>s.
     case cap_get_capability handle s of
       None \<Rightarrow> Ret (0, s)
     | Some c \<Rightarrow>
         if permissions (capabilities s c) AND CAP_PERM_GRANT = 0 then Ret (0, s)
         else (case cap_domain_add_cap target handle s of
                 (result, s1) \<Rightarrow>
                   if result = 0
                   then Ret (handle, put_cap c ((capabilities s1 c)\<lparr>
                               ref_count := ref_count (capabilities s1 c) + 1\<rparr>) s1)
                   else Ret (handle, s1)))"

definition cap_revoke :: "u32 \<Rightarrow> u64 \<Rightarrow> cap_system \<Rightarrow> (int \<times> cap_system) outcome" where
  "cap_revoke handle did = locked cap_lock cap_lock_update (\<lambda>s.
     case cap_get_capability handle s of
       None \<Rightarrow> Ret (-1, s)
     | Some c \<Rightarrow>
         bindR (cap_domain_remove_cap did handle s) (\<lambda>(result, s1).
         if result = 0
         then Ret (result, put_cap c ((capabilities s1 c)\<lparr>
                     ref_count := ref_count (capabilities s1 c) - 1\<rparr>) s1)
         else Ret (result, s1)))"

definition cap_check :: "u64 \<Rightarrow> u32 \<Rightarrow> u32 \<Rightarrow> cap_system \<Rightarrow> (int \<times> cap_system) outcome" where
  "cap_check did handle permission = locked cap_lock cap_lock_update (\<lambda>s.
     case cap_get_domain did s of
       None \<Rightarrow> Ret (-1, s)
     | Some d \<Rightarrow>
         (case first_from (\<lambda>i. cap_space (domains s d) i = handle) 0 DOMAIN_CAP_SPACE_SIZE of
            None \<Rightarrow> Ret (-2, s)
          | Some _ \<Rightarrow>
              (case cap_get_capability handle s of
                 None \<Rightarrow> Ret (-3, s)
               | Some c \<Rightarrow>
                   if permissions (capabilities s c) AND permission \<noteq> permission
                   then Ret (-3, s) else Ret (0, s))))"

text \<open>\<open>cap_create\<close> takes the lock that \<open>cap_derive\<close> already holds.\<close>

definition cap_derive :: "u32 \<Rightarrow> u32 \<Rightarrow> cap_system \<Rightarrow> (u32 \<times> cap_system) outcome" where
  "cap_derive handle new_permissions = locked cap_lock cap_lock_update (\<lambda>s.
     case cap_get_capability handle s of
       None \<Rightarrow> Ret (0, s)
     | Some c \<Rightarrow>
         let orig = capabilities s c in
         cap_create (cap_kind orig) (permissions orig AND new_permissions) (resource_id orig)
           (resource_base orig) (resource_size orig) (owner_domain orig) s)"

section \<open>Operations on domains\<close>

definition cap_create_domain :: "u64 \<Rightarrow> u64 \<Rightarrow> cap_system \<Rightarrow> (u64 \<times> cap_system) outcome" where
  "cap_create_domain base sz = locked cap_lock cap_lock_update (\<lambda>s.
     case first_from (\<lambda>i. domain_id (domains s i) = 0) 0 MAX_DOMAINS of
       None \<Rightarrow> Ret (0, s)
     | Some slot \<Rightarrow>
         let did = ucast (next_domain_id s);
             dom = \<lparr>domain_id = did, memory_base = base, memory_size = sz, cap_space = (\<lambda>_. 0),
                    dom_num_caps = 0, dom_state = DOMAIN_STATE_STOPPED\<rparr>;
             s1 = put_domain slot dom (s\<lparr>next_domain_id := next_domain_id s + 1\<rparr>)
         in Ret (did, s1\<lparr>num_domains := num_domains s1 + 1\<rparr>))"

text \<open>The loop that revokes what the domain still holds calls \<open>cap_revoke\<close> under its own lock.\<close>

definition cap_delete_domain :: "u64 \<Rightarrow> cap_system \<Rightarrow> (int \<times> cap_system) outcome" where
  "cap_delete_domain did = locked cap_lock cap_lock_update (\<lambda>s.
     case cap_get_domain did s of
       None \<Rightarrow> Ret (-1, s)
     | Some d \<Rightarrow>
         bindR (forR (\<lambda>i u. if cap_space (domains u d) i \<noteq> 0
                            then bindR (cap_revoke (cap_space (domains u d) i) did u) (\<lambda>(r, u'). Ret u')
                            else Ret u) [0..<DOMAIN_CAP_SPACE_SIZE] s) (\<lambda>s1.
         let s2 = put_domain d zero_domain s1 in
         Ret (0, s2\<lparr>num_domains := num_domains s2 - 1\<rparr>)))"

section \<open>The tables and the lock as interfaces\<close>

interpretation capl: spin_locked cap_lock cap_lock_update
  by unfold_locales simp

interpretation caps: slot_table capabilities put_cap MAX_CAPABILITIES "\<lambda>c. cap_magic c \<noteq> HIK_CAP_MAGIC"
  by unfold_locales (simp add: put_cap_def)

interpretation doms: id_table domains put_domain MAX_DOMAINS "\<lambda>d. domain_id d = 0" domain_id
  by unfold_locales (simp add: put_domain_def)

lemma put_cap_simps [simp]:
  "domains (put_cap i c s) = domains s" "next_cap_handle (put_cap i c s) = next_cap_handle s"
  "next_domain_id (put_cap i c s) = next_domain_id s" "num_caps (put_cap i c s) = num_caps s"
  "num_domains (put_cap i c s) = num_domains s" "cap_lock (put_cap i c s) = cap_lock s"
  "capabilities (put_cap i c s) j = (if j = i then c else capabilities s j)"
  by (simp_all add: put_cap_def)

lemma put_domain_simps [simp]:
  "capabilities (put_domain i d s) = capabilities s"
  "next_cap_handle (put_domain i d s) = next_cap_handle s"
  "next_domain_id (put_domain i d s) = next_domain_id s" "num_caps (put_domain i d s) = num_caps s"
  "num_domains (put_domain i d s) = num_domains s" "cap_lock (put_domain i d s) = cap_lock s"
  "domains (put_domain i d s) j = (if j = i then d else domains s j)"
  by (simp_all add: put_domain_def)

lemma cap_get_domain_cong:
  "(\<And>i. i < MAX_DOMAINS \<Longrightarrow> domain_id (domains t i) = domain_id (domains s i)) \<Longrightarrow>
   cap_get_domain did t = cap_get_domain did s"
  by (auto simp: cap_get_domain_def intro: first_from_cong)

lemma cap_get_domain_updates [simp]:
  "cap_get_domain did (s\<lparr>cap_lock := l\<rparr>) = cap_get_domain did s"
  "cap_get_domain did (s\<lparr>num_caps := m\<rparr>) = cap_get_domain did s"
  "cap_get_domain did (s\<lparr>next_cap_handle := h\<rparr>) = cap_get_domain did s"
  "cap_get_domain did (put_cap c e s) = cap_get_domain did s"
  by (rule cap_get_domain_cong, simp)+

lemma cap_get_domainD:
  "cap_get_domain did s = Some d \<Longrightarrow> d < MAX_DOMAINS \<and> domain_id (domains s d) = did"
  unfolding cap_get_domain_def by (rule doms.lookup_found)

lemma cap_get_domain_put_same:
  "domain_id d = domain_id (domains s i) \<Longrightarrow> cap_get_domain did (put_domain i d s) = cap_get_domain did s"
  by (rule cap_get_domain_cong) simp

text \<open>The capability behind a handle is in the one slot the handle maps to.\<close>

lemma cap_get_capability_eq:
  "cap_get_capability h s =
     (if h \<noteq> 0 \<and> h < next_cap_handle s \<and>
         cap_magic (capabilities s (unat (h - 1) mod MAX_CAPABILITIES)) = HIK_CAP_MAGIC
      then Some (unat (h - 1) mod MAX_CAPABILITIES) else None)"
proof -
  let ?k = "unat (h - 1) mod MAX_CAPABILITIES"
  let ?P = "\<lambda>i. cap_magic (capabilities s i) = HIK_CAP_MAGIC \<and> i = ?k"
  have k: "?k < MAX_CAPABILITIES" by (simp add: MAX_CAPABILITIES_def)
  have "first_from ?P 0 MAX_CAPABILITIES =
      (if cap_magic (capabilities s ?k) = HIK_CAP_MAGIC then Some ?k else None)"
  proof (cases "cap_magic (capabilities s ?k) = HIK_CAP_MAGIC")
    case True
    then have "first_from ?P 0 MAX_CAPABILITIES = Some ?k"
      using k by (intro first_from_SomeI) auto
    with True show ?thesis by simp
  next
    case False
    then have "first_from ?P 0 MAX_CAPABILITIES = None"
      by (auto simp: first_from_None_iff)
    with False show ?thesis by simp
  qed
  then show ?thesis by (auto simp: cap_get_capability_def linorder_not_le)
qed

lemma cap_get_capabilityD:
  assumes "cap_get_capability h s = Some c"
  shows "c < MAX_CAPABILITIES" "h \<noteq> 0" "h < next_cap_handle s"
    "cap_magic (capabilities s c) = HIK_CAP_MAGIC" "c = unat (h - 1) mod MAX_CAPABILITIES"
  using assms by (auto simp: cap_get_capability_eq MAX_CAPABILITIES_def split: if_splits)

lemma cap_get_capability_cong:
  "next_cap_handle t = next_cap_handle s \<Longrightarrow>
   (\<And>i. cap_magic (capabilities t i) = cap_magic (capabilities s i)) \<Longrightarrow>
   cap_get_capability h t = cap_get_capability h s"
  by (simp add: cap_get_capability_eq)

lemma cap_get_capability_updates [simp]:
  "cap_get_capability h (s\<lparr>cap_lock := l\<rparr>) = cap_get_capability h s"
  "cap_get_capability h (s\<lparr>num_caps := m\<rparr>) = cap_get_capability h s"
  "cap_get_capability h (put_domain i d s) = cap_get_capability h s"
  by (rule cap_get_capability_cong; simp)+

section \<open>A capability space is a list\<close>

definition caps_of :: "domain \<Rightarrow> u32 list" where
  "caps_of d = map (cap_space d) [0..<unat (dom_num_caps d)]"

definition dom_wf :: "domain \<Rightarrow> bool" where
  "dom_wf d \<longleftrightarrow> unat (dom_num_caps d) \<le> DOMAIN_CAP_SPACE_SIZE \<and>
     (\<forall>i. unat (dom_num_caps d) \<le> i \<longrightarrow> cap_space d i = 0)"

definition spaces_wf :: "cap_system \<Rightarrow> bool" where
  "spaces_wf s \<longleftrightarrow> (\<forall>i<MAX_DOMAINS. dom_wf (domains s i))"

text \<open>The abstract view: what each domain holds.\<close>

definition cap_view :: "cap_system \<Rightarrow> u64 \<Rightarrow> u32 list option" where
  "cap_view s did = map_option (\<lambda>d. caps_of (domains s d)) (cap_get_domain did s)"

lemma length_caps_of [simp]: "length (caps_of d) = unat (dom_num_caps d)"
  by (simp add: caps_of_def)

lemma cap_view_updates [simp]:
  "cap_view (s\<lparr>cap_lock := l\<rparr>) = cap_view s"
  "cap_view (s\<lparr>num_caps := m\<rparr>) = cap_view s"
  "cap_view (s\<lparr>next_cap_handle := h\<rparr>) = cap_view s"
  "cap_view (put_cap c e s) = cap_view s"
  by (simp_all add: cap_view_def fun_eq_iff)

lemma cap_view_put:
  assumes "cap_get_domain did s = Some d" "domain_id e = did"
  shows "cap_view (put_domain d e s) = (cap_view s)(did := Some (caps_of e))"
proof (rule ext)
  fix x
  have d: "domain_id (domains s d) = did" using cap_get_domainD [OF assms(1)] by simp
  then have id: "domain_id e = domain_id (domains s d)" using assms(2) by simp
  show "cap_view (put_domain d e s) x = ((cap_view s)(did := Some (caps_of e))) x"
  proof (cases "x = did")
    case True
    with assms show ?thesis by (simp add: cap_view_def cap_get_domain_put_same [OF id])
  next
    case False
    then have "cap_get_domain x s \<noteq> Some d" using cap_get_domainD [of x s d] d by auto
    with False show ?thesis
      by (cases "cap_get_domain x s") (auto simp: cap_view_def cap_get_domain_put_same [OF id])
  qed
qed

lemma shift_caps_eq:
  "shift_caps i n sp = (\<lambda>j. if i \<le> j \<and> j < n - 1 then sp (Suc j) else sp j)"
proof -
  have "fold (\<lambda>j c. c(j := c (Suc j))) [i..<m] sp =
      (\<lambda>j. if i \<le> j \<and> j < m then sp (Suc j) else sp j)" for m
  proof (induction m)
    case (Suc m)
    then show ?case by (cases "i \<le> m") (auto simp: fun_eq_iff less_Suc_eq)
  qed simp
  then show ?thesis by (simp add: shift_caps_def)
qed

lemma map_shift_remove1:
  assumes "i < n" "sp i = x" "\<And>j. j < i \<Longrightarrow> sp j \<noteq> x"
  shows "map ((shift_caps i n sp)(n - 1 := 0)) [0..<n - 1] = remove1 x (map sp [0..<n])"
proof -
  have split: "[0..<n] = [0..<i] @ i # [Suc i..<n]"
    using assms(1) by (metis le0 less_imp_le_nat upt_split upt_conv_Cons)
  have "map sp [Suc i..<n] = map (\<lambda>j. sp (Suc j)) [i..<n - 1]"
    using assms(1) by (cases n) (simp_all add: map_Suc_upt [symmetric] del: upt_Suc)
  moreover have "[0..<n - 1] = [0..<i] @ [i..<n - 1]"
    using assms(1) by (intro upt_split) auto
  moreover have "x \<notin> set (map sp [0..<i])"
  proof
    assume "x \<in> set (map sp [0..<i])"
    then obtain j where "j < i" "x = sp j" by auto
    with assms(3) [of j] show False by simp
  qed
  ultimately show ?thesis
    unfolding split using assms(1,2)
    by (simp add: remove1_append shift_caps_eq)
qed

lemma caps_of_add:
  fixes h :: u32
  assumes "unat (dom_num_caps d) < DOMAIN_CAP_SPACE_SIZE" "dom_wf d"
  defines "e \<equiv> d\<lparr>cap_space := (cap_space d)(unat (dom_num_caps d) := h), dom_num_caps := dom_num_caps d + 1\<rparr>"
  shows "caps_of e = caps_of d @ [h]" "dom_wf e" "domain_id e = domain_id d"
proof -
  have n: "unat (dom_num_caps d + 1) = Suc (unat (dom_num_caps d))"
    using assms(1) by (simp add: unat_word_ariths DOMAIN_CAP_SPACE_SIZE_def)
  show "caps_of e = caps_of d @ [h]" by (simp add: e_def caps_of_def n)
  show "dom_wf e" using assms(1,2) by (auto simp: e_def dom_wf_def n)
  show "domain_id e = domain_id d" by (simp add: e_def)
qed

lemma caps_of_remove:
  assumes "first_from (\<lambda>i. cap_space d i = h) 0 (unat (dom_num_caps d)) = Some i" "dom_wf d"
  defines "e \<equiv> d\<lparr>cap_space := (shift_caps i (unat (dom_num_caps d)) (cap_space d))
                              (unat (dom_num_caps d) - 1 := 0), dom_num_caps := dom_num_caps d - 1\<rparr>"
  shows "caps_of e = remove1 h (caps_of d)" "dom_wf e" "domain_id e = domain_id d" "h \<in> set (caps_of d)"
proof -
  note i = first_from_SomeD [OF assms(1)]
  have n: "unat (dom_num_caps d - 1) = unat (dom_num_caps d) - 1"
    using i(2) by (simp add: unat_sub word_le_nat_alt)
  show "caps_of e = remove1 h (caps_of d)"
    unfolding e_def caps_of_def using map_shift_remove1 [of i _ "cap_space d" h] i by (simp add: n)
  show "dom_wf e" using assms(2) by (auto simp: e_def dom_wf_def n shift_caps_eq)
  show "domain_id e = domain_id d" by (simp add: e_def)
  show "h \<in> set (caps_of d)" using i(2,3) by (auto simp: caps_of_def)
qed

lemma space_search_None:
  "first_from (\<lambda>i. cap_space d i = h) 0 (unat (dom_num_caps d)) = None \<longleftrightarrow> h \<notin> set (caps_of d)"
  by (auto simp: first_from_None_iff caps_of_def)

text \<open>A change of capability spaces only, in which handles of \<open>H\<close> may have been added.\<close>

definition spaces_step :: "u32 set \<Rightarrow> cap_system \<Rightarrow> cap_system \<Rightarrow> bool" where
  "spaces_step H s t \<longleftrightarrow> t = s\<lparr>domains := domains t\<rparr> \<and> spaces_wf t \<and>
     (\<forall>i. domain_id (domains t i) = domain_id (domains s i)) \<and>
     (\<forall>i. set (caps_of (domains t i)) \<subseteq> set (caps_of (domains s i)) \<union> H)"

lemma spaces_step_fields:
  assumes "spaces_step H s t"
  shows "capabilities t = capabilities s" "next_cap_handle t = next_cap_handle s"
    "next_domain_id t = next_domain_id s" "num_caps t = num_caps s"
    "num_domains t = num_domains s" "cap_lock t = cap_lock s" "spaces_wf t"
    "domain_id (domains t i) = domain_id (domains s i)"
proof -
  from assms have t: "t = s\<lparr>domains := domains t\<rparr>" by (simp add: spaces_step_def)
  show "capabilities t = capabilities s" by (subst t) simp
  show "next_cap_handle t = next_cap_handle s" by (subst t) simp
  show "next_domain_id t = next_domain_id s" by (subst t) simp
  show "num_caps t = num_caps s" by (subst t) simp
  show "num_domains t = num_domains s" by (subst t) simp
  show "cap_lock t = cap_lock s" by (subst t) simp
  show "spaces_wf t" "domain_id (domains t i) = domain_id (domains s i)"
    using assms by (simp_all add: spaces_step_def)
qed

lemma spaces_step_refl: "spaces_wf s \<Longrightarrow> spaces_step H s s"
  by (simp add: spaces_step_def)

lemma spaces_step_trans:
  assumes "spaces_step H s t" "spaces_step H t u"
  shows "spaces_step H s u"
proof -
  have "u = s\<lparr>domains := domains u\<rparr>"
    by (rule cap_system.equality)
      (simp_all add: spaces_step_fields [OF assms(1)] spaces_step_fields [OF assms(2)])
  moreover have "set (caps_of (domains u i)) \<subseteq> set (caps_of (domains s i)) \<union> H" for i
    using assms unfolding spaces_step_def by blast
  ultimately show ?thesis using assms by (simp add: spaces_step_def)
qed

lemma spaces_step_put:
  assumes "spaces_wf s" "d < MAX_DOMAINS" "dom_wf e" "domain_id e = domain_id (domains s d)"
    "set (caps_of e) \<subseteq> set (caps_of (domains s d)) \<union> H"
  shows "spaces_step H s (put_domain d e s)"
  using assms by (auto simp: spaces_step_def spaces_wf_def put_domain_def)

text \<open>Adding appends to the list unless it holds 64 handles.\<close>

lemma cap_domain_add_cap_view:
  assumes "spaces_wf s" and add: "cap_domain_add_cap did h s = (r, t)"
  shows "r = (case cap_view s did of None \<Rightarrow> -1
         | Some l \<Rightarrow> if length l < DOMAIN_CAP_SPACE_SIZE then 0 else -2)"
    and "cap_view t = (case cap_view s did of None \<Rightarrow> cap_view s
         | Some l \<Rightarrow> if length l < DOMAIN_CAP_SPACE_SIZE then (cap_view s)(did := Some (l @ [h]))
                     else cap_view s)"
    and "spaces_step {h} s t"
proof -
  have "r = (case cap_view s did of None \<Rightarrow> -1
         | Some l \<Rightarrow> if length l < DOMAIN_CAP_SPACE_SIZE then 0 else -2) \<and>
    cap_view t = (case cap_view s did of None \<Rightarrow> cap_view s
         | Some l \<Rightarrow> if length l < DOMAIN_CAP_SPACE_SIZE then (cap_view s)(did := Some (l @ [h]))
                     else cap_view s) \<and> spaces_step {h} s t"
  proof (cases "cap_get_domain did s")
    case (Some d)
    note d = cap_get_domainD [OF Some]
    have wf: "dom_wf (domains s d)" using assms(1) d by (simp add: spaces_wf_def)
    show ?thesis
    proof (cases "unat (dom_num_caps (domains s d)) < DOMAIN_CAP_SPACE_SIZE")
      case True
      define e where "e = domains s d\<lparr>cap_space :=
          (cap_space (domains s d))(unat (dom_num_caps (domains s d)) := h),
          dom_num_caps := dom_num_caps (domains s d) + 1\<rparr>"
      note e = caps_of_add [OF True wf, of h, folded e_def]
      have "t = put_domain d e s" "r = 0"
        using add Some True by (simp_all add: cap_domain_add_cap_def Let_def e_def)
      then show ?thesis
        using Some True e d cap_view_put [OF Some, of e] spaces_step_put [of s d e "{h}"] assms(1)
        by (simp add: cap_view_def)
    next
      case False
      with add Some assms(1) show ?thesis
        by (auto simp: cap_domain_add_cap_def Let_def cap_view_def spaces_step_refl)
    qed
  qed (use assms in \<open>auto simp: cap_domain_add_cap_def cap_view_def spaces_step_refl\<close>)
  then show "r = (case cap_view s did of None \<Rightarrow> -1
         | Some l \<Rightarrow> if length l < DOMAIN_CAP_SPACE_SIZE then 0 else -2)"
    and "cap_view t = (case cap_view s did of None \<Rightarrow> cap_view s
         | Some l \<Rightarrow> if length l < DOMAIN_CAP_SPACE_SIZE then (cap_view s)(did := Some (l @ [h]))
                     else cap_view s)"
    and "spaces_step {h} s t"
    by auto
qed

text \<open>Removing removes the first occurrence, and never faults on a well-formed space.\<close>

lemma cap_domain_remove_cap_view:
  assumes "spaces_wf s"
  shows "\<exists>t. cap_domain_remove_cap did h s =
      Ret (case cap_view s did of None \<Rightarrow> -1 | Some l \<Rightarrow> if h \<in> set l then 0 else -2, t) \<and>
    cap_view t = (cap_view s)(did := map_option (remove1 h) (cap_view s did)) \<and>
    spaces_step {} s t"
proof (cases "cap_get_domain did s")
  case None
  then show ?thesis
    using assms by (auto simp: cap_domain_remove_cap_def cap_view_def fun_eq_iff spaces_step_refl)
next
  case (Some d)
  note d = cap_get_domainD [OF Some]
  have wf: "dom_wf (domains s d)" using assms d by (simp add: spaces_wf_def)
  then have n: "\<not> DOMAIN_CAP_SPACE_SIZE < unat (dom_num_caps (domains s d))" by (simp add: dom_wf_def)
  show ?thesis
  proof (cases "first_from (\<lambda>i. cap_space (domains s d) i = h) 0 (unat (dom_num_caps (domains s d)))")
    case None
    then have "h \<notin> set (caps_of (domains s d))" by (simp add: space_search_None)
    moreover from this have "cap_view s = (cap_view s)(did := map_option (remove1 h) (cap_view s did))"
      using Some by (simp add: cap_view_def remove1_idem fun_eq_iff)
    ultimately show ?thesis
      using Some n None assms by (auto simp: cap_domain_remove_cap_def cap_view_def spaces_step_refl)
  next
    case hit: (Some i)
    define e where "e = domains s d\<lparr>cap_space :=
        (shift_caps i (unat (dom_num_caps (domains s d))) (cap_space (domains s d)))
          (unat (dom_num_caps (domains s d)) - 1 := 0), dom_num_caps := dom_num_caps (domains s d) - 1\<rparr>"
    note e = caps_of_remove [OF hit wf, folded e_def]
    have ret: "cap_domain_remove_cap did h s = Ret (0, put_domain d e s)"
      using Some n hit by (simp add: cap_domain_remove_cap_def Let_def e_def)
    have "set (caps_of e) \<subseteq> set (caps_of (domains s d))" by (simp add: e set_remove1_subset)
    then have "spaces_step {} s (put_domain d e s)"
      using spaces_step_put [of s d e "{}"] assms d e by simp
    with ret Some d e cap_view_put [OF Some, of e] show ?thesis
      by (simp add: cap_view_def)
  qed
qed

section \<open>Checking a capability\<close>

text \<open>What \<open>cap_check\<close> decides, over the abstract view.\<close>

definition check_spec :: "cap_system \<Rightarrow> u64 \<Rightarrow> u32 \<Rightarrow> u32 \<Rightarrow> int" where
  "check_spec s did h p =
     (case cap_view s did of
        None \<Rightarrow> -1
      | Some l \<Rightarrow>
          if h \<notin> set l then -2
          else (case cap_get_capability h s of
                  None \<Rightarrow> -3
                | Some c \<Rightarrow> if permissions (capabilities s c) AND p = p then 0 else -3))"

lemma space_scan_None:
  assumes "dom_wf d" "h \<noteq> 0"
  shows "first_from (\<lambda>i. cap_space d i = h) 0 DOMAIN_CAP_SPACE_SIZE = None \<longleftrightarrow> h \<notin> set (caps_of d)"
proof -
  have "i < unat (dom_num_caps d)" if "cap_space d i = h" for i
  proof (rule ccontr)
    assume "\<not> i < unat (dom_num_caps d)"
    then have "cap_space d i = 0" using assms(1) by (simp add: dom_wf_def)
    with that assms(2) show False by simp
  qed
  moreover have "unat (dom_num_caps d) \<le> DOMAIN_CAP_SPACE_SIZE" using assms(1) by (simp add: dom_wf_def)
  ultimately have "(\<exists>i<DOMAIN_CAP_SPACE_SIZE. cap_space d i = h) \<longleftrightarrow>
      (\<exists>i<unat (dom_num_caps d). cap_space d i = h)"
    by (blast intro: order_less_le_trans)
  moreover have "h \<in> set (caps_of d) \<longleftrightarrow> (\<exists>i<unat (dom_num_caps d). cap_space d i = h)"
    by (auto simp: caps_of_def)
  ultimately show ?thesis by (simp add: first_from_None_iff) blast
qed

lemma cap_restore_lock [simp]: "cap_lock s = 0 \<Longrightarrow> s\<lparr>cap_lock := 0\<rparr> = s"
  by simp

lemma cap_check_eq:
  assumes "spaces_wf s" "cap_lock s = 0" "h \<noteq> 0"
  shows "cap_check did h p s = Ret (check_spec s did h p, s)"
proof (cases "cap_get_domain did s")
  case None
  with assms(2) show ?thesis by (simp add: cap_check_def outcome_simps check_spec_def cap_view_def)
next
  case (Some d)
  have wf: "dom_wf (domains s d)" using assms(1) cap_get_domainD [OF Some] by (simp add: spaces_wf_def)
  show ?thesis
    using assms(2) Some space_scan_None [OF wf assms(3)]
    by (auto simp: cap_check_def outcome_simps check_spec_def cap_view_def split: option.splits)
qed

section \<open>Granting and revoking\<close>

lemma lock_views [simp]: "spaces_wf (s\<lparr>cap_lock := l\<rparr>) = spaces_wf s" "spaces_wf (put_cap i c s) = spaces_wf s"
  by (simp_all add: spaces_wf_def)

lemma remove1_append_last: "h \<notin> set l \<Longrightarrow> remove1 h (l @ [h]) = l"
  by (simp add: remove1_append)

text \<open>Adding a handle that is not there and removing it again restores the table.\<close>

lemma add_remove_restores:
  assumes "spaces_wf s" "cap_view s did = Some l" "length l < DOMAIN_CAP_SPACE_SIZE" "h \<notin> set l"
  shows "\<exists>t. cap_domain_add_cap did h s = (0, t) \<and> cap_domain_remove_cap did h t = Ret (0, s)"
proof -
  from assms(2) obtain d where d: "cap_get_domain did s = Some d" "l = caps_of (domains s d)"
    by (auto simp: cap_view_def)
  define dom where "dom = domains s d"
  define n where "n = unat (dom_num_caps dom)"
  define e where "e = dom\<lparr>cap_space := (cap_space dom)(n := h), dom_num_caps := dom_num_caps dom + 1\<rparr>"
  have wf: "dom_wf dom"
    using assms(1) cap_get_domainD [OF d(1)] by (simp add: spaces_wf_def dom_def)
  have n: "n < DOMAIN_CAP_SPACE_SIZE" using assms(3) d(2) by (simp add: n_def dom_def)
  then have Suc: "unat (dom_num_caps e) = Suc n"
    by (simp add: e_def unat_word_ariths n_def DOMAIN_CAP_SPACE_SIZE_def)
  have add: "cap_domain_add_cap did h s = (0, put_domain d e s)"
    using d(1) n by (simp add: cap_domain_add_cap_def Let_def e_def dom_def n_def)
  have fresh: "cap_space dom j \<noteq> h" if "j < n" for j
    using assms(4) d(2) that by (auto simp: caps_of_def dom_def n_def)
  then have scan: "first_from (\<lambda>i. cap_space e i = h) 0 (Suc n) = Some n"
    by (intro first_from_SomeI) (simp_all add: e_def)
  have "cap_space dom n = 0" using wf by (simp add: dom_wf_def n_def)
  then have restored: "e\<lparr>cap_space := (shift_caps n (Suc n) (cap_space e))(n := 0), dom_num_caps := dom_num_caps e - 1\<rparr> = dom"
    by (auto simp: e_def shift_caps_eq fun_upd_idem fun_eq_iff intro!: domain.equality)
  have "cap_get_domain did (put_domain d e s) = Some d"
    using d(1) by (simp add: cap_get_domain_put_same e_def dom_def)
  moreover have "put_domain d dom (put_domain d e s) = s"
    by (rule cap_system.equality) (auto simp: put_domain_def dom_def)
  ultimately have "cap_domain_remove_cap did h (put_domain d e s) = Ret (0, s)"
    using scan n restored by (simp add: cap_domain_remove_cap_def Let_def Suc)
  with add show ?thesis by blast
qed

lemma put_cap_comm: "put_cap c e (s\<lparr>cap_lock := l\<rparr>) = (put_cap c e s)\<lparr>cap_lock := l\<rparr>"
  by (simp add: put_cap_def)

lemma put_cap_twice [simp]: "put_cap c e (put_cap c e' s) = put_cap c e s"
  by (simp add: put_cap_def)

lemma put_cap_same [simp]: "put_cap c (capabilities s c) s = s"
  by (simp add: put_cap_def)

lemma put_domain_put_cap: "put_domain d e (put_cap c k s) = put_cap c k (put_domain d e s)"
  by (simp add: put_domain_def put_cap_def)

lemma remove_cap_put_cap:
  "cap_domain_remove_cap did h (put_cap c e s) =
     bindR (cap_domain_remove_cap did h s) (\<lambda>(r, t). Ret (r, put_cap c e t))"
  by (simp add: cap_domain_remove_cap_def Let_def put_domain_put_cap split: option.split)

lemma remove_cap_lock:
  "cap_domain_remove_cap did h (s\<lparr>cap_lock := l\<rparr>) =
     bindR (cap_domain_remove_cap did h s) (\<lambda>(r, t). Ret (r, t\<lparr>cap_lock := l\<rparr>))"
  by (auto simp: cap_domain_remove_cap_def Let_def put_domain_def split: option.splits)

lemma add_cap_lock:
  "cap_domain_add_cap did h (s\<lparr>cap_lock := l\<rparr>) =
     (case cap_domain_add_cap did h s of (r, t) \<Rightarrow> (r, t\<lparr>cap_lock := l\<rparr>))"
  by (auto simp: cap_domain_add_cap_def Let_def put_domain_def split: option.splits)

text \<open>The resolution of handles only looks at the handle counter and the magic numbers.\<close>

lemma cap_get_capability_put_live:
  assumes "cap_magic e = cap_magic (capabilities s c)"
  shows "cap_get_capability h (put_cap c e s) = cap_get_capability h s"
  using assms by (intro cap_get_capability_cong) auto

lemma spaces_step_resolve:
  "spaces_step H s t \<Longrightarrow> cap_get_capability h t = cap_get_capability h s"
  by (rule cap_get_capability_cong) (simp_all add: spaces_step_fields)

text \<open>A successful grant, on an unlocked system.\<close>

lemma cap_grant_eq:
  assumes "spaces_wf s" "cap_lock s = 0" "cap_get_capability h s = Some c"
    "permissions (capabilities s c) AND CAP_PERM_GRANT \<noteq> 0"
    "cap_domain_add_cap did h s = (0, t)"
  shows "cap_grant h did s = Ret (h, put_cap c ((capabilities s c)\<lparr>
           ref_count := ref_count (capabilities s c) + 1\<rparr>) t)"
proof -
  have t: "cap_lock t = 0" "capabilities t = capabilities s"
    using spaces_step_fields [OF cap_domain_add_cap_view(3) [OF assms(1,5)]] assms(2) by auto
  then show ?thesis
    using assms(2-5)
    by (simp add: cap_grant_def outcome_simps add_cap_lock put_cap_comm)
qed

lemma cap_revoke_eq:
  assumes "spaces_wf s" "cap_lock s = 0" "cap_get_capability h s = Some c"
    "cap_domain_remove_cap did h s = Ret (0, t)"
  shows "cap_revoke h did s = Ret (0, put_cap c ((capabilities s c)\<lparr>
           ref_count := ref_count (capabilities s c) - 1\<rparr>) t)"
proof -
  obtain t' where "cap_domain_remove_cap did h s = Ret (0, t')" "spaces_step {} s t'"
    using cap_domain_remove_cap_view [OF assms(1), of did h] assms(4) by auto
  then have "cap_lock t = 0" "capabilities t = capabilities s"
    using spaces_step_fields [of "{}" s t] assms(2,4) by auto
  then show ?thesis
    using assms(2-4) by (simp add: cap_revoke_def outcome_simps remove_cap_lock put_cap_comm)
qed

section \<open>Deleting a capability\<close>

definition delete_sweep :: "u32 \<Rightarrow> nat \<Rightarrow> cap_system \<Rightarrow> cap_system outcome" where
  "delete_sweep h n s = forR (\<lambda>i u. bindR (cap_domain_remove_cap (domain_id (domains u i)) h u)
                                           (\<lambda>(r, u'). Ret u')) [0..<n] s"

lemma remove1_pow_idem: "h \<notin> set l \<Longrightarrow> (remove1 h ^^ k) l = l"
  by (induction k) (simp_all add: remove1_idem)

lemma delete_sweep_view:
  assumes "spaces_wf s"
  shows "\<exists>t. delete_sweep h n s = Ret t \<and> spaces_step {} s t \<and>
    cap_view t = (\<lambda>did. map_option (remove1 h ^^ card {i. i < n \<and> domain_id (domains s i) = did})
                          (cap_view s did))"
proof (induction n)
  case 0
  then show ?case using assms by (simp add: delete_sweep_def spaces_step_refl option.map_id0 [unfolded id_def])
next
  case (Suc n)
  then obtain t where t: "delete_sweep h n s = Ret t" "spaces_step {} s t"
    "cap_view t = (\<lambda>did. map_option (remove1 h ^^ card {i. i < n \<and> domain_id (domains s i) = did})
                          (cap_view s did))" by blast
  note f = spaces_step_fields [OF t(2)]
  obtain r u where u: "cap_domain_remove_cap (domain_id (domains t n)) h t = Ret (r, u)"
    "cap_view u = (cap_view t)(domain_id (domains t n) :=
       map_option (remove1 h) (cap_view t (domain_id (domains t n))))" "spaces_step {} t u"
    using cap_domain_remove_cap_view [OF f(7), of "domain_id (domains t n)" h] by auto
  have "delete_sweep h (Suc n) s = Ret u"
    using t(1) u(1) by (simp add: delete_sweep_def forR_append)
  moreover have "spaces_step {} s u" using t(2) u(3) by (rule spaces_step_trans)
  moreover have "cap_view u did =
      map_option (remove1 h ^^ card {i. i < Suc n \<and> domain_id (domains s i) = did}) (cap_view s did)" for did
  proof (cases "domain_id (domains s n) = did")
    case True
    then have "{i. i < Suc n \<and> domain_id (domains s i) = did} =
        insert n {i. i < n \<and> domain_id (domains s i) = did}"
      by (auto simp: less_Suc_eq)
    with True show ?thesis
      by (simp add: u(2) t(3) f option.map_comp comp_def)
  next
    case False
    then have "{i. i < Suc n \<and> domain_id (domains s i) = did} = {i. i < n \<and> domain_id (domains s i) = did}"
      by (auto simp: less_Suc_eq)
    with False show ?thesis by (simp add: u(2) t(3) f)
  qed
  ultimately show ?case by blast
qed

text \<open>Every identifier but 0 names one slot.\<close>

definition ids_unique :: "cap_system \<Rightarrow> bool" where
  "ids_unique s \<longleftrightarrow> (\<forall>i<MAX_DOMAINS. \<forall>j<MAX_DOMAINS.
     domain_id (domains s i) = domain_id (domains s j) \<and> domain_id (domains s i) \<noteq> 0 \<longrightarrow> i = j)"

lemma ids_unique_card:
  assumes "ids_unique s" "did \<noteq> 0" "cap_view s did \<noteq> None"
  shows "card {i. i < MAX_DOMAINS \<and> domain_id (domains s i) = did} = 1"
proof -
  from assms(3) obtain d where d: "cap_get_domain did s = Some d" by (auto simp: cap_view_def)
  have "{i. i < MAX_DOMAINS \<and> domain_id (domains s i) = did} = {d}"
    using assms(1,2) cap_get_domainD [OF d] by (auto simp: ids_unique_def)
  then show ?thesis by simp
qed

lemma cap_delete_eq:
  assumes "spaces_wf s" "cap_lock s = 0" "cap_get_capability h s = Some c"
  shows "\<exists>t. cap_delete h s = Ret (0, put_cap c zero_capability (t\<lparr>num_caps := num_caps s - 1\<rparr>)) \<and>
    spaces_step {} s t \<and>
    cap_view t = (\<lambda>did. map_option (remove1 h ^^ card {i. i < MAX_DOMAINS \<and> domain_id (domains s i) = did})
                          (cap_view s did))"
proof -
  let ?s = "s\<lparr>cap_lock := 1\<rparr>"
  obtain u where u: "delete_sweep h MAX_DOMAINS ?s = Ret u" "spaces_step {} ?s u"
    "cap_view u = (\<lambda>did. map_option (remove1 h ^^ card {i. i < MAX_DOMAINS \<and> domain_id (domains s i) = did})
                          (cap_view s did))"
    using delete_sweep_view [of ?s h MAX_DOMAINS] assms(1) by auto
  have "spaces_step {} s (u\<lparr>cap_lock := 0\<rparr>)"
    using u(2) assms(1,2) spaces_step_fields [OF u(2)]
    by (auto simp: spaces_step_def intro!: cap_system.equality)
  moreover have "cap_delete h s =
      Ret (0, put_cap c zero_capability ((u\<lparr>cap_lock := 0\<rparr>)\<lparr>num_caps := num_caps s - 1\<rparr>))"
    using assms(2,3) u(1) spaces_step_fields [OF u(2)]
    by (simp add: cap_delete_def outcome_simps delete_sweep_def [symmetric]) (simp add: put_cap_def)
  ultimately show ?thesis using u(3) by auto
qed

lemma cap_get_capability_freed:
  "cap_get_capability h (put_cap c zero_capability s) =
     (if cap_get_capability h s = Some c then None else cap_get_capability h s)"
  by (auto simp: cap_get_capability_eq zero_capability_def HIK_CAP_MAGIC_def)

section \<open>Self-deadlock\<close>

lemma cap_create_held: "cap_lock s \<noteq> 0 \<Longrightarrow> cap_create ty p rid base sz did s = Hang"
  unfolding cap_create_def by (rule capl.held_hangs)

lemma cap_revoke_held: "cap_lock s \<noteq> 0 \<Longrightarrow> cap_revoke h did s = Hang"
  unfolding cap_revoke_def by (rule capl.held_hangs)

lemma cap_derive_hangs:
  assumes "cap_get_capability h s = Some c"
  shows "cap_derive h np s = Hang"
  using assms by (simp add: cap_derive_def locked_eq cap_create_held Let_def)

lemma revoke_loop_hangs:
  "cap_lock s \<noteq> 0 \<Longrightarrow>
   forR (\<lambda>i u. if cap_space (domains u d) i \<noteq> 0
               then bindR (cap_revoke (cap_space (domains u d) i) did u) (\<lambda>(r, u'). Ret u')
               else Ret u) is s =
   (if \<exists>i\<in>set is. cap_space (domains s d) i \<noteq> 0 then Hang else Ret s)"
  by (induction "is") (auto simp: cap_revoke_held)

lemma cap_delete_domain_eq:
  assumes "cap_lock s = 0"
  shows "cap_delete_domain did s =
    (case cap_get_domain did s of
       None \<Rightarrow> Ret (-1, s)
     | Some d \<Rightarrow>
         if \<exists>i<DOMAIN_CAP_SPACE_SIZE. cap_space (domains s d) i \<noteq> 0 then Hang
         else Ret (0, (put_domain d zero_domain s)\<lparr>num_domains := num_domains s - 1\<rparr>))"
  using assms
  by (auto simp: cap_delete_domain_def outcome_simps revoke_loop_hangs Let_def put_domain_def
      split: option.splits)

section \<open>The invariant of the capability system\<close>

definition live_caps :: "cap_system \<Rightarrow> nat set" where
  "live_caps s = {i. i < MAX_CAPABILITIES \<and> cap_magic (capabilities s i) = HIK_CAP_MAGIC}"

definition live_doms :: "cap_system \<Rightarrow> nat set" where
  "live_doms s = {i. i < MAX_DOMAINS \<and> domain_id (domains s i) \<noteq> 0}"

text \<open>
  Spaces are well formed, the two counters count the live entries, domain identifiers are
  unique and were issued, and every handle in a space is one that \<open>cap_create\<close> handed out.
\<close>

definition cap_inv :: "cap_system \<Rightarrow> bool" where
  "cap_inv s \<longleftrightarrow> cap_lock s = 0 \<and> spaces_wf s \<and> ids_unique s \<and>
     num_caps s = of_nat (card (live_caps s)) \<and>
     num_domains s = of_nat (card (live_doms s)) \<and>
     0 < next_domain_id s \<and> 0 < next_cap_handle s \<and>
     (\<forall>i<MAX_DOMAINS. unat (domain_id (domains s i)) < unat (next_domain_id s)) \<and>
     (\<forall>i<MAX_DOMAINS. \<forall>h\<in>set (caps_of (domains s i)). h \<noteq> 0 \<and> h < next_cap_handle s)"

lemma cap_invI:
  assumes "cap_lock s = 0" "spaces_wf s" "ids_unique s"
    "num_caps s = of_nat (card (live_caps s))" "num_domains s = of_nat (card (live_doms s))"
    "0 < next_domain_id s" "0 < next_cap_handle s"
    "\<And>i. i < MAX_DOMAINS \<Longrightarrow> unat (domain_id (domains s i)) < unat (next_domain_id s)"
    "\<And>i h. i < MAX_DOMAINS \<Longrightarrow> h \<in> set (caps_of (domains s i)) \<Longrightarrow> h \<noteq> 0 \<and> h < next_cap_handle s"
  shows "cap_inv s"
  using assms unfolding cap_inv_def by blast

lemma cap_invD:
  assumes "cap_inv s"
  shows "cap_lock s = 0" "spaces_wf s" "ids_unique s"
    "num_caps s = of_nat (card (live_caps s))" "num_domains s = of_nat (card (live_doms s))"
    "0 < next_domain_id s" "0 < next_cap_handle s"
    "\<And>i. i < MAX_DOMAINS \<Longrightarrow> unat (domain_id (domains s i)) < unat (next_domain_id s)"
    "\<And>i h. i < MAX_DOMAINS \<Longrightarrow> h \<in> set (caps_of (domains s i)) \<Longrightarrow> h \<noteq> 0 \<and> h < next_cap_handle s"
  using assms unfolding cap_inv_def by blast+

lemma cap_inv_spaces_step:
  assumes "cap_inv s" "spaces_step H s t" "\<And>h. h \<in> H \<Longrightarrow> h \<noteq> 0 \<and> h < next_cap_handle s"
  shows "cap_inv t"
proof (rule cap_invI)
  note f = spaces_step_fields [OF assms(2)]
  note inv = cap_invD [OF assms(1)]
  show "cap_lock t = 0" "spaces_wf t" "0 < next_domain_id t" "0 < next_cap_handle t"
    "ids_unique t" "num_caps t = of_nat (card (live_caps t))"
    "num_domains t = of_nat (card (live_doms t))"
    using f inv by (simp_all add: ids_unique_def live_caps_def live_doms_def)
  show "unat (domain_id (domains t i)) < unat (next_domain_id t)" if "i < MAX_DOMAINS" for i
    using inv(8) [OF that] by (simp add: f)
  show "h \<noteq> 0 \<and> h < next_cap_handle t" if "i < MAX_DOMAINS" "h \<in> set (caps_of (domains t i))" for i h
    using inv(9) [OF that(1), of h] assms(2,3) that(2) f(2) by (auto simp: spaces_step_def)
qed

text \<open>Rewriting a capability in place, and freeing one.\<close>

lemma cap_part_updates [simp]:
  "ids_unique (put_cap i c s) = ids_unique s" "live_doms (put_cap i c s) = live_doms s"
  "ids_unique (s\<lparr>num_caps := m\<rparr>) = ids_unique s" "live_doms (s\<lparr>num_caps := m\<rparr>) = live_doms s"
  "spaces_wf (s\<lparr>num_caps := m\<rparr>) = spaces_wf s" "live_caps (s\<lparr>num_caps := m\<rparr>) = live_caps s"
  "ids_unique (s\<lparr>next_cap_handle := h\<rparr>) = ids_unique s"
  "live_doms (s\<lparr>next_cap_handle := h\<rparr>) = live_doms s"
  "spaces_wf (s\<lparr>next_cap_handle := h\<rparr>) = spaces_wf s"
  "live_caps (s\<lparr>next_cap_handle := h\<rparr>) = live_caps s"
  by (simp_all add: ids_unique_def live_doms_def spaces_wf_def live_caps_def)

lemma finite_live [simp]: "finite (live_caps s)" "finite (live_doms s)"
  by (simp_all add: live_caps_def live_doms_def)

lemma cap_inv_put_live:
  assumes "cap_inv s" "cap_magic e = cap_magic (capabilities s c)"
  shows "cap_inv (put_cap c e s)"
proof -
  have "live_caps (put_cap c e s) = live_caps s" using assms(2) by (auto simp: live_caps_def)
  then show ?thesis using assms(1) by (simp add: cap_inv_def)
qed

lemma cap_inv_free_cap:
  assumes "cap_inv s" "c \<in> live_caps s"
  shows "cap_inv (put_cap c zero_capability (s\<lparr>num_caps := num_caps s - 1\<rparr>))"
proof -
  have "live_caps (put_cap c zero_capability (s\<lparr>num_caps := num_caps s - 1\<rparr>)) = live_caps s - {c}"
    by (auto simp: live_caps_def zero_capability_def HIK_CAP_MAGIC_def)
  then show ?thesis
    using assms by (simp add: cap_inv_def word_card_remove del: card_Diff_insert)
qed

lemma cap_inv_new_cap:
  assumes "cap_inv s" "c < MAX_CAPABILITIES" "c \<notin> live_caps s" "cap_magic e = HIK_CAP_MAGIC"
    "next_cap_handle s \<noteq> - 1"
  shows "cap_inv (put_cap c e (s\<lparr>next_cap_handle := next_cap_handle s + 1, num_caps := num_caps s + 1\<rparr>))"
proof (rule cap_invI)
  let ?t = "put_cap c e (s\<lparr>next_cap_handle := next_cap_handle s + 1, num_caps := num_caps s + 1\<rparr>)"
  note inv = cap_invD [OF assms(1)]
  have "live_caps ?t = insert c (live_caps s)"
    using assms(2,4) by (auto simp: live_caps_def)
  then show "num_caps ?t = of_nat (card (live_caps ?t))" using inv(4) assms(3) by simp
  have lt: "next_cap_handle s < next_cap_handle s + 1" using assms(5) by (rule less_inc)
  then show "0 < next_cap_handle ?t" using inv(7) by (simp add: order.strict_trans)
  show "h \<noteq> 0 \<and> h < next_cap_handle ?t" if "i < MAX_DOMAINS" "h \<in> set (caps_of (domains ?t i))" for i h
    using inv(9) [OF that(1), of h] that(2) lt by (auto intro: order.strict_trans)
qed (use cap_invD [OF assms(1)] in simp_all)

section \<open>Every operation keeps the invariant\<close>

text \<open>\<open>cap_create\<close> on an unlocked system, with the domain update last.\<close>

definition new_cap :: "cap_type \<Rightarrow> u32 \<Rightarrow> u64 \<Rightarrow> u64 \<Rightarrow> u64 \<Rightarrow> u64 \<Rightarrow> capability" where
  "new_cap ty p rid base sz did = \<lparr>cap_magic = HIK_CAP_MAGIC, cap_kind = ty, permissions = p,
     resource_id = rid, resource_base = base, resource_size = sz, owner_domain = did,
     ref_count = 1, cap_flags = 0\<rparr>"

definition free_cap_slot :: "cap_system \<Rightarrow> nat option" where
  "free_cap_slot s = first_from (\<lambda>i. cap_magic (capabilities s i) \<noteq> HIK_CAP_MAGIC) 0 MAX_CAPABILITIES"

lemma add_cap_counters:
  "cap_domain_add_cap did h (s\<lparr>num_caps := m\<rparr>) =
     (case cap_domain_add_cap did h s of (r, t) \<Rightarrow> (r, t\<lparr>num_caps := m\<rparr>))"
  by (auto simp: cap_domain_add_cap_def Let_def put_domain_def split: option.splits)

lemma add_cap_None: "cap_get_domain did s = None \<Longrightarrow> snd (cap_domain_add_cap did h s) = s"
  by (simp add: cap_domain_add_cap_def)

lemma cap_create_eq:
  assumes "cap_lock s = 0"
  shows "cap_create ty p rid base sz did s =
    (case free_cap_slot s of
       None \<Rightarrow> Ret (0, s)
     | Some slot \<Rightarrow>
         Ret (next_cap_handle s,
           snd (cap_domain_add_cap did (next_cap_handle s)
             (put_cap slot (new_cap ty p rid base sz did)
               (s\<lparr>next_cap_handle := next_cap_handle s + 1, num_caps := num_caps s + 1\<rparr>)))))"
proof (cases "free_cap_slot s")
  case None
  with assms show ?thesis
    by (simp add: cap_create_def outcome_simps free_cap_slot_def)
next
  case (Some slot)
  define h where "h = next_cap_handle s"
  define u where "u = put_cap slot (new_cap ty p rid base sz did) (s\<lparr>next_cap_handle := h + 1\<rparr>)"
  define v where "v = snd (cap_domain_add_cap did h u)"
  have u: "put_cap slot (new_cap ty p rid base sz did) (s\<lparr>next_cap_handle := h + 1, num_caps := m\<rparr>) =
      u\<lparr>num_caps := m\<rparr>" for m
    by (simp add: u_def put_cap_def)
  have lock: "(put_cap slot (new_cap ty p rid base sz did) (s\<lparr>cap_lock := 1\<rparr>))\<lparr>next_cap_handle := h + 1\<rparr> =
      u\<lparr>cap_lock := 1\<rparr>"
    by (simp add: u_def put_cap_def)
  have "num_caps u = num_caps s" "cap_lock u = 0" using assms by (simp_all add: u_def)
  then have v: "num_caps v = num_caps s" "cap_lock v = 0"
    by (auto simp: v_def cap_domain_add_cap_def Let_def split: option.splits)
  have dom: "cap_get_domain did u = cap_get_domain did s" by (simp add: u_def)
  then have "cap_get_domain did s = None \<Longrightarrow> u = v" by (simp add: v_def add_cap_None)
  moreover have "snd (cap_domain_add_cap did h (u\<lparr>cap_lock := 1\<rparr>)) = v\<lparr>cap_lock := 1\<rparr>"
    by (simp add: v_def add_cap_lock split_beta)
  ultimately have "cap_create ty p rid base sz did s = Ret (h, v\<lparr>num_caps := num_caps s + 1\<rparr>)"
    using assms Some v
    by (cases "cap_get_domain did s")
      (simp_all add: cap_create_def outcome_simps free_cap_slot_def Let_def new_cap_def [symmetric]
        h_def [symmetric] lock)
  then show ?thesis
    by (simp add: Some h_def [symmetric] u add_cap_counters v_def split_beta)
qed

lemma free_cap_slotD: "free_cap_slot s = Some c \<Longrightarrow> c < MAX_CAPABILITIES \<and> c \<notin> live_caps s"
  using caps.claim_free [of s c] by (auto simp: free_cap_slot_def live_caps_def)

lemma cap_inv_create:
  assumes "cap_inv s" "cap_create ty p rid base sz did s = Ret (h, t)" "next_cap_handle s \<noteq> - 1"
  shows "cap_inv t"
proof (cases "free_cap_slot s")
  case None
  with assms show ?thesis by (simp add: cap_create_eq cap_invD(1))
next
  case (Some c)
  let ?u = "put_cap c (new_cap ty p rid base sz did)
    (s\<lparr>next_cap_handle := next_cap_handle s + 1, num_caps := num_caps s + 1\<rparr>)"
  have inv: "cap_inv ?u"
    using free_cap_slotD [OF Some] assms(3)
    by (intro cap_inv_new_cap [OF assms(1)]) (simp_all add: new_cap_def)
  obtain r where r: "cap_domain_add_cap did (next_cap_handle s) ?u = (r, t)"
    using assms(2) Some cap_invD(1) [OF assms(1)]
    by (cases "cap_domain_add_cap did (next_cap_handle s) ?u") (simp add: cap_create_eq)
  show ?thesis
    using inv cap_domain_add_cap_view(3) [OF cap_invD(2) [OF inv] r]
  proof (rule cap_inv_spaces_step)
    show "x \<noteq> 0 \<and> x < next_cap_handle ?u" if "x \<in> {next_cap_handle s}" for x
      using that cap_invD(7) [OF assms(1)] less_inc [OF assms(3)] by auto
  qed
qed

lemma cap_inv_delete:
  assumes "cap_inv s" "cap_delete h s = Ret (r, t)"
  shows "cap_inv t"
proof (cases "cap_get_capability h s")
  case None
  with assms cap_invD(1) [OF assms(1)] show ?thesis by (simp add: cap_delete_def outcome_simps)
next
  case (Some c)
  obtain u where u: "t = put_cap c zero_capability (u\<lparr>num_caps := num_caps s - 1\<rparr>)" "spaces_step {} s u"
    using cap_delete_eq [OF cap_invD(2,1) [OF assms(1)] Some] assms(2) by auto
  have inv: "cap_inv u" using cap_inv_spaces_step [OF assms(1) u(2)] by simp
  have "c \<in> live_caps u"
    using cap_get_capabilityD [OF Some] spaces_step_fields [OF u(2)] by (simp add: live_caps_def)
  from cap_inv_free_cap [OF inv this] show ?thesis
    using u spaces_step_fields [OF u(2)] by simp
qed

lemma cap_inv_grant:
  assumes "cap_inv s" "cap_grant h did s = Ret (r, t)"
  shows "cap_inv t"
proof (cases "\<exists>c. cap_get_capability h s = Some c \<and> permissions (capabilities s c) AND CAP_PERM_GRANT \<noteq> 0")
  case False
  with assms cap_invD(1) [OF assms(1)] show ?thesis
    by (cases "cap_get_capability h s") (auto simp: cap_grant_def outcome_simps)
next
  case True
  then obtain c where c: "cap_get_capability h s = Some c"
    "permissions (capabilities s c) AND CAP_PERM_GRANT \<noteq> 0" by blast
  obtain rc u where u: "cap_domain_add_cap did h s = (rc, u)" by fastforce
  note step = cap_domain_add_cap_view(3) [OF cap_invD(2) [OF assms(1)] u]
  have inv: "cap_inv u"
    using assms(1) step by (rule cap_inv_spaces_step) (use cap_get_capabilityD [OF c(1)] in auto)
  have "cap_lock u = 0" by (rule cap_invD(1) [OF inv])
  then have "t = u \<or> (\<exists>e. t = put_cap c e u \<and> cap_magic e = cap_magic (capabilities u c))"
    using assms(2) c u cap_invD(1) [OF assms(1)]
    by (auto simp: cap_grant_def outcome_simps add_cap_lock put_cap_comm split: if_splits)
  then show ?thesis using inv cap_inv_put_live by blast
qed

lemma cap_inv_revoke:
  assumes "cap_inv s" "cap_revoke h did s = Ret (r, t)"
  shows "cap_inv t"
proof (cases "cap_get_capability h s")
  case None
  with assms cap_invD(1) [OF assms(1)] show ?thesis by (simp add: cap_revoke_def outcome_simps)
next
  case (Some c)
  obtain rc u where u: "cap_domain_remove_cap did h s = Ret (rc, u)" "spaces_step {} s u"
    using cap_domain_remove_cap_view [OF cap_invD(2) [OF assms(1)], of did h] by auto
  have inv: "cap_inv u" using cap_inv_spaces_step [OF assms(1) u(2)] by simp
  have "cap_lock u = 0" by (rule cap_invD(1) [OF inv])
  then have "t = u \<or> (\<exists>e. t = put_cap c e u \<and> cap_magic e = cap_magic (capabilities u c))"
    using assms(2) Some u cap_invD(1) [OF assms(1)]
    by (auto simp: cap_revoke_def outcome_simps remove_cap_lock put_cap_comm split: if_splits)
  then show ?thesis using inv cap_inv_put_live by blast
qed

lemma cap_inv_check:
  assumes "cap_inv s" "cap_check did h p s = Ret (r, t)"
  shows "t = s"
  using assms(2) cap_invD(1) [OF assms(1)]
  by (auto simp: cap_check_def outcome_simps split: if_splits option.splits)

lemma cap_check_pure:
  assumes "cap_check did h p s = Ret (r, t)"
  shows "t = s" "cap_lock s = 0"
proof -
  show "cap_lock s = 0" using assms unfolding cap_check_def by (rule capl.returnsE)
  with assms show "t = s"
    by (auto simp: cap_check_def outcome_simps split: if_splits option.splits)
qed

lemma cap_inv_derive:
  assumes "cap_inv s" "cap_derive h p s = Ret (r, t)"
  shows "t = s"
  using assms(2) cap_invD(1) [OF assms(1)] cap_derive_hangs [of h s]
  by (cases "cap_get_capability h s") (auto simp: cap_derive_def outcome_simps)

definition new_domain :: "u64 \<Rightarrow> u64 \<Rightarrow> u64 \<Rightarrow> domain" where
  "new_domain did base sz = \<lparr>domain_id = did, memory_base = base, memory_size = sz,
     cap_space = (\<lambda>_. 0), dom_num_caps = 0, dom_state = DOMAIN_STATE_STOPPED\<rparr>"

definition free_dom_slot :: "cap_system \<Rightarrow> nat option" where
  "free_dom_slot s = first_from (\<lambda>i. domain_id (domains s i) = 0) 0 MAX_DOMAINS"

lemma cap_create_domain_eq:
  assumes "cap_lock s = 0"
  shows "cap_create_domain base sz s =
    (case free_dom_slot s of
       None \<Rightarrow> Ret (0, s)
     | Some d \<Rightarrow> Ret (ucast (next_domain_id s),
         put_domain d (new_domain (ucast (next_domain_id s)) base sz)
           (s\<lparr>next_domain_id := next_domain_id s + 1, num_domains := num_domains s + 1\<rparr>)))"
  using assms
  by (auto simp: cap_create_domain_def outcome_simps free_dom_slot_def Let_def put_domain_def
      new_domain_def split: option.splits)

lemma caps_of_empty [simp]: "caps_of (new_domain did base sz) = []" "caps_of zero_domain = []"
  by (simp_all add: caps_of_def new_domain_def zero_domain_def)

lemma new_domain_simps [simp]:
  "domain_id (new_domain did base sz) = did" "domain_id zero_domain = 0"
  "dom_wf (new_domain did base sz)" "dom_wf zero_domain"
  by (simp_all add: new_domain_def zero_domain_def dom_wf_def)

lemma unat_ucast_32_64 [simp]: "unat (ucast (x :: u32) :: u64) = unat x"
  by (rule unat_ucast_up) simp

lemma cap_inv_create_domain:
  assumes "cap_inv s" "cap_create_domain base sz s = Ret (r, t)" "next_domain_id s \<noteq> - 1"
  shows "cap_inv t"
proof (cases "free_dom_slot s")
  case None
  with assms show ?thesis by (simp add: cap_create_domain_eq cap_invD(1))
next
  case (Some d)
  note inv = cap_invD [OF assms(1)]
  let ?did = "ucast (next_domain_id s) :: u64"
  have d: "d < MAX_DOMAINS" "domain_id (domains s d) = 0"
    using doms.claim_free [of s d] Some by (auto simp: free_dom_slot_def)
  have t: "t = put_domain d (new_domain ?did base sz)
      (s\<lparr>next_domain_id := next_domain_id s + 1, num_domains := num_domains s + 1\<rparr>)"
    using assms(2) Some inv(1) by (auto simp: cap_create_domain_eq)
  have did: "unat ?did = unat (next_domain_id s)" by simp
  then have nz: "?did \<noteq> 0" using inv(6) by (metis unat_0 unat_gt_0 word_neq_0_conv)
  have old: "\<forall>i<MAX_DOMAINS. domain_id (domains s i) \<noteq> ?did"
    using inv(8) did by fastforce
  have inc: "unat (next_domain_id s + 1) = Suc (unat (next_domain_id s))"
    using assms(3) by (rule unat_inc)
  have live: "live_doms t = insert d (live_doms s)" "live_caps t = live_caps s"
    using nz d by (auto simp: t live_doms_def live_caps_def)
  show ?thesis
  proof (rule cap_invI)
    show "spaces_wf t" using inv(2) by (simp add: t spaces_wf_def)
    show "ids_unique t" using inv(3) old nz d by (auto simp: t ids_unique_def)
    show "num_domains t = of_nat (card (live_doms t))"
      using inv(5) d unfolding live by (simp add: t live_doms_def)
    show "0 < next_domain_id t" using inc by (simp add: t word_less_nat_alt)
    show "unat (domain_id (domains t i)) < unat (next_domain_id t)" if "i < MAX_DOMAINS" for i
      using inv(8) [OF that] did inc by (simp add: t)
    show "h \<noteq> 0 \<and> h < next_cap_handle t" if "i < MAX_DOMAINS" "h \<in> set (caps_of (domains t i))" for i h
      using inv(9) [OF that(1), of h] that(2) by (simp add: t split: if_splits)
  qed (use inv live in \<open>simp_all add: t\<close>)
qed

lemma cap_inv_delete_domain:
  assumes "cap_inv s" "cap_delete_domain did s = Ret (r, t)" "did \<noteq> 0"
  shows "cap_inv t"
proof (cases "cap_get_domain did s")
  case None
  with assms cap_invD(1) [OF assms(1)] show ?thesis by (simp add: cap_delete_domain_eq)
next
  case (Some d)
  note inv = cap_invD [OF assms(1)]
  have d: "d < MAX_DOMAINS" "domain_id (domains s d) = did" using cap_get_domainD [OF Some] by auto
  have t: "t = (put_domain d zero_domain s)\<lparr>num_domains := num_domains s - 1\<rparr>"
    using assms(2) Some inv(1) by (simp add: cap_delete_domain_eq split: if_splits)
  have live: "live_doms t = live_doms s - {d}" "live_caps t = live_caps s"
    by (auto simp: t live_doms_def live_caps_def)
  have in_live: "d \<in> live_doms s" using d assms(3) by (simp add: live_doms_def)
  show ?thesis
  proof (rule cap_invI)
    show "spaces_wf t" using inv(2) by (simp add: t spaces_wf_def)
    show "ids_unique t" using inv(3) by (auto simp: t ids_unique_def)
    show "num_domains t = of_nat (card (live_doms t))"
      unfolding live using word_card_remove [OF _ in_live, where 'w = 32] inv(5) by (simp add: t del: card_Diff_insert)
    show "unat (domain_id (domains t i)) < unat (next_domain_id t)" if "i < MAX_DOMAINS" for i
      using inv(8) [OF that] by (auto simp: t)
    show "h \<noteq> 0 \<and> h < next_cap_handle t" if "i < MAX_DOMAINS" "h \<in> set (caps_of (domains t i))" for i h
      using inv(9) [OF that(1), of h] that(2) by (simp add: t split: if_splits)
  qed (use inv live in \<open>simp_all add: t\<close>)
qed

lemma cap_inv_init: "cap_init s = Ret (r, t) \<Longrightarrow> cap_inv t"
  by (auto simp: cap_init_def cap_inv_def spaces_wf_def ids_unique_def live_caps_def live_doms_def
      zero_capability_def zero_domain_def dom_wf_def caps_of_def HIK_CAP_MAGIC_def)

section \<open>What every call keeps\<close>

text \<open>The part of the invariant that needs no assumption on the calls.\<close>

definition cap_core :: "cap_system \<Rightarrow> bool" where
  "cap_core s \<longleftrightarrow> cap_lock s = 0 \<and> spaces_wf s \<and> num_caps s = of_nat (card (live_caps s))"

lemma cap_core_spaces_step: "cap_core s \<Longrightarrow> spaces_step H s t \<Longrightarrow> cap_core t"
  using spaces_step_fields [of H s t] by (simp add: cap_core_def live_caps_def)

lemma cap_core_put_live: "cap_core s \<Longrightarrow> cap_magic e = cap_magic (capabilities s c) \<Longrightarrow> cap_core (put_cap c e s)"
proof -
  assume s: "cap_core s" "cap_magic e = cap_magic (capabilities s c)"
  have "live_caps (put_cap c e s) = live_caps s" using s(2) by (auto simp: live_caps_def)
  then show ?thesis using s(1) by (simp add: cap_core_def)
qed

lemma live_rewrite:
  "cap_magic e = cap_magic (capabilities u c) \<Longrightarrow>
   A \<or> B \<or> (\<exists>c' e'. put_cap c e u = put_cap c' e' u \<and> cap_magic e' = cap_magic (capabilities u c'))"
  by blast

lemma cap_core_create:
  assumes "cap_core s" "cap_create ty p rid base sz did s = Ret (h, t)"
  shows "cap_core t"
proof (cases "free_cap_slot s")
  case None
  with assms show ?thesis by (simp add: cap_create_eq cap_core_def)
next
  case (Some c)
  let ?u = "put_cap c (new_cap ty p rid base sz did)
    (s\<lparr>next_cap_handle := next_cap_handle s + 1, num_caps := num_caps s + 1\<rparr>)"
  have "live_caps ?u = insert c (live_caps s)" "c \<notin> live_caps s"
    using free_cap_slotD [OF Some] by (auto simp: live_caps_def new_cap_def)
  then have core: "cap_core ?u" using assms(1) by (simp add: cap_core_def)
  have "cap_lock s = 0" using assms(1) by (simp add: cap_core_def)
  then obtain r where r: "cap_domain_add_cap did (next_cap_handle s) ?u = (r, t)"
    using assms(2) Some by (cases "cap_domain_add_cap did (next_cap_handle s) ?u") (simp add: cap_create_eq)
  have "spaces_wf ?u" using core by (simp add: cap_core_def)
  then show ?thesis using core cap_domain_add_cap_view(3) [OF _ r] cap_core_spaces_step by blast
qed

lemma cap_core_delete:
  assumes "cap_core s" "cap_delete h s = Ret (r, t)"
  shows "cap_core t"
proof (cases "cap_get_capability h s")
  case None
  with assms show ?thesis by (simp add: cap_delete_def outcome_simps cap_core_def)
next
  case (Some c)
  obtain u where u: "t = put_cap c zero_capability (u\<lparr>num_caps := num_caps s - 1\<rparr>)" "spaces_step {} s u"
    using cap_delete_eq [OF _ _ Some] assms by (auto simp: cap_core_def)
  note f = spaces_step_fields [OF u(2)]
  have "live_caps t = live_caps s - {c}"
    using f by (auto simp: u(1) live_caps_def zero_capability_def HIK_CAP_MAGIC_def)
  moreover have "c \<in> live_caps s" using cap_get_capabilityD [OF Some] by (simp add: live_caps_def)
  ultimately have "num_caps t = of_nat (card (live_caps t))"
    using assms(1) word_card_remove [of "live_caps s" c, where 'w = 32]
    by (simp add: u(1) cap_core_def del: card_Diff_insert)
  with assms(1) f show ?thesis by (simp add: u(1) cap_core_def)
qed

lemma cap_core_grant:
  assumes "cap_core s" "cap_grant h did s = Ret (r, t)"
  shows "cap_core t"
proof -
  obtain rc u where u: "cap_domain_add_cap did h s = (rc, u)" by fastforce
  have wf: "spaces_wf s" "cap_lock s = 0" using assms(1) by (simp_all add: cap_core_def)
  have core: "cap_core u" using assms(1) cap_domain_add_cap_view(3) [OF wf(1) u] by (rule cap_core_spaces_step)
  then have "cap_lock u = 0" by (simp add: cap_core_def)
  then have "t = s \<or> t = u \<or> (\<exists>c e. t = put_cap c e u \<and> cap_magic e = cap_magic (capabilities u c))"
    using assms(2) u wf(2)
    by (cases "cap_get_capability h s")
      (auto simp: cap_grant_def outcome_simps add_cap_lock put_cap_comm split: if_splits intro!: live_rewrite)
  then show ?thesis using assms(1) core cap_core_put_live by blast
qed

lemma cap_core_revoke:
  assumes "cap_core s" "cap_revoke h did s = Ret (r, t)"
  shows "cap_core t"
proof -
  have wf: "spaces_wf s" "cap_lock s = 0" using assms(1) by (simp_all add: cap_core_def)
  obtain rc u where u: "cap_domain_remove_cap did h s = Ret (rc, u)" "spaces_step {} s u"
    using cap_domain_remove_cap_view [OF wf(1), of did h] by auto
  have core: "cap_core u" using assms(1) u(2) by (rule cap_core_spaces_step)
  then have "cap_lock u = 0" by (simp add: cap_core_def)
  then have "t = s \<or> t = u \<or> (\<exists>c e. t = put_cap c e u \<and> cap_magic e = cap_magic (capabilities u c))"
    using assms(2) u wf(2)
    by (cases "cap_get_capability h s")
      (auto simp: cap_revoke_def outcome_simps remove_cap_lock put_cap_comm split: if_splits intro!: live_rewrite)
  then show ?thesis using assms(1) core cap_core_put_live by blast
qed

lemma cap_core_create_domain: "cap_core s \<Longrightarrow> cap_create_domain base sz s = Ret (r, t) \<Longrightarrow> cap_core t"
  by (auto simp: cap_core_def cap_create_domain_eq spaces_wf_def live_caps_def split: option.splits)

lemma cap_core_delete_domain: "cap_core s \<Longrightarrow> cap_delete_domain did s = Ret (r, t) \<Longrightarrow> cap_core t"
  by (auto simp: cap_core_def cap_delete_domain_eq spaces_wf_def live_caps_def split: option.splits if_splits)

lemma cap_derive_pure: "cap_lock s = 0 \<Longrightarrow> cap_derive h p s = Ret (r, t) \<Longrightarrow> t = s"
  using cap_derive_hangs [of h s] by (cases "cap_get_capability h s") (auto simp: cap_derive_def outcome_simps)

lemma cap_core_init: "cap_init s = Ret (r, t) \<Longrightarrow> cap_core t"
  by (auto simp: cap_init_def cap_core_def spaces_wf_def live_caps_def zero_capability_def zero_domain_def dom_wf_def
      HIK_CAP_MAGIC_def)

section \<open>Histories\<close>

text \<open>
  A call of any function \<open>capability.h\<close> exports that changes the system; the two functions on capability spaces take no lock.
  The flag says whether the call is \<^emph>\<open>regular\<close>: it does not issue the last number of a 32-bit counter, it does not
  delete domain 0, the identifier of a free slot, and a handle it puts into a space was issued.
\<close>

inductive cap_step :: "bool \<Rightarrow> cap_system \<Rightarrow> cap_system \<Rightarrow> bool" where
  create: "cap_create ty p rid base sz did s = Ret (h, t) \<Longrightarrow> cap_step (next_cap_handle s \<noteq> - 1) s t"
| delete: "cap_delete h s = Ret (r, t) \<Longrightarrow> cap_step True s t"
| grant: "cap_grant h did s = Ret (h', t) \<Longrightarrow> cap_step True s t"
| revoke: "cap_revoke h did s = Ret (r, t) \<Longrightarrow> cap_step True s t"
| check: "cap_check did h p s = Ret (r, t) \<Longrightarrow> cap_step True s t"
| derive: "cap_derive h p s = Ret (h', t) \<Longrightarrow> cap_step True s t"
| create_domain: "cap_create_domain base sz s = Ret (d, t) \<Longrightarrow> cap_step (next_domain_id s \<noteq> - 1) s t"
| delete_domain: "cap_delete_domain did s = Ret (r, t) \<Longrightarrow> cap_step (did \<noteq> 0) s t"
| add_cap: "cap_domain_add_cap did h s = (r, t) \<Longrightarrow> cap_step (h \<noteq> 0 \<and> h < next_cap_handle s) s t"
| remove_cap: "cap_domain_remove_cap did h s = Ret (r, t) \<Longrightarrow> cap_step True s t"

inductive_cases cap_stepE: "cap_step regular s t"

text \<open>A state some sequence of calls leads to; the flag says whether all of them were regular.\<close>

inductive cap_reach :: "bool \<Rightarrow> cap_system \<Rightarrow> bool" where
  boot: "cap_init s = Ret (r, t) \<Longrightarrow> cap_reach True t"
| step: "cap_reach regular s \<Longrightarrow> cap_step r s t \<Longrightarrow> cap_reach (regular \<and> r) t"

lemma remove_cap_step:
  assumes "spaces_wf s" "cap_domain_remove_cap did h s = Ret (r, t)"
  shows "spaces_step {} s t"
  using cap_domain_remove_cap_view [OF assms(1), of did h] assms(2) by auto

lemma cap_core_spaces:
  "cap_core s \<Longrightarrow> cap_domain_add_cap did h s = (r, t) \<Longrightarrow> cap_core t"
  "cap_core s \<Longrightarrow> cap_domain_remove_cap did h s = Ret (r, t) \<Longrightarrow> cap_core t"
  using cap_core_spaces_step cap_domain_add_cap_view(3) remove_cap_step unfolding cap_core_def by blast+

lemma cap_core_derive: "cap_core s \<Longrightarrow> cap_derive h p s = Ret (r, t) \<Longrightarrow> cap_core t"
  using cap_derive_pure [of s h p r t] unfolding cap_core_def by blast

lemma cap_core_step: "cap_step regular s t \<Longrightarrow> cap_core s \<Longrightarrow> cap_core t"
  by (erule cap_stepE)
    (auto intro: cap_core_create cap_core_delete cap_core_grant cap_core_revoke cap_core_create_domain
      cap_core_delete_domain cap_core_spaces cap_core_derive dest: cap_check_pure(1))

lemma cap_inv_add_cap:
  assumes "cap_inv s" "cap_domain_add_cap did h s = (r, t)" "h \<noteq> 0 \<and> h < next_cap_handle s"
  shows "cap_inv t"
  by (rule cap_inv_spaces_step [OF assms(1) cap_domain_add_cap_view(3) [OF cap_invD(2) [OF assms(1)] assms(2)]])
    (use assms(3) in simp)

lemma cap_inv_remove_cap:
  assumes "cap_inv s" "cap_domain_remove_cap did h s = Ret (r, t)"
  shows "cap_inv t"
  by (rule cap_inv_spaces_step [OF assms(1) remove_cap_step [OF cap_invD(2) [OF assms(1)] assms(2)]]) simp

lemma cap_inv_step: "cap_step True s t \<Longrightarrow> cap_inv s \<Longrightarrow> cap_inv t"
  by (erule cap_stepE)
    (auto intro: cap_inv_create cap_inv_delete cap_inv_grant cap_inv_revoke cap_inv_create_domain
      cap_inv_delete_domain cap_inv_add_cap cap_inv_remove_cap dest: cap_inv_check cap_inv_derive)

lemma cap_reach_keeps: "cap_reach regular s \<Longrightarrow> cap_core s \<and> (regular \<longrightarrow> cap_inv s)"
  by (induction rule: cap_reach.induct) (auto intro: cap_inv_init cap_core_init cap_inv_step cap_core_step)

section \<open>A sample system\<close>

text \<open>Two domains, 1 and 2; domain 1 owns capability 1, readable, writable and grantable.\<close>

definition sample_cap :: capability where
  "sample_cap = new_cap CAP_TYPE_MEMORY 0x0B 0 0x1000 0x1000 1"

definition sample_caps :: cap_system where
  "sample_caps = \<lparr>capabilities = (\<lambda>_. zero_capability)(0 := sample_cap),
     domains = (\<lambda>_. zero_domain)
       (0 := (new_domain 1 0 0)\<lparr>cap_space := (\<lambda>_. 0)(0 := 1), dom_num_caps := 1\<rparr>,
        1 := new_domain 2 0 0),
     next_cap_handle = 2, next_domain_id = 3, num_caps = 1, num_domains = 2, cap_lock = 0\<rparr>"

lemma sample_caps_lookup [simp]:
  "cap_get_domain 1 sample_caps = Some 0" "cap_get_domain 2 sample_caps = Some 1"
  "cap_get_domain 3 sample_caps = None"
  "cap_get_capability 1 sample_caps = Some 0" "cap_lock sample_caps = 0"
  "capabilities sample_caps 0 = sample_cap" "permissions sample_cap = 11"
  by (auto simp: cap_get_domain_def cap_get_capability_eq sample_caps_def sample_cap_def new_cap_def
      new_domain_def zero_domain_def MAX_DOMAINS_def MAX_CAPABILITIES_def first_from_None_iff
      intro!: first_from_SomeI)

lemma sample_caps_wf: "spaces_wf sample_caps" "ids_unique sample_caps"
  by (auto simp: spaces_wf_def ids_unique_def sample_caps_def dom_wf_def DOMAIN_CAP_SPACE_SIZE_def
      new_domain_def zero_domain_def)

lemma sample_caps_view [simp]:
  "cap_view sample_caps 1 = Some [1]" "cap_view sample_caps 2 = Some []"
  "cap_view sample_caps 3 = None"
  by (simp_all add: cap_view_def) (simp_all add: sample_caps_def caps_of_def new_domain_def)

lemma sample_live: "live_caps sample_caps = {0}" "live_doms sample_caps = {0, 1}"
    by (auto simp: live_caps_def live_doms_def sample_caps_def sample_cap_def new_cap_def
        new_domain_def zero_capability_def zero_domain_def MAX_CAPABILITIES_def MAX_DOMAINS_def
        HIK_CAP_MAGIC_def split: if_splits)

lemma sample_caps_of: "caps_of (domains sample_caps i) = (if i = 0 then [1] else [])"
  by (simp add: caps_of_def sample_caps_def new_domain_def zero_domain_def)
lemma sample_ids: "domain_id (domains sample_caps i) = (if i = 0 then 1 else if i = 1 then 2 else 0)"
  by (simp add: sample_caps_def new_domain_def zero_domain_def)
lemma sample_counters: "num_caps sample_caps = 1" "num_domains sample_caps = 2"
  "next_cap_handle sample_caps = 2" "next_domain_id sample_caps = 3"
  by (simp_all add: sample_caps_def)

lemma sample_caps_inv: "cap_inv sample_caps"
  by (rule cap_invI) (simp_all add: sample_caps_wf sample_live sample_caps_of sample_ids sample_counters split: if_splits)

section \<open>Correctness of the capability system\<close>

text \<open>
  C1. From \<open>cap_init\<close> on, whatever sequence of calls is made, no capability space overflows or
  keeps garbage behind its length, \<open>num_caps\<close> counts the live capabilities, and the lock is free
  between calls. If all calls were regular (none issued the last number of a counter, deleted domain 0 or
  put a handle into a space that was never issued), then moreover domain identifiers are unique, \<open>num_domains\<close>
  counts the live domains, and every handle a domain holds was issued.
\<close>

theorem cap_system_invariant: "cap_reach regular s \<Longrightarrow> cap_core s \<and> (regular \<longrightarrow> cap_inv s)"
  by (rule cap_reach_keeps)

definition boot_caps :: cap_system where
  "boot_caps = \<lparr>capabilities = (\<lambda>_. zero_capability), domains = (\<lambda>_. zero_domain), next_cap_handle = 1,
     next_domain_id = 1, num_caps = 0, num_domains = 0, cap_lock = 0\<rparr>"

definition one_domain :: cap_system where
  "one_domain = put_domain 0 (new_domain 1 0x1000 0x2000) (boot_caps\<lparr>next_domain_id := 2, num_domains := 1\<rparr>)"

lemma boot_reached: "cap_reach True boot_caps"
  by (rule cap_reach.boot) (simp add: cap_init_def boot_caps_def)

lemma boot_lock: "cap_lock boot_caps = 0"
  by (simp add: boot_caps_def)

text \<open>A regular history, and one that deletes domain 0, whose counter of domains wraps.\<close>

theorem cap_system_invariant_witness:
  "cap_inv one_domain \<and> cap_core (boot_caps\<lparr>num_domains := - 1\<rparr>) \<and> \<not> cap_inv (boot_caps\<lparr>num_domains := - 1\<rparr>)"
proof -
  have "free_dom_slot boot_caps = Some 0"
    by (auto simp: free_dom_slot_def boot_caps_def zero_domain_def MAX_DOMAINS_def intro: first_from_SomeI)
  then have "cap_create_domain 0x1000 0x2000 boot_caps = Ret (1, one_domain)"
    by (simp add: cap_create_domain_eq boot_lock) (simp add: boot_caps_def one_domain_def)
  from cap_step.create_domain [OF this] have "cap_reach True one_domain"
    using cap_reach.step [OF boot_reached] by (fastforce simp: boot_caps_def)
  moreover have "cap_get_domain 0 boot_caps = Some 0"
    by (auto simp: cap_get_domain_def boot_caps_def zero_domain_def MAX_DOMAINS_def intro: first_from_SomeI)
  then have "cap_delete_domain 0 boot_caps = Ret (0, boot_caps\<lparr>num_domains := - 1\<rparr>)"
    by (simp add: cap_delete_domain_eq boot_lock) (simp add: boot_caps_def zero_domain_def put_domain_def fun_upd_idem)
  from cap_step.delete_domain [OF this] have "cap_reach False (boot_caps\<lparr>num_domains := - 1\<rparr>)"
    using cap_reach.step [OF boot_reached] by fastforce
  moreover have "live_doms (boot_caps\<lparr>num_domains := - 1\<rparr>) = {}"
    by (simp add: live_doms_def boot_caps_def zero_domain_def)
  ultimately show ?thesis
    using cap_system_invariant by (fastforce simp: cap_inv_def)
qed

text \<open>
  C2. \<open>cap_check\<close> decides access: on a well-formed unlocked system and for a handle other
  than 0 it returns -1 for an unknown domain, -2 when the domain does not hold the handle, -3
  when the handle resolves to nothing or the capability lacks one of the permissions, and 0
  exactly when the domain holds the handle and the capability has them all; it changes nothing.
\<close>

theorem cap_check_decides:
  assumes "spaces_wf s" "cap_lock s = 0" "h \<noteq> 0"
  shows "cap_check did h p s = Ret
    (case cap_view s did of
       None \<Rightarrow> -1
     | Some l \<Rightarrow>
         if h \<notin> set l then -2
         else (case cap_get_capability h s of
                 None \<Rightarrow> -3
               | Some c \<Rightarrow> if permissions (capabilities s c) AND p = p then 0 else -3), s)"
  using cap_check_eq [OF assms] by (simp add: check_spec_def)

theorem cap_check_decides_witness:
  "cap_check 1 1 CAP_PERM_READ sample_caps = Ret (0, sample_caps) \<and>
   cap_check 1 1 CAP_PERM_EXECUTE sample_caps = Ret (-3, sample_caps) \<and>
   cap_check 2 1 CAP_PERM_READ sample_caps = Ret (-2, sample_caps) \<and>
   cap_check 3 1 CAP_PERM_READ sample_caps = Ret (-1, sample_caps)"
  using cap_check_decides [OF sample_caps_wf(1), of 1]
  by (simp add: CAP_PERM_READ_def CAP_PERM_EXECUTE_def)

text \<open>
  C3. Granting and revoking are inverse: granting a grantable capability to a domain that has
  room and does not hold it returns the handle, appends it to the domain's list, makes every
  check the capability's permissions allow succeed there, and revoking it again restores the
  system exactly.
\<close>

theorem cap_grant_check_revoke:
  assumes "spaces_wf s" "cap_lock s = 0" "cap_get_capability h s = Some c"
    "permissions (capabilities s c) AND CAP_PERM_GRANT \<noteq> 0"
    "cap_view s did = Some l" "length l < DOMAIN_CAP_SPACE_SIZE" "h \<notin> set l"
  shows "\<exists>t. cap_grant h did s = Ret (h, t) \<and> cap_view t = (cap_view s)(did := Some (l @ [h])) \<and>
    (\<forall>p. cap_check did h p t = Ret (if permissions (capabilities s c) AND p = p then 0 else -3, t)) \<and>
    cap_revoke h did t = Ret (0, s)"
proof -
  obtain u where add: "cap_domain_add_cap did h s = (0, u)"
    and rem: "cap_domain_remove_cap did h u = Ret (0, s)"
    using add_remove_restores [OF assms(1,5-7)] by blast
  note view = cap_domain_add_cap_view(2) [OF assms(1) add]
  note step = cap_domain_add_cap_view(3) [OF assms(1) add]
  note f = spaces_step_fields [OF step]
  let ?e = "(capabilities s c)\<lparr>ref_count := ref_count (capabilities s c) + 1\<rparr>"
  let ?t = "put_cap c ?e u"
  have h: "h \<noteq> 0" using cap_get_capabilityD(2) [OF assms(3)] .
  have res: "cap_get_capability h ?t = Some c"
    using assms(3) spaces_step_resolve [OF step] by (simp add: cap_get_capability_put_live f)
  have view_t: "cap_view ?t = (cap_view s)(did := Some (l @ [h]))"
    using view assms(5,6) by simp
  have grant: "cap_grant h did s = Ret (h, ?t)" by (rule cap_grant_eq [OF assms(1-4) add])
  have check: "cap_check did h p ?t = Ret (if permissions (capabilities s c) AND p = p then 0 else -3, ?t)" for p
    using cap_check_eq [of ?t h did p] f assms(2) h res view_t by (simp add: check_spec_def)
  have "cap_domain_remove_cap did h ?t = Ret (0, put_cap c ?e s)"
    using rem by (simp add: remove_cap_put_cap)
  then have "cap_revoke h did ?t = Ret (0, put_cap c
      ((capabilities ?t c)\<lparr>ref_count := ref_count (capabilities ?t c) - 1\<rparr>) (put_cap c ?e s))"
    using f assms(2) by (intro cap_revoke_eq) (simp_all add: res)
  then have "cap_revoke h did ?t = Ret (0, s)" by simp
  with grant check view_t show ?thesis by blast
qed

theorem cap_grant_check_revoke_witness:
  "\<exists>t. cap_grant 1 2 sample_caps = Ret (1, t) \<and> cap_check 2 1 CAP_PERM_READ t = Ret (0, t) \<and>
     cap_revoke 1 2 t = Ret (0, sample_caps)"
  using cap_grant_check_revoke [of sample_caps 1 0 2 "[]"] sample_caps_wf
  by (auto simp: CAP_PERM_GRANT_def CAP_PERM_READ_def DOMAIN_CAP_SPACE_SIZE_def)

lemma cap_delete_views:
  assumes "cap_inv s" "cap_get_capability h s = Some c"
  shows "\<exists>t. cap_delete h s = Ret (0, t) \<and> cap_get_capability h t = None \<and> c \<notin> live_caps t \<and>
    live_caps t = live_caps s - {c} \<and> next_cap_handle t = next_cap_handle s \<and>
    (\<forall>d. d \<noteq> 0 \<longrightarrow> cap_view t d = map_option (remove1 h) (cap_view s d)) \<and>
    (\<forall>g. cap_get_capability g s \<noteq> Some c \<longrightarrow> cap_get_capability g t = cap_get_capability g s) \<and> cap_inv t"
proof -
  note inv = cap_invD [OF assms(1)]
  obtain u where del: "cap_delete h s = Ret (0, put_cap c zero_capability (u\<lparr>num_caps := num_caps s - 1\<rparr>))"
    and step: "spaces_step {} s u"
    and view: "cap_view u = (\<lambda>did. map_option
        (remove1 h ^^ card {i. i < MAX_DOMAINS \<and> domain_id (domains s i) = did}) (cap_view s did))"
    using cap_delete_eq [OF inv(2,1) assms(2)] by blast
  let ?t = "put_cap c zero_capability (u\<lparr>num_caps := num_caps s - 1\<rparr>)"
  have res: "cap_get_capability g ?t =
      (if cap_get_capability g s = Some c then None else cap_get_capability g s)" for g
    using spaces_step_resolve [OF step] by (simp add: cap_get_capability_freed)
  have "cap_view ?t d = map_option (remove1 h) (cap_view s d)" if "d \<noteq> 0" for d
    using ids_unique_card [OF inv(3) that] by (cases "cap_view s d") (simp_all add: view)
  moreover have "live_caps ?t = live_caps s - {c}"
    using spaces_step_fields(1) [OF step]
    by (auto simp: live_caps_def zero_capability_def HIK_CAP_MAGIC_def)
  moreover have "cap_inv ?t" by (rule cap_inv_delete [OF assms(1) del])
  ultimately show ?thesis
    using del res assms(2) spaces_step_fields(2) [OF step] by auto
qed

text \<open>
  C4. Deleting a capability returns 0, makes its handle resolve to nothing, takes one
  occurrence of the handle out of every domain and nothing else, and leaves the resolution of
  every handle of another capability as it was.
\<close>

theorem cap_delete_revokes_everywhere:
  assumes "cap_inv s" "cap_get_capability h s = Some c"
  shows "\<exists>t. cap_delete h s = Ret (0, t) \<and> cap_get_capability h t = None \<and>
    (\<forall>d. d \<noteq> 0 \<longrightarrow> cap_view t d = map_option (remove1 h) (cap_view s d)) \<and>
    (\<forall>g. cap_get_capability g s \<noteq> Some c \<longrightarrow> cap_get_capability g t = cap_get_capability g s)"
  using cap_delete_views [OF assms] by blast

theorem cap_delete_revokes_everywhere_witness:
  "\<exists>t. cap_delete 1 sample_caps = Ret (0, t) \<and> cap_get_capability 1 t = None \<and> cap_view t 1 = Some []"
  using cap_delete_revokes_everywhere [OF sample_caps_inv sample_caps_lookup(4)] by fastforce

text \<open>The table is dense as long as nothing was deleted.\<close>

definition dense :: "cap_system \<Rightarrow> bool" where
  "dense s \<longleftrightarrow> live_caps s = {i. Suc i < unat (next_cap_handle s)} \<and>
     unat (next_cap_handle s) \<le> Suc MAX_CAPABILITIES"

lemma dense_free_slot:
  assumes "dense s" "free_cap_slot s = Some c" "0 < next_cap_handle s"
  shows "c = unat (next_cap_handle s - 1) mod MAX_CAPABILITIES" "Suc c = unat (next_cap_handle s)"
proof -
  have pos: "0 < unat (next_cap_handle s)" using assms(3) by (simp add: word_less_nat_alt)
  have c: "c < MAX_CAPABILITIES" "c \<notin> live_caps s" using free_cap_slotD [OF assms(2)] by auto
  have "i \<in> live_caps s" if "i < c" for i
    using first_from_SomeD(4) [OF assms(2) [unfolded free_cap_slot_def], of i] that c(1)
    by (auto simp: live_caps_def)
  then have "unat (next_cap_handle s) - 1 \<notin> live_caps s \<Longrightarrow> c \<le> unat (next_cap_handle s) - 1"
    by (meson linorder_not_le)
  then have "\<not> (Suc c > unat (next_cap_handle s))"
    using pos assms(1) by (simp add: dense_def)
  then show Suc: "Suc c = unat (next_cap_handle s)"
    using c(2) assms(1) by (auto simp: dense_def)
  have "unat (next_cap_handle s - 1) = unat (next_cap_handle s) - 1"
    using pos by (simp add: unat_sub word_le_nat_alt)
  with Suc c(1) show "c = unat (next_cap_handle s - 1) mod MAX_CAPABILITIES" by simp
qed

lemma cap_create_resolution:
  assumes "cap_inv s" "free_cap_slot s = Some c" "next_cap_handle s \<noteq> - 1"
    "cap_create ty p rid base sz did s = Ret (h, t)"
  shows "h = next_cap_handle s" "capabilities t = (capabilities s)(c := new_cap ty p rid base sz did)"
    "next_cap_handle t = next_cap_handle s + 1" "live_caps t = insert c (live_caps s)"
    "cap_get_capability g t = Some c \<longleftrightarrow> g \<noteq> 0 \<and> g \<le> h \<and> c = unat (g - 1) mod MAX_CAPABILITIES"
proof -
  let ?u = "put_cap c (new_cap ty p rid base sz did)
      (s\<lparr>next_cap_handle := next_cap_handle s + 1, num_caps := num_caps s + 1\<rparr>)"
  show h: "h = next_cap_handle s"
    using assms(2,4) cap_invD(1) [OF assms(1)] by (simp add: cap_create_eq)
  obtain r where r: "cap_domain_add_cap did (next_cap_handle s) ?u = (r, t)"
    using assms(2,4) cap_invD(1) [OF assms(1)]
    by (cases "cap_domain_add_cap did (next_cap_handle s) ?u") (simp add: cap_create_eq)
  have "spaces_wf ?u" using cap_invD(2) [OF assms(1)] by simp
  note f = spaces_step_fields [OF cap_domain_add_cap_view(3) [OF this r]]
  show caps: "capabilities t = (capabilities s)(c := new_cap ty p rid base sz did)"
    unfolding f by (auto simp: fun_eq_iff)
  show next_handle: "next_cap_handle t = next_cap_handle s + 1" by (simp add: f)
  show "live_caps t = insert c (live_caps s)"
    using free_cap_slotD [OF assms(2)] by (auto simp: live_caps_def caps new_cap_def)
  have "g < h + 1 \<longleftrightarrow> g \<le> h"
    unfolding h using assms(3) by (auto simp: word_less_nat_alt word_le_nat_alt unat_inc)
  then show "cap_get_capability g t = Some c \<longleftrightarrow> g \<noteq> 0 \<and> g \<le> h \<and> c = unat (g - 1) mod MAX_CAPABILITIES"
    by (auto simp: cap_get_capability_eq caps next_handle h new_cap_def)
qed

text \<open>
  Before any deletion handles work: in a table that was only ever filled, a created
  capability's handle resolves to exactly the capability that was created, and the table stays
  in that form.
\<close>

theorem cap_create_resolves:
  assumes "cap_inv s" "dense s" "free_cap_slot s \<noteq> None"
    "cap_create ty p rid base sz did s = Ret (h, t)"
  shows "dense t \<and> (\<exists>c. cap_get_capability h t = Some c \<and>
    capabilities t c = new_cap ty p rid base sz did)"
proof -
  obtain c where c: "free_cap_slot s = Some c" using assms(3) by auto
  have "unat (next_cap_handle s) \<noteq> unat (- 1 :: u32)"
    using assms(2)
    by (simp add: dense_def MAX_CAPABILITIES_def unsigned_minus_1_eq_mask mask_eq_exp_minus_1)
  then have no_wrap: "next_cap_handle s \<noteq> - 1" by auto
  note r = cap_create_resolution [OF assms(1) c no_wrap assms(4)]
  note d = dense_free_slot [OF assms(2) c cap_invD(7) [OF assms(1)]]
  have "cap_get_capability h t = Some c"
    using r(5) [of h] d(1) r(1) cap_invD(7) [OF assms(1)] by auto
  moreover have "dense t"
    using assms(2) d(2) free_cap_slotD [OF c] unat_inc [OF no_wrap]
    by (auto simp: dense_def r(3,4))
  ultimately show ?thesis using r(2) by auto
qed

lemma sample_dense: "dense sample_caps"
  by (auto simp: dense_def sample_live sample_counters MAX_CAPABILITIES_def)

lemma sample_slot: "free_cap_slot sample_caps = Some 1"
  unfolding free_cap_slot_def
  by (rule first_from_SomeI)
    (auto simp: MAX_CAPABILITIES_def sample_caps_def sample_cap_def new_cap_def zero_capability_def
      HIK_CAP_MAGIC_def)

theorem cap_create_resolves_witness:
  "\<exists>t c. cap_create CAP_TYPE_IRQ 1 32 0 0 2 sample_caps = Ret (2, t) \<and> cap_get_capability 2 t = Some c \<and>
     capabilities t c = new_cap CAP_TYPE_IRQ 1 32 0 0 2"
proof -
  obtain t where t: "cap_create CAP_TYPE_IRQ 1 32 0 0 2 sample_caps = Ret (2, t)"
    using sample_slot by (simp add: cap_create_eq sample_counters)
  then show ?thesis
    using cap_create_resolves [OF sample_caps_inv sample_dense _ t] sample_slot by auto
qed

lemma free_slot_after_delete:
  assumes "c < MAX_CAPABILITIES" "c \<notin> live_caps s" "\<And>i. i < c \<Longrightarrow> i \<in> live_caps s"
  shows "free_cap_slot s = Some c"
  unfolding free_cap_slot_def
  by (rule first_from_SomeI) (use assms in \<open>auto simp: live_caps_def\<close>)

lemma create_check:
  assumes "cap_inv t" "free_cap_slot t = Some c" "next_cap_handle t \<noteq> - 1"
    "h \<noteq> 0" "h < next_cap_handle t" "c = unat (h - 1) mod MAX_CAPABILITIES"
    "cap_view t d = Some l" "h \<in> set l" "cap_create ty p rid base sz owner t = Ret (h', u)"
    "p AND q = q"
  shows "cap_check d h q u = Ret (0, u)"
proof -
  let ?v = "put_cap c (new_cap ty p rid base sz owner)
      (t\<lparr>next_cap_handle := next_cap_handle t + 1, num_caps := num_caps t + 1\<rparr>)"
  note r = cap_create_resolution [OF assms(1-3,9)]
  obtain rc where rc: "cap_domain_add_cap owner (next_cap_handle t) ?v = (rc, u)"
    using assms(2,9) cap_invD(1) [OF assms(1)]
    by (cases "cap_domain_add_cap owner (next_cap_handle t) ?v") (simp add: cap_create_eq)
  have "spaces_wf ?v" using cap_invD(2) [OF assms(1)] by simp
  note view = cap_domain_add_cap_view(2) [OF this rc]
  have "\<exists>m. cap_view u d = Some m \<and> h \<in> set m"
    using assms(7,8) by (auto simp: view split: option.splits)
  moreover have "cap_get_capability h u = Some c"
    using r(5) [of h] assms(4-6) r(1) by simp
  moreover have "cap_inv u" by (rule cap_inv_create [OF assms(1,9,3)])
  ultimately show ?thesis
    using cap_check_eq [of u h d q] assms(4,10) r(2)
    by (auto simp: cap_invD check_spec_def new_cap_def)
qed

text \<open>
  A handle can outlive its capability: if a domain was granted a capability twice, deleting
  the capability leaves the handle in that domain, and the next capability created, in the
  freed slot and for any other owner and resource, is accessible to the domain through the old
  handle with whatever permissions the new capability has.
\<close>

theorem cap_stale_handle_gains_access:
  assumes "cap_inv s" "cap_get_capability h s = Some c" "cap_view s d = Some l" "d \<noteq> 0"
    "h \<in> set (remove1 h l)" "\<And>i. i < c \<Longrightarrow> i \<in> live_caps s" "next_cap_handle s \<noteq> - 1"
  shows "\<exists>t u h'. cap_delete h s = Ret (0, t) \<and> cap_create ty p rid base sz owner t = Ret (h', u) \<and>
    (\<forall>q. p AND q = q \<longrightarrow> cap_check d h q u = Ret (0, u))"
proof -
  note res = cap_get_capabilityD [OF assms(2)]
  obtain t where t: "cap_delete h s = Ret (0, t)" "c \<notin> live_caps t" "live_caps t = live_caps s - {c}"
    "next_cap_handle t = next_cap_handle s"
    "\<And>x. x \<noteq> 0 \<Longrightarrow> cap_view t x = map_option (remove1 h) (cap_view s x)" "cap_inv t"
    using cap_delete_views [OF assms(1,2)] by blast
  have slot: "free_cap_slot t = Some c"
    using res(1) t(2,3) assms(6) by (intro free_slot_after_delete) auto
  then obtain h' u where u: "cap_create ty p rid base sz owner t = Ret (h', u)"
    using cap_invD(1) [OF t(6)] by (simp add: cap_create_eq)
  have "cap_check d h q u = Ret (0, u)" if "p AND q = q" for q
    using create_check [OF t(6) slot _ res(2) _ res(5) _ assms(5) u that] t(4,5) assms(3,4,7) res(3)
    by simp
  with t(1) u show ?thesis by blast
qed

text \<open>The sample after domain 2 was granted capability 1 twice.\<close>

definition sample_double :: cap_system where
  "sample_double = put_domain 1 ((new_domain 2 0 0)\<lparr>cap_space := (\<lambda>_. 0)(0 := 1, 1 := 1),
     dom_num_caps := 2\<rparr>) sample_caps"

lemma sample_double_step: "spaces_step {1} sample_caps sample_double"
  unfolding sample_double_def
  by (rule spaces_step_put [OF sample_caps_wf(1)])
    (auto simp: MAX_DOMAINS_def dom_wf_def DOMAIN_CAP_SPACE_SIZE_def new_domain_def caps_of_def sample_ids)

lemma sample_double_facts:
  "cap_inv sample_double" "cap_get_capability 1 sample_double = Some 0"
  "cap_view sample_double 2 = Some [1, 1]" "next_cap_handle sample_double = 2"
proof -
  show "cap_inv sample_double"
    by (rule cap_inv_spaces_step [OF sample_caps_inv sample_double_step]) (simp add: sample_counters)
  show "cap_get_capability 1 sample_double = Some 0"
    using spaces_step_resolve [OF sample_double_step] by simp
  have "[0..<2] = [0, 1 :: nat]" by (simp add: upt_rec)
  then show "cap_view sample_double 2 = Some [1, 1]"
    using cap_view_put [of 2 sample_caps 1 "(new_domain 2 0 0)\<lparr>cap_space := (\<lambda>_. 0)(0 := 1, 1 := 1), dom_num_caps := 2\<rparr>"]
    by (simp add: sample_double_def caps_of_def new_domain_def)
  show "next_cap_handle sample_double = 2"
    using spaces_step_fields(2) [OF sample_double_step] by (simp add: sample_counters)
qed

theorem cap_stale_handle_gains_access_witness:
  "\<exists>t u h'. cap_delete 1 sample_double = Ret (0, t) \<and>
     cap_create CAP_TYPE_DEVICE 7 0 0xFED00000 4096 1 t = Ret (h', u) \<and>
     cap_check 2 1 CAP_PERM_WRITE u = Ret (0, u)"
  using cap_stale_handle_gains_access [OF sample_double_facts(1-3), where ty = CAP_TYPE_DEVICE
      and p = 7 and rid = 0 and base = "0xFED00000" and sz = 4096 and owner = 1]
    sample_double_facts(4)
  by (auto simp: CAP_PERM_WRITE_def)

text \<open>
  C5. Two operations wait for the lock they hold: \<open>cap_derive\<close> never returns when its
  capability exists, and \<open>cap_delete_domain\<close> returns exactly when the domain's space holds no
  handle (it then clears the domain); with a handle left it never returns.
\<close>

theorem cap_self_deadlock:
  "(cap_get_capability h s \<noteq> None \<longrightarrow> cap_derive h p s = Hang) \<and>
   (cap_lock s = 0 \<longrightarrow> cap_delete_domain did s =
      (case cap_get_domain did s of
         None \<Rightarrow> Ret (-1, s)
       | Some d \<Rightarrow>
           if \<exists>i<DOMAIN_CAP_SPACE_SIZE. cap_space (domains s d) i \<noteq> 0 then Hang
           else Ret (0, (put_domain d zero_domain s)\<lparr>num_domains := num_domains s - 1\<rparr>)))"
  using cap_derive_hangs [of h s] cap_delete_domain_eq [of s did] by auto

theorem cap_self_deadlock_witness:
  "cap_derive 1 CAP_PERM_READ sample_caps = Hang \<and> cap_delete_domain 1 sample_caps = Hang"
proof -
  have "cap_space (domains sample_caps 0) 0 \<noteq> 0" by (simp add: sample_caps_def)
  then have "\<exists>i<DOMAIN_CAP_SPACE_SIZE. cap_space (domains sample_caps 0) i \<noteq> 0"
    by (intro exI [where x = 0]) (simp add: DOMAIN_CAP_SPACE_SIZE_def)
  then show ?thesis
    using cap_self_deadlock [of 1 sample_caps CAP_PERM_READ 1] by simp
qed

end
