(* ===== verification/Kstate.thy ===== *)
theory Kstate
  imports Mm Capability
begin

text \<open>
  The kernel's global variables, layer by layer. \<open>base_state\<close> holds the two managers every
  later component calls (\<open>g_mm_state\<close>, \<open>g_cap_system\<close>); each component's theory extends the
  record with its own globals, and \<open>on_mm\<close>, \<open>on_cap\<close> run an operation of a manager on the part
  of the state it owns.
\<close>

record base_state =
  g_mm :: mm_state
  g_cap :: cap_system

definition on_mm :: "(mm_state \<Rightarrow> ('r \<times> mm_state) outcome) \<Rightarrow>
    'z base_state_scheme \<Rightarrow> ('r \<times> 'z base_state_scheme) outcome" where
  "on_mm f s = bindR (f (g_mm s)) (\<lambda>(r, m). Ret (r, s\<lparr>g_mm := m\<rparr>))"

definition on_cap :: "(cap_system \<Rightarrow> ('r \<times> cap_system) outcome) \<Rightarrow>
    'z base_state_scheme \<Rightarrow> ('r \<times> 'z base_state_scheme) outcome" where
  "on_cap f s = bindR (f (g_cap s)) (\<lambda>(r, c). Ret (r, s\<lparr>g_cap := c\<rparr>))"

lemma on_mm_Ret_iff [outcome_simps]:
  "on_mm f s = Ret (r, t) \<longleftrightarrow> (\<exists>m. f (g_mm s) = Ret (r, m) \<and> t = s\<lparr>g_mm := m\<rparr>)"
  by (auto simp: on_mm_def outcome_simps)

lemma on_cap_Ret_iff [outcome_simps]:
  "on_cap f s = Ret (r, t) \<longleftrightarrow> (\<exists>c. f (g_cap s) = Ret (r, c) \<and> t = s\<lparr>g_cap := c\<rparr>)"
  by (auto simp: on_cap_def outcome_simps)

lemma on_mm_Hang_iff [outcome_simps]: "on_mm f s = Hang \<longleftrightarrow> f (g_mm s) = Hang"
  by (auto simp: on_mm_def outcome_simps)

lemma on_cap_Hang_iff [outcome_simps]: "on_cap f s = Hang \<longleftrightarrow> f (g_cap s) = Hang"
  by (auto simp: on_cap_def outcome_simps)

lemma on_cap_pure:
  "f (g_cap s) = Ret (r, g_cap s) \<Longrightarrow> on_cap f s = Ret (r, s)"
  by (simp add: on_cap_def)

end
