(* ===== verification/Irq.thy ===== *)
theory Irq
  imports Kstate
begin

text \<open>
  Interrupt routing (\<open>Core-0/include/irq.h\<close>, \<open>Core-0/irq/irq.c\<close>): the table of 256 entries, its
  configuration, and the dispatcher that the assembly stubs call. What the dispatcher would
  call is left open in the source ("in real implementation ..."); the model returns which
  branch it took.
\<close>

section \<open>Data\<close>

datatype irq_handler_type = IRQ_HANDLER_CORE0 | IRQ_HANDLER_SERVICE | IRQ_HANDLER_APPLICATION

record irq_route_entry =
  handler_address :: u64
  handler_kind :: irq_handler_type
  capability_id :: u64
  irq_flags :: u32

record irq_route_table =
  entries :: "nat \<Rightarrow> irq_route_entry"
  num_entries :: u32
  irq_lock :: u32

definition MAX_IRQ_VECTORS :: nat where "MAX_IRQ_VECTORS = 256"
definition IRQ_FLAG_ENABLED :: u32 where "IRQ_FLAG_ENABLED = 0x01"
definition IRQ_FLAG_MASKED :: u32 where "IRQ_FLAG_MASKED = 0x02"

definition zero_entry :: irq_route_entry where
  "zero_entry = \<lparr>handler_address = 0, handler_kind = IRQ_HANDLER_CORE0, capability_id = 0, irq_flags = 0\<rparr>"

record irq_state = base_state +
  g_irq :: irq_route_table

definition on_irq :: "(irq_route_table \<Rightarrow> ('r \<times> irq_route_table) outcome) \<Rightarrow>
    'z irq_state_scheme \<Rightarrow> ('r \<times> 'z irq_state_scheme) outcome" where
  "on_irq f s = bindR (f (g_irq s)) (\<lambda>(r, t). Ret (r, s\<lparr>g_irq := t\<rparr>))"

interpretation irql: spin_locked irq_lock irq_lock_update
  by unfold_locales simp

section \<open>Operations\<close>

text \<open>\<open>irq_handler_addr\<close> is the address of \<open>irq_handler\<close>, fixed by the linker.\<close>

definition irq_init :: "u64 \<Rightarrow> irq_route_table \<Rightarrow> (int \<times> irq_route_table) outcome" where
  "irq_init irq_handler_addr t =
     (let t0 = \<lparr>entries = (\<lambda>_. zero_entry), num_entries = of_nat MAX_IRQ_VECTORS, irq_lock = 0\<rparr>;
          core0 = \<lparr>handler_address = irq_handler_addr, handler_kind = IRQ_HANDLER_CORE0,
                   capability_id = 0, irq_flags = IRQ_FLAG_ENABLED\<rparr>;
          e1 = fold (\<lambda>i e. e(i := core0)) [0..<32] (entries t0);
          e2 = fold (\<lambda>i e. e(i := core0)) [32..<48] e1;
          e3 = fold (\<lambda>i e. e(i := (e i)\<lparr>irq_flags := IRQ_FLAG_MASKED\<rparr>)) [48..<MAX_IRQ_VECTORS] e2
      in Ret (0, t0\<lparr>entries := e3\<rparr>))"

definition upd_entry :: "nat \<Rightarrow> (irq_route_entry \<Rightarrow> irq_route_entry) \<Rightarrow> irq_route_table \<Rightarrow> irq_route_table" where
  "upd_entry i f t = t\<lparr>entries := (entries t)(i := f (entries t i))\<rparr>"

definition irq_route ::
  "u8 \<Rightarrow> u64 \<Rightarrow> irq_handler_type \<Rightarrow> u64 \<Rightarrow> irq_route_table \<Rightarrow> (int \<times> irq_route_table) outcome" where
  "irq_route vector handler ty cap_id = locked irq_lock irq_lock_update (\<lambda>t.
     Ret (0, upd_entry (unat vector) (\<lambda>e. e\<lparr>handler_address := handler, handler_kind := ty,
                                            capability_id := cap_id\<rparr>) t))"

definition irq_enable :: "u8 \<Rightarrow> irq_route_table \<Rightarrow> (int \<times> irq_route_table) outcome" where
  "irq_enable vector = locked irq_lock irq_lock_update (\<lambda>t.
     Ret (0, upd_entry (unat vector) (\<lambda>e. e\<lparr>irq_flags := (irq_flags e OR IRQ_FLAG_ENABLED)
                                                          AND NOT IRQ_FLAG_MASKED\<rparr>) t))"

definition irq_disable :: "u8 \<Rightarrow> irq_route_table \<Rightarrow> (int \<times> irq_route_table) outcome" where
  "irq_disable vector = locked irq_lock irq_lock_update (\<lambda>t.
     Ret (0, upd_entry (unat vector) (\<lambda>e. e\<lparr>irq_flags := (irq_flags e OR IRQ_FLAG_MASKED)
                                                          AND NOT IRQ_FLAG_ENABLED\<rparr>) t))"

text \<open>
  What the dispatcher did: dropped the interrupt, ran the Core-0 branch, or took a capability
  branch, whose check passed or not.
\<close>

datatype irq_action = Ignored | Core0_handled | Dispatched | Denied

text \<open>
  The check passes the entry's capability identifier as the domain and the constant
  \<open>CAP_TYPE_IRQ\<close> as the handle, as the source writes it.
\<close>

definition irq_handler :: "u64 \<Rightarrow> u64 \<Rightarrow> 'z irq_state_scheme \<Rightarrow> (irq_action \<times> 'z irq_state_scheme) outcome" where
  "irq_handler vector error_code s =
     (if MAX_IRQ_VECTORS \<le> unat vector then Ret (Ignored, s)
      else let e = entries (g_irq s) (unat vector) in
        if irq_flags e AND IRQ_FLAG_ENABLED = 0 then Ret (Ignored, s)
        else if irq_flags e AND IRQ_FLAG_MASKED \<noteq> 0 then Ret (Ignored, s)
        else case handler_kind e of
               IRQ_HANDLER_CORE0 \<Rightarrow> Ret (Core0_handled, s)
             | _ \<Rightarrow> bindR (on_cap (cap_check (capability_id e) (cap_type_code CAP_TYPE_IRQ) CAP_PERM_READ) s)
                      (\<lambda>(r, s'). Ret (if r = 0 then Dispatched else Denied, s')))"

definition irq_get_table :: "'z irq_state_scheme \<Rightarrow> irq_route_table" where
  "irq_get_table s = g_irq s"

section \<open>Lemmas\<close>

lemma fold_upd_range:
  "fold (\<lambda>i e. e(i := f (e i))) [a..<b] e0 = (\<lambda>j. if a \<le> j \<and> j < b then f (e0 j) else e0 j)"
proof (induction b)
  case (Suc b)
  then show ?case by (cases "a \<le> b") (auto simp: fun_eq_iff less_Suc_eq)
qed simp

text \<open>The table after initialisation, vector by vector.\<close>

lemma irq_init_eq:
  "irq_init a t = Ret (0, \<lparr>entries = (\<lambda>v. if v < 48
       then \<lparr>handler_address = a, handler_kind = IRQ_HANDLER_CORE0, capability_id = 0,
             irq_flags = IRQ_FLAG_ENABLED\<rparr>
       else if v < MAX_IRQ_VECTORS then zero_entry\<lparr>irq_flags := IRQ_FLAG_MASKED\<rparr> else zero_entry),
     num_entries = 256, irq_lock = 0\<rparr>)"
proof -
  have const: "fold (\<lambda>i e. e(i := c)) [m..<n] e0 = (\<lambda>j. if m \<le> j \<and> j < n then c else e0 j)"
    for m n :: nat and c :: irq_route_entry and e0
    using fold_upd_range [of "\<lambda>_. c"] .
  show ?thesis
    unfolding irq_init_def Let_def const fold_upd_range [of "\<lambda>x. x\<lparr>irq_flags := IRQ_FLAG_MASKED\<rparr>"]
    by (auto simp: MAX_IRQ_VECTORS_def fun_eq_iff)
qed

lemma u8_vector: "unat (v :: u8) < MAX_IRQ_VECTORS"
  using unsigned_less [of v] by (simp add: MAX_IRQ_VECTORS_def)

lemma irq_enable_eq:
  "irq_lock t = 0 \<Longrightarrow> irq_enable v t = Ret (0, upd_entry (unat v)
     (\<lambda>e. e\<lparr>irq_flags := (irq_flags e OR IRQ_FLAG_ENABLED) AND NOT IRQ_FLAG_MASKED\<rparr>) t)"
  by (simp add: irq_enable_def outcome_simps upd_entry_def)

lemma irq_disable_eq:
  "irq_lock t = 0 \<Longrightarrow> irq_disable v t = Ret (0, upd_entry (unat v)
     (\<lambda>e. e\<lparr>irq_flags := (irq_flags e OR IRQ_FLAG_MASKED) AND NOT IRQ_FLAG_ENABLED\<rparr>) t)"
  by (simp add: irq_disable_def outcome_simps upd_entry_def)

lemma upd_entry_simps [simp]:
  "entries (upd_entry i f t) j = (if j = i then f (entries t i) else entries t j)"
  "irq_lock (upd_entry i f t) = irq_lock t" "num_entries (upd_entry i f t) = num_entries t"
  by (simp_all add: upd_entry_def)

lemma flag_bits [simp]:
  "((f OR IRQ_FLAG_ENABLED) AND NOT IRQ_FLAG_MASKED) AND IRQ_FLAG_ENABLED \<noteq> 0"
  "((f OR IRQ_FLAG_ENABLED) AND NOT IRQ_FLAG_MASKED) AND IRQ_FLAG_MASKED = 0"
  "((f OR IRQ_FLAG_MASKED) AND NOT IRQ_FLAG_ENABLED) AND IRQ_FLAG_ENABLED = 0"
proof -
  have "bit (((f OR IRQ_FLAG_ENABLED) AND NOT IRQ_FLAG_MASKED) AND IRQ_FLAG_ENABLED) 0"
    by (simp add: IRQ_FLAG_ENABLED_def IRQ_FLAG_MASKED_def bit_simps)
  then show "((f OR IRQ_FLAG_ENABLED) AND NOT IRQ_FLAG_MASKED) AND IRQ_FLAG_ENABLED \<noteq> 0" by auto
  show "((f OR IRQ_FLAG_ENABLED) AND NOT IRQ_FLAG_MASKED) AND IRQ_FLAG_MASKED = 0"
    "((f OR IRQ_FLAG_MASKED) AND NOT IRQ_FLAG_ENABLED) AND IRQ_FLAG_ENABLED = 0"
    by (rule bit_eqI; auto simp: bit_simps)+
qed

lemma on_irq_eq:
  "f (g_irq s) = Ret (r, t) \<Longrightarrow> on_irq f s = Ret (r, s\<lparr>g_irq := t\<rparr>)"
  by (simp add: on_irq_def)

lemma irq_handler_masked:
  "irq_flags (entries (g_irq s) (unat v)) AND IRQ_FLAG_ENABLED = 0 \<Longrightarrow> irq_handler v ec s = Ret (Ignored, s)"
  by (simp add: irq_handler_def Let_def)

lemma irq_handler_core0:
  assumes "unat v < MAX_IRQ_VECTORS" "irq_flags (entries (g_irq s) (unat v)) AND IRQ_FLAG_ENABLED \<noteq> 0"
    "irq_flags (entries (g_irq s) (unat v)) AND IRQ_FLAG_MASKED = 0"
    "handler_kind (entries (g_irq s) (unat v)) = IRQ_HANDLER_CORE0"
  shows "irq_handler v ec s = Ret (Core0_handled, s)"
  using assms by (simp add: irq_handler_def Let_def)

lemma irq_handler_capability:
  assumes "unat v < MAX_IRQ_VECTORS" "irq_flags (entries (g_irq s) (unat v)) AND IRQ_FLAG_ENABLED \<noteq> 0"
    "irq_flags (entries (g_irq s) (unat v)) AND IRQ_FLAG_MASKED = 0"
    "handler_kind (entries (g_irq s) (unat v)) \<noteq> IRQ_HANDLER_CORE0"
    "cap_inv (g_cap s)"
  shows "irq_handler v ec s = Ret
    (if check_spec (g_cap s) (capability_id (entries (g_irq s) (unat v))) 3 CAP_PERM_READ = 0
     then Dispatched else Denied, s)"
proof -
  have "cap_check d 3 CAP_PERM_READ (g_cap s) = Ret (check_spec (g_cap s) d 3 CAP_PERM_READ, g_cap s)" for d
    using assms(5) by (intro cap_check_eq cap_invD) auto
  then have "on_cap (cap_check d 3 CAP_PERM_READ) s = Ret (check_spec (g_cap s) d 3 CAP_PERM_READ, s)" for d
    by (rule on_cap_pure)
  then show ?thesis
    using assms(1-4)
    by (cases "handler_kind (entries (g_irq s) (unat v))") (simp_all add: irq_handler_def Let_def)
qed

section \<open>Correctness\<close>

text \<open>
  Enabling and disabling decide delivery, for one vector only: after \<open>irq_enable(v)\<close> an
  interrupt on a Core-0 vector is handled, after a following \<open>irq_disable(v)\<close> it is dropped,
  and the entries of all other vectors are as before.
\<close>

theorem irq_enable_disable_dispatch:
  assumes "irq_lock (g_irq s) = 0" "handler_kind (entries (g_irq s) (unat v)) = IRQ_HANDLER_CORE0"
  shows "\<exists>t u. on_irq (irq_enable v) s = Ret (0, t) \<and> irq_handler (ucast v) ec t = Ret (Core0_handled, t) \<and>
    on_irq (irq_disable v) t = Ret (0, u) \<and> irq_handler (ucast v) ec u = Ret (Ignored, u) \<and>
    (\<forall>w. w \<noteq> unat v \<longrightarrow> entries (g_irq u) w = entries (g_irq s) w)"
proof -
  have v: "unat (ucast v :: u64) = unat v" by (rule unat_ucast_up) simp
  let ?t = "s\<lparr>g_irq := upd_entry (unat v)
     (\<lambda>e. e\<lparr>irq_flags := (irq_flags e OR IRQ_FLAG_ENABLED) AND NOT IRQ_FLAG_MASKED\<rparr>) (g_irq s)\<rparr>"
  let ?u = "?t\<lparr>g_irq := upd_entry (unat v)
     (\<lambda>e. e\<lparr>irq_flags := (irq_flags e OR IRQ_FLAG_MASKED) AND NOT IRQ_FLAG_ENABLED\<rparr>) (g_irq ?t)\<rparr>"
  have "on_irq (irq_enable v) s = Ret (0, ?t)" by (rule on_irq_eq) (simp add: irq_enable_eq assms(1))
  moreover have "irq_handler (ucast v) ec ?t = Ret (Core0_handled, ?t)"
    using assms(2) u8_vector [of v] by (intro irq_handler_core0) (simp_all add: v)
  moreover have "on_irq (irq_disable v) ?t = Ret (0, ?u)"
    by (rule on_irq_eq) (simp add: irq_disable_eq assms(1))
  moreover have "irq_handler (ucast v) ec ?u = Ret (Ignored, ?u)"
    by (intro irq_handler_masked) (simp add: v)
  ultimately show ?thesis by (intro exI [where x = ?t] exI [where x = ?u]) simp
qed

text \<open>The state after boot, with the sample capability system.\<close>

definition sample_irq :: irq_state where
  "sample_irq = \<lparr>g_mm = sample_mm, g_cap = sample_caps,
     g_irq = \<lparr>entries = (\<lambda>v. if v < 48
       then \<lparr>handler_address = 0x100000, handler_kind = IRQ_HANDLER_CORE0, capability_id = 0,
             irq_flags = IRQ_FLAG_ENABLED\<rparr>
       else if v < MAX_IRQ_VECTORS then zero_entry\<lparr>irq_flags := IRQ_FLAG_MASKED\<rparr> else zero_entry),
     num_entries = 256, irq_lock = 0\<rparr>\<rparr>"

theorem irq_enable_disable_dispatch_witness:
  "\<exists>t. on_irq (irq_enable 33) sample_irq = Ret (0, t) \<and> irq_handler 33 0 t = Ret (Core0_handled, t)"
  using irq_enable_disable_dispatch [of sample_irq 33 0]
  by (auto simp: sample_irq_def)

text \<open>
  A vector routed to a service or an application is dispatched exactly when the domain
  whose identifier is the entry's \<open>capability_id\<close> holds handle 3 (the value of
  \<open>CAP_TYPE_IRQ\<close>) with read permission: the entry's capability itself is never looked up,
  because the call passes the capability where \<open>cap_check\<close> takes the domain and the type where
  it takes the handle.
\<close>

theorem irq_dispatch_checks_wrong_capability:
  assumes "unat v < MAX_IRQ_VECTORS" "irq_flags (entries (g_irq s) (unat v)) AND IRQ_FLAG_ENABLED \<noteq> 0"
    "irq_flags (entries (g_irq s) (unat v)) AND IRQ_FLAG_MASKED = 0"
    "handler_kind (entries (g_irq s) (unat v)) \<noteq> IRQ_HANDLER_CORE0" "cap_inv (g_cap s)"
  shows "\<exists>a. irq_handler v ec s = Ret (a, s) \<and>
    (a = Dispatched \<longleftrightarrow>
      (\<exists>l c. cap_view (g_cap s) (capability_id (entries (g_irq s) (unat v))) = Some l \<and> 3 \<in> set l \<and>
        cap_get_capability 3 (g_cap s) = Some c \<and>
        permissions (capabilities (g_cap s) c) AND CAP_PERM_READ = CAP_PERM_READ))"
  using irq_handler_capability [OF assms, of ec]
  by (auto simp: check_spec_def split: option.splits if_splits)

text \<open>An IRQ vector routed to a service that holds capability 1 with read permission.\<close>

theorem irq_dispatch_checks_wrong_capability_witness:
  "\<exists>a t. on_irq (irq_route 33 0x200000 IRQ_HANDLER_SERVICE 1) sample_irq = Ret (0, t) \<and>
     irq_handler 33 0 t = Ret (a, t) \<and> a \<noteq> Dispatched \<and>
     cap_check 1 1 CAP_PERM_READ (g_cap t) = Ret (0, g_cap t)"
proof -
  let ?t = "sample_irq\<lparr>g_irq := upd_entry 33 (\<lambda>e. e\<lparr>handler_address := 0x200000,
      handler_kind := IRQ_HANDLER_SERVICE, capability_id := 1\<rparr>) (g_irq sample_irq)\<rparr>"
  have route: "on_irq (irq_route 33 0x200000 IRQ_HANDLER_SERVICE 1) sample_irq = Ret (0, ?t)"
    by (rule on_irq_eq) (simp add: irq_route_def outcome_simps upd_entry_def sample_irq_def)
  obtain a where "irq_handler 33 0 ?t = Ret (a, ?t)" "a \<noteq> Dispatched"
    using irq_dispatch_checks_wrong_capability [of 33 ?t 0] sample_caps_inv
    by (auto simp: sample_irq_def MAX_IRQ_VECTORS_def IRQ_FLAG_ENABLED_def IRQ_FLAG_MASKED_def)
  moreover have "cap_check 1 1 CAP_PERM_READ (g_cap ?t) = Ret (0, g_cap ?t)"
    using cap_check_eq [OF sample_caps_wf(1), of 1 1 CAP_PERM_READ]
    by (simp add: sample_irq_def check_spec_def CAP_PERM_READ_def)
  ultimately show ?thesis using route by blast
qed

end
