(* ===== verification/Isolation.thy ===== *)
theory Isolation
  imports Irq
begin

text \<open>
  Isolation enforcement (\<open>Core-0/include/isolation.h\<close>, \<open>Core-0/isolation/isolation.c\<close>): the
  four-level page tables of each domain, mapping, unmapping and access verification, and the
  call gates. A \<open>page_table_t *\<close> is the 64-bit address of a page-aligned table, 0 is \<open>NULL\<close>;
  \<open>pt_mem\<close> holds the 512 entries of the table at each address (the kernel dereferences
  physical addresses, and the frames \<open>mm_alloc\<close> returns hold nothing but the table). TLB
  invalidations are recorded in \<open>tlb_log\<close>, newest first.
\<close>

section \<open>Data\<close>

definition PT_FLAG_PRESENT :: u64 where "PT_FLAG_PRESENT = 0x01"
definition PT_FLAG_WRITABLE :: u64 where "PT_FLAG_WRITABLE = 0x02"
definition PT_FLAG_USER :: u64 where "PT_FLAG_USER = 0x04"
definition PT_FLAG_PWT :: u64 where "PT_FLAG_PWT = 0x08"
definition PT_FLAG_PCD :: u64 where "PT_FLAG_PCD = 0x10"

definition CALL_GATE_TYPE_AVAILABLE :: "5 word" where "CALL_GATE_TYPE_AVAILABLE = 0xC"
definition MAX_CALL_GATES :: nat where "MAX_CALL_GATES = 16"

definition KERNEL_BASE :: u64 where "KERNEL_BASE = 0xFFFF800000000000"
definition KERNEL_CODE_BASE :: u64 where "KERNEL_CODE_BASE = 0xFFFFFFFF80000000"
definition USER_BASE :: u64 where "USER_BASE = 0x0000000000400000"
definition USER_LIMIT :: u64 where "USER_LIMIT = 0x00007FFFFFFFFFFF"
definition DEVICE_BASE :: u64 where "DEVICE_BASE = 0xFFFFFE0000000000"

record domain_page_table =
  pml4 :: u64
  dpt_domain_id :: u64
  dpt_capabilities :: u64
  dpt_flags :: u32

record call_gate =
  offset_low :: u16
  gate_selector :: u16
  gate_ist :: "3 word"
  gate_type :: "5 word"
  gate_dpl :: "2 word"
  gate_present :: "1 word"
  offset_high :: "48 word"

record call_gate_table =
  gates :: "nat \<Rightarrow> call_gate"
  num_gates :: u32
  gate_lock :: u32

datatype map_type = MAP_TYPE_CODE | MAP_TYPE_DATA | MAP_TYPE_READONLY | MAP_TYPE_DEVICE | MAP_TYPE_SHARED

datatype tlb_event = Flush_page u64 | Flush_all

record iso_state = irq_state +
  g_tables :: "nat \<Rightarrow> domain_page_table"
  g_gates :: call_gate_table
  pt_mem :: "u64 \<Rightarrow> nat \<Rightarrow> u64"
  tlb_log :: "tlb_event list"

definition zero_dpt :: domain_page_table where
  "zero_dpt = \<lparr>pml4 = 0, dpt_domain_id = 0, dpt_capabilities = 0, dpt_flags = 0\<rparr>"

definition zero_gate :: call_gate where
  "zero_gate = \<lparr>offset_low = 0, gate_selector = 0, gate_ist = 0, gate_type = 0, gate_dpl = 0,
     gate_present = 0, offset_high = 0\<rparr>"

definition PML4_INDEX :: "u64 \<Rightarrow> nat" where "PML4_INDEX v = unat (drop_bit 39 v AND 0x1FF)"
definition PDPT_INDEX :: "u64 \<Rightarrow> nat" where "PDPT_INDEX v = unat (drop_bit 30 v AND 0x1FF)"
definition PD_INDEX :: "u64 \<Rightarrow> nat" where "PD_INDEX v = unat (drop_bit 21 v AND 0x1FF)"
definition PT_INDEX :: "u64 \<Rightarrow> nat" where "PT_INDEX v = unat (drop_bit 12 v AND 0x1FF)"

definition PTE_GET_ADDRESS :: "u64 \<Rightarrow> u64" where
  "PTE_GET_ADDRESS pte = pte AND 0x000FFFFFFFFFF000"

section \<open>Page tables\<close>

definition isolation_init :: "'z iso_state_scheme \<Rightarrow> (int \<times> 'z iso_state_scheme) outcome" where
  "isolation_init s = Ret (0, s\<lparr>g_tables := (\<lambda>_. zero_dpt),
     g_gates := \<lparr>gates = (\<lambda>_. zero_gate), num_gates = 0, gate_lock = 0\<rparr>\<rparr>)"

definition pt_alloc_page_table :: "'z iso_state_scheme \<Rightarrow> (u64 \<times> 'z iso_state_scheme) outcome" where
  "pt_alloc_page_table s =
     bindR (on_mm (mm_alloc PAGE_SIZE PAGE_SIZE MEM_TYPE_KERNEL 0) s) (\<lambda>(phys_addr, s1).
     if phys_addr = 0 then Ret (0, s1)
     else Ret (phys_addr, s1\<lparr>pt_mem := (pt_mem s1)(phys_addr := (\<lambda>_. 0))\<rparr>))"

definition pt_free_page_table :: "u64 \<Rightarrow> 'z iso_state_scheme \<Rightarrow> (unit \<times> 'z iso_state_scheme) outcome" where
  "pt_free_page_table pt s =
     (if pt \<noteq> 0 then bindR (on_mm (mm_free pt) s) (\<lambda>(r, s1). Ret ((), s1)) else Ret ((), s))"

definition pt_clear_page_table :: "u64 \<Rightarrow> 'z iso_state_scheme \<Rightarrow> (int \<times> 'z iso_state_scheme) outcome" where
  "pt_clear_page_table pt s =
     (if pt = 0 then Ret (-1, s) else Ret (0, s\<lparr>pt_mem := (pt_mem s)(pt := (\<lambda>_. 0))\<rparr>))"

definition pt_get_entry :: "u64 \<Rightarrow> u64 \<Rightarrow> 'z iso_state_scheme \<Rightarrow> u64" where
  "pt_get_entry pt index s = (if pt = 0 \<or> 512 \<le> index then 0 else pt_mem s pt (unat index))"

definition pt_set_entry :: "u64 \<Rightarrow> nat \<Rightarrow> u64 \<Rightarrow> 'z iso_state_scheme \<Rightarrow> 'z iso_state_scheme" where
  "pt_set_entry pt index e s =
     (if pt \<noteq> 0 \<and> index < 512 then s\<lparr>pt_mem := (pt_mem s)(pt := (pt_mem s pt)(index := e))\<rparr> else s)"

definition pt_is_entry_present :: "u64 \<Rightarrow> u64 \<Rightarrow> 'z iso_state_scheme \<Rightarrow> bool" where
  "pt_is_entry_present pt index s =
     (if pt = 0 \<or> 512 \<le> index then False else pt_mem s pt (unat index) AND PT_FLAG_PRESENT \<noteq> 0)"

definition pt_walk_get_pml4 :: "u64 \<Rightarrow> 'z iso_state_scheme \<Rightarrow> u64" where
  "pt_walk_get_pml4 did s = (if MAX_DOMAINS \<le> unat did then 0 else pml4 (g_tables s (unat did)))"

definition pt_walk_get_pdpt :: "u64 \<Rightarrow> u64 \<Rightarrow> 'z iso_state_scheme \<Rightarrow> u64" where
  "pt_walk_get_pdpt tbl vaddr s =
     (if tbl = 0 then 0
      else let entry = pt_mem s tbl (PML4_INDEX vaddr) in
        if entry AND PT_FLAG_PRESENT = 0 then 0 else PTE_GET_ADDRESS entry)"

definition pt_walk_get_pd :: "u64 \<Rightarrow> u64 \<Rightarrow> 'z iso_state_scheme \<Rightarrow> u64" where
  "pt_walk_get_pd pdpt vaddr s =
     (if pdpt = 0 then 0
      else let entry = pt_mem s pdpt (PDPT_INDEX vaddr) in
        if entry AND PT_FLAG_PRESENT = 0 then 0 else PTE_GET_ADDRESS entry)"

definition pt_walk_get_pt :: "u64 \<Rightarrow> u64 \<Rightarrow> 'z iso_state_scheme \<Rightarrow> u64" where
  "pt_walk_get_pt pd vaddr s =
     (if pd = 0 then 0
      else let entry = pt_mem s pd (PD_INDEX vaddr) in
        if entry AND PT_FLAG_PRESENT = 0 then 0 else PTE_GET_ADDRESS entry)"

definition pt_walk_get_pte :: "u64 \<Rightarrow> u64 \<Rightarrow> 'z iso_state_scheme \<Rightarrow> u64" where
  "pt_walk_get_pte tbl vaddr s =
     (let pdpt = pt_walk_get_pdpt tbl vaddr s in
      if pdpt = 0 then 0
      else let pd = pt_walk_get_pd pdpt vaddr s in
        if pd = 0 then 0
        else let pt = pt_walk_get_pt pd vaddr s in
          if pt = 0 then 0 else pt_mem s pt (PT_INDEX vaddr))"

section \<open>Domains\<close>

definition put_table :: "nat \<Rightarrow> domain_page_table \<Rightarrow> 'z iso_state_scheme \<Rightarrow> 'z iso_state_scheme" where
  "put_table d e s = s\<lparr>g_tables := (g_tables s)(d := e)\<rparr>"

definition isolation_create_page_tables ::
  "u64 \<Rightarrow> u32 \<Rightarrow> 'z iso_state_scheme \<Rightarrow> (int \<times> 'z iso_state_scheme) outcome" where
  "isolation_create_page_tables did fl s =
     (if MAX_DOMAINS \<le> unat did then Ret (-1, s)
      else bindR (pt_alloc_page_table s) (\<lambda>(p, s1).
        if p = 0 then Ret (-1, s1)
        else Ret (0, put_table (unat did) \<lparr>pml4 = p, dpt_domain_id = did, dpt_capabilities = 0,
                                           dpt_flags = fl\<rparr> s1)))"

text \<open>Only the root table is freed.\<close>

definition isolation_destroy_page_tables ::
  "u64 \<Rightarrow> 'z iso_state_scheme \<Rightarrow> (int \<times> 'z iso_state_scheme) outcome" where
  "isolation_destroy_page_tables did s =
     (if MAX_DOMAINS \<le> unat did then Ret (-1, s)
      else if pml4 (g_tables s (unat did)) = 0 then Ret (-1, s)
      else bindR (pt_free_page_table (pml4 (g_tables s (unat did))) s) (\<lambda>(u, s1).
        Ret (0, put_table (unat did) zero_dpt s1)))"

section \<open>Mapping\<close>

primrec map_flags :: "map_type \<Rightarrow> u64" where
  "map_flags MAP_TYPE_CODE = PT_FLAG_PRESENT OR PT_FLAG_USER"
| "map_flags MAP_TYPE_DATA = PT_FLAG_PRESENT OR (PT_FLAG_WRITABLE OR PT_FLAG_USER)"
| "map_flags MAP_TYPE_READONLY = PT_FLAG_PRESENT OR PT_FLAG_USER"
| "map_flags MAP_TYPE_DEVICE = PT_FLAG_PRESENT OR ((PT_FLAG_WRITABLE OR PT_FLAG_PCD) OR PT_FLAG_PWT)"
| "map_flags MAP_TYPE_SHARED = PT_FLAG_PRESENT OR (PT_FLAG_WRITABLE OR PT_FLAG_USER)"

definition TABLE_FLAGS :: u64 where
  "TABLE_FLAGS = PT_FLAG_PRESENT OR PT_FLAG_WRITABLE OR PT_FLAG_USER"

text \<open>
  "Get or create" of one level: \<open>walked\<close> is what the walk of that level returned; a missing
  table is allocated and entered in \<open>parent\<close>. The result 0 is the failed allocation.
\<close>

definition get_or_create ::
  "u64 \<Rightarrow> nat \<Rightarrow> u64 \<Rightarrow> 'z iso_state_scheme \<Rightarrow> (u64 \<times> 'z iso_state_scheme) outcome" where
  "get_or_create parent index walked s =
     (if walked = 0
      then bindR (pt_alloc_page_table s) (\<lambda>(p, s1).
        if p = 0 then Ret (0, s1)
        else Ret (p, pt_set_entry parent index (p OR TABLE_FLAGS) s1))
      else Ret (walked, s))"

text \<open>The body of the mapping loop for one page; -1 is its early return.\<close>

definition map_page ::
  "u64 \<Rightarrow> u64 \<Rightarrow> u64 \<Rightarrow> u64 \<Rightarrow> 'z iso_state_scheme \<Rightarrow> (int \<times> 'z iso_state_scheme) outcome" where
  "map_page root current_virt current_phys pt_flags s =
     bindR (get_or_create root (PML4_INDEX current_virt) (pt_walk_get_pdpt root current_virt s) s)
       (\<lambda>(pdpt, s1).
     if pdpt = 0 then Ret (-1, s1)
     else bindR (get_or_create pdpt (PDPT_INDEX current_virt) (pt_walk_get_pd pdpt current_virt s1) s1)
       (\<lambda>(pd, s2).
     if pd = 0 then Ret (-1, s2)
     else bindR (get_or_create pd (PD_INDEX current_virt) (pt_walk_get_pt pd current_virt s2) s2)
       (\<lambda>(pt, s3).
     if pt = 0 then Ret (-1, s3)
     else Ret (0, pt_set_entry pt (PT_INDEX current_virt) (current_phys OR pt_flags) s3))))"

text \<open>The loop from page \<open>i\<close> on, with \<open>n\<close> pages to go.\<close>

primrec map_pages ::
  "nat \<Rightarrow> nat \<Rightarrow> u64 \<Rightarrow> u64 \<Rightarrow> u64 \<Rightarrow> u64 \<Rightarrow> 'z iso_state_scheme \<Rightarrow> (int \<times> 'z iso_state_scheme) outcome" where
  "map_pages 0 i root v p fl s = Ret (0, s)"
| "map_pages (Suc n) i root v p fl s =
     bindR (map_page root (v + of_nat i * PAGE_SIZE) (p + of_nat i * PAGE_SIZE) fl s) (\<lambda>(r, s1).
     if r \<noteq> 0 then Ret (r, s1) else map_pages n (Suc i) root v p fl s1)"

definition isolation_map_memory ::
  "u64 \<Rightarrow> u64 \<Rightarrow> u64 \<Rightarrow> u64 \<Rightarrow> map_type \<Rightarrow> u64 \<Rightarrow> 'z iso_state_scheme \<Rightarrow> (int \<times> 'z iso_state_scheme) outcome" where
  "isolation_map_memory did virt_addr phys_addr sz ty cap_id s =
     (if MAX_DOMAINS \<le> unat did then Ret (-1, s)
      else bindR (on_cap (cap_check cap_id (cap_type_code CAP_TYPE_MEMORY)
                                    (CAP_PERM_READ OR CAP_PERM_WRITE)) s) (\<lambda>(r, s1).
        if r \<noteq> 0 then Ret (-1, s1)
        else if pml4 (g_tables s1 (unat did)) = 0 then Ret (-1, s1)
        else map_pages (unat (pages_for sz)) 0 (pml4 (g_tables s1 (unat did)))
               virt_addr phys_addr (map_flags ty) s1))"

definition unmap_page :: "u64 \<Rightarrow> u64 \<Rightarrow> 'z iso_state_scheme \<Rightarrow> 'z iso_state_scheme" where
  "unmap_page root current_virt s =
     (let pt = pt_walk_get_pt (pt_walk_get_pd (pt_walk_get_pdpt root current_virt s) current_virt s)
                 current_virt s in
      if pt \<noteq> 0 then pt_set_entry pt (PT_INDEX current_virt) 0 s else s)"

primrec unmap_pages :: "nat \<Rightarrow> nat \<Rightarrow> u64 \<Rightarrow> u64 \<Rightarrow> 'z iso_state_scheme \<Rightarrow> 'z iso_state_scheme" where
  "unmap_pages 0 i root v s = s"
| "unmap_pages (Suc n) i root v s =
     unmap_pages n (Suc i) root v (unmap_page root (v + of_nat i * PAGE_SIZE) s)"

definition tlb_invalidate_page :: "u64 \<Rightarrow> 'z iso_state_scheme \<Rightarrow> 'z iso_state_scheme" where
  "tlb_invalidate_page addr s = s\<lparr>tlb_log := Flush_page addr # tlb_log s\<rparr>"

definition tlb_invalidate_all :: "'z iso_state_scheme \<Rightarrow> 'z iso_state_scheme" where
  "tlb_invalidate_all s = s\<lparr>tlb_log := Flush_all # tlb_log s\<rparr>"

definition tlb_invalidate_asid :: "u64 \<Rightarrow> 'z iso_state_scheme \<Rightarrow> 'z iso_state_scheme" where
  "tlb_invalidate_asid asid s = tlb_invalidate_all s"

definition isolation_unmap_memory ::
  "u64 \<Rightarrow> u64 \<Rightarrow> u64 \<Rightarrow> 'z iso_state_scheme \<Rightarrow> (int \<times> 'z iso_state_scheme) outcome" where
  "isolation_unmap_memory did virt_addr sz s =
     (if MAX_DOMAINS \<le> unat did then Ret (-1, s)
      else if pml4 (g_tables s (unat did)) = 0 then Ret (-1, s)
      else Ret (0, tlb_invalidate_page virt_addr
                 (unmap_pages (unat (pages_for sz)) 0 (pml4 (g_tables s (unat did))) virt_addr s)))"

text \<open>The test of one page; the access bits are 1 for user and 2 for write.\<close>

definition page_allows :: "u32 \<Rightarrow> u64 \<Rightarrow> bool" where
  "page_allows acc pte \<longleftrightarrow> \<not> pte AND PT_FLAG_PRESENT = 0 \<and>
     \<not> (acc AND 0x01 \<noteq> 0 \<and> pte AND PT_FLAG_USER = 0) \<and>
     \<not> (acc AND 0x02 \<noteq> 0 \<and> pte AND PT_FLAG_WRITABLE = 0)"

primrec verify_pages :: "nat \<Rightarrow> nat \<Rightarrow> u64 \<Rightarrow> u64 \<Rightarrow> u32 \<Rightarrow> 'z iso_state_scheme \<Rightarrow> int" where
  "verify_pages 0 i root v acc s = 0"
| "verify_pages (Suc n) i root v acc s =
     (if page_allows acc (pt_walk_get_pte root (v + of_nat i * PAGE_SIZE) s)
      then verify_pages n (Suc i) root v acc s else -1)"

definition isolation_verify_access :: "u64 \<Rightarrow> u64 \<Rightarrow> u64 \<Rightarrow> u32 \<Rightarrow> 'z iso_state_scheme \<Rightarrow> int" where
  "isolation_verify_access did addr sz acc s =
     (if MAX_DOMAINS \<le> unat did then -1
      else if pml4 (g_tables s (unat did)) = 0 then -1
      else verify_pages (unat (pages_for sz)) 0 (pml4 (g_tables s (unat did))) addr acc s)"

section \<open>Call gates\<close>

definition on_gates :: "(call_gate_table \<Rightarrow> ('r \<times> call_gate_table) outcome) \<Rightarrow>
    'z iso_state_scheme \<Rightarrow> ('r \<times> 'z iso_state_scheme) outcome" where
  "on_gates f s = bindR (f (g_gates s)) (\<lambda>(r, t). Ret (r, s\<lparr>g_gates := t\<rparr>))"

definition make_gate :: "u64 \<Rightarrow> call_gate" where
  "make_gate entry_point = \<lparr>offset_low = ucast (entry_point AND 0xFFFF), gate_selector = 0x08,
     gate_ist = 0, gate_type = CALL_GATE_TYPE_AVAILABLE, gate_dpl = 3, gate_present = 1,
     offset_high = ucast (drop_bit 16 entry_point AND 0xFFFFFFFFFFFF)\<rparr>"

definition isolation_create_call_gate ::
  "u64 \<Rightarrow> u64 \<Rightarrow> u64 \<Rightarrow> 'z iso_state_scheme \<Rightarrow> (int \<times> 'z iso_state_scheme) outcome" where
  "isolation_create_call_gate target_domain entry_point cap_id s =
     (if MAX_DOMAINS \<le> unat target_domain then Ret (-1, s)
      else bindR (on_cap (cap_check cap_id (cap_type_code CAP_TYPE_SERVICE) CAP_PERM_EXECUTE) s)
        (\<lambda>(r, s1).
        if r \<noteq> 0 then Ret (-1, s1)
        else on_gates (locked gate_lock gate_lock_update (\<lambda>t.
          if MAX_CALL_GATES \<le> unat (num_gates t) then Ret (-1, t)
          else let gate_id = num_gates t in
            Ret (int (unat gate_id),
                 t\<lparr>gates := (gates t)(unat gate_id := make_gate entry_point),
                   num_gates := num_gates t + 1\<rparr>))) s1))"

text \<open>The gate is looked up; the transfer itself is a comment in the source.\<close>

definition isolation_call_gate :: "u64 \<Rightarrow> 'z iso_state_scheme \<Rightarrow> int outcome" where
  "isolation_call_gate gate_id s =
     (if ucast (num_gates (g_gates s)) \<le> gate_id then Ret (-1)
      else if MAX_CALL_GATES \<le> unat gate_id then Fault
      else if gate_present (gates (g_gates s) (unat gate_id)) = 0 then Ret (-1) else Ret 0)"

definition isolation_get_page_tables :: "u64 \<Rightarrow> 'z iso_state_scheme \<Rightarrow> nat option" where
  "isolation_get_page_tables did s = (if MAX_DOMAINS \<le> unat did then None else Some (unat did))"

definition isolation_get_call_gates :: "'z iso_state_scheme \<Rightarrow> call_gate_table" where
  "isolation_get_call_gates s = g_gates s"

section \<open>Address space\<close>

definition pt_setup_identity_map ::
  "u64 \<Rightarrow> u64 \<Rightarrow> u64 \<Rightarrow> u64 \<Rightarrow> 'z iso_state_scheme \<Rightarrow> (int \<times> 'z iso_state_scheme) outcome" where
  "pt_setup_identity_map did start sz fl = isolation_map_memory did start start sz MAP_TYPE_DATA 0"

definition pt_setup_kernel_map ::
  "u64 \<Rightarrow> u64 \<Rightarrow> u64 \<Rightarrow> 'z iso_state_scheme \<Rightarrow> (int \<times> 'z iso_state_scheme) outcome" where
  "pt_setup_kernel_map did kernel_start kernel_size =
     isolation_map_memory did KERNEL_CODE_BASE kernel_start kernel_size MAP_TYPE_CODE 0"

definition pt_setup_user_map ::
  "u64 \<Rightarrow> u64 \<Rightarrow> u64 \<Rightarrow> 'z iso_state_scheme \<Rightarrow> (int \<times> 'z iso_state_scheme) outcome" where
  "pt_setup_user_map did user_start user_size =
     isolation_map_memory did USER_BASE user_start user_size MAP_TYPE_DATA 0"

definition is_kernel_address :: "u64 \<Rightarrow> bool" where "is_kernel_address addr \<longleftrightarrow> KERNEL_BASE \<le> addr"
definition is_user_address :: "u64 \<Rightarrow> bool" where
  "is_user_address addr \<longleftrightarrow> USER_BASE \<le> addr \<and> addr < USER_LIMIT"
definition is_device_address :: "u64 \<Rightarrow> bool" where "is_device_address addr \<longleftrightarrow> DEVICE_BASE \<le> addr"

end
