(* ===== verification/PageTables.thy ===== *)
theory PageTables
  imports Isolation
begin

text \<open>
  What the page-table code of \<open>Core-0/isolation/isolation.c\<close> guarantees: an ownership
  invariant on the table memory (every reachable table belongs to one position of one domain's
  tree), the effect of mapping and unmapping on the translation of every address of every
  domain, and what verification then decides.
\<close>

section \<open>Entries and indices\<close>

lemma pte_mask: "(0x000FFFFFFFFFF000 :: u64) = push_bit 12 (mask 40)"
  by (simp add: push_bit_eq_mult mask_eq_exp_minus_1)

lemma aligned_bits:
  assumes "unat (a :: u64) mod 4096 = 0" "unat a < 2 ^ 52" "bit a n"
  shows "12 \<le> n" "n < 52"
proof -
  have "unat (take_bit 12 a) = 0" using assms(1) by (simp add: unat_take_bit del: take_bit_eq_0_iff)
  then have low: "take_bit 12 a = 0" by (simp add: unat_eq_zero)
  show "12 \<le> n"
  proof (rule ccontr)
    assume "\<not> 12 \<le> n"
    with assms(3) have "bit (take_bit 12 a) n" by (simp add: bit_take_bit_iff)
    with low show False by simp
  qed
  have "unat (take_bit 52 a) = unat a" using assms(2) by (simp only: unat_take_bit mod_less)
  then have "take_bit 52 a = a" by (simp only: word_unat_eq_iff)
  with assms(3) show "n < 52" by (metis bit_take_bit_iff)
qed

lemma table_flags: "TABLE_FLAGS = mask 3"
  by (simp add: TABLE_FLAGS_def PT_FLAG_PRESENT_def PT_FLAG_WRITABLE_def PT_FLAG_USER_def mask_eq_exp_minus_1)

lemma table_entry_address:
  assumes "unat a mod 4096 = 0" "unat a < 2 ^ 52"
  shows "PTE_GET_ADDRESS (a OR TABLE_FLAGS) = a"
proof (rule bit_word_eqI)
  fix n
  assume "n < LENGTH(64)"
  then show "bit (PTE_GET_ADDRESS (a OR TABLE_FLAGS)) n = bit a n"
    unfolding PTE_GET_ADDRESS_def pte_mask table_flags
    using aligned_bits [OF assms, of n] by (auto simp: bit_simps)
qed

lemma table_entry_present: "(a OR TABLE_FLAGS) AND PT_FLAG_PRESENT \<noteq> 0"
proof -
  have "bit ((a OR TABLE_FLAGS) AND PT_FLAG_PRESENT) 0"
    by (simp add: table_flags PT_FLAG_PRESENT_def bit_simps)
  then show ?thesis by auto
qed

lemma index9: "unat (drop_bit k (v :: u64) AND 0x1FF) = unat v div 2 ^ k mod 512"
proof -
  have "(0x1FF :: u64) = mask 9" by (simp add: mask_eq_exp_minus_1)
  then have "unat (drop_bit k v AND 0x1FF) = unat v div 2 ^ k mod 2 ^ 9"
    by (simp only: unat_and_mask unat_drop_bit)
  then show ?thesis by simp
qed

lemma index_eqs:
  "PML4_INDEX v = unat v div 2 ^ 39 mod 512" "PDPT_INDEX v = unat v div 2 ^ 30 mod 512"
  "PD_INDEX v = unat v div 2 ^ 21 mod 512" "PT_INDEX v = unat v div 2 ^ 12 mod 512"
  by (simp_all only: PML4_INDEX_def PDPT_INDEX_def PD_INDEX_def PT_INDEX_def index9)

lemma index_bound [simp]:
  "PML4_INDEX v < 512" "PDPT_INDEX v < 512" "PD_INDEX v < 512" "PT_INDEX v < 512"
  by (simp_all add: index_eqs)

text \<open>The path of an address through the four levels, and the virtual page it stands for.\<close>

definition path :: "u64 \<Rightarrow> nat list" where
  "path v = [PML4_INDEX v, PDPT_INDEX v, PD_INDEX v, PT_INDEX v]"

definition vpage :: "u64 \<Rightarrow> nat" where
  "vpage v = unat v div 4096 mod 2 ^ 36"

lemma path_vpage: "path v = path w \<longleftrightarrow> vpage v = vpage w"
proof -
  have split: "(n :: nat) div 4096 mod 68719476736 =
      ((n div 549755813888 mod 512 * 512 + n div 1073741824 mod 512) * 512 + n div 2097152 mod 512) * 512 +
      n div 4096 mod 512" for n
  proof -
    define k where "k = n div 4096"
    have div: "n div 2097152 = k div 512" "n div 1073741824 = k div 512 div 512"
      "n div 549755813888 = k div 512 div 512 div 512"
      by (simp_all add: k_def div_mult2_eq [symmetric])
    have "k mod 2 ^ 36 = (k div 512) mod 2 ^ 27 * 512 + k mod 512"
      using mod_mult2_eq [of k 512 "2 ^ 27"] by simp
    also have "(k div 512) mod 2 ^ 27 = (k div 512 div 512) mod 2 ^ 18 * 512 + k div 512 mod 512"
      using mod_mult2_eq [of "k div 512" 512 "2 ^ 18"] by simp
    also have "(k div 512 div 512) mod 2 ^ 18 = (k div 512 div 512 div 512) mod 512 * 512 + k div 512 div 512 mod 512"
      using mod_mult2_eq [of "k div 512 div 512" 512 512] by simp
    finally show ?thesis by (simp add: div k_def [symmetric])
  qed
  have digits: "x = x' \<and> y = y'" if "x * 512 + y = x' * 512 + y'" "y < 512" "y' < 512" for x y x' y' :: nat
  proof -
    have "(x * 512 + y) div 512 = x" "(x' * 512 + y') div 512 = x'" using that by simp_all
    then have "x = x'" using that(1) by metis
    with that show ?thesis by simp
  qed
  have eqs: "PML4_INDEX u = unat u div 549755813888 mod 512" "PDPT_INDEX u = unat u div 1073741824 mod 512"
    "PD_INDEX u = unat u div 2097152 mod 512" "PT_INDEX u = unat u div 4096 mod 512" for u
    by (simp_all add: index_eqs)
  have "vpage u = ((PML4_INDEX u * 512 + PDPT_INDEX u) * 512 + PD_INDEX u) * 512 + PT_INDEX u" for u
    using split [of "unat u"] unfolding eqs vpage_def by simp
  then show ?thesis
    unfolding path_def using digits index_bound by (metis list.inject)
qed

section \<open>Translation\<close>

text \<open>One step down the tree, and the entry a list of indices leads to.\<close>

definition next_table :: "(u64 \<Rightarrow> nat \<Rightarrow> u64) \<Rightarrow> u64 \<Rightarrow> nat \<Rightarrow> u64" where
  "next_table m t i =
     (if t = 0 then 0 else if m t i AND PT_FLAG_PRESENT = 0 then 0 else PTE_GET_ADDRESS (m t i))"

fun leaf :: "(u64 \<Rightarrow> nat \<Rightarrow> u64) \<Rightarrow> u64 \<Rightarrow> nat list \<Rightarrow> u64" where
  "leaf m t [] = 0"
| "leaf m t [i] = (if t = 0 then 0 else m t i)"
| "leaf m t (i # j # q) = leaf m (next_table m t i) (j # q)"

lemma next_table_0 [simp]: "next_table m 0 i = 0"
  by (simp add: next_table_def)

lemma leaf_0 [simp]: "leaf m 0 q = 0"
  by (induction m "0 :: u64" q rule: leaf.induct) simp_all

lemma leaf_Cons: "q \<noteq> [] \<Longrightarrow> leaf m t (i # q) = leaf m (next_table m t i) q"
  by (cases q) simp_all

lemma walk_next:
  "pt_walk_get_pdpt t v s = next_table (pt_mem s) t (PML4_INDEX v)"
  "pt_walk_get_pd t v s = next_table (pt_mem s) t (PDPT_INDEX v)"
  "pt_walk_get_pt t v s = next_table (pt_mem s) t (PD_INDEX v)"
  by (simp_all add: pt_walk_get_pdpt_def pt_walk_get_pd_def pt_walk_get_pt_def next_table_def Let_def)

lemma pte_leaf: "pt_walk_get_pte t v s = leaf (pt_mem s) t (path v)"
  by (simp add: pt_walk_get_pte_def walk_next path_def Let_def)

text \<open>The entry that domain \<open>d\<close> has for an address.\<close>

definition translate :: "'z iso_state_scheme \<Rightarrow> nat \<Rightarrow> u64 \<Rightarrow> u64" where
  "translate s d v = pt_walk_get_pte (pml4 (g_tables s d)) v s"

section \<open>Ownership of table memory\<close>

text \<open>
  A position is a domain and the indices that lead from its root to the table. \<open>pt_owned own s\<close>:
  every root has the empty position, every owned table lies in a managed page that is not
  free, and every present entry of an inner table leads to the table of the next position.
\<close>

type_synonym owner_map = "u64 \<Rightarrow> (nat \<times> nat list) option"

definition pt_owned :: "owner_map \<Rightarrow> 'z iso_state_scheme \<Rightarrow> bool" where
  "pt_owned own s \<longleftrightarrow>
     (\<forall>d<MAX_DOMAINS. pml4 (g_tables s d) \<noteq> 0 \<longrightarrow> own (pml4 (g_tables s d)) = Some (d, [])) \<and>
     (\<forall>t d p. own t = Some (d, p) \<longrightarrow> t \<noteq> 0 \<and> unat t mod 4096 = 0 \<and>
        unat t div 4096 < npages (g_mm s) \<and> \<not> avail (g_mm s) (unat t div 4096)) \<and>
     (\<forall>t d p i. own t = Some (d, p) \<longrightarrow> length p < 3 \<longrightarrow> i < 512 \<longrightarrow>
        pt_mem s t i AND PT_FLAG_PRESENT \<noteq> 0 \<longrightarrow>
        own (PTE_GET_ADDRESS (pt_mem s t i)) = Some (d, p @ [i]))"

definition iso_ok :: "'z iso_state_scheme \<Rightarrow> bool" where
  "iso_ok s \<longleftrightarrow> mm_ok (g_mm s) \<and> mm_lock (g_mm s) = 0 \<and> (\<exists>own. pt_owned own s)"

lemma pt_ownedD:
  assumes "pt_owned own s"
  shows "d < MAX_DOMAINS \<Longrightarrow> pml4 (g_tables s d) \<noteq> 0 \<Longrightarrow> own (pml4 (g_tables s d)) = Some (d, [])"
    and "own t = Some (d, p) \<Longrightarrow> t \<noteq> 0 \<and> unat t mod 4096 = 0 \<and>
        unat t div 4096 < npages (g_mm s) \<and> \<not> avail (g_mm s) (unat t div 4096)"
    and "own t = Some (d, p) \<Longrightarrow> length p < 3 \<Longrightarrow> i < 512 \<Longrightarrow> pt_mem s t i AND PT_FLAG_PRESENT \<noteq> 0 \<Longrightarrow>
        own (PTE_GET_ADDRESS (pt_mem s t i)) = Some (d, p @ [i])"
  using assms unfolding pt_owned_def by blast+

lemma next_table_owned:
  assumes "pt_owned own s" "own t = Some (d, p)" "length p < 3" "i < 512" "next_table (pt_mem s) t i \<noteq> 0"
  shows "own (next_table (pt_mem s) t i) = Some (d, p @ [i])"
  using assms pt_ownedD(3) [OF assms(1-4)] by (auto simp: next_table_def split: if_splits)

text \<open>
  A new zeroed table \<open>r\<close> entered at \<open>(tbl, i)\<close>, where no table was: no translation that starts
  at an owned table changes.
\<close>

lemma leaf_insert_table:
  assumes "pt_owned own s" "own tbl = Some (d, p)" "length p < 3" "own r = None"
    and old: "next_table (pt_mem s) tbl i = 0"
    and m': "m' = ((pt_mem s)(r := \<lambda>_. 0))(tbl := (pt_mem s tbl)(i := e))"
    and new: "next_table m' tbl i = r"
  shows "own t = Some (d0, p0) \<Longrightarrow> q \<noteq> [] \<Longrightarrow> length p0 + length q = 4 \<Longrightarrow> \<forall>k\<in>set q. k < 512 \<Longrightarrow>
    leaf m' t q = leaf (pt_mem s) t q"
proof (induction q arbitrary: t p0)
  case (Cons j q)
  have tr: "t \<noteq> r" using Cons.prems(1) assms(4) by auto
  have zero: "leaf m' r q = 0"
  proof -
    have "tbl \<noteq> r" using assms(2,4) by auto
    then have z: "m' r k = 0" for k by (simp add: m')
    then have "next_table m' r k = 0" for k by (simp add: next_table_def)
    with z show ?thesis by (cases "(m', r, q)" rule: leaf.cases) simp_all
  qed
  show ?case
  proof (cases "q = []")
    case True
    then have "length p0 = 3" using Cons.prems(3) by simp
    then have "t \<noteq> tbl" using assms(2,3) Cons.prems(1) by auto
    with True tr show ?thesis by (simp add: m')
  next
    case False
    then have len: "length p0 < 3" using Cons.prems(3) by (cases q) auto
    show ?thesis
    proof (cases "t = tbl \<and> j = i")
      case True
      with False zero old new show ?thesis by (simp add: leaf_Cons)
    next
      case other: False
      then have same: "next_table m' t j = next_table (pt_mem s) t j"
        using tr by (auto simp: m' next_table_def)
      show ?thesis
      proof (cases "next_table (pt_mem s) t j = 0")
        case True
        with False same show ?thesis by (simp add: leaf_Cons)
      next
        case False
        with Cons.prems(4) have "own (next_table (pt_mem s) t j) = Some (d0, p0 @ [j])"
          by (intro next_table_owned [OF assms(1) Cons.prems(1) len]) auto
        then have "leaf m' (next_table (pt_mem s) t j) q = leaf (pt_mem s) (next_table (pt_mem s) t j) q"
          using Cons.prems(3,4) \<open>q \<noteq> []\<close> by (intro Cons.IH [of _ "p0 @ [j]"]) auto
        with same \<open>q \<noteq> []\<close> show ?thesis by (simp add: leaf_Cons)
      qed
    qed
  qed
qed simp

text \<open>Writing an entry of a last-level table changes the translation of its position only.\<close>

lemma leaf_write_entry:
  assumes "pt_owned own s" "own tbl = Some (d, p)" "length p = 3"
    and m': "m' = (pt_mem s)(tbl := (pt_mem s tbl)(i := e))"
  shows "own t = Some (d0, p0) \<Longrightarrow> q \<noteq> [] \<Longrightarrow> length p0 + length q = 4 \<Longrightarrow> \<forall>k\<in>set q. k < 512 \<Longrightarrow>
    (d0, p0 @ q) \<noteq> (d, p @ [i]) \<Longrightarrow> leaf m' t q = leaf (pt_mem s) t q"
proof (induction q arbitrary: t p0)
  case (Cons j q)
  show ?case
  proof (cases "q = []")
    case True
    then show ?thesis using Cons.prems(1,5) assms(2) by (auto simp: m')
  next
    case False
    then have len: "length p0 < 3" using Cons.prems(3) by (cases q) auto
    then have "t \<noteq> tbl" using Cons.prems(1) assms(2,3) by auto
    then have same: "next_table m' t j = next_table (pt_mem s) t j" by (simp add: m' next_table_def)
    show ?thesis
    proof (cases "next_table (pt_mem s) t j = 0")
      case True
      with False same show ?thesis by (simp add: leaf_Cons)
    next
      case nz: False
      with Cons.prems(4) have "own (next_table (pt_mem s) t j) = Some (d0, p0 @ [j])"
        by (intro next_table_owned [OF assms(1) Cons.prems(1) len]) auto
      then have "leaf m' (next_table (pt_mem s) t j) q = leaf (pt_mem s) (next_table (pt_mem s) t j) q"
        using Cons.prems(3-5) False by (intro Cons.IH [of _ "p0 @ [j]"]) auto
      with same False show ?thesis by (simp add: leaf_Cons)
    qed
  qed
qed simp

section \<open>Allocating a table\<close>

lemma kernel_page_alloc:
  assumes "mm_ok m" "mm_lock m = 0"
  shows "\<exists>r m'. mm_alloc PAGE_SIZE PAGE_SIZE MEM_TYPE_KERNEL 0 m = Ret (r, m') \<and>
    mm_ok m' \<and> mm_lock m' = 0 \<and> npages m' = npages m \<and> (\<forall>p. avail m' p \<longrightarrow> avail m p) \<and>
    (r \<noteq> 0 \<longrightarrow> unat r mod 4096 = 0 \<and> unat r div 4096 < npages m \<and>
       avail m (unat r div 4096) \<and> \<not> avail m' (unat r div 4096))"
proof -
  let ?alloc = "mm_alloc PAGE_SIZE PAGE_SIZE MEM_TYPE_KERNEL 0"
  obtain x where "?alloc m = Ret x"
    using mm_alloc_first_fit_eq [OF assms, of PAGE_SIZE PAGE_SIZE MEM_TYPE_KERNEL 0]
    by (simp add: pages_for_PAGE_SIZE)
  then obtain r m' where ret: "?alloc m = Ret (r, m')" by (cases x) simp
  have "mm_lock m' = 0 \<and> npages m' = npages m" using mm_alloc_cases [OF ret] by auto
  moreover have "unat r div 4096 < npages m" if "r \<noteq> 0"
    by (rule mm_alloc_result [OF ret that]) (auto simp: pages_for_PAGE_SIZE)
  moreover have "avail m (unat r div 4096) \<and> \<not> avail m' (unat r div 4096)" if "r \<noteq> 0"
    using kernel_page.alloc_fresh [OF assms(1) ret that, of 0] by simp
  ultimately show ?thesis
    using ret kernel_page.alloc_ok [OF assms(1) ret] kernel_page.alloc_shrinks [OF assms(1) ret]
      kernel_page.alloc_aligned [OF assms(1) ret] by auto
qed

text \<open>
  What every step of a mapping guarantees: only the allocator and the table memory change,
  owned tables stay owned, links between owned tables stay, and translations are untouched.
\<close>

definition grown :: "owner_map \<Rightarrow> 'z iso_state_scheme \<Rightarrow> owner_map \<Rightarrow> 'z iso_state_scheme \<Rightarrow> bool" where
  "grown own s own' t \<longleftrightarrow>
     t = s\<lparr>g_mm := g_mm t, pt_mem := pt_mem t\<rparr> \<and>
     pt_owned own' t \<and> mm_ok (g_mm t) \<and> mm_lock (g_mm t) = 0 \<and>
     (\<forall>x k. own x = Some k \<longrightarrow> own' x = Some k) \<and>
     (\<forall>x k i. own x = Some k \<longrightarrow> next_table (pt_mem s) x i \<noteq> 0 \<longrightarrow>
        next_table (pt_mem t) x i = next_table (pt_mem s) x i) \<and>
     (\<forall>x d p q. own x = Some (d, p) \<longrightarrow> q \<noteq> [] \<longrightarrow> length p + length q = 4 \<longrightarrow> (\<forall>k\<in>set q. k < 512) \<longrightarrow>
        leaf (pt_mem t) x q = leaf (pt_mem s) x q)"

lemma grownD:
  assumes "grown own s own' t"
  shows "pt_owned own' t" "mm_ok (g_mm t)" "mm_lock (g_mm t) = 0" "own x = Some k \<Longrightarrow> own' x = Some k"
    "own x = Some k \<Longrightarrow> next_table (pt_mem s) x i \<noteq> 0 \<Longrightarrow>
       next_table (pt_mem t) x i = next_table (pt_mem s) x i"
    "own x = Some (d, p) \<Longrightarrow> q \<noteq> [] \<Longrightarrow> length p + length q = 4 \<Longrightarrow> (\<forall>k\<in>set q. k < 512) \<Longrightarrow>
       leaf (pt_mem t) x q = leaf (pt_mem s) x q"
  using assms unfolding grown_def by blast+

lemma grown_state: "grown own s own' t \<Longrightarrow> t = s\<lparr>g_mm := g_mm t, pt_mem := pt_mem t\<rparr>"
  unfolding grown_def by blast

lemma grown_fields:
  assumes "grown own s own' t"
  shows "g_tables t = g_tables s" "g_cap t = g_cap s" "g_gates t = g_gates s" "tlb_log t = tlb_log s"
    "g_irq t = g_irq s"
proof -
  note t = grown_state [OF assms]
  show "g_tables t = g_tables s" by (subst t) simp
  show "g_cap t = g_cap s" by (subst t) simp
  show "g_gates t = g_gates s" by (subst t) simp
  show "tlb_log t = tlb_log s" by (subst t) simp
  show "g_irq t = g_irq s" by (subst t) simp
qed

lemma grown_refl:
  "pt_owned own s \<Longrightarrow> mm_ok (g_mm s) \<Longrightarrow> mm_lock (g_mm s) = 0 \<Longrightarrow> grown own s own s"
  by (simp add: grown_def)

lemma grown_trans:
  assumes "grown own s own1 t" "grown own1 t own2 u"
  shows "grown own s own2 u"
  unfolding grown_def
proof (intro conjI allI impI)
  have "u = t\<lparr>g_mm := g_mm u, pt_mem := pt_mem u\<rparr>" by (rule grown_state [OF assms(2)])
  also have "\<dots> = (s\<lparr>g_mm := g_mm t, pt_mem := pt_mem t\<rparr>)\<lparr>g_mm := g_mm u, pt_mem := pt_mem u\<rparr>"
    by (subst grown_state [OF assms(1)]) simp
  finally show "u = s\<lparr>g_mm := g_mm u, pt_mem := pt_mem u\<rparr>" by simp
  show "pt_owned own2 u" "mm_ok (g_mm u)" "mm_lock (g_mm u) = 0" using grownD(1-3) [OF assms(2)] .
  show "own2 x = Some k" if "own x = Some k" for x k
    using that grownD(4) [OF assms(1)] grownD(4) [OF assms(2)] by blast
  show "next_table (pt_mem u) x i = next_table (pt_mem s) x i"
    if "own x = Some k" "next_table (pt_mem s) x i \<noteq> 0" for x k i
    using grownD(5) [OF assms(1) that] grownD(5) [OF assms(2) grownD(4) [OF assms(1) that(1)], of i] that(2)
    by simp
  show "leaf (pt_mem u) x q = leaf (pt_mem s) x q"
    if "own x = Some (d, p)" "q \<noteq> []" "length p + length q = 4" "\<forall>k\<in>set q. k < 512" for x d p q
    using grownD(6) [OF assms(1) that] grownD(6) [OF assms(2) grownD(4) [OF assms(1) that(1)] that(2-4)]
    by simp
qed

lemma pt_owned_shrink:
  assumes "pt_owned own s" "npages m = npages (g_mm s)" "\<And>p. avail m p \<Longrightarrow> avail (g_mm s) p"
  shows "pt_owned own (s\<lparr>g_mm := m\<rparr>)"
proof -
  have "\<forall>p. avail m p \<longrightarrow> avail (g_mm s) p" using assms(3) by blast
  with assms(1,2) show ?thesis unfolding pt_owned_def by auto
qed

section \<open>Get or create\<close>

lemma get_or_create_grown:
  assumes own: "pt_owned own s" and mm: "mm_ok (g_mm s)" "mm_lock (g_mm s) = 0"
    and parent: "own tbl = Some (d, p)" "length p < 3" "i < 512"
  shows "\<exists>r t own'. get_or_create tbl i (next_table (pt_mem s) tbl i) s = Ret (r, t) \<and>
    grown own s own' t \<and> (r \<noteq> 0 \<longrightarrow> own' r = Some (d, p @ [i]) \<and> next_table (pt_mem t) tbl i = r)"
proof (cases "next_table (pt_mem s) tbl i = 0")
  case False
  then have "own (next_table (pt_mem s) tbl i) = Some (d, p @ [i])"
    by (rule next_table_owned [OF own parent])
  with False show ?thesis
    using grown_refl [OF own mm] by (auto simp: get_or_create_def)
next
  case missing: True
  obtain r m' where alloc: "mm_alloc PAGE_SIZE PAGE_SIZE MEM_TYPE_KERNEL 0 (g_mm s) = Ret (r, m')"
    and m': "mm_ok m'" "mm_lock m' = 0" "npages m' = npages (g_mm s)"
      "\<forall>q. avail m' q \<longrightarrow> avail (g_mm s) q"
    and page: "r \<noteq> 0 \<longrightarrow> unat r mod 4096 = 0 \<and> unat r div 4096 < npages (g_mm s) \<and>
       avail (g_mm s) (unat r div 4096) \<and> \<not> avail m' (unat r div 4096)"
    using kernel_page_alloc [OF mm] by auto
  note r = page [rule_format]
  have shrink: "pt_owned own (s\<lparr>g_mm := m'\<rparr>)"
    using own m'(3) m'(4) [rule_format] by (rule pt_owned_shrink)
  show ?thesis
  proof (cases "r = 0")
    case True
    then have "get_or_create tbl i 0 s = Ret (0, s\<lparr>g_mm := m'\<rparr>)"
      using alloc by (simp add: get_or_create_def pt_alloc_page_table_def on_mm_def)
    moreover have "grown own s own (s\<lparr>g_mm := m'\<rparr>)"
      using shrink m' by (simp add: grown_def)
    ultimately show ?thesis using missing by auto
  next
    case nz: False
    define e where "e = r OR TABLE_FLAGS"
    define t where "t = pt_set_entry tbl i e (s\<lparr>g_mm := m', pt_mem := (pt_mem s)(r := \<lambda>_. 0)\<rparr>)"
    define own' where "own' = own(r := Some (d, p @ [i]))"
    have tbl: "tbl \<noteq> 0" "\<not> avail (g_mm s) (unat tbl div 4096)" using pt_ownedD(2) [OF own parent(1)] by auto
    have fresh: "own r = None"
    proof (cases "own r")
      case (Some k)
      then obtain d' p' where "own r = Some (d', p')" by (cases k) simp
      from pt_ownedD(2) [OF own this] r [OF nz] show ?thesis by simp
    qed simp
    then have tr: "tbl \<noteq> r" using parent(1) by auto
    have "unat r < 2 ^ 52"
      using mult_div_mod_eq [of 4096 "unat r"] r [OF nz] mm(1)
      by (simp add: mm_ok_def MAX_PAGES_def)
    then have addr: "PTE_GET_ADDRESS e = r"
      using r [OF nz] by (auto simp: e_def intro: table_entry_address)
    have present: "e AND PT_FLAG_PRESENT \<noteq> 0" unfolding e_def by (rule table_entry_present)
    have mem: "pt_mem t = ((pt_mem s)(r := \<lambda>_. 0))(tbl := (pt_mem s tbl)(i := e))"
      using tbl parent(3) tr by (simp add: t_def pt_set_entry_def)
    have state: "t = s\<lparr>g_mm := m', pt_mem := pt_mem t\<rparr>" "g_mm t = m'" "g_tables t = g_tables s"
      using tbl parent(3) by (simp_all add: t_def pt_set_entry_def)
    have nt: "next_table (pt_mem t) tbl i = r"
      using present addr tbl by (simp add: next_table_def mem)
    have "get_or_create tbl i 0 s = Ret (r, t)"
      using alloc nz by (simp add: get_or_create_def pt_alloc_page_table_def on_mm_def t_def e_def)
    moreover have "pt_owned own' t"
      unfolding pt_owned_def
    proof (intro conjI allI impI)
      show "own' (pml4 (g_tables t d0)) = Some (d0, [])"
        if "d0 < MAX_DOMAINS" "pml4 (g_tables t d0) \<noteq> 0" for d0
        using pt_ownedD(1) [OF own that(1)] that(2) fresh by (auto simp: own'_def state(3))
      show "x \<noteq> 0" "unat x mod 4096 = 0" "unat x div 4096 < npages (g_mm t)"
          "\<not> avail (g_mm t) (unat x div 4096)" if "own' x = Some (d0, p0)" for x d0 p0
        using that pt_ownedD(2) [OF shrink, of x] r [OF nz] nz m'(3)
        by (auto simp: own'_def state(2) split: if_splits)
      show "own' (PTE_GET_ADDRESS (pt_mem t x j)) = Some (d0, p0 @ [j])"
        if "own' x = Some (d0, p0)" "length p0 < 3" "j < 512" "pt_mem t x j AND PT_FLAG_PRESENT \<noteq> 0"
        for x d0 p0 j
      proof (cases "x = r \<or> x = tbl \<and> j = i")
        case True
        then show ?thesis using that parent(1) addr tr by (auto simp: own'_def mem)
      next
        case False
        then have "own x = Some (d0, p0)" "pt_mem t x j = pt_mem s x j"
          using that(1) by (auto simp: own'_def mem)
        with pt_ownedD(3) [OF own, of x d0 p0 j] that(2-4) fresh show ?thesis
          by (auto simp: own'_def)
      qed
    qed
    moreover have "next_table (pt_mem t) x j = next_table (pt_mem s) x j"
      if "own x = Some k" "next_table (pt_mem s) x j \<noteq> 0" for x k j
    proof -
      have "x \<noteq> r" "\<not> (x = tbl \<and> j = i)" using that fresh missing by auto
      then show ?thesis by (auto simp: mem next_table_def)
    qed
    moreover have "leaf (pt_mem t) x q = leaf (pt_mem s) x q"
      if "own x = Some (d0, p0)" "q \<noteq> []" "length p0 + length q = 4" "\<forall>k\<in>set q. k < 512" for x d0 p0 q
      using leaf_insert_table [OF own parent(1,2) fresh missing mem nt that] .
    ultimately have "get_or_create tbl i 0 s = Ret (r, t)" "grown own s own' t"
      "own' r = Some (d, p @ [i])"
      using m' fresh state by (auto simp: grown_def own'_def)
    with missing nt show ?thesis by auto
  qed
qed

section \<open>Mapping one page\<close>

text \<open>
  The outcome of a mapping step in domain \<open>d\<close> that wrote the entries at the index paths in
  \<open>ps\<close>: the tree stays owned and every other translation from an owned table is untouched.
\<close>

definition remapped :: "owner_map \<Rightarrow> 'z iso_state_scheme \<Rightarrow> owner_map \<Rightarrow> 'z iso_state_scheme \<Rightarrow>
    nat \<Rightarrow> nat list set \<Rightarrow> bool" where
  "remapped own s own' t d ps \<longleftrightarrow>
     t = s\<lparr>g_mm := g_mm t, pt_mem := pt_mem t\<rparr> \<and>
     pt_owned own' t \<and> mm_ok (g_mm t) \<and> mm_lock (g_mm t) = 0 \<and>
     (\<forall>x k. own x = Some k \<longrightarrow> own' x = Some k) \<and>
     (\<forall>x d0 p0 q. own x = Some (d0, p0) \<longrightarrow> q \<noteq> [] \<longrightarrow> length p0 + length q = 4 \<longrightarrow>
        (\<forall>k\<in>set q. k < 512) \<longrightarrow> \<not> (d0 = d \<and> p0 @ q \<in> ps) \<longrightarrow>
        leaf (pt_mem t) x q = leaf (pt_mem s) x q)"

lemma remappedD:
  assumes "remapped own s own' t d ps"
  shows "pt_owned own' t" "mm_ok (g_mm t)" "mm_lock (g_mm t) = 0" "own x = Some k \<Longrightarrow> own' x = Some k"
    "own x = Some (d0, p0) \<Longrightarrow> q \<noteq> [] \<Longrightarrow> length p0 + length q = 4 \<Longrightarrow> (\<forall>k\<in>set q. k < 512) \<Longrightarrow>
       \<not> (d0 = d \<and> p0 @ q \<in> ps) \<Longrightarrow> leaf (pt_mem t) x q = leaf (pt_mem s) x q"
  using assms unfolding remapped_def by blast+

lemma remapped_state: "remapped own s own' t d ps \<Longrightarrow> t = s\<lparr>g_mm := g_mm t, pt_mem := pt_mem t\<rparr>"
  unfolding remapped_def by blast

lemma remapped_fields:
  assumes "remapped own s own' t d ps"
  shows "g_tables t = g_tables s" "g_cap t = g_cap s"
  by (subst remapped_state [OF assms], simp)+

lemma grown_remapped: "grown own s own' t \<Longrightarrow> remapped own s own' t d ps"
  unfolding grown_def remapped_def by blast

lemma remapped_trans:
  assumes "remapped own s own1 t d ps" "remapped own1 t own2 u d qs"
  shows "remapped own s own2 u d (ps \<union> qs)"
  unfolding remapped_def
proof (intro conjI allI impI)
  have "u = t\<lparr>g_mm := g_mm u, pt_mem := pt_mem u\<rparr>" by (rule remapped_state [OF assms(2)])
  also have "\<dots> = (s\<lparr>g_mm := g_mm t, pt_mem := pt_mem t\<rparr>)\<lparr>g_mm := g_mm u, pt_mem := pt_mem u\<rparr>"
    by (subst remapped_state [OF assms(1)]) simp
  finally show "u = s\<lparr>g_mm := g_mm u, pt_mem := pt_mem u\<rparr>" by simp
  show "pt_owned own2 u" "mm_ok (g_mm u)" "mm_lock (g_mm u) = 0" using remappedD(1-3) [OF assms(2)] .
  show "own2 x = Some k" if "own x = Some k" for x k
    using that remappedD(4) [OF assms(1)] remappedD(4) [OF assms(2)] by blast
  show "leaf (pt_mem u) x q = leaf (pt_mem s) x q"
    if "own x = Some (d0, p0)" "q \<noteq> []" "length p0 + length q = 4" "\<forall>k\<in>set q. k < 512"
      "\<not> (d0 = d \<and> p0 @ q \<in> ps \<union> qs)" for x d0 p0 q
    using remappedD(5) [OF assms(1) that(1-4)] that(5)
      remappedD(5) [OF assms(2) remappedD(4) [OF assms(1) that(1)] that(2-4)] by simp
qed

lemma write_entry_remapped:
  assumes "pt_owned own s" "mm_ok (g_mm s)" "mm_lock (g_mm s) = 0"
    and "own pt = Some (d, p)" "length p = 3" "i < 512"
  shows "remapped own s own (pt_set_entry pt i e s) d {p @ [i]}"
proof -
  have pt: "pt \<noteq> 0" using pt_ownedD(2) [OF assms(1,4)] by simp
  have mem: "pt_mem (pt_set_entry pt i e s) = (pt_mem s)(pt := (pt_mem s pt)(i := e))"
    using pt assms(6) by (simp add: pt_set_entry_def)
  have "pt_owned own (pt_set_entry pt i e s)"
    unfolding pt_owned_def
  proof (intro conjI allI impI)
    show "own (PTE_GET_ADDRESS (pt_mem (pt_set_entry pt i e s) x j)) = Some (d0, p0 @ [j])"
      if "own x = Some (d0, p0)" "length p0 < 3" "j < 512"
        "pt_mem (pt_set_entry pt i e s) x j AND PT_FLAG_PRESENT \<noteq> 0" for x d0 p0 j
    proof -
      have "x \<noteq> pt" using that(1,2) assms(4,5) by auto
      then show ?thesis using pt_ownedD(3) [OF assms(1) that(1-3)] that(4) by (simp add: mem)
    qed
  qed (use pt_ownedD(1,2) [OF assms(1)] in \<open>auto simp: pt_set_entry_def\<close>)
  moreover have "leaf (pt_mem (pt_set_entry pt i e s)) x q = leaf (pt_mem s) x q"
    if "own x = Some (d0, p0)" "q \<noteq> []" "length p0 + length q = 4" "\<forall>k\<in>set q. k < 512"
      "\<not> (d0 = d \<and> p0 @ q \<in> {p @ [i]})" for x d0 p0 q
    using leaf_write_entry [OF assms(1,4,5) mem that(1-4)] that(5) by auto
  ultimately show ?thesis
    using assms(2,3) by (auto simp: remapped_def pt_set_entry_def)
qed

lemma map_page_remapped:
  assumes own: "pt_owned own s" and mm: "mm_ok (g_mm s)" "mm_lock (g_mm s) = 0"
    and root: "own root = Some (d, [])"
  shows "\<exists>r t own'. map_page root v p fl s = Ret (r, t) \<and>
    (r = -1 \<and> remapped own s own' t d {} \<or>
     r = 0 \<and> remapped own s own' t d {path v} \<and> leaf (pt_mem t) root (path v) = p OR fl)"
proof -
  obtain r1 s1 own1 where 1: "get_or_create root (PML4_INDEX v) (pt_walk_get_pdpt root v s) s = Ret (r1, s1)"
    "grown own s own1 s1" "r1 \<noteq> 0 \<longrightarrow> own1 r1 = Some (d, [PML4_INDEX v]) \<and>
       next_table (pt_mem s1) root (PML4_INDEX v) = r1"
    using get_or_create_grown [OF own mm root, of "PML4_INDEX v"] by (auto simp: walk_next)
  show ?thesis
  proof (cases "r1 = 0")
    case True
    with 1 show ?thesis by (auto simp: map_page_def dest: grown_remapped)
  next
    case nz1: False
    note g1 = grownD [OF 1(2)]
    obtain r2 s2 own2 where 2: "get_or_create r1 (PDPT_INDEX v) (pt_walk_get_pd r1 v s1) s1 = Ret (r2, s2)"
      "grown own1 s1 own2 s2" "r2 \<noteq> 0 \<longrightarrow> own2 r2 = Some (d, [PML4_INDEX v, PDPT_INDEX v]) \<and>
         next_table (pt_mem s2) r1 (PDPT_INDEX v) = r2"
      using get_or_create_grown [OF g1(1-3), of r1 d "[PML4_INDEX v]" "PDPT_INDEX v"] 1(3) nz1
      by (auto simp: walk_next)
    note g2 = grownD [OF 2(2)]
    have t02: "grown own s own2 s2" by (rule grown_trans [OF 1(2) 2(2)])
    show ?thesis
    proof (cases "r2 = 0")
      case True
      with 1 2 nz1 t02 show ?thesis by (auto simp: map_page_def dest: grown_remapped)
    next
      case nz2: False
      obtain r3 s3 own3 where 3: "get_or_create r2 (PD_INDEX v) (pt_walk_get_pt r2 v s2) s2 = Ret (r3, s3)"
        "grown own2 s2 own3 s3"
        "r3 \<noteq> 0 \<longrightarrow> own3 r3 = Some (d, [PML4_INDEX v, PDPT_INDEX v, PD_INDEX v]) \<and>
           next_table (pt_mem s3) r2 (PD_INDEX v) = r3"
        using get_or_create_grown [OF g2(1-3), of r2 d "[PML4_INDEX v, PDPT_INDEX v]" "PD_INDEX v"] 2(3) nz2
        by (auto simp: walk_next)
      note g3 = grownD [OF 3(2)]
      have t03: "grown own s own3 s3" by (rule grown_trans [OF t02 3(2)])
      show ?thesis
      proof (cases "r3 = 0")
        case True
        with 1 2 3 nz1 nz2 t03 show ?thesis by (auto simp: map_page_def dest: grown_remapped)
      next
        case nz3: False
        define t where "t = pt_set_entry r3 (PT_INDEX v) (p OR fl) s3"
        have own3: "own3 r3 = Some (d, [PML4_INDEX v, PDPT_INDEX v, PD_INDEX v])" using 3(3) nz3 by simp
        have ret: "map_page root v p fl s = Ret (0, t)"
          using 1(1) 2(1) 3(1) nz1 nz2 nz3 by (simp add: map_page_def t_def)
        have w: "remapped own3 s3 own3 t d {path v}"
          using write_entry_remapped [OF g3(1-3) own3, of "PT_INDEX v" "p OR fl"]
          by (simp add: t_def path_def)
        have rem: "remapped own s own3 t d {path v}"
          using remapped_trans [OF grown_remapped [OF t03, of d "{}"] w] by simp
        have o1: "own1 r1 = Some (d, [PML4_INDEX v])" "own1 root = Some (d, [])"
          using 1(3) nz1 g1(4) [OF root] by auto
        have o2: "own2 r2 = Some (d, [PML4_INDEX v, PDPT_INDEX v])" "own2 root = Some (d, [])"
            "own2 r1 = Some (d, [PML4_INDEX v])"
          using 2(3) nz2 g2(4) o1 by auto
        have o3: "own3 root = Some (d, [])" "own3 r1 = Some (d, [PML4_INDEX v])"
            "own3 r2 = Some (d, [PML4_INDEX v, PDPT_INDEX v])"
          using g3(4) o2 by auto
        have links: "next_table (pt_mem s3) root (PML4_INDEX v) = r1"
            "next_table (pt_mem s3) r1 (PDPT_INDEX v) = r2" "next_table (pt_mem s3) r2 (PD_INDEX v) = r3"
          using 1(3) 2(3) 3(3) nz1 nz2 nz3 g2(5) [OF o1(2), of "PML4_INDEX v"]
            g3(5) [OF o2(2), of "PML4_INDEX v"] g3(5) [OF o2(3), of "PDPT_INDEX v"] by auto
        have mem: "pt_mem t = (pt_mem s3)(r3 := (pt_mem s3 r3)(PT_INDEX v := p OR fl))"
          using nz3 by (simp add: t_def pt_set_entry_def)
        have keep: "next_table (pt_mem t) x j = next_table (pt_mem s3) x j" if "x \<noteq> r3" for x j
          using that by (simp add: mem next_table_def)
        have "root \<noteq> r3" "r1 \<noteq> r3" "r2 \<noteq> r3" using o3 own3 by auto
        then have "leaf (pt_mem t) root (path v) = p OR fl"
          using nz3 links by (simp add: path_def keep) (simp add: mem)
        with ret rem show ?thesis by blast
      qed
    qed
  qed
qed

section \<open>Mapping a range\<close>

lemma vpage_offset:
  assumes "i < 2 ^ 52"
  shows "vpage (v + of_nat i * PAGE_SIZE) = (vpage v + i) mod 2 ^ 36"
proof -
  have "unat (v + of_nat i * PAGE_SIZE) = (unat v + i * 4096) mod 2 ^ 64"
    using unat_word_ariths(1) [of v "of_nat i * PAGE_SIZE"] unat_page_addr [OF assms] by simp
  then have "unat (v + of_nat i * PAGE_SIZE) div 4096 mod 2 ^ 36 =
      (unat v + i * 4096) mod (4096 * 2 ^ 52) div 4096 mod 2 ^ 36" by simp
  also have "(unat v + i * 4096) mod (4096 * 2 ^ 52) div 4096 = (unat v + i * 4096) div 4096 mod 2 ^ 52"
    by (simp only: mod_mult2_eq)
  also have "(unat v + i * 4096) div 4096 mod 2 ^ 52 mod 2 ^ 36 = (unat v div 4096 + i) mod 2 ^ 36"
    by (simp add: mod_mod_cancel) (simp only: add.commute)
  finally show ?thesis unfolding vpage_def by (simp only: mod_add_left_eq)
qed

lemma vpage_distinct:
  assumes "i < 2 ^ 36" "j < 2 ^ 36" "vpage (v + of_nat i * PAGE_SIZE) = vpage (v + of_nat j * PAGE_SIZE)"
  shows "i = j"
proof -
  have "i < 2 ^ 52" "j < 2 ^ 52" using assms(1,2) by simp_all
  then have "(vpage v + i) mod 2 ^ 36 = (vpage v + j) mod 2 ^ 36"
    using assms(3) by (simp only: vpage_offset)
  then show ?thesis using assms(1,2) by (rule mod_add_cancel_nat)
qed

definition page_paths :: "u64 \<Rightarrow> nat \<Rightarrow> nat \<Rightarrow> nat list set" where
  "page_paths v i n = (\<lambda>k. path (v + of_nat k * PAGE_SIZE)) ` {i..<i + n}"

lemma page_paths_0 [simp]: "page_paths v i 0 = {}"
  by (simp add: page_paths_def)

lemma page_paths_Suc:
  "page_paths v i (Suc n) = {path (v + of_nat i * PAGE_SIZE)} \<union> page_paths v (Suc i) n"
proof -
  have "{i..<i + Suc n} = insert i {Suc i..<Suc i + n}" by auto
  then show ?thesis unfolding page_paths_def by (simp only: image_insert insert_is_Un [symmetric])
qed

lemma path_bounded: "k \<in> set (path v) \<Longrightarrow> k < 512"
  by (auto simp: path_def)

lemma path_props [simp]: "path v \<noteq> []" "length (path v) = 4"
  by (simp_all add: path_def)

lemma leaf_remapped_root:
  assumes "remapped own s own' t d ps" "own root = Some (d0, [])" "\<not> (d0 = d \<and> path w \<in> ps)"
  shows "leaf (pt_mem t) root (path w) = leaf (pt_mem s) root (path w)"
  using remappedD(5) [OF assms(1,2), of "path w"] assms(3) path_bounded by auto

lemma map_pages_remapped:
  assumes "pt_owned own s" "mm_ok (g_mm s)" "mm_lock (g_mm s) = 0" "own root = Some (d, [])"
    "i + n \<le> 2 ^ 36"
  shows "\<exists>r t own'. map_pages n i root v p fl s = Ret (r, t) \<and>
    (r = 0 \<or> r = -1) \<and> remapped own s own' t d (page_paths v i n) \<and>
    (r = 0 \<longrightarrow> (\<forall>k. i \<le> k \<and> k < i + n \<longrightarrow>
       leaf (pt_mem t) root (path (v + of_nat k * PAGE_SIZE)) = (p + of_nat k * PAGE_SIZE) OR fl))"
  using assms
proof (induction n arbitrary: i s own)
  case 0
  show ?case using grown_remapped [OF grown_refl [OF 0(1-3)], of d "{}"] by auto
next
  case (Suc n)
  let ?v = "v + of_nat i * PAGE_SIZE" and ?p = "p + of_nat i * PAGE_SIZE"
  obtain r t own1 where page: "map_page root ?v ?p fl s = Ret (r, t)" and
    cases: "r = -1 \<and> remapped own s own1 t d {} \<or>
      r = 0 \<and> remapped own s own1 t d {path ?v} \<and> leaf (pt_mem t) root (path ?v) = ?p OR fl"
    using map_page_remapped [OF Suc.prems(1-4), of ?v ?p fl] by blast
  from cases show ?case
  proof (elim disjE conjE)
    assume r: "r = -1" and rem: "remapped own s own1 t d {}"
    have "remapped own s own1 t d (page_paths v i (Suc n))"
      using rem unfolding remapped_def by auto
    with page r show ?thesis by auto
  next
    assume r: "r = 0" and rem: "remapped own s own1 t d {path ?v}"
      and wrote: "leaf (pt_mem t) root (path ?v) = ?p OR fl"
    have root: "own1 root = Some (d, [])" using remappedD(4) [OF rem] Suc.prems(4) by blast
    obtain r' u own2 where rest: "map_pages n (Suc i) root v p fl t = Ret (r', u)" "r' = 0 \<or> r' = -1"
      "remapped own1 t own2 u d (page_paths v (Suc i) n)"
      "r' = 0 \<longrightarrow> (\<forall>k. Suc i \<le> k \<and> k < Suc i + n \<longrightarrow>
         leaf (pt_mem u) root (path (v + of_nat k * PAGE_SIZE)) = (p + of_nat k * PAGE_SIZE) OR fl)"
      using Suc.IH [OF remappedD(1-3) [OF rem] root, of "Suc i"] Suc.prems(5) by auto
    have "path ?v \<notin> page_paths v (Suc i) n"
    proof
      assume "path ?v \<in> page_paths v (Suc i) n"
      then obtain k where k: "Suc i \<le> k" "k < Suc i + n" "vpage ?v = vpage (v + of_nat k * PAGE_SIZE)"
        by (auto simp: page_paths_def path_vpage)
      then have "i = k" using Suc.prems(5) by (intro vpage_distinct [of i k v]) auto
      with k(1) show False by simp
    qed
    then have "leaf (pt_mem u) root (path ?v) = ?p OR fl"
      using leaf_remapped_root [OF rest(3) root] wrote by simp
    with rest(4) have "r' = 0 \<longrightarrow> (\<forall>k. i \<le> k \<and> k < i + Suc n \<longrightarrow>
         leaf (pt_mem u) root (path (v + of_nat k * PAGE_SIZE)) = (p + of_nat k * PAGE_SIZE) OR fl)"
      by (metis Suc_leI add_Suc add_Suc_right le_eq_less_or_eq)
    moreover have "remapped own s own2 u d (page_paths v i (Suc n))"
      using remapped_trans [OF rem rest(3)] by (simp add: page_paths_Suc)
    ultimately show ?thesis using page r rest(1,2) by auto
  qed
qed

section \<open>Unmapping\<close>

lemma unmap_page_remapped:
  assumes own: "pt_owned own s" and mm: "mm_ok (g_mm s)" "mm_lock (g_mm s) = 0"
    and root: "own root = Some (d, [])"
  shows "remapped own s own (unmap_page root v s) d {path v} \<and>
    leaf (pt_mem (unmap_page root v s)) root (path v) = 0"
proof -
  define pdpt where "pdpt = next_table (pt_mem s) root (PML4_INDEX v)"
  define pd where "pd = next_table (pt_mem s) pdpt (PDPT_INDEX v)"
  define pt where "pt = next_table (pt_mem s) pd (PD_INDEX v)"
  note links = pdpt_def [symmetric] pd_def [symmetric] pt_def [symmetric]
  show ?thesis
  proof (cases "pt = 0")
    case True
    then have "unmap_page root v s = s" by (simp add: unmap_page_def walk_next Let_def links)
    moreover have "leaf (pt_mem s) root (path v) = 0" using True by (simp add: path_def links)
    ultimately show ?thesis using grown_remapped [OF grown_refl [OF own mm]] by simp
  next
    case False
    then have nz: "pd \<noteq> 0" "pdpt \<noteq> 0" by (auto simp: pt_def pd_def)
    have o1: "own pdpt = Some (d, [PML4_INDEX v])"
      using next_table_owned [OF own root, of "PML4_INDEX v"] nz(2) by (simp add: links)
    have o2: "own pd = Some (d, [PML4_INDEX v, PDPT_INDEX v])"
      using next_table_owned [OF own o1, of "PDPT_INDEX v"] nz(1) by (simp add: links)
    have o3: "own pt = Some (d, [PML4_INDEX v, PDPT_INDEX v, PD_INDEX v])"
      using next_table_owned [OF own o2, of "PD_INDEX v"] False by (simp add: links)
    let ?t = "pt_set_entry pt (PT_INDEX v) 0 s"
    have t: "unmap_page root v s = ?t" using False by (simp add: unmap_page_def walk_next Let_def links)
    have mem: "pt_mem ?t = (pt_mem s)(pt := (pt_mem s pt)(PT_INDEX v := 0))"
      using False by (simp add: pt_set_entry_def)
    have keep: "next_table (pt_mem ?t) x j = next_table (pt_mem s) x j" if "x \<noteq> pt" for x j
      using that by (simp add: mem next_table_def)
    have "root \<noteq> pt" "pdpt \<noteq> pt" "pd \<noteq> pt" using root o1 o2 o3 by auto
    then have "leaf (pt_mem ?t) root (path v) = 0"
      by (simp add: path_def keep links) (simp add: mem)
    moreover have "remapped own s own ?t d {path v}"
      using write_entry_remapped [OF own mm o3, of "PT_INDEX v" 0] by (simp add: path_def)
    ultimately show ?thesis by (simp add: t)
  qed
qed

lemma unmap_pages_remapped:
  assumes "pt_owned own s" "mm_ok (g_mm s)" "mm_lock (g_mm s) = 0" "own root = Some (d, [])"
  shows "remapped own s own (unmap_pages n i root v s) d (page_paths v i n) \<and>
    (\<forall>k. i \<le> k \<and> k < i + n \<longrightarrow>
       leaf (pt_mem (unmap_pages n i root v s)) root (path (v + of_nat k * PAGE_SIZE)) = 0)"
  using assms
proof (induction n arbitrary: i s)
  case 0
  show ?case using grown_remapped [OF grown_refl [OF 0(1-3)], of d "{}"] by auto
next
  case (Suc n)
  let ?v = "v + of_nat i * PAGE_SIZE"
  let ?t = "unmap_page root ?v s" and ?u = "unmap_pages (Suc n) i root v s"
  have page: "remapped own s own ?t d {path ?v}" "leaf (pt_mem ?t) root (path ?v) = 0"
    using unmap_page_remapped [OF Suc.prems, of ?v] by auto
  have rest: "remapped own ?t own ?u d (page_paths v (Suc i) n)"
    "\<forall>k. Suc i \<le> k \<and> k < Suc i + n \<longrightarrow> leaf (pt_mem ?u) root (path (v + of_nat k * PAGE_SIZE)) = 0"
    using Suc.IH [OF remappedD(1-3) [OF page(1)] Suc.prems(4), of "Suc i"] by auto
  have first: "leaf (pt_mem ?u) root (path ?v) = 0"
  proof (cases "path ?v \<in> page_paths v (Suc i) n")
    case True
    then obtain k where "Suc i \<le> k" "k < Suc i + n" "path ?v = path (v + of_nat k * PAGE_SIZE)"
      by (auto simp: page_paths_def)
    with rest(2) show ?thesis by simp
  next
    case False
    then show ?thesis using leaf_remapped_root [OF rest(1) Suc.prems(4)] page(2) by simp
  qed
  have "leaf (pt_mem ?u) root (path (v + of_nat k * PAGE_SIZE)) = 0" if "i \<le> k \<and> k < i + Suc n" for k
    using that rest(2) first by (cases "k = i") auto
  moreover have "remapped own s own ?u d (page_paths v i (Suc n))"
    using remapped_trans [OF page(1) rest(1)] by (simp add: page_paths_Suc)
  ultimately show ?case by blast
qed

section \<open>Verification\<close>

lemma verify_pages_eq:
  "verify_pages n i root v acc s =
     (if \<forall>k. i \<le> k \<and> k < i + n \<longrightarrow> page_allows acc (pt_walk_get_pte root (v + of_nat k * PAGE_SIZE) s)
      then 0 else -1)"
proof (induction n arbitrary: i)
  case (Suc n)
  have "(\<forall>k. i \<le> k \<and> k < i + Suc n \<longrightarrow> P k) \<longleftrightarrow> P i \<and> (\<forall>k. Suc i \<le> k \<and> k < Suc i + n \<longrightarrow> P k)"
    for P :: "nat \<Rightarrow> bool"
    by (metis Suc_leI add_Suc add_Suc_right le_eq_less_or_eq le_refl less_add_Suc1 Suc_leD)
  then show ?case using Suc.IH [of "Suc i"] by simp
qed simp

section \<open>The operations of the interface\<close>

lemma iso_okE:
  assumes "iso_ok s"
  obtains own where "pt_owned own s" "mm_ok (g_mm s)" "mm_lock (g_mm s) = 0"
  using assms unfolding iso_ok_def by blast

lemma remapped_iso_ok: "remapped own s own' t d ps \<Longrightarrow> iso_ok t"
  unfolding remapped_def iso_ok_def by blast

lemma remapped_translate:
  assumes "pt_owned own s" "remapped own s own' t d ps" "d' < MAX_DOMAINS" "\<not> (d' = d \<and> path w \<in> ps)"
  shows "translate t d' w = translate s d' w"
proof (cases "pml4 (g_tables s d') = 0")
  case True
  then show ?thesis by (simp add: translate_def pte_leaf remapped_fields [OF assms(2)])
next
  case False
  then have "own (pml4 (g_tables s d')) = Some (d', [])" using pt_ownedD(1) [OF assms(1,3)] by simp
  from leaf_remapped_root [OF assms(2) this assms(4)] show ?thesis
    by (simp add: translate_def pte_leaf remapped_fields [OF assms(2)])
qed

text \<open>A call of \<open>isolation_map_memory\<close> that got past its checks.\<close>

definition map_admitted :: "u64 \<Rightarrow> u64 \<Rightarrow> 'z iso_state_scheme \<Rightarrow> bool" where
  "map_admitted did cap_id s \<longleftrightarrow> unat did < MAX_DOMAINS \<and> pml4 (g_tables s (unat did)) \<noteq> 0 \<and>
     cap_check cap_id 1 (CAP_PERM_READ OR CAP_PERM_WRITE) (g_cap s) = Ret (0, g_cap s)"

lemma on_cap_check_Ret:
  "on_cap (cap_check c h p) s = Ret (r, t) \<Longrightarrow> t = s \<and> cap_check c h p (g_cap s) = Ret (r, g_cap s)"
  by (auto simp: outcome_simps dest: cap_check_pure)

lemma isolation_map_cases:
  assumes "isolation_map_memory did v p sz ty cap s = Ret (r, t)"
  shows "(\<not> map_admitted did cap s \<and> r = -1 \<and> t = s) \<or>
    (map_admitted did cap s \<and>
     map_pages (unat (pages_for sz)) 0 (pml4 (g_tables s (unat did))) v p (map_flags ty) s = Ret (r, t))"
proof (cases "MAX_DOMAINS \<le> unat did")
  case True
  with assms show ?thesis by (simp add: isolation_map_memory_def map_admitted_def)
next
  case False
  with assms obtain rc s1 where rc: "on_cap (cap_check cap 1 (CAP_PERM_READ OR CAP_PERM_WRITE)) s = Ret (rc, s1)"
    by (auto simp: isolation_map_memory_def bindR_eq_Ret_iff)
  note check = on_cap_check_Ret [OF rc]
  with False assms rc show ?thesis
    by (auto simp: isolation_map_memory_def map_admitted_def split: if_splits)
qed

lemma isolation_map_remapped:
  assumes "iso_ok s" "isolation_map_memory did v p sz ty cap s = Ret (r, t)" "unat (pages_for sz) \<le> 2 ^ 36"
  shows "\<exists>own own'. pt_owned own s \<and>
    remapped own s own' t (unat did) (page_paths v 0 (unat (pages_for sz))) \<and>
    (r = 0 \<longrightarrow> (\<forall>k<unat (pages_for sz).
       translate t (unat did) (v + of_nat k * PAGE_SIZE) = (p + of_nat k * PAGE_SIZE) OR map_flags ty))"
proof -
  from assms(1) obtain own where own: "pt_owned own s" "mm_ok (g_mm s)" "mm_lock (g_mm s) = 0"
    by (rule iso_okE)
  from isolation_map_cases [OF assms(2)] show ?thesis
  proof (elim disjE conjE)
    assume "r = -1" "t = s"
    with grown_remapped [OF grown_refl [OF own]] own show ?thesis by auto
  next
    assume adm: "map_admitted did cap s" and
      pages: "map_pages (unat (pages_for sz)) 0 (pml4 (g_tables s (unat did))) v p (map_flags ty) s = Ret (r, t)"
    have root: "own (pml4 (g_tables s (unat did))) = Some (unat did, [])"
      using adm by (intro pt_ownedD(1) [OF own(1)]) (auto simp: map_admitted_def)
    obtain own' where rem: "remapped own s own' t (unat did) (page_paths v 0 (unat (pages_for sz)))"
      and mapped: "r = 0 \<longrightarrow> (\<forall>k. 0 \<le> k \<and> k < 0 + unat (pages_for sz) \<longrightarrow>
         leaf (pt_mem t) (pml4 (g_tables s (unat did))) (path (v + of_nat k * PAGE_SIZE)) =
         (p + of_nat k * PAGE_SIZE) OR map_flags ty)"
      using map_pages_remapped [OF own root, of 0 "unat (pages_for sz)" v p "map_flags ty"] assms(3) pages
      by auto
    then have "r = 0 \<longrightarrow> (\<forall>k<unat (pages_for sz).
        translate t (unat did) (v + of_nat k * PAGE_SIZE) = (p + of_nat k * PAGE_SIZE) OR map_flags ty)"
      by (simp add: translate_def pte_leaf remapped_fields [OF rem])
    with own(1) rem show ?thesis by blast
  qed
qed

lemma page_paths_vpage:
  "path w \<in> page_paths v 0 n \<longleftrightarrow> (\<exists>k<n. vpage w = vpage (v + of_nat k * PAGE_SIZE))"
  by (auto simp: page_paths_def path_vpage image_iff)

section \<open>Creating and destroying a domain's tree\<close>

text \<open>Dropping the tables of one domain from the ownership map.\<close>

definition drop_domain :: "nat \<Rightarrow> owner_map \<Rightarrow> owner_map" where
  "drop_domain d own = (\<lambda>x. case own x of Some (d', p) \<Rightarrow> if d' = d then None else Some (d', p) | None \<Rightarrow> None)"

lemma drop_domain_Some: "drop_domain d own x = Some (d', p) \<longleftrightarrow> own x = Some (d', p) \<and> d' \<noteq> d"
  by (auto simp: drop_domain_def split: option.splits)

text \<open>A change of memory outside a domain's tables does not change what it sees.\<close>

lemma leaf_agree:
  assumes "pt_owned own s" "\<And>x p. own x = Some (d, p) \<Longrightarrow> m' x = pt_mem s x"
  shows "own t = Some (d, p) \<Longrightarrow> q \<noteq> [] \<Longrightarrow> length p + length q = 4 \<Longrightarrow> \<forall>k\<in>set q. k < 512 \<Longrightarrow>
    leaf m' t q = leaf (pt_mem s) t q"
proof (induction q arbitrary: t p)
  case (Cons j q)
  have same: "m' t = pt_mem s t" using assms(2) Cons.prems(1) .
  show ?case
  proof (cases "q = []")
    case False
    then have len: "length p < 3" using Cons.prems(3) by (cases q) auto
    have nt: "next_table m' t j = next_table (pt_mem s) t j" by (simp add: next_table_def same)
    show ?thesis
    proof (cases "next_table (pt_mem s) t j = 0")
      case nz: False
      with Cons.prems(4) have "own (next_table (pt_mem s) t j) = Some (d, p @ [j])"
        by (intro next_table_owned [OF assms(1) Cons.prems(1) len]) auto
      then have "leaf m' (next_table (pt_mem s) t j) q = leaf (pt_mem s) (next_table (pt_mem s) t j) q"
        using Cons.prems(3,4) False by (intro Cons.IH [of _ "p @ [j]"]) auto
      with nt False show ?thesis by (simp add: leaf_Cons)
    qed (use nt False in \<open>simp add: leaf_Cons\<close>)
  qed (simp add: same)
qed simp

lemma translate_agree:
  assumes "pt_owned own s" "d < MAX_DOMAINS" "pml4 (g_tables t d) = pml4 (g_tables s d)"
    "\<And>x p. own x = Some (d, p) \<Longrightarrow> pt_mem t x = pt_mem s x"
  shows "translate t d w = translate s d w"
proof (cases "pml4 (g_tables s d) = 0")
  case True
  then show ?thesis by (simp add: translate_def pte_leaf assms(3))
next
  case False
  then have "own (pml4 (g_tables s d)) = Some (d, [])" using pt_ownedD(1) [OF assms(1,2)] by simp
  from leaf_agree [where m' = "pt_mem t" and q = "path w", OF assms(1,4) this] show ?thesis
    using path_bounded by (auto simp: translate_def pte_leaf assms(3))
qed

lemma create_tables_ok:
  assumes "iso_ok s" "isolation_create_page_tables did fl s = Ret (r, t)"
  shows "iso_ok t \<and> (\<forall>d<MAX_DOMAINS. d \<noteq> unat did \<longrightarrow> (\<forall>w. translate t d w = translate s d w)) \<and>
    (r = 0 \<longrightarrow> (\<forall>w. translate t (unat did) w = 0))"
proof -
  from assms(1) obtain own where own: "pt_owned own s" "mm_ok (g_mm s)" "mm_lock (g_mm s) = 0"
    by (rule iso_okE)
  show ?thesis
  proof (cases "MAX_DOMAINS \<le> unat did")
    case True
    with assms show ?thesis by (simp add: isolation_create_page_tables_def)
  next
    case did: False
    obtain p m' where alloc: "mm_alloc PAGE_SIZE PAGE_SIZE MEM_TYPE_KERNEL 0 (g_mm s) = Ret (p, m')"
      and m': "mm_ok m'" "mm_lock m' = 0" "npages m' = npages (g_mm s)"
        "\<forall>q. avail m' q \<longrightarrow> avail (g_mm s) q"
      and page: "p \<noteq> 0 \<longrightarrow> unat p mod 4096 = 0 \<and> unat p div 4096 < npages (g_mm s) \<and>
         avail (g_mm s) (unat p div 4096) \<and> \<not> avail m' (unat p div 4096)"
      using kernel_page_alloc [OF own(2,3)] by auto
    note pg = page [rule_format]
    have shrink: "pt_owned own (s\<lparr>g_mm := m'\<rparr>)"
      using own(1) m'(3) m'(4) [rule_format] by (rule pt_owned_shrink)
    show ?thesis
    proof (cases "p = 0")
      case True
      then have "r = -1" "t = s\<lparr>g_mm := m'\<rparr>"
        using assms(2) did alloc
        by (simp_all add: isolation_create_page_tables_def pt_alloc_page_table_def on_mm_def)
      then show ?thesis
        using shrink m' by (auto simp: iso_ok_def translate_def pte_leaf)
    next
      case nz: False
      have r: "r = 0" and t: "t = put_table (unat did) \<lparr>pml4 = p, dpt_domain_id = did,
          dpt_capabilities = 0, dpt_flags = fl\<rparr> (s\<lparr>g_mm := m', pt_mem := (pt_mem s)(p := \<lambda>_. 0)\<rparr>)"
        using assms(2) did nz alloc
        by (auto simp: isolation_create_page_tables_def pt_alloc_page_table_def on_mm_def)
      have fresh: "own p = None"
      proof (cases "own p")
        case (Some k)
        then obtain d' p' where "own p = Some (d', p')" by (cases k) simp
        from pt_ownedD(2) [OF own(1) this] pg [OF nz] show ?thesis by simp
      qed simp
      define own' where "own' = (drop_domain (unat did) own)(p := Some (unat did, []))"
      have "pt_owned own' t"
        unfolding pt_owned_def
      proof (intro conjI allI impI)
        show "own' (pml4 (g_tables t d)) = Some (d, [])"
          if "d < MAX_DOMAINS" "pml4 (g_tables t d) \<noteq> 0" for d
        proof (cases "d = unat did")
          case False
          then have "own (pml4 (g_tables s d)) = Some (d, [])"
            using that by (intro pt_ownedD(1) [OF own(1)]) (auto simp: t put_table_def)
          with False fresh show ?thesis by (auto simp: own'_def t put_table_def drop_domain_def)
        qed (simp add: own'_def t put_table_def)
        show "x \<noteq> 0" "unat x mod 4096 = 0" "unat x div 4096 < npages (g_mm t)"
          "\<not> avail (g_mm t) (unat x div 4096)" if "own' x = Some (d0, p0)" for x d0 p0
          using that pt_ownedD(2) [OF shrink, of x] pg [OF nz] nz m'(3)
          by (auto simp: own'_def t put_table_def drop_domain_Some split: if_splits)
        show "own' (PTE_GET_ADDRESS (pt_mem t x j)) = Some (d0, p0 @ [j])"
          if "own' x = Some (d0, p0)" "length p0 < 3" "j < 512" "pt_mem t x j AND PT_FLAG_PRESENT \<noteq> 0"
          for x d0 p0 j
        proof (cases "x = p")
          case False
          then have "own x = Some (d0, p0)" "d0 \<noteq> unat did" "pt_mem t x j = pt_mem s x j"
            using that(1) by (auto simp: own'_def t put_table_def drop_domain_Some)
          with pt_ownedD(3) [OF own(1), of x d0 p0 j] that(2-4) fresh show ?thesis
            by (auto simp: own'_def drop_domain_def)
        qed (use that(4) in \<open>simp add: t put_table_def\<close>)
      qed
      then have "iso_ok t" using m' by (auto simp: iso_ok_def t put_table_def)
      moreover have "translate t d w = translate s d w" if "d < MAX_DOMAINS" "d \<noteq> unat did" for d w
        using that fresh
        by (intro translate_agree [OF own(1)]) (auto simp: t put_table_def)
      moreover have "translate t (unat did) w = 0" for w
        by (simp add: translate_def pte_leaf t put_table_def path_def next_table_def)
      ultimately show ?thesis by blast
    qed
  qed
qed

lemma destroy_tables_ok:
  assumes "iso_ok s" "isolation_destroy_page_tables did s = Ret (r, t)"
  shows "iso_ok t \<and> (\<forall>d<MAX_DOMAINS. d \<noteq> unat did \<longrightarrow> (\<forall>w. translate t d w = translate s d w)) \<and>
    (r = 0 \<longrightarrow> (\<forall>w. translate t (unat did) w = 0))"
proof (cases "MAX_DOMAINS \<le> unat did \<or> pml4 (g_tables s (unat did)) = 0")
  case True
  then have "r = -1 \<and> t = s"
    using assms(2) by (auto simp: isolation_destroy_page_tables_def split: if_splits)
  with assms(1) show ?thesis by simp
next
  case False
  from assms(1) obtain own where own: "pt_owned own s" "mm_ok (g_mm s)" "mm_lock (g_mm s) = 0"
    by (rule iso_okE)
  let ?p = "pml4 (g_tables s (unat did))"
  have root: "own ?p = Some (unat did, [])" using False by (intro pt_ownedD(1) [OF own(1)]) auto
  obtain rc m' where free: "mm_free ?p (g_mm s) = Ret (rc, m')"
    and r: "r = 0" and t: "t = put_table (unat did) zero_dpt (s\<lparr>g_mm := m'\<rparr>)"
    using assms(2) False
    by (auto simp: isolation_destroy_page_tables_def pt_free_page_table_def outcome_simps)
  have m': "mm_lock m' = 0" "total_pages m' = total_pages (g_mm s)"
    "\<And>q. avail m' q \<Longrightarrow> q \<noteq> unat ?p div 4096 \<Longrightarrow> avail (g_mm s) q"
    using free own(3)
    by (auto simp: mm_free_def outcome_simps Let_def avail_def unat_div_PAGE_SIZE split: if_splits)
  then have np: "npages m' = npages (g_mm s)" "mm_ok m'" using own(2) by (simp_all add: npages_def mm_ok_def)
  have other: "unat x div 4096 \<noteq> unat ?p div 4096" if "own x = Some (d, q)" "d \<noteq> unat did" for x d q
  proof
    assume "unat x div 4096 = unat ?p div 4096"
    then have "unat x = unat ?p"
      using pt_ownedD(2) [OF own(1) that(1)] pt_ownedD(2) [OF own(1) root]
      by (metis mult_div_mod_eq)
    then have "x = ?p" by (simp only: word_unat_eq_iff)
    with that root show False by simp
  qed
  let ?own = "drop_domain (unat did) own"
  have "pt_owned ?own t"
    unfolding pt_owned_def
  proof (intro conjI allI impI)
    show "?own (pml4 (g_tables t d)) = Some (d, [])"
      if "d < MAX_DOMAINS" "pml4 (g_tables t d) \<noteq> 0" for d
      using that pt_ownedD(1) [OF own(1), of d]
      by (auto simp: t put_table_def zero_dpt_def drop_domain_Some split: if_splits)
    show "x \<noteq> 0" "unat x mod 4096 = 0" "unat x div 4096 < npages (g_mm t)"
        "\<not> avail (g_mm t) (unat x div 4096)" if "?own x = Some (d0, p0)" for x d0 p0
      using that pt_ownedD(2) [OF own(1), of x d0 p0] other [of x d0 p0] m'(3) np(1)
      by (auto simp: t put_table_def drop_domain_Some)
    show "?own (PTE_GET_ADDRESS (pt_mem t x j)) = Some (d0, p0 @ [j])"
      if "?own x = Some (d0, p0)" "length p0 < 3" "j < 512" "pt_mem t x j AND PT_FLAG_PRESENT \<noteq> 0"
      for x d0 p0 j
      using that pt_ownedD(3) [OF own(1), of x d0 p0 j] by (auto simp: drop_domain_Some t put_table_def)
  qed
  then have "iso_ok t" using m'(1) np by (auto simp: iso_ok_def t put_table_def)
  moreover have "translate t d w = translate s d w" if "d < MAX_DOMAINS" "d \<noteq> unat did" for d w
    using that by (intro translate_agree [OF own(1)]) (auto simp: t put_table_def)
  moreover have "translate t (unat did) w = 0" for w
    by (simp add: translate_def pte_leaf t put_table_def zero_dpt_def)
  ultimately show ?thesis by blast
qed

section \<open>A sample machine\<close>

text \<open>Domains 1 and 2 have empty trees with roots in pages 6 and 7; pages 1 to 5 are free.\<close>

definition sample_iso :: iso_state where
  "sample_iso = \<lparr>g_mm = sample_mm, g_cap = sample_caps, g_irq = g_irq sample_irq,
     g_tables = (\<lambda>_. zero_dpt)(1 := zero_dpt\<lparr>pml4 := 0x6000, dpt_domain_id := 1\<rparr>,
                               2 := zero_dpt\<lparr>pml4 := 0x7000, dpt_domain_id := 2\<rparr>),
     g_gates = \<lparr>gates = (\<lambda>_. zero_gate), num_gates = 0, gate_lock = 0\<rparr>,
     pt_mem = (\<lambda>_ _. 0), tlb_log = []\<rparr>"

lemma sample_iso_simps [simp]:
  "g_mm sample_iso = sample_mm" "g_cap sample_iso = sample_caps"
  "pml4 (g_tables sample_iso (Suc 0)) = 0x6000" "pml4 (g_tables sample_iso 2) = 0x7000"
  "pt_mem sample_iso t i = 0" "tlb_log sample_iso = []"
  "num_gates (g_gates sample_iso) = 0" "gate_lock (g_gates sample_iso) = 0"
  by (simp_all add: sample_iso_def)

lemma sample_iso_ok: "iso_ok sample_iso"
proof -
  have "pt_owned [0x6000 \<mapsto> (1, []), 0x7000 \<mapsto> (2, [])] sample_iso"
    unfolding pt_owned_def by (auto simp: sample_iso_def zero_dpt_def split: if_splits)
  then show ?thesis by (auto simp: iso_ok_def)
qed

lemma sample_alloc:
  fixes k :: nat
  assumes "1 \<le> k" "k \<le> 5" "m = alloc_at MEM_TYPE_KERNEL 0 1 (k - 1) sample_mm"
  shows "mm_alloc PAGE_SIZE PAGE_SIZE MEM_TYPE_KERNEL 0 m =
    Ret (of_nat k * PAGE_SIZE, alloc_at MEM_TYPE_KERNEL 0 k 1 m)"
proof -
  have av: "avail m p \<longleftrightarrow> k \<le> p \<and> p \<le> 5" for p
    using assms(1) by (auto simp: assms(3) avail_alloc_at)
  have "first_fit m 1 = Some k"
    unfolding first_fit_def
    by (rule first_from_SomeI) (use assms av in \<open>auto simp: run_def\<close>)
  then show ?thesis
    using mm_alloc_first_fit_eq [of m PAGE_SIZE PAGE_SIZE MEM_TYPE_KERNEL 0] assms(3)
    by (simp add: pages_for_PAGE_SIZE)
qed

lemma alloc_at_adjacent:
  "alloc_at ty ow (st + n) 1 (alloc_at ty ow st n s) = alloc_at ty ow st (Suc n) s"
  by (auto simp: alloc_at_def paint_def fun_eq_iff algebra_simps intro!: mm_state.equality)

lemma sample_allocs:
  "mm_alloc PAGE_SIZE PAGE_SIZE MEM_TYPE_KERNEL 0 sample_mm = Ret (0x1000, alloc_at MEM_TYPE_KERNEL 0 1 1 sample_mm)"
  "mm_alloc PAGE_SIZE PAGE_SIZE MEM_TYPE_KERNEL 0 (alloc_at MEM_TYPE_KERNEL 0 1 1 sample_mm) =
     Ret (0x2000, alloc_at MEM_TYPE_KERNEL 0 1 2 sample_mm)"
  "mm_alloc PAGE_SIZE PAGE_SIZE MEM_TYPE_KERNEL 0 (alloc_at MEM_TYPE_KERNEL 0 1 2 sample_mm) =
     Ret (0x3000, alloc_at MEM_TYPE_KERNEL 0 1 3 sample_mm)"
proof -
  have "alloc_at MEM_TYPE_KERNEL 0 1 0 sample_mm = sample_mm" by (simp add: alloc_at_def)
  then show "mm_alloc PAGE_SIZE PAGE_SIZE MEM_TYPE_KERNEL 0 sample_mm = Ret (0x1000, alloc_at MEM_TYPE_KERNEL 0 1 1 sample_mm)"
    using sample_alloc [of 1 sample_mm] by (simp add: PAGE_SIZE_def)
  show "mm_alloc PAGE_SIZE PAGE_SIZE MEM_TYPE_KERNEL 0 (alloc_at MEM_TYPE_KERNEL 0 1 1 sample_mm) =
     Ret (0x2000, alloc_at MEM_TYPE_KERNEL 0 1 2 sample_mm)"
    using sample_alloc [of 2 "alloc_at MEM_TYPE_KERNEL 0 1 1 sample_mm"]
      alloc_at_adjacent [of MEM_TYPE_KERNEL 0 1 1 sample_mm]
    by (simp add: PAGE_SIZE_def numeral_2_eq_2)
  show "mm_alloc PAGE_SIZE PAGE_SIZE MEM_TYPE_KERNEL 0 (alloc_at MEM_TYPE_KERNEL 0 1 2 sample_mm) =
     Ret (0x3000, alloc_at MEM_TYPE_KERNEL 0 1 3 sample_mm)"
    using sample_alloc [of 3 "alloc_at MEM_TYPE_KERNEL 0 1 2 sample_mm"]
      alloc_at_adjacent [of MEM_TYPE_KERNEL 0 1 2 sample_mm]
    by (simp add: PAGE_SIZE_def numeral_3_eq_3 numeral_2_eq_2)
qed

lemma sample_check:
  "cap_check 1 1 (CAP_PERM_READ OR CAP_PERM_WRITE) sample_caps = Ret (0, sample_caps)"
  using cap_check_eq [OF sample_caps_wf(1), of 1 1 "CAP_PERM_READ OR CAP_PERM_WRITE"]
  by (simp add: check_spec_def CAP_PERM_READ_def CAP_PERM_WRITE_def)

lemma sample_map: "\<exists>t. isolation_map_memory 1 0x400000 p 4096 ty 1 sample_iso = Ret (0, t)"
proof -
  have "on_cap (cap_check 1 1 (CAP_PERM_READ OR CAP_PERM_WRITE)) sample_iso = Ret (0, sample_iso)"
    by (rule on_cap_pure) (simp add: sample_check)
  then have "isolation_map_memory 1 0x400000 p 4096 ty 1 sample_iso =
      map_pages 1 0 0x6000 0x400000 p (map_flags ty) sample_iso"
    by (simp add: isolation_map_memory_def MAX_DOMAINS_def sample_pages)
  moreover have "\<exists>t. map_page 0x6000 0x400000 p (map_flags ty) sample_iso = Ret (0, t)"
    by (simp add: map_page_def walk_next next_table_def get_or_create_def pt_alloc_page_table_def
        on_mm_def sample_allocs [simplified] pt_set_entry_def index_eqs)
  ultimately show ?thesis by auto
qed

section \<open>Isolation of domains\<close>

text \<open>The calls that change the address space of domain \<open>d\<close>.\<close>

inductive iso_step :: "nat \<Rightarrow> 'z iso_state_scheme \<Rightarrow> 'z iso_state_scheme \<Rightarrow> bool" where
  create: "isolation_create_page_tables did fl s = Ret (r, t) \<Longrightarrow> iso_step (unat did) s t"
| destroy: "isolation_destroy_page_tables did s = Ret (r, t) \<Longrightarrow> iso_step (unat did) s t"
| map: "isolation_map_memory did v p sz ty cap s = Ret (r, t) \<Longrightarrow> unat (pages_for sz) \<le> 2 ^ 36 \<Longrightarrow>
    iso_step (unat did) s t"
| unmap: "isolation_unmap_memory did v sz s = Ret (r, t) \<Longrightarrow> iso_step (unat did) s t"

inductive iso_steps :: "nat set \<Rightarrow> 'z iso_state_scheme \<Rightarrow> 'z iso_state_scheme \<Rightarrow> bool" where
  start: "iso_steps D s s"
| call: "iso_steps D s t \<Longrightarrow> d \<in> D \<Longrightarrow> iso_step d t u \<Longrightarrow> iso_steps D s u"

lemma isolation_unmap_effect:
  assumes "iso_ok s" "isolation_unmap_memory did v sz s = Ret (r, t)"
  shows "iso_ok t"
    and "\<forall>d<MAX_DOMAINS. \<forall>w. \<not> (d = unat did \<and> r = 0 \<and>
        (\<exists>k<unat (pages_for sz). vpage w = vpage (v + of_nat k * PAGE_SIZE))) \<longrightarrow> translate t d w = translate s d w"
    and "r = 0 \<longrightarrow> (\<forall>k<unat (pages_for sz). translate t (unat did) (v + of_nat k * PAGE_SIZE) = 0) \<and>
        tlb_log t = Flush_page v # tlb_log s"
proof -
  from assms(1) obtain own where own: "pt_owned own s" "mm_ok (g_mm s)" "mm_lock (g_mm s) = 0"
    by (rule iso_okE)
  have "iso_ok t \<and>
    (\<forall>d<MAX_DOMAINS. \<forall>w. \<not> (d = unat did \<and> r = 0 \<and>
        (\<exists>k<unat (pages_for sz). vpage w = vpage (v + of_nat k * PAGE_SIZE))) \<longrightarrow> translate t d w = translate s d w) \<and>
    (r = 0 \<longrightarrow> (\<forall>k<unat (pages_for sz). translate t (unat did) (v + of_nat k * PAGE_SIZE) = 0) \<and>
        tlb_log t = Flush_page v # tlb_log s)"
  proof (cases "MAX_DOMAINS \<le> unat did \<or> pml4 (g_tables s (unat did)) = 0")
    case True
    then have "r = -1 \<and> t = s" using assms(2) by (auto simp: isolation_unmap_memory_def split: if_splits)
    with assms(1) show ?thesis by simp
  next
    case False
    let ?root = "pml4 (g_tables s (unat did))" and ?n = "unat (pages_for sz)"
    let ?u = "unmap_pages ?n 0 ?root v s"
    have t: "r = 0" "t = tlb_invalidate_page v ?u"
      using assms(2) False by (auto simp: isolation_unmap_memory_def split: if_splits)
    have root: "own ?root = Some (unat did, [])" using False by (intro pt_ownedD(1) [OF own(1)]) auto
    have rem: "remapped own s own ?u (unat did) (page_paths v 0 ?n)"
      and zero: "\<forall>k. 0 \<le> k \<and> k < 0 + ?n \<longrightarrow> leaf (pt_mem ?u) ?root (path (v + of_nat k * PAGE_SIZE)) = 0"
      using unmap_pages_remapped [OF own root, of ?n 0 v] by auto
    have log: "tlb_log ?u = tlb_log s" by (subst remapped_state [OF rem]) simp
    have same: "translate t = translate ?u"
      by (simp add: fun_eq_iff translate_def pte_leaf t(2) tlb_invalidate_page_def)
    have "iso_ok t"
      using remapped_iso_ok [OF rem] by (auto simp: iso_ok_def pt_owned_def t(2) tlb_invalidate_page_def)
    moreover have "translate ?u (unat did) (v + of_nat k * PAGE_SIZE) = 0" if "k < ?n" for k
      using zero that by (simp add: translate_def pte_leaf remapped_fields [OF rem])
    moreover have "translate ?u d w = translate s d w"
      if "d < MAX_DOMAINS" "\<not> (d = unat did \<and> (\<exists>k<?n. vpage w = vpage (v + of_nat k * PAGE_SIZE)))" for d w
      using remapped_translate [OF own(1) rem that(1), of w] that(2) by (simp add: page_paths_vpage)
    ultimately show ?thesis using t(1) log by (simp add: same) (simp add: t(2) tlb_invalidate_page_def)
  qed
  then show "iso_ok t"
    and "\<forall>d<MAX_DOMAINS. \<forall>w. \<not> (d = unat did \<and> r = 0 \<and>
        (\<exists>k<unat (pages_for sz). vpage w = vpage (v + of_nat k * PAGE_SIZE))) \<longrightarrow> translate t d w = translate s d w"
    and "r = 0 \<longrightarrow> (\<forall>k<unat (pages_for sz). translate t (unat did) (v + of_nat k * PAGE_SIZE) = 0) \<and>
        tlb_log t = Flush_page v # tlb_log s" by blast+
qed

lemma isolation_map_effect:
  assumes "iso_ok s" "isolation_map_memory did v p sz ty cap s = Ret (r, t)" "unat (pages_for sz) \<le> 2 ^ 36"
  shows "iso_ok t"
    and "\<forall>d<MAX_DOMAINS. \<forall>w. \<not> (d = unat did \<and>
        (\<exists>k<unat (pages_for sz). vpage w = vpage (v + of_nat k * PAGE_SIZE))) \<longrightarrow> translate t d w = translate s d w"
    and "r = 0 \<longrightarrow> (\<forall>k<unat (pages_for sz).
        translate t (unat did) (v + of_nat k * PAGE_SIZE) = (p + of_nat k * PAGE_SIZE) OR map_flags ty)"
proof -
  obtain own own' where own: "pt_owned own s"
    and rem: "remapped own s own' t (unat did) (page_paths v 0 (unat (pages_for sz)))"
    and val: "r = 0 \<longrightarrow> (\<forall>k<unat (pages_for sz).
        translate t (unat did) (v + of_nat k * PAGE_SIZE) = (p + of_nat k * PAGE_SIZE) OR map_flags ty)"
    using isolation_map_remapped [OF assms] by blast
  show "iso_ok t" using rem by (rule remapped_iso_ok)
  show "\<forall>d<MAX_DOMAINS. \<forall>w. \<not> (d = unat did \<and>
        (\<exists>k<unat (pages_for sz). vpage w = vpage (v + of_nat k * PAGE_SIZE))) \<longrightarrow> translate t d w = translate s d w"
    using remapped_translate [OF own rem] by (simp add: page_paths_vpage)
  show "r = 0 \<longrightarrow> (\<forall>k<unat (pages_for sz).
        translate t (unat did) (v + of_nat k * PAGE_SIZE) = (p + of_nat k * PAGE_SIZE) OR map_flags ty)" by (fact val)
qed

lemma iso_step_effect:
  assumes "iso_step d s t" "iso_ok s"
  shows "iso_ok t \<and> (\<forall>d'<MAX_DOMAINS. d' \<noteq> d \<longrightarrow> (\<forall>w. translate t d' w = translate s d' w))"
  using assms
proof (induction rule: iso_step.induct)
  case (create did fl s r t)
  then show ?case using create_tables_ok by blast
next
  case (destroy did s r t)
  then show ?case using destroy_tables_ok by blast
next
  case (map did v p sz ty cap s r t)
  then show ?case using isolation_map_effect(1,2) [OF map(3,1,2)] by blast
next
  case (unmap did v sz s r t)
  then show ?case using isolation_unmap_effect(1,2) [OF unmap(2,1)] by blast
qed

text \<open>
  C6. Domains are isolated from each other's mappings: whatever sequence of creating,
  destroying, mapping and unmapping is done to the address spaces of the domains in \<open>D\<close>,
  successful or not, every address of every domain outside \<open>D\<close> translates as before, and the
  page-table invariant is kept.
\<close>

theorem isolation_separates_domains:
  assumes "iso_steps D s t" "iso_ok s"
  shows "iso_ok t \<and> (\<forall>d w. d < MAX_DOMAINS \<and> d \<notin> D \<longrightarrow> translate t d w = translate s d w)"
  using assms
proof (induction rule: iso_steps.induct)
  case (call D s t d u)
  then show ?case using iso_step_effect [OF call(3)] by fastforce
qed simp

theorem isolation_separates_domains_witness:
  "\<exists>t. isolation_map_memory 1 0x400000 0x10000 4096 MAP_TYPE_DATA 1 sample_iso = Ret (0, t) \<and>
     iso_ok t \<and> translate t 2 0x400000 = translate sample_iso 2 0x400000"
proof -
  obtain t where t: "isolation_map_memory 1 0x400000 0x10000 4096 MAP_TYPE_DATA 1 sample_iso = Ret (0, t)"
    using sample_map by blast
  then have "iso_step (unat (1 :: u64)) sample_iso t" by (rule iso_step.map) (simp add: sample_pages)
  then have "iso_steps {1} sample_iso t" by (intro iso_steps.call [OF iso_steps.start]) auto
  from isolation_separates_domains [OF this sample_iso_ok] t show ?thesis
    by (auto simp: MAX_DOMAINS_def)
qed

text \<open>
  C7. A successful mapping maps: afterwards every page of the range translates, in the domain
  it was mapped for, to the corresponding physical page with the flags of the mapping type, and
  every other page of that domain and every page of every other domain translates as before.
  The range is at most 2^48 bytes, the size of the address space that the four levels span.
\<close>

theorem isolation_map_translates:
  assumes "iso_ok s" "isolation_map_memory did v p sz ty cap s = Ret (0, t)" "unat (pages_for sz) \<le> 2 ^ 36"
  shows "(\<forall>k<unat (pages_for sz).
      translate t (unat did) (v + of_nat k * PAGE_SIZE) = (p + of_nat k * PAGE_SIZE) OR map_flags ty) \<and>
    (\<forall>d<MAX_DOMAINS. \<forall>w. \<not> (d = unat did \<and>
       (\<exists>k<unat (pages_for sz). vpage w = vpage (v + of_nat k * PAGE_SIZE))) \<longrightarrow>
       translate t d w = translate s d w)"
  using isolation_map_effect(2,3) [OF assms] by blast

theorem isolation_map_translates_witness:
  "\<exists>t. isolation_map_memory 1 0x400000 0x10000 4096 MAP_TYPE_DATA 1 sample_iso = Ret (0, t) \<and>
     translate t 1 0x400000 = 0x10007"
proof -
  obtain t where t: "isolation_map_memory 1 0x400000 0x10000 4096 MAP_TYPE_DATA 1 sample_iso = Ret (0, t)"
    using sample_map by blast
  then show ?thesis
    using isolation_map_translates [OF sample_iso_ok t]
    by (simp add: sample_pages PT_FLAG_PRESENT_def PT_FLAG_WRITABLE_def PT_FLAG_USER_def)
qed

text \<open>
  Unmapping removes: after a successful call no page of the range is present in the domain
  and every other translation is unchanged; but however many pages were unmapped, only the
  TLB entry of the first one is invalidated.
\<close>

theorem isolation_unmap_removes:
  assumes "iso_ok s" "isolation_unmap_memory did v sz s = Ret (0, t)"
  shows "(\<forall>k<unat (pages_for sz). translate t (unat did) (v + of_nat k * PAGE_SIZE) = 0) \<and>
    (\<forall>d<MAX_DOMAINS. \<forall>w. \<not> (d = unat did \<and>
       (\<exists>k<unat (pages_for sz). vpage w = vpage (v + of_nat k * PAGE_SIZE))) \<longrightarrow>
       translate t d w = translate s d w) \<and>
    tlb_log t = Flush_page v # tlb_log s"
  using isolation_unmap_effect(2,3) [OF assms] by blast

theorem isolation_unmap_removes_witness:
  "\<exists>s t. isolation_map_memory 1 0x400000 0x10000 4096 MAP_TYPE_DATA 1 sample_iso = Ret (0, s) \<and>
     isolation_unmap_memory 1 0x400000 8192 s = Ret (0, t) \<and> translate t 1 0x401000 = 0 \<and>
     tlb_log t = [Flush_page 0x400000]"
proof -
  obtain s where s: "isolation_map_memory 1 0x400000 0x10000 4096 MAP_TYPE_DATA 1 sample_iso = Ret (0, s)"
    using sample_map by blast
  obtain own own' where rem: "remapped own sample_iso own' s 1 (page_paths 0x400000 0 1)"
    using isolation_map_remapped [OF sample_iso_ok s] by (auto simp: sample_pages)
  have "tlb_log s = []" by (subst remapped_state [OF rem]) simp
  moreover have ok: "iso_ok s" by (rule remapped_iso_ok [OF rem])
  moreover obtain t where t: "isolation_unmap_memory 1 0x400000 8192 s = Ret (0, t)"
    by (simp add: isolation_unmap_memory_def MAX_DOMAINS_def remapped_fields [OF rem])
  moreover have "translate t 1 (0x400000 + of_nat 1 * PAGE_SIZE) = 0"
    using conjunct1 [OF isolation_unmap_removes [OF ok t], THEN spec, of 1] by (simp add: sample_pages)
  ultimately show ?thesis using s isolation_unmap_removes [OF ok t] by (auto simp: PAGE_SIZE_def)
qed

section \<open>Access verification\<close>

lemma isolation_verify_eq:
  "isolation_verify_access did v sz acc s =
     (if unat did < MAX_DOMAINS \<and> pml4 (g_tables s (unat did)) \<noteq> 0 \<and>
         (\<forall>k<unat (pages_for sz). page_allows acc (translate s (unat did) (v + of_nat k * PAGE_SIZE)))
      then 0 else -1)"
  by (simp add: isolation_verify_access_def verify_pages_eq translate_def)

text \<open>The flag bits of an entry whose address part is page aligned.\<close>

lemma aligned_and_flag:
  assumes "unat a mod 4096 = 0" "f = PT_FLAG_PRESENT \<or> f = PT_FLAG_WRITABLE \<or> f = PT_FLAG_USER"
  shows "(a OR x) AND f = x AND f"
proof -
  have "unat (take_bit 12 a) = 0" using assms(1) by (simp only: unat_take_bit) simp
  then have low: "take_bit 12 a = 0" by (simp only: unat_eq_zero)
  have "\<not> bit a n" if "n < 12" for n
  proof
    assume "bit a n"
    with that have "bit (take_bit 12 a) n" by (simp only: bit_take_bit_iff)
    with low show False by simp
  qed
  moreover have "\<exists>n<12. f = push_bit n 1"
    using assms(2)
  proof (elim disjE)
    assume "f = PT_FLAG_PRESENT" then show ?thesis by (intro exI [where x = 0]) (simp add: PT_FLAG_PRESENT_def)
  next
    assume "f = PT_FLAG_WRITABLE" then show ?thesis by (intro exI [where x = 1]) (simp add: PT_FLAG_WRITABLE_def push_bit_eq_mult)
  next
    assume "f = PT_FLAG_USER" then show ?thesis by (intro exI [where x = 2]) (simp add: PT_FLAG_USER_def push_bit_eq_mult)
  qed
  ultimately show ?thesis by (auto intro!: bit_word_eqI simp: bit_simps)
qed

lemma page_allows_aligned:
  "unat a mod 4096 = 0 \<Longrightarrow> page_allows acc (a OR x) = page_allows acc x"
  by (simp add: page_allows_def aligned_and_flag)

lemma aligned_offset:
  assumes "unat p mod 4096 = 0" "k < 2 ^ 52"
  shows "unat (p + of_nat k * PAGE_SIZE) mod 4096 = 0"
proof -
  have "unat (p + of_nat k * PAGE_SIZE) = (unat p + k * 4096) mod 2 ^ 64"
    using unat_word_ariths(1) [of p "of_nat k * PAGE_SIZE"] unat_page_addr [OF assms(2)] by simp
  then have "unat (p + of_nat k * PAGE_SIZE) mod 4096 = (unat p + k * 4096) mod 2 ^ 64 mod 4096" by simp
  also have "\<dots> = (unat p + k * 4096) mod 4096" by (rule mod_mod_cancel) simp
  also have "\<dots> = 0" using assms(1) by simp
  finally show ?thesis .
qed

text \<open>Which accesses a mapping type is meant to allow: 1 is user, 2 is write.\<close>

primrec type_allows :: "u32 \<Rightarrow> map_type \<Rightarrow> bool" where
  "type_allows acc MAP_TYPE_CODE \<longleftrightarrow> acc AND 2 = 0"
| "type_allows acc MAP_TYPE_DATA \<longleftrightarrow> True"
| "type_allows acc MAP_TYPE_READONLY \<longleftrightarrow> acc AND 2 = 0"
| "type_allows acc MAP_TYPE_DEVICE \<longleftrightarrow> acc AND 1 = 0"
| "type_allows acc MAP_TYPE_SHARED \<longleftrightarrow> True"

lemma page_allows_flags: "page_allows acc (map_flags ty) = type_allows acc ty"
  by (cases ty) (simp_all add: page_allows_def PT_FLAG_PRESENT_def PT_FLAG_WRITABLE_def PT_FLAG_USER_def
      PT_FLAG_PCD_def PT_FLAG_PWT_def)

text \<open>
  Verification agrees with mapping: after a successful mapping of at least one page at a
  page-aligned physical address, \<open>isolation_verify_access\<close> on the mapped range returns 0
  exactly for the accesses the mapping type allows: user and write for data and shared memory,
  no write for code and read-only memory, no user access for devices.
\<close>

theorem isolation_map_verify:
  assumes "iso_ok s" "isolation_map_memory did v p sz ty cap s = Ret (0, t)"
    "unat (pages_for sz) \<le> 2 ^ 36" "pages_for sz \<noteq> 0" "unat p mod 4096 = 0"
  shows "isolation_verify_access did v sz acc t = (if type_allows acc ty then 0 else -1)"
proof -
  obtain own own' where rem: "remapped own s own' t (unat did) (page_paths v 0 (unat (pages_for sz)))"
    and val: "\<forall>k<unat (pages_for sz).
        translate t (unat did) (v + of_nat k * PAGE_SIZE) = (p + of_nat k * PAGE_SIZE) OR map_flags ty"
    using isolation_map_remapped [OF assms(1-3)] by blast
  have n: "0 < unat (pages_for sz)" using assms(4) by (simp add: unat_gt_0)
  have "map_admitted did cap s" using isolation_map_cases [OF assms(2)] by simp
  then have "unat did < MAX_DOMAINS" "pml4 (g_tables t (unat did)) \<noteq> 0"
    by (simp_all add: map_admitted_def remapped_fields [OF rem])
  moreover have "page_allows acc (translate t (unat did) (v + of_nat k * PAGE_SIZE)) = type_allows acc ty"
    if "k < unat (pages_for sz)" for k
  proof -
    have "k < 2 ^ 52" using that assms(3) by simp
    then show ?thesis
      using val that by (simp add: page_allows_aligned aligned_offset [OF assms(5)] page_allows_flags)
  qed
  ultimately show ?thesis using n by (auto simp: isolation_verify_eq)
qed

theorem isolation_map_verify_witness:
  "\<exists>t. isolation_map_memory 1 0x400000 0x10000 4096 MAP_TYPE_READONLY 1 sample_iso = Ret (0, t) \<and>
     isolation_verify_access 1 0x400000 4096 1 t = 0 \<and> isolation_verify_access 1 0x400000 4096 2 t = -1"
proof -
  obtain t where t: "isolation_map_memory 1 0x400000 0x10000 4096 MAP_TYPE_READONLY 1 sample_iso = Ret (0, t)"
    using sample_map by blast
  then show ?thesis using isolation_map_verify [OF sample_iso_ok t] by (simp add: sample_pages)
qed

text \<open>
  The physical address of a mapping is not checked for alignment, so its low bits become
  flags: a read-only mapping of physical address \<open>0x10002\<close> succeeds and can then be written.
\<close>

theorem isolation_readonly_map_becomes_writable:
  "\<exists>t. isolation_map_memory 1 0x400000 0x10002 4096 MAP_TYPE_READONLY 1 sample_iso = Ret (0, t) \<and>
     isolation_verify_access 1 0x400000 4096 2 t = 0"
proof -
  obtain t where t: "isolation_map_memory 1 0x400000 0x10002 4096 MAP_TYPE_READONLY 1 sample_iso = Ret (0, t)"
    using sample_map by blast
  obtain own own' where rem: "remapped own sample_iso own' t 1 (page_paths 0x400000 0 1)"
    and val: "translate t 1 0x400000 = 0x10002 OR map_flags MAP_TYPE_READONLY"
    using isolation_map_remapped [OF sample_iso_ok t] by (auto simp: sample_pages)
  have "page_allows 2 (0x10002 OR map_flags MAP_TYPE_READONLY)"
    by (simp add: page_allows_def PT_FLAG_PRESENT_def PT_FLAG_WRITABLE_def PT_FLAG_USER_def)
  then have "isolation_verify_access 1 0x400000 4096 2 t = 0"
    using val by (simp add: isolation_verify_eq MAX_DOMAINS_def remapped_fields [OF rem] sample_pages)
  with t show ?thesis by blast
qed

text \<open>
  The capability argument of a mapping does not name a capability: the call gets past its
  check exactly when the domain whose number is \<open>cap_id\<close> holds handle 1 with read and write
  permission, whichever domain is being mapped, whatever the physical range, and whatever
  resource that capability covers. In particular the three set-up functions, which pass 0, are
  refused unless a free domain slot holds handle 1.
\<close>

theorem isolation_map_checks_wrong_capability:
  assumes "cap_inv (g_cap s)" "isolation_map_memory did v p sz ty cap s = Ret (r, t)" "pages_for sz = 0"
  shows "r = 0 \<longleftrightarrow> unat did < MAX_DOMAINS \<and> pml4 (g_tables s (unat did)) \<noteq> 0 \<and>
    (\<exists>l c. cap_view (g_cap s) cap = Some l \<and> 1 \<in> set l \<and> cap_get_capability 1 (g_cap s) = Some c \<and>
       permissions (capabilities (g_cap s) c) AND (CAP_PERM_READ OR CAP_PERM_WRITE) =
       CAP_PERM_READ OR CAP_PERM_WRITE)"
proof -
  have "cap_check cap 1 q (g_cap s) = Ret (check_spec (g_cap s) cap 1 q, g_cap s)" for q
    using assms(1) by (intro cap_check_eq cap_invD) auto
  moreover have "r = 0 \<longleftrightarrow> map_admitted did cap s"
    using isolation_map_cases [OF assms(2)] assms(3) by auto
  ultimately show ?thesis
    by (auto simp: map_admitted_def check_spec_def split: option.splits if_splits)
qed

theorem isolation_map_checks_wrong_capability_witness:
  "\<exists>r t. isolation_map_memory 2 0xFFFFFFFF80000000 0 0 MAP_TYPE_DATA 1 sample_iso = Ret (r, t) \<and> r = 0"
proof -
  have "on_cap (cap_check 1 1 (CAP_PERM_READ OR CAP_PERM_WRITE)) sample_iso = Ret (0, sample_iso)"
    by (rule on_cap_pure) (simp add: sample_check)
  moreover have z: "pages_for 0 = 0" by (simp add: pages_for_def PAGE_SIZE_def)
  ultimately have ret: "isolation_map_memory 2 0xFFFFFFFF80000000 0 0 MAP_TYPE_DATA 1 sample_iso = Ret (0, sample_iso)"
    by (simp add: isolation_map_memory_def MAX_DOMAINS_def)
  have "(0 :: int) = 0 \<longleftrightarrow> unat (2 :: u64) < MAX_DOMAINS \<and> pml4 (g_tables sample_iso (unat (2 :: u64))) \<noteq> 0 \<and>
    (\<exists>l c. cap_view (g_cap sample_iso) 1 = Some l \<and> 1 \<in> set l \<and> cap_get_capability 1 (g_cap sample_iso) = Some c \<and>
       permissions (capabilities (g_cap sample_iso) c) AND (CAP_PERM_READ OR CAP_PERM_WRITE) =
       CAP_PERM_READ OR CAP_PERM_WRITE)"
    by (rule isolation_map_checks_wrong_capability [OF _ ret z]) (simp add: sample_caps_inv)
  with ret show ?thesis by blast
qed

section \<open>Call gates\<close>

text \<open>The entry point a gate descriptor encodes.\<close>

definition gate_offset :: "call_gate \<Rightarrow> u64" where
  "gate_offset g = push_bit 16 (ucast (offset_high g)) OR ucast (offset_low g)"

text \<open>
  A created call gate can be called and encodes its target: a call that passes its checks
  while fewer than 16 gates exist returns the next gate number, the descriptor's two offset
  fields give back the 64-bit entry point, \<open>isolation_call_gate\<close> accepts the number, and the
  gates created before are unchanged; with 16 gates the call returns -1.
\<close>

theorem isolation_call_gate_roundtrip:
  assumes "isolation_create_call_gate target entry cap s = Ret (r, t)"
    "cap_check cap 5 CAP_PERM_EXECUTE (g_cap s) = Ret (0, g_cap s)" "unat target < MAX_DOMAINS"
    "unat (num_gates (g_gates s)) \<le> MAX_CALL_GATES"
  shows "if unat (num_gates (g_gates s)) = MAX_CALL_GATES then r = -1
    else r = int (unat (num_gates (g_gates s))) \<and>
      gate_offset (gates (g_gates t) (nat r)) = entry \<and>
      isolation_call_gate (of_int r) t = Ret 0 \<and>
      (\<forall>g. g \<noteq> nat r \<longrightarrow> gates (g_gates t) g = gates (g_gates s) g)"
proof -
  let ?n = "num_gates (g_gates s)"
  have check: "on_cap (cap_check cap 5 CAP_PERM_EXECUTE) s = Ret (0, s)"
    using assms(2) by (rule on_cap_pure)
  show ?thesis
  proof (cases "MAX_CALL_GATES \<le> unat ?n")
    case True
    then show ?thesis
      using assms check
      by (auto simp: isolation_create_call_gate_def on_gates_def outcome_simps split: if_splits)
  next
    case False
    then have n: "unat ?n < 16" by (simp add: MAX_CALL_GATES_def)
    have r: "r = int (unat ?n)" and gates: "gates (g_gates t) = (gates (g_gates s))(unat ?n := make_gate entry)"
      and num: "num_gates (g_gates t) = ?n + 1"
      using assms check False
      by (auto simp: isolation_create_call_gate_def on_gates_def outcome_simps Let_def split: if_splits)
    have inc: "unat (?n + 1) = Suc (unat ?n)" using n by (simp add: unat_word_ariths)
    have "gate_offset (make_gate entry) = entry"
    proof -
      have masks: "(0xFFFF :: u64) = mask 16" "(0xFFFFFFFFFFFF :: u64) = mask 48"
        by (simp_all add: mask_eq_exp_minus_1)
      have "bit (gate_offset (make_gate entry)) n \<longleftrightarrow> bit entry n" if "n < 64" for n
      proof -
        have "n - 16 < 48" using that by simp
        then show ?thesis
          unfolding gate_offset_def make_gate_def masks
          using that by (cases "n < 16") (auto simp: bit_simps)
      qed
      then show ?thesis by (intro bit_word_eqI) simp
    qed
    moreover have "isolation_call_gate (of_int r) t = Ret 0"
    proof -
      have id: "(of_nat (unat ?n) :: u64) = ucast ?n" by (simp add: unsigned_ucast_eq)
      have "unat (ucast ?n :: u64) = unat ?n" "unat (ucast (?n + 1) :: u64) = Suc (unat ?n)"
        using unat_ucast_up [of ?n, where 'b = 64] unat_ucast_up [of "?n + 1", where 'b = 64] inc by simp_all
      then show ?thesis
        using n gates num by (simp add: isolation_call_gate_def r id word_le_nat_alt make_gate_def MAX_CALL_GATES_def)
    qed
    ultimately show ?thesis using False r gates by simp
  qed
qed

text \<open>The sample with a service capability under handle 5 in domain 1.\<close>

definition sample_gate_caps :: cap_system where
  "sample_gate_caps = sample_caps\<lparr>
     capabilities := (\<lambda>_. zero_capability)(4 := new_cap CAP_TYPE_SERVICE 4 0 0 0 1),
     domains := (\<lambda>_. zero_domain)(0 := (new_domain 1 0 0)\<lparr>cap_space := (\<lambda>_. 0)(0 := 5), dom_num_caps := 1\<rparr>),
     next_cap_handle := 6\<rparr>"

lemma sample_gate_check: "cap_check 1 5 CAP_PERM_EXECUTE sample_gate_caps = Ret (0, sample_gate_caps)"
proof -
  have "cap_get_domain 1 sample_gate_caps = Some 0"
    unfolding cap_get_domain_def
    by (rule first_from_SomeI) (simp_all add: sample_gate_caps_def new_domain_def MAX_DOMAINS_def)
  then have "cap_view sample_gate_caps 1 = Some [5]"
    by (simp add: cap_view_def sample_gate_caps_def caps_of_def new_domain_def)
  moreover have "cap_get_capability 5 sample_gate_caps = Some 4"
    by (simp add: cap_get_capability_eq sample_gate_caps_def new_cap_def MAX_CAPABILITIES_def)
  moreover have "spaces_wf sample_gate_caps"
    by (auto simp: spaces_wf_def sample_gate_caps_def dom_wf_def DOMAIN_CAP_SPACE_SIZE_def
        new_domain_def zero_domain_def)
  moreover have "permissions (capabilities sample_gate_caps 4) = 4" "cap_lock sample_gate_caps = 0"
    by (simp_all add: sample_gate_caps_def new_cap_def sample_caps_def)
  ultimately show ?thesis
    using cap_check_eq [of sample_gate_caps 5 1 CAP_PERM_EXECUTE]
    by (simp add: check_spec_def CAP_PERM_EXECUTE_def)
qed

theorem isolation_call_gate_roundtrip_witness:
  "\<exists>t. isolation_create_call_gate 2 0xFFFFFFFF80123456 1 (sample_iso\<lparr>g_cap := sample_gate_caps\<rparr>) = Ret (0, t) \<and>
     gate_offset (gates (g_gates t) 0) = 0xFFFFFFFF80123456 \<and> isolation_call_gate 0 t = Ret 0"
proof -
  let ?s = "sample_iso\<lparr>g_cap := sample_gate_caps\<rparr>"
  have check: "cap_check 1 5 CAP_PERM_EXECUTE (g_cap ?s) = Ret (0, g_cap ?s)"
    by (simp add: sample_gate_check)
  have "on_cap (cap_check 1 5 CAP_PERM_EXECUTE) ?s = Ret (0, ?s)" using check by (rule on_cap_pure)
  then obtain t where t: "isolation_create_call_gate 2 0xFFFFFFFF80123456 1 ?s = Ret (0, t)"
    by (simp add: isolation_create_call_gate_def MAX_DOMAINS_def on_gates_def outcome_simps
        MAX_CALL_GATES_def)
  show ?thesis
    using t isolation_call_gate_roundtrip [OF t check]
    by (auto simp: MAX_DOMAINS_def MAX_CALL_GATES_def)
qed

end
