(* ===== verification/Sched.thy ===== *)
theory Sched
  imports PageTables Tables
begin

text \<open>
  The thread scheduler (\<open>Core-0/include/sched.h\<close>, \<open>Core-0/sched/sched.c\<close>): the table of 128
  thread control blocks, creation and termination, blocking, and the round-robin choice made at
  every timer tick. The context switch itself is a comment in the source; the model is the
  state of the scheduler.
\<close>

section \<open>Data\<close>

datatype thread_state =
    THREAD_STATE_READY
  | THREAD_STATE_RUNNING
  | THREAD_STATE_BLOCKED
  | THREAD_STATE_TERMINATED

datatype thread_priority =
    THREAD_PRIORITY_IDLE
  | THREAD_PRIORITY_LOW
  | THREAD_PRIORITY_NORMAL
  | THREAD_PRIORITY_HIGH
  | THREAD_PRIORITY_REALTIME

primrec priority_code :: "thread_priority \<Rightarrow> nat" where
  "priority_code THREAD_PRIORITY_IDLE = 0"
| "priority_code THREAD_PRIORITY_LOW = 1"
| "priority_code THREAD_PRIORITY_NORMAL = 2"
| "priority_code THREAD_PRIORITY_HIGH = 3"
| "priority_code THREAD_PRIORITY_REALTIME = 4"

text \<open>Priorities are ordered by their codes.\<close>

instantiation thread_priority :: linorder
begin

definition less_eq_thread_priority :: "thread_priority \<Rightarrow> thread_priority \<Rightarrow> bool" where
  "less_eq_thread_priority p q \<longleftrightarrow> priority_code p \<le> priority_code q"

definition less_thread_priority :: "thread_priority \<Rightarrow> thread_priority \<Rightarrow> bool" where
  "less_thread_priority p q \<longleftrightarrow> priority_code p < priority_code q"

instance
proof
  fix p q :: thread_priority
  assume "p \<le> q" "q \<le> p"
  then show "p = q"
    by (cases p; cases q) (simp_all add: less_eq_thread_priority_def)
qed (auto simp: less_eq_thread_priority_def less_thread_priority_def)

end

text \<open>\<open>STACK_SIZE\<close> is \<open>64 * 1024\<close>.\<close>

definition MAX_THREADS :: nat where "MAX_THREADS = 128"
definition STACK_SIZE :: u64 where "STACK_SIZE = 65536"

text \<open>Entry points and arguments are addresses.\<close>

record tcb =
  thread_id :: u64
  tcb_domain :: u64
  thread_st :: thread_state
  priority :: thread_priority
  stack_base :: u64
  stack_size :: u64
  stack_ptr :: u64
  entry_point :: u64
  thread_arg :: u64
  time_slice :: u64
  total_time :: u64
  tcb_flags :: u32

record sched_state =
  threads :: "nat \<Rightarrow> tcb"
  num_threads :: u32
  current_thread :: u32
  next_thread_id :: u64
  sched_lock :: u64
  timer_ticks :: u64

definition zero_tcb :: tcb where
  "zero_tcb = \<lparr>thread_id = 0, tcb_domain = 0, thread_st = THREAD_STATE_READY,
     priority = THREAD_PRIORITY_IDLE, stack_base = 0, stack_size = 0, stack_ptr = 0,
     entry_point = 0, thread_arg = 0, time_slice = 0, total_time = 0, tcb_flags = 0\<rparr>"

record sched_kstate = iso_state +
  g_sched :: sched_state

abbreviation sched_lk :: "'z sched_kstate_scheme \<Rightarrow> u64" where
  "sched_lk s \<equiv> sched_lock (g_sched s)"

abbreviation sched_upd :: "(u64 \<Rightarrow> u64) \<Rightarrow> 'z sched_kstate_scheme \<Rightarrow> 'z sched_kstate_scheme" where
  "sched_upd f \<equiv> g_sched_update (sched_lock_update f)"

abbreviation thread :: "'z sched_kstate_scheme \<Rightarrow> nat \<Rightarrow> tcb" where
  "thread s i \<equiv> threads (g_sched s) i"

definition put_thread :: "nat \<Rightarrow> tcb \<Rightarrow> 'z sched_kstate_scheme \<Rightarrow> 'z sched_kstate_scheme" where
  "put_thread i e s = s\<lparr>g_sched := (g_sched s)\<lparr>threads := (threads (g_sched s))(i := e)\<rparr>\<rparr>"

interpretation schedl: spin_locked sched_lk sched_upd
  by unfold_locales simp

section \<open>Operations\<close>

text \<open>The test of the slot search; the second disjunct is the code's comparison with 0.\<close>

definition slot_free :: "tcb \<Rightarrow> bool" where
  "slot_free e \<longleftrightarrow> thread_st e = THREAD_STATE_TERMINATED \<or> thread_st e = THREAD_STATE_READY"

definition new_tcb :: "u64 \<Rightarrow> u64 \<Rightarrow> u64 \<Rightarrow> u64 \<Rightarrow> thread_priority \<Rightarrow> u64 \<Rightarrow> tcb" where
  "new_tcb tid did entry arg prio base = \<lparr>thread_id = tid, tcb_domain = did,
     thread_st = THREAD_STATE_READY, priority = prio, stack_base = base,
     stack_size = STACK_SIZE, stack_ptr = base + STACK_SIZE, entry_point = entry,
     thread_arg = arg, time_slice = 10, total_time = 0, tcb_flags = 0\<rparr>"

definition sched_create_thread ::
  "u64 \<Rightarrow> u64 \<Rightarrow> u64 \<Rightarrow> thread_priority \<Rightarrow> 'z sched_kstate_scheme \<Rightarrow> (u64 \<times> 'z sched_kstate_scheme) outcome" where
  "sched_create_thread did entry arg prio = locked sched_lk sched_upd (\<lambda>s.
     case first_from (\<lambda>i. slot_free (thread s i)) 0 MAX_THREADS of
       None \<Rightarrow> Ret (0, s)
     | Some slot \<Rightarrow>
         bindR (on_mm (mm_alloc STACK_SIZE 16 MEM_TYPE_KERNEL did) s) (\<lambda>(base, s1).
         if base = 0 then Ret (0, s1)
         else let tid = next_thread_id (g_sched s1);
                  s2 = put_thread slot (new_tcb tid did entry arg prio base) s1
              in Ret (tid, s2\<lparr>g_sched := (g_sched s2)\<lparr>next_thread_id := tid + 1,
                                num_threads := num_threads (g_sched s2) + 1\<rparr>\<rparr>)))"

text \<open>\<open>idle_addr\<close> is the address of \<open>sched_idle_thread\<close>, fixed by the linker.\<close>

definition sched_init :: "u64 \<Rightarrow> 'z sched_kstate_scheme \<Rightarrow> (int \<times> 'z sched_kstate_scheme) outcome" where
  "sched_init idle_addr s =
     bindR (sched_create_thread 0 idle_addr 0 THREAD_PRIORITY_IDLE
       (s\<lparr>g_sched := \<lparr>threads = (\<lambda>_. zero_tcb), num_threads = 0, current_thread = 0,
                       next_thread_id = 1, sched_lock = 0, timer_ticks = 0\<rparr>\<rparr>))
       (\<lambda>(tid, s1). Ret (0, s1))"

definition sched_terminate_thread ::
  "u64 \<Rightarrow> 'z sched_kstate_scheme \<Rightarrow> (int \<times> 'z sched_kstate_scheme) outcome" where
  "sched_terminate_thread tid = locked sched_lk sched_upd (\<lambda>s.
     case first_from (\<lambda>i. thread_id (thread s i) = tid) 0 MAX_THREADS of
       None \<Rightarrow> Ret (-1, s)
     | Some i \<Rightarrow>
         let s1 = put_thread i ((thread s i)\<lparr>thread_st := THREAD_STATE_TERMINATED\<rparr>) s in
         bindR (on_mm (mm_free (stack_base (thread s i))) s1) (\<lambda>(r, s2).
         Ret (0, s2\<lparr>g_sched := (g_sched s2)\<lparr>num_threads := num_threads (g_sched s2) - 1\<rparr>\<rparr>)))"

text \<open>A trigger for a context switch that the source leaves out.\<close>

definition sched_yield :: "'z sched_kstate_scheme \<Rightarrow> (unit \<times> 'z sched_kstate_scheme) outcome" where
  "sched_yield s = Ret ((), s)"

text \<open>
  The busy loops; \<open>count\<close> is their local counter, returned here so that their length can be
  stated.
\<close>

definition sched_sleep :: "u64 \<Rightarrow> 'z sched_kstate_scheme \<Rightarrow> (u64 \<times> 'z sched_kstate_scheme) outcome" where
  "sched_sleep milliseconds s =
     Ret (((\<lambda>count. ((\<lambda>c. c + 1) ^^ 1000) count) ^^ unat (milliseconds * 1000)) 0, s)"

definition sched_get_current :: "'z sched_kstate_scheme \<Rightarrow> nat option" where
  "sched_get_current s =
     (if unat (current_thread (g_sched s)) < MAX_THREADS
      then Some (unat (current_thread (g_sched s))) else None)"

definition sched_block :: "'z sched_kstate_scheme \<Rightarrow> (int \<times> 'z sched_kstate_scheme) outcome" where
  "sched_block = locked sched_lk sched_upd (\<lambda>s.
     case sched_get_current s of
       None \<Rightarrow> Ret (0, s)
     | Some i \<Rightarrow> Ret (0, put_thread i ((thread s i)\<lparr>thread_st := THREAD_STATE_BLOCKED\<rparr>) s))"

definition sched_unblock :: "u64 \<Rightarrow> 'z sched_kstate_scheme \<Rightarrow> (int \<times> 'z sched_kstate_scheme) outcome" where
  "sched_unblock tid = locked sched_lk sched_upd (\<lambda>s.
     case first_from (\<lambda>i. thread_id (thread s i) = tid \<and>
                          thread_st (thread s i) = THREAD_STATE_BLOCKED) 0 MAX_THREADS of
       None \<Rightarrow> Ret (-1, s)
     | Some i \<Rightarrow> Ret (0, put_thread i ((thread s i)\<lparr>thread_st := THREAD_STATE_READY\<rparr>) s))"

text \<open>
  The search of the round robin, from distance \<open>i\<close> on: \<open>i\<close> is a \<open>uint32_t\<close> that is compared
  with \<open>num_threads\<close>, so the loop has no exit of its own when \<open>num_threads\<close> is \<open>2^32 - 1\<close>.
\<close>

definition rr_index :: "sched_state \<Rightarrow> u32 \<Rightarrow> nat" where
  "rr_index q i = unat ((current_thread q + i) mod 128)"

partial_function (option) rr_scan :: "sched_state \<Rightarrow> u32 \<Rightarrow> nat option option" where
  "rr_scan q i =
     (if i \<le> num_threads q then
        if thread_st (threads q (rr_index q i)) = THREAD_STATE_READY then Some (Some (rr_index q i))
        else rr_scan q (i + 1)
      else Some None)"

text \<open>The end of \<open>sched_schedule\<close>: the switch to slot \<open>nx\<close>, \<open>cur\<close> the slot switched from.\<close>

definition switch_to :: "nat \<Rightarrow> nat option \<Rightarrow> 'z sched_kstate_scheme \<Rightarrow> 'z sched_kstate_scheme" where
  "switch_to nx cur s =
     (let s1 = s\<lparr>g_sched := (g_sched s)\<lparr>current_thread := of_nat nx\<rparr>\<rparr>;
          s2 = (case cur of None \<Rightarrow> s1
                | Some c \<Rightarrow> put_thread c ((thread s1 c)\<lparr>thread_st := THREAD_STATE_READY\<rparr>) s1)
      in put_thread nx ((thread s2 nx)\<lparr>thread_st := THREAD_STATE_RUNNING, time_slice := 10\<rparr>) s2)"

definition use_slice :: "nat option \<Rightarrow> 'z sched_kstate_scheme \<Rightarrow> 'z sched_kstate_scheme" where
  "use_slice cur s = (case cur of None \<Rightarrow> s
     | Some c \<Rightarrow> if 0 < time_slice (thread s c)
                 then put_thread c ((thread s c)\<lparr>time_slice := time_slice (thread s c) - 1\<rparr>) s
                 else s)"

definition sched_schedule :: "'z sched_kstate_scheme \<Rightarrow> (unit \<times> 'z sched_kstate_scheme) outcome" where
  "sched_schedule = locked sched_lk sched_upd (\<lambda>s.
     let s1 = s\<lparr>g_sched := (g_sched s)\<lparr>timer_ticks := timer_ticks (g_sched s) + 1\<rparr>\<rparr>;
         cur = sched_get_current s1;
         s2 = use_slice cur s1
     in case rr_scan (g_sched s2) 1 of
          None \<Rightarrow> Hang
        | Some None \<Rightarrow> Ret ((), s2)
        | Some (Some nx) \<Rightarrow>
            Ret ((), if of_nat nx \<noteq> current_thread (g_sched s2) then switch_to nx cur s2 else s2))"

definition sched_timer_interrupt :: "'z sched_kstate_scheme \<Rightarrow> (unit \<times> 'z sched_kstate_scheme) outcome" where
  "sched_timer_interrupt = sched_schedule"

text \<open>\<open>hlt\<close> in an endless loop.\<close>

definition sched_idle_thread :: "u64 \<Rightarrow> 'z sched_kstate_scheme \<Rightarrow> (unit \<times> 'z sched_kstate_scheme) outcome" where
  "sched_idle_thread arg s = Hang"

definition sched_dump :: "'z sched_kstate_scheme \<Rightarrow> (unit \<times> 'z sched_kstate_scheme) outcome" where
  "sched_dump s = Ret ((), s)"

section \<open>The search in closed form\<close>

lemma rr_index_eq: "rr_index q (of_nat k) = (unat (current_thread q) + k) mod 128"
proof -
  have "unat (current_thread q + of_nat k) = (unat (current_thread q) + k) mod 2 ^ 32"
    by (simp add: unat_word_ariths unat_of_nat mod_add_right_eq)
  then have "rr_index q (of_nat k) = ((unat (current_thread q) + k) mod 2 ^ 32) mod 128"
    by (simp add: rr_index_def unat_mod)
  also have "\<dots> = (unat (current_thread q) + k) mod 128" by (rule mod_mod_cancel) simp
  finally show ?thesis .
qed

lemma rr_index_less: "rr_index q i < 128"
proof -
  have "rr_index q (of_nat (unat i)) < 128" unfolding rr_index_eq by simp
  then show ?thesis by simp
qed

definition ready_at :: "sched_state \<Rightarrow> nat \<Rightarrow> bool" where
  "ready_at q k \<longleftrightarrow> thread_st (threads q ((unat (current_thread q) + k) mod 128)) = THREAD_STATE_READY"

text \<open>
  The loop is a search for the nearest ready slot at distance at most \<open>num_threads\<close>, unless
  the counter cannot pass its bound.
\<close>

lemma rr_scan_eq:
  assumes "num_threads q \<noteq> - 1" "k \<le> Suc (unat (num_threads q))"
  shows "rr_scan q (of_nat k) =
    Some (map_option (\<lambda>d. (unat (current_thread q) + d) mod 128)
                     (first_from (ready_at q) k (Suc (unat (num_threads q)))))"
  using assms(2)
proof (induction "Suc (unat (num_threads q)) - k" arbitrary: k)
  case 0
  then have k: "k = Suc (unat (num_threads q))" by simp
  have "of_nat k = num_threads q + 1" by (simp add: k)
  moreover have "\<not> num_threads q + 1 \<le> num_threads q"
    using less_inc [OF assms(1)] by (simp add: not_le)
  ultimately have "rr_scan q (of_nat k) = Some None" by (subst rr_scan.simps) simp
  then show ?case by (simp add: k first_from_end)
next
  case (Suc m)
  then have k: "k \<le> unat (num_threads q)" by simp
  also have "\<dots> < 2 ^ 32" using unsigned_less [of "num_threads q"] by simp
  finally have "unat (of_nat k :: u32) = k" by (simp add: unat_of_nat)
  with k have le: "of_nat k \<le> num_threads q" by (simp add: word_le_nat_alt)
  have step: "of_nat k + 1 = (of_nat (Suc k) :: u32)" by simp
  show ?case
  proof (cases "ready_at q k")
    case True
    with k le show ?thesis
      by (simp add: rr_scan.simps [of q "of_nat k"] rr_index_eq ready_at_def first_from_hit)
  next
    case False
    have "rr_scan q (of_nat k) = rr_scan q (of_nat (Suc k))"
      using False le by (simp only: rr_scan.simps [of q "of_nat k"] rr_index_eq ready_at_def step) simp
    also have "\<dots> = Some (map_option (\<lambda>d. (unat (current_thread q) + d) mod 128)
        (first_from (ready_at q) (Suc k) (Suc (unat (num_threads q)))))"
      by (rule Suc.hyps(1)) (use Suc.hyps(2) k in auto)
    also have "first_from (ready_at q) (Suc k) (Suc (unat (num_threads q))) =
        first_from (ready_at q) k (Suc (unat (num_threads q)))"
      using first_from_skip [of "ready_at q" k] False by simp
    finally show ?thesis .
  qed
qed

text \<open>A thread at distance 1 is found whatever the count, provided it is not 0.\<close>

lemma rr_scan_next:
  assumes "0 < num_threads q" "ready_at q 1"
  shows "rr_scan q 1 = Some (Some ((unat (current_thread q) + 1) mod 128))"
proof -
  have "1 \<le> num_threads q" using assms(1) by (simp add: word_le_nat_alt word_less_nat_alt)
  with assms(2) show ?thesis
    using rr_index_eq [of q 1] by (simp add: rr_scan.simps [of q 1] ready_at_def)
qed

lemma rr_scan_found:
  assumes "rr_scan q i = Some (Some n)"
  shows "n < 128 \<and> thread_st (threads q n) = THREAD_STATE_READY"
proof -
  let ?P = "\<lambda>p i r. \<forall>n. r = Some n \<longrightarrow> n < 128 \<and> thread_st (threads p n) = THREAD_STATE_READY"
  have "?P q i (Some n)"
  proof (rule rr_scan.raw_induct [of ?P, OF _ assms])
    fix f :: "sched_state \<Rightarrow> u32 \<Rightarrow> nat option option" and q i r
    assume IH: "\<And>q i r. f q i = Some r \<Longrightarrow> ?P q i r"
      and eq: "(if i \<le> num_threads q then
        if thread_st (threads q (rr_index q i)) = THREAD_STATE_READY then Some (Some (rr_index q i))
        else f q (i + 1) else Some None) = Some r"
    show "?P q i r"
      using eq IH [of q "i + 1" r] rr_index_less [of q i] by (auto split: if_splits)
  qed
  then show ?thesis by simp
qed

section \<open>Round robin\<close>

lemma put_thread_simps [simp]:
  "thread (put_thread i e s) j = (if j = i then e else thread s j)"
  "num_threads (g_sched (put_thread i e s)) = num_threads (g_sched s)"
  "current_thread (g_sched (put_thread i e s)) = current_thread (g_sched s)"
  "next_thread_id (g_sched (put_thread i e s)) = next_thread_id (g_sched s)"
  "sched_lock (g_sched (put_thread i e s)) = sched_lock (g_sched s)"
  "g_mm (put_thread i e s) = g_mm s" "g_cap (put_thread i e s) = g_cap s"
  by (simp_all add: put_thread_def)

text \<open>The fields of a control block that the scheduler never touches.\<close>

definition same_thread :: "tcb \<Rightarrow> tcb \<Rightarrow> bool" where
  "same_thread e e' \<longleftrightarrow> e' = e\<lparr>thread_st := thread_st e', time_slice := time_slice e'\<rparr>"

lemma same_thread_refl [simp]: "same_thread e e"
  by (simp add: same_thread_def)

lemma same_thread_trans: "same_thread a b \<Longrightarrow> same_thread b c \<Longrightarrow> same_thread a c"
  by (cases a; cases b; cases c; simp add: same_thread_def)

lemma same_thread_upd [simp]:
  "same_thread e (e'\<lparr>thread_st := x\<rparr>) = same_thread e e'"
  "same_thread e (e'\<lparr>time_slice := y\<rparr>) = same_thread e e'"
  by (cases e; cases e'; simp add: same_thread_def)+

text \<open>
  Everything that is not running is ready: no thread has blocked or ended. Slots that no
  thread was ever created in are ready too, since a zeroed control block reads as ready.
\<close>

definition all_ready :: "'z sched_kstate_scheme \<Rightarrow> bool" where
  "all_ready s \<longleftrightarrow> sched_lk s = 0 \<and> unat (current_thread (g_sched s)) < MAX_THREADS \<and>
     (\<forall>i<MAX_THREADS. i \<noteq> unat (current_thread (g_sched s)) \<longrightarrow> thread_st (thread s i) = THREAD_STATE_READY)"

lemma use_slice_simps [simp]:
  "num_threads (g_sched (use_slice c s)) = num_threads (g_sched s)"
  "current_thread (g_sched (use_slice c s)) = current_thread (g_sched s)"
  "sched_lock (g_sched (use_slice c s)) = sched_lock (g_sched s)"
  "thread_st (thread (use_slice c s) i) = thread_st (thread s i)"
  "same_thread e (thread (use_slice c s) i) = same_thread e (thread s i)"
  "g_mm (use_slice c s) = g_mm s" "g_cap (use_slice c s) = g_cap s"
  by (auto simp: use_slice_def split: option.splits)

lemma switch_to_simps [simp]:
  "num_threads (g_sched (switch_to n c s)) = num_threads (g_sched s)"
  "current_thread (g_sched (switch_to n c s)) = of_nat n"
  "sched_lock (g_sched (switch_to n c s)) = sched_lock (g_sched s)"
  "thread_st (thread (switch_to n c s) i) = (if i = n then THREAD_STATE_RUNNING
     else if c = Some i then THREAD_STATE_READY else thread_st (thread s i))"
  "same_thread e (thread (switch_to n c s) i) = same_thread e (thread s i)"
  "time_slice (thread (switch_to n c s) n) = 10"
  by (auto simp: switch_to_def Let_def split: option.splits)

lemma unat_slot: "n < MAX_THREADS \<Longrightarrow> unat (of_nat n :: u32) = n"
  by (simp add: unat_of_nat MAX_THREADS_def)

text \<open>The slot a tick moves to: the next one, but without a thread the search has no step to make.\<close>

definition next_slot :: "'z sched_kstate_scheme \<Rightarrow> nat" where
  "next_slot s = (if num_threads (g_sched s) = 0 then unat (current_thread (g_sched s))
     else (unat (current_thread (g_sched s)) + 1) mod 128)"

lemma sched_schedule_all_ready:
  assumes "all_ready s"
  shows "\<exists>t. sched_schedule s = Ret ((), t) \<and> all_ready t \<and> num_threads (g_sched t) = num_threads (g_sched s) \<and>
     unat (current_thread (g_sched t)) = next_slot s \<and>
     (num_threads (g_sched s) \<noteq> 0 \<longrightarrow> thread_st (thread t (next_slot s)) = THREAD_STATE_RUNNING) \<and>
     (\<forall>i. same_thread (thread s i) (thread t i))"
proof -
  let ?c = "unat (current_thread (g_sched s))" and ?n = "(unat (current_thread (g_sched s)) + 1) mod 128"
  define s0 where "s0 = s\<lparr>g_sched := (g_sched s)\<lparr>sched_lock := 1,
      timer_ticks := timer_ticks (g_sched s) + 1\<rparr>\<rparr>"
  define s2 where "s2 = use_slice (Some ?c) s0"
  have c: "?c < 128" using assms(1) by (simp add: all_ready_def MAX_THREADS_def)
  have nc: "?n \<noteq> ?c" and n: "?n < MAX_THREADS"
    using c by (auto simp: MAX_THREADS_def mod_Suc)
  have cur: "sched_get_current s0 = Some ?c"
    using c by (simp add: sched_get_current_def s0_def MAX_THREADS_def)
  have count: "num_threads (g_sched s2) = num_threads (g_sched s)" by (simp add: s2_def s0_def)
  show ?thesis
  proof (cases "num_threads (g_sched s) = 0")
    case True
    then have "rr_scan (g_sched s2) 1 = Some None" using count by (simp add: rr_scan.simps)
    then have "sched_schedule s = Ret ((), s2\<lparr>g_sched := (g_sched s2)\<lparr>sched_lock := 0\<rparr>\<rparr>)"
      using assms(1) cur
      by (simp add: sched_schedule_def all_ready_def outcome_simps Let_def s0_def [symmetric] s2_def [symmetric])
    with assms True show ?thesis by (simp add: all_ready_def next_slot_def s2_def s0_def)
  next
    case False
    have "thread_st (thread s ?n) = THREAD_STATE_READY"
      using assms(1) n nc by (simp add: all_ready_def)
    then have "ready_at (g_sched s2) 1" by (simp add: ready_at_def s2_def s0_def)
    moreover have "0 < num_threads (g_sched s2)" using False by (simp add: count word_neq_0_conv)
    ultimately have scan: "rr_scan (g_sched s2) 1 = Some (Some ?n)"
      using rr_scan_next by (simp add: s2_def s0_def)
    have ne: "of_nat ?n \<noteq> current_thread (g_sched s2)"
      using nc unat_slot [OF n] by (auto simp: s2_def s0_def)
    define t where "t = (switch_to ?n (Some ?c) s2)\<lparr>g_sched := (g_sched (switch_to ?n (Some ?c) s2))\<lparr>sched_lock := 0\<rparr>\<rparr>"
    have "sched_schedule s = Ret ((), t)"
      using assms(1) cur scan ne
      by (simp add: sched_schedule_def all_ready_def outcome_simps Let_def s0_def [symmetric] s2_def [symmetric] t_def)
    moreover have "all_ready t" "\<forall>i. same_thread (thread s i) (thread t i)"
      using assms(1) n c by (auto simp: all_ready_def t_def s2_def s0_def unat_slot MAX_THREADS_def)
    ultimately show ?thesis using n False by (simp add: t_def unat_slot next_slot_def s2_def s0_def)
  qed
qed

text \<open>A number of timer interrupts in a row.\<close>

primrec run_ticks :: "nat \<Rightarrow> 'z sched_kstate_scheme \<Rightarrow> 'z sched_kstate_scheme outcome" where
  "run_ticks 0 s = Ret s"
| "run_ticks (Suc k) s = bindR (sched_timer_interrupt s) (\<lambda>(u, t). run_ticks k t)"

lemma run_ticks_all_ready:
  assumes "all_ready s"
  shows "\<exists>t. run_ticks k s = Ret t \<and> all_ready t \<and>
     unat (current_thread (g_sched t)) = (if num_threads (g_sched s) = 0 then unat (current_thread (g_sched s))
       else (unat (current_thread (g_sched s)) + k) mod 128) \<and>
     (0 < k \<and> num_threads (g_sched s) \<noteq> 0 \<longrightarrow>
       thread_st (thread t (unat (current_thread (g_sched t)))) = THREAD_STATE_RUNNING) \<and>
     (\<forall>i. same_thread (thread s i) (thread t i))"
  using assms
proof (induction k arbitrary: s)
  case 0
  then show ?case by (simp add: all_ready_def MAX_THREADS_def)
next
  case (Suc k)
  let ?c = "unat (current_thread (g_sched s))"
  obtain u where u: "sched_schedule s = Ret ((), u)" "all_ready u" "num_threads (g_sched u) = num_threads (g_sched s)"
    "unat (current_thread (g_sched u)) = next_slot s"
    "num_threads (g_sched s) \<noteq> 0 \<longrightarrow> thread_st (thread u (next_slot s)) = THREAD_STATE_RUNNING"
    "\<And>i. same_thread (thread s i) (thread u i)"
    using sched_schedule_all_ready [OF Suc.prems] by auto
  have shift: "((?c + 1) mod 128 + k) mod 128 = (?c + Suc k) mod 128"
    by (simp add: mod_simps)
  from Suc.IH [OF u(2)] obtain t where t: "run_ticks k u = Ret t" "all_ready t"
    "unat (current_thread (g_sched t)) = (if num_threads (g_sched s) = 0 then next_slot s else (next_slot s + k) mod 128)"
    "0 < k \<and> num_threads (g_sched s) \<noteq> 0 \<longrightarrow> thread_st (thread t (unat (current_thread (g_sched t)))) = THREAD_STATE_RUNNING"
    "\<And>i. same_thread (thread u i) (thread t i)"
    unfolding u(3,4) by blast
  have "unat (current_thread (g_sched t)) = (if num_threads (g_sched s) = 0 then ?c else (?c + Suc k) mod 128)"
    using t(3) shift by (simp add: next_slot_def)
  moreover have "num_threads (g_sched s) \<noteq> 0 \<longrightarrow> thread_st (thread t (unat (current_thread (g_sched t)))) = THREAD_STATE_RUNNING"
    using t(1,4) u(4,5) by (cases k) auto
  ultimately show ?case using t(1,2,5) u(1,6)
    by (auto simp: sched_timer_interrupt_def intro: same_thread_trans)
qed

section \<open>One running thread\<close>

interpretation thr: id_table thread put_thread MAX_THREADS slot_free thread_id
  by unfold_locales simp

lemma on_mm_keeps:
  "on_mm f s = Ret (r, t) \<Longrightarrow> g_sched t = g_sched s \<and> g_cap t = g_cap s"
  by (auto simp: outcome_simps)

text \<open>
  The scheduler's invariant: the current slot is in the table, the lock is free between calls,
  and only the current thread can be running.
\<close>

definition one_running :: "'z sched_kstate_scheme \<Rightarrow> bool" where
  "one_running s \<longleftrightarrow> unat (current_thread (g_sched s)) < MAX_THREADS \<and>
     (\<forall>i<MAX_THREADS. thread_st (thread s i) = THREAD_STATE_RUNNING \<longrightarrow> i = unat (current_thread (g_sched s)))"

definition sched_inv :: "'z sched_kstate_scheme \<Rightarrow> bool" where
  "sched_inv s \<longleftrightarrow> sched_lk s = 0 \<and> one_running s"

lemma one_running_upd [simp]:
  "one_running (sched_upd f s) = one_running s"
  "one_running (s\<lparr>g_sched := (g_sched s)\<lparr>sched_lock := l\<rparr>\<rparr>) = one_running s"
  "one_running (s\<lparr>g_sched := (g_sched s)\<lparr>num_threads := n\<rparr>\<rparr>) = one_running s"
  "one_running (s\<lparr>g_sched := (g_sched s)\<lparr>timer_ticks := k\<rparr>\<rparr>) = one_running s"
  "one_running (s\<lparr>g_mm := m\<rparr>) = one_running s"
  "one_running (s\<lparr>g_sched := (g_sched s)\<lparr>next_thread_id := d, num_threads := n\<rparr>\<rparr>) = one_running s"
  by (simp_all add: one_running_def)

lemma one_running_cong: "g_sched t = g_sched s \<Longrightarrow> one_running t = one_running s"
  by (simp add: one_running_def)

lemma sched_inv_cong: "g_sched t = g_sched s \<Longrightarrow> sched_inv t = sched_inv s"
  by (simp add: sched_inv_def one_running_def)

lemma one_running_put:
  "one_running s \<Longrightarrow> thread_st e \<noteq> THREAD_STATE_RUNNING \<Longrightarrow> one_running (put_thread i e s)"
  by (auto simp: one_running_def)

lemma one_running_use_slice [simp]: "one_running (use_slice c s) = one_running s"
  by (simp add: one_running_def)

lemma one_running_switch:
  assumes "one_running s" "n < MAX_THREADS" "c = Some (unat (current_thread (g_sched s)))"
  shows "one_running (switch_to n c s)"
  using assms by (auto simp: one_running_def unat_slot)

text \<open>A locked operation keeps the invariant when its body keeps the running thread unique.\<close>

lemma locked_inv:
  assumes "locked sched_lk sched_upd body s = Ret (r, t)" "sched_inv s"
    and "\<And>s1 r u. one_running s1 \<Longrightarrow> body s1 = Ret (r, u) \<Longrightarrow> one_running u"
  shows "sched_inv t"
proof -
  from assms(1) obtain u where u: "body (sched_upd (\<lambda>_. 1) s) = Ret (r, u)" "t = sched_upd (\<lambda>_. 0) u"
    by (rule schedl.returnsE)
  have "one_running (sched_upd (\<lambda>_. 1) s)" using assms(2) by (simp add: sched_inv_def one_running_def)
  from assms(3) [OF this u(1)] show ?thesis by (simp add: u(2) sched_inv_def one_running_def)
qed

text \<open>What a call that returns an identifier has done.\<close>

definition created ::
  "nat \<Rightarrow> tcb \<Rightarrow> mm_state \<Rightarrow> 'z sched_kstate_scheme \<Rightarrow> 'z sched_kstate_scheme" where
  "created slot e m s = (put_thread slot e (s\<lparr>g_mm := m\<rparr>))\<lparr>g_sched :=
     (g_sched (put_thread slot e s))\<lparr>next_thread_id := next_thread_id (g_sched s) + 1,
       num_threads := num_threads (g_sched s) + 1\<rparr>\<rparr>"

lemma created_simps [simp]:
  "thread (created k e m s) i = (if i = k then e else thread s i)"
  "num_threads (g_sched (created k e m s)) = num_threads (g_sched s) + 1"
  "next_thread_id (g_sched (created k e m s)) = next_thread_id (g_sched s) + 1"
  "current_thread (g_sched (created k e m s)) = current_thread (g_sched s)"
  "sched_lock (g_sched (created k e m s)) = sched_lock (g_sched s)"
  "g_mm (created k e m s) = m" "g_cap (created k e m s) = g_cap s"
  by (simp_all add: created_def put_thread_def)

lemma sched_create_cases:
  assumes "sched_create_thread did e a p s = Ret (r, t)"
  shows "sched_lk s = 0 \<and>
    (r = 0 \<and> (\<exists>m. t = s\<lparr>g_mm := m\<rparr>) \<or>
     (\<exists>k base m. first_from (\<lambda>i. slot_free (thread s i)) 0 MAX_THREADS = Some k \<and>
        mm_alloc STACK_SIZE 16 MEM_TYPE_KERNEL did (g_mm s) = Ret (base, m) \<and> base \<noteq> 0 \<and>
        r = next_thread_id (g_sched s) \<and>
        t = created k (new_tcb r did e a p base) m s))"
proof -
  from assms obtain u where u: "sched_lk s = 0" "t = sched_upd (\<lambda>_. 0) u"
    and body: "(case first_from (\<lambda>i. slot_free (thread (sched_upd (\<lambda>_. 1) s) i)) 0 MAX_THREADS of
       None \<Rightarrow> Ret (0, sched_upd (\<lambda>_. 1) s)
     | Some slot \<Rightarrow>
         bindR (on_mm (mm_alloc STACK_SIZE 16 MEM_TYPE_KERNEL did) (sched_upd (\<lambda>_. 1) s)) (\<lambda>(base, s1).
         if base = 0 then Ret (0, s1)
         else let tid = next_thread_id (g_sched s1);
                  s2 = put_thread slot (new_tcb tid did e a p base) s1
              in Ret (tid, s2\<lparr>g_sched := (g_sched s2)\<lparr>next_thread_id := tid + 1,
                                num_threads := num_threads (g_sched s2) + 1\<rparr>\<rparr>))) = Ret (r, u)"
    unfolding sched_create_thread_def by (rule schedl.returnsE)
  have restore: "sched_upd (\<lambda>_. 0) (sched_upd (\<lambda>_. 1) s) = s"
    using u(1) by (cases "g_sched s"; cases s) simp
  show ?thesis
  proof (cases "first_from (\<lambda>i. slot_free (thread s i)) 0 MAX_THREADS")
    case None
    with body u restore have "r = 0" "t = s\<lparr>g_mm := g_mm s\<rparr>" by simp_all
    with u(1) show ?thesis by blast
  next
    case (Some k)
    with body obtain base m where m: "mm_alloc STACK_SIZE 16 MEM_TYPE_KERNEL did (g_mm s) = Ret (base, m)"
      and rest: "(if base = 0 then Ret (0, (sched_upd (\<lambda>_. 1) s)\<lparr>g_mm := m\<rparr>)
         else let tid = next_thread_id (g_sched ((sched_upd (\<lambda>_. 1) s)\<lparr>g_mm := m\<rparr>));
                  s2 = put_thread k (new_tcb tid did e a p base) ((sched_upd (\<lambda>_. 1) s)\<lparr>g_mm := m\<rparr>)
              in Ret (tid, s2\<lparr>g_sched := (g_sched s2)\<lparr>next_thread_id := tid + 1,
                                num_threads := num_threads (g_sched s2) + 1\<rparr>\<rparr>)) = Ret (r, u)"
      by (auto simp: outcome_simps)
    show ?thesis
    proof (cases "base = 0")
      case True
      with rest have "r = 0" "u = (sched_upd (\<lambda>_. 1) s)\<lparr>g_mm := m\<rparr>" by auto
      moreover from this have "t = s\<lparr>g_mm := m\<rparr>" using u(1) by (cases "g_sched s") (simp add: u(2))
      ultimately show ?thesis using u(1) by blast
    next
      case False
      with rest have r: "r = next_thread_id (g_sched s)"
        and "t = created k (new_tcb r did e a p base) m s"
        using u by (auto simp: Let_def created_def put_thread_def)
      with Some m False u(1) show ?thesis by blast
    qed
  qed
qed

lemma sched_inv_create:
  assumes "sched_create_thread did e a p s = Ret (r, t)" "sched_inv s"
  shows "sched_inv t"
  using sched_create_cases [OF assms(1)] assms(2)
  by (auto simp: sched_inv_def one_running_def new_tcb_def split: if_splits)

lemma sched_inv_terminate:
  "sched_terminate_thread tid s = Ret (r, t) \<Longrightarrow> sched_inv s \<Longrightarrow> sched_inv t"
  unfolding sched_terminate_thread_def
  by (erule locked_inv)
    (auto simp: outcome_simps Let_def one_running_def split: option.splits if_splits)

lemma sched_inv_block: "sched_block s = Ret (r, t) \<Longrightarrow> sched_inv s \<Longrightarrow> sched_inv t"
  unfolding sched_block_def
  by (erule locked_inv) (auto intro!: one_running_put split: option.splits)

lemma sched_inv_unblock: "sched_unblock tid s = Ret (r, t) \<Longrightarrow> sched_inv s \<Longrightarrow> sched_inv t"
  unfolding sched_unblock_def
  by (erule locked_inv) (auto intro!: one_running_put split: option.splits)

text \<open>What a timer tick does: nothing but accounting, or a switch to a ready slot.\<close>

lemma sched_schedule_cases:
  assumes "sched_schedule s = Ret (r, t)"
  defines "q \<equiv> use_slice (sched_get_current s)
    (s\<lparr>g_sched := (g_sched s)\<lparr>sched_lock := 1, timer_ticks := timer_ticks (g_sched s) + 1\<rparr>\<rparr>)"
  shows "t = sched_upd (\<lambda>_. 0) q \<or>
    (\<exists>n<MAX_THREADS. of_nat n \<noteq> current_thread (g_sched s) \<and> thread_st (thread s n) = THREAD_STATE_READY \<and>
       t = sched_upd (\<lambda>_. 0) (switch_to n (sched_get_current s) q))"
proof -
  let ?s1 = "s\<lparr>g_sched := (g_sched s)\<lparr>sched_lock := 1, timer_ticks := timer_ticks (g_sched s) + 1\<rparr>\<rparr>"
  have cur: "sched_get_current ?s1 = sched_get_current s" by (simp add: sched_get_current_def)
  have norm: "(sched_upd (\<lambda>_. 1) s)\<lparr>g_sched := (g_sched (sched_upd (\<lambda>_. 1) s))
      \<lparr>timer_ticks := timer_ticks (g_sched (sched_upd (\<lambda>_. 1) s)) + 1\<rparr>\<rparr> = ?s1" by simp
  define F where "F = (case rr_scan (g_sched q) 1 of None \<Rightarrow> Hang | Some None \<Rightarrow> Ret ((), q)
        | Some (Some nx) \<Rightarrow> Ret ((), if of_nat nx \<noteq> current_thread (g_sched q)
            then switch_to nx (sched_get_current s) q else q))"
  have "sched_schedule s = (if sched_lk s = 0
      then bindR F (\<lambda>(r, s2). Ret (r, sched_upd (\<lambda>_. 0) s2)) else Hang)"
    unfolding sched_schedule_def locked_eq Let_def norm cur q_def F_def by (rule refl)
  then obtain v where v: "F = Ret (r, v)" "t = sched_upd (\<lambda>_. 0) v"
    using assms(1) by (cases F) (auto split: if_splits)
  show ?thesis
  proof (cases "\<exists>n. rr_scan (g_sched q) 1 = Some (Some n) \<and> of_nat n \<noteq> current_thread (g_sched q)")
    case True
    then obtain n where n: "rr_scan (g_sched q) 1 = Some (Some n)" "of_nat n \<noteq> current_thread (g_sched q)"
      by blast
    then have "F = Ret ((), switch_to n (sched_get_current s) q)" by (simp add: F_def)
    with v have "t = sched_upd (\<lambda>_. 0) (switch_to n (sched_get_current s) q)" by simp
    moreover have "n < MAX_THREADS" "of_nat n \<noteq> current_thread (g_sched s)"
      "thread_st (thread s n) = THREAD_STATE_READY"
      using rr_scan_found [OF n(1)] n(2) by (simp_all add: q_def MAX_THREADS_def)
    ultimately show ?thesis by blast
  next
    case False
    then have "F = Hang \<or> F = Ret ((), q)"
      unfolding F_def by (cases "rr_scan (g_sched q) 1") (auto split: option.splits)
    with v have "t = sched_upd (\<lambda>_. 0) q" by auto
    then show ?thesis ..
  qed
qed

lemma sched_inv_schedule:
  assumes "sched_schedule s = Ret (r, t)" "sched_inv s"
  shows "sched_inv t"
proof -
  let ?s1 = "s\<lparr>g_sched := (g_sched s)\<lparr>sched_lock := 1, timer_ticks := timer_ticks (g_sched s) + 1\<rparr>\<rparr>"
  let ?q = "use_slice (sched_get_current s) ?s1"
  have q: "one_running ?q" and cur: "sched_get_current s = Some (unat (current_thread (g_sched ?q)))"
    using assms(2) by (simp_all add: sched_get_current_def sched_inv_def one_running_def)
  from sched_schedule_cases [OF assms(1)]
  consider "t = sched_upd (\<lambda>_. 0) ?q"
    | n where "n < MAX_THREADS" "t = sched_upd (\<lambda>_. 0) (switch_to n (sched_get_current s) ?q)"
    by blast
  then show ?thesis
  proof cases
    case 1
    with q show ?thesis by (simp add: sched_inv_def)
  next
    case 2
    with one_running_switch [OF q 2(1) cur] show ?thesis by (simp add: sched_inv_def)
  qed
qed

text \<open>
  The calls into the scheduler, in any order and from any component; \<open>other\<close> is a step of the
  rest of the kernel, free to change everything but \<open>g_sched_state\<close>.
\<close>

inductive sched_step :: "'z sched_kstate_scheme \<Rightarrow> 'z sched_kstate_scheme \<Rightarrow> bool" where
  create: "sched_create_thread did e a p s = Ret (tid, t) \<Longrightarrow> sched_step s t"
| terminate: "sched_terminate_thread tid s = Ret (r, t) \<Longrightarrow> sched_step s t"
| block: "sched_block s = Ret (r, t) \<Longrightarrow> sched_step s t"
| unblock: "sched_unblock tid s = Ret (r, t) \<Longrightarrow> sched_step s t"
| tick: "sched_timer_interrupt s = Ret (u, t) \<Longrightarrow> sched_step s t"
| other: "g_sched t = g_sched s \<Longrightarrow> sched_step s t"

inductive_cases sched_stepE: "sched_step s t"

inductive sched_reach :: "'z sched_kstate_scheme \<Rightarrow> bool" where
  boot: "sched_init a s0 = Ret (r, s) \<Longrightarrow> sched_reach s"
| move: "sched_reach s \<Longrightarrow> sched_step s t \<Longrightarrow> sched_reach t"

lemma sched_inv_init: "sched_init a s0 = Ret (r, s) \<Longrightarrow> sched_inv s"
  by (auto simp: sched_init_def outcome_simps split: prod.splits dest!: sched_inv_create)
    (simp add: sched_inv_def one_running_def zero_tcb_def MAX_THREADS_def)

lemmas sched_inv_calls = sched_inv_create sched_inv_terminate sched_inv_block sched_inv_unblock sched_inv_schedule

lemma sched_inv_step: "sched_step s t \<Longrightarrow> sched_inv s \<Longrightarrow> sched_inv t"
  by (erule sched_stepE) (auto simp: sched_timer_interrupt_def dest: sched_inv_calls sched_inv_cong)

lemma sched_inv_reach: "sched_reach s \<Longrightarrow> sched_inv s"
  by (induction rule: sched_reach.induct) (auto intro: sched_inv_init sched_inv_step)

section \<open>Termination\<close>

definition terminated :: "nat \<Rightarrow> 'z sched_kstate_scheme \<Rightarrow> 'z sched_kstate_scheme" where
  "terminated i s = (put_thread i ((thread s i)\<lparr>thread_st := THREAD_STATE_TERMINATED\<rparr>) s)\<lparr>
     g_sched := (g_sched (put_thread i ((thread s i)\<lparr>thread_st := THREAD_STATE_TERMINATED\<rparr>) s))\<lparr>
       num_threads := num_threads (g_sched s) - 1\<rparr>\<rparr>"

lemma terminated_simps [simp]:
  "thread (terminated i s) j = (if j = i then (thread s i)\<lparr>thread_st := THREAD_STATE_TERMINATED\<rparr> else thread s j)"
  "num_threads (g_sched (terminated i s)) = num_threads (g_sched s) - 1"
  "sched_lock (g_sched (terminated i s)) = sched_lock (g_sched s)"
  "g_mm (terminated i s) = g_mm s"
  by (simp_all add: terminated_def put_thread_def)

lemma sched_terminate_eq:
  assumes "sched_lk s = 0" "mm_free (stack_base (thread s i)) (g_mm s) = Ret (r, m)"
    and "first_from (\<lambda>i. thread_id (thread s i) = tid) 0 MAX_THREADS = Some i"
  shows "sched_terminate_thread tid s = Ret (0, (terminated i s)\<lparr>g_mm := m\<rparr>)"
proof -
  have "sched_terminate_thread tid s = Ret (0, sched_upd (\<lambda>_. 0)
     (((put_thread i ((thread s i)\<lparr>thread_st := THREAD_STATE_TERMINATED\<rparr>) (sched_upd (\<lambda>_. 1) s))\<lparr>g_mm := m\<rparr>)\<lparr>
        g_sched := (g_sched (put_thread i ((thread s i)\<lparr>thread_st := THREAD_STATE_TERMINATED\<rparr>) (sched_upd (\<lambda>_. 1) s)))\<lparr>
          num_threads := num_threads (g_sched s) - 1\<rparr>\<rparr>))"
    using assms by (simp add: sched_terminate_thread_def outcome_simps on_mm_def Let_def)
  with assms(1) show ?thesis by (cases "g_sched s") (simp add: terminated_def put_thread_def)
qed

definition free_at :: "nat \<Rightarrow> mm_state \<Rightarrow> mm_state" where
  "free_at p s = s\<lparr>frames := (frames s)(p := \<lparr>frame_type = MEM_TYPE_AVAILABLE, frame_owner = 0\<rparr>),
     available_pages := available_pages s + 1, allocated_pages := allocated_pages s - 1\<rparr>"

lemma mm_free_eq:
  assumes "mm_ok s" "mm_lock s = 0" "unat (addr div PAGE_SIZE) < npages s"
  shows "mm_free addr s = Ret (0, free_at (unat (addr div PAGE_SIZE)) s)"
proof -
  have "addr div PAGE_SIZE < total_pages s" using assms(3) by (simp add: npages_def word_less_nat_alt)
  moreover have "unat (addr div PAGE_SIZE) < MAX_PAGES" using assms(1,3) by (simp add: mm_ok_def)
  ultimately show ?thesis
    using assms(2) by (simp add: mm_free_def outcome_simps Let_def free_at_def not_le [symmetric])
qed

lemma free_at_simps [simp]:
  "mm_ok (free_at p s) = mm_ok s" "mm_lock (free_at p s) = mm_lock s" "npages (free_at p s) = npages s"
  "available_pages (free_at p s) = available_pages s + 1" "allocated_pages (free_at p s) = allocated_pages s - 1"
  "frames (free_at p (free_at p s)) = frames (free_at p s)"
  by (simp_all add: free_at_def npages_def mm_ok_def)

section \<open>A sample kernel\<close>

text \<open>The state before \<open>sched_init\<close>, with 40 free pages above page 0.\<close>

definition big_mm :: mm_state where
  "big_mm = sample_mm\<lparr>frames := (\<lambda>i. if 1 \<le> i \<and> i \<le> 40 then zero_frame\<lparr>frame_type := MEM_TYPE_AVAILABLE\<rparr>
                                     else zero_frame), total_pages := 64, available_pages := 40\<rparr>"

definition sample_kernel :: sched_kstate where
  "sample_kernel = \<lparr>g_mm = big_mm, g_cap = sample_caps, g_irq = g_irq sample_iso,
     g_tables = g_tables sample_iso, g_gates = g_gates sample_iso, pt_mem = pt_mem sample_iso,
     tlb_log = [], g_sched = \<lparr>threads = (\<lambda>_. zero_tcb), num_threads = 0, current_thread = 0,
       next_thread_id = 1, sched_lock = 0, timer_ticks = 0\<rparr>\<rparr>"

lemma big_mm_simps [simp]:
  "mm_ok big_mm" "mm_lock big_mm = 0" "npages big_mm = 64" "total_pages big_mm = 64"
  "avail big_mm i \<longleftrightarrow> 1 \<le> i \<and> i \<le> 40"
  by (auto simp: big_mm_def sample_mm_def mm_ok_def npages_def MAX_PAGES_def avail_def zero_frame_def)

lemma stack_pages: "pages_for STACK_SIZE = 16" "pages_for 16 = 1"
  by (simp_all add: pages_for_def PAGE_SIZE_def STACK_SIZE_def)

lemma big_first_fit: "first_fit big_mm 16 = Some 1"
proof -
  have "\<not> run big_mm 0 16" by (auto simp: run_def intro: exI [of _ 0])
  moreover have "run big_mm (Suc 0) 16" by (auto simp: run_def)
  ultimately show ?thesis by (simp add: first_fit_def first_from_skip first_from_hit)
qed

lemma sample_stack:
  "mm_alloc STACK_SIZE 16 MEM_TYPE_KERNEL did big_mm =
     Ret (0x1000, alloc_at MEM_TYPE_KERNEL did 1 16 big_mm)"
  using mm_alloc_first_fit_eq [of big_mm 16 STACK_SIZE MEM_TYPE_KERNEL did] big_first_fit
  by (simp add: stack_pages PAGE_SIZE_def)

text \<open>\<open>sched_init\<close> on it: the idle thread is in slot 0.\<close>

definition idle_kernel :: sched_kstate where
  "idle_kernel = created 0 (new_tcb 1 0 0x100000 0 THREAD_PRIORITY_IDLE 0x1000)
     (alloc_at MEM_TYPE_KERNEL 0 1 16 big_mm) sample_kernel"

lemma slot0_free: "first_from (\<lambda>i. slot_free (threads (g_sched sample_kernel) i)) 0 MAX_THREADS = Some 0"
  by (rule first_from_hit) (simp_all add: sample_kernel_def slot_free_def zero_tcb_def MAX_THREADS_def)

lemma sample_kernel_create:
  "sched_create_thread did e a p sample_kernel =
     Ret (1, created 0 (new_tcb 1 did e a p 0x1000) (alloc_at MEM_TYPE_KERNEL did 1 16 big_mm) sample_kernel)"
  using slot0_free
  by (simp add: sched_create_thread_def outcome_simps on_mm_def sample_stack sample_kernel_def
      Let_def created_def put_thread_def)

lemma idle_kernel_init: "sched_init 0x100000 sample_kernel = Ret (0, idle_kernel)"
proof -
  have "sample_kernel\<lparr>g_sched := \<lparr>threads = (\<lambda>_. zero_tcb), num_threads = 0, current_thread = 0,
      next_thread_id = 1, sched_lock = 0, timer_ticks = 0\<rparr>\<rparr> = sample_kernel"
    by (simp add: sample_kernel_def)
  then show ?thesis by (simp add: sched_init_def sample_kernel_create idle_kernel_def)
qed

lemma idle_kernel_simps [simp]:
  "threads (g_sched idle_kernel) i = (if i = 0 then new_tcb 1 0 0x100000 0 THREAD_PRIORITY_IDLE 0x1000 else zero_tcb)"
  "num_threads (g_sched idle_kernel) = 1" "current_thread (g_sched idle_kernel) = 0"
  "sched_lock (g_sched idle_kernel) = 0" "next_thread_id (g_sched idle_kernel) = 2"
  "g_mm idle_kernel = alloc_at MEM_TYPE_KERNEL 0 1 16 big_mm"
  by (simp_all add: idle_kernel_def sample_kernel_def)

lemma idle_kernel_ready: "all_ready idle_kernel"
  by (simp add: all_ready_def MAX_THREADS_def zero_tcb_def new_tcb_def)

text \<open>A second thread is given the next sixteen pages, and slot 0 again.\<close>

lemma second_first_fit: "first_fit (alloc_at ty ow 1 16 big_mm) 16 = Some 17"
  if "ty \<noteq> MEM_TYPE_AVAILABLE"
  unfolding first_fit_def
proof (rule first_from_SomeI)
  show "run (alloc_at ty ow 1 16 big_mm) 17 16"
    using that by (auto simp: run_def avail_alloc_at)
  show "\<not> run (alloc_at ty ow 1 16 big_mm) j 16" if "j < 17" for j
    using \<open>ty \<noteq> MEM_TYPE_AVAILABLE\<close> that by (auto simp: run_def avail_alloc_at intro!: exI [of _ 0])
qed simp_all

definition two_threads :: sched_kstate where
  "two_threads = created 0 (new_tcb 2 5 0x200000 0 THREAD_PRIORITY_HIGH 0x11000)
     (alloc_at MEM_TYPE_KERNEL 5 17 16 (alloc_at MEM_TYPE_KERNEL 0 1 16 big_mm)) idle_kernel"

lemma two_threads_create:
  "sched_create_thread 5 0x200000 0 THREAD_PRIORITY_HIGH idle_kernel = Ret (2, two_threads)"
proof -
  have slot: "first_from (\<lambda>i. slot_free (threads (g_sched idle_kernel) i)) 0 MAX_THREADS = Some 0"
    by (rule first_from_hit) (simp_all add: slot_free_def new_tcb_def MAX_THREADS_def)
  have mm: "mm_alloc STACK_SIZE 16 MEM_TYPE_KERNEL 5 (g_mm idle_kernel) =
      Ret (0x11000, alloc_at MEM_TYPE_KERNEL 5 17 16 (g_mm idle_kernel))"
    using mm_alloc_first_fit_eq [of "g_mm idle_kernel" 16 STACK_SIZE MEM_TYPE_KERNEL 5]
      second_first_fit [of MEM_TYPE_KERNEL 0]
    by (simp add: stack_pages PAGE_SIZE_def mm_ok_def MAX_PAGES_def)
  have "sched_create_thread 5 0x200000 0 THREAD_PRIORITY_HIGH idle_kernel = Ret (2,
      created 0 (new_tcb 2 5 0x200000 0 THREAD_PRIORITY_HIGH 0x11000)
       (alloc_at MEM_TYPE_KERNEL 5 17 16 (g_mm idle_kernel)) idle_kernel)"
    using slot mm
    by (simp add: sched_create_thread_def outcome_simps on_mm_def Let_def created_def put_thread_def)
  then show ?thesis by (simp add: two_threads_def)
qed

text \<open>The state the round robin needs is there after \<open>sched_init\<close>, and creations keep it.\<close>

lemma sched_create_all_ready:
  assumes "sched_create_thread did e a p s = Ret (r, t)" "all_ready s"
  shows "all_ready t"
  using sched_create_cases [OF assms(1)] assms(2) by (auto simp: all_ready_def new_tcb_def)

lemma sched_init_all_ready:
  assumes "sched_init idle s = Ret (r, t)"
  shows "all_ready t"
proof -
  let ?s = "s\<lparr>g_sched := \<lparr>threads = (\<lambda>_. zero_tcb), num_threads = 0, current_thread = 0,
    next_thread_id = 1, sched_lock = 0, timer_ticks = 0\<rparr>\<rparr>"
  have "all_ready ?s" by (simp add: all_ready_def MAX_THREADS_def zero_tcb_def)
  moreover obtain tid where "sched_create_thread 0 idle 0 THREAD_PRIORITY_IDLE ?s = Ret (tid, t)"
    using assms by (auto simp: sched_init_def outcome_simps)
  ultimately show ?thesis using sched_create_all_ready by blast
qed

section \<open>Properties\<close>

text \<open>
  C39. Scheduler invariant: in every state reached from \<open>sched_init\<close> by creating, terminating,
  blocking, unblocking and timer ticks, interleaved with any activity of the other components,
  the scheduler's lock is free between calls, the current index is inside the table, and at
  most one thread is \<open>RUNNING\<close>: the current one.
\<close>

theorem sched_one_running:
  assumes "sched_reach s"
  shows "sched_lk s = 0 \<and> unat (current_thread (g_sched s)) < MAX_THREADS \<and>
    (\<forall>i<MAX_THREADS. thread_st (thread s i) = THREAD_STATE_RUNNING \<longrightarrow> i = unat (current_thread (g_sched s)))"
  using sched_inv_reach [OF assms] by (simp add: sched_inv_def one_running_def)

theorem sched_one_running_witness:
  "\<exists>t. sched_schedule idle_kernel = Ret ((), t) \<and> thread_st (thread t 1) = THREAD_STATE_RUNNING \<and>
     card {i. i < MAX_THREADS \<and> thread_st (thread t i) = THREAD_STATE_RUNNING} = 1"
proof -
  from sched_schedule_all_ready [OF idle_kernel_ready]
  obtain t where t: "sched_schedule idle_kernel = Ret ((), t)" "unat (current_thread (g_sched t)) = 1"
    "thread_st (thread t 1) = THREAD_STATE_RUNNING"
    by (auto simp: next_slot_def)
  have "sched_reach t"
    by (rule sched_reach.move [OF sched_reach.boot [OF idle_kernel_init]])
      (simp add: sched_step.tick sched_timer_interrupt_def t(1))
  from sched_one_running [OF this] t(2,3)
  have "{i. i < MAX_THREADS \<and> thread_st (thread t i) = THREAD_STATE_RUNNING} = {1}"
    by (auto simp: MAX_THREADS_def)
  with t(1,3) show ?thesis by simp
qed

text \<open>
  C40. Round robin over the whole table. Let every slot but the current one read as ready, as it does after \<open>sched_init\<close>
  and any number of creations (lemmas \<open>sched_init_all_ready\<close> and \<open>sched_create_all_ready\<close>). If \<open>num_threads\<close> is not 0,
  \<open>k\<close> timer ticks move the processor \<open>k\<close> slots on, modulo 128, whatever the priorities; no slot waits more than 127 ticks,
  and the slots no thread was created in take their turn like the others: a zeroed control block has the state
  \<open>READY\<close>. If \<open>num_threads\<close> is 0, as when \<open>sched_init\<close> gets no stack for the idle thread, no tick ever moves the
  processor. In both cases every other slot stays ready, and the identity and the stack of every slot are left alone.
\<close>

theorem sched_round_robin:
  assumes "all_ready s"
  shows "\<exists>t. run_ticks k s = Ret t \<and>
     unat (current_thread (g_sched t)) = (if num_threads (g_sched s) = 0 then unat (current_thread (g_sched s))
       else (unat (current_thread (g_sched s)) + k) mod 128) \<and>
     (0 < k \<and> num_threads (g_sched s) \<noteq> 0 \<longrightarrow>
       thread_st (thread t (unat (current_thread (g_sched t)))) = THREAD_STATE_RUNNING) \<and>
     (\<forall>i<MAX_THREADS. i \<noteq> unat (current_thread (g_sched t)) \<longrightarrow> thread_st (thread t i) = THREAD_STATE_READY) \<and>
     (\<forall>i. same_thread (thread s i) (thread t i))"
  using run_ticks_all_ready [OF assms, of k] unfolding all_ready_def by blast

theorem sched_round_robin_witness:
  "\<exists>t. run_ticks 1 idle_kernel = Ret t \<and> current_thread (g_sched t) = 1 \<and>
     thread_st (thread t 1) = THREAD_STATE_RUNNING \<and> thread_id (thread t 1) = 0 \<and>
     entry_point (thread t 1) = 0 \<and> stack_ptr (thread t 1) = 0"
proof -
  from sched_round_robin [OF idle_kernel_ready, of 1] obtain t where
    t: "run_ticks 1 idle_kernel = Ret t" "unat (current_thread (g_sched t)) = 1"
    "thread_st (thread t 1) = THREAD_STATE_RUNNING" "\<And>i. same_thread (thread idle_kernel i) (thread t i)"
    by auto
  have "current_thread (g_sched t) = 1" using t(2) by (metis unat_1 word_unat_eq_iff)
  moreover from t(4) [of 1] have "thread_id (thread t 1) = 0 \<and> entry_point (thread t 1) = 0 \<and> stack_ptr (thread t 1) = 0"
    by (simp add: same_thread_def zero_tcb_def) (metis tcb.select_convs(1,7,8) tcb.surjective tcb.update_convs(3,10))
  ultimately show ?thesis using t by blast
qed

text \<open>
  A thread is lost when the next one is created before it is scheduled: the slot search
  takes a \<open>READY\<close> slot for a free one, so two successful calls in a row write the same slot.
  The first identifier is then unknown to every later call, while both creations are counted.
\<close>

theorem sched_create_evicts_ready_thread:
  assumes "sched_create_thread d1 e1 a1 p1 s = Ret (t1, s1)" "t1 \<noteq> 0"
    and "sched_create_thread d2 e2 a2 p2 s1 = Ret (t2, s2)" "t2 \<noteq> 0"
    and "\<forall>i<MAX_THREADS. thread_id (thread s i) \<noteq> t1"
  shows "t2 = t1 + 1 \<and> num_threads (g_sched s2) = num_threads (g_sched s) + 2 \<and>
    (\<forall>i<MAX_THREADS. thread_id (thread s2 i) \<noteq> t1) \<and>
    sched_unblock t1 s2 = Ret (-1, s2) \<and> sched_terminate_thread t1 s2 = Ret (-1, s2)"
proof -
  from sched_create_cases [OF assms(1)] assms(2) obtain k b m where
    k: "first_from (\<lambda>i. slot_free (thread s i)) 0 MAX_THREADS = Some k"
    and t1: "t1 = next_thread_id (g_sched s)" and lk: "sched_lk s = 0"
    and s1: "s1 = created k (new_tcb t1 d1 e1 a1 p1 b) m s"
    by blast
  have again: "first_from (\<lambda>i. slot_free (thread s1 i)) 0 MAX_THREADS = Some k"
    by (rule first_from_SomeI)
      (use first_from_SomeD [OF k] in \<open>auto simp: s1 slot_free_def new_tcb_def\<close>)
  from sched_create_cases [OF assms(3)] assms(4) again obtain b' m' where
    t2: "t2 = next_thread_id (g_sched s1)" and s2: "s2 = created k (new_tcb t2 d2 e2 a2 p2 b') m' s1"
    by auto
  have t: "t2 = t1 + 1" by (simp add: t2 s1 t1)
  then have gone: "\<forall>i<MAX_THREADS. thread_id (thread s2 i) \<noteq> t1"
    using assms(5) by (auto simp: s2 s1 new_tcb_def)
  then have none: "first_from (\<lambda>i. thread_id (thread s2 i) = t1) 0 MAX_THREADS = None"
    "first_from (\<lambda>i. thread_id (thread s2 i) = t1 \<and> thread_st (thread s2 i) = THREAD_STATE_BLOCKED)
       0 MAX_THREADS = None"
    by (auto simp: first_from_None_iff)
  have lk2: "sched_lk s2 = 0" using lk by (simp add: s1 s2)
  have "sched_unblock t1 s2 = Ret (-1, s2)" "sched_terminate_thread t1 s2 = Ret (-1, s2)"
    using none lk2 by (simp_all add: sched_unblock_def sched_terminate_thread_def outcome_simps)
  with t gone show ?thesis by (simp add: s2 s1)
qed

theorem sched_create_evicts_ready_thread_witness:
  "sched_create_thread 0 0x100000 0 THREAD_PRIORITY_IDLE sample_kernel = Ret (1, idle_kernel) \<and>
   sched_create_thread 5 0x200000 0 THREAD_PRIORITY_HIGH idle_kernel = Ret (2, two_threads) \<and>
   sched_terminate_thread 1 two_threads = Ret (-1, two_threads)"
proof -
  have one: "sched_create_thread 0 0x100000 0 THREAD_PRIORITY_IDLE sample_kernel = Ret (1, idle_kernel)"
    by (simp add: sample_kernel_create idle_kernel_def)
  have "\<forall>i<MAX_THREADS. thread_id (thread sample_kernel i) \<noteq> 1"
    by (simp add: sample_kernel_def zero_tcb_def)
  from sched_create_evicts_ready_thread [OF one _ two_threads_create _ this] one two_threads_create
  show ?thesis by simp
qed

text \<open>
  \<open>sched_terminate_thread\<close> looks at the identifier only, so terminating the same thread
  again succeeds again: the same page is freed twice, the page counters move by two for the one
  page freed (the other fifteen pages of the stack stay allocated), and the thread count drops
  by two. Identifier 0 names a slot no thread was created in, whose stack base 0 frees page 0.
\<close>

theorem sched_terminate_twice:
  assumes "sched_lk s = 0" "mm_ok (g_mm s)" "mm_lock (g_mm s) = 0"
    and "first_from (\<lambda>i. thread_id (thread s i) = tid) 0 MAX_THREADS = Some i"
    and "unat (stack_base (thread s i) div PAGE_SIZE) < npages (g_mm s)"
  shows "\<exists>t u. sched_terminate_thread tid s = Ret (0, t) \<and> sched_terminate_thread tid t = Ret (0, u) \<and>
    num_threads (g_sched u) = num_threads (g_sched s) - 2 \<and>
    frames (g_mm u) = (frames (g_mm s))(unat (stack_base (thread s i) div PAGE_SIZE) :=
      \<lparr>frame_type = MEM_TYPE_AVAILABLE, frame_owner = 0\<rparr>) \<and>
    available_pages (g_mm u) = available_pages (g_mm s) + 2 \<and>
    allocated_pages (g_mm u) = allocated_pages (g_mm s) - 2"
proof -
  let ?p = "unat (stack_base (thread s i) div PAGE_SIZE)"
  define t where "t = (terminated i s)\<lparr>g_mm := free_at ?p (g_mm s)\<rparr>"
  define u where "u = (terminated i t)\<lparr>g_mm := free_at ?p (g_mm t)\<rparr>"
  have 1: "sched_terminate_thread tid s = Ret (0, t)"
    unfolding t_def by (rule sched_terminate_eq [OF assms(1) mm_free_eq assms(4)]) (use assms in auto)
  have fi: "thread_id (thread t j) = thread_id (thread s j)" "stack_base (thread t j) = stack_base (thread s j)" for j
    by (simp_all add: t_def)
  have 2: "sched_terminate_thread tid t = Ret (0, u)"
    unfolding u_def using assms fi
    by (intro sched_terminate_eq [where r = 0]) (auto simp: t_def mm_free_eq cong: if_cong)
  have "frames (g_mm u) = (frames (g_mm s))(?p := \<lparr>frame_type = MEM_TYPE_AVAILABLE, frame_owner = 0\<rparr>)"
    by (simp add: u_def t_def) (simp add: free_at_def)
  with 1 2 show ?thesis by (simp add: u_def t_def)
qed

theorem sched_terminate_twice_witness:
  "\<exists>t u. sched_terminate_thread 0 idle_kernel = Ret (0, t) \<and> sched_terminate_thread 0 t = Ret (0, u) \<and>
     num_threads (g_sched u) = - 1 \<and> frame_type (frames (g_mm u) 0) = MEM_TYPE_AVAILABLE"
proof -
  have slot: "first_from (\<lambda>i. thread_id (thread idle_kernel i) = 0) 0 MAX_THREADS = Some 1"
    by (rule first_from_SomeI) (auto simp: new_tcb_def zero_tcb_def MAX_THREADS_def)
  have "mm_ok (g_mm idle_kernel)" "mm_lock (g_mm idle_kernel) = 0"
    "unat (stack_base (thread idle_kernel 1) div PAGE_SIZE) < npages (g_mm idle_kernel)"
    by (simp_all add: zero_tcb_def)
  from sched_terminate_twice [OF _ this(1,2) slot this(3)] obtain t u where
    "sched_terminate_thread 0 idle_kernel = Ret (0, t)" "sched_terminate_thread 0 t = Ret (0, u)"
    "num_threads (g_sched u) = num_threads (g_sched idle_kernel) - 2"
    "frames (g_mm u) = (frames (g_mm idle_kernel))(unat (stack_base (thread idle_kernel 1) div PAGE_SIZE) :=
      \<lparr>frame_type = MEM_TYPE_AVAILABLE, frame_owner = 0\<rparr>)"
    by auto
  then show ?thesis by (auto simp: zero_tcb_def)
qed

text \<open>
  Blocking does not last: the switch away from a blocked thread writes \<open>READY\<close> into the slot
  it leaves, so the thread that called \<open>sched_block\<close> is runnable again after the next switch
  although nobody unblocked it.
\<close>

theorem sched_block_undone_by_switch:
  assumes "sched_block s = Ret (r, t)" "sched_schedule t = Ret ((), u)"
    and "unat (current_thread (g_sched s)) < MAX_THREADS"
    and "current_thread (g_sched u) \<noteq> current_thread (g_sched s)"
  shows "thread_st (thread t (unat (current_thread (g_sched s)))) = THREAD_STATE_BLOCKED \<and>
         thread_st (thread u (unat (current_thread (g_sched s)))) = THREAD_STATE_READY"
proof -
  let ?c = "unat (current_thread (g_sched s))"
  have t: "thread_st (thread t ?c) = THREAD_STATE_BLOCKED" "current_thread (g_sched t) = current_thread (g_sched s)"
    using assms(1,3) by (auto simp: sched_block_def outcome_simps sched_get_current_def split: if_splits)
  have "sched_get_current t = Some ?c" using assms(3) t(2) by (simp add: sched_get_current_def)
  then show ?thesis
    using sched_schedule_cases [OF assms(2)] assms(4) t by (auto split: if_splits)
qed

theorem sched_block_undone_by_switch_witness:
  "\<exists>t u. sched_block idle_kernel = Ret (0, t) \<and> thread_st (thread t 0) = THREAD_STATE_BLOCKED \<and>
     sched_schedule t = Ret ((), u) \<and> thread_st (thread u 0) = THREAD_STATE_READY"
proof -
  obtain t where t: "sched_block idle_kernel = Ret (0, t)" "all_ready t" "current_thread (g_sched t) = 0"
    "num_threads (g_sched t) = 1"
    by (auto simp: sched_block_def outcome_simps sched_get_current_def all_ready_def zero_tcb_def MAX_THREADS_def)
  from sched_schedule_all_ready [OF t(2)] t(3) obtain u where
    u: "sched_schedule t = Ret ((), u)" "unat (current_thread (g_sched u)) = 1" using t(4) by (auto simp: next_slot_def)
  from u(2) have "current_thread (g_sched u) \<noteq> current_thread (g_sched idle_kernel)" by auto
  from sched_block_undone_by_switch [OF t(1) u(1) _ this] t(1) u(1) show ?thesis
    by (auto simp: MAX_THREADS_def)
qed

end
