(* ===== verification/Strings.thy ===== *)
theory Strings
  imports Prelude
begin

text \<open>
  The string and memory functions of Core-0 (\<open>Core-0/lib/string.c\<close>). A pointer to an object is
  the list of the object's bytes together with an index; reading or writing past the end of
  the list is a \<open>Fault\<close>. Source and destination are distinct objects. A \<open>char\<close> is signed.
\<close>

type_synonym bytes = "u8 list"

text \<open>A string literal, with its terminator.\<close>

definition lit :: "string \<Rightarrow> bytes" where "lit s = map of_char s @ [0]"

text \<open>Little-endian numbers.\<close>

definition le_bytes :: "nat \<Rightarrow> u64 \<Rightarrow> bytes" where
  "le_bytes n v = map (\<lambda>i. ucast (drop_bit (8 * i) v)) [0..<n]"

definition le_value :: "bytes \<Rightarrow> u64" where "le_value bs = horner_sum ucast (2 ^ 8) bs"

lemma le_bytes_length [simp]: "length (le_bytes n v) = n"
  by (simp add: le_bytes_def)

lemma le_bytes_Suc: "le_bytes (Suc n) v = ucast v # le_bytes n (drop_bit 8 v)"
proof -
  have "[0..<Suc n] = 0 # map Suc [0..<n]" by (simp only: upt_conv_Cons [OF zero_less_Suc] map_Suc_upt)
  then show ?thesis by (simp add: le_bytes_def drop_bit_drop_bit add.commute del: upt_Suc)
qed

lemma le_value_bytes: "le_value (le_bytes n v) = take_bit (8 * n) v"
proof (induction n arbitrary: v)
  case 0
  then show ?case by (simp add: le_value_def le_bytes_def)
next
  case (Suc n)
  let ?low = "ucast (ucast v :: u8) :: u64" and ?high = "push_bit 8 (take_bit (8 * n) (drop_bit 8 v)) :: u64"
  have "?low AND ?high = 0" by (rule bit_word_eqI) (auto simp: bit_simps)
  then have "?low + ?high = ?low OR ?high" by (simp only: disjunctive_add_eq_or)
  moreover have "?low OR ?high = take_bit (8 * Suc n) v" by (rule bit_word_eqI) (auto simp: bit_simps)
  moreover have "le_value (le_bytes (Suc n) v) = ?low + ?high"
    using Suc.IH [of "drop_bit 8 v"] by (simp add: le_value_def le_bytes_Suc push_bit_eq_mult mult.commute)
  ultimately show ?case by simp
qed

section \<open>Memory operations\<close>

text \<open>\<open>while (size--)\<close> runs \<open>size\<close> times; \<open>i\<close> is how far both pointers have moved.\<close>

primrec memcpy_loop :: "nat \<Rightarrow> nat \<Rightarrow> bytes \<Rightarrow> bytes \<Rightarrow> bytes outcome" where
  "memcpy_loop 0 i dst src = Ret dst"
| "memcpy_loop (Suc n) i dst src =
     (if i < length dst \<and> i < length src then memcpy_loop n (Suc i) (dst[i := src ! i]) src else Fault)"

definition memcpy :: "bytes \<Rightarrow> bytes \<Rightarrow> u64 \<Rightarrow> bytes outcome" where
  "memcpy dst src sz = memcpy_loop (unat sz) 0 dst src"

text \<open>\<open>memcpy(d + i, src + j, n)\<close> between two objects.\<close>

primrec memcpy_at :: "nat \<Rightarrow> nat \<Rightarrow> nat \<Rightarrow> bytes \<Rightarrow> bytes \<Rightarrow> bytes outcome" where
  "memcpy_at 0 i j d src = Ret d"
| "memcpy_at (Suc n) i j d src =
     (if i < length d \<and> j < length src then memcpy_at n (Suc i) (Suc j) (d[i := src ! j]) src else Fault)"

primrec memset_loop :: "nat \<Rightarrow> nat \<Rightarrow> bytes \<Rightarrow> u8 \<Rightarrow> bytes outcome" where
  "memset_loop 0 i p v = Ret p"
| "memset_loop (Suc n) i p v = (if i < length p then memset_loop n (Suc i) (p[i := v]) v else Fault)"

definition memset :: "bytes \<Rightarrow> u8 \<Rightarrow> u64 \<Rightarrow> bytes outcome" where
  "memset p v sz = memset_loop (unat sz) 0 p v"

primrec memcmp_loop :: "nat \<Rightarrow> nat \<Rightarrow> bytes \<Rightarrow> bytes \<Rightarrow> int outcome" where
  "memcmp_loop 0 i p1 p2 = Ret 0"
| "memcmp_loop (Suc n) i p1 p2 =
     (if i < length p1 \<and> i < length p2
      then if p1 ! i \<noteq> p2 ! i then Ret (uint (p1 ! i) - uint (p2 ! i)) else memcmp_loop n (Suc i) p1 p2
      else Fault)"

definition memcmp :: "bytes \<Rightarrow> bytes \<Rightarrow> u64 \<Rightarrow> int outcome" where
  "memcmp p1 p2 sz = memcmp_loop (unat sz) 0 p1 p2"

section \<open>String operations\<close>

text \<open>A byte read through a pointer.\<close>

definition byte_at :: "bytes \<Rightarrow> nat \<Rightarrow> u8 outcome" where
  "byte_at s i = (if i < length s then Ret (s ! i) else Fault)"

function strlen_loop :: "nat \<Rightarrow> bytes \<Rightarrow> u64 outcome" where
  "strlen_loop len s = (if len < length s then
      if s ! len \<noteq> 0 then strlen_loop (Suc len) s else Ret (of_nat len)
    else Fault)"
  by pat_completeness auto
termination by (relation "measure (\<lambda>(i, s). length s - i)") auto

declare strlen_loop.simps [simp del]

definition strlen :: "bytes \<Rightarrow> u64 outcome" where "strlen s = strlen_loop 0 s"

text \<open>The difference of two characters, as the \<open>int\<close> the functions return.\<close>

definition char_diff :: "bytes \<Rightarrow> bytes \<Rightarrow> nat \<Rightarrow> int outcome" where
  "char_diff s1 s2 i = bindR (byte_at s1 i) (\<lambda>a. bindR (byte_at s2 i) (\<lambda>b. Ret (sint a - sint b)))"

text \<open>The condition \<open>*str1 && *str2 && *str1 == *str2\<close>, read left to right.\<close>

definition same_char :: "bytes \<Rightarrow> bytes \<Rightarrow> nat \<Rightarrow> bool outcome" where
  "same_char s1 s2 i = bindR (byte_at s1 i) (\<lambda>a. if a = 0 then Ret False
     else bindR (byte_at s2 i) (\<lambda>b. Ret (b \<noteq> 0 \<and> a = b)))"

lemma same_char_True: "same_char s1 s2 i = Ret True \<longleftrightarrow>
    i < length s1 \<and> i < length s2 \<and> s1 ! i \<noteq> 0 \<and> s1 ! i = s2 ! i"
  by (auto simp: same_char_def byte_at_def outcome_simps split: if_splits)

function strcmp_loop :: "nat \<Rightarrow> bytes \<Rightarrow> bytes \<Rightarrow> int outcome" where
  "strcmp_loop i s1 s2 = (if same_char s1 s2 i = Ret True then strcmp_loop (Suc i) s1 s2
     else bindR (same_char s1 s2 i) (\<lambda>_. char_diff s1 s2 i))"
  by pat_completeness auto
termination by (relation "measure (\<lambda>(i, s1, s2). length s1 - i)") (auto simp: same_char_True)

declare strcmp_loop.simps [simp del]

definition strcmp :: "bytes \<Rightarrow> bytes \<Rightarrow> int outcome" where "strcmp s1 s2 = strcmp_loop 0 s1 s2"

text \<open>
  \<open>n--\<close> decrements whatever the test yields, so leaving the loop because \<open>n\<close> is 0 leaves
  \<open>2^64 - 1\<close> in it.
\<close>

function strncmp_loop :: "u64 \<Rightarrow> nat \<Rightarrow> bytes \<Rightarrow> bytes \<Rightarrow> (u64 \<times> nat) outcome" where
  "strncmp_loop n i s1 s2 =
     (if n = 0 then Ret (n - 1, i)
      else if same_char s1 s2 i = Ret True then strncmp_loop (n - 1) (Suc i) s1 s2
      else bindR (same_char s1 s2 i) (\<lambda>_. Ret (n - 1, i)))"
  by pat_completeness auto
termination by (relation "measure (\<lambda>(n, i, s1, s2). length s1 - i)") (auto simp: same_char_True)

declare strncmp_loop.simps [simp del]

definition strncmp :: "bytes \<Rightarrow> bytes \<Rightarrow> u64 \<Rightarrow> int outcome" where
  "strncmp s1 s2 n = bindR (strncmp_loop n 0 s1 s2) (\<lambda>(n', i).
     if n' = 0 then Ret 0 else char_diff s1 s2 i)"

function strcpy_loop :: "nat \<Rightarrow> bytes \<Rightarrow> bytes \<Rightarrow> bytes outcome" where
  "strcpy_loop i dst src =
     (if i < length src \<and> i < length dst
      then if src ! i \<noteq> 0 then strcpy_loop (Suc i) (dst[i := src ! i]) src else Ret (dst[i := 0])
      else Fault)"
  by pat_completeness auto
termination by (relation "measure (\<lambda>(i, dst, src). length src - i)") auto

declare strcpy_loop.simps [simp del]

definition strcpy :: "bytes \<Rightarrow> bytes \<Rightarrow> bytes outcome" where "strcpy dst src = strcpy_loop 0 dst src"

text \<open>The two loops of \<open>strncpy\<close>; the second one is \<open>memset_loop\<close> with 0.\<close>

function strncpy_loop :: "u64 \<Rightarrow> nat \<Rightarrow> bytes \<Rightarrow> bytes \<Rightarrow> (u64 \<times> nat \<times> bytes) outcome" where
  "strncpy_loop n i dst src =
     (if n = 0 then Ret (n - 1, i, dst)
      else if \<not> i < length src then Fault
      else if src ! i = 0 then Ret (n - 1, i, dst)
      else if i < length dst then strncpy_loop (n - 1) (Suc i) (dst[i := src ! i]) src
      else Fault)"
  by pat_completeness auto
termination by (relation "measure (\<lambda>(n, i, dst, src). length src - i)") auto

declare strncpy_loop.simps [simp del]

definition strncpy :: "bytes \<Rightarrow> bytes \<Rightarrow> u64 \<Rightarrow> bytes outcome" where
  "strncpy dst src n = bindR (strncpy_loop n 0 dst src) (\<lambda>(n', i, d). memset_loop (unat n') i d 0)"

text \<open>The returned pointer is an index; the character searched for is an \<open>int\<close>.\<close>

function strchr_loop :: "nat \<Rightarrow> bytes \<Rightarrow> int \<Rightarrow> nat option outcome" where
  "strchr_loop i s c = (if i < length s then
      if s ! i = 0 then Ret None else if sint (s ! i) = c then Ret (Some i) else strchr_loop (Suc i) s c
    else Fault)"
  by pat_completeness auto
termination by (relation "measure (\<lambda>(i, s, c). length s - i)") auto

declare strchr_loop.simps [simp del]

definition strchr :: "bytes \<Rightarrow> int \<Rightarrow> nat option outcome" where "strchr s c = strchr_loop 0 s c"

section \<open>Functional behaviour\<close>

text \<open>The string a buffer holds, and whether it holds one.\<close>

definition cstr :: "bytes \<Rightarrow> bytes" where "cstr s = takeWhile (\<lambda>c. c \<noteq> 0) s"

definition is_cstr :: "bytes \<Rightarrow> bool" where "is_cstr s \<longleftrightarrow> 0 \<in> set s"

lemma memcpy_loop_eq:
  "i + n \<le> length dst \<Longrightarrow> i + n \<le> length src \<Longrightarrow>
   memcpy_loop n i dst src = Ret (take i dst @ take n (drop i src) @ drop (i + n) dst)"
proof (induction n arbitrary: i dst)
  case (Suc n)
  then have "memcpy_loop (Suc n) i dst src = Ret (take (Suc i) (dst[i := src ! i]) @
      take n (drop (Suc i) src) @ drop (Suc i + n) (dst[i := src ! i]))"
    by simp
  also have "take (Suc i) (dst[i := src ! i]) = take i dst @ [src ! i]"
    using Suc.prems by (simp add: take_Suc_conv_app_nth)
  also have "take n (drop (Suc i) src) = tl (take (Suc n) (drop i src))"
    by (simp add: drop_Suc take_Suc tl_drop tl_take)
  also have "(take i dst @ [src ! i]) @ tl (take (Suc n) (drop i src)) @ drop (Suc i + n) (dst[i := src ! i]) =
      take i dst @ take (Suc n) (drop i src) @ drop (i + Suc n) dst"
    using Suc.prems by (cases "drop i src") (auto simp: drop_update_cancel nth_via_drop)
  finally show ?case .
qed simp

lemma memcpy_loop_fault:
  "i \<le> length dst \<Longrightarrow> i \<le> length src \<Longrightarrow> length dst < i + n \<or> length src < i + n \<Longrightarrow>
   memcpy_loop n i dst src = Fault"
  by (induction n arbitrary: i dst) auto

lemma memcpy_at_spec:
  assumes "i + n \<le> length d" "j + n \<le> length src"
  shows "\<exists>r. memcpy_at n i j d src = Ret r \<and> length r = length d \<and>
    (\<forall>k. r ! k = (if i \<le> k \<and> k < i + n then src ! (j + (k - i)) else d ! k))"
  using assms
proof (induction n arbitrary: i j d)
  case 0
  then show ?case by auto
next
  case (Suc n)
  let ?d = "d[i := src ! j]"
  have "Suc i + n \<le> length ?d" "Suc j + n \<le> length src" using Suc.prems by auto
  from Suc.IH [OF this] obtain r where r: "memcpy_at n (Suc i) (Suc j) ?d src = Ret r" "length r = length ?d"
    "\<And>k. r ! k = (if Suc i \<le> k \<and> k < Suc i + n then src ! (Suc j + (k - Suc i)) else ?d ! k)" by blast
  have "r ! k = (if i \<le> k \<and> k < i + Suc n then src ! (j + (k - i)) else d ! k)" for k
  proof (cases "Suc i \<le> k \<and> k < Suc i + n")
    case True
    then have "Suc j + (k - Suc i) = j + (k - i)" by auto
    with r(3) [of k] True show ?thesis by auto
  next
    case False
    with r(3) [of k] Suc.prems show ?thesis by (cases "k = i") auto
  qed
  with r(1,2) Suc.prems show ?case by auto
qed

lemma memcpy_at_eq:
  assumes "i + n \<le> length d" "j + n \<le> length src"
  shows "memcpy_at n i j d src = Ret (take i d @ take n (drop j src) @ drop (i + n) d)"
proof -
  obtain r where r: "memcpy_at n i j d src = Ret r" "length r = length d"
    "\<And>k. r ! k = (if i \<le> k \<and> k < i + n then src ! (j + (k - i)) else d ! k)"
    using memcpy_at_spec [OF assms] by blast
  have "r = take i d @ take n (drop j src) @ drop (i + n) d"
  proof (rule nth_equalityI)
    fix k
    assume "k < length r"
    consider "k < i" | "i \<le> k" "k - i < n" "k < i + n" | "i + n \<le> k" "\<not> k - i < n" "\<not> k < i" by linarith
    then show "r ! k = (take i d @ take n (drop j src) @ drop (i + n) d) ! k"
      using assms \<open>k < length r\<close> r(2,3) by cases (simp_all add: nth_append)
  qed (use assms r(2) in simp)
  with r(1) show ?thesis by simp
qed

lemma memcpy_at_fault:
  "i \<le> length d \<Longrightarrow> j \<le> length src \<Longrightarrow> length d < i + n \<or> length src < j + n \<Longrightarrow>
   memcpy_at n i j d src = Fault"
  by (induction n arbitrary: i j d) auto

text \<open>\<open>memcpy\<close> copies exactly \<open>size\<close> bytes, and faults when either object is shorter.\<close>

lemma memcpy_eq:
  "memcpy dst src sz = (if unat sz \<le> length dst \<and> unat sz \<le> length src
     then Ret (take (unat sz) src @ drop (unat sz) dst) else Fault)"
  using memcpy_loop_eq [of 0 "unat sz" dst src] memcpy_loop_fault [of 0 dst src "unat sz"]
  by (auto simp: memcpy_def not_le)

lemma memset_loop_eq:
  "i + n \<le> length p \<Longrightarrow> memset_loop n i p v = Ret (take i p @ replicate n v @ drop (i + n) p)"
proof (induction n arbitrary: i p)
  case (Suc n)
  then have "memset_loop (Suc n) i p v =
      Ret (take (Suc i) (p[i := v]) @ replicate n v @ drop (Suc i + n) (p[i := v]))"
    by simp
  also have "take (Suc i) (p[i := v]) = take i p @ [v]"
    using Suc.prems by (simp add: take_Suc_conv_app_nth)
  finally show ?case by (simp add: drop_update_cancel)
qed simp

lemma memset_loop_fault:
  "i \<le> length p \<Longrightarrow> length p < i + n \<Longrightarrow> memset_loop n i p v = Fault"
  by (induction n arbitrary: i p) auto

lemma memset_eq:
  "memset p v sz = (if unat sz \<le> length p
     then Ret (replicate (unat sz) v @ drop (unat sz) p) else Fault)"
  using memset_loop_eq [of 0 "unat sz" p v] memset_loop_fault [of 0 p "unat sz" v]
  by (auto simp: memset_def not_le)

lemma cstr_split: "is_cstr s \<Longrightarrow> \<exists>r. s = cstr s @ 0 # r"
proof -
  assume "is_cstr s"
  then obtain ys zs where "s = ys @ 0 # zs" "0 \<notin> set ys"
    using split_list_first [of 0 s] by (auto simp: is_cstr_def)
  moreover have "takeWhile (\<lambda>c. c \<noteq> 0) (ys @ 0 # zs) = ys"
    using \<open>0 \<notin> set ys\<close> by (subst takeWhile_append2) auto
  ultimately have "s = cstr s @ 0 # zs" by (simp add: cstr_def)
  then show ?thesis by blast
qed

lemma cstr_nth: "is_cstr s \<Longrightarrow> length (cstr s) < length s \<and> s ! length (cstr s) = 0"
proof -
  assume "is_cstr s"
  then obtain r where r: "s = cstr s @ 0 # r" using cstr_split by blast
  have "length s = length (cstr s) + Suc (length r)" by (subst r) simp
  moreover have "s ! length (cstr s) = (cstr s @ 0 # r) ! length (cstr s)" using r by simp
  ultimately show ?thesis by (simp only: nth_append_length) simp
qed

lemma cstr_nonzero: "j < length (cstr s) \<Longrightarrow> s ! j \<noteq> 0"
proof -
  assume j: "j < length (cstr s)"
  then have "cstr s ! j \<in> set (takeWhile (\<lambda>c. c \<noteq> 0) s)" using nth_mem [OF j] by (simp add: cstr_def)
  then have "cstr s ! j \<noteq> 0" by (auto dest: set_takeWhileD)
  with j show ?thesis by (simp add: cstr_def takeWhile_nth)
qed

lemma cstr_take: "take (length (cstr s)) s = cstr s"
  unfolding cstr_def by (rule takeWhile_eq_take [symmetric])

lemma strlen_loop_eq:
  "is_cstr s \<Longrightarrow> i \<le> length (cstr s) \<Longrightarrow> strlen_loop i s = Ret (of_nat (length (cstr s)))"
proof (induction i s rule: strlen_loop.induct)
  case (1 i s)
  show ?case
  proof (cases "i = length (cstr s)")
    case True
    with cstr_nth [OF "1.prems"(1)] show ?thesis by (simp add: strlen_loop.simps [of "length (cstr s)" s])
  next
    case False
    then have i: "i < length (cstr s)" using "1.prems"(2) by simp
    then have "i < length s" using cstr_nth [OF "1.prems"(1)] by simp
    with cstr_nonzero [OF i] i "1.IH" "1.prems"(1) show ?thesis
      by (simp add: strlen_loop.simps [of i s])
  qed
qed

lemma strlen_eq: "is_cstr s \<Longrightarrow> strlen s = Ret (of_nat (length (cstr s)))"
  by (simp add: strlen_def strlen_loop_eq)

lemma unat_dec: "n \<noteq> 0 \<Longrightarrow> unat (n - 1 :: u64) = unat n - 1"
  by (simp add: unat_minus_one)

text \<open>The copying loop of \<open>strncpy\<close>, when it meets the terminator and when the count runs out.\<close>

lemma take_upd_shift:
  assumes "i < length dst" "i < length src" "i + m \<le> length src" "0 < m"
  shows "take (Suc i) (dst[i := src ! i]) @ take (m - 1) (drop (Suc i) src) @ drop (i + m) (dst[i := src ! i]) =
         take i dst @ take m (drop i src) @ drop (i + m) dst"
proof -
  have "take (Suc i) (dst[i := src ! i]) = take i dst @ [src ! i]"
    using assms(1) by (simp add: take_Suc_conv_app_nth)
  moreover have "src ! i # take (m - 1) (drop (Suc i) src) = take m (drop i src)"
    using assms by (cases m) (simp_all add: Cons_nth_drop_Suc [symmetric])
  moreover have "drop (i + m) (dst[i := src ! i]) = drop (i + m) dst"
    using assms(4) by simp
  ultimately show ?thesis by (metis append_Cons append_Nil append_assoc)
qed

lemma strncpy_loop_stop:
  assumes "is_cstr src" "i \<le> length (cstr src)" "length (cstr src) \<le> length dst"
    and "length (cstr src) - i < unat n"
  shows "strncpy_loop n i dst src = Ret (n - of_nat (length (cstr src) - i) - 1, length (cstr src),
    take i dst @ take (length (cstr src) - i) (drop i src) @ drop (length (cstr src)) dst)"
  using assms
proof (induction n i dst src rule: strncpy_loop.induct)
  case (1 n i dst src)
  let ?k = "length (cstr src)"
  have n: "n \<noteq> 0" using "1.prems"(4) by auto
  note k = cstr_nth [OF "1.prems"(1)]
  show ?case
  proof (cases "i = ?k")
    case True
    with k n show ?thesis by (simp add: strncpy_loop.simps [of n "length (cstr src)" dst src])
  next
    case False
    then have i: "i < ?k" using "1.prems"(2) by simp
    have "strncpy_loop n i dst src = strncpy_loop (n - 1) (Suc i) (dst[i := src ! i]) src"
      using i k n "1.prems"(3) cstr_nonzero [OF i] by (simp add: strncpy_loop.simps [of n i dst src])
    also have "\<dots> = Ret (n - 1 - of_nat (?k - Suc i) - 1, ?k,
        take (Suc i) (dst[i := src ! i]) @ take (?k - Suc i) (drop (Suc i) src) @ drop ?k (dst[i := src ! i]))"
      by (rule "1.IH") (use i k n "1.prems" cstr_nonzero [OF i] in \<open>auto simp: unat_dec\<close>)
    also have "n - 1 - of_nat (?k - Suc i) = n - of_nat (?k - i)"
    proof -
      have "?k - i = Suc (?k - Suc i)" using i by simp
      then show ?thesis by (simp only: of_nat_Suc) simp
    qed
    also have "take (Suc i) (dst[i := src ! i]) @ take (?k - Suc i) (drop (Suc i) src) @ drop ?k (dst[i := src ! i]) =
        take i dst @ take (?k - i) (drop i src) @ drop ?k dst"
      using take_upd_shift [of i dst src "?k - i"] i conjunct1 [OF k] "1.prems"(3) by simp
    finally show ?thesis .
  qed
qed

lemma strncpy_loop_run:
  assumes "is_cstr src" "i + unat n \<le> length (cstr src)" "i + unat n \<le> length dst"
  shows "strncpy_loop n i dst src =
    Ret (- 1, i + unat n, take i dst @ take (unat n) (drop i src) @ drop (i + unat n) dst)"
  using assms
proof (induction n i dst src rule: strncpy_loop.induct)
  case (1 n i dst src)
  show ?case
  proof (cases "n = 0")
    case True
    then show ?thesis by (simp add: strncpy_loop.simps [of 0 i dst src])
  next
    case False
    then have n: "0 < unat n" "unat (n - 1) = unat n - 1" by (simp_all add: unat_gt_0 unat_dec)
    have i: "i < length (cstr src)" "i < length src" "i < length dst"
      using n "1.prems" cstr_nth [OF "1.prems"(1)] by auto
    have "strncpy_loop n i dst src = strncpy_loop (n - 1) (Suc i) (dst[i := src ! i]) src"
      using i False cstr_nonzero [OF i(1)] by (simp add: strncpy_loop.simps [of n i dst src])
    also have "\<dots> = Ret (- 1, Suc i + unat (n - 1), take (Suc i) (dst[i := src ! i]) @
        take (unat (n - 1)) (drop (Suc i) src) @ drop (Suc i + unat (n - 1)) (dst[i := src ! i]))"
      by (rule "1.IH") (use i n False "1.prems" cstr_nonzero [OF i(1)] in auto)
    also have "\<dots> = Ret (- 1, i + unat n, take i dst @ take (unat n) (drop i src) @ drop (i + unat n) dst)"
      using take_upd_shift [of i dst src "unat n"] i n "1.prems"(2) conjunct1 [OF cstr_nth [OF "1.prems"(1)]] by simp
    finally show ?thesis .
  qed
qed

lemma byte_at_eq [simp]: "i < length s \<Longrightarrow> byte_at s i = Ret (s ! i)"
  by (simp add: byte_at_def)

text \<open>\<open>strcmp\<close> from index \<open>i\<close>, where the strings agree so far.\<close>

lemma strcmp_loop_eq:
  assumes "is_cstr s1" "is_cstr s2" "i \<le> length (cstr s1)" "i \<le> length (cstr s2)"
  shows "\<exists>d. strcmp_loop i s1 s2 = Ret d \<and>
    (d = 0 \<longleftrightarrow> drop i (cstr s1) = drop i (cstr s2))"
  using assms
proof (induction i s1 s2 rule: strcmp_loop.induct)
  case (1 i s1 s2)
  let ?a = "cstr s1" and ?b = "cstr s2"
  note ends = cstr_nth [OF "1.prems"(1)] cstr_nth [OF "1.prems"(2)]
  have i: "i < length s1" "i < length s2" using ends "1.prems"(3,4) by auto
  have z1: "s1 ! i = 0 \<longleftrightarrow> i = length ?a" and z2: "s2 ! i = 0 \<longleftrightarrow> i = length ?b"
    using ends cstr_nonzero [of i s1] cstr_nonzero [of i s2] "1.prems"(3,4)
    by (fastforce simp: le_less)+
  have nth: "i < length ?a \<Longrightarrow> ?a ! i = s1 ! i" "i < length ?b \<Longrightarrow> ?b ! i = s2 ! i"
    by (simp_all add: cstr_def takeWhile_nth)
  show ?case
  proof (cases "same_char s1 s2 i = Ret True")
    case True
    then have eq: "s1 ! i \<noteq> 0" "s1 ! i = s2 ! i" by (auto simp: same_char_True)
    then have lt: "i < length ?a" "i < length ?b" using z1 z2 "1.prems"(3,4) by auto
    have "drop i ?a = drop i ?b \<longleftrightarrow> drop (Suc i) ?a = drop (Suc i) ?b"
      using lt eq nth by (simp add: Cons_nth_drop_Suc [symmetric])
    moreover have "strcmp_loop i s1 s2 = strcmp_loop (Suc i) s1 s2"
      using True by (simp add: strcmp_loop.simps [of i s1 s2])
    ultimately show ?thesis using "1.IH" [OF True "1.prems"(1,2)] lt by simp
  next
    case False
    then have stop: "\<not> (s1 ! i \<noteq> 0 \<and> s1 ! i = s2 ! i)" using i by (simp add: same_char_True)
    have "\<exists>b. same_char s1 s2 i = Ret b" using i by (cases "s1 ! i = 0") (auto simp: same_char_def)
    then have "strcmp_loop i s1 s2 = Ret (sint (s1 ! i) - sint (s2 ! i))"
      using False i by (auto simp: strcmp_loop.simps [of i s1 s2] char_diff_def)
    moreover have "sint (s1 ! i) - sint (s2 ! i) = 0 \<longleftrightarrow> s1 ! i = s2 ! i"
      by (auto intro: signed_word_eqI)
    moreover have "drop i ?a = drop i ?b \<longleftrightarrow> s1 ! i = s2 ! i"
    proof
      assume "drop i ?a = drop i ?b"
      then have len: "length ?a = length ?b" using "1.prems"(3,4) by (metis length_drop le_add_diff_inverse)
      show "s1 ! i = s2 ! i"
      proof (cases "i = length ?a")
        case True
        with len z1 z2 show ?thesis by simp
      next
        case F: False
        then have "?a ! i = ?b ! i"
          using \<open>drop i ?a = drop i ?b\<close> "1.prems"(3) len by (metis hd_drop_conv_nth le_neq_implies_less)
        with F len nth "1.prems"(3) show ?thesis by simp
      qed
    next
      assume "s1 ! i = s2 ! i"
      with stop z1 z2 show "drop i ?a = drop i ?b" by simp
    qed
    ultimately show ?thesis by simp
  qed
qed

text \<open>\<open>strcmp\<close> decides equality of strings.\<close>

lemma strcmp_zero_iff:
  assumes "is_cstr s1" "is_cstr s2"
  shows "strcmp s1 s2 = Ret 0 \<longleftrightarrow> cstr s1 = cstr s2"
  using strcmp_loop_eq [OF assms, of 0] by (auto simp: strcmp_def)

lemma strcmp_total: "is_cstr s1 \<Longrightarrow> is_cstr s2 \<Longrightarrow> \<exists>d. strcmp s1 s2 = Ret d"
  using strcmp_loop_eq [of s1 s2 0] by (auto simp: strcmp_def)

text \<open>
  \<open>strncmp\<close> on two strings that agree on their first \<open>i\<close> characters: a difference in the last
  character it should look at is reported as equality, and two strings that agree on all \<open>n\<close>
  are told apart by the character after them.
\<close>

lemma strncmp_loop_common:
  assumes "\<And>j. i \<le> j \<Longrightarrow> j < i + m \<Longrightarrow> same_char s1 s2 j = Ret True" "m \<le> unat n"
  shows "strncmp_loop n i s1 s2 = strncmp_loop (n - of_nat m) (i + m) s1 s2"
  using assms
proof (induction m arbitrary: n i)
  case (Suc m)
  then have n: "n \<noteq> 0" by auto
  have "strncmp_loop n i s1 s2 = strncmp_loop (n - 1) (Suc i) s1 s2"
    using n Suc.prems(1) [of i] by (simp add: strncmp_loop.simps [of n i s1 s2])
  also have "\<dots> = strncmp_loop (n - 1 - of_nat m) (Suc i + m) s1 s2"
    by (rule Suc.IH) (use Suc.prems n in \<open>auto simp: unat_dec\<close>)
  finally show ?case by (simp add: algebra_simps)
qed simp

lemma strncmp_misses_last:
  assumes "\<And>j. j < unat n - 1 \<Longrightarrow> same_char s1 s2 j = Ret True" "n \<noteq> 0"
    and "same_char s1 s2 (unat n - 1) = Ret False"
  shows "strncmp s1 s2 n = Ret 0"
proof -
  have one: "n - of_nat (unat n - 1) = 1"
    using assms(2) by (simp add: of_nat_diff unat_gt_0 Suc_leI)
  have "strncmp_loop n 0 s1 s2 = strncmp_loop 1 (unat n - 1) s1 s2"
    using strncmp_loop_common [of 0 "unat n - 1" s1 s2 n] assms(1) one by simp
  also have "\<dots> = Ret (0, unat n - 1)"
    using assms(3) by (subst strncmp_loop.simps) simp
  finally show ?thesis by (simp add: strncmp_def)
qed

lemma strncmp_reads_past:
  assumes "\<And>j. j < unat n \<Longrightarrow> same_char s1 s2 j = Ret True"
  shows "strncmp s1 s2 n = char_diff s1 s2 (unat n)"
proof -
  have "strncmp_loop n 0 s1 s2 = strncmp_loop 0 (unat n) s1 s2"
    using strncmp_loop_common [of 0 "unat n" s1 s2 n] assms by simp
  then show ?thesis by (simp add: strncmp_def strncmp_loop.simps [of 0 "unat n"])
qed

lemma strncpy_eq:
  assumes "is_cstr src" "unat n \<le> length dst" "length dst < 2 ^ 63"
  shows "strncpy dst src n =
    (if unat n \<le> length (cstr src) then Fault
     else Ret (cstr src @ replicate (unat n - 1 - length (cstr src)) 0 @ drop (unat n - 1) dst))"
proof (cases "unat n \<le> length (cstr src)")
  case True
  have "unat (- 1 :: u64) = 2 ^ 64 - 1" by (simp add: unsigned_minus_1_eq_mask mask_eq_exp_minus_1)
  then have over: "length dst < unat n + unat (- 1 :: u64)" using assms(3) by simp
  define d where "d = take (unat n) src @ drop (unat n) dst"
  have "length d = length dst" using True assms(2) cstr_nth [OF assms(1)] by (simp add: d_def)
  with over assms(2) have "memset_loop (unat (- 1 :: u64)) (unat n) d 0 = Fault"
    by (intro memset_loop_fault) simp_all
  moreover have "strncpy_loop n 0 dst src = Ret (- 1, unat n, d)"
    using strncpy_loop_run [of src 0 n dst] assms True by (simp add: d_def)
  ultimately show ?thesis using True by (simp add: strncpy_def)
next
  case False
  let ?k = "length (cstr src)"
  define d where "d = cstr src @ drop ?k dst"
  define m where "m = n - of_nat ?k - 1"
  have loop: "strncpy_loop n 0 dst src = Ret (m, ?k, d)"
    using strncpy_loop_stop [of src 0 dst n] assms False by (simp add: d_def m_def cstr_take)
  have "unat (n - of_nat ?k) = unat n - ?k"
    using False by (metis le_unat_uoi less_imp_le_nat not_le unat_sub_if_size unat_sub word_le_nat_alt)
  moreover from this False have "n - of_nat ?k \<noteq> 0" by (auto simp del: eq_iff_diff_eq_0)
  ultimately have m: "unat m = unat n - 1 - ?k"
    using unat_dec [of "n - of_nat ?k"] by (simp add: m_def)
  have "memset_loop (unat m) ?k d 0 = Ret (take ?k d @ replicate (unat m) 0 @ drop (?k + unat m) d)"
    by (rule memset_loop_eq) (use False assms(2) m in \<open>simp add: d_def\<close>)
  with loop m False show ?thesis by (simp add: strncpy_def d_def)
qed

text \<open>
  What \<open>strncpy\<close> does with a buffer of at least \<open>n\<close> bytes: if the source string has \<open>n\<close> or
  more characters it runs off the end of every object (the counter has wrapped to \<open>2^64 - 1\<close>
  when the padding loop starts); otherwise it writes the string and pads it to \<open>n - 1\<close> bytes,
  one byte short of \<open>n\<close>, so a string of exactly \<open>n - 1\<close> characters is left unterminated.
\<close>

theorem strncpy_outcome:
  assumes "is_cstr src" "unat n \<le> length dst" "length dst < 2 ^ 63"
  shows "strncpy dst src n =
    (if unat n \<le> length (cstr src) then Fault
     else Ret (cstr src @ replicate (unat n - 1 - length (cstr src)) 0 @ drop (unat n - 1) dst))"
  using assms by (rule strncpy_eq)

text \<open>A two-character name in a four-byte field: \<open>n = 3\<close> leaves it unterminated.\<close>

theorem strncpy_outcome_witness:
  "strncpy [7, 7, 7, 7] [97, 98, 0] 3 = Ret [97, 98, 7, 7] \<and>
   strncpy [7, 7, 7, 7] [97, 98, 99, 0] 3 = Fault"
proof -
  have c: "is_cstr [97, 98, 0]" "is_cstr [97, 98, 99, 0]" "cstr [97, 98, 0] = [97, 98]"
    "cstr [97, 98, 99, 0] = [97, 98, 99]"
    by (simp_all add: is_cstr_def cstr_def)
  show ?thesis
    using strncpy_outcome [OF c(1), of 3 "[7, 7, 7, 7]"] strncpy_outcome [OF c(2), of 3 "[7, 7, 7, 7]"]
    by (simp add: c)
qed

end
