(* ===== verification/Service.thy ===== *)
theory Service
  imports Sched Strings
begin

text \<open>
  Service management of Core-0 (\<open>Core-0/include/service.h\<close>, \<open>Core-0/service/service.c\<close>): the
  table of 64 Core-1 services, their life cycle, the reaction to a fault, and the table of
  functions exported to Core-1.
\<close>

section \<open>Data\<close>

datatype service_state =
    SERVICE_STATE_STOPPED
  | SERVICE_STATE_STARTING
  | SERVICE_STATE_RUNNING
  | SERVICE_STATE_STOPPING
  | SERVICE_STATE_ERROR

definition MAX_SERVICES :: nat where "MAX_SERVICES = 64"

text \<open>\<open>name\<close> is an array of 64 characters.\<close>

record service =
  service_id :: u64
  service_name :: bytes
  service_st :: service_state
  service_domain :: u64
  service_entry :: u64
  code_base :: u64
  code_size :: u64
  data_base :: u64
  data_size :: u64
  service_stack_base :: u64
  service_stack_size :: u64
  service_threads :: u32
  restart_count :: u32
  uptime :: u64
  last_error :: u64
  service_cap :: u32

record service_manager =
  services :: "nat \<Rightarrow> service"
  num_services :: u32
  next_service_id :: u64
  service_lock :: u64

definition zero_service :: service where
  "zero_service = \<lparr>service_id = 0, service_name = replicate 64 0, service_st = SERVICE_STATE_STOPPED,
     service_domain = 0, service_entry = 0, code_base = 0, code_size = 0, data_base = 0,
     data_size = 0, service_stack_base = 0, service_stack_size = 0, service_threads = 0,
     restart_count = 0, uptime = 0, last_error = 0, service_cap = 0\<rparr>"

record service_kstate = sched_kstate +
  g_service :: service_manager

abbreviation service_lk :: "'z service_kstate_scheme \<Rightarrow> u64" where
  "service_lk s \<equiv> service_lock (g_service s)"

abbreviation service_upd :: "(u64 \<Rightarrow> u64) \<Rightarrow> 'z service_kstate_scheme \<Rightarrow> 'z service_kstate_scheme" where
  "service_upd f \<equiv> g_service_update (service_lock_update f)"

abbreviation service_at :: "'z service_kstate_scheme \<Rightarrow> nat \<Rightarrow> service" where
  "service_at s i \<equiv> services (g_service s) i"

definition put_service :: "nat \<Rightarrow> service \<Rightarrow> 'z service_kstate_scheme \<Rightarrow> 'z service_kstate_scheme" where
  "put_service i e s = s\<lparr>g_service := (g_service s)\<lparr>services := (services (g_service s))(i := e)\<rparr>\<rparr>"

interpretation servicel: spin_locked service_lk service_upd
  by unfold_locales simp

interpretation svc: id_table service_at put_service MAX_SERVICES
    "\<lambda>e. service_st e = SERVICE_STATE_STOPPED" service_id
  by unfold_locales (simp add: put_service_def)

section \<open>Operations\<close>

definition service_init :: "'z service_kstate_scheme \<Rightarrow> (int \<times> 'z service_kstate_scheme) outcome" where
  "service_init s = Ret (0, s\<lparr>g_service := \<lparr>services = (\<lambda>_. zero_service), num_services = 0,
     next_service_id = 1, service_lock = 0\<rparr>\<rparr>)"

definition service_get :: "u64 \<Rightarrow> 'z service_kstate_scheme \<Rightarrow> nat option" where
  "service_get sid s = first_from (\<lambda>i. service_id (service_at s i) = sid) 0 MAX_SERVICES"

text \<open>The fields written before the capability is created; \<open>nm\<close> is the name after \<open>strncpy\<close>.\<close>

definition new_service ::
  "u64 \<Rightarrow> bytes \<Rightarrow> u64 \<Rightarrow> u64 \<Rightarrow> u64 \<Rightarrow> u64 \<Rightarrow> u64 \<Rightarrow> u64 \<Rightarrow> u32 \<Rightarrow> service" where
  "new_service sid nm did entry cbase csize dbase dsize h =
     \<lparr>service_id = sid, service_name = nm, service_st = SERVICE_STATE_STOPPED,
      service_domain = did, service_entry = entry, code_base = cbase, code_size = csize,
      data_base = dbase, data_size = dsize, service_stack_base = dbase + dsize,
      service_stack_size = STACK_SIZE, service_threads = 0, restart_count = 0, uptime = 0,
      last_error = 0, service_cap = h\<rparr>"

definition service_create ::
  "bytes \<Rightarrow> u64 \<Rightarrow> u64 \<Rightarrow> u64 \<Rightarrow> u64 \<Rightarrow> u64 \<Rightarrow> 'z service_kstate_scheme \<Rightarrow> (u64 \<times> 'z service_kstate_scheme) outcome" where
  "service_create nm entry cbase csize dbase dsize = locked service_lk service_upd (\<lambda>s.
     case first_from (\<lambda>i. service_st (service_at s i) = SERVICE_STATE_STOPPED) 0 MAX_SERVICES of
       None \<Rightarrow> Ret (0, s)
     | Some slot \<Rightarrow>
         bindR (on_cap (cap_create_domain cbase (csize + dsize + STACK_SIZE)) s) (\<lambda>(did, s1).
         if did = 0 then Ret (0, s1)
         else let sid = next_service_id (g_service s1);
                  s2 = s1\<lparr>g_service := (g_service s1)\<lparr>next_service_id := sid + 1\<rparr>\<rparr>
              in bindR (strncpy (service_name (service_at s2 slot)) nm 63) (\<lambda>field.
         let s3 = put_service slot (new_service sid field did entry cbase csize dbase dsize
                    (service_cap (service_at s2 slot))) s2
         in bindR (on_cap (cap_create CAP_TYPE_SERVICE (CAP_PERM_READ OR CAP_PERM_WRITE)
                            (service_id (service_at s3 slot)) 0 0 did) s3) (\<lambda>(h, s4).
         let s5 = put_service slot ((service_at s4 slot)\<lparr>service_cap := h\<rparr>) s4
         in Ret (service_id (service_at s5 slot),
                 s5\<lparr>g_service := (g_service s5)\<lparr>num_services := num_services (g_service s5) + 1\<rparr>\<rparr>)))))"

definition service_start :: "u64 \<Rightarrow> 'z service_kstate_scheme \<Rightarrow> (int \<times> 'z service_kstate_scheme) outcome" where
  "service_start sid = locked service_lk service_upd (\<lambda>s.
     case service_get sid s of
       None \<Rightarrow> Ret (-1, s)
     | Some i \<Rightarrow>
         if service_st (service_at s i) \<noteq> SERVICE_STATE_STOPPED then Ret (-2, s)
         else bindR (sched_create_thread (service_domain (service_at s i)) (service_entry (service_at s i))
                       0 THREAD_PRIORITY_NORMAL s) (\<lambda>(tid, s1).
           if tid = 0 then Ret (-3, s1)
           else Ret (0, put_service i ((service_at s1 i)\<lparr>service_st := SERVICE_STATE_RUNNING,
                                                         service_threads := 1\<rparr>) s1)))"

definition service_stop :: "u64 \<Rightarrow> 'z service_kstate_scheme \<Rightarrow> (int \<times> 'z service_kstate_scheme) outcome" where
  "service_stop sid = locked service_lk service_upd (\<lambda>s.
     case service_get sid s of
       None \<Rightarrow> Ret (-1, s)
     | Some i \<Rightarrow>
         if service_st (service_at s i) \<noteq> SERVICE_STATE_RUNNING then Ret (-2, s)
         else let s1 = put_service i ((service_at s i)\<lparr>service_st := SERVICE_STATE_STOPPING\<rparr>) s
              in Ret (0, put_service i ((service_at s1 i)\<lparr>service_st := SERVICE_STATE_STOPPED,
                                                           service_threads := 0\<rparr>) s1))"

text \<open>The restart count is written outside the lock.\<close>

definition service_restart :: "u64 \<Rightarrow> 'z service_kstate_scheme \<Rightarrow> (int \<times> 'z service_kstate_scheme) outcome" where
  "service_restart sid s =
     bindR (service_stop sid s) (\<lambda>(result, s1).
     if result \<noteq> 0 then Ret (result, s1)
     else service_start sid
       (case service_get sid s1 of
          None \<Rightarrow> s1
        | Some i \<Rightarrow> put_service i ((service_at s1 i)\<lparr>restart_count := restart_count (service_at s1 i) + 1\<rparr>) s1))"

definition service_terminate :: "u64 \<Rightarrow> 'z service_kstate_scheme \<Rightarrow> (int \<times> 'z service_kstate_scheme) outcome" where
  "service_terminate sid = locked service_lk service_upd (\<lambda>s.
     case service_get sid s of
       None \<Rightarrow> Ret (-1, s)
     | Some i \<Rightarrow>
         bindR (service_stop sid s) (\<lambda>(r1, s1).
         bindR (on_cap (cap_delete_domain (service_domain (service_at s1 i))) s1) (\<lambda>(r2, s2).
         let s3 = put_service i zero_service s2
         in Ret (0, s3\<lparr>g_service := (g_service s3)\<lparr>num_services := num_services (g_service s3) - 1\<rparr>\<rparr>))))"

text \<open>The scan of \<open>service_get_by_name\<close> from slot \<open>i\<close> on, with \<open>n\<close> slots to go.\<close>

primrec name_scan :: "nat \<Rightarrow> nat \<Rightarrow> bytes \<Rightarrow> 'z service_kstate_scheme \<Rightarrow> nat option outcome" where
  "name_scan 0 i nm s = Ret None"
| "name_scan (Suc n) i nm s =
     bindR (strcmp (service_name (service_at s i)) nm) (\<lambda>d.
     if d = 0 then Ret (Some i) else name_scan n (Suc i) nm s)"

definition service_get_by_name :: "bytes \<Rightarrow> 'z service_kstate_scheme \<Rightarrow> nat option outcome" where
  "service_get_by_name nm s = name_scan MAX_SERVICES 0 nm s"

definition service_handle_fault :: "u64 \<Rightarrow> u64 \<Rightarrow> 'z service_kstate_scheme \<Rightarrow> (int \<times> 'z service_kstate_scheme) outcome" where
  "service_handle_fault sid error_code s =
     (case service_get sid s of
        None \<Rightarrow> Ret (-1, s)
      | Some i \<Rightarrow>
          let s1 = put_service i ((service_at s i)\<lparr>service_st := SERVICE_STATE_ERROR,
                                                    last_error := error_code\<rparr>) s
          in if restart_count (service_at s1 i) < 3 then service_restart sid s1 else Ret (-2, s1))"

definition service_dump :: "u64 \<Rightarrow> 'z service_kstate_scheme \<Rightarrow> (unit \<times> 'z service_kstate_scheme) outcome" where
  "service_dump sid s = Ret ((), s)"

section \<open>The interface exported to Core-1\<close>

text \<open>A function pointer of the table, \<open>None\<close> for \<open>NULL\<close>.\<close>

datatype core0_fn =
    Fn_cap_grant | Fn_cap_revoke | Fn_sched_yield | Fn_sched_sleep
  | Fn_service_start | Fn_service_stop | Fn_service_restart

record core0_api =
  api_cap_grant :: "core0_fn option"
  api_cap_revoke :: "core0_fn option"
  api_cap_check :: "core0_fn option"
  api_mem_alloc :: "core0_fn option"
  api_mem_free :: "core0_fn option"
  api_mem_map :: "core0_fn option"
  api_mem_unmap :: "core0_fn option"
  api_ipc_call :: "core0_fn option"
  api_ipc_register :: "core0_fn option"
  api_ipc_unregister :: "core0_fn option"
  api_thread_create :: "core0_fn option"
  api_thread_exit :: "core0_fn option"
  api_thread_yield :: "core0_fn option"
  api_thread_sleep :: "core0_fn option"
  api_inb :: "core0_fn option"
  api_outb :: "core0_fn option"
  api_inw :: "core0_fn option"
  api_outw :: "core0_fn option"
  api_inl :: "core0_fn option"
  api_outl :: "core0_fn option"
  api_log :: "core0_fn option"
  api_log_hex :: "core0_fn option"
  api_service_start :: "core0_fn option"
  api_service_stop :: "core0_fn option"
  api_service_restart :: "core0_fn option"

definition service_get_api :: core0_api where
  "service_get_api = \<lparr>api_cap_grant = Some Fn_cap_grant, api_cap_revoke = Some Fn_cap_revoke,
     api_cap_check = None, api_mem_alloc = None, api_mem_free = None, api_mem_map = None,
     api_mem_unmap = None, api_ipc_call = None, api_ipc_register = None, api_ipc_unregister = None,
     api_thread_create = None, api_thread_exit = None, api_thread_yield = Some Fn_sched_yield,
     api_thread_sleep = Some Fn_sched_sleep, api_inb = None, api_outb = None, api_inw = None,
     api_outw = None, api_inl = None, api_outl = None, api_log = None, api_log_hex = None,
     api_service_start = Some Fn_service_start, api_service_stop = Some Fn_service_stop,
     api_service_restart = Some Fn_service_restart\<rparr>"

section \<open>Lemmas\<close>

lemma put_service_simps [simp]:
  "service_at (put_service i e s) j = (if j = i then e else service_at s j)"
  "service_lock (g_service (put_service i e s)) = service_lock (g_service s)"
  "next_service_id (g_service (put_service i e s)) = next_service_id (g_service s)"
  "num_services (g_service (put_service i e s)) = num_services (g_service s)"
  "g_sched (put_service i e s) = g_sched s" "g_mm (put_service i e s) = g_mm s"
  "g_cap (put_service i e s) = g_cap s"
  by (simp_all add: put_service_def)

lemma service_get_cong:
  "(\<And>i. i < MAX_SERVICES \<Longrightarrow> service_id (service_at t i) = service_id (service_at s i)) \<Longrightarrow>
   service_get sid t = service_get sid s"
  unfolding service_get_def by (rule first_from_cong) simp

lemma service_get_upd [simp]: "service_get sid (service_upd f s) = service_get sid s"
  by (rule service_get_cong) simp

lemma service_get_put_same:
  "service_id e = service_id (service_at s i) \<Longrightarrow> service_get sid (put_service i e s) = service_get sid s"
  by (rule service_get_cong) simp

lemma service_restore_lock: "service_lk s = 0 \<Longrightarrow> service_upd (\<lambda>_. 0) (service_upd f s) = s"
  by (cases "g_service s") simp

lemma service_stop_not_running:
  assumes "service_lk s = 0" "service_get sid s = Some i" "service_st (service_at s i) \<noteq> SERVICE_STATE_RUNNING"
  shows "service_stop sid s = Ret (-2, s)"
  using assms by (simp add: service_stop_def locked_eq service_restore_lock)

text \<open>The effect of a successful stop and of a successful start on the service's entry.\<close>

lemma service_stop_running:
  assumes "service_lk s = 0" "service_get sid s = Some i" "service_st (service_at s i) = SERVICE_STATE_RUNNING"
  shows "service_stop sid s =
    Ret (0, put_service i ((service_at s i)\<lparr>service_st := SERVICE_STATE_STOPPED, service_threads := 0\<rparr>) s)"
  using assms by (cases "g_service s") (simp add: service_stop_def locked_eq Let_def put_service_def)

lemma sched_create_keeps_service:
  "sched_create_thread did e a p s = Ret (r, t) \<Longrightarrow> g_service t = g_service s"
  by (drule sched_create_cases) (auto simp: created_def put_thread_def)

lemma service_start_cases:
  assumes "service_start sid s = Ret (r, t)"
  shows "service_lk s = 0 \<and> service_lk t = 0 \<and>
    (services (g_service t) = services (g_service s) \<and> r \<noteq> 0 \<or>
     (\<exists>i. r = 0 \<and> service_get sid s = Some i \<and> service_st (service_at s i) = SERVICE_STATE_STOPPED \<and>
        services (g_service t) = (services (g_service s))(i :=
          (service_at s i)\<lparr>service_st := SERVICE_STATE_RUNNING, service_threads := 1\<rparr>)))"
proof -
  from assms obtain u where u: "service_lk s = 0" "t = service_upd (\<lambda>_. 0) u"
    and body: "(case service_get sid (service_upd (\<lambda>_. 1) s) of
       None \<Rightarrow> Ret (-1, service_upd (\<lambda>_. 1) s)
     | Some i \<Rightarrow>
         if service_st (service_at (service_upd (\<lambda>_. 1) s) i) \<noteq> SERVICE_STATE_STOPPED
         then Ret (-2, service_upd (\<lambda>_. 1) s)
         else bindR (sched_create_thread (service_domain (service_at (service_upd (\<lambda>_. 1) s) i))
                       (service_entry (service_at (service_upd (\<lambda>_. 1) s) i))
                       0 THREAD_PRIORITY_NORMAL (service_upd (\<lambda>_. 1) s)) (\<lambda>(tid, s1).
           if tid = 0 then Ret (-3, s1)
           else Ret (0, put_service i ((service_at s1 i)\<lparr>service_st := SERVICE_STATE_RUNNING,
                                                         service_threads := 1\<rparr>) s1))) = Ret (r, u)"
    unfolding service_start_def by (rule servicel.returnsE)
  show ?thesis
  proof (cases "service_get sid s")
    case None
    with body u show ?thesis by auto
  next
    case (Some i)
    show ?thesis
    proof (cases "service_st (service_at s i) = SERVICE_STATE_STOPPED")
      case False
      with Some body u show ?thesis by auto
    next
      case True
      with Some body obtain tid v where v:
        "sched_create_thread (service_domain (service_at s i)) (service_entry (service_at s i))
           0 THREAD_PRIORITY_NORMAL (service_upd (\<lambda>_. 1) s) = Ret (tid, v)"
        "(if tid = 0 then Ret (-3, v)
          else Ret (0, put_service i ((service_at v i)\<lparr>service_st := SERVICE_STATE_RUNNING,
                                                         service_threads := 1\<rparr>) v)) = Ret (r, u)"
        by (auto simp: outcome_simps)
      have "g_service v = g_service (service_upd (\<lambda>_. 1) s)" by (rule sched_create_keeps_service [OF v(1)])
      with v(2) u Some True show ?thesis by (auto simp: put_service_def split: if_splits)
    qed
  qed
qed

text \<open>What a call of \<open>service_create\<close> that found a slot has done to the table.\<close>

lemma service_create_cases:
  assumes "service_create nm entry cb cs db ds s = Ret (r, t)"
  shows "service_lk s = 0 \<and> service_lk t = 0 \<and>
    (r = 0 \<and> services (g_service t) = services (g_service s) \<or>
     (\<exists>k e. first_from (\<lambda>i. service_st (service_at s i) = SERVICE_STATE_STOPPED) 0 MAX_SERVICES = Some k \<and>
        service_id e = r \<and> service_st e = SERVICE_STATE_STOPPED \<and> r = next_service_id (g_service s) \<and>
        services (g_service t) = (services (g_service s))(k := e) \<and>
        next_service_id (g_service t) = r + 1 \<and> num_services (g_service t) = num_services (g_service s) + 1))"
proof -
  let ?s = "service_upd (\<lambda>_. 1) s"
  from assms obtain u where u: "service_lk s = 0" "t = service_upd (\<lambda>_. 0) u"
    and body: "(case first_from (\<lambda>i. service_st (service_at ?s i) = SERVICE_STATE_STOPPED) 0 MAX_SERVICES of
       None \<Rightarrow> Ret (0, ?s)
     | Some slot \<Rightarrow>
         bindR (on_cap (cap_create_domain cb (cs + ds + STACK_SIZE)) ?s) (\<lambda>(did, s1).
         if did = 0 then Ret (0, s1)
         else let sid = next_service_id (g_service s1);
                  s2 = s1\<lparr>g_service := (g_service s1)\<lparr>next_service_id := sid + 1\<rparr>\<rparr>
              in bindR (strncpy (service_name (service_at s2 slot)) nm 63) (\<lambda>field.
         let s3 = put_service slot (new_service sid field did entry cb cs db ds
                    (service_cap (service_at s2 slot))) s2
         in bindR (on_cap (cap_create CAP_TYPE_SERVICE (CAP_PERM_READ OR CAP_PERM_WRITE)
                            (service_id (service_at s3 slot)) 0 0 did) s3) (\<lambda>(h, s4).
         let s5 = put_service slot ((service_at s4 slot)\<lparr>service_cap := h\<rparr>) s4
         in Ret (service_id (service_at s5 slot),
                 s5\<lparr>g_service := (g_service s5)\<lparr>num_services := num_services (g_service s5) + 1\<rparr>\<rparr>))))) = Ret (r, u)"
    unfolding service_create_def by (rule servicel.returnsE)
  show ?thesis
  proof (cases "first_from (\<lambda>i. service_st (service_at s i) = SERVICE_STATE_STOPPED) 0 MAX_SERVICES")
    case None
    with body u show ?thesis by auto
  next
    case (Some k)
    from body Some obtain did c1 where
      rest: "(if did = 0 then Ret (0, ?s\<lparr>g_cap := c1\<rparr>)
         else let sid = next_service_id (g_service (?s\<lparr>g_cap := c1\<rparr>));
                  s2 = (?s\<lparr>g_cap := c1\<rparr>)\<lparr>g_service := (g_service (?s\<lparr>g_cap := c1\<rparr>))\<lparr>next_service_id := sid + 1\<rparr>\<rparr>
              in bindR (strncpy (service_name (service_at s2 k)) nm 63) (\<lambda>field.
         let s3 = put_service k (new_service sid field did entry cb cs db ds
                    (service_cap (service_at s2 k))) s2
         in bindR (on_cap (cap_create CAP_TYPE_SERVICE (CAP_PERM_READ OR CAP_PERM_WRITE)
                            (service_id (service_at s3 k)) 0 0 did) s3) (\<lambda>(h, s4).
         let s5 = put_service k ((service_at s4 k)\<lparr>service_cap := h\<rparr>) s4
         in Ret (service_id (service_at s5 k),
                 s5\<lparr>g_service := (g_service s5)\<lparr>num_services := num_services (g_service s5) + 1\<rparr>\<rparr>)))) = Ret (r, u)"
      by (auto simp: outcome_simps)
    show ?thesis
    proof (cases "did = 0")
      case True
      with rest u show ?thesis by auto
    next
      case False
      define e where "e field h = new_service (next_service_id (g_service s)) field did entry cb cs db ds h"
        for field h
      from False rest obtain field h where v: "services (g_service u) = (services (g_service s))(k := e field h)"
        "next_service_id (g_service u) = next_service_id (g_service s) + 1"
        "num_services (g_service u) = num_services (g_service s) + 1" "r = next_service_id (g_service s)"
        by (auto simp: outcome_simps Let_def put_service_def e_def new_service_def)
      have "service_id (e field h) = r" "service_st (e field h) = SERVICE_STATE_STOPPED"
        by (simp_all add: e_def new_service_def v(4))
      with v Some u show ?thesis by auto
    qed
  qed
qed

section \<open>Progress of creation\<close>

text \<open>The capability system has room for another domain: slots from \<open>k\<close> on are free.\<close>

definition domain_room :: "nat \<Rightarrow> cap_system \<Rightarrow> bool" where
  "domain_room k c \<longleftrightarrow> cap_lock c = 0 \<and> k < MAX_DOMAINS \<and> next_domain_id c = of_nat (Suc k) \<and>
     (\<forall>i. k \<le> i \<longrightarrow> domain_id (domains c i) = 0)"

lemma create_domain_room:
  assumes "domain_room k c"
  shows "\<exists>c'. cap_create_domain base sz c = Ret (of_nat (Suc k), c') \<and>
    (Suc k < MAX_DOMAINS \<longrightarrow> domain_room (Suc k) c') \<and> cap_lock c' = 0"
proof -
  have "\<exists>d\<le>k. free_dom_slot c = Some d"
  proof (cases "free_dom_slot c")
    case None
    with assms show ?thesis by (auto simp: free_dom_slot_def first_from_None_iff domain_room_def)
  next
    case (Some d)
    then have "\<not> k < d" using assms first_from_SomeD(4) [of _ 0 MAX_DOMAINS d k]
      by (auto simp: free_dom_slot_def domain_room_def)
    with Some show ?thesis by auto
  qed
  then obtain d where d: "free_dom_slot c = Some d" "d \<le> k" by blast
  have "(of_nat (Suc k) :: u32) = next_domain_id c" using assms by (simp add: domain_room_def)
  moreover have "unat (of_nat (Suc k) :: u32) = Suc k"
    using assms by (simp add: domain_room_def MAX_DOMAINS_def unat_of_nat del: of_nat_Suc)
  moreover have "unat (of_nat (Suc k) :: u64) = Suc k"
    using assms by (simp add: domain_room_def MAX_DOMAINS_def unat_of_nat del: of_nat_Suc)
  ultimately have "ucast (next_domain_id c) = (of_nat (Suc k) :: u64)"
    by (metis unat_ucast_32_64 word_unat_eq_iff)
  with d assms show ?thesis
    by (auto simp: cap_create_domain_eq domain_room_def put_domain_def algebra_simps)
qed

lemma cap_create_room:
  assumes "cap_lock c = 0"
  shows "\<exists>h c'. cap_create ty p rid base sz did c = Ret (h, c') \<and> cap_lock c' = 0 \<and>
    (domain_room k c \<longrightarrow> domain_room k c')"
  unfolding cap_create_eq [OF assms] domain_room_def
  using assms by (auto simp: cap_domain_add_cap_def Let_def put_domain_def split: option.splits)

lemma service_create_progress:
  assumes "service_lk s = 0" "domain_room k (g_cap s)"
    and "first_from (\<lambda>i. service_st (service_at s i) = SERVICE_STATE_STOPPED) 0 MAX_SERVICES = Some i"
    and "strncpy (service_name (service_at s i)) nm 63 = Ret field"
  shows "\<exists>t. service_create nm entry cb cs db ds s = Ret (next_service_id (g_service s), t) \<and>
    service_lk t = 0 \<and> next_service_id (g_service t) = next_service_id (g_service s) + 1 \<and>
    (Suc k < MAX_DOMAINS \<longrightarrow> domain_room (Suc k) (g_cap t)) \<and>
    (\<exists>e. services (g_service t) = (services (g_service s))(i := e) \<and>
       service_st e = SERVICE_STATE_STOPPED \<and> service_name e = field \<and>
       service_id e = next_service_id (g_service s))"
proof -
  obtain c1 where c1: "cap_create_domain cb (cs + ds + STACK_SIZE) (g_cap s) = Ret (of_nat (Suc k), c1)"
    "Suc k < MAX_DOMAINS \<longrightarrow> domain_room (Suc k) c1" "cap_lock c1 = 0"
    using create_domain_room [OF assms(2)] by blast
  obtain h c2 where c2: "cap_create CAP_TYPE_SERVICE (CAP_PERM_READ OR CAP_PERM_WRITE)
      (next_service_id (g_service s)) 0 0 (of_nat (Suc k)) c1 = Ret (h, c2)"
    "domain_room (Suc k) c1 \<longrightarrow> domain_room (Suc k) c2"
    using cap_create_room [OF c1(3)] by blast
  have nz: "(of_nat (Suc k) :: u64) \<noteq> 0"
    using assms(2) by (simp add: domain_room_def MAX_DOMAINS_def word_of_nat_eq_0_iff del: of_nat_Suc)
      (auto dest: dvd_imp_le)
  let ?e = "new_service (next_service_id (g_service s)) field (of_nat (Suc k)) entry cb cs db ds h"
  define t where "t = s\<lparr>g_cap := c2, g_service := (g_service s)\<lparr>services := (services (g_service s))(i := ?e),
     next_service_id := next_service_id (g_service s) + 1, num_services := num_services (g_service s) + 1\<rparr>\<rparr>"
  have "service_create nm entry cb cs db ds s = Ret (next_service_id (g_service s), t)"
    using assms(1,3,4) c1(1) c2(1) nz
    by (cases "g_service s") (simp add: service_create_def locked_eq on_cap_def Let_def put_service_def
        new_service_def t_def del: of_nat_Suc)
  then show ?thesis using c1(2) c2(2) assms(1)
    by (auto simp: t_def new_service_def)
qed

section \<open>A sample kernel\<close>

definition sample_services :: service_kstate where
  "sample_services = \<lparr>g_mm = g_mm idle_kernel, g_cap = sample_caps, g_irq = g_irq sample_iso,
     g_tables = g_tables sample_iso, g_gates = g_gates sample_iso, pt_mem = pt_mem sample_iso,
     tlb_log = [], g_sched = g_sched idle_kernel, g_service =
       \<lparr>services = (\<lambda>i. if i = 0 then zero_service\<lparr>service_id := 1, service_st := SERVICE_STATE_RUNNING\<rparr>
                         else zero_service),
        num_services = 1, next_service_id = 2, service_lock = 0\<rparr>\<rparr>"

lemma sample_services_simps [simp]:
  "services (g_service sample_services) i =
     (if i = 0 then zero_service\<lparr>service_id := 1, service_st := SERVICE_STATE_RUNNING\<rparr> else zero_service)"
  "service_lock (g_service sample_services) = 0" "next_service_id (g_service sample_services) = 2"
  "num_services (g_service sample_services) = 1" "g_cap sample_services = sample_caps"
  by (simp_all add: sample_services_def)

lemma sample_services_get: "service_get 1 sample_services = Some 0"
  unfolding service_get_def by (rule first_from_hit) (simp_all add: MAX_SERVICES_def)

lemma sample_room: "domain_room 2 (g_cap sample_services)"
  by (simp add: domain_room_def sample_caps_def MAX_DOMAINS_def zero_domain_def)

text \<open>A one-character name fits the field, and leaves a field that takes it again.\<close>

lemma name_fits:
  assumes "length f = 64" "c \<noteq> 0"
  shows "\<exists>field. strncpy f [c, 0] 63 = Ret field \<and> length field = 64"
proof -
  have "cstr [c, 0] = [c]" "is_cstr [c, 0]" using assms(2) by (simp_all add: cstr_def is_cstr_def)
  then show ?thesis using strncpy_eq [of "[c, 0]" 63 f] assms(1) by simp
qed

section \<open>Properties\<close>

text \<open>
  A faulting service is never restarted: \<open>service_handle_fault\<close> puts it into the state
  \<open>ERROR\<close> and then asks for a restart, whose first act, \<open>service_stop\<close>, refuses everything that
  is not \<open>RUNNING\<close>. The call returns -2 whatever the restart count, which never moves, and the
  service stays in \<open>ERROR\<close>.
\<close>

theorem service_fault_never_restarts:
  assumes "service_lk s = 0" "service_get sid s = Some i"
  shows "service_handle_fault sid err s = Ret (-2,
    put_service i ((service_at s i)\<lparr>service_st := SERVICE_STATE_ERROR, last_error := err\<rparr>) s)"
proof -
  let ?s1 = "put_service i ((service_at s i)\<lparr>service_st := SERVICE_STATE_ERROR, last_error := err\<rparr>) s"
  have "service_get sid ?s1 = Some i" using assms(2) by (simp add: service_get_put_same)
  then have "service_stop sid ?s1 = Ret (-2, ?s1)"
    by (rule service_stop_not_running [rotated]) (use assms(1) in simp_all)
  then show ?thesis using assms(2) by (simp add: service_handle_fault_def service_restart_def Let_def)
qed

theorem service_fault_never_restarts_witness:
  "\<exists>t. service_handle_fault 1 13 sample_services = Ret (-2, t) \<and>
     service_st (service_at t 0) = SERVICE_STATE_ERROR \<and> restart_count (service_at t 0) = 0 \<and>
     service_stop 1 t = Ret (-2, t)"
proof -
  let ?t = "put_service 0 ((service_at sample_services 0)\<lparr>service_st := SERVICE_STATE_ERROR, last_error := 13\<rparr>) sample_services"
  have "service_get 1 ?t = Some 0" using sample_services_get by (simp add: service_get_put_same)
  then have "service_stop 1 ?t = Ret (-2, ?t)" by (rule service_stop_not_running [rotated]) simp_all
  moreover have "service_handle_fault 1 13 sample_services = Ret (-2, ?t)"
    by (rule service_fault_never_restarts [OF _ sample_services_get]) simp
  moreover have "service_st (service_at ?t 0) = SERVICE_STATE_ERROR" "restart_count (service_at ?t 0) = 0"
    by (simp_all add: zero_service_def)
  ultimately show ?thesis by blast
qed

text \<open>
  \<open>service_terminate\<close> never returns for a service that exists: it calls \<open>service_stop\<close>, which
  takes the lock that \<open>service_terminate\<close> holds. It returns (-1, with nothing changed) exactly
  when the identifier is unknown.
\<close>

theorem service_terminate_deadlocks:
  "service_terminate sid s =
     (if service_lk s = 0 \<and> service_get sid s = None then Ret (-1, s) else Hang)"
proof (cases "service_lk s = 0")
  case False
  then show ?thesis by (simp add: service_terminate_def locked_eq)
next
  case free: True
  show ?thesis
  proof (cases "service_get sid s")
    case None
    with free show ?thesis by (simp add: service_terminate_def locked_eq service_restore_lock)
  next
    case (Some i)
    have "service_stop sid (service_upd (\<lambda>_. 1) s) = Hang"
      unfolding service_stop_def by (rule servicel.held_hangs) simp
    with free Some show ?thesis by (simp add: service_terminate_def locked_eq)
  qed
qed

text \<open>
  A service that is created but not started before the next creation is lost: the slot
  search takes a \<open>STOPPED\<close> service for a free slot, so the second creation writes the slot of the
  first, which every later call then reports as unknown although both are counted.
\<close>

theorem service_create_evicts_stopped_service:
  assumes "service_create n1 e1 cb1 cs1 db1 ds1 s = Ret (i1, s1)" "i1 \<noteq> 0"
    and "service_create n2 e2 cb2 cs2 db2 ds2 s1 = Ret (i2, s2)" "i2 \<noteq> 0"
    and "service_get i1 s = None"
  shows "i2 = i1 + 1 \<and> num_services (g_service s2) = num_services (g_service s) + 2 \<and>
    service_get i1 s2 = None \<and> service_start i1 s2 = Ret (-1, s2) \<and> service_stop i1 s2 = Ret (-1, s2)"
proof -
  from service_create_cases [OF assms(1)] assms(2) obtain k a where
    k: "first_from (\<lambda>i. service_st (service_at s i) = SERVICE_STATE_STOPPED) 0 MAX_SERVICES = Some k"
    and a: "service_st a = SERVICE_STATE_STOPPED"
    and s1: "services (g_service s1) = (services (g_service s))(k := a)"
      "next_service_id (g_service s1) = i1 + 1" "num_services (g_service s1) = num_services (g_service s) + 1"
    by auto
  have again: "first_from (\<lambda>i. service_st (service_at s1 i) = SERVICE_STATE_STOPPED) 0 MAX_SERVICES = Some k"
    by (rule first_from_SomeI) (use first_from_SomeD [OF k] a in \<open>auto simp: s1\<close>)
  from service_create_cases [OF assms(3)] assms(4) again obtain b where
    b: "service_id b = i2" "i2 = next_service_id (g_service s1)" "service_lk s2 = 0"
      "services (g_service s2) = (services (g_service s1))(k := b)"
      "num_services (g_service s2) = num_services (g_service s1) + 1"
    by auto
  have i2: "i2 = i1 + 1" using b(2) s1(2) by simp
  have "\<forall>i<MAX_SERVICES. service_id (service_at s i) \<noteq> i1"
    using assms(5) by (auto simp: service_get_def first_from_None_iff)
  then have none: "service_get i1 s2 = None"
    using b(1) i2 by (auto simp: service_get_def first_from_None_iff b(4) s1(1))
  then have "service_start i1 s2 = Ret (-1, s2)" "service_stop i1 s2 = Ret (-1, s2)"
    using b(3) by (simp_all add: service_start_def service_stop_def locked_eq service_restore_lock)
  with i2 none s1(3) b(5) show ?thesis by simp
qed

theorem service_create_evicts_stopped_service_witness:
  "\<exists>s1 s2. service_create [97, 0] 0 0 0 0 0 sample_services = Ret (2, s1) \<and>
     service_create [98, 0] 0 0 0 0 0 s1 = Ret (3, s2) \<and> service_start 2 s2 = Ret (-1, s2)"
proof -
  have slot: "first_from (\<lambda>i. service_st (service_at sample_services i) = SERVICE_STATE_STOPPED)
      0 MAX_SERVICES = Some 1"
    by (rule first_from_SomeI) (simp_all add: zero_service_def MAX_SERVICES_def)
  have "length (service_name (service_at sample_services 1)) = 64" by (simp add: zero_service_def)
  from name_fits [OF this, of 97] obtain f1 where
    f1: "strncpy (service_name (service_at sample_services 1)) [97, 0] 63 = Ret f1" "length f1 = 64" by auto
  from service_create_progress [OF _ sample_room slot f1(1), of 0 0 0 0 0] obtain s1 e where
    s1: "service_create [97, 0] 0 0 0 0 0 sample_services = Ret (2, s1)" "service_lk s1 = 0"
      "next_service_id (g_service s1) = 3" "domain_room 3 (g_cap s1)"
      "services (g_service s1) = (services (g_service sample_services))(1 := e)"
      "service_st e = SERVICE_STATE_STOPPED" "service_name e = f1"
    by (auto simp: MAX_DOMAINS_def numeral_3_eq_3 numeral_2_eq_2)
  have slot1: "first_from (\<lambda>i. service_st (service_at s1 i) = SERVICE_STATE_STOPPED) 0 MAX_SERVICES = Some 1"
    by (rule first_from_SomeI) (use s1 in \<open>auto simp: MAX_SERVICES_def zero_service_def\<close>)
  have "length (service_name (service_at s1 1)) = 64" using s1 f1(2) by simp
  from name_fits [OF this, of 98] obtain f2 where
    "strncpy (service_name (service_at s1 1)) [98, 0] 63 = Ret f2" by auto
  from service_create_progress [OF s1(2,4) slot1 this, of 0 0 0 0 0] obtain s2 where
    s2: "service_create [98, 0] 0 0 0 0 0 s1 = Ret (3, s2)"
    using s1(3) by auto
  have "service_get 2 sample_services = None"
    by (simp add: service_get_def first_from_None_iff zero_service_def)
  from service_create_evicts_stopped_service [OF s1(1) _ s2 _ this] s1(1) s2 show ?thesis by auto
qed

end
