(* ===== verification/Process.thy ===== *)
theory Process
  imports Service
begin

text \<open>
  Process management of Core-0 (\<open>Core-0/include/process.h\<close>, \<open>Core-0/process/process.c\<close>): the
  table of 256 application processes, creation with its roll-back paths, exit, and the system
  call handler. Several operations are empty in the source and are modelled as they are.
\<close>

section \<open>Data\<close>

datatype process_state =
    PROCESS_STATE_NEW
  | PROCESS_STATE_READY
  | PROCESS_STATE_RUNNING
  | PROCESS_STATE_BLOCKED
  | PROCESS_STATE_TERMINATED

definition MAX_PROCESSES :: nat where "MAX_PROCESSES = 256"
definition DOMAIN_FLAG_APP :: u32 where "DOMAIN_FLAG_APP = 0x04"

record process =
  process_id :: u64
  parent_pid :: u64
  process_st :: process_state
  process_domain :: u64
  process_entry :: u64
  proc_code_base :: u64
  proc_code_size :: u64
  proc_data_base :: u64
  proc_data_size :: u64
  proc_stack_base :: u64
  proc_stack_size :: u64
  heap_base :: u64
  heap_size :: u64
  page_table :: u64
  argc :: u32
  argv :: u64
  envp :: u64
  exit_code :: u32
  proc_uptime :: u64

record process_manager =
  processes :: "nat \<Rightarrow> process"
  num_processes :: u32
  next_pid :: u64
  process_lock :: u64

definition zero_process :: process where
  "zero_process = \<lparr>process_id = 0, parent_pid = 0, process_st = PROCESS_STATE_NEW, process_domain = 0,
     process_entry = 0, proc_code_base = 0, proc_code_size = 0, proc_data_base = 0,
     proc_data_size = 0, proc_stack_base = 0, proc_stack_size = 0, heap_base = 0, heap_size = 0,
     page_table = 0, argc = 0, argv = 0, envp = 0, exit_code = 0, proc_uptime = 0\<rparr>"

record process_kstate = service_kstate +
  g_process :: process_manager
  g_current_pid :: u64

abbreviation process_lk :: "'z process_kstate_scheme \<Rightarrow> u64" where
  "process_lk s \<equiv> process_lock (g_process s)"

abbreviation process_upd :: "(u64 \<Rightarrow> u64) \<Rightarrow> 'z process_kstate_scheme \<Rightarrow> 'z process_kstate_scheme" where
  "process_upd f \<equiv> g_process_update (process_lock_update f)"

abbreviation process_at :: "'z process_kstate_scheme \<Rightarrow> nat \<Rightarrow> process" where
  "process_at s i \<equiv> processes (g_process s) i"

definition put_process :: "nat \<Rightarrow> process \<Rightarrow> 'z process_kstate_scheme \<Rightarrow> 'z process_kstate_scheme" where
  "put_process i e s = s\<lparr>g_process := (g_process s)\<lparr>processes := (processes (g_process s))(i := e)\<rparr>\<rparr>"

interpretation processl: spin_locked process_lk process_upd
  by unfold_locales simp

interpretation procs: id_table process_at put_process MAX_PROCESSES
    "\<lambda>e. process_st e = PROCESS_STATE_NEW" process_id
  by unfold_locales (simp add: put_process_def)

section \<open>Operations\<close>

definition process_init :: "'z process_kstate_scheme \<Rightarrow> (int \<times> 'z process_kstate_scheme) outcome" where
  "process_init s = Ret (0, s\<lparr>g_process := \<lparr>processes = (\<lambda>_. zero_process), num_processes = 0,
     next_pid = 1, process_lock = 0\<rparr>\<rparr>)"

definition new_process :: "u64 \<Rightarrow> u64 \<Rightarrow> u64 \<Rightarrow> u32 \<Rightarrow> u64 \<Rightarrow> process" where
  "new_process pid parent did ac av =
     \<lparr>process_id = pid, parent_pid = parent, process_st = PROCESS_STATE_NEW, process_domain = did,
      process_entry = 0x400000, proc_code_base = 0x400000, proc_code_size = 0x10000,
      proc_data_base = 0x410000, proc_data_size = 0x10000, proc_stack_base = 0x420000,
      proc_stack_size = 0x10000, heap_base = 0x430000, heap_size = 0x10000, page_table = 0,
      argc = ac, argv = av, envp = 0, exit_code = 0, proc_uptime = 0\<rparr>"

text \<open>The four mappings of a new process, whose results the code ignores.\<close>

definition process_mappings :: "process \<Rightarrow> u64 \<Rightarrow> (u64 \<times> u64 \<times> u64 \<times> map_type) list" where
  "process_mappings p phys =
     [(proc_code_base p, phys, proc_code_size p, MAP_TYPE_CODE),
      (proc_data_base p, phys + proc_code_size p, proc_data_size p, MAP_TYPE_DATA),
      (proc_stack_base p, phys + proc_code_size p + proc_data_size p, proc_stack_size p, MAP_TYPE_DATA),
      (heap_base p, phys + proc_code_size p + proc_data_size p + proc_stack_size p, heap_size p, MAP_TYPE_DATA)]"

definition process_map_all ::
  "u64 \<Rightarrow> (u64 \<times> u64 \<times> u64 \<times> map_type) list \<Rightarrow> 'z iso_state_scheme \<Rightarrow> 'z iso_state_scheme outcome" where
  "process_map_all did = forR (\<lambda>(va, pa, sz, ty) s.
     bindR (isolation_map_memory did va pa sz ty 0 s) (\<lambda>(r, t). Ret t))"

text \<open>The last part of \<open>process_create\<close>: the entry is filled in and its memory mapped.\<close>

definition process_setup ::
  "nat \<Rightarrow> u64 \<Rightarrow> u64 \<Rightarrow> u32 \<Rightarrow> u64 \<Rightarrow> 'z process_kstate_scheme \<Rightarrow> (u64 \<times> 'z process_kstate_scheme) outcome" where
  "process_setup slot phys_addr did ac av s =
     (let pid = next_pid (g_process s);
          p = new_process pid (g_current_pid s) did ac av;
          s1 = put_process slot p (s\<lparr>g_process := (g_process s)\<lparr>next_pid := pid + 1\<rparr>\<rparr>)
      in bindR (process_map_all did (process_mappings p phys_addr) s1) (\<lambda>s2.
         Ret (process_id (process_at s2 slot),
              s2\<lparr>g_process := (g_process s2)\<lparr>num_processes := num_processes (g_process s2) + 1\<rparr>\<rparr>)))"

text \<open>The allocations in their order, each failure undoing the ones before it.\<close>

definition process_create_at ::
  "nat \<Rightarrow> u32 \<Rightarrow> u64 \<Rightarrow> 'z process_kstate_scheme \<Rightarrow> (u64 \<times> 'z process_kstate_scheme) outcome" where
  "process_create_at slot ac av s =
     bindR (on_mm (mm_alloc 0x100000 PAGE_SIZE MEM_TYPE_APPLICATION 0) s) (\<lambda>(phys_addr, s1).
     if phys_addr = 0 then Ret (0, s1)
     else bindR (on_cap (cap_create_domain phys_addr 0x100000) s1) (\<lambda>(did, s2).
     if did = 0 then bindR (on_mm (mm_free phys_addr) s2) (\<lambda>(r, s3). Ret (0, s3))
     else bindR (isolation_create_page_tables did DOMAIN_FLAG_APP s2) (\<lambda>(r, s3).
     if r \<noteq> 0
     then bindR (on_cap (cap_delete_domain did) s3) (\<lambda>(r4, s4).
          bindR (on_mm (mm_free phys_addr) s4) (\<lambda>(r5, s5). Ret (0, s5)))
     else process_setup slot phys_addr did ac av s3)))"

definition process_create ::
  "u64 \<Rightarrow> u32 \<Rightarrow> u64 \<Rightarrow> 'z process_kstate_scheme \<Rightarrow> (u64 \<times> 'z process_kstate_scheme) outcome" where
  "process_create pathname ac av = locked process_lk process_upd (\<lambda>s.
     case first_from (\<lambda>i. process_st (process_at s i) = PROCESS_STATE_NEW) 0 MAX_PROCESSES of
       None \<Rightarrow> Ret (0, s)
     | Some slot \<Rightarrow> process_create_at slot ac av s)"

definition process_fork :: "'z process_kstate_scheme \<Rightarrow> (u64 \<times> 'z process_kstate_scheme) outcome" where
  "process_fork s = Ret (0, s)"

definition process_exec :: "u64 \<Rightarrow> u32 \<Rightarrow> u64 \<Rightarrow> 'z process_kstate_scheme \<Rightarrow> (int \<times> 'z process_kstate_scheme) outcome" where
  "process_exec pathname ac av s = Ret (0, s)"

text \<open>\<open>*status\<close> is not written.\<close>

definition process_wait :: "u64 \<Rightarrow> 'z process_kstate_scheme \<Rightarrow> (int \<times> 'z process_kstate_scheme) outcome" where
  "process_wait pid s = Ret (0, s)"

definition process_get :: "u64 \<Rightarrow> 'z process_kstate_scheme \<Rightarrow> nat option" where
  "process_get pid s = first_from (\<lambda>i. process_id (process_at s i) = pid) 0 MAX_PROCESSES"

text \<open>
  \<open>sched_yield\<close> returns, and the call after it is \<open>__builtin_unreachable\<close>: reaching it is
  undefined behaviour.
\<close>

definition process_exit :: "u32 \<Rightarrow> 'z process_kstate_scheme \<Rightarrow> (unit \<times> 'z process_kstate_scheme) outcome" where
  "process_exit code s =
     (let s1 = (case process_get (g_current_pid s) s of
                  None \<Rightarrow> s
                | Some i \<Rightarrow> put_process i ((process_at s i)\<lparr>process_st := PROCESS_STATE_TERMINATED,
                                                             exit_code := code\<rparr>) s)
      in bindR (sched_yield s1) (\<lambda>_. Fault))"

definition process_getpid :: "'z process_kstate_scheme \<Rightarrow> u64" where
  "process_getpid s = g_current_pid s"

definition process_getppid :: "'z process_kstate_scheme \<Rightarrow> u64" where
  "process_getppid s = (case process_get (g_current_pid s) s of None \<Rightarrow> 0 | Some i \<Rightarrow> parent_pid (process_at s i))"

definition process_kill :: "u64 \<Rightarrow> u32 \<Rightarrow> 'z process_kstate_scheme \<Rightarrow> (int \<times> 'z process_kstate_scheme) outcome" where
  "process_kill pid sig s = Ret (0, s)"

text \<open>The 64-bit results of the identity calls are returned as an \<open>int\<close>, as are 0 and -1.\<close>

definition process_handle_syscall ::
  "u64 \<Rightarrow> u64 \<Rightarrow> u64 \<Rightarrow> u64 \<Rightarrow> u64 \<Rightarrow> u64 \<Rightarrow> 'z process_kstate_scheme \<Rightarrow> (u32 \<times> 'z process_kstate_scheme) outcome" where
  "process_handle_syscall n arg1 arg2 arg3 arg4 arg5 s =
     (if n = 0 then bindR (process_exit (ucast arg1) s) (\<lambda>(u, t). Ret (0, t))
      else if n \<le> 10 then Ret (0, s)
      else if n = 11 then Ret (ucast (process_getpid s), s)
      else if n = 12 then Ret (ucast (process_getppid s), s)
      else if n = 13 then bindR (sched_sleep arg1 s) (\<lambda>(c, t). Ret (0, t))
      else if n = 14 then bindR (sched_yield s) (\<lambda>(u, t). Ret (0, t))
      else if n = 15 then Ret (0, s)
      else Ret (-1, s))"

section \<open>Lemmas\<close>

lemma put_process_simps [simp]:
  "process_at (put_process i e s) j = (if j = i then e else process_at s j)"
  "g_mm (put_process i e s) = g_mm s" "g_cap (put_process i e s) = g_cap s"
  "g_tables (put_process i e s) = g_tables s" "pt_mem (put_process i e s) = pt_mem s"
  "process_lock (g_process (put_process i e s)) = process_lock (g_process s)"
  by (simp_all add: put_process_def)

text \<open>
  The mappings of \<open>process_create\<close> pass capability 0, so the check is made on the domain with
  identifier 0 -- a free slot of the table -- and on the handle 1. No free slot holds that
  handle unless something was granted to domain 0.
\<close>

definition no_root_cap :: "cap_system \<Rightarrow> bool" where
  "no_root_cap c \<longleftrightarrow> (\<forall>i j. domain_id (domains c i) = 0 \<longrightarrow> cap_space (domains c i) j \<noteq> 1)"

lemma cap_check_root:
  assumes "no_root_cap c" "cap_lock c = 0"
  shows "\<exists>r. cap_check 0 1 p c = Ret (r, c) \<and> r \<noteq> 0"
proof (cases "cap_get_domain 0 c")
  case None
  with assms show ?thesis by (simp add: cap_check_def locked_eq)
next
  case (Some d)
  have "first_from (\<lambda>i. cap_space (domains c d) i = 1) 0 DOMAIN_CAP_SPACE_SIZE = None"
    using assms(1) cap_get_domainD [OF Some] by (auto simp: no_root_cap_def first_from_None_iff)
  with Some assms(2) show ?thesis by (simp add: cap_check_def locked_eq)
qed

lemma map_memory_refused:
  assumes "no_root_cap (g_cap s)" "cap_lock (g_cap s) = 0"
  shows "isolation_map_memory did va pa sz ty 0 s = Ret (-1, s)"
proof -
  obtain r where "cap_check 0 1 (CAP_PERM_READ OR CAP_PERM_WRITE) (g_cap s) = Ret (r, g_cap s)" "r \<noteq> 0"
    using cap_check_root [OF assms] by blast
  then show ?thesis by (simp add: isolation_map_memory_def on_cap_def)
qed

lemma process_map_all_refused:
  assumes "no_root_cap (g_cap s)" "cap_lock (g_cap s) = 0"
  shows "process_map_all did ms s = Ret s"
  unfolding process_map_all_def
  by (induction ms) (auto simp: map_memory_refused [OF assms] split: prod.splits)

lemma create_domain_no_root:
  assumes "cap_create_domain base sz c = Ret (did, c')" "no_root_cap c"
  shows "no_root_cap c' \<and> cap_lock c = 0 \<and> cap_lock c' = 0"
proof -
  have lk: "cap_lock c = 0" using assms(1) unfolding cap_create_domain_def by (rule capl.returnsE)
  with assms show ?thesis
    by (auto simp: cap_create_domain_eq no_root_cap_def put_domain_def new_domain_def
        split: option.splits if_splits)
qed

text \<open>A root table that holds nothing translates nothing.\<close>

lemma empty_root_pte: "pt_mem s root = (\<lambda>_. 0) \<Longrightarrow> pt_walk_get_pte root a s = 0"
  by (simp add: pt_walk_get_pte_def pt_walk_get_pdpt_def)

lemma empty_root_denies:
  assumes "pt_mem s (pml4 (g_tables s (unat did))) = (\<lambda>_. 0)" "pages_for sz \<noteq> 0"
  shows "isolation_verify_access did a sz acc s = -1"
proof -
  obtain n where "unat (pages_for sz) = Suc n"
    using assms(2) by (cases "unat (pages_for sz)") (auto simp: unat_eq_zero)
  then show ?thesis
    by (simp add: isolation_verify_access_def page_allows_def empty_root_pte [OF assms(1)])
qed

lemma create_tables_result:
  fixes s t :: "'z process_kstate_scheme"
  assumes "isolation_create_page_tables did fl s = Ret (0, t)"
  shows "unat did < MAX_DOMAINS \<and> pt_mem t (pml4 (g_tables t (unat did))) = (\<lambda>_. 0) \<and>
    g_process t = g_process s \<and> g_cap t = g_cap s \<and> g_current_pid t = g_current_pid s"
  using assms
  by (auto simp: isolation_create_page_tables_def pt_alloc_page_table_def outcome_simps put_table_def
      split: if_splits)

lemma process_setup_result:
  assumes "process_setup k phys did ac av s = Ret (pid, t)" "no_root_cap (g_cap s)" "cap_lock (g_cap s) = 0"
  shows "process_at t k = new_process pid (g_current_pid s) did ac av \<and>
    g_tables t = g_tables s \<and> pt_mem t = pt_mem s"
proof -
  define s1 where "s1 = put_process k (new_process (next_pid (g_process s)) (g_current_pid s) did ac av)
      (s\<lparr>g_process := (g_process s)\<lparr>next_pid := next_pid (g_process s) + 1\<rparr>\<rparr>)"
  have "process_map_all did ms s1 = Ret s1" for ms
    by (rule process_map_all_refused) (use assms(2,3) in \<open>simp_all add: s1_def\<close>)
  with assms(1) have "pid = process_id (process_at s1 k)"
    "t = s1\<lparr>g_process := (g_process s1)\<lparr>num_processes := num_processes (g_process s1) + 1\<rparr>\<rparr>"
    by (simp_all add: process_setup_def Let_def s1_def [symmetric])
  then show ?thesis by (simp add: s1_def new_process_def)
qed

lemma process_create_atE:
  assumes "process_create_at k ac av s = Ret (pid, t)" "pid \<noteq> 0"
  obtains phys m did c u where "cap_create_domain phys 0x100000 (g_cap s) = Ret (did, c)"
    "isolation_create_page_tables did DOMAIN_FLAG_APP (s\<lparr>g_mm := m, g_cap := c\<rparr>) = Ret (0, u)"
    "process_setup k phys did ac av u = Ret (pid, t)"
  using assms by (auto simp: process_create_at_def outcome_simps split: if_splits)

section \<open>Properties\<close>

text \<open>
  A process is created with an empty address space: the four mappings of its code, data,
  stack and heap pass capability 0, which the access check of \<open>isolation_map_memory\<close> refuses, and
  \<open>process_create\<close> ignores the refusals. It returns an identifier, the process is in the table,
  but no address -- not even its entry point -- is mapped, and every access test fails.
\<close>

theorem process_create_maps_nothing:
  fixes s t :: "'z process_kstate_scheme"
  assumes "process_create pathname ac av s = Ret (pid, t)" "pid \<noteq> 0" "no_root_cap (g_cap s)"
  shows "\<exists>k<MAX_PROCESSES. process_id (process_at t k) = pid \<and> process_st (process_at t k) = PROCESS_STATE_NEW \<and>
    (\<forall>a. pt_walk_get_pte (pml4 (g_tables t (unat (process_domain (process_at t k))))) a t = 0) \<and>
    (\<forall>a sz acc. pages_for sz \<noteq> 0 \<longrightarrow>
       isolation_verify_access (process_domain (process_at t k)) a sz acc t = -1)"
proof -
  let ?s = "process_upd (\<lambda>_. 1) s"
  from assms(1) obtain v where v: "t = process_upd (\<lambda>_. 0) v"
    and body: "(case first_from (\<lambda>i. process_st (process_at ?s i) = PROCESS_STATE_NEW) 0 MAX_PROCESSES of
       None \<Rightarrow> Ret (0, ?s) | Some slot \<Rightarrow> process_create_at slot ac av ?s) = Ret (pid, v)"
    unfolding process_create_def by (rule processl.returnsE)
  from body assms(2) obtain k where k: "k < MAX_PROCESSES" "process_create_at k ac av ?s = Ret (pid, v)"
    by (auto dest: first_from_SomeD split: option.splits)
  from process_create_atE [OF k(2) assms(2)] obtain phys m did c w where
    dom: "cap_create_domain phys 0x100000 (g_cap ?s) = Ret (did, c)"
    and tables: "isolation_create_page_tables did DOMAIN_FLAG_APP (?s\<lparr>g_mm := m, g_cap := c\<rparr>) = Ret (0, w)"
    and filled: "process_setup k phys did ac av w = Ret (pid, v)" .
  have "no_root_cap (g_cap ?s)" using assms(3) by simp
  note c = create_domain_no_root [OF dom this]
  note w = create_tables_result [OF tables]
  have "process_at v k = new_process pid (g_current_pid w) did ac av \<and> g_tables v = g_tables w \<and> pt_mem v = pt_mem w"
    by (rule process_setup_result [OF filled]) (use c w in simp_all)
  then have p: "process_at t k = new_process pid (g_current_pid w) did ac av"
    and root: "pt_mem t (pml4 (g_tables t (unat did))) = (\<lambda>_. 0)"
    using w by (simp_all add: v)
  then have "process_domain (process_at t k) = did" "process_id (process_at t k) = pid"
    "process_st (process_at t k) = PROCESS_STATE_NEW"
    by (simp_all add: new_process_def)
  with k(1) empty_root_pte [OF root] empty_root_denies [OF root] show ?thesis by metis
qed

text \<open>A kernel with 300 free pages above page 0.\<close>

definition wide_mm :: mm_state where
  "wide_mm = sample_mm\<lparr>frames := (\<lambda>i. if 1 \<le> i \<and> i \<le> 300 then zero_frame\<lparr>frame_type := MEM_TYPE_AVAILABLE\<rparr>
                                     else zero_frame), total_pages := 512, available_pages := 300\<rparr>"

definition sample_procs :: process_kstate where
  "sample_procs = \<lparr>g_mm = wide_mm, g_cap = sample_caps, g_irq = g_irq sample_iso,
     g_tables = g_tables sample_iso, g_gates = g_gates sample_iso, pt_mem = pt_mem sample_iso,
     tlb_log = [], g_sched = g_sched idle_kernel, g_service = g_service sample_services,
     g_process = \<lparr>processes = (\<lambda>_. zero_process), num_processes = 0, next_pid = 1, process_lock = 0\<rparr>,
     g_current_pid = 0\<rparr>"

lemma wide_mm_simps [simp]:
  "mm_ok wide_mm" "mm_lock wide_mm = 0" "npages wide_mm = 512" "total_pages wide_mm = 512"
  "avail wide_mm i \<longleftrightarrow> 1 \<le> i \<and> i \<le> 300"
  by (auto simp: wide_mm_def sample_mm_def mm_ok_def npages_def MAX_PAGES_def avail_def zero_frame_def)

lemma megabyte: "pages_for 0x100000 = 256"
  by (simp add: pages_for_def PAGE_SIZE_def)

lemma wide_alloc:
  "mm_alloc 0x100000 PAGE_SIZE MEM_TYPE_APPLICATION 0 wide_mm =
     Ret (0x1000, alloc_at MEM_TYPE_APPLICATION 0 1 256 wide_mm)"
proof -
  have "first_fit wide_mm 256 = Some 1"
    unfolding first_fit_def
    by (rule first_from_SomeI) (auto simp: run_def less_Suc_eq intro!: exI [of _ 0])
  then show ?thesis
    using mm_alloc_first_fit_eq [of wide_mm PAGE_SIZE "0x100000" MEM_TYPE_APPLICATION 0]
    by (simp add: megabyte sample_pages PAGE_SIZE_def)
qed

lemma wide_table:
  "mm_alloc PAGE_SIZE PAGE_SIZE MEM_TYPE_KERNEL 0 (alloc_at MEM_TYPE_APPLICATION 0 1 256 wide_mm) =
     Ret (0x101000, alloc_at MEM_TYPE_KERNEL 0 257 1 (alloc_at MEM_TYPE_APPLICATION 0 1 256 wide_mm))"
proof -
  let ?m = "alloc_at MEM_TYPE_APPLICATION 0 1 256 wide_mm"
  have "first_fit ?m 1 = Some 257"
    unfolding first_fit_def
    by (rule first_from_SomeI) (auto simp: run_def avail_alloc_at)
  then show ?thesis
    using mm_alloc_first_fit_eq [of ?m PAGE_SIZE PAGE_SIZE MEM_TYPE_KERNEL 0]
    by (simp add: sample_pages PAGE_SIZE_def mm_ok_def MAX_PAGES_def)
qed

lemma sample_no_root: "no_root_cap sample_caps"
  by (auto simp: no_root_cap_def sample_caps_def new_domain_def zero_domain_def)

lemma sample_create: "\<exists>t. process_create p 0 0 sample_procs = Ret (1, t) \<and> process_domain (process_at t 0) = 3"
proof -
  have "domain_room 2 sample_caps" using sample_room by simp
  then obtain c where c: "cap_create_domain 0x1000 0x100000 sample_caps = Ret (3, c)" "cap_lock c = 0"
    using create_domain_room by fastforce
  have nr: "no_root_cap c" using create_domain_no_root [OF c(1) sample_no_root] by simp
  have slot: "first_from (\<lambda>i. process_st (process_at sample_procs i) = PROCESS_STATE_NEW) 0 MAX_PROCESSES = Some 0"
    by (rule first_from_hit) (simp_all add: sample_procs_def zero_process_def MAX_PROCESSES_def)
  let ?s = "process_upd (\<lambda>_. 1) sample_procs"
  have "\<exists>t. process_create_at 0 0 0 ?s = Ret (1, t) \<and> process_domain (process_at t 0) = 3"
    using wide_alloc wide_table c nr
    by (simp add: process_create_at_def on_mm_def on_cap_def sample_procs_def process_setup_def
        process_map_all_refused isolation_create_page_tables_def pt_alloc_page_table_def
        put_table_def Let_def MAX_DOMAINS_def new_process_def)
  with slot show ?thesis
    by (auto simp: process_create_def locked_eq sample_procs_def)
qed

theorem process_create_maps_nothing_witness:
  "\<exists>t. process_create 0 0 0 sample_procs = Ret (1, t) \<and> (\<exists>k. process_id (process_at t k) = 1 \<and>
     isolation_verify_access (process_domain (process_at t k)) 0x400000 1 1 t = -1)"
proof -
  obtain t where t: "process_create 0 0 0 sample_procs = Ret (1, t)" using sample_create by blast
  have "no_root_cap (g_cap sample_procs)" using sample_no_root by (simp add: sample_procs_def)
  from process_create_maps_nothing [OF t _ this] obtain k where "process_id (process_at t k) = 1"
    "\<And>a sz acc. pages_for sz \<noteq> 0 \<Longrightarrow>
       isolation_verify_access (process_domain (process_at t k)) a sz acc t = -1"
    by auto
  moreover have "pages_for 1 \<noteq> 0" by (simp add: pages_for_def PAGE_SIZE_def)
  ultimately show ?thesis using t by blast
qed

end
