(* ===== verification/Debug.thy ===== *)
theory Debug
  imports Prelude
begin

text \<open>
  The VGA text output of the debug library (\<open>Core-0/lib/debug.c\<close>): a screen of 80 by 25 cells
  at \<open>0xB8000\<close>, a cursor, scrolling on a newline. The cursor is an \<open>int\<close> that starts at 0 and is
  never decreased below it, kept here as a natural number; a cell is addressed by its index.
\<close>

definition VGA_WIDTH :: nat where "VGA_WIDTH = 80"
definition VGA_HEIGHT :: nat where "VGA_HEIGHT = 25"

record vga_state =
  vga_cells :: "nat \<Rightarrow> u16"
  vga_pos :: nat

text \<open>\<open>(VGA_COLOR_WHITE << 8) | VGA_COLOR_BLACK\<close>.\<close>

definition vga_color :: u16 where "vga_color = push_bit 8 15 OR 0"

text \<open>A character with its attribute; the conversion from \<open>char\<close> extends the sign.\<close>

definition vga_cell :: "u8 \<Rightarrow> u16" where "vga_cell c = scast c OR vga_color"

definition vga_scroll :: "(nat \<Rightarrow> u16) \<Rightarrow> nat \<Rightarrow> u16" where
  "vga_scroll v = (let v1 = fold (\<lambda>i w. w(i := w (i + VGA_WIDTH))) [0..<VGA_WIDTH * (VGA_HEIGHT - 1)] v
     in fold (\<lambda>i w. w(i := vga_cell 32)) [VGA_WIDTH * (VGA_HEIGHT - 1)..<VGA_WIDTH * VGA_HEIGHT] v1)"

definition vga_putchar :: "u8 \<Rightarrow> vga_state \<Rightarrow> vga_state" where
  "vga_putchar c s =
     (if c = 10
      then let p = (vga_pos s div VGA_WIDTH + 1) * VGA_WIDTH in
        if VGA_WIDTH * VGA_HEIGHT \<le> p
        then s\<lparr>vga_cells := vga_scroll (vga_cells s), vga_pos := p - VGA_WIDTH\<rparr>
        else s\<lparr>vga_pos := p\<rparr>
      else let s1 = s\<lparr>vga_cells := (vga_cells s)(vga_pos s := vga_cell c), vga_pos := vga_pos s + 1\<rparr> in
        if VGA_WIDTH * VGA_HEIGHT \<le> vga_pos s1 then s1\<lparr>vga_pos := 0\<rparr> else s1)"

text \<open>The string is the list of its characters up to the terminator.\<close>

fun debug_print :: "u8 list \<Rightarrow> vga_state \<Rightarrow> vga_state outcome" where
  "debug_print [] s = Fault"
| "debug_print (c # cs) s = (if c = 0 then Ret s else debug_print cs (vga_putchar c s))"

definition hex_digit :: "u64 \<Rightarrow> u8" where
  "hex_digit d = [48, 49, 50, 51, 52, 53, 54, 55, 56, 57, 65, 66, 67, 68, 69, 70] ! unat (d AND 0xF)"

text \<open>The buffer filled from the last digit to the first, \<open>value\<close> shifted right each time.\<close>

primrec hex_fill :: "nat \<Rightarrow> u64 \<Rightarrow> u8 list \<Rightarrow> u8 list" where
  "hex_fill 0 v buf = buf"
| "hex_fill (Suc i) v buf = hex_fill i (drop_bit 4 v) (buf[i := hex_digit v])"

definition hex_string :: "u64 \<Rightarrow> u8 list" where
  "hex_string v = (hex_fill 16 v (replicate 17 0))[16 := 0]"

definition debug_print_hex :: "u64 \<Rightarrow> vga_state \<Rightarrow> vga_state outcome" where
  "debug_print_hex v s = debug_print (hex_string v) s"

definition debug_clear :: "vga_state \<Rightarrow> vga_state" where
  "debug_clear s = s\<lparr>vga_cells := fold (\<lambda>i w. w(i := vga_cell 32)) [0..<VGA_WIDTH * VGA_HEIGHT] (vga_cells s),
                     vga_pos := 0\<rparr>"

section \<open>Lemmas\<close>

definition vga_ok :: "vga_state \<Rightarrow> bool" where
  "vga_ok s \<longleftrightarrow> vga_pos s < VGA_WIDTH * VGA_HEIGHT"

lemmas vga_dims = VGA_WIDTH_def VGA_HEIGHT_def

text \<open>The cursor stays on the screen, so no write leaves the video memory.\<close>

lemma vga_putchar_ok: "vga_ok s \<Longrightarrow> vga_ok (vga_putchar c s)"
proof -
  assume s: "vga_ok s"
  then have "vga_pos s div 80 < 25" by (simp add: vga_ok_def vga_dims less_mult_imp_div_less)
  with s show ?thesis by (auto simp: vga_ok_def vga_putchar_def vga_dims Let_def)
qed

lemma fold_outside:
  "i \<notin> set xs \<Longrightarrow> fold (\<lambda>j w. w(j := f j w)) xs v i = v i"
  by (induction xs arbitrary: v) auto

lemma vga_putchar_outside:
  "vga_ok s \<Longrightarrow> VGA_WIDTH * VGA_HEIGHT \<le> i \<Longrightarrow> vga_cells (vga_putchar c s) i = vga_cells s i"
  by (auto simp: vga_putchar_def vga_ok_def Let_def vga_scroll_def fold_outside vga_dims)

lemma debug_print_ok:
  "debug_print cs s = Ret t \<Longrightarrow> vga_ok s \<Longrightarrow>
   vga_ok t \<and> (\<forall>i\<ge>VGA_WIDTH * VGA_HEIGHT. vga_cells t i = vga_cells s i)"
  by (induction cs s rule: debug_print.induct)
    (auto simp: vga_putchar_ok vga_putchar_outside split: if_splits)

lemma debug_print_returns: "0 \<in> set cs \<Longrightarrow> \<exists>t. debug_print cs s = Ret t"
  by (induction cs s rule: debug_print.induct) auto

lemma hex_fill_length [simp]: "length (hex_fill n v buf) = length buf"
  by (induction n arbitrary: v buf) simp_all

lemma hex_string_terminated: "0 \<in> set (hex_string v)"
proof -
  have "hex_string v ! 16 = 0" by (simp add: hex_string_def)
  moreover have "16 < length (hex_string v)" by (simp add: hex_string_def)
  ultimately show ?thesis by (metis nth_mem)
qed

text \<open>Digit \<open>i\<close> of the buffer is the \<open>i\<close>-th hexadecimal digit from the left.\<close>

lemma hex_fill_nth:
  "n \<le> length buf \<Longrightarrow> i < length buf \<Longrightarrow>
   hex_fill n v buf ! i = (if i < n then hex_digit (drop_bit (4 * (n - 1 - i)) v) else buf ! i)"
proof (induction n arbitrary: v buf)
  case (Suc n)
  have "hex_fill (Suc n) v buf ! i =
      (if i < n then hex_digit (drop_bit (4 * (n - 1 - i)) (drop_bit 4 v)) else buf[n := hex_digit v] ! i)"
    using Suc by simp
  moreover have "4 * (n - 1 - i) + 4 = 4 * (n - i)" if "i < n" using that by simp
  ultimately show ?case
    using Suc.prems by (cases "i < n") (auto simp: drop_bit_drop_bit less_Suc_eq nth_list_update)
qed simp

lemma hex_string_nth: "i < 16 \<Longrightarrow> hex_string v ! i = hex_digit (drop_bit (4 * (15 - i)) v)"
  by (simp add: hex_string_def hex_fill_nth)

end
