(* ===== verification/MmuTest.thy ===== *)
theory MmuTest
  imports Process Debug
begin

text \<open>
  The self test of the memory management unit (\<open>Core-0/mmu_test.c\<close>), which the kernel runs while it starts. The
  routines it logs with are those of \<open>kernel.c\<close>, in theory \<open>Kernel\<close>; here they are parameters. The theorems say
  how many of the six tests fail, depending on the frames that are free and on a capability of domain 0.
\<close>

type_synonym 's logger = "bytes \<Rightarrow> 's \<Rightarrow> 's outcome"

definition DOMAIN_FLAG_KERNEL :: u32 where "DOMAIN_FLAG_KERNEL = 0x01"

text \<open>A string literal that ends with a newline, and one that ends with two.\<close>

definition lit_nl :: "string \<Rightarrow> bytes" where "lit_nl s = map of_char s @ [10, 0]"

definition lit_nl2 :: "string \<Rightarrow> bytes" where "lit_nl2 s = map of_char s @ [10, 10, 0]"

section \<open>The tests\<close>

text \<open>A message and the result of the test, -1 for \<open>FAILED\<close> and 0 for \<open>PASSED\<close>.\<close>

definition test_ends :: "'s logger \<Rightarrow> string \<Rightarrow> int \<Rightarrow> 's \<Rightarrow> (int \<times> 's) outcome" where
  "test_ends log msg r s = bindR (log (lit_nl msg) s) (\<lambda>s. Ret (r, s))"

text \<open>The failure of a test that holds a page table, which it gives back.\<close>

definition test_fails_with :: "'z iso_state_scheme logger \<Rightarrow> string \<Rightarrow> u64 \<Rightarrow> 'z iso_state_scheme \<Rightarrow>
    (int \<times> 'z iso_state_scheme) outcome" where
  "test_fails_with log msg pt s =
     bindR (log (lit_nl msg) s) (\<lambda>s. bindR (pt_free_page_table pt s) (\<lambda>(u, s). Ret (-1, s)))"

definition test_pt_allocation ::
  "'z iso_state_scheme logger \<Rightarrow> 'z iso_state_scheme \<Rightarrow> (int \<times> 'z iso_state_scheme) outcome" where
  "test_pt_allocation log s =
     bindR (log (lit_nl ''Testing page table allocation...'') s) (\<lambda>s.
     bindR (pt_alloc_page_table s) (\<lambda>(pt, s).
     if pt = 0 then test_ends log ''FAILED: Could not allocate page table'' (-1) s
     else if first_from (\<lambda>i. pt_mem s pt i \<noteq> 0) 0 512 \<noteq> None
          then test_fails_with log ''FAILED: Page table not cleared'' pt s
     else bindR (pt_free_page_table pt s) (\<lambda>(u, s). test_ends log ''PASSED: Page table allocation'' 0 s)))"

definition test_pt_entry_ops ::
  "'z iso_state_scheme logger \<Rightarrow> 'z iso_state_scheme \<Rightarrow> (int \<times> 'z iso_state_scheme) outcome" where
  "test_pt_entry_ops log s =
     bindR (log (lit_nl ''Testing page table entry operations...'') s) (\<lambda>s.
     bindR (pt_alloc_page_table s) (\<lambda>(pt, s).
     if pt = 0 then test_ends log ''FAILED: Could not allocate page table'' (-1) s
     else let test_addr = 0x1000;
              test_flags = PT_FLAG_PRESENT OR PT_FLAG_WRITABLE OR PT_FLAG_USER;
              s = pt_set_entry pt 0 (test_addr OR test_flags) s;
              entry = pt_get_entry pt 0 s
       in if entry \<noteq> test_addr OR test_flags then test_fails_with log ''FAILED: Entry mismatch'' pt s
          else if \<not> pt_is_entry_present pt 0 s
            then test_fails_with log ''FAILED: Entry not marked as present'' pt s
          else bindR (pt_free_page_table pt s) (\<lambda>(u, s).
            test_ends log ''PASSED: Page table entry operations'' 0 s)))"

definition test_pt_walking ::
  "'z iso_state_scheme logger \<Rightarrow> 'z iso_state_scheme \<Rightarrow> (int \<times> 'z iso_state_scheme) outcome" where
  "test_pt_walking log s =
     bindR (log (lit_nl ''Testing page table walking...'') s) (\<lambda>s.
     bindR (isolation_create_page_tables 1 DOMAIN_FLAG_KERNEL s) (\<lambda>(r, s).
     if r \<noteq> 0 then test_ends log ''FAILED: Could not create page tables'' (-1) s
     else if pt_walk_get_pml4 1 s = 0 then test_ends log ''FAILED: Could not get PML4'' (-1) s
     else if pt_walk_get_pdpt (pt_walk_get_pml4 1 s) 0x1000 s \<noteq> 0
       then test_ends log ''FAILED: Should not find PDPT for unmapped address'' (-1) s
     else test_ends log ''PASSED: Page table walking'' 0 s))"

definition test_memory_mapping ::
  "'z iso_state_scheme logger \<Rightarrow> 'z iso_state_scheme \<Rightarrow> (int \<times> 'z iso_state_scheme) outcome" where
  "test_memory_mapping log s =
     bindR (log (lit_nl ''Testing memory mapping...'') s) (\<lambda>s.
     bindR (isolation_create_page_tables 2 DOMAIN_FLAG_KERNEL s) (\<lambda>(r, s).
     if r \<noteq> 0 then test_ends log ''FAILED: Could not create page tables'' (-1) s
     else bindR (on_mm (mm_alloc PAGE_SIZE PAGE_SIZE MEM_TYPE_KERNEL 2) s) (\<lambda>(phys_addr, s).
     if phys_addr = 0 then test_ends log ''FAILED: Could not allocate physical memory'' (-1) s
     else bindR (isolation_map_memory 2 0x1000000 phys_addr PAGE_SIZE MAP_TYPE_DATA 0 s) (\<lambda>(r, s).
     if r \<noteq> 0 then test_ends log ''FAILED: Could not map memory'' (-1) s
     else let pte = pt_walk_get_pte (pt_walk_get_pml4 2 s) 0x1000000 s
       in if pte AND PT_FLAG_PRESENT = 0 then test_ends log ''FAILED: Mapped page not present'' (-1) s
          else if PTE_GET_ADDRESS pte \<noteq> phys_addr then test_ends log ''FAILED: Physical address mismatch'' (-1) s
          else if pte AND PT_FLAG_WRITABLE = 0 then test_ends log ''FAILED: Page not writable'' (-1) s
          else test_ends log ''PASSED: Memory mapping'' 0 s))))"

definition test_memory_unmapping ::
  "'z iso_state_scheme logger \<Rightarrow> 'z iso_state_scheme \<Rightarrow> (int \<times> 'z iso_state_scheme) outcome" where
  "test_memory_unmapping log s =
     bindR (log (lit_nl ''Testing memory unmapping...'') s) (\<lambda>s.
     bindR (isolation_create_page_tables 3 DOMAIN_FLAG_KERNEL s) (\<lambda>(r, s).
     if r \<noteq> 0 then test_ends log ''FAILED: Could not create page tables'' (-1) s
     else bindR (on_mm (mm_alloc PAGE_SIZE PAGE_SIZE MEM_TYPE_KERNEL 3) s) (\<lambda>(phys_addr, s).
     bindR (isolation_map_memory 3 0x2000000 phys_addr PAGE_SIZE MAP_TYPE_DATA 0 s) (\<lambda>(r, s).
     if r \<noteq> 0 then test_ends log ''FAILED: Could not map memory'' (-1) s
     else bindR (isolation_unmap_memory 3 0x2000000 PAGE_SIZE s) (\<lambda>(r, s).
     if r \<noteq> 0 then test_ends log ''FAILED: Could not unmap memory'' (-1) s
     else if pt_walk_get_pte (pt_walk_get_pml4 3 s) 0x2000000 s AND PT_FLAG_PRESENT \<noteq> 0
       then test_ends log ''FAILED: Page still present after unmapping'' (-1) s
     else test_ends log ''PASSED: Memory unmapping'' 0 s)))))"

definition test_address_space_checks ::
  "'s logger \<Rightarrow> 's \<Rightarrow> (int \<times> 's) outcome" where
  "test_address_space_checks log s =
     bindR (log (lit_nl ''Testing address space checks...'') s) (\<lambda>s.
     if \<not> is_kernel_address KERNEL_BASE then test_ends log ''FAILED: Kernel base not recognized'' (-1) s
     else if is_kernel_address USER_BASE
       then test_ends log ''FAILED: User base incorrectly recognized as kernel'' (-1) s
     else if \<not> is_user_address USER_BASE then test_ends log ''FAILED: User base not recognized'' (-1) s
     else if is_user_address KERNEL_BASE
       then test_ends log ''FAILED: Kernel base incorrectly recognized as user'' (-1) s
     else if \<not> is_device_address DEVICE_BASE then test_ends log ''FAILED: Device base not recognized'' (-1) s
     else test_ends log ''PASSED: Address space checks'' 0 s)"

text \<open>\<open>if (test() != 0) failures++;\<close> for each test of a list.\<close>

primrec count_failures :: "('s \<Rightarrow> (int \<times> 's) outcome) list \<Rightarrow> int \<Rightarrow> 's \<Rightarrow> (int \<times> 's) outcome" where
  "count_failures [] failures s = Ret (failures, s)"
| "count_failures (test # tests) failures s =
     bindR (test s) (\<lambda>(r, s). count_failures tests (if r \<noteq> 0 then failures + 1 else failures) s)"

definition ruler :: string where "ruler = replicate 40 CHR ''=''"

definition mmu_run_tests ::
  "'z iso_state_scheme logger \<Rightarrow> (u64 \<Rightarrow> 'z iso_state_scheme \<Rightarrow> 'z iso_state_scheme outcome) \<Rightarrow>
   'z iso_state_scheme \<Rightarrow> (int \<times> 'z iso_state_scheme) outcome" where
  "mmu_run_tests log log_hex s =
     bindR (forR log [lit_nl '''', lit_nl ruler, lit_nl ''Running MMU Tests'', lit_nl2 ruler] s) (\<lambda>s.
     bindR (count_failures [test_pt_allocation log, test_pt_entry_ops log, test_pt_walking log,
              test_memory_mapping log, test_memory_unmapping log, test_address_space_checks log] 0 s) (\<lambda>(failures, s).
     bindR (forR log [lit_nl '''', lit_nl ruler] s) (\<lambda>s.
     bindR (if failures = 0 then log (lit_nl ''All MMU tests PASSED'') s
            else bindR (log_hex (word_of_int failures) s) (log (lit_nl '' test(s) FAILED''))) (\<lambda>s.
     bindR (log (lit_nl2 ruler) s) (\<lambda>s. Ret (failures, s))))))"

section \<open>Steps of a test\<close>

text \<open>A log routine that returns and leaves the memory, the tables and the capabilities alone.\<close>

abbreviation same_iso :: "'z iso_state_scheme \<Rightarrow> 'z iso_state_scheme \<Rightarrow> bool" where
  "same_iso s t \<equiv> iso_state.truncate t = iso_state.truncate s"

definition quiet_log :: "('m \<Rightarrow> 'z iso_state_scheme \<Rightarrow> 'z iso_state_scheme outcome) \<Rightarrow> bool" where
  "quiet_log log \<longleftrightarrow> (\<forall>m s. \<exists>t. log m s = Ret t \<and> same_iso s t)"

text \<open>At least \<open>k\<close> pages of the managed range are free, and page 0 is not.\<close>

definition pages_left :: "nat \<Rightarrow> mm_state \<Rightarrow> bool" where
  "pages_left k m \<longleftrightarrow> mm_ok m \<and> mm_lock m = 0 \<and> \<not> avail m 0 \<and> k \<le> card {p. p < npages m \<and> avail m p}"

definition testing :: "cap_system \<Rightarrow> nat \<Rightarrow> 'z iso_state_scheme \<Rightarrow> bool" where
  "testing c k s \<longleftrightarrow> iso_ok s \<and> pages_left k (g_mm s) \<and> g_cap s = c"

text \<open>The outcome is a return with the result \<open>r\<close> and a state that satisfies \<open>P\<close>.\<close>

definition gives :: "'r \<Rightarrow> ('s \<Rightarrow> bool) \<Rightarrow> ('r \<times> 's) outcome \<Rightarrow> bool" where
  "gives r P o' \<longleftrightarrow> (\<exists>t. o' = Ret (r, t) \<and> P t)"

lemma truncate_fields:
  assumes "same_iso s t"
  shows "g_mm t = g_mm s" "g_cap t = g_cap s" "g_tables t = g_tables s" "pt_mem t = pt_mem s"
  using assms by (simp_all add: iso_state.defs)

lemma testing_truncate:
  assumes "same_iso s t" "testing c k s"
  shows "testing c k t"
  using assms(2) unfolding testing_def iso_ok_def pt_owned_def truncate_fields [OF assms(1)] by blast

lemma gives_log:
  assumes "quiet_log log" "\<And>t. same_iso s t \<Longrightarrow> gives r P (f t)"
  shows "gives r P (bindR (log m s) f)"
proof -
  obtain t where "log m s = Ret t" "same_iso s t"
    using assms(1) unfolding quiet_log_def by blast
  with assms(2) [OF this(2)] show ?thesis by simp
qed

lemma gives_logs:
  assumes "quiet_log log"
  shows "(\<And>t. same_iso s t \<Longrightarrow> gives r P (f t)) \<Longrightarrow>
    gives r P (bindR (forR log ms s) f)"
proof (induction ms arbitrary: s)
  case (Cons m ms)
  show ?case unfolding forR.simps bindR_assoc
  proof (rule gives_log [OF assms])
    fix u assume "same_iso s u"
    with Cons.prems show "gives r P (bindR (forR log ms u) f)" by (intro Cons.IH) simp
  qed
qed simp

lemma gives_test_ends: "quiet_log log \<Longrightarrow> testing c k s \<Longrightarrow> gives r (testing c k) (test_ends log m r s)"
  unfolding test_ends_def by (erule gives_log) (auto simp: gives_def intro: testing_truncate)

lemma gives_count:
  "gives r P (test s) \<Longrightarrow>
   (\<And>t. P t \<Longrightarrow> gives n' Q (count_failures tests (if r \<noteq> 0 then n + 1 else n) t)) \<Longrightarrow>
   gives n' Q (count_failures (test # tests) n s)"
  unfolding gives_def by auto

lemma gives_weaken: "gives r P o' \<Longrightarrow> (\<And>t. P t \<Longrightarrow> Q t) \<Longrightarrow> gives r Q o'"
  unfolding gives_def by blast

lemma testing_mono: "testing c k s \<Longrightarrow> j \<le> k \<Longrightarrow> testing c j s"
  by (simp add: testing_def pages_left_def)

section \<open>Pages\<close>

lemma pages_left_alloc:
  assumes "pages_left (Suc k) m" "ty \<noteq> MEM_TYPE_AVAILABLE"
  shows "\<exists>st. 0 < st \<and> st < npages m \<and> avail m st \<and>
    mm_alloc PAGE_SIZE PAGE_SIZE ty ow m = Ret (of_nat st * PAGE_SIZE, alloc_at ty ow st 1 m) \<and>
    pages_left k (alloc_at ty ow st 1 m)"
proof -
  let ?A = "{p. p < npages m \<and> avail m p}"
  have m: "mm_ok m" "mm_lock m = 0" "\<not> avail m 0" "Suc k \<le> card ?A"
    using assms(1) by (auto simp: pages_left_def)
  then obtain p where p: "p < npages m" "avail m p" by (cases "?A = {}") auto
  have "first_fit m 1 \<noteq> None"
    using p unfolding first_fit_def first_from_None_iff by (auto simp: run_def)
  then obtain st where st: "first_fit m 1 = Some st" by blast
  then have "st < npages m" "run m st 1"
    using first_from_SomeD(2,3) [OF st [unfolded first_fit_def]] by auto
  then have free: "st < npages m" "avail m st" using runD [of m st 1 st] by auto
  have "{q. q < npages m \<and> avail (alloc_at ty ow st 1 m) q} = ?A - {st}"
    using assms(2) by (auto simp: avail_alloc_at)
  with m free have "pages_left k (alloc_at ty ow st 1 m)"
    using assms(2) by (simp add: pages_left_def avail_alloc_at)
  moreover have "0 < st" using free(2) m(3) by (cases st) auto
  ultimately show ?thesis
    using mm_alloc_first_fit_eq [OF m(1,2), of PAGE_SIZE PAGE_SIZE ty ow] st free
    by (auto simp: pages_for_PAGE_SIZE)
qed

lemma page_below_limit: "mm_ok m \<Longrightarrow> p < npages m \<Longrightarrow> p < 2 ^ 52"
  by (simp add: mm_ok_def MAX_PAGES_def)

text \<open>A page taken for a test and given back leaves the allocator as it was, up to counters.\<close>

lemma avail_free_at: "avail (free_at p m) q \<longleftrightarrow> q = p \<or> avail m q"
  by (simp add: free_at_def avail_def)

lemma testing_scratch:
  assumes "testing c k s" "avail (g_mm s) st" "st < npages (g_mm s)"
    "ty \<noteq> MEM_TYPE_AVAILABLE"
  shows "testing c k (s\<lparr>pt_mem := (pt_mem s)(of_nat st * PAGE_SIZE := f),
                        g_mm := free_at st (alloc_at ty ow st 1 (g_mm s))\<rparr>)"
    (is "testing c k ?t")
proof -
  have ok: "iso_ok s" "pages_left k (g_mm s)" "g_cap s = c" using assms(1) by (auto simp: testing_def)
  from ok(1) obtain own where own: "pt_owned own s" "mm_ok (g_mm s)" "mm_lock (g_mm s) = 0" by (rule iso_okE)
  have same: "avail (free_at st (alloc_at ty ow st 1 (g_mm s))) = avail (g_mm s)"
    using assms(2,4) by (auto simp: avail_free_at avail_alloc_at fun_eq_iff)
  have "unat (of_nat st * PAGE_SIZE) = st * 4096"
    using page_below_limit [OF own(2) assms(3)] by (rule unat_page_addr)
  then have page: "unat (of_nat st * PAGE_SIZE) div 4096 = st" by simp
  have apart: "own x = Some (d, p) \<Longrightarrow> x \<noteq> of_nat st * PAGE_SIZE" for x d p
    using pt_ownedD(2) [OF own(1), of x d p] assms(2) page by auto
  have "pt_owned own ?t"
    using own(1) apart unfolding pt_owned_def by (auto simp: same [simplified])
  moreover have "pages_left k (g_mm ?t)" using ok(2) by (simp add: pages_left_def same [simplified])
  ultimately show ?thesis using own ok(3) by (auto simp: testing_def iso_ok_def)
qed

section \<open>Tables and mappings\<close>

lemma testing_alloc:
  assumes "testing c (Suc k) s" "ty \<noteq> MEM_TYPE_AVAILABLE"
  obtains p t where "on_mm (mm_alloc PAGE_SIZE PAGE_SIZE ty ow) s = Ret (p, t)" "testing c k t" "p \<noteq> 0"
    "unat p mod 4096 = 0" "unat p < 2 ^ 52" "g_tables t = g_tables s" "pt_mem t = pt_mem s"
proof -
  have ok: "iso_ok s" "pages_left (Suc k) (g_mm s)" "g_cap s = c" using assms(1) by (auto simp: testing_def)
  obtain st where st: "0 < st" "st < npages (g_mm s)"
    "mm_alloc PAGE_SIZE PAGE_SIZE ty ow (g_mm s) = Ret (of_nat st * PAGE_SIZE, alloc_at ty ow st 1 (g_mm s))"
    "pages_left k (alloc_at ty ow st 1 (g_mm s))"
    using pages_left_alloc [OF ok(2) assms(2)] by blast
  let ?t = "s\<lparr>g_mm := alloc_at ty ow st 1 (g_mm s)\<rparr>"
  from ok(1) obtain own where own: "pt_owned own s" "mm_ok (g_mm s)" "mm_lock (g_mm s) = 0" by (rule iso_okE)
  then have "pt_owned own ?t" using assms(2) by (intro pt_owned_shrink) (auto simp: avail_alloc_at)
  then have "testing c k ?t" using st(4) own ok(3) by (auto simp: testing_def iso_ok_def)
  moreover have "st < MAX_PAGES" using st(2) own(2) by (simp add: mm_ok_def)
  moreover have "unat (of_nat st * PAGE_SIZE) = st * 4096"
    using page_below_limit [OF own(2) st(2)] by (rule unat_page_addr)
  moreover have "(of_nat st * PAGE_SIZE :: u64) \<noteq> 0"
    using calculation(3) st(1) by (metis mult_eq_0_iff neq0_conv unat_0 zero_neq_numeral)
  ultimately show thesis
    using st(3) by (intro that [of "of_nat st * PAGE_SIZE" ?t]) (auto simp: on_mm_def MAX_PAGES_def)
qed

lemma pt_alloc_left:
  assumes "pages_left (Suc k) (g_mm s)"
  obtains p t where "pt_alloc_page_table s = Ret (p, t)" "p \<noteq> 0" "pages_left k (g_mm t)"
    "g_tables t = g_tables s" "pt_mem t = (pt_mem s)(p := \<lambda>_. 0)" "g_cap t = g_cap s"
proof -
  obtain st where st: "0 < st" "st < npages (g_mm s)"
    "mm_alloc PAGE_SIZE PAGE_SIZE MEM_TYPE_KERNEL 0 (g_mm s) =
       Ret (of_nat st * PAGE_SIZE, alloc_at MEM_TYPE_KERNEL 0 st 1 (g_mm s))"
    "pages_left k (alloc_at MEM_TYPE_KERNEL 0 st 1 (g_mm s))"
    using pages_left_alloc [OF assms, of MEM_TYPE_KERNEL 0] by auto
  have "unat (of_nat st * PAGE_SIZE) = st * 4096"
    using assms st(2) by (intro unat_page_addr page_below_limit) (auto simp: pages_left_def)
  then have "(of_nat st * PAGE_SIZE :: u64) \<noteq> 0"
    using st(1) by (metis mult_eq_0_iff neq0_conv unat_0 zero_neq_numeral)
  with st show thesis
    by (intro that [of "of_nat st * PAGE_SIZE" "s\<lparr>g_mm := alloc_at MEM_TYPE_KERNEL 0 st 1 (g_mm s),
          pt_mem := (pt_mem s)(of_nat st * PAGE_SIZE := \<lambda>_. 0)\<rparr>"])
      (simp_all add: pt_alloc_page_table_def on_mm_def)
qed

lemma testing_create:
  assumes "testing c (Suc k) s" "unat did < MAX_DOMAINS"
  obtains t where "isolation_create_page_tables did fl s = Ret (0, t)" "testing c k t"
    "pml4 (g_tables t (unat did)) \<noteq> 0" "pt_walk_get_pdpt (pml4 (g_tables t (unat did))) v t = 0"
proof -
  have ok: "iso_ok s" "pages_left (Suc k) (g_mm s)" "g_cap s = c" using assms(1) by (auto simp: testing_def)
  obtain p u where p: "pt_alloc_page_table s = Ret (p, u)" "p \<noteq> 0" "pages_left k (g_mm u)"
    "pt_mem u = (pt_mem s)(p := \<lambda>_. 0)" "g_cap u = g_cap s"
    using pt_alloc_left [OF ok(2)] by metis
  let ?t = "put_table (unat did) \<lparr>pml4 = p, dpt_domain_id = did, dpt_capabilities = 0, dpt_flags = fl\<rparr> u"
  have ret: "isolation_create_page_tables did fl s = Ret (0, ?t)"
    using p(1,2) assms(2) by (simp add: isolation_create_page_tables_def)
  have "iso_ok ?t" using create_tables_ok [OF ok(1) ret] by simp
  moreover have "g_mm ?t = g_mm u" "g_cap ?t = g_cap u" "pt_mem ?t = pt_mem u"
    "pml4 (g_tables ?t (unat did)) = p" by (simp_all add: put_table_def)
  ultimately show thesis
    using ret p(2-5) ok(3) by (intro that [of ?t]) (simp_all only: testing_def pt_walk_get_pdpt_def, simp_all)
qed

lemma get_or_create_left:
  assumes "pages_left (Suc k) (g_mm s)"
  obtains x t where "get_or_create parent i walked s = Ret (x, t)" "x \<noteq> 0" "pages_left k (g_mm t)"
proof (cases "walked = 0")
  case True
  obtain p t where "pt_alloc_page_table s = Ret (p, t)" "p \<noteq> 0" "pages_left k (g_mm t)"
    using pt_alloc_left [OF assms] by metis
  with True show thesis by (intro that [of p "pt_set_entry parent i (p OR TABLE_FLAGS) t"])
      (auto simp: get_or_create_def pt_set_entry_def)
next
  case False
  with assms show thesis by (intro that) (auto simp: get_or_create_def pages_left_def)
qed

lemma map_page_left:
  assumes "pages_left (Suc (Suc (Suc k))) (g_mm s)"
  obtains t where "map_page root v p fl s = Ret (0, t)" "pages_left k (g_mm t)"
proof -
  obtain pdpt s1 where 1: "get_or_create root (PML4_INDEX v) (pt_walk_get_pdpt root v s) s = Ret (pdpt, s1)"
    "pdpt \<noteq> 0" "pages_left (Suc (Suc k)) (g_mm s1)" using get_or_create_left [OF assms] by metis
  obtain pd s2 where 2: "get_or_create pdpt (PDPT_INDEX v) (pt_walk_get_pd pdpt v s1) s1 = Ret (pd, s2)"
    "pd \<noteq> 0" "pages_left (Suc k) (g_mm s2)" using get_or_create_left [OF 1(3)] by metis
  obtain pt s3 where 3: "get_or_create pd (PD_INDEX v) (pt_walk_get_pt pd v s2) s2 = Ret (pt, s3)"
    "pt \<noteq> 0" "pages_left k (g_mm s3)" using get_or_create_left [OF 2(3)] by metis
  show thesis
    by (rule that [of "pt_set_entry pt (PT_INDEX v) (p OR fl) s3"])
      (simp_all add: map_page_def 1 2 3, simp add: pt_set_entry_def 3)
qed

lemma testing_map:
  assumes "testing c (Suc (Suc (Suc k))) s" "unat did < MAX_DOMAINS" "pml4 (g_tables s (unat did)) \<noteq> 0"
    "cap_check 0 1 (CAP_PERM_READ OR CAP_PERM_WRITE) c = Ret (0, c)"
  obtains t where "isolation_map_memory did v p PAGE_SIZE ty 0 s = Ret (0, t)" "testing c k t"
    "g_tables t = g_tables s" "translate t (unat did) v = p OR map_flags ty"
proof -
  have ok: "iso_ok s" "pages_left (Suc (Suc (Suc k))) (g_mm s)" "g_cap s = c"
    using assms(1) by (auto simp: testing_def)
  obtain t where t: "map_page (pml4 (g_tables s (unat did))) v p (map_flags ty) s = Ret (0, t)"
    "pages_left k (g_mm t)" using map_page_left [OF ok(2)] by metis
  have "on_cap (cap_check 0 1 (CAP_PERM_READ OR CAP_PERM_WRITE)) s = Ret (0, s)"
    by (rule on_cap_pure) (simp add: ok(3) assms(4))
  then have ret: "isolation_map_memory did v p PAGE_SIZE ty 0 s = Ret (0, t)"
    using t(1) assms(2,3) by (simp add: isolation_map_memory_def pages_for_PAGE_SIZE)
  have n: "unat (pages_for PAGE_SIZE) \<le> 2 ^ 36" by (simp add: pages_for_PAGE_SIZE)
  obtain own own' where rem: "remapped own s own' t (unat did) (page_paths v 0 (unat (pages_for PAGE_SIZE)))"
    using isolation_map_remapped [OF ok(1) ret n] by blast
  note effect = isolation_map_effect [OF ok(1) ret n]
  have "translate t (unat did) v = p OR map_flags ty"
    using effect(3) by (simp add: pages_for_PAGE_SIZE)
  with effect(1) t(2) ok(3) ret remapped_fields [OF rem] show thesis
    by (intro that [of t]) (auto simp: testing_def)
qed

lemma unmap_keeps:
  "g_mm (unmap_pages n i root v s) = g_mm s" "g_cap (unmap_pages n i root v s) = g_cap s"
  by (induction n arbitrary: i s) (simp_all add: unmap_page_def pt_set_entry_def Let_def)

lemma map_denied:
  assumes "g_cap s = c" "cap_check 0 1 (CAP_PERM_READ OR CAP_PERM_WRITE) c = Ret (r, c)" "r \<noteq> 0"
  shows "isolation_map_memory did v p sz ty 0 s = Ret (-1, s)"
  using on_cap_pure [of "cap_check 0 1 (CAP_PERM_READ OR CAP_PERM_WRITE)" s r] assms
  by (simp add: isolation_map_memory_def)

section \<open>The tests with enough pages\<close>

lemma pt_scratch:
  assumes "testing c (Suc k) s"
  obtains p u where "pt_alloc_page_table s = Ret (p, u)" "p \<noteq> 0" "pt_mem u p = (\<lambda>_. 0)"
    "\<And>f. \<exists>t. pt_free_page_table p (u\<lparr>pt_mem := (pt_mem u)(p := f)\<rparr>) = Ret ((), t) \<and> testing c (Suc k) t"
proof -
  have left: "pages_left (Suc k) (g_mm s)" and ok: "mm_ok (g_mm s)" "mm_lock (g_mm s) = 0"
    using assms by (auto simp: testing_def pages_left_def)
  obtain st where st: "0 < st" "st < npages (g_mm s)" "avail (g_mm s) st"
    "mm_alloc PAGE_SIZE PAGE_SIZE MEM_TYPE_KERNEL 0 (g_mm s) =
       Ret (of_nat st * PAGE_SIZE, alloc_at MEM_TYPE_KERNEL 0 st 1 (g_mm s))"
    using pages_left_alloc [OF left, of MEM_TYPE_KERNEL 0] by auto
  let ?p = "of_nat st * PAGE_SIZE :: u64" and ?m = "alloc_at MEM_TYPE_KERNEL 0 st 1 (g_mm s)"
  let ?u = "s\<lparr>g_mm := ?m, pt_mem := (pt_mem s)(?p := \<lambda>_. 0)\<rparr>"
  have addr: "unat ?p = st * 4096"
    using st(2) ok by (intro unat_page_addr page_below_limit) (auto simp: pages_left_def)
  then have page: "unat (?p div PAGE_SIZE) = st" by (simp add: unat_div_PAGE_SIZE)
  have "?p \<noteq> 0" using addr st(1) by (metis mult_eq_0_iff neq0_conv unat_0 zero_neq_numeral)
  moreover have "mm_free ?p ?m = Ret (0, free_at st ?m)"
    using mm_free_eq [of ?m ?p] ok st(2) page by simp
  moreover have "testing c (Suc k) (s\<lparr>pt_mem := (pt_mem s)(?p := f), g_mm := free_at st ?m\<rparr>)" for f
    using testing_scratch [OF assms st(3,2), of MEM_TYPE_KERNEL] by simp
  ultimately show thesis using st(4)
    by (intro that [of ?p ?u]) (auto simp: pt_alloc_page_table_def pt_free_page_table_def on_mm_def)
qed

lemma allocation_passes:
  assumes "quiet_log log" "testing c (Suc k) s"
  shows "gives 0 (testing c (Suc k)) (test_pt_allocation log s)"
  unfolding test_pt_allocation_def
proof (rule gives_log [OF assms(1)])
  fix u assume "same_iso s u"
  then have "testing c (Suc k) u" using assms(2) by (rule testing_truncate)
  then obtain p v where p: "pt_alloc_page_table u = Ret (p, v)" "p \<noteq> 0" "pt_mem v p = (\<lambda>_. 0)"
    and free: "\<And>f. \<exists>t. pt_free_page_table p (v\<lparr>pt_mem := (pt_mem v)(p := f)\<rparr>) = Ret ((), t) \<and> testing c (Suc k) t"
    by (rule pt_scratch) blast
  have "v\<lparr>pt_mem := (pt_mem v)(p := \<lambda>_. 0)\<rparr> = v" using p(3) by (simp add: fun_upd_idem)
  with free [of "\<lambda>_. 0"] obtain t where t: "pt_free_page_table p v = Ret ((), t)" "testing c (Suc k) t" by auto
  have "first_from (\<lambda>i. pt_mem v p i \<noteq> 0) 0 512 = None" using p(3) by (simp add: first_from_None_iff)
  with p t show "gives 0 (testing c (Suc k)) (bindR (pt_alloc_page_table u) (\<lambda>(pt, s).
     if pt = 0 then test_ends log ''FAILED: Could not allocate page table'' (-1) s
     else if first_from (\<lambda>i. pt_mem s pt i \<noteq> 0) 0 512 \<noteq> None
          then test_fails_with log ''FAILED: Page table not cleared'' pt s
     else bindR (pt_free_page_table pt s) (\<lambda>(u, s). test_ends log ''PASSED: Page table allocation'' 0 s)))"
    by (simp add: gives_test_ends assms(1))
qed

lemma entry_ops_passes:
  assumes "quiet_log log" "testing c (Suc k) s"
  shows "gives 0 (testing c (Suc k)) (test_pt_entry_ops log s)"
  unfolding test_pt_entry_ops_def
proof (rule gives_log [OF assms(1)])
  fix u assume "same_iso s u"
  then have "testing c (Suc k) u" using assms(2) by (rule testing_truncate)
  then obtain p v where p: "pt_alloc_page_table u = Ret (p, v)" "p \<noteq> 0" "pt_mem v p = (\<lambda>_. 0)"
    and free: "\<And>f. \<exists>t. pt_free_page_table p (v\<lparr>pt_mem := (pt_mem v)(p := f)\<rparr>) = Ret ((), t) \<and> testing c (Suc k) t"
    by (rule pt_scratch) blast
  let ?e = "0x1000 OR (PT_FLAG_PRESENT OR PT_FLAG_WRITABLE OR PT_FLAG_USER)"
  let ?w = "pt_set_entry p 0 ?e v"
  have w: "?w = v\<lparr>pt_mem := (pt_mem v)(p := (pt_mem v p)(0 := ?e))\<rparr>" using p(2) by (simp add: pt_set_entry_def)
  then obtain t where t: "pt_free_page_table p ?w = Ret ((), t)" "testing c (Suc k) t"
    using free [of "(pt_mem v p)(0 := ?e)"] by auto
  have e: "pt_get_entry p 0 ?w = ?e" "pt_is_entry_present p 0 ?w"
    unfolding w using p(2)
    by (simp_all add: pt_get_entry_def pt_is_entry_present_def PT_FLAG_PRESENT_def PT_FLAG_WRITABLE_def PT_FLAG_USER_def)
  show "gives 0 (testing c (Suc k)) (bindR (pt_alloc_page_table u) (\<lambda>(pt, s).
     if pt = 0 then test_ends log ''FAILED: Could not allocate page table'' (-1) s
     else let test_addr = 0x1000;
              test_flags = PT_FLAG_PRESENT OR PT_FLAG_WRITABLE OR PT_FLAG_USER;
              s = pt_set_entry pt 0 (test_addr OR test_flags) s;
              entry = pt_get_entry pt 0 s
       in if entry \<noteq> test_addr OR test_flags then test_fails_with log ''FAILED: Entry mismatch'' pt s
          else if \<not> pt_is_entry_present pt 0 s
            then test_fails_with log ''FAILED: Entry not marked as present'' pt s
          else bindR (pt_free_page_table pt s) (\<lambda>(u, s).
            test_ends log ''PASSED: Page table entry operations'' 0 s)))"
    using p(1,2) t by (simp add: Let_def e gives_test_ends assms(1))
qed

lemma walking_passes:
  assumes "quiet_log log" "testing c (Suc k) s"
  shows "gives 0 (testing c k) (test_pt_walking log s)"
  unfolding test_pt_walking_def
proof (rule gives_log [OF assms(1)])
  fix u assume "same_iso s u"
  then have u: "testing c (Suc k) u" using assms(2) by (rule testing_truncate)
  have "unat (1 :: u64) < MAX_DOMAINS" by (simp add: MAX_DOMAINS_def)
  with u obtain t where t: "isolation_create_page_tables 1 DOMAIN_FLAG_KERNEL u = Ret (0, t)" "testing c k t"
    "pml4 (g_tables t (unat (1 :: u64))) \<noteq> 0"
    "pt_walk_get_pdpt (pml4 (g_tables t (unat (1 :: u64)))) 0x1000 t = 0"
    by (rule testing_create)
  then have "pt_walk_get_pml4 1 t = pml4 (g_tables t (unat (1 :: u64)))"
    by (simp add: pt_walk_get_pml4_def MAX_DOMAINS_def)
  with t show "gives 0 (testing c k) (bindR (isolation_create_page_tables 1 DOMAIN_FLAG_KERNEL u) (\<lambda>(r, s).
     if r \<noteq> 0 then test_ends log ''FAILED: Could not create page tables'' (-1) s
     else if pt_walk_get_pml4 1 s = 0 then test_ends log ''FAILED: Could not get PML4'' (-1) s
     else if pt_walk_get_pdpt (pt_walk_get_pml4 1 s) 0x1000 s \<noteq> 0
       then test_ends log ''FAILED: Should not find PDPT for unmapped address'' (-1) s
     else test_ends log ''PASSED: Page table walking'' 0 s))"
    by (simp add: gives_test_ends assms(1))
qed

text \<open>The entry of a data page reads back as it was meant.\<close>

lemma data_entry:
  assumes "unat p mod 4096 = 0" "unat p < 2 ^ 52"
  shows "(p OR map_flags MAP_TYPE_DATA) AND PT_FLAG_PRESENT \<noteq> 0" "PTE_GET_ADDRESS (p OR map_flags MAP_TYPE_DATA) = p"
    "(p OR map_flags MAP_TYPE_DATA) AND PT_FLAG_WRITABLE \<noteq> 0"
proof -
  have "map_flags MAP_TYPE_DATA = TABLE_FLAGS" by (simp add: TABLE_FLAGS_def or.assoc)
  then show "PTE_GET_ADDRESS (p OR map_flags MAP_TYPE_DATA) = p" using table_entry_address [OF assms] by simp
qed (simp_all add: aligned_and_flag [OF assms(1)] PT_FLAG_PRESENT_def PT_FLAG_WRITABLE_def PT_FLAG_USER_def)

lemma mapping_result:
  assumes "quiet_log log" "testing c (k + 5) s"
    "cap_check 0 1 (CAP_PERM_READ OR CAP_PERM_WRITE) c = Ret (r, c)"
  shows "gives (if r = 0 then 0 else -1) (testing c k) (test_memory_mapping log s)"
  unfolding test_memory_mapping_def
proof (rule gives_log [OF assms(1)])
  fix u assume "same_iso s u"
  moreover have "k + 5 = Suc (k + 4)" by simp
  ultimately have u: "testing c (Suc (k + 4)) u" using testing_truncate assms(2) by metis
  have two: "unat (2 :: u64) < MAX_DOMAINS" by (simp add: MAX_DOMAINS_def)
  with u obtain v where v: "isolation_create_page_tables 2 DOMAIN_FLAG_KERNEL u = Ret (0, v)" "testing c (Suc (k + 3)) v"
    "pml4 (g_tables v (unat (2 :: u64))) \<noteq> 0"
    by (rule testing_create) (simp add: eval_nat_numeral)
  have "k + 3 = Suc (Suc (Suc k))" by simp
  with v(2) have more_left: "testing c (Suc (Suc (Suc (Suc k)))) v" by metis
  obtain p w where w: "on_mm (mm_alloc PAGE_SIZE PAGE_SIZE MEM_TYPE_KERNEL 2) v = Ret (p, w)"
    "testing c (Suc (Suc (Suc k))) w" "p \<noteq> 0" "unat p mod 4096 = 0" "unat p < 2 ^ 52" "g_tables w = g_tables v"
    by (rule testing_alloc [OF more_left, of MEM_TYPE_KERNEL 2]) (blast | simp)+
  have root: "pml4 (g_tables w (unat (2 :: u64))) \<noteq> 0" using v(3) w(6) by simp
  have walk: "pt_walk_get_pte (pt_walk_get_pml4 2 t) x t = translate t (unat (2 :: u64)) x" for t :: "'a iso_state_scheme" and x
    by (simp add: translate_def pt_walk_get_pml4_def MAX_DOMAINS_def)
  have weaker: "testing c k w" using w(2) by (rule testing_mono) simp
  show "gives (if r = 0 then 0 else -1) (testing c k) (bindR (isolation_create_page_tables 2 DOMAIN_FLAG_KERNEL u) (\<lambda>(r, s).
     if r \<noteq> 0 then test_ends log ''FAILED: Could not create page tables'' (-1) s
     else bindR (on_mm (mm_alloc PAGE_SIZE PAGE_SIZE MEM_TYPE_KERNEL 2) s) (\<lambda>(phys_addr, s).
     if phys_addr = 0 then test_ends log ''FAILED: Could not allocate physical memory'' (-1) s
     else bindR (isolation_map_memory 2 0x1000000 phys_addr PAGE_SIZE MAP_TYPE_DATA 0 s) (\<lambda>(r, s).
     if r \<noteq> 0 then test_ends log ''FAILED: Could not map memory'' (-1) s
     else let pte = pt_walk_get_pte (pt_walk_get_pml4 2 s) 0x1000000 s
       in if pte AND PT_FLAG_PRESENT = 0 then test_ends log ''FAILED: Mapped page not present'' (-1) s
          else if PTE_GET_ADDRESS pte \<noteq> phys_addr then test_ends log ''FAILED: Physical address mismatch'' (-1) s
          else if pte AND PT_FLAG_WRITABLE = 0 then test_ends log ''FAILED: Page not writable'' (-1) s
          else test_ends log ''PASSED: Memory mapping'' 0 s))))"
  proof (cases "r = 0")
    case True
    with assms(3) have check: "cap_check 0 1 (CAP_PERM_READ OR CAP_PERM_WRITE) c = Ret (0, c)" by simp
    obtain t where "isolation_map_memory 2 0x1000000 p PAGE_SIZE MAP_TYPE_DATA 0 w = Ret (0, t)" "testing c k t"
      "translate t (unat (2 :: u64)) 0x1000000 = p OR map_flags MAP_TYPE_DATA"
      using testing_map [OF w(2) two root check, where v = "0x1000000" and p = p and ty = MAP_TYPE_DATA] by blast
    with v(1) w(1,3) True data_entry [OF w(4,5)] show ?thesis
      by (simp add: walk Let_def gives_test_ends assms(1) del: map_flags.simps)
  next
    case False
    have "g_cap w = c" using w(2) by (simp add: testing_def)
    from map_denied [OF this assms(3) False] v(1) w(1,3) weaker False show ?thesis
      by (simp add: gives_test_ends assms(1))
  qed
qed

lemma unmapping_result:
  assumes "quiet_log log" "testing c (k + 5) s"
    "cap_check 0 1 (CAP_PERM_READ OR CAP_PERM_WRITE) c = Ret (r, c)"
  shows "gives (if r = 0 then 0 else -1) (testing c k) (test_memory_unmapping log s)"
  unfolding test_memory_unmapping_def
proof (rule gives_log [OF assms(1)])
  fix u assume "same_iso s u"
  moreover have "k + 5 = Suc (k + 4)" by simp
  ultimately have u: "testing c (Suc (k + 4)) u" using testing_truncate assms(2) by metis
  have three: "unat (3 :: u64) < MAX_DOMAINS" by (simp add: MAX_DOMAINS_def)
  with u obtain v where v: "isolation_create_page_tables 3 DOMAIN_FLAG_KERNEL u = Ret (0, v)" "testing c (Suc (k + 3)) v"
    "pml4 (g_tables v (unat (3 :: u64))) \<noteq> 0"
    by (rule testing_create) (simp add: eval_nat_numeral)
  have "k + 3 = Suc (Suc (Suc k))" by simp
  with v(2) have more_left: "testing c (Suc (Suc (Suc (Suc k)))) v" by metis
  obtain p w where w: "on_mm (mm_alloc PAGE_SIZE PAGE_SIZE MEM_TYPE_KERNEL 3) v = Ret (p, w)"
    "testing c (Suc (Suc (Suc k))) w" "g_tables w = g_tables v"
    by (rule testing_alloc [OF more_left, of MEM_TYPE_KERNEL 3]) (blast | simp)+
  have root: "pml4 (g_tables w (unat (3 :: u64))) \<noteq> 0" using v(3) w(3) by simp
  have walk: "pt_walk_get_pte (pt_walk_get_pml4 3 t) x t = translate t (unat (3 :: u64)) x" for t :: "'a iso_state_scheme" and x
    by (simp add: translate_def pt_walk_get_pml4_def MAX_DOMAINS_def)
  have weaker: "testing c k w" using w(2) by (rule testing_mono) simp
  show "gives (if r = 0 then 0 else -1) (testing c k) (bindR (isolation_create_page_tables 3 DOMAIN_FLAG_KERNEL u) (\<lambda>(r, s).
     if r \<noteq> 0 then test_ends log ''FAILED: Could not create page tables'' (-1) s
     else bindR (on_mm (mm_alloc PAGE_SIZE PAGE_SIZE MEM_TYPE_KERNEL 3) s) (\<lambda>(phys_addr, s).
     bindR (isolation_map_memory 3 0x2000000 phys_addr PAGE_SIZE MAP_TYPE_DATA 0 s) (\<lambda>(r, s).
     if r \<noteq> 0 then test_ends log ''FAILED: Could not map memory'' (-1) s
     else bindR (isolation_unmap_memory 3 0x2000000 PAGE_SIZE s) (\<lambda>(r, s).
     if r \<noteq> 0 then test_ends log ''FAILED: Could not unmap memory'' (-1) s
     else if pt_walk_get_pte (pt_walk_get_pml4 3 s) 0x2000000 s AND PT_FLAG_PRESENT \<noteq> 0
       then test_ends log ''FAILED: Page still present after unmapping'' (-1) s
     else test_ends log ''PASSED: Memory unmapping'' 0 s)))))"
  proof (cases "r = 0")
    case True
    with assms(3) have check: "cap_check 0 1 (CAP_PERM_READ OR CAP_PERM_WRITE) c = Ret (0, c)" by simp
    obtain t where t: "isolation_map_memory 3 0x2000000 p PAGE_SIZE MAP_TYPE_DATA 0 w = Ret (0, t)" "testing c k t"
      "g_tables t = g_tables w"
      by (rule testing_map [OF w(2) three root check]) auto
    obtain x where x: "isolation_unmap_memory 3 0x2000000 PAGE_SIZE t = Ret (0, x)" "g_mm x = g_mm t" "g_cap x = g_cap t"
      using root t(3) by (auto simp: isolation_unmap_memory_def MAX_DOMAINS_def tlb_invalidate_page_def unmap_keeps)
    have "iso_ok t" using t(2) by (simp add: testing_def)
    note unmapped = isolation_unmap_effect [OF this x(1)]
    have "translate x (unat (3 :: u64)) 0x2000000 = 0" using unmapped(3) by (simp add: pages_for_PAGE_SIZE)
    moreover have "testing c k x" using unmapped(1) t(2) x(2,3) by (simp add: testing_def)
    ultimately show ?thesis
      using v(1) w(1) t(1) x(1) True by (simp add: walk gives_test_ends assms(1))
  next
    case False
    have "g_cap w = c" using w(2) by (simp add: testing_def)
    from map_denied [OF this assms(3) False] v(1) w(1) weaker False show ?thesis
      by (simp add: gives_test_ends assms(1))
  qed
qed

lemma address_checks_pass:
  assumes "quiet_log log"
  shows "gives 0 (same_iso s) (test_address_space_checks log s)"
proof -
  have "is_kernel_address KERNEL_BASE" "\<not> is_kernel_address USER_BASE" "is_user_address USER_BASE"
    "\<not> is_user_address KERNEL_BASE" "is_device_address DEVICE_BASE"
    by (simp_all add: is_kernel_address_def is_user_address_def is_device_address_def KERNEL_BASE_def
        USER_BASE_def USER_LIMIT_def DEVICE_BASE_def)
  then show ?thesis
    by (simp add: test_address_space_checks_def test_ends_def)
      (intro gives_log [OF assms]; simp add: gives_def)
qed

section \<open>The result of the self test\<close>

text \<open>The messages around the tests do not change what they count.\<close>

lemma run_tests_result:
  assumes "quiet_log log" "quiet_log log_hex"
    "\<And>u. same_iso s u \<Longrightarrow> gives n P (count_failures [test_pt_allocation log, test_pt_entry_ops log, test_pt_walking log,
       test_memory_mapping log, test_memory_unmapping log, test_address_space_checks log] 0 u)"
  shows "\<exists>t. mmu_run_tests log log_hex s = Ret (n, t)"
proof -
  have tail: "gives n (\<lambda>_. True) (bindR (forR log [lit_nl '''', lit_nl ruler] u) (\<lambda>s.
     bindR (if n = 0 then log (lit_nl ''All MMU tests PASSED'') s
            else bindR (log_hex (word_of_int n) s) (log (lit_nl '' test(s) FAILED''))) (\<lambda>s.
     bindR (log (lit_nl2 ruler) s) (\<lambda>s. Ret (n, s)))))" for u
    by (rule gives_logs [OF assms(1)], cases "n = 0")
      (auto simp: bindR_assoc gives_def [of _ _ "Ret _"] intro!: gives_log [OF assms(1)] gives_log [OF assms(2)])
  have "gives n (\<lambda>_. True) (mmu_run_tests log log_hex s)"
    unfolding mmu_run_tests_def
  proof (rule gives_logs [OF assms(1)])
    fix u assume "same_iso s u"
    from assms(3) [OF this] obtain v where v: "count_failures [test_pt_allocation log, test_pt_entry_ops log, test_pt_walking log,
       test_memory_mapping log, test_memory_unmapping log, test_address_space_checks log] 0 u = Ret (n, v)"
      by (auto simp: gives_def)
    show "gives n (\<lambda>_. True) (bindR (count_failures [test_pt_allocation log, test_pt_entry_ops log, test_pt_walking log,
       test_memory_mapping log, test_memory_unmapping log, test_address_space_checks log] 0 u) (\<lambda>(failures, s).
     bindR (forR log [lit_nl '''', lit_nl ruler] s) (\<lambda>s.
     bindR (if failures = 0 then log (lit_nl ''All MMU tests PASSED'') s
            else bindR (log_hex (word_of_int failures) s) (log (lit_nl '' test(s) FAILED''))) (\<lambda>s.
     bindR (log (lit_nl2 ruler) s) (\<lambda>s. Ret (failures, s))))))"
      unfolding v bindR.simps prod.case by (rule tail)
  qed
  then show ?thesis by (auto simp: gives_def)
qed

text \<open>Without a free page no test gets a table.\<close>

definition no_pages :: "'z iso_state_scheme \<Rightarrow> bool" where
  "no_pages s \<longleftrightarrow> mm_ok (g_mm s) \<and> mm_lock (g_mm s) = 0 \<and> (\<forall>p<npages (g_mm s). \<not> avail (g_mm s) p)"

lemma pt_alloc_none:
  assumes "no_pages s"
  shows "pt_alloc_page_table s = Ret (0, s)"
proof -
  have m: "mm_ok (g_mm s)" "mm_lock (g_mm s) = 0" using assms by (auto simp: no_pages_def)
  have "first_fit (g_mm s) 1 = None"
    using assms unfolding first_fit_def first_from_None_iff by (auto simp: no_pages_def run_def)
  then show ?thesis
    using mm_alloc_first_fit_eq [OF m, of PAGE_SIZE PAGE_SIZE MEM_TYPE_KERNEL 0]
    by (simp add: pt_alloc_page_table_def on_mm_def pages_for_PAGE_SIZE)
qed

lemma create_none: "no_pages s \<Longrightarrow> unat did < MAX_DOMAINS \<Longrightarrow> isolation_create_page_tables did fl s = Ret (-1, s)"
  by (simp add: isolation_create_page_tables_def pt_alloc_none)

lemma no_pages_same: "same_iso s t \<Longrightarrow> no_pages s \<Longrightarrow> no_pages t"
  unfolding no_pages_def using truncate_fields(1) by metis

lemma gives_no_pages:
  assumes "quiet_log log" "no_pages s" "\<And>t. no_pages t \<Longrightarrow> f t = test_ends log m r t"
  shows "gives r no_pages (bindR (log m' s) f)"
proof (rule gives_log [OF assms(1)])
  fix t assume "same_iso s t"
  then have t: "no_pages t" using assms(2) by (rule no_pages_same)
  then have "gives r no_pages (test_ends log m r t)"
    unfolding test_ends_def by (intro gives_log [OF assms(1)]) (auto simp: gives_def intro: no_pages_same)
  then show "gives r no_pages (f t)" by (simp only: assms(3) [OF t])
qed

lemma tests_without_pages:
  assumes "quiet_log log" "no_pages s"
  shows "gives (-1) no_pages (test_pt_allocation log s)" "gives (-1) no_pages (test_pt_entry_ops log s)"
    "gives (-1) no_pages (test_pt_walking log s)" "gives (-1) no_pages (test_memory_mapping log s)"
    "gives (-1) no_pages (test_memory_unmapping log s)"
  unfolding test_pt_allocation_def test_pt_entry_ops_def test_pt_walking_def test_memory_mapping_def
    test_memory_unmapping_def
  by (rule gives_no_pages [OF assms], simp add: pt_alloc_none create_none MAX_DOMAINS_def)+

text \<open>
  Without a free page the self test reports five failures. This is the state the kernel starts it in: \<open>mm_init\<close> marks
  every page as reserved.
\<close>

lemma mmu_tests_exhausted:
  assumes "quiet_log log" "quiet_log log_hex" "no_pages s"
  shows "\<exists>t. mmu_run_tests log log_hex s = Ret (5, t)"
proof (rule run_tests_result [OF assms(1,2), where P = "\<lambda>_. True"])
  fix u assume "same_iso s u"
  then have u: "no_pages u" using assms(3) by (rule no_pages_same)
  note fails = tests_without_pages [OF assms(1)]
  show "gives 5 (\<lambda>_. True) (count_failures [test_pt_allocation log, test_pt_entry_ops log,
      test_pt_walking log, test_memory_mapping log, test_memory_unmapping log, test_address_space_checks log] 0 u)"
    by (rule gives_count, rule fails(1) [OF u], rule gives_count, erule fails(2), rule gives_count, erule fails(3),
        rule gives_count, erule fails(4), rule gives_count, erule fails(5),
        rule gives_count, rule address_checks_pass [OF assms(1)])
      (auto simp: gives_def)
qed

text \<open>A kernel with 300 free pages and no page table, whose domain 0 holds capability 1.\<close>

definition sample_root_caps :: cap_system where
  "sample_root_caps = sample_caps\<lparr>domains := (domains sample_caps)
     (2 := zero_domain\<lparr>cap_space := (\<lambda>_. 0)(0 := 1), dom_num_caps := 1\<rparr>)\<rparr>"

definition sample_test :: iso_state where
  "sample_test = sample_iso\<lparr>g_mm := wide_mm, g_cap := sample_root_caps, g_tables := (\<lambda>_. zero_dpt)\<rparr>"

lemma sample_root_check:
  "cap_check 0 1 (CAP_PERM_READ OR CAP_PERM_WRITE) sample_root_caps = Ret (0, sample_root_caps)"
proof -
  have "cap_get_domain 0 sample_root_caps = Some 2"
    unfolding cap_get_domain_def
    by (rule first_from_SomeI) (auto simp: sample_root_caps_def sample_caps_def new_domain_def zero_domain_def
        MAX_DOMAINS_def less_Suc_eq numeral_2_eq_2)
  moreover have "first_from (\<lambda>i. cap_space (domains sample_root_caps 2) i = 1) 0 DOMAIN_CAP_SPACE_SIZE = Some 0"
    by (rule first_from_SomeI) (auto simp: sample_root_caps_def DOMAIN_CAP_SPACE_SIZE_def)
  moreover have "cap_get_capability 1 sample_root_caps = Some 0"
    using cap_get_capability_cong [of sample_root_caps sample_caps] by (simp add: sample_root_caps_def)
  moreover have "cap_lock sample_root_caps = 0" "capabilities sample_root_caps 0 = sample_cap"
    by (simp_all add: sample_root_caps_def)
  ultimately show ?thesis
    by (simp add: cap_check_def locked_eq CAP_PERM_READ_def CAP_PERM_WRITE_def)
qed

lemma sample_test_ready: "iso_ok sample_test" "pages_left 11 (g_mm sample_test)"
proof -
  have "pt_owned Map.empty sample_test" by (simp add: pt_owned_def sample_test_def zero_dpt_def)
  then show "iso_ok sample_test" by (auto simp: iso_ok_def sample_test_def)
  have "{p. p < 512 \<and> 1 \<le> p \<and> p \<le> (300 :: nat)} = {1..300}" by auto
  then show "pages_left 11 (g_mm sample_test)" by (simp add: pages_left_def sample_test_def)
qed

text \<open>
  What the self test reports. With eleven free pages, page 0 not among them, and page tables that are in order, all
  tests pass if domain 0 holds capability 1 for reading and writing, and exactly the two tests that map memory fail if
  it does not: \<open>isolation_map_memory\<close> asks \<open>cap_check\<close> with the capability, 0 in the tests, in place of the domain and
  the type, 1 for memory, in place of the capability. This is what the tests compute on their own: in the kernel the log
  routines do not return (lemma \<open>kernel_log_hangs\<close> of theory \<open>Kernel\<close>) and no page is free.
\<close>

theorem mmu_tests_outcome:
  assumes "quiet_log log" "quiet_log log_hex" "iso_ok s" "pages_left 11 (g_mm s)"
    "cap_check 0 1 (CAP_PERM_READ OR CAP_PERM_WRITE) (g_cap s) = Ret (r, g_cap s)"
  shows "\<exists>t. mmu_run_tests log log_hex s = Ret (if r = 0 then 0 else 2, t)"
proof (rule run_tests_result [OF assms(1,2), where P = "\<lambda>_. True"])
  fix u assume "same_iso s u"
  moreover have "testing (g_cap s) 11 s" using assms(3,4) by (simp add: testing_def)
  ultimately have "testing (g_cap s) 11 u" by (rule testing_truncate)
  then have u: "testing (g_cap s) (Suc (0 + 5 + 5)) u" by simp
  note check = assms(5)
  show "gives (if r = 0 then 0 else 2) (\<lambda>_. True) (count_failures [test_pt_allocation log, test_pt_entry_ops log,
      test_pt_walking log, test_memory_mapping log, test_memory_unmapping log, test_address_space_checks log] 0 u)"
    by (rule gives_count, rule allocation_passes [OF assms(1) u],
        rule gives_count, erule entry_ops_passes [OF assms(1)],
        rule gives_count, erule walking_passes [OF assms(1)],
        rule gives_count, erule mapping_result [OF assms(1) _ check],
        rule gives_count, erule unmapping_result [OF assms(1) _ check],
        rule gives_count, rule address_checks_pass [OF assms(1)])
      (auto simp: gives_def)
qed

theorem mmu_tests_outcome_witness: "\<exists>t. mmu_run_tests (\<lambda>_. Ret) (\<lambda>_. Ret) sample_test = Ret (0, t)"
  using mmu_tests_outcome [OF _ _ sample_test_ready, of "\<lambda>_. Ret" "\<lambda>_. Ret" 0] sample_root_check
  by (simp add: quiet_log_def sample_test_def)

end
