(* ===== verification/Kernel.thy ===== *)
theory Kernel
  imports MmuTest
begin

text \<open>
  Kernel start-up (\<open>Core-0/include/kernel.h\<close>, \<open>Core-0/startup/kernel.c\<close>): logging, panic, the
  initialisation sequence and the main loop. Every function contains an endless \<open>hlt\<close> loop; the
  code behind those loops is modelled as it is written, and the loops decide what is reached.
\<close>

section \<open>Data\<close>

record boot_info =
  boot_magic :: u32
  boot_version :: u32
  boot_flags :: u64
  memory_map_base :: u64
  memory_map_size :: u64
  memory_map_desc_size :: u64
  memory_map_count :: u32
  rsdp :: u64
  bios_data_area :: u64
  vbe_info :: u32
  kernel_base :: u64
  kernel_size :: u64
  kernel_entry :: u64
  cmdline :: bytes
  modules :: u64
  module_count :: u32

text \<open>\<open>text_mem\<close> is the physical memory written in 16-bit units, by address.\<close>

record kernel_state = process_kstate +
  text_mem :: "u64 \<Rightarrow> u16"
  g_vga_pos :: nat
  g_boot_info :: "boot_info option"

text \<open>
  What the linker and the assembly files provide: addresses, and the routines of
  \<open>arch/x86_64/longmode.S\<close>.
\<close>

record boot_env =
  idle_addr :: u64
  irq_addr :: u64
  boot_info_addr :: u64
  longmode_supported :: bool

definition text_write :: "u64 \<Rightarrow> u16 \<Rightarrow> 'z kernel_state_scheme \<Rightarrow> 'z kernel_state_scheme" where
  "text_write a v s = s\<lparr>text_mem := (text_mem s)(a := v)\<rparr>"

text \<open>\<open>vga[i] = v\<close> for the pointer \<open>(uint16_t*)0xB8000\<close>.\<close>

definition vga_set :: "nat \<Rightarrow> u16 \<Rightarrow> 'z kernel_state_scheme \<Rightarrow> 'z kernel_state_scheme" where
  "vga_set i v = text_write (0xB8000 + 2 * of_nat i) v"

text \<open>\<open>while (1) hlt\<close>.\<close>

definition halt_loop :: "'z kernel_state_scheme \<Rightarrow> 'z kernel_state_scheme outcome" where
  "halt_loop s = Hang"

section \<open>Logging and panic\<close>

text \<open>The loop that writes the message behind the pause.\<close>

fun log_loop :: "bytes \<Rightarrow> 'z kernel_state_scheme \<Rightarrow> 'z kernel_state_scheme outcome" where
  "log_loop [] s = Fault"
| "log_loop (c # cs) s =
     (if c \<noteq> 0 \<and> g_vga_pos s < 80 * 25
      then log_loop cs ((vga_set (g_vga_pos s) (scast c OR 0x0F00) s)\<lparr>g_vga_pos := g_vga_pos s + 1\<rparr>)
      else Ret s)"

definition kernel_log :: "bytes \<Rightarrow> 'z kernel_state_scheme \<Rightarrow> 'z kernel_state_scheme outcome" where
  "kernel_log message s =
     bindR (halt_loop (text_write 0xB818 0x0F4D (text_write 0xB816 0x0F4C s))) (\<lambda>s1.
     log_loop message (if g_vga_pos s1 = 0 then s1\<lparr>g_vga_pos := 13\<rparr> else s1))"

definition kernel_log_hex :: "u64 \<Rightarrow> 'z kernel_state_scheme \<Rightarrow> 'z kernel_state_scheme outcome" where
  "kernel_log_hex value = kernel_log (hex_string value)"

definition kernel_panic :: "bytes \<Rightarrow> 'z kernel_state_scheme \<Rightarrow> 'z kernel_state_scheme outcome" where
  "kernel_panic message s =
     bindR (kernel_log (lit ''KERNEL PANIC: '') s) (\<lambda>s1.
     bindR (kernel_log message s1) (\<lambda>s2.
     bindR (kernel_log (lit_nl '''') s2) halt_loop))"

definition kernel_get_boot_info :: "'z kernel_state_scheme \<Rightarrow> boot_info option" where
  "kernel_get_boot_info s = g_boot_info s"

section \<open>Initialisation\<close>

text \<open>A list of log calls, one after the other.\<close>

definition logs :: "bytes list \<Rightarrow> 'z kernel_state_scheme \<Rightarrow> 'z kernel_state_scheme outcome" where
  "logs = forR kernel_log"

text \<open>\<open>if (op() != 0) kernel_panic(message);\<close>\<close>

definition check_init ::
  "('z kernel_state_scheme \<Rightarrow> (int \<times> 'z kernel_state_scheme) outcome) \<Rightarrow> bytes \<Rightarrow>
   'z kernel_state_scheme \<Rightarrow> 'z kernel_state_scheme outcome" where
  "check_init op message s = bindR (op s) (\<lambda>(r, t). if r \<noteq> 0 then kernel_panic message t else Ret t)"

text \<open>\<open>boot_info->memory_map_size\<close>, through a pointer that may be \<open>NULL\<close>.\<close>

definition map_size :: "boot_info option \<Rightarrow> u64 outcome" where
  "map_size b = (case b of None \<Rightarrow> Fault | Some i \<Rightarrow> Ret (memory_map_size i))"

text \<open>The writes that precede the first log call.\<close>

definition boot_marks :: "boot_info option \<Rightarrow> 'z kernel_state_scheme \<Rightarrow> 'z kernel_state_scheme" where
  "boot_marks b s =
     (let s1 = vga_set 7 (0x52 OR 0x0F00) (vga_set 6 (0x45 OR 0x0F00) (vga_set 5 (0x4B OR 0x0F00) s));
          s2 = (vga_set 8 (0x31 OR 0x0F00) s1)\<lparr>g_boot_info := b\<rparr>
      in vga_set 9 (0x32 OR 0x0F00) s2)"

definition init_managers :: "boot_env \<Rightarrow> boot_info option \<Rightarrow> 'z kernel_state_scheme \<Rightarrow> 'z kernel_state_scheme outcome" where
  "init_managers env b s =
     bindR (kernel_log (lit_nl ''Initializing memory manager...'') s) (\<lambda>s1.
     bindR (map_size b) (\<lambda>sz.
     bindR (check_init (on_mm (mm_init sz)) (lit ''Failed to initialize memory manager'') s1) (\<lambda>s2.
     bindR (logs [lit_nl ''Memory manager initialized'', lit ''Total memory: ''] s2) (\<lambda>s3.
     bindR (kernel_log_hex sz s3) (\<lambda>s4.
     bindR (logs [lit_nl2 '' bytes'', lit_nl ''Initializing capability system...''] s4) (\<lambda>s5.
     bindR (check_init (on_cap cap_init) (lit ''Failed to initialize capability system'') s5) (\<lambda>s6.
     bindR (logs [lit_nl2 ''Capability system initialized'', lit_nl ''Initializing scheduler...''] s6) (\<lambda>s7.
     bindR (check_init (sched_init (idle_addr env)) (lit ''Failed to initialize scheduler'') s7) (\<lambda>s8.
     bindR (logs [lit_nl2 ''Scheduler initialized'', lit_nl ''Initializing interrupt routing table...''] s8) (\<lambda>s9.
     bindR (check_init (on_irq (irq_init (irq_addr env)))
              (lit ''Failed to initialize interrupt routing table'') s9) (\<lambda>s10.
     bindR (logs [lit_nl2 ''Interrupt routing table initialized'', lit_nl ''Initializing isolation system...''] s10) (\<lambda>s11.
     bindR (check_init isolation_init (lit ''Failed to initialize isolation system'') s11) (\<lambda>s12.
     kernel_log (lit_nl2 ''Isolation system initialized'') s12)))))))))))))"

definition init_mmu :: "'z kernel_state_scheme \<Rightarrow> 'z kernel_state_scheme outcome" where
  "init_mmu s =
     bindR (kernel_log (lit_nl ''Setting up MMU for kernel domain...'') s) (\<lambda>s1.
     bindR (check_init (isolation_create_page_tables 0 0x01) (lit ''Failed to create kernel page tables'') s1) (\<lambda>s2.
     bindR (kernel_log (lit_nl ''Setting up identity mapping...'') s2) (\<lambda>s3.
     bindR (check_init (pt_setup_identity_map 0 0 0x100000 (PT_FLAG_PRESENT OR PT_FLAG_WRITABLE))
              (lit ''Failed to setup identity mapping'') s3) (\<lambda>s4.
     bindR (kernel_log (lit_nl ''Setting up kernel mapping...'') s4) (\<lambda>s5.
     bindR (check_init (pt_setup_kernel_map 0 0x100000 0x100000) (lit ''Failed to setup kernel mapping'') s5) (\<lambda>s6.
     kernel_log (lit_nl2 ''MMU setup complete'') s6))))))"

definition init_services ::
  "boot_env \<Rightarrow> ('z kernel_state_scheme \<Rightarrow> 'z kernel_state_scheme) \<Rightarrow>
   'z kernel_state_scheme \<Rightarrow> 'z kernel_state_scheme outcome" where
  "init_services env longmode_setup s =
     bindR (kernel_log (lit_nl ''Running MMU tests...'') s) (\<lambda>s1.
     bindR (mmu_run_tests kernel_log kernel_log_hex s1) (\<lambda>(failures, s2).
     bindR (kernel_log (lit_nl ''Initializing service manager...'') s2) (\<lambda>s3.
     bindR (check_init service_init (lit ''Failed to initialize service manager'') s3) (\<lambda>s4.
     bindR (logs [lit_nl2 ''Service manager initialized'', lit_nl ''Initializing process manager...''] s4) (\<lambda>s5.
     bindR (check_init process_init (lit ''Failed to initialize process manager'') s5) (\<lambda>s6.
     bindR (logs [lit_nl2 ''Process manager initialized'', lit_nl ''Initializing long mode...''] s6) (\<lambda>s7.
     bindR (if \<not> longmode_supported env then kernel_panic (lit ''CPU does not support long mode'') s7
            else Ret s7) (\<lambda>s8.
     logs [lit_nl2 ''Long mode initialized'', lit_nl ''Kernel initialization complete'',
           lit_nl2 ''Starting Core-1 services...''] (longmode_setup s8)))))))))"

definition kernel_init ::
  "boot_env \<Rightarrow> ('z kernel_state_scheme \<Rightarrow> 'z kernel_state_scheme) \<Rightarrow> boot_info option \<Rightarrow>
   'z kernel_state_scheme \<Rightarrow> (int \<times> 'z kernel_state_scheme) outcome" where
  "kernel_init env longmode_setup b s =
     bindR (kernel_log (lit_nl ''HIK Core-0 Kernel v1.0'') (boot_marks b s)) (\<lambda>s1.
     bindR (halt_loop (vga_set 10 (0x33 OR 0x0F00) s1)) (\<lambda>s2.
     bindR (kernel_log (lit ''boot_info pointer: '') s2) (\<lambda>s3.
     bindR (logs ([hex_string (boot_info_addr env), lit_nl ''''] @ (case b of
              None \<Rightarrow> [lit_nl ''WARNING: boot_info is NULL!'', lit_nl ''Using default values...'']
            | Some i \<Rightarrow> [lit ''boot_info magic: '', hex_string (ucast (boot_magic i)), lit_nl ''''])) s3) (\<lambda>s4.
     bindR (kernel_log (lit_nl2 ''Initializing...'') s4) (\<lambda>s5.
     bindR (init_managers env b s5) (\<lambda>s6.
     bindR (init_mmu s6) (\<lambda>s7.
     bindR (init_services env longmode_setup s7) (\<lambda>s8.
     Ret (0, s8)))))))))"

section \<open>The main loop\<close>

text \<open>One service: created, and started when the creation succeeded; \<open>None\<close> is the early return.\<close>

definition launch ::
  "string \<Rightarrow> string \<Rightarrow> string \<Rightarrow> u64 \<Rightarrow> u64 \<Rightarrow> 'z kernel_state_scheme \<Rightarrow> ('z kernel_state_scheme option \<times> 'z kernel_state_scheme) outcome" where
  "launch nm started failed code data s =
     bindR (service_create (lit nm) code code 0x1000 data 0x1000 s) (\<lambda>(sid, s1).
     if sid = 0 then bindR (kernel_log (lit_nl failed) s1) (\<lambda>s2. Ret (None, s2))
     else bindR (service_start sid s1) (\<lambda>(r, s2).
       bindR (kernel_log (lit started) s2) (\<lambda>s3.
       bindR (kernel_log_hex sid s3) (\<lambda>s4.
       bindR (kernel_log (lit_nl2 '')'') s4) (\<lambda>s5. Ret (Some s5, s5))))))"

definition start_core1_services :: "'z kernel_state_scheme \<Rightarrow> 'z kernel_state_scheme outcome" where
  "start_core1_services s =
     bindR (kernel_log (lit_nl ''Creating monitor service...'') s) (\<lambda>s1.
     bindR (launch ''monitor'' ''Monitor service started (ID: ''
              ''Failed to create monitor service'' 0x100000 0x101000 s1) (\<lambda>(ok, s2).
     case ok of
       None \<Rightarrow> Ret s2
     | Some s3 \<Rightarrow>
         bindR (kernel_log (lit_nl ''Creating console service...'') s3) (\<lambda>s4.
         bindR (launch ''console'' ''Console service started (ID: ''
              ''Failed to create console service'' 0x102000 0x103000 s4) (\<lambda>(ok2, s5).
         Ret s5))))"

text \<open>\<open>while (1) sched_sleep(1000)\<close>; \<open>None\<close> is the loop that never ends.\<close>

partial_function (option) idle_loop :: "'z kernel_state_scheme \<Rightarrow> 'z kernel_state_scheme option" where
  "idle_loop s = (case sched_sleep 1000 s of Ret (c, t) \<Rightarrow> idle_loop t | Hang \<Rightarrow> None | Fault \<Rightarrow> None)"

definition kernel_main :: "'z kernel_state_scheme \<Rightarrow> 'z kernel_state_scheme outcome" where
  "kernel_main s =
     bindR (logs [lit_nl ''HIK Core-0 kernel is running'', lit_nl2 ''============================''] s) (\<lambda>s1.
     bindR (start_core1_services s1) (\<lambda>s2.
     bindR (logs [lit_nl ''Starting Core-3 applications...'', lit_nl2 ''Core-3 applications ready'',
                  lit_nl ''System ready'', lit_nl2 ''Press Ctrl+C to stop (not implemented)''] s2) (\<lambda>s3.
     case idle_loop s3 of None \<Rightarrow> Hang | Some t \<Rightarrow> Ret t)))"

section \<open>What is reached\<close>

text \<open>
  The pause in \<open>kernel_log\<close> is the first thing every path runs into: logging, panic,
  initialisation and the main loop never return, so no manager is ever initialised.
\<close>

lemma kernel_log_hangs: "kernel_log m s = Hang"
  by (simp add: kernel_log_def halt_loop_def)

lemma kernel_panic_hangs: "kernel_panic m s = Hang"
  by (simp add: kernel_panic_def kernel_log_hangs)

lemma kernel_init_hangs: "kernel_init env lm b s = Hang"
  by (simp add: kernel_init_def kernel_log_hangs)

lemma kernel_main_hangs: "kernel_main s = Hang"
  by (simp add: kernel_main_def logs_def kernel_log_hangs)

text \<open>Without the pause the log loop writes inside the screen and returns on every string.\<close>

lemma log_loop_returns: "0 \<in> set m \<Longrightarrow> \<exists>t. log_loop m s = Ret t"
  by (induction m s rule: log_loop.induct) auto

lemma log_loop_in_screen:
  "log_loop m s = Ret t \<Longrightarrow> g_vga_pos s \<le> 2000 \<Longrightarrow> g_vga_pos t \<le> 2000"
  by (induction m s rule: log_loop.induct) (auto simp: vga_set_def text_write_def split: if_splits)

end
