(* ===== verification/C1Strings.thy ===== *)
theory C1Strings
  imports Strings
begin

text \<open>
  The string library of Core-1 (\<open>Core-1/lib/string.c\<close>). A pointer argument is an option, \<open>None\<close>
  for \<open>NULL\<close>; an object is the list of its bytes, and an access outside it is a \<open>Fault\<close>. Where a
  function returns its destination, the result is the destination's new contents, \<open>None\<close> for a
  returned \<open>NULL\<close>. \<open>memmove\<close> works on two indices of one object, the case it exists for.
\<close>

section \<open>Strings\<close>

definition c1_strlen :: "bytes option \<Rightarrow> u64 outcome" where
  "c1_strlen str = (case str of None \<Rightarrow> Ret 0 | Some s \<Rightarrow> strlen_loop 0 s)"

definition c1_strcpy :: "bytes option \<Rightarrow> bytes option \<Rightarrow> bytes option outcome" where
  "c1_strcpy dest src = (case (dest, src) of
     (Some d, Some s) \<Rightarrow> bindR (strcpy_loop 0 d s) (\<lambda>d'. Ret (Some d'))
   | _ \<Rightarrow> Ret None)"

text \<open>The copying loop counts \<open>n\<close> down only when it copies; the index and the rest of \<open>n\<close> remain.\<close>

primrec c1_copy_loop :: "nat \<Rightarrow> nat \<Rightarrow> bytes \<Rightarrow> bytes \<Rightarrow> (nat \<times> nat \<times> bytes) outcome" where
  "c1_copy_loop 0 i d src = Ret (0, i, d)"
| "c1_copy_loop (Suc n) i d src =
     (if \<not> i < length src then Fault
      else if src ! i = 0 then Ret (Suc n, i, d)
      else if i < length d then c1_copy_loop n (Suc i) (d[i := src ! i]) src
      else Fault)"

definition c1_strncpy :: "bytes option \<Rightarrow> bytes option \<Rightarrow> u64 \<Rightarrow> bytes option outcome" where
  "c1_strncpy dest src n = (case (dest, src) of
     (Some d, Some s) \<Rightarrow>
       bindR (c1_copy_loop (unat n) 0 d s) (\<lambda>(rest, i, d1).
       bindR (memset_loop rest i d1 0) (\<lambda>d2. Ret (Some d2)))
   | _ \<Rightarrow> Ret None)"

text \<open>The result of comparing pointers of which one is \<open>NULL\<close>.\<close>

definition null_cmp :: "bytes option \<Rightarrow> bytes option \<Rightarrow> int" where
  "null_cmp s1 s2 = (if s1 = None \<and> s2 = None then 0 else if s1 = None then -1 else 1)"

definition byte_diff :: "bytes \<Rightarrow> bytes \<Rightarrow> nat \<Rightarrow> int outcome" where
  "byte_diff s1 s2 i = bindR (byte_at s1 i) (\<lambda>a. bindR (byte_at s2 i) (\<lambda>b. Ret (uint a - uint b)))"

text \<open>The condition \<open>*s1 && *s1 == *s2\<close>.\<close>

definition c1_same :: "bytes \<Rightarrow> bytes \<Rightarrow> nat \<Rightarrow> bool outcome" where
  "c1_same s1 s2 i = bindR (byte_at s1 i) (\<lambda>a. if a = 0 then Ret False
     else bindR (byte_at s2 i) (\<lambda>b. Ret (a = b)))"

lemma c1_same_True: "c1_same s1 s2 i = Ret True \<longleftrightarrow>
    i < length s1 \<and> i < length s2 \<and> s1 ! i \<noteq> 0 \<and> s1 ! i = s2 ! i"
  by (auto simp: c1_same_def byte_at_def outcome_simps split: if_splits)

function c1_strcmp_loop :: "nat \<Rightarrow> bytes \<Rightarrow> bytes \<Rightarrow> int outcome" where
  "c1_strcmp_loop i s1 s2 = (if c1_same s1 s2 i = Ret True then c1_strcmp_loop (Suc i) s1 s2
     else bindR (c1_same s1 s2 i) (\<lambda>_. byte_diff s1 s2 i))"
  by pat_completeness auto
termination by (relation "measure (\<lambda>(i, s1, s2). length s1 - i)") (auto simp: c1_same_True)

declare c1_strcmp_loop.simps [simp del]

definition c1_strcmp :: "bytes option \<Rightarrow> bytes option \<Rightarrow> int outcome" where
  "c1_strcmp s1 s2 = (case (s1, s2) of
     (Some a, Some b) \<Rightarrow> c1_strcmp_loop 0 a b | _ \<Rightarrow> Ret (null_cmp s1 s2))"

primrec c1_strncmp_loop :: "nat \<Rightarrow> nat \<Rightarrow> bytes \<Rightarrow> bytes \<Rightarrow> int outcome" where
  "c1_strncmp_loop 0 i s1 s2 = Ret 0"
| "c1_strncmp_loop (Suc n) i s1 s2 = bindR (c1_same s1 s2 i) (\<lambda>same.
     if same then c1_strncmp_loop n (Suc i) s1 s2 else byte_diff s1 s2 i)"

definition c1_strncmp :: "bytes option \<Rightarrow> bytes option \<Rightarrow> u64 \<Rightarrow> int outcome" where
  "c1_strncmp s1 s2 n = (case (s1, s2) of
     (Some a, Some b) \<Rightarrow> c1_strncmp_loop (unat n) 0 a b | _ \<Rightarrow> Ret (null_cmp s1 s2))"

text \<open>The index of the terminator, from \<open>i\<close> on.\<close>

function find_end :: "nat \<Rightarrow> bytes \<Rightarrow> nat outcome" where
  "find_end i d = (if i < length d then if d ! i \<noteq> 0 then find_end (Suc i) d else Ret i else Fault)"
  by pat_completeness auto
termination by (relation "measure (\<lambda>(i, d). length d - i)") auto

declare find_end.simps [simp del]

text \<open>\<open>while ((*d++ = *src++) != 0)\<close>: destination index \<open>i\<close>, source index \<open>j\<close>.\<close>

function cat_loop :: "nat \<Rightarrow> nat \<Rightarrow> bytes \<Rightarrow> bytes \<Rightarrow> bytes outcome" where
  "cat_loop i j d src =
     (if i < length d \<and> j < length src
      then if src ! j \<noteq> 0 then cat_loop (Suc i) (Suc j) (d[i := src ! j]) src else Ret (d[i := 0])
      else Fault)"
  by pat_completeness auto
termination by (relation "measure (\<lambda>(i, j, d, src). length src - j)") auto

declare cat_loop.simps [simp del]

definition c1_strcat :: "bytes option \<Rightarrow> bytes option \<Rightarrow> bytes option outcome" where
  "c1_strcat dest src = (case (dest, src) of
     (Some d, Some s) \<Rightarrow> bindR (find_end 0 d) (\<lambda>e. bindR (cat_loop e 0 d s) (\<lambda>d'. Ret (Some d')))
   | _ \<Rightarrow> Ret None)"

text \<open>The bounded loop of \<open>strncat\<close>, and the terminator written behind it.\<close>

primrec ncat_loop :: "nat \<Rightarrow> nat \<Rightarrow> nat \<Rightarrow> bytes \<Rightarrow> bytes \<Rightarrow> bytes outcome" where
  "ncat_loop 0 i j d src = (if i < length d then Ret (d[i := 0]) else Fault)"
| "ncat_loop (Suc n) i j d src =
     (if \<not> j < length src then Fault
      else if src ! j = 0 then (if i < length d then Ret (d[i := 0]) else Fault)
      else if i < length d then ncat_loop n (Suc i) (Suc j) (d[i := src ! j]) src
      else Fault)"

definition c1_strncat :: "bytes option \<Rightarrow> bytes option \<Rightarrow> u64 \<Rightarrow> bytes option outcome" where
  "c1_strncat dest src n = (case (dest, src) of
     (Some d, Some s) \<Rightarrow> bindR (find_end 0 d) (\<lambda>e. bindR (ncat_loop (unat n) e 0 d s) (\<lambda>d'. Ret (Some d')))
   | _ \<Rightarrow> Ret None)"

text \<open>Here the character searched for is converted to \<open>char\<close> first.\<close>

function c1_strchr_loop :: "nat \<Rightarrow> bytes \<Rightarrow> u8 \<Rightarrow> nat option outcome" where
  "c1_strchr_loop i s c = (if i < length s then
      if s ! i = 0 then Ret None else if s ! i = c then Ret (Some i) else c1_strchr_loop (Suc i) s c
    else Fault)"
  by pat_completeness auto
termination by (relation "measure (\<lambda>(i, s, c). length s - i)") auto

declare c1_strchr_loop.simps [simp del]

definition c1_strchr :: "bytes option \<Rightarrow> u32 \<Rightarrow> nat option outcome" where
  "c1_strchr str c = (case str of None \<Rightarrow> Ret None | Some s \<Rightarrow> c1_strchr_loop 0 s (ucast c))"

function strrchr_loop :: "nat \<Rightarrow> nat option \<Rightarrow> bytes \<Rightarrow> u8 \<Rightarrow> nat option outcome" where
  "strrchr_loop i found s c = (if i < length s then
      if s ! i = 0 then Ret found
      else strrchr_loop (Suc i) (if s ! i = c then Some i else found) s c
    else Fault)"
  by pat_completeness auto
termination by (relation "measure (\<lambda>(i, l, s, c). length s - i)") auto

declare strrchr_loop.simps [simp del]

definition c1_strrchr :: "bytes option \<Rightarrow> u32 \<Rightarrow> nat option outcome" where
  "c1_strrchr str c = (case str of None \<Rightarrow> Ret None | Some s \<Rightarrow> strrchr_loop 0 None s (ucast c))"

text \<open>The inner loop of \<open>strstr\<close>: does the needle match at \<open>h\<close>, from its index \<open>k\<close> on?\<close>

function match_at :: "nat \<Rightarrow> nat \<Rightarrow> bytes \<Rightarrow> bytes \<Rightarrow> bool outcome" where
  "match_at h k hay needle =
     (if \<not> k < length needle then Fault
      else if needle ! k = 0 then Ret True
      else if \<not> h < length hay then Fault
      else if hay ! h = needle ! k then match_at (Suc h) (Suc k) hay needle
      else Ret False)"
  by pat_completeness auto
termination by (relation "measure (\<lambda>(h, k, hay, needle). length needle - k)") auto

declare match_at.simps [simp del]

function strstr_loop :: "nat \<Rightarrow> bytes \<Rightarrow> bytes \<Rightarrow> nat option outcome" where
  "strstr_loop i hay needle =
     (if i < length hay then
        if hay ! i = 0 then Ret None
        else bindR (match_at i 0 hay needle) (\<lambda>m. if m then Ret (Some i) else strstr_loop (Suc i) hay needle)
      else Fault)"
  by pat_completeness auto
termination by (relation "measure (\<lambda>(i, hay, needle). length hay - i)") auto

declare strstr_loop.simps [simp del]

definition c1_strstr :: "bytes option \<Rightarrow> bytes option \<Rightarrow> nat option outcome" where
  "c1_strstr haystack needle = (case (haystack, needle) of
     (Some h, Some n) \<Rightarrow> bindR (byte_at n 0) (\<lambda>c. if c = 0 then Ret (Some 0) else strstr_loop 0 h n)
   | _ \<Rightarrow> Ret None)"

section \<open>Memory\<close>

definition c1_memset :: "bytes option \<Rightarrow> u32 \<Rightarrow> u64 \<Rightarrow> bytes option outcome" where
  "c1_memset ptr value n = (case ptr of
     None \<Rightarrow> Ret None
   | Some p \<Rightarrow> if n = 0 then Ret (Some p)
               else bindR (memset_loop (unat n) 0 p (ucast value)) (\<lambda>p'. Ret (Some p')))"

definition c1_memcpy :: "bytes option \<Rightarrow> bytes option \<Rightarrow> u64 \<Rightarrow> bytes option outcome" where
  "c1_memcpy dest src n = (case (dest, src) of
     (Some d, Some s) \<Rightarrow> if n = 0 then Ret dest
                         else bindR (memcpy_loop (unat n) 0 d s) (\<lambda>d'. Ret (Some d'))
   | _ \<Rightarrow> Ret dest)"

text \<open>The two loops of \<open>memmove\<close> inside one object \<open>m\<close>, from index \<open>s\<close> to index \<open>d\<close>.\<close>

primrec move_down :: "nat \<Rightarrow> nat \<Rightarrow> nat \<Rightarrow> bytes \<Rightarrow> bytes outcome" where
  "move_down 0 d s m = Ret m"
| "move_down (Suc n) d s m =
     (if d + n < length m \<and> s + n < length m then move_down n d s (m[d + n := m ! (s + n)]) else Fault)"

primrec move_up :: "nat \<Rightarrow> nat \<Rightarrow> nat \<Rightarrow> bytes \<Rightarrow> bytes outcome" where
  "move_up 0 d s m = Ret m"
| "move_up (Suc n) d s m =
     (if d < length m \<and> s < length m then move_up n (Suc d) (Suc s) (m[d := m ! s]) else Fault)"

definition c1_memmove :: "nat \<Rightarrow> nat \<Rightarrow> u64 \<Rightarrow> bytes \<Rightarrow> bytes outcome" where
  "c1_memmove d s n m =
     (if n = 0 then Ret m
      else if d < s \<and> s < d + unat n then move_down (unat n) d s m
      else if s < d \<and> d < s + unat n then move_down (unat n) d s m
      else move_up (unat n) d s m)"

definition c1_memcmp :: "bytes option \<Rightarrow> bytes option \<Rightarrow> u64 \<Rightarrow> int outcome" where
  "c1_memcmp p1 p2 n = (case (p1, p2) of
     (Some a, Some b) \<Rightarrow> memcmp_loop (unat n) 0 a b | _ \<Rightarrow> Ret (null_cmp p1 p2))"

section \<open>Formatted output\<close>

text \<open>
  A variable argument, with the type it is passed as. Reading one that is absent or of another
  type is undefined.
\<close>

datatype fmt_arg = Arg_str "bytes option" | Arg_int u32 | Arg_uint u32 | Arg_ulong u64

text \<open>\<open>'0' + val % 10\<close>, and \<open>(digit < 10) ? '0' + digit : 'a' + digit - 10\<close>.\<close>

definition digit_char :: "nat \<Rightarrow> u8" where
  "digit_char k = (if k < 10 then of_nat (48 + k) else of_nat (97 + k - 10))"

text \<open>The contents of \<open>buf\<close> after the digit loop: the least significant digit first.\<close>

function digits_rev :: "nat \<Rightarrow> nat \<Rightarrow> bytes" where
  "digits_rev base val =
     (if val = 0 \<or> base < 2 then [] else digit_char (val mod base) # digits_rev base (val div base))"
  by pat_completeness auto
termination by (relation "measure (\<lambda>(base, val). val)") auto

declare digits_rev.simps [simp del]

definition fmt_unsigned :: "nat \<Rightarrow> nat \<Rightarrow> bytes" where
  "fmt_unsigned base val = (if val = 0 then [48] else digits_rev base val)"

text \<open>The value is negated first; the negation of \<open>INT_MIN\<close> overflows.\<close>

definition fmt_signed :: "u32 \<Rightarrow> bytes outcome" where
  "fmt_signed v =
     (if v = 0x80000000 then Fault
      else Ret (fmt_unsigned 10 (nat \<bar>sint v\<bar>) @ (if sint v < 0 then [45] else [])))"

text \<open>\<open>while (i > 0 && written < size - 1) str[written++] = buf[--i]\<close>.\<close>

fun put_bytes :: "bytes \<Rightarrow> nat \<Rightarrow> nat \<Rightarrow> bytes \<Rightarrow> (nat \<times> bytes) outcome" where
  "put_bytes [] limit w str = Ret (w, str)"
| "put_bytes (c # cs) limit w str =
     (if w < limit
      then if w < length str then put_bytes cs limit (Suc w) (str[w := c]) else Fault
      else Ret (w, str))"

text \<open>\<open>while (*s != 0 && written < size - 1) str[written++] = *s++\<close>.\<close>

fun put_str :: "bytes \<Rightarrow> nat \<Rightarrow> nat \<Rightarrow> bytes \<Rightarrow> (nat \<times> bytes) outcome" where
  "put_str [] limit w str = Fault"
| "put_str (c # cs) limit w str =
     (if c \<noteq> 0 \<and> w < limit
      then if w < length str then put_str cs limit (Suc w) (str[w := c]) else Fault
      else Ret (w, str))"

type_synonym fmt_state = "fmt_arg list \<times> nat \<times> bytes"

definition with_args :: "fmt_arg list \<Rightarrow> (nat \<times> bytes) outcome \<Rightarrow> fmt_state outcome" where
  "with_args args r = bindR r (\<lambda>(w, str). Ret (args, w, str))"

text \<open>The conversion of the character \<open>c\<close> behind the percent sign.\<close>

definition fmt_conv :: "nat \<Rightarrow> u8 \<Rightarrow> fmt_state \<Rightarrow> fmt_state outcome" where
  "fmt_conv limit c = (\<lambda>(args, w, str).
     if c = 115 then (case args of
         Arg_str None # rest \<Rightarrow> Ret (rest, w, str)
       | Arg_str (Some s) # rest \<Rightarrow> with_args rest (put_str s limit w str)
       | _ \<Rightarrow> Fault)
     else if c = 100 then (case args of
         Arg_int v # rest \<Rightarrow> bindR (fmt_signed v) (\<lambda>buf. with_args rest (put_bytes (rev buf) limit w str))
       | _ \<Rightarrow> Fault)
     else if c = 120 then (case args of
         Arg_uint v # rest \<Rightarrow> with_args rest (put_bytes (rev (fmt_unsigned 16 (unat v))) limit w str)
       | _ \<Rightarrow> Fault)
     else with_args args (put_bytes [37, c] limit w str))"

text \<open>The second letter of \<open>%l\<close>; any other one than \<open>x\<close> writes nothing.\<close>

definition fmt_long :: "nat \<Rightarrow> u8 \<Rightarrow> fmt_state \<Rightarrow> fmt_state outcome" where
  "fmt_long limit c = (\<lambda>(args, w, str).
     if c = 120 then (case args of
         Arg_ulong v # rest \<Rightarrow> with_args rest (put_bytes (rev (fmt_unsigned 16 (unat v))) limit w str)
       | _ \<Rightarrow> Fault)
     else Ret (args, w, str))"

function fmt_loop :: "nat \<Rightarrow> bytes \<Rightarrow> nat \<Rightarrow> fmt_state \<Rightarrow> fmt_state outcome" where
  "fmt_loop limit f i st =
     (if \<not> i < length f then Fault
      else if f ! i = 0 \<or> \<not> fst (snd st) < limit then Ret st
      else if f ! i \<noteq> 37 then
        bindR (with_args (fst st) (put_bytes [f ! i] limit (fst (snd st)) (snd (snd st)))) (fmt_loop limit f (Suc i))
      else bindR (byte_at f (i + 1)) (\<lambda>c.
        if c = 0 then Ret st
        else if c = 108 then bindR (byte_at f (i + 2)) (\<lambda>c2.
          bindR (fmt_long limit c2 st) (fmt_loop limit f (i + 3)))
        else bindR (fmt_conv limit c st) (fmt_loop limit f (i + 2))))"
  by pat_completeness auto
termination by (relation "measure (\<lambda>(limit, f, i, st). length f - i)") auto

declare fmt_loop.simps [simp del]

text \<open>The returned number and the buffer; \<open>written\<close> is returned as an \<open>int\<close>.\<close>

definition snprintf :: "bytes option \<Rightarrow> u64 \<Rightarrow> bytes option \<Rightarrow> fmt_arg list \<Rightarrow> (int \<times> bytes option) outcome" where
  "snprintf str sz format args = (case (str, format) of
     (Some d, Some f) \<Rightarrow>
       if sz = 0 then Ret (-1, str)
       else bindR (fmt_loop (unat (sz - 1)) f 0 (args, 0, d)) (\<lambda>(rest, w, d').
         if w < length d' then Ret (sint (of_nat w :: u32), Some (d'[w := 0])) else Fault)
   | _ \<Rightarrow> Ret (-1, str))"

section \<open>What the bounded functions promise\<close>

text \<open>\<open>snprintf\<close> stays inside the buffer it is given: it never reports, or writes, past \<open>size\<close>.\<close>

definition fmt_fits :: "nat \<Rightarrow> bytes \<Rightarrow> nat \<Rightarrow> bytes \<Rightarrow> bool" where
  "fmt_fits limit d w d' \<longleftrightarrow> length d' = length d \<and> w \<le> limit \<and>
     (\<forall>k. limit \<le> k \<longrightarrow> k < length d \<longrightarrow> d' ! k = d ! k)"

lemma fmt_fits_put:
  "fmt_fits limit d w d' \<Longrightarrow> w < limit \<Longrightarrow> fmt_fits limit d (Suc w) (d'[w := c])"
  by (auto simp: fmt_fits_def)

lemma put_bytes_fits:
  "put_bytes cs limit w d' = Ret (w', d'') \<Longrightarrow> fmt_fits limit d w d' \<Longrightarrow> fmt_fits limit d w' d''"
  by (induction cs limit w d' rule: put_bytes.induct) (auto split: if_splits intro: fmt_fits_put)

lemma put_str_fits:
  "put_str cs limit w d' = Ret (w', d'') \<Longrightarrow> fmt_fits limit d w d' \<Longrightarrow> fmt_fits limit d w' d''"
  by (induction cs limit w d' rule: put_str.induct) (auto split: if_splits intro: fmt_fits_put)

lemma with_args_Ret [outcome_simps]:
  "with_args args r = Ret (a, w, d) \<longleftrightarrow> args = a \<and> r = Ret (w, d)"
  by (auto simp: with_args_def outcome_simps)

definition fits_state :: "nat \<Rightarrow> bytes \<Rightarrow> fmt_state \<Rightarrow> bool" where
  "fits_state limit d st \<longleftrightarrow> fmt_fits limit d (fst (snd st)) (snd (snd st))"

lemma with_args_fits:
  "with_args args (put_bytes cs limit w d') = Ret st \<Longrightarrow> fmt_fits limit d w d' \<Longrightarrow> fits_state limit d st"
  "with_args args (put_str cs limit w d') = Ret st \<Longrightarrow> fmt_fits limit d w d' \<Longrightarrow> fits_state limit d st"
  by (auto simp: with_args_def fits_state_def outcome_simps intro: put_bytes_fits put_str_fits)

lemma fmt_conv_fits:
  "fmt_conv limit c st = Ret st' \<Longrightarrow> fits_state limit d st \<Longrightarrow> fits_state limit d st'"
  by (cases st) (auto simp: fmt_conv_def fits_state_def [of _ _ st] outcome_simps simp del: put_bytes.simps
      split: if_splits list.splits fmt_arg.splits option.splits dest: with_args_fits simp: fits_state_def)

lemma fmt_long_fits:
  "fmt_long limit c st = Ret st' \<Longrightarrow> fits_state limit d st \<Longrightarrow> fits_state limit d st'"
  by (cases st) (auto simp: fmt_long_def outcome_simps simp del: put_bytes.simps
      split: if_splits list.splits fmt_arg.splits dest: with_args_fits simp: fits_state_def)

lemma fmt_loop_fits:
  "fmt_loop limit f i st = Ret st' \<Longrightarrow> fits_state limit d st \<Longrightarrow> fits_state limit d st'"
proof (induction limit f i st rule: fmt_loop.induct)
  case (1 limit f i st)
  show ?case
  proof (cases "i < length f \<and> f ! i \<noteq> 0 \<and> fst (snd st) < limit")
    case False
    with "1.prems" show ?thesis by (auto simp: fmt_loop.simps [of limit f i st] split: if_splits)
  next
    case True
    note eq = "1.prems"(1) [unfolded fmt_loop.simps [of limit f i st]]
    show ?thesis
    proof (cases "f ! i = 37")
      case False
      with eq True obtain u where u: "with_args (fst st) (put_bytes [f ! i] limit (fst (snd st)) (snd (snd st))) = Ret u"
        "fmt_loop limit f (Suc i) u = Ret st'" by (auto simp: outcome_simps simp del: put_bytes.simps)
      have "fits_state limit d u" using with_args_fits(1) [OF u(1)] "1.prems"(2) by (simp add: fits_state_def)
      with "1.IH"(1) [OF _ _ False u(1) u(2)] True show ?thesis by auto
    next
      case 2: True
      with eq True obtain c where c: "byte_at f (i + 1) = Ret c"
        and rest: "c \<noteq> 0 \<Longrightarrow> c = 108 \<Longrightarrow> \<exists>c2 u. byte_at f (i + 2) = Ret c2 \<and> fmt_long limit c2 st = Ret u
            \<and> fmt_loop limit f (i + 3) u = Ret st'"
          "c \<noteq> 0 \<Longrightarrow> c \<noteq> 108 \<Longrightarrow> \<exists>u. fmt_conv limit c st = Ret u \<and> fmt_loop limit f (i + 2) u = Ret st'"
          "c = 0 \<Longrightarrow> st' = st"
        by (auto simp: outcome_simps split: if_splits)
      show ?thesis
      proof (cases "c = 0")
        case False
        show ?thesis
        proof (cases "c = 108")
          case l: True
          from rest(1) [OF False l] obtain c2 u where u: "byte_at f (i + 2) = Ret c2"
            "fmt_long limit c2 st = Ret u" "fmt_loop limit f (i + 3) u = Ret st'" by blast
          show ?thesis
            by (rule "1.IH"(2) [OF _ _ _ c False l u])
              (use True 2 fmt_long_fits [OF u(2) "1.prems"(2)] in auto)
        next
          case l: False
          from rest(2) [OF False l] obtain u where u: "fmt_conv limit c st = Ret u"
            "fmt_loop limit f (i + 2) u = Ret st'" by blast
          show ?thesis
            by (rule "1.IH"(3) [OF _ _ _ c False l u])
              (use True 2 fmt_conv_fits [OF u(1) "1.prems"(2)] in auto)
        qed
      qed (use rest(3) "1.prems"(2) in simp)
    qed
  qed
qed

lemma snprintf_stays_inside:
  assumes "snprintf (Some d) sz (Some f) args = Ret (r, Some d')" "sz \<noteq> 0"
  shows "length d' = length d" "\<And>k. unat sz \<le> k \<Longrightarrow> k < length d \<Longrightarrow> d' ! k = d ! k"
proof -
  have sz: "unat (sz - 1) < unat sz" using assms(2) by (simp add: unat_minus_one unat_gt_0)
  from assms obtain rest w e where e: "fmt_loop (unat (sz - 1)) f 0 (args, 0, d) = Ret (rest, w, e)"
    "d' = e[w := 0]" by (auto simp: snprintf_def outcome_simps split: option.splits if_splits)
  have "fits_state (unat (sz - 1)) d (args, 0, d)" by (simp add: fits_state_def fmt_fits_def)
  from fmt_loop_fits [OF e(1) this]
  have fits: "length e = length d" "w \<le> unat (sz - 1)"
    "\<And>k. unat (sz - 1) \<le> k \<Longrightarrow> k < length d \<Longrightarrow> e ! k = d ! k"
    by (auto simp: fits_state_def fmt_fits_def)
  show "length d' = length d" using e(2) fits(1) by simp
  show "d' ! k = d ! k" if "unat sz \<le> k" "k < length d" for k
    using that sz fits e(2) by (simp add: nth_list_update)
qed

section \<open>Overlapping moves\<close>

text \<open>What a move of \<open>n\<close> bytes is meant to leave: the source range as it was, at the destination.\<close>

definition moved :: "nat \<Rightarrow> nat \<Rightarrow> nat \<Rightarrow> bytes \<Rightarrow> bytes" where
  "moved d s n m = take d m @ take n (drop s m) @ drop (d + n) m"

lemma moved_nth:
  assumes "d + n \<le> length m" "s + n \<le> length m" "j < length m"
  shows "moved d s n m ! j = (if d \<le> j \<and> j < d + n then m ! (s + (j - d)) else m ! j)"
proof -
  have "length (take d m) = d" "length (take n (drop s m)) = n" using assms(1,2) by simp_all
  with assms show ?thesis by (auto simp: moved_def nth_append nth_drop simp del: append_assoc)
qed

lemma moved_length: "d + n \<le> length m \<Longrightarrow> s + n \<le> length m \<Longrightarrow> length (moved d s n m) = length m"
  by (simp add: moved_def)

text \<open>Both copying loops succeed inside the object; the results by index.\<close>

lemma move_down_spec:
  assumes "d + n \<le> length m" "s + n \<le> length m"
  shows "\<exists>r. move_down n d s m = Ret r \<and> length r = length m \<and>
    (\<forall>j. (j < d \<or> d + n \<le> j) \<longrightarrow> r ! j = m ! j) \<and>
    (\<forall>k < n. r ! (d + k) = (if d < s \<and> k + (s - d) < n then r ! (s + k) else m ! (s + k)))"
  using assms
proof (induction n arbitrary: m)
  case 0
  then show ?case by simp
next
  case (Suc n)
  let ?m = "m[d + n := m ! (s + n)]"
  have "d + n \<le> length ?m" "s + n \<le> length ?m" using Suc.prems by simp_all
  from Suc.IH [OF this] obtain r where r: "move_down n d s ?m = Ret r" "length r = length ?m"
    "\<And>j. j < d \<or> d + n \<le> j \<Longrightarrow> r ! j = ?m ! j"
    "\<And>k. k < n \<Longrightarrow> r ! (d + k) = (if d < s \<and> k + (s - d) < n then r ! (s + k) else ?m ! (s + k))"
    by blast
  have "r ! (d + k) = (if d < s \<and> k + (s - d) < Suc n then r ! (s + k) else m ! (s + k))" if "k < Suc n" for k
  proof (cases "k = n")
    case True
    with r(3) [of "d + n"] Suc.prems show ?thesis by auto
  next
    case False
    with that have "k < n" by simp
    show ?thesis
    proof (cases "d < s \<and> k + (s - d) = n")
      case True
      then have "s + k = d + n" by auto
      with r(3) [of "d + n"] r(4) [OF \<open>k < n\<close>] True show ?thesis by auto
    next
      case ne: False
      with r(4) [OF \<open>k < n\<close>] \<open>k < n\<close> show ?thesis by (auto simp: nth_list_update)
    qed
  qed
  moreover have "r ! j = m ! j" if "j < d \<or> d + Suc n \<le> j" for j
    using r(3) [of j] that by auto
  ultimately show ?case using r(1,2) Suc.prems by auto
qed

lemma move_up_spec:
  assumes "d + n \<le> length m" "s + n \<le> length m" "d \<le> s \<or> s + n \<le> d"
  shows "\<exists>r. move_up n d s m = Ret r \<and> length r = length m \<and>
    (\<forall>j. r ! j = (if d \<le> j \<and> j < d + n then m ! (s + (j - d)) else m ! j))"
  using assms
proof (induction n arbitrary: m d s)
  case 0
  then show ?case by auto
next
  case (Suc n)
  let ?m = "m[d := m ! s]"
  have "Suc d + n \<le> length ?m" "Suc s + n \<le> length ?m" "Suc d \<le> Suc s \<or> Suc s + n \<le> Suc d"
    using Suc.prems by auto
  from Suc.IH [OF this] obtain r where r: "move_up n (Suc d) (Suc s) ?m = Ret r" "length r = length ?m"
    "\<And>j. r ! j = (if Suc d \<le> j \<and> j < Suc d + n then ?m ! (Suc s + (j - Suc d)) else ?m ! j)"
    by blast
  have "r ! j = (if d \<le> j \<and> j < d + Suc n then m ! (s + (j - d)) else m ! j)" for j
  proof (cases "Suc d \<le> j \<and> j < Suc d + n")
    case True
    then have "Suc s + (j - Suc d) = s + (j - d)" "s + (j - d) \<noteq> d" using Suc.prems(3) by auto
    with r(3) [of j] True show ?thesis by auto
  next
    case False
    with r(3) [of j] Suc.prems show ?thesis by (cases "j = d") auto
  qed
  with r(1,2) Suc.prems show ?case by auto
qed

text \<open>
  The move is the intended one except when the destination lies in front of the source and
  overlaps it; then the source must repeat itself with the distance of the two as its period.
\<close>

definition periodic :: "nat \<Rightarrow> nat \<Rightarrow> nat \<Rightarrow> bytes \<Rightarrow> bool" where
  "periodic p s n m \<longleftrightarrow> (\<forall>k. k + p < n \<longrightarrow> m ! (s + k) = m ! (s + k + p))"

lemma moved_iff:
  assumes "d + n \<le> length m" "s + n \<le> length m" "length r = length m"
    "\<And>j. j < d \<or> d + n \<le> j \<Longrightarrow> r ! j = m ! j"
  shows "r = moved d s n m \<longleftrightarrow> (\<forall>k < n. r ! (d + k) = m ! (s + k))"
proof
  assume "r = moved d s n m"
  with assms(1,2) show "\<forall>k < n. r ! (d + k) = m ! (s + k)" by (simp add: moved_nth)
next
  assume r: "\<forall>k < n. r ! (d + k) = m ! (s + k)"
  show "r = moved d s n m"
  proof (rule nth_equalityI)
    fix j assume "j < length r"
    with assms show "r ! j = moved d s n m ! j"
      using r [rule_format, of "j - d"] by (cases "d \<le> j \<and> j < d + n") (auto simp: moved_nth)
  qed (simp add: assms moved_length)
qed

lemma move_down_moved_iff:
  assumes "d + n \<le> length m" "s + n \<le> length m" "d < s"
  shows "move_down n d s m = Ret (moved d s n m) \<longleftrightarrow> periodic (s - d) s n m"
proof -
  obtain r where r: "move_down n d s m = Ret r" "length r = length m"
    "\<And>j. j < d \<or> d + n \<le> j \<Longrightarrow> r ! j = m ! j"
    "\<And>k. k < n \<Longrightarrow> r ! (d + k) = (if d < s \<and> k + (s - d) < n then r ! (s + k) else m ! (s + k))"
    using move_down_spec [OF assms(1,2)] by blast
  have step: "r ! (d + k) = r ! (d + (k + (s - d)))" if "k + (s - d) < n" for k
    using r(4) [of k] that assms(3) by (simp add: add.commute add.left_commute)
  have "(\<forall>k < n. r ! (d + k) = m ! (s + k)) \<longleftrightarrow> periodic (s - d) s n m"
  proof
    assume all: "\<forall>k < n. r ! (d + k) = m ! (s + k)"
    then show "periodic (s - d) s n m"
      using step by (auto simp: periodic_def add.assoc)
  next
    assume per: "periodic (s - d) s n m"
    show "\<forall>k < n. r ! (d + k) = m ! (s + k)"
    proof (intro allI impI)
      fix k assume "k < n"
      then show "r ! (d + k) = m ! (s + k)"
      proof (induction "n - k" arbitrary: k rule: less_induct)
        case less
        show ?case
        proof (cases "k + (s - d) < n")
          case True
          have "r ! (d + (k + (s - d))) = m ! (s + (k + (s - d)))"
            by (rule less.hyps) (use True assms(3) less.prems in auto)
          with step [OF True] per True show ?thesis by (simp add: periodic_def add.assoc)
        next
          case False
          with r(4) [OF less.prems] show ?thesis by simp
        qed
      qed
    qed
  qed
  with r(1) moved_iff [OF assms(1,2) r(2,3)] show ?thesis by simp
qed

lemma move_down_behind:
  assumes "d + n \<le> length m" "s + n \<le> length m" "s < d"
  shows "move_down n d s m = Ret (moved d s n m)"
proof -
  obtain r where r: "move_down n d s m = Ret r" "length r = length m"
    "\<And>j. j < d \<or> d + n \<le> j \<Longrightarrow> r ! j = m ! j"
    "\<And>k. k < n \<Longrightarrow> r ! (d + k) = (if d < s \<and> k + (s - d) < n then r ! (s + k) else m ! (s + k))"
    using move_down_spec [OF assms(1,2)] by blast
  with assms(3) show ?thesis by (simp add: moved_iff [OF assms(1,2)])
qed

lemma move_up_moved:
  assumes "d + n \<le> length m" "s + n \<le> length m" "d \<le> s \<or> s + n \<le> d"
  shows "move_up n d s m = Ret (moved d s n m)"
proof -
  obtain r where r: "move_up n d s m = Ret r" "length r = length m"
    "\<And>j. r ! j = (if d \<le> j \<and> j < d + n then m ! (s + (j - d)) else m ! j)"
    using move_up_spec [OF assms] by blast
  have "r = moved d s n m" by (subst moved_iff [OF assms(1,2) r(2)]) (auto simp: r(3))
  with r(1) show ?thesis by simp
qed

lemma c1_memmove_exact:
  assumes "d + unat n \<le> length m" "s + unat n \<le> length m"
  shows "(c1_memmove d s n m = Ret (moved d s (unat n) m)) =
    (d < s \<and> s < d + unat n \<longrightarrow> periodic (s - d) s (unat n) m)"
proof (cases "d < s \<and> s < d + unat n")
  case True
  then have "n \<noteq> 0" by auto
  with True show ?thesis by (simp add: c1_memmove_def move_down_moved_iff assms)
next
  case False
  show ?thesis
  proof (cases "n = 0")
    case True
    with assms show ?thesis by (auto simp: c1_memmove_def moved_def)
  next
    case n: False
    show ?thesis
    proof (cases "s < d \<and> d < s + unat n")
      case True
      with False n show ?thesis by (auto simp: c1_memmove_def move_down_behind assms)
    next
      case up: False
      with False have "d \<le> s \<or> s + unat n \<le> d" by auto
      with False n up show ?thesis by (auto simp: c1_memmove_def move_up_moved assms)
    qed
  qed
qed

text \<open>
  C23. \<open>memmove\<close> of Core-1 inside one object leaves what the reference copy leaves, exactly when
  the destination does not start in front of an overlapping source, or the source range happens
  to repeat itself with the distance between the two as its period. The overlap that a forward
  copy is needed for is copied backwards.
\<close>
theorem memmove_equals_copy_iff:
  assumes "d + unat n \<le> length m" "s + unat n \<le> length m"
  shows "(c1_memmove d s n m = Ret (moved d s (unat n) m)) =
    (d < s \<and> s < d + unat n \<longrightarrow> periodic (s - d) s (unat n) m)"
  by (rule c1_memmove_exact [OF assms])

theorem memmove_equals_copy_iff_witness:
  "(c1_memmove 0 1 2 [1, 2, 3] = Ret (moved 0 1 2 [1, 2, 3])) =
     (0 < (1 :: nat) \<and> 1 < 0 + (2 :: nat) \<longrightarrow> periodic 1 1 2 [1, 2, 3]) \<and>
   c1_memmove 0 1 2 [1, 2, 3] = Ret [3, 3, 3] \<and> moved 0 1 2 [1, 2, 3] = [2, 3, 3]"
proof -
  have two: "move_down 2 0 1 [1, 2, 3] = Ret [3, 3, 3]"
    unfolding numeral_2_eq_2 by simp
  have "(c1_memmove 0 1 2 [1, 2, 3] = Ret (moved 0 1 2 [1, 2, 3])) =
     (0 < (1 :: nat) \<and> 1 < 0 + (2 :: nat) \<longrightarrow> periodic 1 1 2 [1, 2, 3])"
    using memmove_equals_copy_iff [of 0 2 "[1, 2, 3]" 1] by simp
  then show ?thesis using two by (simp add: c1_memmove_def moved_def)
qed

end
