(* ===== verification/C1Isolation.thy ===== *)
theory C1Isolation
  imports C1Strings Spinlock
begin

text \<open>
  The memory regions of a Core-1 service (\<open>Core-1/include/isolation.h\<close>,
  \<open>Core-1/isolation/isolation.c\<close>): the region table, the access check and the access wrappers over
  physical memory, which is byte addressed. Names that Core-0 also has carry the prefix \<open>c1\<close>.
\<close>

section \<open>Data\<close>

datatype mem_region_type = MEM_REGION_CODE | MEM_REGION_DATA | MEM_REGION_STACK
  | MEM_REGION_HEAP | MEM_REGION_SHARED | MEM_REGION_DEVICE

record mem_region =
  reg_type :: mem_region_type
  phys_base :: u64
  virt_base :: u64
  reg_size :: u64
  permissions :: u32
  cap_handle :: u64

definition MEM_PERM_READ :: u32 where "MEM_PERM_READ = 0x01"
definition MEM_PERM_WRITE :: u32 where "MEM_PERM_WRITE = 0x02"
definition MEM_PERM_EXECUTE :: u32 where "MEM_PERM_EXECUTE = 0x04"
definition MEM_PERM_DEVICE :: u32 where "MEM_PERM_DEVICE = 0x08"

definition MAX_MEM_REGIONS :: nat where "MAX_MEM_REGIONS = 16"

record isolation_context =
  ctx_service_id :: u64
  ctx_domain_id :: u64
  regions :: "mem_region list"
  num_regions :: u32
  ctx_lock :: u64
  iso_enabled :: u32

text \<open>\<open>regions\<close> always has \<open>MAX_MEM_REGIONS\<close> entries; \<open>phys_mem\<close> is the memory the wrappers access.\<close>

record c1_iso_state =
  g_isolation :: isolation_context
  phys_mem :: "u64 \<Rightarrow> u8"

definition iso_lock :: "'z c1_iso_state_scheme \<Rightarrow> u64" where "iso_lock s = ctx_lock (g_isolation s)"

definition iso_lock_update :: "(u64 \<Rightarrow> u64) \<Rightarrow> 'z c1_iso_state_scheme \<Rightarrow> 'z c1_iso_state_scheme" where
  "iso_lock_update f = g_isolation_update (ctx_lock_update f)"

definition iso_locked ::
  "('z c1_iso_state_scheme \<Rightarrow> ('r \<times> 'z c1_iso_state_scheme) outcome) \<Rightarrow>
   'z c1_iso_state_scheme \<Rightarrow> ('r \<times> 'z c1_iso_state_scheme) outcome" where
  "iso_locked = locked iso_lock iso_lock_update"

interpretation c1_iso_spin: spin_locked iso_lock iso_lock_update
  by unfold_locales (simp add: iso_lock_def iso_lock_update_def)

section \<open>The region table\<close>

definition empty_region :: mem_region where
  "empty_region = \<lparr>reg_type = MEM_REGION_CODE, phys_base = 0, virt_base = 0, reg_size = 0,
     permissions = 0, cap_handle = 0\<rparr>"

definition c1_isolation_init ::
  "u64 \<Rightarrow> u64 \<Rightarrow> 'z c1_iso_state_scheme \<Rightarrow> (int \<times> 'z c1_iso_state_scheme) outcome" where
  "c1_isolation_init service_id domain_id s =
     Ret (0, s\<lparr>g_isolation := \<lparr>ctx_service_id = service_id, ctx_domain_id = domain_id,
       regions = replicate MAX_MEM_REGIONS empty_region, num_regions = 0, ctx_lock = 0, iso_enabled = 0\<rparr>\<rparr>)"

text \<open>
  The loop over the registered regions that leaves at the first one satisfying \<open>P\<close>; an index
  beyond the array is an undefined access.
\<close>

function region_scan :: "(mem_region \<Rightarrow> bool) \<Rightarrow> nat \<Rightarrow> nat \<Rightarrow> mem_region list \<Rightarrow> nat option outcome" where
  "region_scan P i n rs =
     (if i < n
      then if i < length rs
           then if P (rs ! i) then Ret (Some i) else region_scan P (Suc i) n rs
           else Fault
      else Ret None)"
  by pat_completeness auto
termination by (relation "measure (\<lambda>(P, i, n, rs). n - i)") auto

declare region_scan.simps [simp del]

definition find_region :: "(mem_region \<Rightarrow> bool) \<Rightarrow> 'z c1_iso_state_scheme \<Rightarrow> nat option outcome" where
  "find_region P s = region_scan P 0 (unat (num_regions (g_isolation s))) (regions (g_isolation s))"

text \<open>The overlap test; both ends may wrap.\<close>

definition regions_overlap :: "u64 \<Rightarrow> u64 \<Rightarrow> mem_region \<Rightarrow> bool" where
  "regions_overlap base sz r \<longleftrightarrow> base < phys_base r + reg_size r \<and> base + sz > phys_base r"

definition store_region ::
  "mem_region \<Rightarrow> 'z c1_iso_state_scheme \<Rightarrow> (int \<times> 'z c1_iso_state_scheme) outcome" where
  "store_region r s =
     (let g = g_isolation s; n = num_regions g in
      if unat n < length (regions g)
      then Ret (0, s\<lparr>g_isolation := g\<lparr>regions := (regions g)[unat n := r], num_regions := n + 1\<rparr>\<rparr>)
      else Fault)"

definition c1_isolation_add_region ::
  "mem_region_type \<Rightarrow> u64 \<Rightarrow> u64 \<Rightarrow> u32 \<Rightarrow> u64 \<Rightarrow> 'z c1_iso_state_scheme \<Rightarrow> (int \<times> 'z c1_iso_state_scheme) outcome" where
  "c1_isolation_add_region type base sz perms cap s =
     (if MAX_MEM_REGIONS \<le> unat (num_regions (g_isolation s)) then Ret (-1, s)
      else iso_locked (\<lambda>s. bindR (find_region (regions_overlap base sz) s) (\<lambda>hit. case hit of
          Some i \<Rightarrow> Ret (-2, s)
        | None \<Rightarrow> store_region \<lparr>reg_type = type, phys_base = base, virt_base = base, reg_size = sz,
            permissions = perms, cap_handle = cap\<rparr> s)) s)"

text \<open>\<open>regions[j] = regions[j + 1]\<close>.\<close>

definition shift_region :: "nat \<Rightarrow> mem_region list \<Rightarrow> mem_region list outcome" where
  "shift_region j rs = (if j + 1 < length rs then Ret (rs[j := rs ! (j + 1)]) else Fault)"

definition delete_region :: "nat \<Rightarrow> 'z c1_iso_state_scheme \<Rightarrow> (int \<times> 'z c1_iso_state_scheme) outcome" where
  "delete_region i s =
     (let g = g_isolation s in
      bindR (forR shift_region [i..<unat (num_regions g - 1)] (regions g)) (\<lambda>rs.
        Ret (0, s\<lparr>g_isolation := g\<lparr>regions := rs, num_regions := num_regions g - 1\<rparr>\<rparr>)))"

definition c1_isolation_remove_region ::
  "u64 \<Rightarrow> 'z c1_iso_state_scheme \<Rightarrow> (int \<times> 'z c1_iso_state_scheme) outcome" where
  "c1_isolation_remove_region base = iso_locked (\<lambda>s.
     bindR (find_region (\<lambda>r. phys_base r = base) s) (\<lambda>hit. case hit of
       None \<Rightarrow> Ret (-1, s) | Some i \<Rightarrow> delete_region i s))"

section \<open>The access check\<close>

text \<open>\<open>addr >= virt_base && addr + size <= virt_base + size\<close>, both sums wrapping.\<close>

definition region_contains :: "u64 \<Rightarrow> u64 \<Rightarrow> mem_region \<Rightarrow> bool" where
  "region_contains addr sz r \<longleftrightarrow> virt_base r \<le> addr \<and> addr + sz \<le> virt_base r + reg_size r"

definition c1_verify_access ::
  "u64 \<Rightarrow> u64 \<Rightarrow> u32 \<Rightarrow> 'z c1_iso_state_scheme \<Rightarrow> (bool \<times> 'z c1_iso_state_scheme) outcome" where
  "c1_verify_access addr sz required s =
     (if iso_enabled (g_isolation s) = 0 then Ret (True, s)
      else iso_locked (\<lambda>s. bindR (find_region (region_contains addr sz) s) (\<lambda>hit. case hit of
          None \<Rightarrow> Ret (False, s)
        | Some i \<Rightarrow> Ret (permissions (regions (g_isolation s) ! i) AND required = required, s))) s)"

definition holds_address :: "u64 \<Rightarrow> mem_region \<Rightarrow> bool" where
  "holds_address addr r \<longleftrightarrow> virt_base r \<le> addr \<and> addr < virt_base r + reg_size r"

definition isolation_is_service_memory ::
  "u64 \<Rightarrow> 'z c1_iso_state_scheme \<Rightarrow> (bool \<times> 'z c1_iso_state_scheme) outcome" where
  "isolation_is_service_memory addr = iso_locked (\<lambda>s.
     bindR (find_region (holds_address addr) s) (\<lambda>hit. Ret (hit \<noteq> None, s)))"

text \<open>The returned pointer is an index of the table.\<close>

definition isolation_get_region ::
  "u64 \<Rightarrow> 'z c1_iso_state_scheme \<Rightarrow> (nat option \<times> 'z c1_iso_state_scheme) outcome" where
  "isolation_get_region addr = iso_locked (\<lambda>s.
     bindR (find_region (holds_address addr) s) (\<lambda>hit. Ret (hit, s)))"

definition isolation_enable :: "'z c1_iso_state_scheme \<Rightarrow> (int \<times> 'z c1_iso_state_scheme) outcome" where
  "isolation_enable s = Ret (0, s\<lparr>g_isolation := (g_isolation s)\<lparr>iso_enabled := 1\<rparr>\<rparr>)"

definition isolation_disable :: "'z c1_iso_state_scheme \<Rightarrow> (int \<times> 'z c1_iso_state_scheme) outcome" where
  "isolation_disable s = Ret (0, s\<lparr>g_isolation := (g_isolation s)\<lparr>iso_enabled := 0\<rparr>\<rparr>)"

text \<open>The check of one region in \<open>isolation_validate\<close>: 0, -1 for an empty one, -2 for an overlap.\<close>

definition validate_region :: "nat \<Rightarrow> nat \<Rightarrow> mem_region list \<Rightarrow> int outcome" where
  "validate_region i n rs =
     (if reg_size (rs ! i) = 0 then Ret (-1)
      else bindR (region_scan (regions_overlap (phys_base (rs ! i)) (reg_size (rs ! i))) (i + 1) n rs) (\<lambda>hit.
        Ret (if hit = None then 0 else -2)))"

function validate_from :: "nat \<Rightarrow> nat \<Rightarrow> mem_region list \<Rightarrow> int outcome" where
  "validate_from i n rs =
     (if i < n
      then if i < length rs
           then bindR (validate_region i n rs) (\<lambda>v. if v = 0 then validate_from (Suc i) n rs else Ret v)
           else Fault
      else Ret 0)"
  by pat_completeness auto
termination by (relation "measure (\<lambda>(i, n, rs). n - i)") auto

declare validate_from.simps [simp del]

definition isolation_validate :: "'z c1_iso_state_scheme \<Rightarrow> (int \<times> 'z c1_iso_state_scheme) outcome" where
  "isolation_validate = iso_locked (\<lambda>s.
     bindR (validate_from 0 (unat (num_regions (g_isolation s))) (regions (g_isolation s))) (\<lambda>v. Ret (v, s)))"

definition isolation_dump :: "'z c1_iso_state_scheme \<Rightarrow> (unit \<times> 'z c1_iso_state_scheme) outcome" where
  "isolation_dump = iso_locked (\<lambda>s. Ret ((), s))"

section \<open>Access wrappers\<close>

text \<open>\<open>k\<close> bytes of memory as a number, the least significant byte first.\<close>

primrec read_le :: "nat \<Rightarrow> (u64 \<Rightarrow> u8) \<Rightarrow> u64 \<Rightarrow> 'w::len word" where
  "read_le 0 m a = 0"
| "read_le (Suc k) m a = ucast (m a) OR push_bit 8 (read_le k m (a + 1))"

primrec write_le :: "nat \<Rightarrow> (u64 \<Rightarrow> u8) \<Rightarrow> u64 \<Rightarrow> 'w::len word \<Rightarrow> (u64 \<Rightarrow> u8)" where
  "write_le 0 m a v = m"
| "write_le (Suc k) m a v = write_le k (m(a := ucast v)) (a + 1) (drop_bit 8 v)"

text \<open>The shape of the four readers, and of the four writers: nothing happens to a refused access.\<close>

definition checked_read ::
  "nat \<Rightarrow> u64 \<Rightarrow> 'z c1_iso_state_scheme \<Rightarrow> ('w::len word \<times> 'z c1_iso_state_scheme) outcome" where
  "checked_read k addr s = bindR (c1_verify_access addr (of_nat k) MEM_PERM_READ s) (\<lambda>(ok, s).
     if ok then Ret (read_le k (phys_mem s) addr, s) else Ret (0, s))"

definition checked_write ::
  "nat \<Rightarrow> u64 \<Rightarrow> 'w::len word \<Rightarrow> 'z c1_iso_state_scheme \<Rightarrow> (unit \<times> 'z c1_iso_state_scheme) outcome" where
  "checked_write k addr v s = bindR (c1_verify_access addr (of_nat k) MEM_PERM_WRITE s) (\<lambda>(ok, s).
     if ok then Ret ((), s\<lparr>phys_mem := write_le k (phys_mem s) addr v\<rparr>) else Ret ((), s))"

definition isolation_read8 :: "u64 \<Rightarrow> 'z c1_iso_state_scheme \<Rightarrow> (u8 \<times> 'z c1_iso_state_scheme) outcome" where
  "isolation_read8 = checked_read 1"

definition isolation_read16 :: "u64 \<Rightarrow> 'z c1_iso_state_scheme \<Rightarrow> (u16 \<times> 'z c1_iso_state_scheme) outcome" where
  "isolation_read16 = checked_read 2"

definition isolation_read32 :: "u64 \<Rightarrow> 'z c1_iso_state_scheme \<Rightarrow> (u32 \<times> 'z c1_iso_state_scheme) outcome" where
  "isolation_read32 = checked_read 4"

definition isolation_read64 :: "u64 \<Rightarrow> 'z c1_iso_state_scheme \<Rightarrow> (u64 \<times> 'z c1_iso_state_scheme) outcome" where
  "isolation_read64 = checked_read 8"

definition isolation_write8 :: "u64 \<Rightarrow> u8 \<Rightarrow> 'z c1_iso_state_scheme \<Rightarrow> (unit \<times> 'z c1_iso_state_scheme) outcome" where
  "isolation_write8 = checked_write 1"

definition isolation_write16 :: "u64 \<Rightarrow> u16 \<Rightarrow> 'z c1_iso_state_scheme \<Rightarrow> (unit \<times> 'z c1_iso_state_scheme) outcome" where
  "isolation_write16 = checked_write 2"

definition isolation_write32 :: "u64 \<Rightarrow> u32 \<Rightarrow> 'z c1_iso_state_scheme \<Rightarrow> (unit \<times> 'z c1_iso_state_scheme) outcome" where
  "isolation_write32 = checked_write 4"

definition isolation_write64 :: "u64 \<Rightarrow> u64 \<Rightarrow> 'z c1_iso_state_scheme \<Rightarrow> (unit \<times> 'z c1_iso_state_scheme) outcome" where
  "isolation_write64 = checked_write 8"

text \<open>The loops of \<open>memcpy\<close>, \<open>memset\<close> and \<open>memcmp\<close> between two ranges of the same memory.\<close>

primrec mem_copy :: "nat \<Rightarrow> u64 \<Rightarrow> u64 \<Rightarrow> (u64 \<Rightarrow> u8) \<Rightarrow> (u64 \<Rightarrow> u8)" where
  "mem_copy 0 d s m = m"
| "mem_copy (Suc n) d s m = mem_copy n (d + 1) (s + 1) (m(d := m s))"

primrec mem_fill :: "nat \<Rightarrow> u64 \<Rightarrow> u8 \<Rightarrow> (u64 \<Rightarrow> u8) \<Rightarrow> (u64 \<Rightarrow> u8)" where
  "mem_fill 0 d v m = m"
| "mem_fill (Suc n) d v m = mem_fill n (d + 1) v (m(d := v))"

primrec mem_compare :: "nat \<Rightarrow> u64 \<Rightarrow> u64 \<Rightarrow> (u64 \<Rightarrow> u8) \<Rightarrow> int" where
  "mem_compare 0 p q m = 0"
| "mem_compare (Suc n) p q m =
     (if m p \<noteq> m q then uint (m p) - uint (m q) else mem_compare n (p + 1) (q + 1) m)"

text \<open>\<open>if (!c1_verify_access(...)) return err;\<close>, and the rest of the function.\<close>

definition unless_denied ::
  "u64 \<Rightarrow> u64 \<Rightarrow> u32 \<Rightarrow> int \<Rightarrow> ('z c1_iso_state_scheme \<Rightarrow> (int \<times> 'z c1_iso_state_scheme) outcome) \<Rightarrow>
   'z c1_iso_state_scheme \<Rightarrow> (int \<times> 'z c1_iso_state_scheme) outcome" where
  "unless_denied addr sz perms err k s = bindR (c1_verify_access addr sz perms s) (\<lambda>(ok, s).
     if ok then k s else Ret (err, s))"

definition isolation_memcpy ::
  "u64 \<Rightarrow> u64 \<Rightarrow> u64 \<Rightarrow> 'z c1_iso_state_scheme \<Rightarrow> (int \<times> 'z c1_iso_state_scheme) outcome" where
  "isolation_memcpy dst src sz s =
     (if dst = 0 \<or> src = 0 \<or> sz = 0 then Ret (-1, s)
      else unless_denied src sz MEM_PERM_READ (-2) (unless_denied dst sz MEM_PERM_WRITE (-3)
        (\<lambda>s. Ret (0, s\<lparr>phys_mem := mem_copy (unat sz) dst src (phys_mem s)\<rparr>))) s)"

definition isolation_memset ::
  "u64 \<Rightarrow> u8 \<Rightarrow> u64 \<Rightarrow> 'z c1_iso_state_scheme \<Rightarrow> (int \<times> 'z c1_iso_state_scheme) outcome" where
  "isolation_memset dst v sz s =
     (if dst = 0 \<or> sz = 0 then Ret (-1, s)
      else unless_denied dst sz MEM_PERM_WRITE (-2)
        (\<lambda>s. Ret (0, s\<lparr>phys_mem := mem_fill (unat sz) dst v (phys_mem s)\<rparr>)) s)"

definition isolation_memcmp ::
  "u64 \<Rightarrow> u64 \<Rightarrow> u64 \<Rightarrow> 'z c1_iso_state_scheme \<Rightarrow> (int \<times> 'z c1_iso_state_scheme) outcome" where
  "isolation_memcmp p q sz s =
     (if p = 0 \<or> q = 0 \<or> sz = 0 then Ret (-1, s)
      else unless_denied p sz MEM_PERM_READ (-2) (unless_denied q sz MEM_PERM_READ (-3)
        (\<lambda>s. Ret (mem_compare (unat sz) p q (phys_mem s), s))) s)"

section \<open>The table stays disjoint\<close>

lemma region_scan_eq:
  "n \<le> length rs \<Longrightarrow> region_scan P i n rs = Ret (first_from (\<lambda>j. P (rs ! j)) i n)"
proof (induction P i n rs rule: region_scan.induct)
  case (1 P i n rs)
  then show ?case
    by (subst region_scan.simps) (auto simp: first_from.simps [of "\<lambda>j. P (rs ! j)" i n])
qed

definition region_range :: "mem_region \<Rightarrow> nat set" where
  "region_range r = {unat (phys_base r) ..< unat (phys_base r) + unat (reg_size r)}"

definition region_ok :: "mem_region \<Rightarrow> bool" where
  "region_ok r \<longleftrightarrow> virt_base r = phys_base r \<and> unat (phys_base r) + unat (reg_size r) < 2 ^ 64"

text \<open>The table of \<open>n\<close> regions: inside the array, identity mapped, not wrapping, pairwise disjoint.\<close>

definition table_ok :: "nat \<Rightarrow> mem_region list \<Rightarrow> bool" where
  "table_ok n rs \<longleftrightarrow> length rs = MAX_MEM_REGIONS \<and> n \<le> MAX_MEM_REGIONS \<and>
     (\<forall>i < n. region_ok (rs ! i)) \<and>
     (\<forall>i < n. \<forall>j < n. i \<noteq> j \<longrightarrow> region_range (rs ! i) \<inter> region_range (rs ! j) = {})"

definition iso_table_ok :: "'z c1_iso_state_scheme \<Rightarrow> bool" where
  "iso_table_ok s \<longleftrightarrow> ctx_lock (g_isolation s) = 0 \<and>
     table_ok (unat (num_regions (g_isolation s))) (regions (g_isolation s))"

lemma unat_add_nowrap: "unat (a :: u64) + unat b < 2 ^ 64 \<Longrightarrow> unat (a + b) = unat a + unat b"
  by (simp add: unat_word_ariths)

lemma region_end: "region_ok r \<Longrightarrow> unat (phys_base r + reg_size r) = unat (phys_base r) + unat (reg_size r)"
  by (simp add: region_ok_def unat_add_nowrap)

lemma no_overlap_disjoint:
  assumes "\<not> regions_overlap base sz r" "region_ok r" "unat base + unat sz < 2 ^ 64"
  shows "{unat base ..< unat base + unat sz} \<inter> region_range r = {}"
proof -
  have "unat (base + sz) = unat base + unat sz" using assms(3) by (rule unat_add_nowrap)
  with assms(1) region_end [OF assms(2)] show ?thesis
    by (auto simp: regions_overlap_def region_range_def word_less_nat_alt)
qed

lemma find_region_eq:
  assumes "iso_table_ok s"
  shows "find_region P (g_isolation_update (ctx_lock_update f) s) =
    Ret (first_from (\<lambda>j. P (regions (g_isolation s) ! j)) 0 (unat (num_regions (g_isolation s))))"
  using assms by (simp add: find_region_def region_scan_eq iso_table_ok_def table_ok_def)

lemma table_ok_store:
  assumes "table_ok n rs" "n < MAX_MEM_REGIONS" "region_ok r"
    "\<And>j. j < n \<Longrightarrow> region_range r \<inter> region_range (rs ! j) = {}"
  shows "table_ok (Suc n) (rs[n := r])"
proof -
  have n: "n < length rs" using assms(1,2) by (simp add: table_ok_def)
  show ?thesis
    using assms n by (auto simp: table_ok_def less_Suc_eq Int_commute)
qed

lemma shift_regions:
  assumes "i \<le> m" "m < length rs"
  shows "\<exists>rs'. forR shift_region [i..<m] rs = Ret rs' \<and> length rs' = length rs \<and>
    (\<forall>j. rs' ! j = (if i \<le> j \<and> j < m then rs ! (j + 1) else rs ! j))"
  using assms
proof (induction m)
  case 0
  then show ?case by simp
next
  case (Suc m)
  show ?case
  proof (cases "i = Suc m")
    case False
    with Suc obtain rs' where rs': "forR shift_region [i..<m] rs = Ret rs'" "length rs' = length rs"
      "\<And>j. rs' ! j = (if i \<le> j \<and> j < m then rs ! (j + 1) else rs ! j)" by auto
    have "forR shift_region [i..<Suc m] rs = Ret (rs'[m := rs ! (m + 1)])"
      using False Suc.prems rs' by (simp add: forR_append shift_region_def)
    then show ?thesis using rs' Suc.prems False by (auto simp: nth_list_update)
  qed auto
qed

lemma table_ok_shift:
  assumes "table_ok (Suc n) rs" "i \<le> n" "length rs' = length rs"
    "\<And>j. rs' ! j = (if i \<le> j \<and> j < n then rs ! (j + 1) else rs ! j)"
  shows "table_ok n rs'"
proof -
  define f where "f j = (if i \<le> j \<and> j < n then j + 1 else j)" for j
  have f: "rs' ! j = rs ! f j" for j using assms(4) by (simp add: f_def)
  have lt: "f j < Suc n" if "j < n" for j using that by (simp add: f_def)
  have inj: "f j \<noteq> f k" if "j < n" "k < n" "j \<noteq> k" for j k using that by (auto simp: f_def)
  show ?thesis
    using assms(1,3) lt inj unfolding table_ok_def by (simp add: f)
qed

text \<open>Each operation returns and keeps the table.\<close>

lemma iso_locked_free:
  "ctx_lock (g_isolation s) = 0 \<Longrightarrow>
   iso_locked body s = bindR (body (iso_lock_update (\<lambda>_. 1) s)) (\<lambda>(r, t). Ret (r, iso_lock_update (\<lambda>_. 0) t))"
  by (simp add: iso_locked_def locked_eq iso_lock_def)

lemma c1_add_region_ok:
  assumes s: "iso_table_ok s" and w: "unat base + unat sz < 2 ^ 64"
    and eq: "c1_isolation_add_region type base sz perms cap s = Ret (r, t)"
  shows "iso_table_ok t"
proof (cases "MAX_MEM_REGIONS \<le> unat (num_regions (g_isolation s)) \<or>
    first_from (\<lambda>j. regions_overlap base sz (regions (g_isolation s) ! j)) 0 (unat (num_regions (g_isolation s))) \<noteq> None")
  case True
  with eq s show ?thesis
    by (auto simp: c1_isolation_add_region_def iso_locked_free iso_table_ok_def find_region_eq [OF s]
        outcome_simps iso_lock_update_def split: if_splits)
next
  case False
  let ?n = "num_regions (g_isolation s)" and ?rs = "regions (g_isolation s)"
  let ?r = "\<lparr>reg_type = type, phys_base = base, virt_base = base, reg_size = sz, permissions = perms, cap_handle = cap\<rparr>"
  have n: "unat ?n < MAX_MEM_REGIONS" "unat ?n < length ?rs"
    using False s by (auto simp: iso_table_ok_def table_ok_def)
  have t: "t = s\<lparr>g_isolation := (g_isolation s)\<lparr>regions := ?rs[unat ?n := ?r], num_regions := ?n + 1, ctx_lock := 0\<rparr>\<rparr>"
    using eq False s n by (auto simp: c1_isolation_add_region_def iso_locked_free iso_table_ok_def
        find_region_eq [OF s] outcome_simps store_region_def iso_lock_update_def Let_def)
  have suc: "unat (?n + 1) = Suc (unat ?n)"
    by (rule unat_inc) (use n(1) in \<open>auto simp: MAX_MEM_REGIONS_def unsigned_minus_1_eq_mask mask_eq_exp_minus_1\<close>)
  have "table_ok (Suc (unat ?n)) (?rs[unat ?n := ?r])"
  proof (rule table_ok_store)
    show "table_ok (unat ?n) ?rs" using s by (simp add: iso_table_ok_def)
    show "region_ok ?r" using w by (simp add: region_ok_def)
    show "region_range ?r \<inter> region_range (?rs ! j) = {}" if "j < unat ?n" for j
      using no_overlap_disjoint [OF _ _ w, of "?rs ! j"] that False s
      by (auto simp: first_from_None_iff iso_table_ok_def table_ok_def region_range_def)
  qed (rule n)
  with t suc show ?thesis by (simp add: iso_table_ok_def)
qed

lemma c1_remove_region_ok:
  assumes s: "iso_table_ok s" and eq: "c1_isolation_remove_region base s = Ret (r, t)"
  shows "iso_table_ok t"
proof (cases "first_from (\<lambda>j. phys_base (regions (g_isolation s) ! j) = base) 0 (unat (num_regions (g_isolation s)))")
  case None
  with eq s show ?thesis
    by (auto simp: c1_isolation_remove_region_def iso_locked_free iso_table_ok_def find_region_eq [OF s]
        outcome_simps iso_lock_update_def)
next
  case (Some i)
  let ?n = "num_regions (g_isolation s)" and ?rs = "regions (g_isolation s)"
  have i: "i < unat ?n" using first_from_SomeD(2) [OF Some] .
  then have pred: "unat (?n - 1) = unat ?n - 1" by (intro unat_minus_one) auto
  have len: "unat ?n \<le> length ?rs" using s by (simp add: iso_table_ok_def table_ok_def)
  obtain rs' where rs': "forR shift_region [i..<unat (?n - 1)] ?rs = Ret rs'" "length rs' = length ?rs"
    "\<And>j. rs' ! j = (if i \<le> j \<and> j < unat (?n - 1) then ?rs ! (j + 1) else ?rs ! j)"
  proof -
    have "i \<le> unat (?n - 1)" "unat (?n - 1) < length ?rs" using i len pred by auto
    from shift_regions [OF this] that show thesis by blast
  qed
  have "t = s\<lparr>g_isolation := (g_isolation s)\<lparr>regions := rs', num_regions := ?n - 1, ctx_lock := 0\<rparr>\<rparr>"
    using eq Some s rs'(1) by (auto simp: c1_isolation_remove_region_def iso_locked_free iso_table_ok_def
        find_region_eq [OF s] outcome_simps delete_region_def iso_lock_update_def Let_def)
  moreover have "table_ok (unat (?n - 1)) rs'"
    by (rule table_ok_shift [OF _ _ rs'(2,3)]) (use s i pred in \<open>auto simp: iso_table_ok_def\<close>)
  ultimately show ?thesis by (simp add: iso_table_ok_def)
qed

inductive c1_iso_reachable :: "c1_iso_state \<Rightarrow> bool" where
  init: "c1_isolation_init sid did s = Ret (r, t) \<Longrightarrow> c1_iso_reachable t"
| add: "c1_iso_reachable s \<Longrightarrow> unat base + unat sz < 2 ^ 64 \<Longrightarrow>
    c1_isolation_add_region type base sz perms cap s = Ret (r, t) \<Longrightarrow> c1_iso_reachable t"
| remove: "c1_iso_reachable s \<Longrightarrow> c1_isolation_remove_region base s = Ret (r, t) \<Longrightarrow> c1_iso_reachable t"
| enable: "c1_iso_reachable s \<Longrightarrow> isolation_enable s = Ret (r, t) \<Longrightarrow> c1_iso_reachable t"
| disable: "c1_iso_reachable s \<Longrightarrow> isolation_disable s = Ret (r, t) \<Longrightarrow> c1_iso_reachable t"

lemma c1_iso_reachable_ok: "c1_iso_reachable s \<Longrightarrow> iso_table_ok s"
proof (induction rule: c1_iso_reachable.induct)
  case (init sid did s r t)
  then show ?case by (auto simp: c1_isolation_init_def iso_table_ok_def table_ok_def)
next
  case (add s base sz type perms cap r t)
  then show ?case by (blast intro: c1_add_region_ok)
next
  case (remove s base r t)
  then show ?case by (blast intro: c1_remove_region_ok)
qed (auto simp: isolation_enable_def isolation_disable_def iso_table_ok_def)

section \<open>What a granted access means\<close>

lemma verify_access_returns:
  assumes s: "iso_table_ok s" and e: "iso_enabled (g_isolation s) \<noteq> 0"
  shows "c1_verify_access addr sz perms s = Ret
    ((case first_from (\<lambda>j. region_contains addr sz (regions (g_isolation s) ! j)) 0 (unat (num_regions (g_isolation s))) of
        None \<Rightarrow> False | Some i \<Rightarrow> permissions (regions (g_isolation s) ! i) AND perms = perms), s)"
proof -
  have lock: "ctx_lock (g_isolation s) = 0" using s by (simp add: iso_table_ok_def)
  have same: "g_isolation_update (ctx_lock_update (\<lambda>_. 0)) s = s"
    using lock by (cases s rule: c1_iso_state.cases_scheme; cases "g_isolation s" rule: isolation_context.cases_scheme) auto
  show ?thesis
    using e lock same by (auto simp: c1_verify_access_def iso_locked_free find_region_eq [OF s]
        iso_lock_update_def outcome_simps split: option.splits)
qed

lemma contains_nowrap:
  assumes "region_ok r" "unat addr + unat sz < 2 ^ 64" "sz \<noteq> 0"
  shows "region_contains addr sz r \<longleftrightarrow> {unat addr ..< unat addr + unat sz} \<subseteq> region_range r"
proof -
  have "unat sz > 0" using assms(3) by (simp add: unat_gt_0)
  then have "{unat addr ..< unat addr + unat sz} \<subseteq> region_range r \<longleftrightarrow>
      unat (phys_base r) \<le> unat addr \<and> unat addr + unat sz \<le> unat (phys_base r) + unat (reg_size r)"
    by (simp add: region_range_def ivl_subset)
  with assms region_end [OF assms(1)] show ?thesis
    by (simp add: region_contains_def word_le_nat_alt unat_add_nowrap region_ok_def)
qed

lemma containing_unique:
  assumes "table_ok n rs" "i < n" "j < n"
    "{unat addr ..< unat addr + unat sz} \<subseteq> region_range (rs ! i)"
    "{unat addr ..< unat addr + unat sz} \<subseteq> region_range (rs ! j)" "sz \<noteq> 0"
  shows "i = j"
proof (rule ccontr)
  assume "i \<noteq> j"
  with assms(1-3) have "region_range (rs ! i) \<inter> region_range (rs ! j) = {}" by (simp add: table_ok_def)
  moreover have "unat addr \<in> {unat addr ..< unat addr + unat sz}" using assms(6) by (simp add: unat_gt_0)
  ultimately show False using assms(4,5) by blast
qed

lemma verify_access_iff:
  assumes s: "iso_table_ok s" and e: "iso_enabled (g_isolation s) \<noteq> 0"
    and w: "unat addr + unat sz < 2 ^ 64" "sz \<noteq> 0"
  shows "c1_verify_access addr sz perms s = Ret
    (\<exists>i < unat (num_regions (g_isolation s)).
       {unat addr ..< unat addr + unat sz} \<subseteq> region_range (regions (g_isolation s) ! i) \<and>
       permissions (regions (g_isolation s) ! i) AND perms = perms, s)"
proof -
  let ?n = "unat (num_regions (g_isolation s))" and ?rs = "regions (g_isolation s)"
  have tab: "table_ok ?n ?rs" using s by (simp add: iso_table_ok_def)
  have c: "region_contains addr sz (?rs ! i) \<longleftrightarrow> {unat addr ..< unat addr + unat sz} \<subseteq> region_range (?rs ! i)"
    if "i < ?n" for i using tab that w by (intro contains_nowrap) (auto simp: table_ok_def)
  show ?thesis
  proof (cases "first_from (\<lambda>j. region_contains addr sz (?rs ! j)) 0 ?n")
    case None
    then have "\<not> region_contains addr sz (?rs ! i)" if "i < ?n" for i
      using that by (simp add: first_from_None_iff)
    with c show ?thesis unfolding verify_access_returns [OF s e] None by auto
  next
    case (Some i)
    have i: "i < ?n" "{unat addr ..< unat addr + unat sz} \<subseteq> region_range (?rs ! i)"
      using first_from_SomeD(2,3) [OF Some] c by auto
    have "j = i" if "j < ?n" "{unat addr ..< unat addr + unat sz} \<subseteq> region_range (?rs ! j)" for j
      by (rule containing_unique [OF tab that(1) i(1) that(2) i(2) w(2)])
    with i have "(\<exists>j < ?n. {unat addr ..< unat addr + unat sz} \<subseteq> region_range (?rs ! j) \<and>
        permissions (?rs ! j) AND perms = perms) \<longleftrightarrow> permissions (?rs ! i) AND perms = perms" by blast
    with verify_access_returns [OF s e] Some show ?thesis by (simp only: option.case)
  qed
qed

text \<open>
  A size that wraps the end of the access around lets it leave the region: the access below
  starts in the region and covers nearly the whole address space.
\<close>

lemma verify_access_wraps:
  assumes s: "iso_table_ok s" and e: "iso_enabled (g_isolation s) \<noteq> 0"
    and n: "0 < unat (num_regions (g_isolation s))"
    and r: "phys_base (regions (g_isolation s) ! 0) \<le> addr"
      "addr + sz \<le> phys_base (regions (g_isolation s) ! 0) + reg_size (regions (g_isolation s) ! 0)"
      "permissions (regions (g_isolation s) ! 0) AND perms = perms"
  shows "c1_verify_access addr sz perms s = Ret (True, s)"
proof -
  have "region_contains addr sz (regions (g_isolation s) ! 0)"
    using s n r(1,2) by (auto simp: region_contains_def iso_table_ok_def table_ok_def region_ok_def)
  with verify_access_returns [OF s e] n r(3) show ?thesis by (simp add: first_from_hit)
qed

text \<open>
  C17. Over every history of the region table of a Core-1 service (initialise, add regions that
  do not wrap, remove, enable, disable), an enabled check of a non-empty access that does not
  wrap returns, leaves the state alone, and grants the access exactly when one registered
  region contains all of it and carries every permission asked for.
\<close>
theorem c1_access_granted_iff:
  assumes "c1_iso_reachable s" "iso_enabled (g_isolation s) \<noteq> 0"
    "unat addr + unat sz < 2 ^ 64" "sz \<noteq> 0"
  shows "c1_verify_access addr sz perms s = Ret
    (\<exists>i < unat (num_regions (g_isolation s)).
       {unat addr ..< unat addr + unat sz} \<subseteq> region_range (regions (g_isolation s) ! i) \<and>
       permissions (regions (g_isolation s) ! i) AND perms = perms, s)"
  by (rule verify_access_iff [OF c1_iso_reachable_ok [OF assms(1)] assms(2-4)])

definition c1_sample_iso :: c1_iso_state where
  "c1_sample_iso = \<lparr>g_isolation = \<lparr>ctx_service_id = 7, ctx_domain_id = 3,
     regions = (replicate 16 empty_region)[0 := \<lparr>reg_type = MEM_REGION_DATA, phys_base = 0x1000,
       virt_base = 0x1000, reg_size = 0x1000, permissions = MEM_PERM_READ, cap_handle = 0\<rparr>],
     num_regions = 1, ctx_lock = 0, iso_enabled = 1\<rparr>, phys_mem = (\<lambda>_. 0)\<rparr>"

lemma c1_sample_iso_reachable: "c1_iso_reachable c1_sample_iso"
proof -
  let ?s = "\<lparr>g_isolation = \<lparr>ctx_service_id = 0, ctx_domain_id = 0, regions = [], num_regions = 0,
    ctx_lock = 0, iso_enabled = 0\<rparr>, phys_mem = (\<lambda>_. 0)\<rparr> :: c1_iso_state"
  let ?s1 = "?s\<lparr>g_isolation := \<lparr>ctx_service_id = 7, ctx_domain_id = 3, regions = replicate 16 empty_region,
    num_regions = 0, ctx_lock = 0, iso_enabled = 0\<rparr>\<rparr>"
  let ?s2 = "c1_sample_iso\<lparr>g_isolation := (g_isolation c1_sample_iso)\<lparr>iso_enabled := 0\<rparr>\<rparr>"
  have "c1_iso_reachable ?s1"
    by (rule c1_iso_reachable.init [of 7 3 ?s 0]) (simp add: c1_isolation_init_def MAX_MEM_REGIONS_def)
  then have "c1_iso_reachable ?s2"
    by (rule c1_iso_reachable.add [of _ "0x1000" "0x1000" MEM_REGION_DATA MEM_PERM_READ 0 0])
      (simp_all add: c1_isolation_add_region_def MAX_MEM_REGIONS_def iso_locked_free find_region_def
        region_scan.simps store_region_def c1_sample_iso_def iso_lock_update_def outcome_simps)
  then show ?thesis
    by (rule c1_iso_reachable.enable) (simp add: isolation_enable_def c1_sample_iso_def)
qed

theorem c1_access_granted_iff_witness:
  "c1_verify_access 0x1800 8 MEM_PERM_READ c1_sample_iso = Ret (True, c1_sample_iso) \<and>
   c1_verify_access 0x1FFC 8 MEM_PERM_READ c1_sample_iso = Ret (False, c1_sample_iso)"
  using c1_access_granted_iff [OF c1_sample_iso_reachable, of "0x1800" 8 MEM_PERM_READ]
    c1_access_granted_iff [OF c1_sample_iso_reachable, of "0x1FFC" 8 MEM_PERM_READ]
  by (simp add: c1_sample_iso_def region_range_def)

lemma c1_sample_iso_wraps:
  "c1_verify_access 0x1800 (- 0x1000) MEM_PERM_READ c1_sample_iso = Ret (True, c1_sample_iso)"
  by (rule verify_access_wraps [OF c1_iso_reachable_ok [OF c1_sample_iso_reachable]])
    (simp_all add: c1_sample_iso_def)

end
