(* ===== verification/Blocks.thy ===== *)
theory Blocks
  imports Spinlock "HOL-Library.Multiset"
begin

text \<open>
  The block list the heaps of Core-1 (\<open>Core-1/mm/physical_mem.c\<close>) and Core-3
  (\<open>Core-3/mm/virtual_mem.c\<close>) share: both files define the same packed header and the same loops. A
  store maps an address to the header there; \<open>NULL\<close> is 0; a walk that never ends is \<open>None\<close>. The
  second half refines the list to the sequence of its blocks, and the locale \<open>block_allocator\<close>
  proves once what every history of such a heap keeps.
\<close>

section \<open>Headers\<close>

record mem_block =
  blk_size :: u64
  blk_used :: u8
  blk_next :: u64
  blk_prev :: u64

text \<open>\<open>sizeof(mem_block_t)\<close>, which is packed.\<close>

definition sizeof_mem_block :: u64 where "sizeof_mem_block = 25"

text \<open>A write to the header at \<open>b\<close>.\<close>

definition put_hdr :: "u64 \<Rightarrow> (mem_block \<Rightarrow> mem_block) \<Rightarrow> (u64 \<Rightarrow> mem_block) \<Rightarrow> (u64 \<Rightarrow> mem_block)" where
  "put_hdr b f m = m(b := f (m b))"

definition walk :: "'a option \<Rightarrow> 'a outcome" where
  "walk r = (case r of None \<Rightarrow> Hang | Some x \<Rightarrow> Ret x)"

text \<open>The first-fit walk: the block found, or \<open>NULL\<close>.\<close>

partial_function (option) fit_walk :: "(u64 \<Rightarrow> mem_block) \<Rightarrow> u64 \<Rightarrow> u64 \<Rightarrow> u64 option" where
  "fit_walk m sz b =
     (if b = 0 then Some 0
      else if blk_used (m b) = 0 \<and> sz \<le> blk_size (m b) then Some b
      else fit_walk m sz (blk_next (m b)))"

definition split_block :: "u64 \<Rightarrow> u64 \<Rightarrow> (u64 \<Rightarrow> mem_block) \<Rightarrow> (u64 \<Rightarrow> mem_block)" where
  "split_block b sz m =
     (let new = b + sz;
          m1 = put_hdr new (\<lambda>_. \<lparr>blk_size = blk_size (m b) - sz, blk_used = 0,
                 blk_next = blk_next (m b), blk_prev = b\<rparr>) m;
          m2 = (if blk_next (m1 b) \<noteq> 0 then put_hdr (blk_next (m1 b)) (blk_prev_update (\<lambda>_. new)) m1 else m1)
      in put_hdr b (\<lambda>h. h\<lparr>blk_next := new, blk_size := sz\<rparr>) m2)"

definition take_block :: "u64 \<Rightarrow> u64 \<Rightarrow> (u64 \<Rightarrow> mem_block) \<Rightarrow> (u64 \<Rightarrow> mem_block)" where
  "take_block b sz m = put_hdr b (blk_used_update (\<lambda>_. 1))
     (if sz + sizeof_mem_block + 8 \<le> blk_size (m b) then split_block b sz m else m)"

text \<open>The size rounded up to 8 plus the header; the sums wrap. The alignment is not used.\<close>

definition block_bytes :: "u64 \<Rightarrow> u64" where
  "block_bytes sz = ((sz + 7) AND NOT 7) + sizeof_mem_block"

text \<open>The body of both merges: the block \<open>x\<close> takes over its successor \<open>y\<close>.\<close>

definition absorb :: "u64 \<Rightarrow> u64 \<Rightarrow> (u64 \<Rightarrow> mem_block) \<Rightarrow> (u64 \<Rightarrow> mem_block)" where
  "absorb x y m =
     (let m1 = put_hdr x (\<lambda>h. h\<lparr>blk_size := blk_size h + blk_size (m y)\<rparr>) m;
          m2 = put_hdr x (\<lambda>h. h\<lparr>blk_next := blk_next (m1 y)\<rparr>) m1
      in if blk_next (m2 y) \<noteq> 0 then put_hdr (blk_next (m2 y)) (blk_prev_update (\<lambda>_. x)) m2 else m2)"

definition merge_next :: "u64 \<Rightarrow> (u64 \<Rightarrow> mem_block) \<Rightarrow> (u64 \<Rightarrow> mem_block)" where
  "merge_next b m = (if blk_next (m b) \<noteq> 0 \<and> blk_used (m (blk_next (m b))) = 0
     then absorb b (blk_next (m b)) m else m)"

definition merge_prev :: "u64 \<Rightarrow> (u64 \<Rightarrow> mem_block) \<Rightarrow> (u64 \<Rightarrow> mem_block)" where
  "merge_prev b m = (if blk_prev (m b) \<noteq> 0 \<and> blk_used (m (blk_prev (m b))) = 0
     then absorb (blk_prev (m b)) b m else m)"

text \<open>The three sums: total, used, free. A caller passing \<open>NULL\<close> ignores a component.\<close>

partial_function (option) stats_walk ::
  "(u64 \<Rightarrow> mem_block) \<Rightarrow> u64 \<times> u64 \<times> u64 \<Rightarrow> u64 \<Rightarrow> (u64 \<times> u64 \<times> u64) option" where
  "stats_walk m sums b =
     (if b = 0 then Some sums
      else case sums of (tot, used, free) \<Rightarrow>
        stats_walk m (if blk_used (m b) \<noteq> 0 then (tot + blk_size (m b), used + blk_size (m b), free)
                      else (tot + blk_size (m b), used, free + blk_size (m b))) (blk_next (m b)))"

definition check_block :: "u64 \<Rightarrow> u64 \<Rightarrow> (u64 \<Rightarrow> mem_block) \<Rightarrow> u64 \<Rightarrow> u64 \<Rightarrow> int" where
  "check_block base sz m offset b =
     (if b \<noteq> base + offset then -1
      else if blk_size (m b) < sizeof_mem_block then -2
      else if offset + blk_size (m b) > sz then -3
      else if blk_next (m b) \<noteq> 0 \<and> blk_prev (m (blk_next (m b))) \<noteq> b then -4
      else if blk_prev (m b) \<noteq> 0 \<and> blk_next (m (blk_prev (m b))) \<noteq> b then -5
      else 0)"

partial_function (option) validate_walk :: "u64 \<Rightarrow> u64 \<Rightarrow> (u64 \<Rightarrow> mem_block) \<Rightarrow> u64 \<Rightarrow> u64 \<Rightarrow> int option" where
  "validate_walk base sz m offset b =
     (if b = 0 then Some 0
      else if check_block base sz m offset b \<noteq> 0 then Some (check_block base sz m offset b)
      else validate_walk base sz m (offset + blk_size (m b)) (blk_next (m b)))"

partial_function (option) count_walk :: "(u64 \<Rightarrow> mem_block) \<Rightarrow> u32 \<Rightarrow> u64 \<Rightarrow> u32 option" where
  "count_walk m n b = (if b = 0 then Some n else count_walk m (n + 1) (blk_next (m b)))"

section \<open>The heap as a sequence of blocks\<close>

definition addr :: "nat \<Rightarrow> u64" where "addr = of_nat"

type_synonym layout = "(nat \<times> bool) list"

text \<open>
  The blocks of \<open>xs\<close>, size and use, lie one after the other from address \<open>a\<close> on; the first one's
  predecessor is \<open>p\<close> and the last one's successor \<open>nx\<close>.
\<close>

fun seg :: "(u64 \<Rightarrow> mem_block) \<Rightarrow> u64 \<Rightarrow> nat \<Rightarrow> layout \<Rightarrow> u64 \<Rightarrow> bool" where
  "seg m p a [] nx = True"
| "seg m p a ((n, u) # xs) nx =
     (25 < n \<and> m (addr a) = \<lparr>blk_size = of_nat n, blk_used = of_bool u,
        blk_next = (if xs = [] then nx else addr (a + n)), blk_prev = p\<rparr> \<and>
      seg m (addr a) (a + n) xs nx)"

definition span :: "layout \<Rightarrow> nat" where "span xs = sum_list (map fst xs)"

lemma span_simps [simp]: "span [] = 0" "span (x # xs) = fst x + span xs" "span (xs @ ys) = span xs + span ys"
  by (simp_all add: span_def)

text \<open>The address of the last block, or \<open>p\<close> when there is none.\<close>

fun last_addr :: "u64 \<Rightarrow> nat \<Rightarrow> layout \<Rightarrow> u64" where
  "last_addr p a [] = p"
| "last_addr p a ((n, u) # xs) = last_addr (addr a) (a + n) xs"

lemma seg_append:
  "seg m p a (xs @ ys) nx \<longleftrightarrow>
     seg m p a xs (if ys = [] then nx else addr (a + span xs)) \<and>
     seg m (last_addr p a xs) (a + span xs) ys nx"
  by (induction xs arbitrary: p a) (auto simp: add.assoc)

lemma seg_cong:
  "(\<And>k. a \<le> k \<Longrightarrow> k < a + span xs \<Longrightarrow> m' (addr k) = m (addr k)) \<Longrightarrow>
   seg m' p a xs nx = seg m p a xs nx"
proof (induction xs arbitrary: p a)
  case (Cons x xs)
  obtain n u where x: "x = (n, u)" by (cases x)
  show ?case
  proof (cases "25 < n")
    case True
    with Cons.prems x have "m' (addr a) = m (addr a)" by auto
    moreover have "seg m' (addr a) (a + n) xs nx = seg m (addr a) (a + n) xs nx"
      by (rule Cons.IH) (use Cons.prems x in auto)
    ultimately show ?thesis using x by simp
  qed (simp add: x)
qed simp

text \<open>Addresses below \<open>2^64\<close> are told apart by their numbers.\<close>

lemma unat_addr: "j < 2 ^ 64 \<Longrightarrow> unat (addr j) = j"
  by (simp add: addr_def unat_of_nat take_bit_eq_mod)

lemma addr_eq_iff: "j < 2 ^ 64 \<Longrightarrow> k < 2 ^ 64 \<Longrightarrow> addr j = addr k \<longleftrightarrow> j = k"
  by (metis unat_addr)

lemma addr_eq_0_iff: "j < 2 ^ 64 \<Longrightarrow> addr j = 0 \<longleftrightarrow> j = 0"
  using addr_eq_iff [of j 0] by (simp add: addr_def)

lemma addr_add: "addr j + of_nat k = addr (j + k)"
  by (simp add: addr_def)

lemma unat_of_nat_u64: "j < 2 ^ 64 \<Longrightarrow> unat (of_nat j :: u64) = j"
  by (simp add: unat_of_nat take_bit_eq_mod)

lemma seg_frame:
  assumes "b < a \<or> a + span xs \<le> b" "a + span xs \<le> 2 ^ 64" "b < 2 ^ 64"
  shows "seg (m(addr b := h)) p a xs nx = seg m p a xs nx"
proof (rule seg_cong)
  fix k assume "a \<le> k" "k < a + span xs"
  with assms have "addr k \<noteq> addr b" by (subst addr_eq_iff) auto
  then show "(m(addr b := h)) (addr k) = m (addr k)" by simp
qed

lemma seg_put_frame:
  assumes "b < a \<or> a + span xs \<le> b" "a + span xs \<le> 2 ^ 64" "b < 2 ^ 64"
  shows "seg (put_hdr (addr b) f m) p a xs nx = seg m p a xs nx"
  unfolding put_hdr_def by (rule seg_frame [OF assms])

lemma seg_prev:
  assumes "seg m p a xs nx" "xs \<noteq> []" "a + span xs \<le> 2 ^ 64"
  shows "seg (put_hdr (addr a) (blk_prev_update (\<lambda>_. q)) m) q a xs nx"
proof -
  obtain n u ys where xs: "xs = (n, u) # ys" using assms(2) by (cases xs) auto
  have a: "25 < n" "seg m (addr a) (a + n) ys nx" using assms(1) xs by auto
  have "seg (put_hdr (addr a) (blk_prev_update (\<lambda>_. q)) m) (addr a) (a + n) ys nx"
    using a assms(3) xs by (subst seg_put_frame) auto
  with assms(1) xs show ?thesis by (simp add: put_hdr_def)
qed

lemma span_ge: "seg m p a xs nx \<Longrightarrow> xs \<noteq> [] \<Longrightarrow> 25 < span xs"
  by (cases xs) auto

text \<open>The parts of a heap around one block.\<close>

lemma seg_around:
  assumes "seg m p a (as @ (n, u) # bs) 0" "a + span (as @ (n, u) # bs) \<le> 2 ^ 64"
  shows "seg m p a as (addr (a + span as))"
    "m (addr (a + span as)) = \<lparr>blk_size = of_nat n, blk_used = of_bool u,
       blk_next = (if bs = [] then 0 else addr (a + span as + n)), blk_prev = last_addr p a as\<rparr>"
    "seg m (addr (a + span as)) (a + span as + n) bs 0" "25 < n"
    "bs \<noteq> [] \<Longrightarrow> a + span as + n < 2 ^ 64"
proof -
  show bs: "seg m (addr (a + span as)) (a + span as + n) bs 0" using assms(1) by (simp add: seg_append)
  show "a + span as + n < 2 ^ 64" if "bs \<noteq> []"
    using span_ge [OF bs that] assms(2) by simp
qed (use assms(1) in \<open>auto simp: seg_append\<close>)

lemma seg_rebuild:
  assumes "seg m p a as (addr (a + span as))" "25 < n"
    "m (addr (a + span as)) = \<lparr>blk_size = of_nat n, blk_used = of_bool u,
       blk_next = (if bs = [] then 0 else addr (a + span as + n)), blk_prev = last_addr p a as\<rparr>"
    "seg m (addr (a + span as)) (a + span as + n) bs 0"
  shows "seg m p a (as @ (n, u) # bs) 0"
  using assms by (simp add: seg_append)

lemma put_hdr_apply: "put_hdr b f m c = (if c = b then f (m b) else m c)"
  by (simp add: put_hdr_def)

lemma split_block_seg:
  assumes seg: "seg m p a (as @ (n, False) # bs) 0" and fits: "a + span (as @ (n, False) # bs) \<le> 2 ^ 64"
    and a: "0 < a" and t: "25 < t" "t + 25 < n" "t < 2 ^ 64"
  shows "seg (put_hdr (addr (a + span as)) (blk_used_update (\<lambda>_. 1)) (split_block (addr (a + span as)) (of_nat t) m))
    p a (as @ (t, True) # (n - t, False) # bs) 0"
proof -
  let ?A = "a + span as"
  note around = seg_around [OF seg fits]
  have lt: "?A < 2 ^ 64" "?A + t < 2 ^ 64" using fits t by auto
  define m1 where "m1 = put_hdr (addr (?A + t)) (\<lambda>_. \<lparr>blk_size = of_nat n - of_nat t, blk_used = 0,
      blk_next = (if bs = [] then 0 else addr (?A + n)), blk_prev = addr ?A\<rparr>) m"
  define m2 where "m2 = (if bs = [] then m1 else put_hdr (addr (?A + n)) (blk_prev_update (\<lambda>_. addr (?A + t))) m1)"
  define m3 where "m3 = put_hdr (addr ?A) (\<lambda>h. h\<lparr>blk_next := addr (?A + t), blk_size := of_nat t\<rparr>) m2"
  define m4 where "m4 = put_hdr (addr ?A) (blk_used_update (\<lambda>_. 1)) m3"
  have ne: "addr ?A \<noteq> addr (?A + t)" using lt t by (subst addr_eq_iff) auto
  have m1A: "m1 (addr ?A) = m (addr ?A)" using ne by (simp add: m1_def put_hdr_apply)
  have next0: "blk_next (m (addr ?A)) = 0 \<longleftrightarrow> bs = []"
    using around(2,5) a by (auto simp: addr_eq_0_iff)
  have split: "split_block (addr ?A) (of_nat t) m = m3"
    using ne next0 around(2) by (cases "bs = []")
      (simp_all add: split_block_def m3_def m2_def m1_def Let_def addr_add put_hdr_apply)
  have frames: "seg m4 p a as (addr ?A)"
    using around(1,5) lt t a fits unfolding m4_def m3_def m2_def m1_def
    by (cases "bs = []") (simp_all add: seg_put_frame)
  have bs1: "seg m1 (addr ?A) (?A + n) bs 0"
    unfolding m1_def using around(3) lt t fits by (subst seg_put_frame) auto
  have bs2: "seg m2 (addr (?A + t)) (?A + n) bs 0"
    unfolding m2_def using seg_prev [OF bs1] fits by auto
  have bs4: "seg m4 (addr (?A + t)) (?A + n) bs 0"
    unfolding m4_def m3_def using bs2 lt fits around(4) by (subst seg_put_frame; (subst seg_put_frame)?) auto
  have n_ne: "addr (?A + n) \<noteq> addr ?A" "addr (?A + n) \<noteq> addr (?A + t)" if "bs \<noteq> []"
    using around(5) [OF that] lt t by (subst addr_eq_iff; simp)+
  have blkA: "m4 (addr ?A) = \<lparr>blk_size = of_nat t, blk_used = 1, blk_next = addr (?A + t), blk_prev = last_addr p a as\<rparr>"
    using n_ne(1) ne around(2) by (auto simp: m4_def m3_def m2_def m1_def put_hdr_apply)
  have blkT: "m4 (addr (?A + t)) = \<lparr>blk_size = of_nat (n - t), blk_used = 0,
      blk_next = (if bs = [] then 0 else addr (?A + n)), blk_prev = addr ?A\<rparr>"
    using n_ne(2) ne t by (auto simp: m4_def m3_def m2_def m1_def put_hdr_apply of_nat_diff)
  have "seg m4 p a (as @ (t, True) # (n - t, False) # bs) 0"
    by (rule seg_rebuild) (use frames blkA blkT bs4 t in \<open>simp_all add: add.assoc\<close>)
  then show ?thesis by (simp add: split m4_def)
qed

lemma take_block_seg:
  assumes seg: "seg m p a (as @ (n, False) # bs) 0" and fits: "a + span (as @ (n, False) # bs) \<le> 2 ^ 64"
    and a: "0 < a" and t: "25 < t" "t \<le> n" "t + 33 < 2 ^ 64"
  shows "seg (take_block (addr (a + span as)) (of_nat t) m) p a
    (as @ (if t + 33 \<le> n then [(t, True), (n - t, False)] else [(n, True)]) @ bs) 0"
proof -
  let ?A = "a + span as"
  note around = seg_around [OF seg fits]
  have n: "n < 2 ^ 64" using fits a by simp
  have "(of_nat t + sizeof_mem_block + 8 :: u64) = of_nat (t + 33)" by (simp add: sizeof_mem_block_def)
  then have "unat (of_nat t + sizeof_mem_block + 8 :: u64) = t + 33"
    using unat_of_nat_u64 [OF t(3)] by (simp only:)
  then have cond: "of_nat t + sizeof_mem_block + 8 \<le> blk_size (m (addr ?A)) \<longleftrightarrow> t + 33 \<le> n"
    using around(2) unat_of_nat_u64 [OF n] by (simp add: word_le_nat_alt)
  show ?thesis
  proof (cases "t + 33 \<le> n")
    case True
    with cond split_block_seg [OF seg fits a t(1)] t show ?thesis by (simp add: take_block_def)
  next
    case False
    let ?m = "put_hdr (addr ?A) (blk_used_update (\<lambda>_. 1)) m"
    have "seg ?m p a (as @ (n, True) # bs) 0"
    proof (rule seg_rebuild)
      show "seg ?m p a as (addr ?A)" using around(1,4) fits by (subst seg_put_frame) auto
      show "seg ?m (addr ?A) (?A + n) bs 0" using around(3,4) fits by (subst seg_put_frame) auto
    qed (use around(2,4) in \<open>simp_all add: put_hdr_apply\<close>)
    with False cond show ?thesis by (simp add: take_block_def)
  qed
qed

lemma absorb_seg:
  assumes seg: "seg m p a (as @ (k, u) # (n, v) # bs) 0" and fits: "a + span (as @ (k, u) # (n, v) # bs) \<le> 2 ^ 64"
    and a: "0 < a"
  shows "seg (absorb (addr (a + span as)) (addr (a + span as + k)) m) p a (as @ (k + n, u) # bs) 0"
proof -
  let ?A = "a + span as" and ?B = "a + span as + k"
  note around = seg_around [OF seg fits]
  have B: "m (addr ?B) = \<lparr>blk_size = of_nat n, blk_used = of_bool v,
       blk_next = (if bs = [] then 0 else addr (?B + n)), blk_prev = addr ?A\<rparr>"
    and n25: "25 < n" and bs: "seg m (addr ?B) (?B + n) bs 0"
    using around(3) by (auto simp: add.assoc)
  have lt: "?A < 2 ^ 64" "?B < 2 ^ 64" using fits n25 by auto
  have ltn: "?B + n < 2 ^ 64" if "bs \<noteq> []" using span_ge [OF bs that] fits by simp
  have ne: "addr ?B \<noteq> addr ?A" using lt around(4) by (subst addr_eq_iff) auto
  define m2 where "m2 = put_hdr (addr ?A) (\<lambda>h. h\<lparr>blk_next := blk_next (m (addr ?B))\<rparr>)
      (put_hdr (addr ?A) (\<lambda>h. h\<lparr>blk_size := blk_size h + blk_size (m (addr ?B))\<rparr>) m)"
  define m3 where "m3 = (if bs = [] then m2 else put_hdr (addr (?B + n)) (blk_prev_update (\<lambda>_. addr ?A)) m2)"
  have next0: "blk_next (m (addr ?B)) = 0 \<longleftrightarrow> bs = []"
    using B ltn a by (auto simp: addr_eq_0_iff)
  have "m2 (addr ?B) = m (addr ?B)" using ne by (simp add: m2_def put_hdr_apply)
  then have abs: "absorb (addr ?A) (addr ?B) m = m3"
    using next0 ne B by (simp add: absorb_def m3_def m2_def Let_def put_hdr_apply)
  have bs2: "seg m2 (addr ?B) (?B + n) bs 0"
    unfolding m2_def using bs lt fits around(4) by (subst seg_put_frame; (subst seg_put_frame)?) auto
  have bs3: "seg m3 (addr ?A) (?B + n) bs 0"
  proof (cases "bs = []")
    case False
    with seg_prev [OF bs2] fits show ?thesis by (simp add: m3_def)
  qed simp
  have nA: "addr (?B + n) \<noteq> addr ?A" if "bs \<noteq> []"
    using ltn [OF that] lt n25 by (subst addr_eq_iff) auto
  have "seg m3 p a (as @ (k + n, u) # bs) 0"
  proof (rule seg_rebuild)
    show "seg m3 p a as (addr ?A)"
      using around(1) lt ltn fits a unfolding m3_def m2_def
      by (cases "bs = []") (simp_all add: seg_put_frame)
    show "m3 (addr ?A) = \<lparr>blk_size = of_nat (k + n), blk_used = of_bool u,
        blk_next = (if bs = [] then 0 else addr (?A + (k + n))), blk_prev = last_addr p a as\<rparr>"
      using nA around(2) B by (auto simp: m3_def m2_def put_hdr_apply add.assoc)
    show "seg m3 (addr ?A) (?A + (k + n)) bs 0" using bs3 by (simp add: add.assoc)
  qed (use n25 in simp)
  then show ?thesis by (simp add: abs)
qed

section \<open>Allocation refines first fit over the sequence\<close>

text \<open>A successful first fit: the offset of the block taken, and the new sequence.\<close>

fun alloc_blocks :: "nat \<Rightarrow> layout \<Rightarrow> (nat \<times> layout) option" where
  "alloc_blocks t [] = None"
| "alloc_blocks t ((n, u) # xs) =
     (if \<not> u \<and> t \<le> n then Some (0, (if t + 33 \<le> n then [(t, True), (n - t, False)] else [(n, True)]) @ xs)
      else map_option (\<lambda>(off, ys). (n + off, (n, u) # ys)) (alloc_blocks t xs))"

text \<open>The bytes of a block for a request, without the wrap-around.\<close>

definition block_nat :: "nat \<Rightarrow> nat" where "block_nat k = (k + 7) div 8 * 8 + 25"

lemma and_not_7: "unat ((x :: u64) AND NOT 7) = unat x div 8 * 8"
proof -
  have "(x AND NOT (mask 3)) + take_bit 3 x = (x AND NOT (mask 3)) OR take_bit 3 x"
    by (rule disjunctive_add) (simp add: bit_simps)
  also have "\<dots> = x" by (auto simp: take_bit_eq_mask bit_eq_iff bit_simps)
  finally have "(x AND NOT (mask 3)) = x - take_bit 3 x" by (simp add: eq_diff_eq)
  moreover have "take_bit 3 x \<le> x" by (simp add: word_le_nat_alt unat_take_bit)
  ultimately have "unat (x AND NOT (mask 3)) = unat x - unat x mod 8"
    by (simp add: unat_sub unat_take_bit)
  then show ?thesis by (simp add: mask_eq_exp_minus_1 minus_mod_eq_div_mult [symmetric])
qed

lemma word_of_nat_unat_id: "of_nat (unat (w :: u64)) = w"
  by simp

lemma block_bytes_eq:
  assumes "unat sz \<le> 2 ^ 64 - 72"
  shows "block_bytes sz = of_nat (block_nat (unat sz))" "block_nat (unat sz) + 33 < 2 ^ 64"
proof -
  have "unat (sz + 7) = unat sz + 7" using assms by (simp add: unat_word_ariths)
  then have "unat ((sz + 7) AND NOT 7) = (unat sz + 7) div 8 * 8" by (simp only: and_not_7)
  then have "of_nat (unat ((sz + 7) AND NOT 7)) = (of_nat ((unat sz + 7) div 8 * 8) :: u64)" by (simp only:)
  then have "(sz + 7) AND NOT 7 = of_nat ((unat sz + 7) div 8 * 8)" by (simp only: word_of_nat_unat_id)
  then show "block_bytes sz = of_nat (block_nat (unat sz))"
    by (simp add: block_bytes_def sizeof_mem_block_def block_nat_def)
  show "block_nat (unat sz) + 33 < 2 ^ 64" using assms by (simp add: block_nat_def)
qed

lemma block_nat_gt: "0 < k \<Longrightarrow> 25 < block_nat k" "k + 25 \<le> block_nat k"
proof -
  show "k + 25 \<le> block_nat k" unfolding block_nat_def by presburger
  then show "0 < k \<Longrightarrow> 25 < block_nat k" by simp
qed

lemma fit_walk_seg:
  assumes "seg m p a xs 0" "0 < a" "a + span xs \<le> 2 ^ 64" "t < 2 ^ 64"
  shows "fit_walk m (of_nat t) (if xs = [] then 0 else addr a) =
    Some (case alloc_blocks t xs of None \<Rightarrow> 0 | Some (off, ys) \<Rightarrow> addr (a + off))"
  using assms
proof (induction xs arbitrary: p a)
  case Nil
  show ?case by (subst fit_walk.simps) simp
next
  case (Cons x xs)
  obtain n u where x: "x = (n, u)" by (cases x)
  have n: "25 < n" "m (addr a) = \<lparr>blk_size = of_nat n, blk_used = of_bool u,
      blk_next = (if xs = [] then 0 else addr (a + n)), blk_prev = p\<rparr>" "seg m (addr a) (a + n) xs 0"
    using Cons.prems(1) x by auto
  have lt: "a < 2 ^ 64" "n < 2 ^ 64" using Cons.prems(2,3) n(1) x by auto
  have a0: "addr a \<noteq> 0" using Cons.prems(2) lt(1) by (simp add: addr_eq_0_iff)
  have le: "of_nat t \<le> (of_nat n :: u64) \<longleftrightarrow> t \<le> n"
    using Cons.prems(4) lt(2) by (simp add: word_le_nat_alt unat_of_nat_u64)
  show ?case
  proof (cases "\<not> u \<and> t \<le> n")
    case True
    then show ?thesis using a0 n(2) le x by (subst fit_walk.simps) simp
  next
    case False
    have IH: "fit_walk m (of_nat t) (if xs = [] then 0 else addr (a + n)) =
        Some (case alloc_blocks t xs of None \<Rightarrow> 0 | Some (off, ys) \<Rightarrow> addr (a + n + off))"
      by (rule Cons.IH [OF n(3)]) (use Cons.prems x in auto)
    have "fit_walk m (of_nat t) (addr a) = fit_walk m (of_nat t) (if xs = [] then 0 else addr (a + n))"
      by (subst fit_walk.simps) (use False a0 n(2) le in auto)
    also note IH
    finally show ?thesis using False x by (auto split: option.splits simp: add.assoc)
  qed
qed

lemma alloc_blocks_split:
  assumes "alloc_blocks t xs = Some (off, ys)"
  obtains as n bs where "xs = as @ (n, False) # bs" "off = span as" "t \<le> n"
    "ys = as @ (if t + 33 \<le> n then [(t, True), (n - t, False)] else [(n, True)]) @ bs"
proof -
  have "\<exists>as n bs. xs = as @ (n, False) # bs \<and> off = span as \<and> t \<le> n \<and>
      ys = as @ (if t + 33 \<le> n then [(t, True), (n - t, False)] else [(n, True)]) @ bs"
    using assms
  proof (induction xs arbitrary: off ys)
    case (Cons x xs)
    obtain n u where x: "x = (n, u)" by (cases x)
    show ?case
    proof (cases "\<not> u \<and> t \<le> n")
      case True
      with Cons.prems x show ?thesis by (intro exI [of _ "[]"] exI [of _ n] exI [of _ xs]) auto
    next
      case False
      with Cons.prems x obtain off' ys' where *: "alloc_blocks t xs = Some (off', ys')" "off = n + off'"
        "ys = (n, u) # ys'" by auto
      from Cons.IH [OF *(1)] obtain as k bs where "xs = as @ (k, False) # bs" "off' = span as" "t \<le> k"
        "ys' = as @ (if t + 33 \<le> k then [(t, True), (k - t, False)] else [(k, True)]) @ bs" by blast
      then show ?thesis using x * by (intro exI [of _ "(n, u) # as"] exI [of _ k] exI [of _ bs]) auto
    qed
  qed simp
  then show ?thesis using that by blast
qed

lemma alloc_blocks_span: "alloc_blocks t xs = Some (off, ys) \<Longrightarrow> span ys = span xs \<and> ys \<noteq> []"
  by (erule alloc_blocks_split) auto

lemma addr_unat [simp]: "addr (unat w) = w"
  by (simp add: addr_def)

section \<open>Freeing refines marking and joining\<close>

fun join_right :: "nat \<Rightarrow> layout \<Rightarrow> layout" where
  "join_right n ((k, False) # bs) = (n + k, False) # bs"
| "join_right n bs = (n, False) # bs"

definition join_left :: "layout \<Rightarrow> layout \<Rightarrow> layout" where
  "join_left as ys = (if as \<noteq> [] \<and> \<not> snd (last as)
     then butlast as @ (fst (last as) + fst (hd ys), False) # tl ys else as @ ys)"

definition free_blocks :: "layout \<Rightarrow> nat \<Rightarrow> layout \<Rightarrow> layout" where
  "free_blocks as n bs = join_left as (join_right n bs)"

lemma join_right_eq: "\<exists>k cs. join_right n bs = (k, False) # cs \<and> n \<le> k \<and> k + span cs = n + span bs"
  by (cases "(n, bs)" rule: join_right.cases) auto

lemma free_blocks_span: "span (free_blocks as n bs) = span as + n + span bs" "free_blocks as n bs \<noteq> []"
proof -
  obtain k cs where ys: "join_right n bs = (k, False) # cs" "k + span cs = n + span bs"
    using join_right_eq by blast
  show "span (free_blocks as n bs) = span as + n + span bs"
  proof (cases "as = []")
    case True
    with ys show ?thesis by (simp add: free_blocks_def join_left_def)
  next
    case False
    then have "span as = span (butlast as) + fst (last as)"
      by (metis append_butlast_last_id span_simps(1) span_simps(2) span_simps(3) add.right_neutral)
    with ys show ?thesis by (simp add: free_blocks_def join_left_def)
  qed
  show "free_blocks as n bs \<noteq> []" using ys by (simp add: free_blocks_def join_left_def)
qed

lemma last_addr_snoc: "last_addr p a (as @ [(k, u)]) = addr (a + span as)"
  by (induction as arbitrary: p a) (auto simp: add.assoc)

lemma mark_free_seg:
  assumes "seg m p a (as @ (n, u) # bs) 0" "a + span (as @ (n, u) # bs) \<le> 2 ^ 64"
  shows "seg (put_hdr (addr (a + span as)) (blk_used_update (\<lambda>_. 0)) m) p a (as @ (n, False) # bs) 0"
proof -
  note around = seg_around [OF assms]
  have lt: "a + span as < 2 ^ 64" using around(4) assms(2) by simp
  show ?thesis
  proof (rule seg_rebuild)
    show "seg (put_hdr (addr (a + span as)) (blk_used_update (\<lambda>_. 0)) m) p a as (addr (a + span as))"
      using around(1) lt by (subst seg_put_frame) auto
    show "seg (put_hdr (addr (a + span as)) (blk_used_update (\<lambda>_. 0)) m) (addr (a + span as)) (a + span as + n) bs 0"
      using around(3,4) lt assms(2) by (subst seg_put_frame) auto
  qed (use around(2,4) in \<open>simp_all add: put_hdr_apply\<close>)
qed

lemma merge_next_seg:
  assumes seg: "seg m p a (as @ (n, False) # bs) 0" and fits: "a + span (as @ (n, False) # bs) \<le> 2 ^ 64"
    and a: "0 < a"
  shows "seg (merge_next (addr (a + span as)) m) p a (as @ join_right n bs) 0"
proof -
  note around = seg_around [OF seg fits]
  show ?thesis
  proof (cases bs)
    case Nil
    with around(2) seg show ?thesis by (simp add: merge_next_def)
  next
    case (Cons b cs)
    obtain k u where b: "b = (k, u)" by (cases b)
    have "addr (a + span as + n) \<noteq> 0" using around(5) Cons a by (simp add: addr_eq_0_iff)
    moreover have "m (addr (a + span as + n)) = \<lparr>blk_size = of_nat k, blk_used = of_bool u,
        blk_next = (if cs = [] then 0 else addr (a + span as + n + k)), blk_prev = addr (a + span as)\<rparr>"
      using around(3) Cons b by simp
    ultimately have "merge_next (addr (a + span as)) m =
        (if u then m else absorb (addr (a + span as)) (addr (a + span as + n)) m)"
      using around(2) Cons by (simp add: merge_next_def)
    with seg absorb_seg [of m p a as n False k u cs] fits a Cons b show ?thesis by (cases u) auto
  qed
qed

lemma merge_prev_seg:
  assumes seg: "seg m 0 a (as @ (n, False) # bs) 0" and fits: "a + span (as @ (n, False) # bs) \<le> 2 ^ 64"
    and a: "0 < a"
  shows "seg (merge_prev (addr (a + span as)) m) 0 a (join_left as ((n, False) # bs)) 0"
proof -
  note around = seg_around [OF seg fits]
  show ?thesis
  proof (cases as rule: rev_cases)
    case Nil
    with around(2) seg show ?thesis by (simp add: merge_prev_def join_left_def)
  next
    case (snoc cs c)
    obtain k u where c: "c = (k, u)" by (cases c)
    have seg': "seg m 0 a (cs @ (k, u) # (n, False) # bs) 0" and
      fits': "a + span (cs @ (k, u) # (n, False) # bs) \<le> 2 ^ 64" using seg fits snoc c by simp_all
    note prev = seg_around [OF seg' fits']
    have "a + span cs < 2 ^ 64" using prev(4) fits' by simp
    then have "addr (a + span cs) \<noteq> 0" using a by (simp add: addr_eq_0_iff)
    moreover have "blk_prev (m (addr (a + span as))) = addr (a + span cs)"
      using around(2) snoc c by (simp add: last_addr_snoc)
    ultimately have "merge_prev (addr (a + span as)) m =
        (if u then m else absorb (addr (a + span cs)) (addr (a + span cs + k)) m)"
      using prev(2) snoc c by (simp add: merge_prev_def add.assoc)
    with seg absorb_seg [OF seg' fits' a] snoc c show ?thesis by (cases u) (auto simp: join_left_def)
  qed
qed

text \<open>No two free blocks are neighbours.\<close>

definition coalesced :: "layout \<Rightarrow> bool" where
  "coalesced xs \<longleftrightarrow> successively (\<lambda>x y. snd x \<or> snd y) xs"

text \<open>The pointers to the blocks in use.\<close>

fun used_ptrs :: "nat \<Rightarrow> layout \<Rightarrow> u64 list" where
  "used_ptrs a [] = []"
| "used_ptrs a ((n, u) # xs) = (if u then [addr (a + 25)] else []) @ used_ptrs (a + n) xs"

lemma used_ptrs_append: "used_ptrs a (xs @ ys) = used_ptrs a xs @ used_ptrs (a + span xs) ys"
  by (induction xs arbitrary: a) (auto simp: add.assoc)

lemma coalesced_alloc:
  assumes "coalesced (as @ (n, False) # bs)"
  shows "coalesced (as @ (if c then [(t, True), (k, False)] else [(n, True)]) @ bs)"
  using assms by (cases bs) (auto simp: coalesced_def successively_append_iff)

lemma coalesced_join_right:
  assumes "coalesced (as @ (n, True) # bs)"
  shows "coalesced (join_right n bs)" "coalesced as"
  using assms by (cases "(n, bs)" rule: join_right.cases;
      auto simp: coalesced_def successively_append_iff successively_Cons)+

lemma coalesced_free:
  assumes "coalesced (as @ (n, True) # bs)"
  shows "coalesced (free_blocks as n bs)"
proof -
  obtain k cs where ys: "join_right n bs = (k, False) # cs" using join_right_eq by blast
  note right = coalesced_join_right [OF assms, unfolded ys]
  show ?thesis
  proof (cases as rule: rev_cases)
    case Nil
    with right(1) ys show ?thesis by (simp add: free_blocks_def join_left_def)
  next
    case (snoc ds d)
    with right ys show ?thesis
      by (cases "snd d") (auto simp: free_blocks_def join_left_def coalesced_def successively_append_iff
          successively_Cons)
  qed
qed

lemma used_ptrs_alloc:
  assumes "alloc_blocks t xs = Some (off, ys)"
  shows "mset (used_ptrs a ys) = add_mset (addr (a + off + 25)) (mset (used_ptrs a xs))"
  using assms by (rule alloc_blocks_split) (auto simp: used_ptrs_append add.assoc)

lemma used_ptrs_join_right: "used_ptrs a (join_right n bs) = used_ptrs (a + n) bs"
  by (cases "(n, bs)" rule: join_right.cases) (auto simp: add.assoc)

lemma used_ptrs_free: "used_ptrs a (free_blocks as n bs) = used_ptrs a as @ used_ptrs (a + span as + n) bs"
proof -
  obtain k cs where ys: "join_right n bs = (k, False) # cs" using join_right_eq by blast
  with used_ptrs_join_right [of _ n bs] have right: "used_ptrs (b + k) cs = used_ptrs (b + n) bs" for b
    by simp
  show ?thesis
  proof (cases as rule: rev_cases)
    case Nil
    with right ys show ?thesis by (simp add: free_blocks_def join_left_def)
  next
    case (snoc ds d)
    with right [of "a + span ds + fst d"] right [of "a + span as"] ys show ?thesis
      by (cases d; cases "snd d") (auto simp: free_blocks_def join_left_def used_ptrs_append add.assoc)
  qed
qed

lemma used_ptrs_split:
  assumes "p \<in> set (used_ptrs a xs)"
  obtains as n bs where "xs = as @ (n, True) # bs" "p = addr (a + span as + 25)"
proof -
  have "\<exists>as n bs. xs = as @ (n, True) # bs \<and> p = addr (a + span as + 25)"
    using assms
  proof (induction xs arbitrary: a)
    case (Cons x xs)
    obtain n u where x: "x = (n, u)" by (cases x)
    show ?case
    proof (cases "u \<and> p = addr (a + 25)")
      case True
      with x show ?thesis by (intro exI [of _ "[]"] exI [of _ n] exI [of _ xs]) simp
    next
      case False
      with Cons.prems x have "p \<in> set (used_ptrs (a + n) xs)" by (auto split: if_splits)
      from Cons.IH [OF this] obtain as k bs where "xs = as @ (k, True) # bs" "p = addr (a + n + span as + 25)" by blast
      with x show ?thesis by (intro exI [of _ "(n, u) # as"] exI [of _ k] exI [of _ bs]) (simp add: add.assoc)
    qed
  qed simp
  then show ?thesis using that by blast
qed

lemma validate_walk_seg:
  assumes "seg m p a xs 0" "base \<noteq> 0" "unat base \<le> a"
    "a + span xs = unat base + unat sz" "a + span xs \<le> 2 ^ 64"
    "p = 0 \<or> xs = [] \<or> blk_next (m p) = addr a"
  shows "validate_walk base sz m (of_nat (a - unat base)) (if xs = [] then 0 else addr a) = Some 0"
  using assms
proof (induction xs arbitrary: p a)
  case Nil
  show ?case by (subst validate_walk.simps) simp
next
  case (Cons x xs)
  obtain n u where x: "x = (n, u)" by (cases x)
  let ?base = "unat base"
  have base: "0 < ?base" using Cons.prems(2) by (simp add: unat_gt_0)
  have n: "25 < n" "m (addr a) = \<lparr>blk_size = of_nat n, blk_used = of_bool u,
      blk_next = (if xs = [] then 0 else addr (a + n)), blk_prev = p\<rparr>" "seg m (addr a) (a + n) xs 0"
    using Cons.prems(1) x by auto
  have lt: "a < 2 ^ 64" "n < 2 ^ 64" "a - ?base + n < 2 ^ 64"
    using Cons.prems(3,5) base n(1) x by auto
  have a0: "addr a \<noteq> 0" using Cons.prems(3) base lt(1) by (simp add: addr_eq_0_iff)
  have "base + of_nat (a - ?base) = addr ?base + of_nat (a - ?base)" by simp
  also have "\<dots> = addr a" using Cons.prems(3) by (simp only: addr_add) simp
  finally have pos: "base + of_nat (a - ?base) = addr a" .
  have big: "\<not> of_nat n < sizeof_mem_block"
    using n(1) lt(2) by (simp add: word_less_nat_alt unat_of_nat_u64 sizeof_mem_block_def)
  have sum: "of_nat (a - ?base) + of_nat n = (of_nat (a + n - ?base) :: u64)"
    using Cons.prems(3) by (metis of_nat_add Nat.add_diff_assoc2)
  have "unat (of_nat (a + n - ?base) :: u64) = a + n - ?base"
    by (rule unat_of_nat_u64) (use lt(3) Cons.prems(3) in simp)
  moreover have "a + n - ?base \<le> unat sz" using Cons.prems(3,4) x by simp
  ultimately have fits: "\<not> of_nat (a - ?base) + of_nat n > sz"
    by (simp only: sum word_less_nat_alt not_less)
  have nxt: "xs \<noteq> [] \<Longrightarrow> blk_prev (m (addr (a + n))) = addr a"
    using n(3) by (cases xs) auto
  have "check_block base sz m (of_nat (a - ?base)) (addr a) = 0"
    unfolding check_block_def using pos n(2) big fits nxt Cons.prems(6) by (auto simp: less_le_not_le)
  then have "validate_walk base sz m (of_nat (a - ?base)) (addr a) =
      validate_walk base sz m (of_nat (a + n - ?base)) (if xs = [] then 0 else addr (a + n))"
    using a0 n(2) sum by (subst validate_walk.simps) simp
  also have "\<dots> = Some 0"
    by (rule Cons.IH [OF n(3)]) (use Cons.prems n(2) x in auto)
  finally show ?case by simp
qed

definition span_if :: "bool \<Rightarrow> layout \<Rightarrow> nat" where
  "span_if used xs = span (filter (\<lambda>x. snd x = used) xs)"

lemma span_if_sum: "span xs = span_if True xs + span_if False xs"
  by (induction xs) (auto simp: span_if_def)

lemma stats_walk_seg:
  assumes "seg m p a xs 0" "0 < a" "a + span xs \<le> 2 ^ 64"
  shows "stats_walk m (tot, us, fr) (if xs = [] then 0 else addr a) =
    Some (tot + of_nat (span xs), us + of_nat (span_if True xs), fr + of_nat (span_if False xs))"
  using assms
proof (induction xs arbitrary: p a tot us fr)
  case Nil
  show ?case by (subst stats_walk.simps) (simp add: span_if_def)
next
  case (Cons x xs)
  obtain n u where x: "x = (n, u)" by (cases x)
  have n: "25 < n" "m (addr a) = \<lparr>blk_size = of_nat n, blk_used = of_bool u,
      blk_next = (if xs = [] then 0 else addr (a + n)), blk_prev = p\<rparr>" "seg m (addr a) (a + n) xs 0"
    using Cons.prems(1) x by auto
  have "addr a \<noteq> 0" using Cons.prems(2,3) n(1) x by (simp add: addr_eq_0_iff)
  moreover have IH: "stats_walk m (tot, us, fr) (if xs = [] then 0 else addr (a + n)) =
    Some (tot + of_nat (span xs), us + of_nat (span_if True xs), fr + of_nat (span_if False xs))" for tot us fr
    by (rule Cons.IH [OF n(3)]) (use Cons.prems x in auto)
  ultimately show ?case
    using n(2) x by (subst stats_walk.simps) (cases u; simp add: IH span_if_def add.assoc)
qed

lemma alloc_free_blocks:
  assumes some: "alloc_blocks t xs = Some (off, ys)" and co: "coalesced xs"
  obtains as n bs where "ys = as @ (n, True) # bs" "off = span as" "free_blocks as n bs = xs"
proof -
  from alloc_blocks_split [OF some] obtain as n bs where split: "xs = as @ (n, False) # bs" "off = span as" "t \<le> n"
    "ys = as @ (if t + 33 \<le> n then [(t, True), (n - t, False)] else [(n, True)]) @ bs" .
  have left: "join_left as ((n, False) # bs) = xs"
    using co split(1) by (auto simp: join_left_def coalesced_def successively_append_iff)
  show thesis
  proof (cases "t + 33 \<le> n")
    case True
    show thesis
      by (rule that [of as t "(n - t, False) # bs"]) (use True split left in \<open>auto simp: free_blocks_def\<close>)
  next
    case False
    have "join_right n bs = (n, False) # bs"
      using co split(1) by (cases bs) (auto simp: coalesced_def successively_append_iff)
    with False split left that [of as n bs] show thesis by (simp add: free_blocks_def)
  qed
qed

text \<open>A request within 7 bytes of \<open>2^64\<close> is served with a bare header.\<close>

lemma block_bytes_wraps:
  assumes "2 ^ 64 - 7 \<le> unat sz"
  shows "block_bytes sz = sizeof_mem_block"
proof -
  have lt: "unat sz < 2 ^ 64" using unsigned_less [of sz] by simp
  have "(unat sz + 7) mod 2 ^ 64 = (unat sz + 7 - 2 ^ 64) mod 2 ^ 64"
    by (rule le_mod_geq) (use assms in simp)
  also have "\<dots> \<le> unat sz + 7 - 2 ^ 64" by (rule mod_less_eq_dividend)
  also have "\<dots> < 8" using lt by simp
  finally have "unat (sz + 7) < 8" by (simp add: unat_word_ariths)
  then have "unat ((sz + 7) AND NOT 7) = 0" by (simp only: and_not_7) simp
  then have "(sz + 7) AND NOT 7 = 0" by (simp only: unat_eq_zero)
  then show ?thesis by (simp add: block_bytes_def)
qed

section \<open>Allocating and freeing in the store\<close>

lemma first_fit_take:
  assumes seg: "seg m 0 a xs 0" "xs \<noteq> []" and a: "0 < a" "a + span xs \<le> 2 ^ 64"
    and sz: "0 < unat sz" "unat sz \<le> 2 ^ 64 - 72"
  shows "case alloc_blocks (block_nat (unat sz)) xs of
      None \<Rightarrow> fit_walk m (block_bytes sz) (addr a) = Some 0
    | Some (off, ys) \<Rightarrow> fit_walk m (block_bytes sz) (addr a) = Some (addr (a + off)) \<and> addr (a + off) \<noteq> 0 \<and>
        seg (take_block (addr (a + off)) (block_bytes sz) m) 0 a ys 0"
proof -
  let ?t = "block_nat (unat sz)"
  note bytes = block_bytes_eq [OF sz(2)]
  have ff: "fit_walk m (block_bytes sz) (addr a) =
      Some (case alloc_blocks ?t xs of None \<Rightarrow> 0 | Some (off, ys) \<Rightarrow> addr (a + off))"
    using fit_walk_seg [OF seg(1) a, of ?t] bytes seg(2) by simp
  show ?thesis
  proof (cases "alloc_blocks ?t xs")
    case None
    with ff show ?thesis by simp
  next
    case (Some r)
    then obtain off ys where some: "alloc_blocks ?t xs = Some (off, ys)" by (cases r) auto
    from alloc_blocks_split [OF some] obtain as n bs where split: "xs = as @ (n, False) # bs" "off = span as"
      "?t \<le> n" "ys = as @ (if ?t + 33 \<le> n then [(?t, True), (n - ?t, False)] else [(n, True)]) @ bs" .
    have "seg (take_block (addr (a + off)) (block_bytes sz) m) 0 a ys 0"
      unfolding split(2,4) bytes(1)
      by (rule take_block_seg) (use a seg(1) split bytes(2) block_nat_gt(1) [OF sz(1)] in auto)
    moreover have "addr (a + off) \<noteq> 0"
      using a split block_nat_gt(1) [OF sz(1)] by (simp add: addr_eq_0_iff)
    ultimately show ?thesis using ff some by simp
  qed
qed

definition free_block :: "u64 \<Rightarrow> (u64 \<Rightarrow> mem_block) \<Rightarrow> (u64 \<Rightarrow> mem_block)" where
  "free_block b m = merge_prev b (merge_next b (put_hdr b (blk_used_update (\<lambda>_. 0)) m))"

lemma free_block_seg:
  assumes seg: "seg m 0 a (as @ (n, u) # bs) 0" and a: "0 < a" "a + span (as @ (n, u) # bs) \<le> 2 ^ 64"
  shows "seg (free_block (addr (a + span as)) m) 0 a (free_blocks as n bs) 0"
proof -
  let ?b = "addr (a + span as)"
  have "seg (put_hdr ?b (blk_used_update (\<lambda>_. 0)) m) 0 a (as @ (n, False) # bs) 0"
    by (rule mark_free_seg [OF seg a(2)])
  then have next_ok: "seg (merge_next ?b (put_hdr ?b (blk_used_update (\<lambda>_. 0)) m)) 0 a (as @ join_right n bs) 0"
    by (rule merge_next_seg) (use a in auto)
  obtain k cs where ys: "join_right n bs = (k, False) # cs" "k + span cs = n + span bs"
    using join_right_eq by blast
  show ?thesis
    unfolding free_block_def free_blocks_def ys(1)
    by (rule merge_prev_seg) (use next_ok ys a in auto)
qed

section \<open>Every history of such a heap\<close>

text \<open>
  The histories of an allocator: a fresh heap, then allocations of a size that does not wrap, and
  frees of a pointer handed out and not yet freed.
\<close>

inductive alloc_history ::
  "('s \<Rightarrow> bool) \<Rightarrow> (u64 \<Rightarrow> u64 \<Rightarrow> 's \<Rightarrow> (u64 \<times> 's) outcome) \<Rightarrow> (u64 \<Rightarrow> 's \<Rightarrow> (unit \<times> 's) outcome) \<Rightarrow>
   's \<Rightarrow> u64 list \<Rightarrow> bool"
  for fresh alloc free where
  start: "fresh s \<Longrightarrow> alloc_history fresh alloc free s []"
| alloc: "alloc_history fresh alloc free s ps \<Longrightarrow> unat sz \<le> 2 ^ 64 - 72 \<Longrightarrow> alloc sz al s = Ret (p, t) \<Longrightarrow>
    alloc_history fresh alloc free t (if p = 0 then ps else p # ps)"
| free: "alloc_history fresh alloc free s ps \<Longrightarrow> p \<in> set ps \<Longrightarrow> free p s = Ret ((), t) \<Longrightarrow>
    alloc_history fresh alloc free t (remove1 p ps)"

text \<open>
  What a heap promises of its state: \<open>rep s xs\<close> says that the heap of \<open>s\<close>, which starts at \<open>base s\<close>,
  holds the blocks \<open>xs\<close>.
\<close>

locale block_allocator =
  fixes fresh :: "'s \<Rightarrow> bool"
    and rep :: "'s \<Rightarrow> layout \<Rightarrow> bool"
    and base :: "'s \<Rightarrow> nat"
    and alloc :: "u64 \<Rightarrow> u64 \<Rightarrow> 's \<Rightarrow> (u64 \<times> 's) outcome"
    and free :: "u64 \<Rightarrow> 's \<Rightarrow> (unit \<times> 's) outcome"
  assumes fresh_rep: "fresh s \<Longrightarrow> \<exists>n. rep s [(n, False)]"
    and rep_bounds: "rep s xs \<Longrightarrow> 0 < base s \<and> base s + span xs \<le> 2 ^ 64"
    and alloc_zero: "alloc 0 al s = Ret (0, s)"
    and alloc_rep: "rep s xs \<Longrightarrow> 0 < unat sz \<Longrightarrow> unat sz \<le> 2 ^ 64 - 72 \<Longrightarrow>
      case alloc_blocks (block_nat (unat sz)) xs of
        None \<Rightarrow> alloc sz al s = Ret (0, s)
      | Some (off, ys) \<Rightarrow> \<exists>t. alloc sz al s = Ret (addr (base s + off + 25), t) \<and> rep t ys \<and> base t = base s"
    and free_rep: "rep s (as @ (n, True) # bs) \<Longrightarrow>
      \<exists>t. free (addr (base s + span as + 25)) s = Ret ((), t) \<and> rep t (free_blocks as n bs) \<and> base t = base s"
begin

definition good :: "'s \<Rightarrow> u64 list \<Rightarrow> layout \<Rightarrow> bool" where
  "good s ps xs \<longleftrightarrow> rep s xs \<and> coalesced xs \<and> mset ps = mset (used_ptrs (base s) xs)"

lemma alloc_good:
  assumes good: "good s ps xs" and sz: "unat sz \<le> 2 ^ 64 - 72" and eq: "alloc sz al s = Ret (p, t)"
  shows "\<exists>ys. good t (if p = 0 then ps else p # ps) ys"
proof (cases "sz = 0")
  case True
  with eq good show ?thesis by (auto simp: alloc_zero)
next
  case False
  then have pos: "0 < unat sz" by (simp add: unat_gt_0)
  have rep: "rep s xs" using good by (simp add: good_def)
  note ref = alloc_rep [OF rep pos sz, of al]
  show ?thesis
  proof (cases "alloc_blocks (block_nat (unat sz)) xs")
    case None
    with ref eq good show ?thesis by auto
  next
    case (Some r)
    then obtain off ys where some: "alloc_blocks (block_nat (unat sz)) xs = Some (off, ys)" by (cases r) auto
    with ref eq have t: "p = addr (base s + off + 25)" "rep t ys" "base t = base s" by auto
    from alloc_blocks_split [OF some] obtain as n bs where split: "xs = as @ (n, False) # bs" "off = span as"
      "block_nat (unat sz) \<le> n" "ys = as @ (if block_nat (unat sz) + 33 \<le> n
         then [(block_nat (unat sz), True), (n - block_nat (unat sz), False)] else [(n, True)]) @ bs" .
    have "p \<noteq> 0"
      using rep_bounds [OF rep] split t(1) block_nat_gt(2) [of "unat sz"] pos by (simp add: addr_eq_0_iff)
    moreover have "coalesced ys" using good split(1,4) coalesced_alloc by (simp only: good_def)
    ultimately have "good t (p # ps) ys"
      using t good used_ptrs_alloc [OF some] by (simp add: good_def)
    with \<open>p \<noteq> 0\<close> show ?thesis by auto
  qed
qed

lemma free_good:
  assumes good: "good s ps xs" and p: "p \<in> set ps" and eq: "free p s = Ret ((), t)"
  shows "\<exists>ys. good t (remove1 p ps) ys"
proof -
  have "p \<in> set (used_ptrs (base s) xs)" using good p by (metis good_def set_mset_mset)
  then obtain as n bs where xs: "xs = as @ (n, True) # bs" "p = addr (base s + span as + 25)"
    by (rule used_ptrs_split)
  have "rep s (as @ (n, True) # bs)" using good xs(1) by (simp add: good_def)
  from free_rep [OF this] eq xs(2) have t: "rep t (free_blocks as n bs)" "base t = base s" by auto
  have "mset (remove1 p ps) = mset (used_ptrs (base s) (free_blocks as n bs))"
    using good xs by (simp add: good_def used_ptrs_free used_ptrs_append)
  moreover have "coalesced (free_blocks as n bs)"
    using good xs(1) coalesced_free by (simp add: good_def)
  ultimately show ?thesis using t by (auto simp: good_def)
qed

lemma history_good: "alloc_history fresh alloc free s ps \<Longrightarrow> \<exists>xs. good s ps xs"
proof (induction rule: alloc_history.induct)
  case (start s)
  then obtain n where "rep s [(n, False)]" using fresh_rep by blast
  then have "good s [] [(n, False)]" by (simp add: good_def coalesced_def)
  then show ?case by blast
next
  case (alloc s ps sz al p t)
  then show ?case by (blast intro: alloc_good)
next
  case (free s ps p t)
  then show ?case by (blast intro: free_good)
qed

lemma alloc_free_restores:
  assumes rep: "rep s xs" and co: "coalesced xs" and sz: "0 < unat sz" "unat sz \<le> 2 ^ 64 - 72"
    and eq: "alloc sz al s = Ret (p, t)" and p: "p \<noteq> 0"
  shows "\<exists>u. free p t = Ret ((), u) \<and> rep u xs"
proof -
  note ref = alloc_rep [OF rep sz, of al]
  obtain off ys where some: "alloc_blocks (block_nat (unat sz)) xs = Some (off, ys)"
    and t: "p = addr (base s + off + 25)" "rep t ys" "base t = base s"
    using ref eq p by (cases "alloc_blocks (block_nat (unat sz)) xs") auto
  from alloc_free_blocks [OF some co] obtain as n bs where ys: "ys = as @ (n, True) # bs" "off = span as"
    "free_blocks as n bs = xs" .
  with free_rep [of t as n bs] t show ?thesis by auto
qed

end

end
