(* ===== verification/C1Heap.thy ===== *)
theory C1Heap
  imports C1Isolation Blocks
begin

text \<open>
  The heap of a Core-1 service (\<open>Core-1/include/physical_mem.h\<close>, \<open>Core-1/mm/physical_mem.c\<close>): a
  block list of theory \<open>Blocks\<close> inside the region it manages, under a lock. \<open>hdr\<close> holds the header at an
  address; a walk along the list that never ends is a \<open>Hang\<close>.
\<close>

section \<open>Data\<close>

record heap =
  heap_base :: u64
  heap_size :: u64
  first_block :: u64
  heap_lock_word :: u64

record c1_heap_state = c1_iso_state +
  g_heap :: heap
  hdr :: "u64 \<Rightarrow> mem_block"

definition heap_lock :: "'z c1_heap_state_scheme \<Rightarrow> u64" where "heap_lock s = heap_lock_word (g_heap s)"

definition heap_lock_update :: "(u64 \<Rightarrow> u64) \<Rightarrow> 'z c1_heap_state_scheme \<Rightarrow> 'z c1_heap_state_scheme" where
  "heap_lock_update f = g_heap_update (heap_lock_word_update f)"

definition heap_locked ::
  "('z c1_heap_state_scheme \<Rightarrow> ('r \<times> 'z c1_heap_state_scheme) outcome) \<Rightarrow>
   'z c1_heap_state_scheme \<Rightarrow> ('r \<times> 'z c1_heap_state_scheme) outcome" where
  "heap_locked = locked heap_lock heap_lock_update"

interpretation heap_spin: spin_locked heap_lock heap_lock_update
  by unfold_locales (simp add: heap_lock_def heap_lock_update_def)

section \<open>Operations\<close>

definition pmm_init :: "u64 \<Rightarrow> u64 \<Rightarrow> 'z c1_heap_state_scheme \<Rightarrow> (int \<times> 'z c1_heap_state_scheme) outcome" where
  "pmm_init base sz s =
     (if sz < sizeof_mem_block * 2 then Ret (-1, s)
      else Ret (0, s\<lparr>g_heap := \<lparr>heap_base = base, heap_size = sz, first_block = base, heap_lock_word = 0\<rparr>,
        hdr := (hdr s)(base := \<lparr>blk_size = sz, blk_used = 0, blk_next = 0, blk_prev = 0\<rparr>)\<rparr>))"

definition pmm_alloc_aligned ::
  "u64 \<Rightarrow> u64 \<Rightarrow> 'z c1_heap_state_scheme \<Rightarrow> (u64 \<times> 'z c1_heap_state_scheme) outcome" where
  "pmm_alloc_aligned sz alignment s =
     (if sz = 0 then Ret (0, s)
      else heap_locked (\<lambda>s. bindR (walk (fit_walk (hdr s) (block_bytes sz) (first_block (g_heap s)))) (\<lambda>b.
        if b = 0 then Ret (0, s)
        else Ret (b + sizeof_mem_block, s\<lparr>hdr := take_block b (block_bytes sz) (hdr s)\<rparr>))) s)"

definition pmm_alloc :: "u64 \<Rightarrow> 'z c1_heap_state_scheme \<Rightarrow> (u64 \<times> 'z c1_heap_state_scheme) outcome" where
  "pmm_alloc sz = pmm_alloc_aligned sz 8"

definition pmm_free :: "u64 \<Rightarrow> 'z c1_heap_state_scheme \<Rightarrow> (unit \<times> 'z c1_heap_state_scheme) outcome" where
  "pmm_free p s =
     (if p = 0 then Ret ((), s)
      else let b = p - sizeof_mem_block in
        heap_locked (\<lambda>s. Ret ((), s\<lparr>hdr := free_block b (hdr s)\<rparr>)) s)"

definition pmm_stats :: "'z c1_heap_state_scheme \<Rightarrow> ((u64 \<times> u64 \<times> u64) \<times> 'z c1_heap_state_scheme) outcome" where
  "pmm_stats = heap_locked (\<lambda>s.
     bindR (walk (stats_walk (hdr s) (0, 0, 0) (first_block (g_heap s)))) (\<lambda>sums. Ret (sums, s)))"

definition pmm_validate :: "'z c1_heap_state_scheme \<Rightarrow> (int \<times> 'z c1_heap_state_scheme) outcome" where
  "pmm_validate = heap_locked (\<lambda>s.
     bindR (walk (validate_walk (heap_base (g_heap s)) (heap_size (g_heap s)) (hdr s) 0 (first_block (g_heap s)))) (\<lambda>v. Ret (v, s)))"

definition pmm_dump :: "'z c1_heap_state_scheme \<Rightarrow> (unit \<times> 'z c1_heap_state_scheme) outcome" where
  "pmm_dump s = bindR (pmm_stats s) (\<lambda>(sums, s). heap_locked (\<lambda>s.
     bindR (walk (count_walk (hdr s) 0 (first_block (g_heap s)))) (\<lambda>n. Ret ((), s))) s)"

definition heap_rep :: "'z c1_heap_state_scheme \<Rightarrow> layout \<Rightarrow> bool" where
  "heap_rep s xs \<longleftrightarrow> heap_lock s = 0 \<and> xs \<noteq> [] \<and> first_block (g_heap s) = heap_base (g_heap s) \<and>
     heap_base (g_heap s) \<noteq> 0 \<and> span xs = unat (heap_size (g_heap s)) \<and>
     unat (heap_base (g_heap s)) + span xs \<le> 2 ^ 64 \<and> seg (hdr s) 0 (unat (heap_base (g_heap s))) xs 0"

lemma heap_locked_free:
  "heap_lock s = 0 \<Longrightarrow>
   heap_locked body s = bindR (body (heap_lock_update (\<lambda>_. 1) s)) (\<lambda>(r, t). Ret (r, heap_lock_update (\<lambda>_. 0) t))"
  by (simp add: heap_locked_def locked_eq)

lemma heap_lock_update_same [simp]: "heap_lock s = 0 \<Longrightarrow> heap_lock_update (\<lambda>_. 0) s = s"
  by (cases s rule: c1_heap_state.cases_scheme; cases "g_heap s" rule: heap.cases_scheme)
    (auto simp: heap_lock_update_def heap_lock_def)

lemma heap_lock_update_sel [simp]:
  "hdr (heap_lock_update f s) = hdr s" "first_block (g_heap (heap_lock_update f s)) = first_block (g_heap s)"
  "heap_base (g_heap (heap_lock_update f s)) = heap_base (g_heap s)"
  "heap_size (g_heap (heap_lock_update f s)) = heap_size (g_heap s)"
  "heap_lock_update f (heap_lock_update g s) = heap_lock_update (f \<circ> g) s"
  "(heap_lock_update f s)\<lparr>hdr := m\<rparr> = heap_lock_update f (s\<lparr>hdr := m\<rparr>)"
  "heap_lock (s\<lparr>hdr := m\<rparr>) = heap_lock s"
  by (simp_all add: heap_lock_update_def heap_lock_def comp_def)

lemma pmm_alloc_refines:
  assumes rep: "heap_rep s xs" and sz: "0 < unat sz" "unat sz \<le> 2 ^ 64 - 72"
  shows "case alloc_blocks (block_nat (unat sz)) xs of
      None \<Rightarrow> pmm_alloc_aligned sz al s = Ret (0, s)
    | Some (off, ys) \<Rightarrow> \<exists>m. pmm_alloc_aligned sz al s =
        Ret (addr (unat (heap_base (g_heap s)) + off + 25), s\<lparr>hdr := m\<rparr>) \<and> heap_rep (s\<lparr>hdr := m\<rparr>) ys"
proof -
  let ?base = "heap_base (g_heap s)"
  have r: "heap_lock s = 0" "xs \<noteq> []" "first_block (g_heap s) = ?base" "?base \<noteq> 0"
    "unat ?base + span xs \<le> 2 ^ 64" "seg (hdr s) 0 (unat ?base) xs 0"
    using rep by (auto simp: heap_rep_def)
  have base0: "0 < unat ?base" using r(4) by (simp add: unat_gt_0)
  have sz0: "sz \<noteq> 0" using sz(1) by auto
  note take = first_fit_take [OF r(6,2) base0 r(5) sz]
  show ?thesis
  proof (cases "alloc_blocks (block_nat (unat sz)) xs")
    case None
    with take sz0 r(1,3) show ?thesis
      by (simp add: pmm_alloc_aligned_def heap_locked_free walk_def comp_def)
  next
    case (Some q)
    then obtain off ys where some: "alloc_blocks (block_nat (unat sz)) xs = Some (off, ys)" by (cases q) auto
    let ?m = "take_block (addr (unat ?base + off)) (block_bytes sz) (hdr s)"
    have "heap_rep (s\<lparr>hdr := ?m\<rparr>) ys"
      using rep take some alloc_blocks_span [OF some] by (simp add: heap_rep_def)
    moreover have "pmm_alloc_aligned sz al s = Ret (addr (unat ?base + off) + sizeof_mem_block, s\<lparr>hdr := ?m\<rparr>)"
      using some take sz0 r(1,3) by (simp add: pmm_alloc_aligned_def heap_locked_free walk_def comp_def)
    then have "pmm_alloc_aligned sz al s = Ret (addr (unat ?base + off + 25), s\<lparr>hdr := ?m\<rparr>)"
      using addr_add [of "unat ?base + off" 25] by (simp add: sizeof_mem_block_def)
    ultimately show ?thesis unfolding some by auto
  qed
qed

lemma pmm_free_refines:
  assumes rep: "heap_rep s (as @ (n, u) # bs)"
  shows "\<exists>m. pmm_free (addr (unat (heap_base (g_heap s)) + span as + 25)) s = Ret ((), s\<lparr>hdr := m\<rparr>) \<and>
    heap_rep (s\<lparr>hdr := m\<rparr>) (free_blocks as n bs)"
proof -
  let ?a = "unat (heap_base (g_heap s))"
  have r: "heap_lock s = 0" "heap_base (g_heap s) \<noteq> 0" "?a + span (as @ (n, u) # bs) \<le> 2 ^ 64"
    "seg (hdr s) 0 ?a (as @ (n, u) # bs) 0" using rep by (auto simp: heap_rep_def)
  have a: "0 < ?a" using r(2) by (simp add: unat_gt_0)
  have p0: "addr (?a + span as + 25) \<noteq> 0"
    using r(3) seg_around(4) [OF r(4,3)] by (simp add: addr_eq_0_iff)
  have b: "addr (?a + span as + 25) - sizeof_mem_block = addr (?a + span as)"
    using addr_add [of "?a + span as" 25] by (simp add: sizeof_mem_block_def algebra_simps)
  let ?m = "free_block (addr (?a + span as)) (hdr s)"
  have "heap_rep (s\<lparr>hdr := ?m\<rparr>) (free_blocks as n bs)"
    using rep free_block_seg [OF r(4) a r(3)] free_blocks_span [of as n bs] by (simp add: heap_rep_def)
  moreover have "pmm_free (addr (?a + span as + 25)) s = Ret ((), s\<lparr>hdr := ?m\<rparr>)"
    using p0 r(1) by (simp add: pmm_free_def heap_locked_free b comp_def Let_def)
  ultimately show ?thesis by blast
qed

text \<open>A heap as \<open>pmm_init\<close> leaves it, over a region that does not wrap.\<close>

definition fresh_heap :: "c1_heap_state \<Rightarrow> bool" where
  "fresh_heap t \<longleftrightarrow> (\<exists>s base sz. base \<noteq> 0 \<and> unat base + unat sz \<le> 2 ^ 64 \<and> pmm_init base sz s = Ret (0, t))"

lemma fresh_heap_rep: "fresh_heap t \<Longrightarrow> \<exists>n. heap_rep t [(n, False)]"
proof -
  assume "fresh_heap t"
  then obtain s base sz where t: "base \<noteq> 0" "unat base + unat sz \<le> 2 ^ 64" "pmm_init base sz s = Ret (0, t)"
    by (auto simp: fresh_heap_def)
  then have "\<not> sz < sizeof_mem_block * 2" by (auto simp: pmm_init_def split: if_splits)
  then have "25 < unat sz" by (simp add: sizeof_mem_block_def word_less_nat_alt)
  with t have "heap_rep t [(unat sz, False)]"
    by (auto simp: pmm_init_def heap_rep_def heap_lock_def split: if_splits)
  then show ?thesis by blast
qed

interpretation c1_heap: block_allocator fresh_heap heap_rep "\<lambda>s. unat (heap_base (g_heap s))" pmm_alloc_aligned pmm_free
proof unfold_locales
  fix s :: c1_heap_state and xs and sz al :: u64
  assume "heap_rep s xs" "0 < unat sz" "unat sz \<le> 2 ^ 64 - 72"
  from pmm_alloc_refines [OF this, of al] show "case alloc_blocks (block_nat (unat sz)) xs of
      None \<Rightarrow> pmm_alloc_aligned sz al s = Ret (0, s)
    | Some (off, ys) \<Rightarrow> \<exists>t. pmm_alloc_aligned sz al s = Ret (addr (unat (heap_base (g_heap s)) + off + 25), t) \<and>
        heap_rep t ys \<and> unat (heap_base (g_heap t)) = unat (heap_base (g_heap s))"
    by (cases "alloc_blocks (block_nat (unat sz)) xs") auto
next
  fix s :: c1_heap_state and as n bs
  assume "heap_rep s (as @ (n, True) # bs)"
  from pmm_free_refines [OF this] show "\<exists>t. pmm_free (addr (unat (heap_base (g_heap s)) + span as + 25)) s = Ret ((), t) \<and>
      heap_rep t (free_blocks as n bs) \<and> unat (heap_base (g_heap t)) = unat (heap_base (g_heap s))"
    by auto
next
  fix s :: c1_heap_state and xs
  assume "heap_rep s xs"
  then show "0 < unat (heap_base (g_heap s)) \<and> unat (heap_base (g_heap s)) + span xs \<le> 2 ^ 64"
    by (simp add: heap_rep_def unat_gt_0)
qed (simp_all add: fresh_heap_rep pmm_alloc_aligned_def)

text \<open>The histories of the heap of Core-1, with the pointers that are live.\<close>

definition heap_history :: "c1_heap_state \<Rightarrow> u64 list \<Rightarrow> bool" where
  "heap_history = alloc_history fresh_heap pmm_alloc_aligned pmm_free"

section \<open>Validation and statistics\<close>

lemma heap_rep_validate:
  assumes "heap_rep s xs"
  shows "pmm_validate s = Ret (0, s)"
proof -
  have "validate_walk (heap_base (g_heap s)) (heap_size (g_heap s)) (hdr s) 0 (heap_base (g_heap s)) = Some 0"
    using assms validate_walk_seg [of "hdr s" 0 "unat (heap_base (g_heap s))" xs "heap_base (g_heap s)" "heap_size (g_heap s)"]
    by (auto simp: heap_rep_def)
  with assms show ?thesis
    by (simp add: pmm_validate_def heap_locked_free heap_rep_def walk_def comp_def)
qed

lemma heap_rep_stats:
  assumes "heap_rep s xs"
  shows "pmm_stats s = Ret ((heap_size (g_heap s), of_nat (span_if True xs), of_nat (span_if False xs)), s)"
proof -
  have "0 < unat (heap_base (g_heap s))" using assms by (simp add: heap_rep_def unat_gt_0)
  then have "stats_walk (hdr s) (0, 0, 0) (heap_base (g_heap s)) =
      Some (heap_size (g_heap s), of_nat (span_if True xs), of_nat (span_if False xs))"
    using assms stats_walk_seg [of "hdr s" 0 "unat (heap_base (g_heap s))" xs 0 0 0] by (simp add: heap_rep_def)
  with assms show ?thesis by (simp add: pmm_stats_def heap_locked_free heap_rep_def walk_def comp_def)
qed

section \<open>Sizes that wrap\<close>

lemma heap_huge_alloc:
  assumes rep: "heap_rep s ((n, False) # xs)" and n: "58 \<le> n" and sz: "2 ^ 64 - 7 \<le> unat sz"
  shows "\<exists>m. pmm_alloc_aligned sz al s = Ret (heap_base (g_heap s) + 25, s\<lparr>hdr := m\<rparr>) \<and>
    blk_size (m (heap_base (g_heap s))) = 25"
proof -
  let ?b = "heap_base (g_heap s)"
  have r: "heap_lock s = 0" "?b \<noteq> 0" "first_block (g_heap s) = ?b" "unat ?b + (n + span xs) \<le> 2 ^ 64"
    "hdr s ?b = \<lparr>blk_size = of_nat n, blk_used = 0, blk_next = (if xs = [] then 0 else addr (unat ?b + n)), blk_prev = 0\<rparr>"
    using rep by (auto simp: heap_rep_def)
  have "0 < unat ?b" using r(2) by (simp add: unat_gt_0)
  then have un: "unat (of_nat n :: u64) = n" by (intro unat_of_nat_u64) (use r(4) in simp)
  have sz0: "sz \<noteq> 0" using sz by auto
  have "fit_walk (hdr s) 25 ?b = Some ?b"
    using r(2,5) n un by (subst fit_walk.simps) (simp add: word_le_nat_alt)
  moreover have "blk_size (take_block ?b 25 (hdr s) ?b) = 25"
    using r(5) n un by (simp add: take_block_def split_block_def put_hdr_def Let_def sizeof_mem_block_def word_le_nat_alt)
  moreover from calculation(1) have "pmm_alloc_aligned sz al s =
      Ret (?b + 25, s\<lparr>hdr := take_block ?b 25 (hdr s)\<rparr>)"
    using r sz0 block_bytes_wraps [OF sz]
    by (simp add: pmm_alloc_aligned_def heap_locked_free walk_def comp_def sizeof_mem_block_def)
  ultimately show ?thesis by blast
qed

section \<open>Properties\<close>

definition sample_heap :: c1_heap_state where
  "sample_heap = \<lparr>g_isolation = \<lparr>ctx_service_id = 1, ctx_domain_id = 1, regions = [], num_regions = 0,
      ctx_lock = 0, iso_enabled = 0\<rparr>, phys_mem = (\<lambda>_. 0),
    g_heap = \<lparr>heap_base = 0x1000, heap_size = 0x1000, first_block = 0x1000, heap_lock_word = 0\<rparr>,
    hdr = (\<lambda>_. \<lparr>blk_size = 0x1000, blk_used = 0, blk_next = 0, blk_prev = 0\<rparr>)\<rparr>"

lemma sample_heap_rep: "heap_rep sample_heap [(4096, False)]"
  by (simp add: heap_rep_def sample_heap_def heap_lock_def)

text \<open>
  C19. The allocator of Core-1 refines first fit over the sequence of blocks: on a well-formed heap a
  request of up to \<open>2^64 - 72\<close> bytes returns \<open>NULL\<close> and changes nothing when no free block is
  large enough, and otherwise returns the address behind the header of the first one that is,
  with the heap again well formed and holding the sequence in which that block is split, if 33
  bytes remain, or taken whole. The alignment asked for has no influence.
\<close>
theorem c1_alloc_first_fit:
  assumes "heap_rep s xs" "0 < unat sz" "unat sz \<le> 2 ^ 64 - 72"
  shows "case alloc_blocks (block_nat (unat sz)) xs of
      None \<Rightarrow> pmm_alloc_aligned sz al s = Ret (0, s)
    | Some (off, ys) \<Rightarrow> \<exists>m. pmm_alloc_aligned sz al s =
        Ret (addr (unat (heap_base (g_heap s)) + off + 25), s\<lparr>hdr := m\<rparr>) \<and> heap_rep (s\<lparr>hdr := m\<rparr>) ys"
  by (rule pmm_alloc_refines [OF assms])

theorem c1_alloc_first_fit_witness:
  "\<exists>m. pmm_alloc_aligned 100 64 sample_heap = Ret (0x1019, sample_heap\<lparr>hdr := m\<rparr>) \<and>
     heap_rep (sample_heap\<lparr>hdr := m\<rparr>) [(129, True), (3967, False)]"
  using c1_alloc_first_fit [OF sample_heap_rep, of 100 64]
  by (simp add: block_nat_def) (simp add: sample_heap_def addr_def)

text \<open>
  Freeing the block just allocated gives back the heap: on a well-formed heap without
  neighbouring free blocks, an allocation that succeeds and the free of its result both return,
  and the heap holds the sequence of blocks it held before.
\<close>
theorem c1_alloc_free_restores:
  fixes s :: c1_heap_state
  assumes "heap_rep s xs" "coalesced xs" "0 < unat sz" "unat sz \<le> 2 ^ 64 - 72"
    "pmm_alloc_aligned sz al s = Ret (p, t)" "p \<noteq> 0"
  shows "\<exists>u. pmm_free p t = Ret ((), u) \<and> heap_rep u xs"
  by (rule c1_heap.alloc_free_restores [OF assms])

lemma sample_heap_alloc: "\<exists>m. pmm_alloc_aligned 100 8 sample_heap = Ret (0x1019, sample_heap\<lparr>hdr := m\<rparr>)"
  using pmm_alloc_refines [OF sample_heap_rep, of 100 8]
  by (simp add: block_nat_def) (auto simp: sample_heap_def addr_def)

theorem c1_alloc_free_restores_witness:
  "\<exists>t u. pmm_alloc_aligned 100 8 sample_heap = Ret (0x1019, t) \<and>
     pmm_free 0x1019 t = Ret ((), u) \<and> heap_rep u [(4096, False)]"
proof -
  obtain m where m: "pmm_alloc_aligned 100 8 sample_heap = Ret (0x1019, sample_heap\<lparr>hdr := m\<rparr>)"
    using sample_heap_alloc ..
  have "\<exists>u. pmm_free 0x1019 (sample_heap\<lparr>hdr := m\<rparr>) = Ret ((), u) \<and> heap_rep u [(4096, False)]"
    by (rule c1_alloc_free_restores [OF sample_heap_rep _ _ _ m]) (simp_all add: coalesced_def)
  with m show ?thesis by blast
qed

text \<open>
  C18. Every history of a Core-1 heap (set up over a region that does not wrap, allocations of at
  most \<open>2^64 - 72\<close> bytes, frees of pointers handed out and not yet freed) leaves a heap that
  \<open>pmm_validate\<close> accepts, whose used blocks are exactly the live pointers, without neighbouring
  free blocks, and whose total in \<open>pmm_stats\<close> is the size it was set up with.
\<close>
theorem c1_heap_history:
  assumes "heap_history s live"
  shows "pmm_validate s = Ret (0, s) \<and>
    (\<exists>used free. pmm_stats s = Ret ((heap_size (g_heap s), used, free), s)) \<and>
    (\<exists>xs. heap_rep s xs \<and> coalesced xs \<and>
       mset live = mset (used_ptrs (unat (heap_base (g_heap s))) xs))"
proof -
  obtain xs where "c1_heap.good s live xs" using c1_heap.history_good assms unfolding heap_history_def by blast
  then have xs: "heap_rep s xs" "coalesced xs" "mset live = mset (used_ptrs (unat (heap_base (g_heap s))) xs)"
    by (auto simp: c1_heap.good_def)
  with heap_rep_validate [OF xs(1)] heap_rep_stats [OF xs(1)] show ?thesis by blast
qed

theorem c1_heap_history_witness:
  "\<exists>s. heap_history s [0x1019] \<and> pmm_validate s = Ret (0, s)"
proof -
  have "pmm_init 0x1000 0x1000 sample_heap = Ret (0, sample_heap)"
    by (simp add: pmm_init_def sample_heap_def sizeof_mem_block_def fun_upd_idem)
  then have "fresh_heap sample_heap"
    unfolding fresh_heap_def by (intro exI [of _ sample_heap] exI [of _ "0x1000"]) simp
  then have start: "heap_history sample_heap []" by (simp add: heap_history_def alloc_history.start)
  obtain m where m: "pmm_alloc_aligned 100 8 sample_heap = Ret (0x1019, sample_heap\<lparr>hdr := m\<rparr>)"
    using sample_heap_alloc ..
  have "heap_history (sample_heap\<lparr>hdr := m\<rparr>) [0x1019]"
    using alloc_history.alloc [OF start [unfolded heap_history_def] _ m] by (simp add: heap_history_def)
  with c1_heap_history [OF this] show ?thesis by blast
qed

end
