(* ===== verification/C1Ipc.thy ===== *)
theory C1Ipc
  imports C1Heap
begin

text \<open>
  Inter-process communication of Core-1 (\<open>Core-1/include/ipc.h\<close>, \<open>Core-1/ipc/ipc.c\<close>): the linked
  list of endpoints, whose nodes come from the heap of \<open>C1Heap\<close>, the delivery of a message to a
  handler, shared-memory channels, and the byte ring. \<open>endpoints\<close> and \<open>channels\<close> hold the structure
  at an address. A handler is code of the service; what calling one does is the parameter \<open>run\<close>.
\<close>

section \<open>Data\<close>

definition IPC_MAX_MSG_SIZE :: nat where "IPC_MAX_MSG_SIZE = 4096"

datatype ipc_endpoint_type = IPC_ENDPOINT_CLIENT | IPC_ENDPOINT_SERVER | IPC_ENDPOINT_BROADCAST

record ipc_msg_header =
  msg_type :: u32
  msg_id :: u32
  src_service :: u32
  dst_service :: u32
  data_size :: u32
  msg_flags :: u32
  timestamp :: u64

text \<open>\<open>msg_data\<close> has \<open>IPC_MAX_MSG_SIZE\<close> bytes.\<close>

record ipc_msg =
  header :: ipc_msg_header
  msg_data :: bytes

text \<open>\<open>ep_name\<close> has 64 bytes; the handler is its address.\<close>

record ipc_endpoint =
  endpoint_id :: u64
  ep_name :: bytes
  ep_type :: ipc_endpoint_type
  ep_service_id :: u64
  ep_handler :: u64
  ep_next :: u64

record ipc_channel =
  channel_id :: u64
  chan_phys_addr :: u64
  chan_size :: u64
  chan_cap_handle :: u64
  read_ptr :: u64
  write_ptr :: u64
  chan_lock :: u64

record ring_buffer =
  capacity :: u64
  ring_mask :: u64
  ring_head :: u64
  ring_tail :: u64
  ring_data :: bytes

text \<open>What Core-0 tells a service about itself (\<open>Core-1/include/core1.h\<close>).\<close>

record service_info =
  info_service_id :: u64
  info_domain_id :: u64
  code_base :: u64
  code_size :: u64
  data_base :: u64
  info_data_size :: u64
  stack_base :: u64
  stack_size :: u64
  info_heap_base :: u64
  info_heap_size :: u64
  num_caps :: u32
  cap_handles :: "u64 list"

record c1_ipc_state = c1_heap_state +
  endpoints :: "u64 \<Rightarrow> ipc_endpoint"
  channels :: "u64 \<Rightarrow> ipc_channel"
  g_endpoints :: u64
  g_num_endpoints :: u32
  g_next_endpoint_id :: u64
  g_next_msg_id :: u64
  g_ipc_lock :: u64
  g_service_info :: "service_info option"

definition ipc_locked ::
  "('z c1_ipc_state_scheme \<Rightarrow> ('r \<times> 'z c1_ipc_state_scheme) outcome) \<Rightarrow>
   'z c1_ipc_state_scheme \<Rightarrow> ('r \<times> 'z c1_ipc_state_scheme) outcome" where
  "ipc_locked = locked g_ipc_lock g_ipc_lock_update"

interpretation ipc_spin: spin_locked g_ipc_lock g_ipc_lock_update
  by unfold_locales simp

definition c1_ipc_init :: "'z c1_ipc_state_scheme \<Rightarrow> (int \<times> 'z c1_ipc_state_scheme) outcome" where
  "c1_ipc_init s = Ret (0, s\<lparr>g_endpoints := 0, g_num_endpoints := 0, g_next_endpoint_id := 1,
     g_next_msg_id := 1, g_ipc_lock := 0\<rparr>)"

section \<open>Endpoints\<close>

text \<open>The walk for a name: the node before the one found and the one found, 0 for none.\<close>

partial_function (option) find_name ::
  "(u64 \<Rightarrow> ipc_endpoint) \<Rightarrow> bytes \<Rightarrow> u64 \<Rightarrow> u64 \<Rightarrow> (u64 \<times> u64) outcome option" where
  "find_name m name prev e =
     (if e = 0 then Some (Ret (prev, 0))
      else case c1_strcmp (Some (ep_name (m e))) (Some name) of
        Ret v \<Rightarrow> if v = 0 then Some (Ret (prev, e)) else find_name m name e (ep_next (m e))
      | Hang \<Rightarrow> Some Hang | Fault \<Rightarrow> Some Fault)"

definition lookup_name :: "bytes \<Rightarrow> 'z c1_ipc_state_scheme \<Rightarrow> (u64 \<times> u64) outcome" where
  "lookup_name name s = bindR (walk (find_name (endpoints s) name 0 (g_endpoints s))) (\<lambda>r. r)"

definition sizeof_ipc_endpoint :: u64 where "sizeof_ipc_endpoint = 104"

text \<open>
  The new node, filled in from the memory it was allocated in, and put at the head of the list;
  the identifier is returned as an \<open>int\<close>.
\<close>

definition link_endpoint ::
  "bytes \<Rightarrow> ipc_endpoint_type \<Rightarrow> u64 \<Rightarrow> u64 \<Rightarrow> 'z c1_ipc_state_scheme \<Rightarrow>
   (int \<times> 'z c1_ipc_state_scheme) outcome" where
  "link_endpoint name type handler new s =
     bindR (c1_strncpy (Some (ep_name (endpoints s new))) (Some name) 63) (\<lambda>nm.
     case (nm, g_service_info s) of
       (Some nm, Some info) \<Rightarrow>
         Ret (sint (ucast (g_next_endpoint_id s) :: u32),
           s\<lparr>endpoints := (endpoints s)(new := \<lparr>endpoint_id = g_next_endpoint_id s, ep_name = nm[63 := 0],
               ep_type = type, ep_service_id = info_service_id info, ep_handler = handler,
               ep_next = g_endpoints s\<rparr>),
             g_next_endpoint_id := g_next_endpoint_id s + 1, g_endpoints := new,
             g_num_endpoints := g_num_endpoints s + 1\<rparr>)
     | _ \<Rightarrow> Fault)"

definition ipc_register_endpoint ::
  "bytes option \<Rightarrow> ipc_endpoint_type \<Rightarrow> u64 \<Rightarrow> 'z c1_ipc_state_scheme \<Rightarrow>
   (int \<times> 'z c1_ipc_state_scheme) outcome" where
  "ipc_register_endpoint name type handler s = (case name of
     None \<Rightarrow> Ret (-1, s)
   | Some nm \<Rightarrow> if handler = 0 then Ret (-1, s)
       else ipc_locked (\<lambda>s. bindR (lookup_name nm s) (\<lambda>(prev, e).
         if e \<noteq> 0 then Ret (-2, s)
         else bindR (pmm_alloc sizeof_ipc_endpoint s) (\<lambda>(new, s).
           if new = 0 then Ret (-3, s) else link_endpoint nm type handler new s))) s)"

definition unlink_endpoint :: "u64 \<Rightarrow> u64 \<Rightarrow> 'z c1_ipc_state_scheme \<Rightarrow> 'z c1_ipc_state_scheme" where
  "unlink_endpoint prev e s =
     (if prev \<noteq> 0
      then s\<lparr>endpoints := (endpoints s)(prev := (endpoints s prev)\<lparr>ep_next := ep_next (endpoints s e)\<rparr>)\<rparr>
      else s\<lparr>g_endpoints := ep_next (endpoints s e)\<rparr>)"

definition ipc_unregister_endpoint ::
  "bytes option \<Rightarrow> 'z c1_ipc_state_scheme \<Rightarrow> (int \<times> 'z c1_ipc_state_scheme) outcome" where
  "ipc_unregister_endpoint name s = (case name of
     None \<Rightarrow> Ret (-1, s)
   | Some nm \<Rightarrow> ipc_locked (\<lambda>s. bindR (lookup_name nm s) (\<lambda>(prev, e).
       if e = 0 then Ret (-2, s)
       else bindR (pmm_free e (unlink_endpoint prev e s)) (\<lambda>(_, s).
         Ret (0, s\<lparr>g_num_endpoints := g_num_endpoints s - 1\<rparr>)))) s)"

definition ipc_find_endpoint ::
  "bytes option \<Rightarrow> 'z c1_ipc_state_scheme \<Rightarrow> (u64 \<times> 'z c1_ipc_state_scheme) outcome" where
  "ipc_find_endpoint name s = (case name of
     None \<Rightarrow> Ret (0, s)
   | Some nm \<Rightarrow> ipc_locked (\<lambda>s. bindR (lookup_name nm s) (\<lambda>(prev, e). Ret (e, s))) s)"

section \<open>Messages\<close>

partial_function (option) find_id :: "(u64 \<Rightarrow> ipc_endpoint) \<Rightarrow> u64 \<Rightarrow> u64 \<Rightarrow> u64 option" where
  "find_id m ident e = (if e = 0 then Some 0 else if endpoint_id (m e) = ident then Some e
     else find_id m ident (ep_next (m e)))"

definition stamp_header :: "u64 \<Rightarrow> u64 \<Rightarrow> u64 \<Rightarrow> ipc_msg \<Rightarrow> ipc_msg" where
  "stamp_header ident src dst msg = msg\<lparr>header := (header msg)\<lparr>msg_id := ucast ident,
     src_service := ucast src, dst_service := ucast dst, timestamp := 0\<rparr>\<rparr>"

text \<open>
  The handler runs with the lock held; it may change the message and the state. The result is
  the returned number and the message as the caller finds it.
\<close>

definition ipc_send ::
  "(u64 \<Rightarrow> ipc_msg \<Rightarrow> 'z c1_ipc_state_scheme \<Rightarrow> (ipc_msg \<times> 'z c1_ipc_state_scheme) outcome) \<Rightarrow>
   u64 \<Rightarrow> ipc_msg option \<Rightarrow> 'z c1_ipc_state_scheme \<Rightarrow> ((int \<times> ipc_msg option) \<times> 'z c1_ipc_state_scheme) outcome" where
  "ipc_send run ident msg s = (case msg of
     None \<Rightarrow> Ret ((-1, None), s)
   | Some ms \<Rightarrow> ipc_locked (\<lambda>s. bindR (walk (find_id (endpoints s) ident (g_endpoints s))) (\<lambda>e.
       if e = 0 then Ret ((-2, msg), s)
       else case g_service_info s of
         None \<Rightarrow> Fault
       | Some info \<Rightarrow>
           let ms' = stamp_header (g_next_msg_id s) (info_service_id info) (ep_service_id (endpoints s e)) ms;
               s' = s\<lparr>g_next_msg_id := g_next_msg_id s + 1\<rparr>
           in if ep_handler (endpoints s' e) \<noteq> 0
              then bindR (run (ep_handler (endpoints s' e)) ms' s') (\<lambda>(ms'', s''). Ret ((0, Some ms''), s''))
              else Ret ((0, Some ms'), s'))) s)"

definition ipc_recv :: "u64 \<Rightarrow> 'z c1_ipc_state_scheme \<Rightarrow> (int \<times> 'z c1_ipc_state_scheme) outcome" where
  "ipc_recv timeout_ms s = Ret (-1, s)"

definition ipc_try_recv :: "'z c1_ipc_state_scheme \<Rightarrow> (int \<times> 'z c1_ipc_state_scheme) outcome" where
  "ipc_try_recv s = Ret (-1, s)"

section \<open>Channels\<close>

definition sizeof_ipc_channel :: u64 where "sizeof_ipc_channel = 56"

text \<open>\<open>valid\<close> tells whether the caller's pointer for the result is not \<open>NULL\<close>; the second result is
  what is stored through it. The channel's identifier is left as the memory had it.\<close>

definition ipc_create_channel ::
  "u64 \<Rightarrow> bool \<Rightarrow> 'z c1_ipc_state_scheme \<Rightarrow> ((int \<times> u64 option) \<times> 'z c1_ipc_state_scheme) outcome" where
  "ipc_create_channel sz valid s =
     (if \<not> valid \<or> sz = 0 then Ret ((-1, None), s)
      else bindR (pmm_alloc sizeof_ipc_channel s) (\<lambda>(ch, s).
        if ch = 0 then Ret ((-2, None), s)
        else Ret ((0, Some ch), s\<lparr>channels := (channels s)(ch := (channels s ch)\<lparr>chan_phys_addr := 0,
          chan_size := sz, chan_cap_handle := 0, read_ptr := 0, write_ptr := 0, chan_lock := 0\<rparr>)\<rparr>)))"

definition ipc_destroy_channel :: "u64 \<Rightarrow> 'z c1_ipc_state_scheme \<Rightarrow> (int \<times> 'z c1_ipc_state_scheme) outcome" where
  "ipc_destroy_channel ch s =
     (if ch = 0 then Ret (-1, s) else bindR (pmm_free ch s) (\<lambda>(_, s). Ret (0, s)))"

section \<open>The ring\<close>

definition ipc_ring_available :: "ring_buffer option \<Rightarrow> u64" where
  "ipc_ring_available ring = (case ring of None \<Rightarrow> 0 | Some r \<Rightarrow> capacity r - (ring_head r - ring_tail r))"

definition ipc_ring_used :: "ring_buffer option \<Rightarrow> u64" where
  "ipc_ring_used ring = (case ring of None \<Rightarrow> 0 | Some r \<Rightarrow> ring_head r - ring_tail r)"

definition ring_store :: "ring_buffer \<Rightarrow> bytes \<Rightarrow> u64 \<Rightarrow> bytes outcome" where
  "ring_store r dat sz =
     (let pos = ring_head r AND ring_mask r; first_part = capacity r - pos in
      if sz \<le> first_part then memcpy_at (unat sz) (unat pos) 0 (ring_data r) dat
      else bindR (memcpy_at (unat first_part) (unat pos) 0 (ring_data r) dat) (\<lambda>rd.
        memcpy_at (unat (sz - first_part)) 0 (unat first_part) rd dat))"

definition ipc_ring_write ::
  "ring_buffer option \<Rightarrow> bytes option \<Rightarrow> u64 \<Rightarrow> (int \<times> ring_buffer option) outcome" where
  "ipc_ring_write ring dat sz = (case (ring, dat) of
     (Some r, Some ds) \<Rightarrow>
       if sz = 0 then Ret (-1, ring)
       else if sz > capacity r - (ring_head r - ring_tail r) then Ret (-2, ring)
       else bindR (ring_store r ds sz) (\<lambda>rd.
         Ret (0, Some (r\<lparr>ring_data := rd, ring_head := ring_head r + sz\<rparr>)))
   | _ \<Rightarrow> Ret (-1, ring))"

definition ring_fetch :: "ring_buffer \<Rightarrow> bytes \<Rightarrow> u64 \<Rightarrow> bytes outcome" where
  "ring_fetch r buf sz =
     (let pos = ring_tail r AND ring_mask r; first_part = capacity r - pos in
      if sz \<le> first_part then memcpy_at (unat sz) 0 (unat pos) buf (ring_data r)
      else bindR (memcpy_at (unat first_part) 0 (unat pos) buf (ring_data r)) (\<lambda>b.
        memcpy_at (unat (sz - first_part)) (unat first_part) 0 b (ring_data r)))"

text \<open>The results are the returned number, the caller's buffer and the ring.\<close>

definition ipc_ring_read ::
  "ring_buffer option \<Rightarrow> bytes option \<Rightarrow> u64 \<Rightarrow> (int \<times> bytes option \<times> ring_buffer option) outcome" where
  "ipc_ring_read ring dat sz = (case (ring, dat) of
     (Some r, Some buf) \<Rightarrow>
       if sz = 0 then Ret (-1, dat, ring)
       else if sz > ring_head r - ring_tail r then Ret (-2, dat, ring)
       else bindR (ring_fetch r buf sz) (\<lambda>b.
         Ret (0, Some b, Some (r\<lparr>ring_tail := ring_tail r + sz\<rparr>)))
   | _ \<Rightarrow> Ret (-1, dat, ring))"

section \<open>Delivery\<close>

text \<open>The handler runs under the lock of the subsystem, so one that sends never returns.\<close>

lemma ipc_send_from_handler_hangs:
  assumes lock: "g_ipc_lock s = 0" and e: "walk (find_id (endpoints s) ident (g_endpoints s)) = Ret e" "e \<noteq> 0"
    "ep_handler (endpoints s e) \<noteq> 0" and info: "g_service_info s = Some info"
    and run: "\<And>ms t. run (ep_handler (endpoints s e)) ms t = bindR (ipc_send run' ident' (Some ms') t) (k ms)"
  shows "ipc_send run ident (Some ms) s = Hang"
proof -
  have "ipc_send run' ident' (Some ms') t = Hang" if "g_ipc_lock t \<noteq> 0" for t
    using that unfolding ipc_send_def ipc_locked_def by (simp add: ipc_spin.held_hangs)
  with assms show ?thesis
    by (simp add: ipc_send_def ipc_locked_def locked_eq Let_def)
qed

section \<open>Bounded byte queues\<close>

text \<open>
  What the two ends of a ring rely on: a bounded queue of bytes that takes a block when all of it
  fits, and gives one when that many bytes are there.
\<close>

datatype fifo_op = Put bytes | Get nat

definition op_size :: "fifo_op \<Rightarrow> nat" where
  "op_size x = (case x of Put ys \<Rightarrow> length ys | Get n \<Rightarrow> n)"

text \<open>Bytes accepted, bytes given out, and what is left in the queue, of a run from \<open>xs\<close>.\<close>

fun queue_run :: "nat \<Rightarrow> fifo_op list \<Rightarrow> bytes \<Rightarrow> bytes \<times> bytes \<times> bytes" where
  "queue_run c [] xs = ([], [], xs)"
| "queue_run c (Put ys # ops) xs =
     (if ys \<noteq> [] \<and> length xs + length ys \<le> c
      then case queue_run c ops (xs @ ys) of (acc, out, rest) \<Rightarrow> (ys @ acc, out, rest)
      else queue_run c ops xs)"
| "queue_run c (Get n # ops) xs =
     (if n \<noteq> 0 \<and> n \<le> length xs
      then case queue_run c ops (drop n xs) of (acc, out, rest) \<Rightarrow> (acc, take n xs @ out, rest)
      else queue_run c ops xs)"

lemma queue_run_order: "queue_run c ops xs = (acc, out, rest) \<Longrightarrow> xs @ acc = out @ rest"
proof (induction c ops xs arbitrary: acc out rest rule: queue_run.induct)
  case (2 c ys ops xs)
  then show ?case by (auto split: if_splits prod.splits)
next
  case (3 c n ops xs)
  show ?case
  proof (cases "n \<noteq> 0 \<and> n \<le> length xs")
    case True
    then obtain out' where q: "queue_run c ops (drop n xs) = (acc, out', rest)" "out = take n xs @ out'"
      using "3.prems" by (auto split: prod.splits)
    have "take n xs @ drop n xs @ acc = take n xs @ out' @ rest" using "3.IH"(1) [OF True q(1)] by simp
    then show ?thesis using q(2) by (metis append_assoc append_take_drop_id)
  qed (use 3 in auto)
qed simp

text \<open>The same run through an implementation.\<close>

fun fifo_run ::
  "(bytes \<Rightarrow> 'q \<Rightarrow> (bool \<times> 'q) outcome) \<Rightarrow> (nat \<Rightarrow> 'q \<Rightarrow> (bytes \<times> 'q) outcome) \<Rightarrow>
   fifo_op list \<Rightarrow> 'q \<Rightarrow> (bytes \<times> bytes \<times> 'q) outcome" where
  "fifo_run put get [] q = Ret ([], [], q)"
| "fifo_run put get (Put ys # ops) q = bindR (put ys q) (\<lambda>(ok, q).
     bindR (fifo_run put get ops q) (\<lambda>(acc, out, q). Ret ((if ok then ys else []) @ acc, out, q)))"
| "fifo_run put get (Get n # ops) q = bindR (get n q) (\<lambda>(ys, q).
     bindR (fifo_run put get ops q) (\<lambda>(acc, out, q). Ret (acc, ys @ out, q)))"

locale byte_fifo =
  fixes rep :: "nat \<Rightarrow> 'q \<Rightarrow> bytes \<Rightarrow> bool"
    and put :: "bytes \<Rightarrow> 'q \<Rightarrow> (bool \<times> 'q) outcome"
    and get :: "nat \<Rightarrow> 'q \<Rightarrow> (bytes \<times> 'q) outcome"
  assumes put_fits: "rep c q xs \<Longrightarrow> length ys < 2 ^ 64 \<Longrightarrow> ys \<noteq> [] \<Longrightarrow> length xs + length ys \<le> c \<Longrightarrow>
      \<exists>q'. put ys q = Ret (True, q') \<and> rep c q' (xs @ ys)"
    and put_refused: "rep c q xs \<Longrightarrow> length ys < 2 ^ 64 \<Longrightarrow> ys = [] \<or> c < length xs + length ys \<Longrightarrow>
      put ys q = Ret (False, q)"
    and get_there: "rep c q xs \<Longrightarrow> n < 2 ^ 64 \<Longrightarrow> n \<noteq> 0 \<Longrightarrow> n \<le> length xs \<Longrightarrow>
      \<exists>q'. get n q = Ret (take n xs, q') \<and> rep c q' (drop n xs)"
    and get_refused: "rep c q xs \<Longrightarrow> n < 2 ^ 64 \<Longrightarrow> n = 0 \<or> length xs < n \<Longrightarrow> get n q = Ret ([], q)"
begin

lemma refines_queue:
  assumes "rep c q xs" "\<forall>x \<in> set ops. op_size x < 2 ^ 64" "queue_run c ops xs = (acc, out, rest)"
  shows "\<exists>q'. fifo_run put get ops q = Ret (acc, out, q') \<and> rep c q' rest"
  using assms
proof (induction ops arbitrary: q xs acc out)
  case Nil
  then show ?case by simp
next
  case (Cons x ops)
  have sizes: "\<forall>x \<in> set ops. op_size x < 2 ^ 64" using Cons.prems(2) by simp
  show ?case
  proof (cases x)
    case (Put ys)
    have ys: "length ys < 2 ^ 64" using Cons.prems(2) Put by (simp add: op_size_def)
    show ?thesis
    proof (cases "ys \<noteq> [] \<and> length xs + length ys \<le> c")
      case True
      obtain q' where q': "put ys q = Ret (True, q')" "rep c q' (xs @ ys)"
        using put_fits [OF Cons.prems(1) ys] True by auto
      obtain acc' where "queue_run c ops (xs @ ys) = (acc', out, rest)" "acc = ys @ acc'"
        using Cons.prems(3) Put True by (auto split: prod.splits)
      with Cons.IH [OF q'(2) sizes] q'(1) Put show ?thesis by auto
    next
      case False
      then have "put ys q = Ret (False, q)" using put_refused [OF Cons.prems(1) ys] by auto
      moreover have "queue_run c ops xs = (acc, out, rest)" using Cons.prems(3) Put False by auto
      ultimately show ?thesis using Cons.IH [OF Cons.prems(1) sizes] Put by auto
    qed
  next
    case (Get n)
    have n: "n < 2 ^ 64" using Cons.prems(2) Get by (simp add: op_size_def)
    show ?thesis
    proof (cases "n \<noteq> 0 \<and> n \<le> length xs")
      case True
      obtain q' where q': "get n q = Ret (take n xs, q')" "rep c q' (drop n xs)"
        using get_there [OF Cons.prems(1) n] True by auto
      obtain out' where "queue_run c ops (drop n xs) = (acc, out', rest)" "out = take n xs @ out'"
        using Cons.prems(3) Get True by (auto split: prod.splits)
      with Cons.IH [OF q'(2) sizes] q'(1) Get show ?thesis by auto
    next
      case False
      then have "get n q = Ret ([], q)" using get_refused [OF Cons.prems(1) n] by auto
      moreover have "queue_run c ops xs = (acc, out, rest)" using Cons.prems(3) Get False by auto
      ultimately show ?thesis using Cons.IH [OF Cons.prems(1) sizes] Get by auto
    qed
  qed
qed

end

section \<open>The ring is such a queue\<close>

text \<open>The ring of \<open>2 ^ k\<close> bytes holds \<open>xs\<close> from its tail on.\<close>

definition ring_rep :: "nat \<Rightarrow> ring_buffer \<Rightarrow> bytes \<Rightarrow> bool" where
  "ring_rep c r xs \<longleftrightarrow> (\<exists>k < 64. c = 2 ^ k \<and> ring_mask r = mask k) \<and> capacity r = of_nat c \<and>
     length (ring_data r) = c \<and> length xs \<le> c \<and> ring_head r = ring_tail r + of_nat (length xs) \<and>
     (\<forall>i < length xs. ring_data r ! ((unat (ring_tail r) + i) mod c) = xs ! i)"

lemma unat_add_mod:
  assumes "k < 64"
  shows "unat ((t :: u64) + of_nat n) mod 2 ^ k = (unat t + n) mod 2 ^ k"
proof -
  have "(2 :: nat) ^ k dvd 2 ^ 64" using assms by (intro le_imp_power_dvd) simp
  moreover have "unat (t + of_nat n) = (unat t + n) mod 2 ^ 64"
    by (simp add: unat_word_ariths unat_of_nat take_bit_eq_mod mod_add_right_eq)
  ultimately show ?thesis by (simp only: mod_mod_cancel)
qed

text \<open>Both copies, by the offset \<open>i\<close> from the position \<open>p\<close> in the ring.\<close>

lemma ring_store_spec:
  assumes c: "unat (capacity r) = c" "length (ring_data r) = c" "c < 2 ^ 64"
    and p: "unat (ring_head r AND ring_mask r) = p" "p < c"
    and n: "unat sz = n" "n \<le> c" "n \<le> length dat"
  shows "\<exists>rd. ring_store r dat sz = Ret rd \<and> length rd = c \<and>
    (\<forall>i < c. rd ! ((p + i) mod c) = (if i < n then dat ! i else ring_data r ! ((p + i) mod c)))"
proof -
  let ?fp = "capacity r - (ring_head r AND ring_mask r)"
  have fp: "unat ?fp = c - p" using c p by (subst unat_sub) (simp_all add: word_le_nat_alt)
  have wrap: "(p + i) mod c = (if p + i < c then p + i else p + i - c)" if "i < c" for i
    using that p(2) by (simp add: mod_if)
  show ?thesis
  proof (cases "n \<le> c - p")
    case True
    then have "sz \<le> ?fp" using fp n(1) by (simp add: word_le_nat_alt)
    moreover have "p + n \<le> c" using True p(2) by simp
    moreover from this obtain rd where rd: "memcpy_at n p 0 (ring_data r) dat = Ret rd" "length rd = c"
      "\<And>k. rd ! k = (if p \<le> k \<and> k < p + n then dat ! (k - p) else ring_data r ! k)"
      using memcpy_at_spec [of p n "ring_data r" 0 dat] True p(2) c(2) n(3) by auto
    ultimately show ?thesis
      using p n(1) True by (auto simp: ring_store_def Let_def wrap rd(3))
  next
    case False
    then have "\<not> sz \<le> ?fp" using fp n(1) by (simp add: word_le_nat_alt)
    moreover have rest: "unat (sz - ?fp) = n - (c - p)"
      using False fp n(1) by (subst unat_sub) (simp_all add: word_le_nat_alt)
    moreover obtain rd where rd: "memcpy_at (c - p) p 0 (ring_data r) dat = Ret rd" "length rd = c"
      "\<And>k. rd ! k = (if p \<le> k \<and> k < p + (c - p) then dat ! (k - p) else ring_data r ! k)"
      using memcpy_at_spec [of p "c - p" "ring_data r" 0 dat] False p(2) c(2) n(3) by auto
    moreover have "n - (c - p) \<le> c" using n(2) by simp
    moreover from this obtain rd' where rd': "memcpy_at (n - (c - p)) 0 (c - p) rd dat = Ret rd'" "length rd' = c"
      "\<And>k. rd' ! k = (if k < n - (c - p) then dat ! (c - p + k) else rd ! k)"
      using memcpy_at_spec [of 0 "n - (c - p)" rd "c - p" dat] False p(2) rd(2) n(2,3) by auto
    moreover have "rd' ! ((p + i) mod c) = (if i < n then dat ! i else ring_data r ! ((p + i) mod c))"
      if i: "i < c" for i
    proof (cases "p + i < c")
      case True
      then have "\<not> p + i < n - (c - p)" "i < n" using False n(2) p(2) by auto
      with rd'(3) [of "p + i"] rd(3) [of "p + i"] True wrap [OF i] show ?thesis by simp
    next
      case ge: False
      then have "(p + i) mod c = i - (c - p)" "c - p \<le> i" using wrap [OF i] p(2) by auto
      moreover have "i - (c - p) < p" using i p(2) ge by auto
      moreover have "i < n \<longleftrightarrow> i - (c - p) < n - (c - p)" using calculation(2) by auto
      ultimately show ?thesis using rd'(3) [of "i - (c - p)"] rd(3) [of "i - (c - p)"] by auto
    qed
    ultimately show ?thesis
      using p(1) n(1) rd'(2) by (auto simp: ring_store_def Let_def fp)
  qed
qed

lemma ring_fetch_spec:
  assumes c: "unat (capacity r) = c" "length (ring_data r) = c" "c < 2 ^ 64"
    and p: "unat (ring_tail r AND ring_mask r) = p" "p < c"
    and n: "unat sz = n" "n \<le> c" "n \<le> length buf"
  shows "\<exists>b. ring_fetch r buf sz = Ret b \<and> length b = length buf \<and>
    (\<forall>i. b ! i = (if i < n then ring_data r ! ((p + i) mod c) else buf ! i))"
proof -
  let ?fp = "capacity r - (ring_tail r AND ring_mask r)"
  have fp: "unat ?fp = c - p" using c p by (subst unat_sub) (simp_all add: word_le_nat_alt)
  have wrap: "(p + i) mod c = (if p + i < c then p + i else p + i - c)" if "i < c" for i
    using that p(2) by (simp add: mod_if)
  show ?thesis
  proof (cases "n \<le> c - p")
    case True
    then have "sz \<le> ?fp" using fp n(1) by (simp add: word_le_nat_alt)
    moreover have "p + n \<le> c" using True p(2) by simp
    moreover from this obtain b where b: "memcpy_at n 0 p buf (ring_data r) = Ret b" "length b = length buf"
      "\<And>k. b ! k = (if k < n then ring_data r ! (p + k) else buf ! k)"
      using memcpy_at_spec [of 0 n buf p "ring_data r"] True p(2) c(2) n(3) by auto
    ultimately show ?thesis
      using p n(1,2) True by (auto simp: ring_fetch_def Let_def wrap b(3))
  next
    case False
    then have "\<not> sz \<le> ?fp" using fp n(1) by (simp add: word_le_nat_alt)
    moreover have rest: "unat (sz - ?fp) = n - (c - p)"
      using False fp n(1) by (subst unat_sub) (simp_all add: word_le_nat_alt)
    moreover obtain b where b: "memcpy_at (c - p) 0 p buf (ring_data r) = Ret b" "length b = length buf"
      "\<And>k. b ! k = (if k < c - p then ring_data r ! (p + k) else buf ! k)"
      using memcpy_at_spec [of 0 "c - p" buf p "ring_data r"] False p(2) c(2) n(3) by auto
    moreover have "n - (c - p) \<le> c" using n(2) by simp
    moreover from this obtain b' where b': "memcpy_at (n - (c - p)) (c - p) 0 b (ring_data r) = Ret b'" "length b' = length buf"
      "\<And>k. b' ! k = (if c - p \<le> k \<and> k < c - p + (n - (c - p)) then ring_data r ! (k - (c - p)) else b ! k)"
      using memcpy_at_spec [of "c - p" "n - (c - p)" b 0 "ring_data r"] False p(2) b(2) c(2) n(2,3) by auto
    moreover have "b' ! i = (if i < n then ring_data r ! ((p + i) mod c) else buf ! i)" for i
    proof (cases "c - p \<le> i \<and> i < n")
      case True
      then have "\<not> p + i < c" "i < c" using n(2) p(2) by auto
      with True have "(p + i) mod c = i - (c - p)" using wrap [of i] p(2) by simp
      with True b'(3) [of i] show ?thesis by simp
    next
      case ne: False
      with False b'(3) [of i] b(3) [of i] wrap [of i] n(2) p(2) show ?thesis by auto
    qed
    ultimately show ?thesis
      using p(1) n(1) by (auto simp: ring_fetch_def Let_def fp)
  qed
qed

lemma ring_pos:
  assumes "ring_rep c r xs"
  shows "unat (capacity r) = c" "0 < c" "c < 2 ^ 64"
    "unat (ring_tail r AND ring_mask r) = unat (ring_tail r) mod c"
    "unat (ring_head r AND ring_mask r) = (unat (ring_tail r) + length xs) mod c"
    "unat (ring_head r - ring_tail r) = length xs"
    "unat (capacity r - (ring_head r - ring_tail r)) = c - length xs"
    "(unat (ring_tail r + of_nat n) + i) mod c = (unat (ring_tail r) + n + i) mod c"
proof -
  obtain k where k: "k < 64" "c = 2 ^ k" "ring_mask r = mask k" using assms by (auto simp: ring_rep_def)
  have r: "capacity r = of_nat c" "length xs \<le> c" "ring_head r = ring_tail r + of_nat (length xs)"
    using assms by (auto simp: ring_rep_def)
  show c: "c < 2 ^ 64" unfolding k(2) using k(1) by (rule power_strict_increasing) simp
  then show cap: "unat (capacity r) = c" unfolding r(1) by (rule unat_of_nat_u64)
  show "0 < c" using k(2) by simp
  show "unat (ring_tail r AND ring_mask r) = unat (ring_tail r) mod c"
    by (simp only: k(2,3) unat_and_mask)
  show "unat (ring_head r AND ring_mask r) = (unat (ring_tail r) + length xs) mod c"
    by (simp only: k(2,3) unat_and_mask r(3) unat_add_mod [OF k(1)])
  have diff: "ring_head r - ring_tail r = of_nat (length xs)" using r(3) by simp
  show len: "unat (ring_head r - ring_tail r) = length xs"
    unfolding diff by (rule unat_of_nat_u64) (use r(2) c in simp)
  show "unat (capacity r - (ring_head r - ring_tail r)) = c - length xs"
    using r(2) by (subst unat_sub) (simp_all only: word_le_nat_alt len cap)
  have "(unat (ring_tail r + of_nat n) mod c + i) mod c = ((unat (ring_tail r) + n) mod c + i) mod c"
    by (simp only: k(2) unat_add_mod [OF k(1)])
  then show "(unat (ring_tail r + of_nat n) + i) mod c = (unat (ring_tail r) + n + i) mod c"
    by (simp only: mod_add_left_eq)
qed

lemma ring_write_fits:
  assumes rep: "ring_rep c r xs" and ys: "length ys < 2 ^ 64" "ys \<noteq> []" "length xs + length ys \<le> c"
  shows "\<exists>r'. ipc_ring_write (Some r) (Some ys) (of_nat (length ys)) = Ret (0, Some r') \<and> ring_rep c r' (xs @ ys)"
proof -
  note pos = ring_pos [OF rep]
  let ?T = "unat (ring_tail r)" and ?sz = "of_nat (length ys) :: u64"
  have sz: "unat ?sz = length ys" using ys(1) by (rule unat_of_nat_u64)
  have len: "length (ring_data r) = c" using rep by (simp add: ring_rep_def)
  obtain rd where rd: "ring_store r ys ?sz = Ret rd" "length rd = c"
    "\<And>i. i < c \<Longrightarrow> rd ! (((?T + length xs) mod c + i) mod c) =
      (if i < length ys then ys ! i else ring_data r ! (((?T + length xs) mod c + i) mod c))"
    using ring_store_spec [OF pos(1) len pos(3) pos(5) _ sz] pos(2) ys(3) by auto
  let ?r = "r\<lparr>ring_data := rd, ring_head := ring_head r + ?sz\<rparr>"
  have "rd ! ((?T + i) mod c) = (xs @ ys) ! i" if i: "i < length (xs @ ys)" for i
  proof (cases "i < length xs")
    case True
    have "((?T + length xs) mod c + (c - length xs + i)) mod c = (?T + length xs + (c - length xs + i)) mod c"
      by (rule mod_add_left_eq)
    moreover have "?T + length xs + (c - length xs + i) = ?T + i + c" using ys(3) by simp
    ultimately have "(?T + i) mod c = ((?T + length xs) mod c + (c - length xs + i)) mod c"
      by (simp only: mod_add_self2)
    moreover have "rd ! (((?T + length xs) mod c + (c - length xs + i)) mod c) =
        ring_data r ! (((?T + length xs) mod c + (c - length xs + i)) mod c)"
      using rd(3) [of "c - length xs + i"] True ys(2,3) by auto
    ultimately show ?thesis using rep True by (auto simp: ring_rep_def nth_append)
  next
    case False
    then have "?T + length xs + (i - length xs) = ?T + i" by simp
    then have "(?T + i) mod c = ((?T + length xs) mod c + (i - length xs)) mod c"
      by (simp only: mod_add_left_eq)
    moreover have "i - length xs < length ys" "i - length xs < c" using False i ys(3) by auto
    ultimately show ?thesis using rd(3) [of "i - length xs"] False by (simp only: nth_append if_False if_True)
  qed
  then have "ring_rep c ?r (xs @ ys)"
    using rep rd(2) ys(3) by (auto simp: ring_rep_def)
  moreover have "?sz \<noteq> 0" using sz ys(2) by auto
  moreover have "\<not> ?sz > capacity r - (ring_head r - ring_tail r)"
    using ys(3) sz pos(7) by (simp add: word_less_nat_alt)
  ultimately show ?thesis using rd(1) by (auto simp: ipc_ring_write_def)
qed

lemma ring_write_refused:
  assumes rep: "ring_rep c r xs" and ys: "length ys < 2 ^ 64" "ys = [] \<or> c < length xs + length ys"
  shows "\<exists>e. ipc_ring_write (Some r) (Some ys) (of_nat (length ys)) = Ret (e, Some r) \<and> e \<noteq> 0"
proof (cases "ys = []")
  case False
  have sz: "unat (of_nat (length ys) :: u64) = length ys" using ys(1) by (rule unat_of_nat_u64)
  moreover have "length xs \<le> c" using rep by (simp add: ring_rep_def)
  ultimately have "of_nat (length ys) > capacity r - (ring_head r - ring_tail r)"
    using ys(2) False ring_pos(7) [OF rep] by (simp add: word_less_nat_alt)
  then show ?thesis by (simp add: ipc_ring_write_def)
qed (simp add: ipc_ring_write_def)

lemma ring_read_there:
  assumes rep: "ring_rep c r xs" and n: "n < 2 ^ 64" "n \<noteq> 0" "n \<le> length xs"
  shows "\<exists>r'. ipc_ring_read (Some r) (Some (replicate n 0)) (of_nat n) = Ret (0, Some (take n xs), Some r') \<and>
    ring_rep c r' (drop n xs)"
proof -
  note pos = ring_pos [OF rep]
  let ?T = "unat (ring_tail r)" and ?sz = "of_nat n :: u64"
  have sz: "unat ?sz = n" using n(1) by (rule unat_of_nat_u64)
  have len: "length (ring_data r) = c" "length xs \<le> c" using rep by (auto simp: ring_rep_def)
  have "\<exists>b. ring_fetch r (replicate n 0) ?sz = Ret b \<and> length b = length (replicate n (0 :: u8)) \<and>
      (\<forall>i. b ! i = (if i < n then ring_data r ! ((?T mod c + i) mod c) else replicate n 0 ! i))"
    by (rule ring_fetch_spec [OF pos(1) len(1) pos(3) pos(4) _ sz]) (use pos(2) len(2) n(3) in auto)
  then obtain b where b: "ring_fetch r (replicate n 0) ?sz = Ret b" "length b = n"
    "\<And>i. i < n \<Longrightarrow> b ! i = ring_data r ! ((?T mod c + i) mod c)" by auto
  have "b = take n xs"
  proof (rule nth_equalityI)
    fix i assume "i < length b"
    with b n(3) rep show "b ! i = take n xs ! i" by (simp add: mod_add_left_eq ring_rep_def)
  qed (use b(2) n(3) in simp)
  moreover have "ring_rep c (r\<lparr>ring_tail := ring_tail r + ?sz\<rparr>) (drop n xs)"
  proof -
    have "ring_data r ! ((?T + n + i) mod c) = xs ! (n + i)" if "n + i < length xs" for i
      using rep that by (auto simp: ring_rep_def add.assoc)
    then show ?thesis using rep n(3) pos(8) by (auto simp: ring_rep_def of_nat_diff)
  qed
  moreover have "?sz \<noteq> 0" using sz n(2) by auto
  moreover have "\<not> ?sz > ring_head r - ring_tail r"
    using n(3) sz pos(6) by (simp add: word_less_nat_alt)
  ultimately show ?thesis using b(1) by (auto simp: ipc_ring_read_def)
qed

lemma ring_read_refused:
  assumes rep: "ring_rep c r xs" and n: "n < 2 ^ 64" "n = 0 \<or> length xs < n"
  shows "\<exists>e. ipc_ring_read (Some r) (Some b) (of_nat n) = Ret (e, Some b, Some r) \<and> e \<noteq> 0"
proof (cases "n = 0")
  case False
  have "unat (of_nat n :: u64) = n" using n(1) by (rule unat_of_nat_u64)
  then have "of_nat n > ring_head r - ring_tail r"
    using n(2) False ring_pos(6) [OF rep] by (simp add: word_less_nat_alt)
  then show ?thesis by (simp add: ipc_ring_read_def)
qed (simp add: ipc_ring_read_def)

text \<open>One end of the ring as its callers use it: the whole block, and the number returned.\<close>

definition ring_put :: "bytes \<Rightarrow> ring_buffer \<Rightarrow> (bool \<times> ring_buffer) outcome" where
  "ring_put ys r = bindR (ipc_ring_write (Some r) (Some ys) (of_nat (length ys))) (\<lambda>(e, r').
     case r' of None \<Rightarrow> Fault | Some r' \<Rightarrow> Ret (e = 0, r'))"

definition ring_get :: "nat \<Rightarrow> ring_buffer \<Rightarrow> (bytes \<times> ring_buffer) outcome" where
  "ring_get n r = bindR (ipc_ring_read (Some r) (Some (replicate n 0)) (of_nat n)) (\<lambda>(e, b, r').
     case (b, r') of (Some b, Some r') \<Rightarrow> Ret (if e = 0 then b else [], r') | _ \<Rightarrow> Fault)"

interpretation ring_fifo: byte_fifo ring_rep ring_put ring_get
proof unfold_locales
  fix c r xs and ys :: bytes
  assume "ring_rep c r xs" "length ys < 2 ^ 64" "ys \<noteq> []" "length xs + length ys \<le> c"
  from ring_write_fits [OF this] show "\<exists>r'. ring_put ys r = Ret (True, r') \<and> ring_rep c r' (xs @ ys)"
    by (auto simp: ring_put_def)
next
  fix c r xs and ys :: bytes
  assume "ring_rep c r xs" "length ys < 2 ^ 64" "ys = [] \<or> c < length xs + length ys"
  from ring_write_refused [OF this] show "ring_put ys r = Ret (False, r)"
    by (auto simp: ring_put_def)
next
  fix c r xs and n :: nat
  assume "ring_rep c r xs" "n < 2 ^ 64" "n \<noteq> 0" "n \<le> length xs"
  from ring_read_there [OF this] show "\<exists>r'. ring_get n r = Ret (take n xs, r') \<and> ring_rep c r' (drop n xs)"
    by (auto simp: ring_get_def)
next
  fix c r xs and n :: nat
  assume "ring_rep c r xs" "n < 2 ^ 64" "n = 0 \<or> length xs < n"
  from ring_read_refused [OF this, of "replicate n 0"] show "ring_get n r = Ret ([], r)"
    by (auto simp: ring_get_def)
qed

section \<open>Properties\<close>

text \<open>
  C22. The byte ring refines a bounded queue: from a ring of \<open>2^k\<close> bytes holding \<open>xs\<close>, any sequence of
  writes and reads, across any number of wrap-arounds of the buffer and of the 64-bit indices,
  returns, accepts and gives out exactly the bytes the queue does, and ends in a ring holding
  what the queue holds; so the bytes come out in the order they went in, none lost or repeated.
\<close>
theorem c1_ring_refines_queue:
  assumes "ring_rep c r xs" "\<forall>x \<in> set ops. op_size x < 2 ^ 64" "queue_run c ops xs = (acc, out, rest)"
  shows "xs @ acc = out @ rest \<and>
    (\<exists>r'. fifo_run ring_put ring_get ops r = Ret (acc, out, r') \<and> ring_rep c r' rest)"
  using ring_fifo.refines_queue [OF assms] queue_run_order [OF assms(3)] by blast

definition sample_ring :: ring_buffer where
  "sample_ring = \<lparr>capacity = 4, ring_mask = 3, ring_head = 1, ring_tail = 0xFFFFFFFFFFFFFFFF, ring_data = [8, 9, 9, 7]\<rparr>"

lemma sample_ring_rep: "ring_rep 4 sample_ring [7, 8]"
proof -
  have "(2 :: nat) < 64 \<and> (4 :: nat) = 2 ^ 2 \<and> ring_mask sample_ring = mask 2"
    by (simp add: sample_ring_def mask_eq_exp_minus_1)
  then have "\<exists>k < 64. (4 :: nat) = 2 ^ k \<and> ring_mask sample_ring = mask k" by blast
  then show ?thesis
    unfolding ring_rep_def by (simp add: sample_ring_def less_Suc_eq all_conj_distrib)
qed

theorem c1_ring_refines_queue_witness:
  "\<exists>r'. fifo_run ring_put ring_get [Put [5], Get 2, Put [1, 2, 3, 4], Put [6, 6], Get 3] sample_ring =
     Ret ([5, 6, 6], [7, 8, 5, 6, 6], r') \<and> ring_rep 4 r' []"
  using c1_ring_refines_queue [OF sample_ring_rep,
      of "[Put [5], Get 2, Put [1, 2, 3, 4], Put [6, 6], Get 3]" "[5, 6, 6]" "[7, 8, 5, 6, 6]" "[]"]
  by (simp add: op_size_def)

end
