(* ===== verification/C1Service.thy ===== *)
theory C1Service
  imports C1Ipc
begin

text \<open>
  The service framework of Core-1 (\<open>Core-1/include/service.h\<close>, \<open>Core-1/service/service.c\<close>): the
  context of the running service, its callbacks and its life cycle. The callbacks, and the routines
  of the table Core-0 passes, are code outside Core-1; \<open>service_env\<close> says what calling them does.
\<close>

section \<open>Data\<close>

datatype c1_service_state = C1_STATE_INIT | C1_STATE_RUNNING | C1_STATE_STOPPING | C1_STATE_STOPPED | C1_STATE_ERROR

text \<open>\<open>cfg_name\<close> has 64 bytes and \<open>cfg_version\<close> 32.\<close>

record service_config =
  cfg_name :: bytes
  cfg_version :: bytes
  cfg_flags :: u32
  cfg_priority :: u32

record service_context =
  config :: service_config
  svc_state :: c1_service_state
  start_time :: u64
  uptime :: u64
  error_count :: u32
  last_error :: u64

text \<open>Function pointers, 0 for \<open>NULL\<close>.\<close>

record service_callbacks =
  cb_init :: u64
  cb_start :: u64
  cb_stop :: u64
  cb_cleanup :: u64
  cb_error_handler :: u64

record c1_core0_api =
  api_cap_grant :: u64
  api_cap_revoke :: u64
  api_cap_check :: u64
  api_mem_alloc :: u64
  api_mem_free :: u64
  api_mem_map :: u64
  api_mem_unmap :: u64
  api_ipc_call :: u64
  api_ipc_register :: u64
  api_ipc_unregister :: u64
  api_thread_create :: u64
  api_thread_exit :: u64
  api_thread_yield :: u64
  api_thread_sleep :: u64
  api_inb :: u64
  api_outb :: u64
  api_inw :: u64
  api_outw :: u64
  api_inl :: u64
  api_outl :: u64
  api_log :: u64
  api_log_hex :: u64
  api_service_start :: u64
  api_service_stop :: u64
  api_service_restart :: u64

record c1_state = c1_ipc_state +
  g_service_ctx :: service_context
  g_callbacks :: service_callbacks
  g_service_lock :: u64
  g_core0_api :: "c1_core0_api option"

record 's service_env =
  call_back :: "u64 \<Rightarrow> 's \<Rightarrow> (int \<times> 's) outcome"
  call_error_handler :: "u64 \<Rightarrow> u64 \<Rightarrow> 's \<Rightarrow> 's outcome"
  call_log :: "u64 \<Rightarrow> bytes \<Rightarrow> 's \<Rightarrow> 's outcome"

definition service_locked :: "('z c1_state_scheme \<Rightarrow> ('r \<times> 'z c1_state_scheme) outcome) \<Rightarrow> 'z c1_state_scheme \<Rightarrow> ('r \<times> 'z c1_state_scheme) outcome" where
  "service_locked = locked g_service_lock g_service_lock_update"

interpretation c1_service_spin: spin_locked g_service_lock g_service_lock_update
  by unfold_locales simp

definition set_svc_state :: "c1_service_state \<Rightarrow> 'z c1_state_scheme \<Rightarrow> 'z c1_state_scheme" where
  "set_svc_state st s = s\<lparr>g_service_ctx := (g_service_ctx s)\<lparr>svc_state := st\<rparr>\<rparr>"

section \<open>Configuration\<close>

text \<open>\<open>strncpy(field, src, n); field[n] = 0\<close> for an array of \<open>n + 1\<close> bytes.\<close>

definition set_text :: "u64 \<Rightarrow> bytes \<Rightarrow> bytes \<Rightarrow> bytes outcome" where
  "set_text n field src = bindR (c1_strncpy (Some field) (Some src) n) (\<lambda>d. case d of
     None \<Rightarrow> Fault
   | Some d \<Rightarrow> if unat n < length d then Ret (d[unat n := 0]) else Fault)"

definition service_framework_init ::
  "bytes option \<Rightarrow> bytes option \<Rightarrow> u32 \<Rightarrow> 'z c1_state_scheme \<Rightarrow> (int \<times> 'z c1_state_scheme) outcome" where
  "service_framework_init name version flags s = (case (name, version) of
     (Some nm, Some ver) \<Rightarrow> service_locked (\<lambda>s.
       bindR (set_text 63 (cfg_name (config (g_service_ctx s))) nm) (\<lambda>nm'.
       bindR (set_text 31 (cfg_version (config (g_service_ctx s))) ver) (\<lambda>ver'.
       Ret (0, s\<lparr>g_service_ctx := \<lparr>config = \<lparr>cfg_name = nm', cfg_version = ver', cfg_flags = flags,
           cfg_priority = 0\<rparr>, svc_state = C1_STATE_INIT, start_time = 0, uptime = 0, error_count = 0,
         last_error = 0\<rparr>\<rparr>)))) s
   | _ \<Rightarrow> Ret (-1, s))"

definition service_register_callbacks :: "service_callbacks option \<Rightarrow> 'z c1_state_scheme \<Rightarrow> (int \<times> 'z c1_state_scheme) outcome" where
  "service_register_callbacks callbacks s = (case callbacks of
     None \<Rightarrow> Ret (-1, s)
   | Some cb \<Rightarrow> service_locked (\<lambda>s. Ret (0, s\<lparr>g_callbacks := cb\<rparr>)) s)"

section \<open>Life cycle\<close>

definition c1_service_start :: "'z c1_state_scheme service_env \<Rightarrow> 'z c1_state_scheme \<Rightarrow> (int \<times> 'z c1_state_scheme) outcome" where
  "c1_service_start env s =
     bindR (service_locked (\<lambda>s.
       if svc_state (g_service_ctx s) \<noteq> C1_STATE_INIT \<and> svc_state (g_service_ctx s) \<noteq> C1_STATE_STOPPED
       then Ret (-1, s)
       else Ret (0, s\<lparr>g_service_ctx := (g_service_ctx s)\<lparr>svc_state := C1_STATE_RUNNING, start_time := 0\<rparr>\<rparr>)) s) (\<lambda>(r, s).
     if r \<noteq> 0 then Ret (r, s)
     else if cb_start (g_callbacks s) \<noteq> 0 then call_back env (cb_start (g_callbacks s)) s
     else Ret (0, s))"

definition c1_service_stop :: "'z c1_state_scheme service_env \<Rightarrow> 'z c1_state_scheme \<Rightarrow> (int \<times> 'z c1_state_scheme) outcome" where
  "c1_service_stop env s =
     bindR (service_locked (\<lambda>s.
       if svc_state (g_service_ctx s) \<noteq> C1_STATE_RUNNING then Ret (-1, s)
       else Ret (0, set_svc_state C1_STATE_STOPPING s)) s) (\<lambda>(r, s).
     if r \<noteq> 0 then Ret (r, s)
     else bindR (if cb_stop (g_callbacks s) \<noteq> 0 then call_back env (cb_stop (g_callbacks s)) s else Ret (0, s)) (\<lambda>(_, s).
       service_locked (\<lambda>s. Ret (0, set_svc_state C1_STATE_STOPPED s)) s))"

definition c1_service_restart :: "'z c1_state_scheme service_env \<Rightarrow> 'z c1_state_scheme \<Rightarrow> (int \<times> 'z c1_state_scheme) outcome" where
  "c1_service_restart env s = bindR (c1_service_stop env s) (\<lambda>(ret, s).
     if ret \<noteq> 0 then Ret (ret, s) else c1_service_start env s)"

definition service_get_context :: "'z c1_state_scheme \<Rightarrow> service_context" where
  "service_get_context s = g_service_ctx s"

definition service_report_error :: "'z c1_state_scheme service_env \<Rightarrow> u64 \<Rightarrow> 'z c1_state_scheme \<Rightarrow> (unit \<times> 'z c1_state_scheme) outcome" where
  "service_report_error env code s =
     bindR (service_locked (\<lambda>s. Ret ((), s\<lparr>g_service_ctx := (g_service_ctx s)\<lparr>
       error_count := error_count (g_service_ctx s) + 1, last_error := code\<rparr>\<rparr>)) s) (\<lambda>(_, s).
     if cb_error_handler (g_callbacks s) \<noteq> 0
     then bindR (call_error_handler env (cb_error_handler (g_callbacks s)) code s) (\<lambda>s. Ret ((), s))
     else Ret ((), s))"

definition service_update_uptime :: "'z c1_state_scheme \<Rightarrow> 'z c1_state_scheme" where "service_update_uptime s = s"

definition service_yield :: "'z c1_state_scheme \<Rightarrow> 'z c1_state_scheme" where "service_yield s = s"

text \<open>The delay loop: the counter after it. The bound wraps.\<close>

function delay_loop :: "u64 \<Rightarrow> u64 \<Rightarrow> u64" where
  "delay_loop i n = (if i < n then delay_loop (i + 1) n else i)"
  by pat_completeness auto
termination
proof (relation "measure (\<lambda>(i, n). unat n - unat i)")
  fix i n :: u64
  assume "i < n"
  then have "i \<noteq> - 1" using word_order.extremum [of n] by auto
  then have "unat (i + 1) = Suc (unat i)" by (rule unat_inc)
  with \<open>i < n\<close> show "((i + 1, n), (i, n)) \<in> measure (\<lambda>(i, n). unat n - unat i)"
    by (simp add: word_less_nat_alt)
qed simp

declare delay_loop.simps [simp del]

definition service_sleep :: "u64 \<Rightarrow> 'z c1_state_scheme \<Rightarrow> 'z c1_state_scheme" where
  "service_sleep ms s = (let i = delay_loop 0 (ms * 1000) in s)"

section \<open>Logging\<close>

definition log_to_core0 :: "'z c1_state_scheme service_env \<Rightarrow> bytes \<Rightarrow> 'z c1_state_scheme \<Rightarrow> 'z c1_state_scheme outcome" where
  "log_to_core0 env msg s = (case g_core0_api s of
     None \<Rightarrow> Ret s
   | Some api \<Rightarrow> if api_log api \<noteq> 0 then call_log env (api_log api) msg s else Ret s)"

text \<open>The message is built in an array of 256 bytes, of which the terminated string is read.\<close>

definition format_log :: "bytes \<Rightarrow> fmt_arg list \<Rightarrow> bytes outcome" where
  "format_log fmt args = bindR (snprintf (Some (replicate 256 0)) 256 (Some fmt) args) (\<lambda>(n, buf).
     case buf of None \<Rightarrow> Fault | Some b \<Rightarrow> Ret b)"

definition service_log :: "'z c1_state_scheme service_env \<Rightarrow> bytes option \<Rightarrow> 'z c1_state_scheme \<Rightarrow> 'z c1_state_scheme outcome" where
  "service_log env message s = (case message of
     None \<Rightarrow> Ret s
   | Some m \<Rightarrow> bindR (format_log (lit ''[%s] %s'')
         [Arg_str (Some (cfg_name (config (g_service_ctx s)))), Arg_str (Some m)]) (\<lambda>msg.
       log_to_core0 env msg s))"

definition service_log_error :: "'z c1_state_scheme service_env \<Rightarrow> bytes option \<Rightarrow> u64 \<Rightarrow> 'z c1_state_scheme \<Rightarrow> 'z c1_state_scheme outcome" where
  "service_log_error env message code s = (case message of
     None \<Rightarrow> Ret s
   | Some m \<Rightarrow> bindR (format_log (lit ''[%s] ERROR: %s (0x%lx)'')
         [Arg_str (Some (cfg_name (config (g_service_ctx s)))), Arg_str (Some m), Arg_ulong code]) (\<lambda>msg.
       bindR (log_to_core0 env msg s) (\<lambda>s.
       bindR (service_report_error env code s) (\<lambda>(_, s). Ret s))))"

definition service_main :: "'z c1_state_scheme service_env \<Rightarrow> 'z c1_state_scheme \<Rightarrow> 'z c1_state_scheme outcome" where
  "service_main env s =
     bindR (service_register_callbacks (Some \<lparr>cb_init = 0, cb_start = 0, cb_stop = 0, cb_cleanup = 0,
       cb_error_handler = 0\<rparr>) s) (\<lambda>(_, s).
     bindR (c1_service_start env s) (\<lambda>(_, s).
     service_log env (Some (lit ''Service started'')) s))"

end
