(* ===== verification/Core1.thy ===== *)
theory Core1
  imports C1Service
begin

text \<open>
  The entry points of Core-1 (\<open>Core-1/include/core1.h\<close>, \<open>Core-1/core1.c\<close>): initialisation from what
  Core-0 passes, the main loop, cleanup and panic. The four subsystems start in the order of the
  code, each on the state the one before left.
\<close>

section \<open>Initialisation\<close>

text \<open>\<open>if (g_core0_api->log) g_core0_api->log(...)\<close>; the table is there when this runs.\<close>

definition api_log_msg :: "'z c1_state_scheme service_env \<Rightarrow> string \<Rightarrow> 'z c1_state_scheme \<Rightarrow> 'z c1_state_scheme outcome" where
  "api_log_msg env msg s = (case g_core0_api s of
     None \<Rightarrow> Fault
   | Some api \<Rightarrow> if api_log api \<noteq> 0 then call_log env (api_log api) (lit msg) s else Ret s)"

text \<open>A step whose result is not 0: a message, and -1.\<close>

definition or_fail ::
  "'z c1_state_scheme service_env \<Rightarrow> string \<Rightarrow> ('z c1_state_scheme \<Rightarrow> (int \<times> 'z c1_state_scheme) outcome) \<Rightarrow>
   ('z c1_state_scheme \<Rightarrow> (int \<times> 'z c1_state_scheme) outcome) \<Rightarrow> 'z c1_state_scheme \<Rightarrow> (int \<times> 'z c1_state_scheme) outcome" where
  "or_fail env msg step k s = bindR (step s) (\<lambda>(r, s).
     if r \<noteq> 0 then bindR (api_log_msg env msg s) (\<lambda>s. Ret (-1, s)) else k s)"

text \<open>The four regions; their results are not looked at.\<close>

definition add_service_regions :: "service_info \<Rightarrow> 'z c1_state_scheme \<Rightarrow> 'z c1_state_scheme outcome" where
  "add_service_regions info s =
     bindR (c1_isolation_add_region MEM_REGION_CODE (code_base info) (code_size info)
       (MEM_PERM_READ OR MEM_PERM_EXECUTE) 0 s) (\<lambda>(_, s).
     bindR (c1_isolation_add_region MEM_REGION_DATA (data_base info) (info_data_size info)
       (MEM_PERM_READ OR MEM_PERM_WRITE) 0 s) (\<lambda>(_, s).
     bindR (c1_isolation_add_region MEM_REGION_STACK (stack_base info) (stack_size info)
       (MEM_PERM_READ OR MEM_PERM_WRITE) 0 s) (\<lambda>(_, s).
     bindR (c1_isolation_add_region MEM_REGION_HEAP (info_heap_base info) (info_heap_size info)
       (MEM_PERM_READ OR MEM_PERM_WRITE) 0 s) (\<lambda>(_, s). Ret s))))"

definition core1_init ::
  "'z c1_state_scheme service_env \<Rightarrow> service_info option \<Rightarrow> c1_core0_api option \<Rightarrow> 'z c1_state_scheme \<Rightarrow> (int \<times> 'z c1_state_scheme) outcome" where
  "core1_init env info api s = (case (info, api) of
     (Some i, Some a) \<Rightarrow>
       bindR (api_log_msg env ''Core-1: Initializing service...''
         (s\<lparr>g_service_info := info, g_core0_api := api\<rparr>)) (\<lambda>s.
       or_fail env ''Core-1: Failed to initialize memory manager'' (pmm_init (info_heap_base i) (info_heap_size i)) (
       or_fail env ''Core-1: Failed to initialize isolation'' (c1_isolation_init (info_service_id i) (info_domain_id i)) (\<lambda>s.
       bindR (add_service_regions i s) (
       or_fail env ''Core-1: Failed to initialize IPC'' c1_ipc_init (\<lambda>s.
       bindR (isolation_enable s) (\<lambda>(_, s).
       bindR (api_log_msg env ''Core-1: Initialization complete'' s) (\<lambda>s. Ret (0, s))))))) s)
   | _ \<Rightarrow> Ret (-1, s))"

section \<open>Running and stopping\<close>

text \<open>One turn of \<open>while (1) { service_yield(); service_sleep(100); }\<close>.\<close>

definition idle_turn :: "'z c1_state_scheme \<Rightarrow> 'z c1_state_scheme" where
  "idle_turn s = service_sleep 100 (service_yield s)"

text \<open>The loop never ends; neither does the function, once it is reached.\<close>

definition core1_main :: "'z c1_state_scheme service_env \<Rightarrow> 'z c1_state_scheme \<Rightarrow> unit outcome" where
  "core1_main env s =
     bindR (service_framework_init (Some (lit ''Core-1 Service'')) (Some (lit ''1.0.0'')) 0 s) (\<lambda>(_, s).
     bindR (service_main env s) (\<lambda>s. Hang))"

definition core1_cleanup :: "'z c1_state_scheme service_env \<Rightarrow> 'z c1_state_scheme \<Rightarrow> 'z c1_state_scheme outcome" where
  "core1_cleanup env s =
     bindR (c1_service_stop env s) (\<lambda>(_, s).
     bindR (isolation_disable s) (\<lambda>(_, s).
     log_to_core0 env (lit ''Core-1: Cleanup complete'') s))"

definition core1_panic :: "'z c1_state_scheme service_env \<Rightarrow> bytes option \<Rightarrow> 'z c1_state_scheme \<Rightarrow> unit outcome" where
  "core1_panic env message s =
     bindR (case g_core0_api s of
         None \<Rightarrow> Ret s
       | Some api \<Rightarrow> if api_log api = 0 then Ret s
           else bindR (call_log env (api_log api) (lit ''Core-1 PANIC: '') s) (\<lambda>s.
             case message of None \<Rightarrow> Ret s | Some m \<Rightarrow>
               case g_core0_api s of None \<Rightarrow> Fault | Some api \<Rightarrow> call_log env (api_log api) m s)) (\<lambda>s. Hang)"

section \<open>A service after its initialisation\<close>

text \<open>Adding a region always returns, and changes nothing but the region table.\<close>

lemma c1_add_region_returns:
  assumes s: "iso_table_ok s" and w: "unat base + unat sz < 2 ^ 64"
  obtains r g where "c1_isolation_add_region type base sz perms cap s = Ret (r, s\<lparr>g_isolation := g\<rparr>)"
    "iso_table_ok (s\<lparr>g_isolation := g\<rparr>)" "iso_enabled g = iso_enabled (g_isolation s)"
proof -
  have lock: "ctx_lock (g_isolation s) = 0" using s by (simp add: iso_table_ok_def)
  have "\<exists>r g. c1_isolation_add_region type base sz perms cap s = Ret (r, s\<lparr>g_isolation := g\<rparr>) \<and>
      iso_enabled g = iso_enabled (g_isolation s)"
  proof (cases "MAX_MEM_REGIONS \<le> unat (num_regions (g_isolation s))")
    case True
    then show ?thesis
      by (intro exI [of _ "-1"] exI [of _ "g_isolation s"]) (simp add: c1_isolation_add_region_def)
  next
    case False
    show ?thesis
    proof (cases "first_from (\<lambda>j. regions_overlap base sz (regions (g_isolation s) ! j)) 0 (unat (num_regions (g_isolation s)))")
      case (Some i)
      with False lock show ?thesis
        by (intro exI [of _ "-2"] exI [of _ "ctx_lock_update (\<lambda>_. 0) (g_isolation s)"])
          (simp add: c1_isolation_add_region_def iso_locked_free iso_lock_update_def find_region_eq [OF s])
    next
      case None
      have "unat (num_regions (g_isolation s)) < length (regions (g_isolation s))"
        using False s by (simp add: iso_table_ok_def table_ok_def)
      with False None lock show ?thesis
        by (intro exI [of _ 0] exI [of _ "(g_isolation s)\<lparr>regions := (regions (g_isolation s))
            [unat (num_regions (g_isolation s)) := \<lparr>reg_type = type, phys_base = base, virt_base = base,
              reg_size = sz, permissions = perms, cap_handle = cap\<rparr>],
            num_regions := num_regions (g_isolation s) + 1, ctx_lock := 0\<rparr>"])
          (simp add: c1_isolation_add_region_def iso_locked_free iso_lock_update_def find_region_eq [OF s]
            store_region_def Let_def)
    qed
  qed
  then obtain r g where g: "c1_isolation_add_region type base sz perms cap s = Ret (r, s\<lparr>g_isolation := g\<rparr>)"
    "iso_enabled g = iso_enabled (g_isolation s)" by blast
  with c1_add_region_ok [OF s w g(1)] show thesis using that by blast
qed

text \<open>The region of a service does not reach the end of the address space.\<close>

definition info_ok :: "service_info \<Rightarrow> bool" where
  "info_ok i \<longleftrightarrow> unat (code_base i) + unat (code_size i) < 2 ^ 64 \<and>
     unat (data_base i) + unat (info_data_size i) < 2 ^ 64 \<and>
     unat (stack_base i) + unat (stack_size i) < 2 ^ 64 \<and>
     unat (info_heap_base i) + unat (info_heap_size i) < 2 ^ 64"

lemma add_service_regions_returns:
  assumes s: "iso_table_ok s" and i: "info_ok i"
  obtains g where "add_service_regions i s = Ret (s\<lparr>g_isolation := g\<rparr>)" "iso_table_ok (s\<lparr>g_isolation := g\<rparr>)"
proof -
  obtain r1 g1 where 1: "c1_isolation_add_region MEM_REGION_CODE (code_base i) (code_size i)
      (MEM_PERM_READ OR MEM_PERM_EXECUTE) 0 s = Ret (r1, s\<lparr>g_isolation := g1\<rparr>)" "iso_table_ok (s\<lparr>g_isolation := g1\<rparr>)"
    using c1_add_region_returns [OF s] i unfolding info_ok_def by blast
  obtain r2 g2 where 2: "c1_isolation_add_region MEM_REGION_DATA (data_base i) (info_data_size i)
      (MEM_PERM_READ OR MEM_PERM_WRITE) 0 (s\<lparr>g_isolation := g1\<rparr>) = Ret (r2, s\<lparr>g_isolation := g1\<rparr>\<lparr>g_isolation := g2\<rparr>)"
    "iso_table_ok (s\<lparr>g_isolation := g1\<rparr>\<lparr>g_isolation := g2\<rparr>)"
    using c1_add_region_returns [OF 1(2)] i unfolding info_ok_def by blast
  obtain r3 g3 where 3: "c1_isolation_add_region MEM_REGION_STACK (stack_base i) (stack_size i)
      (MEM_PERM_READ OR MEM_PERM_WRITE) 0 (s\<lparr>g_isolation := g1\<rparr>\<lparr>g_isolation := g2\<rparr>) =
      Ret (r3, s\<lparr>g_isolation := g1\<rparr>\<lparr>g_isolation := g2\<rparr>\<lparr>g_isolation := g3\<rparr>)"
    "iso_table_ok (s\<lparr>g_isolation := g1\<rparr>\<lparr>g_isolation := g2\<rparr>\<lparr>g_isolation := g3\<rparr>)"
    using c1_add_region_returns [OF 2(2)] i unfolding info_ok_def by blast
  obtain r4 g4 where 4: "c1_isolation_add_region MEM_REGION_HEAP (info_heap_base i) (info_heap_size i)
      (MEM_PERM_READ OR MEM_PERM_WRITE) 0 (s\<lparr>g_isolation := g1\<rparr>\<lparr>g_isolation := g2\<rparr>\<lparr>g_isolation := g3\<rparr>) =
      Ret (r4, s\<lparr>g_isolation := g1\<rparr>\<lparr>g_isolation := g2\<rparr>\<lparr>g_isolation := g3\<rparr>\<lparr>g_isolation := g4\<rparr>)"
    "iso_table_ok (s\<lparr>g_isolation := g1\<rparr>\<lparr>g_isolation := g2\<rparr>\<lparr>g_isolation := g3\<rparr>\<lparr>g_isolation := g4\<rparr>)"
    using c1_add_region_returns [OF 3(2)] i unfolding info_ok_def by blast
  have "add_service_regions i s = Ret (s\<lparr>g_isolation := g4\<rparr>)" "iso_table_ok (s\<lparr>g_isolation := g4\<rparr>)"
    using 1(1) 2(1) 3(1) 4 by (simp_all add: add_service_regions_def)
  then show thesis by (rule that)
qed

text \<open>A table of Core-0 without a log routine keeps the messages from changing the state.\<close>

lemma core1_init_ready:
  assumes i: "info_ok i" and heap: "info_heap_base i \<noteq> 0" "50 \<le> unat (info_heap_size i)"
    and api: "api_log a = 0"
  shows "\<exists>t. core1_init env (Some i) (Some a) s = Ret (0, t) \<and>
    iso_table_ok t \<and> iso_enabled (g_isolation t) = 1 \<and>
    heap_rep t [(unat (info_heap_size i), False)] \<and> heap_base (g_heap t) = info_heap_base i \<and>
    g_endpoints t = 0 \<and> g_ipc_lock t = 0 \<and> g_service_info t = Some i \<and> g_core0_api t = Some a \<and>
    endpoints t = endpoints s \<and> g_next_endpoint_id t = 1 \<and> g_service_ctx t = g_service_ctx s \<and>
    g_service_lock t = g_service_lock s \<and> c1_state.more t = c1_state.more s"
proof -
  let ?s1 = "s\<lparr>g_service_info := Some i, g_core0_api := Some a\<rparr>"
  have big: "\<not> info_heap_size i < sizeof_mem_block * 2"
    using heap(2) by (simp add: sizeof_mem_block_def word_less_nat_alt)
  define s2 where "s2 = ?s1\<lparr>g_heap := \<lparr>heap_base = info_heap_base i, heap_size = info_heap_size i,
      first_block = info_heap_base i, heap_lock_word = 0\<rparr>,
    hdr := (hdr ?s1)(info_heap_base i := \<lparr>blk_size = info_heap_size i, blk_used = 0, blk_next = 0, blk_prev = 0\<rparr>)\<rparr>"
  have init: "pmm_init (info_heap_base i) (info_heap_size i) ?s1 = Ret (0, s2)"
    using big by (simp add: pmm_init_def s2_def)
  define s3 where "s3 = s2\<lparr>g_isolation := \<lparr>ctx_service_id = info_service_id i, ctx_domain_id = info_domain_id i,
    regions = replicate MAX_MEM_REGIONS empty_region, num_regions = 0, ctx_lock = 0, iso_enabled = 0\<rparr>\<rparr>"
  have iso: "c1_isolation_init (info_service_id i) (info_domain_id i) s2 = Ret (0, s3)"
    by (simp add: c1_isolation_init_def s3_def)
  have "iso_table_ok s3" by (simp add: s3_def iso_table_ok_def table_ok_def)
  then obtain g where g: "add_service_regions i s3 = Ret (s3\<lparr>g_isolation := g\<rparr>)"
    "iso_table_ok (s3\<lparr>g_isolation := g\<rparr>)" using add_service_regions_returns [OF _ i] by blast
  define t where "t = s3\<lparr>g_isolation := g\<lparr>iso_enabled := 1\<rparr>, g_endpoints := 0, g_num_endpoints := 0,
    g_next_endpoint_id := 1, g_next_msg_id := 1, g_ipc_lock := 0\<rparr>"
  have "core1_init env (Some i) (Some a) s = Ret (0, t)"
    using api init iso g(1) by (simp add: core1_init_def api_log_msg_def or_fail_def c1_ipc_init_def
        isolation_enable_def t_def s2_def s3_def)
  moreover have "iso_table_ok t" using g(2) by (simp add: t_def iso_table_ok_def)
  moreover have "heap_rep t [(unat (info_heap_size i), False)]"
    using heap i by (simp add: t_def s3_def s2_def heap_rep_def heap_lock_def info_ok_def)
  ultimately show ?thesis by (intro exI [of _ t]) (simp add: t_def s3_def s2_def)
qed

section \<open>Properties\<close>

text \<open>
  A service whose regions do not reach the end of the address space, with a heap of at least
  two headers not at address 0 and a Core-0 table without log routine, comes out of \<open>core1_init\<close> with
  result 0 and ready: the region table is well formed, disjoint and enforced, the heap is one free
  block of the size it was given, and there are no endpoints and no lock is held.
\<close>
theorem core1_init_leaves_ready:
  assumes "info_ok i" "info_heap_base i \<noteq> 0" "50 \<le> unat (info_heap_size i)" "api_log a = 0"
  shows "\<exists>t. core1_init env (Some i) (Some a) s = Ret (0, t) \<and>
    iso_table_ok t \<and> iso_enabled (g_isolation t) = 1 \<and>
    heap_rep t [(unat (info_heap_size i), False)] \<and> heap_base (g_heap t) = info_heap_base i \<and>
    g_endpoints t = 0 \<and> g_ipc_lock t = 0 \<and> g_service_info t = Some i"
  using core1_init_ready [OF assms] by blast

definition sample_info :: service_info where
  "sample_info = \<lparr>info_service_id = 1, info_domain_id = 2, code_base = 0x1000, code_size = 0x1000,
     data_base = 0x2000, info_data_size = 0x1000, stack_base = 0x3000, stack_size = 0x1000,
     info_heap_base = 0x4000, info_heap_size = 0x1000, num_caps = 0, cap_handles = replicate 64 0\<rparr>"

definition silent_api :: c1_core0_api where
  "silent_api = \<lparr>api_cap_grant = 0, api_cap_revoke = 0, api_cap_check = 0, api_mem_alloc = 0, api_mem_free = 0,
     api_mem_map = 0, api_mem_unmap = 0, api_ipc_call = 0, api_ipc_register = 0, api_ipc_unregister = 0,
     api_thread_create = 0, api_thread_exit = 0, api_thread_yield = 0, api_thread_sleep = 0, api_inb = 0,
     api_outb = 0, api_inw = 0, api_outw = 0, api_inl = 0, api_outl = 0, api_log = 0, api_log_hex = 0,
     api_service_start = 0, api_service_stop = 0, api_service_restart = 0\<rparr>"

theorem core1_init_leaves_ready_witness:
  "\<forall>env s. \<exists>t. core1_init env (Some sample_info) (Some silent_api) s = Ret (0, t) \<and>
     iso_table_ok t \<and> heap_rep t [(4096, False)] \<and> heap_base (g_heap t) = 0x4000"
proof (intro allI)
  fix env s
  have "info_ok sample_info" by (simp add: info_ok_def sample_info_def)
  from core1_init_leaves_ready [OF this, of silent_api env s]
  show "\<exists>t. core1_init env (Some sample_info) (Some silent_api) s = Ret (0, t) \<and>
     iso_table_ok t \<and> heap_rep t [(4096, False)] \<and> heap_base (g_heap t) = 0x4000"
    by (auto simp: sample_info_def silent_api_def)
qed

end
