(* ===== verification/NetService.thy ===== *)
theory NetService
  imports Core1
begin

text \<open>
  The example service of Core-1 (\<open>Core-1/examples/network_service.c\<close>): a client of the framework, the heap and the
  message endpoints. It supplies the callbacks and the message handler that the theories below leave open, so the
  composition of the layer can be followed here from \<open>core1_init\<close> to the answer of a message.
\<close>

section \<open>State\<close>

definition NET_MSG_SEND :: u32 where "NET_MSG_SEND = 0x01"
definition NET_MSG_RECV :: u32 where "NET_MSG_RECV = 0x02"
definition NET_MSG_STATUS :: u32 where "NET_MSG_STATUS = 0x03"
definition C1_TYPE_RESPONSE :: u32 where "C1_TYPE_RESPONSE = 1"
definition SERVICE_FLAG_AUTO_START :: u32 where "SERVICE_FLAG_AUTO_START = 0x01"

record net_status =
  net_connected :: u32
  packets_sent :: u32
  packets_recv :: u32
  bytes_sent :: u32
  bytes_recv :: u32

record net_state = c1_state +
  g_net_status :: net_status

text \<open>The bytes of the packed structure.\<close>

definition status_bytes :: "net_status \<Rightarrow> bytes" where
  "status_bytes n = concat (map (\<lambda>f. le_bytes 4 (ucast (f n)))
     [net_connected, packets_sent, packets_recv, bytes_sent, bytes_recv])"

definition sizeof_net_status :: u64 where "sizeof_net_status = 20"

section \<open>Callbacks\<close>

text \<open>A callback that logs a message, acts and logs another one.\<close>

definition logs_around ::
  "net_state service_env \<Rightarrow> string \<Rightarrow> (net_state \<Rightarrow> net_state) \<Rightarrow> string \<Rightarrow> net_state \<Rightarrow> (int \<times> net_state) outcome" where
  "logs_around env before act after s =
     bindR (service_log env (Some (lit before)) s) (\<lambda>s.
     bindR (service_log env (Some (lit after)) (act s)) (\<lambda>s. Ret (0, s)))"

definition set_connected :: "u32 \<Rightarrow> net_state \<Rightarrow> net_state" where
  "set_connected v s = s\<lparr>g_net_status := (g_net_status s)\<lparr>net_connected := v\<rparr>\<rparr>"

definition net_service_init :: "net_state service_env \<Rightarrow> net_state \<Rightarrow> (int \<times> net_state) outcome" where
  "net_service_init env =
     logs_around env ''Initializing network service...'' (\<lambda>s. s) ''Network service initialized''"

definition net_service_start :: "net_state service_env \<Rightarrow> net_state \<Rightarrow> (int \<times> net_state) outcome" where
  "net_service_start env =
     logs_around env ''Starting network service...'' (set_connected 1) ''Network service started''"

definition net_service_stop :: "net_state service_env \<Rightarrow> net_state \<Rightarrow> (int \<times> net_state) outcome" where
  "net_service_stop env =
     logs_around env ''Stopping network service...'' (set_connected 0) ''Network service stopped''"

definition net_service_cleanup :: "net_state service_env \<Rightarrow> net_state \<Rightarrow> (int \<times> net_state) outcome" where
  "net_service_cleanup env =
     logs_around env ''Cleaning up network service...'' (\<lambda>s. s) ''Network service cleaned up''"

definition net_service_error_handler :: "net_state service_env \<Rightarrow> u64 \<Rightarrow> net_state \<Rightarrow> net_state outcome" where
  "net_service_error_handler env err s = service_log_error env (Some (lit ''Network error occurred'')) err s"

text \<open>The handler takes the size of the message for its type.\<close>

definition net_ipc_handler ::
  "net_state service_env \<Rightarrow> ipc_msg option \<Rightarrow> net_state \<Rightarrow> (ipc_msg option \<times> net_state) outcome" where
  "net_ipc_handler env msg s = (case msg of
     None \<Rightarrow> Ret (msg, s)
   | Some m \<Rightarrow>
       let n = g_net_status s; d = data_size (header m) in
       if d = NET_MSG_SEND then
         Ret (msg, s\<lparr>g_net_status := n\<lparr>packets_sent := packets_sent n + 1, bytes_sent := bytes_sent n + d\<rparr>\<rparr>)
       else if d = NET_MSG_RECV then
         Ret (msg, s\<lparr>g_net_status := n\<lparr>packets_recv := packets_recv n + 1, bytes_recv := bytes_recv n + d\<rparr>\<rparr>)
       else if d = NET_MSG_STATUS then
         bindR (c1_memcpy (Some (msg_data m)) (Some (status_bytes n)) sizeof_net_status) (\<lambda>x. case x of
           None \<Rightarrow> Fault
         | Some ds \<Rightarrow> Ret (Some (m\<lparr>msg_data := ds, header := (header m)\<lparr>data_size := ucast sizeof_net_status,
             msg_type := C1_TYPE_RESPONSE\<rparr>\<rparr>), s))
       else bindR (service_log_error env (Some (lit ''Unknown message type'')) (ucast d) s) (\<lambda>s. Ret (msg, s)))"

section \<open>Function pointers\<close>

text \<open>The addresses of the functions, which the linker chooses.\<close>

record net_addrs =
  at_init :: u64
  at_start :: u64
  at_stop :: u64
  at_cleanup :: u64
  at_error_handler :: u64
  at_ipc_handler :: u64

text \<open>
  What a call through a pointer does, for a stack with room for \<open>n\<close> nested calls of this kind; the call for
  which there is no room does not return. \<open>log\<close> is the log routine of Core-0.
\<close>

primrec net_env ::
  "net_addrs \<Rightarrow> (u64 \<Rightarrow> bytes \<Rightarrow> net_state \<Rightarrow> net_state outcome) \<Rightarrow> nat \<Rightarrow> net_state service_env" where
  "net_env a log 0 = \<lparr>call_back = (\<lambda>f s. Hang), call_error_handler = (\<lambda>f e s. Hang), call_log = log\<rparr>"
| "net_env a log (Suc n) =
     \<lparr>call_back = (\<lambda>f s.
        if f = at_init a then net_service_init (net_env a log n) s
        else if f = at_start a then net_service_start (net_env a log n) s
        else if f = at_stop a then net_service_stop (net_env a log n) s
        else if f = at_cleanup a then net_service_cleanup (net_env a log n) s else Fault),
      call_error_handler = (\<lambda>f e s.
        if f = at_error_handler a then net_service_error_handler (net_env a log n) e s else Fault),
      call_log = log\<rparr>"

definition run_handler ::
  "net_state service_env \<Rightarrow> net_addrs \<Rightarrow> u64 \<Rightarrow> ipc_msg \<Rightarrow> net_state \<Rightarrow> (ipc_msg \<times> net_state) outcome" where
  "run_handler env a f m s =
     (if f = at_ipc_handler a
      then bindR (net_ipc_handler env (Some m) s) (\<lambda>(x, s). case x of None \<Rightarrow> Fault | Some m \<Rightarrow> Ret (m, s))
      else Fault)"

section \<open>The service\<close>

definition net_callbacks :: "net_addrs \<Rightarrow> service_callbacks" where
  "net_callbacks a = \<lparr>cb_init = at_init a, cb_start = at_start a, cb_stop = at_stop a, cb_cleanup = at_cleanup a,
     cb_error_handler = at_error_handler a\<rparr>"

text \<open>The entry point up to its main loop.\<close>

definition net_service_setup :: "net_state service_env \<Rightarrow> net_addrs \<Rightarrow> net_state \<Rightarrow> net_state outcome" where
  "net_service_setup env a s =
     bindR (service_register_callbacks (Some (net_callbacks a)) s) (\<lambda>(_, s).
     bindR (service_framework_init (Some (lit ''NetworkService'')) (Some (lit ''1.0.0'')) SERVICE_FLAG_AUTO_START s) (\<lambda>(_, s).
     bindR (ipc_register_endpoint (Some (lit ''network'')) IPC_ENDPOINT_SERVER (at_ipc_handler a) s) (\<lambda>(_, s).
     bindR (c1_service_start env s) (\<lambda>(_, s). Ret s))))"

text \<open>The loop behind it only waits; \<open>None\<close> is the loop that never ends.\<close>

partial_function (option) net_main_loop :: "net_state \<Rightarrow> net_state option" where
  "net_main_loop s = net_main_loop (service_sleep 10 (service_yield s))"

definition net_service_main :: "net_state service_env \<Rightarrow> net_addrs \<Rightarrow> net_state \<Rightarrow> net_state outcome" where
  "net_service_main env a s =
     bindR (net_service_setup env a s) (\<lambda>s. case net_main_loop s of None \<Rightarrow> Hang | Some t \<Rightarrow> Ret t)"

lemma main_loop_never_ends: "net_main_loop s = None"
proof -
  have "net_main_loop s = Some t \<Longrightarrow> False" for t
    by (rule net_main_loop.raw_induct [where P = "\<lambda>_ _. False"]) blast+
  then show ?thesis by (cases "net_main_loop s") auto
qed

section \<open>Formatting\<close>

text \<open>Formatting from position \<open>i\<close> on returns, whatever was written so far.\<close>

definition fmt_returns :: "nat \<Rightarrow> bytes \<Rightarrow> nat \<Rightarrow> fmt_arg list \<Rightarrow> bool" where
  "fmt_returns limit f i args \<longleftrightarrow> (\<forall>w d. limit < length d \<and> w \<le> limit \<longrightarrow>
     (\<exists>args' w' d'. fmt_loop limit f i (args, w, d) = Ret (args', w', d') \<and> w' \<le> limit \<and> length d' = length d))"

lemma put_str_returns:
  "0 \<in> set cs \<Longrightarrow> w \<le> limit \<Longrightarrow> limit < length d \<Longrightarrow>
   \<exists>w' d'. put_str cs limit w d = Ret (w', d') \<and> w' \<le> limit \<and> length d' = length d"
  by (induction cs limit w d rule: put_str.induct) auto

lemma put_bytes_returns:
  "w \<le> limit \<Longrightarrow> limit < length d \<Longrightarrow>
   \<exists>w' d'. put_bytes cs limit w d = Ret (w', d') \<and> w' \<le> limit \<and> length d' = length d"
  by (induction cs limit w d rule: put_bytes.induct) auto

lemma fmt_end: "i < length f \<Longrightarrow> f ! i = 0 \<Longrightarrow> fmt_returns limit f i args"
  by (simp add: fmt_returns_def fmt_loop.simps [of limit f i])

lemma fmt_char:
  assumes "i < length f" "f ! i \<noteq> 37" "fmt_returns limit f (Suc i) args"
  shows "fmt_returns limit f i args"
  unfolding fmt_returns_def
proof (intro allI impI)
  fix w :: nat and d :: bytes assume w: "limit < length d \<and> w \<le> limit"
  show "\<exists>args' w' d'. fmt_loop limit f i (args, w, d) = Ret (args', w', d') \<and> w' \<le> limit \<and> length d' = length d"
    using assms w spec [OF spec [OF assms(3) [unfolded fmt_returns_def], of "Suc w"], of "d[w := f ! i]"]
    by (cases "f ! i = 0 \<or> \<not> w < limit")
      (simp_all add: fmt_loop.simps [of limit f i] with_args_def)
qed

lemma fmt_percent:
  assumes "i + 1 < length f" "f ! i = 37" "f ! (i + 1) = 115" "0 \<in> set cs" "fmt_returns limit f (i + 2) args"
  shows "fmt_returns limit f i (Arg_str (Some cs) # args)"
  unfolding fmt_returns_def
proof (intro allI impI)
  fix w :: nat and d :: bytes assume w: "limit < length d \<and> w \<le> limit"
  then obtain w' d' where put: "put_str cs limit w d = Ret (w', d')" "w' \<le> limit" "length d' = length d"
    using put_str_returns [OF assms(4)] by blast
  show "\<exists>args' w' d'. fmt_loop limit f i (Arg_str (Some cs) # args, w, d) = Ret (args', w', d') \<and> w' \<le> limit
      \<and> length d' = length d"
    using assms w put spec [OF spec [OF assms(5) [unfolded fmt_returns_def], of w'], of d']
    by (cases "w < limit")
      (simp_all add: fmt_loop.simps [of limit f i] with_args_def byte_at_def fmt_conv_def)
qed

lemma fmt_percent_lx:
  assumes "i + 2 < length f" "f ! i = 37" "f ! (i + 1) = 108" "f ! (i + 2) = 120" "fmt_returns limit f (i + 3) args"
  shows "fmt_returns limit f i (Arg_ulong v # args)"
  unfolding fmt_returns_def
proof (intro allI impI)
  fix w :: nat and d :: bytes assume w: "limit < length d \<and> w \<le> limit"
  then obtain w' d' where put: "put_bytes (rev (fmt_unsigned 16 (unat v))) limit w d = Ret (w', d')"
    "w' \<le> limit" "length d' = length d"
    using put_bytes_returns by blast
  show "\<exists>args' w' d'. fmt_loop limit f i (Arg_ulong v # args, w, d) = Ret (args', w', d') \<and> w' \<le> limit
      \<and> length d' = length d"
    using assms w put spec [OF spec [OF assms(5) [unfolded fmt_returns_def], of w'], of d']
    by (cases "w < limit")
      (simp_all add: fmt_loop.simps [of limit f i] with_args_def byte_at_def fmt_long_def)
qed

lemma format_log_returns:
  assumes "fmt_returns 255 fmt 0 args"
  shows "\<exists>b. format_log fmt args = Ret b"
proof -
  from assms obtain args' w d where "fmt_loop 255 fmt 0 (args, 0, replicate 256 0) = Ret (args', w, d)"
    "w \<le> 255" "length d = 256"
    unfolding fmt_returns_def by (auto dest!: spec [of _ 0] spec [of _ "replicate 256 0"])
  then show ?thesis by (simp add: format_log_def snprintf_def)
qed

lemma message_formats: "0 \<in> set nm \<Longrightarrow> 0 \<in> set m \<Longrightarrow>
    fmt_returns 255 (lit ''[%s] %s'') 0 [Arg_str (Some nm), Arg_str (Some m)]"
  by (rule fmt_char, simp add: lit_def, simp add: lit_def,
      rule fmt_percent, simp add: lit_def, simp add: lit_def, simp add: lit_def, assumption,
      rule fmt_char, simp add: lit_def, simp add: lit_def,
      rule fmt_char, simp add: lit_def, simp add: lit_def,
      rule fmt_percent, simp add: lit_def, simp add: lit_def, simp add: lit_def, assumption,
      rule fmt_end) (simp_all add: lit_def)

text \<open>No log routine: logging returns and changes nothing.\<close>

definition no_log :: "'z c1_state_scheme \<Rightarrow> bool" where
  "no_log s \<longleftrightarrow> (case g_core0_api s of None \<Rightarrow> True | Some api \<Rightarrow> api_log api = 0)"

lemma service_log_silent:
  assumes "no_log s" "0 \<in> set (cfg_name (config (g_service_ctx s)))"
  shows "service_log env (Some (lit m)) s = Ret s"
proof -
  have "0 \<in> set (lit m)" by (simp add: lit_def)
  from format_log_returns [OF message_formats [OF assms(2) this]] assms(1) show ?thesis
    by (auto simp: service_log_def log_to_core0_def no_log_def split: option.splits)
qed

section \<open>The set-up\<close>

lemma copy_text:
  assumes "0 \<notin> set cs" "i \<le> length cs" "length cs - i < n" "i + n \<le> length d"
  shows "c1_copy_loop n i d (cs @ 0 # rest) =
    Ret (n - (length cs - i), length cs, take i d @ drop i cs @ drop (length cs) d)"
  using assms
proof (induction n arbitrary: i d)
  case (Suc n)
  show ?case
  proof (cases "i = length cs")
    case True
    with Suc.prems show ?thesis by (simp add: nth_append)
  next
    case False
    with Suc.prems have i: "i < length cs" "i < length d" "(cs @ 0 # rest) ! i = cs ! i"
      by (auto simp: nth_append)
    then have "cs ! i \<noteq> 0" using Suc.prems(1) by (metis nth_mem)
    note i = i this
    have "c1_copy_loop n (Suc i) (d[i := cs ! i]) (cs @ 0 # rest) =
      Ret (n - (length cs - Suc i), length cs, take (Suc i) (d[i := cs ! i]) @ drop (Suc i) cs @
        drop (length cs) (d[i := cs ! i]))"
      using Suc.prems i by (intro Suc.IH) auto
    then show ?thesis
      using i Suc.prems by (simp add: take_Suc_conv_app_nth Cons_nth_drop_Suc [symmetric] Suc_diff_Suc)
  qed
qed simp

lemma strncpy_text:
  assumes "0 \<notin> set cs" "length cs < unat n" "unat n \<le> length d"
  shows "c1_strncpy (Some d) (Some (cs @ 0 # rest)) n =
    Ret (Some (cs @ replicate (unat n - length cs) 0 @ drop (unat n) d))"
proof -
  have "c1_copy_loop (unat n) 0 d (cs @ 0 # rest) =
      Ret (unat n - length cs, length cs, cs @ drop (length cs) d)"
    using copy_text [of cs 0 "unat n" d rest] assms by simp
  with assms show ?thesis by (simp add: c1_strncpy_def memset_loop_eq)
qed

lemma lit_text: "lit s = map of_char s @ 0 # []" by (simp add: lit_def)

lemma set_text_lit:
  assumes "0 \<notin> set (map of_char s :: bytes)" "length s < unat n" "length field = Suc (unat n)"
  shows "set_text n field (lit s) = Ret (map of_char s @ replicate (Suc (unat n) - length s) 0)"
proof -
  have "drop (unat n) field = [field ! unat n]"
    using assms(3) by (simp add: Cons_nth_drop_Suc [symmetric])
  moreover have "replicate (unat n - length s) 0 @ [0] = replicate (Suc (unat n) - length s) (0 :: u8)"
    using assms(2) by (simp add: Suc_diff_le replicate_append_same)
  ultimately show ?thesis
    using assms strncpy_text [of "map of_char s" n field "[]"]
    by (simp add: set_text_def lit_text list_update_append)
qed

section \<open>Messages\<close>

text \<open>The error handler reports an error, which calls the error handler.\<close>

lemma log_error_never_returns:
  assumes "\<And>f m s t. log f m s = Ret t \<Longrightarrow> g_callbacks t = g_callbacks s" "at_error_handler a \<noteq> 0"
  shows "cb_error_handler (g_callbacks s) = at_error_handler a \<Longrightarrow>
    service_log_error (net_env a log n) (Some m) e s \<noteq> Ret t"
proof (induction n arbitrary: s m t)
  have log_keeps: "g_callbacks u = g_callbacks s" if "log_to_core0 (net_env a log n) msg s = Ret u" for n msg s u
    using that assms(1) by (cases n) (auto simp: log_to_core0_def split: option.splits if_splits)
  {
    case 0
    show ?case
    proof
      assume "service_log_error (net_env a log 0) (Some m) e s = Ret t"
      then obtain msg u v where "log_to_core0 (net_env a log 0) msg s = Ret u"
        "service_report_error (net_env a log 0) e u = Ret ((), v)"
        by (auto simp: service_log_error_def outcome_simps)
      with log_keeps [OF this(1)] 0 assms(2) show False
        by (auto simp: service_report_error_def service_locked_def outcome_simps split: if_splits)
    qed
  next
    case (Suc n)
    show ?case
    proof
      assume "service_log_error (net_env a log (Suc n)) (Some m) e s = Ret t"
      then obtain msg u v where u: "log_to_core0 (net_env a log (Suc n)) msg s = Ret u"
        "service_report_error (net_env a log (Suc n)) e u = Ret ((), v)"
        by (auto simp: service_log_error_def outcome_simps)
      from log_keeps [OF u(1)] Suc.prems have "cb_error_handler (g_callbacks u) = at_error_handler a" by simp
      define w where "w = u\<lparr>g_service_ctx := (g_service_ctx u)\<lparr>error_count := error_count (g_service_ctx u) + 1,
        last_error := e\<rparr>, g_service_lock := 0\<rparr>"
      with u(2) assms(2) \<open>cb_error_handler (g_callbacks u) = at_error_handler a\<close>
      have "net_service_error_handler (net_env a log n) e w = Ret v" "g_callbacks w = g_callbacks u"
        by (auto simp: service_report_error_def service_locked_def outcome_simps split: if_splits)
      with Suc.IH [of w] \<open>cb_error_handler (g_callbacks u) = at_error_handler a\<close> show False
        by (simp add: net_service_error_handler_def)
    qed
  }
qed

lemma net_delivery:
  assumes "g_ipc_lock s = 0" "walk (find_id (endpoints s) ident (g_endpoints s)) = Ret e" "e \<noteq> 0"
    "ep_handler (endpoints s e) = at_ipc_handler a" "at_ipc_handler a \<noteq> 0" "g_service_info s = Some info"
  shows "ipc_send (run_handler env a) ident (Some m) s =
    bindR (net_ipc_handler env (Some (stamp_header (g_next_msg_id s) (info_service_id info) (ep_service_id (endpoints s e)) m))
        (s\<lparr>g_ipc_lock := 1, g_next_msg_id := g_next_msg_id s + 1\<rparr>))
      (\<lambda>(x, t). case x of None \<Rightarrow> Fault | Some m \<Rightarrow> Ret ((0, Some m), t\<lparr>g_ipc_lock := 0\<rparr>))"
proof -
  have "bindR (bindR o' (\<lambda>(x, s). case x of None \<Rightarrow> Fault | Some m \<Rightarrow> Ret (m, s))) (\<lambda>(m, t). Ret ((0 :: int, Some m), t\<lparr>g_ipc_lock := 0\<rparr>)) =
      bindR o' (\<lambda>(x, t). case x of None \<Rightarrow> Fault | Some m \<Rightarrow> Ret ((0, Some m), t\<lparr>g_ipc_lock := 0\<rparr>))"
    for o' :: "('x option \<times> net_state) outcome"
    by (cases o') (auto split: option.splits)
  with assms show ?thesis
    by (simp add: ipc_send_def ipc_locked_def locked_eq run_handler_def Let_def bindR_assoc case_prod_unfold)
qed

text \<open>The lock of the endpoints is released behind the handler.\<close>

lemma sent_state:
  fixes s :: net_state
  assumes "g_ipc_lock s = 0"
  shows "s\<lparr>g_ipc_lock := 1, g_next_msg_id := k, g_net_status := n, g_ipc_lock := 0\<rparr> = s\<lparr>g_next_msg_id := k, g_net_status := n\<rparr>"
    "s\<lparr>g_ipc_lock := 1, g_next_msg_id := k, g_ipc_lock := 0\<rparr> = s\<lparr>g_next_msg_id := k\<rparr>"
  using assms by (auto intro!: net_state.equality)

text \<open>The endpoint \<open>ident\<close> is there, with the service's own handler and identifier, and nothing holds the lock.\<close>

definition net_serving :: "net_addrs \<Rightarrow> u64 \<Rightarrow> net_state \<Rightarrow> bool" where
  "net_serving a ident s \<longleftrightarrow> g_ipc_lock s = 0 \<and> at_ipc_handler a \<noteq> 0 \<and> at_error_handler a \<noteq> 0 \<and>
     cb_error_handler (g_callbacks s) = at_error_handler a \<and>
     (\<exists>e info. walk (find_id (endpoints s) ident (g_endpoints s)) = Ret e \<and> e \<noteq> 0 \<and>
        ep_handler (endpoints s e) = at_ipc_handler a \<and> g_service_info s = Some info \<and>
        ep_service_id (endpoints s e) = info_service_id info)"

definition stamped :: "net_state \<Rightarrow> ipc_msg \<Rightarrow> ipc_msg" where
  "stamped s m = (let own = info_service_id (the (g_service_info s)) in stamp_header (g_next_msg_id s) own own m)"

text \<open>
  What a message to the network service does. A message of 1 or 2 bytes counts as a packet sent or received, of that
  many bytes, and the caller gets it back with its header stamped; one of 3 bytes comes back as a response that starts
  with the 20 bytes of the counters; and for any other size \<open>ipc_send\<close> does not return, however deep the stack is: the
  error is logged, the error handler is called for it, and logs an error. The type in the header does not matter.
\<close>

theorem net_message_outcome:
  assumes "net_serving a ident s" "length (msg_data m) = IPC_MAX_MSG_SIZE"
    "\<forall>f x s t. log f x s = Ret t \<longrightarrow> g_callbacks t = g_callbacks s"
  shows "let send = ipc_send (run_handler (net_env a log depth) a) ident (Some m) s;
      d = data_size (header m); m' = stamped s m; s' = s\<lparr>g_next_msg_id := g_next_msg_id s + 1\<rparr>; n = g_net_status s
    in if d = 1 then send = Ret ((0, Some m'),
         s'\<lparr>g_net_status := n\<lparr>packets_sent := packets_sent n + 1, bytes_sent := bytes_sent n + 1\<rparr>\<rparr>)
       else if d = 2 then send = Ret ((0, Some m'),
         s'\<lparr>g_net_status := n\<lparr>packets_recv := packets_recv n + 1, bytes_recv := bytes_recv n + 2\<rparr>\<rparr>)
       else if d = 3 then send = Ret ((0, Some (m'\<lparr>header := (header m')\<lparr>data_size := 20, msg_type := 1\<rparr>,
         msg_data := status_bytes n @ drop 20 (msg_data m)\<rparr>)), s')
       else \<forall>r. send \<noteq> Ret r"
proof -
  let ?d = "data_size (header m)" and ?s = "s\<lparr>g_ipc_lock := 1, g_next_msg_id := g_next_msg_id s + 1\<rparr>"
  let ?n = "g_net_status s"
  from assms(1) obtain e info where s: "g_ipc_lock s = 0" "walk (find_id (endpoints s) ident (g_endpoints s)) = Ret e"
    "e \<noteq> 0" "ep_handler (endpoints s e) = at_ipc_handler a" "at_ipc_handler a \<noteq> 0" "g_service_info s = Some info"
    "ep_service_id (endpoints s e) = info_service_id info" "at_error_handler a \<noteq> 0"
    "cb_error_handler (g_callbacks s) = at_error_handler a"
    by (auto simp: net_serving_def)
  have m': "data_size (header (stamped s m)) = ?d" "msg_data (stamped s m) = msg_data m"
    by (simp_all add: stamped_def stamp_header_def Let_def)
  have send: "ipc_send (run_handler (net_env a log depth) a) ident (Some m) s =
      bindR (net_ipc_handler (net_env a log depth) (Some (stamped s m)) ?s)
        (\<lambda>(x, t). case x of None \<Rightarrow> Fault | Some m \<Rightarrow> Ret ((0, Some m), t\<lparr>g_ipc_lock := 0\<rparr>))"
    using net_delivery [OF s(1-6)] by (simp add: stamped_def s(6,7) Let_def)
  have "length (status_bytes ?n) = 20" by (simp add: status_bytes_def)
  then have copy: "c1_memcpy (Some (msg_data m)) (Some (status_bytes ?n)) sizeof_net_status =
      Ret (Some (status_bytes ?n @ drop 20 (msg_data m)))"
    using assms(2) by (simp add: c1_memcpy_def sizeof_net_status_def memcpy_loop_eq IPC_MAX_MSG_SIZE_def)
  have never: "service_log_error (net_env a log depth) (Some (lit ''Unknown message type'')) (ucast ?d) ?s \<noteq> Ret t" for t
    using log_error_never_returns [of log a ?s] assms(3) s(8,9) by simp
  note cases = net_ipc_handler_def NET_MSG_SEND_def NET_MSG_RECV_def NET_MSG_STATUS_def m' Let_def
  consider "?d = 1" | "?d = 2" | "?d = 3" | "?d \<noteq> 1" "?d \<noteq> 2" "?d \<noteq> 3" by blast
  then show ?thesis
  proof cases
    case 4
    with never show ?thesis by (auto simp: send cases outcome_simps)
  qed (simp_all add: send cases sent_state [OF s(1)] copy, simp add: sizeof_net_status_def C1_TYPE_RESPONSE_def)
qed

section \<open>From the initialisation to the answer\<close>

lemma heap_rep_cong:
  "g_heap t = g_heap s \<Longrightarrow> hdr t = hdr s \<Longrightarrow> heap_rep t xs = heap_rep s xs"
  by (simp add: heap_rep_def heap_lock_def)

text \<open>The addresses the linker chose: none is 0, and the callbacks are different functions.\<close>

definition net_addrs_ok :: "net_addrs \<Rightarrow> bool" where
  "net_addrs_ok a \<longleftrightarrow> at_ipc_handler a \<noteq> 0 \<and> at_error_handler a \<noteq> 0 \<and> at_start a \<noteq> 0 \<and> at_start a \<noteq> at_init a"

text \<open>The arrays have the sizes they are declared with.\<close>

definition net_sizes_ok :: "net_state \<Rightarrow> bool" where
  "net_sizes_ok s \<longleftrightarrow> length (cfg_name (config (g_service_ctx s))) = 64 \<and>
     length (cfg_version (config (g_service_ctx s))) = 32 \<and> (\<forall>p. length (ep_name (endpoints s p)) = 64)"

lemma net_setup_ready:
  fixes s :: net_state
  assumes a: "net_addrs_ok a" and sizes: "net_sizes_ok s"
    and heap: "heap_rep s [(k, False)]" "129 \<le> k"
    and clean: "g_endpoints s = 0" "g_ipc_lock s = 0" "g_service_lock s = 0" "g_service_info s = Some i"
      "g_next_endpoint_id s = 1" "no_log s"
  shows "\<exists>t. net_service_setup (net_env a log (Suc depth)) a s = Ret t \<and> net_serving a 1 t \<and>
    svc_state (g_service_ctx t) = C1_STATE_RUNNING \<and> g_net_status t = (g_net_status s)\<lparr>net_connected := 1\<rparr>"
proof -
  define nm where "nm = map of_char ''NetworkService'' @ replicate 50 (0 :: u8)"
  define ver where "ver = map of_char ''1.0.0'' @ replicate 27 (0 :: u8)"
  define s1 where "s1 = s\<lparr>g_callbacks := net_callbacks a, g_service_lock := 0\<rparr>"
  have 1: "service_register_callbacks (Some (net_callbacks a)) s = Ret (0, s1)"
    using clean(3) by (simp add: service_register_callbacks_def service_locked_def locked_eq s1_def)
  define s2 where "s2 = s1\<lparr>g_service_ctx := \<lparr>config = \<lparr>cfg_name = nm, cfg_version = ver,
      cfg_flags = SERVICE_FLAG_AUTO_START, cfg_priority = 0\<rparr>, svc_state = C1_STATE_INIT, start_time = 0, uptime = 0,
      error_count = 0, last_error = 0\<rparr>\<rparr>"
  have texts: "set_text 63 (cfg_name (config (g_service_ctx s))) (lit ''NetworkService'') = Ret nm"
    "set_text 31 (cfg_version (config (g_service_ctx s))) (lit ''1.0.0'') = Ret ver"
    using sizes by (subst set_text_lit; simp add: net_sizes_ok_def nm_def ver_def)+
  have 2: "service_framework_init (Some (lit ''NetworkService'')) (Some (lit ''1.0.0'')) SERVICE_FLAG_AUTO_START s1 = Ret (0, s2)"
    using texts by (simp add: service_framework_init_def service_locked_def locked_eq s1_def s2_def)
  define s3 where "s3 = s2\<lparr>g_ipc_lock := 1\<rparr>"
  define new where "new = addr (unat (heap_base (g_heap s)) + 25)"
  have rep: "heap_rep s3 [(k, False)]" using heap(1) by (subst heap_rep_cong [of _ s]) (simp_all add: s3_def s2_def s1_def)
  then obtain h where alloc: "pmm_alloc sizeof_ipc_endpoint s3 = Ret (new, s3\<lparr>hdr := h\<rparr>)"
    using pmm_alloc_refines [OF rep, of sizeof_ipc_endpoint 8] heap(2)
    by (auto simp: pmm_alloc_def sizeof_ipc_endpoint_def block_nat_def new_def s3_def s2_def s1_def split: if_splits)
  have "unat (heap_base (g_heap s)) + 25 < 2 ^ 64"
    using heap unfolding heap_rep_def by simp
  then have new0: "new \<noteq> 0" by (simp add: new_def addr_eq_0_iff)
  define ep where "ep = \<lparr>endpoint_id = 1, ep_name = (map of_char ''network'' @ replicate 56 0 @
      drop 63 (ep_name (endpoints s new)))[63 := 0], ep_type = IPC_ENDPOINT_SERVER,
      ep_service_id = info_service_id i, ep_handler = at_ipc_handler a, ep_next = 0\<rparr>"
  define s4 where "s4 = s3\<lparr>hdr := h, endpoints := (endpoints s)(new := ep), g_next_endpoint_id := 2, g_endpoints := new,
      g_num_endpoints := g_num_endpoints s + 1, g_ipc_lock := 0\<rparr>"
  have "c1_strncpy (Some (ep_name (endpoints s new))) (Some (lit ''network'')) 63 =
      Ret (Some (map of_char ''network'' @ replicate 56 0 @ drop 63 (ep_name (endpoints s new))))"
    using sizes strncpy_text [of "map of_char ''network''" 63 "ep_name (endpoints s new)" "[]"]
    by (simp add: net_sizes_ok_def lit_text)
  moreover have "lookup_name (lit ''network'') s3 = Ret (0, 0)"
    using clean(1) by (simp add: lookup_name_def walk_def s3_def s2_def s1_def find_name.simps)
  ultimately have 3: "ipc_register_endpoint (Some (lit ''network'')) IPC_ENDPOINT_SERVER (at_ipc_handler a) s2 = Ret (1, s4)"
    using alloc new0 clean a
    by (simp add: ipc_register_endpoint_def net_addrs_ok_def ipc_locked_def locked_eq s3_def [symmetric])
      (simp add: link_endpoint_def s4_def s3_def s2_def s1_def ep_def)
  define s5 where "s5 = s4\<lparr>g_service_ctx := (g_service_ctx s4)\<lparr>svc_state := C1_STATE_RUNNING, start_time := 0\<rparr>, g_service_lock := 0\<rparr>"
  have silent: "service_log env (Some (lit m)) t = Ret t"
    if "g_core0_api t = g_core0_api s" "cfg_name (config (g_service_ctx t)) = nm" for env m and t :: net_state
    using clean(6) that by (intro service_log_silent) (simp_all add: no_log_def nm_def)
  have ctx: "cfg_name (config (g_service_ctx s5)) = nm" "g_core0_api s5 = g_core0_api s" "cb_start (g_callbacks s5) = at_start a"
    by (simp_all add: s5_def s4_def s3_def s2_def s1_def net_callbacks_def)
  have "net_service_start (net_env a log depth) s5 = Ret (0, set_connected 1 s5)"
    using ctx by (simp add: net_service_start_def logs_around_def silent set_connected_def)
  then have 4: "c1_service_start (net_env a log (Suc depth)) s4 = Ret (0, set_connected 1 s5)"
    using ctx a clean(3)
    by (simp add: c1_service_start_def service_locked_def locked_eq net_addrs_ok_def s5_def [symmetric])
      (simp add: s5_def s4_def s3_def s2_def s1_def net_addrs_ok_def)
  have "find_id (endpoints s4) 1 new = Some new"
    using new0 by (simp add: find_id.simps s4_def ep_def)
  then have "net_serving a 1 (set_connected 1 s5)"
    using new0 a clean(4)
    by (auto simp: net_serving_def set_connected_def walk_def net_addrs_ok_def s5_def s4_def s3_def s2_def s1_def ep_def net_callbacks_def)
  with 1 2 3 4 show ?thesis
    by (simp add: net_service_setup_def)
      (simp add: set_connected_def s5_def s4_def s3_def s2_def s1_def)
qed

text \<open>
  C26. The network service comes up. Started by Core-0 with regions that do not wrap, a heap that has room for an
  endpoint, and no log routine, \<open>core1_init\<close> returns 0, and the entry point of the service then gets to its main loop,
  which it never leaves: the service runs, is connected, its counters are those it started with, and endpoint 1 leads
  to its handler.
\<close>

theorem net_service_comes_up:
  assumes "info_ok i" "info_heap_base i \<noteq> 0" "129 \<le> unat (info_heap_size i)" "api_log api = 0"
    "net_addrs_ok a" "net_sizes_ok s" "g_service_lock s = 0"
  shows "\<exists>t u. core1_init env (Some i) (Some api) s = Ret (0, t) \<and>
    net_service_setup (net_env a log (Suc depth)) a t = Ret u \<and>
    net_service_main (net_env a log (Suc depth)) a t = Hang \<and> net_serving a 1 u \<and>
    svc_state (g_service_ctx u) = C1_STATE_RUNNING \<and> g_net_status u = (g_net_status s)\<lparr>net_connected := 1\<rparr>"
proof -
  obtain t where t: "core1_init env (Some i) (Some api) s = Ret (0, t)"
    "heap_rep t [(unat (info_heap_size i), False)]" "g_endpoints t = 0" "g_ipc_lock t = 0" "g_service_info t = Some i"
    "g_core0_api t = Some api" "endpoints t = endpoints s" "g_next_endpoint_id t = 1" "g_service_ctx t = g_service_ctx s"
    "g_service_lock t = g_service_lock s" "c1_state.more t = c1_state.more s"
    using core1_init_ready [OF assms(1,2) _ assms(4), of env s] assms(3) by auto
  have "net_sizes_ok t" using assms(6) t(7,9) by (simp add: net_sizes_ok_def)
  moreover have "no_log t" using t(6) assms(4) by (simp add: no_log_def)
  ultimately obtain u where u: "net_service_setup (net_env a log (Suc depth)) a t = Ret u" "net_serving a 1 u"
    "svc_state (g_service_ctx u) = C1_STATE_RUNNING" "g_net_status u = (g_net_status t)\<lparr>net_connected := 1\<rparr>"
    using net_setup_ready [OF assms(5) _ t(2) assms(3) t(3,4) _ t(5,8)] assms(7) t(10) by metis
  moreover have "g_net_status t = g_net_status s"
    using t(11) by (cases t; cases s) (simp add: net_state.defs)
  ultimately show ?thesis using t(1) by (auto simp: net_service_main_def main_loop_never_ends)
qed

section \<open>A sample service\<close>

definition sample_addrs :: net_addrs where
  "sample_addrs = \<lparr>at_init = 0x1100, at_start = 0x1200, at_stop = 0x1300, at_cleanup = 0x1400,
     at_error_handler = 0x1500, at_ipc_handler = 0x1600\<rparr>"

definition sample_endpoint :: ipc_endpoint where
  "sample_endpoint = \<lparr>endpoint_id = 0, ep_name = replicate 64 0, ep_type = IPC_ENDPOINT_SERVER, ep_service_id = 0,
     ep_handler = 0, ep_next = 0\<rparr>"

definition sample_net :: net_state where
  "sample_net = c1_heap_state.extend sample_heap
    \<lparr>endpoints = (\<lambda>_. sample_endpoint),
     channels = (\<lambda>_. \<lparr>channel_id = 0, chan_phys_addr = 0, chan_size = 0, chan_cap_handle = 0, read_ptr = 0,
       write_ptr = 0, chan_lock = 0\<rparr>),
     g_endpoints = 0, g_num_endpoints = 0, g_next_endpoint_id = 1, g_next_msg_id = 1, g_ipc_lock = 0,
     g_service_info = None,
     g_service_ctx = \<lparr>config = \<lparr>cfg_name = replicate 64 0, cfg_version = replicate 32 0, cfg_flags = 0, cfg_priority = 0\<rparr>,
       svc_state = C1_STATE_INIT, start_time = 0, uptime = 0, error_count = 0, last_error = 0\<rparr>,
     g_callbacks = \<lparr>cb_init = 0, cb_start = 0, cb_stop = 0, cb_cleanup = 0, cb_error_handler = 0\<rparr>,
     g_service_lock = 0, g_core0_api = None,
     g_net_status = \<lparr>net_connected = 0, packets_sent = 0, packets_recv = 0, bytes_sent = 0, bytes_recv = 0\<rparr>\<rparr>"

lemma sample_net_ok: "net_addrs_ok sample_addrs" "net_sizes_ok sample_net" "g_service_lock sample_net = 0"
  "g_net_status sample_net = \<lparr>net_connected = 0, packets_sent = 0, packets_recv = 0, bytes_sent = 0, bytes_recv = 0\<rparr>"
  by (simp_all add: net_addrs_ok_def sample_addrs_def net_sizes_ok_def sample_net_def sample_endpoint_def c1_heap_state.defs)

theorem net_service_comes_up_witness:
  "\<exists>t u. core1_init (net_env sample_addrs (\<lambda>_ _. Ret) 0) (Some sample_info) (Some silent_api) sample_net = Ret (0, t) \<and>
     net_service_setup (net_env sample_addrs (\<lambda>_ _. Ret) 1) sample_addrs t = Ret u \<and> net_serving sample_addrs 1 u \<and>
     net_connected (g_net_status u) = 1"
proof -
  have "info_ok sample_info" by (simp add: info_ok_def sample_info_def)
  from net_service_comes_up [OF this _ _ _ sample_net_ok(1-3), of silent_api "net_env sample_addrs (\<lambda>_ _. Ret) 0" "\<lambda>_ _. Ret" 0]
  show ?thesis by (auto simp: sample_info_def silent_api_def sample_net_ok(4))
qed

text \<open>The same service with its endpoint, and messages to it.\<close>

definition sample_serving :: net_state where
  "sample_serving = sample_net\<lparr>endpoints := (endpoints sample_net)(0x5000 := sample_endpoint\<lparr>endpoint_id := 1,
       ep_service_id := 1, ep_handler := 0x1600\<rparr>), g_endpoints := 0x5000, g_service_info := Some sample_info,
     g_callbacks := net_callbacks sample_addrs,
     g_net_status := \<lparr>net_connected = 1, packets_sent = 2, packets_recv = 0, bytes_sent = 2, bytes_recv = 0\<rparr>\<rparr>"

definition sample_request :: "u32 \<Rightarrow> ipc_msg" where
  "sample_request k = \<lparr>header = \<lparr>msg_type = 0, msg_id = 0, src_service = 0, dst_service = 0, data_size = k, msg_flags = 0,
     timestamp = 0\<rparr>, msg_data = replicate IPC_MAX_MSG_SIZE 0\<rparr>"

lemma sample_serving_ok: "net_serving sample_addrs 1 sample_serving"
  by (simp add: net_serving_def sample_addrs_def sample_serving_def sample_net_def net_callbacks_def walk_def find_id.simps
      sample_info_def c1_heap_state.defs)

theorem net_message_outcome_witness:
  "(\<exists>m t. ipc_send (run_handler (net_env sample_addrs (\<lambda>_ _. Ret) 9) sample_addrs) 1 (Some (sample_request 3)) sample_serving =
      Ret ((0, Some m), t) \<and> take 8 (msg_data m) = [1, 0, 0, 0, 2, 0, 0, 0]) \<and>
   (\<forall>r. ipc_send (run_handler (net_env sample_addrs (\<lambda>_ _. Ret) 9) sample_addrs) 1 (Some (sample_request 4)) sample_serving \<noteq> Ret r)"
proof -
  note sends = net_message_outcome [OF sample_serving_ok, of _ "\<lambda>_ _. Ret" 9, simplified]
  have "length (msg_data (sample_request k)) = IPC_MAX_MSG_SIZE" for k by (simp add: sample_request_def)
  with sends [of "sample_request 3"] sends [of "sample_request 4"] show ?thesis
    by (simp add: sample_request_def stamped_def Let_def sample_serving_def status_bytes_def le_bytes_def upt_rec)
qed

end
