(* ===== verification/C3Heap.thy ===== *)
theory C3Heap
  imports C1Isolation Blocks
begin

text \<open>
  The heap of an application (\<open>Core-3/include/virtual_mem.h\<close>, \<open>Core-3/mm/virtual_mem.c\<close>): the block
  list of theory \<open>Blocks\<close> with a counter of used bytes, the mapping calls built on it, and
  \<open>malloc\<close>, \<open>free\<close>, \<open>realloc\<close> and \<open>calloc\<close>. \<open>vhdr\<close> holds the header at an address, \<open>vmem\<close> the bytes the
  application keeps in its blocks.
\<close>

section \<open>Data\<close>

definition MALLOC_ALIGN :: u64 where "MALLOC_ALIGN = 16"

record vmm_heap =
  vh_base :: u64
  vh_size :: u64
  vh_used :: u64
  vh_lock :: u64

record c3_heap_state =
  g_vheap :: vmm_heap
  vhdr :: "u64 \<Rightarrow> mem_block"
  vmem :: "u64 \<Rightarrow> u8"

definition vmm_lock :: "'z c3_heap_state_scheme \<Rightarrow> u64" where "vmm_lock s = vh_lock (g_vheap s)"

definition vmm_lock_update :: "(u64 \<Rightarrow> u64) \<Rightarrow> 'z c3_heap_state_scheme \<Rightarrow> 'z c3_heap_state_scheme" where
  "vmm_lock_update f = g_vheap_update (vh_lock_update f)"

definition vmm_locked ::
  "('z c3_heap_state_scheme \<Rightarrow> ('r \<times> 'z c3_heap_state_scheme) outcome) \<Rightarrow>
   'z c3_heap_state_scheme \<Rightarrow> ('r \<times> 'z c3_heap_state_scheme) outcome" where
  "vmm_locked = locked vmm_lock vmm_lock_update"

interpretation vmm_spin: spin_locked vmm_lock vmm_lock_update
  by unfold_locales (simp add: vmm_lock_def vmm_lock_update_def)

section \<open>Operations\<close>

definition vmm_init :: "u64 \<Rightarrow> u64 \<Rightarrow> 'z c3_heap_state_scheme \<Rightarrow> (int \<times> 'z c3_heap_state_scheme) outcome" where
  "vmm_init base sz s =
     (if sz < sizeof_mem_block * 2 then Ret (-1, s)
      else Ret (0, s\<lparr>g_vheap := \<lparr>vh_base = base, vh_size = sz, vh_used = 0, vh_lock = 0\<rparr>,
        vhdr := (vhdr s)(base := \<lparr>blk_size = sz, blk_used = 0, blk_next = 0, blk_prev = 0\<rparr>)\<rparr>))"

text \<open>\<open>g_heap.used += n\<close>.\<close>

definition add_used :: "u64 \<Rightarrow> 'z c3_heap_state_scheme \<Rightarrow> 'z c3_heap_state_scheme" where
  "add_used n s = s\<lparr>g_vheap := (g_vheap s)\<lparr>vh_used := vh_used (g_vheap s) + n\<rparr>\<rparr>"

definition vmm_alloc_aligned ::
  "u64 \<Rightarrow> u64 \<Rightarrow> 'z c3_heap_state_scheme \<Rightarrow> (u64 \<times> 'z c3_heap_state_scheme) outcome" where
  "vmm_alloc_aligned sz alignment s =
     (if sz = 0 then Ret (0, s)
      else vmm_locked (\<lambda>s. bindR (walk (fit_walk (vhdr s) (block_bytes sz) (vh_base (g_vheap s)))) (\<lambda>b.
        if b = 0 then Ret (0, s)
        else let m = take_block b (block_bytes sz) (vhdr s)
             in Ret (b + sizeof_mem_block, add_used (blk_size (m b)) (s\<lparr>vhdr := m\<rparr>)))) s)"

definition vmm_alloc :: "u64 \<Rightarrow> 'z c3_heap_state_scheme \<Rightarrow> (u64 \<times> 'z c3_heap_state_scheme) outcome" where
  "vmm_alloc sz = vmm_alloc_aligned sz MALLOC_ALIGN"

definition vmm_free :: "u64 \<Rightarrow> 'z c3_heap_state_scheme \<Rightarrow> (unit \<times> 'z c3_heap_state_scheme) outcome" where
  "vmm_free p s =
     (if p = 0 then Ret ((), s)
      else let b = p - sizeof_mem_block in
        vmm_locked (\<lambda>s. Ret ((), add_used (- blk_size (vhdr s b)) (s\<lparr>vhdr := free_block b (vhdr s)\<rparr>))) s)"

definition vmm_mmap ::
  "u64 \<Rightarrow> u64 \<Rightarrow> u32 \<Rightarrow> u32 \<Rightarrow> u32 \<Rightarrow> u64 \<Rightarrow> 'z c3_heap_state_scheme \<Rightarrow> (u64 \<times> 'z c3_heap_state_scheme) outcome" where
  "vmm_mmap address len prot flags fd offset = vmm_alloc len"

definition vmm_munmap :: "u64 \<Rightarrow> u64 \<Rightarrow> 'z c3_heap_state_scheme \<Rightarrow> (int \<times> 'z c3_heap_state_scheme) outcome" where
  "vmm_munmap address len s = bindR (vmm_free address s) (\<lambda>(_, s). Ret (0, s))"

definition vmm_mprotect :: "u64 \<Rightarrow> u64 \<Rightarrow> u32 \<Rightarrow> 'z c3_heap_state_scheme \<Rightarrow> (int \<times> 'z c3_heap_state_scheme) outcome" where
  "vmm_mprotect address len prot s = Ret (0, s)"

text \<open>Total, used, free. A caller passing \<open>NULL\<close> ignores a component.\<close>

definition vmm_stats :: "'z c3_heap_state_scheme \<Rightarrow> ((u64 \<times> u64 \<times> u64) \<times> 'z c3_heap_state_scheme) outcome" where
  "vmm_stats = vmm_locked (\<lambda>s. Ret ((vh_size (g_vheap s), vh_used (g_vheap s),
     vh_size (g_vheap s) - vh_used (g_vheap s)), s))"

definition vmm_validate :: "'z c3_heap_state_scheme \<Rightarrow> (int \<times> 'z c3_heap_state_scheme) outcome" where
  "vmm_validate = vmm_locked (\<lambda>s.
     bindR (walk (validate_walk (vh_base (g_vheap s)) (vh_size (g_vheap s)) (vhdr s) 0 (vh_base (g_vheap s))))
       (\<lambda>v. Ret (v, s)))"

definition vmm_dump :: "'z c3_heap_state_scheme \<Rightarrow> (unit \<times> 'z c3_heap_state_scheme) outcome" where
  "vmm_dump s = bindR (vmm_stats s) (\<lambda>(sums, s). Ret ((), s))"

section \<open>The standard allocation functions\<close>

definition c3_malloc :: "u64 \<Rightarrow> 'z c3_heap_state_scheme \<Rightarrow> (u64 \<times> 'z c3_heap_state_scheme) outcome" where
  "c3_malloc = vmm_alloc"

definition c3_free :: "u64 \<Rightarrow> 'z c3_heap_state_scheme \<Rightarrow> (unit \<times> 'z c3_heap_state_scheme) outcome" where
  "c3_free = vmm_free"

definition c3_realloc :: "u64 \<Rightarrow> u64 \<Rightarrow> 'z c3_heap_state_scheme \<Rightarrow> (u64 \<times> 'z c3_heap_state_scheme) outcome" where
  "c3_realloc p sz s =
     (if p = 0 then vmm_alloc sz s
      else if sz = 0 then bindR (vmm_free p s) (\<lambda>(_, s). Ret (0, s))
      else let old_size = blk_size (vhdr s (p - sizeof_mem_block)) - sizeof_mem_block in
        if sz \<le> old_size then Ret (p, s)
        else bindR (vmm_alloc sz s) (\<lambda>(q, s).
          if q = 0 then Ret (0, s)
          else bindR (vmm_free p (s\<lparr>vmem := mem_copy (unat old_size) q p (vmem s)\<rparr>)) (\<lambda>(_, s). Ret (q, s))))"

definition c3_calloc :: "u64 \<Rightarrow> u64 \<Rightarrow> 'z c3_heap_state_scheme \<Rightarrow> (u64 \<times> 'z c3_heap_state_scheme) outcome" where
  "c3_calloc nmemb sz s =
     (let tot = nmemb * sz in
      bindR (vmm_alloc tot s) (\<lambda>(p, s).
        if p \<noteq> 0 then Ret (p, s\<lparr>vmem := mem_fill (unat tot) p 0 (vmem s)\<rparr>) else Ret (p, s)))"

section \<open>The heap as a sequence of blocks\<close>

lemma span_if_simps [simp]:
  "span_if c [] = 0" "span_if c (x # xs) = (if snd x = c then fst x else 0) + span_if c xs"
  "span_if c (xs @ ys) = span_if c xs + span_if c ys"
  by (auto simp: span_if_def)

text \<open>The used bytes of a sequence, and of the block a store holds.\<close>

lemma alloc_blocks_used:
  assumes some: "alloc_blocks t xs = Some (off, ys)" and seg: "seg m 0 a ys 0" "a + span ys \<le> 2 ^ 64"
  shows "of_nat (span_if True ys) = of_nat (span_if True xs) + blk_size (m (addr (a + off)))"
proof -
  from alloc_blocks_split [OF some] obtain as n bs where split: "xs = as @ (n, False) # bs" "off = span as"
    "ys = as @ (if t + 33 \<le> n then [(t, True), (n - t, False)] else [(n, True)]) @ bs" .
  show ?thesis
  proof (cases "t + 33 \<le> n")
    case True
    then have "ys = as @ (t, True) # (n - t, False) # bs" using split by simp
    with seg_around(2) [of m 0 a as t True "(n - t, False) # bs"] seg split True show ?thesis by simp
  next
    case False
    then have "ys = as @ (n, True) # bs" using split by simp
    with seg_around(2) [of m 0 a as n True bs] seg split show ?thesis by simp
  qed
qed

lemma free_blocks_used: "span_if True (free_blocks as n bs) = span_if True as + span_if True bs"
proof -
  obtain k cs where ys: "join_right n bs = (k, False) # cs" using join_right_eq by blast
  have right: "span_if True (join_right n bs) = span_if True bs"
    by (cases "(n, bs)" rule: join_right.cases) auto
  show ?thesis
  proof (cases as rule: rev_cases)
    case (snoc ds d)
    with ys right show ?thesis by (cases "snd d") (auto simp: free_blocks_def join_left_def)
  qed (use right in \<open>simp add: free_blocks_def join_left_def\<close>)
qed

definition vmm_rep :: "'z c3_heap_state_scheme \<Rightarrow> layout \<Rightarrow> bool" where
  "vmm_rep s xs \<longleftrightarrow> vmm_lock s = 0 \<and> xs \<noteq> [] \<and> vh_base (g_vheap s) \<noteq> 0 \<and>
     span xs = unat (vh_size (g_vheap s)) \<and> vh_used (g_vheap s) = of_nat (span_if True xs) \<and>
     unat (vh_base (g_vheap s)) + span xs \<le> 2 ^ 64 \<and> seg (vhdr s) 0 (unat (vh_base (g_vheap s))) xs 0"

lemma vmm_locked_free:
  "vmm_lock s = 0 \<Longrightarrow>
   vmm_locked body s = bindR (body (vmm_lock_update (\<lambda>_. 1) s)) (\<lambda>(r, t). Ret (r, vmm_lock_update (\<lambda>_. 0) t))"
  by (simp add: vmm_locked_def locked_eq)

lemma vmm_lock_update_same [simp]: "vmm_lock s = 0 \<Longrightarrow> vmm_lock_update (\<lambda>_. 0) s = s"
  by (cases s rule: c3_heap_state.cases_scheme; cases "g_vheap s" rule: vmm_heap.cases_scheme)
    (auto simp: vmm_lock_update_def vmm_lock_def)

lemma vmm_lock_update_sel [simp]:
  "vhdr (vmm_lock_update f s) = vhdr s" "vmem (vmm_lock_update f s) = vmem s"
  "vh_base (g_vheap (vmm_lock_update f s)) = vh_base (g_vheap s)"
  "vh_size (g_vheap (vmm_lock_update f s)) = vh_size (g_vheap s)"
  "vh_used (g_vheap (vmm_lock_update f s)) = vh_used (g_vheap s)"
  "vmm_lock_update f (vmm_lock_update g s) = vmm_lock_update (f \<circ> g) s"
  "(vmm_lock_update f s)\<lparr>vhdr := m\<rparr> = vmm_lock_update f (s\<lparr>vhdr := m\<rparr>)"
  "add_used n (vmm_lock_update f s) = vmm_lock_update f (add_used n s)"
  "vmm_lock (s\<lparr>vhdr := m\<rparr>) = vmm_lock s" "vmm_lock (s\<lparr>vmem := b\<rparr>) = vmm_lock s" "vmm_lock (add_used n s) = vmm_lock s"
  by (simp_all add: vmm_lock_update_def vmm_lock_def add_used_def comp_def)

lemma add_used_sel [simp]:
  "vhdr (add_used n s) = vhdr s" "vmem (add_used n s) = vmem s"
  "vh_base (g_vheap (add_used n s)) = vh_base (g_vheap s)" "vh_size (g_vheap (add_used n s)) = vh_size (g_vheap s)"
  "vh_used (g_vheap (add_used n s)) = vh_used (g_vheap s) + n"
  by (simp_all add: add_used_def)

lemma vmm_alloc_refines:
  assumes rep: "vmm_rep s xs" and sz: "0 < unat sz" "unat sz \<le> 2 ^ 64 - 72"
  shows "case alloc_blocks (block_nat (unat sz)) xs of
      None \<Rightarrow> vmm_alloc_aligned sz al s = Ret (0, s)
    | Some (off, ys) \<Rightarrow> \<exists>t. vmm_alloc_aligned sz al s = Ret (addr (unat (vh_base (g_vheap s)) + off + 25), t) \<and>
        vmm_rep t ys \<and> vh_base (g_vheap t) = vh_base (g_vheap s) \<and> vmem t = vmem s"
proof -
  let ?base = "vh_base (g_vheap s)"
  have r: "vmm_lock s = 0" "xs \<noteq> []" "?base \<noteq> 0" "unat ?base + span xs \<le> 2 ^ 64"
    "seg (vhdr s) 0 (unat ?base) xs 0" "vh_used (g_vheap s) = of_nat (span_if True xs)"
    using rep by (auto simp: vmm_rep_def)
  have base0: "0 < unat ?base" using r(3) by (simp add: unat_gt_0)
  have sz0: "sz \<noteq> 0" using sz(1) by auto
  note take = first_fit_take [OF r(5,2) base0 r(4) sz]
  show ?thesis
  proof (cases "alloc_blocks (block_nat (unat sz)) xs")
    case None
    with take sz0 r(1) show ?thesis
      by (simp add: vmm_alloc_aligned_def vmm_locked_free walk_def comp_def)
  next
    case (Some q)
    then obtain off ys where some: "alloc_blocks (block_nat (unat sz)) xs = Some (off, ys)" by (cases q) auto
    let ?m = "take_block (addr (unat ?base + off)) (block_bytes sz) (vhdr s)"
    let ?t = "add_used (blk_size (?m (addr (unat ?base + off)))) (s\<lparr>vhdr := ?m\<rparr>)"
    have m: "seg ?m 0 (unat ?base) ys 0" using take some by simp
    have ys: "span ys = span xs" "ys \<noteq> []" using alloc_blocks_span [OF some] by auto
    then have "of_nat (span_if True ys) = vh_used (g_vheap s) + blk_size (?m (addr (unat ?base + off)))"
      using alloc_blocks_used [OF some m] r(4,6) by simp
    then have "vmm_rep ?t ys" using rep m ys by (simp add: vmm_rep_def)
    moreover have "vmm_alloc_aligned sz al s = Ret (addr (unat ?base + off) + sizeof_mem_block, ?t)"
      using some take sz0 r(1) by (simp add: vmm_alloc_aligned_def vmm_locked_free walk_def comp_def Let_def)
    then have "vmm_alloc_aligned sz al s = Ret (addr (unat ?base + off + 25), ?t)"
      using addr_add [of "unat ?base + off" 25] by (simp add: sizeof_mem_block_def)
    ultimately show ?thesis unfolding some by (simp del: of_nat_add)
  qed
qed

lemma vmm_free_refines:
  assumes rep: "vmm_rep s (as @ (n, True) # bs)"
  shows "\<exists>t. vmm_free (addr (unat (vh_base (g_vheap s)) + span as + 25)) s = Ret ((), t) \<and>
    vmm_rep t (free_blocks as n bs) \<and> vh_base (g_vheap t) = vh_base (g_vheap s) \<and> vmem t = vmem s"
proof -
  let ?a = "unat (vh_base (g_vheap s))"
  let ?b = "addr (?a + span as)"
  have r: "vmm_lock s = 0" "vh_base (g_vheap s) \<noteq> 0" "?a + span (as @ (n, True) # bs) \<le> 2 ^ 64"
    "seg (vhdr s) 0 ?a (as @ (n, True) # bs) 0" using rep by (auto simp: vmm_rep_def)
  have a: "0 < ?a" using r(2) by (simp add: unat_gt_0)
  note around = seg_around [OF r(4,3)]
  have p0: "addr (?a + span as + 25) \<noteq> 0" using r(3) around(4) by (simp add: addr_eq_0_iff)
  have b: "addr (?a + span as + 25) - sizeof_mem_block = ?b"
    using addr_add [of "?a + span as" 25] by (simp add: sizeof_mem_block_def algebra_simps)
  let ?t = "add_used (- blk_size (vhdr s ?b)) (s\<lparr>vhdr := free_block ?b (vhdr s)\<rparr>)"
  have "vh_used (g_vheap s) - blk_size (vhdr s ?b) = of_nat (span_if True as + span_if True bs)"
    using rep around(2) by (simp add: vmm_rep_def)
  then have "vmm_rep ?t (free_blocks as n bs)"
    using rep free_block_seg [OF r(4) a r(3)] free_blocks_span [of as n bs]
    by (simp add: vmm_rep_def free_blocks_used)
  moreover have "vmm_free (addr (?a + span as + 25)) s = Ret ((), ?t)"
    using p0 r(1) by (simp add: vmm_free_def vmm_locked_free b comp_def Let_def)
  ultimately show ?thesis by (intro exI [of _ ?t]) simp
qed

lemma rep_live_nonzero:
  assumes "vmm_rep s (as @ (n, True) # bs)"
  shows "addr (unat (vh_base (g_vheap s)) + span as + 25) \<noteq> 0"
proof -
  have fits: "unat (vh_base (g_vheap s)) + span (as @ (n, True) # bs) \<le> 2 ^ 64"
    "seg (vhdr s) 0 (unat (vh_base (g_vheap s))) (as @ (n, True) # bs) 0" using assms by (auto simp: vmm_rep_def)
  then show ?thesis using seg_around(4) [OF fits(2,1)] by (simp add: addr_eq_0_iff)
qed

text \<open>A heap as \<open>vmm_init\<close> leaves it, over a region that does not wrap.\<close>

definition fresh_vmm :: "c3_heap_state \<Rightarrow> bool" where
  "fresh_vmm t \<longleftrightarrow> (\<exists>s base sz. base \<noteq> 0 \<and> unat base + unat sz \<le> 2 ^ 64 \<and> vmm_init base sz s = Ret (0, t))"

lemma vmm_init_rep:
  assumes "base \<noteq> 0" "unat base + unat sz \<le> 2 ^ 64" "vmm_init base sz s = Ret (0, t)"
  shows "vmm_rep t [(unat sz, False)]"
proof -
  have "\<not> sz < sizeof_mem_block * 2" using assms(3) by (auto simp: vmm_init_def split: if_splits)
  then have "25 < unat sz" by (simp add: sizeof_mem_block_def word_less_nat_alt)
  with assms show ?thesis by (auto simp: vmm_init_def vmm_rep_def vmm_lock_def split: if_splits)
qed

lemma fresh_vmm_rep: "fresh_vmm t \<Longrightarrow> \<exists>n. vmm_rep t [(n, False)]"
  unfolding fresh_vmm_def using vmm_init_rep by blast

interpretation c3_heap: block_allocator fresh_vmm vmm_rep "\<lambda>s. unat (vh_base (g_vheap s))" vmm_alloc_aligned vmm_free
proof unfold_locales
  fix s :: c3_heap_state and xs and sz al :: u64
  assume "vmm_rep s xs" "0 < unat sz" "unat sz \<le> 2 ^ 64 - 72"
  from vmm_alloc_refines [OF this, of al] show "case alloc_blocks (block_nat (unat sz)) xs of
      None \<Rightarrow> vmm_alloc_aligned sz al s = Ret (0, s)
    | Some (off, ys) \<Rightarrow> \<exists>t. vmm_alloc_aligned sz al s = Ret (addr (unat (vh_base (g_vheap s)) + off + 25), t) \<and>
        vmm_rep t ys \<and> unat (vh_base (g_vheap t)) = unat (vh_base (g_vheap s))"
    by (cases "alloc_blocks (block_nat (unat sz)) xs") auto
next
  fix s :: c3_heap_state and as n bs
  assume "vmm_rep s (as @ (n, True) # bs)"
  from vmm_free_refines [OF this] show "\<exists>t. vmm_free (addr (unat (vh_base (g_vheap s)) + span as + 25)) s = Ret ((), t) \<and>
      vmm_rep t (free_blocks as n bs) \<and> unat (vh_base (g_vheap t)) = unat (vh_base (g_vheap s))"
    by auto
next
  fix s :: c3_heap_state and xs
  assume "vmm_rep s xs"
  then show "0 < unat (vh_base (g_vheap s)) \<and> unat (vh_base (g_vheap s)) + span xs \<le> 2 ^ 64"
    by (simp add: vmm_rep_def unat_gt_0)
qed (simp_all add: fresh_vmm_rep vmm_alloc_aligned_def)

section \<open>Statistics and validation\<close>

lemma vmm_rep_validate: "vmm_rep s xs \<Longrightarrow> vmm_validate s = Ret (0, s)"
  using validate_walk_seg [of "vhdr s" 0 "unat (vh_base (g_vheap s))" xs "vh_base (g_vheap s)" "vh_size (g_vheap s)"]
  by (auto simp: vmm_validate_def vmm_locked_free vmm_rep_def walk_def comp_def)

lemma vmm_rep_stats:
  assumes "vmm_rep s xs"
  shows "vmm_stats s = Ret ((vh_size (g_vheap s), of_nat (span_if True xs), of_nat (span_if False xs)), s)"
    "stats_walk (vhdr s) (0, 0, 0) (vh_base (g_vheap s)) =
      Some (vh_size (g_vheap s), of_nat (span_if True xs), of_nat (span_if False xs))"
proof -
  have "vh_size (g_vheap s) = addr (unat (vh_size (g_vheap s)))" by simp
  also have "\<dots> = of_nat (span_if True xs) + of_nat (span_if False xs)"
    using assms span_if_sum [of xs] by (simp add: vmm_rep_def addr_def flip: of_nat_add)
  finally have "vh_size (g_vheap s) - of_nat (span_if True xs) = of_nat (span_if False xs)" by simp
  with assms show "vmm_stats s = Ret ((vh_size (g_vheap s), of_nat (span_if True xs), of_nat (span_if False xs)), s)"
    by (simp add: vmm_stats_def vmm_locked_free vmm_rep_def comp_def)
  have "0 < unat (vh_base (g_vheap s))" using assms by (simp add: vmm_rep_def unat_gt_0)
  then show "stats_walk (vhdr s) (0, 0, 0) (vh_base (g_vheap s)) =
      Some (vh_size (g_vheap s), of_nat (span_if True xs), of_nat (span_if False xs))"
    using assms stats_walk_seg [of "vhdr s" 0 "unat (vh_base (g_vheap s))" xs 0 0 0] by (simp add: vmm_rep_def)
qed

section \<open>Reallocation\<close>

text \<open>Two splittings of a sequence are the same, or one element lies before the other.\<close>

lemma splittings:
  assumes "as @ x # bs = as' @ y # bs'"
  shows "as = as' \<and> x = y \<and> bs = bs' \<or> (\<exists>es. as' = as @ x # es \<and> bs = es @ y # bs') \<or>
    (\<exists>es. as = as' @ y # es \<and> bs' = es @ x # bs)"
  using assms by (auto simp: append_eq_append_conv2 Cons_eq_append_conv append_eq_Cons_conv)

text \<open>A copy between ranges that lie apart.\<close>

lemma mem_copy_apart:
  assumes "d + n \<le> 2 ^ 64" "src + n \<le> 2 ^ 64" "d + n \<le> src \<or> src + n \<le> d" "k < 2 ^ 64"
  shows "mem_copy n (addr d) (addr src) m (addr k) =
    (if d \<le> k \<and> k < d + n then m (addr (src + (k - d))) else m (addr k))"
  using assms
proof (induction n arbitrary: d src m)
  case 0
  then show ?case by auto
next
  case (Suc n)
  have step: "addr j + 1 = addr (Suc j)" for j by (simp add: addr_def)
  have lt: "d < 2 ^ 64" "src < 2 ^ 64" using Suc.prems by auto
  let ?m = "m(addr d := m (addr src))"
  have upd: "?m (addr j) = (if j = d then m (addr src) else m (addr j))" if "j < 2 ^ 64" for j
    using addr_eq_iff [OF that lt(1)] by simp
  have IH: "mem_copy n (addr (Suc d)) (addr (Suc src)) ?m (addr k) =
      (if Suc d \<le> k \<and> k < Suc d + n then ?m (addr (Suc src + (k - Suc d))) else ?m (addr k))"
    by (rule Suc.IH) (use Suc.prems in auto)
  have "mem_copy (Suc n) (addr d) (addr src) m (addr k) = mem_copy n (addr (Suc d)) (addr (Suc src)) ?m (addr k)"
    by (simp only: mem_copy.simps step)
  also note IH
  also have "(if Suc d \<le> k \<and> k < Suc d + n then ?m (addr (Suc src + (k - Suc d))) else ?m (addr k)) =
      (if d \<le> k \<and> k < d + Suc n then m (addr (src + (k - d))) else m (addr k))"
  proof (cases "Suc d \<le> k \<and> k < Suc d + n")
    case True
    then have eq: "Suc src + (k - Suc d) = src + (k - d)" by auto
    have "src + (k - d) < 2 ^ 64" "src + (k - d) \<noteq> d" using True Suc.prems by auto
    with True eq upd [of "src + (k - d)"] show ?thesis by (simp del: fun_upd_apply)
  next
    case False
    with upd [OF Suc.prems(4)] show ?thesis by (cases "k = d") (auto simp del: fun_upd_apply)
  qed
  finally show ?case .
qed

lemma alloc_keeps_used:
  assumes some: "alloc_blocks t (as @ (n, True) # bs) = Some (off, ys)" and t: "n < t"
  obtains as' bs' where "ys = as' @ (n, True) # bs'" "span as' = span as"
    "span as + n \<le> off \<or> off + t \<le> span as" "off + t \<le> span ys"
proof -
  from alloc_blocks_split [OF some] obtain cs k ds where split: "as @ (n, True) # bs = cs @ (k, False) # ds"
    "off = span cs" "t \<le> k" "ys = cs @ (if t + 33 \<le> k then [(t, True), (k - t, False)] else [(k, True)]) @ ds" .
  let ?mid = "if t + 33 \<le> k then [(t, True), (k - t, False)] else [(k, True)]"
  have mid: "span ?mid = k" using split(3) by simp
  have ys: "off + t \<le> span ys" using split(2,3) mid unfolding split(4) by (simp del: split_paired_All)
  from splittings [OF split(1)] consider es where "cs = as @ (n, True) # es" | es where "as = cs @ (k, False) # es" "ds = es @ (n, True) # bs"
    by auto
  then show thesis
  proof cases
    case 1
    show thesis
      by (rule that [of as "es @ ?mid @ ds"]) (use 1 split(2,4) ys in auto)
  next
    case 2
    have "span (cs @ ?mid @ es) = span as" using mid 2 by (simp del: split_paired_All)
    then show thesis
      by (intro that [of "cs @ ?mid @ es" bs]) (use 2 split ys in auto)
  qed
qed

lemma vmm_rep_vmem [simp]: "vmm_rep (s\<lparr>vmem := b\<rparr>) xs = vmm_rep s xs"
  by (simp add: vmm_rep_def)

text \<open>The used blocks of a sequence that starts at \<open>a\<close>, with where each lies and how long it is.\<close>

fun used_blocks :: "nat \<Rightarrow> layout \<Rightarrow> (nat \<times> nat) list" where
  "used_blocks a [] = []"
| "used_blocks a ((n, u) # xs) = (if u then [(a, n)] else []) @ used_blocks (a + n) xs"

lemma used_blocks_append: "used_blocks a (xs @ ys) = used_blocks a xs @ used_blocks (a + span xs) ys"
  by (induction a xs rule: used_blocks.induct) (auto simp: add.assoc)

lemma used_blocks_alloc:
  assumes "alloc_blocks t xs = Some (off, ys)"
  shows "\<exists>m\<ge>t. mset (used_blocks a ys) = add_mset (a + off, m) (mset (used_blocks a xs))"
proof -
  from alloc_blocks_split [OF assms] obtain as n bs where split: "xs = as @ (n, False) # bs" "off = span as" "t \<le> n"
    "ys = as @ (if t + 33 \<le> n then [(t, True), (n - t, False)] else [(n, True)]) @ bs" .
  then show ?thesis
    by (intro exI [of _ "if t + 33 \<le> n then t else n"]) (auto simp: used_blocks_append add.assoc)
qed

lemma used_blocks_free: "used_blocks a (free_blocks as n bs) = used_blocks a as @ used_blocks (a + span as + n) bs"
proof -
  obtain k cs where ys: "join_right n bs = (k, False) # cs" using join_right_eq by blast
  have "used_blocks b (join_right n bs) = used_blocks (b + n) bs" for b
    by (cases "(n, bs)" rule: join_right.cases) (auto simp: add.assoc)
  with ys have right: "used_blocks (b + k) cs = used_blocks (b + n) bs" for b by (metis append_Nil used_blocks.simps(2))
  show ?thesis
  proof (cases as rule: rev_cases)
    case Nil
    with right ys show ?thesis by (simp add: free_blocks_def join_left_def)
  next
    case (snoc ds d)
    with right [of "a + span ds + fst d"] right [of "a + span as"] ys show ?thesis
      by (cases d; cases "snd d") (auto simp: free_blocks_def join_left_def used_blocks_append add.assoc)
  qed
qed

text \<open>What moving a block to a new place leaves in use: the others, and the new one.\<close>

lemma used_blocks_moved:
  assumes "alloc_blocks t (as @ (n, True) # bs) = Some (off, as' @ (n, True) # bs')" "span as' = span as"
  shows "\<exists>m\<ge>t. mset (used_blocks 0 (free_blocks as' n bs')) = add_mset (off, m) (mset (used_blocks 0 (as @ (n, False) # bs)))"
proof -
  obtain m where m: "t \<le> m" "mset (used_blocks 0 (as' @ (n, True) # bs')) =
      add_mset (off, m) (mset (used_blocks 0 (as @ (n, True) # bs)))"
    using used_blocks_alloc [OF assms(1), of 0] by auto
  then have "mset (used_blocks 0 (free_blocks as' n bs')) = add_mset (off, m) (mset (used_blocks 0 (as @ (n, False) # bs)))"
    using assms(2) by (simp add: used_blocks_free used_blocks_append add_mset_commute)
  with m(1) show ?thesis by blast
qed

lemma c3_realloc_outcome:
  assumes rep: "vmm_rep s (as @ (n, True) # bs)" and p: "p = addr (unat (vh_base (g_vheap s)) + span as + 25)"
    and sz: "0 < unat sz" "unat sz \<le> 2 ^ 64 - 72"
  shows "\<exists>q t. c3_realloc p sz s = Ret (q, t) \<and>
    (if unat sz \<le> n - 25 then q = p \<and> t = s
     else if alloc_blocks (block_nat (unat sz)) (as @ (n, True) # bs) = None then q = 0 \<and> t = s
     else \<exists>zs off m. q \<noteq> 0 \<and> q = addr (unat (vh_base (g_vheap t)) + off + 25) \<and> unat sz + 25 \<le> m \<and> vmm_rep t zs \<and>
       mset (used_blocks 0 zs) = add_mset (off, m) (mset (used_blocks 0 (as @ (n, False) # bs))) \<and>
       (\<forall>i < n - 25. vmem t (q + of_nat i) = vmem s (p + of_nat i)))"
proof -
  let ?a = "unat (vh_base (g_vheap s))"
  have r: "vh_base (g_vheap s) \<noteq> 0" "?a + span (as @ (n, True) # bs) \<le> 2 ^ 64"
    "seg (vhdr s) 0 ?a (as @ (n, True) # bs) 0" using rep by (auto simp: vmm_rep_def)
  note around = seg_around [OF r(3,2)]
  have a: "0 < ?a" using r(1) by (simp add: unat_gt_0)
  have p0: "p \<noteq> 0" using p r(2) around(4) by (simp add: addr_eq_0_iff)
  have b: "p - sizeof_mem_block = addr (?a + span as)"
    using p addr_add [of "?a + span as" 25] by (simp add: sizeof_mem_block_def algebra_simps)
  have old: "blk_size (vhdr s (p - sizeof_mem_block)) - sizeof_mem_block = of_nat (n - 25)"
    using around(2,4) unfolding b by (simp add: sizeof_mem_block_def of_nat_diff)
  have n: "unat (of_nat (n - 25) :: u64) = n - 25" by (rule unat_of_nat_u64) (use r(2) a in simp)
  have sz0: "sz \<noteq> 0" using sz(1) by auto
  show ?thesis
  proof (cases "unat sz \<le> n - 25")
    case True
    then have "sz \<le> of_nat (n - 25)" using n by (simp add: word_le_nat_alt)
    then have "c3_realloc p sz s = Ret (p, s)" using p0 sz0 old by (simp add: c3_realloc_def)
    with True show ?thesis by simp
  next
    case False
    then have big: "\<not> sz \<le> of_nat (n - 25)" using n by (simp add: word_le_nat_alt)
    have t: "n < block_nat (unat sz)" using False block_nat_gt(2) [of "unat sz"] by simp
    note ref = vmm_alloc_refines [OF rep sz, of MALLOC_ALIGN]
    show ?thesis
    proof (cases "alloc_blocks (block_nat (unat sz)) (as @ (n, True) # bs)")
      case None
      with ref p0 sz0 old big have "c3_realloc p sz s = Ret (0, s)"
        by (simp add: c3_realloc_def vmm_alloc_def)
      with None False show ?thesis by simp
    next
      case (Some o1)
      then obtain off ys where some: "alloc_blocks (block_nat (unat sz)) (as @ (n, True) # bs) = Some (off, ys)"
        by (cases o1) auto
      define q where "q = addr (?a + off + 25)"
      obtain t1 where t1: "vmm_alloc_aligned sz MALLOC_ALIGN s = Ret (q, t1)" "vmm_rep t1 ys"
        "vh_base (g_vheap t1) = vh_base (g_vheap s)" "vmem t1 = vmem s"
        using ref some unfolding q_def by auto
      from alloc_keeps_used [OF some t] obtain as' bs' where ys: "ys = as' @ (n, True) # bs'" "span as' = span as"
        "span as + n \<le> off \<or> off + block_nat (unat sz) \<le> span as" "off + block_nat (unat sz) \<le> span ys" .
      have fits: "?a + span ys \<le> 2 ^ 64" using t1(2,3) by (simp add: vmm_rep_def)
      have q0: "q \<noteq> 0" unfolding q_def using a fits ys(4) t around(4) by (simp add: addr_eq_0_iff)
      let ?t2 = "t1\<lparr>vmem := mem_copy (n - 25) q p (vmem s)\<rparr>"
      have "vmm_rep ?t2 (as' @ (n, True) # bs')" using t1(2) ys(1) by simp
      from vmm_free_refines [OF this] obtain t3 where t3: "vmm_free p ?t2 = Ret ((), t3)"
        "vmm_rep t3 (free_blocks as' n bs')" "vmem t3 = mem_copy (n - 25) q p (vmem s)" "vh_base (g_vheap t3) = vh_base (g_vheap s)"
        using t1(3) ys(2) p by auto
      have run: "c3_realloc p sz s = Ret (q, t3)"
        using p0 sz0 old big n t1(1,4) q0 t3(1) by (simp add: c3_realloc_def vmm_alloc_def)
      have bytes: "vmem t3 (q + of_nat i) = vmem s (p + of_nat i)" if i: "i < n - 25" for i
      proof -
        have apart: "?a + off + 25 + (n - 25) \<le> ?a + span as + 25 \<or> ?a + span as + 25 + (n - 25) \<le> ?a + off + 25"
          using ys(3) t around(4) by auto
        have "mem_copy (n - 25) q p (vmem s) (addr (?a + off + 25 + i)) =
            vmem s (addr (?a + span as + 25 + (?a + off + 25 + i - (?a + off + 25))))"
          unfolding q_def p using i fits ys(4) t r(2) by (subst mem_copy_apart [OF _ _ apart]) auto
        then show ?thesis unfolding t3(3) q_def p by (simp add: addr_add)
      qed
      obtain m where m: "block_nat (unat sz) \<le> m"
        "mset (used_blocks 0 (free_blocks as' n bs')) = add_mset (off, m) (mset (used_blocks 0 (as @ (n, False) # bs)))"
        using used_blocks_moved some ys(1,2) by blast
      have "unat sz + 25 \<le> m" using m(1) block_nat_gt(2) [of "unat sz"] by simp
      with run bytes q0 t3(2,4) m(2) False some show ?thesis unfolding q_def by auto
    qed
  qed
qed

section \<open>Properties\<close>

definition sample_vmm :: c3_heap_state where
  "sample_vmm = \<lparr>g_vheap = \<lparr>vh_base = 0x4000, vh_size = 0x1000, vh_used = 0, vh_lock = 0\<rparr>,
    vhdr = (\<lambda>_. \<lparr>blk_size = 0x1000, blk_used = 0, blk_next = 0, blk_prev = 0\<rparr>), vmem = (\<lambda>_. 0)\<rparr>"

lemma sample_vmm_rep: "vmm_rep sample_vmm [(4096, False)]"
  by (simp add: vmm_rep_def sample_vmm_def vmm_lock_def)

lemma sample_vmm_fresh: "fresh_vmm sample_vmm"
proof -
  have "vmm_init 0x4000 0x1000 sample_vmm = Ret (0, sample_vmm)"
    by (simp add: vmm_init_def sample_vmm_def sizeof_mem_block_def fun_upd_idem)
  then show ?thesis unfolding fresh_vmm_def by (intro exI [of _ sample_vmm] exI [of _ "0x4000"] exI [of _ "0x1000"]) simp
qed

text \<open>A heap with one used block of 33 bytes, and the pointer to it.\<close>

lemma sample_vmm_alloc:
  obtains t where "vmm_alloc_aligned 8 16 sample_vmm = Ret (0x4019, t)" "vmm_rep t [(33, True), (4063, False)]"
    "vh_base (g_vheap t) = 0x4000"
  using vmm_alloc_refines [OF sample_vmm_rep, of 8 16] that
  by (simp add: block_nat_def) (auto simp: sample_vmm_def addr_def)

text \<open>
  C20. The counter of an application's heap is worth the walk: after every history of allocations of
  at most \<open>2^64 - 72\<close> bytes and frees of live pointers, \<open>vmm_stats\<close>, which reads the counter, returns
  the three sums a walk over the blocks gives, \<open>vmm_validate\<close> accepts the heap, and its used
  blocks are exactly the live pointers, with no two free blocks side by side.
\<close>
theorem c3_stats_equal_walk:
  assumes "alloc_history fresh_vmm vmm_alloc_aligned vmm_free s live"
  shows "(\<exists>sums. vmm_stats s = Ret (sums, s) \<and> stats_walk (vhdr s) (0, 0, 0) (vh_base (g_vheap s)) = Some sums) \<and>
    vmm_validate s = Ret (0, s) \<and>
    (\<exists>xs. vmm_rep s xs \<and> coalesced xs \<and> mset live = mset (used_ptrs (unat (vh_base (g_vheap s))) xs))"
proof -
  obtain xs where "c3_heap.good s live xs" using c3_heap.history_good [OF assms] by blast
  then have xs: "vmm_rep s xs" "coalesced xs" "mset live = mset (used_ptrs (unat (vh_base (g_vheap s))) xs)"
    by (auto simp: c3_heap.good_def)
  with vmm_rep_validate [OF xs(1)] vmm_rep_stats [OF xs(1)] show ?thesis by blast
qed

theorem c3_stats_equal_walk_witness:
  "\<exists>s. alloc_history fresh_vmm vmm_alloc_aligned vmm_free s [0x4019] \<and> vmm_validate s = Ret (0, s)"
proof -
  obtain t where t: "vmm_alloc_aligned 8 16 sample_vmm = Ret (0x4019, t)" by (rule sample_vmm_alloc)
  have "alloc_history fresh_vmm vmm_alloc_aligned vmm_free t [0x4019]"
    using alloc_history.alloc [OF alloc_history.start [of fresh_vmm sample_vmm vmm_alloc_aligned vmm_free], OF _ _ t]
      sample_vmm_fresh by simp
  with c3_stats_equal_walk [OF this] show ?thesis by blast
qed

text \<open>
  C21. \<open>realloc\<close> of a live pointer \<open>p\<close> to a size of at most \<open>2^64 - 72\<close>: if the block is large enough, it returns \<open>p\<close>
  and changes nothing; if not and no free block fits, it returns NULL and changes nothing. Otherwise it returns a pointer
  to a block that is large enough, on a well-formed heap whose used blocks are this one and the old ones but for that
  of \<open>p\<close>, which is freed, and behind the pointer all bytes of the old block are found.
\<close>
theorem c3_realloc_keeps_bytes:
  assumes "vmm_rep s (as @ (n, True) # bs)" "p = addr (unat (vh_base (g_vheap s)) + span as + 25)"
    "0 < unat sz" "unat sz \<le> 2 ^ 64 - 72"
  shows "\<exists>q t. c3_realloc p sz s = Ret (q, t) \<and>
    (if unat sz \<le> n - 25 then q = p \<and> t = s
     else if alloc_blocks (block_nat (unat sz)) (as @ (n, True) # bs) = None then q = 0 \<and> t = s
     else \<exists>zs off m. q \<noteq> 0 \<and> q = addr (unat (vh_base (g_vheap t)) + off + 25) \<and> unat sz + 25 \<le> m \<and> vmm_rep t zs \<and>
       mset (used_blocks 0 zs) = add_mset (off, m) (mset (used_blocks 0 (as @ (n, False) # bs))) \<and>
       (\<forall>i < n - 25. vmem t (q + of_nat i) = vmem s (p + of_nat i)))"
  by (rule c3_realloc_outcome [OF assms])

text \<open>A block of 33 bytes that grows: afterwards one block is in use, at another place, and its 8 bytes are there.\<close>

theorem c3_realloc_keeps_bytes_witness:
  "\<exists>(s :: c3_heap_state) q t. vmm_rep s [(33, True), (4063, False)] \<and> c3_realloc 0x4019 100 s = Ret (q, t) \<and> q \<noteq> 0 \<and>
     (\<exists>zs off m. vmm_rep t zs \<and> used_blocks 0 zs = [(off, m)] \<and> 125 \<le> m) \<and>
     (\<forall>i < 8. vmem t (q + of_nat i) = vmem s (0x4019 + of_nat i))"
proof -
  obtain t :: c3_heap_state where "vmm_rep t [(33, True), (4063, False)]" "vh_base (g_vheap t) = 0x4000"
    by (rule sample_vmm_alloc)
  then have t: "vmm_rep t ([] @ (33, True) # [(4063, False)])" "vh_base (g_vheap t) = 0x4000" by simp_all
  have p: "0x4019 = addr (unat (vh_base (g_vheap t)) + span [] + 25)" using t(2) by (simp add: addr_def)
  have fits: "alloc_blocks (block_nat (unat (100 :: u64))) ([] @ (33, True) # [(4063, False)]) \<noteq> None"
    by (simp add: block_nat_def)
  obtain q u zs off m where "c3_realloc 0x4019 100 t = Ret (q, u)" "q \<noteq> 0" "125 \<le> m" "vmm_rep u zs"
    "mset (used_blocks 0 zs) = {#(off, m)#}" "\<forall>i < 8. vmem u (q + of_nat i) = vmem t (0x4019 + of_nat i)"
    using c3_realloc_keeps_bytes [OF t(1) p, of 100] fits by auto
  moreover from this(5) have "used_blocks 0 zs = [(off, m)]" by simp
  ultimately show ?thesis using t(1)
    by (intro exI [of _ t] exI [of _ q] exI [of _ u] conjI exI [of _ zs] exI [of _ off] exI [of _ m]) simp_all
qed

text \<open>
  \<open>calloc\<close> multiplies without a check: when the product of count and size passes \<open>2^64\<close>, and a
  block for the remainder is free, it succeeds with a block of the remainder's size, smaller
  than what was asked for.
\<close>
lemma c3_calloc_wraps:
  assumes "vmm_rep s xs" "2 ^ 64 \<le> unat nmemb * unat sz" "0 < unat (nmemb * sz)" "unat (nmemb * sz) \<le> 2 ^ 64 - 72"
    "alloc_blocks (block_nat (unat (nmemb * sz))) xs = Some (off, ys)"
  shows "\<exists>t. c3_calloc nmemb sz s = Ret (addr (unat (vh_base (g_vheap s)) + off + 25), t) \<and> vmm_rep t ys \<and>
    block_nat (unat (nmemb * sz)) < unat nmemb * unat sz"
proof -
  let ?p = "addr (unat (vh_base (g_vheap s)) + off + 25)"
  obtain t where t: "vmm_alloc_aligned (nmemb * sz) MALLOC_ALIGN s = Ret (?p, t)" "vmm_rep t ys"
    using vmm_alloc_refines [OF assms(1,3,4), of MALLOC_ALIGN] assms(5) by auto
  have "\<exists>t'. c3_calloc nmemb sz s = Ret (?p, t') \<and> vmm_rep t' ys"
    using t by (cases "?p = 0") (auto simp: c3_calloc_def vmm_alloc_def Let_def)
  moreover have "block_nat (unat (nmemb * sz)) + 33 < 2 ^ 64" using block_bytes_eq(2) [OF assms(4)] .
  then have "block_nat (unat (nmemb * sz)) < unat nmemb * unat sz" using assms(2) by simp
  ultimately show ?thesis by blast
qed

lemma c3_calloc_wraps_witness:
  "\<exists>t. c3_calloc 0x2000000000000001 8 sample_vmm = Ret (0x4019, t) \<and> vmm_rep t [(33, True), (4063, False)]"
  using c3_calloc_wraps [OF sample_vmm_rep, of "0x2000000000000001" 8 0 "[(33, True), (4063, False)]"]
  by (simp add: block_nat_def sample_vmm_def addr_def)

end
