(* ===== verification/Core3.thy ===== *)
theory Core3
  imports C3Heap
begin

text \<open>
  The runtime of an application (\<open>Core-3/core3.c\<close>, \<open>Core-3/include/core3.h\<close>, \<open>Core-3/ipc/ipc.c\<close>,
  \<open>Core-3/lib/string.c\<close>): the system call wrappers, the IPC library and start-up. What the kernel does
  on a system call is a parameter: a function of the number, the five arguments and the state,
  which may change the application's memory and the message it was handed.
\<close>

section \<open>Strings\<close>

text \<open>The library has the text of the one of Core-1, without \<open>strncat\<close>, \<open>strrchr\<close>, \<open>strstr\<close>, \<open>memmove\<close>, \<open>snprintf\<close>.\<close>

definition c3_strlen :: "bytes option \<Rightarrow> u64 outcome" where "c3_strlen = c1_strlen"
definition c3_strcpy :: "bytes option \<Rightarrow> bytes option \<Rightarrow> bytes option outcome" where "c3_strcpy = c1_strcpy"
definition c3_strncpy :: "bytes option \<Rightarrow> bytes option \<Rightarrow> u64 \<Rightarrow> bytes option outcome" where
  "c3_strncpy = c1_strncpy"
definition c3_strcmp :: "bytes option \<Rightarrow> bytes option \<Rightarrow> int outcome" where "c3_strcmp = c1_strcmp"
definition c3_strncmp :: "bytes option \<Rightarrow> bytes option \<Rightarrow> u64 \<Rightarrow> int outcome" where "c3_strncmp = c1_strncmp"
definition c3_strcat :: "bytes option \<Rightarrow> bytes option \<Rightarrow> bytes option outcome" where "c3_strcat = c1_strcat"
definition c3_strchr :: "bytes option \<Rightarrow> u32 \<Rightarrow> nat option outcome" where "c3_strchr = c1_strchr"
definition c3_memset :: "bytes option \<Rightarrow> u32 \<Rightarrow> u64 \<Rightarrow> bytes option outcome" where "c3_memset = c1_memset"
definition c3_memcpy :: "bytes option \<Rightarrow> bytes option \<Rightarrow> u64 \<Rightarrow> bytes option outcome" where
  "c3_memcpy = c1_memcpy"
definition c3_memcmp :: "bytes option \<Rightarrow> bytes option \<Rightarrow> u64 \<Rightarrow> int outcome" where "c3_memcmp = c1_memcmp"

section \<open>Data\<close>

record process_info =
  pi_process_id :: u64
  pi_parent_pid :: u64
  pi_entry_point :: u64
  pi_code_base :: u64
  pi_code_size :: u64
  pi_data_base :: u64
  pi_data_size :: u64
  pi_stack_base :: u64
  pi_stack_size :: u64
  pi_heap_base :: u64
  pi_heap_size :: u64
  pi_num_caps :: u32
  pi_cap_handles :: "u64 list"
  pi_argc :: u32
  pi_argv :: u64
  pi_envp :: u64

datatype syscall_num = SYS_EXIT | SYS_READ | SYS_WRITE | SYS_OPEN | SYS_CLOSE | SYS_IOCTL | SYS_MMAP | SYS_MUNMAP
  | SYS_IPC_CALL | SYS_IPC_REGISTER | SYS_IPC_WAIT | SYS_GETPID | SYS_GETPPID | SYS_SLEEP | SYS_YIELD | SYS_GETTIME

fun sys_num :: "syscall_num \<Rightarrow> u64" where
  "sys_num SYS_EXIT = 0"
| "sys_num SYS_READ = 1"
| "sys_num SYS_WRITE = 2"
| "sys_num SYS_OPEN = 3"
| "sys_num SYS_CLOSE = 4"
| "sys_num SYS_IOCTL = 5"
| "sys_num SYS_MMAP = 6"
| "sys_num SYS_MUNMAP = 7"
| "sys_num SYS_IPC_CALL = 8"
| "sys_num SYS_IPC_REGISTER = 9"
| "sys_num SYS_IPC_WAIT = 10"
| "sys_num SYS_GETPID = 11"
| "sys_num SYS_GETPPID = 12"
| "sys_num SYS_SLEEP = 13"
| "sys_num SYS_YIELD = 14"
| "sys_num SYS_GETTIME = 15"

text \<open>Both fields are \<open>int64_t\<close>.\<close>

record syscall_result =
  sys_ret :: u64
  sys_error :: u64

definition C3_MAX_MSG_SIZE :: u64 where "C3_MAX_MSG_SIZE = 4096"

datatype c3_msg_type = IPC_TYPE_REQUEST | IPC_TYPE_RESPONSE | IPC_TYPE_NOTIFICATION | IPC_TYPE_ERROR

fun msg_type_code :: "c3_msg_type \<Rightarrow> u32" where
  "msg_type_code IPC_TYPE_REQUEST = 0"
| "msg_type_code IPC_TYPE_RESPONSE = 1"
| "msg_type_code IPC_TYPE_NOTIFICATION = 2"
| "msg_type_code IPC_TYPE_ERROR = 3"

record c3_msg_header =
  c3_msg_type :: u32
  c3_msg_id :: u32
  c3_src_process :: u32
  c3_dst_service :: u32
  c3_data_size :: u32
  c3_flags :: u32
  c3_timestamp :: u64

text \<open>\<open>c3_data\<close> has \<open>IPC_MAX_MSG_SIZE\<close> bytes.\<close>

record c3_msg =
  c3_header :: c3_msg_header
  c3_data :: bytes

text \<open>\<open>sys_msg\<close> is the message on the stack of \<open>ipc_call\<close>, which the kernel is handed.\<close>

record c3_state = c3_heap_state +
  g_process_info :: "process_info option"
  sys_msg :: c3_msg

type_synonym 's sys_kernel = "u64 \<Rightarrow> u64 \<Rightarrow> u64 \<Rightarrow> u64 \<Rightarrow> u64 \<Rightarrow> u64 \<Rightarrow> 's \<Rightarrow> (u64 \<times> 's) outcome"

section \<open>System calls\<close>

text \<open>Negating the least \<open>int64_t\<close> overflows.\<close>

definition syscall ::
  "'s sys_kernel \<Rightarrow> syscall_num \<Rightarrow> u64 \<Rightarrow> u64 \<Rightarrow> u64 \<Rightarrow> u64 \<Rightarrow> u64 \<Rightarrow> 's \<Rightarrow> (syscall_result \<times> 's) outcome" where
  "syscall kern num arg1 arg2 arg3 arg4 arg5 s =
     bindR (kern (sys_num num) arg1 arg2 arg3 arg4 arg5 s) (\<lambda>(rax, s).
       if sint rax < 0
       then if rax = 0x8000000000000000 then Fault else Ret (\<lparr>sys_ret = -1, sys_error = - rax\<rparr>, s)
       else Ret (\<lparr>sys_ret = rax, sys_error = 0\<rparr>, s))"

text \<open>Nothing may run after the system call: \<open>__builtin_unreachable\<close>.\<close>

definition c3_exit :: "'s sys_kernel \<Rightarrow> u32 \<Rightarrow> 's \<Rightarrow> (unit \<times> 's) outcome" where
  "c3_exit kern code s = bindR (syscall kern SYS_EXIT (scast code) 0 0 0 0 s) (\<lambda>_. Fault)"

definition c3_read :: "'s sys_kernel \<Rightarrow> u32 \<Rightarrow> u64 \<Rightarrow> u64 \<Rightarrow> 's \<Rightarrow> (u64 \<times> 's) outcome" where
  "c3_read kern fd buf cnt s =
     bindR (syscall kern SYS_READ (scast fd) buf cnt 0 0 s) (\<lambda>(result, s). Ret (sys_ret result, s))"

definition c3_write :: "'s sys_kernel \<Rightarrow> u32 \<Rightarrow> u64 \<Rightarrow> u64 \<Rightarrow> 's \<Rightarrow> (u64 \<times> 's) outcome" where
  "c3_write kern fd buf cnt s =
     bindR (syscall kern SYS_WRITE (scast fd) buf cnt 0 0 s) (\<lambda>(result, s). Ret (sys_ret result, s))"

text \<open>Where the function returns \<open>int\<close>, the result loses its upper half.\<close>

definition c3_open :: "'s sys_kernel \<Rightarrow> u64 \<Rightarrow> u32 \<Rightarrow> 's \<Rightarrow> (u32 \<times> 's) outcome" where
  "c3_open kern pathname flags s =
     bindR (syscall kern SYS_OPEN pathname (scast flags) 0 0 0 s) (\<lambda>(result, s). Ret (ucast (sys_ret result), s))"

definition c3_close :: "'s sys_kernel \<Rightarrow> u32 \<Rightarrow> 's \<Rightarrow> (u32 \<times> 's) outcome" where
  "c3_close kern fd s =
     bindR (syscall kern SYS_CLOSE (scast fd) 0 0 0 0 s) (\<lambda>(result, s). Ret (ucast (sys_ret result), s))"

definition getpid :: "'s sys_kernel \<Rightarrow> 's \<Rightarrow> (u32 \<times> 's) outcome" where
  "getpid kern s = bindR (syscall kern SYS_GETPID 0 0 0 0 0 s) (\<lambda>(result, s). Ret (ucast (sys_ret result), s))"

definition getppid :: "'s sys_kernel \<Rightarrow> 's \<Rightarrow> (u32 \<times> 's) outcome" where
  "getppid kern s = bindR (syscall kern SYS_GETPPID 0 0 0 0 0 s) (\<lambda>(result, s). Ret (ucast (sys_ret result), s))"

definition sleep_ms :: "'s sys_kernel \<Rightarrow> u64 \<Rightarrow> 's \<Rightarrow> (u32 \<times> 's) outcome" where
  "sleep_ms kern milliseconds s =
     bindR (syscall kern SYS_SLEEP milliseconds 0 0 0 0 s) (\<lambda>(result, s). Ret (ucast (sys_ret result), s))"

definition yield :: "'s sys_kernel \<Rightarrow> 's \<Rightarrow> (unit \<times> 's) outcome" where
  "yield kern s = bindR (syscall kern SYS_YIELD 0 0 0 0 0 s) (\<lambda>(_, s). Ret ((), s))"

text \<open>
  \<open>msg\<close> lives at \<open>msg_addr\<close> and starts with whatever the stack holds, \<open>junk\<close>. The size stored in the
  header is truncated to 32 bits; only the size copied is clamped. The result is the returned
  value and the response buffer.
\<close>

definition ipc_call ::
  "'z c3_state_scheme sys_kernel \<Rightarrow> u64 \<Rightarrow> c3_msg \<Rightarrow> u64 \<Rightarrow> bytes option \<Rightarrow> bytes option \<Rightarrow> u64 \<Rightarrow>
   'z c3_state_scheme \<Rightarrow> ((u32 \<times> bytes option) \<times> 'z c3_state_scheme) outcome" where
  "ipc_call kern msg_addr junk service_name request response sz s =
     (let hd = (c3_header junk)\<lparr>c3_msg_type := msg_type_code IPC_TYPE_REQUEST, c3_data_size := ucast sz\<rparr>;
          n = (if C3_MAX_MSG_SIZE < sz then C3_MAX_MSG_SIZE else sz) in
      bindR (c3_memcpy (Some (c3_data junk)) request n) (\<lambda>dat.
      bindR (syscall kern SYS_IPC_CALL service_name msg_addr n 0 0
          (s\<lparr>sys_msg := \<lparr>c3_header = hd, c3_data = the dat\<rparr>\<rparr>)) (\<lambda>(result, s).
      bindR (if 0 \<le> sint (sys_ret result) \<and> response \<noteq> None
             then c3_memcpy response (Some (c3_data (sys_msg s))) (ucast (c3_data_size (c3_header (sys_msg s))))
             else Ret response) (\<lambda>response.
      Ret ((ucast (sys_ret result), response), s)))))"

section \<open>The IPC library\<close>

text \<open>Pointers to messages and names are addresses; an endpoint is a number, stored through a pointer.\<close>

definition c3_ipc_init :: "'s \<Rightarrow> (int \<times> 's) outcome" where "c3_ipc_init s = Ret (0, s)"

definition ipc_connect :: "u64 \<Rightarrow> u64 option \<Rightarrow> int \<times> u64 option" where
  "ipc_connect service_name endpoint =
     (if service_name = 0 \<or> endpoint = None then (-1, endpoint) else (0, Some 1))"

definition ipc_disconnect :: "u64 \<Rightarrow> int" where "ipc_disconnect endpoint = 0"

definition c3_ipc_send :: "u64 \<Rightarrow> u64 \<Rightarrow> int" where
  "c3_ipc_send endpoint msg = (if msg = 0 then -1 else 0)"

definition c3_ipc_recv :: "u64 \<Rightarrow> u64 \<Rightarrow> u64 \<Rightarrow> int" where
  "c3_ipc_recv endpoint msg timeout_ms = (if msg = 0 then -1 else 0)"

definition c3_ipc_try_recv :: "u64 \<Rightarrow> u64 \<Rightarrow> int" where
  "c3_ipc_try_recv endpoint msg = (if msg = 0 then -1 else -1)"

definition ipc_register_handler :: "u64 \<Rightarrow> u64 \<Rightarrow> int" where
  "ipc_register_handler service_name handler = (if service_name = 0 \<or> handler = 0 then -1 else 0)"

definition ipc_unregister_handler :: "u64 \<Rightarrow> int" where
  "ipc_unregister_handler service_name = (if service_name = 0 then -1 else 0)"

section \<open>Start-up\<close>

definition core3_init ::
  "process_info option \<Rightarrow> 'z c3_state_scheme \<Rightarrow> (int \<times> 'z c3_state_scheme) outcome" where
  "core3_init info s = (case info of
     None \<Rightarrow> Ret (-1, s)
   | Some i \<Rightarrow>
       bindR (vmm_init (pi_heap_base i) (pi_heap_size i) (s\<lparr>g_process_info := info\<rparr>)) (\<lambda>(r, s).
       if r \<noteq> 0 then Ret (-1, s)
       else bindR (c3_ipc_init s) (\<lambda>(r, s). if r \<noteq> 0 then Ret (-1, s) else Ret (0, s))))"

text \<open>\<open>write(1, msg, strlen(msg))\<close> of a literal; \<open>at\<close> is where the compiler put it.\<close>

definition write_lit ::
  "'s sys_kernel \<Rightarrow> (string \<Rightarrow> u64) \<Rightarrow> string \<Rightarrow> 's \<Rightarrow> 's outcome" where
  "write_lit kern at msg s = bindR (c3_strlen (Some (lit msg))) (\<lambda>n.
     bindR (c3_write kern 1 (at msg) n s) (\<lambda>(_, s). Ret s))"

definition main ::
  "'z c3_state_scheme sys_kernel \<Rightarrow> (string \<Rightarrow> u64) \<Rightarrow> u32 \<Rightarrow> u64 \<Rightarrow> 'z c3_state_scheme \<Rightarrow>
   (u32 \<times> 'z c3_state_scheme) outcome" where
  "main kern at argc argv s =
     bindR (write_lit kern at ''Core-3 Application Running\<newline>'' s) (\<lambda>s.
     bindR (c3_malloc 1024 s) (\<lambda>(ptr, s).
     bindR (if ptr \<noteq> 0
            then bindR (write_lit kern at ''Memory allocation successful\<newline>'' s) (\<lambda>s.
              bindR (c3_free ptr s) (\<lambda>(_, s). Ret s))
            else Ret s) (\<lambda>s.
     bindR (getpid kern s) (\<lambda>(pid, s).
     bindR (write_lit kern at ''Process ID: '' s) (\<lambda>s.
     Ret (0, s))))))"

definition core3_main ::
  "'z c3_state_scheme sys_kernel \<Rightarrow> (string \<Rightarrow> u64) \<Rightarrow> u32 \<Rightarrow> u64 \<Rightarrow> 'z c3_state_scheme \<Rightarrow>
   (u32 \<times> 'z c3_state_scheme) outcome" where
  "core3_main kern at argc argv = main kern at argc argv"

definition core3_cleanup :: "'s \<Rightarrow> 's" where "core3_cleanup s = s"

section \<open>What a system call returns\<close>

lemma c3_memcpy_eq:
  "c3_memcpy (Some d) (Some s) n = (if unat n \<le> length d \<and> unat n \<le> length s
     then Ret (Some (take (unat n) s @ drop (unat n) d)) else Fault)"
  using memcpy_loop_eq [of 0 "unat n" d s] memcpy_loop_fault [of 0 d s "unat n"]
  by (auto simp: c3_memcpy_def c1_memcpy_def not_le)

text \<open>A kernel that answers every call and leaves the heap of the application alone.\<close>

definition calm_kernel :: "'z c3_state_scheme sys_kernel \<Rightarrow> bool" where
  "calm_kernel kern \<longleftrightarrow> (\<forall>n a b c d e s. \<exists>r t. kern n a b c d e s = Ret (r, t) \<and> r \<noteq> 0x8000000000000000 \<and>
     g_vheap t = g_vheap s \<and> vhdr t = vhdr s)"

lemma vmm_rep_cong:
  "g_vheap t = g_vheap s \<Longrightarrow> vhdr t = vhdr s \<Longrightarrow> vmm_rep t xs = vmm_rep s xs"
  by (simp add: vmm_rep_def vmm_lock_def)

lemma calm_syscall:
  assumes "calm_kernel kern"
  obtains r t where "syscall kern num a b c d e s = Ret (r, t)" "g_vheap t = g_vheap s" "vhdr t = vhdr s"
proof -
  obtain r t where "kern (sys_num num) a b c d e s = Ret (r, t)" "r \<noteq> 0x8000000000000000"
    "g_vheap t = g_vheap s" "vhdr t = vhdr s" using assms unfolding calm_kernel_def by blast
  then show thesis by (cases "sint r < 0") (auto simp: syscall_def intro: that)
qed

lemma strlen_lit: "0 \<notin> set (map of_char msg :: u8 list) \<Longrightarrow> \<exists>n. c3_strlen (Some (lit msg)) = Ret n"
proof -
  assume z: "0 \<notin> set (map of_char msg :: u8 list)"
  have "\<exists>n. strlen_loop i (lit msg) = Ret n" if "i \<le> length msg" for i
    using that
  proof (induction "length msg - i" arbitrary: i)
    case 0
    then show ?case by (subst strlen_loop.simps) (simp add: lit_def nth_append)
  next
    case (Suc k)
    then have "(map of_char msg :: u8 list) ! i \<noteq> 0" using z by (metis length_map nth_mem zero_less_Suc zero_less_diff)
    with Suc show ?case by (subst strlen_loop.simps) (simp add: lit_def nth_append)
  qed
  from this [of 0] show ?thesis by (simp add: c3_strlen_def c1_strlen_def)
qed

lemma calm_write_lit:
  assumes kern: "calm_kernel kern" and rep: "vmm_rep s xs" and msg: "0 \<notin> set (map of_char msg :: u8 list)"
  obtains t where "write_lit kern at msg s = Ret t" "vmm_rep t xs" "g_vheap t = g_vheap s"
proof -
  obtain n where n: "c3_strlen (Some (lit msg)) = Ret n" using strlen_lit [OF msg] by blast
  obtain r t where t: "syscall kern SYS_WRITE (scast (1 :: u32)) (at msg) n 0 0 s = Ret (r, t)"
    "g_vheap t = g_vheap s" "vhdr t = vhdr s" by (rule calm_syscall [OF kern])
  show thesis
  proof (rule that [of t])
    show "write_lit kern at msg s = Ret t" using n t(1) by (simp add: write_lit_def c3_write_def)
    show "vmm_rep t xs" using rep vmm_rep_cong [OF t(2,3)] by simp
  qed (rule t(2))
qed

lemma main_returns:
  fixes s :: "'z c3_state_scheme"
  assumes kern: "calm_kernel kern" and rep: "vmm_rep s xs" and co: "coalesced xs"
  shows "\<exists>t. main kern at argc argv s = Ret (0, t) \<and> vmm_rep t xs"
proof -
  note put = calm_write_lit [OF kern]
  obtain s1 where 1: "write_lit kern at ''Core-3 Application Running\<newline>'' s = Ret s1" "vmm_rep s1 xs"
    by (rule put [OF rep]) auto
  note ref = vmm_alloc_refines [OF 1(2), of 1024 MALLOC_ALIGN]
  have "\<exists>p s2 s3. c3_malloc 1024 s1 = Ret (p, s2) \<and>
     (if p \<noteq> 0 then bindR (write_lit kern at ''Memory allocation successful\<newline>'' s2) (\<lambda>s.
        bindR (c3_free p s) (\<lambda>(_, s). Ret s)) else Ret s2) = Ret s3 \<and> vmm_rep s3 xs"
  proof (cases "alloc_blocks (block_nat 1024) xs")
    case None
    then have "c3_malloc 1024 s1 = Ret (0, s1)" using ref by (simp add: c3_malloc_def vmm_alloc_def)
    with 1(2) show ?thesis by (intro exI [of _ 0] exI [of _ s1]) simp
  next
    case (Some q)
    then obtain off ys where some: "alloc_blocks (block_nat 1024) xs = Some (off, ys)" by (cases q) auto
    then obtain s2 :: "'z c3_state_scheme" where
      2: "c3_malloc 1024 s1 = Ret (addr (unat (vh_base (g_vheap s1)) + off + 25), s2)"
      "vmm_rep s2 ys" "vh_base (g_vheap s2) = vh_base (g_vheap s1)"
      using ref by (auto simp: c3_malloc_def vmm_alloc_def)
    obtain as n bs where ys: "ys = as @ (n, True) # bs" "off = span as" "free_blocks as n bs = xs"
      by (rule alloc_free_blocks [OF some co])
    obtain s3 where 3: "write_lit kern at ''Memory allocation successful\<newline>'' s2 = Ret s3" "vmm_rep s3 ys"
      "g_vheap s3 = g_vheap s2"
      by (rule put [OF 2(2)]) auto
    obtain s4 where 4: "c3_free (addr (unat (vh_base (g_vheap s1)) + off + 25)) s3 = Ret ((), s4)" "vmm_rep s4 xs"
      using vmm_free_refines [of s3 as n bs] 3(2,3) 2(3) ys by (auto simp: c3_free_def)
    have "addr (unat (vh_base (g_vheap s1)) + off + 25) \<noteq> 0"
      using rep_live_nonzero [of s2 as n bs] 2(2,3) ys by simp
    with 2(1) 3(1) 4 show ?thesis by (intro exI [of _ s2] exI [of _ s4] exI) (auto intro: exI)
  qed
  then obtain p s2 s3 where 3: "c3_malloc 1024 s1 = Ret (p, s2)" "vmm_rep s3 xs"
    "(if p \<noteq> 0 then bindR (write_lit kern at ''Memory allocation successful\<newline>'' s2) (\<lambda>s.
        bindR (c3_free p s) (\<lambda>(_, s). Ret s)) else Ret s2) = Ret s3" by blast
  obtain r s4 where 4: "syscall kern SYS_GETPID 0 0 0 0 0 s3 = Ret (r, s4)" "g_vheap s4 = g_vheap s3"
    "vhdr s4 = vhdr s3" by (rule calm_syscall [OF kern])
  have "vmm_rep s4 xs" using 3(2) vmm_rep_cong [OF 4(2,3)] by simp
  then obtain s5 where 5: "write_lit kern at ''Process ID: '' s4 = Ret s5" "vmm_rep s5 xs"
    by (rule put) auto
  have "main kern at argc argv s = Ret (0, s5)"
    using 1(1) 3(1,3) 4(1) 5(1) by (simp add: main_def getpid_def)
  with 5(2) show ?thesis by blast
qed

section \<open>Properties\<close>

text \<open>
  A start-up over a heap that is not at address 0 and does not wrap, followed by the application's
  entry: whatever the kernel answers to the calls, as long as it answers and leaves the heap alone,
  \<open>core3_init\<close> and \<open>core3_main\<close> return 0, and at the end the heap is again one free block of the size
  the process was given.
\<close>
theorem core3_start_restores_heap:
  assumes "calm_kernel kern" "pi_heap_base i \<noteq> 0" "unat (pi_heap_base i) + unat (pi_heap_size i) \<le> 2 ^ 64"
    "50 \<le> unat (pi_heap_size i)"
  shows "\<exists>s1 t. core3_init (Some i) s = Ret (0, s1) \<and> g_process_info s1 = Some i \<and>
    core3_main kern at argc argv s1 = Ret (0, t) \<and> vmm_rep t [(unat (pi_heap_size i), False)]"
proof -
  have big: "\<not> pi_heap_size i < sizeof_mem_block * 2"
    using assms(4) by (simp add: sizeof_mem_block_def word_less_nat_alt)
  obtain s1 where s1: "vmm_init (pi_heap_base i) (pi_heap_size i) (s\<lparr>g_process_info := Some i\<rparr>) = Ret (0, s1)"
    "g_process_info s1 = Some i" using big by (auto simp: vmm_init_def)
  have "core3_init (Some i) s = Ret (0, s1)" using s1(1) by (simp add: core3_init_def c3_ipc_init_def)
  moreover have "vmm_rep s1 [(unat (pi_heap_size i), False)]" by (rule vmm_init_rep [OF assms(2,3) s1(1)])
  then obtain t where "main kern at argc argv s1 = Ret (0, t)" "vmm_rep t [(unat (pi_heap_size i), False)]"
    using main_returns [OF assms(1)] by (metis coalesced_def successively.simps(2))
  ultimately show ?thesis using s1(2) unfolding core3_main_def by blast
qed

definition sample_process :: process_info where
  "sample_process = \<lparr>pi_process_id = 3, pi_parent_pid = 1, pi_entry_point = 0x1000, pi_code_base = 0x1000,
     pi_code_size = 0x1000, pi_data_base = 0x2000, pi_data_size = 0x1000, pi_stack_base = 0x3000,
     pi_stack_size = 0x1000, pi_heap_base = 0x4000, pi_heap_size = 0x1000, pi_num_caps = 0,
     pi_cap_handles = replicate 64 0, pi_argc = 0, pi_argv = 0, pi_envp = 0\<rparr>"

definition sample_kernel :: "c3_state sys_kernel" where "sample_kernel n a b c d e s = Ret (7, s)"

theorem core3_start_restores_heap_witness:
  "\<forall>s :: c3_state. \<exists>s1 t. core3_init (Some sample_process) s = Ret (0, s1) \<and>
     core3_main sample_kernel (\<lambda>_. 0x2000) 0 0 s1 = Ret (0, t) \<and> vmm_rep t [(4096, False)]"
proof
  fix s :: c3_state
  have "calm_kernel sample_kernel" by (simp add: calm_kernel_def sample_kernel_def)
  from core3_start_restores_heap [OF this, of sample_process s "\<lambda>_. 0x2000" 0 0]
  show "\<exists>s1 t. core3_init (Some sample_process) s = Ret (0, s1) \<and>
     core3_main sample_kernel (\<lambda>_. 0x2000) 0 0 s1 = Ret (0, t) \<and> vmm_rep t [(4096, False)]"
    by (auto simp: sample_process_def)
qed

lemma ipc_call_eq:
  assumes "length (c3_data junk) = 4096" "min (unat sz) 4096 \<le> length req"
    and kern: "kern 8 service_name msg_addr (of_nat (min (unat sz) 4096)) 0 0
      (s\<lparr>sys_msg := \<lparr>c3_header = (c3_header junk)\<lparr>c3_msg_type := 0, c3_data_size := ucast sz\<rparr>,
        c3_data = take (min (unat sz) 4096) req @ drop (min (unat sz) 4096) (c3_data junk)\<rparr>\<rparr>) = Ret (r, t)"
    and "r \<noteq> 0x8000000000000000" "length (c3_data (sys_msg t)) = 4096"
  shows "ipc_call kern msg_addr junk service_name (Some req) response sz s =
    (if sint r < 0 then Ret ((- 1, response), t)
     else case response of
       None \<Rightarrow> Ret ((ucast r, None), t)
     | Some buf \<Rightarrow> let n = unat (c3_data_size (c3_header (sys_msg t))) in
         if n \<le> length buf \<and> n \<le> 4096
         then Ret ((ucast r, Some (take n (c3_data (sys_msg t)) @ drop n buf)), t)
         else Fault)"
proof -
  let ?n = "if C3_MAX_MSG_SIZE < sz then C3_MAX_MSG_SIZE else sz"
  have n: "?n = of_nat (min (unat sz) 4096)" "unat ?n = min (unat sz) 4096"
    by (auto simp: C3_MAX_MSG_SIZE_def word_less_nat_alt min_def)
  have copy: "c3_memcpy (Some (c3_data junk)) (Some req) ?n =
      Ret (Some (take (min (unat sz) 4096) req @ drop (min (unat sz) 4096) (c3_data junk)))"
    using assms(1,2) by (simp only: c3_memcpy_eq n(2)) simp
  have call: "syscall kern SYS_IPC_CALL service_name msg_addr ?n 0 0
      (s\<lparr>sys_msg := \<lparr>c3_header = (c3_header junk)\<lparr>c3_msg_type := msg_type_code IPC_TYPE_REQUEST, c3_data_size := ucast sz\<rparr>,
        c3_data = the (Some (take (min (unat sz) 4096) req @ drop (min (unat sz) 4096) (c3_data junk)))\<rparr>\<rparr>) =
      Ret (if sint r < 0 then \<lparr>sys_ret = -1, sys_error = - r\<rparr> else \<lparr>sys_ret = r, sys_error = 0\<rparr>, t)"
    by (simp only: syscall_def n(1) sys_num.simps msg_type_code.simps option.sel kern) (simp add: assms(4))
  have buf: "c3_memcpy (Some b) (Some (c3_data (sys_msg t))) (ucast (c3_data_size (c3_header (sys_msg t)))) =
      (let n = unat (c3_data_size (c3_header (sys_msg t))) in
       if n \<le> length b \<and> n \<le> 4096 then Ret (Some (take n (c3_data (sys_msg t)) @ drop n b)) else Fault)" for b
    by (simp add: c3_memcpy_eq unat_ucast_up assms(5) Let_def)
  have trunc: "ucast (-1 :: u64) = (-1 :: u32)" by (rule bit_word_eqI) (simp add: bit_unsigned_iff)
  show ?thesis
    unfolding ipc_call_def Let_def copy bindR.simps call
    by (cases response; cases "sint r < 0") (simp_all add: buf Let_def trunc)
qed

text \<open>
  C24. What \<open>ipc_call\<close> does, for a request of at least as many bytes as are sent and a kernel that
  answers with anything but \<open>INT64_MIN\<close> (whose negation overflows). The kernel sees a message with the first bytes of the request, at most 4096 of them, but
  with the size the caller gave, so that a larger one stays in the header. On a negative answer
  the result is -1 and the response buffer is as it was. On another the buffer gets as many bytes as
  the header says by then; when that is more than the buffer has, or more than the 4096
  of the message, the call runs over one of them.
\<close>
theorem ipc_call_outcome:
  assumes "length (c3_data junk) = 4096" "min (unat sz) 4096 \<le> length req"
    and kern: "kern 8 service_name msg_addr (of_nat (min (unat sz) 4096)) 0 0
      (s\<lparr>sys_msg := \<lparr>c3_header = (c3_header junk)\<lparr>c3_msg_type := 0, c3_data_size := ucast sz\<rparr>,
        c3_data = take (min (unat sz) 4096) req @ drop (min (unat sz) 4096) (c3_data junk)\<rparr>\<rparr>) = Ret (r, t)"
    and "r \<noteq> 0x8000000000000000" "length (c3_data (sys_msg t)) = 4096"
  shows "ipc_call kern msg_addr junk service_name (Some req) response sz s =
    (if sint r < 0 then Ret ((- 1, response), t)
     else case response of
       None \<Rightarrow> Ret ((ucast r, None), t)
     | Some buf \<Rightarrow> let n = unat (c3_data_size (c3_header (sys_msg t))) in
         if n \<le> length buf \<and> n \<le> 4096
         then Ret ((ucast r, Some (take n (c3_data (sys_msg t)) @ drop n buf)), t)
         else Fault)"
  using assms by (rule ipc_call_eq)

definition sample_msg :: c3_msg where
  "sample_msg = \<lparr>c3_header = \<lparr>c3_msg_type = 0, c3_msg_id = 0, c3_src_process = 0, c3_dst_service = 0,
     c3_data_size = 0, c3_flags = 0, c3_timestamp = 0\<rparr>, c3_data = replicate 4096 0\<rparr>"

lemma sample_msg_length: "length (c3_data sample_msg) = 4096"
  by (simp only: sample_msg_def c3_msg.simps length_replicate)

theorem ipc_call_outcome_witness:
  "\<forall>s. ipc_call sample_kernel 0x3000 sample_msg 0x2000 (Some [1, 2, 3, 4]) (Some [0, 0]) 4 s = Fault"
proof
  fix s :: c3_state
  define t where "t = s\<lparr>sys_msg := \<lparr>c3_header = (c3_header sample_msg)\<lparr>c3_msg_type := 0, c3_data_size := ucast (4 :: u64)\<rparr>,
    c3_data = take (min (unat (4 :: u64)) 4096) [1, 2, 3, 4] @ drop (min (unat (4 :: u64)) 4096) (c3_data sample_msg)\<rparr>\<rparr>"
  have t: "length (c3_data (sys_msg t)) = 4096" "unat (c3_data_size (c3_header (sys_msg t))) = 4"
    using sample_msg_length by (simp_all add: t_def)
  have answer: "(7 :: u64) \<noteq> 0x8000000000000000" "\<not> sint (7 :: u64) < 0" by simp_all
  have "ipc_call sample_kernel 0x3000 sample_msg 0x2000 (Some [1, 2, 3, 4]) (Some [0, 0]) 4 s =
    (if sint (7 :: u64) < 0 then Ret ((- 1, Some [0, 0]), t)
     else case Some [0, 0] of
       None \<Rightarrow> Ret ((ucast (7 :: u64), None), t)
     | Some buf \<Rightarrow> let n = unat (c3_data_size (c3_header (sys_msg t))) in
         if n \<le> length buf \<and> n \<le> 4096
         then Ret ((ucast (7 :: u64), Some (take n (c3_data (sys_msg t)) @ drop n buf)), t)
         else Fault)"
    by (rule ipc_call_outcome [OF sample_msg_length _ _ answer(1) t(1)]) (simp_all add: sample_kernel_def t_def)
  with t(2) answer(2) show "ipc_call sample_kernel 0x3000 sample_msg 0x2000 (Some [1, 2, 3, 4]) (Some [0, 0]) 4 s = Fault"
    by (simp add: Let_def)
qed

end
