(* ===== verification/HelloApp.thy ===== *)
theory HelloApp
  imports Core3
begin

text \<open>
  The example application (\<open>Core-3/examples/hello_app.c\<close>), a client of the whole of Core-3: it writes, allocates and
  frees, calls a service and sleeps. As in \<open>Core3\<close> the kernel is a parameter, and the addresses the compiler and the
  linker choose are too; the buffer of the number that is printed is an object of the state, which the kernel reads.
\<close>

section \<open>Output\<close>

record app_state = c3_state +
  hex_buffer :: bytes

definition simple_printf :: "app_state sys_kernel \<Rightarrow> u64 \<Rightarrow> bytes \<Rightarrow> app_state \<Rightarrow> app_state outcome" where
  "simple_printf kern at_str str s =
     bindR (c3_strlen (Some str)) (\<lambda>n. bindR (c3_write kern 1 at_str n s) (\<lambda>(_, s). Ret s))"

definition hex_chars :: bytes where "hex_chars = lit ''0123456789abcdef''"

text \<open>The loop that fills \<open>buffer\<close> below index \<open>i\<close> from the right.\<close>

primrec app_hex :: "nat \<Rightarrow> u64 \<Rightarrow> bytes \<Rightarrow> bytes" where
  "app_hex 0 value buffer = buffer"
| "app_hex (Suc i) value buffer = app_hex i (drop_bit 4 value) (buffer[i := hex_chars ! unat (value AND 0xf)])"

text \<open>The addresses of the literals and of the objects on the stack, and what the stack holds.\<close>

record app_env =
  at_lit :: "string \<Rightarrow> u64"
  at_buffer :: u64
  at_msg :: u64
  msg_junk :: c3_msg
  response_junk :: bytes

definition simple_print_hex :: "app_state sys_kernel \<Rightarrow> app_env \<Rightarrow> u64 \<Rightarrow> app_state \<Rightarrow> app_state outcome" where
  "simple_print_hex kern e value s =
     (let s = s\<lparr>hex_buffer := app_hex 16 value ((hex_buffer s)[16 := 0])\<rparr> in
      bindR (c3_write kern 1 (at_lit e ''0x'') 2 s) (\<lambda>(_, s).
      bindR (c3_write kern 1 (at_buffer e) 16 s) (\<lambda>(_, s). Ret s)))"

section \<open>The application\<close>

definition put :: "app_state sys_kernel \<Rightarrow> app_env \<Rightarrow> string \<Rightarrow> app_state \<Rightarrow> app_state outcome" where
  "put kern e msg = simple_printf kern (at_lit e msg) (lit msg)"

text \<open>The identifiers are \<open>int\<close>s, printed as 64-bit numbers.\<close>

definition print_ids :: "app_state sys_kernel \<Rightarrow> app_env \<Rightarrow> app_state \<Rightarrow> app_state outcome" where
  "print_ids kern e s =
     bindR (put kern e ''Process ID: '' s) (\<lambda>s.
     bindR (getpid kern s) (\<lambda>(pid, s).
     bindR (simple_print_hex kern e (scast pid) s) (\<lambda>s.
     bindR (put kern e ''\<newline>'' s) (\<lambda>s.
     bindR (put kern e ''Parent PID: '' s) (\<lambda>s.
     bindR (getppid kern s) (\<lambda>(ppid, s).
     bindR (simple_print_hex kern e (scast ppid) s) (put kern e ''\<newline>'')))))))"

text \<open>The loop over the arguments from \<open>i\<close> on, with \<open>n\<close> to go; an argument is its address and its object.\<close>

primrec print_args ::
  "app_state sys_kernel \<Rightarrow> app_env \<Rightarrow> (u64 \<times> bytes) list \<Rightarrow> nat \<Rightarrow> nat \<Rightarrow> app_state \<Rightarrow> app_state outcome" where
  "print_args kern e argv 0 i s = Ret s"
| "print_args kern e argv (Suc n) i s =
     bindR (if 0 < i then put kern e '' '' s else Ret s) (\<lambda>s.
     if length argv \<le> i then Fault
     else bindR (simple_printf kern (fst (argv ! i)) (snd (argv ! i)) s) (print_args kern e argv n (Suc i)))"

definition test_heap :: "app_state sys_kernel \<Rightarrow> app_env \<Rightarrow> app_state \<Rightarrow> app_state outcome" where
  "test_heap kern e s =
     bindR (put kern e ''Testing memory allocation...\<newline>'' s) (\<lambda>s.
     bindR (c3_malloc 1024 s) (\<lambda>(ptr1, s).
     bindR (c3_malloc 2048 s) (\<lambda>(ptr2, s).
     bindR (c3_malloc 4096 s) (\<lambda>(ptr3, s).
     bindR (put kern e ''Allocated: ptr1='' s) (\<lambda>s.
     bindR (simple_print_hex kern e ptr1 s) (\<lambda>s.
     bindR (put kern e '', ptr2='' s) (\<lambda>s.
     bindR (simple_print_hex kern e ptr2 s) (\<lambda>s.
     bindR (put kern e '', ptr3='' s) (\<lambda>s.
     bindR (simple_print_hex kern e ptr3 s) (\<lambda>s.
     bindR (put kern e ''\<newline>'' s) (\<lambda>s.
     bindR (c3_free ptr1 s) (\<lambda>(_, s).
     bindR (c3_free ptr2 s) (\<lambda>(_, s).
     bindR (c3_free ptr3 s) (\<lambda>(_, s).
     put kern e ''Memory freed\<newline>'' s))))))))))))))"

text \<open>The request, with its terminator; the response has 256 bytes.\<close>

definition request :: bytes where
  "request = lit (''GET / HTTP/1.1'' @ [CHR 0x0D, CHR 0x0A] @ ''Host: example.com'' @
     [CHR 0x0D, CHR 0x0A, CHR 0x0D, CHR 0x0A])"

definition test_ipc :: "app_state sys_kernel \<Rightarrow> app_env \<Rightarrow> app_state \<Rightarrow> app_state outcome" where
  "test_ipc kern e s =
     bindR (put kern e ''Testing IPC call to network service...\<newline>'' s) (\<lambda>s.
     bindR (ipc_call kern (at_msg e) (msg_junk e) (at_lit e ''network'') (Some request) (Some (response_junk e))
       (of_nat (length request)) s) (\<lambda>((ret, response), s).
     if 0 \<le> sint ret then put kern e ''IPC call successful\<newline>'' s else put kern e ''IPC call failed\<newline>'' s))"

definition hello_main ::
  "app_state sys_kernel \<Rightarrow> app_env \<Rightarrow> u32 \<Rightarrow> (u64 \<times> bytes) list \<Rightarrow> app_state \<Rightarrow> (u32 \<times> app_state) outcome" where
  "hello_main kern e argc argv s =
     bindR (put kern e ''Hello from HIK Application-3!\<newline>'' s) (\<lambda>s.
     bindR (print_ids kern e s) (\<lambda>s.
     bindR (put kern e ''Arguments: '' s) (\<lambda>s.
     bindR (print_args kern e argv (nat (sint argc)) 0 s) (\<lambda>s.
     bindR (put kern e ''\<newline>'' s) (\<lambda>s.
     bindR (test_heap kern e s) (\<lambda>s.
     bindR (test_ipc kern e s) (\<lambda>s.
     bindR (put kern e ''Sleeping for 1000ms...\<newline>'' s) (\<lambda>s.
     bindR (sleep_ms kern 1000 s) (\<lambda>(_, s).
     bindR (put kern e ''Goodbye from HIK Application-3!\<newline>'' s) (\<lambda>s. Ret (0, s)))))))))))"

section \<open>Steps\<close>

definition heap_is :: "u64 \<Rightarrow> layout \<Rightarrow> app_state \<Rightarrow> bool" where
  "heap_is b xs s \<longleftrightarrow> vmm_rep s xs \<and> vh_base (g_vheap s) = b"

text \<open>The outcome of the rest of the run satisfies \<open>Q\<close>.\<close>

definition leads :: "('a outcome \<Rightarrow> bool) \<Rightarrow> 'a outcome \<Rightarrow> bool" where "leads Q o' = Q o'"

lemma heap_is_cong: "g_vheap t = g_vheap s \<Longrightarrow> vhdr t = vhdr s \<Longrightarrow> heap_is b xs s \<Longrightarrow> heap_is b xs t"
  unfolding heap_is_def using vmm_rep_cong [of t s xs] by metis

lemma syscall_step:
  assumes "calm_kernel kern" "heap_is b xs s" "\<And>r t. heap_is b xs t \<Longrightarrow> leads Q (f (r, t))"
  shows "leads Q (bindR (syscall kern num a1 a2 a3 a4 a5 s) f)"
proof -
  obtain r t where "syscall kern num a1 a2 a3 a4 a5 s = Ret (r, t)" "g_vheap t = g_vheap s" "vhdr t = vhdr s"
    by (rule calm_syscall [OF assms(1)])
  with assms(3) heap_is_cong [OF this(2,3) assms(2)] show ?thesis by simp
qed

lemma write_step:
  assumes "calm_kernel kern" "heap_is b xs s" "\<And>r t. heap_is b xs t \<Longrightarrow> leads Q (f (r, t))"
  shows "leads Q (bindR (c3_write kern fd a n s) f)"
  unfolding c3_write_def bindR_assoc by (rule syscall_step [OF assms(1,2)]) (simp add: assms(3))

lemma strlen_returns: "0 \<in> set str \<Longrightarrow> \<exists>n. c3_strlen (Some str) = Ret n"
proof -
  assume "0 \<in> set str"
  then obtain j where j: "j < length str" "str ! j = 0" by (auto simp: in_set_conv_nth)
  have "\<exists>n. strlen_loop i str = Ret n" if "i \<le> j" for i
    using that
  proof (induction "j - i" arbitrary: i)
    case 0
    with j show ?case by (subst strlen_loop.simps) simp
  next
    case (Suc k)
    with j show ?case by (subst strlen_loop.simps) simp
  qed
  then show ?thesis by (simp add: c3_strlen_def c1_strlen_def)
qed

lemma printf_step:
  assumes "calm_kernel kern" "heap_is b xs s" "0 \<in> set str" "\<And>t. heap_is b xs t \<Longrightarrow> leads Q (f t)"
  shows "leads Q (bindR (simple_printf kern a str s) f)"
proof -
  obtain n where n: "c3_strlen (Some str) = Ret n" using strlen_returns [OF assms(3)] ..
  show ?thesis unfolding simple_printf_def bindR_assoc n bindR.simps
    by (rule write_step [OF assms(1,2)]) (simp add: assms(4))
qed

lemma put_step:
  assumes "calm_kernel kern" "heap_is b xs s" "\<And>t. heap_is b xs t \<Longrightarrow> leads Q (f t)"
  shows "leads Q (bindR (put kern e msg s) f)"
  unfolding put_def by (rule printf_step [OF assms(1,2)]) (simp_all add: lit_def assms(3))

lemma print_hex_step:
  assumes "calm_kernel kern" "heap_is b xs s" "\<And>t. heap_is b xs t \<Longrightarrow> leads Q (f t)"
  shows "leads Q (bindR (simple_print_hex kern e v s) f)"
  unfolding simple_print_hex_def Let_def bindR_assoc
proof (rule write_step [OF assms(1)])
  show "heap_is b xs (s\<lparr>hex_buffer := app_hex 16 v ((hex_buffer s)[16 := 0])\<rparr>)"
    by (rule heap_is_cong [OF _ _ assms(2)]) simp_all
qed (simp only: prod.case bindR_assoc, rule write_step [OF assms(1)], assumption, simp add: assms(3))

lemma print_ids_step:
  assumes "calm_kernel kern" "heap_is b xs s" "\<And>t. heap_is b xs t \<Longrightarrow> leads Q (f t)"
  shows "leads Q (bindR (print_ids kern e s) f)"
proof -
  note steps = put_step [OF assms(1)] print_hex_step [OF assms(1)] syscall_step [OF assms(1)]
  show ?thesis
    unfolding print_ids_def bindR_assoc getpid_def getppid_def
    by (rule steps, rule assms(2), ((simp only: prod.case bindR_assoc bindR.simps)?, rule steps, assumption)+) (simp add: assms(3))
qed

definition args_ok :: "u32 \<Rightarrow> (u64 \<times> bytes) list \<Rightarrow> bool" where
  "args_ok argc argv \<longleftrightarrow> nat (sint argc) \<le> length argv \<and> (\<forall>x\<in>set argv. 0 \<in> set (snd x))"

lemma print_args_step:
  assumes kern: "calm_kernel kern" and strings: "\<forall>x\<in>set argv. 0 \<in> set (snd x)"
  shows "i + n \<le> length argv \<Longrightarrow> heap_is b xs s \<Longrightarrow> (\<And>t. heap_is b xs t \<Longrightarrow> leads Q (f t)) \<Longrightarrow>
    leads Q (bindR (print_args kern e argv n i s) f)"
proof (induction n arbitrary: i s)
  case (Suc n)
  then have i: "i < length argv" "0 \<in> set (snd (argv ! i))" using strings by auto
  have rest: "leads Q (bindR (simple_printf kern (fst (argv ! i)) (snd (argv ! i)) t) (\<lambda>t. bindR (print_args kern e argv n (Suc i) t) f))"
    if "heap_is b xs t" for t
    by (rule printf_step [OF kern that i(2)], rule Suc.IH) (use Suc.prems in auto)
  show ?case
  proof (cases "0 < i")
    case True
    with i(1) show ?thesis
      by (simp add: bindR_assoc) (rule put_step [OF kern Suc.prems(2)], rule rest)
  next
    case False
    with i(1) rest [OF Suc.prems(2)] show ?thesis by (simp add: bindR_assoc)
  qed
qed simp

lemma malloc_step:
  assumes "heap_is b xs s" "alloc_blocks (block_nat (unat sz)) xs = Some (off, ys)" "0 < unat sz" "unat sz \<le> 2 ^ 64 - 72"
    "\<And>t. heap_is b ys t \<Longrightarrow> leads Q (f (addr (unat b + off + 25), t))"
  shows "leads Q (bindR (c3_malloc sz s) f)"
proof -
  have s: "vmm_rep s xs" "vh_base (g_vheap s) = b" using assms(1) by (auto simp: heap_is_def)
  obtain t where "vmm_alloc_aligned sz MALLOC_ALIGN s = Ret (addr (unat b + off + 25), t)" "vmm_rep t ys"
    "vh_base (g_vheap t) = b"
    using vmm_alloc_refines [OF s(1) assms(3,4), of MALLOC_ALIGN] assms(2) s(2) by auto
  with assms(5) [of t] show ?thesis by (simp add: c3_malloc_def vmm_alloc_def heap_is_def)
qed

lemma free_step:
  assumes "heap_is b (as @ (n, True) # bs) s" "p = addr (unat b + span as + 25)"
    "\<And>t. heap_is b (free_blocks as n bs) t \<Longrightarrow> leads Q (f ((), t))"
  shows "leads Q (bindR (c3_free p s) f)"
proof -
  obtain t where "vmm_free p s = Ret ((), t)" "vmm_rep t (free_blocks as n bs)" "vh_base (g_vheap t) = b"
    using vmm_free_refines [of s as n bs] assms(1,2) by (auto simp: heap_is_def)
  with assms(3) [of t] show ?thesis by (simp add: c3_free_def heap_is_def)
qed

lemma test_heap_step:
  assumes kern: "calm_kernel kern" and s: "heap_is b [(k, False)] s" "7276 \<le> k"
    and rest: "\<And>t. heap_is b [(k, False)] t \<Longrightarrow> leads Q (f t)"
  shows "leads Q (bindR (test_heap kern e s) f)"
proof -
  let ?l1 = "[(1049, True), (k - 1049, False)]" and ?l2 = "[(1049, True), (2073, True), (k - 3122, False)]"
  let ?l3 = "[(1049, True), (2073, True), (4121, True), (k - 7243, False)]"
  have allocs: "alloc_blocks (block_nat (unat (1024 :: u64))) [(k, False)] = Some (0, ?l1)"
    "alloc_blocks (block_nat (unat (2048 :: u64))) ?l1 = Some (1049, ?l2)"
    "alloc_blocks (block_nat (unat (4096 :: u64))) ?l2 = Some (3122, ?l3)"
    using s(2) by (simp_all add: block_nat_def)
  have frees: "free_blocks [] 1049 [(2073, True), (4121, True), (k - 7243, False)] =
      [(1049, False), (2073, True), (4121, True), (k - 7243, False)]"
    "free_blocks [(1049, False)] 2073 [(4121, True), (k - 7243, False)] = [(3122, False), (4121, True), (k - 7243, False)]"
    "free_blocks [(3122, False)] 4121 [(k - 7243, False)] = [(k, False)]"
    using s(2) by (simp_all add: free_blocks_def join_left_def)
  note out = put_step [OF kern] print_hex_step [OF kern]
  show ?thesis
    unfolding test_heap_def bindR_assoc
    apply (rule out, rule s(1))
    apply (rule malloc_step, assumption, rule allocs, simp, simp, simp only: prod.case bindR_assoc)
    apply (rule malloc_step, assumption, rule allocs, simp, simp, simp only: prod.case bindR_assoc)
    apply (rule malloc_step, assumption, rule allocs, simp, simp, simp only: prod.case bindR_assoc)
    apply (rule out, assumption)+
    apply (rule free_step [where as = "[]" and n = 1049 and bs = "[(2073, True), (4121, True), (k - 7243, False)]"],
        simp, simp, simp only: prod.case bindR_assoc frees)
    apply (rule free_step [where as = "[(1049, False)]" and n = 2073 and bs = "[(4121, True), (k - 7243, False)]"],
        simp, simp, simp only: prod.case bindR_assoc frees)
    apply (rule free_step [where as = "[(3122, False)]" and n = 4121 and bs = "[(k - 7243, False)]"],
        simp, simp, simp only: prod.case bindR_assoc frees)
    apply (rule out, assumption, rule rest, assumption)
    done
qed

text \<open>A kernel whose answers to \<open>SYS_IPC_CALL\<close> are successful and carry \<open>n\<close> bytes, by their header.\<close>

definition answers_with :: "app_state sys_kernel \<Rightarrow> nat \<Rightarrow> bool" where
  "answers_with kern n \<longleftrightarrow> (\<forall>a1 a2 a3 a4 a5 s r t. kern 8 a1 a2 a3 a4 a5 s = Ret (r, t) \<longrightarrow>
     0 \<le> sint r \<and> length (c3_data (sys_msg t)) = 4096 \<and> unat (c3_data_size (c3_header (sys_msg t))) = n)"

lemma test_ipc_step:
  assumes kern: "calm_kernel kern" "answers_with kern n" and s: "heap_is b xs s"
    and env: "length (c3_data (msg_junk e)) = 4096" "length (response_junk e) = 256"
    and rest: "\<And>t. n \<le> 256 \<Longrightarrow> heap_is b xs t \<Longrightarrow> leads Q (f t)" and fault: "256 < n \<Longrightarrow> leads Q Fault"
  shows "leads Q (bindR (test_ipc kern e s) f)"
  unfolding test_ipc_def bindR_assoc
proof (rule put_step [OF kern(1) s])
  fix u assume u: "heap_is b xs u"
  have len: "length request = 38" by (simp add: request_def lit_def)
  let ?sz = "of_nat (length request) :: u64"
  let ?u = "u\<lparr>sys_msg := \<lparr>c3_header = (c3_header (msg_junk e))\<lparr>c3_msg_type := 0, c3_data_size := ucast ?sz\<rparr>,
    c3_data = take (min (unat ?sz) 4096) request @ drop (min (unat ?sz) 4096) (c3_data (msg_junk e))\<rparr>\<rparr>"
  obtain r t where t: "kern 8 (at_lit e ''network'') (at_msg e) (of_nat (min (unat ?sz) 4096)) 0 0 ?u = Ret (r, t)"
    "r \<noteq> 0x8000000000000000" "g_vheap t = g_vheap ?u" "vhdr t = vhdr ?u"
    using kern(1) unfolding calm_kernel_def by blast
  have r: "0 \<le> sint r" "length (c3_data (sys_msg t)) = 4096" "unat (c3_data_size (c3_header (sys_msg t))) = n"
    using kern(2) t(1) unfolding answers_with_def by blast+
  have copied: "min (unat ?sz) 4096 \<le> length request" by (simp add: len)
  have call: "ipc_call kern (at_msg e) (msg_junk e) (at_lit e ''network'') (Some request) (Some (response_junk e)) ?sz u =
      (if n \<le> 256 then Ret ((ucast r, Some (take n (c3_data (sys_msg t)) @ drop n (response_junk e))), t) else Fault)"
    unfolding ipc_call_eq [where kern = kern and sz = ?sz and req = request and s = u and junk = "msg_junk e",
      OF env(1) copied t(1,2) r(2)]
    using r env(2) by (simp add: Let_def)
  have heap: "heap_is b xs t" using t(3,4) by (intro heap_is_cong [OF _ _ u]) simp_all
  show "leads Q (bindR (ipc_call kern (at_msg e) (msg_junk e) (at_lit e ''network'') (Some request) (Some (response_junk e)) ?sz u)
      (\<lambda>x. bindR ((\<lambda>((ret, response), s).
         if 0 \<le> sint ret then put kern e ''IPC call successful\<newline>'' s else put kern e ''IPC call failed\<newline>'' s) x) f))"
  proof (cases "n \<le> 256")
    case True
    then show ?thesis unfolding call
      by (auto intro!: put_step [OF kern(1) heap] rest)
  next
    case False
    then show ?thesis unfolding call using fault by simp
  qed
qed

section \<open>The run\<close>

text \<open>C25. A start of the application over a heap of at least 7276 bytes that is not at address 0 and does not wrap, on a kernel that lets
  Core-3's memory alone and answers the call of the service \<open>network\<close> with \<open>n\<close> bytes: if they fit into the
  256 bytes \<open>response\<close> has, \<open>main\<close> returns 0 and the heap, of which it allocated and freed three blocks, is
  again the one free block \<open>core3_init\<close> made; if they do not, \<open>ipc_call\<close> writes past the end of the array.\<close>

theorem hello_app_outcome:
  assumes "calm_kernel kern" "answers_with kern n"
    and heap: "pi_heap_base i \<noteq> 0" "unat (pi_heap_base i) + unat (pi_heap_size i) \<le> 2 ^ 64" "7276 \<le> unat (pi_heap_size i)"
    and env: "length (c3_data (msg_junk e)) = 4096" "length (response_junk e) = 256" and args: "args_ok argc argv"
  shows "\<exists>s1. core3_init (Some i) s = Ret (0, s1) \<and>
    (if n \<le> 256 then \<exists>t. hello_main kern e argc argv s1 = Ret (0, t) \<and> vmm_rep t [(unat (pi_heap_size i), False)]
     else hello_main kern e argc argv s1 = Fault)"
proof -
  let ?xs = "[(unat (pi_heap_size i), False)]"
  let ?Q = "\<lambda>r. if n \<le> 256 then \<exists>t. r = Ret (0 :: u32, t) \<and> vmm_rep t ?xs else r = Fault"
  have "\<not> pi_heap_size i < sizeof_mem_block * 2" using heap(3) by (simp add: sizeof_mem_block_def word_less_nat_alt)
  then obtain s1 where s1: "vmm_init (pi_heap_base i) (pi_heap_size i) (s\<lparr>g_process_info := Some i\<rparr>) = Ret (0, s1)"
    by (auto simp: vmm_init_def)
  then have init: "core3_init (Some i) s = Ret (0, s1)" by (simp add: core3_init_def c3_ipc_init_def)
  have s': "heap_is (vh_base (g_vheap s1)) ?xs s1" using vmm_init_rep [OF heap(1,2) s1] by (simp add: heap_is_def)
  have argv: "\<forall>x\<in>set argv. 0 \<in> set (snd x)" "0 + nat (sint argc) \<le> length argv" using args by (simp_all add: args_ok_def)
  note out = put_step [OF assms(1)]
  have "leads ?Q (hello_main kern e argc argv s1)"
    unfolding hello_main_def sleep_ms_def
    apply (rule out, rule s')
    apply (rule print_ids_step [OF assms(1)], assumption)
    apply (rule out, assumption)
    apply (rule print_args_step [OF assms(1) argv], assumption)
    apply (rule out, assumption)
    apply (rule test_heap_step [OF assms(1)], assumption, rule heap(3))
    apply (rule test_ipc_step [OF assms(1,2) _ env], assumption)
     apply (rule out, assumption)
     apply (simp only: bindR_assoc prod.case bindR.simps)
     apply (rule syscall_step [OF assms(1)], assumption)
     apply (simp only: bindR_assoc prod.case bindR.simps)
     apply (rule out, assumption)
     apply (simp add: leads_def heap_is_def)
    apply (simp add: leads_def)
    done
  then show ?thesis using init by (auto simp: leads_def)
qed

definition sample_app :: app_env where
  "sample_app = \<lparr>at_lit = (\<lambda>_. 0x2000), at_buffer = 0x3000, at_msg = 0x3100, msg_junk = sample_msg,
     response_junk = replicate 256 0\<rparr>"

definition answering :: "c3_msg \<Rightarrow> app_state sys_kernel" where
  "answering m n a b c d e s = Ret (7, s\<lparr>sys_msg := m\<rparr>)"

definition sample_answer :: c3_msg where
  "sample_answer = sample_msg\<lparr>c3_header := (c3_header sample_msg)\<lparr>c3_data_size := 300\<rparr>\<rparr>"

text \<open>The same application on two services: one that answers with nothing, and one that answers with 300 bytes.\<close>

theorem hello_app_outcome_witness:
  "\<forall>s. \<exists>s1. core3_init (Some (sample_process\<lparr>pi_heap_size := 0x4000\<rparr>)) s = Ret (0, s1) \<and>
    (\<exists>t. hello_main (answering sample_msg) sample_app 1 [(0x5000, [0x61, 0])] s1 = Ret (0, t) \<and> vmm_rep t [(0x4000, False)]) \<and>
    hello_main (answering sample_answer) sample_app 1 [(0x5000, [0x61, 0])] s1 = Fault"
proof
  fix s :: app_state
  have len: "length (c3_data sample_msg) = 4096" by (rule sample_msg_length)
  have kern: "calm_kernel (answering m)" for m by (simp add: calm_kernel_def answering_def)
  have answers: "answers_with (answering sample_msg) 0" "answers_with (answering sample_answer) 300"
    using len by (simp_all add: answers_with_def answering_def sample_answer_def) (simp_all add: sample_msg_def)
  have env: "length (c3_data (msg_junk sample_app)) = 4096" "length (response_junk sample_app) = 256"
    using len by (simp_all only: sample_app_def app_env.simps length_replicate)
  have args: "args_ok 1 [(0x5000, [0x61, 0])]" by (simp add: args_ok_def)
  define i where "i = sample_process\<lparr>pi_heap_size := 0x4000\<rparr>"
  have heap: "pi_heap_base i \<noteq> 0" "unat (pi_heap_base i) + unat (pi_heap_size i) \<le> 2 ^ 64" "7276 \<le> unat (pi_heap_size i)"
    and n: "unat (pi_heap_size i) = 0x4000" by (simp_all add: i_def sample_process_def)
  show "\<exists>s1. core3_init (Some (sample_process\<lparr>pi_heap_size := 0x4000\<rparr>)) s = Ret (0, s1) \<and>
    (\<exists>t. hello_main (answering sample_msg) sample_app 1 [(0x5000, [0x61, 0])] s1 = Ret (0, t) \<and> vmm_rep t [(0x4000, False)]) \<and>
    hello_main (answering sample_answer) sample_app 1 [(0x5000, [0x61, 0])] s1 = Fault"
    using hello_app_outcome [OF kern answers(1) heap env args, of s] hello_app_outcome [OF kern answers(2) heap env args, of s] n
    by (auto simp: i_def)
qed

end
