(* ===== verification/Sha384.thy ===== *)
theory Sha384
  imports Strings
begin

text \<open>
  SHA-384 as the UEFI loader computes it (\<open>Bootloader/x86_64/uefi/security/sha384.c\<close>), and what it is
  meant to compute: the function of FIPS 180-4, written from the standard. The locale \<open>hash_stream\<close>
  is the contract of a hash that takes its message in pieces; the loader for BIOS machines
  (theory \<open>BiosSecurity\<close>) has a second one.
\<close>

section \<open>Compression\<close>

text \<open>The constants, as pairs of 32-bit halves.\<close>

definition word64 :: "u64 \<times> u64 \<Rightarrow> u64" where "word64 = (\<lambda>(hi, lo). push_bit 32 hi OR lo)"

definition SHA_K :: "u64 list" where
  "SHA_K = map word64 [
    (0x428a2f98, 0xd728ae22), (0x71374491, 0x23ef65cd), (0xb5c0fbcf, 0xec4d3b2f), (0xe9b5dba5, 0x8189dbbc),
    (0x3956c25b, 0xf348b538), (0x59f111f1, 0xb605d019), (0x923f82a4, 0xaf194f9b), (0xab1c5ed5, 0xda6d8118),
    (0xd807aa98, 0xa3030242), (0x12835b01, 0x45706fbe), (0x243185be, 0x4ee4b28c), (0x550c7dc3, 0xd5ffb4e2),
    (0x72be5d74, 0xf27b896f), (0x80deb1fe, 0x3b1696b1), (0x9bdc06a7, 0x25c71235), (0xc19bf174, 0xcf692694),
    (0xe49b69c1, 0x9ef14ad2), (0xefbe4786, 0x384f25e3), (0x0fc19dc6, 0x8b8cd5b5), (0x240ca1cc, 0x77ac9c65),
    (0x2de92c6f, 0x592b0275), (0x4a7484aa, 0x6ea6e483), (0x5cb0a9dc, 0xbd41fbd4), (0x76f988da, 0x831153b5),
    (0x983e5152, 0xee66dfab), (0xa831c66d, 0x2db43210), (0xb00327c8, 0x98fb213f), (0xbf597fc7, 0xbeef0ee4),
    (0xc6e00bf3, 0x3da88fc2), (0xd5a79147, 0x930aa725), (0x06ca6351, 0xe003826f), (0x14292967, 0x0a0e6e70),
    (0x27b70a85, 0x46d22ffc), (0x2e1b2138, 0x5c26c926), (0x4d2c6dfc, 0x5ac42aed), (0x53380d13, 0x9d95b3df),
    (0x650a7354, 0x8baf63de), (0x766a0abb, 0x3c77b2a8), (0x81c2c92e, 0x47edaee6), (0x92722c85, 0x1482353b),
    (0xa2bfe8a1, 0x4cf10364), (0xa81a664b, 0xbc423001), (0xc24b8b70, 0xd0f89791), (0xc76c51a3, 0x0654be30),
    (0xd192e819, 0xd6ef5218), (0xd6990624, 0x5565a910), (0xf40e3585, 0x5771202a), (0x106aa070, 0x32bbd1b8),
    (0x19a4c116, 0xb8d2d0c8), (0x1e376c08, 0x5141ab53), (0x2748774c, 0xdf8eeb99), (0x34b0bcb5, 0xe19b48a8),
    (0x391c0cb3, 0xc5c95a63), (0x4ed8aa4a, 0xe3418acb), (0x5b9cca4f, 0x7763e373), (0x682e6ff3, 0xd6b2b8a3),
    (0x748f82ee, 0x5defb2fc), (0x78a5636f, 0x43172f60), (0x84c87814, 0xa1f0ab72), (0x8cc70208, 0x1a6439ec),
    (0x90befffa, 0x23631e28), (0xa4506ceb, 0xde82bde9), (0xbef9a3f7, 0xb2c67915), (0xc67178f2, 0xe372532b),
    (0xca273ece, 0xea26619c), (0xd186b8c7, 0x21c0c207), (0xeada7dd6, 0xcde0eb1e), (0xf57d4f7f, 0xee6ed178),
    (0x06f067aa, 0x72176fba), (0x0a637dc5, 0xa2c898a6), (0x113f9804, 0xbef90dae), (0x1b710b35, 0x131c471b),
    (0x28db77f5, 0x23047d84), (0x32caab7b, 0x40c72493), (0x3c9ebe0a, 0x15c9bebc), (0x431d67c4, 0x9c100d4c),
    (0x4cc5d4be, 0xcb3e42b6), (0x597f299c, 0xfc657e2a), (0x5fcb6fab, 0x3ad6faec), (0x6c44198c, 0x4a475817)]"

definition SHA_H0 :: "u64 list" where
  "SHA_H0 = map word64 [
    (0xcbbb9d5d, 0xc1059ed8), (0x629a292a, 0x367cd507), (0x9159015a, 0x3070dd17), (0x152fecd8, 0xf70e5939),
    (0x67332667, 0xffc00b31), (0x8eb44a87, 0x68581511), (0xdb0c2e0d, 0x64f98fa7), (0x47b5481d, 0xbefa4fa4)]"

definition ROTRIGHT :: "u64 \<Rightarrow> nat \<Rightarrow> u64" where "ROTRIGHT a b = drop_bit b a OR push_bit (64 - b) a"

definition CH :: "u64 \<Rightarrow> u64 \<Rightarrow> u64 \<Rightarrow> u64" where "CH x y z = (x AND y) XOR (NOT x AND z)"

definition MAJ :: "u64 \<Rightarrow> u64 \<Rightarrow> u64 \<Rightarrow> u64" where "MAJ x y z = (x AND y) XOR (x AND z) XOR (y AND z)"

definition EP0 :: "u64 \<Rightarrow> u64" where "EP0 x = ROTRIGHT x 28 XOR ROTRIGHT x 34 XOR ROTRIGHT x 39"

definition EP1 :: "u64 \<Rightarrow> u64" where "EP1 x = ROTRIGHT x 14 XOR ROTRIGHT x 18 XOR ROTRIGHT x 41"

definition SIG0 :: "u64 \<Rightarrow> u64" where "SIG0 x = ROTRIGHT x 1 XOR ROTRIGHT x 8 XOR drop_bit 7 x"

definition SIG1 :: "u64 \<Rightarrow> u64" where "SIG1 x = ROTRIGHT x 19 XOR ROTRIGHT x 61 XOR drop_bit 6 x"

text \<open>Word \<open>i\<close> of a block.\<close>

definition load_word :: "bytes \<Rightarrow> nat \<Rightarrow> u64" where
  "load_word block i =
     push_bit 56 (ucast (block ! (i * 8))) OR push_bit 48 (ucast (block ! (i * 8 + 1))) OR
     push_bit 40 (ucast (block ! (i * 8 + 2))) OR push_bit 32 (ucast (block ! (i * 8 + 3))) OR
     push_bit 24 (ucast (block ! (i * 8 + 4))) OR push_bit 16 (ucast (block ! (i * 8 + 5))) OR
     push_bit 8 (ucast (block ! (i * 8 + 6))) OR ucast (block ! (i * 8 + 7))"

text \<open>The array \<open>W\<close> is filled from the front, so that filling it is appending.\<close>

definition schedule :: "bytes \<Rightarrow> u64 list" where
  "schedule block = fold (\<lambda>i W. W @ [SIG1 (W ! (i - 2)) + W ! (i - 7) + SIG0 (W ! (i - 15)) + W ! (i - 16)])
     [16..<80] (map (load_word block) [0..<16])"

type_synonym sha_vars = "u64 \<times> u64 \<times> u64 \<times> u64 \<times> u64 \<times> u64 \<times> u64 \<times> u64"

definition sha_round :: "u64 \<Rightarrow> u64 \<Rightarrow> sha_vars \<Rightarrow> sha_vars" where
  "sha_round k w = (\<lambda>(a, b, c, d, e, f, g, h).
     let t1 = h + EP1 e + CH e f g + k + w; t2 = EP0 a + MAJ a b c
     in (t1 + t2, a, b, c, d + t1, e, f, g))"

definition sha_rounds :: "u64 list \<Rightarrow> sha_vars \<Rightarrow> sha_vars" where
  "sha_rounds W = fold (\<lambda>i. sha_round (SHA_K ! i) (W ! i)) [0..<80]"

text \<open>The new state from the old one and a block of 128 bytes.\<close>

definition sha_compress :: "u64 list \<Rightarrow> bytes \<Rightarrow> u64 list" where
  "sha_compress st block = (case sha_rounds (schedule block)
       (st ! 0, st ! 1, st ! 2, st ! 3, st ! 4, st ! 5, st ! 6, st ! 7) of
     (a, b, c, d, e, f, g, h) \<Rightarrow> [st ! 0 + a, st ! 1 + b, st ! 2 + c, st ! 3 + d,
       st ! 4 + e, st ! 5 + f, st ! 6 + g, st ! 7 + h])"

section \<open>The context and its operations\<close>

record sha384_ctx =
  sha_state :: "u64 list"
  sha_count0 :: u64
  sha_count1 :: u64
  sha_buffer :: bytes

definition Sha384Init :: "sha384_ctx \<Rightarrow> sha384_ctx" where
  "Sha384Init ctx = ctx\<lparr>sha_state := SHA_H0, sha_count0 := 0, sha_count1 := 0\<rparr>"

text \<open>
  Both loaders pass their transformation a pointer to 128 bytes; \<open>off\<close> is where they start in the object.
  An object ends before the address space does.
\<close>

definition transform_at ::
  "(u64 list \<Rightarrow> bytes \<Rightarrow> u64 list) \<Rightarrow> bytes \<Rightarrow> u64 \<Rightarrow> sha384_ctx \<Rightarrow> sha384_ctx outcome" where
  "transform_at compress dat off ctx =
     (if unat off + 128 \<le> length dat \<and> unat off + 128 < 2 ^ 64
      then Ret (ctx\<lparr>sha_state := compress (sha_state ctx) (take 128 (drop (unat off) dat))\<rparr>) else Fault)"

definition Sha384Transform :: "bytes \<Rightarrow> u64 \<Rightarrow> sha384_ctx \<Rightarrow> sha384_ctx outcome" where
  "Sha384Transform = transform_at sha_compress"

text \<open>\<open>for (; i + 127 < Len; i += 128) Sha384Transform(Ctx, &Data[i])\<close>; the final \<open>i\<close> is returned.\<close>

function transform_loop ::
  "(u64 list \<Rightarrow> bytes \<Rightarrow> u64 list) \<Rightarrow> bytes \<Rightarrow> u64 \<Rightarrow> u64 \<Rightarrow> sha384_ctx \<Rightarrow> (u64 \<times> sha384_ctx) outcome" where
  "transform_loop compress dat len i ctx =
     (if i + 127 < len
      then bindR (transform_at compress dat i ctx) (\<lambda>ctx. transform_loop compress dat len (i + 128) ctx)
      else Ret (i, ctx))"
  by pat_completeness auto
termination
  by (relation "measure (\<lambda>(compress, dat, len, i, ctx). 2 ^ 64 - unat i)")
    (auto simp: transform_at_def unat_word_ariths split: if_splits)

declare transform_loop.simps [simp del]

definition Sha384Update :: "bytes \<Rightarrow> u64 \<Rightarrow> sha384_ctx \<Rightarrow> sha384_ctx outcome" where
  "Sha384Update dat len ctx =
     (let j = drop_bit 3 (sha_count0 ctx) AND 127;
          c = sha_count0 ctx + push_bit 3 len;
          ctx = ctx\<lparr>sha_count0 := c,
            sha_count1 := sha_count1 ctx + (if c < push_bit 3 len then 1 else 0) + drop_bit 29 len\<rparr> in
      bindR (if 127 < j + len
             then let i = 128 - j in
               bindR (memcpy_at (unat i) (unat j) 0 (sha_buffer ctx) dat) (\<lambda>buf.
               bindR (Sha384Transform buf 0 (ctx\<lparr>sha_buffer := buf\<rparr>)) (\<lambda>ctx.
               bindR (transform_loop sha_compress dat len i ctx) (\<lambda>(i, ctx). Ret (0, i, ctx))))
             else Ret (j, 0, ctx)) (\<lambda>(j, i, ctx).
      bindR (memcpy_at (unat (len - i)) (unat j) (unat i) (sha_buffer ctx) dat) (\<lambda>buf.
      Ret (ctx\<lparr>sha_buffer := buf\<rparr>))))"

text \<open>The bytes of a word, the most significant one first.\<close>

definition be_bytes :: "u64 \<Rightarrow> bytes" where
  "be_bytes w = map (\<lambda>i. ucast (drop_bit (56 - i * 8) w AND 0xFF)) [0..<8]"

text \<open>
  \<open>while (index < n) Buffer[index++] = 0\<close> is \<open>memset_loop\<close> over what is left to \<open>n\<close>; the buffer is written
  at an index below 128.
\<close>

definition put_byte :: "nat \<Rightarrow> u8 \<Rightarrow> bytes \<Rightarrow> bytes outcome" where
  "put_byte i v buf = (if i < length buf then Ret (buf[i := v]) else Fault)"

definition pad_buffer :: "sha384_ctx \<Rightarrow> sha384_ctx outcome" where
  "pad_buffer ctx =
     (let index = unat (drop_bit 3 (sha_count0 ctx) AND 127) in
      bindR (put_byte index 0x80 (sha_buffer ctx)) (\<lambda>buf.
      if index < 112
      then bindR (memset_loop (112 - (index + 1)) (index + 1) buf 0) (\<lambda>buf. Ret (ctx\<lparr>sha_buffer := buf\<rparr>))
      else bindR (memset_loop (128 - (index + 1)) (index + 1) buf 0) (\<lambda>buf.
           bindR (Sha384Transform buf 0 (ctx\<lparr>sha_buffer := buf\<rparr>)) (\<lambda>ctx.
           bindR (memset_loop 112 0 (sha_buffer ctx) 0) (\<lambda>buf. Ret (ctx\<lparr>sha_buffer := buf\<rparr>))))))"

definition Sha384Final :: "sha384_ctx \<Rightarrow> (bytes \<times> sha384_ctx) outcome" where
  "Sha384Final ctx =
     (let bits = be_bytes (sha_count1 ctx) @ be_bytes (sha_count0 ctx) in
      bindR (pad_buffer ctx) (\<lambda>ctx.
      bindR (memcpy_at 16 112 0 (sha_buffer ctx) bits) (\<lambda>buf.
      bindR (Sha384Transform buf 0 (ctx\<lparr>sha_buffer := buf\<rparr>)) (\<lambda>ctx.
      Ret (concat (map be_bytes (take 6 (sha_state ctx))), ctx)))))"

text \<open>\<open>junk\<close> is what the stack holds where the context is put.\<close>

definition Sha384 :: "sha384_ctx \<Rightarrow> bytes \<Rightarrow> u64 \<Rightarrow> bytes outcome" where
  "Sha384 junk dat len =
     bindR (Sha384Update dat len (Sha384Init junk)) (\<lambda>ctx.
     bindR (Sha384Final ctx) (\<lambda>(digest, ctx). Ret digest))"

section \<open>The standard\<close>

text \<open>
  The message, the bit 1, zeros up to 16 bytes before the end of a block, and the length of the message
  in bits as a 16-byte number; \<open>pad_with\<close> leaves the contents of the last field open.
\<close>

definition pad_with :: "bytes \<Rightarrow> bytes \<Rightarrow> bytes" where
  "pad_with field m = m @ [0x80] @ replicate ((239 - length m mod 128) mod 128) 0 @ field"

definition length_field :: "nat \<Rightarrow> bytes" where
  "length_field n = map (\<lambda>i. of_nat (8 * n div 256 ^ (15 - i))) [0..<16]"

text \<open>The complete blocks of a message, and what is behind them.\<close>

fun blocks_of :: "bytes \<Rightarrow> bytes list" where
  "blocks_of m = (if length m < 128 then [] else take 128 m # blocks_of (drop 128 m))"

declare blocks_of.simps [simp del]

definition rest_of :: "bytes \<Rightarrow> bytes" where "rest_of m = drop (length m - length m mod 128) m"

text \<open>A hash function of this construction, for a compression function and an initial value.\<close>

definition absorb_blocks :: "(u64 list \<Rightarrow> bytes \<Rightarrow> u64 list) \<Rightarrow> bytes \<Rightarrow> u64 list \<Rightarrow> u64 list" where
  "absorb_blocks compress m = fold (\<lambda>b st. compress st b) (blocks_of m)"

text \<open>The compression function of the standard: rotations, the schedule by recursion on its index, 80 rounds.\<close>

definition fips_Sigma0 :: "u64 \<Rightarrow> u64" where
  "fips_Sigma0 x = word_rotr 28 x XOR word_rotr 34 x XOR word_rotr 39 x"

definition fips_Sigma1 :: "u64 \<Rightarrow> u64" where
  "fips_Sigma1 x = word_rotr 14 x XOR word_rotr 18 x XOR word_rotr 41 x"

definition fips_sigma0 :: "u64 \<Rightarrow> u64" where
  "fips_sigma0 x = word_rotr 1 x XOR word_rotr 8 x XOR drop_bit 7 x"

definition fips_sigma1 :: "u64 \<Rightarrow> u64" where
  "fips_sigma1 x = word_rotr 19 x XOR word_rotr 61 x XOR drop_bit 6 x"

definition fips_Ch :: "u64 \<Rightarrow> u64 \<Rightarrow> u64 \<Rightarrow> u64" where "fips_Ch x y z = (x AND y) XOR (NOT x AND z)"

definition fips_Maj :: "u64 \<Rightarrow> u64 \<Rightarrow> u64 \<Rightarrow> u64" where
  "fips_Maj x y z = (x AND y) XOR (x AND z) XOR (y AND z)"

text \<open>Word \<open>t\<close> of a block, as the number its eight bytes spell.\<close>

definition fips_word :: "bytes \<Rightarrow> nat \<Rightarrow> u64" where
  "fips_word block t = horner_sum ucast (2 ^ 8) (rev (take 8 (drop (8 * t) block)))"

function fips_W :: "bytes \<Rightarrow> nat \<Rightarrow> u64" where
  "fips_W block t = (if t < 16 then fips_word block t
     else fips_sigma1 (fips_W block (t - 2)) + fips_W block (t - 7) + fips_sigma0 (fips_W block (t - 15)) +
       fips_W block (t - 16))"
  by pat_completeness auto
termination by (relation "measure snd") auto

declare fips_W.simps [simp del]

primrec fips_vars :: "bytes \<Rightarrow> sha_vars \<Rightarrow> nat \<Rightarrow> sha_vars" where
  "fips_vars block v 0 = v"
| "fips_vars block v (Suc t) = (case fips_vars block v t of (a, b, c, d, e, f, g, h) \<Rightarrow>
     let T1 = h + fips_Sigma1 e + fips_Ch e f g + SHA_K ! t + fips_W block t;
         T2 = fips_Sigma0 a + fips_Maj a b c
     in (T1 + T2, a, b, c, d + T1, e, f, g))"

definition fips_compress :: "u64 list \<Rightarrow> bytes \<Rightarrow> u64 list" where
  "fips_compress H block = (case fips_vars block (H ! 0, H ! 1, H ! 2, H ! 3, H ! 4, H ! 5, H ! 6, H ! 7) 80 of
     (a, b, c, d, e, f, g, h) \<Rightarrow> map2 (+) [a, b, c, d, e, f, g, h] H)"

text \<open>The first 384 bits of the final value; \<open>fips_sha384_field\<close> leaves the length field open.\<close>

definition fips_sha384_field :: "bytes \<Rightarrow> bytes \<Rightarrow> bytes" where
  "fips_sha384_field field m =
     take 48 (concat (map be_bytes (absorb_blocks fips_compress (pad_with field m) SHA_H0)))"

definition fips_sha384 :: "bytes \<Rightarrow> bytes" where
  "fips_sha384 m = fips_sha384_field (length_field (length m)) m"

section \<open>The compression function is that of the standard\<close>

lemma ROTRIGHT_rotr:
  assumes "0 < b" "b < 64"
  shows "ROTRIGHT a b = word_rotr b a"
proof (rule bit_word_eqI)
  fix n
  assume n: "n < LENGTH(64)"
  show "bit (ROTRIGHT a b) n = bit (word_rotr b a) n"
  proof (cases "n + b < 64")
    case True
    with n assms show ?thesis
      by (auto simp: ROTRIGHT_def bit_or_iff bit_drop_bit_eq bit_push_bit_iff bit_word_rotr_iff add.commute)
  next
    case False
    then have "(n + b) mod 64 = n - (64 - b)" using n assms by (simp add: mod_if)
    with False n assms show ?thesis
      by (auto simp: ROTRIGHT_def bit_or_iff bit_drop_bit_eq bit_push_bit_iff bit_word_rotr_iff add.commute
          dest: bit_imp_le_length)
  qed
qed

lemma sigmas [simp]: "EP0 = fips_Sigma0" "EP1 = fips_Sigma1" "SIG0 = fips_sigma0" "SIG1 = fips_sigma1"
  "CH = fips_Ch" "MAJ = fips_Maj"
  by (simp_all add: fun_eq_iff EP0_def EP1_def SIG0_def SIG1_def CH_def MAJ_def fips_Sigma0_def fips_Sigma1_def
      fips_sigma0_def fips_sigma1_def fips_Ch_def fips_Maj_def ROTRIGHT_rotr)

lemma or_byte:
  fixes x :: u64 and b :: u8
  shows "push_bit 8 x OR ucast b = ucast b + 2 ^ 8 * x"
proof -
  have "ucast b + push_bit 8 x = ucast b OR push_bit 8 x"
    by (rule disjunctive_add) (auto simp: bit_push_bit_iff bit_unsigned_iff dest: bit_imp_le_length)
  then show ?thesis by (simp add: push_bit_eq_mult or.commute mult.commute)
qed

lemma load_word_eq: "i * 8 + 8 \<le> length block \<Longrightarrow> load_word block i = fips_word block i"
proof -
  assume len: "i * 8 + 8 \<le> length block"
  have drop_eq: "drop (i * 8 + k) block = block ! (i * 8 + k) # drop (i * 8 + Suc k) block" if "k < 8" for k
    using len that by (simp add: Cons_nth_drop_Suc)
  have "take 8 (drop (8 * i) block) = [block ! (i * 8), block ! (i * 8 + 1), block ! (i * 8 + 2), block ! (i * 8 + 3),
      block ! (i * 8 + 4), block ! (i * 8 + 5), block ! (i * 8 + 6), block ! (i * 8 + 7)]"
    using drop_eq [of 0] drop_eq [of 1] drop_eq [of 2] drop_eq [of 3] drop_eq [of 4] drop_eq [of 5] drop_eq [of 6]
      drop_eq [of 7] by (simp add: mult.commute numeral_eq_Suc)
  moreover have "load_word block i = push_bit 8 (push_bit 8 (push_bit 8 (push_bit 8 (push_bit 8 (push_bit 8 (push_bit 8
      (ucast (block ! (i * 8))) OR ucast (block ! (i * 8 + 1))) OR ucast (block ! (i * 8 + 2))) OR
      ucast (block ! (i * 8 + 3))) OR ucast (block ! (i * 8 + 4))) OR ucast (block ! (i * 8 + 5))) OR
      ucast (block ! (i * 8 + 6))) OR ucast (block ! (i * 8 + 7))"
    by (simp add: load_word_def push_bit_or push_bit_push_bit or.assoc)
  ultimately show ?thesis by (simp add: fips_word_def or_byte)
qed

lemma fold_append_upt:
  assumes "length W0 = n" "\<And>t. t < n \<Longrightarrow> W0 ! t = F t"
    and step: "\<And>t W. n \<le> t \<Longrightarrow> length W = t \<Longrightarrow> (\<forall>k < t. W ! k = F k) \<Longrightarrow> f t W = F t"
  shows "n \<le> m \<Longrightarrow> fold (\<lambda>t W. W @ [f t W]) [n..<m] W0 = map F [0..<m]"
proof (induction m)
  case 0
  with assms(1) show ?case by simp
next
  case (Suc m)
  show ?case
  proof (cases "n = Suc m")
    case True
    moreover have "W0 = map F [0..<n]" using assms(1,2) by (intro nth_equalityI) simp_all
    ultimately show ?thesis by simp
  next
    case False
    then have "n \<le> m" using Suc.prems by simp
    with Suc.IH step [of m "map F [0..<m]"] show ?thesis by simp
  qed
qed

lemma schedule_eq: "length block = 128 \<Longrightarrow> schedule block = map (fips_W block) [0..<80]"
  unfolding schedule_def
proof (rule fold_append_upt)
  fix t
  assume "length block = 128" "t < (16 :: nat)"
  then show "map (load_word block) [0..<16] ! t = fips_W block t"
    by (simp add: fips_W.simps load_word_eq)
next
  fix t and W :: "u64 list"
  assume "16 \<le> t" "\<forall>k < t. W ! k = fips_W block k"
  then show "SIG1 (W ! (t - 2)) + W ! (t - 7) + SIG0 (W ! (t - 15)) + W ! (t - 16) = fips_W block t"
    by (subst fips_W.simps) simp
qed simp_all

lemma sha_rounds_eq:
  assumes "length block = 128"
  shows "sha_rounds (schedule block) v = fips_vars block v 80"
proof -
  have "fold (\<lambda>i. sha_round (SHA_K ! i) (map (fips_W block) [0..<80] ! i)) [0..<n] v = fips_vars block v n"
    if "n \<le> 80" for n
    using that
  proof (induction n)
    case (Suc n)
    then show ?case by (simp add: sha_round_def Let_def split: prod.splits)
  qed simp
  from this [of 80] show ?thesis by (simp add: sha_rounds_def schedule_eq [OF assms])
qed

lemma sha_compress_eq:
  assumes "length block = 128" "length st = 8"
  shows "sha_compress st block = fips_compress st block"
proof -
  obtain s0 s1 s2 s3 s4 s5 s6 s7 where st: "st = [s0, s1, s2, s3, s4, s5, s6, s7]"
    using assms(2) by (auto simp: numeral_eq_Suc length_Suc_conv)
  show ?thesis
    unfolding sha_compress_def fips_compress_def sha_rounds_eq [OF assms(1)] st
    by (simp add: add.commute split: prod.split)
qed

section \<open>Blocks of a message\<close>

lemma rest_of_length: "length (rest_of m) = length m mod 128"
  by (simp add: rest_of_def)

lemma blocks_short: "length m < 128 \<Longrightarrow> blocks_of m = []" "length m < 128 \<Longrightarrow> rest_of m = m"
  by (subst blocks_of.simps) (simp_all add: rest_of_def)

lemma blocks_step: "length b = 128 \<Longrightarrow> blocks_of (b @ m) = b # blocks_of m"
  by (subst blocks_of.simps) simp

lemma rest_step:
  assumes "128 \<le> length m" shows "rest_of m = rest_of (drop 128 m)"
proof -
  have "length m mod 128 = (length m - 128) mod 128" using assms by (simp add: le_mod_geq)
  then show ?thesis using assms mod_less_eq_dividend [of "length m - 128" 128] by (simp add: rest_of_def)
qed

lemma blocks_append:
  "blocks_of (m @ x) = blocks_of m @ blocks_of (rest_of m @ x) \<and> rest_of (m @ x) = rest_of (rest_of m @ x)"
proof (induction m rule: blocks_of.induct)
  case (1 m)
  show ?case
  proof (cases "length m < 128")
    case False
    then have "blocks_of (m @ x) = take 128 m # blocks_of (drop 128 m @ x)" "blocks_of m = take 128 m # blocks_of (drop 128 m)"
      by (simp_all add: blocks_of.simps [of "m @ x"] blocks_of.simps [of m])
    moreover have "rest_of (m @ x) = rest_of (drop 128 m @ x)" "rest_of m = rest_of (drop 128 m)"
      using False by (simp_all add: rest_step [of "m @ x"] rest_step [of m])
    ultimately show ?thesis using "1.IH" [OF False] by simp
  qed (simp add: blocks_short)
qed

lemma blocks_length: "b \<in> set (blocks_of m) \<Longrightarrow> length b = 128"
proof (induction m rule: blocks_of.induct)
  case (1 m)
  then show ?case by (cases "length m < 128") (auto simp: blocks_of.simps [of m])
qed

lemma blocks_append_short:
  "length m mod 128 + length x < 128 \<Longrightarrow> blocks_of (m @ x) = blocks_of m \<and> rest_of (m @ x) = rest_of m @ x"
  using blocks_append [of m x] by (simp add: blocks_short rest_of_length)

lemma blocks_append_long:
  assumes "j = length m mod 128" "128 \<le> j + length x"
  shows "blocks_of (m @ x) = blocks_of m @ (rest_of m @ take (128 - j) x) # blocks_of (drop (128 - j) x)"
    "rest_of (m @ x) = rest_of (drop (128 - j) x)"
proof -
  have j: "j < 128" using assms(1) by simp
  have split: "rest_of m @ x = (rest_of m @ take (128 - j) x) @ drop (128 - j) x" by simp
  have len: "length (rest_of m @ take (128 - j) x) = 128" using assms j by (simp add: rest_of_length)
  then have "blocks_of (rest_of m @ x) = (rest_of m @ take (128 - j) x) # blocks_of (drop (128 - j) x)"
    unfolding split by (rule blocks_step)
  then show "blocks_of (m @ x) = blocks_of m @ (rest_of m @ take (128 - j) x) # blocks_of (drop (128 - j) x)"
    using blocks_append [of m x] by simp
  have "rest_of (rest_of m @ x) = rest_of (drop 128 (rest_of m @ x))"
    by (rule rest_step) (use assms j in \<open>simp add: rest_of_length\<close>)
  also have "drop 128 (rest_of m @ x) = drop (128 - j) x" using assms j by (simp add: rest_of_length)
  finally show "rest_of (m @ x) = rest_of (drop (128 - j) x)" using blocks_append [of m x] by simp
qed

section \<open>A context that has taken a message\<close>

text \<open>\<open>hi\<close> is the upper half of the counter.\<close>

definition absorbed ::
  "(u64 list \<Rightarrow> bytes \<Rightarrow> u64 list) \<Rightarrow> u64 list \<Rightarrow> bytes \<Rightarrow> u64 \<Rightarrow> sha384_ctx \<Rightarrow> bool" where
  "absorbed compress H m hi ctx \<longleftrightarrow>
     sha_state ctx = absorb_blocks compress m H \<and> length (sha_buffer ctx) = 128 \<and>
     take (length m mod 128) (sha_buffer ctx) = rest_of m \<and>
     sha_count0 ctx = of_nat (8 * length m) \<and> sha_count1 ctx = hi \<and> length m < 2 ^ 61"

lemma absorb_step:
  assumes "n + 128 \<le> length x"
  shows "absorb_blocks compress (drop n x) st =
    absorb_blocks compress (drop (n + 128) x) (compress st (take 128 (drop n x)))"
proof -
  have "blocks_of (drop n x) = take 128 (drop n x) # blocks_of (drop 128 (drop n x))"
    using assms by (subst blocks_of.simps) simp
  then show ?thesis by (simp add: absorb_blocks_def add.commute)
qed

lemma transform_loop_absorbs:
  assumes "n \<le> length dat" "n < 2 ^ 61"
  shows "k \<le> n \<Longrightarrow> transform_loop compress dat (of_nat n) (of_nat k) ctx =
    Ret (of_nat (n - (n - k) mod 128), ctx\<lparr>sha_state := absorb_blocks compress (drop k (take n dat)) (sha_state ctx)\<rparr>)"
proof (induction "n - k" arbitrary: k ctx rule: less_induct)
  case less
  have word: "of_nat k + 127 = (of_nat (k + 127) :: u64)" "of_nat k + 128 = (of_nat (k + 128) :: u64)" by simp_all
  have guard: "(of_nat k + 127 < (of_nat n :: u64)) = (k + 127 < n)"
    unfolding word using less.prems assms(2) by (simp add: word_less_nat_alt unat_of_nat take_bit_eq_mod del: of_nat_add)
  have k: "unat (of_nat k :: u64) = k" using less.prems assms(2) by (simp add: unat_of_nat take_bit_eq_mod)
  show ?case
  proof (cases "k + 127 < n")
    case True
    have at: "transform_at compress dat (of_nat k) ctx = Ret (ctx\<lparr>sha_state := compress (sha_state ctx) (take 128 (drop k (take n dat)))\<rparr>)"
      using True assms k by (simp add: transform_at_def drop_take min_def)
    have "(n - (k + 128)) mod 128 = (n - k) mod 128" using True le_mod_geq [of 128 "n - k"] by simp
    with at True guard absorb_step [of k "take n dat"] less.hyps [of "k + 128"] show ?thesis
      by (subst transform_loop.simps) (simp add: word(2) assms(1) del: of_nat_add)
  next
    case False
    then have "n - (n - k) mod 128 = k" "blocks_of (drop k (take n dat)) = []"
      using less.prems assms(1) by (simp_all add: blocks_short)
    with False guard show ?thesis by (subst transform_loop.simps) (simp add: absorb_blocks_def)
  qed
qed

text \<open>The counter and the index into the buffer.\<close>

lemma count_words:
  assumes "l + n < 2 ^ 61"
  shows "push_bit 3 (of_nat n :: u64) = of_nat (8 * n)"
    "of_nat (8 * l) + of_nat (8 * n) = (of_nat (8 * (l + n)) :: u64)"
    "\<not> (of_nat (8 * (l + n)) :: u64) < of_nat (8 * n)"
    "drop_bit 3 (of_nat (8 * l) :: u64) AND 127 = of_nat (l mod 128)"
    "drop_bit 29 (of_nat n :: u64) = of_nat (n div 2 ^ 29)"
proof -
  show "push_bit 3 (of_nat n :: u64) = of_nat (8 * n)" by (simp add: push_bit_eq_mult mult.commute)
  show "of_nat (8 * l) + of_nat (8 * n) = (of_nat (8 * (l + n)) :: u64)" by (simp add: algebra_simps)
  show "\<not> (of_nat (8 * (l + n)) :: u64) < of_nat (8 * n)"
    using assms by (simp add: word_less_nat_alt unat_of_nat take_bit_eq_mod del: of_nat_mult of_nat_add)
  have m127: "(127 :: u64) = mask 7" by (simp add: mask_eq_exp_minus_1)
  have "unat (drop_bit 3 (of_nat (8 * l) :: u64) AND 127) = 8 * l div 2 ^ 3 mod 2 ^ 7"
    unfolding m127 unat_and_mask unat_drop_bit using assms by (simp add: unat_of_nat take_bit_eq_mod del: of_nat_mult)
  also have "\<dots> = unat (of_nat (l mod 128) :: u64)"
  proof -
    have "l mod 128 mod 2 ^ 64 = l mod 128" by (rule mod_less) (rule less_trans [of _ 128], simp_all)
    then show ?thesis by (simp add: unat_of_nat take_bit_eq_mod)
  qed
  finally show "drop_bit 3 (of_nat (8 * l) :: u64) AND 127 = of_nat (l mod 128)" by (rule word_unat_eq_iff [THEN iffD2])
  have "unat (drop_bit 29 (of_nat n :: u64)) = n div 2 ^ 29"
    unfolding unat_drop_bit using assms by (simp add: unat_of_nat take_bit_eq_mod)
  also have "\<dots> = unat (of_nat (n div 2 ^ 29) :: u64)"
  proof -
    have "n div 2 ^ 29 \<le> n" by simp
    then have "n div 2 ^ 29 < 2 ^ 64" using assms by simp
    then show ?thesis by (simp add: unat_of_nat take_bit_eq_mod)
  qed
  finally show "drop_bit 29 (of_nat n :: u64) = of_nat (n div 2 ^ 29)" by (rule word_unat_eq_iff [THEN iffD2])
qed

lemma absorbed_fill:
  assumes "absorbed compress H m hi ctx" "j = length m mod 128" "128 - j \<le> length dat"
  shows "memcpy_at (128 - j) j 0 (sha_buffer ctx) dat = Ret (rest_of m @ take (128 - j) dat)"
proof -
  have "j < 128" using assms(2) by simp
  then have "memcpy_at (128 - j) j 0 (sha_buffer ctx) dat =
      Ret (take j (sha_buffer ctx) @ take (128 - j) (drop 0 dat) @ drop (j + (128 - j)) (sha_buffer ctx))"
    using assms by (intro memcpy_at_eq) (simp_all add: absorbed_def)
  with assms \<open>j < 128\<close> show ?thesis by (simp add: absorbed_def)
qed

text \<open>
  The two ways a piece \<open>x\<close> is taken: it fits behind the rest, or it completes a block, further blocks are
  taken from the piece itself, and what is left starts the buffer again.
\<close>

lemma absorbed_keep:
  assumes abs: "absorbed compress H m hi ctx" and j: "j = length m mod 128" "j + n < 128"
    and n: "n \<le> length dat" "length m + n < 2 ^ 61" "c = of_nat (8 * (length m + n))"
  shows "\<exists>buf. memcpy_at n j 0 (sha_buffer ctx) dat = Ret buf \<and>
    absorbed compress H (m @ take n dat) hi' (ctx\<lparr>sha_count0 := c, sha_count1 := hi', sha_buffer := buf\<rparr>)"
proof -
  have buf: "length (sha_buffer ctx) = 128" "take j (sha_buffer ctx) = rest_of m" "sha_state ctx = absorb_blocks compress m H"
    using abs j(1) by (simp_all add: absorbed_def)
  have x: "blocks_of (m @ take n dat) = blocks_of m" "rest_of (m @ take n dat) = rest_of m @ take n dat"
    using blocks_append_short [of m "take n dat"] j n(1) by simp_all
  have "(length m + n) mod 128 = j + n" using j by (metis mod_add_left_eq mod_less)
  moreover have "memcpy_at n j 0 (sha_buffer ctx) dat =
      Ret (take j (sha_buffer ctx) @ take n (drop 0 dat) @ drop (j + n) (sha_buffer ctx))"
    using n(1) j(2) buf(1) by (intro memcpy_at_eq) simp_all
  ultimately show ?thesis
    using buf x n j by (simp add: absorbed_def absorb_blocks_def rest_of_length min_def)
qed

lemma absorbed_advance:
  assumes abs: "absorbed compress H m hi ctx" and j: "j = length m mod 128" "128 \<le> j + n"
    and n: "n \<le> length dat" "length m + n < 2 ^ 61" "c = of_nat (8 * (length m + n))"
  defines "i \<equiv> n - (n - (128 - j)) mod 128"
  defines "st \<equiv> absorb_blocks compress (drop (128 - j) (take n dat)) (compress (sha_state ctx) (rest_of m @ take (128 - j) dat))"
  shows "\<exists>buf. memcpy_at (n - i) 0 i (rest_of m @ take (128 - j) dat) dat = Ret buf \<and>
    absorbed compress H (m @ take n dat) hi'
      (ctx\<lparr>sha_count0 := c, sha_count1 := hi', sha_state := st, sha_buffer := buf\<rparr>)"
proof -
  have jl: "j < 128" using j(1) by simp
  let ?buf = "rest_of m @ take (128 - j) dat"
  let ?x = "take n dat"
  have len: "length ?buf = 128" using jl j n(1) by (simp add: rest_of_length)
  have pre: "take (128 - j) ?x = take (128 - j) dat"
  proof -
    have "128 - j \<le> n" using j(2) by simp
    then show ?thesis by simp
  qed
  have x: "blocks_of (m @ ?x) = blocks_of m @ ?buf # blocks_of (drop (128 - j) ?x)"
    "rest_of (m @ ?x) = rest_of (drop (128 - j) ?x)"
    using blocks_append_long [OF j(1), of ?x] j n(1) pre by simp_all
  have state: "st = absorb_blocks compress (m @ ?x) H"
    using abs unfolding st_def by (simp add: absorbed_def absorb_blocks_def x(1))
  have i: "n - i = (n - (128 - j)) mod 128" "128 - j \<le> i" "i \<le> n"
    unfolding i_def using j mod_less_eq_dividend [of "n - (128 - j)" 128] by auto
  have "n - (128 - j) - (n - (128 - j)) mod 128 + (128 - j) = i"
    unfolding i_def using j(2) mod_less_eq_dividend [of "n - (128 - j)" 128]
    by (intro Nat.diff_add_assoc2 [symmetric, THEN trans]) simp_all
  then have "rest_of (drop (128 - j) ?x) = drop i ?x" using n(1) by (simp add: rest_of_def)
  then have rest: "rest_of (m @ ?x) = take (n - i) (drop i dat)" using x(2) by (simp add: drop_take)
  have small: "n - i < 128" unfolding i(1) by simp
  have "memcpy_at (n - i) 0 i ?buf dat = Ret (take 0 ?buf @ take (n - i) (drop i dat) @ drop (0 + (n - i)) ?buf)"
    by (rule memcpy_at_eq) (use i(3) n(1) len small in linarith)+
  then have copy: "memcpy_at (n - i) 0 i ?buf dat = Ret (take (n - i) (drop i dat) @ drop (n - i) ?buf)" by simp
  have lenx: "length (m @ ?x) = length m + n" using n(1) by simp
  have "length (rest_of (m @ ?x)) = n - i" unfolding rest using n(1) i(3) by simp
  then have mod: "(length m + n) mod 128 = n - i" by (simp only: rest_of_length lenx)
  define new where "new = take (n - i) (drop i dat) @ drop (n - i) ?buf"
  have head: "length (take (n - i) (drop i dat)) = n - i" using n(1) i(3) by simp
  have "length (drop (n - i) ?buf) = 128 - (n - i)" by (subst length_drop) (subst len, rule refl)
  then have "length new = 128" using small unfolding new_def length_append [of "take (n - i) (drop i dat)"] head by simp
  moreover have "take (n - i) new = take (n - i) (drop i dat)" unfolding new_def by (simp only: take_append head) simp
  ultimately have "absorbed compress H (m @ ?x) hi' (ctx\<lparr>sha_count0 := c, sha_count1 := hi', sha_state := st,
      sha_buffer := new\<rparr>)"
    unfolding absorbed_def lenx mod rest using state n(2,3) by simp
  with copy show ?thesis unfolding new_def by blast
qed

lemma transform_full:
  "length buf = 128 \<Longrightarrow>
   transform_at compress buf 0 ctx = Ret (ctx\<lparr>sha_state := compress (sha_state ctx) buf\<rparr>)"
  by (simp add: transform_at_def)

text \<open>The second way in the words of the code, up to the copy that starts the buffer again.\<close>

lemma absorbed_complete:
  assumes abs: "absorbed compress H m hi ctx" and j: "j = length m mod 128" "128 \<le> j + n"
    and n: "n \<le> length dat" "length m + n < 2 ^ 61" "c = of_nat (8 * (length m + n))"
  obtains buf st i b where "memcpy_at (128 - j) j 0 (sha_buffer ctx) dat = Ret buf" "length buf = 128"
    "transform_loop compress dat (of_nat n) (of_nat (128 - j))
       (ctx\<lparr>sha_count0 := c, sha_count1 := hi', sha_buffer := buf, sha_state := compress (sha_state ctx) buf\<rparr>) =
     Ret (of_nat i, ctx\<lparr>sha_count0 := c, sha_count1 := hi', sha_buffer := buf, sha_state := st\<rparr>)"
    "unat (of_nat n - of_nat i :: u64) = n - i" "unat (of_nat i :: u64) = i" "n - i < 128"
    "memcpy_at (n - i) 0 i buf dat = Ret b"
    "absorbed compress H (m @ take n dat) hi' (ctx\<lparr>sha_count0 := c, sha_count1 := hi', sha_state := st, sha_buffer := b\<rparr>)"
proof -
  have jl: "j < 128" using j(1) by simp
  let ?buf = "rest_of m @ take (128 - j) dat"
  define i where "i = n - (n - (128 - j)) mod 128"
  define st where "st = absorb_blocks compress (drop (128 - j) (take n dat)) (compress (sha_state ctx) ?buf)"
  have fill: "memcpy_at (128 - j) j 0 (sha_buffer ctx) dat = Ret ?buf"
    by (rule absorbed_fill [OF abs j(1)]) (use j(2) n(1) in simp)
  have len: "length ?buf = 128" using jl j n(1) by (simp add: rest_of_length)
  have loop: "transform_loop compress dat (of_nat n) (of_nat (128 - j))
      (ctx\<lparr>sha_count0 := c, sha_count1 := hi', sha_buffer := ?buf, sha_state := compress (sha_state ctx) ?buf\<rparr>) =
      Ret (of_nat i, ctx\<lparr>sha_count0 := c, sha_count1 := hi', sha_buffer := ?buf, sha_state := st\<rparr>)"
    unfolding i_def st_def by (subst transform_loop_absorbs) (use n j in simp_all)
  have "i \<le> n" by (simp add: i_def)
  then have "of_nat n - of_nat i = (of_nat (n - i) :: u64)" by (simp add: of_nat_diff)
  then have ni: "unat (of_nat n - of_nat i :: u64) = n - i" "unat (of_nat i :: u64) = i"
    using n(2) \<open>i \<le> n\<close> by (simp_all add: unat_of_nat take_bit_eq_mod del: of_nat_diff)
  have "n - i = (n - (128 - j)) mod 128"
    using mod_less_eq_dividend [of "n - (128 - j)" 128] by (simp add: i_def)
  then have small: "n - i < 128" by simp
  obtain b where "memcpy_at (n - i) 0 i ?buf dat = Ret b"
    "absorbed compress H (m @ take n dat) hi' (ctx\<lparr>sha_count0 := c, sha_count1 := hi', sha_state := st, sha_buffer := b\<rparr>)"
    using absorbed_advance [OF abs j n, of hi'] unfolding i_def st_def by blast
  with fill len loop ni small show ?thesis by (rule that)
qed

lemma Sha384Update_absorbs:
  assumes abs: "absorbed sha_compress H m hi ctx" and n: "n \<le> length dat" "length m + n < 2 ^ 61"
  shows "\<exists>t. Sha384Update dat (of_nat n) ctx = Ret t \<and>
    absorbed sha_compress H (m @ take n dat) (hi + of_nat (n div 2 ^ 29)) t"
proof -
  define j where "j = length m mod 128"
  have jl: "j < 128" by (simp add: j_def)
  have count: "sha_count0 ctx = of_nat (8 * length m)" "sha_count1 ctx = hi" using abs by (simp_all add: absorbed_def)
  note words = count_words [OF n(2)]
  have jw: "drop_bit 3 (sha_count0 ctx) AND 127 = (of_nat j :: u64)" "unat (of_nat j :: u64) = j"
    using words(4) jl by (simp_all add: count(1) j_def unat_of_nat take_bit_eq_mod del: of_nat_mult)
  have nw: "unat (of_nat n :: u64) = n" using n(2) by (simp add: unat_of_nat take_bit_eq_mod)
  have big: "127 < (of_nat j + of_nat n :: u64) \<longleftrightarrow> 128 \<le> j + n"
    using jl n(2) by (simp add: word_less_nat_alt unat_word_ariths jw(2) nw) linarith
  let ?c = "of_nat (8 * (length m + n)) :: u64"
  let ?hi = "hi + of_nat (n div 2 ^ 29)"
  let ?ctx = "ctx\<lparr>sha_count0 := ?c, sha_count1 := ?hi\<rparr>"
  have sum: "sha_count0 ctx + push_bit 3 (of_nat n) = ?c" unfolding count(1) words(1) by (rule words(2))
  have start: "Sha384Update dat (of_nat n) ctx =
      bindR (if 127 < (of_nat j + of_nat n :: u64)
             then let i = 128 - of_nat j in
               bindR (memcpy_at (unat i) j 0 (sha_buffer ctx) dat) (\<lambda>buf.
               bindR (Sha384Transform buf 0 (?ctx\<lparr>sha_buffer := buf\<rparr>)) (\<lambda>ctx.
               bindR (transform_loop sha_compress dat (of_nat n) i ctx) (\<lambda>(i, ctx). Ret (0 :: u64, i, ctx))))
             else Ret (of_nat j, 0, ?ctx)) (\<lambda>(j, i, ctx).
      bindR (memcpy_at (unat (of_nat n - i)) (unat j) (unat i) (sha_buffer ctx) dat) (\<lambda>buf.
      Ret (ctx\<lparr>sha_buffer := buf\<rparr>)))"
    using words(3) unfolding Sha384Update_def Let_def jw(1) sum
    by (simp add: jw(2) count(2) words(1,5) del: of_nat_mult of_nat_add)
  show ?thesis
  proof (cases "128 \<le> j + n")
    case False
    obtain buf where "memcpy_at n j 0 (sha_buffer ctx) dat = Ret buf"
      "absorbed sha_compress H (m @ take n dat) ?hi (ctx\<lparr>sha_count0 := ?c, sha_count1 := ?hi, sha_buffer := buf\<rparr>)"
      using absorbed_keep [OF abs j_def _ n refl, of ?hi] False by auto
    then show ?thesis unfolding start using False big by (simp add: nw jw(2))
  next
    case True
    have iw: "128 - of_nat j = (of_nat (128 - j) :: u64)" "unat (of_nat (128 - j) :: u64) = 128 - j"
      using jl by (simp add: of_nat_diff less_imp_le, simp add: unat_of_nat take_bit_eq_mod del: of_nat_diff)
    obtain buf st i b where b: "memcpy_at (128 - j) j 0 (sha_buffer ctx) dat = Ret buf" "length buf = 128"
      "transform_loop sha_compress dat (of_nat n) (of_nat (128 - j))
        (?ctx\<lparr>sha_buffer := buf, sha_state := sha_compress (sha_state ctx) buf\<rparr>) =
        Ret (of_nat i, ?ctx\<lparr>sha_buffer := buf, sha_state := st\<rparr>)"
      "unat (of_nat n - of_nat i :: u64) = n - i" "unat (of_nat i :: u64) = i"
      "memcpy_at (n - i) 0 i buf dat = Ret b"
      "absorbed sha_compress H (m @ take n dat) ?hi (?ctx\<lparr>sha_state := st, sha_buffer := b\<rparr>)"
      using absorbed_complete [OF abs j_def True n refl, of ?hi] by metis
    have "Sha384Update dat (of_nat n) ctx = Ret (?ctx\<lparr>sha_state := st, sha_buffer := b\<rparr>)"
      unfolding start using True big b(1,3-6)
      by (simp add: iw Sha384Transform_def transform_full [OF b(2)] del: of_nat_diff)
    with b(7) show ?thesis by blast
  qed
qed

section \<open>The contract of a hash fed in pieces\<close>

primrec feed ::
  "(bytes \<Rightarrow> u64 \<Rightarrow> sha384_ctx \<Rightarrow> sha384_ctx outcome) \<Rightarrow> bytes list \<Rightarrow> sha384_ctx \<Rightarrow> sha384_ctx outcome" where
  "feed update [] ctx = Ret ctx"
| "feed update (p # ps) ctx = bindR (update p (of_nat (length p)) ctx) (feed update ps)"

locale hash_stream =
  fixes compress :: "u64 list \<Rightarrow> bytes \<Rightarrow> u64 list"
    and update :: "bytes \<Rightarrow> u64 \<Rightarrow> sha384_ctx \<Rightarrow> sha384_ctx outcome"
  assumes update_absorbs: "absorbed compress H m hi ctx \<Longrightarrow> n \<le> length dat \<Longrightarrow> length m + n < 2 ^ 61 \<Longrightarrow>
    \<exists>t. update dat (of_nat n) ctx = Ret t \<and> absorbed compress H (m @ take n dat) (hi + of_nat (n div 2 ^ 29)) t"
begin

lemma feed_absorbs:
  assumes "absorbed compress H m hi ctx" "length m + length (concat ps) < 2 ^ 61" "\<forall>p \<in> set ps. length p < 2 ^ 29"
  shows "\<exists>t. feed update ps ctx = Ret t \<and> absorbed compress H (m @ concat ps) hi t"
  using assms
proof (induction ps arbitrary: m ctx)
  case (Cons p ps)
  have small: "length p div 2 ^ 29 = 0" using Cons.prems(3) by simp
  obtain t where t: "update p (of_nat (length p)) ctx = Ret t" "absorbed compress H (m @ p) hi t"
    using update_absorbs [OF Cons.prems(1), of "length p" p] Cons.prems(2) small by auto
  with Cons.IH [OF t(2)] Cons.prems(2,3) show ?case by simp
qed simp

end

interpretation uefi_hash: hash_stream sha_compress Sha384Update
  by unfold_locales (rule Sha384Update_absorbs)

section \<open>The digest\<close>

lemma be_bytes_length [simp]: "length (be_bytes w) = 8"
  by (simp add: be_bytes_def)

lemma init_absorbed:
  "length (sha_buffer junk) = 128 \<Longrightarrow> absorbed sha_compress SHA_H0 [] 0 (Sha384Init junk)"
  by (simp add: absorbed_def Sha384Init_def absorb_blocks_def blocks_short)

text \<open>The last block or two: the rest of the message, the bit, zeros and the field.\<close>

lemma pad_blocks:
  assumes r: "r = length m mod 128" and field: "length field = 16"
  shows "blocks_of (pad_with field m) = blocks_of m @
    (if r < 112 then [rest_of m @ 0x80 # replicate (111 - r) 0 @ field]
     else [rest_of m @ 0x80 # replicate (127 - r) 0, replicate 112 0 @ field])"
proof -
  have rl: "length (rest_of m) = r" "r < 128" using r by (simp_all add: rest_of_length)
  define x where "x = [0x80] @ replicate ((239 - length m mod 128) mod 128) 0 @ field"
  have pad: "blocks_of (pad_with field m) = blocks_of m @ blocks_of (rest_of m @ x)"
    using blocks_append [of m x] by (simp add: pad_with_def x_def)
  show ?thesis
  proof (cases "r < 112")
    case True
    then have "(239 - r) mod 128 = 111 - r" by (simp add: mod_if)
    then have x: "rest_of m @ x = (rest_of m @ 0x80 # replicate (111 - r) 0 @ field) @ []" by (simp add: x_def r)
    have "blocks_of (rest_of m @ x) = [rest_of m @ 0x80 # replicate (111 - r) 0 @ field]"
      unfolding x by (subst blocks_step) (use True rl field in \<open>simp_all add: blocks_short\<close>)
    with pad True show ?thesis by simp
  next
    case False
    then have z: "(239 - r) mod 128 = (127 - r) + 112" using rl(2) by (simp add: mod_if)
    have x: "rest_of m @ x = (rest_of m @ 0x80 # replicate (127 - r) 0) @ (replicate 112 0 @ field) @ []"
      unfolding x_def r [symmetric] z replicate_add by simp
    have "blocks_of (rest_of m @ x) = [rest_of m @ 0x80 # replicate (127 - r) 0, replicate 112 0 @ field]"
      unfolding x by (subst blocks_step, use False rl field in simp, subst blocks_step) (use field in \<open>simp_all add: blocks_short\<close>)
    with pad False show ?thesis by simp
  qed
qed

lemma absorb_fips:
  "length st = 8 \<Longrightarrow> absorb_blocks sha_compress m st = absorb_blocks fips_compress m st \<and>
     length (absorb_blocks fips_compress m st) = 8"
proof -
  have "(\<forall>b \<in> set bs. length b = 128) \<Longrightarrow> length st = 8 \<Longrightarrow>
      fold (\<lambda>b st. sha_compress st b) bs st = fold (\<lambda>b st. fips_compress st b) bs st \<and>
      length (fold (\<lambda>b st. fips_compress st b) bs st) = 8" for bs
    by (induction bs arbitrary: st)
      (simp_all add: sha_compress_eq, simp add: fips_compress_def split: prod.splits)
  then show "length st = 8 \<Longrightarrow> ?thesis" using blocks_length unfolding absorb_blocks_def by blast
qed

lemma Sha384Final_digest:
  assumes abs: "absorbed sha_compress SHA_H0 m hi ctx"
  shows "\<exists>t. Sha384Final ctx = Ret (fips_sha384_field (be_bytes hi @ be_bytes (of_nat (8 * length m))) m, t)"
proof -
  define r where "r = length m mod 128"
  have rl: "r < 128" "length (rest_of m) = r" by (simp_all add: r_def rest_of_length)
  let ?buf = "sha_buffer ctx"
  let ?field = "be_bytes hi @ be_bytes (of_nat (8 * length m))"
  have ctx: "sha_state ctx = absorb_blocks sha_compress m SHA_H0" "length ?buf = 128" "take r ?buf = rest_of m"
    "sha_count0 ctx = of_nat (8 * length m)" "sha_count1 ctx = hi" "length m < 2 ^ 61"
    using abs by (simp_all add: absorbed_def r_def)
  have index: "unat (drop_bit 3 (sha_count0 ctx) AND 127) = r"
    using count_words(4) [of "length m" 0] ctx(4,6) rl(1)
    by (simp add: r_def unat_of_nat take_bit_eq_mod del: of_nat_mult)
  have marked: "put_byte r 0x80 ?buf = Ret (rest_of m @ 0x80 # drop (Suc r) ?buf)"
    using rl(1) ctx(2,3) by (simp add: put_byte_def upd_conv_take_nth_drop)
  have zeros: "memset_loop (n - (r + 1)) (r + 1) (rest_of m @ 0x80 # drop (Suc r) ?buf) 0 =
      Ret (rest_of m @ 0x80 # replicate (n - Suc r) 0 @ drop n ?buf)" if "Suc r \<le> n" "n \<le> 128" for n
    using that rl ctx(2) by (subst memset_loop_eq) (simp_all add: drop_Cons')
  have last: "\<exists>t. Sha384Final ctx = Ret (concat (map be_bytes (take 6
      (sha_compress (sha_state c) (take 112 (sha_buffer c) @ ?field)))), t)"
    if "pad_buffer ctx = Ret c" "length (sha_buffer c) = 128" for c
  proof -
    have "memcpy_at 16 112 0 (sha_buffer c) ?field = Ret (take 112 (sha_buffer c) @ ?field)"
      using that(2) by (subst memcpy_at_eq) simp_all
    then show ?thesis
      using that ctx(5) by (simp add: Sha384Final_def Let_def ctx(4) Sha384Transform_def transform_full del: of_nat_mult)
  qed
  have digest: "concat (map be_bytes (take 6 (absorb_blocks sha_compress (pad_with ?field m) SHA_H0))) =
      fips_sha384_field ?field m"
  proof -
    have "length SHA_H0 = 8" by (simp add: SHA_H0_def)
    then have st: "absorb_blocks sha_compress (pad_with ?field m) SHA_H0 = absorb_blocks fips_compress (pad_with ?field m) SHA_H0"
      "length (absorb_blocks fips_compress (pad_with ?field m) SHA_H0) = 8"
      using absorb_fips by blast+
    from st(2) obtain s0 s1 s2 s3 s4 s5 s6 s7 where
      "absorb_blocks fips_compress (pad_with ?field m) SHA_H0 = [s0, s1, s2, s3, s4, s5, s6, s7]"
      by (auto simp: numeral_eq_Suc length_Suc_conv)
    then show ?thesis unfolding fips_sha384_field_def st(1) by simp
  qed
  show ?thesis
  proof (cases "r < 112")
    case True
    have "absorb_blocks sha_compress (pad_with ?field m) SHA_H0 =
        sha_compress (sha_state ctx) (rest_of m @ 0x80 # replicate (112 - Suc r) 0 @ ?field)"
      using pad_blocks [OF r_def, of ?field] True by (simp add: absorb_blocks_def ctx(1))
    moreover have "pad_buffer ctx = Ret (ctx\<lparr>sha_buffer := rest_of m @ 0x80 # replicate (112 - Suc r) 0 @ drop 112 ?buf\<rparr>)"
      unfolding pad_buffer_def Let_def index using marked zeros [of 112] True by simp
    from last [OF this] have "\<exists>t. Sha384Final ctx = Ret (concat (map be_bytes (take 6
        (sha_compress (sha_state ctx) (rest_of m @ 0x80 # replicate (112 - Suc r) 0 @ ?field)))), t)"
      using True rl ctx(2) by (simp add: take_Cons')
    ultimately show ?thesis using digest by simp
  next
    case False
    have "absorb_blocks sha_compress (pad_with ?field m) SHA_H0 =
        sha_compress (sha_compress (sha_state ctx) (rest_of m @ 0x80 # replicate (127 - r) 0)) (replicate 112 0 @ ?field)"
      using pad_blocks [OF r_def, of ?field] False by (simp add: absorb_blocks_def ctx(1))
    moreover define full where "full = rest_of m @ 0x80 # replicate (127 - r) 0"
    have full: "length full = 128" using rl by (simp add: full_def)
    have "pad_buffer ctx = Ret (ctx\<lparr>sha_buffer := replicate 112 0 @ drop 112 full, sha_state := sha_compress (sha_state ctx) full\<rparr>)"
      unfolding pad_buffer_def Let_def index
      using marked zeros [of 128] False rl(1) full ctx(2) by (simp add: full_def [symmetric] Sha384Transform_def transform_full memset_loop_eq)
    from last [OF this] have "\<exists>t. Sha384Final ctx = Ret (concat (map be_bytes (take 6
        (sha_compress (sha_compress (sha_state ctx) full) (replicate 112 0 @ ?field)))), t)"
      using full by simp
    ultimately show ?thesis using digest by (simp add: full_def)
  qed
qed

section \<open>The length field\<close>

lemma be_bytes_nth: "i < 8 \<Longrightarrow> be_bytes w ! i = ucast (drop_bit (56 - i * 8) w)"
proof -
  have "ucast (x AND 0xFF) = (ucast x :: u8)" for x :: u64
  proof -
    have "(0xFF :: u64) = mask 8" by (simp add: mask_eq_exp_minus_1)
    then have "bit (0xFF :: u64) n" if "n < 8" for n using that by (simp only: bit_mask_iff) simp
    then show ?thesis by (intro bit_word_eqI) (simp add: bit_unsigned_iff bit_and_iff)
  qed
  then show "i < 8 \<Longrightarrow> ?thesis" by (simp add: be_bytes_def)
qed

lemma be_bytes_0: "be_bytes 0 = replicate 8 0"
  by (simp add: be_bytes_def map_replicate_const)

lemma be_bytes_eq_0: "be_bytes w = replicate 8 0 \<longleftrightarrow> w = 0"
proof
  assume eq: "be_bytes w = replicate 8 0"
  show "w = 0"
  proof (rule bit_word_eqI)
    fix k
    assume k: "k < LENGTH(64)"
    define i where "i = 7 - k div 8"
    have i: "i < 8" "56 - i * 8 + k mod 8 = k" using k by (simp_all add: i_def diff_mult_distrib) (simp add: minus_mod_eq_mult_div [symmetric])?
    have "bit (be_bytes w ! i) (k mod 8) = bit w k"
      using i k by (simp add: be_bytes_nth bit_unsigned_iff bit_drop_bit_eq)
    then show "bit w k = bit 0 k" using i(1) by (simp add: eq)
  qed
qed (simp add: be_bytes_0)

lemma length_field_eq:
  assumes "n < 2 ^ 61"
  shows "length_field n = be_bytes 0 @ be_bytes (of_nat (8 * n))"
proof (rule nth_equalityI)
  fix i
  assume "i < length (length_field n)"
  then have i: "i < 16" by (simp add: length_field_def)
  have n: "8 * n < 2 ^ 64" using assms by simp
  show "length_field n ! i = (be_bytes 0 @ be_bytes (of_nat (8 * n))) ! i"
  proof (cases "i < 8")
    case True
    have "(256 :: nat) ^ 8 \<le> 256 ^ (15 - i)" by (rule power_increasing) (use True in simp_all)
    then have "8 * n div 256 ^ (15 - i) = 0" using n by simp
    with True show ?thesis by (simp add: length_field_def nth_append be_bytes_0)
  next
    case False
    define k where "k = 56 - (i - 8) * 8"
    have k: "(256 :: nat) ^ (15 - i) = 2 ^ k"
    proof -
      have "k = 8 * (15 - i)" using False i by (simp add: k_def)
      then show ?thesis by (simp add: power_mult)
    qed
    have M: "8 * n div 2 ^ k < 2 ^ 64" using n div_le_dividend [of "8 * n" "2 ^ k"] by linarith
    have "unat (drop_bit k (of_nat (8 * n) :: u64)) = 8 * n div 2 ^ k"
      unfolding unat_drop_bit using n by (simp add: unat_of_nat take_bit_eq_mod del: of_nat_mult)
    also have "\<dots> = unat (of_nat (8 * n div 2 ^ k) :: u64)" using M by (simp add: unat_of_nat take_bit_eq_mod)
    finally have "drop_bit k (of_nat (8 * n) :: u64) = of_nat (8 * n div 2 ^ k)"
      by (rule word_unat_eq_iff [THEN iffD2])
    moreover from M have "ucast (of_nat (8 * n div 2 ^ k) :: u64) = (of_nat (8 * n div 2 ^ k) :: u8)"
      by (intro word_unat_eq_iff [THEN iffD2]) (simp add: unat_of_nat take_bit_eq_mod unsigned_ucast_eq)
    ultimately show ?thesis using False i by (simp add: length_field_def nth_append be_bytes_nth k k_def [symmetric])
  qed
qed (simp add: length_field_def)

text \<open>What the loader puts there for a message hashed in one call, and when that is the standard's field.\<close>

definition code_field :: "nat \<Rightarrow> bytes" where
  "code_field n = be_bytes (of_nat (n div 2 ^ 29)) @ be_bytes (of_nat (8 * n))"

lemma code_field_eq:
  assumes "n < 2 ^ 61"
  shows "code_field n = length_field n \<longleftrightarrow> n < 2 ^ 29"
proof -
  have "n div 2 ^ 29 \<le> n" by simp
  then have "n div 2 ^ 29 < 2 ^ 64" using assms by simp
  then have "unat (of_nat (n div 2 ^ 29) :: u64) = n div 2 ^ 29" by (simp add: unat_of_nat take_bit_eq_mod)
  then have "(of_nat (n div 2 ^ 29) :: u64) = 0 \<longleftrightarrow> n < 2 ^ 29" by (simp add: word_unat_eq_iff div_eq_0_iff)
  then show ?thesis
    unfolding code_field_def length_field_eq [OF assms] append_same_eq be_bytes_0 be_bytes_eq_0 .
qed

lemma Sha384_outcome:
  assumes junk: "length (sha_buffer junk) = 128" and n: "n \<le> length dat" "n < 2 ^ 61"
  shows "Sha384 junk dat (of_nat n) = Ret (fips_sha384_field (code_field n) (take n dat))"
proof -
  obtain t where t: "Sha384Update dat (of_nat n) (Sha384Init junk) = Ret t"
    "absorbed sha_compress SHA_H0 (take n dat) (of_nat (n div 2 ^ 29)) t"
    using Sha384Update_absorbs [OF init_absorbed [OF junk] n(1)] n(2) by auto
  have "length (take n dat) = n" using n(1) by simp
  with Sha384Final_digest [OF t(2)] t(1) show ?thesis by (auto simp: Sha384_def code_field_def)
qed

section \<open>Properties\<close>

text \<open>
  C13. The hash of the UEFI loader is SHA-384 of FIPS 180-4 for every message of fewer than \<open>2^29\<close> bytes,
  whatever its context held before. For a longer one (up to \<open>2^61\<close> bytes) it is the same construction with
  another number in the length field of the padding: the code adds \<open>Len >> 29\<close> to the upper half of a
  counter whose lower half has 64 bits, and from \<open>2^29\<close> bytes on that field is never the standard's.
\<close>
theorem sha384_is_fips:
  assumes "length (sha_buffer junk) = 128" "n \<le> length dat" "n < 2 ^ 61"
  shows "Sha384 junk dat (of_nat n) = Ret (fips_sha384_field (code_field n) (take n dat)) \<and>
    (n < 2 ^ 29 \<longrightarrow> Sha384 junk dat (of_nat n) = Ret (fips_sha384 (take n dat))) \<and>
    (2 ^ 29 \<le> n \<longrightarrow> code_field n \<noteq> length_field n)"
proof -
  have "fips_sha384 (take n dat) = fips_sha384_field (code_field n) (take n dat)" if "n < 2 ^ 29"
    using that code_field_eq [OF assms(3)] assms(2) by (simp add: fips_sha384_def)
  then show ?thesis using Sha384_outcome [OF assms] code_field_eq [OF assms(3)] by auto
qed

definition sample_ctx :: sha384_ctx where
  "sample_ctx = \<lparr>sha_state = [], sha_count0 = 7, sha_count1 = 7, sha_buffer = replicate 128 7\<rparr>"

lemma sample_ctx_length: "length (sha_buffer sample_ctx) = 128"
  by (simp only: sample_ctx_def sha384_ctx.simps length_replicate)

theorem sha384_is_fips_witness: "Sha384 sample_ctx [97, 98, 99] 3 = Ret (fips_sha384 [97, 98, 99])"
  using sha384_is_fips [OF sample_ctx_length, of 3 "[97, 98, 99]", THEN conjunct2, THEN conjunct1] by simp

text \<open>
  The hash does not depend on how the message is cut: from the initial context, updates with pieces of
  fewer than \<open>2^29\<close> bytes each, of any number and sizes with fewer than \<open>2^61\<close> bytes in all, and the final
  step return the SHA-384 of the pieces joined.
\<close>
theorem sha384_in_pieces:
  assumes "length (sha_buffer junk) = 128" "length (concat ps) < 2 ^ 61" "\<forall>p \<in> set ps. length p < 2 ^ 29"
  shows "\<exists>t u. feed Sha384Update ps (Sha384Init junk) = Ret t \<and> Sha384Final t = Ret (fips_sha384 (concat ps), u)"
proof -
  obtain t where t: "feed Sha384Update ps (Sha384Init junk) = Ret t" "absorbed sha_compress SHA_H0 (concat ps) 0 t"
    using uefi_hash.feed_absorbs [OF init_absorbed [OF assms(1)]] assms(2,3) by auto
  have "be_bytes 0 @ be_bytes (of_nat (8 * length (concat ps))) = length_field (length (concat ps))"
    by (rule length_field_eq [OF assms(2), symmetric])
  then show ?thesis using Sha384Final_digest [OF t(2)] t(1) unfolding fips_sha384_def by metis
qed

theorem sha384_in_pieces_witness:
  "\<exists>t u. feed Sha384Update [[97], [], [98, 99]] (Sha384Init sample_ctx) = Ret t \<and>
     Sha384Final t = Ret (fips_sha384 [97, 98, 99], u)"
  using sha384_in_pieces [OF sample_ctx_length, of "[[97], [], [98, 99]]"] by simp

end
