(* ===== verification/UefiSecurity.thy ===== *)
theory UefiSecurity
  imports Sha384
begin

text \<open>
  What stands between the UEFI loader and a kernel image it was not meant to boot: the check of a
  signature (\<open>uefi/security/rsa.c\<close>), the verification of an image (\<open>uefi/security/verify.c\<close>) and the
  decision of the boot manager (\<open>BootMgrVerifyKernel\<close> of \<open>uefi/bootmgr/bootmgr.c\<close>), with the console
  output of \<open>uefi/efi/efi.c\<close>. Structures that lie in a file are the bytes they are, read at the offsets of
  their fields. What the firmware does is a parameter, and so is the macro \<open>EFI_ERROR\<close>, which the
  sources use and do not define; the UEFI specification has it test the top bit.
\<close>

section \<open>Status codes and console\<close>

type_synonym efi_status = u64

definition EFI_SUCCESS :: efi_status where "EFI_SUCCESS = 0"
definition EFI_INVALID_PARAMETER :: efi_status where "EFI_INVALID_PARAMETER = 2"
definition EFI_UNSUPPORTED :: efi_status where "EFI_UNSUPPORTED = 3"
definition EFI_BUFFER_TOO_SMALL :: efi_status where "EFI_BUFFER_TOO_SMALL = 5"
definition EFI_SECURITY_VIOLATION :: efi_status where "EFI_SECURITY_VIOLATION = 0x1A"

text \<open>
  The top bit, which the UEFI specification gives every error. The codes above lack it; \<open>EFIERR\<close> adds it, but no other
  line of the program uses it.
\<close>

definition EFI_ERROR_MASK :: efi_status where "EFI_ERROR_MASK = 0x8000000000000000"
definition EFIERR :: "efi_status \<Rightarrow> efi_status" where "EFIERR a = 0x8000000000000000 OR a"

lemmas efi_codes = EFI_SUCCESS_def EFI_INVALID_PARAMETER_def EFI_UNSUPPORTED_def EFI_BUFFER_TOO_SMALL_def
  EFI_SECURITY_VIOLATION_def

text \<open>
  What reaches the console: a text, and the colours set. A character is 16 bits wide there; a text that is not a
  constant of the program is kept that way.
\<close>

datatype con_event = Output string | OutputWide "u16 list" | Attribute u64

text \<open>\<open>has_console\<close> stands for \<open>gST && gST->ConOut\<close>.\<close>

record uefi_state =
  has_console :: bool
  con_log :: "con_event list"

definition con_put :: "con_event list \<Rightarrow> 'z uefi_state_scheme \<Rightarrow> 'z uefi_state_scheme" where
  "con_put es s = (if has_console s then s\<lparr>con_log := con_log s @ es\<rparr> else s)"

definition EFI_TEXT_RED :: u64 where "EFI_TEXT_RED = 4"
definition EFI_TEXT_WHITE :: u64 where "EFI_TEXT_WHITE = 15"
definition EFI_BACKGROUND_BLACK :: u64 where "EFI_BACKGROUND_BLACK = 0"

definition EfiPrintString :: "string \<Rightarrow> 'z uefi_state_scheme \<Rightarrow> 'z uefi_state_scheme" where
  "EfiPrintString str = con_put [Output str]"

definition EfiPrintError :: "string \<Rightarrow> 'z uefi_state_scheme \<Rightarrow> 'z uefi_state_scheme" where
  "EfiPrintError str = con_put [Attribute (EFI_TEXT_RED OR EFI_BACKGROUND_BLACK), Output str,
     Attribute (EFI_TEXT_WHITE OR EFI_BACKGROUND_BLACK)]"

text \<open>The digits are stored from the last to the first; \<open>Value\<close> loses four bits at each.\<close>

definition hex_digits :: string where "hex_digits = ''0123456789ABCDEF''"

fun hex_loop :: "nat \<Rightarrow> u64 \<Rightarrow> string \<Rightarrow> string" where
  "hex_loop 0 value buf = buf"
| "hex_loop (Suc i) value buf = hex_loop i (drop_bit 4 value) (buf[i := hex_digits ! unat (value AND 0xF)])"

definition EfiPrintHex :: "u64 \<Rightarrow> 'z uefi_state_scheme \<Rightarrow> 'z uefi_state_scheme" where
  "EfiPrintHex value = EfiPrintString (hex_loop 16 value (replicate 16 (CHR 0x00)))"

section \<open>Files and structures\<close>

text \<open>A little-endian number of \<open>n\<close> bytes at offset \<open>off\<close>.\<close>

definition le_at :: "nat \<Rightarrow> bytes \<Rightarrow> nat \<Rightarrow> u64 outcome" where
  "le_at n obj off =
     (if off + n \<le> length obj then Ret (le_value (take n (drop off obj))) else Fault)"

definition SHA384_DIGEST_SIZE :: nat where "SHA384_DIGEST_SIZE = 48"
definition RSA_MAX_BYTES :: nat where "RSA_MAX_BYTES = 4096 div 8"

text \<open>The sizes are \<open>UINT32\<close>.\<close>

record rsa_public_key =
  Modulus :: bytes
  Exponent :: bytes
  ModulusSize :: u32
  ExponentSize :: u32

record rsa_signature =
  rsa_sig :: bytes
  rsa_sig_size :: u32

definition HIK_KERNEL_MAGIC :: u64 where "HIK_KERNEL_MAGIC = 0x48494B00"
definition HIK_KERNEL_VERSION :: u64 where "HIK_KERNEL_VERSION = 0x00010000"
definition HIK_FLAG_SIGNED :: u64 where "HIK_FLAG_SIGNED = 1"
definition HIK_SIGNATURE_ALGORITHM_RSA_SHA384 :: u64 where "HIK_SIGNATURE_ALGORITHM_RSA_SHA384 = 1"
definition sizeof_kernel_header :: nat where "sizeof_kernel_header = 120"

text \<open>The fields of \<open>HIK_KERNEL_HEADER\<close> and of \<open>HIK_SIGNATURE\<close> by their offsets.\<close>

definition hdr_signature :: "bytes \<Rightarrow> u64 outcome" where "hdr_signature h = le_at 8 h 0"
definition hdr_version :: "bytes \<Rightarrow> u64 outcome" where "hdr_version h = le_at 4 h 8"
definition hdr_flags :: "bytes \<Rightarrow> u64 outcome" where "hdr_flags h = le_at 4 h 12"
definition sig_algorithm :: "bytes \<Rightarrow> u64 outcome" where "sig_algorithm sg = le_at 4 sg 0"
definition sig_size :: "bytes \<Rightarrow> u64 outcome" where "sig_size sg = le_at 4 sg 4"

section \<open>The signature check\<close>

text \<open>\<open>PaddedHash\<close>: the prefix, the name, two more bytes, the digest, zeros to 512 bytes.\<close>

definition padded_hash :: "bytes \<Rightarrow> bytes outcome" where
  "padded_hash digest =
     bindR (memset_loop RSA_MAX_BYTES 0 (replicate RSA_MAX_BYTES 0) 0) (\<lambda>p.
     bindR (memcpy_at 7 6 0 (p[0 := 0x30, 1 := of_nat (SHA384_DIGEST_SIZE + 2 + 2), 2 := 0x30,
         3 := of_nat (SHA384_DIGEST_SIZE + 2), 4 := 0x06, 5 := 0x0c]) (lit ''SHA-384'')) (\<lambda>p.
     memcpy_at SHA384_DIGEST_SIZE 15 0 (p[13 := 0x05, 14 := 0x00]) digest))"

text \<open>
  The comparison of \<open>Decrypted\<close>, which nothing has been written to since it was cleared, with \<open>PaddedHash\<close>.
  \<open>ModulusSize - 48 - 15\<close> is computed in 32 bits and wraps.
\<close>

fun rsa_compare_loop :: "nat \<Rightarrow> nat \<Rightarrow> u32 \<Rightarrow> bytes \<Rightarrow> bytes \<Rightarrow> efi_status outcome" where
  "rsa_compare_loop 0 i msize decrypted padded = Ret EFI_SUCCESS"
| "rsa_compare_loop (Suc n) i msize decrypted padded =
     bindR (byte_at decrypted i) (\<lambda>d.
     bindR (byte_at padded (unat (ucast (msize - 48 - 15) + of_nat i :: u64))) (\<lambda>p.
     if d \<noteq> p then Ret EFI_SECURITY_VIOLATION else rsa_compare_loop n (Suc i) msize decrypted padded))"

definition RsaVerifySha384 :: "rsa_public_key \<Rightarrow> bytes \<Rightarrow> rsa_signature \<Rightarrow> efi_status outcome" where
  "RsaVerifySha384 key digest signature =
     (if ModulusSize key = 0 \<or> ExponentSize key = 0 then Ret EFI_INVALID_PARAMETER
      else bindR (memset_loop RSA_MAX_BYTES 0 (replicate RSA_MAX_BYTES 0) 0) (\<lambda>decrypted.
           bindR (padded_hash digest) (\<lambda>padded.
           rsa_compare_loop (unat (ModulusSize key)) 0 (ModulusSize key) decrypted padded)))"

definition RsaVerifySignature :: "rsa_public_key \<Rightarrow> bytes \<Rightarrow> u64 \<Rightarrow> rsa_signature \<Rightarrow> efi_status outcome" where
  "RsaVerifySignature key hash hash_size signature =
     (if hash_size = of_nat SHA384_DIGEST_SIZE then RsaVerifySha384 key hash signature else Ret EFI_UNSUPPORTED)"

section \<open>Verification of an image\<close>

text \<open>
  \<open>junk\<close> is what the stack holds: the hash context, and the 512 bytes the signature is copied to. A
  pointer into the image is the list of the bytes from there on.
\<close>

record stack_junk =
  junk_ctx :: sha384_ctx
  junk_sig :: bytes

definition check_signature ::
  "stack_junk \<Rightarrow> bytes \<Rightarrow> u64 \<Rightarrow> bytes \<Rightarrow> rsa_public_key \<Rightarrow> efi_status outcome" where
  "check_signature junk img len signature key =
     bindR (Sha384 (junk_ctx junk) img len) (\<lambda>digest.
     bindR (sig_size signature) (\<lambda>n.
     bindR (memcpy_at (unat n) 0 8 (junk_sig junk) signature) (\<lambda>buf.
     RsaVerifySha384 key digest \<lparr>rsa_sig = buf, rsa_sig_size = ucast n\<rparr>)))"

definition VerifyKernelHeader ::
  "stack_junk \<Rightarrow> bytes \<Rightarrow> bytes \<Rightarrow> rsa_public_key \<Rightarrow> 'z uefi_state_scheme \<Rightarrow>
   (efi_status \<times> 'z uefi_state_scheme) outcome" where
  "VerifyKernelHeader junk header signature key s =
     bindR (hdr_signature header) (\<lambda>magic.
     if magic \<noteq> HIK_KERNEL_MAGIC
     then Ret (EFI_INVALID_PARAMETER, EfiPrintError ''Invalid kernel magic\<newline>'' s)
     else bindR (hdr_version header) (\<lambda>version.
     if HIK_KERNEL_VERSION < version
     then Ret (EFI_UNSUPPORTED, EfiPrintError ''Unsupported kernel version\<newline>'' s)
     else bindR (sig_algorithm signature) (\<lambda>algorithm.
     if algorithm \<noteq> HIK_SIGNATURE_ALGORITHM_RSA_SHA384
     then Ret (EFI_UNSUPPORTED, EfiPrintError ''Unsupported signature algorithm\<newline>'' s)
     else bindR (check_signature junk header (of_nat sizeof_kernel_header) signature key) (\<lambda>status. Ret (status, s)))))"

definition VerifyKernelImage ::
  "stack_junk \<Rightarrow> bytes \<Rightarrow> u64 \<Rightarrow> bytes \<Rightarrow> rsa_public_key \<Rightarrow> 'z uefi_state_scheme \<Rightarrow>
   (efi_status \<times> 'z uefi_state_scheme) outcome" where
  "VerifyKernelImage junk img len signature key s =
     (if len < of_nat sizeof_kernel_header
      then Ret (EFI_INVALID_PARAMETER, EfiPrintError ''Invalid image size\<newline>'' s)
      else bindR (sig_algorithm signature) (\<lambda>algorithm.
      if algorithm \<noteq> HIK_SIGNATURE_ALGORITHM_RSA_SHA384
      then Ret (EFI_UNSUPPORTED, EfiPrintError ''Unsupported signature algorithm\<newline>'' s)
      else bindR (check_signature junk img len signature key) (\<lambda>status. Ret (status, s))))"

section \<open>The decision of the boot manager\<close>

text \<open>
  \<open>img_header\<close> is the buffer the file was read to, which starts with the header, or \<open>NULL\<close>; the other
  pointers lie in it and are kept as offsets.
\<close>

record kernel_image =
  img_header :: "bytes option"
  img_code :: u64
  img_data :: u64
  img_config :: u64
  img_signature :: u64
  img_code_size :: u64
  img_data_size :: u64
  img_config_size :: u64
  img_signature_size :: u64
  img_size :: u64

text \<open>\<open>err\<close> is \<open>EFI_ERROR\<close>; the key may be \<open>NULL\<close>.\<close>

definition BootMgrVerifyKernel ::
  "(efi_status \<Rightarrow> bool) \<Rightarrow> stack_junk \<Rightarrow> kernel_image \<Rightarrow> rsa_public_key option \<Rightarrow> 'z uefi_state_scheme \<Rightarrow>
   (efi_status \<times> 'z uefi_state_scheme) outcome" where
  "BootMgrVerifyKernel err junk img key s = (case img_header img of
     None \<Rightarrow> Fault
   | Some buffer \<Rightarrow>
     bindR (hdr_flags buffer) (\<lambda>flags.
     if flags AND HIK_FLAG_SIGNED \<noteq> 0
     then case key of
         None \<Rightarrow> Ret (EFI_SECURITY_VIOLATION, EfiPrintError ''No public key provided for verification\<newline>'' s)
       | Some k \<Rightarrow> bindR (VerifyKernelImage junk buffer (img_size img)
             (drop (unat (img_signature img)) buffer) k s) (\<lambda>(status, s).
           if err status then Ret (status, EfiPrintError ''Kernel signature verification failed\<newline>'' s)
           else Ret (EFI_SUCCESS, EfiPrintString ''Kernel signature verified successfully\<newline>'' s))
     else Ret (EFI_SUCCESS, EfiPrintString ''Warning: Kernel is not signed\<newline>'' s)))"

text \<open>\<open>MemSet(&PublicKey, 0, sizeof(RSA_PUBLIC_KEY))\<close> in \<open>UefiMain\<close>, the only key the loader ever uses.\<close>

definition zero_key :: rsa_public_key where
  "zero_key = \<lparr>Modulus = replicate RSA_MAX_BYTES 0, Exponent = replicate RSA_MAX_BYTES 0,
     ModulusSize = 0, ExponentSize = 0\<rparr>"

section \<open>What the signature check decides\<close>

text \<open>The first 63 bytes of the padded hash.\<close>

definition rsa_marker :: "bytes \<Rightarrow> bytes" where
  "rsa_marker digest = [0x30, 52, 0x30, 50, 0x06, 0x0c] @ map of_char ''SHA-384'' @ [0x05, 0x00] @ digest"

lemma memset_zeros: "memset_loop n 0 (replicate n 0) 0 = Ret (replicate n 0)"
  using memset_loop_eq [of 0 n "replicate n 0" 0] by simp

lemma padded_hash_eq:
  assumes "length digest = 48"
  shows "padded_hash digest = Ret (rsa_marker digest @ replicate 449 0)"
proof -
  have p0: "replicate RSA_MAX_BYTES (0 :: u8) = replicate 15 0 @ replicate 497 0"
    unfolding replicate_add [symmetric] by (simp only: RSA_MAX_BYTES_def) simp
  have set: "memset_loop RSA_MAX_BYTES 0 (replicate RSA_MAX_BYTES (0 :: u8)) 0 = Ret (replicate 15 0 @ replicate 497 0)"
    using memset_zeros [of RSA_MAX_BYTES] by (simp only: p0)
  have z15: "replicate 15 (0 :: u8) = [0, 0, 0, 0, 0, 0, 0, 0, 0, 0, 0, 0, 0, 0, 0]" by (simp add: numeral_eq_Suc)
  define tl where "tl = replicate 497 (0 :: u8)"
  have tl: "length tl = 497" "drop 48 tl = replicate 449 0" by (simp_all add: tl_def)
  show ?thesis
  proof -
    have name: "memcpy_at 7 6 0 ([0x30, 52, 0x30, 50, 6, 0xc, 0, 0, 0, 0, 0, 0, 0, 0, 0] @ tl) (lit ''SHA-384'') =
        Ret ([0x30, 52, 0x30, 50, 6, 0xc] @ map of_char ''SHA-384'' @ [0, 0] @ tl)"
      by (subst memcpy_at_eq) (simp_all add: lit_def)
    have copy: "memcpy_at SHA384_DIGEST_SIZE 15 0 ([0x30, 52, 0x30, 50, 6, 0xc] @ map of_char ''SHA-384'' @ [5, 0] @ tl) digest =
        Ret (rsa_marker digest @ replicate 449 0)"
      using assms tl by (subst memcpy_at_eq) (simp_all add: SHA384_DIGEST_SIZE_def rsa_marker_def)
    show ?thesis
      unfolding padded_hash_def set tl_def [symmetric] z15 bindR.simps
      using name copy by (simp add: SHA384_DIGEST_SIZE_def)
  qed
qed

lemma rsa_marker_length: "length digest = 48 \<Longrightarrow> length (rsa_marker digest) = 63"
  by (simp add: rsa_marker_def)

text \<open>The loop from index \<open>i\<close> on, over a cleared buffer, while the other index stays inside the address space.\<close>

lemma rsa_compare_from:
  assumes dec: "\<And>k. k < 512 \<Longrightarrow> byte_at decrypted k = Ret 0" "\<And>k. 512 \<le> k \<Longrightarrow> byte_at decrypted k = Fault"
    and m: "unat (msize - 48 - 15) = b" "unat msize < 2 ^ 32"
    and pad: "length padded = 512"
  shows "i + n \<le> unat msize \<Longrightarrow> rsa_compare_loop n i msize decrypted padded =
    (if \<exists>k. i \<le> k \<and> k < i + n \<and> k < 512 \<and> b + k < 512 \<and> padded ! (b + k) \<noteq> 0 then Ret EFI_SECURITY_VIOLATION
     else if n = 0 \<or> i + n \<le> 512 \<and> b + (i + n) \<le> 512 then Ret EFI_SUCCESS else Fault)"
proof (induction n arbitrary: i)
  case 0
  then show ?case by auto
next
  case (Suc n)
  have "b < 2 ^ 32" using m(1) unsigned_less [of "msize - 48 - 15", where ?'a = nat] by simp
  moreover have "i < 2 ^ 32" using Suc.prems m(2) by simp
  ultimately have "unat (ucast (msize - 48 - 15) + of_nat i :: u64) = b + i"
    using m(1) by (simp add: unat_word_ariths unat_ucast_up unat_of_nat take_bit_eq_mod)
  then have read: "byte_at padded (unat (ucast (msize - 48 - 15) + of_nat i :: u64)) =
      (if b + i < 512 then Ret (padded ! (b + i)) else Fault)" by (simp add: byte_at_def pad)
  show ?case
  proof (cases "i < 512 \<and> b + i < 512")
    case True
    have split: "(\<exists>k. i \<le> k \<and> k < i + Suc n \<and> Q k) \<longleftrightarrow> Q i \<or> (\<exists>k. Suc i \<le> k \<and> k < Suc i + n \<and> Q k)" for Q
      by (metis Suc_le_eq add_Suc add_Suc_right le_add1 less_add_Suc1 order_le_less)
    show ?thesis
    proof (cases "padded ! (b + i) = 0")
      case False
      with True read show ?thesis unfolding split by (simp add: dec(1))
    next
      case zero: True
      have "rsa_compare_loop (Suc n) i msize decrypted padded = rsa_compare_loop n (Suc i) msize decrypted padded"
        using True zero read by (simp add: dec(1))
      also note Suc.IH [of "Suc i"]
      finally show ?thesis using Suc.prems True zero unfolding split by auto
    qed
  next
    case False
    then have "rsa_compare_loop (Suc n) i msize decrypted padded = Fault"
      using read by (cases "i < 512") (simp_all add: dec)
    with False show ?thesis by auto
  qed
qed

text \<open>The outcome depends on the sizes in the key and, for small keys, on the last bytes of the digest.\<close>

lemma RsaVerifySha384_eq:
  assumes digest: "length digest = 48"
  shows "RsaVerifySha384 key digest signature =
    (let m = unat (ModulusSize key) in
     if m = 0 \<or> ExponentSize key = 0 then Ret EFI_INVALID_PARAMETER
     else if m < 63 \<or> 287 < m then Fault
     else if \<forall>k \<in> {m - 63..<63}. rsa_marker digest ! k = 0 then Ret EFI_SUCCESS else Ret EFI_SECURITY_VIOLATION)"
proof (cases "ModulusSize key = 0 \<or> ExponentSize key = 0")
  case True
  then show ?thesis by (auto simp: RsaVerifySha384_def Let_def)
next
  case False
  define m where "m = unat (ModulusSize key)"
  define padded where "padded = rsa_marker digest @ replicate 449 0"
  define decrypted where "decrypted = replicate RSA_MAX_BYTES (0 :: u8)"
  define b where "b = unat (ModulusSize key - 48 - 15)"
  have m: "0 < m" "m < 2 ^ 32" using False unsigned_less [of "ModulusSize key"] by (simp_all add: m_def unat_gt_0)
  have dec: "byte_at decrypted k = (if k < 512 then Ret 0 else Fault)" for k
    by (simp add: byte_at_def decrypted_def RSA_MAX_BYTES_def)
  have pad: "length padded = 512" using rsa_marker_length [OF digest] by (simp add: padded_def)
  have padk: "padded ! k = (if k < 63 then rsa_marker digest ! k else 0)" if "k < 512" for k
    using that rsa_marker_length [OF digest] by (simp add: padded_def nth_append)
  have start: "RsaVerifySha384 key digest signature = rsa_compare_loop m 0 (ModulusSize key) decrypted padded"
    using False by (simp add: RsaVerifySha384_def memset_zeros padded_hash_eq [OF digest] m_def padded_def decrypted_def)
  also have "\<dots> = (if \<exists>k. 0 \<le> k \<and> k < 0 + m \<and> k < 512 \<and> b + k < 512 \<and> padded ! (b + k) \<noteq> 0 then Ret EFI_SECURITY_VIOLATION
     else if m = 0 \<or> 0 + m \<le> 512 \<and> b + (0 + m) \<le> 512 then Ret EFI_SUCCESS else Fault)"
    by (rule rsa_compare_from) (use m pad dec in \<open>simp_all add: b_def m_def\<close>)
  finally have loop: "RsaVerifySha384 key digest signature =
    (if \<exists>k. 0 \<le> k \<and> k < 0 + m \<and> k < 512 \<and> b + k < 512 \<and> padded ! (b + k) \<noteq> 0 then Ret EFI_SECURITY_VIOLATION
     else if m = 0 \<or> 0 + m \<le> 512 \<and> b + (0 + m) \<le> 512 then Ret EFI_SUCCESS else Fault)" .
  have outcome: "RsaVerifySha384 key digest signature =
    (if \<exists>k < m. b + k < 63 \<and> k < 512 \<and> rsa_marker digest ! (b + k) \<noteq> 0 then Ret EFI_SECURITY_VIOLATION
     else if m \<le> 512 \<and> b + m \<le> 512 then Ret EFI_SUCCESS else Fault)"
  proof -
    have "(b + k < 512 \<and> padded ! (b + k) \<noteq> 0) = (b + k < 63 \<and> rsa_marker digest ! (b + k) \<noteq> 0)" for k
      using padk [of "b + k"] by (auto split: if_splits)
    then have ex_eq: "(\<exists>k. 0 \<le> k \<and> k < 0 + m \<and> k < 512 \<and> b + k < 512 \<and> padded ! (b + k) \<noteq> 0) \<longleftrightarrow>
        (\<exists>k < m. b + k < 63 \<and> k < 512 \<and> rsa_marker digest ! (b + k) \<noteq> 0)" by auto
    have "m \<noteq> 0" using m(1) by simp
    then show ?thesis unfolding loop ex_eq by (simp only: add_0 simp_thms)
  qed
  have b: "b = (if m < 63 then m + 2 ^ 32 - 63 else m - 63)"
  proof -
    have "ModulusSize key - 48 - 15 = ModulusSize key - 63" by simp
    then have "b = unat (ModulusSize key - 63)" by (simp only: b_def)
    also have "\<dots> = (if m < 63 then m + 2 ^ 32 - 63 else m - 63)"
      using m(2) by (auto simp: m_def unat_sub_if_size word_size not_le word_le_nat_alt)
    finally show ?thesis .
  qed
  have range: "(\<exists>k < m. b + k < 63 \<and> k < 512 \<and> rsa_marker digest ! (b + k) \<noteq> 0) \<longleftrightarrow>
      \<not> (\<forall>k \<in> {m - 63..<63}. rsa_marker digest ! k = 0)" if "63 \<le> m"
  proof
    assume "\<not> (\<forall>k \<in> {m - 63..<63}. rsa_marker digest ! k = 0)"
    then obtain k where "m - 63 \<le> k" "k < 63" "rsa_marker digest ! k \<noteq> 0" by auto
    moreover from this have "b \<le> k" "k - b < 63" using that by (auto simp: b)
    ultimately show "\<exists>k < m. b + k < 63 \<and> k < 512 \<and> rsa_marker digest ! (b + k) \<noteq> 0"
      using that by (intro exI [of _ "k - b"]) simp
  qed (use that in \<open>auto simp: b\<close>)
  show ?thesis
  proof (cases "63 \<le> m \<and> m \<le> 287")
    case True
    then have "b + m \<le> 512" "m \<le> 512" using b by auto
    then have "RsaVerifySha384 key digest signature = (if \<not> (\<forall>k \<in> {m - 63..<63}. rsa_marker digest ! k = 0)
        then Ret EFI_SECURITY_VIOLATION else Ret EFI_SUCCESS)" using outcome range True by simp
    with True False show ?thesis by (simp add: Let_def m_def [symmetric])
  next
    case False
    then have "\<not> (\<exists>k < m. b + k < 63 \<and> k < 512 \<and> rsa_marker digest ! (b + k) \<noteq> 0)" "\<not> (m \<le> 512 \<and> b + m \<le> 512)"
      using b by auto
    with outcome False \<open>\<not> (ModulusSize key = 0 \<or> ExponentSize key = 0)\<close> m(1) show ?thesis
      by (simp add: Let_def m_def [symmetric] not_le)
  qed
qed

section \<open>What the verification decides\<close>

lemma fips_length: "length (fips_sha384_field field m) = 48"
proof -
  have "length SHA_H0 = 8" by (simp add: SHA_H0_def)
  then have "length (absorb_blocks fips_compress (pad_with field m) SHA_H0) = 8" using absorb_fips by blast
  moreover have "length (concat (map be_bytes ws)) = 8 * length ws" for ws by (induction ws) simp_all
  ultimately show ?thesis by (simp add: fips_sha384_field_def)
qed

text \<open>The stack has room for what is put there.\<close>

definition junk_ok :: "stack_junk \<Rightarrow> bool" where
  "junk_ok junk \<longleftrightarrow> length (sha_buffer (junk_ctx junk)) = 128 \<and> length (junk_sig junk) = RSA_MAX_BYTES"

text \<open>An image, a signature that names the algorithm, and as many signature bytes as it says, at most 512.\<close>

definition image_ok :: "bytes \<Rightarrow> u64 \<Rightarrow> bytes \<Rightarrow> bool" where
  "image_ok img len signature \<longleftrightarrow> 120 \<le> unat len \<and> unat len \<le> length img \<and> unat len < 2 ^ 61 \<and>
     sig_algorithm signature = Ret 1 \<and>
     (\<exists>n. sig_size signature = Ret n \<and> unat n \<le> RSA_MAX_BYTES \<and> 8 + unat n \<le> length signature)"

lemma check_signature_eq:
  assumes "junk_ok junk" "image_ok img len signature"
  shows "\<exists>digest rsig. length digest = 48 \<and>
    check_signature junk img len signature key = RsaVerifySha384 key digest rsig"
proof -
  obtain n where n: "sig_size signature = Ret n" "unat n \<le> RSA_MAX_BYTES" "8 + unat n \<le> length signature"
    using assms(2) by (auto simp: image_ok_def)
  have "Sha384 (junk_ctx junk) img len = Ret (fips_sha384_field (code_field (unat len)) (take (unat len) img))"
    using Sha384_outcome [of "junk_ctx junk" "unat len" img] assms by (simp add: junk_ok_def image_ok_def)
  moreover obtain buf where "memcpy_at (unat n) 0 8 (junk_sig junk) signature = Ret buf"
    using memcpy_at_eq [of 0 "unat n" "junk_sig junk" 8 signature] n assms(1) by (simp add: junk_ok_def)
  ultimately have "check_signature junk img len signature key = RsaVerifySha384 key
      (fips_sha384_field (code_field (unat len)) (take (unat len) img)) \<lparr>rsa_sig = buf, rsa_sig_size = ucast n\<rparr>"
    using n(1) by (simp add: check_signature_def)
  with fips_length show ?thesis by blast
qed

lemma VerifyKernelImage_eq:
  assumes "junk_ok junk" "image_ok img len signature"
  shows "VerifyKernelImage junk img len signature key s =
    bindR (check_signature junk img len signature key) (\<lambda>status. Ret (status, s))"
proof -
  have "\<not> len < of_nat sizeof_kernel_header"
    using assms(2) by (simp add: image_ok_def sizeof_kernel_header_def word_less_nat_alt)
  with assms(2) show ?thesis
    by (simp add: VerifyKernelImage_def image_ok_def HIK_SIGNATURE_ALGORITHM_RSA_SHA384_def)
qed

lemma zero_key_rejects: "RsaVerifySha384 zero_key digest signature = Ret EFI_INVALID_PARAMETER"
  by (simp add: RsaVerifySha384_def zero_key_def)

text \<open>With the key of zeros the verification never succeeds, however the image is made.\<close>

lemma zero_key_statuses:
  "VerifyKernelImage junk img len signature zero_key s = Ret (status, t) \<Longrightarrow>
   status = EFI_INVALID_PARAMETER \<or> status = EFI_UNSUPPORTED"
  by (auto simp: VerifyKernelImage_def check_signature_def zero_key_rejects outcome_simps split: if_splits)

section \<open>Properties\<close>

text \<open>
  What the signature check decides. A key without modulus or exponent is an invalid parameter. With a
  modulus of fewer than 63 or more than 287 bytes the check reads outside its buffers. In between it
  succeeds exactly when the last bytes of the padded hash, as many as the modulus is short of 126, are zero:
  from 126 bytes (1008 bits) on it accepts every digest. The signature has no part in it.
\<close>
theorem rsa_check_decides:
  assumes "length digest = 48"
  shows "RsaVerifySha384 key digest signature =
    (let m = unat (ModulusSize key) in
     if m = 0 \<or> ExponentSize key = 0 then Ret EFI_INVALID_PARAMETER
     else if m < 63 \<or> 287 < m then Fault
     else if \<forall>k \<in> {m - 63..<63}. rsa_marker digest ! k = 0 then Ret EFI_SUCCESS else Ret EFI_SECURITY_VIOLATION)"
  by (rule RsaVerifySha384_eq [OF assms])

definition sample_key :: rsa_public_key where
  "sample_key = \<lparr>Modulus = replicate RSA_MAX_BYTES 1, Exponent = replicate RSA_MAX_BYTES 1,
     ModulusSize = 256, ExponentSize = 3\<rparr>"

theorem rsa_check_decides_witness:
  "RsaVerifySha384 sample_key (replicate 48 7) \<lparr>rsa_sig = [], rsa_sig_size = 0\<rparr> = Ret EFI_SUCCESS"
proof -
  have len: "length (replicate 48 (7 :: u8)) = 48" by (rule length_replicate)
  show ?thesis
    unfolding rsa_check_decides [OF len] by (simp add: Let_def sample_key_def)
qed

text \<open>
  C15. With a public key of 1008 to 2296 bits, as a 2048-bit one, every image verifies: whatever bytes the
  kernel and the signature consist of, \<open>VerifyKernelImage\<close> returns \<open>EFI_SUCCESS\<close>, as long as the structures
  lie inside the image and the signature names the algorithm and at most 512 bytes.
\<close>
theorem verify_accepts_every_image:
  assumes "junk_ok junk" "image_ok img len signature" "126 \<le> unat (ModulusSize key)" "unat (ModulusSize key) \<le> 287"
    "ExponentSize key \<noteq> 0"
  shows "VerifyKernelImage junk img len signature key s = Ret (EFI_SUCCESS, s)"
proof -
  obtain digest rsig where check: "length digest = 48"
    "check_signature junk img len signature key = RsaVerifySha384 key digest rsig"
    using check_signature_eq [OF assms(1,2)] by blast
  have "RsaVerifySha384 key digest rsig = Ret EFI_SUCCESS"
    unfolding RsaVerifySha384_eq [OF check(1)] Let_def using assms(3-5) by simp
  with check(2) show ?thesis by (simp add: VerifyKernelImage_eq [OF assms(1,2)])
qed

definition sample_junk :: stack_junk where
  "sample_junk = \<lparr>junk_ctx = sample_ctx, junk_sig = replicate RSA_MAX_BYTES 9\<rparr>"

definition sample_image :: bytes where "sample_image = replicate 120 0"

theorem verify_accepts_every_image_witness:
  "\<forall>s. VerifyKernelImage sample_junk sample_image 120 [1, 0, 0, 0, 0, 0, 0, 0] sample_key s = Ret (EFI_SUCCESS, s)"
proof
  fix s :: "'z uefi_state_scheme"
  have "junk_ok sample_junk" by (simp add: junk_ok_def sample_junk_def sample_ctx_length)
  moreover have "image_ok sample_image 120 [1, 0, 0, 0, 0, 0, 0, 0]"
    by (simp add: image_ok_def sample_image_def sig_algorithm_def sig_size_def le_at_def le_value_def)
  ultimately show "VerifyKernelImage sample_junk sample_image 120 [1, 0, 0, 0, 0, 0, 0, 0] sample_key s = Ret (EFI_SUCCESS, s)"
    by (rule verify_accepts_every_image) (simp_all add: sample_key_def)
qed

text \<open>
  With an \<open>EFI_ERROR\<close> that recognised the codes as they are written in \<open>types.h\<close>, without the top bit, the boot manager
  would accept, with the key of zeros \<open>UefiMain\<close> passes, exactly the images whose header does not carry the flag
  \<open>HIK_FLAG_SIGNED\<close>.
\<close>
theorem uefi_boots_only_unsigned:
  assumes "err EFI_INVALID_PARAMETER" "err EFI_UNSUPPORTED" "img_header img = Some buffer" "hdr_flags buffer = Ret flags"
  shows "(\<exists>t. BootMgrVerifyKernel err junk img (Some zero_key) s = Ret (EFI_SUCCESS, t)) \<longleftrightarrow>
    flags AND HIK_FLAG_SIGNED = 0"
  using assms zero_key_statuses
  by (fastforce simp: BootMgrVerifyKernel_def outcome_simps efi_codes split: if_splits)

definition sample_kernel_image :: kernel_image where
  "sample_kernel_image = \<lparr>img_header = Some (replicate 12 0 @ [1, 0, 0, 0] @ replicate 104 0), img_code = 0,
     img_data = 0, img_config = 0, img_signature = 0, img_code_size = 0, img_data_size = 0, img_config_size = 0,
     img_signature_size = 0, img_size = 120\<rparr>"

theorem uefi_boots_only_unsigned_witness:
  "\<forall>s. (\<exists>t. BootMgrVerifyKernel (\<lambda>status. status \<noteq> 0) sample_junk sample_kernel_image (Some zero_key) s =
      Ret (EFI_SUCCESS, t)) \<longleftrightarrow> False"
proof
  fix s :: "'z uefi_state_scheme"
  have "hdr_flags (replicate 12 0 @ [1, 0, 0, 0] @ replicate 104 0) = Ret 1" by (simp add: hdr_flags_def le_at_def le_value_def)
  from uefi_boots_only_unsigned [OF _ _ _ this, of "\<lambda>status. status \<noteq> 0" sample_kernel_image sample_junk s]
  show "(\<exists>t. BootMgrVerifyKernel (\<lambda>status. status \<noteq> 0) sample_junk sample_kernel_image (Some zero_key) s =
      Ret (EFI_SUCCESS, t)) \<longleftrightarrow> False"
    by (simp add: efi_codes HIK_FLAG_SIGNED_def sample_kernel_image_def)
qed

text \<open>The statuses of the verification, whatever the key and the image.\<close>

lemma rsa_compare_statuses: "rsa_compare_loop n i m decrypted padded = Ret st \<Longrightarrow> st \<in> {EFI_SUCCESS, EFI_SECURITY_VIOLATION}"
  by (induction n arbitrary: i) (auto simp: outcome_simps split: if_splits)

lemma VerifyKernelImage_statuses:
  "VerifyKernelImage junk img len signature key s = Ret (status, t) \<Longrightarrow>
   status \<in> {EFI_SUCCESS, EFI_INVALID_PARAMETER, EFI_UNSUPPORTED, EFI_SECURITY_VIOLATION}"
  by (auto simp: VerifyKernelImage_def check_signature_def RsaVerifySha384_def outcome_simps split: if_splits
      dest: rsa_compare_statuses)

lemma statuses_lack_top_bit:
  "status \<in> {EFI_SUCCESS, EFI_INVALID_PARAMETER, EFI_UNSUPPORTED, EFI_SECURITY_VIOLATION, EFI_BUFFER_TOO_SMALL} \<Longrightarrow>
   status AND EFI_ERROR_MASK = 0"
  by (auto simp: efi_codes EFI_ERROR_MASK_def)

text \<open>
  C10. With the \<open>EFI_ERROR\<close> of the UEFI specification, which tests the top bit, a failed verification counts as a success:
  whenever the check of an image that carries the flag \<open>HIK_FLAG_SIGNED\<close> comes to an end, with whatever key and result,
  \<open>BootMgrVerifyKernel\<close> reports that the signature has been verified and returns \<open>EFI_SUCCESS\<close>. In particular every
  such image is accepted with the key of zeros, the only one \<open>UefiMain\<close> uses, with which \<open>VerifyKernelImage\<close> refuses
  every image, as long as the structures lie inside the image and the signature names the algorithm and at most 512 bytes.
\<close>
theorem failed_verification_accepted:
  assumes "\<forall>st. err st \<longleftrightarrow> st AND EFI_ERROR_MASK \<noteq> 0"
    and "img_header img = Some buffer" "hdr_flags buffer = Ret flags" "flags AND HIK_FLAG_SIGNED \<noteq> 0"
    and "signature = drop (unat (img_signature img)) buffer"
  shows "(\<forall>status t. VerifyKernelImage junk buffer (img_size img) signature key s = Ret (status, t) \<longrightarrow>
      BootMgrVerifyKernel err junk img (Some key) s =
        Ret (EFI_SUCCESS, EfiPrintString ''Kernel signature verified successfully\<newline>'' t)) \<and>
    (junk_ok junk \<and> image_ok buffer (img_size img) signature \<longrightarrow>
      VerifyKernelImage junk buffer (img_size img) signature zero_key s = Ret (EFI_INVALID_PARAMETER, s) \<and>
      BootMgrVerifyKernel err junk img (Some zero_key) s =
        Ret (EFI_SUCCESS, EfiPrintString ''Kernel signature verified successfully\<newline>'' s))"
proof -
  have accepted: "BootMgrVerifyKernel err junk img (Some k) s =
      Ret (EFI_SUCCESS, EfiPrintString ''Kernel signature verified successfully\<newline>'' t)"
    if "VerifyKernelImage junk buffer (img_size img) signature k s = Ret (status, t)" for k status t
    using assms that statuses_lack_top_bit [of status] VerifyKernelImage_statuses [OF that]
    by (auto simp: BootMgrVerifyKernel_def)
  moreover have "VerifyKernelImage junk buffer (img_size img) signature zero_key s = Ret (EFI_INVALID_PARAMETER, s)"
    if "junk_ok junk \<and> image_ok buffer (img_size img) signature"
    using check_signature_eq [of junk buffer "img_size img" signature zero_key] that
    by (auto simp: VerifyKernelImage_eq zero_key_rejects)
  ultimately show ?thesis by blast
qed

theorem failed_verification_accepted_witness:
  "\<exists>buffer. buffer = replicate 12 0 @ [1, 0, 0, 0] @ replicate 104 0 @ [1, 0, 0, 0, 0, 0, 0, 0] \<and>
   (\<forall>s. BootMgrVerifyKernel (\<lambda>st. st AND EFI_ERROR_MASK \<noteq> 0) sample_junk
      (sample_kernel_image\<lparr>img_header := Some buffer, img_signature := 120\<rparr>) (Some zero_key) s =
      Ret (EFI_SUCCESS, EfiPrintString ''Kernel signature verified successfully\<newline>'' s))"
proof (intro exI conjI allI)
  let ?buffer = "replicate 12 0 @ [1, 0, 0, 0] @ replicate 104 0 @ [1, 0, 0, 0, 0, 0, 0, 0] :: bytes"
  let ?img = "sample_kernel_image\<lparr>img_header := Some ?buffer, img_signature := 120\<rparr>"
  fix s :: "'z uefi_state_scheme"
  have flags: "hdr_flags ?buffer = Ret 1" by (simp add: hdr_flags_def le_at_def le_value_def)
  have junk: "junk_ok sample_junk" by (simp add: junk_ok_def sample_junk_def sample_ctx_length)
  have "drop 120 ?buffer = [1, 0, 0, 0, 0, 0, 0, 0]" by simp
  then have "image_ok ?buffer (img_size ?img) (drop (unat (img_signature ?img)) ?buffer)"
    by (simp add: image_ok_def sample_kernel_image_def sig_algorithm_def sig_size_def le_at_def le_value_def)
  with junk flags show "BootMgrVerifyKernel (\<lambda>st. st AND EFI_ERROR_MASK \<noteq> 0) sample_junk ?img (Some zero_key) s =
      Ret (EFI_SUCCESS, EfiPrintString ''Kernel signature verified successfully\<newline>'' s)"
    using failed_verification_accepted [of "\<lambda>st. st AND EFI_ERROR_MASK \<noteq> 0" ?img ?buffer 1 _ sample_junk zero_key s]
    by (simp add: HIK_FLAG_SIGNED_def)
qed (rule refl)

end
