(* ===== verification/UefiUtil.thy ===== *)
theory UefiUtil
  imports UefiSecurity
begin

text \<open>
  The string functions of the UEFI loader (\<open>uefi/efi/string.c\<close>) and its utilities (\<open>uefi/util/util.c\<close>): strings of 16-bit
  and of 8-bit characters, alignment and bit counting, and the dumps on the console. Both kinds of characters are
  unsigned and their functions have the same text, so one definition for any width stands for both. An object ends
  before the address space does, so an index does not wrap.
\<close>

section \<open>Strings\<close>

definition wide :: "string \<Rightarrow> u16 list" where "wide s = map of_char s @ [0]"

function len_loop :: "nat \<Rightarrow> 'a::len word list \<Rightarrow> u64 outcome" where
  "len_loop n s = (if n < length s then if s ! n \<noteq> 0 then len_loop (Suc n) s else Ret (of_nat n) else Fault)"
  by pat_completeness auto
termination by (relation "measure (\<lambda>(n, s). length s - n)") auto

declare len_loop.simps [simp del]

function cmp_loop :: "nat \<Rightarrow> 'a::len word list \<Rightarrow> 'a word list \<Rightarrow> int outcome" where
  "cmp_loop i s t =
     (if i < length s \<and> i < length t
      then if s ! i \<noteq> 0 \<and> s ! i = t ! i then cmp_loop (Suc i) s t else Ret (uint (s ! i) - uint (t ! i))
      else Fault)"
  by pat_completeness auto
termination by (relation "measure (\<lambda>(i, s, t). length s - i)") auto

declare cmp_loop.simps [simp del]

text \<open>The copy of \<open>src\<close> from \<open>j\<close> on to \<open>dst\<close> from \<open>i\<close> on, with the terminator.\<close>

function cpy_loop :: "nat \<Rightarrow> nat \<Rightarrow> 'a::len word list \<Rightarrow> 'a word list \<Rightarrow> 'a word list outcome" where
  "cpy_loop i j dst src =
     (if j < length src \<and> i < length dst
      then if src ! j \<noteq> 0 then cpy_loop (Suc i) (Suc j) (dst[i := src ! j]) src else Ret (dst[i := 0])
      else Fault)"
  by pat_completeness auto
termination by (relation "measure (\<lambda>(i, j, dst, src). length src - j)") auto

declare cpy_loop.simps [simp del]

definition StrLen :: "u16 list \<Rightarrow> u64 outcome" where "StrLen s = len_loop 0 s"
definition StrCmp :: "u16 list \<Rightarrow> u16 list \<Rightarrow> int outcome" where "StrCmp s t = cmp_loop 0 s t"
definition StrCpy :: "u16 list \<Rightarrow> u16 list \<Rightarrow> u16 list outcome" where "StrCpy dst src = cpy_loop 0 0 dst src"

definition StrCat :: "u16 list \<Rightarrow> u16 list \<Rightarrow> u16 list outcome" where
  "StrCat dst src = bindR (StrLen dst) (\<lambda>n. cpy_loop (unat n) 0 dst src)"

definition StrSize :: "u16 list \<Rightarrow> u64 outcome" where
  "StrSize s = bindR (StrLen s) (\<lambda>n. Ret ((n + 1) * 2))"

definition AsciiStrLen :: "bytes \<Rightarrow> u64 outcome" where "AsciiStrLen s = len_loop 0 s"
definition AsciiStrCmp :: "bytes \<Rightarrow> bytes \<Rightarrow> int outcome" where "AsciiStrCmp s t = cmp_loop 0 s t"
definition AsciiStrCpy :: "bytes \<Rightarrow> bytes \<Rightarrow> bytes outcome" where "AsciiStrCpy dst src = cpy_loop 0 0 dst src"

definition AsciiStrCat :: "bytes \<Rightarrow> bytes \<Rightarrow> bytes outcome" where
  "AsciiStrCat dst src = bindR (AsciiStrLen dst) (\<lambda>n. cpy_loop (unat n) 0 dst src)"

definition MemCpy :: "bytes \<Rightarrow> bytes \<Rightarrow> u64 \<Rightarrow> bytes outcome" where
  "MemCpy dst src n = memcpy_loop (unat n) 0 dst src"

definition MemSet :: "bytes \<Rightarrow> u8 \<Rightarrow> u64 \<Rightarrow> bytes outcome" where
  "MemSet dst v n = memset_loop (unat n) 0 dst v"

definition MemCmp :: "bytes \<Rightarrow> bytes \<Rightarrow> u64 \<Rightarrow> int outcome" where
  "MemCmp a b n = memcmp_loop (unat n) 0 a b"

text \<open>A pointer to 16-bit characters read as one to bytes, and the other way round.\<close>

definition narrow_view :: "u16 list \<Rightarrow> bytes" where
  "narrow_view s = concat (map (\<lambda>c. [ucast c, ucast (drop_bit 8 c)]) s)"

fun wide_view :: "bytes \<Rightarrow> u16 list" where
  "wide_view (a # b # s) = (ucast a OR push_bit 8 (ucast b)) # wide_view s"
| "wide_view s = []"

text \<open>Output of a text that lies in memory: the firmware reads up to the terminator.\<close>

definition EfiPrintText :: "u16 list \<Rightarrow> 'z uefi_state_scheme \<Rightarrow> 'z uefi_state_scheme outcome" where
  "EfiPrintText s st =
     (if \<not> has_console st then Ret st
      else if 0 \<in> set s then Ret (con_put [OutputWide (takeWhile (\<lambda>c. c \<noteq> 0) s)] st) else Fault)"

section \<open>Alignment and bits\<close>

definition UtilAlignUp :: "u64 \<Rightarrow> u64 \<Rightarrow> u64" where "UtilAlignUp v a = (v + a - 1) AND NOT (a - 1)"
definition UtilAlignDown :: "u64 \<Rightarrow> u64 \<Rightarrow> u64" where "UtilAlignDown v a = v AND NOT (a - 1)"
definition UtilIsAligned :: "u64 \<Rightarrow> u64 \<Rightarrow> bool" where "UtilIsAligned v a \<longleftrightarrow> v AND (a - 1) = 0"

lemma shift_less: "v \<noteq> 0 \<Longrightarrow> unat (drop_bit (Suc 0) v :: 'a::len word) < unat v"
  by (simp add: drop_bit_eq_div unat_div unat_gt_0)

function count_loop :: "u64 \<Rightarrow> u64 \<Rightarrow> u64" where
  "count_loop v n = (if v \<noteq> 0 then count_loop (drop_bit 1 v) (n + (v AND 1)) else n)"
  by pat_completeness auto
termination by (relation "measure (\<lambda>(v, n). unat v)") (auto simp: shift_less)

definition UtilCountBits :: "u64 \<Rightarrow> u64" where "UtilCountBits v = count_loop v 0"

text \<open>\<open>while ((Value & 1) == 0)\<close> would not end for 0, which the caller has excluded.\<close>

function first_loop :: "u64 \<Rightarrow> u64 \<Rightarrow> u64 outcome" where
  "first_loop v i = (if v = 0 then Hang else if v AND 1 = 0 then first_loop (drop_bit 1 v) (i + 1) else Ret i)"
  by pat_completeness auto
termination by (relation "measure (\<lambda>(v, i). unat v)") (auto simp: shift_less)

definition UtilFindFirstSet :: "u64 \<Rightarrow> u64 outcome" where
  "UtilFindFirstSet v = (if v = 0 then Ret 64 else first_loop v 0)"

function last_loop :: "u64 \<Rightarrow> u64 \<Rightarrow> u64" where
  "last_loop v i = (if v \<noteq> 0 then last_loop (drop_bit 1 v) (i + 1) else i)"
  by pat_completeness auto
termination by (relation "measure (\<lambda>(v, i). unat v)") (auto simp: shift_less)

definition UtilFindLastSet :: "u64 \<Rightarrow> u64" where
  "UtilFindLastSet v = (if v = 0 then 64 else last_loop v 0 - 1)"

declare count_loop.simps [simp del] first_loop.simps [simp del] last_loop.simps [simp del]

text \<open>The number of turns of the busy wait.\<close>

definition UtilBusyWait :: "u64 \<Rightarrow> nat" where "UtilBusyWait n = unat n"

section \<open>Dumps\<close>

definition dump_cell :: "bytes \<Rightarrow> nat \<Rightarrow> nat \<Rightarrow> 'z uefi_state_scheme \<Rightarrow> 'z uefi_state_scheme outcome" where
  "dump_cell dat n k s =
     (if k < n
      then bindR (byte_at dat k) (\<lambda>b.
           let s = (if b < 0x10 then EfiPrintString ''0'' s else s) in
           Ret (EfiPrintString '' '' (EfiPrintHex (ucast b) s)))
      else Ret (EfiPrintString ''   '' s))"

definition dump_char :: "bytes \<Rightarrow> nat \<Rightarrow> 'z uefi_state_scheme \<Rightarrow> 'z uefi_state_scheme outcome" where
  "dump_char dat k s =
     bindR (byte_at dat k) (\<lambda>c.
     if 32 \<le> c \<and> c < 127 then EfiPrintText [ucast c, 0] s else Ret (EfiPrintString ''.'' s))"

function dump_rows :: "nat \<Rightarrow> bytes \<Rightarrow> nat \<Rightarrow> 'z uefi_state_scheme \<Rightarrow> 'z uefi_state_scheme outcome" where
  "dump_rows i dat n s =
     (if i < n
      then bindR (forR (\<lambda>j. dump_cell dat n (i + j)) [0..<16] (EfiPrintString '': '' (EfiPrintHex (of_nat i) s))) (\<lambda>s.
           bindR (forR (\<lambda>j. dump_char dat (i + j)) [0..<min 16 (n - i)] (EfiPrintString '' '' s)) (\<lambda>s.
           dump_rows (i + 16) dat n (EfiPrintString ''\<newline>'' s)))
      else Ret s)"
  by pat_completeness auto
termination by (relation "measure (\<lambda>(i, dat, n, s). n - i)") auto

declare dump_rows.simps [simp del]

definition UtilPrintHexDump :: "bytes \<Rightarrow> u64 \<Rightarrow> 'z uefi_state_scheme \<Rightarrow> 'z uefi_state_scheme outcome" where
  "UtilPrintHexDump dat n s = dump_rows 0 dat (unat n) s"

text \<open>
  \<open>cpuid\<close> gives \<open>eax\<close>, \<open>ebx\<close>, \<open>ecx\<close> and \<open>edx\<close> of a leaf. The registers of the vendor name are variables of 4 bytes, read
  as texts of 16-bit characters.
\<close>

type_synonym cpuid_env = "u32 \<Rightarrow> u32 \<times> u32 \<times> u32 \<times> u32"

definition reg_text :: "u32 \<Rightarrow> u16 list" where "reg_text r = [ucast r, ucast (drop_bit 16 r)]"

definition UtilPrintCpuInfo :: "cpuid_env \<Rightarrow> 'z uefi_state_scheme \<Rightarrow> 'z uefi_state_scheme outcome" where
  "UtilPrintCpuInfo cpuid s =
     (case cpuid 0 of (_, ebx, ecx, edx) \<Rightarrow>
      bindR (EfiPrintText (reg_text ebx) (EfiPrintString ''  Vendor ID: '' (EfiPrintString ''CPU Information:\<newline>'' s))) (\<lambda>s.
      bindR (EfiPrintText (reg_text edx) s) (\<lambda>s.
      bindR (EfiPrintText (reg_text ecx) s) (\<lambda>s.
      case cpuid 1 of (eax, _, _, edx) \<Rightarrow>
      let s = EfiPrintString ''  Family: '' (EfiPrintString ''\<newline>'' s);
          s = EfiPrintString ''\<newline>'' (EfiPrintHex (ucast (drop_bit 8 eax AND 0xF)) s);
          s = EfiPrintHex (ucast (drop_bit 4 eax AND 0xF)) (EfiPrintString ''  Model: '' s);
          s = EfiPrintHex (ucast (eax AND 0xF)) (EfiPrintString ''  Stepping: '' (EfiPrintString ''\<newline>'' s));
          s = EfiPrintString ''\<newline>'' s;
          s = (if bit edx 28 then EfiPrintString ''  Hyper-Threading: Enabled\<newline>'' s else s)
      in Ret (if bit edx 29 then EfiPrintString ''  Thermal Monitor: Enabled\<newline>'' s else s)))))"

section \<open>What the string functions compute\<close>

text \<open>The text before the terminator.\<close>

definition ztext :: "'a::len word list \<Rightarrow> 'a word list" where "ztext s = takeWhile (\<lambda>c. c \<noteq> 0) s"

lemma of_char_zero_iff: "(of_char c :: u16) = 0 \<longleftrightarrow> c = CHR 0x00"
proof -
  have "of_char c mod (65536 :: nat) = of_char c" using nat_of_char_less_256 [of c] by (intro mod_less) (erule less_trans, simp)
  then have "unat (of_char c :: u16) = of_char c"
    using unat_of_nat [where ?'a = 16, of "of_char c"] by (simp add: take_bit_eq_mod of_nat_of_char)
  then have "(of_char c :: u16) = 0 \<longleftrightarrow> (of_char c :: nat) = 0" by (simp only: unat_eq_zero [symmetric])
  also have "\<dots> \<longleftrightarrow> c = CHR 0x00" using of_char_eq_iff [of c "CHR 0x00", where ?'a = nat] by simp
  finally show ?thesis .
qed

lemma ztext_wide [simp]: "CHR 0x00 \<notin> set s \<Longrightarrow> ztext (wide s) = map of_char s"
  by (induction s) (auto simp: ztext_def wide_def of_char_zero_iff)

lemma ztext_split: "0 \<in> set s \<Longrightarrow> \<exists>r. s = ztext s @ 0 # r"
  unfolding ztext_def by (induction s) auto

lemma ztext_nth: "j < length (ztext s) \<Longrightarrow> s ! j \<noteq> 0"
  unfolding ztext_def by (metis (full_types) nth_mem set_takeWhileD takeWhile_nth)

lemma ztext_end: "0 \<in> set s \<Longrightarrow> length (ztext s) < length s \<and> s ! length (ztext s) = 0"
  using ztext_split [of s] by (metis length_append length_Cons less_add_same_cancel1 nth_append_length zero_less_Suc)

lemma len_loop_eq: "0 \<in> set s \<Longrightarrow> n \<le> length (ztext s) \<Longrightarrow> len_loop n s = Ret (of_nat (length (ztext s)))"
proof (induction "length (ztext s) - n" arbitrary: n)
  case 0
  then have "n = length (ztext s)" by simp
  with ztext_end [OF 0(2)] show ?case by (simp add: len_loop.simps)
next
  case (Suc d)
  then have n: "n < length (ztext s)" by simp
  from n have "s ! n \<noteq> 0" by (rule ztext_nth)
  moreover have "len_loop (Suc n) s = Ret (of_nat (length (ztext s)))" by (rule Suc.hyps(1)) (use Suc n in auto)
  moreover have "n < length s" using n ztext_end [OF Suc.prems(1)] by simp
  ultimately show ?case by (simp add: len_loop.simps [of n])
qed

lemma cmp_loop_append:
  "s ! i = t ! i \<Longrightarrow> s ! i \<noteq> 0 \<Longrightarrow> i < length s \<Longrightarrow> i < length t \<Longrightarrow> cmp_loop i s t = cmp_loop (Suc i) s t"
  by (simp add: cmp_loop.simps [of i s t])

lemma cmp_loop_drop: "cmp_loop i s t = cmp_loop 0 (drop i s) (drop i t)" if "i \<le> length s" "i \<le> length t"
proof -
  have "cmp_loop (i + k) s t = cmp_loop k (drop i s) (drop i t)" for k
  proof (induction "length s - k" arbitrary: k)
    case 0
    then show ?case using that by (subst (1 2) cmp_loop.simps) auto
  next
    case (Suc d)
    have "cmp_loop (i + Suc k) s t = cmp_loop (Suc k) (drop i s) (drop i t)" by (rule Suc.hyps(1)) (use Suc in simp)
    then show ?case using that by (subst (1 2) cmp_loop.simps) auto
  qed
  from this [of 0] show ?thesis by simp
qed

lemma cmp_loop_zero_iff:
  "0 \<in> set s \<Longrightarrow> 0 \<in> set t \<Longrightarrow> \<exists>d. cmp_loop 0 s t = Ret d \<and> (d = 0 \<longleftrightarrow> ztext s = ztext t)"
proof (induction s arbitrary: t)
  case (Cons a s)
  then obtain b u where t: "t = b # u" by (cases t) auto
  show ?case
  proof (cases "a \<noteq> 0 \<and> a = b")
    case True
    then have "cmp_loop 0 (a # s) t = cmp_loop 0 s u"
      using cmp_loop_append [of "a # s" 0 t] cmp_loop_drop [of "Suc 0" "a # s" t] by (auto simp: t)
    moreover have "0 \<in> set s" "0 \<in> set u" "ztext (a # s) = a # ztext s" "ztext t = a # ztext u"
      using True Cons.prems by (auto simp: t ztext_def)
    ultimately show ?thesis using Cons.IH [of u] by simp
  next
    case False
    then have "cmp_loop 0 (a # s) t = Ret (uint a - uint b)" by (subst cmp_loop.simps) (auto simp: t)
    moreover have "uint a - uint b = 0 \<longleftrightarrow> a = b" by (metis eq_iff_diff_eq_0 word_uint_eq_iff)
    moreover have "ztext (a # s) = ztext t \<longleftrightarrow> a = b" using False by (auto simp: t ztext_def)
    ultimately show ?thesis by blast
  qed
qed simp

lemma cpy_loop_eq:
  "0 \<in> set src \<Longrightarrow> j \<le> length (ztext src) \<Longrightarrow> i + (length (ztext src) - j) < length dst \<Longrightarrow>
   cpy_loop i j dst src = Ret (take i dst @ drop j (ztext src) @ 0 # drop (i + (length (ztext src) - j) + 1) dst)"
proof (induction "length (ztext src) - j" arbitrary: i j dst)
  case 0
  then have "j = length (ztext src)" by simp
  with ztext_end [OF 0(2)] 0 show ?case by (simp add: cpy_loop.simps upd_conv_take_nth_drop)
next
  case (Suc d)
  then have j: "j < length (ztext src)" by simp
  then have c: "src ! j \<noteq> 0" "ztext src ! j = src ! j" "j < length src"
    using ztext_nth [OF j] ztext_end [OF Suc.prems(1)] by (simp_all add: ztext_def takeWhile_nth)
  have "cpy_loop (Suc i) (Suc j) (dst[i := src ! j]) src =
      Ret (take (Suc i) (dst[i := src ! j]) @ drop (Suc j) (ztext src) @
        0 # drop (Suc i + (length (ztext src) - Suc j) + 1) (dst[i := src ! j]))"
    by (rule Suc.hyps(1)) (use Suc.hyps(2) Suc.prems j in auto)
  moreover have "take (Suc i) (dst[i := src ! j]) = take i dst @ [src ! j]"
    using Suc.prems(3) by (simp add: take_Suc_conv_app_nth)
  moreover have "drop j (ztext src) = src ! j # drop (Suc j) (ztext src)" using j c(2) by (metis Cons_nth_drop_Suc)
  moreover have "cpy_loop i j dst src = cpy_loop (Suc i) (Suc j) (dst[i := src ! j]) src"
    using c j Suc.prems by (subst cpy_loop.simps) auto
  moreover have "Suc i + (length (ztext src) - Suc j) + 1 = i + (length (ztext src) - j) + 1" using j by simp
  moreover have "drop m (dst[i := c]) = drop m dst" if "i < m" for m c using that by simp
  ultimately show ?case using j by (simp only: append_assoc append_Cons append_Nil)
qed

text \<open>A destination that is too small is written past its end.\<close>

lemma cpy_loop_overrun:
  "0 \<in> set src \<Longrightarrow> j \<le> length (ztext src) \<Longrightarrow> length dst \<le> i + (length (ztext src) - j) \<Longrightarrow> cpy_loop i j dst src = Fault"
proof (induction "length (ztext src) - j" arbitrary: i j dst)
  case 0
  then show ?case by (subst cpy_loop.simps) auto
next
  case (Suc d)
  then have j: "j < length (ztext src)" by simp
  have "src ! j \<noteq> 0" using ztext_nth [OF j] .
  moreover have "cpy_loop (Suc i) (Suc j) (dst[i := src ! j]) src = Fault"
    by (rule Suc.hyps(1)) (use Suc.hyps(2) Suc.prems j in auto)
  ultimately show ?case by (subst cpy_loop.simps) auto
qed

lemma StrLen_eq: "0 \<in> set s \<Longrightarrow> StrLen s = Ret (of_nat (length (ztext s)))"
  by (simp add: StrLen_def len_loop_eq)

lemma AsciiStrLen_eq: "0 \<in> set s \<Longrightarrow> AsciiStrLen s = Ret (of_nat (length (ztext s)))"
  by (simp add: AsciiStrLen_def len_loop_eq)

lemma StrCmp_zero_iff: "0 \<in> set s \<Longrightarrow> 0 \<in> set t \<Longrightarrow> \<exists>d. StrCmp s t = Ret d \<and> (d = 0 \<longleftrightarrow> ztext s = ztext t)"
  unfolding StrCmp_def by (rule cmp_loop_zero_iff)

lemma StrCpy_outcome: "0 \<in> set src \<Longrightarrow> StrCpy dst src =
  (if length (ztext src) < length dst then Ret (ztext src @ 0 # drop (length (ztext src) + 1) dst) else Fault)"
  using cpy_loop_eq [of src 0 0 dst] cpy_loop_overrun [of src 0 dst 0] by (simp add: StrCpy_def)

lemma StrCat_outcome:
  assumes "0 \<in> set src" "0 \<in> set dst" "length dst < 2 ^ 64"
  shows "StrCat dst src = (let n = length (ztext dst) + length (ztext src) in
    if n < length dst then Ret (ztext dst @ ztext src @ 0 # drop (n + 1) dst) else Fault)"
proof -
  have "length (ztext dst) < 2 ^ 64" using ztext_end [OF assms(2)] assms(3) by simp
  then have "unat (of_nat (length (ztext dst)) :: u64) = length (ztext dst)" by (simp add: unat_of_nat take_bit_eq_mod)
  moreover have "take (length (ztext dst)) dst = ztext dst"
    using ztext_split [OF assms(2)] by (metis append_eq_conv_conj)
  ultimately show ?thesis
    using cpy_loop_eq [of src 0 "length (ztext dst)" dst] cpy_loop_overrun [of src 0 dst "length (ztext dst)"] assms(1)
    by (auto simp: StrCat_def StrLen_eq assms(2) Let_def not_less)
qed

section \<open>What the bit functions compute\<close>

lemma bits_finite [simp]: "finite {i. bit (v :: 'a::len word) i}"
  by (rule finite_subset [of _ "{..<LENGTH('a)}"]) (auto dest: bit_imp_le_length)

lemma bits_empty: "{i. bit (v :: 'a::len word) i} = {} \<longleftrightarrow> v = 0"
  by (metis bit_eq_iff bit_0_eq bot_apply bot_bool_def empty_Collect_eq)

lemma bits_shift: "{i. bit v i} = (if v AND 1 = 0 then {} else {0}) \<union> Suc ` {i. bit (drop_bit (Suc 0) (v :: 'a::len word)) i}"
proof -
  have "v AND 1 = 0 \<longleftrightarrow> \<not> bit v 0" by (simp add: and_one_eq even_iff_mod_2_eq_zero [symmetric] bit_0)
  then show ?thesis
    by (auto simp: bit_drop_bit_eq image_iff) (metis not0_implies_Suc)+
qed

lemma count_loop_eq: "count_loop v n = n + of_nat (card {i. bit v i})"
proof (induction v n rule: count_loop.induct)
  case (1 v n)
  show ?case
  proof (cases "v = 0")
    case True
    then show ?thesis by (simp add: count_loop.simps)
  next
    case False
    let ?S = "{i. bit (drop_bit (Suc 0) v) i}"
    have "card {i. bit v i} = (if v AND 1 = 0 then 0 else 1) + card ?S"
      unfolding bits_shift [of v] by (subst card_Un_disjoint) (auto simp: card_image)
    moreover have "v AND 1 = (if v AND 1 = 0 then 0 else 1)" by (simp add: and_one_eq)
    moreover have "count_loop v n = n + (v AND 1) + of_nat (card ?S)"
      using 1 False by (simp add: count_loop.simps [of v])
    ultimately show ?thesis by (simp split: if_splits)
  qed
qed

lemma first_loop_eq: "v \<noteq> 0 \<Longrightarrow> first_loop v i = Ret (i + of_nat (Min {i. bit v i}))"
proof (induction v i rule: first_loop.induct)
  case (1 v i)
  let ?S = "{i. bit (drop_bit (Suc 0) v) i}"
  show ?case
  proof (cases "v AND 1 = 0")
    case True
    have "?S \<noteq> {}" using True "1.prems" bits_shift [of v] bits_empty [of v] by auto
    then have "drop_bit (Suc 0) v \<noteq> 0" "Min (Suc ` ?S) = Suc (Min ?S)"
      using bits_empty [of "drop_bit (Suc 0) v"] by (auto intro!: mono_Min_commute [symmetric] monoI)
    then show ?thesis using 1 True by (simp add: first_loop.simps [of v] bits_shift [of v])
  next
    case False
    then have "Min {i. bit v i} = 0" unfolding bits_shift [of v] by (intro Min_eqI) auto
    with False "1.prems" show ?thesis by (simp add: first_loop.simps [of v])
  qed
qed

lemma last_loop_eq: "v \<noteq> 0 \<Longrightarrow> last_loop v i = i + of_nat (Max {i. bit v i}) + 1"
proof (induction v i rule: last_loop.induct)
  case (1 v i)
  let ?S = "{i. bit (drop_bit (Suc 0) v) i}"
  show ?case
  proof (cases "drop_bit (Suc 0) v = 0")
    case True
    then have "{i. bit v i} = {0}" using bits_shift [of v] bits_empty [of v] "1.prems" by auto
    with True "1.prems" show ?thesis by (simp add: last_loop.simps)
  next
    case False
    then have S: "?S \<noteq> {}" using bits_empty [of "drop_bit (Suc 0) v"] by simp
    then have "Max {i. bit v i} = Max (Suc ` ?S)"
      using Max_Un [of "{0}" "Suc ` ?S"] unfolding bits_shift [of v] by simp
    also have "\<dots> = Suc (Max ?S)" using S by (auto intro!: mono_Max_commute [symmetric] monoI)
    finally show ?thesis using 1 False by (simp add: last_loop.simps [of v])
  qed
qed

lemma and_not_mask_unat: "unat (v AND NOT (mask k) :: 'a::len word) = unat v div 2 ^ k * 2 ^ k"
proof -
  have eq: "v AND NOT (mask k) = push_bit k (drop_bit k v)" by (rule bit_word_eqI) (auto simp: bit_simps)
  have "unat (v AND NOT (mask k)) = take_bit LENGTH('a) (unat v div 2 ^ k * 2 ^ k)"
    
    unfolding eq unsigned_push_bit_eq unsigned_drop_bit_eq
    by (simp only: take_bit_nat_eq_self [OF unsigned_less] push_bit_eq_mult drop_bit_eq_div)
  moreover have "unat v div 2 ^ k * 2 ^ k < 2 ^ LENGTH('a)"
    using div_times_less_eq_dividend [of "unat v" "2 ^ k"] unsigned_less [of v, where ?'a = nat] by (meson le_less_trans)
  ultimately show ?thesis by (simp add: take_bit_nat_eq_self)
qed

lemma align_mask: "k < 64 \<Longrightarrow> (2 ^ k :: u64) - 1 = mask k"
  by (simp add: mask_eq_decr_exp)

text \<open>Rounding up in 64 bits: the multiple at or above the value, which wraps to 0.\<close>

lemma UtilAlignUp_unat:
  assumes "k < 64"
  shows "unat (UtilAlignUp v (2 ^ k)) = ((unat v + 2 ^ k - 1) div 2 ^ k * 2 ^ k) mod 2 ^ 64"
proof -
  let ?a = "2 ^ k :: nat" and ?m = "unat v"
  have a: "0 < ?a" "?a dvd 2 ^ 64" using le_imp_power_dvd [of k 64 "2 :: nat"] assms by simp_all
  have m: "?m < 2 ^ 64" using unsigned_less [of v, where ?'a = nat] by simp
  have "of_nat (?m + ?a - 1) = (of_nat (?m + ?a) - of_nat 1 :: u64)" by (intro of_nat_diff) (use a(1) in linarith)
  then have "v + 2 ^ k - 1 = of_nat (?m + ?a - 1)" by simp
  then have sum: "unat (v + 2 ^ k - 1) = (?m + ?a - 1) mod 2 ^ 64" by (simp add: unat_of_nat take_bit_eq_mod)
  have up: "unat (UtilAlignUp v (2 ^ k)) = (?m + ?a - 1) mod 2 ^ 64 div ?a * ?a"
    unfolding UtilAlignUp_def align_mask [OF assms] and_not_mask_unat sum ..
  obtain q where q: "(2 :: nat) ^ 64 = ?a * q" using a(2) by (elim dvdE)
  have "x mod 2 ^ 64 div ?a * ?a = (x div ?a * ?a) mod 2 ^ 64" for x :: nat
  proof -
    have "x mod (?a * q) div ?a = x div ?a mod q" by (simp add: mod_mult2_eq)
    then have "x mod (?a * q) div ?a * ?a = (x div ?a mod q) * ?a" by (simp only:)
    also have "\<dots> = (x div ?a * ?a) mod (q * ?a)" by (rule mod_mult_mult2 [symmetric])
    finally show ?thesis unfolding q by (simp only: mult.commute [of ?a q])
  qed
  then show ?thesis using up by simp
qed

section \<open>What the dumps need\<close>

text \<open>The dump of an object that lies in memory completes, and only adds to the console.\<close>

lemma con_put_log: "has_console (con_put es s) = has_console s \<and> (\<exists>w. con_log (con_put es s) = con_log s @ w)"
  by (auto simp: con_put_def)

lemma hex_dump_completes: "n \<le> length dat \<Longrightarrow> \<exists>t. dump_rows i dat n s = Ret t"
proof (induction i dat n s rule: dump_rows.induct)
  case (1 i dat n s)
  have total: "\<exists>t. forR body xs s = Ret t" if "\<And>x s. x \<in> set xs \<Longrightarrow> \<exists>t. body x s = Ret t"
    for body :: "nat \<Rightarrow> 'a uefi_state_scheme \<Rightarrow> _" and xs s
    using that
  proof (induction xs arbitrary: s)
    case (Cons x xs)
    obtain u where "body x s = Ret u" using Cons.prems [of x s] by auto
    with Cons show ?case by simp
  qed simp
  have cells: "\<exists>t. dump_cell dat n (i + j) s = Ret t" for j and s :: "'a uefi_state_scheme"
    using "1.prems" by (simp add: dump_cell_def Let_def)
  have chars: "\<exists>t. dump_char dat (i + j) s = Ret t" if "j \<in> set [0..<min 16 (n - i)]" for j and s :: "'a uefi_state_scheme"
    using "1.prems" that by (auto simp: dump_char_def EfiPrintText_def)
  show ?case
  proof (cases "i < n")
    case True
    obtain u where u: "forR (\<lambda>j. dump_cell dat n (i + j)) [0..<16] (EfiPrintString '': '' (EfiPrintHex (of_nat i) s)) = Ret u"
      using total [of "[0..<16]" "\<lambda>j. dump_cell dat n (i + j)"] cells by blast
    obtain v where v: "forR (\<lambda>j. dump_char dat (i + j)) [0..<min 16 (n - i)] (EfiPrintString '' '' u) = Ret v"
      using total [of "[0..<min 16 (n - i)]" "\<lambda>j. dump_char dat (i + j)"] chars by blast
    show ?thesis
      using True "1.IH" [OF True u v "1.prems"] by (simp only: dump_rows.simps [of i] u v if_True bindR.simps)
  qed (simp add: dump_rows.simps [of i])
qed

text \<open>
  A vendor name without a zero character of 16 bits, such as that of every processor, has no terminator inside its
  register: the first output reads past the variable.
\<close>

lemma cpu_info_reads_past:
  assumes "has_console s" "cpuid 0 = (eax, ebx, ecx, edx)" "0 \<notin> set (reg_text ebx)"
  shows "UtilPrintCpuInfo cpuid s = Fault"
  using assms by (simp add: UtilPrintCpuInfo_def EfiPrintText_def EfiPrintString_def con_put_def)

section \<open>Properties\<close>

text \<open>
  The bit functions of the UEFI loader against the set of the bits of a value: \<open>UtilCountBits\<close> is its size,
  \<open>UtilFindFirstSet\<close> its least and \<open>UtilFindLastSet\<close> its greatest element, both 64 for 0; each returns for every value.
\<close>
theorem util_bit_functions:
  "UtilCountBits v = of_nat (card {i. bit v i}) \<and>
   UtilFindFirstSet v = Ret (of_nat (if v = 0 then 64 else Min {i. bit v i})) \<and>
   UtilFindLastSet v = of_nat (if v = 0 then 64 else Max {i. bit v i})"
  using first_loop_eq [of v 0] last_loop_eq [of v 0]
  by (simp add: UtilCountBits_def count_loop_eq UtilFindFirstSet_def UtilFindLastSet_def)

text \<open>
  Alignment to a power of two: \<open>UtilAlignDown\<close> is the greatest multiple that is not above the value,
  \<open>UtilIsAligned\<close> tells the multiples, and \<open>UtilAlignUp\<close> is the least multiple that is not below the value if it fits
  in 64 bits and 0 if it does not.
\<close>
theorem util_alignment:
  assumes "k < 64"
  shows "unat (UtilAlignDown v (2 ^ k)) = unat v div 2 ^ k * 2 ^ k \<and>
    (UtilIsAligned v (2 ^ k) \<longleftrightarrow> 2 ^ k dvd unat v) \<and>
    (let up = (LEAST m. unat v \<le> m \<and> 2 ^ k dvd m) in
     unat (UtilAlignUp v (2 ^ k)) = (if up < 2 ^ 64 then up else 0) \<and> up \<le> 2 ^ 64)"
proof -
  let ?a = "2 ^ k :: nat" and ?m = "unat v" and ?u = "(unat v + 2 ^ k - 1) div 2 ^ k * 2 ^ k"
  have a: "0 < ?a" "?a dvd 2 ^ 64" using le_imp_power_dvd [of k 64 "2 :: nat"] assms by simp_all
  have "?m \<le> ?u" using div_mult_mod_eq [of "?m + ?a - 1" ?a] mod_less_divisor [OF a(1), of "?m + ?a - 1"] by linarith
  moreover have "?u \<le> m" if m: "?m \<le> m" "?a dvd m" for m
  proof -
    obtain q where q: "m = ?a * q" using m(2) by (elim dvdE)
    have "(?m + ?a - 1) div ?a < q + 1" 
      using m(1) a(1) unfolding q by (subst div_less_iff_less_mult [OF a(1)], simp only: add_mult_distrib mult.commute [of ?a q])
    then show ?thesis by (simp add: q)
  qed
  ultimately have least: "(LEAST m. ?m \<le> m \<and> ?a dvd m) = ?u" by (intro Least_equality) auto
  have "?m \<le> 2 ^ 64" using unsigned_less [of v, where ?'a = nat] by simp
  then have "?u \<le> 2 ^ 64" using \<open>\<And>m. ?m \<le> m \<Longrightarrow> ?a dvd m \<Longrightarrow> ?u \<le> m\<close> a(2) by blast
  then have "?u mod 2 ^ 64 = (if ?u < 2 ^ 64 then ?u else 0)" by (cases "?u < 2 ^ 64") simp_all
  moreover have "UtilIsAligned v (2 ^ k) \<longleftrightarrow> ?a dvd ?m"
    unfolding UtilIsAligned_def align_mask [OF assms] unat_eq_zero [symmetric] unat_and_mask by (simp add: dvd_eq_mod_eq_0)
  ultimately show ?thesis
    unfolding least Let_def UtilAlignUp_unat [OF assms]
    using \<open>?u \<le> 2 ^ 64\<close> by (simp only: UtilAlignDown_def align_mask [OF assms] and_not_mask_unat simp_thms)
qed

theorem util_alignment_witness: "unat (UtilAlignUp 0x101 (2 ^ 4)) = 0x110 \<and> UtilIsAligned 0x30 (2 ^ 4)"
proof -
  have "(LEAST m :: nat. 0x101 \<le> m \<and> 16 dvd m) = 0x110"
  proof (rule Least_equality)
    fix y :: nat assume "0x101 \<le> y \<and> 16 dvd y"
    then show "0x110 \<le> y" by presburger
  qed simp
  then have up: "(LEAST m. unat (0x101 :: u64) \<le> m \<and> 2 ^ 4 dvd m) = 0x110" by simp
  show ?thesis using util_alignment [of 4 "0x101"] util_alignment [of 4 "0x30"] unfolding up Let_def by simp
qed

end
