(* ===== verification/UefiFirmware.thy ===== *)
theory UefiFirmware
  imports UefiUtil
begin

text \<open>
  The firmware as the UEFI loader sees it, and the layer of the loader above its file protocol (\<open>uefi/fs/volume.c\<close>),
  the start of \<open>uefi/efi/efi.c\<close> and the secure boot query of \<open>uefi/security/verify.c\<close>. The firmware is a parameter:
  a record of its functions on a state of their own, the world. A pointer or handle of the firmware is a number, 0 is
  \<open>NULL\<close>, and using \<open>NULL\<close> is a fault. What a call stores through pointers is returned.
\<close>

section \<open>The firmware\<close>

definition EFI_NOT_FOUND :: efi_status where "EFI_NOT_FOUND = 0xE"
definition EFI_OUT_OF_RESOURCES :: efi_status where "EFI_OUT_OF_RESOURCES = 9"

text \<open>What the loader reads of \<open>EFI_FILE_INFO\<close>, a type of the firmware.\<close>

record file_info =
  fi_size :: u64
  fi_attribute :: u64
  fi_name :: "u16 list"

text \<open>
  \<open>fw_error\<close> is \<open>EFI_ERROR\<close>. An allocation gives the address and the content of the block; a read gives the number
  stored in the size variable and the bytes put into the buffer. The flags of \<open>fw_get_memory_map\<close> tell whether the
  buffer and the variables for the descriptors are given, its number is the size of the buffer if one is.
\<close>

record 'w firmware =
  fw_error :: "efi_status \<Rightarrow> bool"
  fw_set_watchdog :: "'w \<Rightarrow> 'w"
  fw_stall :: "u64 \<Rightarrow> 'w \<Rightarrow> 'w"
  fw_open_protocol :: "u64 \<Rightarrow> 'w \<Rightarrow> (efi_status \<times> u64) \<times> 'w"
  fw_close_protocol :: "u64 \<Rightarrow> 'w \<Rightarrow> efi_status \<times> 'w"
  fw_open_volume :: "u64 \<Rightarrow> 'w \<Rightarrow> (efi_status \<times> u64) \<times> 'w"
  fw_file_open :: "u64 \<Rightarrow> u16 list \<Rightarrow> 'w \<Rightarrow> (efi_status \<times> u64) \<times> 'w"
  fw_file_close :: "u64 \<Rightarrow> 'w \<Rightarrow> efi_status \<times> 'w"
  fw_file_read :: "u64 \<Rightarrow> u64 \<Rightarrow> 'w \<Rightarrow> (efi_status \<times> u64 \<times> bytes) \<times> 'w"
  fw_file_write :: "u64 \<Rightarrow> bytes \<Rightarrow> 'w \<Rightarrow> (efi_status \<times> u64) \<times> 'w"
  fw_dir_read :: "u64 \<Rightarrow> u64 \<Rightarrow> 'w \<Rightarrow> (efi_status \<times> u64 \<times> file_info) \<times> 'w"
  fw_get_info :: "u64 \<Rightarrow> bool \<Rightarrow> u64 \<Rightarrow> 'w \<Rightarrow> (efi_status \<times> u64 \<times> file_info) \<times> 'w"
  fw_set_position :: "u64 \<Rightarrow> u64 \<Rightarrow> 'w \<Rightarrow> efi_status \<times> 'w"
  fw_alloc_pool :: "u64 \<Rightarrow> 'w \<Rightarrow> (efi_status \<times> u64 \<times> bytes) \<times> 'w"
  fw_free_pool :: "u64 \<Rightarrow> 'w \<Rightarrow> 'w"
  fw_alloc_pages :: "u64 \<Rightarrow> 'w \<Rightarrow> (efi_status \<times> u64 \<times> bytes) \<times> 'w"
  fw_free_pages :: "u64 \<Rightarrow> u64 \<Rightarrow> 'w \<Rightarrow> 'w"
  fw_get_memory_map :: "u64 option \<Rightarrow> bool \<Rightarrow> bool \<Rightarrow> 'w \<Rightarrow> (efi_status \<times> u64 \<times> u64 \<times> u64 \<times> u32 \<times> bytes) \<times> 'w"
  fw_exit_boot :: "u64 \<Rightarrow> u64 \<Rightarrow> 'w \<Rightarrow> efi_status \<times> 'w"
  fw_read_key :: "'w \<Rightarrow> (efi_status \<times> u16 \<times> u16) \<times> 'w"
  fw_get_variable :: "string \<Rightarrow> bool \<Rightarrow> u64 \<Rightarrow> 'w \<Rightarrow> (efi_status \<times> u64 \<times> bytes) \<times> 'w"
  fw_table_count :: "'w \<Rightarrow> u64"
  fw_table_addr :: "'w \<Rightarrow> u64"
  fw_memory :: "'w \<Rightarrow> u64 \<Rightarrow> u8"

record 'w uefi_run = uefi_state +
  world :: 'w
  gImageHandle :: u64

definition call :: "('w \<Rightarrow> 'a \<times> 'w) \<Rightarrow> ('w, 'z) uefi_run_scheme \<Rightarrow> 'a \<times> ('w, 'z) uefi_run_scheme" where
  "call f s = (case f (world s) of (r, w) \<Rightarrow> (r, s\<lparr>world := w\<rparr>))"

definition tell :: "('w \<Rightarrow> 'w) \<Rightarrow> ('w, 'z) uefi_run_scheme \<Rightarrow> ('w, 'z) uefi_run_scheme" where
  "tell f s = s\<lparr>world := f (world s)\<rparr>"

text \<open>The table of the system is known only by whether it has a console.\<close>

definition EfiInitialize :: "'w firmware \<Rightarrow> bool \<Rightarrow> ('w, 'z) uefi_run_scheme \<Rightarrow> ('w, 'z) uefi_run_scheme" where
  "EfiInitialize fw con s = tell (fw_set_watchdog fw) (s\<lparr>has_console := con\<rparr>)"

definition UtilDelay :: "'w firmware \<Rightarrow> u64 \<Rightarrow> ('w, 'z) uefi_run_scheme \<Rightarrow> ('w, 'z) uefi_run_scheme" where
  "UtilDelay fw n s = tell (fw_stall fw n) s"

section \<open>Volumes and files\<close>

record efi_volume =
  vol_device :: u64
  vol_fs :: u64
  vol_root :: u64

definition FsOpenVolume ::
  "'w firmware \<Rightarrow> u64 \<Rightarrow> efi_volume \<Rightarrow> ('w, 'z) uefi_run_scheme \<Rightarrow>
   (efi_status \<times> efi_volume \<times> ('w, 'z) uefi_run_scheme) outcome" where
  "FsOpenVolume fw dev v s =
     (case call (fw_open_protocol fw dev) s of ((st, fs), s) \<Rightarrow>
      let v = v\<lparr>vol_device := dev, vol_fs := fs\<rparr> in
      if fw_error fw st then Ret (st, v, s)
      else if fs = 0 then Fault
      else case call (fw_open_volume fw fs) s of ((st, root), s) \<Rightarrow> Ret (st, v\<lparr>vol_root := root\<rparr>, s))"

definition FsCloseVolume ::
  "'w firmware \<Rightarrow> efi_volume \<Rightarrow> ('w, 'z) uefi_run_scheme \<Rightarrow> efi_status \<times> efi_volume \<times> ('w, 'z) uefi_run_scheme" where
  "FsCloseVolume fw v s =
     (case (if vol_root v \<noteq> 0 then call (fw_file_close fw (vol_root v)) s else (EFI_SUCCESS, s)) of (st, s) \<Rightarrow>
      if vol_root v \<noteq> 0 \<and> fw_error fw st then (st, v, s)
      else let v = v\<lparr>vol_root := 0\<rparr> in
      case (if vol_fs v \<noteq> 0 then call (fw_close_protocol fw (vol_device v)) s else (EFI_SUCCESS, s)) of (st, s) \<Rightarrow>
      if vol_fs v \<noteq> 0 \<and> fw_error fw st then (st, v, s)
      else (EFI_SUCCESS, v\<lparr>vol_fs := 0\<rparr>, s))"

definition FsOpenFile ::
  "'w firmware \<Rightarrow> efi_volume \<Rightarrow> u16 list \<Rightarrow> ('w, 'z) uefi_run_scheme \<Rightarrow>
   (efi_status \<times> u64 \<times> ('w, 'z) uefi_run_scheme) outcome" where
  "FsOpenFile fw v str s =
     (if vol_root v = 0 \<or> 0 \<notin> set str then Fault
      else case call (fw_file_open fw (vol_root v) (ztext str)) s of ((st, file), s) \<Rightarrow> Ret (st, file, s))"

definition FsCloseFile ::
  "'w firmware \<Rightarrow> u64 \<Rightarrow> ('w, 'z) uefi_run_scheme \<Rightarrow> efi_status \<times> ('w, 'z) uefi_run_scheme" where
  "FsCloseFile fw file s = (if file \<noteq> 0 then call (fw_file_close fw file) s else (EFI_SUCCESS, s))"

definition FsReadFile ::
  "'w firmware \<Rightarrow> u64 \<Rightarrow> bytes \<Rightarrow> u64 \<Rightarrow> ('w, 'z) uefi_run_scheme \<Rightarrow>
   (efi_status \<times> u64 \<times> bytes \<times> ('w, 'z) uefi_run_scheme) outcome" where
  "FsReadFile fw file buf sz s =
     (if file = 0 then Fault
      else case call (fw_file_read fw file sz) s of ((st, n, bs), s) \<Rightarrow>
      bindR (memcpy_at (length bs) 0 0 buf bs) (\<lambda>buf. Ret (st, n, buf, s)))"

definition FsWriteFile ::
  "'w firmware \<Rightarrow> u64 \<Rightarrow> bytes \<Rightarrow> u64 \<Rightarrow> ('w, 'z) uefi_run_scheme \<Rightarrow>
   (efi_status \<times> u64 \<times> ('w, 'z) uefi_run_scheme) outcome" where
  "FsWriteFile fw file buf sz s =
     (if file = 0 \<or> length buf < unat sz then Fault
      else case call (fw_file_write fw file (take (unat sz) buf)) s of ((st, n), s) \<Rightarrow> Ret (st, n, s))"

text \<open>\<open>sz\<close> is what the variable of the caller holds before the call.\<close>

definition FsGetFileSize ::
  "'w firmware \<Rightarrow> u64 \<Rightarrow> u64 \<Rightarrow> ('w, 'z) uefi_run_scheme \<Rightarrow>
   (efi_status \<times> u64 \<times> ('w, 'z) uefi_run_scheme) outcome" where
  "FsGetFileSize fw file sz s =
     (if file = 0 then Fault
      else case call (fw_get_info fw file False 0) s of ((st, n, _), s) \<Rightarrow>
      if st \<noteq> EFI_BUFFER_TOO_SMALL then Ret (st, sz, s)
      else case call (fw_alloc_pool fw n) s of ((st, p, _), s) \<Rightarrow>
      if fw_error fw st then Ret (st, sz, s)
      else case call (fw_get_info fw file True n) s of ((st, _, info), s) \<Rightarrow>
      if fw_error fw st then Ret (st, sz, tell (fw_free_pool fw p) s)
      else Ret (EFI_SUCCESS, fi_size info, tell (fw_free_pool fw p) s))"

definition FsSetFilePosition ::
  "'w firmware \<Rightarrow> u64 \<Rightarrow> u64 \<Rightarrow> ('w, 'z) uefi_run_scheme \<Rightarrow> (efi_status \<times> ('w, 'z) uefi_run_scheme) outcome" where
  "FsSetFilePosition fw file n s = (if file = 0 then Fault else Ret (call (fw_set_position fw file n) s))"

section \<open>Listing a directory\<close>

record file_entry =
  fl_name :: u64
  fl_size :: u64
  fl_is_directory :: bool

text \<open>The bit the UEFI specification gives a directory; no file of the program defines it.\<close>

definition EFI_FILE_DIRECTORY :: u64 where "EFI_FILE_DIRECTORY = 0x10"

text \<open>Whether an entry is neither \<open>.\<close> nor \<open>..\<close>; the name ends inside the buffer.\<close>

definition real_entry :: "file_info \<Rightarrow> bool outcome" where
  "real_entry i =
     bindR (StrCmp (fi_name i) (wide ''.'')) (\<lambda>a.
     if a = 0 then Ret False else bindR (StrCmp (fi_name i) (wide ''..'')) (\<lambda>b. Ret (b \<noteq> 0)))"

text \<open>
  The counting loop, which ends at an error or when a read reports size 0. The size variable holds what the read
  before has stored in it; \<open>None\<close> is a loop without end.
\<close>

partial_function (option) count_entries ::
  "'w firmware \<Rightarrow> u64 \<Rightarrow> u64 \<Rightarrow> u64 \<Rightarrow> ('w, 'z) uefi_run_scheme \<Rightarrow>
   ((u64 \<times> u64 \<times> ('w, 'z) uefi_run_scheme) outcome) option" where
  "count_entries fw dir sz n s =
     (case call (fw_dir_read fw dir sz) s of ((st, sz, info), s) \<Rightarrow>
      if fw_error fw st \<or> sz = 0 then Some (Ret (sz, n, s))
      else case real_entry info of
        Ret real \<Rightarrow> count_entries fw dir sz (if real then n + 1 else n) s
      | Hang \<Rightarrow> Some Hang
      | Fault \<Rightarrow> Some Fault)"

text \<open>The filling loop. The name of every entry is the address of the one buffer on the stack.\<close>

partial_function (option) fill_entries ::
  "'w firmware \<Rightarrow> u64 \<Rightarrow> u64 \<Rightarrow> u64 \<Rightarrow> nat \<Rightarrow> file_entry list \<Rightarrow> ('w, 'z) uefi_run_scheme \<Rightarrow>
   ((file_entry list \<times> ('w, 'z) uefi_run_scheme) outcome) option" where
  "fill_entries fw dir name_addr sz i files s =
     (case call (fw_dir_read fw dir sz) s of ((st, sz, info), s) \<Rightarrow>
      if fw_error fw st \<or> sz = 0 then Some (Ret (files, s))
      else case real_entry info of
        Ret real \<Rightarrow>
          if \<not> real then fill_entries fw dir name_addr sz i files s
          else if i < length files
          then fill_entries fw dir name_addr sz (Suc i) (files[i := \<lparr>fl_name = name_addr, fl_size = fi_size info,
                 fl_is_directory = (fi_attribute info AND EFI_FILE_DIRECTORY \<noteq> 0)\<rparr>]) s
          else Some Fault
      | Hang \<Rightarrow> Some Hang
      | Fault \<Rightarrow> Some Fault)"

definition looped :: "'a outcome option \<Rightarrow> 'a outcome" where
  "looped r = (case r of None \<Rightarrow> Hang | Some x \<Rightarrow> x)"

text \<open>
  \<open>junk\<close> is what the allocated array holds. The result is the status, the array if it is not \<open>NULL\<close>, and the number of
  entries; on an error neither is stored.
\<close>

definition FsListDirectory ::
  "'w firmware \<Rightarrow> u64 \<Rightarrow> (nat \<Rightarrow> file_entry) \<Rightarrow> efi_volume \<Rightarrow> u16 list \<Rightarrow> ('w, 'z) uefi_run_scheme \<Rightarrow>
   (efi_status \<times> (file_entry list option \<times> u64) option \<times> ('w, 'z) uefi_run_scheme) outcome" where
  "FsListDirectory fw name_addr junk v str s =
     bindR (FsOpenFile fw v str s) (\<lambda>(st, dir, s).
     if fw_error fw st then Ret (st, None, s)
     else if dir = 0 then Fault
     else bindR (looped (count_entries fw dir 1024 0 s)) (\<lambda>(sz, n, s).
     if n = 0 then case call (fw_file_close fw dir) s of (_, s) \<Rightarrow> Ret (EFI_SUCCESS, Some (None, 0), s)
     else case call (fw_alloc_pool fw (n * 24)) s of ((st, _, _), s) \<Rightarrow>
     if fw_error fw st then case call (fw_file_close fw dir) s of (_, s) \<Rightarrow> Ret (st, None, s)
     else case call (fw_set_position fw dir 0) s of (_, s) \<Rightarrow>
     bindR (looped (fill_entries fw dir name_addr sz 0 (map junk [0..<unat n]) s)) (\<lambda>(files, s).
     case call (fw_file_close fw dir) s of (_, s) \<Rightarrow> Ret (EFI_SUCCESS, Some (Some files, n), s))))"

section \<open>Secure boot\<close>

definition IsSecureBootEnabled ::
  "'w firmware \<Rightarrow> ('w, 'z) uefi_run_scheme \<Rightarrow> (bool \<times> ('w, 'z) uefi_run_scheme) outcome" where
  "IsSecureBootEnabled fw s =
     (case call (fw_get_variable fw ''SecureBoot'' False 0) s of ((st, n, _), s) \<Rightarrow>
      if st = EFI_BUFFER_TOO_SMALL \<and> n = 1
      then case call (fw_alloc_pool fw n) s of ((st, p, dat), s) \<Rightarrow>
        if fw_error fw st then Ret (False, s)
        else case call (fw_get_variable fw ''SecureBoot'' True n) s of ((st, _, bs), s) \<Rightarrow>
        bindR (memcpy_at (length bs) 0 0 dat bs) (\<lambda>dat.
        bindR (if fw_error fw st then Ret False else bindR (byte_at dat 0) (\<lambda>b. Ret (b = 1))) (\<lambda>on.
        Ret (on, tell (fw_free_pool fw p) s)))
      else Ret (False, s))"

definition VerifySecureBoot ::
  "'w firmware \<Rightarrow> ('w, 'z) uefi_run_scheme \<Rightarrow> (efi_status \<times> ('w, 'z) uefi_run_scheme) outcome" where
  "VerifySecureBoot fw s =
     bindR (IsSecureBootEnabled fw s) (\<lambda>(on, s).
     Ret (EFI_SUCCESS, EfiPrintString (if on then ''Secure Boot is enabled\<newline>'' else ''Secure Boot is disabled\<newline>'') s))"

section \<open>A firmware that keeps to its specification\<close>

text \<open>
  What the UEFI specification says of the answers: \<open>EFI_ERROR\<close> tests the top bit, which every error has; asked for file
  information or a variable without a buffer, the firmware answers with an error (\<open>EFI_BUFFER_TOO_SMALL\<close>, if no other);
  and a call that opens something and succeeds gives no \<open>NULL\<close>.
\<close>

definition documented_firmware :: "'w firmware \<Rightarrow> bool" where
  "documented_firmware fw \<longleftrightarrow> (\<forall>st. fw_error fw st \<longleftrightarrow> st AND EFI_ERROR_MASK \<noteq> 0) \<and>
     (\<forall>file w. fw_error fw (fst (fst (fw_get_info fw file False 0 w)))) \<and>
     (\<forall>str w. fw_error fw (fst (fst (fw_get_variable fw str False 0 w)))) \<and>
     (\<forall>dev w. fw_error fw (fst (fst (fw_open_protocol fw dev w))) \<or> snd (fst (fw_open_protocol fw dev w)) \<noteq> 0) \<and>
     (\<forall>fs w. fw_error fw (fst (fst (fw_open_volume fw fs w))) \<or> snd (fst (fw_open_volume fw fs w)) \<noteq> 0) \<and>
     (\<forall>root str w. fw_error fw (fst (fst (fw_file_open fw root str w))) \<or> snd (fst (fw_file_open fw root str w)) \<noteq> 0)"

lemma documented_answers:
  fixes s :: "('w, 'z) uefi_run_scheme"
  assumes "documented_firmware fw"
  shows "call (fw_get_info fw h False 0) s = ((st, r), t) \<Longrightarrow> fw_error fw st"
    and "call (fw_get_variable fw str False 0) s = ((st, q), t) \<Longrightarrow> fw_error fw st"
    and "call (fw_open_protocol fw dev) s = ((st, p), t) \<Longrightarrow> fw_error fw st \<or> p \<noteq> 0"
    and "call (fw_open_volume fw p0) s = ((st, p), t) \<Longrightarrow> fw_error fw st \<or> p \<noteq> 0"
    and "call (fw_file_open fw p0 path) s = ((st, p), t) \<Longrightarrow> fw_error fw st \<or> p \<noteq> 0"
  using assms unfolding documented_firmware_def call_def by (metis (no_types, lifting) case_prod_beta fst_conv snd_conv)+

lemma documented_codes:
  assumes "documented_firmware fw"
  shows "\<not> fw_error fw EFI_SUCCESS" "\<not> fw_error fw EFI_BUFFER_TOO_SMALL"
  using assms statuses_lack_top_bit by (auto simp: documented_firmware_def)

text \<open>So \<open>EFI_BUFFER_TOO_SMALL\<close>, written without the top bit, is never recognised: the size of a file is never found out.\<close>

lemma documented_file_size:
  fixes s :: "('w, 'z) uefi_run_scheme"
  assumes "documented_firmware fw" "file \<noteq> 0"
  shows "\<exists>st t. FsGetFileSize fw file sz s = Ret (st, sz, t) \<and> fw_error fw st"
proof -
  obtain st n i t where call: "call (fw_get_info fw file False 0) s = ((st, n, i), t)" by (metis surj_pair)
  have "fw_error fw st" by (rule documented_answers(1) [OF assms(1) call])
  with call assms(2) documented_codes(2) [OF assms(1)] show ?thesis by (auto simp: FsGetFileSize_def)
qed

lemma documented_secure_boot:
  fixes s :: "('w, 'z) uefi_run_scheme"
  assumes "documented_firmware fw"
  shows "\<exists>t. VerifySecureBoot fw s = Ret (EFI_SUCCESS, EfiPrintString ''Secure Boot is disabled\<newline>'' t)"
proof -
  obtain st n b t where call: "call (fw_get_variable fw ''SecureBoot'' False 0) s = ((st, n, b), t)" by (metis surj_pair)
  have "fw_error fw st" by (rule documented_answers(2) [OF assms call])
  with call documented_codes(2) [OF assms] show ?thesis by (auto simp: VerifySecureBoot_def IsSecureBootEnabled_def)
qed

lemma documented_open_volume:
  fixes s :: "('w, 'z) uefi_run_scheme"
  assumes "documented_firmware fw"
  shows "\<exists>st v' t. FsOpenVolume fw dev v s = Ret (st, v', t) \<and> (fw_error fw st \<or> vol_root v' \<noteq> 0)"
proof -
  obtain st fs t where call: "call (fw_open_protocol fw dev) s = ((st, fs), t)" by (metis surj_pair)
  note fs = documented_answers(3) [OF assms call]
  obtain st' root u where call': "call (fw_open_volume fw fs) t = ((st', root), u)" by (metis surj_pair)
  from documented_answers(4) [OF assms this] call call' fs show ?thesis by (auto simp: FsOpenVolume_def Let_def)
qed

lemma documented_open_file:
  fixes s :: "('w, 'z) uefi_run_scheme"
  assumes "documented_firmware fw" "vol_root v \<noteq> 0" "0 \<in> set str"
  shows "\<exists>st h t. FsOpenFile fw v str s = Ret (st, h, t) \<and> (fw_error fw st \<or> h \<noteq> 0)"
proof -
  obtain st h t where call: "call (fw_file_open fw (vol_root v) (ztext str)) s = ((st, h), t)" by (metis surj_pair)
  from documented_answers(5) [OF assms(1) this] call assms(2,3) show ?thesis by (auto simp: FsOpenFile_def)
qed

section \<open>Reasoning about what a call returns\<close>

text \<open>Every value an outcome can return satisfies a predicate; the rules follow the shape of the code.\<close>

definition ensures :: "'a outcome \<Rightarrow> ('a \<Rightarrow> bool) \<Rightarrow> bool" where "ensures r P \<longleftrightarrow> (\<forall>x. r = Ret x \<longrightarrow> P x)"

named_theorems ensures_intros \<open>rules for what an outcome ensures\<close>

lemma ensures_Ret [ensures_intros]: "P x \<Longrightarrow> ensures (Ret x) P"
  by (simp add: ensures_def)

lemma ensures_stuck [ensures_intros]: "ensures Fault P" "ensures Hang P"
  by (simp_all add: ensures_def)

lemma ensures_bind [ensures_intros]: "(\<And>x. m = Ret x \<Longrightarrow> ensures (f x) P) \<Longrightarrow> ensures (bindR m f) P"
  by (auto simp: ensures_def outcome_simps)

lemma ensures_if [ensures_intros]:
  "(b \<Longrightarrow> ensures x P) \<Longrightarrow> (\<not> b \<Longrightarrow> ensures y P) \<Longrightarrow> ensures (if b then x else y) P"
  by simp

lemma ensures_prod [ensures_intros]:
  "(\<And>a b. p = (a, b) \<Longrightarrow> ensures (f a b) P) \<Longrightarrow> ensures (case p of (a, b) \<Rightarrow> f a b) P"
  by (cases p) simp

lemma ensures_option [ensures_intros]:
  "(p = None \<Longrightarrow> ensures x P) \<Longrightarrow> (\<And>a. p = Some a \<Longrightarrow> ensures (f a) P) \<Longrightarrow>
   ensures (case p of None \<Rightarrow> x | Some a \<Rightarrow> f a) P"
  by (cases p) simp_all

lemma ensuresD: "ensures r P \<Longrightarrow> r = Ret x \<Longrightarrow> P x"
  by (simp add: ensures_def)

end
