(* ===== verification/UefiConfig.thy ===== *)
theory UefiConfig
  imports UefiFirmware
begin

text \<open>
  The configuration of the UEFI loader (\<open>uefi/fs/config.c\<close>): the parser of lines and values, the loading of the file,
  and the table of boot entries. A pointer into a text is an index; a character is read where the code reads it, and
  reading behind the end of the object is a fault.
\<close>

section \<open>Configuration\<close>

definition MAX_BOOT_ENTRIES :: nat where "MAX_BOOT_ENTRIES = 10"
definition MAX_PATH_LENGTH :: nat where "MAX_PATH_LENGTH = 256"
definition MAX_ARGS_LENGTH :: nat where "MAX_ARGS_LENGTH = 512"

record boot_entry =
  be_name :: "u16 list"
  be_kernel_path :: "u16 list"
  be_initrd_path :: "u16 list"
  be_args :: "u16 list"
  be_timeout :: u32
  be_default :: bool
  be_enabled :: bool

record uefi_config =
  uc_entries :: "boot_entry list"
  uc_count :: u32
  uc_default :: u32
  uc_timeout :: u32
  uc_title :: "u16 list"

definition zero_boot_entry :: boot_entry where
  "zero_boot_entry = \<lparr>be_name = replicate 64 0, be_kernel_path = replicate MAX_PATH_LENGTH 0,
     be_initrd_path = replicate MAX_PATH_LENGTH 0, be_args = replicate MAX_ARGS_LENGTH 0, be_timeout = 0,
     be_default = False, be_enabled = False\<rparr>"

definition zero_config :: uefi_config where
  "zero_config = \<lparr>uc_entries = replicate MAX_BOOT_ENTRIES zero_boot_entry, uc_count = 0, uc_default = 0, uc_timeout = 0,
     uc_title = replicate 64 0\<rparr>"

section \<open>Lines and values\<close>

definition char_at :: "u16 list \<Rightarrow> nat \<Rightarrow> u16 outcome" where
  "char_at s i = (if i < length s then Ret (s ! i) else Fault)"

text \<open>\<open>while (P(*Str)) Str++\<close>.\<close>

function skip_while :: "(u16 \<Rightarrow> bool) \<Rightarrow> nat \<Rightarrow> u16 list \<Rightarrow> nat outcome" where
  "skip_while P i s = (if i < length s then if P (s ! i) then skip_while P (Suc i) s else Ret i else Fault)"
  by pat_completeness auto
termination by (relation "measure (\<lambda>(P, i, s). length s - i)") auto

declare skip_while.simps [simp del]

definition is_blank :: "u16 \<Rightarrow> bool" where "is_blank c \<longleftrightarrow> c = 32 \<or> c = 9"

definition ConfigSkipWhitespace :: "nat \<Rightarrow> u16 list \<Rightarrow> nat outcome" where
  "ConfigSkipWhitespace = skip_while is_blank"

definition ConfigSkipLine :: "nat \<Rightarrow> u16 list \<Rightarrow> nat outcome" where
  "ConfigSkipLine i s =
     bindR (skip_while (\<lambda>c. c \<noteq> 0 \<and> c \<noteq> 10) i s) (\<lambda>i.
     bindR (char_at s i) (\<lambda>c. Ret (if c = 10 then Suc i else i)))"

text \<open>
  The copying loops of \<open>ConfigParseValue\<close>, which end at a stopping character, at the terminator or after \<open>m\<close> characters:
  \<open>i\<close> characters have been stored and the next is read at \<open>j\<close>.
\<close>

function value_loop :: "(u16 \<Rightarrow> bool) \<Rightarrow> nat \<Rightarrow> nat \<Rightarrow> nat \<Rightarrow> u16 list \<Rightarrow> u16 list \<Rightarrow> (nat \<times> nat \<times> u16 list) outcome" where
  "value_loop stop m i j s v =
     (if \<not> j < length s then Fault
      else if \<not> stop (s ! j) \<and> s ! j \<noteq> 0 \<and> i < m
      then if i < length v then value_loop stop m (Suc i) (Suc j) s (v[i := s ! j]) else Fault
      else Ret (i, j, v))"
  by pat_completeness auto
termination by (relation "measure (\<lambda>(stop, m, i, j, s, v). length s - j)") auto

declare value_loop.simps [simp del]

definition ConfigParseValue :: "nat \<Rightarrow> u16 list \<Rightarrow> u16 list \<Rightarrow> u64 \<Rightarrow> (nat \<times> u16 list) outcome" where
  "ConfigParseValue j s v max_len =
     bindR (ConfigSkipWhitespace j s) (\<lambda>j.
     bindR (char_at s j) (\<lambda>c.
     bindR (if c = 34
            then bindR (value_loop (\<lambda>c. c = 34) (unat (max_len - 1)) 0 (Suc j) s v) (\<lambda>(i, j, v).
                 bindR (char_at s j) (\<lambda>c. Ret (i, if c = 34 then Suc j else j, v)))
            else value_loop (\<lambda>c. c = 10 \<or> c = 32 \<or> c = 9) (unat (max_len - 1)) 0 j s v) (\<lambda>(i, j, v).
     if i < length v then Ret (j, v[i := 0]) else Fault)))"

text \<open>
  One turn of \<open>ConfigFindKey\<close> on the line from \<open>i\<close> to \<open>j\<close>: the line is copied over \<open>junk\<close>, the 512 characters of the
  array on the stack, and the result is what its part from the value on holds if its key is the one looked for.
\<close>

definition search_line :: "u16 list \<Rightarrow> u16 list \<Rightarrow> u16 list option outcome" where
  "search_line line key =
     bindR (ConfigSkipWhitespace 0 line) (\<lambda>k.
     bindR (char_at line k) (\<lambda>c.
     if c = 35 \<or> c = 0 then Ret None
     else bindR (skip_while (\<lambda>c. c \<noteq> 61 \<and> c \<noteq> 0) k line) (\<lambda>e.
     bindR (char_at line e) (\<lambda>c.
     if c \<noteq> 61 then Ret None
     else let line = line[e := 0] in
     bindR (StrCmp (drop k line) key) (\<lambda>d. Ret (if d = 0 then Some (drop (Suc e) line) else None))))))"

definition line_value :: "u16 list \<Rightarrow> nat \<Rightarrow> nat \<Rightarrow> u16 list \<Rightarrow> u16 list \<Rightarrow> u16 list option outcome" where
  "line_value junk i j s key =
     (let n = min (j - i) 511 in search_line (take n (drop i s) @ 0 # drop (n + 1) junk) key)"

lemma skip_while_ge: "skip_while P i s = Ret k \<Longrightarrow> i \<le> k \<and> k < length s \<and> \<not> P (s ! k)"
proof (induction P i s rule: skip_while.induct)
  case (1 P i s)
  then show ?case by (cases "i < length s"; cases "P (s ! i)") (auto simp: skip_while.simps [of P i s])
qed

lemma ConfigSkipLine_gt:
  assumes "ConfigSkipLine i s = Ret j" "s ! i \<noteq> 0"
  shows "i < j" "j \<le> length s"
proof -
  obtain k where k: "skip_while (\<lambda>c. c \<noteq> 0 \<and> c \<noteq> 10) i s = Ret k" "j = (if s ! k = 10 then Suc k else k)"
    using assms(1) by (auto simp: ConfigSkipLine_def char_at_def outcome_simps split: if_splits)
  have "i \<le> k" "k < length s" "s ! k = 0 \<or> s ! k = 10" using skip_while_ge [OF k(1)] by auto
  then show "i < j" "j \<le> length s" using k(2) assms(2) by (cases "k = i"; force)+
qed

text \<open>The pointer behind the line of the key and its value, or \<open>NULL\<close>.\<close>

function ConfigFindKey :: "u16 list \<Rightarrow> nat \<Rightarrow> u16 list \<Rightarrow> u16 list \<Rightarrow> (nat \<times> u16 list) option outcome" where
  "ConfigFindKey junk i s key =
     bindR (char_at s i) (\<lambda>c.
     if c = 0 then Ret None
     else bindR (ConfigSkipLine i s) (\<lambda>j.
     bindR (line_value junk i j s key) (\<lambda>r. case r of
       Some v \<Rightarrow> Ret (Some (j, v))
     | None \<Rightarrow> ConfigFindKey junk j s key)))"
  by pat_completeness auto
termination
  by (relation "measure (\<lambda>(junk, i, s, key). length s - i)")
    (auto simp: char_at_def split: if_splits dest: ConfigSkipLine_gt)

declare ConfigFindKey.simps [simp del]

lemma ConfigFindKey_gt: "ConfigFindKey junk i s key = Ret (Some (j, v)) \<Longrightarrow> i < j \<and> j \<le> length s"
proof (induction junk i s key rule: ConfigFindKey.induct)
  case (1 junk i s key)
  from "1.prems" obtain k r where k: "char_at s i = Ret (s ! i)" "s ! i \<noteq> 0" "ConfigSkipLine i s = Ret k"
    "line_value junk i k s key = Ret r"
    "(case r of Some v \<Rightarrow> Ret (Some (k, v)) | None \<Rightarrow> ConfigFindKey junk k s key) = Ret (Some (j, v))"
    by (subst (asm) ConfigFindKey.simps) (auto simp: outcome_simps char_at_def split: if_splits)
  have "i < k" "k \<le> length s" using ConfigSkipLine_gt [OF k(3,2)] .
  then show ?case using "1.IH" [OF k(1,2,3,4)] k(5) by (cases r) auto
qed

section \<open>Loading the file\<close>

text \<open>
  The pointer \<open>ConfigFindKey\<close> stores points into its own array, which no longer exists when the caller reads through
  it; \<open>line_survives\<close> tells whether a compiler leaves the bytes there, which C does not promise. \<open>key_behind\<close> is what
  lies behind a variable the boot manager lets the firmware overwrite (theory \<open>UefiBoot\<close>). The theorems hold for
  every such view.
\<close>

record stack_view =
  line_survives :: bool
  key_behind :: "u16 list"

text \<open>What the variables of \<open>ConfigLoad\<close> hold before they are written: volume, size, line and short text.\<close>

record load_junk =
  lj_volume :: efi_volume
  lj_size :: u64
  lj_line :: "u16 list"
  lj_text :: "u16 list"

definition find_from :: "load_junk \<Rightarrow> nat option \<Rightarrow> u16 list \<Rightarrow> string \<Rightarrow> (nat \<times> u16 list) option outcome" where
  "find_from jk str s key = (case str of None \<Rightarrow> Fault | Some i \<Rightarrow> ConfigFindKey (lj_line jk) i s (wide key))"

definition parse_found :: "stack_view \<Rightarrow> u16 list \<Rightarrow> u16 list \<Rightarrow> u16 list outcome" where
  "parse_found view v target =
     (if line_survives view
      then bindR (ConfigParseValue 0 v target (of_nat (length target))) (\<lambda>(_, t). Ret t)
      else Fault)"

text \<open>One of the four lines of an entry behind its name: the pointer behind it and the entry.\<close>

definition entry_field ::
  "load_junk \<Rightarrow> u16 list \<Rightarrow> string \<Rightarrow> (u16 list \<Rightarrow> boot_entry \<Rightarrow> boot_entry outcome) \<Rightarrow> nat option \<Rightarrow> boot_entry \<Rightarrow>
   (nat option \<times> boot_entry) outcome" where
  "entry_field jk s key f str e =
     bindR (find_from jk str s key) (\<lambda>r. case r of
       None \<Rightarrow> Ret (None, e)
     | Some (j, v) \<Rightarrow> bindR (f v e) (\<lambda>e. Ret (Some j, e)))"

definition load_entry ::
  "stack_view \<Rightarrow> load_junk \<Rightarrow> u16 list \<Rightarrow> nat option \<Rightarrow> u16 list \<Rightarrow> boot_entry \<Rightarrow> (nat option \<times> boot_entry) outcome" where
  "load_entry view jk s str v e =
     bindR (parse_found view v (be_name e)) (\<lambda>t.
     let e = e\<lparr>be_name := t, be_enabled := True\<rparr> in
     bindR (entry_field jk s ''kernel'' (\<lambda>v e. bindR (parse_found view v (be_kernel_path e))
         (\<lambda>t. Ret (e\<lparr>be_kernel_path := t\<rparr>))) str e) (\<lambda>(str, e).
     bindR (entry_field jk s ''initrd'' (\<lambda>v e. bindR (parse_found view v (be_initrd_path e))
         (\<lambda>t. Ret (e\<lparr>be_initrd_path := t\<rparr>))) str e) (\<lambda>(str, e).
     bindR (entry_field jk s ''args'' (\<lambda>v e. bindR (parse_found view v (be_args e))
         (\<lambda>t. Ret (e\<lparr>be_args := t\<rparr>))) str e) (\<lambda>(str, e).
     entry_field jk s ''default'' (\<lambda>v e. bindR (parse_found view v (lj_text jk)) (\<lambda>t.
         bindR (AsciiStrCmp (narrow_view t) (lit ''true'')) (\<lambda>d. Ret (e\<lparr>be_default := (d = 0)\<rparr>)))) str e))))"

text \<open>
  One turn of the loop of \<open>ConfigLoad\<close>: the pointer after it, the configuration and \<open>CurrentEntry\<close>. The timeout and the
  default are stored as the length of their text read as 8-bit characters.
\<close>

definition number_found :: "stack_view \<Rightarrow> load_junk \<Rightarrow> u16 list \<Rightarrow> u32 outcome" where
  "number_found view jk v =
     bindR (parse_found view v (lj_text jk)) (\<lambda>t. bindR (AsciiStrLen (narrow_view t)) (\<lambda>n. Ret (ucast n)))"

definition load_step ::
  "stack_view \<Rightarrow> load_junk \<Rightarrow> u16 list \<Rightarrow> nat \<Rightarrow> uefi_config \<times> nat \<Rightarrow> (nat option \<times> uefi_config \<times> nat) outcome" where
  "load_step view jk s i ccur = (case ccur of (c, cur) \<Rightarrow>
     bindR (find_from jk (Some i) s ''title'') (\<lambda>r. case r of
       Some (j, v) \<Rightarrow> bindR (parse_found view v (uc_title c)) (\<lambda>t. Ret (Some j, c\<lparr>uc_title := t\<rparr>, cur))
     | None \<Rightarrow>
     bindR (find_from jk (map_option fst r) s ''timeout'') (\<lambda>r. case r of
       Some (j, v) \<Rightarrow> bindR (number_found view jk v) (\<lambda>n. Ret (Some j, c\<lparr>uc_timeout := n\<rparr>, cur))
     | None \<Rightarrow>
     bindR (find_from jk (map_option fst r) s ''default'') (\<lambda>r. case r of
       Some (j, v) \<Rightarrow> bindR (number_found view jk v) (\<lambda>n. Ret (Some j, c\<lparr>uc_default := n\<rparr>, cur))
     | None \<Rightarrow>
     bindR (find_from jk (map_option fst r) s ''entry'') (\<lambda>r. case r of
       Some (j, v) \<Rightarrow>
         if cur < MAX_BOOT_ENTRIES
         then bindR (load_entry view jk s (Some j) v (uc_entries c ! cur)) (\<lambda>(str, e).
              Ret (str, c\<lparr>uc_entries := (uc_entries c)[cur := e]\<rparr>, Suc cur))
         else Ret (Some j, c, cur)
     | None \<Rightarrow> Ret (None, c, cur))))))"

lemma load_step_gt: "load_step view jk s i ccur = Ret (Some j, d) \<Longrightarrow> i < j \<and> j \<le> length s"
  by (auto simp: load_step_def find_from_def outcome_simps split: option.splits prod.splits dest: ConfigFindKey_gt)

function load_loop ::
  "stack_view \<Rightarrow> load_junk \<Rightarrow> u16 list \<Rightarrow> nat \<Rightarrow> uefi_config \<times> nat \<Rightarrow> (uefi_config \<times> nat) outcome" where
  "load_loop view jk s i ccur =
     bindR (char_at s i) (\<lambda>ch.
     if ch = 0 then Ret ccur
     else bindR (load_step view jk s i ccur) (\<lambda>(str, ccur). case str of
       None \<Rightarrow> Fault
     | Some j \<Rightarrow> load_loop view jk s j ccur))"
  by pat_completeness auto
termination
  by (relation "measure (\<lambda>(view, jk, s, i, ccur). length s - i)")
    (auto simp: char_at_def split: if_splits dest: load_step_gt)

declare load_loop.simps [simp del]

text \<open>What is printed and closed on an error, before the status is returned.\<close>

definition ConfigLoad ::
  "'w firmware \<Rightarrow> stack_view \<Rightarrow> load_junk \<Rightarrow> u16 list \<Rightarrow> ('w, 'z) uefi_run_scheme \<Rightarrow>
   (efi_status \<times> uefi_config \<times> ('w, 'z) uefi_run_scheme) outcome" where
  "ConfigLoad fw view jk str s =
     (let c = zero_config\<lparr>uc_timeout := 5, uc_default := 0\<rparr> in
      bindR (FsOpenVolume fw (gImageHandle s) (lj_volume jk) s) (\<lambda>(st, v, s).
      if fw_error fw st then Ret (st, c, EfiPrintError ''Failed to open volume\<newline>'' s)
      else bindR (FsOpenFile fw v str s) (\<lambda>(st, file, s).
      if fw_error fw st
      then case FsCloseVolume fw v (EfiPrintError ''Failed to open config file\<newline>'' s) of (_, _, s) \<Rightarrow> Ret (st, c, s)
      else bindR (FsGetFileSize fw file (lj_size jk) s) (\<lambda>(st, sz, s).
      if fw_error fw st
      then case FsCloseFile fw file (EfiPrintError ''Failed to get file size\<newline>'' s) of (_, s) \<Rightarrow>
           case FsCloseVolume fw v s of (_, _, s) \<Rightarrow> Ret (st, c, s)
      else case call (fw_alloc_pool fw (sz + 2)) s of ((st, p, buf), s) \<Rightarrow>
      if fw_error fw st
      then case FsCloseFile fw file (EfiPrintError ''Failed to allocate buffer\<newline>'' s) of (_, s) \<Rightarrow>
           case FsCloseVolume fw v s of (_, _, s) \<Rightarrow> Ret (st, c, s)
      else bindR (FsReadFile fw file buf sz s) (\<lambda>(st, n, buf, s).
      case FsCloseFile fw file s of (_, s) \<Rightarrow>
      case FsCloseVolume fw v s of (_, _, s) \<Rightarrow>
      if fw_error fw st
      then Ret (st, c, tell (fw_free_pool fw p) (EfiPrintError ''Failed to read config file\<newline>'' s))
      else let text = wide_view buf in
      if \<not> unat (n div 2) < length text then Fault
      else bindR (load_loop view jk (text[unat (n div 2) := 0]) 0 (c, 0)) (\<lambda>(c, cur).
      Ret (EFI_SUCCESS, c\<lparr>uc_count := of_nat cur\<rparr>, tell (fw_free_pool fw p) s)))))))"

section \<open>The table of entries\<close>

definition ConfigSave :: "u16 list \<Rightarrow> uefi_config \<Rightarrow> efi_status" where "ConfigSave str c = EFI_UNSUPPORTED"

text \<open>The entry found is its index.\<close>

definition ConfigGetDefaultEntry :: "uefi_config \<Rightarrow> (efi_status \<times> nat option) outcome" where
  "ConfigGetDefaultEntry c =
     (case first_from (\<lambda>i. be_default (uc_entries c ! i) \<and> be_enabled (uc_entries c ! i)) 0
         (min (unat (uc_count c)) (length (uc_entries c))) of
        Some i \<Rightarrow> Ret (EFI_SUCCESS, Some i)
      | None \<Rightarrow>
        if length (uc_entries c) < unat (uc_count c) then Fault
        else if 0 < uc_count c \<and> be_enabled (uc_entries c ! 0) then Ret (EFI_SUCCESS, Some 0) else Ret (EFI_NOT_FOUND, None))"

definition ConfigAddEntry :: "uefi_config \<Rightarrow> boot_entry \<Rightarrow> efi_status \<times> uefi_config" where
  "ConfigAddEntry c e =
     (if of_nat MAX_BOOT_ENTRIES \<le> uc_count c then (EFI_OUT_OF_RESOURCES, c)
      else (EFI_SUCCESS, c\<lparr>uc_entries := (uc_entries c)[unat (uc_count c) := e], uc_count := uc_count c + 1\<rparr>))"

definition ConfigRemoveEntry :: "uefi_config \<Rightarrow> u32 \<Rightarrow> efi_status \<times> uefi_config" where
  "ConfigRemoveEntry c k =
     (if uc_count c \<le> k then (EFI_NOT_FOUND, c)
      else (EFI_SUCCESS, c\<lparr>uc_entries := fold (\<lambda>i es. es[i := es ! Suc i]) [unat k..<unat (uc_count c - 1)] (uc_entries c),
        uc_count := uc_count c - 1\<rparr>))"

section \<open>What the parser computes\<close>

lemma skip_while_eq:
  "\<exists>c \<in> set (drop i s). \<not> P c \<Longrightarrow> skip_while P i s = Ret (i + length (takeWhile P (drop i s)))"
proof (induction P i s rule: skip_while.induct)
  case (1 P i s)
  then have i: "i < length s" by (cases "i < length s") auto
  then have d: "drop i s = s ! i # drop (Suc i) s" by (metis Cons_nth_drop_Suc)
  show ?case
  proof (cases "P (s ! i)")
    case True
    then have "\<exists>c \<in> set (drop (Suc i) s). \<not> P c" using "1.prems" by (auto simp: d)
    from "1.IH" [OF i True this] show ?thesis using i True by (simp add: skip_while.simps [of P i] d)
  next
    case False
    with i show ?thesis by (simp add: skip_while.simps [of P i] d)
  qed
qed

text \<open>The text of a value: what the line holds behind blanks, in quotes or up to the next blank, cut to \<open>m\<close> characters.\<close>

definition config_value :: "nat \<Rightarrow> u16 list \<Rightarrow> u16 list" where
  "config_value m t = (let w = dropWhile is_blank t in
     take m (if w \<noteq> [] \<and> hd w = 34 then takeWhile (\<lambda>c. c \<noteq> 34) (tl w)
             else takeWhile (\<lambda>c. c \<noteq> 10 \<and> c \<noteq> 32 \<and> c \<noteq> 9) w))"

lemma value_loop_eq:
  "0 \<in> set (drop j s) \<Longrightarrow> i \<le> m \<Longrightarrow> m < length v \<Longrightarrow>
   u = take (m - i) (takeWhile (\<lambda>c. \<not> stop c) (ztext (drop j s))) \<Longrightarrow>
   value_loop stop m i j s v = Ret (i + length u, j + length u, take i v @ u @ drop (i + length u) v)"
proof (induction stop m i j s v arbitrary: u rule: value_loop.induct)
  case (1 stop m i j s v)
  have j: "j < length s" using "1.prems"(1) by (cases "j < length s") auto
  then have d: "drop j s = s ! j # drop (Suc j) s" by (metis Cons_nth_drop_Suc)
  show ?case
  proof (cases "\<not> stop (s ! j) \<and> s ! j \<noteq> 0 \<and> i < m")
    case True
    define w where "w = take (m - Suc i) (takeWhile (\<lambda>c. \<not> stop c) (ztext (drop (Suc j) s)))"
    have i: "i < length v" using True "1.prems"(3) by simp
    have "0 \<in> set (drop (Suc j) s)" using "1.prems"(1) True by (auto simp: d)
    then have "value_loop stop m (Suc i) (Suc j) s (v[i := s ! j]) =
        Ret (Suc i + length w, Suc j + length w, take (Suc i) (v[i := s ! j]) @ w @ drop (Suc i + length w) (v[i := s ! j]))"
      using "1.IH" [OF _ True i _ _ _ w_def] j True "1.prems"(3) by simp
    moreover have "u = s ! j # w"
      using True by (simp add: "1.prems"(4) w_def d ztext_def) (metis Suc_diff_Suc take_Suc_Cons)
    moreover have "take (Suc i) (v[i := s ! j]) = take i v @ [s ! j]" using i by (simp add: take_Suc_conv_app_nth)
    moreover have "value_loop stop m i j s v = value_loop stop m (Suc i) (Suc j) s (v[i := s ! j])"
      using j True i by (simp add: value_loop.simps [of stop m i])
    ultimately show ?thesis by simp
  next
    case False
    then have "u = []" using "1.prems"(2,4) by (auto simp: d ztext_def)
    then show ?thesis using j False by (auto simp: value_loop.simps [of stop m i])
  qed
qed

lemma drop_zero_mem: "0 \<in> set t \<Longrightarrow> k \<le> length (ztext t) \<Longrightarrow> 0 \<in> set (drop k t) \<and> ztext (drop k t) = drop k (ztext t)"
proof (induction k arbitrary: t)
  case (Suc k)
  then obtain a u where t: "t = a # u" "a \<noteq> 0" by (cases t) (auto simp: ztext_def split: if_splits)
  with Suc show ?case by (simp add: ztext_def)
qed simp

lemma takeWhile_ztext: "\<not> P 0 \<Longrightarrow> 0 \<in> set t \<Longrightarrow> takeWhile P t = takeWhile P (ztext t)"
  by (induction t) (auto simp: ztext_def)

lemma ConfigParseValue_eq:
  assumes z: "0 \<in> set (drop j s)" and n: "0 < n" "n \<le> length v" "n < 2 ^ 64"
    and x: "x = config_value (n - 1) (ztext (drop j s))"
  shows "\<exists>k. ConfigParseValue j s v (of_nat n) = Ret (k, x @ 0 # drop (Suc (length x)) v) \<and> j \<le> k \<and> k < length s"
proof -
  define t where "t = ztext (drop j s)"
  define b where "b = length (takeWhile is_blank t)"
  have nb: "\<not> is_blank 0" by (simp add: is_blank_def)
  have skip: "ConfigSkipWhitespace j s = Ret (j + b)"
    unfolding ConfigSkipWhitespace_def b_def t_def takeWhile_ztext [of is_blank, OF nb z, symmetric]
    by (rule skip_while_eq) (use z nb in blast)
  have b: "b \<le> length t" unfolding b_def by (rule length_takeWhile_le)
  have z1: "0 \<in> set (drop (j + b) s)" "ztext (drop (j + b) s) = drop b t"
    using drop_zero_mem [OF z, of b] b by (simp_all add: t_def add.commute)
  have w: "drop b t = dropWhile is_blank t" unfolding b_def by (rule dropWhile_eq_drop [symmetric])
  have jb: "j + b < length s" using z1(1) by (cases "j + b < length s") auto
  then have d: "drop (j + b) s = s ! (j + b) # drop (Suc (j + b)) s" by (metis Cons_nth_drop_Suc)
  have m: "unat (of_nat n - 1 :: u64) = n - 1"
  proof -
    have "(of_nat n - 1 :: u64) = of_nat (n - 1)" using n(1) by (simp add: of_nat_diff)
    then show ?thesis using n(3) by (simp add: unat_of_nat take_bit_eq_mod)
  qed
  have at: "char_at s k = Ret (s ! k)" if "k < length s" for k using that by (simp add: char_at_def)
  have inside: "p + length (take q (takeWhile R (ztext (drop p s)))) < length s" if "0 \<in> set (drop p s)" for p q R
  proof -
    have "length (take q (takeWhile R (ztext (drop p s)))) \<le> length (ztext (drop p s))"
      using length_takeWhile_le [of R "ztext (drop p s)"] by simp
    also have "\<dots> < length (drop p s)" using ztext_end [OF that] by simp
    finally show ?thesis by simp
  qed
  have fits: "length x < length v" using n(1,2) by (simp add: x config_value_def Let_def)
  have upd: "(x @ drop (length x) v)[length x := 0] = x @ 0 # drop (Suc (length x)) v"
    using fits by (simp add: list_update_append) (metis Cons_nth_drop_Suc list_update_code(2))
  show ?thesis
  proof (cases "s ! (j + b) = 34")
    case True
    have "ztext (drop (j + b) s) = 34 # ztext (drop (Suc (j + b)) s)" unfolding d True by (simp add: ztext_def)
    then have xt: "x = take (n - 1 - 0) (takeWhile (\<lambda>c. \<not> c = 34) (ztext (drop (Suc (j + b)) s)))"
      using z1(2) by (simp add: x config_value_def t_def [symmetric] w [symmetric])
    have z2: "0 \<in> set (drop (Suc (j + b)) s)" using z1(1) True by (simp add: d)
    have loop: "value_loop (\<lambda>c. c = 34) (n - 1) 0 (Suc (j + b)) s v =
        Ret (length x, Suc (j + b) + length x, x @ drop (length x) v)"
      using value_loop_eq [OF z2 _ _ xt, of v] n by simp
    have end': "Suc (j + b) + length x < length s" unfolding xt using inside [OF z2] .
    obtain k where k: "(if s ! (Suc (j + b) + length x) = 34 then Suc (Suc (j + b) + length x) else Suc (j + b) + length x) = k"
      by blast
    have "k < length s"
    proof (cases "s ! (Suc (j + b) + length x) = 34")
      case True
      have "length x \<le> length (ztext (drop (Suc (j + b)) s))"
        using length_takeWhile_le [of "\<lambda>c. \<not> c = 34" "ztext (drop (Suc (j + b)) s)"] by (simp only: xt length_take)
      from drop_zero_mem [OF z2 this] have "0 \<in> set (drop (Suc (j + b) + length x) s)"
        by (simp only: drop_drop add.commute [of "length x"])
      moreover have "drop (Suc (j + b) + length x) s = 34 # drop (Suc (Suc (j + b) + length x)) s"
        using end' True by (metis Cons_nth_drop_Suc)
      ultimately have "0 \<in> set (drop (Suc (Suc (j + b) + length x)) s)" by simp
      then show ?thesis using True k by (cases "Suc (Suc (j + b) + length x) < length s") auto
    qed (use end' k in simp)
    then show ?thesis
      using skip at [OF jb] at [OF end'] loop k fits upd True m by (auto simp: ConfigParseValue_def)
  next
    case False
    have "ztext (drop (j + b) s) \<noteq> [] \<longrightarrow> hd (ztext (drop (j + b) s)) \<noteq> 34" unfolding d using False by (simp add: ztext_def)
    then have xt: "x = take (n - 1 - 0) (takeWhile (\<lambda>c. \<not> (c = 10 \<or> c = 32 \<or> c = 9)) (ztext (drop (j + b) s)))"
      using z1(2) by (auto simp: x config_value_def t_def [symmetric] w [symmetric] Let_def)
    have loop: "value_loop (\<lambda>c. c = 10 \<or> c = 32 \<or> c = 9) (n - 1) 0 (j + b) s v =
        Ret (length x, j + b + length x, x @ drop (length x) v)"
      using value_loop_eq [OF z1(1) _ _ xt, of v] n by simp
    have "j + b + length x < length s" unfolding xt using inside [OF z1(1)] .
    then show ?thesis using skip at [OF jb] loop fits upd False m by (auto simp: ConfigParseValue_def)
  qed
qed

section \<open>What a key stands for\<close>

text \<open>A line with its newline, the setting in it, and the first line with a key: how far it reaches and its value.\<close>

definition first_line :: "u16 list \<Rightarrow> u16 list" where
  "first_line t = takeWhile (\<lambda>c. c \<noteq> 10) t @ (if 10 \<in> set t then [10] else [])"

definition raw_setting :: "u16 list \<Rightarrow> (u16 list \<times> u16 list) option" where
  "raw_setting q = (let w = dropWhile is_blank q in
     if w = [] \<or> hd w = 35 \<or> 61 \<notin> set w then None
     else Some (takeWhile (\<lambda>c. c \<noteq> 61) w, tl (dropWhile (\<lambda>c. c \<noteq> 61) w)))"

lemma first_line_split: "\<exists>u. t = first_line t @ u"
proof (cases "10 \<in> set t")
  case True
  then obtain a b where t: "t = a @ 10 # b" "10 \<notin> set a" by (meson split_list_first)
  then have "first_line t = a @ [10]" by (auto simp: first_line_def takeWhile_append)
  with t(1) show ?thesis by simp
next
  case False
  then have "first_line t = t" by (auto simp: first_line_def takeWhile_eq_all_conv)
  then show ?thesis by simp
qed

lemma first_line_pos: "t \<noteq> [] \<Longrightarrow> first_line t \<noteq> []"
  by (cases t) (auto simp: first_line_def)

function key_lookup :: "u16 list \<Rightarrow> u16 list \<Rightarrow> (nat \<times> u16 list) option" where
  "key_lookup t key =
     (if t = [] then None
      else case raw_setting (take 511 (first_line t)) of
        Some (k, v) \<Rightarrow> if k = key then Some (length (first_line t), v)
          else map_option (apfst ((+) (length (first_line t)))) (key_lookup (drop (length (first_line t)) t) key)
      | None \<Rightarrow> map_option (apfst ((+) (length (first_line t)))) (key_lookup (drop (length (first_line t)) t) key))"
  by pat_completeness auto
termination
  by (relation "measure (\<lambda>(t, key). length t)") (auto intro!: diff_less simp: first_line_pos)

declare key_lookup.simps [simp del]

lemma key_lookup_Nil [simp]: "key_lookup [] key = None"
  by (simp add: key_lookup.simps)

lemma ConfigSkipLine_eq:
  assumes d: "drop i s = t @ 0 # r" and z: "0 \<notin> set t"
  shows "ConfigSkipLine i s = Ret (i + length (first_line t))"
proof -
  define n where "n = length (takeWhile (\<lambda>c. c \<noteq> 10) t)"
  have tw: "takeWhile (\<lambda>c. c \<noteq> 0 \<and> c \<noteq> 10) (t @ 0 # r) = takeWhile (\<lambda>c. c \<noteq> 10) t"
    using z by (induction t) auto
  have skip: "skip_while (\<lambda>c. c \<noteq> 0 \<and> c \<noteq> 10) i s = Ret (i + n)"
    using skip_while_eq [of i s "\<lambda>c. c \<noteq> 0 \<and> c \<noteq> 10"] unfolding d tw n_def by auto
  have n: "n \<le> length t" unfolding n_def by (rule length_takeWhile_le)
  have len: "i + length t < length s" using arg_cong [OF d, of length] by auto
  have at: "s ! (i + n) = (t @ 0 # r) ! n"
    using len n by (simp add: d [symmetric])
  have "(t @ 0 # r) ! n = (if 10 \<in> set t then 10 else 0)"
  proof (cases "10 \<in> set t")
    case True
    then obtain a b where t: "t = a @ 10 # b" "10 \<notin> set a" by (meson split_list_first)
    then have "takeWhile (\<lambda>c. c \<noteq> 10) t = a" by (auto simp: takeWhile_append)
    then show ?thesis using True t by (simp add: n_def)
  next
    case False
    then have "takeWhile (\<lambda>c. c \<noteq> 10) t = t" by (auto simp: takeWhile_eq_all_conv)
    then have "n = length t" by (simp only: n_def)
    then show ?thesis using False by simp
  qed
  then have ch: "char_at s (i + n) = Ret (if 10 \<in> set t then 10 else 0)" using at len n by (simp add: char_at_def)
  show ?thesis
  proof (cases "10 \<in> set t")
    case True
    then show ?thesis using skip ch by (simp add: ConfigSkipLine_def first_line_def n_def)
  next
    case False
    then show ?thesis using skip ch by (simp add: ConfigSkipLine_def first_line_def n_def)
  qed
qed

text \<open>The search in the copied line \<open>q\<close>, behind which the array holds \<open>J\<close>.\<close>

lemma search_line_eq:
  assumes z: "0 \<notin> set q" "0 \<notin> set key" and line: "line = q @ 0 # J"
  shows "search_line line (key @ [0]) =
    Ret (case raw_setting q of None \<Rightarrow> None | Some (k, v) \<Rightarrow> if k = key then Some (v @ 0 # J) else None)"
proof -
  define B where "B = takeWhile is_blank q"
  define w where "w = dropWhile is_blank q"
  have q: "q = B @ w" by (simp add: B_def w_def)
  have nb: "\<not> is_blank 0" by (simp add: is_blank_def)
  have "takeWhile is_blank (q @ 0 # J) = B" unfolding B_def using nb by (induction q) auto
  then have skip: "ConfigSkipWhitespace 0 line = Ret (length B)"
    using skip_while_eq [of 0 line is_blank] nb by (auto simp: ConfigSkipWhitespace_def line)
  have at: "char_at line (length B) = Ret (hd (w @ [0]))" by (cases w) (simp_all add: char_at_def line q)
  show ?thesis
  proof (cases "w = [] \<or> hd w = 35")
    case True
    then have "hd (w @ [0]) = 35 \<or> hd (w @ [0]) = 0" by (cases w) auto
    moreover have "raw_setting q = None" using True unfolding raw_setting_def w_def [symmetric] Let_def by auto
    ultimately show ?thesis using skip at by (auto simp: search_line_def)
  next
    case False
    then obtain c u where w: "w = c # u" "c \<noteq> 35" by (cases w) auto
    have c0: "c \<noteq> 0" using z(1) q w by auto
    define K where "K = takeWhile (\<lambda>c. c \<noteq> 61) w"
    have zw: "0 \<notin> set w" using z(1) q by auto
    then have "takeWhile (\<lambda>c. c \<noteq> 61 \<and> c \<noteq> 0) (w @ 0 # J) = K" unfolding K_def by (induction w) auto
    then have skip2: "skip_while (\<lambda>c. c \<noteq> 61 \<and> c \<noteq> 0) (length B) line = Ret (length B + length K)"
      using skip_while_eq [of "length B" line "\<lambda>c. c \<noteq> 61 \<and> c \<noteq> 0"] by (auto simp: line q)
    show ?thesis
    proof (cases "61 \<in> set w")
      case True
      define V where "V = tl (dropWhile (\<lambda>c. c \<noteq> 61) w)"
      have "dropWhile (\<lambda>c. c \<noteq> 61) w \<noteq> []" "hd (dropWhile (\<lambda>c. c \<noteq> 61) w) = 61"
        using True hd_dropWhile [of "\<lambda>c. c \<noteq> 61" w] by auto
      then have "dropWhile (\<lambda>c. c \<noteq> 61) w = 61 # V" unfolding V_def by (metis list.collapse)
      then have wK: "w = K @ 61 # V" using takeWhile_dropWhile_id [of "\<lambda>c. c \<noteq> 61" w] by (simp add: K_def)
      have at2: "char_at line (length B + length K) = Ret 61"
        by (simp add: char_at_def line q wK nth_append)
      have upd: "line[length B + length K := 0] = B @ K @ 0 # V @ 0 # J" by (simp add: line q wK list_update_append)
      have "ztext (K @ 0 # x) = K" "ztext (key @ [0]) = key" for x
        using zw z(2) wK by (auto simp: ztext_def takeWhile_append)
      then obtain d where d: "StrCmp (K @ 0 # V @ 0 # J) (key @ [0]) = Ret d" "d = 0 \<longleftrightarrow> K = key"
        using StrCmp_zero_iff [of "K @ 0 # V @ 0 # J" "key @ [0]"] by auto
      have "raw_setting q = Some (K, V)" using False True by (simp add: raw_setting_def w_def [symmetric] K_def V_def Let_def)
      then show ?thesis using skip at w c0 skip2 at2 upd d by (simp add: search_line_def)
    next
      case False
      then have "K = w" unfolding K_def by (auto intro: takeWhile_eq_all_conv [THEN iffD2])
      then have "char_at line (length B + length K) = Ret 0" by (simp add: char_at_def line q nth_append)
      moreover have "raw_setting q = None" using False by (simp add: raw_setting_def w_def [symmetric] Let_def)
      ultimately show ?thesis using skip at w c0 skip2 by (simp add: search_line_def)
    qed
  qed
qed

lemma ConfigFindKey_eq:
  assumes "0 \<notin> set key" "length junk = 512"
  shows "drop i s = t @ 0 # r \<Longrightarrow> 0 \<notin> set t \<Longrightarrow>
    case key_lookup t key of
      None \<Rightarrow> ConfigFindKey junk i s (key @ [0]) = Ret None
    | Some (n, v) \<Rightarrow> \<exists>J. ConfigFindKey junk i s (key @ [0]) = Ret (Some (i + n, v @ 0 # J))"
proof (induction t arbitrary: i rule: measure_induct_rule [of length])
  case (less t)
  note d = less.prems(1) and z = less.prems(2)
  have i: "i < length s" using arg_cong [OF d, of length] by simp
  then have hd: "s ! i = hd (t @ [0])" using d by (metis hd_append hd_drop_conv_nth list.sel(1) list.simps(3))
  show ?case
  proof (cases "t = []")
    case True
    then show ?thesis using hd i by (simp add: ConfigFindKey.simps [of junk i] char_at_def)
  next
    case False
    define q where "q = first_line t"
    define m where "m = length q"
    obtain u where u: "t = q @ u" using first_line_split [of t] by (auto simp: q_def)
    have m: "0 < m" using first_line_pos [OF False] by (simp add: m_def q_def)
    have nz: "s ! i \<noteq> 0" using hd False z by (metis hd_append2 list.set_sel(1))
    have skip: "ConfigSkipLine i s = Ret (i + m)" using ConfigSkipLine_eq [OF d z] by (simp add: m_def q_def)
    define n where "n = min m 511"
    have tk: "take n (drop i s) = take 511 q" unfolding d u n_def m_def by (auto simp: min_def)
    have z2: "0 \<notin> set (take 511 q)" using z u by (auto dest: in_set_takeD)
    have lv: "line_value junk i (i + m) s (key @ [0]) = Ret (case raw_setting (take 511 q) of None \<Rightarrow> None
        | Some (k, v) \<Rightarrow> if k = key then Some (v @ 0 # drop (n + 1) junk) else None)"
      using search_line_eq [OF z2 assms(1) refl, of "drop (n + 1) junk"] tk by (simp add: line_value_def n_def Let_def)
    have d2: "drop (i + m) s = u @ 0 # r"
      using arg_cong [OF d, of "drop m"] by (simp add: u m_def add.commute)
    have step: "ConfigFindKey junk i s (key @ [0]) = (case raw_setting (take 511 q) of
        Some (k, v) \<Rightarrow> if k = key then Ret (Some (i + m, v @ 0 # drop (n + 1) junk)) else ConfigFindKey junk (i + m) s (key @ [0])
      | None \<Rightarrow> ConfigFindKey junk (i + m) s (key @ [0]))"
      by (subst ConfigFindKey.simps) (simp add: char_at_def i nz skip lv split: option.split)
    have rest: "drop (length q) t = u" "0 \<notin> set u" using u z by auto
    have IH: "case key_lookup u key of
        None \<Rightarrow> ConfigFindKey junk (i + m) s (key @ [0]) = Ret None
      | Some (n, v) \<Rightarrow> \<exists>J. ConfigFindKey junk (i + m) s (key @ [0]) = Ret (Some (i + m + n, v @ 0 # J))"
      using less.IH [OF _ d2 rest(2)] m u by (simp add: m_def)
    have look: "key_lookup t key = (case raw_setting (take 511 q) of
        Some (k, v) \<Rightarrow> if k = key then Some (m, v) else map_option (apfst ((+) m)) (key_lookup u key)
      | None \<Rightarrow> map_option (apfst ((+) m)) (key_lookup u key))"
      by (subst key_lookup.simps) (simp only: False if_False q_def [symmetric] m_def rest(1))
    show ?thesis
    proof (cases "\<exists>v. raw_setting (take 511 q) = Some (key, v)")
      case True
      then show ?thesis using look step by auto
    next
      case False
      then have "key_lookup t key = map_option (apfst ((+) m)) (key_lookup u key)"
        "ConfigFindKey junk i s (key @ [0]) = ConfigFindKey junk (i + m) s (key @ [0])"
        using look step by (auto split: option.split)
      then show ?thesis using IH by (cases "key_lookup u key") (auto simp: add.assoc)
    qed
  qed
qed

lemma raw_setting_set:
  assumes "raw_setting q = Some (k, v)"
  shows "set v \<subseteq> set q"
proof -
  have "v = tl (dropWhile (\<lambda>c. c \<noteq> 61) (dropWhile is_blank q))"
    using assms by (auto simp: raw_setting_def Let_def split: if_splits)
  moreover have "set (tl x) \<subseteq> set x" for x :: "u16 list" by (cases x) auto
  ultimately show ?thesis by (meson set_dropWhileD subsetD subsetI)
qed

lemma key_lookup_set: "key_lookup t key = Some (n, v) \<Longrightarrow> set v \<subseteq> set t"
proof (induction t key arbitrary: n rule: key_lookup.induct)
  case (1 t key)
  let ?q = "first_line t"
  have t: "t \<noteq> []" using "1.prems" by auto
  have sub: "set (take 511 ?q) \<subseteq> set t" using first_line_split [of t] by (metis set_take_subset set_append le_supI1 order_trans)
  consider (here) "raw_setting (take 511 ?q) = Some (key, v)"
    | (none) m where "raw_setting (take 511 ?q) = None" "key_lookup (drop (length ?q) t) key = Some (m, v)"
    | (other) k x m where "raw_setting (take 511 ?q) = Some (k, x)" "k \<noteq> key" "key_lookup (drop (length ?q) t) key = Some (m, v)"
    using "1.prems" t by (subst (asm) key_lookup.simps) (auto split: option.splits if_splits)
  then show ?case
  proof cases
    case here
    then show ?thesis using raw_setting_set sub by blast
  next
    case none
    then show ?thesis using "1.IH"(1) [OF t none] set_drop_subset [of "length ?q" t] by blast
  next
    case other
    then show ?thesis using "1.IH"(2) [OF t other(1) refl other(2,3)] set_drop_subset [of "length ?q" t] by blast
  qed
qed

section \<open>What loading leaves\<close>

text \<open>
  The first search of a turn looks for \<open>title\<close>; when it fails the pointer is \<open>NULL\<close> and the next search reads it. So
  a turn either reads one title, or is undefined.
\<close>

lemma load_step_title:
  assumes "load_step view jk s i (c, cur) = Ret (str, d)"
  shows "line_survives view \<and> (\<exists>t. d = (c\<lparr>uc_title := t\<rparr>, cur))"
proof -
  obtain r where r: "find_from jk (Some i) s ''title'' = Ret r"
    using assms by (auto simp: load_step_def outcome_simps)
  show ?thesis
  proof (cases r)
    case None
    then have False using assms r by (simp add: load_step_def find_from_def)
    then show ?thesis ..
  next
    case (Some jv)
    then show ?thesis using assms r
      by (cases jv) (auto simp: load_step_def parse_found_def outcome_simps split: if_splits)
  qed
qed

lemma load_loop_title:
  "load_loop view jk s i (c, cur) = Ret (d, n) \<Longrightarrow>
   (\<exists>t. d = c\<lparr>uc_title := t\<rparr>) \<and> n = cur \<and> (s ! i \<noteq> 0 \<longrightarrow> line_survives view)"
proof (induction view jk s i "(c, cur)" arbitrary: c rule: load_loop.induct)
  case (1 view jk s i c)
  show ?case
  proof (cases "i < length s \<and> s ! i = 0")
    case True
    then have "load_loop view jk s i (c, cur) = Ret (c, cur)" by (subst load_loop.simps) (simp add: char_at_def)
    moreover have "c = c\<lparr>uc_title := uc_title c\<rparr>" by simp
    ultimately show ?thesis using "1.prems" True by (metis outcome.inject prod.inject)
  next
    case False
    with "1.prems" obtain str e where step: "char_at s i = Ret (s ! i)" "s ! i \<noteq> 0" "load_step view jk s i (c, cur) = Ret (str, e)"
      "(case str of None \<Rightarrow> Fault | Some j \<Rightarrow> load_loop view jk s j e) = Ret (d, n)"
      by (subst (asm) load_loop.simps) (auto simp: outcome_simps char_at_def split: if_splits)
    obtain t where t: "e = (c\<lparr>uc_title := t\<rparr>, cur)" and live: "line_survives view" using load_step_title [OF step(3)] by blast
    obtain j where j: "str = Some j" "load_loop view jk s j (c\<lparr>uc_title := t\<rparr>, cur) = Ret (d, n)"
      using step(4) t by (cases str) auto
    show ?thesis using "1.hyps" [OF step(1,2) step(3) [unfolded t] refl j] live by auto
  qed
qed

definition titled :: "uefi_config \<Rightarrow> bool" where
  "titled c \<longleftrightarrow> (\<exists>t. c = zero_config\<lparr>uc_timeout := 5, uc_default := 0, uc_title := t\<rparr>)"

lemma titled_start: "titled (zero_config\<lparr>uc_timeout := 5, uc_default := 0\<rparr>)"
  unfolding titled_def by (intro exI [of _ "uc_title zero_config"]) simp

lemma titled_loaded:
  "load_loop view jk x 0 (zero_config\<lparr>uc_timeout := 5, uc_default := 0\<rparr>, 0) = Ret (d, n) \<Longrightarrow> titled (d\<lparr>uc_count := of_nat n\<rparr>)"
  using load_loop_title [of view jk x 0 "zero_config\<lparr>uc_timeout := 5, uc_default := 0\<rparr>" 0 d n]
  by (auto simp: titled_def zero_config_def)

lemma ConfigLoad_config: "ensures (ConfigLoad fw view jk str s) (\<lambda>(st, c, t). titled c)"
  unfolding ConfigLoad_def Let_def
  by (intro ensures_intros) (auto intro: titled_start titled_loaded)

section \<open>The table of entries\<close>

text \<open>A table and the sequence of entries it stands for.\<close>

definition table_ok :: "uefi_config \<Rightarrow> bool" where
  "table_ok c \<longleftrightarrow> length (uc_entries c) = MAX_BOOT_ENTRIES \<and> unat (uc_count c) \<le> MAX_BOOT_ENTRIES"

definition entries_of :: "uefi_config \<Rightarrow> boot_entry list" where
  "entries_of c = take (unat (uc_count c)) (uc_entries c)"

lemma entries_length: "table_ok c \<Longrightarrow> length (entries_of c) = unat (uc_count c)"
  by (simp add: table_ok_def entries_of_def)

lemma shift_down:
  "k \<le> n \<Longrightarrow> n < length es \<Longrightarrow>
   fold (\<lambda>i es. es[i := es ! Suc i]) [k..<n] es = take k es @ take (n - k) (drop (Suc k) es) @ drop n es"
proof (induction n)
  case (Suc n)
  show ?case
  proof (cases "k = Suc n")
    case False
    then have k: "k \<le> n" using Suc.prems by simp
    define x where "x = take k es @ take (n - k) (drop (Suc k) es)"
    have len: "length x = n" using Suc.prems k by (simp add: x_def)
    have IH: "fold (\<lambda>i es. es[i := es ! Suc i]) [k..<n] es = x @ drop n es" using Suc k by (simp add: x_def)
    have d: "drop n es = es ! n # es ! Suc n # drop (Suc (Suc n)) es"
      using Suc.prems by (metis Cons_nth_drop_Suc Suc_lessD)
    have "fold (\<lambda>i es. es[i := es ! Suc i]) [k..<Suc n] es = (x @ drop n es)[n := (x @ drop n es) ! Suc n]"
      using k IH by simp
    also have "(x @ drop n es) ! Suc n = es ! Suc n" using len by (simp add: nth_append d)
    also have "(x @ drop n es)[n := es ! Suc n] = x @ es ! Suc n # es ! Suc n # drop (Suc (Suc n)) es"
      using len by (simp add: list_update_append d)
    also have "\<dots> = (x @ [es ! Suc n]) @ drop (Suc n) es"
      using Suc.prems by (simp add: Cons_nth_drop_Suc [symmetric])
    also have "x @ [es ! Suc n] = take k es @ take (Suc n - k) (drop (Suc k) es)"
    proof -
      have "take (Suc (n - k)) (drop (Suc k) es) = take (n - k) (drop (Suc k) es) @ [drop (Suc k) es ! (n - k)]"
        by (rule take_Suc_conv_app_nth) (use Suc.prems k in simp)
      moreover have "drop (Suc k) es ! (n - k) = es ! Suc n" using Suc.prems k by simp
      ultimately show ?thesis using k by (simp add: Suc_diff_le x_def)
    qed
    finally show ?thesis by simp
  qed simp
qed simp

lemma ConfigAddEntry_entries:
  assumes "table_ok c"
  shows "(if length (entries_of c) < MAX_BOOT_ENTRIES
     then \<exists>d. ConfigAddEntry c e = (EFI_SUCCESS, d) \<and> table_ok d \<and> entries_of d = entries_of c @ [e]
     else ConfigAddEntry c e = (EFI_OUT_OF_RESOURCES, c))"
proof -
  have n: "unat (uc_count c) \<le> 10" "length (uc_entries c) = 10" using assms by (simp_all add: table_ok_def MAX_BOOT_ENTRIES_def)
  have full: "of_nat MAX_BOOT_ENTRIES \<le> uc_count c \<longleftrightarrow> \<not> unat (uc_count c) < 10"
    by (simp add: MAX_BOOT_ENTRIES_def word_le_nat_alt not_less)
  show ?thesis
  proof (cases "unat (uc_count c) < 10")
    case True
    then have "unat (uc_count c + 1) = Suc (unat (uc_count c))"
      using unat_add_lem [of "uc_count c" 1] by simp
    then show ?thesis using True n full
      by (simp add: ConfigAddEntry_def entries_of_def table_ok_def MAX_BOOT_ENTRIES_def take_Suc_conv_app_nth)
  next
    case False
    then show ?thesis using n full by (simp add: ConfigAddEntry_def entries_of_def MAX_BOOT_ENTRIES_def)
  qed
qed

lemma ConfigRemoveEntry_entries:
  assumes "table_ok c"
  shows "(if unat k < length (entries_of c)
     then \<exists>d. ConfigRemoveEntry c k = (EFI_SUCCESS, d) \<and> table_ok d \<and>
       entries_of d = take (unat k) (entries_of c) @ drop (Suc (unat k)) (entries_of c)
     else ConfigRemoveEntry c k = (EFI_NOT_FOUND, c))"
proof -
  define n where "n = unat (uc_count c)"
  have n: "n \<le> 10" "length (uc_entries c) = 10" using assms by (simp_all add: n_def table_ok_def MAX_BOOT_ENTRIES_def)
  have len: "length (entries_of c) = n" using entries_length [OF assms] by (simp add: n_def)
  show ?thesis
  proof (cases "unat k < n")
    case True
    then have m: "unat (uc_count c - 1) = n - 1" using unat_sub [of 1 "uc_count c"] by (simp add: n_def word_le_nat_alt)
    have shift: "fold (\<lambda>i es. es[i := es ! Suc i]) [unat k..<n - 1] (uc_entries c) =
        take (unat k) (uc_entries c) @ take (n - 1 - unat k) (drop (Suc (unat k)) (uc_entries c)) @ drop (n - 1) (uc_entries c)"
      by (rule shift_down) (use True n in auto)
    have "take (n - 1) (take (unat k) (uc_entries c) @ take (n - 1 - unat k) (drop (Suc (unat k)) (uc_entries c)) @ drop (n - 1) (uc_entries c)) =
        take (unat k) (take n (uc_entries c)) @ drop (Suc (unat k)) (take n (uc_entries c))"
      using True n by (cases "unat k = n - 1") (auto simp: drop_take min_def)
    then show ?thesis using True n len m shift
      by (simp add: ConfigRemoveEntry_def table_ok_def entries_of_def n_def [symmetric] word_le_nat_alt MAX_BOOT_ENTRIES_def)
  next
    case False
    then show ?thesis using len by (simp add: ConfigRemoveEntry_def n_def word_le_nat_alt)
  qed
qed

text \<open>The first entry that is marked and enabled, else the first entry if it is enabled.\<close>

definition default_index :: "boot_entry list \<Rightarrow> nat option" where
  "default_index es = (case find (\<lambda>i. be_default (es ! i) \<and> be_enabled (es ! i)) [0..<length es] of
     Some i \<Rightarrow> Some i
   | None \<Rightarrow> if es \<noteq> [] \<and> be_enabled (hd es) then Some 0 else None)"

lemma first_from_find: "first_from P i n = find P [i..<n]"
proof (induction "n - i" arbitrary: i)
  case 0
  then show ?case by (simp add: first_from_end)
next
  case (Suc d)
  then have "[i..<n] = i # [Suc i..<n]" by (simp add: upt_conv_Cons)
  moreover have "first_from P (Suc i) n = find P [Suc i..<n]" by (rule Suc.hyps(1)) (use Suc.hyps(2) in simp)
  moreover have "i < n" using Suc.hyps(2) by simp
  ultimately show ?case by (subst first_from.simps) simp
qed

lemma ConfigGetDefaultEntry_entries:
  assumes "table_ok c"
  shows "ConfigGetDefaultEntry c = Ret (case default_index (entries_of c) of
    Some i \<Rightarrow> (EFI_SUCCESS, Some i) | None \<Rightarrow> (EFI_NOT_FOUND, None))"
proof -
  define n where "n = unat (uc_count c)"
  have n: "n \<le> length (uc_entries c)" "length (entries_of c) = n"
    using assms entries_length [OF assms] by (simp_all add: n_def table_ok_def)
  have nth: "entries_of c ! i = uc_entries c ! i" if "i < n" for i using that by (simp add: entries_of_def n_def)
  have find: "find (\<lambda>i. be_default (entries_of c ! i) \<and> be_enabled (entries_of c ! i)) [0..<n] =
      first_from (\<lambda>i. be_default (uc_entries c ! i) \<and> be_enabled (uc_entries c ! i)) 0 (min n (length (uc_entries c)))"
    using n unfolding first_from_find by (intro find_cong) (simp_all add: nth)
  have "0 < uc_count c \<longleftrightarrow> entries_of c \<noteq> []" using n(2) by (auto simp: n_def word_gt_0 unat_eq_zero)
  moreover have "hd (entries_of c) = uc_entries c ! 0" if "entries_of c \<noteq> []"
    using nth [of 0] that n(2) by (cases "entries_of c") (auto simp: hd_conv_nth)
  ultimately show ?thesis
    using n find by (auto simp: ConfigGetDefaultEntry_def default_index_def n_def [symmetric] split: option.split)
qed

section \<open>Properties\<close>

text \<open>
  A value is copied to an array of any size without leaving it: from a text with a terminator, \<open>ConfigParseValue\<close>
  stores the part in quotes, or up to the next blank, cut to one character less than the array holds, and a
  terminator; the rest of the array is as it was, and the pointer returned is inside the text.
\<close>
theorem config_value_stored:
  assumes "0 \<in> set (drop j s)" "0 < length v" "length v < 2 ^ 64"
  shows "\<exists>k. let x = config_value (length v - 1) (ztext (drop j s)) in
    ConfigParseValue j s v (of_nat (length v)) = Ret (k, x @ 0 # drop (length x + 1) v) \<and>
    length x < length v \<and> j \<le> k \<and> k < length s"
proof -
  have "length (config_value (length v - 1) (ztext (drop j s))) \<le> length v - 1"
    by (simp only: config_value_def Let_def length_take min.cobounded2)
  then have "length (config_value (length v - 1) (ztext (drop j s))) < length v" using assms(2) by linarith
  then show ?thesis
    using ConfigParseValue_eq [OF assms(1,2) le_refl assms(3) refl] by (auto simp: Let_def)
qed

theorem config_value_stored_witness:
  "\<exists>k. ConfigParseValue 0 (wide '' hello world'') [7, 7, 7, 7] 4 = Ret (k, wide ''hel'') \<and> k < 13"
proof -
  have x: "config_value (length [7, 7, 7, 7 :: u16] - 1) (ztext (drop 0 (wide '' hello world''))) = map of_char ''hel''"
    by code_simp
  have "0 \<in> set (drop 0 (wide '' hello world''))" "wide ''hel'' = map of_char ''hel'' @ [0]"
    "length (wide '' hello world'') = 13" by (simp_all add: wide_def)
  then show ?thesis
    using config_value_stored [of 0 "wide '' hello world''" "[7, 7, 7, 7]"] unfolding x Let_def by simp
qed

text \<open>
  A line as \<open>boot.conf.example\<close> writes it: a blank stands before the equals sign (\<open>title = ...\<close>), or there is none. The
  key of such a line ends in a blank, if anything is left of it.
\<close>

definition spaced_key :: "u16 list \<Rightarrow> bool" where
  "spaced_key l \<longleftrightarrow> (61 \<in> set l \<longrightarrow> (\<exists>k. takeWhile (\<lambda>c. c \<noteq> 61) l = k @ [32]))"

lemma takeWhile_dropWhile: "(\<And>c. Q c \<Longrightarrow> P c) \<Longrightarrow> takeWhile P (dropWhile Q q) = dropWhile Q (takeWhile P q)"
  by (induction q) auto

lemma spaced_key_setting:
  assumes "spaced_key l" "raw_setting (take n (l @ [10])) = Some (k, v)" "key \<noteq> []" "last key \<noteq> 32"
  shows "k \<noteq> key"
proof -
  let ?q = "take n (l @ [10])"
  have k: "k = takeWhile (\<lambda>c. c \<noteq> 61) (dropWhile is_blank ?q)" "61 \<in> set (dropWhile is_blank ?q)"
    using assms(2) by (auto simp: raw_setting_def Let_def split: if_splits)
  then have eq: "61 \<in> set ?q" by (metis set_dropWhileD)
  then have inl: "61 \<in> set l" by (auto dest!: in_set_takeD)
  have "takeWhile (\<lambda>c. c \<noteq> 61) ?q = takeWhile (\<lambda>c. c \<noteq> 61) (?q @ drop n (l @ [10]))"
    using eq by (subst takeWhile_append1) auto
  also have "\<dots> = takeWhile (\<lambda>c. c \<noteq> 61) l" using inl by (simp only: append_take_drop_id) (auto simp: takeWhile_append)
  finally obtain k' where k': "takeWhile (\<lambda>c. c \<noteq> 61) ?q = k' @ [32]" using assms(1) inl by (auto simp: spaced_key_def)
  have "k = dropWhile is_blank (k' @ [32])"
    unfolding k(1) k' [symmetric] by (rule takeWhile_dropWhile) (auto simp: is_blank_def)
  then have "k = [] \<or> last k = 32" by (auto simp: dropWhile_append)
  with assms(3,4) show ?thesis by auto
qed

lemma spaced_keys_lookup:
  assumes "\<forall>l \<in> set ls. 10 \<notin> set l \<and> spaced_key l" "key \<noteq> []" "last key \<noteq> 32"
  shows "key_lookup (concat (map (\<lambda>l. l @ [10]) ls)) key = None"
  using assms(1)
proof (induction ls)
  case (Cons l ls)
  let ?t = "concat (map (\<lambda>l. l @ [10]) (l # ls))"
  have line: "first_line ?t = l @ [10]" "drop (length (first_line ?t)) ?t = concat (map (\<lambda>l. l @ [10]) ls)"
    using Cons.prems by (auto simp: first_line_def takeWhile_append)
  have IH: "key_lookup (concat (map (\<lambda>l. l @ [10]) ls)) key = None" using Cons by simp
  have ne: "?t \<noteq> []" by simp
  have "k \<noteq> key" if "raw_setting (take 511 (first_line ?t)) = Some (k, v)" for k v
    using spaced_key_setting [OF _ that [unfolded line(1)] assms(2,3)] Cons.prems by simp
  then show ?case
    unfolding key_lookup.simps [of ?t] line(2) IH using ne by (simp del: concat.simps list.map split: option.split prod.split)
qed simp

text \<open>
  C12. Looking up a key in a configuration text: \<open>ConfigFindKey\<close> returns \<open>NULL\<close> if no line has the key, and otherwise the
  place behind the first line that has, and a pointer to the rest of that line. The key of a line is all between its first
  character that is no blank and the equals sign, blanks before the sign included: so every key is missing from a text that
  writes a blank there, as \<open>boot.conf.example\<close> and \<open>README.md\<close> do. Comments, blank lines and lines without an equals sign
  are passed over, and of a line of more than 511 characters only so many count. The pointer goes into the array of the
  finished call: \<open>ConfigParseValue\<close> stores the value from there if its bytes are still the same, and otherwise the read
  is undefined.
\<close>
theorem config_key_found:
  assumes "0 \<notin> set t" "0 \<notin> set key" "length junk = 512" "0 < length v" "length v < 2 ^ 64"
  shows "(case key_lookup t key of
      None \<Rightarrow> ConfigFindKey junk (length p) (p @ t @ 0 # r) (key @ [0]) = Ret None
    | Some (n, w) \<Rightarrow> \<exists>str. ConfigFindKey junk (length p) (p @ t @ 0 # r) (key @ [0]) = Ret (Some (length p + n, str)) \<and>
        (let x = config_value (length v - 1) w in
         parse_found view str v = (if line_survives view then Ret (x @ 0 # drop (length x + 1) v) else Fault))) \<and>
    (\<forall>ls. t = concat (map (\<lambda>l. l @ [10]) ls) \<and> (\<forall>l \<in> set ls. 10 \<notin> set l \<and> spaced_key l) \<and> key \<noteq> [] \<and> last key \<noteq> 32 \<longrightarrow>
      ConfigFindKey junk (length p) (p @ t @ 0 # r) (key @ [0]) = Ret None)"
proof (cases "key_lookup t key")
  case None
  then have "ConfigFindKey junk (length p) (p @ t @ 0 # r) (key @ [0]) = Ret None"
    using ConfigFindKey_eq [OF assms(2,3), of "length p" "p @ t @ 0 # r" t r] assms(1) by simp
  then show ?thesis unfolding None option.case by blast
next
  case (Some nw)
  then obtain n w where nw: "key_lookup t key = Some (n, w)" by (cases nw) simp
  then obtain J where J: "ConfigFindKey junk (length p) (p @ t @ 0 # r) (key @ [0]) = Ret (Some (length p + n, w @ 0 # J))"
    using ConfigFindKey_eq [OF assms(2,3), of "length p" "p @ t @ 0 # r" t r] assms(1) by auto
  have "0 \<notin> set w" using key_lookup_set [OF nw] assms(1) by blast
  then have "ztext (drop 0 (w @ 0 # J)) = w" by (auto simp: ztext_def takeWhile_append)
  moreover have "0 \<in> set (drop 0 (w @ 0 # J))" by simp
  ultimately have parse: "\<exists>k. ConfigParseValue 0 (w @ 0 # J) v (of_nat (length v)) =
      Ret (k, let x = config_value (length v - 1) w in x @ 0 # drop (length x + 1) v)"
    using ConfigParseValue_eq [OF _ assms(4) le_refl assms(5) refl, of 0 "w @ 0 # J"] by (auto simp: Let_def)
  have none: "\<not> (t = concat (map (\<lambda>l. l @ [10]) ls) \<and> (\<forall>l \<in> set ls. 10 \<notin> set l \<and> spaced_key l) \<and> key \<noteq> [] \<and> last key \<noteq> 32)" for ls
    using spaced_keys_lookup [of ls key] nw by force
  have "parse_found view (w @ 0 # J) v = (if line_survives view
      then Ret (let x = config_value (length v - 1) w in x @ 0 # drop (length x + 1) v) else Fault)"
    using parse by (auto simp: parse_found_def)
  with J show ?thesis unfolding nw option.case prod.case Let_def using none by blast
qed

text \<open>A text with one line of each kind, and two settings written like those of \<open>boot.conf.example\<close>.\<close>

theorem config_key_found_witness:
  "(\<exists>str. ConfigFindKey (replicate 512 7) 0 (wide ''# x\<newline> a = 1\<newline>b=22\<newline>'') (wide ''b'') = Ret (Some (16, str)) \<and>
     parse_found \<lparr>line_survives = True, key_behind = []\<rparr> str [7, 7, 7, 7] = Ret [50, 50, 0, 7]) \<and>
   ConfigFindKey (replicate 512 7) 0 (wide ''title = A\<newline>timeout = 5\<newline>'') (wide ''timeout'') = Ret None"
proof
  let ?t = "map of_char ''# x\<newline> a = 1\<newline>b=22\<newline>'' :: u16 list" and ?k = "map of_char ''b'' :: u16 list"
  have look: "key_lookup ?t ?k = Some (16, [50, 50, 10])" "config_value (length [7, 7, 7, 7 :: u16] - 1) [50, 50, 10] = [50, 50]"
    by code_simp+
  have zero: "0 \<notin> set ?t" "0 \<notin> set ?k" by simp_all
  have eqs: "wide ''# x\<newline> a = 1\<newline>b=22\<newline>'' = [] @ ?t @ 0 # []" "wide ''b'' = ?k @ [0]" by (simp_all add: wide_def)
  have "\<exists>str. ConfigFindKey (replicate 512 7) (length []) ([] @ ?t @ 0 # []) (?k @ [0]) = Ret (Some (length [] + 16, str)) \<and>
      (let x = config_value (length [7, 7, 7, 7 :: u16] - 1) [50, 50, 10] in
       parse_found \<lparr>line_survives = True, key_behind = []\<rparr> str [7, 7, 7, 7] =
         (if line_survives \<lparr>line_survives = True, key_behind = []\<rparr> then Ret (x @ 0 # drop (length x + 1) [7, 7, 7, 7]) else Fault))"
    using conjunct1 [OF config_key_found [OF zero, of "replicate 512 7" "[7, 7, 7, 7]" "[]" "[]" "\<lparr>line_survives = True, key_behind = []\<rparr>"]]
    unfolding look(1) by simp
  then show "\<exists>str. ConfigFindKey (replicate 512 7) 0 (wide ''# x\<newline> a = 1\<newline>b=22\<newline>'') (wide ''b'') = Ret (Some (16, str)) \<and>
     parse_found \<lparr>line_survives = True, key_behind = []\<rparr> str [7, 7, 7, 7] = Ret [50, 50, 0, 7]"
    unfolding eqs look(2) Let_def by simp
  let ?ls = "[map of_char ''title = A'', map of_char ''timeout = 5''] :: u16 list list" and ?key = "map of_char ''timeout'' :: u16 list"
  have keys: "takeWhile (\<lambda>c. c \<noteq> 61) (?ls ! 0) = map of_char ''title'' @ [32]"
    "takeWhile (\<lambda>c. c \<noteq> 61) (?ls ! 1) = map of_char ''timeout'' @ [32]" by code_simp+
  then have ls: "\<forall>l \<in> set ?ls. 10 \<notin> set l \<and> spaced_key l" by (auto simp: spaced_key_def)
  have "wide ''title = A\<newline>timeout = 5\<newline>'' = [] @ concat (map (\<lambda>l. l @ [10]) ?ls) @ 0 # []" "wide ''timeout'' = ?key @ [0]"
    by (simp_all add: wide_def)
  moreover have nz: "0 \<notin> set (concat (map (\<lambda>l. l @ [10]) ?ls))" "0 \<notin> set ?key" by simp_all
  have key: "?key \<noteq> []" "last ?key \<noteq> 32" "length (replicate 512 (7 :: u16)) = 512" "0 < length [7 :: u16]" "length [7 :: u16] < 2 ^ 64"
    by (simp_all add: length_replicate)
  have "ConfigFindKey (replicate 512 7) (length ([] :: u16 list)) ([] @ concat (map (\<lambda>l. l @ [10]) ?ls) @ 0 # []) (?key @ [0]) = Ret None"
    by (rule conjunct2 [OF config_key_found [OF nz key(3-5)], THEN spec [of _ ?ls], THEN mp]) (intro conjI refl ls key)
  ultimately show "ConfigFindKey (replicate 512 7) 0 (wide ''title = A\<newline>timeout = 5\<newline>'') (wide ''timeout'') = Ret None" by simp
qed

text \<open>
  C11. Loading the configuration never yields a boot entry: whenever \<open>ConfigLoad\<close> returns, under any firmware and
  whatever the file holds, the configuration has no entries, none is enabled, the timeout is the preset 5 seconds, and
  asking for the default entry gives \<open>EFI_NOT_FOUND\<close>. If the array of a finished call does not survive it, a file with
  a single character already leads to an undefined operation.
\<close>
theorem config_load_no_entry:
  assumes "ConfigLoad fw view jk str s = Ret (st, c, t)"
  shows "uc_count c = 0 \<and> uc_timeout c = 5 \<and> (\<forall>e \<in> set (uc_entries c). \<not> be_enabled e) \<and>
    ConfigGetDefaultEntry c = Ret (EFI_NOT_FOUND, None) \<and>
    (\<not> line_survives view \<longrightarrow> content ! 0 \<noteq> 0 \<longrightarrow> (\<nexists>d. load_loop view jk content 0 (zero_config, 0) = Ret d))"
proof -
  have "titled c" using ensuresD [OF ConfigLoad_config assms] by simp
  then have c: "uc_count c = 0" "uc_timeout c = 5" "uc_entries c = replicate MAX_BOOT_ENTRIES zero_boot_entry"
    by (auto simp: titled_def zero_config_def)
  have "\<not> line_survives view \<Longrightarrow> content ! 0 \<noteq> 0 \<Longrightarrow> load_loop view jk content 0 (zero_config, 0) \<noteq> Ret d" for d
    using load_loop_title [of view jk content 0 zero_config 0] by (cases d) blast
  then show ?thesis using c by (auto simp: ConfigGetDefaultEntry_def first_from_end zero_boot_entry_def)
qed

definition sample_volume :: efi_volume where "sample_volume = \<lparr>vol_device = 0, vol_fs = 0, vol_root = 0\<rparr>"

definition sample_load :: load_junk where
  "sample_load = \<lparr>lj_volume = sample_volume, lj_size = 0, lj_line = replicate 512 7, lj_text = replicate 16 7\<rparr>"

text \<open>A firmware on which every call succeeds and the file holds the title \<open>A\<close>; the state counts the reads of it.\<close>

definition sample_info :: file_info where "sample_info = \<lparr>fi_size = 14, fi_attribute = 0, fi_name = wide ''f''\<rparr>"

definition sample_fw :: "u64 firmware" where
  "sample_fw = \<lparr>fw_error = (\<lambda>st. st \<noteq> 0), fw_set_watchdog = id, fw_stall = (\<lambda>_. id),
     fw_open_protocol = (\<lambda>_ w. ((0, 1), w)), fw_close_protocol = (\<lambda>_ w. (0, w)), fw_open_volume = (\<lambda>_ w. ((0, 2), w)),
     fw_file_open = (\<lambda>_ _ w. ((0, 3), w)), fw_file_close = (\<lambda>_ w. (0, w)),
     fw_file_read = (\<lambda>_ n w. ((0, 14, take 14 (narrow_view (wide ''title=A''))), w + 1)), fw_file_write = (\<lambda>_ _ w. ((0, 0), w)),
     fw_dir_read = (\<lambda>_ _ w. ((0, 0, sample_info), w)), fw_get_info = (\<lambda>_ b _ w. ((if b then 0 else 5, 8, sample_info), w)),
     fw_set_position = (\<lambda>_ _ w. (0, w)), fw_alloc_pool = (\<lambda>n w. ((0, 4096, replicate (unat n) 7), w)), fw_free_pool = (\<lambda>_. id),
     fw_alloc_pages = (\<lambda>n w. ((0, 8192, replicate (unat n * 4096) 7), w)), fw_free_pages = (\<lambda>_ _. id),
     fw_get_memory_map = (\<lambda>_ b _ w. ((if b then 0 else 5, 48, w, 48, 1, replicate 48 7), w)), fw_exit_boot = (\<lambda>_ _ w. (0, w)),
     fw_read_key = (\<lambda>w. ((6, 0, 0), w)), fw_get_variable = (\<lambda>_ _ _ w. ((14, 0, []), w)), fw_table_count = (\<lambda>_. 0),
     fw_table_addr = (\<lambda>_. 0), fw_memory = (\<lambda>_ _. 0)\<rparr>"

definition sample_run :: "u64 uefi_run" where
  "sample_run = \<lparr>has_console = True, con_log = [], world = 0, gImageHandle = 1\<rparr>"

theorem config_load_no_entry_witness:
  "\<exists>c t. ConfigLoad sample_fw \<lparr>line_survives = True, key_behind = []\<rparr> sample_load (wide ''c'') sample_run = Ret (EFI_SUCCESS, c, t) \<and>
     take 2 (uc_title c) = wide ''A'' \<and> uc_count c = 0"
proof -
  let ?view = "\<lparr>line_survives = True, key_behind = []\<rparr>"
  obtain c t where load: "ConfigLoad sample_fw ?view sample_load (wide ''c'') sample_run = Ret (EFI_SUCCESS, c, t)"
    "take 2 (uc_title c) = wide ''A''"
  proof -
    have "(case ConfigLoad sample_fw ?view sample_load (wide ''c'') sample_run of
        Ret (st, c, t) \<Rightarrow> st = EFI_SUCCESS \<and> take 2 (uc_title c) = wide ''A'' | _ \<Rightarrow> False)"
      by code_simp
    then show ?thesis using that by (auto split: outcome.splits)
  qed
  then show ?thesis using config_load_no_entry [OF load(1)] by blast
qed

text \<open>
  The table of boot entries is a bounded sequence: adding appends, or reports \<open>EFI_OUT_OF_RESOURCES\<close> at 10 entries
  and changes nothing; removing takes out the entry at the index and keeps the order, or reports \<open>EFI_NOT_FOUND\<close> behind
  the end; the default is the first entry that is marked and enabled, else the first one if it is enabled. The table
  stays within its bounds.
\<close>
theorem config_table_is_sequence:
  assumes "table_ok c"
  shows "(if length (entries_of c) < 10
     then \<exists>d. ConfigAddEntry c e = (EFI_SUCCESS, d) \<and> table_ok d \<and> entries_of d = entries_of c @ [e]
     else ConfigAddEntry c e = (EFI_OUT_OF_RESOURCES, c)) \<and>
    (if unat k < length (entries_of c)
     then \<exists>d. ConfigRemoveEntry c k = (EFI_SUCCESS, d) \<and> table_ok d \<and>
       entries_of d = take (unat k) (entries_of c) @ drop (Suc (unat k)) (entries_of c)
     else ConfigRemoveEntry c k = (EFI_NOT_FOUND, c)) \<and>
    ConfigGetDefaultEntry c = Ret (case default_index (entries_of c) of
      Some i \<Rightarrow> (EFI_SUCCESS, Some i) | None \<Rightarrow> (EFI_NOT_FOUND, None))"
  using ConfigAddEntry_entries [OF assms, of e] ConfigRemoveEntry_entries [OF assms, of k]
    ConfigGetDefaultEntry_entries [OF assms] unfolding MAX_BOOT_ENTRIES_def by blast

theorem config_table_is_sequence_witness:
  "ConfigRemoveEntry zero_config 0 = (EFI_NOT_FOUND, zero_config) \<and>
   (\<exists>d. ConfigAddEntry zero_config zero_boot_entry = (EFI_SUCCESS, d) \<and> entries_of d = [zero_boot_entry])"
proof -
  have "table_ok zero_config" "entries_of zero_config = []"
    by (simp_all add: table_ok_def zero_config_def entries_of_def)
  then show ?thesis using config_table_is_sequence [of zero_config zero_boot_entry 0] by auto
qed

end
