(* ===== verification/UefiHal.thy ===== *)
theory UefiHal
  imports UefiConfig
begin

text \<open>
  The hardware layer of the UEFI loader (\<open>uefi/hal/*.c\<close>): control registers, descriptor tables, page tables, the ACPI
  root pointer, the memory map, and the dump of the memory map of \<open>uefi/util/util.c\<close>. What an instruction does to the
  machine is an event of a log, with the bytes it reads as its operand; the addresses of the static tables,
  of the handler and of the system table are parameters. Page tables are arrays of 512 numbers, by the address of their page.
\<close>

section \<open>Registers and tables\<close>

datatype hw_event =
  Cli | Sti | Hlt
| Lgdt bytes
| Lidt bytes
| LoadSegments u16
| WriteCr nat u64
| WriteMsr u32 u32 u32
| InvalidatePage u64
| JumpTo u64 u64

record gdt_entry =
  gd_limit_low :: u16
  gd_base_low :: u16
  gd_base_middle :: u8
  gd_access :: u8
  gd_granularity :: u8
  gd_base_high :: u8

record idt_entry =
  id_offset_low :: u16
  id_selector :: u16
  id_ist :: u8
  id_type_attr :: u8
  id_offset_middle :: u16
  id_offset_high :: u32
  id_reserved :: u32

record 'w uefi_hal = "'w uefi_run" +
  gGdt :: "gdt_entry list"
  gGdtr :: "u64 \<times> u64"
  gIdt :: "idt_entry list"
  gIdtr :: "u64 \<times> u64"
  hw_log :: "hw_event list"
  cr_regs :: "nat \<Rightarrow> u64"
  msr_regs :: "u32 \<Rightarrow> u64"
  gPml4 :: u64
  gPdpt :: u64
  gPd :: u64
  gPt :: u64
  table_mem :: "u64 \<Rightarrow> nat \<Rightarrow> u64"

record hal_addrs =
  addr_gdt :: u64
  addr_idt :: u64
  addr_handler :: u64
  addr_system :: u64

definition hw :: "hw_event \<Rightarrow> ('w, 'z) uefi_hal_scheme \<Rightarrow> ('w, 'z) uefi_hal_scheme" where
  "hw e s = s\<lparr>hw_log := hw_log s @ [e]\<rparr>"

definition HalDisableInterrupts :: "('w, 'z) uefi_hal_scheme \<Rightarrow> ('w, 'z) uefi_hal_scheme" where
  "HalDisableInterrupts = hw Cli"

definition HalEnableInterrupts :: "('w, 'z) uefi_hal_scheme \<Rightarrow> ('w, 'z) uefi_hal_scheme" where
  "HalEnableInterrupts = hw Sti"

definition HalHalt :: "('w, 'z) uefi_hal_scheme \<Rightarrow> ('w, 'z) uefi_hal_scheme" where
  "HalHalt = hw Hlt"

text \<open>\<open>HalReadCr0\<close> to \<open>HalReadCr4\<close> and \<open>HalWriteCr0\<close> to \<open>HalWriteCr4\<close>, by the number of the register.\<close>

definition HalReadCr :: "nat \<Rightarrow> ('w, 'z) uefi_hal_scheme \<Rightarrow> u64" where "HalReadCr n s = cr_regs s n"

definition HalWriteCr :: "nat \<Rightarrow> u64 \<Rightarrow> ('w, 'z) uefi_hal_scheme \<Rightarrow> ('w, 'z) uefi_hal_scheme" where
  "HalWriteCr n v s = hw (WriteCr n v) (s\<lparr>cr_regs := (cr_regs s)(n := v)\<rparr>)"

definition HalReadMsr :: "u32 \<Rightarrow> ('w, 'z) uefi_hal_scheme \<Rightarrow> u32 \<times> u32" where
  "HalReadMsr m s = (ucast (msr_regs s m), ucast (drop_bit 32 (msr_regs s m)))"

definition HalWriteMsr :: "u32 \<Rightarrow> u32 \<Rightarrow> u32 \<Rightarrow> ('w, 'z) uefi_hal_scheme \<Rightarrow> ('w, 'z) uefi_hal_scheme" where
  "HalWriteMsr m low high s =
     hw (WriteMsr m low high) (s\<lparr>msr_regs := (msr_regs s)(m := push_bit 32 (ucast high) OR ucast low)\<rparr>)"

definition HalReadMsr64 :: "u32 \<Rightarrow> ('w, 'z) uefi_hal_scheme \<Rightarrow> u64" where
  "HalReadMsr64 m s = (case HalReadMsr m s of (low, high) \<Rightarrow> push_bit 32 (ucast high) OR ucast low)"

definition HalWriteMsr64 :: "u32 \<Rightarrow> u64 \<Rightarrow> ('w, 'z) uefi_hal_scheme \<Rightarrow> ('w, 'z) uefi_hal_scheme" where
  "HalWriteMsr64 m v s = HalWriteMsr m (ucast (v AND 0xFFFFFFFF)) (ucast (drop_bit 32 v)) s"

definition HalInvalidateTlb :: "('w, 'z) uefi_hal_scheme \<Rightarrow> ('w, 'z) uefi_hal_scheme" where
  "HalInvalidateTlb s = HalWriteCr 3 (HalReadCr 3 s) s"

definition HalInvalidatePage :: "u64 \<Rightarrow> ('w, 'z) uefi_hal_scheme \<Rightarrow> ('w, 'z) uefi_hal_scheme" where
  "HalInvalidatePage a = hw (InvalidatePage a)"

section \<open>Descriptor tables\<close>

definition GDT_ENTRIES :: nat where "GDT_ENTRIES = 7"
definition IDT_ENTRIES :: nat where "IDT_ENTRIES = 256"

definition zero_gdt_entry :: gdt_entry where
  "zero_gdt_entry = \<lparr>gd_limit_low = 0, gd_base_low = 0, gd_base_middle = 0, gd_access = 0, gd_granularity = 0, gd_base_high = 0\<rparr>"

definition make_gdt_entry :: "u64 \<Rightarrow> u64 \<Rightarrow> u8 \<Rightarrow> u8 \<Rightarrow> gdt_entry" where
  "make_gdt_entry base limit access granularity =
     \<lparr>gd_limit_low = ucast (limit AND 0xFFFF), gd_base_low = ucast (base AND 0xFFFF),
      gd_base_middle = ucast (drop_bit 16 base AND 0xFF), gd_access = access,
      gd_granularity = ucast (drop_bit 16 limit AND 0x0F) OR (granularity AND 0xF0),
      gd_base_high = ucast (drop_bit 24 base AND 0xFF)\<rparr>"

definition HalSetGdtEntry :: "nat \<Rightarrow> u64 \<Rightarrow> u64 \<Rightarrow> u8 \<Rightarrow> u8 \<Rightarrow> ('w, 'z) uefi_hal_scheme \<Rightarrow> ('w, 'z) uefi_hal_scheme" where
  "HalSetGdtEntry i base limit access granularity s =
     s\<lparr>gGdt := (gGdt s)[i := make_gdt_entry base limit access granularity]\<rparr>"

text \<open>The operand of \<open>lgdt\<close> and \<open>lidt\<close> is the structure of two 64-bit numbers as it lies in memory.\<close>

definition table_operand :: "u64 \<times> u64 \<Rightarrow> bytes" where
  "table_operand r = le_bytes 8 (fst r) @ le_bytes 8 (snd r)"

definition HalSetupGdt :: "hal_addrs \<Rightarrow> ('w, 'z) uefi_hal_scheme \<Rightarrow> ('w, 'z) uefi_hal_scheme" where
  "HalSetupGdt a s =
     (let s = s\<lparr>gGdt := replicate GDT_ENTRIES zero_gdt_entry\<rparr>;
          s = HalSetGdtEntry 0 0 0 0 0 s;
          s = HalSetGdtEntry 1 0 0xFFFFFFFF 0x9A 0xAF s;
          s = HalSetGdtEntry 2 0 0xFFFFFFFF 0x92 0xCF s;
          s = HalSetGdtEntry 3 0 0xFFFFFFFF 0xFA 0xAF s;
          s = HalSetGdtEntry 4 0 0xFFFFFFFF 0xF2 0xCF s;
          s = s\<lparr>gGdtr := (of_nat (8 * GDT_ENTRIES - 1), addr_gdt a)\<rparr>
      in hw (LoadSegments 0x10) (hw (Lgdt (table_operand (gGdtr s))) s))"

definition make_idt_entry :: "u64 \<Rightarrow> u16 \<Rightarrow> u8 \<Rightarrow> idt_entry" where
  "make_idt_entry handler selector type_attr =
     \<lparr>id_offset_low = ucast (handler AND 0xFFFF), id_selector = selector, id_ist = 0, id_type_attr = type_attr,
      id_offset_middle = ucast (drop_bit 16 handler AND 0xFFFF), id_offset_high = ucast (drop_bit 32 handler AND 0xFFFFFFFF),
      id_reserved = 0\<rparr>"

definition HalSetIdtEntry :: "nat \<Rightarrow> u64 \<Rightarrow> u16 \<Rightarrow> u8 \<Rightarrow> ('w, 'z) uefi_hal_scheme \<Rightarrow> ('w, 'z) uefi_hal_scheme" where
  "HalSetIdtEntry i handler selector type_attr s =
     s\<lparr>gIdt := (gIdt s)[i := make_idt_entry handler selector type_attr]\<rparr>"

definition HalDefaultExceptionHandler :: "('w, 'z) uefi_hal_scheme \<Rightarrow> ('w, 'z) uefi_hal_scheme outcome" where
  "HalDefaultExceptionHandler s = (let s = EfiPrintString ''Exception occurred!\<newline>'' s in Hang)"

definition HalSetupIdt :: "hal_addrs \<Rightarrow> ('w, 'z) uefi_hal_scheme \<Rightarrow> ('w, 'z) uefi_hal_scheme" where
  "HalSetupIdt a s =
     (let s = s\<lparr>gIdt := replicate IDT_ENTRIES (make_idt_entry 0 0 0)\<rparr>;
          s = fold (\<lambda>i. HalSetIdtEntry i (addr_handler a) 0x08 0x8E) [0..<IDT_ENTRIES] s;
          s = s\<lparr>gIdtr := (of_nat (16 * IDT_ENTRIES - 1), addr_idt a)\<rparr>
      in hw (Lidt (table_operand (gIdtr s))) s)"

definition HalInitialize :: "hal_addrs \<Rightarrow> ('w, 'z) uefi_hal_scheme \<Rightarrow> ('w, 'z) uefi_hal_scheme" where
  "HalInitialize a s = HalSetupIdt a (HalSetupGdt a (HalDisableInterrupts s))"

text \<open>The jump does not return; the boot information of the context is not used.\<close>

record jump_context =
  jc_entry :: u64
  jc_stack :: u64
  jc_info :: u64

definition HalJumpToKernel :: "jump_context \<Rightarrow> ('w, 'z) uefi_hal_scheme \<Rightarrow> ('w, 'z) uefi_hal_scheme" where
  "HalJumpToKernel c = hw (JumpTo (jc_stack c) (jc_entry c))"

section \<open>Page tables\<close>

definition PAGE_ENTRIES :: nat where "PAGE_ENTRIES = 512"

text \<open>The bit fields: present, writable, user, and the frame in bits 12 to 51.\<close>

definition HalMakePageEntry :: "u64 \<Rightarrow> bool \<Rightarrow> bool \<Rightarrow> u64" where
  "HalMakePageEntry pa w u =
     1 OR (if w then 2 else 0) OR (if u then 4 else 0) OR push_bit 12 (take_bit 40 (drop_bit 12 pa))"

definition set_table :: "u64 \<Rightarrow> nat \<Rightarrow> u64 \<Rightarrow> ('w, 'z) uefi_hal_scheme \<Rightarrow> ('w, 'z) uefi_hal_scheme" where
  "set_table t i v s = s\<lparr>table_mem := (table_mem s)(t := (table_mem s t)(i := v))\<rparr>"

definition clear_table :: "u64 \<Rightarrow> ('w, 'z) uefi_hal_scheme \<Rightarrow> ('w, 'z) uefi_hal_scheme" where
  "clear_table t s = s\<lparr>table_mem := (table_mem s)(t := (\<lambda>_. 0))\<rparr>"

text \<open>\<open>1 << 31\<close> is a signed number, which has its upper half set when it is widened.\<close>

definition HalSetupPaging :: "'w firmware \<Rightarrow> ('w, 'z) uefi_hal_scheme \<Rightarrow> ('w, 'z) uefi_hal_scheme" where
  "HalSetupPaging fw s =
     (case call (fw_alloc_pages fw 1) s of ((st, p4, _), s) \<Rightarrow>
      if fw_error fw st then EfiPrintError ''Failed to allocate PML4\<newline>'' s
      else let s = clear_table p4 (s\<lparr>gPml4 := p4\<rparr>) in
      case call (fw_alloc_pages fw 1) s of ((st, p3, _), s) \<Rightarrow>
      if fw_error fw st then EfiPrintError ''Failed to allocate PDPT\<newline>'' s
      else let s = set_table p4 0 (HalMakePageEntry p3 True False) (clear_table p3 (s\<lparr>gPdpt := p3\<rparr>)) in
      case call (fw_alloc_pages fw 1) s of ((st, p2, _), s) \<Rightarrow>
      if fw_error fw st then EfiPrintError ''Failed to allocate PD\<newline>'' s
      else let s = set_table p3 0 (HalMakePageEntry p2 True False) (clear_table p2 (s\<lparr>gPd := p2\<rparr>)) in
      case call (fw_alloc_pages fw 1) s of ((st, p1, _), s) \<Rightarrow>
      if fw_error fw st then EfiPrintError ''Failed to allocate PT\<newline>'' s
      else let s = set_table p2 0 (HalMakePageEntry p1 True False) (clear_table p1 (s\<lparr>gPt := p1\<rparr>));
               s = fold (\<lambda>i. set_table p1 i (HalMakePageEntry (of_nat i * 4096) True False)) [0..<PAGE_ENTRIES] s;
               s = HalWriteCr 3 p4 s;
               s = HalWriteCr 0 (HalReadCr 0 s OR 0xFFFFFFFF80000000) s
           in HalWriteCr 4 (HalReadCr 4 s OR 32) s)"

section \<open>The ACPI root pointer\<close>

definition mem_bytes :: "(u64 \<Rightarrow> u8) \<Rightarrow> u64 \<Rightarrow> nat \<Rightarrow> bytes" where
  "mem_bytes m a n = map (\<lambda>i. m (a + of_nat i)) [0..<n]"

definition HalVerifyChecksum :: "(u64 \<Rightarrow> u8) \<Rightarrow> u64 \<Rightarrow> u32 \<Rightarrow> bool" where
  "HalVerifyChecksum m a len \<longleftrightarrow> sum_list (mem_bytes m a (unat len)) = 0"

definition Acpi20Guid :: bytes where
  "Acpi20Guid = [0x71, 0xE8, 0x68, 0x88, 0xF1, 0xE4, 0xD3, 0x11, 0xBC, 0x22, 0x00, 0x80, 0xC7, 0x3C, 0x88, 0x81]"

definition Acpi10Guid :: bytes where
  "Acpi10Guid = [0x30, 0x2D, 0x9D, 0xEB, 0x88, 0x2D, 0xD3, 0x11, 0x9A, 0x16, 0x00, 0x90, 0x27, 0x3F, 0xC1, 0x4D]"

text \<open>
  The loader declares an entry of the configuration table as a number of 32 bits, a number of 64 bits and a pointer, so
  that the identifier is read at offset 8 and the table at offset 16 of its 24 bytes.
\<close>

definition HalFindRsdp :: "'w firmware \<Rightarrow> ('w, 'z) uefi_run_scheme \<Rightarrow> u64" where
  "HalFindRsdp fw s =
     (let m = fw_memory fw (world s);
          at = (\<lambda>i. fw_table_addr fw (world s) + 24 * of_nat i);
          hit = (\<lambda>i. mem_bytes m (at i + 8) 16 = Acpi20Guid \<or> mem_bytes m (at i + 8) 16 = Acpi10Guid)
      in case first_from hit 0 (unat (fw_table_count fw (world s))) of
           None \<Rightarrow> 0
         | Some i \<Rightarrow> le_value (mem_bytes m (at i + 16) 8))"

record acpi_info =
  ai_rsdp :: u64
  ai_tables :: u64
  ai_count :: u64

text \<open>\<open>Rsdt->Length - sizeof(ACPI_TABLE_HEADER)\<close> is computed in 64 bits, and the count is cut to 32.\<close>

definition HalGetAcpiInfo :: "'w firmware \<Rightarrow> ('w, 'z) uefi_run_scheme \<Rightarrow> acpi_info \<times> ('w, 'z) uefi_run_scheme" where
  "HalGetAcpiInfo fw s =
     (let info = \<lparr>ai_rsdp = 0, ai_tables = 0, ai_count = 0\<rparr>; m = fw_memory fw (world s); rsdp = HalFindRsdp fw s in
      if rsdp = 0 then (info, EfiPrintError ''Failed to find RSDP\<newline>'' s)
      else if \<not> HalVerifyChecksum m rsdp 20 then (info, EfiPrintError ''RSDP checksum failed\<newline>'' s)
      else let info = info\<lparr>ai_rsdp := rsdp\<rparr>;
               s = EfiPrintString (if 2 \<le> m (rsdp + 15) then ''ACPI 2.0+ detected\<newline>'' else ''ACPI 1.0 detected\<newline>'') s;
               rsdt = le_value (mem_bytes m (rsdp + 16) 4);
               len = le_value (mem_bytes m (rsdt + 4) 4)
      in if rsdt = 0 then (info, EfiPrintError ''RSDT not found\<newline>'' s)
         else if \<not> HalVerifyChecksum m rsdt (ucast len) then (info, EfiPrintError ''RSDT checksum failed\<newline>'' s)
         else (info\<lparr>ai_tables := rsdt + 36, ai_count := take_bit 32 ((len - 36) div 4)\<rparr>, s))"

section \<open>The memory map\<close>

record memory_map =
  mm_count :: u64
  mm_entries :: u64
  mm_bytes :: bytes

text \<open>A number of 8 bytes stored in an object.\<close>

definition put64 :: "nat \<Rightarrow> u64 \<Rightarrow> bytes \<Rightarrow> bytes outcome" where
  "put64 off v obj = (if off + 8 \<le> length obj then Ret (take off obj @ le_bytes 8 v @ drop (off + 8) obj) else Fault)"

text \<open>One turn of the conversion: the entry of 24 bytes is written over the descriptors it is read from.\<close>

definition convert_entry :: "nat \<Rightarrow> nat \<Rightarrow> bytes \<Rightarrow> bytes outcome" where
  "convert_entry dsize i buf =
     bindR (le_at 8 buf (dsize * i + 8)) (\<lambda>start.
     bindR (put64 (24 * i) start buf) (\<lambda>buf.
     bindR (le_at 8 buf (dsize * i + 24)) (\<lambda>pages.
     bindR (put64 (24 * i + 8) (pages * 4096) buf) (\<lambda>buf.
     bindR (le_at 4 buf (dsize * i)) (\<lambda>ty.
     put64 (24 * i + 16) ty buf)))))"

definition HalGetMemoryMap ::
  "'w firmware \<Rightarrow> memory_map \<Rightarrow> ('w, 'z) uefi_run_scheme \<Rightarrow> (memory_map \<times> ('w, 'z) uefi_run_scheme) outcome" where
  "HalGetMemoryMap fw map0 s =
     (case call (fw_get_memory_map fw (Some 0) False True) s of ((st, size0, _, dsize, _, _), s) \<Rightarrow>
      if st \<noteq> EFI_BUFFER_TOO_SMALL then Ret (map0, EfiPrintError ''Failed to get memory map size\<newline>'' s)
      else case call (fw_alloc_pool fw (size0 + 2 * dsize)) s of ((st, p, buf), s) \<Rightarrow>
      if fw_error fw st then Ret (map0, EfiPrintError ''Failed to allocate memory for memory map\<newline>'' s)
      else case call (fw_get_memory_map fw (Some (size0 + 2 * dsize)) True True) s of ((st, size1, _, dsize, _, bs), s) \<Rightarrow>
      bindR (memcpy_at (length bs) 0 0 buf bs) (\<lambda>buf.
      if fw_error fw st then Ret (map0, tell (fw_free_pool fw p) (EfiPrintError ''Failed to get memory map\<newline>'' s))
      else if dsize = 0 then Fault
      else bindR (forR (convert_entry (unat dsize)) [0..<unat (size1 div dsize)] buf) (\<lambda>buf.
      Ret (\<lparr>mm_count = size1 div dsize, mm_entries = p, mm_bytes = buf\<rparr>, s))))"

text \<open>The names of \<open>UtilPrintMemoryMap\<close>, by the number of the type.\<close>

definition type_name :: "u64 \<Rightarrow> string" where
  "type_name ty =
     (if ty < 15
      then [''Reserved'', ''LoaderCode'', ''LoaderData'', ''BootCode'', ''BootData'', ''RuntimeCode'', ''RuntimeData'',
        ''Conventional'', ''Unusable'', ''ACPIReclaim'', ''ACPINVS'', ''MMIO'', ''IOPort'', ''PALCode'', ''Persistent''] ! unat ty
      else ''Unknown'')"

definition print_descriptor :: "nat \<Rightarrow> bytes \<Rightarrow> nat \<Rightarrow> 'z uefi_state_scheme \<Rightarrow> 'z uefi_state_scheme outcome" where
  "print_descriptor dsize buf i s =
     bindR (le_at 4 buf (dsize * i)) (\<lambda>ty.
     bindR (EfiPrintText (wide_view (lit (type_name ty))) s) (\<lambda>s.
     bindR (le_at 8 buf (dsize * i + 8)) (\<lambda>start.
     bindR (le_at 8 buf (dsize * i + 24)) (\<lambda>pages.
     bindR (le_at 8 buf (dsize * i + 32)) (\<lambda>attr.
     let s = EfiPrintHex start (EfiPrintString ''  '' s);
         s = EfiPrintHex (start + pages * 4096 - 1) (EfiPrintString ''  '' s);
         s = EfiPrintHex (pages * 4096) (EfiPrintString ''  '' s);
         s = EfiPrintHex attr (EfiPrintString ''  '' s)
     in Ret (EfiPrintString ''\<newline>'' s))))))"

definition UtilPrintMemoryMap :: "'w firmware \<Rightarrow> ('w, 'z) uefi_run_scheme \<Rightarrow> ('w, 'z) uefi_run_scheme outcome" where
  "UtilPrintMemoryMap fw s =
     (let s = EfiPrintString ''Memory Map:\<newline>'' s;
          s = EfiPrintString ''Type            Start            End              Size             Attributes\<newline>'' s;
          s = EfiPrintString ''--------------------------------------------------------------------------------\<newline>'' s in
      case call (fw_get_memory_map fw (Some 0) False True) s of ((st, size0, _, dsize, _, _), s) \<Rightarrow>
      if st \<noteq> EFI_BUFFER_TOO_SMALL then Ret (EfiPrintError ''Failed to get memory map size\<newline>'' s)
      else case call (fw_alloc_pool fw (size0 + 2 * dsize)) s of ((st, p, buf), s) \<Rightarrow>
      if fw_error fw st then Ret (EfiPrintError ''Failed to allocate memory map\<newline>'' s)
      else case call (fw_get_memory_map fw (Some (size0 + 2 * dsize)) True True) s of ((st, size1, _, dsize, _, bs), s) \<Rightarrow>
      bindR (memcpy_at (length bs) 0 0 buf bs) (\<lambda>buf.
      if fw_error fw st then Ret (tell (fw_free_pool fw p) (EfiPrintError ''Failed to get memory map\<newline>'' s))
      else if dsize = 0 then Fault
      else bindR (forR (print_descriptor (unat dsize) buf) [0..<unat (size1 div dsize)] s) (\<lambda>s.
      Ret (tell (fw_free_pool fw p) s))))"

section \<open>Descriptors read back\<close>

text \<open>What the processor takes for base and limit of a segment, for the address of a gate, and for the operand of \<open>lgdt\<close>:
a limit of 2 bytes and a base of 8.\<close>

definition desc_base :: "gdt_entry \<Rightarrow> u64" where
  "desc_base e = ucast (gd_base_low e) OR push_bit 16 (ucast (gd_base_middle e)) OR push_bit 24 (ucast (gd_base_high e))"

definition desc_limit :: "gdt_entry \<Rightarrow> u64" where
  "desc_limit e = ucast (gd_limit_low e) OR push_bit 16 (ucast (gd_granularity e AND 0x0F))"

definition gate_offset :: "idt_entry \<Rightarrow> u64" where
  "gate_offset e = ucast (id_offset_low e) OR push_bit 16 (ucast (id_offset_middle e)) OR push_bit 32 (ucast (id_offset_high e))"

definition loaded_table :: "bytes \<Rightarrow> u64 \<times> u64" where
  "loaded_table op = (le_value (take 2 op), le_value (take 8 (drop 2 op)))"

lemma low_masks:
  "(x :: u64) AND 0xFFFF = take_bit 16 x" "x AND 0xFF = take_bit 8 x" "x AND 0x0F = take_bit 4 x"
  "x AND 0xFFFFFFFF = take_bit 32 x" "(y :: u8) AND 0x0F = take_bit 4 y"
  by (simp_all add: take_bit_eq_mask mask_eq_exp_minus_1)

lemma gdt_entry_decodes:
  "desc_base (make_gdt_entry base limit access granularity) = take_bit 32 base"
  "desc_limit (make_gdt_entry base limit access granularity) = take_bit 20 limit"
proof -
  show "desc_base (make_gdt_entry base limit access granularity) = take_bit 32 base"
    unfolding desc_base_def make_gdt_entry_def low_masks
  proof (rule bit_word_eqI, goal_cases)
    case (1 n)
    consider "n < 16" | "16 \<le> n" "n < 24" | "24 \<le> n" "n < 32" | "32 \<le> n" by linarith
    then show ?case by cases (auto simp: bit_simps)
  qed
  have high: "(ucast (drop_bit 16 limit AND 0x0F) OR (granularity AND 0xF0)) AND 0x0F = (ucast (take_bit 4 (drop_bit 16 limit)) :: u8)"
  proof -
    have "(granularity AND 0xF0) AND 0x0F = 0"
      by (simp add: and.assoc)
    moreover have "ucast (take_bit 4 (drop_bit 16 limit)) AND 0x0F = (ucast (take_bit 4 (drop_bit 16 limit)) :: u8)"
      unfolding low_masks by (rule bit_word_eqI) (auto simp: bit_simps)
    ultimately show ?thesis by (simp add: bit.conj_disj_distrib2 low_masks(3))
  qed
  show "desc_limit (make_gdt_entry base limit access granularity) = take_bit 20 limit"
    unfolding desc_limit_def make_gdt_entry_def gdt_entry.select_convs high unfolding low_masks
  proof (rule bit_word_eqI, goal_cases)
    case (1 n)
    consider "n < 16" | "16 \<le> n" "n < 20" | "20 \<le> n" by linarith
    then show ?case by cases (auto simp: bit_simps)
  qed
qed

lemma idt_entry_decodes: "gate_offset (make_idt_entry handler selector type_attr) = handler"
  unfolding gate_offset_def make_idt_entry_def low_masks
proof (rule bit_word_eqI, goal_cases)
  case (1 n)
  consider "n < 16" | "16 \<le> n" "n < 32" | "32 \<le> n" by linarith
  then show ?case using 1 by cases (auto simp: bit_simps)
qed

lemma le_value_split: "le_value (as @ bs) = le_value as + push_bit (8 * length as) (le_value bs)"
  by (induction as) (simp_all add: le_value_def push_bit_eq_mult power_add power_mult algebra_simps power_Suc)

text \<open>The operand has a limit of 8 bytes, so the base the processor takes ends after 2 of the bytes of the address.\<close>

lemma table_operand_loaded:
  assumes "unat n < 2 ^ 16"
  shows "loaded_table (table_operand (n, a)) = (n, push_bit 48 a)"
proof -
  have small: "n < 2 ^ 16" using assms by (simp add: word_less_nat_alt)
  have n: "take_bit 16 n = n" "drop_bit 16 n = 0"
    using small by (simp_all add: take_bit_eq_mod drop_bit_eq_div mod_word_less div_word_less)
  have split2: "le_bytes 8 x = le_bytes 2 x @ le_bytes 6 (drop_bit 16 x)" for x
    by (simp add: le_bytes_Suc [of 7] le_bytes_Suc [of 6] le_bytes_Suc [of 1] le_bytes_Suc [of 0] numeral_eq_Suc le_bytes_def)
  have op: "table_operand (n, a) = le_bytes 2 n @ le_bytes 6 0 @ le_bytes 2 a @ le_bytes 6 (drop_bit 16 a)"
    by (simp add: table_operand_def split2 n)
  have "le_value (take 2 (table_operand (n, a))) = n" by (simp add: op le_value_bytes n)
  moreover have "take 8 (drop 2 (table_operand (n, a))) = le_bytes 6 0 @ le_bytes 2 a" by (simp add: op)
  moreover have "le_value (le_bytes 6 0 @ le_bytes 2 a) = push_bit 48 (take_bit 16 a)"
    by (simp add: le_value_split le_value_bytes)
  moreover have "push_bit 48 (take_bit 16 a) = push_bit 48 a" by (rule bit_word_eqI) (auto simp: bit_simps)
  ultimately show ?thesis by (simp add: loaded_table_def)
qed

lemma fold_idt: "gIdt (fold (\<lambda>i. HalSetIdtEntry i h sel ty) is s) = fold (\<lambda>i t. t[i := make_idt_entry h sel ty]) is (gIdt s)"
  by (induction "is" arbitrary: s) (simp_all add: HalSetIdtEntry_def)

lemma fold_idt_rest:
  "hw_log (fold (\<lambda>i. HalSetIdtEntry i h sel ty) is s) = hw_log s" "gGdt (fold (\<lambda>i. HalSetIdtEntry i h sel ty) is s) = gGdt s"
  by (induction "is" arbitrary: s) (simp_all add: HalSetIdtEntry_def)

lemma fold_fill: "n \<le> length t \<Longrightarrow> fold (\<lambda>i t. t[i := x]) [0..<n] t = replicate n x @ drop n t"
proof (induction n)
  case (Suc n)
  then have "drop n t = t ! n # drop (Suc n) t" by (simp add: Cons_nth_drop_Suc)
  with Suc show ?case by (simp add: list_update_append replicate_append_same)
qed simp

lemma HalInitialize_result:
  "gIdt (HalInitialize a s) = replicate 256 (make_idt_entry (addr_handler a) 0x08 0x8E)"
  "gGdt (HalInitialize a s) = [zero_gdt_entry, make_gdt_entry 0 0xFFFFFFFF 0x9A 0xAF, make_gdt_entry 0 0xFFFFFFFF 0x92 0xCF,
     make_gdt_entry 0 0xFFFFFFFF 0xFA 0xAF, make_gdt_entry 0 0xFFFFFFFF 0xF2 0xCF, zero_gdt_entry, zero_gdt_entry]"
  "hw_log (HalInitialize a s) = hw_log s @ [Cli, Lgdt (table_operand (55, addr_gdt a)), LoadSegments 0x10,
     Lidt (table_operand (4095, addr_idt a))]"
proof -
  have zero: "make_gdt_entry 0 0 0 0 = zero_gdt_entry" by (simp add: make_gdt_entry_def zero_gdt_entry_def)
  have seven: "replicate 7 x = [x, x, x, x, x, x, x]" for x :: gdt_entry by (simp add: numeral_eq_Suc)
  have gdt: "gGdt (HalSetupGdt a r) = [zero_gdt_entry, make_gdt_entry 0 0xFFFFFFFF 0x9A 0xAF, make_gdt_entry 0 0xFFFFFFFF 0x92 0xCF,
     make_gdt_entry 0 0xFFFFFFFF 0xFA 0xAF, make_gdt_entry 0 0xFFFFFFFF 0xF2 0xCF, zero_gdt_entry, zero_gdt_entry]"
    for r :: "('w, 'z) uefi_hal_scheme"
    unfolding HalSetupGdt_def Let_def GDT_ENTRIES_def HalSetGdtEntry_def hw_def zero seven
    by (simp add: numeral_eq_Suc del: upt.simps) 
  show "gGdt (HalInitialize a s) = [zero_gdt_entry, make_gdt_entry 0 0xFFFFFFFF 0x9A 0xAF, make_gdt_entry 0 0xFFFFFFFF 0x92 0xCF,
     make_gdt_entry 0 0xFFFFFFFF 0xFA 0xAF, make_gdt_entry 0 0xFFFFFFFF 0xF2 0xCF, zero_gdt_entry, zero_gdt_entry]"
    using gdt by (simp add: HalInitialize_def HalSetupIdt_def Let_def hw_def fold_idt_rest)
  show "gIdt (HalInitialize a s) = replicate 256 (make_idt_entry (addr_handler a) 0x08 0x8E)"
    by (simp add: HalInitialize_def HalSetupIdt_def Let_def hw_def fold_idt fold_fill IDT_ENTRIES_def del: upt_rec_numeral)
  show "hw_log (HalInitialize a s) = hw_log s @ [Cli, Lgdt (table_operand (55, addr_gdt a)), LoadSegments 0x10,
     Lidt (table_operand (4095, addr_idt a))]"
    by (simp add: HalInitialize_def HalSetupIdt_def HalSetupGdt_def HalDisableInterrupts_def Let_def hw_def fold_idt_rest
        HalSetGdtEntry_def IDT_ENTRIES_def GDT_ENTRIES_def del: upt_rec_numeral)
qed

lemma msr_reads_back: "HalReadMsr64 m (HalWriteMsr64 m v s) = v"
  unfolding HalReadMsr64_def HalWriteMsr64_def HalReadMsr_def HalWriteMsr_def hw_def low_masks
  by (simp del: ucast_eq) (rule bit_word_eqI, auto simp: bit_simps)

text \<open>C36. After \<open>HalInitialize\<close> all 256 gates lead to the handler and the seven segments decode to base 0, the four used
  ones with the largest limit; but the operands of \<open>lgdt\<close> and \<open>lidt\<close> begin with a limit of 8 bytes where the processor
  takes 2, so that the limit it takes is right and the base is the address shifted left by 48 bits: the tables are
  found only if their address is 0.\<close>

theorem hal_tables_loaded:
  "map gate_offset (gIdt (HalInitialize a s)) = replicate 256 (addr_handler a) \<and>
   map desc_base (gGdt (HalInitialize a s)) = replicate 7 0 \<and>
   map desc_limit (gGdt (HalInitialize a s)) = [0, 0xFFFFF, 0xFFFFF, 0xFFFFF, 0xFFFFF, 0, 0] \<and>
   (\<exists>g i. hw_log (HalInitialize a s) = hw_log s @ [Cli, Lgdt g, LoadSegments 0x10, Lidt i] \<and>
      loaded_table g = (8 * 7 - 1, push_bit 48 (addr_gdt a)) \<and> loaded_table i = (16 * 256 - 1, push_bit 48 (addr_idt a)))"
proof -
  have zero: "zero_gdt_entry = make_gdt_entry 0 0 0 0" by (simp add: make_gdt_entry_def zero_gdt_entry_def)
  have seven: "replicate 7 x = [x, x, x, x, x, x, x]" for x :: u64 by (simp add: numeral_eq_Suc)
  have limit: "take_bit 20 (0xFFFFFFFF :: u64) = 0xFFFFF" by simp
  show ?thesis
    by (simp add: HalInitialize_result idt_entry_decodes gdt_entry_decodes zero seven limit table_operand_loaded)
qed

section \<open>Reading a number back from an object\<close>

lemma le_at_take: "k + n \<le> length obj \<Longrightarrow> le_at n obj k = Ret (le_value (take n (drop k obj)))"
  by (simp add: le_at_def)

lemma le_bytes_take: "m \<le> n \<Longrightarrow> take m (le_bytes n v) = le_bytes m v"
  by (simp add: le_bytes_def take_map)

lemma put64_Ret:
  assumes "off + 8 \<le> length obj"
  obtains obj' where "put64 off v obj = Ret obj'" and "length obj' = length obj"
    and "\<And>n. n \<le> 8 \<Longrightarrow> le_at n obj' off = Ret (take_bit (8 * n) v)"
    and "\<And>n k. k + n \<le> off \<or> off + 8 \<le> k \<Longrightarrow> le_at n obj' k = le_at n obj k"
proof
  let ?o = "take off obj @ le_bytes 8 v @ drop (off + 8) obj"
  show "put64 off v obj = Ret ?o" using assms by (simp add: put64_def)
  show len: "length ?o = length obj" using assms by simp
  show "le_at n ?o off = Ret (take_bit (8 * n) v)" if "n \<le> 8" for n
    using assms that by (simp add: le_at_def le_bytes_take le_value_bytes)
  show "le_at n ?o k = le_at n obj k" if "k + n \<le> off \<or> off + 8 \<le> k" for n k
  proof -
    have "take n (drop k ?o) = take n (drop k obj)"
      using that
    proof
      assume "k + n \<le> off"
      then show ?thesis using assms by (simp add: take_drop min_def)
    next
      assume "off + 8 \<le> k"
      then show ?thesis using assms by simp
    qed
    then show ?thesis using len by (simp add: le_at_def)
  qed
qed

text \<open>What one turn leaves in the buffer, for descriptors of at least 40 bytes.\<close>

definition entry_type :: "nat \<Rightarrow> u64 \<Rightarrow> u64 \<Rightarrow> u64" where
  "entry_type i start ty = (if i = 0 then take_bit 32 start else ty)"

lemma convert_entry_Ret:
  assumes "40 \<le> d" "d * Suc i \<le> length buf"
    and start: "le_at 8 buf (d * i + 8) = Ret start" and pages: "le_at 8 buf (d * i + 24) = Ret pages" and ty: "le_at 4 buf (d * i) = Ret ty"
  obtains buf' where "convert_entry d i buf = Ret buf'" "length buf' = length buf"
    "le_at 8 buf' (24 * i) = Ret start" "le_at 8 buf' (24 * i + 8) = Ret (pages * 4096)" "le_at 8 buf' (24 * i + 16) = Ret (entry_type i start ty)"
    "\<And>n k. k + n \<le> 24 * i \<or> 24 * Suc i \<le> k \<Longrightarrow> le_at n buf' k = le_at n buf k"
proof -
  have room: "24 * Suc i \<le> length buf" using assms(1,2) mult_le_mono1 [of 24 d "Suc i"] by linarith
  have di: "40 * i \<le> d * i" using assms(1) by (rule mult_le_mono1)
  obtain b1 where b1: "put64 (24 * i) start buf = Ret b1" "length b1 = length buf" "\<And>n. n \<le> 8 \<Longrightarrow> le_at n b1 (24 * i) = Ret (take_bit (8 * n) start)"
    "\<And>n k. k + n \<le> 24 * i \<or> 24 * i + 8 \<le> k \<Longrightarrow> le_at n b1 k = le_at n buf k"
    by (rule put64_Ret [of "24 * i" buf start]) (use room in simp, blast)
  obtain b2 where b2: "put64 (24 * i + 8) (pages * 4096) b1 = Ret b2" "length b2 = length buf"
    "\<And>n. n \<le> 8 \<Longrightarrow> le_at n b2 (24 * i + 8) = Ret (take_bit (8 * n) (pages * 4096))"
    "\<And>n k. k + n \<le> 24 * i + 8 \<or> 24 * i + 8 + 8 \<le> k \<Longrightarrow> le_at n b2 k = le_at n b1 k"
    by (rule put64_Ret [of "24 * i + 8" b1 "pages * 4096"]) (use room b1(2) in simp, metis b1(2))
  obtain b3 where b3: "put64 (24 * i + 16) (entry_type i start ty) b2 = Ret b3" "length b3 = length buf"
    "\<And>n. n \<le> 8 \<Longrightarrow> le_at n b3 (24 * i + 16) = Ret (take_bit (8 * n) (entry_type i start ty))"
    "\<And>n k. k + n \<le> 24 * i + 16 \<or> 24 * i + 16 + 8 \<le> k \<Longrightarrow> le_at n b3 k = le_at n b2 k"
    by (rule put64_Ret [of "24 * i + 16" b2 "entry_type i start ty"]) (use room b2(2) in simp, metis b2(2))
  have "le_at 8 b1 (d * i + 24) = Ret pages" using b1(4) [of "d * i + 24" 8] pages di by simp
  moreover have "le_at 4 b2 (d * i) = Ret (entry_type i start ty)"
  proof (cases i)
    case 0
    then show ?thesis using b2(4) [of "d * i" 4] b1(3) [of 4] by (simp add: entry_type_def)
  next
    case (Suc j)
    then have "24 * i + 16 \<le> d * i" using di by simp
    then show ?thesis using b2(4) [of "d * i" 4] b1(4) [of "d * i" 4] ty Suc by (simp add: entry_type_def)
  qed
  ultimately have "convert_entry d i buf = Ret b3" using b1(1) b2(1) b3(1) start by (simp add: convert_entry_def)
  then show thesis
  proof (rule that)
    show "length b3 = length buf" by (rule b3(2))
    show "le_at 8 b3 (24 * i) = Ret start" using b3(4) [of "24 * i" 8] b2(4) [of "24 * i" 8] b1(3) [of 8] by (simp add: take_bit_word_eq_self)
    show "le_at 8 b3 (24 * i + 8) = Ret (pages * 4096)" using b3(4) [of "24 * i + 8" 8] b2(3) [of 8] by (simp add: take_bit_word_eq_self)
    show "le_at 8 b3 (24 * i + 16) = Ret (entry_type i start ty)" using b3(3) [of 8] by (simp add: take_bit_word_eq_self)
    show "le_at n b3 k = le_at n buf k" if "k + n \<le> 24 * i \<or> 24 * Suc i \<le> k" for n k
      using that b3(4) [of k n] b2(4) [of k n] b1(4) [of k n] by force
  qed
qed

lemma convert_loop:
  assumes "40 \<le> d" "d * c \<le> length buf"
  obtains buf' where "forR (convert_entry d) [0..<c] buf = Ret buf'" "length buf' = length buf"
    "\<And>i. i < c \<Longrightarrow> \<exists>start pages ty. le_at 8 buf (d * i + 8) = Ret start \<and> le_at 8 buf (d * i + 24) = Ret pages \<and> le_at 4 buf (d * i) = Ret ty \<and>
       le_at 8 buf' (24 * i) = Ret start \<and> le_at 8 buf' (24 * i + 8) = Ret (pages * 4096) \<and> le_at 8 buf' (24 * i + 16) = Ret (entry_type i start ty)"
    "\<And>n k. 24 * c \<le> k \<Longrightarrow> le_at n buf' k = le_at n buf k"
  using assms(2)
proof (induction c arbitrary: thesis)
  case 0
  show ?case by (rule 0(1) [of buf]) simp_all
next
  case (Suc c)
  have c: "d * c + d \<le> length buf" using Suc.prems(2) by simp
  then have "d * c \<le> length buf" by simp
  then obtain b where b: "forR (convert_entry d) [0..<c] buf = Ret b" "length b = length buf"
    "\<And>i. i < c \<Longrightarrow> \<exists>start pages ty. le_at 8 buf (d * i + 8) = Ret start \<and> le_at 8 buf (d * i + 24) = Ret pages \<and> le_at 4 buf (d * i) = Ret ty \<and>
       le_at 8 b (24 * i) = Ret start \<and> le_at 8 b (24 * i + 8) = Ret (pages * 4096) \<and> le_at 8 b (24 * i + 16) = Ret (entry_type i start ty)"
    "\<And>n k. 24 * c \<le> k \<Longrightarrow> le_at n b k = le_at n buf k"
    using Suc.IH by blast
  have dc: "24 * c \<le> d * c" using assms(1) by simp
  obtain start pages ty where f: "le_at 8 buf (d * c + 8) = Ret start" "le_at 8 buf (d * c + 24) = Ret pages" "le_at 4 buf (d * c) = Ret ty"
    using c assms(1) by (simp add: le_at_def)
  have "le_at 8 b (d * c + 8) = Ret start" "le_at 8 b (d * c + 24) = Ret pages" "le_at 4 b (d * c) = Ret ty"
    using f b(4) [OF dc] b(4) [OF trans_le_add1 [OF dc]] by simp_all
  with Suc.prems(2) b(2) obtain b' where b': "convert_entry d c b = Ret b'" "length b' = length b"
    "le_at 8 b' (24 * c) = Ret start" "le_at 8 b' (24 * c + 8) = Ret (pages * 4096)" "le_at 8 b' (24 * c + 16) = Ret (entry_type c start ty)"
    "\<And>n k. k + n \<le> 24 * c \<or> 24 * Suc c \<le> k \<Longrightarrow> le_at n b' k = le_at n b k"
    using convert_entry_Ret [OF assms(1), of c b start pages ty] by metis
  show ?case
  proof (rule Suc.prems(1))
    show "forR (convert_entry d) [0..<Suc c] buf = Ret b'" using b(1) b'(1) by (simp add: forR_append)
    show "length b' = length buf" using b(2) b'(2) by simp
    show "\<exists>start pages ty. le_at 8 buf (d * i + 8) = Ret start \<and> le_at 8 buf (d * i + 24) = Ret pages \<and> le_at 4 buf (d * i) = Ret ty \<and>
       le_at 8 b' (24 * i) = Ret start \<and> le_at 8 b' (24 * i + 8) = Ret (pages * 4096) \<and> le_at 8 b' (24 * i + 16) = Ret (entry_type i start ty)"
      if "i < Suc c" for i
    proof (cases "i = c")
      case True
      with f b'(3-5) show ?thesis by blast
    next
      case False
      with that have "i < c" by simp
      moreover from this have "24 * i + 24 \<le> 24 * c" by simp
      ultimately show ?thesis using b(3) [of i] b'(6) [of "24 * i" 8] b'(6) [of "24 * i + 8" 8] b'(6) [of "24 * i + 16" 8] by simp
    qed
    show "le_at n b' k = le_at n buf k" if "24 * Suc c \<le> k" for n k using that b'(6) [of k n] b(4) [of k n] by simp
  qed
qed

lemma memory_map_converted:
  assumes first: "fw_get_memory_map fw (Some 0) False True (world s) = ((EFI_BUFFER_TOO_SMALL, n0, k0, d0, v0, x0), w1)"
    and pool: "fw_alloc_pool fw (n0 + 2 * d0) w1 = ((st1, p, buf0), w2)" "\<not> fw_error fw st1" "length buf0 = unat (n0 + 2 * d0)"
    and second: "fw_get_memory_map fw (Some (n0 + 2 * d0)) True True w2 = ((st2, n1, k1, d, v1, bs), w3)" "\<not> fw_error fw st2"
    and fits: "n1 \<le> n0 + 2 * d0" "length bs = unat n1" "40 \<le> d"
  shows "\<exists>m. HalGetMemoryMap fw m0 s = Ret (m, s\<lparr>world := w3\<rparr>) \<and> mm_count m = n1 div d \<and> mm_entries m = p \<and>
    (\<forall>i < unat (n1 div d). \<exists>start pages ty.
       le_at 8 bs (unat d * i + 8) = Ret start \<and> le_at 8 bs (unat d * i + 24) = Ret pages \<and> le_at 4 bs (unat d * i) = Ret ty \<and>
       le_at 8 (mm_bytes m) (24 * i) = Ret start \<and> le_at 8 (mm_bytes m) (24 * i + 8) = Ret (pages * 4096) \<and>
       le_at 8 (mm_bytes m) (24 * i + 16) = Ret (if i = 0 then take_bit 32 start else ty))"
proof -
  have len: "length bs \<le> length buf0" using fits(1,2) pool(3) by (simp add: word_le_nat_alt)
  let ?buf = "bs @ drop (length bs) buf0"
  have copy: "memcpy_at (length bs) 0 0 buf0 bs = Ret ?buf" using len by (subst memcpy_at_eq) simp_all
  have d: "40 \<le> unat d" "d \<noteq> 0" using fits(3) by (auto simp: word_le_nat_alt)
  have c: "unat d * unat (n1 div d) \<le> length bs" by (simp add: fits(2) unat_div)
  then have "unat d * unat (n1 div d) \<le> length ?buf" using len by simp
  then obtain b where b: "forR (convert_entry (unat d)) [0..<unat (n1 div d)] ?buf = Ret b"
    "\<And>i. i < unat (n1 div d) \<Longrightarrow> \<exists>start pages ty. le_at 8 ?buf (unat d * i + 8) = Ret start \<and> le_at 8 ?buf (unat d * i + 24) = Ret pages \<and>
       le_at 4 ?buf (unat d * i) = Ret ty \<and> le_at 8 b (24 * i) = Ret start \<and> le_at 8 b (24 * i + 8) = Ret (pages * 4096) \<and>
       le_at 8 b (24 * i + 16) = Ret (entry_type i start ty)"
    by (rule convert_loop [OF d(1)]) (rule that)
  have ret: "HalGetMemoryMap fw m0 s = Ret (\<lparr>mm_count = n1 div d, mm_entries = p, mm_bytes = b\<rparr>, s\<lparr>world := w3\<rparr>)"
    using first pool second copy b(1) d(2) by (simp add: HalGetMemoryMap_def call_def)
  have inside: "le_at n ?buf k = le_at n bs k" if "k + n \<le> length bs" for n k
    using that by (simp add: le_at_def)
  have "\<exists>start pages ty.
       le_at 8 bs (unat d * i + 8) = Ret start \<and> le_at 8 bs (unat d * i + 24) = Ret pages \<and> le_at 4 bs (unat d * i) = Ret ty \<and>
       le_at 8 b (24 * i) = Ret start \<and> le_at 8 b (24 * i + 8) = Ret (pages * 4096) \<and>
       le_at 8 b (24 * i + 16) = Ret (if i = 0 then take_bit 32 start else ty)" if i: "i < unat (n1 div d)" for i
  proof -
    have "unat d * Suc i \<le> unat d * unat (n1 div d)" using i by (intro mult_le_mono2) simp
    then have "unat d * i + unat d \<le> length bs" using c by simp
    with b(2) [OF i] d(1) show ?thesis by (simp add: inside entry_type_def)
  qed
  with ret show ?thesis by auto
qed

text \<open>
  C14. What \<open>HalGetMemoryMap\<close> does with the answers of the firmware. If the status of the first call, which asks for the size,
  is anything but the number 5, the map of the caller stays as it is and a message is printed. That is the case on every
  firmware that keeps to the UEFI specification: there \<open>EFI_BUFFER_TOO_SMALL\<close> has the top bit, which the code it is compared
  with lacks. If the status is 5 and the other calls succeed, with descriptors of at least 40 bytes, every entry has the
  start and the size in bytes of its descriptor and, but for the first, its type; the type of the first entry is the low
  half of its start address, which was stored over the descriptor before the type was read.
\<close>

theorem memory_map_entries:
  assumes first: "fw_get_memory_map fw (Some 0) False True (world s) = ((st0, n0, k0, d0, v0, x0), w1)"
  shows "(st0 AND EFI_ERROR_MASK \<noteq> 0 \<or> st0 = EFI_SUCCESS \<longrightarrow> st0 \<noteq> EFI_BUFFER_TOO_SMALL) \<and>
    (st0 \<noteq> EFI_BUFFER_TOO_SMALL \<longrightarrow>
      HalGetMemoryMap fw m0 s = Ret (m0, EfiPrintError ''Failed to get memory map size\<newline>'' (s\<lparr>world := w1\<rparr>))) \<and>
    (\<forall>st1 p buf0 w2 st2 n1 k1 d v1 bs w3.
      st0 = EFI_BUFFER_TOO_SMALL \<and>
      fw_alloc_pool fw (n0 + 2 * d0) w1 = ((st1, p, buf0), w2) \<and> \<not> fw_error fw st1 \<and> length buf0 = unat (n0 + 2 * d0) \<and>
      fw_get_memory_map fw (Some (n0 + 2 * d0)) True True w2 = ((st2, n1, k1, d, v1, bs), w3) \<and> \<not> fw_error fw st2 \<and>
      n1 \<le> n0 + 2 * d0 \<and> length bs = unat n1 \<and> 40 \<le> d \<longrightarrow>
      (\<exists>m. HalGetMemoryMap fw m0 s = Ret (m, s\<lparr>world := w3\<rparr>) \<and> mm_count m = n1 div d \<and> mm_entries m = p \<and>
        (\<forall>i < unat (n1 div d). \<exists>start pages ty.
           le_at 8 bs (unat d * i + 8) = Ret start \<and> le_at 8 bs (unat d * i + 24) = Ret pages \<and> le_at 4 bs (unat d * i) = Ret ty \<and>
           le_at 8 (mm_bytes m) (24 * i) = Ret start \<and> le_at 8 (mm_bytes m) (24 * i + 8) = Ret (pages * 4096) \<and>
           le_at 8 (mm_bytes m) (24 * i + 16) = Ret (if i = 0 then take_bit 32 start else ty))))"
proof (intro conjI impI allI)
  assume "st0 AND EFI_ERROR_MASK \<noteq> 0 \<or> st0 = EFI_SUCCESS"
  then show "st0 \<noteq> EFI_BUFFER_TOO_SMALL" using statuses_lack_top_bit [of st0] by (auto simp: efi_codes)
next
  assume "st0 \<noteq> EFI_BUFFER_TOO_SMALL"
  with first show "HalGetMemoryMap fw m0 s = Ret (m0, EfiPrintError ''Failed to get memory map size\<newline>'' (s\<lparr>world := w1\<rparr>))"
    by (simp add: HalGetMemoryMap_def call_def)
qed (elim conjE, rule memory_map_converted, use first in simp, assumption+)

text \<open>Two firmwares, which differ in the status of the first call: as the specification has it, and the number 5.\<close>

theorem memory_map_entries_witness:
  "HalGetMemoryMap (sample_fw\<lparr>fw_get_memory_map := (\<lambda>_ b _ w. ((if b then EFI_SUCCESS else EFIERR EFI_BUFFER_TOO_SMALL, 48, w, 48, 1, replicate 48 7), w))\<rparr>)
      \<lparr>mm_count = 0, mm_entries = 0, mm_bytes = []\<rparr> sample_run =
    Ret (\<lparr>mm_count = 0, mm_entries = 0, mm_bytes = []\<rparr>, EfiPrintError ''Failed to get memory map size\<newline>'' sample_run) \<and>
   (\<exists>m. HalGetMemoryMap sample_fw \<lparr>mm_count = 0, mm_entries = 0, mm_bytes = []\<rparr> sample_run = Ret (m, sample_run) \<and>
     le_at 8 (mm_bytes m) 16 = Ret 0x07070707)"
proof
  let ?fw = "sample_fw\<lparr>fw_get_memory_map := (\<lambda>_ b _ w. ((if b then EFI_SUCCESS else EFIERR EFI_BUFFER_TOO_SMALL, 48, w, 48, 1, replicate 48 7), w))\<rparr>"
  have same: "sample_run\<lparr>world := world sample_run\<rparr> = sample_run" by simp
  have "EFIERR EFI_BUFFER_TOO_SMALL AND EFI_ERROR_MASK \<noteq> 0" by (simp add: EFIERR_def EFI_ERROR_MASK_def efi_codes)
  then show "HalGetMemoryMap ?fw \<lparr>mm_count = 0, mm_entries = 0, mm_bytes = []\<rparr> sample_run =
      Ret (\<lparr>mm_count = 0, mm_entries = 0, mm_bytes = []\<rparr>, EfiPrintError ''Failed to get memory map size\<newline>'' sample_run)"
    using memory_map_entries [of ?fw sample_run "EFIERR EFI_BUFFER_TOO_SMALL" 48 "world sample_run" 48 1 "replicate 48 7" "world sample_run"] same
    by simp
  have sevens: "le_at 8 (replicate 48 7) 8 = Ret 0x0707070707070707" by code_simp
  have first: "fw_get_memory_map sample_fw (Some 0) False True (world sample_run) = ((EFI_BUFFER_TOO_SMALL, 48, 0, 48, 1, replicate 48 7), 0)"
    "fw_alloc_pool sample_fw (48 + 2 * 48) 0 = ((0, 4096, replicate 144 7), 0)"
    "fw_get_memory_map sample_fw (Some (48 + 2 * 48)) True True 0 = ((0, 48, 0, 48, 1, replicate 48 7), 0)"
    "\<not> fw_error sample_fw 0" by (simp_all add: sample_fw_def sample_run_def efi_codes)
  have "\<exists>m. HalGetMemoryMap sample_fw \<lparr>mm_count = 0, mm_entries = 0, mm_bytes = []\<rparr> sample_run = Ret (m, sample_run\<lparr>world := 0\<rparr>) \<and>
    mm_count m = 48 div 48 \<and> mm_entries m = 4096 \<and>
    (\<forall>i < unat (48 div 48 :: u64). \<exists>start pages ty.
       le_at 8 (replicate 48 7) (unat (48 :: u64) * i + 8) = Ret start \<and> le_at 8 (replicate 48 7) (unat (48 :: u64) * i + 24) = Ret pages \<and>
       le_at 4 (replicate 48 7) (unat (48 :: u64) * i) = Ret ty \<and>
       le_at 8 (mm_bytes m) (24 * i) = Ret start \<and> le_at 8 (mm_bytes m) (24 * i + 8) = Ret (pages * 4096) \<and>
       le_at 8 (mm_bytes m) (24 * i + 16) = Ret (if i = 0 then take_bit 32 start else ty))"
    by (rule conjunct2 [OF conjunct2 [OF memory_map_entries [OF first(1)]], rule_format])
      (intro conjI; (rule refl | rule first | (simp add: word_le_nat_alt; rule length_replicate)))
  then show "\<exists>m. HalGetMemoryMap sample_fw \<lparr>mm_count = 0, mm_entries = 0, mm_bytes = []\<rparr> sample_run = Ret (m, sample_run) \<and>
      le_at 8 (mm_bytes m) 16 = Ret 0x07070707"
    using sevens by (force simp: sample_run_def)
qed

section \<open>The tables of HalSetupPaging, walked\<close>

definition entry_frame :: "u64 \<Rightarrow> u64" where "entry_frame e = push_bit 12 (take_bit 40 (drop_bit 12 e))"

definition table_index :: "nat \<Rightarrow> u64 \<Rightarrow> nat" where "table_index k v = unat (take_bit 9 (drop_bit k v))"

definition table_next :: "(u64 \<Rightarrow> nat \<Rightarrow> u64) \<Rightarrow> u64 \<Rightarrow> nat \<Rightarrow> u64 option" where
  "table_next m t i = (if bit (m t i) 0 then Some (entry_frame (m t i)) else None)"

definition page_walk :: "(u64 \<Rightarrow> nat \<Rightarrow> u64) \<Rightarrow> u64 \<Rightarrow> u64 \<Rightarrow> u64 option" where
  "page_walk m root v =
     Option.bind (table_next m root (table_index 39 v)) (\<lambda>t.
     Option.bind (table_next m t (table_index 30 v)) (\<lambda>t.
     Option.bind (table_next m t (table_index 21 v)) (\<lambda>t.
     Option.bind (table_next m t (table_index 12 v)) (\<lambda>f. Some (f OR take_bit 12 v)))))"

lemma make_entry:
  "bit (HalMakePageEntry pa True False) 0" "entry_frame (HalMakePageEntry pa True False) = entry_frame pa"
proof -
  show "bit (HalMakePageEntry pa True False) 0" by (simp add: HalMakePageEntry_def bit_simps)
  show "entry_frame (HalMakePageEntry pa True False) = entry_frame pa"
    unfolding entry_frame_def HalMakePageEntry_def by (rule bit_word_eqI) (auto simp: bit_simps bit_1_iff)
qed

lemma fold_set_table:
  "fold (\<lambda>i. set_table t i (f i)) [0..<n] s = s\<lparr>table_mem := (table_mem s)(t := (\<lambda>j. if j < n then f j else table_mem s t j))\<rparr>"
proof (induction n)
  case 0
  then show ?case by simp
next
  case (Suc n)
  have upd: "(\<lambda>j. if j < n then f j else table_mem s t j)(n := f n) = (\<lambda>j. if j < Suc n then f j else table_mem s t j)"
    by (auto simp: less_Suc_eq)
  have "fold (\<lambda>i. set_table t i (f i)) [0..<Suc n] s =
      set_table t n (f n) (s\<lparr>table_mem := (table_mem s)(t := (\<lambda>j. if j < n then f j else table_mem s t j))\<rparr>)"
    by (simp only: upt_Suc_append [OF le0] fold_append fold_simps comp_apply Suc)
  also have "\<dots> = s\<lparr>table_mem := (table_mem s)(t := (\<lambda>j. if j < Suc n then f j else table_mem s t j))\<rparr>"
    unfolding set_table_def by (simp add: upd del: fun_upd_apply) (simp add: upd)
  finally show ?case .
qed

lemma small_word_bits:
  assumes "(v :: u64) < 2 ^ k" "k < 64"
  shows "take_bit k v = v" "\<And>n. k \<le> n \<Longrightarrow> \<not> bit v n"
proof -
  show t: "take_bit k v = v" using assms by (simp add: take_bit_eq_mod mod_word_less)
  show "\<not> bit v n" if "k \<le> n" for n using that t by (metis bit_take_bit_iff leD)
qed

lemma take_bit_word_less: "k < 64 \<Longrightarrow> take_bit k (v :: u64) < 2 ^ k"
  by (simp add: take_bit_eq_mod word_mod_less_divisor word_neq_0_conv [symmetric])

lemma low_megabytes:
  assumes "v < 2 ^ 48"
  shows "v < 2 ^ 21 \<longleftrightarrow> table_index 39 v = 0 \<and> table_index 30 v = 0 \<and> table_index 21 v = 0"
proof -
  have high: "\<not> bit v n" if "48 \<le> n" for n using small_word_bits(2) [OF assms _ that] by simp
  have zero: "table_index k v = 0 \<longleftrightarrow> (\<forall>n < 9. \<not> bit v (k + n))" for k
  proof -
    have "table_index k v = 0 \<longleftrightarrow> take_bit 9 (drop_bit k v) = 0" by (simp add: table_index_def unat_eq_0)
    also have "\<dots> \<longleftrightarrow> (\<forall>n < 9. \<not> bit v (k + n))" by (auto simp: bit_eq_iff bit_simps)
    finally show ?thesis .
  qed
  have "v < 2 ^ 21 \<longleftrightarrow> take_bit 21 v = v"
    using small_word_bits(1) [of v 21] take_bit_word_less [of 21 v] by auto
  also have "\<dots> \<longleftrightarrow> (\<forall>n. 21 \<le> n \<longrightarrow> \<not> bit v n)"
  proof
    show "take_bit 21 v = v \<Longrightarrow> \<forall>n. 21 \<le> n \<longrightarrow> \<not> bit v n" by (metis bit_take_bit_iff leD)
    show "\<forall>n. 21 \<le> n \<longrightarrow> \<not> bit v n \<Longrightarrow> take_bit 21 v = v"
      by (rule bit_word_eqI) (metis bit_take_bit_iff not_le)
  qed
  also have "\<dots> \<longleftrightarrow> (\<forall>n < 9. \<not> bit v (39 + n)) \<and> (\<forall>n < 9. \<not> bit v (30 + n)) \<and> (\<forall>n < 9. \<not> bit v (21 + n))"
  proof
    assume r: "(\<forall>n < 9. \<not> bit v (39 + n)) \<and> (\<forall>n < 9. \<not> bit v (30 + n)) \<and> (\<forall>n < 9. \<not> bit v (21 + n))"
    show "\<forall>n. 21 \<le> n \<longrightarrow> \<not> bit v n"
    proof (intro allI impI)
      fix n :: nat
      assume "21 \<le> n"
      then consider "n - 21 < 9" "21 + (n - 21) = n" | "n - 30 < 9" "30 + (n - 30) = n" | "n - 39 < 9" "39 + (n - 39) = n" | "48 \<le> n"
        by linarith
      then show "\<not> bit v n" using r high by cases metis+
    qed
  qed auto
  finally show ?thesis by (simp add: zero)
qed

lemma low_address:
  assumes "v < 2 ^ 21"
  shows "table_index 12 v < 512" "entry_frame (of_nat (table_index 12 v) * 4096) OR take_bit 12 v = v"
proof -
  have "take_bit 9 (drop_bit 12 v) < 2 ^ 9" by (rule take_bit_word_less) simp
  then show "table_index 12 v < 512" by (simp add: table_index_def word_less_nat_alt)
  have "\<not> bit v n" if "21 \<le> n" for n using small_word_bits(2) [OF assms _ that] by simp
  moreover have "of_nat (table_index 12 v) * 4096 = push_bit 12 (take_bit 9 (drop_bit 12 v))"
    by (simp add: table_index_def push_bit_eq_mult)
  ultimately show "entry_frame (of_nat (table_index 12 v) * 4096) OR take_bit 12 v = v"
    unfolding entry_frame_def
    by (intro bit_word_eqI) (auto simp: bit_simps not_le intro: ccontr)
qed

lemma table_fields:
  "world (set_table t i v s) = world s" "world (clear_table t s) = world s"
  "hw_log (set_table t i v s) = hw_log s" "hw_log (clear_table t s) = hw_log s"
  "cr_regs (set_table t i v s) = cr_regs s" "cr_regs (clear_table t s) = cr_regs s"
  "table_mem (set_table t i v s) = (table_mem s)(t := (table_mem s t)(i := v))"
  "table_mem (clear_table t s) = (table_mem s)(t := (\<lambda>_. 0))"
  by (simp_all add: set_table_def clear_table_def)

text \<open>C35. When the firmware gives four different pages below \<open>2 ^ 52\<close>, the tables of \<open>HalSetupPaging\<close>, from the root it puts
  into CR3, translate the first two megabytes to themselves and no other address of 48 bits to anything; the paging
  bit is written before the bit for addresses of more than 4 bytes, with the upper half of CR0 set.\<close>

theorem paging_identity_low:
  assumes pages: "fw_alloc_pages fw 1 (world s) = ((st4, p4, x4), w1)" "fw_alloc_pages fw 1 w1 = ((st3, p3, x3), w2)"
      "fw_alloc_pages fw 1 w2 = ((st2, p2, x2), w3)" "fw_alloc_pages fw 1 w3 = ((st1, p1, x1), w4)"
    and ok: "\<not> fw_error fw st4" "\<not> fw_error fw st3" "\<not> fw_error fw st2" "\<not> fw_error fw st1"
    and frames: "distinct [p4, p3, p2, p1]" "entry_frame p3 = p3" "entry_frame p2 = p2" "entry_frame p1 = p1"
    and v: "v < 2 ^ 48"
  shows "page_walk (table_mem (HalSetupPaging fw s)) p4 v = (if v < 2 ^ 21 then Some v else None) \<and>
    hw_log (HalSetupPaging fw s) = hw_log s @ [WriteCr 3 p4, WriteCr 0 (cr_regs s 0 OR 0xFFFFFFFF80000000), WriteCr 4 (cr_regs s 4 OR 32)]"
proof -
  define leaf where "leaf = (\<lambda>j. if j < PAGE_ENTRIES then HalMakePageEntry (of_nat j * 4096) True False else 0)"
  let ?t = "table_mem (HalSetupPaging fw s)"
  have tables: "?t p4 = (\<lambda>_. 0)(0 := HalMakePageEntry p3 True False)" "?t p3 = (\<lambda>_. 0)(0 := HalMakePageEntry p2 True False)"
    "?t p2 = (\<lambda>_. 0)(0 := HalMakePageEntry p1 True False)" "?t p1 = leaf"
    using pages ok frames(1)
    by (simp_all add: HalSetupPaging_def call_def Let_def fold_set_table HalWriteCr_def hw_def table_fields leaf_def)
      (auto simp: table_fields cong: if_cong)
  have log: "hw_log (HalSetupPaging fw s) = hw_log s @ [WriteCr 3 p4, WriteCr 0 (cr_regs s 0 OR 0xFFFFFFFF80000000), WriteCr 4 (cr_regs s 4 OR 32)]"
    using pages ok
    by (simp add: HalSetupPaging_def call_def Let_def fold_set_table HalWriteCr_def HalReadCr_def hw_def table_fields)
  have upper: "table_next ?t p4 i = (if i = 0 then Some p3 else None)" "table_next ?t p3 i = (if i = 0 then Some p2 else None)"
    "table_next ?t p2 i = (if i = 0 then Some p1 else None)" for i
    by (simp_all add: table_next_def tables make_entry frames(2-4))
  have "page_walk ?t p4 v = (if v < 2 ^ 21 then Some v else None)"
  proof (cases "v < 2 ^ 21")
    case True
    then have "table_next ?t p1 (table_index 12 v) = Some (entry_frame (of_nat (table_index 12 v) * 4096))"
      by (simp add: table_next_def tables leaf_def PAGE_ENTRIES_def low_address(1) make_entry)
    moreover have "table_index 39 v = 0" "table_index 30 v = 0" "table_index 21 v = 0" using low_megabytes [OF v] True by blast+
    ultimately show ?thesis using True low_address(2) [OF True] by (simp add: page_walk_def upper)
  next
    case False
    then show ?thesis using low_megabytes [OF v] by (auto simp: page_walk_def upper)
  qed
  with log show ?thesis by blast
qed

section \<open>The configuration table\<close>

lemma mem_bytes_split: "mem_bytes m a (i + j) = mem_bytes m a i @ mem_bytes m (a + of_nat i) j"
proof -
  have "[0..<i + j] = [0..<i] @ map (\<lambda>k. k + i) [0..<j]" unfolding map_add_upt using upt_add_eq_append [of 0 i j] by (simp add: add.commute)
  then show ?thesis unfolding mem_bytes_def by (simp only: map_append map_map o_def of_nat_add) (simp add: add.commute add.left_commute)
qed

text \<open>The firmware stores an entry of its configuration table as 16 bytes of identifier and 8 bytes of address. As the
  loader looks for the identifier at offset 8, it finds no ACPI root pointer as long as the addresses in the table are
  below \<open>2 ^ 56\<close>, whatever identifiers the table has: \<open>HalGetAcpiInfo\<close> reports the failure and gives zeros.\<close>

theorem acpi_never_found:
  assumes "\<forall>i < unat (fw_table_count fw (world s)).
    le_value (mem_bytes (fw_memory fw (world s)) (fw_table_addr fw (world s) + 24 * of_nat i + 16) 8) < 2 ^ 56"
  shows "HalGetAcpiInfo fw s = (\<lparr>ai_rsdp = 0, ai_tables = 0, ai_count = 0\<rparr>, EfiPrintError ''Failed to find RSDP\<newline>'' s)"
proof -
  let ?m = "fw_memory fw (world s)" and ?at = "\<lambda>i. fw_table_addr fw (world s) + 24 * of_nat i"
  have none: "mem_bytes ?m (?at i + 8) 16 \<noteq> g" if "i < unat (fw_table_count fw (world s))" "\<not> le_value (drop 8 g) < 2 ^ 56" for i g
  proof
    assume "mem_bytes ?m (?at i + 8) 16 = g"
    moreover have "mem_bytes ?m (?at i + 8) 16 = mem_bytes ?m (?at i + 8) 8 @ mem_bytes ?m (?at i + 16) 8"
      using mem_bytes_split [of ?m "?at i + 8" 8 8] by (simp add: add.assoc)
    moreover have "length (mem_bytes ?m (?at i + 8) 8) = 8" by (simp add: mem_bytes_def)
    ultimately have "drop 8 g = mem_bytes ?m (?at i + 16) 8" by force
    then show False using assms that by force
  qed
  have guids: "\<not> le_value (drop 8 Acpi20Guid) < 2 ^ 56" "\<not> le_value (drop 8 Acpi10Guid) < 2 ^ 56"
    by (simp_all add: Acpi20Guid_def Acpi10Guid_def le_value_def)
  have "HalFindRsdp fw s = 0"
  proof -
    have "first_from (\<lambda>i. mem_bytes ?m (?at i + 8) 16 = Acpi20Guid \<or> mem_bytes ?m (?at i + 8) 16 = Acpi10Guid) 0
       (unat (fw_table_count fw (world s))) = None"
      using none guids by (simp add: first_from_None_iff)
    then show ?thesis by (simp add: HalFindRsdp_def Let_def)
  qed
  then show ?thesis by (simp add: HalGetAcpiInfo_def Let_def)
qed

text \<open>A firmware that gives the pages from \<open>0x2000\<close> on one after the other, with one entry for ACPI in its table.\<close>

definition sample_guided_fw :: "u64 firmware" where
  "sample_guided_fw = sample_fw\<lparr>fw_alloc_pages := (\<lambda>n w. ((0, (w + 2) * 4096, []), w + 1)), fw_table_count := (\<lambda>_. 1),
     fw_memory := (\<lambda>_ a. if a < 16 then Acpi20Guid ! unat a else if a = 18 then 14 else 0)\<rparr>"

definition sample_hal :: "u64 uefi_hal" where
  "sample_hal = \<lparr>has_console = True, con_log = [], world = 0, gImageHandle = 1, gGdt = [], gGdtr = (0, 0), gIdt = [], gIdtr = (0, 0),
     hw_log = [], cr_regs = (\<lambda>_. 0), msr_regs = (\<lambda>_. 0), gPml4 = 0, gPdpt = 0, gPd = 0, gPt = 0, table_mem = (\<lambda>_ _. 1)\<rparr>"

theorem paging_identity_low_witness:
  "page_walk (table_mem (HalSetupPaging sample_guided_fw sample_hal)) 0x2000 0x12345 = Some 0x12345 \<and>
   page_walk (table_mem (HalSetupPaging sample_guided_fw sample_hal)) 0x2000 0x200000 = None"
proof -
  have walk: "page_walk (table_mem (HalSetupPaging sample_guided_fw sample_hal)) 0x2000 v = (if v < 2 ^ 21 then Some v else None)"
    if "v < 2 ^ 48" for v
    by (rule conjunct1 [OF paging_identity_low [where ?st4.0 = 0 and ?x4.0 = "[]" and ?w1.0 = 1 and ?st3.0 = 0 and ?p3.0 = "0x3000" and
          ?x3.0 = "[]" and ?w2.0 = 2 and ?st2.0 = 0 and ?p2.0 = "0x4000" and ?x2.0 = "[]" and ?w3.0 = 3 and ?st1.0 = 0 and ?p1.0 = "0x5000" and
          ?x1.0 = "[]" and ?w4.0 = 4]])
      (use that in \<open>simp_all add: sample_guided_fw_def sample_fw_def sample_hal_def entry_frame_def\<close>)
  show ?thesis using walk [of "0x12345"] walk [of "0x200000"] by simp
qed

theorem acpi_never_found_witness:
  "fst (HalGetAcpiInfo sample_guided_fw sample_run) = \<lparr>ai_rsdp = 0, ai_tables = 0, ai_count = 0\<rparr> \<and>
   mem_bytes (fw_memory sample_guided_fw 0) 0 16 = Acpi20Guid"
proof -
  have "HalGetAcpiInfo sample_guided_fw sample_run =
      (\<lparr>ai_rsdp = 0, ai_tables = 0, ai_count = 0\<rparr>, EfiPrintError ''Failed to find RSDP\<newline>'' sample_run)"
  proof (rule acpi_never_found)
    have "le_value (mem_bytes (fw_memory sample_guided_fw 0) 16 8) = 0xE0000" by code_simp
    then show "\<forall>i < unat (fw_table_count sample_guided_fw (world sample_run)).
        le_value (mem_bytes (fw_memory sample_guided_fw (world sample_run)) (fw_table_addr sample_guided_fw (world sample_run) + 24 * of_nat i + 16) 8)
          < 2 ^ 56"
      by (simp add: sample_guided_fw_def sample_fw_def sample_run_def)
  qed
  moreover have "mem_bytes (fw_memory sample_guided_fw 0) 0 16 = Acpi20Guid" by code_simp
  ultimately show ?thesis by simp
qed

end
