(* ===== verification/UefiBoot.thy ===== *)
theory UefiBoot
  imports UefiHal
begin

text \<open>
  The boot manager and the entry point of the UEFI loader (\<open>uefi/bootmgr/bootmgr.c\<close>, \<open>uefi/bootmgr/main.c\<close>): loading the
  kernel file, the menu, the hand-over, and \<open>UefiMain\<close>, composed of the theories below it. A run ends with a status or
  with the jump; the boot information is the object stored in the page it was allocated.
\<close>

section \<open>State\<close>

record HIK_BOOT_INFO =
  bi_map :: u64
  bi_map_size :: u64
  bi_desc_size :: u64
  bi_desc_version :: u32
  bi_acpi :: u64
  bi_system :: u64

record 'w uefi_boot = "'w uefi_hal" +
  info_page :: "(u64 \<times> HIK_BOOT_INFO) option"

text \<open>The image with the address of its pages.\<close>

record loaded_image = kernel_image +
  img_address :: u64

datatype boot_end = Returned efi_status | Jumped

definition zero_image :: loaded_image where
  "zero_image = \<lparr>img_header = None, img_code = 0, img_data = 0, img_config = 0, img_signature = 0, img_code_size = 0,
     img_data_size = 0, img_config_size = 0, img_signature_size = 0, img_size = 0, img_address = 0\<rparr>"

definition KERNEL_PATH :: string where "KERNEL_PATH = CHR 0x5C # ''EFI'' @ CHR 0x5C # ''HIK'' @ CHR 0x5C # ''kernel.hik''"
definition BOOT_STACK_SIZE :: u64 where "BOOT_STACK_SIZE = 64 * 1024"
definition CONFIG_PATH :: string where "CONFIG_PATH = CHR 0x5C # ''EFI'' @ CHR 0x5C # ''HIK'' @ CHR 0x5C # ''boot.conf''"

definition page_count :: "u64 \<Rightarrow> u64" where "page_count n = (n + 0xFFF) div 0x1000"

section \<open>Loading the kernel\<close>

text \<open>The part of \<open>BootMgrLoadKernel\<close> behind the check of the magic number: the image and what is printed.\<close>

definition describe_image ::
  "u64 \<Rightarrow> u64 \<Rightarrow> bytes \<Rightarrow> 'z uefi_state_scheme \<Rightarrow> (efi_status \<times> loaded_image \<times> 'z uefi_state_scheme) outcome" where
  "describe_image addr sz buf s =
     bindR (le_at 8 buf 16) (\<lambda>entry.
     bindR (le_at 8 buf 24) (\<lambda>code. bindR (le_at 8 buf 32) (\<lambda>code_size.
     bindR (le_at 8 buf 40) (\<lambda>dat. bindR (le_at 8 buf 48) (\<lambda>data_size.
     bindR (le_at 8 buf 56) (\<lambda>conf. bindR (le_at 8 buf 64) (\<lambda>config_size.
     bindR (le_at 8 buf 72) (\<lambda>sig. bindR (le_at 8 buf 80) (\<lambda>signature_size.
     let img = \<lparr>img_header = Some buf, img_code = code, img_data = dat, img_config = conf, img_signature = sig,
           img_code_size = code_size, img_data_size = data_size, img_config_size = config_size,
           img_signature_size = signature_size, img_size = sz, img_address = addr\<rparr>;
         s = EfiPrintString ''  Entry Point: 0x'' (EfiPrintString ''Kernel loaded successfully\<newline>'' s);
         s = EfiPrintString ''\<newline>'' (EfiPrintHex entry s);
         s = EfiPrintHex code_size (EfiPrintString ''  Code Size: '' s);
         s = EfiPrintString ''  Data Size: '' (EfiPrintString '' bytes\<newline>'' s);
         s = EfiPrintString '' bytes\<newline>'' (EfiPrintHex data_size s)
     in Ret (EFI_SUCCESS, img, s))))))))))"

text \<open>\<open>v0\<close> and \<open>sz0\<close> are what the variables for the volume and the size hold before they are written.\<close>

definition BootMgrLoadKernel ::
  "'w firmware \<Rightarrow> efi_volume \<Rightarrow> u64 \<Rightarrow> boot_entry \<Rightarrow> ('w, 'z) uefi_run_scheme \<Rightarrow>
   (efi_status \<times> loaded_image \<times> ('w, 'z) uefi_run_scheme) outcome" where
  "BootMgrLoadKernel fw v0 sz0 e s =
     bindR (FsOpenVolume fw (gImageHandle s) v0 s) (\<lambda>(st, v, s).
     if fw_error fw st then Ret (st, zero_image, EfiPrintError ''Failed to open volume\<newline>'' s)
     else bindR (FsOpenFile fw v (be_kernel_path e) s) (\<lambda>(st, file, s).
     if fw_error fw st
     then case FsCloseVolume fw v (EfiPrintError ''Failed to open kernel file\<newline>'' s) of (_, _, s) \<Rightarrow> Ret (st, zero_image, s)
     else bindR (FsGetFileSize fw file sz0 s) (\<lambda>(st, sz, s).
     if fw_error fw st
     then case FsCloseFile fw file (EfiPrintError ''Failed to get file size\<newline>'' s) of (_, s) \<Rightarrow>
          case FsCloseVolume fw v s of (_, _, s) \<Rightarrow> Ret (st, zero_image, s)
     else case call (fw_alloc_pages fw (page_count sz)) s of ((st, addr, buf), s) \<Rightarrow>
     if fw_error fw st
     then case FsCloseFile fw file (EfiPrintError ''Failed to allocate memory for kernel\<newline>'' s) of (_, s) \<Rightarrow>
          case FsCloseVolume fw v s of (_, _, s) \<Rightarrow> Ret (st, zero_image, s)
     else bindR (FsReadFile fw file buf sz s) (\<lambda>(st, n, buf, s).
     case FsCloseFile fw file s of (_, s) \<Rightarrow>
     case FsCloseVolume fw v s of (_, _, s) \<Rightarrow>
     if fw_error fw st
     then Ret (st, zero_image, tell (fw_free_pages fw addr (page_count sz)) (EfiPrintError ''Failed to read kernel file\<newline>'' s))
     else bindR (hdr_signature buf) (\<lambda>magic.
     if magic \<noteq> HIK_KERNEL_MAGIC
     then Ret (EFI_INVALID_PARAMETER, zero_image,
            tell (fw_free_pages fw addr (page_count sz)) (EfiPrintError ''Invalid kernel magic\<newline>'' s))
     else describe_image addr sz buf s)))))"

definition BootMgrCleanup ::
  "'w firmware \<Rightarrow> loaded_image \<Rightarrow> ('w, 'z) uefi_run_scheme \<Rightarrow> loaded_image \<times> ('w, 'z) uefi_run_scheme" where
  "BootMgrCleanup fw img s =
     (zero_image, if img_header img \<noteq> None then tell (fw_free_pages fw (img_address img) (page_count (img_size img))) s else s)"

section \<open>The menu\<close>

text \<open>
  The firmware stores a key as two numbers of 16 bits, the scan code and the character, into a variable of 16 bits: the
  character goes to what lies behind it, and the variable holds the scan code. The result is the text from the variable on.
\<close>

definition read_key ::
  "'w firmware \<Rightarrow> u16 list \<Rightarrow> ('w, 'z) uefi_run_scheme \<Rightarrow> (u16 list option \<times> ('w, 'z) uefi_run_scheme) outcome" where
  "read_key fw behind s =
     (case call (fw_read_key fw) s of ((st, scan, ch), s) \<Rightarrow>
      if fw_error fw st then Ret (None, s)
      else case behind of [] \<Rightarrow> Fault | _ # others \<Rightarrow> Ret (Some (scan # ch # others), s))"

definition menu_line :: "uefi_config \<Rightarrow> nat \<Rightarrow> 'z uefi_state_scheme \<Rightarrow> 'z uefi_state_scheme outcome" where
  "menu_line c i s =
     (if \<not> i < length (uc_entries c) then Fault
      else if be_enabled (uc_entries c ! i)
      then let s = EfiPrintString ''] '' (EfiPrintHex (of_nat i) (EfiPrintString ''  ['' s)) in
           bindR (EfiPrintText (be_name (uc_entries c ! i)) s) (\<lambda>s. Ret (EfiPrintString ''\<newline>'' s))
      else Ret s)"

text \<open>The wait for a key, which counts \<open>Timeout\<close> down; whether it got to 0.\<close>

fun timeout_loop ::
  "'w firmware \<Rightarrow> u16 list \<Rightarrow> nat \<Rightarrow> ('w, 'z) uefi_run_scheme \<Rightarrow> (bool \<times> ('w, 'z) uefi_run_scheme) outcome" where
  "timeout_loop fw behind 0 s = Ret (True, s)"
| "timeout_loop fw behind (Suc n) s =
     bindR (read_key fw behind s) (\<lambda>(key, s). case key of
       Some _ \<Rightarrow> Ret (False, s)
     | None \<Rightarrow> timeout_loop fw behind n (tell (fw_stall fw 1000000) s))"

text \<open>The entry a key selects: the digit, if it is the index of an entry that is enabled.\<close>

definition key_entry :: "uefi_config \<Rightarrow> u16 \<Rightarrow> nat option" where
  "key_entry c input =
     (if 48 \<le> input \<and> input \<le> 57
      then let i = unat (input - 48) in
        if i < unat (uc_count c) \<and> be_enabled (uc_entries c ! i) then Some i else None
      else None)"

partial_function (option) menu_loop ::
  "'w firmware \<Rightarrow> u16 list \<Rightarrow> uefi_config \<Rightarrow> ('w, 'z) uefi_run_scheme \<Rightarrow>
   ((efi_status \<times> nat option \<times> ('w, 'z) uefi_run_scheme) outcome) option" where
  "menu_loop fw behind c s =
     (case read_key fw behind s of
        Hang \<Rightarrow> Some Hang
      | Fault \<Rightarrow> Some Fault
      | Ret (key, s) \<Rightarrow>
          (case Option.bind key (\<lambda>k. key_entry c (hd k)) of
             Some i \<Rightarrow> Some (bindR (EfiPrintText (the key) s) (\<lambda>s. Ret (EFI_SUCCESS, Some i, EfiPrintString ''\<newline>'' s)))
           | None \<Rightarrow> menu_loop fw behind c (tell (fw_stall fw 100000) s)))"

definition BootMgrShowMenu ::
  "'w firmware \<Rightarrow> stack_view \<Rightarrow> uefi_config \<Rightarrow> ('w, 'z) uefi_run_scheme \<Rightarrow>
   (efi_status \<times> nat option \<times> ('w, 'z) uefi_run_scheme) outcome" where
  "BootMgrShowMenu fw view c s =
     (let s = EfiPrintString ''\<newline>'' (EfiPrintString ''=== HIK Boot Manager ===\<newline>'' (EfiPrintString ''\<newline>'' s));
          wait = (\<lambda>s. looped (menu_loop fw (key_behind view) c (EfiPrintString ''Select entry: '' s)))
      in bindR (forR (menu_line c) [0..<unat (uc_count c)] s) (\<lambda>s.
      let s = EfiPrintString ''\<newline>'' s in
      if 0 < uc_timeout c
      then let s = EfiPrintHex (ucast (uc_timeout c)) (EfiPrintString ''Booting default entry in '' s);
               s = EfiPrintString '' seconds... (Press any key to interrupt)\<newline>'' s
           in bindR (timeout_loop fw (key_behind view) (unat (uc_timeout c)) s) (\<lambda>(expired, s).
              if expired then bindR (ConfigGetDefaultEntry c) (\<lambda>(st, e). Ret (st, e, s)) else wait s)
      else wait s))"

section \<open>The hand-over\<close>

text \<open>After a refused \<open>ExitBootServices\<close> the processor is halted until the next interrupt, and then goes on to the jump.\<close>

definition leave_firmware ::
  "'w firmware \<Rightarrow> loaded_image \<Rightarrow> u64 \<Rightarrow> u64 \<Rightarrow> u64 \<Rightarrow> ('w, 'z) uefi_hal_scheme \<Rightarrow> (boot_end \<times> ('w, 'z) uefi_hal_scheme) outcome" where
  "leave_firmware fw img key stack info s =
     (let s = HalDisableInterrupts s in
      case call (fw_exit_boot fw (gImageHandle s) key) s of (st, s) \<Rightarrow>
      let s = (if fw_error fw st then HalHalt (EfiPrintError ''Failed to exit boot services\<newline>'' s) else s) in
      case img_header img of None \<Rightarrow> Fault | Some buf \<Rightarrow>
      bindR (le_at 8 buf 16) (\<lambda>entry.
      Ret (Jumped, HalJumpToKernel \<lparr>jc_entry = entry, jc_stack = stack, jc_info = info\<rparr> s)))"

text \<open>\<open>m0\<close> is what the variable for the converted memory map holds; what is converted is not used.\<close>

definition BootMgrBootKernel ::
  "'w firmware \<Rightarrow> hal_addrs \<Rightarrow> memory_map \<Rightarrow> loaded_image \<Rightarrow> 'w uefi_boot \<Rightarrow> (boot_end \<times> 'w uefi_boot) outcome" where
  "BootMgrBootKernel fw a m0 img s =
     (let s = EfiPrintString ''Preparing to boot kernel...\<newline>'' s in
      case call (fw_get_memory_map fw None False False) s of (_, s) \<Rightarrow>
      case call (fw_get_memory_map fw (Some 0) False False) s of ((st, sz, _), s) \<Rightarrow>
      if st \<noteq> EFI_BUFFER_TOO_SMALL then Ret (Returned st, EfiPrintError ''Failed to get memory map size\<newline>'' s)
      else case call (fw_alloc_pool fw sz) s of ((st, p, buf), s) \<Rightarrow>
      if fw_error fw st then Ret (Returned st, EfiPrintError ''Failed to allocate memory map\<newline>'' s)
      else case call (fw_get_memory_map fw (Some sz) True True) s of ((st, sz, key, dsize, version, bs), s) \<Rightarrow>
      bindR (memcpy_at (length bs) 0 0 buf bs) (\<lambda>buf.
      if fw_error fw st then Ret (Returned st, tell (fw_free_pool fw p) (EfiPrintError ''Failed to get memory map\<newline>'' s))
      else bindR (HalGetMemoryMap fw m0 s) (\<lambda>(_, s).
      case HalGetAcpiInfo fw s of (acpi, s) \<Rightarrow>
      case call (fw_alloc_pages fw 1) s of ((st, ia, _), s) \<Rightarrow>
      if fw_error fw st then Ret (Returned st, tell (fw_free_pool fw p) (EfiPrintError ''Failed to allocate boot info\<newline>'' s))
      else let s = s\<lparr>info_page := Some (ia, \<lparr>bi_map = p, bi_map_size = sz, bi_desc_size = dsize, bi_desc_version = version,
             bi_acpi = ai_rsdp acpi, bi_system = addr_system a\<rparr>)\<rparr> in
      case call (fw_alloc_pages fw (page_count BOOT_STACK_SIZE)) s of ((st, stack, _), s) \<Rightarrow>
      if fw_error fw st
      then Ret (Returned st, tell (fw_free_pool fw p) (tell (fw_free_pages fw ia 1) (EfiPrintError ''Failed to allocate stack\<newline>'' s)))
      else leave_firmware fw img key (stack + BOOT_STACK_SIZE) ia s)))"

section \<open>The entry point\<close>

definition BootMgrInitialize ::
  "'w firmware \<Rightarrow> hal_addrs \<Rightarrow> ('w, 'z) uefi_hal_scheme \<Rightarrow> (efi_status \<times> ('w, 'z) uefi_hal_scheme) outcome" where
  "BootMgrInitialize fw a s =
     (let s = EfiPrintString ''Copyright (c) 2026 HIK Project\<newline>'' (EfiPrintString ''HIK Boot Manager v1.0\<newline>'' s);
          s = HalInitialize a (EfiPrintString ''\<newline>'' s)
      in bindR (VerifySecureBoot fw s) (\<lambda>(st, s).
      if fw_error fw st then Ret (st, EfiPrintError ''Secure boot verification failed\<newline>'' s) else Ret (EFI_SUCCESS, s)))"

definition default_config :: "uefi_config outcome" where
  "default_config =
     bindR (StrCpy (be_name zero_boot_entry) (wide ''HIK Kernel'')) (\<lambda>name.
     bindR (StrCpy (be_kernel_path zero_boot_entry) (wide KERNEL_PATH)) (\<lambda>kpath.
     Ret (zero_config\<lparr>uc_entries := (uc_entries zero_config)[0 := zero_boot_entry\<lparr>be_name := name, be_kernel_path := kpath,
            be_enabled := True, be_default := True\<rparr>], uc_count := 1, uc_timeout := 5\<rparr>)))"

text \<open>What the variables of the loader hold before they are written.\<close>

record main_junk =
  mj_load :: load_junk
  mj_volume :: efi_volume
  mj_size :: u64
  mj_map :: memory_map
  mj_stack :: stack_junk

text \<open>An error of a step: the message, five seconds, the status.\<close>

definition give_up :: "'w firmware \<Rightarrow> string \<Rightarrow> efi_status \<Rightarrow> ('w, 'z) uefi_run_scheme \<Rightarrow> (boot_end \<times> ('w, 'z) uefi_run_scheme) outcome" where
  "give_up fw msg st s = Ret (Returned st, tell (fw_stall fw 5000000) (EfiPrintError msg s))"

definition clean_up ::
  "'w firmware \<Rightarrow> loaded_image \<Rightarrow> string \<Rightarrow> efi_status \<Rightarrow> ('w, 'z) uefi_run_scheme \<Rightarrow> (boot_end \<times> ('w, 'z) uefi_run_scheme) outcome" where
  "clean_up fw img msg st s =
     (case BootMgrCleanup fw img (EfiPrintError msg s) of (_, s) \<Rightarrow> Ret (Returned st, tell (fw_stall fw 5000000) s))"

text \<open>From the selected entry on.\<close>

definition boot_entry_run ::
  "'w firmware \<Rightarrow> hal_addrs \<Rightarrow> main_junk \<Rightarrow> boot_entry \<Rightarrow> 'w uefi_boot \<Rightarrow> (boot_end \<times> 'w uefi_boot) outcome" where
  "boot_entry_run fw a jk e s =
     (let s = EfiPrintString ''Loading kernel: '' (EfiPrintString ''\<newline>'' s) in
      bindR (EfiPrintText (be_name e) s) (\<lambda>s.
      bindR (BootMgrLoadKernel fw (mj_volume jk) (mj_size jk) e (EfiPrintString ''\<newline>'' s)) (\<lambda>(st, img, s).
      if fw_error fw st then give_up fw ''Failed to load kernel\<newline>'' st s
      else bindR (BootMgrVerifyKernel (fw_error fw) (mj_stack jk) (kernel_image.truncate img) (Some zero_key) s) (\<lambda>(st, s).
      if fw_error fw st then clean_up fw img ''Kernel verification failed\<newline>'' st s
      else bindR (BootMgrBootKernel fw a (mj_map jk) img s) (\<lambda>(fin, s). case fin of
        Jumped \<Rightarrow> Ret (Jumped, s)
      | Returned st \<Rightarrow>
          if fw_error fw st then clean_up fw img ''Failed to boot kernel\<newline>'' st s
          else case BootMgrCleanup fw img s of (_, s) \<Rightarrow> Ret (Returned EFI_SUCCESS, s))))))"

definition UefiMain ::
  "'w firmware \<Rightarrow> hal_addrs \<Rightarrow> stack_view \<Rightarrow> main_junk \<Rightarrow> u64 \<Rightarrow> bool \<Rightarrow> 'w uefi_boot \<Rightarrow> (boot_end \<times> 'w uefi_boot) outcome" where
  "UefiMain fw a view jk handle con s =
     bindR (BootMgrInitialize fw a (EfiInitialize fw con (s\<lparr>gImageHandle := handle\<rparr>))) (\<lambda>(st, s).
     if fw_error fw st then give_up fw ''Boot manager initialization failed\<newline>'' st s
     else bindR (ConfigLoad fw view (mj_load jk) (wide CONFIG_PATH) s) (\<lambda>(st, c, s).
     bindR (if fw_error fw st
            then bindR default_config (\<lambda>c. Ret (c, EfiPrintString ''Using default configuration...\<newline>''
                   (EfiPrintError ''Failed to load boot configuration\<newline>'' s)))
            else Ret (c, s)) (\<lambda>(c, s).
     bindR (BootMgrShowMenu fw view c s) (\<lambda>(st, sel, s).
     if fw_error fw st then give_up fw ''Failed to select boot entry\<newline>'' st s
     else case sel of None \<Rightarrow> Fault | Some i \<Rightarrow> boot_entry_run fw a jk (uc_entries c ! i) s))))"

section \<open>What the steps leave alone\<close>

text \<open>Everything of the state but the console and the world of the firmware.\<close>

definition frame :: "('w, 'z) uefi_run_scheme \<Rightarrow> bool \<times> u64 \<times> 'z" where
  "frame s = (has_console s, gImageHandle s, uefi_run.more s)"

named_theorems frame_rules \<open>operations that leave the frame alone\<close>

lemma frame_simps [simp]:
  "frame (con_put es s) = frame s" "frame (EfiPrintString m s) = frame s" "frame (EfiPrintError m s) = frame s"
  "frame (EfiPrintHex n s) = frame s" "frame (tell f s) = frame s"
  by (simp_all add: frame_def con_put_def EfiPrintString_def EfiPrintError_def EfiPrintHex_def tell_def)

lemma frame_log:
  fixes s t :: "('w, 'z) uefi_hal_scheme"
  assumes "frame t = frame s"
  shows "hw_log t = hw_log s" "gImageHandle t = gImageHandle s"
  using assms by (cases s; cases t; simp add: frame_def)+

lemma log_simps [simp]:
  fixes s :: "('w, 'z) uefi_hal_scheme"
  shows "hw_log (EfiPrintString m s) = hw_log s" "hw_log (EfiPrintError m s) = hw_log s" "hw_log (EfiPrintHex n s) = hw_log s"
    "hw_log (tell f s) = hw_log s"
  by (rule frame_log, simp)+

lemma handle_simps [simp]:
  "gImageHandle (EfiPrintString m s) = gImageHandle s" "gImageHandle (EfiPrintError m s) = gImageHandle s"
  "gImageHandle (tell f s) = gImageHandle s"
  by (simp_all add: EfiPrintString_def EfiPrintError_def con_put_def tell_def)

lemma frame_call [frame_rules]: "call f s = (r, t) \<Longrightarrow> frame t = frame s"
  by (auto simp: call_def frame_def split: prod.splits)

lemma frame_text [frame_rules]: "EfiPrintText str s = Ret t \<Longrightarrow> frame t = frame s"
  by (auto simp: EfiPrintText_def split: if_splits)

lemma FsOpenVolume_frame [frame_rules]: "FsOpenVolume fw d v s = Ret (st, v', t) \<Longrightarrow> frame t = frame s"
  by (auto simp: FsOpenVolume_def Let_def split: prod.splits if_splits dest!: frame_rules)

lemma FsCloseVolume_frame [frame_rules]: "FsCloseVolume fw v s = (st, v', t) \<Longrightarrow> frame t = frame s"
  by (auto simp: FsCloseVolume_def Let_def split: prod.splits if_splits dest!: frame_rules)

lemma FsOpenFile_frame [frame_rules]: "FsOpenFile fw v str s = Ret (st, file, t) \<Longrightarrow> frame t = frame s"
  by (auto simp: FsOpenFile_def split: prod.splits if_splits dest!: frame_rules)

lemma FsCloseFile_frame [frame_rules]: "FsCloseFile fw file s = (st, t) \<Longrightarrow> frame t = frame s"
  by (auto simp: FsCloseFile_def split: if_splits dest!: frame_rules)

lemma FsReadFile_frame [frame_rules]: "FsReadFile fw file buf sz s = Ret (st, n, buf', t) \<Longrightarrow> frame t = frame s"
  by (auto simp: FsReadFile_def outcome_simps split: prod.splits if_splits dest!: frame_rules)

lemma FsGetFileSize_frame [frame_rules]: "FsGetFileSize fw file sz s = Ret (st, n, t) \<Longrightarrow> frame t = frame s"
  by (auto simp: FsGetFileSize_def split: prod.splits if_splits dest!: frame_rules)

lemma VerifySecureBoot_frame [frame_rules]: "VerifySecureBoot fw s = Ret (st, t) \<Longrightarrow> frame t = frame s"
  by (auto simp: VerifySecureBoot_def IsSecureBootEnabled_def outcome_simps split: prod.splits if_splits dest!: frame_rules)

lemma ConfigLoad_frame [frame_rules]: "ConfigLoad fw view jk str s = Ret (st, c, t) \<Longrightarrow> frame t = frame s"
proof (drule ensuresD [rotated, where P = "\<lambda>(st, c, t). frame t = frame s"])
  show "ensures (ConfigLoad fw view jk str s) (\<lambda>(st, c, t). frame t = frame s)"
    unfolding ConfigLoad_def Let_def by (intro ensures_intros) (auto dest!: frame_rules)
qed simp

lemma BootMgrLoadKernel_frame [frame_rules]: "BootMgrLoadKernel fw v0 sz0 e s = Ret (st, img, t) \<Longrightarrow> frame t = frame s"
proof (drule ensuresD [rotated, where P = "\<lambda>(st, img, t). frame t = frame s"])
  show "ensures (BootMgrLoadKernel fw v0 sz0 e s) (\<lambda>(st, img, t). frame t = frame s)"
    unfolding BootMgrLoadKernel_def describe_image_def Let_def by (intro ensures_intros) (auto dest!: frame_rules)
qed simp

lemma HalGetMemoryMap_frame [frame_rules]: "HalGetMemoryMap fw m0 s = Ret (m, t) \<Longrightarrow> frame t = frame s"
proof (drule ensuresD [rotated, where P = "\<lambda>(m, t). frame t = frame s"])
  show "ensures (HalGetMemoryMap fw m0 s) (\<lambda>(m, t). frame t = frame s)"
    unfolding HalGetMemoryMap_def Let_def by (intro ensures_intros) (auto dest!: frame_rules)
qed simp

lemma HalGetAcpiInfo_frame [frame_rules]: "HalGetAcpiInfo fw s = (i, t) \<Longrightarrow> frame t = frame s"
  by (auto simp: HalGetAcpiInfo_def Let_def split: if_splits)

lemma read_key_frame [frame_rules]: "read_key fw behind s = Ret (key, t) \<Longrightarrow> frame t = frame s"
  by (auto simp: read_key_def split: prod.splits if_splits list.splits dest!: frame_rules)

section \<open>Menu and entry point\<close>

definition no_digit :: "'w firmware \<Rightarrow> bool" where
  "no_digit fw \<longleftrightarrow> (\<forall>w. case fw_read_key fw w of ((st, scan, _), _) \<Rightarrow> fw_error fw st \<or> \<not> (48 \<le> scan \<and> scan \<le> 57))"

definition key_selects :: "'w firmware \<Rightarrow> uefi_config \<Rightarrow> nat \<Rightarrow> bool" where
  "key_selects fw c i \<longleftrightarrow> (\<exists>w st scan ch w'. fw_read_key fw w = ((st, scan, ch), w') \<and> \<not> fw_error fw st \<and> key_entry c scan = Some i)"

lemma read_key_selects: "read_key fw behind s = Ret (Some k, t) \<Longrightarrow> key_entry c (hd k) = Some i \<Longrightarrow> key_selects fw c i"
  by (fastforce simp: read_key_def call_def key_selects_def split: prod.splits if_splits list.splits)

lemma no_digit_selects: "no_digit fw \<Longrightarrow> \<not> key_selects fw c i"
  unfolding key_selects_def
proof clarify
  fix w st scan ch w'
  assume fw: "no_digit fw" "fw_read_key fw w = ((st, scan, ch), w')" "\<not> fw_error fw st" "key_entry c scan = Some i"
  from fw(2,3) spec [OF fw(1) [unfolded no_digit_def], of w] have "\<not> (48 \<le> scan \<and> scan \<le> 57)" by simp
  with fw(4) show False by (simp add: key_entry_def split: if_splits)
qed

text \<open>When the loop ends, a key it has read has selected the entry.\<close>

lemma menu_loop_selects:
  assumes "menu_loop fw behind c s = Some (Ret (st, e, t))"
  shows "frame t = frame s \<and> st = EFI_SUCCESS \<and>
    (\<exists>i. e = Some i \<and> key_selects fw c i)"
proof -
  have "\<forall>st e t. r = Ret (st, e, t) \<longrightarrow> frame t = frame s \<and> st = EFI_SUCCESS \<and>
      (\<exists>i. e = Some i \<and> key_selects fw c i)"
    if "menu_loop fw behind c s = Some r" for r
    using that
  proof (rule menu_loop.raw_induct [rotated], intro allI impI)
    fix menu_loop fw behind c s r st e t
    assume IH: "\<And>fw behind c s r. menu_loop fw behind c s = Some r \<Longrightarrow> \<forall>st e t. r = Ret (st, e, t) \<longrightarrow>
          frame t = frame s \<and> st = EFI_SUCCESS \<and>
          (\<exists>i. e = Some i \<and> key_selects fw c i)"
      and step: "(case read_key fw behind s of
          Ret (key, s) \<Rightarrow> (case Option.bind key (\<lambda>k. key_entry c (hd k)) of
            None \<Rightarrow> menu_loop fw behind c (tell (fw_stall fw 100000) s)
          | Some i \<Rightarrow> Some (bindR (EfiPrintText (the key) s) (\<lambda>s. Ret (EFI_SUCCESS, Some i, EfiPrintString ''\<newline>'' s))))
        | Hang \<Rightarrow> Some Hang | Fault \<Rightarrow> Some Fault) = Some r"
      and r: "r = Ret (st, e, t)"
    obtain key u where key: "read_key fw behind s = Ret (key, u)" using step r by (cases "read_key fw behind s") auto
    have u: "frame u = frame s" using key by (rule read_key_frame)
    show "frame t = frame s \<and> st = EFI_SUCCESS \<and>
        (\<exists>i. e = Some i \<and> key_selects fw c i)"
    proof (cases "Option.bind key (\<lambda>k. key_entry c (hd k))")
      case None
      with step key have "menu_loop fw behind c (tell (fw_stall fw 100000) u) = Some r" by simp
      from IH [OF this] r u show ?thesis by simp
    next
      case (Some i)
      then obtain k where k: "key = Some k" "key_entry c (hd k) = Some i" by (auto simp: bind_eq_Some_conv)
      with step key r have "st = EFI_SUCCESS" "e = Some i" "\<exists>v. EfiPrintText k u = Ret v \<and> t = EfiPrintString ''\<newline>'' v"
        by (auto simp: outcome_simps)
      then show ?thesis using u read_key_selects [OF key [unfolded k(1)] k(2)] by (auto dest!: frame_text)
    qed
  qed
  with assms show ?thesis by blast
qed

lemma timeout_loop_frame [frame_rules]: "timeout_loop fw behind n s = Ret (b, t) \<Longrightarrow> frame t = frame s"
proof (induction n arbitrary: s)
  case (Suc n)
  then obtain key u where key: "read_key fw behind s = Ret (key, u)" by (auto simp: outcome_simps)
  with Suc show ?case by (auto split: option.splits dest!: read_key_frame)
qed simp

lemma menu_lines_frame [frame_rules]:
  fixes s t :: "('w, 'z) uefi_run_scheme"
  shows "forR (menu_line c) is s = Ret t \<Longrightarrow> frame t = frame s"
proof (rule forR_invariant [where P = "\<lambda>u. frame u = frame s" and body = "menu_line c"])
  show "frame v = frame s" if "menu_line c i u = Ret v" "frame u = frame s" for i u v
    using that by (auto simp: menu_line_def Let_def outcome_simps split: if_splits dest!: frame_text)
qed simp_all

lemma BootMgrShowMenu_result:
  assumes "BootMgrShowMenu fw view c s = Ret (st, e, t)"
  shows "frame t = frame s \<and> (0 < uc_timeout c \<and> ConfigGetDefaultEntry c = Ret (st, e) \<or>
    (\<exists>i. e = Some i \<and> st = EFI_SUCCESS \<and> key_selects fw c i))"
proof -
  have waited: "frame t = frame u \<and> (\<exists>i. e = Some i \<and> st = EFI_SUCCESS \<and> key_selects fw c i)"
    if "looped (menu_loop fw (key_behind view) c (EfiPrintString m u)) = Ret (st, e, t)" for m u st e t
    using that menu_loop_selects [of fw "key_behind view" c "EfiPrintString m u" st e t]
    by (auto simp: looped_def split: option.splits)
  show ?thesis
    using assms unfolding BootMgrShowMenu_def Let_def
    by (auto simp: outcome_simps split: if_splits dest!: waited frame_rules)
qed

text \<open>The scan codes of the UEFI specification do not reach the codes of the digits, and the menu reads the scan code of
  a key. So no key selects an entry: whenever the menu returns, it counted the timeout down, which was not 0, and gives
  the default entry; when it waits for a key it does not return.\<close>

theorem menu_gives_default:
  assumes "no_digit fw" "BootMgrShowMenu fw view c s = Ret (st, e, t)"
  shows "0 < uc_timeout c \<and> ConfigGetDefaultEntry c = Ret (st, e) \<and> gImageHandle t = gImageHandle s"
proof -
  have "frame t = frame s" "0 < uc_timeout c \<and> ConfigGetDefaultEntry c = Ret (st, e)"
    using BootMgrShowMenu_result [OF assms(2)] no_digit_selects [OF assms(1), of c] by blast+
  then show ?thesis by (simp add: frame_def)
qed

theorem menu_gives_default_witness:
  "\<exists>t. BootMgrShowMenu sample_fw \<lparr>line_survives = True, key_behind = []\<rparr> (zero_config\<lparr>uc_timeout := 2\<rparr>) sample_run = Ret (EFI_NOT_FOUND, None, t) \<and>
     gImageHandle t = 1"
proof -
  let ?r = "BootMgrShowMenu sample_fw \<lparr>line_survives = True, key_behind = []\<rparr> (zero_config\<lparr>uc_timeout := 2\<rparr>) sample_run"
  have "case ?r of Ret (st, e, _) \<Rightarrow> st = EFI_NOT_FOUND \<and> e = None | _ \<Rightarrow> False" by code_simp
  then obtain t where t: "?r = Ret (EFI_NOT_FOUND, None, t)" by (auto split: outcome.splits)
  have "no_digit sample_fw" by (simp add: no_digit_def sample_fw_def)
  from menu_gives_default [OF this t] t show ?thesis by (simp add: sample_run_def)
qed

lemma text_shown: "0 \<in> set str \<Longrightarrow> \<exists>t. EfiPrintText str s = Ret t"
  by (simp add: EfiPrintText_def)

lemma timeout_loop_quiet:
  fixes s :: "('w, 'z) uefi_run_scheme"
  assumes "\<forall>w. fw_error fw (fst (fst (fw_read_key fw w)))"
  shows "\<exists>t. timeout_loop fw behind n s = Ret (True, t)"
proof (induction n arbitrary: s)
  case (Suc n)
  have "\<exists>t. read_key fw behind s = Ret (None, t)"
    using spec [OF assms, of "world s"] by (auto simp: read_key_def call_def split: prod.splits)
  with Suc show ?case by auto
qed simp

text \<open>Without a key the menu ends, after its timeout, with the default entry.\<close>

lemma menu_times_out:
  fixes s :: "('w, 'z) uefi_run_scheme"
  assumes quiet: "\<forall>w. fw_error fw (fst (fst (fw_read_key fw w)))" and "0 < uc_timeout c" "ConfigGetDefaultEntry c = Ret (st, e)"
    and table: "unat (uc_count c) \<le> length (uc_entries c)" "\<forall>i < unat (uc_count c). be_enabled (uc_entries c ! i) \<longrightarrow> 0 \<in> set (be_name (uc_entries c ! i))"
  shows "\<exists>t. BootMgrShowMenu fw view c s = Ret (st, e, t)"
proof -
  have line: "\<exists>t. menu_line c i u = Ret t" if "i < unat (uc_count c)" for i and u :: "('w, 'z) uefi_run_scheme"
    using table that text_shown [of "be_name (uc_entries c ! i)"] by (force simp: menu_line_def Let_def outcome_simps)
  have lines: "\<exists>t. forR (menu_line c) [0..<n] u = Ret t" if "n \<le> unat (uc_count c)" for n and u :: "('w, 'z) uefi_run_scheme"
    using that by (induction n) (use line in \<open>force simp: forR_append outcome_simps\<close>)+
  let ?s = "EfiPrintString ''\<newline>'' (EfiPrintString ''=== HIK Boot Manager ===\<newline>'' (EfiPrintString ''\<newline>'' s))"
  obtain t where t: "forR (menu_line c) [0..<unat (uc_count c)] ?s = Ret t" using lines by blast
  let ?t = "EfiPrintString '' seconds... (Press any key to interrupt)\<newline>''
    (EfiPrintHex (ucast (uc_timeout c)) (EfiPrintString ''Booting default entry in '' (EfiPrintString ''\<newline>'' t)))"
  obtain u where u: "timeout_loop fw (key_behind view) (unat (uc_timeout c)) ?t = Ret (True, u)"
    using timeout_loop_quiet [OF quiet] by blast
  show ?thesis
    unfolding BootMgrShowMenu_def Let_def t bindR.simps u prod.case using assms(2,3) by simp
qed

lemma default_config_result:
  obtains c where "default_config = Ret c" "uc_count c = 1" "ztext (be_kernel_path (uc_entries c ! 0)) = map of_char KERNEL_PATH"
    "uc_timeout c = 5" "length (uc_entries c) = 10" "be_enabled (uc_entries c ! 0)" "be_default (uc_entries c ! 0)"
    "0 \<in> set (be_name (uc_entries c ! 0))" "0 \<in> set (be_kernel_path (uc_entries c ! 0))"
proof -
  have "case default_config of Ret c \<Rightarrow> uc_count c = 1 \<and> ztext (be_kernel_path (uc_entries c ! 0)) = map of_char KERNEL_PATH \<and>
      uc_timeout c = 5 \<and> length (uc_entries c) = 10 \<and> be_enabled (uc_entries c ! 0) \<and> be_default (uc_entries c ! 0) \<and>
      0 \<in> set (be_name (uc_entries c ! 0)) \<and> 0 \<in> set (be_kernel_path (uc_entries c ! 0)) | _ \<Rightarrow> False"
    by code_simp
  then show thesis using that by (auto split: outcome.splits)
qed

lemma default_selects:
  fixes s :: "('w, 'z) uefi_run_scheme"
  assumes "\<forall>w. fw_error fw (fst (fst (fw_read_key fw w)))" "uc_count c = 1" "uc_timeout c = 5" "length (uc_entries c) = 10"
    "be_enabled (uc_entries c ! 0)" "be_default (uc_entries c ! 0)" "0 \<in> set (be_name (uc_entries c ! 0))"
  shows "\<exists>t. BootMgrShowMenu fw view c s = Ret (EFI_SUCCESS, Some 0, t)"
  using assms by (intro menu_times_out) (simp_all add: ConfigGetDefaultEntry_def first_from.simps [of _ 0 "Suc 0"])

text \<open>
  If it comes to the jump (which takes a firmware that answers \<open>GetMemoryMap\<close> with the number 5 itself), it goes to the
  entry of the header that was loaded, with interrupts disabled. A refused \<open>ExitBootServices\<close> is no obstacle: the processor
  is halted until the next interrupt, and goes on.
\<close>

lemma leave_firmware_jump:
  assumes "leave_firmware fw img key stack info s = Ret (fin, t)"
  shows "\<exists>buf entry h. img_header img = Some buf \<and> le_at 8 buf 16 = Ret entry \<and> fin = Jumped \<and> h \<in> {[], [Hlt]} \<and>
    hw_log t = hw_log s @ [Cli] @ h @ [JumpTo stack entry]"
proof -
  obtain st u where call: "call (fw_exit_boot fw (gImageHandle s) key) (HalDisableInterrupts s) = (st, u)" by (metis surj_pair)
  have "hw_log u = hw_log s @ [Cli]" "gImageHandle (HalDisableInterrupts s) = gImageHandle s"
    using frame_log(1) [OF frame_call [OF call]] by (simp_all add: HalDisableInterrupts_def hw_def)
  then show ?thesis
    using assms call
    by (cases "img_header img"; cases "fw_error fw st")
      (auto simp: leave_firmware_def Let_def outcome_simps HalHalt_def HalJumpToKernel_def hw_def)
qed

lemma BootMgrBootKernel_jump:
  assumes "BootMgrBootKernel fw a m0 img s = Ret (Jumped, t)"
  shows "\<exists>buf entry stack h. img_header img = Some buf \<and> le_at 8 buf 16 = Ret entry \<and> h \<in> {[], [Hlt]} \<and>
    hw_log t = hw_log s @ [Cli] @ h @ [JumpTo stack entry]"
proof -
  let ?P = "\<lambda>(fin, t). fin = Jumped \<longrightarrow> (\<exists>buf entry stack h. img_header img = Some buf \<and> le_at 8 buf 16 = Ret entry \<and>
      h \<in> {[], [Hlt]} \<and> hw_log t = hw_log s @ [Cli] @ h @ [JumpTo stack entry])"
  have last: "ensures (leave_firmware fw img k stack info u) ?P" if "hw_log u = hw_log s" for k stack info u
    unfolding ensures_def using leave_firmware_jump [of fw img k stack info u] that by (auto simp del: insert_iff)
  have "ensures (BootMgrBootKernel fw a m0 img s) ?P"
    unfolding BootMgrBootKernel_def Let_def
    by (intro ensures_intros last)
      (auto dest!: frame_call [THEN frame_log(1)] HalGetMemoryMap_frame [THEN frame_log(1)] HalGetAcpiInfo_frame [THEN frame_log(1)])
  then show ?thesis using assms by (auto simp: ensures_def)
qed

lemma fold_idt_handle: "gImageHandle (fold (\<lambda>i. HalSetIdtEntry i h sel ty) is s) = gImageHandle s"
  by (induction "is" arbitrary: s) (simp_all add: HalSetIdtEntry_def)

lemma BootMgrInitialize_result:
  assumes "BootMgrInitialize fw a s = Ret (st, t)"
  shows "hw_log t = hw_log (HalInitialize a s) \<and> gImageHandle t = gImageHandle s"
proof -
  have init: "gImageHandle (HalInitialize a u) = gImageHandle u" for u :: "('a, 'b) uefi_hal_scheme"
    by (simp add: HalInitialize_def HalSetupIdt_def HalSetupGdt_def HalSetGdtEntry_def HalDisableInterrupts_def hw_def Let_def fold_idt_handle)
  show ?thesis
    using assms
    by (auto simp: BootMgrInitialize_def Let_def outcome_simps init HalInitialize_result frame_log [OF VerifySecureBoot_frame] split: if_splits)
qed

lemma FsOpenVolume_refused:
  assumes "\<forall>w. fw_error fw (fst (fst (fw_open_protocol fw dev w)))" "FsOpenVolume fw dev v s = Ret (st, v', t)"
  shows "fw_error fw st"
  using assms(2) spec [OF assms(1), of "world s"] by (auto simp: FsOpenVolume_def call_def Let_def split: prod.splits if_splits)

lemma ConfigLoad_refused:
  assumes "\<forall>w. fw_error fw (fst (fst (fw_open_protocol fw (gImageHandle s) w)))" "ConfigLoad fw view jk str s = Ret (st, c, t)"
  shows "fw_error fw st"
proof -
  obtain st1 v u where vol: "FsOpenVolume fw (gImageHandle s) (lj_volume jk) s = Ret (st1, v, u)"
    using assms(2) by (auto simp: ConfigLoad_def Let_def outcome_simps)
  with FsOpenVolume_refused [OF assms(1) vol] assms(2) show ?thesis by (auto simp: ConfigLoad_def Let_def)
qed

lemma BootMgrLoadKernel_refused:
  assumes "\<forall>w. fw_error fw (fst (fst (fw_open_protocol fw (gImageHandle s) w)))" "BootMgrLoadKernel fw v0 sz0 e s = Ret (st, img, t)"
  shows "fw_error fw st"
proof -
  obtain st1 v u where vol: "FsOpenVolume fw (gImageHandle s) v0 s = Ret (st1, v, u)"
    using assms(2) by (auto simp: BootMgrLoadKernel_def outcome_simps)
  with FsOpenVolume_refused [OF assms(1) vol] assms(2) show ?thesis by (auto simp: BootMgrLoadKernel_def)
qed

text \<open>While loading fails, no kernel is started: nothing after it is reached.\<close>

lemma boot_entry_run_refused:
  fixes s :: "'w uefi_boot"
  assumes fails: "\<And>u st img v. BootMgrLoadKernel fw (mj_volume jk) (mj_size jk) e (u :: 'w uefi_boot) = Ret (st, img, v) \<Longrightarrow>
      gImageHandle u = gImageHandle s \<Longrightarrow> fw_error fw st"
    and run: "boot_entry_run fw a jk e s = Ret (fin, t)"
  shows "\<exists>st. fin = Returned st \<and> fw_error fw st \<and> hw_log t = hw_log s"
proof -
  obtain r where shown: "EfiPrintText (be_name e) (EfiPrintString ''Loading kernel: '' (EfiPrintString ''\<newline>'' s)) = Ret r"
    using run by (auto simp: boot_entry_run_def Let_def outcome_simps)
  have r: "hw_log r = hw_log s" "gImageHandle r = gImageHandle s" using frame_log [OF frame_text [OF shown]] by simp_all
  obtain st img v where load: "BootMgrLoadKernel fw (mj_volume jk) (mj_size jk) e (EfiPrintString ''\<newline>'' r) = Ret (st, img, v)"
    using run shown by (auto simp: boot_entry_run_def Let_def outcome_simps)
  have "fw_error fw st" using fails [OF load] r(2) by simp
  moreover have "hw_log v = hw_log s" using frame_log(1) [OF BootMgrLoadKernel_frame [OF load]] r(1) by simp
  ultimately show ?thesis using run shown load by (auto simp: boot_entry_run_def Let_def outcome_simps give_up_def)
qed

lemma UefiMain_refused:
  fixes s :: "'w uefi_boot"
  assumes fails: "\<And>e u st img v. BootMgrLoadKernel fw (mj_volume jk) (mj_size jk) e (u :: 'w uefi_boot) = Ret (st, img, v) \<Longrightarrow>
      gImageHandle u = handle \<Longrightarrow> fw_error fw st"
    and run: "UefiMain fw a view jk handle con s = Ret (fin, t)"
  shows "\<exists>st. fin = Returned st \<and> fw_error fw st \<and> hw_log t = hw_log (HalInitialize a s)"
proof -
  let ?s = "EfiInitialize fw con (s\<lparr>gImageHandle := handle\<rparr>)"
  have log: "hw_log (HalInitialize a ?s) = hw_log (HalInitialize a s)" "gImageHandle ?s = handle"
    by (simp_all add: HalInitialize_result(3) EfiInitialize_def tell_def)
  obtain st0 s1 where init: "BootMgrInitialize fw a ?s = Ret (st0, s1)" using run by (auto simp: UefiMain_def outcome_simps)
  have s1: "hw_log s1 = hw_log (HalInitialize a s)" "gImageHandle s1 = handle"
    using BootMgrInitialize_result [OF init] log by simp_all
  show ?thesis
  proof (cases "fw_error fw st0")
    case True
    with run init s1 show ?thesis by (auto simp: UefiMain_def outcome_simps give_up_def)
  next
    case False
    obtain st1 c1 s2 where load: "ConfigLoad fw view (mj_load jk) (wide CONFIG_PATH) s1 = Ret (st1, c1, s2)"
      using run init False by (auto simp: UefiMain_def outcome_simps)
    have s2: "hw_log s2 = hw_log s1" "gImageHandle s2 = gImageHandle s1" using frame_log [OF ConfigLoad_frame [OF load]] .
    obtain d where d: "default_config = Ret d" by (rule default_config_result)
    obtain c m where cm: "(if fw_error fw st1
        then bindR default_config (\<lambda>c. Ret (c, EfiPrintString ''Using default configuration...\<newline>''
               (EfiPrintError ''Failed to load boot configuration\<newline>'' s2)))
        else Ret (c1, s2)) = Ret (c, m)" "frame m = frame s2"
      by (rule that [of "if fw_error fw st1 then d else c1" "if fw_error fw st1 then EfiPrintString ''Using default configuration...\<newline>''
               (EfiPrintError ''Failed to load boot configuration\<newline>'' s2) else s2"]) (simp_all add: d)
    have "bindR (BootMgrShowMenu fw view c m) (\<lambda>(st, sel, s).
        if fw_error fw st then give_up fw ''Failed to select boot entry\<newline>'' st s
        else case sel of None \<Rightarrow> Fault | Some i \<Rightarrow> boot_entry_run fw a jk (uc_entries c ! i) s) = Ret (fin, t)"
      using run False unfolding UefiMain_def init bindR.simps prod.case load by (simp add: cm(1))
    then obtain st2 e s3 where menu: "BootMgrShowMenu fw view c m = Ret (st2, e, s3)"
      "(if fw_error fw st2 then give_up fw ''Failed to select boot entry\<newline>'' st2 s3
        else case e of None \<Rightarrow> Fault | Some i \<Rightarrow> boot_entry_run fw a jk (uc_entries c ! i) s3) = Ret (fin, t)"
      unfolding bindR_eq_Ret_iff by auto
    have "frame s3 = frame s2" using BootMgrShowMenu_result [OF menu(1)] cm(2) by simp
    then have s3: "hw_log s3 = hw_log (HalInitialize a s)" "gImageHandle s3 = handle" using frame_log [of s3 s2] s1 s2 by simp_all
    show ?thesis
    proof (cases "fw_error fw st2")
      case True
      with menu(2) s3 show ?thesis by (auto simp: give_up_def)
    next
      case False
      with menu(2) obtain i where "boot_entry_run fw a jk (uc_entries c ! i) s3 = Ret (fin, t)" by (auto split: option.splits)
      from boot_entry_run_refused [OF _ this] fails show ?thesis unfolding s3 by blast
    qed
  qed
qed

section \<open>Firmware that keeps to its specification\<close>

lemma ConfigLoad_documented:
  fixes s :: "('w, 'z) uefi_run_scheme"
  assumes fw: "documented_firmware fw" and str: "0 \<in> set str"
  shows "\<exists>st c t. ConfigLoad fw view jk str s = Ret (st, c, t) \<and> fw_error fw st"
proof -
  obtain st v u where vol: "FsOpenVolume fw (gImageHandle s) (lj_volume jk) s = Ret (st, v, u)" "fw_error fw st \<or> vol_root v \<noteq> 0"
    using documented_open_volume [OF fw] by blast
  show ?thesis
  proof (cases "fw_error fw st")
    case True
    with vol show ?thesis by (simp add: ConfigLoad_def Let_def)
  next
    case False
    obtain st' h w where opened: "FsOpenFile fw v str u = Ret (st', h, w)" "fw_error fw st' \<or> h \<noteq> 0"
      using documented_open_file [OF fw _ str] vol(2) False by blast
    show ?thesis
    proof (cases "fw_error fw st'")
      case True
      with vol opened False show ?thesis by (simp add: ConfigLoad_def Let_def split: prod.split)
    next
      case h: False
      obtain st'' x where "FsGetFileSize fw h (lj_size jk) w = Ret (st'', lj_size jk, x)" "fw_error fw st''"
        using documented_file_size [OF fw] opened(2) h by blast
      with vol opened False h show ?thesis by (simp add: ConfigLoad_def Let_def split: prod.split)
    qed
  qed
qed

lemma BootMgrLoadKernel_documented:
  fixes s :: "('w, 'z) uefi_run_scheme"
  assumes fw: "documented_firmware fw"
  shows "BootMgrLoadKernel fw v0 sz0 e s = Ret (st, img, t) \<Longrightarrow> fw_error fw st"
    and "0 \<in> set (be_kernel_path e) \<Longrightarrow> \<exists>st t. BootMgrLoadKernel fw v0 sz0 e s = Ret (st, zero_image, t) \<and> fw_error fw st"
proof -
  obtain st0 v u where vol: "FsOpenVolume fw (gImageHandle s) v0 s = Ret (st0, v, u)" "fw_error fw st0 \<or> vol_root v \<noteq> 0"
    using documented_open_volume [OF fw] by blast
  have loads: "\<exists>st t. BootMgrLoadKernel fw v0 sz0 e s = Ret (st, zero_image, t) \<and> fw_error fw st" if str: "0 \<in> set (be_kernel_path e)"
  proof (cases "fw_error fw st0")
    case True
    with vol show ?thesis by (simp add: BootMgrLoadKernel_def)
  next
    case False
    obtain st' h w where opened: "FsOpenFile fw v (be_kernel_path e) u = Ret (st', h, w)" "fw_error fw st' \<or> h \<noteq> 0"
      using documented_open_file [OF fw _ str] vol(2) False by blast
    show ?thesis
    proof (cases "fw_error fw st'")
      case True
      with vol opened False show ?thesis by (simp add: BootMgrLoadKernel_def split: prod.split)
    next
      case h: False
      obtain st'' x where "FsGetFileSize fw h sz0 w = Ret (st'', sz0, x)" "fw_error fw st''"
        using documented_file_size [OF fw] opened(2) h by blast
      with vol opened False h show ?thesis by (simp add: BootMgrLoadKernel_def split: prod.split)
    qed
  qed
  then show "0 \<in> set (be_kernel_path e) \<Longrightarrow> \<exists>st t. BootMgrLoadKernel fw v0 sz0 e s = Ret (st, zero_image, t) \<and> fw_error fw st" .
  assume run: "BootMgrLoadKernel fw v0 sz0 e s = Ret (st, img, t)"
  show "fw_error fw st"
  proof (cases "0 \<in> set (be_kernel_path e)")
    case True
    with loads run show ?thesis by auto
  next
    case False
    then have "FsOpenFile fw v (be_kernel_path e) u = Fault" by (simp add: FsOpenFile_def)
    with run vol(1) show ?thesis by (auto simp: BootMgrLoadKernel_def split: if_splits)
  qed
qed

lemma UefiMain_documented:
  fixes s :: "'w uefi_boot"
  assumes fw: "documented_firmware fw" and quiet: "\<forall>w. fw_error fw (fst (fst (fw_read_key fw w)))"
  shows "\<exists>st t. UefiMain fw a view jk handle con s = Ret (Returned st, t)"
proof -
  obtain d where d: "default_config = Ret d" "uc_count d = 1" "uc_timeout d = 5" "length (uc_entries d) = 10"
    "be_enabled (uc_entries d ! 0)" "be_default (uc_entries d ! 0)" "0 \<in> set (be_name (uc_entries d ! 0))"
    "0 \<in> set (be_kernel_path (uc_entries d ! 0))" by (rule default_config_result)
  note ok = documented_codes(1) [OF fw]
  let ?s = "EfiInitialize fw con (s\<lparr>gImageHandle := handle\<rparr>)"
  obtain s1 where init: "BootMgrInitialize fw a ?s = Ret (EFI_SUCCESS, s1)"
  proof -
    let ?u = "HalInitialize a (EfiPrintString ''\<newline>'' (EfiPrintString ''Copyright (c) 2026 HIK Project\<newline>''
      (EfiPrintString ''HIK Boot Manager v1.0\<newline>'' ?s)))"
    obtain v where "VerifySecureBoot fw ?u = Ret (EFI_SUCCESS, EfiPrintString ''Secure Boot is disabled\<newline>'' v)"
      using documented_secure_boot [OF fw] by blast
    then show thesis using ok by (intro that) (simp add: BootMgrInitialize_def)
  qed
  have "0 \<in> set (wide CONFIG_PATH)" by code_simp
  then obtain st1 c s2 where load: "ConfigLoad fw view (mj_load jk) (wide CONFIG_PATH) s1 = Ret (st1, c, s2)" "fw_error fw st1"
    using ConfigLoad_documented [OF fw] by blast
  let ?m = "EfiPrintString ''Using default configuration...\<newline>'' (EfiPrintError ''Failed to load boot configuration\<newline>'' s2)"
  obtain s3 where menu: "BootMgrShowMenu fw view d ?m = Ret (EFI_SUCCESS, Some 0, s3)"
    using default_selects [OF quiet d(2-7)] by blast
  let ?e = "uc_entries d ! 0"
  obtain r where shown: "EfiPrintText (be_name ?e) (EfiPrintString ''Loading kernel: '' (EfiPrintString ''\<newline>'' s3)) = Ret r"
    using text_shown [OF d(7)] by blast
  obtain st t where kernel: "BootMgrLoadKernel fw (mj_volume jk) (mj_size jk) ?e (EfiPrintString ''\<newline>'' r) = Ret (st, zero_image, t)"
    "fw_error fw st" using BootMgrLoadKernel_documented(2) [OF fw d(8)] by blast
  have "\<exists>st t. boot_entry_run fw a jk ?e s3 = Ret (Returned st, t)"
    unfolding boot_entry_run_def Let_def shown bindR.simps kernel(1) using kernel(2) by (simp add: give_up_def)
  then show ?thesis
    unfolding UefiMain_def init bindR.simps prod.case load(1) d(1) using ok load(2) by (simp add: menu)
qed

section \<open>Properties\<close>

text \<open>
  C9. On a firmware that keeps to the UEFI specification the loader never starts a kernel. \<open>types.h\<close> writes
  \<open>EFI_BUFFER_TOO_SMALL\<close> without the top bit every error has, so \<open>FsGetFileSize\<close> does not recognise the answer of the
  firmware and no file is ever read: whenever \<open>UefiMain\<close> returns, whatever the files, the configuration and the keys are,
  it is with an error, and after the tables \<open>HalInitialize\<close> loads it has told the machine nothing. If no key is pressed it
  does return: it waits for the timeout of the built-in configuration, selects its entry and fails to load the kernel.
\<close>

theorem uefi_never_starts_kernel:
  assumes "documented_firmware fw"
  shows "(UefiMain fw a view jk handle con s = Ret (fin, t) \<longrightarrow>
      (\<exists>st. fin = Returned st \<and> fw_error fw st \<and> hw_log t = hw_log (HalInitialize a s))) \<and>
    ((\<forall>w. fw_error fw (fst (fst (fw_read_key fw w)))) \<longrightarrow>
      (\<exists>st t. UefiMain fw a view jk handle con s = Ret (Returned st, t)))"
proof (intro conjI impI)
  assume "UefiMain fw a view jk handle con s = Ret (fin, t)"
  with BootMgrLoadKernel_documented(1) [OF assms]
  show "\<exists>st. fin = Returned st \<and> fw_error fw st \<and> hw_log t = hw_log (HalInitialize a s)" by (blast intro: UefiMain_refused)
qed (rule UefiMain_documented [OF assms])

text \<open>A firmware with the files of a kernel, which answers as the specification says, and the same one without file systems on image handles.\<close>

definition spec_fw :: "u64 firmware" where
  "spec_fw = sample_fw\<lparr>fw_error := (\<lambda>st. st AND EFI_ERROR_MASK \<noteq> 0),
     fw_get_info := (\<lambda>_ b _ w. ((if b then EFI_SUCCESS else EFIERR EFI_BUFFER_TOO_SMALL, 8, sample_info), w)),
     fw_get_memory_map := (\<lambda>_ b _ w. ((if b then EFI_SUCCESS else EFIERR EFI_BUFFER_TOO_SMALL, 48, w, 48, 1, replicate 48 7), w)),
     fw_get_variable := (\<lambda>_ _ _ w. ((EFIERR EFI_NOT_FOUND, 0, []), w)), fw_read_key := (\<lambda>w. ((EFIERR 6, 0, 0), w))\<rparr>"

definition bare_fw :: "u64 firmware" where
  "bare_fw = spec_fw\<lparr>fw_open_protocol := (\<lambda>_ w. ((EFIERR EFI_UNSUPPORTED, 0), w))\<rparr>"

definition sample_boot :: "u64 uefi_boot" where
  "sample_boot = \<lparr>has_console = True, con_log = [], world = 0, gImageHandle = 1, gGdt = [], gGdtr = (0, 0), gIdt = [], gIdtr = (0, 0),
     hw_log = [], cr_regs = (\<lambda>_. 0), msr_regs = (\<lambda>_. 0), gPml4 = 0, gPdpt = 0, gPd = 0, gPt = 0, table_mem = (\<lambda>_ _. 1), info_page = None\<rparr>"

definition sample_addrs :: hal_addrs where
  "sample_addrs = \<lparr>addr_gdt = 0x8000, addr_idt = 0x9000, addr_handler = 0xA000, addr_system = 0xB000\<rparr>"

definition sample_main :: main_junk where
  "sample_main = \<lparr>mj_load = sample_load, mj_volume = sample_volume, mj_size = 0, mj_map = \<lparr>mm_count = 0, mm_entries = 0, mm_bytes = []\<rparr>,
     mj_stack = sample_junk\<rparr>"

lemma spec_fw_documented:
  "documented_firmware spec_fw" "documented_firmware bare_fw"
  "\<forall>w. fw_error spec_fw (fst (fst (fw_read_key spec_fw w)))" "\<forall>w. fw_error bare_fw (fst (fst (fw_read_key bare_fw w)))"
  "\<forall>w. fw_error bare_fw (fst (fst (fw_open_protocol bare_fw 1 w)))"
  "fw_error bare_fw EFI_SUCCESS = False" "fw_error spec_fw EFI_SUCCESS = False"
  by (simp_all add: documented_firmware_def spec_fw_def bare_fw_def sample_fw_def EFI_ERROR_MASK_def EFIERR_def efi_codes
      EFI_NOT_FOUND_def)

theorem uefi_never_starts_kernel_witness:
  "\<exists>st t. UefiMain spec_fw sample_addrs \<lparr>line_survives = True, key_behind = []\<rparr> sample_main 1 True sample_boot = Ret (Returned st, t) \<and>
     st \<noteq> EFI_SUCCESS \<and> hw_log t = [Cli, Lgdt (table_operand (55, 0x8000)), LoadSegments 0x10, Lidt (table_operand (4095, 0x9000))]"
proof -
  let ?run = "UefiMain spec_fw sample_addrs \<lparr>line_survives = True, key_behind = []\<rparr> sample_main 1 True sample_boot"
  obtain st t where t: "?run = Ret (Returned st, t)"
    using uefi_never_starts_kernel [OF spec_fw_documented(1)] spec_fw_documented(3) by blast
  then have "fw_error spec_fw st" "hw_log t = hw_log (HalInitialize sample_addrs sample_boot)"
    using uefi_never_starts_kernel [OF spec_fw_documented(1)] by blast+
  moreover have "st \<noteq> EFI_SUCCESS" using calculation(1) spec_fw_documented(7) by auto
  ultimately show ?thesis using t by (auto simp: HalInitialize_result(3) sample_boot_def sample_addrs_def)
qed

text \<open>
  C34. The loader asks for the file system of its own image handle, where the UEFI specification has it on the handle of
  the device. On a firmware that refuses that, \<open>UefiMain\<close> never starts a kernel: when it returns, it is with an error, and
  after the tables it has told the machine nothing.
\<close>

theorem uefi_main_without_volume:
  assumes "\<forall>w. fw_error fw (fst (fst (fw_open_protocol fw handle w)))"
    "UefiMain fw a view jk handle con s = Ret (fin, t)"
  shows "\<exists>st. fin = Returned st \<and> fw_error fw st \<and> hw_log t = hw_log (HalInitialize a s)"
proof (rule UefiMain_refused [OF _ assms(2)])
  fix e st img v and u :: "'a uefi_boot"
  assume load: "BootMgrLoadKernel fw (mj_volume jk) (mj_size jk) e u = Ret (st, img, v)" and "gImageHandle u = handle"
  with assms(1) show "fw_error fw st" by (intro BootMgrLoadKernel_refused [OF _ load]) simp
qed

theorem uefi_main_without_volume_witness:
  "\<exists>st t. UefiMain bare_fw sample_addrs \<lparr>line_survives = True, key_behind = []\<rparr> sample_main 1 True sample_boot = Ret (Returned st, t) \<and>
     st \<noteq> 0 \<and> hw_log t = [Cli, Lgdt (table_operand (55, 0x8000)), LoadSegments 0x10, Lidt (table_operand (4095, 0x9000))]"
proof -
  obtain st t where t: "UefiMain bare_fw sample_addrs \<lparr>line_survives = True, key_behind = []\<rparr> sample_main 1 True sample_boot = Ret (Returned st, t)"
    using UefiMain_documented [OF spec_fw_documented(2,4)] by blast
  from uefi_main_without_volume [OF spec_fw_documented(5) t] t spec_fw_documented(6) show ?thesis
    by (auto simp: HalInitialize_result(3) sample_boot_def sample_addrs_def EFI_SUCCESS_def)
qed

end
