(* ===== verification/BiosConsole.thy ===== *)
theory BiosConsole
  imports Strings
begin

text \<open>
  The loader for BIOS machines (\<open>Bootloader/x86_64/boot\<close>) runs in 32-bit protected mode without paging
  and reaches devices through ports. This theory holds its memory and ports, the string functions of
  \<open>util/util.c\<close> and the console of \<open>hal/hal.c\<close>: the VGA screen at \<open>0xB8000\<close> and the serial line. A
  string is the list of its bytes with the terminator; what reading a port yields is a parameter.
\<close>

section \<open>Physical memory\<close>

type_synonym phys_mem = "u32 \<Rightarrow> u8"

definition phys_bytes :: "phys_mem \<Rightarrow> u32 \<Rightarrow> nat \<Rightarrow> bytes" where
  "phys_bytes m a n = map (\<lambda>i. m (a + of_nat i)) [0..<n]"

primrec store_bytes :: "u32 \<Rightarrow> bytes \<Rightarrow> phys_mem \<Rightarrow> phys_mem" where
  "store_bytes a [] m = m"
| "store_bytes a (b # bs) m = store_bytes (a + 1) bs (m(a := b))"

definition load16 :: "phys_mem \<Rightarrow> u32 \<Rightarrow> u16" where
  "load16 m a = push_bit 8 (ucast (m (a + 1))) OR ucast (m a)"

definition store16 :: "u32 \<Rightarrow> u16 \<Rightarrow> phys_mem \<Rightarrow> phys_mem" where
  "store16 a v m = m(a := ucast v, a + 1 := ucast (drop_bit 8 v))"

section \<open>String functions\<close>

text \<open>A size is a \<open>uint32_t\<close>, so a longer one is cut to 32 bits by the call.\<close>

definition bios_memcpy :: "bytes \<Rightarrow> bytes \<Rightarrow> u32 \<Rightarrow> bytes outcome" where
  "bios_memcpy dst src sz = memcpy_loop (unat sz) 0 dst src"

definition bios_memset :: "bytes \<Rightarrow> u32 \<Rightarrow> u32 \<Rightarrow> bytes outcome" where
  "bios_memset p v sz = memset_loop (unat sz) 0 p (ucast v)"

definition bios_memcmp :: "bytes \<Rightarrow> bytes \<Rightarrow> u32 \<Rightarrow> int outcome" where
  "bios_memcmp p1 p2 sz = memcmp_loop (unat sz) 0 p1 p2"

definition bios_strcpy :: "bytes \<Rightarrow> bytes \<Rightarrow> bytes outcome" where "bios_strcpy dst src = strcpy_loop 0 dst src"

definition bios_strcmp :: "bytes \<Rightarrow> bytes \<Rightarrow> int outcome" where "bios_strcmp s1 s2 = strcmp_loop 0 s1 s2"

text \<open>From index \<open>i\<close> on; the character is converted to \<open>char\<close>.\<close>

function bios_strchr_from :: "nat \<Rightarrow> bytes \<Rightarrow> u8 \<Rightarrow> nat option outcome" where
  "bios_strchr_from i s c = (if i < length s then
      if s ! i = 0 then Ret None else if s ! i = c then Ret (Some i) else bios_strchr_from (Suc i) s c
    else Fault)"
  by pat_completeness auto
termination by (relation "measure (\<lambda>(i, s, c). length s - i)") auto

declare bios_strchr_from.simps [simp del]

definition bios_strchr :: "bytes \<Rightarrow> u32 \<Rightarrow> nat option outcome" where
  "bios_strchr s c = bios_strchr_from 0 s (ucast c)"

definition bios_strlen :: "bytes \<Rightarrow> u32 outcome" where
  "bios_strlen s = bindR (strlen_loop 0 s) (\<lambda>n. Ret (ucast n))"

text \<open>The digit a character stands for.\<close>

definition digit_of :: "u8 \<Rightarrow> u8 option" where
  "digit_of c =
     (if 48 \<le> c \<and> c \<le> 57 then Some (c - 48)
      else if 97 \<le> c \<and> c \<le> 102 then Some (c - 97 + 10)
      else if 65 \<le> c \<and> c \<le> 70 then Some (c - 65 + 10) else None)"

text \<open>
  The loop of \<open>strtoul\<close> from index \<open>i\<close> on, with the value and the index of the first character it does not
  take. The base is an \<open>int\<close>: compared as one, and extended to 64 bits for the product.
\<close>

function strtoul_loop :: "nat \<Rightarrow> u64 \<Rightarrow> bytes \<Rightarrow> int \<Rightarrow> (u64 \<times> nat) outcome" where
  "strtoul_loop i v s base =
     (if \<not> i < length s then Fault
      else if s ! i = 0 then Ret (v, i)
      else case digit_of (s ! i) of
          None \<Rightarrow> Ret (v, i)
        | Some d \<Rightarrow> if base \<le> uint d then Ret (v, i)
            else strtoul_loop (Suc i) (v * of_int base + ucast d) s base)"
  by pat_completeness auto
termination by (relation "measure (\<lambda>(i, v, s, base). length s - i)") auto

declare strtoul_loop.simps [simp del]

definition strtoul :: "bytes \<Rightarrow> int \<Rightarrow> (u64 \<times> nat) outcome" where
  "strtoul s base =
     (if base = 0
      then bindR (byte_at s 0) (\<lambda>c0.
        if c0 = 48
        then bindR (byte_at s 1) (\<lambda>c1. if c1 = 120 \<or> c1 = 88 then strtoul_loop 2 0 s 16 else strtoul_loop 1 0 s 8)
        else strtoul_loop 0 0 s 10)
      else strtoul_loop 0 0 s base)"

text \<open>How often \<open>delay\<close> executes its \<open>nop\<close>; the product is one of 32 bits.\<close>

definition bios_delay :: "u32 \<Rightarrow> nat" where "bios_delay ms = unat (ms * 1000)"

section \<open>The state of the console\<close>

definition BIOS_VGA_WIDTH :: int where "BIOS_VGA_WIDTH = 80"
definition BIOS_VGA_HEIGHT :: int where "BIOS_VGA_HEIGHT = 25"
definition BIOS_VGA_BUFFER :: u32 where "BIOS_VGA_BUFFER = 0xB8000"
definition SERIAL_PORT_COM1 :: u16 where "SERIAL_PORT_COM1 = 0x3F8"

text \<open>\<open>port_reads\<close> counts the port reads so far; \<open>port_writes\<close> are the writes to ports in their order.\<close>

record bios_hal =
  phys :: phys_mem
  cursor_x :: int
  cursor_y :: int
  text_color :: u8
  port_reads :: nat
  port_writes :: "(u16 \<times> u8) list"

text \<open>\<open>env p n\<close> is what reading port \<open>p\<close> yields if it is the \<open>n\<close>-th read of a port.\<close>

type_synonym port_env = "u16 \<Rightarrow> nat \<Rightarrow> u8"

definition bios_inb :: "port_env \<Rightarrow> u16 \<Rightarrow> 'z bios_hal_scheme \<Rightarrow> u8 \<times> 'z bios_hal_scheme" where
  "bios_inb env p s = (env p (port_reads s), s\<lparr>port_reads := Suc (port_reads s)\<rparr>)"

definition bios_outb :: "u16 \<Rightarrow> u8 \<Rightarrow> 'z bios_hal_scheme \<Rightarrow> 'z bios_hal_scheme" where
  "bios_outb p v s = s\<lparr>port_writes := port_writes s @ [(p, v)]\<rparr>"

section \<open>The screen\<close>

text \<open>Cell \<open>off\<close> of the array at \<open>VGA_BUFFER\<close>; \<open>(vga_color << 8) | c\<close> with a \<open>char\<close>.\<close>

definition cell_addr :: "int \<Rightarrow> u32" where "cell_addr off = BIOS_VGA_BUFFER + 2 * of_int off"

definition cell_get :: "phys_mem \<Rightarrow> int \<Rightarrow> u16" where "cell_get m off = load16 m (cell_addr off)"

definition cell_put :: "int \<Rightarrow> u16 \<Rightarrow> phys_mem \<Rightarrow> phys_mem" where
  "cell_put off v = store16 (cell_addr off) v"

definition char_cell :: "u8 \<Rightarrow> u8 \<Rightarrow> u16" where
  "char_cell color c = push_bit 8 (ucast color) OR scast c"

lemma char_cell_bytes:
  "char_cell color c = ((if c < 0x80 then push_bit 8 (ucast color) OR ucast c else 0xFF00 OR ucast c) :: u16)"
proof -
  have "unat c < 256" using unsigned_less [of c] by simp
  then have "unat c div 128 = (if unat c < 128 then 0 else 1)" by (auto intro: div_nat_eqI)
  then have "odd (unat c div 128) \<longleftrightarrow> 128 \<le> unat c" by auto
  moreover have "bit c 7 \<longleftrightarrow> bit (unat c) 7" by (simp add: bit_unsigned_iff)
  ultimately have msb: "bit c 7 \<longleftrightarrow> \<not> c < 0x80"
    by (simp add: bit_iff_odd word_less_nat_alt not_less)
  have high: "bit (0xFF00 :: u16) n \<longleftrightarrow> 8 \<le> n" if "n < 16" for n
  proof -
    have "(0xFF00 :: u16) = push_bit 8 (mask 8)" by (simp add: mask_eq_exp_minus_1 push_bit_eq_mult)
    then have "bit (0xFF00 :: u16) n = bit (push_bit 8 (mask 8) :: u16) n" by simp
    then show ?thesis using that by (simp add: bit_push_bit_iff bit_mask_iff del: push_bit_mask_eq) arith
  qed
  have none: "\<not> bit c n" if "8 \<le> n" for n
    using bit_imp_le_length [of c n] that by auto
  have same: "min n 7 = (if n < 8 then n else 7)" "min 7 n = (if n < 8 then n else 7)" for n :: nat by auto
  show ?thesis
  proof (rule bit_word_eqI)
    fix n
    assume "n < LENGTH(16)"
    then have n: "n < 16" by simp
    show "bit (char_cell color c) n =
        bit ((if c < 0x80 then push_bit 8 (ucast color) OR ucast c else 0xFF00 OR ucast c) :: u16) n"
      using high [OF n] none [of n] n msb
      by (cases "n < 8") (auto simp: char_cell_def bit_simps same)
  qed
qed

definition hal_clear_screen :: "'z bios_hal_scheme \<Rightarrow> 'z bios_hal_scheme" where
  "hal_clear_screen s = s\<lparr>phys := fold (\<lambda>i. cell_put i (char_cell (text_color s) 32))
       [0..BIOS_VGA_WIDTH * BIOS_VGA_HEIGHT - 1] (phys s), cursor_x := 0, cursor_y := 0\<rparr>"

definition vga_scroll_up :: "u8 \<Rightarrow> phys_mem \<Rightarrow> phys_mem" where
  "vga_scroll_up color m =
     fold (\<lambda>i. cell_put i (char_cell color 32))
       [(BIOS_VGA_HEIGHT - 1) * BIOS_VGA_WIDTH..BIOS_VGA_HEIGHT * BIOS_VGA_WIDTH - 1]
       (fold (\<lambda>i m. cell_put i (cell_get m (i + BIOS_VGA_WIDTH)) m)
         [0..(BIOS_VGA_HEIGHT - 1) * BIOS_VGA_WIDTH - 1] m)"

text \<open>The cursor is an \<open>int\<close>; where C leaves an overflow open it wraps, as the addition of the processor does.\<close>

definition vga_putc :: "u8 \<Rightarrow> 'z bios_hal_scheme \<Rightarrow> 'z bios_hal_scheme" where
  "vga_putc c s =
     (let s = (if c = 10 then s\<lparr>cursor_x := 0, cursor_y := cursor_y s + 1\<rparr>
          else if c = 13 then s\<lparr>cursor_x := 0\<rparr>
          else if c = 9 then s\<lparr>cursor_x := signed_take_bit 31 ((cursor_x s + 8) AND NOT 7)\<rparr>
          else if cursor_x s < BIOS_VGA_WIDTH \<and> cursor_y s < BIOS_VGA_HEIGHT
          then s\<lparr>phys := cell_put (cursor_y s * BIOS_VGA_WIDTH + cursor_x s) (char_cell (text_color s) c) (phys s),
                 cursor_x := cursor_x s + 1\<rparr>
          else s) in
      if BIOS_VGA_HEIGHT \<le> cursor_y s
      then s\<lparr>phys := vga_scroll_up (text_color s) (phys s), cursor_y := BIOS_VGA_HEIGHT - 1\<rparr>
      else s)"

fun vga_puts :: "bytes \<Rightarrow> 'z bios_hal_scheme \<Rightarrow> 'z bios_hal_scheme outcome" where
  "vga_puts [] s = Fault"
| "vga_puts (c # cs) s = (if c = 0 then Ret s else vga_puts cs (vga_putc c s))"

definition vga_set_color :: "u8 \<Rightarrow> u8 \<Rightarrow> 'z bios_hal_scheme \<Rightarrow> 'z bios_hal_scheme" where
  "vga_set_color fg bg s = s\<lparr>text_color := push_bit 4 bg OR (fg AND 0x0F)\<rparr>"

section \<open>The serial line\<close>

definition serial_init :: "u16 \<Rightarrow> 'z bios_hal_scheme \<Rightarrow> 'z bios_hal_scheme" where
  "serial_init port s = fold (\<lambda>(p, v). bios_outb p v)
     [(port + 1, 0x00), (port + 3, 0x80), (port + 0, 0x01), (port + 1, 0x00), (port + 3, 0x03),
      (port + 2, 0xC7), (port + 4, 0x0B)] s"

text \<open>Waiting until the bits \<open>mask\<close> of port \<open>p\<close> are not all 0; the number of the read behind it.\<close>

partial_function (option) port_wait :: "port_env \<Rightarrow> u16 \<Rightarrow> u8 \<Rightarrow> nat \<Rightarrow> nat option" where
  "port_wait env p bits n = (if env p n AND bits = 0 then port_wait env p bits (Suc n) else Some (Suc n))"

definition serial_putc :: "port_env \<Rightarrow> u16 \<Rightarrow> u8 \<Rightarrow> 'z bios_hal_scheme \<Rightarrow> 'z bios_hal_scheme outcome" where
  "serial_putc env port c s = (case port_wait env (port + 5) 0x20 (port_reads s) of
     None \<Rightarrow> Hang | Some n \<Rightarrow> Ret (bios_outb port c (s\<lparr>port_reads := n\<rparr>)))"

fun serial_puts :: "port_env \<Rightarrow> u16 \<Rightarrow> bytes \<Rightarrow> 'z bios_hal_scheme \<Rightarrow> 'z bios_hal_scheme outcome" where
  "serial_puts env port [] s = Fault"
| "serial_puts env port (c # cs) s = (if c = 0 then Ret s else bindR (serial_putc env port c s) (serial_puts env port cs))"

section \<open>Printing\<close>

definition hal_print :: "port_env \<Rightarrow> bytes \<Rightarrow> 'z bios_hal_scheme \<Rightarrow> 'z bios_hal_scheme outcome" where
  "hal_print env str s = bindR (vga_puts str s) (serial_puts env SERIAL_PORT_COM1 str)"

definition nibble_char :: "u8 \<Rightarrow> u8" where
  "nibble_char nibble = (if nibble < 10 then 48 + nibble else 65 + nibble - 10)"

definition bios_hex :: "u64 \<Rightarrow> bytes" where
  "bios_hex v = map (\<lambda>i. nibble_char (ucast (drop_bit (i * 4) v AND 0xF))) (rev [0..<16]) @ [0]"

definition hal_print_hex :: "port_env \<Rightarrow> u64 \<Rightarrow> 'z bios_hal_scheme \<Rightarrow> 'z bios_hal_scheme outcome" where
  "hal_print_hex env v s = bindR (hal_print env (lit ''0x'') s) (hal_print env (bios_hex v))"

text \<open>The digits as they are put into the buffer, the last one first; at most 20.\<close>

primrec dec_loop :: "nat \<Rightarrow> u64 \<Rightarrow> bytes" where
  "dec_loop 0 v = []"
| "dec_loop (Suc n) v = (if v > 0 then (48 + ucast (v mod 10)) # dec_loop n (v div 10) else [])"

definition hal_print_dec :: "port_env \<Rightarrow> u64 \<Rightarrow> 'z bios_hal_scheme \<Rightarrow> 'z bios_hal_scheme outcome" where
  "hal_print_dec env v s =
     (if v = 0 then hal_print env (lit ''0'') s else Ret (fold vga_putc (rev (dec_loop 20 v)) s))"

text \<open>\<open>hal_wait_key\<close>: wait, then read the key.\<close>

definition hal_wait_key :: "port_env \<Rightarrow> 'z bios_hal_scheme \<Rightarrow> 'z bios_hal_scheme outcome" where
  "hal_wait_key env s = (case port_wait env 0x64 1 (port_reads s) of
     None \<Rightarrow> Hang | Some n \<Rightarrow> Ret (snd (bios_inb env 0x60 (s\<lparr>port_reads := n\<rparr>))))"

text \<open>The state in which the machine halts, should the keyboard controller not reset it.\<close>

definition hal_reboot :: "'z bios_hal_scheme \<Rightarrow> 'z bios_hal_scheme" where
  "hal_reboot s = bios_outb 0x64 0xFE s"

definition hal_init :: "'z bios_hal_scheme \<Rightarrow> bool \<times> 'z bios_hal_scheme" where
  "hal_init s = (let s = serial_init SERIAL_PORT_COM1 s
     in (True, hal_clear_screen (s\<lparr>cursor_x := 0, cursor_y := 0, text_color := 0x0F\<rparr>)))"

text \<open>A sequence of calls of the printing functions.\<close>

datatype print_item = PStr string | PBytes bytes | PHex u64 | PDec u64

primrec print_one :: "port_env \<Rightarrow> print_item \<Rightarrow> 'z bios_hal_scheme \<Rightarrow> 'z bios_hal_scheme outcome" where
  "print_one env (PStr t) s = hal_print env (lit t) s"
| "print_one env (PBytes b) s = hal_print env b s"
| "print_one env (PHex v) s = hal_print_hex env v s"
| "print_one env (PDec v) s = hal_print_dec env v s"

definition say :: "port_env \<Rightarrow> print_item list \<Rightarrow> 'z bios_hal_scheme \<Rightarrow> 'z bios_hal_scheme outcome" where
  "say env ps s = forR (print_one env) ps s"

section \<open>Cells of the screen\<close>

lemma load_store16: "load16 (store16 a v m) a = v"
proof (rule bit_word_eqI)
  fix n
  assume n: "n < LENGTH(16)"
  have "a + 1 \<noteq> a" by simp
  then have "load16 (store16 a v m) a = push_bit 8 (ucast (ucast (drop_bit 8 v) :: u8)) OR ucast (ucast v :: u8)"
    by (simp add: load16_def store16_def)
  then show "bit (load16 (store16 a v m) a) n = bit v n"
    using n by (auto simp: bit_or_iff bit_push_bit_iff bit_unsigned_iff bit_drop_bit_eq)
qed

lemma load16_cong: "m a = m' a \<Longrightarrow> m (a + 1) = m' (a + 1) \<Longrightarrow> load16 m a = load16 m' a"
  by (simp add: load16_def)

lemma store16_other: "b \<noteq> a \<Longrightarrow> b \<noteq> a + 1 \<Longrightarrow> store16 a v m b = m b"
  by (simp add: store16_def)

lemma uint_cell_addr:
  assumes "0 \<le> i" "i < 2000"
  shows "uint (cell_addr i) = 0xB8000 + 2 * i" "uint (cell_addr i + 1) = 0xB8000 + 2 * i + 1"
  using assms by (simp_all add: cell_addr_def BIOS_VGA_BUFFER_def uint_word_ariths word_of_int_inverse
      unsigned_of_int take_bit_eq_mod mod_simps)

lemma cell_addr_apart:
  assumes "0 \<le> i" "i < 2000" "0 \<le> j" "j < 2000" "i \<noteq> j"
  shows "cell_addr i \<noteq> cell_addr j" "cell_addr i \<noteq> cell_addr j + 1" "cell_addr i + 1 \<noteq> cell_addr j"
    "cell_addr i + 1 \<noteq> cell_addr j + 1"
  unfolding word_uint_eq_iff uint_cell_addr [OF assms(1,2)] uint_cell_addr [OF assms(3,4)]
  using assms(5) by presburger+

lemma cell_get_put:
  assumes "0 \<le> i" "i < 2000" "0 \<le> j" "j < 2000"
  shows "cell_get (cell_put i v m) j = (if j = i then v else cell_get m j)"
proof (cases "j = i")
  case False
  then show ?thesis
    using cell_addr_apart [of j i] assms
    by (simp add: cell_get_def cell_put_def store16_other cong: load16_cong)
qed (simp add: cell_get_def cell_put_def load_store16)

text \<open>Addresses outside the 4000 bytes of the screen.\<close>

definition off_screen :: "u32 \<Rightarrow> bool" where "off_screen a \<longleftrightarrow> uint a < 0xB8000 \<or> 0xB8000 + 4000 \<le> uint a"

lemma off_screen_nat: "off_screen a \<longleftrightarrow> unat a < 0xB8000 \<or> 0xB8000 + 4000 \<le> unat a"
proof -
  have "uint a = int (unat a)" by simp
  then show ?thesis unfolding off_screen_def by linarith
qed

lemma cell_put_off:
  assumes "0 \<le> i" "i < 2000" "off_screen a"
  shows "cell_put i v m a = m a"
proof -
  have "a \<noteq> cell_addr i" "a \<noteq> cell_addr i + 1"
    using uint_cell_addr [OF assms(1,2)] assms by (auto simp: off_screen_def)
  then show ?thesis by (simp add: cell_put_def store16_other)
qed

lemma fold_put_off:
  assumes "0 \<le> lo" "hi < 2000" "off_screen a"
  shows "fold (\<lambda>i m. cell_put i (f i m) m) [lo..hi] m a = m a"
proof -
  have "(\<And>i. i \<in> set is \<Longrightarrow> 0 \<le> i \<and> i < 2000) \<Longrightarrow> fold (\<lambda>i m. cell_put i (f i m) m) is m a = m a" for "is" m
    using assms(3) by (induction "is" arbitrary: m) (auto simp: cell_put_off)
  from this [of "[lo..hi]"] show ?thesis using assms(1,2) by simp
qed

lemma fill_cells:
  assumes "0 \<le> lo" "hi < 2000" "0 \<le> j" "j < 2000"
  shows "cell_get (fold (\<lambda>i. cell_put i v) [lo..hi] m) j = (if lo \<le> j \<and> j \<le> hi then v else cell_get m j)"
proof -
  have "(\<And>i. i \<in> set is \<Longrightarrow> 0 \<le> i \<and> i < 2000) \<Longrightarrow>
      cell_get (fold (\<lambda>i. cell_put i v) is m) j = (if j \<in> set is then v else cell_get m j)" for "is" m
    using assms(3,4) by (induction "is" arbitrary: m) (auto simp: cell_get_put)
  from this [of "[lo..hi]"] show ?thesis using assms(1,2) by simp
qed

text \<open>The loop that moves every line up, the first \<open>n\<close> cells of it.\<close>

lemma move_cells:
  assumes "n \<le> 1920" "0 \<le> j" "j < 2000"
  shows "cell_get (fold (\<lambda>i m. cell_put i (cell_get m (i + 80)) m) [0..int n - 1] m) j =
    cell_get m (if j < int n then j + 80 else j)"
  using assms
proof (induction n arbitrary: j)
  case (Suc n)
  have "[0..int (Suc n) - 1] = [0..int n - 1] @ [int n]" using upto_rec2 [of 0 "int n"] by simp
  with Suc show ?case by (auto simp: cell_get_put)
qed simp

lemmas bios_vga_dims = BIOS_VGA_WIDTH_def BIOS_VGA_HEIGHT_def

lemma scroll_cells:
  assumes "0 \<le> j" "j < 2000"
  shows "cell_get (vga_scroll_up color m) j = (if j < 1920 then cell_get m (j + 80) else char_cell color 32)"
  unfolding vga_scroll_up_def bios_vga_dims
  by (subst fill_cells) (use assms move_cells [of 1920 j m] in simp_all)

lemma scroll_off: "off_screen a \<Longrightarrow> vga_scroll_up color m a = m a"
  unfolding vga_scroll_up_def bios_vga_dims by (subst fold_put_off, simp_all, subst fold_put_off) simp_all

lemma clear_cells:
  "0 \<le> j \<Longrightarrow> j < 2000 \<Longrightarrow> cell_get (phys (hal_clear_screen s)) j = char_cell (text_color s) 32"
  unfolding hal_clear_screen_def bios_vga_dims by simp (subst fill_cells; simp)

lemma clear_off: "off_screen a \<Longrightarrow> phys (hal_clear_screen s) a = phys s a"
  unfolding hal_clear_screen_def bios_vga_dims by simp (subst fold_put_off; simp)

section \<open>The cursor and the rest of memory\<close>

text \<open>The cursor is in a line of the screen and not left of it; a tabulator may carry it beyond the last column.\<close>

definition console_ok :: "'z bios_hal_scheme \<Rightarrow> bool" where
  "console_ok s \<longleftrightarrow> 0 \<le> cursor_x s \<and> cursor_x s < 2 ^ 31 \<and> 0 \<le> cursor_y s \<and> cursor_y s < BIOS_VGA_HEIGHT"

text \<open>What printing may change: the screen, the cursor and the ports.\<close>

definition console_step :: "'z bios_hal_scheme \<Rightarrow> 'z bios_hal_scheme \<Rightarrow> bool" where
  "console_step s t \<longleftrightarrow> console_ok t \<and> text_color t = text_color s \<and>
     (\<forall>a. off_screen a \<longrightarrow> phys t a = phys s a) \<and> bios_hal.more t = bios_hal.more s"

lemma console_step_refl [simp, intro]: "console_ok s \<Longrightarrow> console_step s s"
  by (simp add: console_step_def)

lemma console_step_trans: "console_step s t \<Longrightarrow> console_step t u \<Longrightarrow> console_step s u"
  by (simp add: console_step_def)

lemma console_step_ok: "console_step s t \<Longrightarrow> console_ok t"
  by (simp add: console_step_def)

lemma clear_step: "console_step s (hal_clear_screen s)"
  by (simp add: console_step_def clear_off) (simp add: hal_clear_screen_def console_ok_def bios_vga_dims)

text \<open>The column the cursor can be in after a text, by the number of its tabulators.\<close>

definition tabs :: "bytes \<Rightarrow> nat" where "tabs cs = length (filter (\<lambda>c. c = 9) cs)"

lemma tabs_simps [simp]: "tabs [] = 0" "tabs (c # cs) = (if c = 9 then Suc (tabs cs) else tabs cs)"
  by (simp_all add: tabs_def)

lemma tabs_none: "9 \<notin> set cs \<Longrightarrow> tabs cs = 0"
  by (induction cs) auto

lemma vga_putc_within:
  assumes s: "console_ok s" "cursor_x s \<le> b" "80 \<le> b" and b: "b + 8 * int (tabs [c]) < 2 ^ 31"
  shows "console_step s (vga_putc c s)" "cursor_x (vga_putc c s) \<le> b + 8 * int (tabs [c])"
proof -
  have cell: "0 \<le> cursor_y s * 80 + cursor_x s" "cursor_x s < 80 \<Longrightarrow> cursor_y s * 80 + cursor_x s < 2000"
    using s(1) by (auto simp: console_ok_def bios_vga_dims)
  have x: "0 \<le> (cursor_x s + 8) AND NOT 7" "(cursor_x s + 8) AND NOT 7 \<le> cursor_x s + 8"
    using s(1) by (simp_all add: console_ok_def AND_upper1)
  have tab: "signed_take_bit 31 ((cursor_x s + 8) AND NOT 7) = (cursor_x s + 8) AND NOT 7" if "c = 9"
  proof (rule signed_take_bit_int_eq_self)
    have "- (2 ^ 31) \<le> (0 :: int)" by simp
    then show "- (2 ^ 31) \<le> (cursor_x s + 8) AND NOT 7" using x(1) by (rule order_trans)
    show "(cursor_x s + 8) AND NOT 7 < 2 ^ 31" using x(2) s(2) b that by simp
  qed
  show "console_step s (vga_putc c s)"
  proof (cases "c = 9")
    case True
    then show ?thesis
      using s b x tab by (simp add: console_step_def vga_putc_def console_ok_def Let_def bios_vga_dims)
  next
    case False
    then show ?thesis using s(1) cell
      by (auto simp: console_step_def vga_putc_def console_ok_def Let_def bios_vga_dims cell_put_off scroll_off)
  qed
  show "cursor_x (vga_putc c s) \<le> b + 8 * int (tabs [c])"
    using s x tab by (auto simp: vga_putc_def Let_def bios_vga_dims)
qed

lemma vga_putc_step:
  assumes "console_ok s" "c \<noteq> 9"
  shows "console_step s (vga_putc c s)"
  using vga_putc_within(1) [of s "max 80 (cursor_x s)" c] assms by (simp add: console_ok_def)

lemma fold_putc_within:
  "console_ok s \<Longrightarrow> cursor_x s \<le> b \<Longrightarrow> 80 \<le> b \<Longrightarrow> b + 8 * int (tabs cs) < 2 ^ 31 \<Longrightarrow>
   console_step s (fold vga_putc cs s) \<and> cursor_x (fold vga_putc cs s) \<le> b + 8 * int (tabs cs)"
proof (induction cs arbitrary: b s)
  case (Cons c cs)
  let ?b = "b + 8 * int (tabs [c])"
  have put: "console_step s (vga_putc c s)" "cursor_x (vga_putc c s) \<le> ?b"
    using Cons.prems by (intro vga_putc_within; force)+
  with Cons.IH [OF console_step_ok [OF put(1)] put(2)] Cons.prems console_step_trans [OF put(1)]
  show ?case by (auto split: if_splits)
qed (simp add: console_step_refl)

lemma fold_putc_step: "console_ok s \<Longrightarrow> 9 \<notin> set cs \<Longrightarrow> console_step s (fold vga_putc cs s)"
  using fold_putc_within [of s "max 80 (cursor_x s)" cs] by (simp add: tabs_none console_ok_def)

lemma vga_puts_fold: "0 \<notin> set cs \<Longrightarrow> vga_puts (cs @ 0 # rest) s = Ret (fold vga_putc cs s)"
  by (induction cs arbitrary: s) auto

section \<open>The lines on the screen\<close>

text \<open>A text as its lines, of which the last is open; the last 25 of them are on the screen.\<close>

definition add_char :: "u8 \<Rightarrow> bytes list \<Rightarrow> bytes list" where
  "add_char c ls = (if c = 10 then ls @ [[]] else butlast ls @ [last ls @ [c]])"

definition text_lines :: "bytes \<Rightarrow> bytes list" where "text_lines cs = fold add_char cs [[]]"

definition window :: "bytes list \<Rightarrow> bytes list" where "window ls = drop (length ls - 25) ls"

definition window_char :: "bytes list \<Rightarrow> nat \<Rightarrow> nat \<Rightarrow> u8" where
  "window_char w r c = (if r < length w \<and> c < length (w ! r) then w ! r ! c else 32)"

definition screen_cell :: "'z bios_hal_scheme \<Rightarrow> nat \<Rightarrow> nat \<Rightarrow> u16" where
  "screen_cell s r c = cell_get (phys s) (int r * 80 + int c)"

definition shows_lines :: "bytes list \<Rightarrow> 'z bios_hal_scheme \<Rightarrow> bool" where
  "shows_lines ls s \<longleftrightarrow> ls \<noteq> [] \<and> cursor_y s = int (length (window ls)) - 1 \<and>
     cursor_x s = int (min (length (last ls)) 80) \<and>
     (\<forall>r < 25. \<forall>c < 80. screen_cell s r c = char_cell (text_color s) (window_char (window ls) r c))"

lemma window_length: "length (window ls) = min (length ls) 25"
  by (simp add: window_def)

lemma window_snoc: "window (ls @ [l]) = (if length ls < 25 then window ls @ [l] else tl (window ls) @ [l])"
proof (cases "length ls < 25")
  case False
  then have "length ls - 24 = Suc (length ls - 25)" by simp
  with False show ?thesis by (simp add: window_def drop_Suc drop_tl)
qed (simp add: window_def)

lemma window_last: "ls \<noteq> [] \<Longrightarrow> window ls \<noteq> [] \<and> last (window ls) = last ls \<and>
    window (butlast ls @ [l]) = butlast (window ls) @ [l]"
  by (cases ls rule: rev_cases) (auto simp: window_def)

lemma row_cell:
  assumes "r < 25" "c < 80"
  shows "0 \<le> int r * 80 + int c" "int r * 80 + int c < 2000"
  using assms by linarith+

lemma row_cell_eq:
  assumes "c < 80" "c' < 80"
  shows "int r * 80 + int c = int r' * 80 + int c' \<longleftrightarrow> r = r' \<and> c = c'"
proof
  have "(int r * 80 + int c) div 80 = int r" "(int r' * 80 + int c') div 80 = int r'" using assms by simp_all
  moreover assume "int r * 80 + int c = int r' * 80 + int c'"
  ultimately show "r = r' \<and> c = c'" by simp
qed simp

lemma window_char_last:
  assumes "w \<noteq> []"
  shows "window_char (butlast w @ [last w @ [x]]) r c =
    (if r = length w - 1 \<and> c = length (last w) then x else window_char w r c)"
  using assms by (cases w rule: rev_cases) (auto simp: window_char_def nth_append)

lemma window_char_tl:
  "w \<noteq> [] \<Longrightarrow> window_char (tl w @ [[]]) r c = window_char w (Suc r) c"
  by (cases w) (auto simp: window_char_def nth_append)

lemma add_char_keeps: "ls \<noteq> [] \<Longrightarrow> add_char c ls \<noteq> []"
  by (simp add: add_char_def)

lemma shows_lines_newline:
  assumes "shows_lines ls s"
  shows "shows_lines (add_char 10 ls) (vga_putc 10 s)"
proof -
  have w: "0 < length (window ls)" "length (window ls) \<le> 25" "cursor_y s = int (length (window ls)) - 1"
    using assms by (auto simp: shows_lines_def window_length Suc_le_eq)
  show ?thesis
  proof (cases "length ls < 25")
    case True
    then have put: "vga_putc 10 s = s\<lparr>cursor_x := 0, cursor_y := cursor_y s + 1\<rparr>"
      using w(3) by (simp add: vga_putc_def Let_def bios_vga_dims window_length)
    have "window_char (window ls @ [[]]) r c = window_char (window ls) r c" for r c
      by (auto simp: window_char_def nth_append)
    then show ?thesis
      using assms True unfolding put shows_lines_def add_char_def
      by (auto simp: window_snoc window_length screen_cell_def)
  next
    case False
    then have "cursor_y s = 24" using w(3) by (simp add: window_length)
    then have put: "vga_putc 10 s = s\<lparr>cursor_x := 0, phys := vga_scroll_up (text_color s) (phys s), cursor_y := 24\<rparr>"
      by (simp add: vga_putc_def Let_def bios_vga_dims)
    have "length (window ls) = 25" using False by (simp add: window_length)
    then have wne: "window ls \<noteq> []" "length (window ls) = 25" by auto
    have "screen_cell (vga_putc 10 s) r c = char_cell (text_color s) (window_char (window ls) (Suc r) c)"
      if "r < 25" "c < 80" for r c
    proof (cases "r = 24")
      case True
      with that show ?thesis by (simp add: put screen_cell_def scroll_cells window_char_def wne(2))
    next
      case False
      then have "screen_cell (vga_putc 10 s) r c = screen_cell s (Suc r) c"
        using that by (simp add: put screen_cell_def scroll_cells algebra_simps)
      with assms False that show ?thesis by (simp add: shows_lines_def)
    qed
    moreover have "window (ls @ [[]]) = tl (window ls) @ [[]]" using False by (simp add: window_snoc)
    moreover have "text_color (vga_putc 10 s) = text_color s" "cursor_x (vga_putc 10 s) = 0" "cursor_y (vga_putc 10 s) = 24"
      by (simp_all add: put)
    ultimately show ?thesis
      using wne by (simp add: shows_lines_def add_char_def window_char_tl)
  qed
qed

lemma shows_lines_char:
  assumes "shows_lines ls s" "x \<noteq> 10" "x \<noteq> 13" "x \<noteq> 9"
  shows "shows_lines (add_char x ls) (vga_putc x s)"
proof -
  define y where "y = length (window ls) - 1"
  define k where "k = length (last ls)"
  have ls: "ls \<noteq> []" using assms(1) by (simp add: shows_lines_def)
  note w = window_last [OF ls]
  have pos: "cursor_y s = int y" "y < 25" "cursor_x s = int (min k 80)"
    using assms(1) w by (auto simp: shows_lines_def y_def k_def window_length Suc_le_eq)
  have lines: "window (add_char x ls) = butlast (window ls) @ [last (window ls) @ [x]]"
    using assms(2) w by (simp add: add_char_def)
  have char: "window_char (window (add_char x ls)) r c =
      (if r = y \<and> c = k then x else window_char (window ls) r c)" for r c
    unfolding lines using window_char_last [of "window ls" x r c] w by (simp add: y_def k_def)
  have len: "length (window (add_char x ls)) = length (window ls)" "length (last (add_char x ls)) = Suc k"
    using w assms(2) unfolding lines by (simp_all add: add_char_def k_def Suc_diff_le Suc_le_eq)
  show ?thesis
  proof (cases "k < 80")
    case True
    have put: "vga_putc x s = s\<lparr>phys := cell_put (int y * 80 + int k) (char_cell (text_color s) x) (phys s),
        cursor_x := int k + 1\<rparr>"
      using assms(2-4) pos True by (simp add: vga_putc_def Let_def bios_vga_dims)
    have "screen_cell (vga_putc x s) r c = char_cell (text_color s) (if r = y \<and> c = k then x else window_char (window ls) r c)"
      if "r < 25" "c < 80" for r c
      using that True pos(2) row_cell [of y k] row_cell [of r c] row_cell_eq [of c k r y] assms(1)
      by (simp add: put screen_cell_def cell_get_put shows_lines_def)
    moreover have "cursor_y (vga_putc x s) = int (length (window ls)) - 1" "cursor_x (vga_putc x s) = int k + 1"
      using assms(1) by (simp_all add: put shows_lines_def)
    moreover have "text_color (vga_putc x s) = text_color s" by (simp add: put)
    ultimately show ?thesis
      using True add_char_keeps [OF ls] by (simp add: shows_lines_def char len)
  next
    case False
    then have "vga_putc x s = s" using assms(2-4) pos by (simp add: vga_putc_def Let_def bios_vga_dims)
    with False assms(1) add_char_keeps [OF ls] show ?thesis by (simp add: shows_lines_def char len k_def)
  qed
qed

lemma shows_lines_fold:
  "shows_lines ls s \<Longrightarrow> 13 \<notin> set cs \<Longrightarrow> 9 \<notin> set cs \<Longrightarrow> shows_lines (fold add_char cs ls) (fold vga_putc cs s)"
proof (induction cs arbitrary: ls s)
  case (Cons c cs)
  then have "shows_lines (add_char c ls) (vga_putc c s)"
    by (cases "c = 10") (auto intro: shows_lines_newline shows_lines_char)
  with Cons show ?case by simp
qed simp

lemma clear_shows: "shows_lines [[]] (hal_clear_screen s)"
proof -
  have "screen_cell (hal_clear_screen s) r c = char_cell (text_color s) 32" if "r < 25" "c < 80" for r c
    unfolding screen_cell_def by (rule clear_cells) (use row_cell [OF that] in simp_all)
  moreover have "text_color (hal_clear_screen s) = text_color s" "cursor_x (hal_clear_screen s) = 0"
    "cursor_y (hal_clear_screen s) = 0" by (simp_all add: hal_clear_screen_def)
  moreover have "window_char [[]] r c = 32" for r c by (cases r) (simp_all add: window_char_def)
  ultimately show ?thesis by (simp add: shows_lines_def window_def)
qed

section \<open>What reaches the serial line\<close>

lemma port_wait_returns:
  assumes "n \<le> m" "env p m AND bits \<noteq> 0"
  shows "\<exists>k. port_wait env p bits n = Some k"
  using assms(1)
proof (induction "m - n" arbitrary: n)
  case 0
  with assms(2) show ?case by (subst port_wait.simps) simp
next
  case (Suc d)
  then show ?case by (cases "env p n AND bits = 0") (subst port_wait.simps, simp)+
qed

text \<open>The transmitter becomes ready again and again.\<close>

definition serial_ready :: "port_env \<Rightarrow> bool" where
  "serial_ready env \<longleftrightarrow> (\<forall>n. \<exists>m \<ge> n. env (SERIAL_PORT_COM1 + 5) m AND 0x20 \<noteq> 0)"

lemma serial_putc_returns:
  "serial_ready env \<Longrightarrow> \<exists>n. serial_putc env SERIAL_PORT_COM1 c s =
     Ret (s\<lparr>port_reads := n, port_writes := port_writes s @ [(SERIAL_PORT_COM1, c)]\<rparr>)"
proof -
  assume "serial_ready env"
  then obtain m where "port_reads s \<le> m" "env (SERIAL_PORT_COM1 + 5) m AND 0x20 \<noteq> 0" by (auto simp: serial_ready_def)
  from port_wait_returns [of "port_reads s" m env, OF this] show ?thesis
    by (auto simp: serial_putc_def bios_outb_def)
qed

lemma serial_puts_returns:
  assumes "serial_ready env" "0 \<notin> set cs"
  shows "\<exists>n. serial_puts env SERIAL_PORT_COM1 (cs @ 0 # rest) s =
    Ret (s\<lparr>port_reads := n, port_writes := port_writes s @ map (Pair SERIAL_PORT_COM1) cs\<rparr>)"
  using assms(2)
proof (induction cs arbitrary: s)
  case Nil
  show ?case by (rule exI [of _ "port_reads s"]) simp
next
  case (Cons c cs)
  obtain k where k: "serial_putc env SERIAL_PORT_COM1 c s =
      Ret (s\<lparr>port_reads := k, port_writes := port_writes s @ [(SERIAL_PORT_COM1, c)]\<rparr>)"
    using serial_putc_returns [OF assms(1)] by blast
  with Cons.IH [of "s\<lparr>port_reads := k, port_writes := port_writes s @ [(SERIAL_PORT_COM1, c)]\<rparr>"] Cons.prems
  show ?case by simp
qed

lemma vga_putc_ports:
  "port_writes (vga_putc c s) = port_writes s" "port_reads (vga_putc c s) = port_reads s"
  "vga_putc c (s\<lparr>port_reads := n\<rparr>) = (vga_putc c s)\<lparr>port_reads := n\<rparr>"
  "vga_putc c (s\<lparr>port_writes := w\<rparr>) = (vga_putc c s)\<lparr>port_writes := w\<rparr>"
  by (simp_all add: vga_putc_def Let_def)

lemma fold_putc_ports:
  "port_writes (fold vga_putc cs s) = port_writes s"
  "fold vga_putc cs (s\<lparr>port_reads := n\<rparr>) = (fold vga_putc cs s)\<lparr>port_reads := n\<rparr>"
  "fold vga_putc cs (s\<lparr>port_writes := w\<rparr>) = (fold vga_putc cs s)\<lparr>port_writes := w\<rparr>"
  by (induction cs arbitrary: s) (simp_all add: vga_putc_ports)

text \<open>\<open>s\<close> after \<open>cs\<close> went to the screen and \<open>ds\<close> to the line, with some number of port reads.\<close>

definition printed :: "bytes \<Rightarrow> bytes \<Rightarrow> nat \<Rightarrow> 'z bios_hal_scheme \<Rightarrow> 'z bios_hal_scheme" where
  "printed cs ds n s = (fold vga_putc cs s)\<lparr>port_reads := n,
     port_writes := port_writes s @ map (Pair SERIAL_PORT_COM1) ds\<rparr>"

lemma printed_printed: "printed cs' ds' n' (printed cs ds n s) = printed (cs @ cs') (ds @ ds') n' s"
  by (simp add: printed_def fold_putc_ports)

lemma printed_nothing: "printed [] [] (port_reads s) s = s"
  by (simp add: printed_def)

lemma hal_print_returns:
  assumes "serial_ready env" "0 \<notin> set cs"
  shows "\<exists>n. hal_print env (cs @ 0 # rest) s = Ret (printed cs cs n s)"
  using serial_puts_returns [OF assms, of rest "fold vga_putc cs s"] vga_puts_fold [OF assms(2), of rest s]
  by (simp add: hal_print_def printed_def fold_putc_ports)

lemma nibble_table: "list_all (\<lambda>k. nibble_char (of_nat k) \<noteq> 0 \<and> digit_of (nibble_char (of_nat k)) = Some (of_nat k)) [0..<16]"
  by code_simp

lemma nibble_chars:
  assumes "k < 16"
  shows "nibble_char (of_nat k) \<noteq> 0" "digit_of (nibble_char (of_nat k)) = Some (of_nat k)"
  using nibble_table assms by (simp_all only: list_all_iff set_upt atLeastLessThan_iff) auto

lemma nibble_word: "ucast (v AND 0xF :: u64) = (of_nat (unat v mod 16) :: u8)"
proof -
  have "(0xF :: u64) = mask 4" by (simp add: mask_eq_exp_minus_1)
  then have "unat (v AND 0xF) = unat v mod 16" using unat_and_mask [of v 4] by simp
  then show ?thesis by (metis of_nat_unat)
qed

lemma bios_hex_chars: "bios_hex v = butlast (bios_hex v) @ [0]" "0 \<notin> set (butlast (bios_hex v))"
  using nibble_chars(1) by (auto simp: bios_hex_def nibble_word)

text \<open>What an item of output is on the screen and on the line: decimal numbers other than 0 never reach the line.\<close>

primrec screen_text :: "print_item \<Rightarrow> bytes" where
  "screen_text (PStr t) = map of_char t"
| "screen_text (PBytes b) = cstr b"
| "screen_text (PHex v) = map of_char ''0x'' @ butlast (bios_hex v)"
| "screen_text (PDec v) = (if v = 0 then [48] else rev (dec_loop 20 v))"

primrec line_text :: "print_item \<Rightarrow> bytes" where
  "line_text (PStr t) = map of_char t"
| "line_text (PBytes b) = cstr b"
| "line_text (PHex v) = map of_char ''0x'' @ butlast (bios_hex v)"
| "line_text (PDec v) = (if v = 0 then [48] else [])"

primrec item_ok :: "print_item \<Rightarrow> bool" where
  "item_ok (PStr t) = (0 \<notin> set (map of_char t :: bytes))"
| "item_ok (PBytes b) = is_cstr b"
| "item_ok (PHex v) = True"
| "item_ok (PDec v) = True"

lemma print_one_returns:
  assumes "serial_ready env" "item_ok x"
  shows "\<exists>n. print_one env x s = Ret (printed (screen_text x) (line_text x) n s)"
proof (cases x)
  case (PStr t)
  with hal_print_returns [OF assms(1), of "map of_char t" "[]" s] assms(2) show ?thesis by (simp add: lit_def)
next
  case (PBytes b)
  obtain rest where "b = cstr b @ 0 # rest" "0 \<notin> set (cstr b)"
  proof -
    obtain ys zs where b: "b = ys @ 0 # zs" "0 \<notin> set ys"
      using assms(2) PBytes by (auto simp: is_cstr_def dest: split_list_first)
    moreover from this have "cstr b = ys" by (auto simp: cstr_def takeWhile_tail)
    ultimately show ?thesis using that [of zs] by simp
  qed
  with hal_print_returns [OF assms(1), of "cstr b" rest s] PBytes show ?thesis by auto
next
  case (PHex v)
  obtain n where n: "hal_print env (lit ''0x'') s = Ret (printed (map of_char ''0x'') (map of_char ''0x'') n s)"
    using hal_print_returns [OF assms(1), of "map of_char ''0x''" "[]" s] by (auto simp: lit_def)
  obtain k where "hal_print env (bios_hex v) (printed (map of_char ''0x'') (map of_char ''0x'') n s) =
      Ret (printed (butlast (bios_hex v)) (butlast (bios_hex v)) k (printed (map of_char ''0x'') (map of_char ''0x'') n s))"
    using hal_print_returns [OF assms(1) bios_hex_chars(2) [of v], of "[]"] bios_hex_chars(1) [of v] by metis
  with n PHex show ?thesis by (auto simp: hal_print_hex_def printed_printed)
next
  case (PDec v)
  show ?thesis
  proof (cases "v = 0")
    case True
    with hal_print_returns [OF assms(1), of "[48]" "[]" s] PDec show ?thesis by (simp add: hal_print_dec_def lit_def)
  next
    case False
    have "printed (rev (dec_loop 20 v)) [] (port_reads s) s = fold vga_putc (rev (dec_loop 20 v)) s"
      using fold_putc_ports(2,3) [of "rev (dec_loop 20 v)"] by (simp add: printed_def flip: fold_putc_ports(2,3))
    with False PDec show ?thesis by (intro exI [of _ "port_reads s"]) (simp add: hal_print_dec_def)
  qed
qed

lemma say_returns:
  assumes "serial_ready env" "\<forall>x \<in> set ps. item_ok x"
  shows "\<exists>n. say env ps s = Ret (printed (concat (map screen_text ps)) (concat (map line_text ps)) n s)"
  using assms(2)
proof (induction ps arbitrary: s)
  case Nil
  show ?case by (rule exI [of _ "port_reads s"]) (simp add: say_def printed_nothing)
next
  case (Cons x ps)
  obtain n where "print_one env x s = Ret (printed (screen_text x) (line_text x) n s)"
    using print_one_returns [OF assms(1)] Cons.prems by force
  with Cons.IH [of "printed (screen_text x) (line_text x) n s"] Cons.prems
  show ?case by (auto simp: say_def printed_printed)
qed

section \<open>Numbers are printed as they are read\<close>

text \<open>The loop over characters that are digits below the base.\<close>

lemma strtoul_digits:
  assumes "\<forall>c \<in> set cs. \<exists>d. digit_of c = Some d \<and> uint d < base"
  shows "strtoul_loop (length pre) v (pre @ cs @ [0]) base =
    Ret (fold (\<lambda>c v. v * of_int base + ucast (the (digit_of c))) cs v, length (pre @ cs))"
  using assms
proof (induction cs arbitrary: pre v)
  case Nil
  show ?case by (subst strtoul_loop.simps) (simp add: nth_append)
next
  case (Cons c cs)
  obtain d where d: "digit_of c = Some d" "uint d < base" using Cons.prems by auto
  then have "c \<noteq> 0" by (auto simp: digit_of_def)
  with d Cons.IH [of "pre @ [c]" "v * of_int base + ucast d"] Cons.prems show ?case
    by (subst strtoul_loop.simps) (simp add: nth_append)
qed

lemma dec_digit:
  assumes "d < 10"
  shows "digit_of (48 + of_nat d) = Some (of_nat d)" "(48 :: u8) + of_nat d \<noteq> 0"
proof -
  have "list_all (\<lambda>k. digit_of (48 + of_nat k) = Some (of_nat k) \<and> (48 :: u8) + of_nat k \<noteq> 0) [0..<10]" by code_simp
  then show "digit_of (48 + of_nat d) = Some (of_nat d)" "(48 :: u8) + of_nat d \<noteq> 0"
    using assms by (simp_all only: list_all_iff set_upt atLeastLessThan_iff) auto
qed

lemma unat_mod_10: "unat (v mod 10 :: u64) = unat v mod 10"
  by (simp add: unat_mod)

lemma dec_step: "v div 10 * 10 + of_nat (unat v mod 10) = (v :: u64)"
proof -
  have "of_nat (unat v mod 10) = v mod 10" unfolding unat_mod_10 [symmetric] by (simp only: of_nat_unat ucast_id)
  then show ?thesis by (simp only: div_mult_mod_eq)
qed

lemma hex_step: "drop_bit 4 v * 16 + of_nat (unat v mod 16) = (v :: u64)"
proof -
  have "unat (v mod 16) = unat v mod 16" by (simp add: unat_mod)
  then have "of_nat (unat v mod 16) = v mod 16" by (metis of_nat_unat ucast_id)
  moreover have "drop_bit 4 v = v div 16" by (simp add: drop_bit_eq_div)
  ultimately show ?thesis by (simp only: div_mult_mod_eq)
qed

lemma ucast_small: "k < 256 \<Longrightarrow> ucast (of_nat k :: u8) = (of_nat k :: u64)"
  by (simp add: word_unat_eq_iff unat_ucast_up unat_of_nat take_bit_eq_mod)

lemma dec_word: "ucast (v mod 10 :: u64) = (of_nat (unat v mod 10) :: u8)"
  by (subst of_nat_unat [symmetric]) (rule arg_cong [OF unat_mod_10])

lemma dec_digits_read:
  assumes "unat v < 10 ^ n"
  shows "\<forall>c \<in> set (dec_loop n v). \<exists>d. digit_of c = Some d \<and> uint d < 10"
    "fold (\<lambda>c v. v * of_int 10 + ucast (the (digit_of c))) (rev (dec_loop n v)) 0 = v"
proof -
  show "\<forall>c \<in> set (dec_loop n v). \<exists>d. digit_of c = Some d \<and> uint d < 10"
  proof (induction n arbitrary: v)
    case (Suc n)
    have "unat v mod 10 < 10" by simp
    from dec_digit(1) [OF this] have "digit_of (48 + ucast (v mod 10)) = Some (of_nat (unat v mod 10))"
      by (simp only: dec_word)
    moreover have "uint (of_nat (unat v mod 10) :: u8) < 10"
      by (simp add: unsigned_of_nat take_bit_eq_mod)
    ultimately show ?case using Suc.IH [of "v div 10"] by auto
  qed simp
  show "fold (\<lambda>c v. v * of_int 10 + ucast (the (digit_of c))) (rev (dec_loop n v)) 0 = v"
    using assms
  proof (induction n arbitrary: v)
    case 0
    then show ?case by (simp add: word_unat_eq_iff)
  next
    case (Suc n)
    then have "unat (v div 10) < 10 ^ n" by (simp add: unat_div less_mult_imp_div_less mult.commute)
    with Suc.IH dec_digit(1) [of "unat v mod 10"] dec_step [of v] show ?case
      by (auto simp: dec_word not_less ucast_small)
  qed
qed

lemma hex_digits_read:
  "fold (\<lambda>c v. v * of_int 16 + ucast (the (digit_of c)))
     (map (\<lambda>i. nibble_char (ucast (drop_bit (i * 4) v AND 0xF))) (rev [0..<n])) (drop_bit (n * 4) v) = (v :: u64)"
proof (induction n)
  case (Suc n)
  let ?k = "unat (drop_bit (n * 4) v) mod 16"
  have "drop_bit (Suc n * 4) v * 16 + of_nat ?k = drop_bit (n * 4) v"
    using hex_step [of "drop_bit (n * 4) v"] by (simp add: drop_bit_drop_bit add.commute)
  with Suc nibble_chars(2) [of ?k] show ?case by (simp add: nibble_word ucast_small)
qed simp

lemma strtoul_dec: "strtoul (rev (dec_loop 20 v) @ [0]) 10 = Ret (v, length (dec_loop 20 v))"
proof -
  have "unat v < 2 ^ LENGTH(64)" by (rule unsigned_less)
  then have v: "unat v < 10 ^ 20" by simp
  show ?thesis
    using strtoul_digits [of "rev (dec_loop 20 v)" 10 "[]" 0] dec_digits_read [OF v] by (simp add: strtoul_def)
qed

lemma strtoul_hex: "strtoul (map of_char ''0x'' @ bios_hex v) 0 = Ret (v, 18)"
proof -
  let ?ds = "map (\<lambda>i. nibble_char (ucast (drop_bit (i * 4) v AND 0xF))) (rev [0..<16])"
  have ok: "\<exists>d. digit_of c = Some d \<and> uint d < 16" if "c \<in> set ?ds" for c
  proof -
    from that obtain i where "c = nibble_char (of_nat (unat (drop_bit (i * 4) v) mod 16))" by (auto simp: nibble_word)
    with nibble_chars(2) [of "unat (drop_bit (i * 4) v) mod 16"] show ?thesis
      by (simp add: unsigned_of_nat take_bit_eq_mod)
  qed
  have "drop_bit (16 * 4) v = 0" by (rule bit_word_eqI) (auto simp: bit_drop_bit_eq dest: bit_imp_le_length)
  with hex_digits_read [of v 16] have read: "fold (\<lambda>c v. v * of_int 16 + ucast (the (digit_of c))) ?ds 0 = v" by simp
  have "strtoul ([48, 120] @ ?ds @ [0]) 0 = strtoul_loop (length [48, 120 :: u8]) 0 ([48, 120] @ ?ds @ [0]) 16"
    by (simp add: strtoul_def byte_at_def numeral_2_eq_2)
  also have "\<dots> = Ret (v, 18)"
    using ok strtoul_digits [of ?ds 16 "[48, 120]" 0] unfolding read by simp
  finally show ?thesis by (simp add: bios_hex_def)
qed

section \<open>Every printing function keeps the console well-formed\<close>

lemma vga_puts_step: "vga_puts cs s = Ret t \<Longrightarrow> 9 \<notin> set cs \<Longrightarrow> console_ok s \<Longrightarrow> console_step s t"
proof (induction cs s rule: vga_puts.induct)
  case (2 c cs s)
  then show ?case
    using vga_putc_step [of s c] by (auto split: if_splits dest: console_step_ok intro: console_step_trans)
qed simp

lemma console_step_ports:
  "console_ok s \<Longrightarrow> console_step s (s\<lparr>port_reads := n\<rparr>)"
  "console_ok s \<Longrightarrow> console_step s (s\<lparr>port_writes := w\<rparr>)"
  "console_ok s \<Longrightarrow> console_step s (s\<lparr>port_reads := n, port_writes := w\<rparr>)"
  by (simp_all add: console_step_def console_ok_def)

lemma serial_putc_step: "serial_putc env port c s = Ret t \<Longrightarrow> console_ok s \<Longrightarrow> console_step s t"
  by (auto simp: serial_putc_def bios_outb_def console_step_ports split: option.splits)

lemma serial_puts_step: "serial_puts env port cs s = Ret t \<Longrightarrow> console_ok s \<Longrightarrow> console_step s t"
proof (induction env port cs s rule: serial_puts.induct)
  case (2 env port c cs s)
  show ?case
  proof (cases "c = 0")
    case False
    with "2.prems" obtain u where "serial_putc env port c s = Ret u" "serial_puts env port cs u = Ret t"
      by (auto simp: outcome_simps)
    with "2.IH" [OF False] "2.prems"(2) False show ?thesis
      using serial_putc_step console_step_ok console_step_trans by metis
  qed (use "2.prems" in auto)
qed simp

lemma hal_print_step: "hal_print env str s = Ret t \<Longrightarrow> 9 \<notin> set str \<Longrightarrow> console_ok s \<Longrightarrow> console_step s t"
  unfolding hal_print_def bindR_eq_Ret_iff
  by (auto dest: vga_puts_step serial_puts_step console_step_ok intro: console_step_trans)

text \<open>What a sequence of outputs leaves, whatever the serial line does: the text is on the screen.\<close>

definition same_screen :: "'z bios_hal_scheme \<Rightarrow> 'z bios_hal_scheme \<Rightarrow> bool" where
  "same_screen s t \<longleftrightarrow> s\<lparr>port_reads := 0, port_writes := []\<rparr> = t\<lparr>port_reads := 0, port_writes := []\<rparr>"

lemma same_screen_refl [simp]: "same_screen s s" "same_screen s (s\<lparr>port_reads := n, port_writes := w\<rparr>)"
  by (simp_all add: same_screen_def)

lemma same_screen_ports: "same_screen s t \<Longrightarrow> same_screen (fold vga_putc cs s) (fold vga_putc cs t)"
  unfolding same_screen_def by (simp flip: fold_putc_ports(2,3))

lemma same_screen_trans: "same_screen s t \<Longrightarrow> same_screen t u \<Longrightarrow> same_screen s u"
  by (simp add: same_screen_def)

lemma serial_puts_ports: "serial_puts env port cs s = Ret t \<Longrightarrow> same_screen s t"
proof (induction env port cs s rule: serial_puts.induct)
  case (2 env port c cs s)
  show ?case
  proof (cases "c = 0")
    case False
    with "2.prems" obtain u where u: "serial_putc env port c s = Ret u" "serial_puts env port cs u = Ret t"
      by (auto simp: outcome_simps)
    then have "same_screen s u"
      by (auto simp: serial_putc_def bios_outb_def split: option.splits)
    with "2.IH" [OF False u] show ?thesis by (rule same_screen_trans [rotated])
  qed (use "2.prems" in simp)
qed simp

lemma hal_print_screen:
  assumes "hal_print env (cs @ 0 # rest) s = Ret t" "0 \<notin> set cs"
  shows "same_screen (fold vga_putc cs s) t"
  using assms(1) serial_puts_ports by (auto simp: hal_print_def vga_puts_fold [OF assms(2)])

lemma print_one_screen:
  assumes "print_one env x s = Ret t" "item_ok x"
  shows "same_screen (fold vga_putc (screen_text x) s) t"
proof (cases x)
  case (PStr u)
  with hal_print_screen [of env "map of_char u" "[]" s t] assms show ?thesis by (simp add: lit_def)
next
  case (PBytes b)
  then have b: "0 \<in> set b" using assms(2) by (simp add: is_cstr_def)
  obtain ys zs where split: "b = ys @ 0 # zs" "0 \<notin> set ys" using split_list_first [OF b] by blast
  then have "cstr b = ys" by (auto simp: cstr_def takeWhile_tail)
  with hal_print_screen [of env ys zs s t] split assms(1) PBytes show ?thesis by simp
next
  case (PHex v)
  obtain u where u: "hal_print env (lit ''0x'') s = Ret u" "hal_print env (bios_hex v) u = Ret t"
    using assms(1) PHex by (auto simp: hal_print_hex_def outcome_simps)
  have 1: "same_screen (fold vga_putc (map of_char ''0x'') s) u"
    using hal_print_screen [of env "map of_char ''0x''" "[]" s u] u(1) by (simp add: lit_def)
  have "same_screen (fold vga_putc (butlast (bios_hex v)) u) t"
    using hal_print_screen [of env "butlast (bios_hex v)" "[]" u t] u(2) bios_hex_chars [of v] by simp
  from same_screen_trans [OF same_screen_ports [OF 1] this] PHex show ?thesis by simp
next
  case (PDec v)
  with hal_print_screen [of env "[48]" "[]" s t] assms(1) show ?thesis
    by (auto simp: hal_print_dec_def lit_def split: if_splits)
qed

lemma say_screen:
  "say env ps s = Ret t \<Longrightarrow> \<forall>x \<in> set ps. item_ok x \<Longrightarrow> same_screen (fold vga_putc (concat (map screen_text ps)) s) t"
proof (induction ps arbitrary: s)
  case Nil
  then show ?case by (simp add: say_def)
next
  case (Cons x ps)
  then obtain u where u: "print_one env x s = Ret u" "say env ps u = Ret t" by (auto simp: say_def outcome_simps)
  have "same_screen (fold vga_putc (screen_text x) s) u" using print_one_screen [OF u(1)] Cons.prems(2) by simp
  with Cons.IH [OF u(2)] Cons.prems(2) show ?case
    by (auto intro: same_screen_trans [OF same_screen_ports])
qed

lemma same_screen_step: "same_screen u t \<Longrightarrow> console_step s u \<Longrightarrow> console_step s t \<and> cursor_x t = cursor_x u"
  by (cases s; cases t; cases u) (simp add: same_screen_def console_step_def console_ok_def)

text \<open>Items without tabulators.\<close>

definition item_plain :: "print_item \<Rightarrow> bool" where
  "item_plain x \<longleftrightarrow> item_ok x \<and> 9 \<notin> set (screen_text x)"

lemma nibble_char_not_tab: "n < 16 \<Longrightarrow> nibble_char (of_nat n) \<noteq> 9"
  using nibble_chars(2) [of n] by (auto simp: digit_of_def split: if_splits)

lemma dec_loop_not_tab: "9 \<notin> set (dec_loop n v)"
proof (induction n arbitrary: v)
  case (Suc n)
  have "48 + ucast (v mod 10) \<noteq> (9 :: u8)"
  proof
    assume eq: "48 + ucast (v mod 10) = (9 :: u8)"
    have "unat (v mod 10) < 10" by (simp add: unat_mod)
    moreover have "unat (ucast (v mod 10) :: u8) = unat (v mod 10)"
      using calculation by (simp add: unsigned_ucast_eq take_bit_nat_eq_self)
    ultimately have "unat (48 + ucast (v mod 10) :: u8) = 48 + unat (v mod 10)" by (simp add: unat_word_ariths)
    moreover have "unat (48 + ucast (v mod 10) :: u8) = 9" unfolding eq by simp
    ultimately show False by simp
  qed
  with Suc show ?case by simp
qed simp

lemma item_plain_simps [simp]:
  "item_plain (PStr t) \<longleftrightarrow> 0 \<notin> set (map of_char t :: bytes) \<and> 9 \<notin> set (map of_char t :: bytes)"
  "item_plain (PHex v)" "item_plain (PDec v)"
proof -
  show "item_plain (PHex v)"
    using nibble_char_not_tab by (auto simp: item_plain_def bios_hex_def nibble_word)
qed (auto simp: item_plain_def dec_loop_not_tab)

lemma say_step:
  assumes "say env ps s = Ret t" "\<forall>x \<in> set ps. item_plain x" "console_ok s"
  shows "console_step s t"
proof -
  have "9 \<notin> set (concat (map screen_text ps))" using assms(2) by (auto simp: item_plain_def)
  from fold_putc_step [OF assms(3) this] say_screen [OF assms(1)] assms(2) show ?thesis
    using same_screen_step by (auto simp: item_plain_def)
qed

lemma hal_init_ok: "console_ok (snd (hal_init s))"
  using clear_step console_step_ok by (auto simp: hal_init_def Let_def)

section \<open>Properties\<close>

text \<open>
  C33. Whatever is printed, text with control characters and numbers included, as long as it has not the \<open>2^28\<close> or so
  tabulators that make the column overflow: the cursor stays in a line of the screen and is neither left of it nor further
  right than column 80, or where it was, and 8 columns for each tabulator; the colour is kept, and of memory only the
  4000 bytes of the screen may change.
\<close>
theorem console_stays_on_screen:
  assumes "console_ok s" "\<forall>x \<in> set ps. item_ok x" "say env ps s = Ret t"
    and "right = max 80 (cursor_x s) + 8 * int (tabs (concat (map screen_text ps)))" "right < 2 ^ 31"
  shows "0 \<le> cursor_x t \<and> cursor_x t \<le> right \<and> 0 \<le> cursor_y t \<and> cursor_y t < 25 \<and> text_color t = text_color s \<and>
    (\<forall>a. uint a < 0xB8000 \<or> 0xB8000 + 4000 \<le> uint a \<longrightarrow> phys t a = phys s a)"
proof -
  let ?u = "fold vga_putc (concat (map screen_text ps)) s"
  have u: "console_step s ?u" "cursor_x ?u \<le> right"
    using fold_putc_within [OF assms(1), of "max 80 (cursor_x s)" "concat (map screen_text ps)"] assms(4,5) by simp_all
  from same_screen_step [OF say_screen [OF assms(3,2)] u(1)] u(2) show ?thesis
    by (auto simp: console_step_def console_ok_def bios_vga_dims off_screen_def)
qed

definition sample_hal :: bios_hal where
  "sample_hal = \<lparr>phys = \<lambda>_. 0, cursor_x = 79, cursor_y = 24, text_color = 7, port_reads = 0, port_writes = []\<rparr>"

definition sample_ports :: port_env where "sample_ports p n = 0x60"

lemma sample_ports_ready: "serial_ready sample_ports"
  by (auto simp: serial_ready_def sample_ports_def)

theorem console_stays_on_screen_witness:
  "\<exists>t. say sample_ports [PStr (CHR 0x09 # ''a\<newline>b''), PDec 7] sample_hal = Ret t \<and> cursor_x t \<le> 88 \<and> cursor_y t < 25"
proof -
  let ?ps = "[PStr (CHR 0x09 # ''a\<newline>b''), PDec 7]"
  obtain t where t: "say sample_ports ?ps sample_hal = Ret t"
    using say_returns [OF sample_ports_ready, of ?ps sample_hal] by auto
  have ok: "console_ok sample_hal" by (simp add: console_ok_def sample_hal_def bios_vga_dims)
  have "tabs (concat (map screen_text ?ps)) = 1" by code_simp
  then have "88 = max 80 (cursor_x sample_hal) + 8 * int (tabs (concat (map screen_text ?ps)))"
    by (simp only:) (simp add: sample_hal_def)
  from console_stays_on_screen [OF ok _ t this] t show ?thesis by auto
qed

text \<open>
  C32. From a fresh console, and with a serial line that becomes ready again and again, a sequence of outputs
  returns. The screen then shows the last 25 lines of the text, each cut at 80 columns and filled with blanks (text
  without tabulators and carriage returns); the serial line has received the same text except for every decimal
  number other than 0. A cell is the character with the colour \<open>0x0F\<close> for characters below \<open>0x80\<close>; for the others the
  code joins the colour with a negative \<open>char\<close>, so that the cell has the attribute \<open>0xFF\<close> (lemma \<open>char_cell_bytes\<close>).
\<close>
theorem console_shows_last_lines:
  assumes "serial_ready env" "\<forall>x \<in> set ps. item_ok x"
    and "str = concat (map screen_text ps)" "13 \<notin> set str" "9 \<notin> set str"
  shows "\<exists>t. say env ps (snd (hal_init s)) = Ret t \<and>
    (\<forall>r < 25. \<forall>c < 80. screen_cell t r c = char_cell 0x0F (window_char (window (text_lines str)) r c)) \<and>
    port_writes t = port_writes (snd (hal_init s)) @ map (Pair SERIAL_PORT_COM1) (concat (map line_text ps))"
proof -
  define h where "h = snd (hal_init s)"
  obtain n where n: "say env ps h = Ret (printed str (concat (map line_text ps)) n h)"
    using say_returns [OF assms(1,2), of h] by (auto simp: assms(3))
  have color: "text_color h = 0x0F" by (simp add: h_def hal_init_def Let_def hal_clear_screen_def)
  have "shows_lines [[]] h" unfolding h_def hal_init_def Let_def by (simp add: clear_shows)
  from shows_lines_fold [OF this assms(4,5)] have "shows_lines (text_lines str) (fold vga_putc str h)"
    by (simp add: text_lines_def)
  moreover have "console_ok h" unfolding h_def by (rule hal_init_ok)
  then have "text_color (fold vga_putc str h) = 0x0F" using fold_putc_step [of h str] color assms(5) by (simp add: console_step_def)
  ultimately have "screen_cell (printed str ds n h) r c = char_cell 0x0F (window_char (window (text_lines str)) r c)"
    if "r < 25" "c < 80" for r c ds n
    using that by (simp add: shows_lines_def printed_def screen_cell_def)
  with n show ?thesis unfolding h_def [symmetric] by (auto simp: printed_def)
qed

theorem console_shows_last_lines_witness:
  "\<exists>t. say sample_ports [PStr ''T'', PDec 7] (snd (hal_init sample_hal)) = Ret t \<and> screen_cell t 0 1 = 0x0F37 \<and>
    port_writes t = port_writes (snd (hal_init sample_hal)) @ [(SERIAL_PORT_COM1, 84)]"
proof -
  have str: "[84, 55] = concat (map screen_text [PStr ''T'', PDec 7])" by code_simp
  have cell: "char_cell 0x0F (window_char (window (text_lines [84, 55])) 0 1) = 0x0F37" by code_simp
  show ?thesis
    using console_shows_last_lines [OF sample_ports_ready _ str, of sample_hal] cell by auto
qed

text \<open>
  Numbers read back as printed: \<open>strtoul\<close> in base 10 of the digits \<open>hal_print_dec\<close> puts on the screen, and in
  base 0 of what \<open>hal_print_hex\<close> prints, return the number, for every number of 64 bits, and stop at the
  terminator.
\<close>
theorem numbers_read_back:
  "strtoul (screen_text (PDec v) @ [0]) 10 = Ret (v, length (screen_text (PDec v))) \<and>
   strtoul (screen_text (PHex v) @ [0]) 0 = Ret (v, 18)"
proof -
  have "strtoul ([48] @ [0]) 10 = Ret (0, 1)" by code_simp
  moreover have "screen_text (PHex v) @ [0] = map of_char ''0x'' @ bios_hex v"
    using bios_hex_chars(1) [of v] by simp
  ultimately show ?thesis using strtoul_dec [of v] strtoul_hex [of v] by simp
qed

end
