(* ===== verification/BiosHal.thy ===== *)
theory BiosHal
  imports BiosConsole
begin

text \<open>
  What the loader for BIOS machines finds out about the machine (the rest of \<open>hal/hal.c\<close> and the structures of
  \<open>stage2/stage2.h\<close>): the memory map from BIOS interrupt 15h, built at a fixed address, and the search for the ACPI
  root pointer. The interrupt is a parameter, and nothing is assumed of what it answers: from the registers \<open>eax\<close>,
  \<open>ebx\<close>, \<open>ecx\<close>, \<open>edx\<close> and the memory it yields \<open>eax\<close>, \<open>ebx\<close>, \<open>ecx\<close> and the memory. (It
  returns, and its answer depends on nothing else; the variables of the loader are no part of that memory, so an
  interrupt that overwrites them is not modelled.)
\<close>

section \<open>Numbers in memory\<close>

definition le_load :: "nat \<Rightarrow> phys_mem \<Rightarrow> u32 \<Rightarrow> u64" where
  "le_load n m a = le_value (phys_bytes m a n)"

section \<open>The boot information and the memory map\<close>

definition MEMORY_MAP_ADDR :: u32 where "MEMORY_MAP_ADDR = 0x95000"
definition MAX_MEMORY_MAP_ENTRIES :: nat where "MAX_MEMORY_MAP_ENTRIES = 64"
definition MEMORY_TYPE_USABLE :: u64 where "MEMORY_TYPE_USABLE = 1"
definition MEMORY_TYPE_RESERVED :: u64 where "MEMORY_TYPE_RESERVED = 2"
definition sizeof_map_entry :: nat where "sizeof_map_entry = 24"

record hik_boot_info =
  bi_magic :: u32
  bi_version :: u32
  bi_flags :: u64
  bi_map_base :: u64
  bi_map_size :: u64
  bi_desc_size :: u64
  bi_map_count :: u32
  bi_rsdp :: u64
  bi_bios_data_area :: u64
  bi_vbe_info :: u32
  bi_kernel_base :: u64
  bi_kernel_size :: u64
  bi_entry_point :: u64
  bi_cmdline :: bytes
  bi_modules :: u64
  bi_module_count :: u32

text \<open>A static object starts with zeros.\<close>

definition zero_boot_info :: hik_boot_info where
  "zero_boot_info = \<lparr>bi_magic = 0, bi_version = 0, bi_flags = 0, bi_map_base = 0, bi_map_size = 0, bi_desc_size = 0,
     bi_map_count = 0, bi_rsdp = 0, bi_bios_data_area = 0, bi_vbe_info = 0, bi_kernel_base = 0, bi_kernel_size = 0,
     bi_entry_point = 0, bi_cmdline = replicate 256 0, bi_modules = 0, bi_module_count = 0\<rparr>"

record bios_mem = bios_hal +
  memory_map_count :: u32

type_synonym bios_int = "u32 \<Rightarrow> u32 \<Rightarrow> u32 \<Rightarrow> u32 \<Rightarrow> phys_mem \<Rightarrow> u32 \<times> u32 \<times> u32 \<times> phys_mem"

text \<open>
  The registers of the call: the second instruction puts 24 into \<open>edx\<close>, over the signature that the operand list puts
  there, and none of them gives the interrupt the address of a buffer.
\<close>

definition e820_call :: "bios_int \<Rightarrow> u32 \<Rightarrow> phys_mem \<Rightarrow> u32 \<times> u32 \<times> u32 \<times> phys_mem" where
  "e820_call bios continuation = bios 0xE820 continuation 24 24"

definition entry_addr :: "nat \<Rightarrow> u32" where
  "entry_addr i = MEMORY_MAP_ADDR + of_nat (sizeof_map_entry * i)"

text \<open>The fields of an entry in their order: base address, length, type, attributes.\<close>

definition entry_bytes :: "u64 \<Rightarrow> u64 \<Rightarrow> u64 \<Rightarrow> bytes" where
  "entry_bytes base len ty = le_bytes 8 base @ le_bytes 8 len @ le_bytes 4 ty @ le_bytes 4 0"

definition add_entry :: "u64 \<Rightarrow> u64 \<Rightarrow> u64 \<Rightarrow> nat \<times> phys_mem \<Rightarrow> nat \<times> phys_mem" where
  "add_entry base len ty = (\<lambda>(n, m). (Suc n, store_bytes (entry_addr n) (entry_bytes base len ty) m))"

text \<open>The \<open>do\<close> loop: the number of entries and the memory. What is copied is what the call leaves at \<open>0x5000\<close>.\<close>

function e820_loop :: "bios_int \<Rightarrow> u32 \<Rightarrow> nat \<times> phys_mem \<Rightarrow> nat \<times> phys_mem" where
  "e820_loop bios continuation (entries, m) =
     (case e820_call bios continuation m of (signature, ebx, sz, m) \<Rightarrow>
      if signature \<noteq> 0x534D4150 \<or> sz < 20 then (entries, m)
      else if entries < MAX_MEMORY_MAP_ENTRIES
      then let m = store_bytes (entry_addr entries) (phys_bytes m 0x5000 sizeof_map_entry) m in
        if ebx \<noteq> 0 \<and> Suc entries < MAX_MEMORY_MAP_ENTRIES then e820_loop bios ebx (Suc entries, m) else (Suc entries, m)
      else (entries, m))"
  by pat_completeness auto
termination by (relation "measure (\<lambda>(bios, c, n, m). MAX_MEMORY_MAP_ENTRIES - n)") auto

declare e820_loop.simps [simp del]

text \<open>The entries the function adds itself; \<open>*mem_ptr\<close> is the word at \<open>0x413\<close> of the BIOS data area.\<close>

definition add_regions :: "nat \<times> phys_mem \<Rightarrow> nat \<times> phys_mem" where
  "add_regions nm =
     (let nm = (if fst nm = 0 then add_entry 0 0xA0000 MEMORY_TYPE_USABLE nm else nm);
          ext_mem = uint (load16 (snd nm) 0x413);
          nm = (if 640 < ext_mem then add_entry 0x100000 (of_int ((ext_mem - 640) * 1024)) MEMORY_TYPE_USABLE nm else nm) in
      add_entry 0x9FC00 0x400 MEMORY_TYPE_RESERVED (add_entry 0 0x500 MEMORY_TYPE_RESERVED nm))"

definition print_entry :: "port_env \<Rightarrow> nat \<Rightarrow> 'z bios_mem_scheme \<Rightarrow> 'z bios_mem_scheme outcome" where
  "print_entry env i s = say env [PStr ''  ['', PDec (of_nat i), PStr ''] Base: 0x'',
     PHex (le_load 8 (phys s) (entry_addr i)), PStr '', Size: '',
     PDec (le_load 8 (phys s) (entry_addr i + 8) div 1024), PStr '' KB, Type: '',
     PDec (le_load 4 (phys s) (entry_addr i + 16)), PStr ''\<newline>''] s"

definition hal_detect_memory ::
  "port_env \<Rightarrow> bios_int \<Rightarrow> hik_boot_info \<Rightarrow> 'z bios_mem_scheme \<Rightarrow> (bool \<times> hik_boot_info \<times> 'z bios_mem_scheme) outcome" where
  "hal_detect_memory env bios info s =
     (case add_regions (e820_loop bios 0 (0, phys s)) of (entries, m) \<Rightarrow>
      let s = s\<lparr>phys := m, memory_map_count := of_nat entries\<rparr>;
          info = info\<lparr>bi_map_base := ucast MEMORY_MAP_ADDR, bi_map_size := of_nat (entries * sizeof_map_entry),
            bi_desc_size := of_nat sizeof_map_entry, bi_map_count := of_nat entries\<rparr> in
      bindR (hal_print env (lit ''Memory map:\<newline>'') s) (\<lambda>s.
      bindR (forR (print_entry env) [0..<entries] s) (\<lambda>s. Ret (True, info, s))))"

definition hal_get_memory_map_size :: "'z bios_mem_scheme \<Rightarrow> u64" where
  "hal_get_memory_map_size s = ucast (memory_map_count s * of_nat sizeof_map_entry)"

definition hal_get_memory_map_count :: "'z bios_mem_scheme \<Rightarrow> u32" where
  "hal_get_memory_map_count s = memory_map_count s"

section \<open>The ACPI root pointer\<close>

text \<open>The signature at an address, and the 20 bytes whose sum is the checksum.\<close>

definition rsdp_at :: "phys_mem \<Rightarrow> u64 \<Rightarrow> bool" where
  "rsdp_at m addr \<longleftrightarrow> bios_memcmp (phys_bytes m (ucast addr) 8) (lit ''RSD PTR '') 8 = Ret 0 \<and>
     fold (\<lambda>b sum. sum + b) (phys_bytes m (ucast addr) 20) 0 = 0"

text \<open>\<open>for (addr = start; addr < end; addr += 16)\<close>; both calls end below \<open>2^20\<close>, so nothing wraps.\<close>

definition search_rsdp :: "phys_mem \<Rightarrow> u64 \<Rightarrow> u64 \<Rightarrow> u64" where
  "search_rsdp m start end' =
     (case first_from (\<lambda>i. rsdp_at m (start + 16 * of_nat i)) 0 ((unat end' - unat start + 15) div 16) of
       None \<Rightarrow> 0 | Some i \<Rightarrow> start + 16 * of_nat i)"

definition hal_find_rsdp :: "'z bios_hal_scheme \<Rightarrow> u64" where
  "hal_find_rsdp s =
     (let ebda_base = push_bit 4 (load16 (phys s) 0x40E);
          rsdp = (if ebda_base \<noteq> 0 then search_rsdp (phys s) (ucast ebda_base) 0xA0000 else 0) in
      if ebda_base \<noteq> 0 \<and> rsdp \<noteq> 0 then rsdp else search_rsdp (phys s) 0xE0000 0xFFFFF)"

section \<open>Storing and reading back\<close>

lemma store_bytes_apply:
  "length bs < 2 ^ 32 \<Longrightarrow>
   store_bytes a bs m x = (if unat (x - a) < length bs then bs ! unat (x - a) else m x)"
proof (induction bs arbitrary: a m)
  case (Cons b bs)
  have IH: "store_bytes (a + 1) bs (m(a := b)) x =
      (if unat (x - (a + 1)) < length bs then bs ! unat (x - (a + 1)) else (m(a := b)) x)"
    using Cons.prems by (intro Cons.IH) simp
  show ?case
  proof (cases "x = a")
    case True
    have "unat (- 1 :: u32) = 2 ^ 32 - 1" by (simp add: unsigned_minus_1_eq_mask mask_eq_exp_minus_1)
    then have "\<not> unat (- 1 :: u32) < length bs" using Cons.prems by simp
    with True IH show ?thesis by simp
  next
    case False
    then have "x - (a + 1) \<noteq> - 1" by (simp add: algebra_simps)
    from unat_inc [OF this] have "unat (x - a) = Suc (unat (x - (a + 1)))" by (simp add: algebra_simps)
    with False IH show ?thesis by simp
  qed
qed simp

lemma phys_bytes_length [simp]: "length (phys_bytes m a n) = n"
  by (simp add: phys_bytes_def)

lemma entry_bytes_length [simp]: "length (entry_bytes b l ty) = 24"
  by (simp add: entry_bytes_def le_bytes_def)

lemma unat_entry_addr:
  assumes "i < 68" "k < 24"
  shows "unat (entry_addr i + of_nat k) = 0x95000 + 24 * i + k"
proof -
  have "entry_addr i + of_nat k = of_nat (0x95000 + 24 * i + k)"
    by (simp add: entry_addr_def MEMORY_MAP_ADDR_def sizeof_map_entry_def)
  then show ?thesis using assms by (simp add: unat_of_nat take_bit_eq_mod del: of_nat_add of_nat_mult)
qed

lemma store_entry_apply:
  assumes "i < 68" "length bs = 24"
  shows "store_bytes (entry_addr i) bs m x =
    (if 0x95000 + 24 * i \<le> unat x \<and> unat x < 0x95000 + 24 * i + 24 then bs ! (unat x - (0x95000 + 24 * i)) else m x)"
proof -
  have a: "unat (entry_addr i) = 0x95000 + 24 * i" using unat_entry_addr [of i 0] assms by simp
  have "unat (x - entry_addr i) = (if 0x95000 + 24 * i \<le> unat x then unat x - (0x95000 + 24 * i)
      else 2 ^ 32 + unat x - (0x95000 + 24 * i))"
    using unat_sub_if_size [of x "entry_addr i"] by (simp add: a word_size)
  then show ?thesis using assms by (subst store_bytes_apply) auto
qed

definition map_entries :: "phys_mem \<Rightarrow> nat \<Rightarrow> bytes list" where
  "map_entries m n = map (\<lambda>i. phys_bytes m (entry_addr i) 24) [0..<n]"

lemma map_entries_store:
  assumes "n < 68" "length bs = 24"
  shows "map_entries (store_bytes (entry_addr n) bs m) (Suc n) = map_entries m n @ [bs]"
proof -
  have same: "phys_bytes (store_bytes (entry_addr n) bs m) (entry_addr n) 24 = bs"
    using assms by (intro nth_equalityI) (simp_all add: phys_bytes_def store_entry_apply unat_entry_addr)
  have other: "phys_bytes (store_bytes (entry_addr n) bs m) (entry_addr i) 24 = phys_bytes m (entry_addr i) 24" if "i < n" for i
    using assms that by (intro nth_equalityI) (auto simp: phys_bytes_def store_entry_apply unat_entry_addr)
  show ?thesis using other by (simp add: map_entries_def same)
qed

lemma map_entries_cong:
  assumes "n \<le> 67" "\<And>a. 0x95000 \<le> unat a \<Longrightarrow> unat a < 0x95000 + 24 * 67 \<Longrightarrow> m' a = m a"
  shows "map_entries m' n = map_entries m n"
proof -
  have "m' (entry_addr i + of_nat k) = m (entry_addr i + of_nat k)" if "i < n" "k < 24" for i k
    using unat_entry_addr [of i k] that assms(1) by (intro assms(2)) simp_all
  then show ?thesis by (simp add: map_entries_def phys_bytes_def)
qed

section \<open>The memory map that is built\<close>

text \<open>
  The entries that calls made one after the other report, at most \<open>n\<close>: what each leaves at \<open>0x5000\<close>. Between two calls
  the memory has the new entry in its place in the map, counted from the end of the 64.
\<close>

definition with_entry :: "nat \<Rightarrow> bytes \<Rightarrow> phys_mem \<Rightarrow> phys_mem" where
  "with_entry i e m =
     (\<lambda>a. if 0x95000 + 24 * i \<le> unat a \<and> unat a < 0x95000 + 24 * i + 24 then e ! (unat a - (0x95000 + 24 * i)) else m a)"

fun e820_reports :: "bios_int \<Rightarrow> nat \<Rightarrow> u32 \<Rightarrow> phys_mem \<Rightarrow> bytes list" where
  "e820_reports bios 0 c m = []"
| "e820_reports bios (Suc n) c m = (case bios 0xE820 c 24 24 m of (signature, ebx, sz, m') \<Rightarrow>
     if signature \<noteq> 0x534D4150 \<or> sz < 20 then []
     else let e = phys_bytes m' 0x5000 24 in
       e # (if ebx = 0 then [] else e820_reports bios n ebx (with_entry (63 - n) e m')))"

text \<open>The addresses that some call changes; a BIOS that answers no call without the signature \<open>SMAP\<close> in \<open>edx\<close>.\<close>

definition bios_writes :: "bios_int \<Rightarrow> u32 set" where
  "bios_writes bios = {a. \<exists>eax ebx ecx edx m. snd (snd (snd (bios eax ebx ecx edx m))) a \<noteq> m a}"

definition bios_spares_map :: "bios_int \<Rightarrow> bool" where
  "bios_spares_map bios \<longleftrightarrow> (\<forall>a \<in> bios_writes bios. unat a < 0x95000 \<or> 0x95000 + 24 * 67 \<le> unat a)"

definition bios_wants_smap :: "bios_int \<Rightarrow> bool" where
  "bios_wants_smap bios \<longleftrightarrow>
     (\<forall>ebx ecx edx m. edx \<noteq> 0x534D4150 \<longrightarrow> fst (bios 0xE820 ebx ecx edx m) \<noteq> 0x534D4150)"

lemma e820_reports_none: "bios_wants_smap bios \<Longrightarrow> e820_reports bios n c m = []"
proof (cases n)
  case (Suc k)
  assume "bios_wants_smap bios"
  then have "fst (bios 0xE820 c 24 24 m) \<noteq> 0x534D4150" by (simp add: bios_wants_smap_def)
  with Suc show ?thesis by (cases "bios 0xE820 c 24 24 m") simp
qed simp

text \<open>Memory that is not in the map and that no call changes.\<close>

definition off_map :: "u32 set \<Rightarrow> u32 \<Rightarrow> bool" where
  "off_map W a \<longleftrightarrow> (unat a < 0x95000 \<or> 0x95000 + 24 * 67 \<le> unat a) \<and> a \<notin> W"

definition same_off_map :: "u32 set \<Rightarrow> phys_mem \<Rightarrow> phys_mem \<Rightarrow> bool" where
  "same_off_map W m m' \<longleftrightarrow> (\<forall>a. off_map W a \<longrightarrow> m' a = m a)"

lemma same_off_map_refl [simp]: "same_off_map W m m"
  by (simp add: same_off_map_def)

lemma same_off_map_trans: "same_off_map W m m' \<Longrightarrow> same_off_map W m' m'' \<Longrightarrow> same_off_map W m m''"
  by (simp add: same_off_map_def)

lemma store_entry_off: "i < 67 \<Longrightarrow> length bs = 24 \<Longrightarrow> same_off_map W m (store_bytes (entry_addr i) bs m)"
  by (auto simp: same_off_map_def off_map_def store_entry_apply)

lemma store_entry_with: "i < 68 \<Longrightarrow> length bs = 24 \<Longrightarrow> store_bytes (entry_addr i) bs m = with_entry i bs m"
  by (rule ext) (simp add: with_entry_def store_entry_apply)

lemma e820_reports_length: "length (e820_reports bios n c m) \<le> n"
  by (induction n arbitrary: c m) (auto simp: Let_def split: prod.split)

lemma e820_call_off:
  assumes "e820_call bios c m = (sg, nx, sz, m1)"
  shows "same_off_map (bios_writes bios) m m1"
    "bios_spares_map bios \<Longrightarrow> k \<le> 67 \<Longrightarrow> map_entries m1 k = map_entries m k"
proof -
  have w: "m1 a = m a" if "a \<notin> bios_writes bios" for a
  proof -
    have "snd (snd (snd (bios 0xE820 c 24 24 m))) a = m a" using that unfolding bios_writes_def by blast
    then show ?thesis using assms by (simp add: e820_call_def)
  qed
  then show "same_off_map (bios_writes bios) m m1" by (simp add: same_off_map_def off_map_def)
  assume "bios_spares_map bios" "k \<le> 67"
  then show "map_entries m1 k = map_entries m k"
    using w by (intro map_entries_cong) (force simp: bios_spares_map_def)+
qed

lemma e820_loop_entries:
  fixes bios :: bios_int
  assumes "k < 64"
  shows "\<exists>m'. e820_loop bios c (k, m) = (k + length (e820_reports bios (64 - k) c m), m') \<and>
    (bios_spares_map bios \<longrightarrow>
      map_entries m' (k + length (e820_reports bios (64 - k) c m)) = map_entries m k @ e820_reports bios (64 - k) c m) \<and>
    same_off_map (bios_writes bios) m m'"
  using assms
proof (induction "64 - k" arbitrary: k c m)
  case 0
  then show ?case by simp
next
  case (Suc d)
  let ?S = "same_off_map (bios_writes bios)"
  obtain sg nx sz m1 where m1: "e820_call bios c m = (sg, nx, sz, m1)" by (cases "e820_call bios c m")
  note off1 = e820_call_off [OF m1]
  have k: "64 - k = Suc d" "k = 63 - d" using Suc.hyps(2) Suc.prems by simp_all
  define en where "en = phys_bytes m1 0x5000 24"
  have len: "length en = 24" by (simp add: en_def)
  show ?case
  proof (cases "sg \<noteq> 0x534D4150 \<or> sz < 20")
    case True
    then have "e820_loop bios c (k, m) = (k, m1)" "e820_reports bios (64 - k) c m = []"
      using m1 by (simp_all add: e820_loop.simps [of bios c k m] k(1) e820_call_def)
    with off1 Suc.prems show ?thesis by simp
  next
    case False
    define m2 where "m2 = with_entry k en m1"
    have m2: "bios_spares_map bios \<longrightarrow> map_entries m2 (Suc k) = map_entries m k @ [en]" "?S m m2"
      using Suc.prems len off1 map_entries_store [of k en m1] same_off_map_trans [OF off1(1) store_entry_off [of k en _ m1]]
      by (simp_all add: m2_def store_entry_with)
    have loop: "e820_loop bios c (k, m) = (if nx \<noteq> 0 \<and> Suc k < 64 then e820_loop bios nx (Suc k, m2) else (Suc k, m2))"
      using False Suc.prems store_entry_with [of k en m1] len
      by (simp add: e820_loop.simps [of bios c k m] m1 MAX_MEMORY_MAP_ENTRIES_def m2_def Let_def sizeof_map_entry_def en_def)
    have rest: "e820_reports bios (64 - k) c m = en # (if nx = 0 then [] else e820_reports bios d nx m2)"
      using False m1 by (simp add: k(1) m2_def k(2) [symmetric] e820_call_def en_def Let_def)
    show ?thesis
    proof (cases "nx \<noteq> 0 \<and> Suc k < 64")
      case True
      have d: "d = 64 - Suc k" using k by simp
      from Suc.hyps(1) [OF d, of nx m2] True obtain m' where
        "e820_loop bios nx (Suc k, m2) = (Suc k + length (e820_reports bios d nx m2), m')"
        "bios_spares_map bios \<longrightarrow>
          map_entries m' (Suc k + length (e820_reports bios d nx m2)) = map_entries m2 (Suc k) @ e820_reports bios d nx m2"
        "?S m2 m'" using d by auto
      with True loop rest m2 show ?thesis by (auto intro: same_off_map_trans)
    next
      case False
      then have "nx = 0 \<or> d = 0" using k by auto
      then have "e820_reports bios (64 - k) c m = [en]" using rest by auto
      with False loop m2 show ?thesis by auto
    qed
  qed
qed

text \<open>The whole map: the reported entries, conventional memory if there are none, what the word at \<open>0x413\<close> adds, and two reserved regions.\<close>

definition memory_map_of :: "bytes list \<Rightarrow> u16 \<Rightarrow> bytes list" where
  "memory_map_of es w =
     es @ (if es = [] then [entry_bytes 0 0xA0000 1] else []) @
      (if 640 < uint w then [entry_bytes 0x100000 (of_int ((uint w - 640) * 1024)) 1] else []) @
      [entry_bytes 0 0x500 2, entry_bytes 0x9FC00 0x400 2]"

lemma memory_map_length: "length es \<le> 64 \<Longrightarrow> 3 \<le> length (memory_map_of es w) \<and> length (memory_map_of es w) \<le> 67"
  by (cases es) (auto simp: memory_map_of_def)

lemma add_entry_step:
  assumes "n < 67"
  shows "\<exists>m'. add_entry b l ty (n, m) = (Suc n, m') \<and> map_entries m' (Suc n) = map_entries m n @ [entry_bytes b l ty] \<and>
    same_off_map W m m'"
  using assms map_entries_store [of n "entry_bytes b l ty" m] store_entry_off [of n "entry_bytes b l ty" W m]
  by (simp add: add_entry_def)

lemma load16_off_map: "same_off_map {} m m' \<Longrightarrow> load16 m' 0x413 = load16 m 0x413"
  by (rule load16_cong) (simp_all add: same_off_map_def off_map_def)

lemma add_regions_entries:
  assumes n: "n \<le> 64" and es: "es = memory_map_of (map_entries m n) (load16 m 0x413)"
  shows "\<exists>m'. add_regions (n, m) = (length es, m') \<and> map_entries m' (length es) = es \<and> same_off_map {} m m'"
proof -
  define es0 where "es0 = map_entries m n"
  have l0: "length es0 = n" by (simp add: es0_def map_entries_def)
  define es1 where "es1 = es0 @ (if es0 = [] then [entry_bytes 0 0xA0000 1] else [])"
  have l1: "length es1 \<le> 64" using n l0 by (cases es0) (simp_all add: es1_def)
  obtain m1 where m1: "(if n = 0 then add_entry 0 0xA0000 1 (n, m) else (n, m)) = (length es1, m1)"
    "map_entries m1 (length es1) = es1" "same_off_map {} m m1"
    using add_entry_step [of 0 0 "0xA0000" 1 m "{}"] l0 by (cases es0) (auto simp: es1_def es0_def)
  define w where "w = load16 m 0x413"
  have w1: "load16 m1 0x413 = w" using load16_off_map [OF m1(3)] by (simp add: w_def)
  define b :: u64 where "b = of_int ((uint w - 640) * 1024)"
  define es2 where "es2 = es1 @ (if 640 < uint w then [entry_bytes 0x100000 b 1] else [])"
  have l2: "length es2 \<le> 65" using l1 by (simp add: es2_def)
  obtain m2 where m2: "(if 640 < uint w then add_entry 0x100000 b 1 (length es1, m1) else (length es1, m1)) = (length es2, m2)"
    "map_entries m2 (length es2) = es2" "same_off_map {} m m2"
    using add_entry_step [of "length es1" "0x100000" b 1 m1 "{}"] l1 m1
    by (cases "640 < uint w") (auto simp: es2_def intro: same_off_map_trans)
  obtain m3 where m3: "add_entry 0 0x500 2 (length es2, m2) = (Suc (length es2), m3)"
    "map_entries m3 (Suc (length es2)) = es2 @ [entry_bytes 0 0x500 2]" "same_off_map {} m2 m3"
    using add_entry_step [of "length es2" 0 "0x500" 2 m2 "{}"] l2 m2 by auto
  obtain m4 where m4: "add_entry 0x9FC00 0x400 2 (Suc (length es2), m3) = (Suc (Suc (length es2)), m4)"
    "map_entries m4 (Suc (Suc (length es2))) = es2 @ [entry_bytes 0 0x500 2, entry_bytes 0x9FC00 0x400 2]"
    "same_off_map {} m3 m4"
    using add_entry_step [of "Suc (length es2)" "0x9FC00" "0x400" 2 m3 "{}"] l2 m3 by auto
  have es: "es = es2 @ [entry_bytes 0 0x500 2, entry_bytes 0x9FC00 0x400 2]"
    unfolding es memory_map_of_def es2_def es1_def es0_def w_def b_def by simp
  have "add_regions (n, m) = (length es, m4)"
    unfolding add_regions_def Let_def MEMORY_TYPE_USABLE_def MEMORY_TYPE_RESERVED_def fst_conv m1(1) snd_conv w1
      b_def [symmetric] m2(1) m3(1) m4(1) es by simp
  moreover have "same_off_map {} m m4" using m2(3) m3(3) m4(3) same_off_map_trans by blast
  ultimately show ?thesis using m4(2) es by auto
qed

section \<open>Printing the map\<close>

lemma say_ok:
  assumes "serial_ready env" "\<forall>x \<in> set ps. item_plain x" "console_ok s"
  shows "\<exists>t. say env ps s = Ret t \<and> console_step s t"
proof -
  have "\<forall>x \<in> set ps. item_ok x" using assms(2) by (simp add: item_plain_def)
  from say_returns [OF assms(1) this, of s] say_step [OF _ assms(2,3)] show ?thesis by blast
qed

lemma hal_print_lit_ok:
  assumes "serial_ready env" "item_plain (PStr str)" "console_ok s"
  shows "\<exists>t. hal_print env (lit str) s = Ret t \<and> console_step s t"
  using say_ok [OF assms(1) _ assms(3), of "[PStr str]"] assms(2) by (auto simp: say_def outcome_simps)

lemma forR_console:
  assumes "\<And>i s. console_ok s \<Longrightarrow> \<exists>t. body i s = Ret t \<and> console_step s t" "console_ok s"
  shows "\<exists>t. forR body is s = Ret t \<and> console_step s t"
  using assms(2)
proof (induction "is" arbitrary: s)
  case (Cons i "is")
  obtain u where u: "body i s = Ret u" "console_step s u" using assms(1) [OF Cons.prems] by blast
  obtain t where "forR body is u = Ret t" "console_step u t" using Cons.IH [OF console_step_ok [OF u(2)]] by blast
  with u show ?case using console_step_trans [OF u(2)] by auto
qed auto

lemma print_entry_ok: "serial_ready env \<Longrightarrow> console_ok s \<Longrightarrow> \<exists>t. print_entry env i s = Ret t \<and> console_step s t"
  unfolding print_entry_def by (rule say_ok) simp_all

lemma hal_detect_memory_ok:
  fixes bios :: bios_int and s :: "'z bios_mem_scheme"
  defines "rs \<equiv> e820_reports bios 64 0 (phys s)"
  assumes env: "serial_ready env" and ok: "console_ok s"
  shows "\<exists>info' t es. hal_detect_memory env bios info s = Ret (True, info', t) \<and> map_entries (phys t) (length es) = es \<and>
    (bios_spares_map bios \<longrightarrow> es = memory_map_of rs (load16 (phys t) 0x413)) \<and> 3 \<le> length es \<and> length es \<le> 67 \<and>
    memory_map_count t = of_nat (length es) \<and> bi_map_count info' = of_nat (length es) \<and>
    bi_map_size info' = of_nat (24 * length es) \<and> bi_map_base info' = 0x95000 \<and> console_ok t \<and>
    (\<forall>a. off_map (bios_writes bios) a \<longrightarrow> off_screen a \<longrightarrow> phys t a = phys s a) \<and> bios_mem.more t = bios_mem.more s"
proof -
  define n where "n = length rs"
  have n: "n \<le> 64" unfolding n_def rs_def by (rule e820_reports_length)
  obtain m0 where m0: "e820_loop bios 0 (0, phys s) = (n, m0)" "bios_spares_map bios \<longrightarrow> map_entries m0 n = rs"
    "same_off_map (bios_writes bios) (phys s) m0"
    using e820_loop_entries [of 0 bios 0 "phys s"] by (auto simp: n_def rs_def map_entries_def)
  define es where "es = memory_map_of (map_entries m0 n) (load16 m0 0x413)"
  have les: "3 \<le> length es" "length es \<le> 67"
    using memory_map_length [of "map_entries m0 n"] n by (simp_all add: es_def map_entries_def)
  obtain m where m: "add_regions (n, m0) = (length es, m)" "map_entries m (length es) = es" "same_off_map {} m0 m"
    using add_regions_entries [OF n es_def] by blast
  let ?s = "s\<lparr>phys := m, memory_map_count := of_nat (length es)\<rparr>"
  have ok: "console_ok ?s" using ok by (simp add: console_ok_def)
  obtain s1 where s1: "hal_print env (lit ''Memory map:\<newline>'') ?s = Ret s1" "console_step ?s s1"
    using hal_print_lit_ok [OF env _ ok, of "''Memory map:\<newline>''"] by auto
  obtain t where t: "forR (print_entry env) [0..<length es] s1 = Ret t" "console_step s1 t"
    using forR_console [of "print_entry env" s1 "[0..<length es]"] print_entry_ok [OF env] console_step_ok [OF s1(2)]
    by blast
  have step: "console_step ?s t" by (rule console_step_trans [OF s1(2) t(2)])
  then have more: "memory_map_count t = of_nat (length es)" "bios_mem.more t = bios_mem.more s"
    by (cases t; cases s; simp add: console_step_def)+
  have same: "phys t a = m a" if "off_screen a" for a using step that by (simp add: console_step_def)
  have "map_entries (phys t) (length es) = map_entries m (length es)"
    using les(2) same by (intro map_entries_cong) (simp_all add: off_screen_nat)
  then have "map_entries (phys t) (length es) = es" using m(2) by simp
  moreover have "load16 (phys t) 0x413 = load16 m0 0x413"
    using load16_off_map [OF m(3)] load16_cong [of "phys t" "0x413" m] same by (simp add: off_screen_nat)
  then have "bios_spares_map bios \<longrightarrow> es = memory_map_of rs (load16 (phys t) 0x413)" using m0(2) by (simp add: es_def)
  moreover have "phys t a = phys s a" if "off_map (bios_writes bios) a" "off_screen a" for a
  proof -
    have "off_map {} a" using that(1) by (simp add: off_map_def)
    then show ?thesis using same [OF that(2)] m(3) m0(3) that(1) by (simp add: same_off_map_def)
  qed
  ultimately show ?thesis
    using m(1) m0(1) s1(1) t(1) more console_step_ok [OF step] les
    by (auto simp: hal_detect_memory_def Let_def MEMORY_MAP_ADDR_def sizeof_map_entry_def mult.commute)
qed

section \<open>The search\<close>

text \<open>The addresses from \<open>lo\<close> on, 16 apart and below \<open>hi\<close>, where a root pointer lies.\<close>

definition rsdp_candidates :: "phys_mem \<Rightarrow> nat \<Rightarrow> nat \<Rightarrow> nat set" where
  "rsdp_candidates m lo hi = {a. lo \<le> a \<and> a < hi \<and> 16 dvd a - lo \<and> rsdp_at m (of_nat a)}"

definition least_or_0 :: "nat set \<Rightarrow> nat" where "least_or_0 A = (if A = {} then 0 else Min A)"

lemma rsdp_candidates_finite: "finite (rsdp_candidates m lo hi)"
  by (rule finite_subset [of _ "{..<hi}"]) (auto simp: rsdp_candidates_def)

lemma search_rsdp_least:
  assumes "lo < 2 ^ 32" "hi < 2 ^ 32"
  shows "search_rsdp m (of_nat lo) (of_nat hi) = of_nat (least_or_0 (rsdp_candidates m lo hi))"
proof -
  define P where "P = (\<lambda>i. rsdp_at m (of_nat lo + 16 * of_nat i))"
  define n where "n = (hi - lo + 15) div 16"
  have start: "unat (of_nat lo :: u64) = lo" "unat (of_nat hi :: u64) = hi"
    using assms by (simp_all add: unat_of_nat take_bit_eq_mod)
  have addr: "of_nat lo + 16 * of_nat i = (of_nat (lo + 16 * i) :: u64)" for i by simp
  have inside: "i < n \<longleftrightarrow> lo + 16 * i < hi" for i
  proof -
    have "Suc i \<le> n \<longleftrightarrow> Suc i * 16 \<le> hi - lo + 15" unfolding n_def by (rule less_eq_div_iff_mult_less_eq) simp
    then show ?thesis by auto
  qed
  have cand: "a \<in> rsdp_candidates m lo hi \<longleftrightarrow> (\<exists>i. a = lo + 16 * i \<and> i < n \<and> P i)" for a
  proof
    assume a: "a \<in> rsdp_candidates m lo hi"
    then obtain i where "a - lo = 16 * i" by (auto simp: rsdp_candidates_def dvd_def)
    with a have "a = lo + 16 * i" by (auto simp: rsdp_candidates_def)
    with a show "\<exists>i. a = lo + 16 * i \<and> i < n \<and> P i" by (auto simp: rsdp_candidates_def inside P_def)
  qed (auto simp: rsdp_candidates_def inside P_def)
  show ?thesis
  proof (cases "first_from P 0 n")
    case None
    then have "rsdp_candidates m lo hi = {}" unfolding first_from_None_iff using cand by auto
    with None show ?thesis by (simp add: search_rsdp_def start P_def n_def least_or_0_def)
  next
    case (Some k)
    note k = first_from_SomeD [OF Some]
    have "Min (rsdp_candidates m lo hi) = lo + 16 * k"
    proof (rule Min_eqI [OF rsdp_candidates_finite])
      fix a
      assume "a \<in> rsdp_candidates m lo hi"
      then obtain i where "a = lo + 16 * i" "P i" using cand by blast
      with k(4) [of i] show "lo + 16 * k \<le> a" by (cases "i < k") auto
    qed (use cand k in blast)
    moreover have "rsdp_candidates m lo hi \<noteq> {}" using cand k by blast
    ultimately show ?thesis using Some by (simp add: search_rsdp_def start P_def n_def least_or_0_def)
  qed
qed

section \<open>Properties\<close>

text \<open>
  C29. Whatever registers the BIOS answers with (failures and entries of 20 bytes included) and whatever memory it
  changes outside the map, the memory map is built at \<open>0x95000\<close>: what each accepted call has left at \<open>0x5000\<close>, in order
  (at most 64; conventional memory if there is none), a region above 1 MB if the word at \<open>0x413\<close> exceeds 640, and two
  reserved regions. The boot information gives its place and size, and no memory outside the map and the screen
  changes that the BIOS does not change. The map has 3 to 67 entries, so that it may exceed the
  \<open>MAX_MEMORY_MAP_ENTRIES\<close> it is limited to while entries are read. As \<open>edx\<close> holds 24, a BIOS that asks for the
  signature \<open>SMAP\<close> there reports nothing: the map is conventional memory and the regions that are added.
\<close>
theorem memory_map_built:
  assumes "serial_ready env" "bios_spares_map bios" "console_ok s"
  shows "\<exists>info' t es. hal_detect_memory env bios info s = Ret (True, info', t) \<and>
    es = memory_map_of (e820_reports bios 64 0 (phys s)) (load16 (phys t) 0x413) \<and> map_entries (phys t) (length es) = es \<and>
    hal_get_memory_map_count t = of_nat (length es) \<and> bi_map_count info' = of_nat (length es) \<and>
    bi_map_size info' = of_nat (24 * length es) \<and> bi_map_base info' = 0x95000 \<and>
    (\<forall>a. off_map (bios_writes bios) a \<longrightarrow> off_screen a \<longrightarrow> phys t a = phys s a) \<and> 3 \<le> length es \<and> length es \<le> 67 \<and>
    (bios_wants_smap bios \<longrightarrow> es = memory_map_of [] (load16 (phys t) 0x413))"
  using hal_detect_memory_ok [OF assms(1,3), of bios info] assms(2) e820_reports_none [of bios 64 0 "phys s"]
  unfolding hal_get_memory_map_count_def by metis

text \<open>
  Two machines: one answers every call with the same entry and never ends, and writes it at \<open>0x5000\<close>; the other asks for
  the signature, answers with \<open>0x86\<close> in \<open>ah\<close> if it is missing, and writes 20 bytes at \<open>0x7000\<close>.
\<close>

definition sample_bios :: bios_int where
  "sample_bios eax ebx ecx edx m = (0x534D4150, ebx + 1, 24, store_bytes 0x5000 (entry_bytes 0 0x9FC00 1) m)"

definition strict_bios :: bios_int where
  "strict_bios eax ebx ecx edx m =
     (if edx = 0x534D4150 then (0x534D4150, 0, 20, store_bytes 0x7000 (take 20 (entry_bytes 0 0x9FC00 1)) m)
      else (0x8600, ebx, ecx, m))"

lemma store_bytes_outside:
  fixes a p :: u32
  assumes "unat a < unat p \<or> unat p + length bs \<le> unat a" "unat p + length bs < 2 ^ 32"
  shows "store_bytes p bs m a = m a"
  using assms unat_sub_if_size [of a p] by (subst store_bytes_apply) (auto simp: word_size)

lemma sample_writes:
  assumes "a \<in> bios_writes sample_bios \<or> a \<in> bios_writes strict_bios"
  shows "0x5000 \<le> unat a \<and> unat a < 0x7014"
proof (rule ccontr)
  assume n: "\<not> (0x5000 \<le> unat a \<and> unat a < 0x7014)"
  have "store_bytes 0x5000 (entry_bytes 0 0x9FC00 1) m a = m a"
    "store_bytes 0x7000 (take 20 (entry_bytes 0 0x9FC00 1)) m a = m a" for m
    by (rule store_bytes_outside; use n in auto)+
  with assms show False by (auto simp: bios_writes_def sample_bios_def strict_bios_def split: if_splits)
qed

lemma sample_spares: "bios_spares_map sample_bios" "bios_spares_map strict_bios" "bios_wants_smap strict_bios"
  using sample_writes by (fastforce simp: bios_spares_map_def bios_wants_smap_def strict_bios_def)+

lemma sample_bios_reports: "length (e820_reports sample_bios n c m) = n" if "unat c + n < 2 ^ 32"
  using that
proof (induction n arbitrary: c m)
  case (Suc n)
  then have "unat (c + 1) = Suc (unat c)" "c + 1 \<noteq> 0"
    using unat_inc [of c] by (cases "c = - 1"; auto simp: unsigned_minus_1_eq_mask mask_eq_exp_minus_1)+
  with Suc show ?case by (simp add: sample_bios_def Let_def)
qed simp

definition sample_mem :: bios_mem where
  "sample_mem = bios_hal.extend sample_hal \<lparr>memory_map_count = 0\<rparr>"

lemma sample_mem_ok: "console_ok sample_mem"
  by (simp add: sample_mem_def sample_hal_def console_ok_def bios_hal.defs bios_vga_dims)

lemma sample_word:
  assumes "b = sample_bios \<or> b = strict_bios"
    and "\<forall>a. off_map (bios_writes b) a \<longrightarrow> off_screen a \<longrightarrow> phys t a = phys sample_mem a"
  shows "load16 (phys t) 0x413 = 0"
proof -
  have "phys t a = 0" if "unat a < 0x500" for a
  proof -
    have "off_map (bios_writes b) a" "off_screen a"
      using that sample_writes [of a] assms(1) by (auto simp: off_map_def off_screen_nat)
    with assms(2) show ?thesis by (simp add: sample_mem_def sample_hal_def bios_hal.defs)
  qed
  then show ?thesis by (simp add: load16_def)
qed

theorem memory_map_built_witness:
  "(\<exists>info' t. hal_detect_memory sample_ports sample_bios zero_boot_info sample_mem = Ret (True, info', t) \<and>
      bi_map_count info' = 66) \<and>
   (\<exists>info' t. hal_detect_memory sample_ports strict_bios zero_boot_info sample_mem = Ret (True, info', t) \<and>
      map_entries (phys t) 3 = [entry_bytes 0 0xA0000 1, entry_bytes 0 0x500 2, entry_bytes 0x9FC00 0x400 2])"
proof (intro conjI)
  obtain info t es where t: "hal_detect_memory sample_ports sample_bios zero_boot_info sample_mem = Ret (True, info, t)"
    "es = memory_map_of (e820_reports sample_bios 64 0 (phys sample_mem)) (load16 (phys t) 0x413)"
    "bi_map_count info = of_nat (length es)"
    "\<forall>a. off_map (bios_writes sample_bios) a \<longrightarrow> off_screen a \<longrightarrow> phys t a = phys sample_mem a"
    using memory_map_built [OF sample_ports_ready sample_spares(1) sample_mem_ok, of zero_boot_info] by metis
  have "length (e820_reports sample_bios 64 0 (phys sample_mem)) = 64" by (rule sample_bios_reports) simp
  then have "length es = 66" using sample_word [OF _ t(4)] by (auto simp: t(2) memory_map_of_def)
  with t show "\<exists>info' t. hal_detect_memory sample_ports sample_bios zero_boot_info sample_mem = Ret (True, info', t) \<and>
      bi_map_count info' = 66" by auto
next
  obtain info t es where t: "hal_detect_memory sample_ports strict_bios zero_boot_info sample_mem = Ret (True, info, t)"
    "map_entries (phys t) (length es) = es" "bios_wants_smap strict_bios \<longrightarrow> es = memory_map_of [] (load16 (phys t) 0x413)"
    "\<forall>a. off_map (bios_writes strict_bios) a \<longrightarrow> off_screen a \<longrightarrow> phys t a = phys sample_mem a"
    using memory_map_built [OF sample_ports_ready sample_spares(2) sample_mem_ok, of zero_boot_info] by metis
  then have "es = [entry_bytes 0 0xA0000 1, entry_bytes 0 0x500 2, entry_bytes 0x9FC00 0x400 2]"
    using sample_word [OF _ t(4)] sample_spares(3) by (simp add: memory_map_of_def)
  with t show "\<exists>info' t. hal_detect_memory sample_ports strict_bios zero_boot_info sample_mem = Ret (True, info', t) \<and>
      map_entries (phys t) 3 = [entry_bytes 0 0xA0000 1, entry_bytes 0 0x500 2, entry_bytes 0x9FC00 0x400 2]"
    by (auto simp: eval_nat_numeral)
qed

text \<open>
  \<open>hal_find_rsdp\<close> returns the lowest multiple of 16 at which the signature lies and the checksum holds, first
  in the extended BIOS data area up to \<open>0xA0000\<close>, then in the ROM area, and 0 if there is none. The start of the
  data area is its segment times 16 cut to 16 bits, so a data area at a multiple of \<open>0x10000\<close> is never searched.
\<close>
theorem rsdp_lowest:
  assumes "seg = load16 (phys s) 0x40E" "base = 16 * unat seg mod 2 ^ 16"
  shows "hal_find_rsdp s = of_nat
    (let ebda = rsdp_candidates (phys s) base 0xA0000 in
     if base \<noteq> 0 \<and> ebda \<noteq> {} then Min ebda else least_or_0 (rsdp_candidates (phys s) 0xE0000 0xFFFFF))"
proof -
  have b: "unat (push_bit 4 seg) = base"
    by (simp add: assms(2) push_bit_eq_mult unat_word_ariths mult.commute)
  have base: "base < 2 ^ 16" by (simp add: assms(2))
  have word: "ucast (push_bit 4 seg) = (of_nat base :: u64)" unfolding b [symmetric] by (simp only: of_nat_unat)
  have ebda: "search_rsdp (phys s) (ucast (push_bit 4 seg)) 0xA0000 = of_nat (least_or_0 (rsdp_candidates (phys s) base 0xA0000))"
    unfolding word using search_rsdp_least [of base "0xA0000"] base by simp
  have rom: "search_rsdp (phys s) 0xE0000 0xFFFFF = of_nat (least_or_0 (rsdp_candidates (phys s) 0xE0000 0xFFFFF))"
    using search_rsdp_least [of "0xE0000" "0xFFFFF"] by simp
  have zero: "(push_bit 4 seg = 0) = (base = 0)" using b by (metis unat_eq_zero)
  let ?E = "rsdp_candidates (phys s) base 0xA0000"
  have "base \<le> Min ?E \<and> Min ?E < 0xA0000" if "?E \<noteq> {}"
    using Min_in [OF rsdp_candidates_finite that] by (simp add: rsdp_candidates_def)
  moreover have "(of_nat x :: u64) \<noteq> 0" if "0 < x" "x < 0xA0000" for x :: nat
  proof -
    have "unat (of_nat x :: u64) = x" using that by (simp add: unat_of_nat take_bit_eq_mod)
    then show ?thesis using that by force
  qed
  ultimately have "(of_nat (least_or_0 ?E) :: u64) \<noteq> 0 \<longleftrightarrow> ?E \<noteq> {}" if "base \<noteq> 0"
    using that by (cases "?E = {}") (simp_all add: least_or_0_def)
  then show ?thesis
    unfolding hal_find_rsdp_def Let_def assms(1) [symmetric] zero ebda rom by (auto simp: least_or_0_def)
qed

theorem rsdp_lowest_witness: "hal_find_rsdp sample_mem = of_nat (least_or_0 (rsdp_candidates (phys sample_mem) 0xE0000 0xFFFFF))"
proof -
  have "load16 (phys sample_mem) 0x40E = 0"
    by (simp add: sample_mem_def sample_hal_def bios_hal.defs load16_def)
  with rsdp_lowest [of 0 sample_mem 0] show ?thesis by simp
qed

end
