(* ===== verification/BiosFs.thy ===== *)
theory BiosFs
  imports BiosHal
begin

text \<open>
  The file system of the loader for BIOS machines (\<open>fs/fs.c\<close>), FAT32. The boot sector and directory sectors are
  the bytes they are, read at the offsets of their fields; \<open>fat32_bpb\<close> points to the static \<open>disk_buffer\<close> itself. The
  routine that reads sectors returns success without reading anything, so that a buffer keeps what it held; the
  buffer for the directory lies on the stack and starts with whatever is there. Loops along a cluster chain may not
  end and are partial functions.
\<close>

section \<open>State\<close>

record file_handle =
  fh_in_use :: bool
  fh_size :: u64
  fh_position :: u64
  fh_data :: u32

definition FS_TYPE_FAT32 :: u32 where "FS_TYPE_FAT32 = 1"

text \<open>\<open>bpb_set\<close>: \<open>fat32_bpb\<close> is not \<open>NULL\<close> any more.\<close>

record bios_fs = bios_mem +
  fs_initialized :: bool
  fs_type :: u32
  bpb_set :: bool
  fat_table :: u32
  bytes_per_cluster :: u32
  data_start :: u32
  current_file :: file_handle
  file_open :: bool
  disk_buffer :: bytes

text \<open>The field of \<open>n\<close> bytes at offset \<open>off\<close>.\<close>

definition field_at :: "nat \<Rightarrow> nat \<Rightarrow> bytes \<Rightarrow> u32" where
  "field_at off n obj = horner_sum ucast (2 ^ 8) (take n (drop off obj))"

definition bpb_bytes_per_sector :: "bytes \<Rightarrow> u32" where "bpb_bytes_per_sector = field_at 11 2"
definition bpb_sectors_per_cluster :: "bytes \<Rightarrow> u32" where "bpb_sectors_per_cluster = field_at 13 1"
definition bpb_reserved_sectors :: "bytes \<Rightarrow> u32" where "bpb_reserved_sectors = field_at 14 2"
definition bpb_fat_count :: "bytes \<Rightarrow> u32" where "bpb_fat_count = field_at 16 1"
definition bpb_fat_size_32 :: "bytes \<Rightarrow> u32" where "bpb_fat_size_32 = field_at 36 4"
definition bpb_root_cluster :: "bytes \<Rightarrow> u32" where "bpb_root_cluster = field_at 44 4"
definition bpb_signature :: "bytes \<Rightarrow> u32" where "bpb_signature = field_at 510 2"

section \<open>Sectors and clusters\<close>

definition read_disk_sectors :: "u32 \<Rightarrow> u32 \<Rightarrow> 'b \<Rightarrow> bool \<times> 'b" where
  "read_disk_sectors lba n buffer = (True, buffer)"

definition read_disk_sector :: "u32 \<Rightarrow> 'b \<Rightarrow> bool \<times> 'b" where
  "read_disk_sector lba buffer = read_disk_sectors lba 1 buffer"

definition FAT_END :: u32 where "FAT_END = 0x0FFFFFF8"

definition get_fat_entry :: "u32 \<Rightarrow> 'z bios_fs_scheme \<Rightarrow> u32" where
  "get_fat_entry cluster s =
     (if bpb_fat_size_32 (disk_buffer s) * 512 \<le> cluster * 4 then FAT_END
      else ucast (le_load 4 (phys s) (fat_table s + cluster * 4)) AND 0x0FFFFFFF)"

definition cluster_sector :: "u32 \<Rightarrow> 'z bios_fs_scheme \<Rightarrow> u32" where
  "cluster_sector cluster s = data_start s + (cluster - 2) * bpb_sectors_per_cluster (disk_buffer s)"

section \<open>Mounting\<close>

definition fs_init :: "port_env \<Rightarrow> 'z bios_fs_scheme \<Rightarrow> (bool \<times> 'z bios_fs_scheme) outcome" where
  "fs_init env s = (case read_disk_sector 0 (disk_buffer s) of (got, buf) \<Rightarrow>
     let s = s\<lparr>disk_buffer := buf\<rparr> in
     if \<not> got then Ret (False, s)
     else let s = s\<lparr>bpb_set := True\<rparr> in
     if bpb_signature (disk_buffer s) \<noteq> 0xAA55
     then bindR (hal_print env (lit ''ERROR: Invalid boot sector signature\<newline>'') s) (\<lambda>s. Ret (False, s))
     else if bpb_fat_size_32 (disk_buffer s) = 0
     then bindR (hal_print env (lit ''ERROR: Not a FAT32 file system\<newline>'') s) (\<lambda>s. Ret (False, s))
     else let buf = disk_buffer s; fat_start = bpb_reserved_sectors buf; fat_size = bpb_fat_size_32 buf;
              s = s\<lparr>fs_type := FS_TYPE_FAT32,
                bytes_per_cluster := bpb_bytes_per_sector buf * bpb_sectors_per_cluster buf,
                data_start := fat_start + bpb_fat_count buf * fat_size + 0\<rparr> in
     case read_disk_sector fat_start (disk_buffer s) of (got, buf) \<Rightarrow>
     let s = s\<lparr>disk_buffer := buf\<rparr> in
     if \<not> got then Ret (False, s)
     else let s = s\<lparr>fat_table := 0x80000\<rparr> in
     case read_disk_sectors fat_start (bpb_fat_size_32 (disk_buffer s)) (phys s) of (got, m) \<Rightarrow>
     let s = s\<lparr>phys := m\<rparr> in
     if \<not> got then Ret (False, s)
     else bindR (say env [PStr ''FAT32 file system initialized\<newline>'', PStr ''  Cluster size: '',
         PDec (ucast (bytes_per_cluster s)), PStr '' bytes\<newline>''] (s\<lparr>fs_initialized := True\<rparr>)) (\<lambda>s. Ret (True, s)))"

section \<open>Finding a file\<close>

definition fat_toupper :: "u8 \<Rightarrow> u8" where
  "fat_toupper c = (if 97 \<le> c \<and> c \<le> 122 then c - 97 + 65 else c)"

text \<open>The index behind the first \<open>/\<close>, or of the terminator.\<close>

function skip_slash :: "nat \<Rightarrow> bytes \<Rightarrow> nat outcome" where
  "skip_slash i str = (if i < length str then
      if str ! i = 0 then Ret i else if str ! i = 47 then Ret (Suc i) else skip_slash (Suc i) str
    else Fault)"
  by pat_completeness auto
termination by (relation "measure (\<lambda>(i, str). length str - i)") auto

declare skip_slash.simps [simp del]

text \<open>The loops that copy the name and the extension: \<open>k\<close> characters so far, at most
  \<open>limit\<close>; \<open>dot\<close> tells whether a dot ends it.\<close>

function name_loop :: "bool \<Rightarrow> nat \<Rightarrow> nat \<Rightarrow> nat \<Rightarrow> nat \<Rightarrow> bytes \<Rightarrow> bytes \<Rightarrow> (nat \<times> bytes) outcome" where
  "name_loop dot base limit k i str name =
     (if i < length str then
        if str ! i = 0 \<or> (dot \<and> str ! i = 46) \<or> limit \<le> k then Ret (i, name)
        else name_loop dot base limit (Suc k) (Suc i) str (name[base + k := fat_toupper (str ! i)])
      else Fault)"
  by pat_completeness auto
termination by (relation "measure (\<lambda>(dot, base, limit, k, i, str, name). length str - i)") auto

declare name_loop.simps [simp del]

definition short_name :: "bytes \<Rightarrow> bytes outcome" where
  "short_name str =
     bindR (skip_slash 0 str) (\<lambda>i.
     bindR (bios_memset (replicate 11 0) 32 11) (\<lambda>name.
     bindR (name_loop True 0 8 0 i str name) (\<lambda>(i, name).
     if str ! i = 46
     then bindR (name_loop False 8 3 0 (Suc i) str name) (\<lambda>(i, name). Ret name)
     else Ret name)))"

text \<open>Entry \<open>i\<close> of a directory sector.\<close>

definition dentry :: "bytes \<Rightarrow> nat \<Rightarrow> bytes" where "dentry buf i = take 32 (drop (32 * i) buf)"

definition de_name :: "bytes \<Rightarrow> bytes" where "de_name e = take 11 e"
definition de_attributes :: "bytes \<Rightarrow> u32" where "de_attributes = field_at 11 1"
definition de_cluster_high :: "bytes \<Rightarrow> u32" where "de_cluster_high = field_at 20 2"
definition de_cluster_low :: "bytes \<Rightarrow> u32" where "de_cluster_low = field_at 26 2"
definition de_file_size :: "bytes \<Rightarrow> u32" where "de_file_size = field_at 28 4"

text \<open>The loop over the entries of a sector; an entry whose name starts with 0 ends it.\<close>

function scan_sector :: "bytes \<Rightarrow> bytes \<Rightarrow> nat \<Rightarrow> bytes option" where
  "scan_sector buf name i =
     (if i < 16 then
        let e = dentry buf i in
        if e ! 0 = 0 then None
        else if e ! 0 = 0xE5 \<or> de_attributes e AND 0x10 \<noteq> 0 then scan_sector buf name (Suc i)
        else if bios_memcmp (de_name e) name 11 = Ret 0 then Some e
        else scan_sector buf name (Suc i)
      else None)"
  by pat_completeness auto
termination by (relation "measure (\<lambda>(buf, name, i). 16 - i)") auto

declare scan_sector.simps [simp del]

text \<open>The loop that reads the clusters of the file to \<open>buffer\<close>: whether every read succeeded.\<close>

partial_function (option) load_clusters ::
  "u32 \<Rightarrow> u32 \<Rightarrow> u64 \<Rightarrow> 'z bios_fs_scheme \<Rightarrow> (bool \<times> 'z bios_fs_scheme) option" where
  "load_clusters buffer cluster nread s =
     (if cluster < FAT_END \<and> nread < fh_size (current_file s)
      then case read_disk_sectors (cluster_sector cluster s) (bpb_sectors_per_cluster (disk_buffer s)) (phys s) of
        (got, m) \<Rightarrow>
          let s = s\<lparr>phys := m\<rparr>; fsize = fh_size (current_file s); n = ucast (bytes_per_cluster s) :: u64;
              n = (if fsize < nread + n then fsize - nread else n) in
          if \<not> got then Some (False, s)
          else load_clusters (buffer + ucast n) (get_fat_entry cluster s) (nread + n) s
      else Some (True, s))"

partial_function (option) find_loop ::
  "bytes \<Rightarrow> bytes \<Rightarrow> u32 \<Rightarrow> 'z bios_fs_scheme \<Rightarrow> (bool \<times> 'z bios_fs_scheme) option" where
  "find_loop name dir_buffer cluster s =
     (if cluster < FAT_END
      then case read_disk_sector (cluster_sector cluster s) dir_buffer of (got, buf) \<Rightarrow>
        if \<not> got then Some (False, s)
        else (case scan_sector buf name 0 of
            None \<Rightarrow> find_loop name buf (get_fat_entry cluster s) s
          | Some e \<Rightarrow> load_clusters 0x90000 (push_bit 16 (de_cluster_high e) OR de_cluster_low e) 0
              (s\<lparr>current_file := (current_file s)\<lparr>fh_size := ucast (de_file_size e), fh_in_use := True,
                 fh_data := 0x90000\<rparr>\<rparr>))
      else Some (False, s))"

definition find_file :: "bytes \<Rightarrow> bytes \<Rightarrow> 'z bios_fs_scheme \<Rightarrow> (bool \<times> 'z bios_fs_scheme) outcome" where
  "find_file junk str s =
     bindR (short_name str) (\<lambda>name.
     if \<not> bpb_set s then Fault
     else case find_loop name junk (bpb_root_cluster (disk_buffer s)) s of None \<Rightarrow> Hang | Some r \<Rightarrow> Ret r)"

section \<open>Files\<close>

definition fs_open :: "port_env \<Rightarrow> bytes \<Rightarrow> bytes \<Rightarrow> 'z bios_fs_scheme \<Rightarrow> (bool \<times> 'z bios_fs_scheme) outcome" where
  "fs_open env junk str s =
     (if \<not> fs_initialized s then Ret (False, s)
      else bindR (find_file junk str s) (\<lambda>(found, s).
        if \<not> found then Ret (False, s)
        else let s = s\<lparr>file_open := True, current_file := (current_file s)\<lparr>fh_position := 0\<rparr>\<rparr> in
          bindR (say env [PStr ''File opened: '', PBytes str, PStr '' ('', PDec (fh_size (current_file s)),
            PStr '' bytes)\<newline>''] s) (\<lambda>s. Ret (True, s))))"

definition fs_close :: "u32 \<Rightarrow> 'z bios_fs_scheme \<Rightarrow> 'z bios_fs_scheme" where
  "fs_close fd s = s\<lparr>file_open := False, current_file := (current_file s)\<lparr>fh_in_use := False\<rparr>\<rparr>"

text \<open>\<open>memcpy\<close> within memory, byte by byte from the front.\<close>

definition phys_memcpy :: "u32 \<Rightarrow> u32 \<Rightarrow> u32 \<Rightarrow> phys_mem \<Rightarrow> phys_mem" where
  "phys_memcpy dst src sz m = fold (\<lambda>i m. m(dst + of_nat i := m (src + of_nat i))) [0..<unat sz] m"

text \<open>
  The result, the number of bytes as it is stored in \<open>*bytes_read\<close> and, where \<open>buffer\<close> is an object of the caller
  (\<open>None\<close>), the bytes \<open>memcpy\<close> stores in it; \<open>Some a\<close> is a buffer at address \<open>a\<close>. Without an open file nothing is
  stored.
\<close>

definition fs_read :: "u32 option \<Rightarrow> u64 \<Rightarrow> 'z bios_fs_scheme \<Rightarrow> bool \<times> (u64 \<times> bytes) option \<times> 'z bios_fs_scheme" where
  "fs_read buffer sz s =
     (if \<not> file_open s then (False, None, s)
      else let f = current_file s; remaining = fh_size f - fh_position f;
               to_read = (if sz < remaining then sz else remaining);
               src = fh_data f + ucast (fh_position f); n = ucast to_read :: u32;
               s' = s\<lparr>current_file := f\<lparr>fh_position := fh_position f + to_read\<rparr>\<rparr> in
        case buffer of
          None \<Rightarrow> (0 < to_read, Some (to_read, phys_bytes (phys s) src (unat n)), s')
        | Some a \<Rightarrow> (0 < to_read, Some (to_read, []), s'\<lparr>phys := phys_memcpy a src n (phys s)\<rparr>))"

definition fs_seek :: "u64 \<Rightarrow> 'z bios_fs_scheme \<Rightarrow> bool \<times> 'z bios_fs_scheme" where
  "fs_seek offset s =
     (if \<not> file_open s then (False, s)
      else let f = current_file s; offset = (if fh_size f < offset then fh_size f else offset) in
        (True, s\<lparr>current_file := f\<lparr>fh_position := offset\<rparr>\<rparr>))"

definition fs_get_size :: "'z bios_fs_scheme \<Rightarrow> u64" where
  "fs_get_size s = (if \<not> file_open s then 0 else fh_size (current_file s))"

definition fs_get_position :: "'z bios_fs_scheme \<Rightarrow> u64" where
  "fs_get_position s = (if \<not> file_open s then 0 else fh_position (current_file s))"

text \<open>\<open>None\<close> is a \<open>NULL\<close> buffer.\<close>

definition fs_list_dir :: "bytes option \<Rightarrow> u64 \<Rightarrow> (bool \<times> bytes option) outcome" where
  "fs_list_dir buffer sz = (case buffer of
     Some b \<Rightarrow> if 0 < sz then bindR (if 0 < length b then Ret (b[0 := 0]) else Fault) (\<lambda>b. Ret (False, Some b)) else Ret (False, Some b)
   | None \<Rightarrow> Ret (False, None))"

section \<open>A mount that cannot succeed\<close>

lemma field_at_zeros: "field_at off n (replicate k 0) = 0"
proof -
  have "horner_sum ucast (2 ^ 8) (replicate j (0 :: u8)) = (0 :: u32)" for j by (induction j) simp_all
  then show ?thesis by (simp add: field_at_def)
qed

lemma fs_init_zeros:
  assumes "serial_ready env" "console_ok s" "disk_buffer s = replicate 512 0"
  shows "\<exists>t. fs_init env s = Ret (False, t) \<and> console_step (s\<lparr>bpb_set := True\<rparr>) t"
proof -
  have "console_ok (s\<lparr>bpb_set := True\<rparr>)" using assms(2) by (simp add: console_ok_def)
  from hal_print_lit_ok [OF assms(1) _ this, of "''ERROR: Invalid boot sector signature\<newline>''"]
  obtain t where "hal_print env (lit ''ERROR: Invalid boot sector signature\<newline>'') (s\<lparr>bpb_set := True\<rparr>) = Ret t"
    "console_step (s\<lparr>bpb_set := True\<rparr>) t" by auto
  moreover have "bpb_signature (disk_buffer s) = 0" by (simp add: bpb_signature_def assms(3) field_at_zeros)
  ultimately show ?thesis by (simp add: fs_init_def read_disk_sector_def read_disk_sectors_def Let_def)
qed

section \<open>Short names\<close>

lemma skip_slash_found:
  "0 \<notin> set pre \<Longrightarrow> 47 \<notin> set pre \<Longrightarrow> skip_slash (length a) (a @ pre @ 47 # rest) = Ret (length a + length pre + 1)"
proof (induction pre arbitrary: a)
  case Nil
  then show ?case by (subst skip_slash.simps) simp
next
  case (Cons c pre)
  with Cons.IH [of "a @ [c]"] show ?case by (subst skip_slash.simps) (auto simp: nth_append)
qed

lemma skip_slash_none:
  "0 \<notin> set pre \<Longrightarrow> 47 \<notin> set pre \<Longrightarrow> skip_slash (length a) (a @ pre @ 0 # rest) = Ret (length a + length pre)"
proof (induction pre arbitrary: a)
  case Nil
  then show ?case by (subst skip_slash.simps) simp
next
  case (Cons c pre)
  with Cons.IH [of "a @ [c]"] show ?case by (subst skip_slash.simps) (auto simp: nth_append)
qed

text \<open>The characters \<open>w\<close> are copied, and the loop stops at what follows them.\<close>

lemma name_loop_copies:
  assumes "rest \<noteq> []" "k + length w \<le> limit" "hd rest = 0 \<or> (dot \<and> hd rest = 46) \<or> limit \<le> k + length w"
    and "0 \<notin> set w" "dot \<Longrightarrow> 46 \<notin> set w" "length p = base + k" "length w \<le> length q"
  shows "name_loop dot base limit k (length a) (a @ w @ rest) (p @ q) =
    Ret (length a + length w, p @ map fat_toupper w @ drop (length w) q)"
  using assms
proof (induction w arbitrary: a k p q)
  case Nil
  then show ?case by (cases rest) (auto simp: name_loop.simps [of dot base limit k "length a"] nth_append)
next
  case (Cons c w)
  obtain x q' where q: "q = x # q'" using Cons.prems(7) by (cases q) auto
  have "name_loop dot base limit k (length a) (a @ (c # w) @ rest) (p @ q) =
      name_loop dot base limit (Suc k) (length (a @ [c])) ((a @ [c]) @ w @ rest) ((p @ [fat_toupper c]) @ q')"
    using Cons.prems by (subst name_loop.simps) (auto simp: q nth_append list_update_append)
  also have "\<dots> = Ret (length (a @ [c]) + length w, (p @ [fat_toupper c]) @ map fat_toupper w @ drop (length w) q')"
    by (rule Cons.IH) (use Cons.prems in \<open>auto simp: q\<close>)
  finally show ?case by (simp add: q)
qed

lemma memset_spaces: "bios_memset (replicate 11 0) 32 11 = Ret (replicate 11 32)"
  using memset_loop_eq [of 0 11 "replicate 11 0" 32] by (simp add: bios_memset_def)

definition pad_name :: "nat \<Rightarrow> bytes \<Rightarrow> bytes" where
  "pad_name n w = map fat_toupper w @ replicate (n - length w) 32"

lemma short_name_plain:
  assumes "0 \<notin> set pre" "47 \<notin> set pre" "0 \<notin> set w" "46 \<notin> set w" "length w \<le> 8" "0 \<notin> set ext" "length ext \<le> 3"
  shows "short_name (pre @ 47 # w @ 46 # ext @ [0]) = Ret (pad_name 8 w @ pad_name 3 ext)"
proof -
  let ?str = "pre @ 47 # w @ 46 # ext @ [0]"
  have skip: "skip_slash 0 ?str = Ret (length (pre @ [47]))"
    using skip_slash_found [OF assms(1,2), of "[]" "w @ 46 # ext @ [0]"] by simp
  have name: "name_loop True 0 8 0 (length (pre @ [47])) ((pre @ [47]) @ w @ 46 # ext @ [0]) ([] @ replicate 11 32) =
      Ret (length (pre @ [47]) + length w, [] @ map fat_toupper w @ drop (length w) (replicate 11 32))"
    by (rule name_loop_copies) (use assms in auto)
  have split: "map fat_toupper w @ drop (length w) (replicate 11 32) = pad_name 8 w @ replicate 3 32"
  proof -
    have "11 - length w = (8 - length w) + 3" using assms(5) by simp
    then show ?thesis by (simp only: drop_replicate pad_name_def append_assoc replicate_add)
  qed
  have ext: "name_loop False 8 3 0 (length (pre @ 47 # w @ [46])) ((pre @ 47 # w @ [46]) @ ext @ [0]) (pad_name 8 w @ replicate 3 32) =
      Ret (length (pre @ 47 # w @ [46]) + length ext, pad_name 8 w @ map fat_toupper ext @ drop (length ext) (replicate 3 32))"
    by (rule name_loop_copies) (use assms in \<open>auto simp: pad_name_def\<close>)
  have dot: "?str ! (length (pre @ [47]) + length w) = 46" by (simp add: nth_append)
  show ?thesis
    unfolding short_name_def skip bindR.simps memset_spaces
    using name split ext dot by (simp add: pad_name_def)
qed

lemma short_name_no_slash:
  assumes "0 \<notin> set w" "47 \<notin> set w"
  shows "short_name (w @ [0]) = Ret (replicate 11 32)"
proof -
  have "skip_slash 0 (w @ [0]) = Ret (length w)" using skip_slash_none [OF assms, of "[]" "[]"] by simp
  moreover have "name_loop True 0 8 0 (length w) (w @ [] @ [0]) ([] @ replicate 11 32) =
      Ret (length w + length ([] :: bytes), [] @ map fat_toupper [] @ drop (length ([] :: bytes)) (replicate 11 32))"
    by (rule name_loop_copies) simp_all
  ultimately show ?thesis by (simp add: short_name_def memset_spaces nth_append)
qed

section \<open>The contract of a file that is read\<close>

text \<open>A sequence of reads; the bytes of all of them.\<close>

primrec read_all :: "(u64 \<Rightarrow> 's \<Rightarrow> bool \<times> (u64 \<times> bytes) option \<times> 's) \<Rightarrow> u64 list \<Rightarrow> 's \<Rightarrow> bytes \<times> 's" where
  "read_all rd [] s = ([], s)"
| "read_all rd (n # ns) s = (case rd n s of (_, r, t) \<Rightarrow> case read_all rd ns t of (bs, u) \<Rightarrow>
     ((case r of None \<Rightarrow> [] | Some (_, b) \<Rightarrow> b) @ bs, u))"

text \<open>\<open>view s\<close> is the contents of the open file and the position in it.\<close>

locale file_reader =
  fixes view :: "'s \<Rightarrow> (bytes \<times> nat) option"
    and rd :: "u64 \<Rightarrow> 's \<Rightarrow> bool \<times> (u64 \<times> bytes) option \<times> 's"
    and seek :: "u64 \<Rightarrow> 's \<Rightarrow> bool \<times> 's"
  assumes rd_law: "view s = Some (c, p) \<Longrightarrow> k = min (unat n) (length c - p) \<Longrightarrow>
      \<exists>t. rd n s = (0 < k, Some (of_nat k, take k (drop p c)), t) \<and> view t = Some (c, p + k)"
    and seek_law: "view s = Some (c, p) \<Longrightarrow> \<exists>t. seek n s = (True, t) \<and> view t = Some (c, min (unat n) (length c))"
    and view_inside: "view s = Some (c, p) \<Longrightarrow> p \<le> length c"
begin

lemma read_all_stream:
  "view s = Some (c, p) \<Longrightarrow>
   \<exists>t. read_all rd ns s = (take (sum_list (map unat ns)) (drop p c), t) \<and>
     view t = Some (c, min (p + sum_list (map unat ns)) (length c))"
proof (induction ns arbitrary: s p)
  case Nil
  then show ?case using view_inside by simp
next
  case (Cons n ns)
  define k where "k = min (unat n) (length c - p)"
  obtain t where t: "rd n s = (0 < k, Some (of_nat k, take k (drop p c)), t)" "view t = Some (c, p + k)"
    using rd_law [OF Cons.prems k_def] by blast
  obtain u where u: "read_all rd ns t = (take (sum_list (map unat ns)) (drop (p + k) c), u)"
    "view u = Some (c, min (p + k + sum_list (map unat ns)) (length c))" using Cons.IH [OF t(2)] by blast
  have p: "p \<le> length c" by (rule view_inside [OF Cons.prems])
  have "take k (drop p c) @ take (sum_list (map unat ns)) (drop (p + k) c) = take (unat n + sum_list (map unat ns)) (drop p c)"
  proof (cases "unat n \<le> length c - p")
    case True
    then show ?thesis by (simp add: k_def take_add add.commute)
  next
    case False
    then show ?thesis by (simp add: k_def)
  qed
  moreover have "min (p + k + sum_list (map unat ns)) (length c) = min (p + (unat n + sum_list (map unat ns))) (length c)"
    using p by (auto simp: k_def min_def)
  ultimately show ?case using t(1) u by simp
qed

lemma read_from:
  assumes "view s = Some (c, p)"
  shows "\<exists>t u. seek n s = (True, t) \<and> read_all rd ns t = (take (sum_list (map unat ns)) (drop (unat n) c), u)"
proof -
  obtain t where t: "seek n s = (True, t)" "view t = Some (c, min (unat n) (length c))" using seek_law [OF assms] by blast
  have "drop (min (unat n) (length c)) c = drop (unat n) c" by (simp add: min_def)
  then show ?thesis using t(1) read_all_stream [OF t(2), of ns] by auto
qed

end

text \<open>The file the loader has open, while its position is inside it; a FAT file is shorter than \<open>2^32\<close> bytes.\<close>

definition file_view :: "'z bios_fs_scheme \<Rightarrow> (bytes \<times> nat) option" where
  "file_view s =
     (let f = current_file s in
      if file_open s \<and> fh_position f \<le> fh_size f \<and> unat (fh_size f) < 2 ^ 32
      then Some (phys_bytes (phys s) (fh_data f) (unat (fh_size f)), unat (fh_position f)) else None)"

lemma phys_bytes_slice:
  "k \<le> n - p \<Longrightarrow> p \<le> n \<Longrightarrow> take k (drop p (phys_bytes m a n)) = phys_bytes m (a + of_nat p) k"
proof (rule nth_equalityI)
  fix i
  assume k: "k \<le> n - p" "p \<le> n" and "i < length (take k (drop p (phys_bytes m a n)))"
  then have "i < k" "[0..<n] ! (p + i) = p + i" by (simp_all add: nth_upt)
  with k show "take k (drop p (phys_bytes m a n)) ! i = phys_bytes m (a + of_nat p) k ! i"
    by (simp add: phys_bytes_def add.assoc)
qed simp

lemma fs_read_law:
  assumes "file_view s = Some (c, p)" "k = min (unat n) (length c - p)"
  shows "\<exists>t. fs_read None n s = (0 < k, Some (of_nat k, take k (drop p c)), t) \<and> file_view t = Some (c, p + k)"
proof -
  define f where "f = current_file s"
  have f: "file_open s" "fh_position f \<le> fh_size f" "unat (fh_size f) < 2 ^ 32"
    "c = phys_bytes (phys s) (fh_data f) (unat (fh_size f))" "p = unat (fh_position f)"
    using assms(1) by (auto simp: file_view_def Let_def f_def split: if_splits)
  have sub: "unat (fh_size f - fh_position f) = unat (fh_size f) - p"
    unfolding f(5) using f(2) by (simp add: unat_sub word_le_nat_alt)
  define r where "r = (if n < fh_size f - fh_position f then n else fh_size f - fh_position f)"
  have r: "unat r = k" using f(4) sub by (auto simp: r_def assms(2) word_less_nat_alt min_def)
  have k: "k \<le> unat (fh_size f) - p" "k < 2 ^ 32" using assms(2) f(3,4) by simp_all
  have "unat (ucast r :: u32) = k" using r k(2) by (simp add: unsigned_ucast_eq take_bit_eq_mod)
  moreover have "phys_bytes (phys s) (fh_data f + ucast (fh_position f)) k = take k (drop p c)"
    using phys_bytes_slice [of k "unat (fh_size f)" p "phys s" "fh_data f"] k f(2)
    by (simp add: f(4) f(5) word_le_nat_alt)
  moreover have "r = of_nat k" "(0 < r) = (0 < k)" using r by (auto simp: word_less_nat_alt)
  ultimately have "fs_read None n s = (0 < k, Some (of_nat k, take k (drop p c)),
      s\<lparr>current_file := f\<lparr>fh_position := fh_position f + r\<rparr>\<rparr>)"
    using f(1) unfolding fs_read_def Let_def f_def [symmetric] r_def [symmetric] by simp
  moreover have "unat (fh_position f + r) = p + k"
  proof -
    have "unat (fh_position f) \<le> unat (fh_size f)" using f(2) by (simp add: word_le_nat_alt)
    then have "unat (fh_position f) + k < 2 ^ 64" using k f(3) by simp
    then show ?thesis by (simp add: unat_word_ariths r f(5))
  qed
  ultimately show ?thesis using f k by (auto simp: file_view_def Let_def word_le_nat_alt)
qed

lemma fs_seek_law:
  "file_view s = Some (c, p) \<Longrightarrow> \<exists>t. fs_seek n s = (True, t) \<and> file_view t = Some (c, min (unat n) (length c))"
  by (auto simp: file_view_def fs_seek_def Let_def min_def word_le_nat_alt word_less_nat_alt split: if_splits)

lemma file_view_inside: "file_view s = Some (c, p) \<Longrightarrow> p \<le> length c"
  by (auto simp: file_view_def Let_def word_le_nat_alt split: if_splits)

interpretation bios_file: file_reader file_view "fs_read None" fs_seek
  by unfold_locales (rule fs_read_law, assumption+, rule fs_seek_law, assumption, rule file_view_inside)

section \<open>Copying within memory\<close>

text \<open>A copy to a higher address repeats the first bytes if the regions overlap.\<close>

lemma phys_memcpy_repeats:
  fixes src :: u32 and m :: phys_mem
  assumes "0 < d" "unat src + d + n \<le> 2 ^ 32"
  shows "fold (\<lambda>i m. m(src + of_nat d + of_nat i := m (src + of_nat i))) [0..<n] m x =
    (if unat src + d \<le> unat x \<and> unat x < unat src + d + n then m (src + of_nat ((unat x - (unat src + d)) mod d)) else m x)"
  using assms(2)
proof (induction n arbitrary: x)
  case 0
  then show ?case by auto
next
  case (Suc n)
  have addr: "unat (src + of_nat k) = unat src + k" if "k < d + Suc n" for k
    using that Suc.prems by (simp add: unat_word_ariths unat_of_nat take_bit_eq_mod)
  define M where "M = fold (\<lambda>i m. m(src + of_nat d + of_nat i := m (src + of_nat i))) [0..<n] m"
  have IH: "M y = (if unat src + d \<le> unat y \<and> unat y < unat src + d + n
      then m (src + of_nat ((unat y - (unat src + d)) mod d)) else m y)" for y
    unfolding M_def by (rule Suc.IH) (use Suc.prems in simp)
  have fold: "fold (\<lambda>i m. m(src + of_nat d + of_nat i := m (src + of_nat i))) [0..<Suc n] m =
      M(src + of_nat (d + n) := M (src + of_nat n))" unfolding M_def by (simp add: add.assoc)
  have val: "M (src + of_nat n) = m (src + of_nat (n mod d))"
  proof (cases "n < d")
    case True
    then show ?thesis by (simp add: IH addr)
  next
    case False
    then have "n mod d = (n - d) mod d" by (simp add: le_mod_geq)
    with False show ?thesis by (simp add: IH addr assms(1))
  qed
  show ?case
  proof (cases "x = src + of_nat (d + n)")
    case True
    then have "unat x = unat src + (d + n)" using addr [of "d + n"] by simp
    then show ?thesis unfolding fold using val True by simp
  next
    case False
    then have "unat x \<noteq> unat src + (d + n)" using addr [of "d + n"] by (metis lessI add_Suc_right word_unat_eq_iff)
    then show ?thesis unfolding fold using False by (auto simp: IH simp del: of_nat_add)
  qed
qed

section \<open>Properties\<close>

text \<open>
  C30. An open file reads like the string of its bytes: whatever the sizes, reads that follow each other deliver the
  bytes from the position on, none twice and none left out, until the end of the file, and a seek moves the position
  to the given offset, or to the end of the file for an offset behind it.
\<close>
theorem fs_reads_file:
  assumes "file_view s = Some (c, p)"
  shows "(\<exists>t. read_all (fs_read None) ns s = (take (sum_list (map unat ns)) (drop p c), t) \<and>
      file_view t = Some (c, min (p + sum_list (map unat ns)) (length c))) \<and>
    (\<exists>t u. fs_seek n s = (True, t) \<and> read_all (fs_read None) ns t = (take (sum_list (map unat ns)) (drop (unat n) c), u))"
  by (intro conjI bios_file.read_all_stream [OF assms] bios_file.read_from [OF assms])

definition sample_fs :: bios_fs where
  "sample_fs = bios_mem.extend sample_mem \<lparr>fs_initialized = True, fs_type = 1, bpb_set = True, fat_table = 0x80000,
     bytes_per_cluster = 512, data_start = 8, current_file = \<lparr>fh_in_use = True, fh_size = 5, fh_position = 1,
       fh_data = 0x90000\<rparr>, file_open = True, disk_buffer = []\<rparr>"

lemma sample_fs_view: "file_view sample_fs = Some (replicate 5 0, 1)"
  by (simp add: file_view_def sample_fs_def sample_mem_def sample_hal_def bios_mem.defs bios_hal.defs phys_bytes_def
      map_replicate_const)

theorem fs_reads_file_witness: "\<exists>t. read_all (fs_read None) [1, 2, 9] sample_fs = (replicate 4 0, t)"
  using fs_reads_file [OF sample_fs_view, of "[1, 2, 9]"] by auto

text \<open>
  The name looked for in a directory: of the path, what follows the first slash, in capitals and padded to 8
  and 3 characters. A path without a slash gives the empty name; only the first component is cut off, so the path
  of the kernel, \<open>/HIK/kernel.hik\<close>, gives a name with a slash in it, which no file can have.
\<close>
theorem fat_name_of_path:
  assumes "0 \<notin> set pre" "47 \<notin> set pre" "0 \<notin> set w" "46 \<notin> set w" "length w \<le> 8" "0 \<notin> set ext" "length ext \<le> 3"
  shows "short_name (pre @ 47 # w @ 46 # ext @ [0]) =
      Ret (map fat_toupper w @ replicate (8 - length w) 32 @ map fat_toupper ext @ replicate (3 - length ext) 32) \<and>
    short_name (pre @ [0]) = Ret (replicate 11 32) \<and>
    short_name (lit ''/HIK/kernel.hik'') = Ret (map of_char ''HIK/KERN   '')"
proof -
  have "short_name (lit ''/HIK/kernel.hik'') = Ret (map of_char ''HIK/KERN   '')" by code_simp
  then show ?thesis
    using short_name_plain [OF assms] short_name_no_slash [OF assms(1,2)] by (simp add: pad_name_def)
qed

theorem fat_name_of_path_witness: "short_name (lit ''/boot.cfg'') = Ret (map of_char ''BOOT    CFG'')"
proof -
  have "short_name ([] @ 47 # [98, 111, 111, 116] @ 46 # [99, 102, 103] @ [0]) =
      Ret (map fat_toupper [98, 111, 111, 116] @ replicate (8 - length [98, 111, 111, 116 :: u8]) 32 @
        map fat_toupper [99, 102, 103] @ replicate (3 - length [99, 102, 103 :: u8]) 32)"
    by (rule fat_name_of_path [THEN conjunct1]) simp_all
  also have "map fat_toupper [98, 111, 111, 116] @ replicate (8 - length [98, 111, 111, 116 :: u8]) 32 @
      map fat_toupper [99, 102, 103] @ replicate (3 - length [99, 102, 103 :: u8]) 32 = map of_char ''BOOT    CFG''"
    by code_simp
  finally show ?thesis by (simp add: lit_def)
qed

end
