(* ===== verification/BiosSecurity.thy ===== *)
theory BiosSecurity
  imports Sha384 BiosFs
begin

text \<open>
  The hash of the loader for BIOS machines (\<open>security/sha384.c\<close>), its signature check (\<open>security/rsa.c\<close>) and the
  verification of the kernel (\<open>security/verify.c\<close>). The tables of constants have the values of the UEFI loader
  (theory \<open>Sha384\<close>, whose contract \<open>hash_stream\<close> the update meets); the state has 6 words instead of 8.
\<close>

section \<open>The hash\<close>

definition bios_H0 :: "u64 list" where "bios_H0 = take 6 SHA_H0"

text \<open>The transformation starts its variables \<open>g\<close> and \<open>h\<close> with the last word of the state.\<close>

definition bios_compress :: "u64 list \<Rightarrow> bytes \<Rightarrow> u64 list" where
  "bios_compress st block = (case sha_rounds (schedule block)
       (st ! 0, st ! 1, st ! 2, st ! 3, st ! 4, st ! 5, st ! 5, st ! 5) of
     (a, b, c, d, e, f, g, h) \<Rightarrow> [st ! 0 + a, st ! 1 + b, st ! 2 + c, st ! 3 + d, st ! 4 + e, st ! 5 + f])"

definition sha384_transform :: "bytes \<Rightarrow> u64 \<Rightarrow> sha384_ctx \<Rightarrow> sha384_ctx outcome" where
  "sha384_transform = transform_at bios_compress"

definition sha384_init :: "sha384_ctx \<Rightarrow> sha384_ctx outcome" where
  "sha384_init ctx =
     bindR (bios_memset (sha_buffer ctx) 0 128) (\<lambda>buf.
     Ret (ctx\<lparr>sha_count0 := 0, sha_count1 := 0, sha_state := bios_H0, sha_buffer := buf\<rparr>))"

text \<open>\<open>memcpy\<close> takes its size as a \<open>uint32_t\<close>.\<close>

definition sha384_update :: "bytes \<Rightarrow> u64 \<Rightarrow> sha384_ctx \<Rightarrow> sha384_ctx outcome" where
  "sha384_update dat len ctx =
     (let index = drop_bit 3 (sha_count0 ctx) AND 0x7F;
          c = sha_count0 ctx + push_bit 3 len;
          ctx = ctx\<lparr>sha_count0 := c,
            sha_count1 := sha_count1 ctx + (if c < push_bit 3 len then 1 else 0) + drop_bit 29 len\<rparr>;
          part_len = 128 - index in
      bindR (if part_len \<le> len
             then bindR (memcpy_at (unat (ucast part_len :: u32)) (unat index) 0 (sha_buffer ctx) dat) (\<lambda>buf.
               bindR (sha384_transform buf 0 (ctx\<lparr>sha_buffer := buf\<rparr>)) (\<lambda>ctx.
               bindR (transform_loop bios_compress dat len part_len ctx) (\<lambda>(i, ctx). Ret (0, i, ctx))))
             else Ret (index, 0, ctx)) (\<lambda>(index, i, ctx).
      bindR (memcpy_at (unat (ucast (len - i) :: u32)) (unat index) (unat i) (sha_buffer ctx) dat) (\<lambda>buf.
      Ret (ctx\<lparr>sha_buffer := buf\<rparr>))))"

primrec sha384_zeros :: "nat \<Rightarrow> sha384_ctx \<Rightarrow> sha384_ctx outcome" where
  "sha384_zeros 0 ctx = Ret ctx"
| "sha384_zeros (Suc n) ctx = bindR (sha384_update [0x00, 0] 1 ctx) (sha384_zeros n)"

definition sha384_final :: "sha384_ctx \<Rightarrow> (bytes \<times> sha384_ctx) outcome" where
  "sha384_final ctx =
     (let bits = be_bytes (sha_count1 ctx) @ be_bytes (sha_count0 ctx);
          index = drop_bit 3 (sha_count0 ctx) AND 0x7F;
          pad_len = (if index < 112 then 112 - index else 240 - index) in
      bindR (sha384_update [0x80, 0] 1 ctx) (\<lambda>ctx.
      bindR (sha384_zeros (unat pad_len) ctx) (\<lambda>ctx.
      bindR (sha384_update bits 16 ctx) (\<lambda>ctx.
      Ret (concat (map be_bytes (sha_state ctx)), ctx)))))"

section \<open>The signature check\<close>

definition RSA_KEY_SIZE :: nat where "RSA_KEY_SIZE = 384"

definition sizeof_header :: nat where "sizeof_header = 120"
definition KERNEL_LOAD_ADDR :: u32 where "KERNEL_LOAD_ADDR = 0x100000"

text \<open>\<open>kernel_header\<close> is the 120 bytes of the structure.\<close>

record bios_boot = bios_fs +
  stage2_info :: hik_boot_info
  kernel_header :: bytes
  verify_enabled :: bool
  verify_initialized :: bool
  bios_public_key :: bytes
  rsa_modulus :: bytes

definition rsa_init :: "'z bios_boot_scheme \<Rightarrow> (bool \<times> 'z bios_boot_scheme) outcome" where
  "rsa_init s = bindR (bios_memset (rsa_modulus s) 0xAA (of_nat RSA_KEY_SIZE)) (\<lambda>m. Ret (True, s\<lparr>rsa_modulus := m\<rparr>))"

definition rsa_verify_sha384 ::
  "bytes \<Rightarrow> bytes \<Rightarrow> bytes \<Rightarrow> 'z bios_boot_scheme \<Rightarrow> (bool \<times> 'z bios_boot_scheme) outcome" where
  "rsa_verify_sha384 hash signature key s =
     bindR (bios_memcpy (rsa_modulus s) key (of_nat RSA_KEY_SIZE)) (\<lambda>m. Ret (True, s\<lparr>rsa_modulus := m\<rparr>))"

definition modexp :: "bytes \<Rightarrow> bytes \<Rightarrow> bytes \<Rightarrow> bytes \<Rightarrow> bytes outcome" where
  "modexp base ex md result = bios_memset result 0 (of_nat RSA_KEY_SIZE)"

section \<open>Verification of the kernel\<close>

text \<open>A field of the header, and those the loader uses.\<close>

definition header_field :: "nat \<Rightarrow> nat \<Rightarrow> bytes \<Rightarrow> u64" where
  "header_field off n h = le_value (take n (drop off h))"

definition kh_signature :: "bytes \<Rightarrow> u64" where "kh_signature = header_field 0 8"
definition kh_version :: "bytes \<Rightarrow> u64" where "kh_version = header_field 8 4"
definition kh_entry_point :: "bytes \<Rightarrow> u64" where "kh_entry_point = header_field 16 8"
definition kh_code_size :: "bytes \<Rightarrow> u64" where "kh_code_size = header_field 32 8"
definition kh_data_size :: "bytes \<Rightarrow> u64" where "kh_data_size = header_field 48 8"
definition kh_config_size :: "bytes \<Rightarrow> u64" where "kh_config_size = header_field 64 8"
definition kh_signature_offset :: "bytes \<Rightarrow> u64" where "kh_signature_offset = header_field 72 8"
definition kh_signature_size :: "bytes \<Rightarrow> u64" where "kh_signature_size = header_field 80 8"

definition kernel_image_size :: "bytes \<Rightarrow> u64" where
  "kernel_image_size h = kh_code_size h + kh_data_size h + kh_config_size h + kh_signature_size h"

definition verify_init :: "'z bios_boot_scheme \<Rightarrow> (bool \<times> 'z bios_boot_scheme) outcome" where
  "verify_init s = bindR (bios_memset (bios_public_key s) 0xAA 384) (\<lambda>k.
     Ret (True, s\<lparr>bios_public_key := k, verify_initialized := True, verify_enabled := True\<rparr>))"

definition verify_is_enabled :: "'z bios_boot_scheme \<Rightarrow> bool" where "verify_is_enabled s = verify_enabled s"

text \<open>The hash of the image in memory; \<open>junk\<close> is the context on the stack.\<close>

definition hash_image :: "sha384_ctx \<Rightarrow> phys_mem \<Rightarrow> u64 \<Rightarrow> bytes outcome" where
  "hash_image junk m len =
     bindR (sha384_init junk) (\<lambda>ctx.
     bindR (sha384_update (phys_bytes m KERNEL_LOAD_ADDR (unat len)) len ctx) (\<lambda>ctx.
     bindR (sha384_final ctx) (\<lambda>(hash, ctx). Ret hash)))"

definition verify_kernel ::
  "port_env \<Rightarrow> sha384_ctx \<Rightarrow> bytes \<Rightarrow> 'z bios_boot_scheme \<Rightarrow> (bool \<times> 'z bios_boot_scheme) outcome" where
  "verify_kernel env junk header s =
     bindR (if \<not> verify_initialized s then verify_init s else Ret (True, s)) (\<lambda>(_, s).
     if \<not> verify_enabled s
     then bindR (hal_print env (lit ''WARNING: Signature verification disabled\<newline>'') s) (\<lambda>s. Ret (True, s))
     else bindR (hal_print env (lit ''Verifying kernel signature...\<newline>'') s) (\<lambda>s.
     bindR (hash_image junk (phys s) (kernel_image_size header)) (\<lambda>hash.
     bindR (say env (PStr ''Kernel hash: '' # concat (map (\<lambda>i. [PHex (ucast (hash ! i)), PStr '' '']) [0..<48]) @
         [PStr ''\<newline>'']) s) (\<lambda>s.
     if kh_signature_offset header = 0 \<or> kh_signature_size header = 0
     then bindR (hal_print env (lit ''ERROR: No signature in kernel image\<newline>'') s) (\<lambda>s. Ret (False, s))
     else bindR (rsa_verify_sha384 hash
         (phys_bytes (phys s) (KERNEL_LOAD_ADDR + ucast (kh_signature_offset header)) RSA_KEY_SIZE)
         (bios_public_key s) s) (\<lambda>(ok, s).
     if \<not> ok
     then bindR (hal_print env (lit ''ERROR: Signature verification failed\<newline>'') s) (\<lambda>s. Ret (False, s))
     else bindR (hal_print env (lit ''Signature verified successfully\<newline>'') s) (\<lambda>s. Ret (True, s)))))))"

section \<open>The hash takes its message in pieces\<close>

lemma unat_ucast_small: "unat x < 2 ^ 32 \<Longrightarrow> unat (ucast (x :: u64) :: u32) = unat x"
  by (simp add: unsigned_ucast_eq take_bit_eq_mod)

lemma sha384_update_absorbs:
  assumes abs: "absorbed bios_compress H m hi ctx" and n: "n \<le> length dat" "length m + n < 2 ^ 61"
  shows "\<exists>t. sha384_update dat (of_nat n) ctx = Ret t \<and>
    absorbed bios_compress H (m @ take n dat) (hi + of_nat (n div 2 ^ 29)) t"
proof -
  define j where "j = length m mod 128"
  have jl: "j < 128" by (simp add: j_def)
  have count: "sha_count0 ctx = of_nat (8 * length m)" "sha_count1 ctx = hi" using abs by (simp_all add: absorbed_def)
  note words = count_words [OF n(2)]
  have jw: "drop_bit 3 (sha_count0 ctx) AND 0x7F = (of_nat j :: u64)" "unat (of_nat j :: u64) = j"
    using words(4) jl by (simp_all add: count(1) j_def unat_of_nat take_bit_eq_mod del: of_nat_mult)
  have nw: "unat (of_nat n :: u64) = n" using n(2) by (simp add: unat_of_nat take_bit_eq_mod)
  have pl: "128 - of_nat j = (of_nat (128 - j) :: u64)" "unat (of_nat (128 - j) :: u64) = 128 - j"
    using jl by (simp add: of_nat_diff less_imp_le, simp add: unat_of_nat take_bit_eq_mod del: of_nat_diff)
  have pl32: "unat (ucast (of_nat (128 - j) :: u64) :: u32) = 128 - j"
    using unat_ucast_small [of "of_nat (128 - j)"] pl(2) by simp
  have big: "(of_nat (128 - j) :: u64) \<le> of_nat n \<longleftrightarrow> 128 \<le> j + n"
    unfolding word_le_nat_alt pl(2) nw using jl by linarith
  let ?c = "of_nat (8 * (length m + n)) :: u64"
  let ?hi = "hi + of_nat (n div 2 ^ 29)"
  let ?ctx = "ctx\<lparr>sha_count0 := ?c, sha_count1 := ?hi\<rparr>"
  have sum: "sha_count0 ctx + push_bit 3 (of_nat n) = ?c" unfolding count(1) words(1) by (rule words(2))
  have start: "sha384_update dat (of_nat n) ctx =
      bindR (if (of_nat (128 - j) :: u64) \<le> of_nat n
             then bindR (memcpy_at (128 - j) j 0 (sha_buffer ctx) dat) (\<lambda>buf.
               bindR (sha384_transform buf 0 (?ctx\<lparr>sha_buffer := buf\<rparr>)) (\<lambda>ctx.
               bindR (transform_loop bios_compress dat (of_nat n) (of_nat (128 - j)) ctx) (\<lambda>(i, ctx). Ret (0 :: u64, i, ctx))))
             else Ret (of_nat j, 0, ?ctx)) (\<lambda>(index, i, ctx).
      bindR (memcpy_at (unat (ucast (of_nat n - i) :: u32)) (unat index) (unat i) (sha_buffer ctx) dat) (\<lambda>buf.
      Ret (ctx\<lparr>sha_buffer := buf\<rparr>)))"
    using words(3) unfolding sha384_update_def Let_def jw(1) sum pl(1) pl32
    by (simp add: jw(2) count(2) words(1,5) del: of_nat_mult of_nat_add of_nat_diff)
  show ?thesis
  proof (cases "128 \<le> j + n")
    case False
    obtain buf where "memcpy_at n j 0 (sha_buffer ctx) dat = Ret buf"
      "absorbed bios_compress H (m @ take n dat) ?hi (ctx\<lparr>sha_count0 := ?c, sha_count1 := ?hi, sha_buffer := buf\<rparr>)"
      using absorbed_keep [OF abs j_def _ n refl, of ?hi] False by auto
    moreover have "unat (ucast (of_nat n :: u64) :: u32) = n" using unat_ucast_small [of "of_nat n"] False by (simp add: nw)
    ultimately show ?thesis unfolding start using False big by (simp add: jw(2))
  next
    case True
    obtain buf st i b where b: "memcpy_at (128 - j) j 0 (sha_buffer ctx) dat = Ret buf" "length buf = 128"
      "transform_loop bios_compress dat (of_nat n) (of_nat (128 - j))
        (?ctx\<lparr>sha_buffer := buf, sha_state := bios_compress (sha_state ctx) buf\<rparr>) =
        Ret (of_nat i, ?ctx\<lparr>sha_buffer := buf, sha_state := st\<rparr>)"
      "unat (of_nat n - of_nat i :: u64) = n - i" "unat (of_nat i :: u64) = i" "n - i < 128"
      "memcpy_at (n - i) 0 i buf dat = Ret b"
      "absorbed bios_compress H (m @ take n dat) ?hi (?ctx\<lparr>sha_state := st, sha_buffer := b\<rparr>)"
      using absorbed_complete [OF abs j_def True n refl, of ?hi] by metis
    have "unat (ucast (of_nat n - of_nat i :: u64) :: u32) = n - i"
      using unat_ucast_small [of "of_nat n - of_nat i"] b(4,6) by simp
    then have "sha384_update dat (of_nat n) ctx = Ret (?ctx\<lparr>sha_state := st, sha_buffer := b\<rparr>)"
      unfolding start using True big b(1,3,5,7)
      by (simp add: sha384_transform_def transform_full [OF b(2)] del: of_nat_diff)
    with b(8) show ?thesis by blast
  qed
qed

interpretation bios_hash: hash_stream bios_compress sha384_update
  by unfold_locales (rule sha384_update_absorbs)

lemma sha384_init_absorbed:
  assumes "length (sha_buffer junk) = 128"
  shows "\<exists>ctx. sha384_init junk = Ret ctx \<and> absorbed bios_compress bios_H0 [] 0 ctx"
  using assms memset_loop_eq [of 0 128 "sha_buffer junk" 0]
  by (simp add: sha384_init_def bios_memset_def absorbed_def absorb_blocks_def blocks_short)

text \<open>One byte, zeros and the number of bits, as the final step feeds them.\<close>

lemma sha384_byte:
  assumes "absorbed bios_compress H m hi ctx" "length m + 1 < 2 ^ 61"
  shows "\<exists>t. sha384_update [b, 0] 1 ctx = Ret t \<and> absorbed bios_compress H (m @ [b]) hi t"
  using sha384_update_absorbs [OF assms(1), of 1 "[b, 0]"] assms(2) by simp

lemma sha384_zeros_absorbs:
  "absorbed bios_compress H m hi ctx \<Longrightarrow> length m + n < 2 ^ 61 \<Longrightarrow>
   \<exists>t. sha384_zeros n ctx = Ret t \<and> absorbed bios_compress H (m @ replicate n 0) hi t"
proof (induction n arbitrary: m ctx)
  case (Suc n)
  obtain u where u: "sha384_update [0, 0] 1 ctx = Ret u" "absorbed bios_compress H (m @ [0]) hi u"
    using sha384_byte [OF Suc.prems(1), of 0] Suc.prems(2) by auto
  from Suc.IH [OF u(2)] Suc.prems(2) obtain t where
    "sha384_zeros n u = Ret t" "absorbed bios_compress H ((m @ [0]) @ replicate n 0) hi t" by auto
  with u(1) show ?case by simp
qed simp

text \<open>The padding is one byte longer than the standard's, so that the last byte of the length is not hashed.\<close>

definition bios_padded :: "u64 \<Rightarrow> bytes \<Rightarrow> bytes" where
  "bios_padded hi m = m @ [0x80] @ replicate (if length m mod 128 < 112 then 112 - length m mod 128 else 240 - length m mod 128) 0 @
     be_bytes hi @ be_bytes (of_nat (8 * length m))"

definition bios_digest :: "u64 \<Rightarrow> bytes \<Rightarrow> bytes" where
  "bios_digest hi m = concat (map be_bytes (absorb_blocks bios_compress (bios_padded hi m) bios_H0))"

lemma sha384_final_digest:
  assumes abs: "absorbed bios_compress bios_H0 m hi ctx" and len: "length m + 300 < 2 ^ 61"
  shows "\<exists>t. sha384_final ctx = Ret (bios_digest hi m, t)"
proof -
  define r where "r = length m mod 128"
  define k where "k = (if r < 112 then 112 - r else 240 - r)"
  have r: "r < 128" by (simp add: r_def)
  have count: "sha_count0 ctx = of_nat (8 * length m)" "sha_count1 ctx = hi" using abs by (simp_all add: absorbed_def)
  have index: "drop_bit 3 (of_nat (8 * length m)) AND 0x7F = (of_nat r :: u64)"
    using count_words(4) [of "length m" 0] len unfolding r_def by simp
  have rw: "unat (of_nat r :: u64) = r" using r by (simp add: unat_of_nat take_bit_eq_mod)
  have pad: "unat (if of_nat r < (112 :: u64) then 112 - of_nat r else 240 - of_nat r :: u64) = k"
    using r by (auto simp: k_def word_less_nat_alt rw unat_sub_if_size word_size)
  have k: "k \<le> 128" using r by (auto simp: k_def)
  let ?bits = "be_bytes hi @ be_bytes (of_nat (8 * length m))"
  obtain c1 where c1: "sha384_update [0x80, 0] 1 ctx = Ret c1" "absorbed bios_compress bios_H0 (m @ [0x80]) hi c1"
    using sha384_byte [OF abs, of "0x80"] len by auto
  obtain c2 where c2: "sha384_zeros k c1 = Ret c2" "absorbed bios_compress bios_H0 ((m @ [0x80]) @ replicate k 0) hi c2"
    using sha384_zeros_absorbs [OF c1(2), of k] len k by auto
  obtain t where t: "sha384_update ?bits 16 c2 = Ret t"
    "absorbed bios_compress bios_H0 (((m @ [0x80]) @ replicate k 0) @ ?bits) hi t"
    using sha384_update_absorbs [OF c2(2), of 16 ?bits] len k by auto
  have "sha_state t = absorb_blocks bios_compress (bios_padded hi m) bios_H0"
    using t(2) by (simp add: absorbed_def bios_padded_def k_def r_def)
  then show ?thesis
    using c1(1) c2(1) t(1) unfolding sha384_final_def Let_def count index pad
    by (simp add: bios_digest_def del: of_nat_mult)
qed

section \<open>What the hash and the verification come to\<close>

lemma hash_image_eq:
  assumes "length (sha_buffer junk) = 128" "unat len + 300 < 2 ^ 61"
  shows "hash_image junk m len =
    Ret (bios_digest (of_nat (unat len div 2 ^ 29)) (phys_bytes m KERNEL_LOAD_ADDR (unat len)))"
proof -
  let ?img = "phys_bytes m KERNEL_LOAD_ADDR (unat len)"
  obtain c0 where c0: "sha384_init junk = Ret c0" "absorbed bios_compress bios_H0 [] 0 c0"
    using sha384_init_absorbed [OF assms(1)] by blast
  obtain c1 where c1: "sha384_update ?img (of_nat (unat len)) c0 = Ret c1"
    "absorbed bios_compress bios_H0 ?img (of_nat (unat len div 2 ^ 29)) c1"
    using sha384_update_absorbs [OF c0(2), of "unat len" ?img] assms(2) by auto
  have "of_nat (unat len) = len" by simp
  with c0(1) c1 sha384_final_digest [OF c1(2)] assms(2) show ?thesis by (auto simp: hash_image_def)
qed

lemma bios_compress_length: "length (bios_compress st b) = 6"
  by (simp add: bios_compress_def split: prod.split)

lemma bios_digest_length: "length (bios_digest hi m) = 48"
proof -
  have "length st = 6 \<Longrightarrow> length (fold (\<lambda>b st. bios_compress st b) bs st) = 6" for bs st
    by (induction bs arbitrary: st) (simp_all add: bios_compress_length)
  then have "length (absorb_blocks bios_compress (bios_padded hi m) bios_H0) = 6"
    by (simp add: absorb_blocks_def bios_H0_def SHA_H0_def)
  moreover have "length (concat (map be_bytes ws)) = 8 * length ws" for ws by (induction ws) simp_all
  ultimately show ?thesis by (simp add: bios_digest_def)
qed

lemma verify_init_eq:
  assumes "length (bios_public_key s) = 384"
  shows "verify_init s = Ret (True, s\<lparr>bios_public_key := replicate 384 0xAA, verify_initialized := True,
    verify_enabled := True\<rparr>)"
  using memset_loop_eq [of 0 384 "bios_public_key s" "0xAA"] assms by (simp add: verify_init_def bios_memset_def)

lemma rsa_accepts:
  assumes "length (rsa_modulus s) = 384" "length key = 384"
  shows "rsa_verify_sha384 hash signature key s = Ret (True, s\<lparr>rsa_modulus := key\<rparr>)"
  using memcpy_loop_eq [of 0 384 "rsa_modulus s" key] assms
  by (simp add: rsa_verify_sha384_def bios_memcpy_def RSA_KEY_SIZE_def)

text \<open>The keys have their size.\<close>

definition keys_ok :: "'z bios_boot_scheme \<Rightarrow> bool" where
  "keys_ok s \<longleftrightarrow> length (bios_public_key s) = 384 \<and> length (rsa_modulus s) = 384"

lemma keys_ok_step:
  "console_step s t \<Longrightarrow> keys_ok t = keys_ok s \<and> verify_enabled t = verify_enabled s \<and> bios_public_key t = bios_public_key s"
  by (cases s; cases t) (simp add: console_step_def keys_ok_def)

lemma verify_kernel_ok:
  assumes env: "serial_ready env" and s: "console_ok s" "keys_ok s" "verify_initialized s \<Longrightarrow> verify_enabled s"
    and junk: "length (sha_buffer junk) = 128" and size: "unat (kernel_image_size header) < 2 ^ 60"
  shows "\<exists>t. verify_kernel env junk header s =
      Ret (kh_signature_offset header \<noteq> 0 \<and> kh_signature_size header \<noteq> 0, t) \<and> console_ok t \<and>
    (\<forall>a. off_screen a \<longrightarrow> phys t a = phys s a)"
proof -
  define s0 where "s0 = (if \<not> verify_initialized s then s\<lparr>bios_public_key := replicate 384 0xAA,
    verify_initialized := True, verify_enabled := True\<rparr> else s)"
  have start: "(if \<not> verify_initialized s then verify_init s else Ret (True, s)) = Ret (True, s0)"
    using verify_init_eq [of s] s(2) by (simp add: s0_def keys_ok_def)
  have s0: "console_ok s0" "keys_ok s0" "verify_enabled s0" "phys s0 = phys s"
    using s by (auto simp: s0_def keys_ok_def console_ok_def)
  obtain s1 where s1: "hal_print env (lit ''Verifying kernel signature...\<newline>'') s0 = Ret s1" "console_step s0 s1"
    using hal_print_lit_ok [OF env _ s0(1), of "''Verifying kernel signature...\<newline>''"] by auto
  have "unat (kernel_image_size header) + 300 < 2 ^ 61" using size by simp
  from hash_image_eq [OF junk this] obtain hash where hash: "hash_image junk (phys s1) (kernel_image_size header) = Ret hash"
    by blast
  let ?out = "PStr ''Kernel hash: '' # concat (map (\<lambda>i. [PHex (ucast (hash ! i)), PStr '' '']) [0..<48]) @ [PStr ''\<newline>'']"
  have "\<forall>x \<in> set ?out. item_plain x" by (auto simp del: upt_rec_numeral)
  from say_ok [OF env this console_step_ok [OF s1(2)]] obtain s2 where s2: "say env ?out s1 = Ret s2" "console_step s1 s2"
    by blast
  note step = console_step_trans [OF s1(2) s2(2)]
  show ?thesis
  proof (cases "kh_signature_offset header = 0 \<or> kh_signature_size header = 0")
    case True
    obtain t where t: "hal_print env (lit ''ERROR: No signature in kernel image\<newline>'') s2 = Ret t" "console_step s2 t"
      using hal_print_lit_ok [OF env _ console_step_ok [OF step], of "''ERROR: No signature in kernel image\<newline>''"] by auto
    have "verify_kernel env junk header s = Ret (False, t)"
      unfolding verify_kernel_def start using True s0(3) s1(1) hash s2(1) t(1) by simp
    with True console_step_trans [OF step t(2)] s0(4) show ?thesis by (auto simp: console_step_def)
  next
    case False
    define s3 where "s3 = s2\<lparr>rsa_modulus := bios_public_key s2\<rparr>"
    have "keys_ok s2" using keys_ok_step [OF step] s0(2) by simp
    then have rsa: "rsa_verify_sha384 hash sg (bios_public_key s2) s2 = Ret (True, s3)" for sg
      using rsa_accepts [of s2 "bios_public_key s2" hash sg] by (simp add: s3_def keys_ok_def)
    have ok3: "console_ok s3" using console_step_ok [OF step] by (simp add: s3_def console_ok_def)
    obtain t where t: "hal_print env (lit ''Signature verified successfully\<newline>'') s3 = Ret t" "console_step s3 t"
      using hal_print_lit_ok [OF env _ ok3, of "''Signature verified successfully\<newline>''"] by auto
    have "verify_kernel env junk header s = Ret (True, t)"
      unfolding verify_kernel_def start using False s0(3) s1(1) hash s2(1) rsa t(1) by simp
    moreover have "console_ok t" "\<forall>a. off_screen a \<longrightarrow> phys t a = phys s a"
      using step t(2) s0(4) by (simp_all add: console_step_def s3_def)
    ultimately show ?thesis using False by auto
  qed
qed

section \<open>Properties\<close>

text \<open>
  C28. The loader for BIOS machines accepts every image and every signature: with verification enabled, which is its
  default, \<open>verify_kernel\<close> returns 1 exactly if the offset and the size of the signature in the header are not 0,
  whatever is at that offset and whatever the hash of the image is. The serial line has to become ready whenever
  something is printed, and the image, whose size is the sum of the header's three, has fewer than \<open>2^60\<close> bytes, so that
  the number of its bits fits the counter.
\<close>
theorem bios_accepts_any_signature:
  assumes "serial_ready env" "console_ok s" "keys_ok s" "verify_initialized s \<longrightarrow> verify_enabled s"
    and "length (sha_buffer junk) = 128" "unat (kernel_image_size header) < 2 ^ 60"
  shows "\<exists>t. verify_kernel env junk header s =
      Ret (kh_signature_offset header \<noteq> 0 \<and> kh_signature_size header \<noteq> 0, t) \<and>
    (\<forall>a. off_screen a \<longrightarrow> phys t a = phys s a)"
  using verify_kernel_ok [OF assms(1-3) mp [OF assms(4)] assms(5,6)] by blast

definition sample_boot :: bios_boot where
  "sample_boot = bios_fs.extend sample_fs \<lparr>stage2_info = zero_boot_info, kernel_header = replicate 120 0,
     verify_enabled = False, verify_initialized = False, bios_public_key = replicate 384 0, rsa_modulus = replicate 384 0\<rparr>"

definition sample_header :: bytes where
  "sample_header = replicate 32 0 @ [1, 0, 0, 0, 0, 0, 0, 0] @ replicate 32 0 @ [9, 0, 0, 0, 0, 0, 0, 0] @
     [1, 0, 0, 0, 0, 0, 0, 0] @ replicate 32 0"

lemma sample_header_fields: "kernel_image_size sample_header = 2" "kh_signature_offset sample_header = 9"
  "kh_signature_size sample_header = 1"
  by code_simp+

lemma sample_boot_ok: "console_ok sample_boot" "keys_ok sample_boot" "\<not> verify_initialized sample_boot"
  by (simp_all add: sample_boot_def sample_fs_def sample_mem_def sample_hal_def bios_fs.defs bios_mem.defs bios_hal.defs
      console_ok_def bios_vga_dims keys_ok_def)

theorem bios_accepts_any_signature_witness:
  "\<exists>t. verify_kernel sample_ports sample_ctx sample_header sample_boot = Ret (True, t)"
  using bios_accepts_any_signature [OF sample_ports_ready sample_boot_ok(1,2) _ sample_ctx_length, of sample_header]
    sample_boot_ok(3) by (simp add: sample_header_fields) blast

text \<open>
  The hash of the loader for BIOS machines: fed with a message in pieces of fewer than \<open>2^29\<close> bytes each, of any
  number and sizes, it returns the digest of the pieces joined, which is the words of \<open>bios_compress\<close> over the
  message, the byte \<open>0x80\<close>, zeros and the number of bits. These are one byte more than whole blocks, so that the last
  byte of the number is not hashed; in FIPS 180-4 they are whole blocks.
\<close>
theorem bios_hash_in_pieces:
  assumes "length (sha_buffer junk) = 128" "length (concat ps) + 300 < 2 ^ 61" "\<forall>p \<in> set ps. length p < 2 ^ 29"
  shows "(\<exists>c t u. sha384_init junk = Ret c \<and> feed sha384_update ps c = Ret t \<and>
      sha384_final t = Ret (bios_digest 0 (concat ps), u)) \<and>
    length (bios_padded 0 (concat ps)) mod 128 = 1 \<and> length (pad_with (length_field n) m) mod 128 = 0"
proof -
  obtain c where c: "sha384_init junk = Ret c" "absorbed bios_compress bios_H0 [] 0 c"
    using sha384_init_absorbed [OF assms(1)] by blast
  obtain t where t: "feed sha384_update ps c = Ret t" "absorbed bios_compress bios_H0 (concat ps) 0 t"
    using bios_hash.feed_absorbs [OF c(2), of ps] assms(2,3) by auto
  have mod: "(l + k) mod 128 = (l mod 128 + k) mod 128" for l k :: nat by (simp add: mod_add_left_eq)
  have "length (bios_padded 0 x) mod 128 = 1" for x
  proof -
    define r where "r = length x mod 128"
    have r: "r < 128" by (simp add: r_def)
    have "length (bios_padded 0 x) = length x + (1 + (if r < 112 then 112 - r else 240 - r) + 16)"
      by (simp add: bios_padded_def r_def)
    then have "length (bios_padded 0 x) mod 128 = (r + (1 + (if r < 112 then 112 - r else 240 - r) + 16)) mod 128"
      by (simp only: mod [of "length x"] r_def)
    also have "r + (1 + (if r < 112 then 112 - r else 240 - r) + 16) = (if r < 112 then 129 else 257)" using r by auto
    finally show ?thesis by simp
  qed
  moreover have "length (pad_with (length_field n) m) mod 128 = 0"
  proof -
    define r where "r = length m mod 128"
    have r: "r < 128" by (simp add: r_def)
    have "length (pad_with (length_field n) m) = length m + (1 + (239 - r) mod 128 + 16)"
      by (simp add: pad_with_def length_field_def r_def)
    then have "length (pad_with (length_field n) m) mod 128 = (r + (1 + (239 - r) mod 128 + 16)) mod 128"
      by (simp only: mod [of "length m"] r_def)
    also have "(239 - r) mod 128 = (if r < 112 then 111 - r else 239 - r)" using r by (auto simp: mod_if)
    finally show ?thesis using r by auto
  qed
  ultimately show ?thesis using c(1) t(1) sha384_final_digest [OF t(2) assms(2)] by blast
qed

theorem bios_hash_in_pieces_witness:
  "\<exists>c t u. sha384_init sample_ctx = Ret c \<and> feed sha384_update [[97], [], [98, 99]] c = Ret t \<and>
     sha384_final t = Ret (bios_digest 0 [97, 98, 99], u)"
  using bios_hash_in_pieces [OF sample_ctx_length, of "[[97], [], [98, 99]]", THEN conjunct1] by simp

end
