(* ===== verification/BiosBoot.thy ===== *)
theory BiosBoot
  imports BiosSecurity
begin

text \<open>
  Stage 2 of the loader for BIOS machines (\<open>stage2/stage2.c\<close>): from the first output to the halt. \<open>halt\<close> never
  returns; the outcome of \<open>stage2_main\<close> is the state in which the machine halts, and \<open>Hang\<close> means that it waits
  for ever before, for the serial line or in a cluster chain.
\<close>

section \<open>Loading\<close>

definition MAX_KERNEL_SIZE :: u64 where "MAX_KERNEL_SIZE = 0x4000000"
definition KERNEL_MAGIC :: u64 where "KERNEL_MAGIC = 0x48494B00"
definition BOOT_FLAG_SERIAL :: u64 where "BOOT_FLAG_SERIAL = 2"
definition BOOT_FLAG_DEBUG :: u64 where "BOOT_FLAG_DEBUG = 4"

text \<open>The sections are in place already; the two addresses that are computed are not used.\<close>

definition load_sections :: "port_env \<Rightarrow> 'z bios_boot_scheme \<Rightarrow> (bool \<times> 'z bios_boot_scheme) outcome" where
  "load_sections env s =
     bindR (hal_print env (lit ''Loading kernel sections...\<newline>'') s) (\<lambda>s.
     bindR (if 0 < kh_code_size (kernel_header s)
            then say env [PStr ''  Code section: '', PDec (kh_code_size (kernel_header s)), PStr '' bytes\<newline>''] s
            else Ret s) (\<lambda>s.
     bindR (if 0 < kh_data_size (kernel_header s)
            then say env [PStr ''  Data section: '', PDec (kh_data_size (kernel_header s)), PStr '' bytes\<newline>''] s
            else Ret s) (\<lambda>s.
     Ret (True, s))))"

text \<open>What a failing step prints before 0 is returned.\<close>

definition fail_with :: "port_env \<Rightarrow> print_item list \<Rightarrow> 'z bios_hal_scheme \<Rightarrow> (bool \<times> 'z bios_hal_scheme) outcome" where
  "fail_with env ps s = bindR (say env ps s) (\<lambda>s. Ret (False, s))"

text \<open>
  The read of the header stores what \<open>fs_read\<close> delivers in the structure, the read of the image at the load
  address; \<open>junk\<close> is the directory buffer on the stack.
\<close>

definition load_header :: "'z bios_boot_scheme \<Rightarrow> (bool \<times> 'z bios_boot_scheme) outcome" where
  "load_header s = (case fs_read None (of_nat sizeof_header) s of
     (ok, None, s) \<Rightarrow> Ret (False, s)
   | (ok, Some (n, bs), s) \<Rightarrow>
       bindR (memcpy_at (length bs) 0 0 (kernel_header s) bs) (\<lambda>h.
       Ret (ok \<and> n = of_nat sizeof_header, s\<lparr>kernel_header := h\<rparr>)))"

definition load_image :: "u64 \<Rightarrow> 'z bios_boot_scheme \<Rightarrow> bool \<times> 'z bios_boot_scheme" where
  "load_image len s = (case fs_read (Some KERNEL_LOAD_ADDR) len s of
     (ok, None, s) \<Rightarrow> (False, s)
   | (ok, Some (n, _), s) \<Rightarrow> (ok \<and> n = len, s))"

definition load_kernel :: "port_env \<Rightarrow> bytes \<Rightarrow> 'z bios_boot_scheme \<Rightarrow> (bool \<times> 'z bios_boot_scheme) outcome" where
  "load_kernel env junk s =
     bindR (fs_open env junk (lit ''/HIK/kernel.hik'') s) (\<lambda>(ok, s).
     if \<not> ok then fail_with env [PStr ''ERROR: Cannot open kernel file: '', PStr ''/HIK/kernel.hik'', PStr ''\<newline>''] s
     else if MAX_KERNEL_SIZE < fs_get_size s
     then fail_with env [PStr ''ERROR: Kernel too large: '', PHex (fs_get_size s), PStr ''\<newline>''] s
     else bindR (load_header s) (\<lambda>(ok, s).
     if \<not> ok then fail_with env [PStr ''ERROR: Cannot read kernel header\<newline>''] s
     else if kh_signature (kernel_header s) \<noteq> KERNEL_MAGIC
     then fail_with env [PStr ''ERROR: Invalid kernel magic\<newline>''] s
     else bindR (say env [PStr ''Kernel version: '', PDec (kh_version (kernel_header s)), PStr ''\<newline>'', PStr ''Kernel size: '',
         PDec (kernel_image_size (kernel_header s) div 1024), PStr '' KB\<newline>''] s) (\<lambda>s.
     case fs_seek 0 s of (ok, s) \<Rightarrow>
     if \<not> ok then fail_with env [PStr ''ERROR: Cannot seek in kernel file\<newline>''] s
     else case load_image (kernel_image_size (kernel_header s)) s of (ok, s) \<Rightarrow>
     if \<not> ok then fail_with env [PStr ''ERROR: Cannot read kernel image\<newline>''] s
     else bindR (load_sections env s) (\<lambda>(ok, s).
     if \<not> ok then fail_with env [PStr ''ERROR: Cannot load kernel sections\<newline>''] s
     else Ret (True, s)))))"

section \<open>Hand-over\<close>

definition setup_boot_info :: "'z bios_boot_scheme \<Rightarrow> 'z bios_boot_scheme outcome" where
  "setup_boot_info s =
     (let h = kernel_header s in
      bindR (bios_strcpy (bi_cmdline (stage2_info s)) (lit ''console=ttyS0,115200'')) (\<lambda>cmdline.
      Ret (s\<lparr>stage2_info := (stage2_info s)\<lparr>
        bi_magic := 0x214B4948, bi_version := 1, bi_flags := BOOT_FLAG_SERIAL OR BOOT_FLAG_DEBUG,
        bi_map_base := ucast MEMORY_MAP_ADDR, bi_map_size := hal_get_memory_map_size s,
        bi_desc_size := of_nat sizeof_map_entry, bi_map_count := hal_get_memory_map_count s,
        bi_bios_data_area := 0x400, bi_vbe_info := 0,
        bi_kernel_base := ucast KERNEL_LOAD_ADDR, bi_kernel_size := kernel_image_size h,
        bi_entry_point := kh_entry_point h, bi_cmdline := cmdline, bi_modules := 0, bi_module_count := 0\<rparr>\<rparr>)))"

section \<open>The main function\<close>

text \<open>\<open>hal_print\<close> and \<open>halt\<close>: the rest of the function is not reached.\<close>

definition die :: "port_env \<Rightarrow> string \<Rightarrow> 'z bios_hal_scheme \<Rightarrow> 'z bios_hal_scheme outcome" where
  "die env msg s = hal_print env (lit msg) s"

definition detect_hardware :: "port_env \<Rightarrow> bios_int \<Rightarrow> 'z bios_boot_scheme \<Rightarrow> (bool \<times> 'z bios_boot_scheme) outcome" where
  "detect_hardware env bios s =
     bindR (hal_print env (lit ''Detecting memory...\<newline>'') s) (\<lambda>s.
     bindR (hal_detect_memory env bios (stage2_info s) s) (\<lambda>(ok, info, s).
     let s = s\<lparr>stage2_info := info\<rparr> in
     if \<not> ok then bindR (hal_print env (lit ''ERROR: Memory detection failed!\<newline>'') s) (\<lambda>s. Ret (False, s))
     else bindR (say env [PStr ''Memory detected.\<newline>\<newline>'', PStr ''Detecting ACPI tables...\<newline>''] s) (\<lambda>s.
     let rsdp = hal_find_rsdp s; s = s\<lparr>stage2_info := (stage2_info s)\<lparr>bi_rsdp := rsdp\<rparr>\<rparr> in
     bindR (say env ((if rsdp \<noteq> 0 then [PStr ''ACPI RSDP found at 0x'', PHex rsdp, PStr ''\<newline>'']
         else [PStr ''WARNING: ACPI not found.\<newline>'']) @ [PStr ''\<newline>'']) s) (\<lambda>s.
     Ret (True, s)))))"

definition stage2_main ::
  "port_env \<Rightarrow> bios_int \<Rightarrow> bytes \<Rightarrow> sha384_ctx \<Rightarrow> 'z bios_boot_scheme \<Rightarrow> 'z bios_boot_scheme outcome" where
  "stage2_main env bios junk sha_junk s =
     bindR (say env [PStr ''HIK Bootloader Stage 2\<newline>'', PStr ''========================\<newline>\<newline>'',
       PStr ''Initializing hardware...\<newline>''] (hal_clear_screen s)) (\<lambda>s.
     case hal_init s of (ok, s) \<Rightarrow>
     if \<not> ok then die env ''ERROR: HAL initialization failed!\<newline>'' s
     else bindR (hal_print env (lit ''Hardware initialized.\<newline>\<newline>'') s) (\<lambda>s.
     bindR (detect_hardware env bios s) (\<lambda>(ok, s).
     if \<not> ok then Ret s
     else bindR (hal_print env (lit ''Initializing file system...\<newline>'') s) (\<lambda>s.
     bindR (fs_init env s) (\<lambda>(ok, s).
     if \<not> ok then die env ''ERROR: File system initialization failed!\<newline>'' s
     else bindR (say env [PStr ''File system initialized.\<newline>\<newline>'', PStr ''Loading kernel...\<newline>''] s) (\<lambda>s.
     bindR (load_kernel env junk s) (\<lambda>(ok, s).
     if \<not> ok then die env ''ERROR: Kernel load failed!\<newline>'' s
     else bindR (say env [PStr ''Kernel loaded successfully.\<newline>\<newline>'', PStr ''Verifying kernel signature...\<newline>''] s) (\<lambda>s.
     bindR (verify_kernel env sha_junk (kernel_header s) s) (\<lambda>(ok, s).
     if \<not> ok then die env ''ERROR: Kernel verification failed!\<newline>'' s
     else bindR (say env [PStr ''Kernel verified.\<newline>\<newline>'', PStr ''Setting up boot information...\<newline>''] s) (\<lambda>s.
     bindR (setup_boot_info s) (\<lambda>s.
     say env [PStr ''Boot information ready.\<newline>\<newline>'', PStr ''Bootloader completed successfully.\<newline>'',
       PStr ''Halting system.\<newline>''] s)))))))))))"

section \<open>How far it gets\<close>

text \<open>What the steps before the file system leave alone.\<close>

definition quiet :: "u32 set \<Rightarrow> 'z bios_boot_scheme \<Rightarrow> 'z bios_boot_scheme \<Rightarrow> bool" where
  "quiet W s t \<longleftrightarrow> console_ok t \<and> (\<forall>a. off_map W a \<longrightarrow> off_screen a \<longrightarrow> phys t a = phys s a) \<and>
     disk_buffer t = disk_buffer s \<and> kernel_header t = kernel_header s \<and> fs_initialized t = fs_initialized s \<and>
     verify_initialized t = verify_initialized s"

lemma quiet_ok: "quiet W s t \<Longrightarrow> console_ok t"
  by (simp add: quiet_def)

lemma quiet_trans: "quiet W s t \<Longrightarrow> quiet W t u \<Longrightarrow> quiet W s u"
  by (simp add: quiet_def)

lemma console_quiet: "console_step s t \<Longrightarrow> quiet W s t"
  by (cases s; cases t) (simp add: console_step_def quiet_def)

lemma say_quiet:
  assumes "serial_ready env" "\<forall>x \<in> set ps. item_plain x" "quiet W s u"
  shows "\<exists>t. say env ps u = Ret t \<and> quiet W s t"
  using say_ok [OF assms(1,2) quiet_ok [OF assms(3)]] console_quiet quiet_trans [OF assms(3)] by blast

lemma print_quiet:
  assumes "serial_ready env" "item_plain (PStr str)" "quiet W s u"
  shows "\<exists>t. hal_print env (lit str) u = Ret t \<and> quiet W s t"
  using hal_print_lit_ok [OF assms(1,2) quiet_ok [OF assms(3)]] console_quiet quiet_trans [OF assms(3)] by blast

lemma clear_quiet: "quiet W s (hal_clear_screen s)"
  by (rule console_quiet [OF clear_step])

lemma hal_init_quiet: "quiet W s u \<Longrightarrow> fst (hal_init u) \<and> quiet W s (snd (hal_init u))"
proof -
  have ports: "phys (fold (\<lambda>(p, v). bios_outb p v) xs u) = phys u \<and>
      bios_hal.more (fold (\<lambda>(p, v). bios_outb p v) xs u) = bios_hal.more u" for xs and u :: "'a bios_boot_scheme"
    by (induction xs arbitrary: u) (auto simp: bios_outb_def)
  define u' where "u' = serial_init SERIAL_PORT_COM1 u"
  have u': "phys u' = phys u" "bios_hal.more u' = bios_hal.more u" using ports unfolding u'_def serial_init_def by blast+
  let ?v = "u'\<lparr>cursor_x := 0, cursor_y := 0, text_color := 0x0F\<rparr>"
  assume "quiet W s u"
  then have "quiet W s ?v"
    using u' by (cases u; cases u') (simp add: quiet_def console_ok_def bios_vga_dims)
  from quiet_trans [OF this clear_quiet] show ?thesis by (simp add: hal_init_def u'_def)
qed

lemma detect_hardware_quiet:
  assumes env: "serial_ready env" and bios: "bios_writes bios \<subseteq> W" and s: "quiet W s u"
  shows "\<exists>t. detect_hardware env bios u = Ret (True, t) \<and> quiet W s t"
proof -
  obtain u1 where u1: "hal_print env (lit ''Detecting memory...\<newline>'') u = Ret u1" "quiet W s u1"
    using print_quiet [OF env _ s, of "''Detecting memory...\<newline>''"] by auto
  obtain info u2 where u2: "hal_detect_memory env bios (stage2_info u1) u1 = Ret (True, info, u2)" "console_ok u2"
    "\<And>a. off_map W a \<Longrightarrow> off_screen a \<Longrightarrow> phys u2 a = phys u1 a" "bios_mem.more u2 = bios_mem.more u1"
    using hal_detect_memory_ok [OF env quiet_ok [OF u1(2)], of bios "stage2_info u1"] bios by (fastforce simp: off_map_def)
  define u3 where "u3 = u2\<lparr>stage2_info := info\<rparr>"
  have "quiet W u1 u3"
    using u2(2-4) unfolding u3_def quiet_def console_ok_def by (cases u1; cases u2) simp
  note u3 = quiet_trans [OF u1(2) this]
  obtain u4 where u4: "say env [PStr ''Memory detected.\<newline>\<newline>'', PStr ''Detecting ACPI tables...\<newline>''] u3 = Ret u4" "quiet W s u4"
    using say_quiet [OF env _ u3, of "[PStr ''Memory detected.\<newline>\<newline>'', PStr ''Detecting ACPI tables...\<newline>'']"] by auto
  define rsdp where "rsdp = hal_find_rsdp u4"
  define u5 where "u5 = u4\<lparr>stage2_info := (stage2_info u4)\<lparr>bi_rsdp := rsdp\<rparr>\<rparr>"
  have u5: "quiet W s u5" using u4(2) by (simp add: quiet_def u5_def console_ok_def)
  let ?out = "(if rsdp \<noteq> 0 then [PStr ''ACPI RSDP found at 0x'', PHex rsdp, PStr ''\<newline>'']
      else [PStr ''WARNING: ACPI not found.\<newline>'']) @ [PStr ''\<newline>'']"
  have "\<forall>x \<in> set ?out. item_plain x" by simp
  from say_quiet [OF env this u5] obtain t where t: "say env ?out u5 = Ret t" "quiet W s t" by blast
  show ?thesis
    using u1(1) u2(1) u4(1) t unfolding detect_hardware_def Let_def u3_def u5_def rsdp_def by simp
qed

lemma stage2_halts:
  assumes env: "serial_ready env" and disk: "disk_buffer s = replicate 512 0"
  shows "\<exists>t w. stage2_main env bios junk sha_junk s = Ret t \<and> quiet (bios_writes bios) s t \<and>
    port_writes t = w @ map (\<lambda>c. (SERIAL_PORT_COM1, of_char c)) ''ERROR: File system initialization failed!\<newline>''"
proof -
  let ?W = "bios_writes bios"
  let ?banner = "[PStr ''HIK Bootloader Stage 2\<newline>'', PStr ''========================\<newline>\<newline>'',
    PStr ''Initializing hardware...\<newline>'']"
  obtain s1 where s1: "say env ?banner (hal_clear_screen s) = Ret s1" "quiet ?W s s1"
    using say_quiet [OF env _ clear_quiet [of ?W s], of ?banner] by auto
  obtain s2 where s2: "hal_init s1 = (True, s2)" "quiet ?W s s2" using hal_init_quiet [OF s1(2)] by (cases "hal_init s1") auto
  obtain s3 where s3: "hal_print env (lit ''Hardware initialized.\<newline>\<newline>'') s2 = Ret s3" "quiet ?W s s3"
    using print_quiet [OF env _ s2(2), of "''Hardware initialized.\<newline>\<newline>''"] by auto
  obtain s4 where s4: "detect_hardware env bios s3 = Ret (True, s4)" "quiet ?W s s4"
    using detect_hardware_quiet [OF env order_refl s3(2)] by blast
  obtain s5 where s5: "hal_print env (lit ''Initializing file system...\<newline>'') s4 = Ret s5" "quiet ?W s s5"
    using print_quiet [OF env _ s4(2), of "''Initializing file system...\<newline>''"] by auto
  have "disk_buffer s5 = replicate 512 0" using s5(2) disk by (simp add: quiet_def)
  from fs_init_zeros [OF env quiet_ok [OF s5(2)] this] obtain s6 where
    s6: "fs_init env s5 = Ret (False, s6)" "console_step (s5\<lparr>bpb_set := True\<rparr>) s6" by blast
  have "quiet ?W s5 (s5\<lparr>bpb_set := True\<rparr>)" using quiet_ok [OF s5(2)] by (simp add: quiet_def console_ok_def)
  then have q6: "quiet ?W s s6" using quiet_trans [OF s5(2)] quiet_trans console_quiet [OF s6(2)] by blast
  let ?msg = "''ERROR: File system initialization failed!\<newline>''"
  obtain n where n: "hal_print env (lit ?msg) s6 = Ret (printed (map of_char ?msg) (map of_char ?msg) n s6)"
    using hal_print_returns [OF env, of "map of_char ?msg" "[]" s6] unfolding lit_def by auto
  have "quiet ?W s (printed (map of_char ?msg) (map of_char ?msg) n s6)"
    using quiet_trans [OF q6 console_quiet] hal_print_step [OF n _ quiet_ok [OF q6]] by (simp add: lit_def)
  moreover have "stage2_main env bios junk sha_junk s = Ret (printed (map of_char ?msg) (map of_char ?msg) n s6)"
    using s1(1) s2(1) s3(1) s4(1) s5(1) s6(1) n unfolding stage2_main_def die_def by simp
  ultimately show ?thesis by (auto simp: printed_def)
qed

section \<open>Where the image goes\<close>

lemma load_image_repeats:
  assumes view: "file_view s = Some (c, 0)" and buf: "fh_data (current_file s) = 0x90000"
    and len: "0 < unat len" "unat len \<le> length c" "unat len \<le> 0x4000000" and i: "i < unat len"
  shows "\<exists>t. load_image len s = (True, t) \<and> phys t (KERNEL_LOAD_ADDR + of_nat i) = c ! (i mod 0x70000)"
proof -
  define f where "f = current_file s"
  have f: "file_open s" "unat (fh_size f) < 2 ^ 32" "fh_position f = 0" "c = phys_bytes (phys s) 0x90000 (unat (fh_size f))"
    using view buf by (auto simp: file_view_def Let_def f_def unat_eq_0 split: if_splits)
  have le: "len \<le> fh_size f" using len(2) by (simp add: f(4) word_le_nat_alt)
  then have rd: "(if len < fh_size f - fh_position f then len else fh_size f - fh_position f) = len"
    by (auto simp: f(3))
  have n: "unat (ucast len :: u32) = unat len" using unat_ucast_small [of len] len(3) by simp
  define m where "m = phys_memcpy KERNEL_LOAD_ADDR 0x90000 (ucast len) (phys s)"
  have "load_image len s = (True, s\<lparr>current_file := f\<lparr>fh_position := fh_position f + len\<rparr>, phys := m\<rparr>)"
    using f(1) len(1) rd buf
    by (simp add: load_image_def fs_read_def Let_def f_def [symmetric] f(3) m_def word_less_nat_alt)
  moreover have "m (KERNEL_LOAD_ADDR + of_nat i) = c ! (i mod 0x70000)"
  proof -
    have dst: "KERNEL_LOAD_ADDR = 0x90000 + of_nat 0x70000" by (simp add: KERNEL_LOAD_ADDR_def)
    have u: "unat (KERNEL_LOAD_ADDR + of_nat i) = 0x100000 + i"
      using i len(3) by (simp add: KERNEL_LOAD_ADDR_def unat_word_ariths unat_of_nat take_bit_eq_mod)
    have "m (KERNEL_LOAD_ADDR + of_nat i) = phys s (0x90000 + of_nat (i mod 0x70000))"
      unfolding m_def phys_memcpy_def n dst
      by (subst phys_memcpy_repeats) (use u i len(3) in \<open>simp_all add: KERNEL_LOAD_ADDR_def\<close>)
    moreover have "i mod 0x70000 < length c" using i len(2) mod_less_eq_dividend [of i "0x70000"] by linarith
    ultimately show ?thesis by (simp add: f(4) phys_bytes_def)
  qed
  ultimately show ?thesis by simp
qed

section \<open>Properties\<close>

text \<open>
  C27. The loader for BIOS machines never loads a kernel. Its disk routine reads nothing, so the boot sector in the
  static buffer is all zeros and mounting fails: on every machine whose serial line becomes ready, and whatever the
  BIOS answers, if it returns, when it is asked for the memory map, \<open>stage2_main\<close> reaches the halt right after the message that the
  file system could not be initialised, with the header of the kernel as it was, and with no memory changed but the
  screen, the memory map and what the BIOS changes itself.
\<close>
theorem stage2_never_loads:
  assumes "serial_ready env" "disk_buffer s = replicate 512 0"
  shows "\<exists>t w. stage2_main env bios junk sha_junk s = Ret t \<and>
    port_writes t = w @ map (\<lambda>c. (SERIAL_PORT_COM1, of_char c)) ''ERROR: File system initialization failed!\<newline>'' \<and>
    kernel_header t = kernel_header s \<and> fs_initialized t = fs_initialized s \<and>
    (\<forall>a. off_map (bios_writes bios) a \<longrightarrow> off_screen a \<longrightarrow> phys t a = phys s a)"
  using stage2_halts [OF assms, of bios junk sha_junk] unfolding quiet_def by blast

text \<open>The static objects before the first instruction.\<close>

definition boot_start :: bios_boot where
  "boot_start = sample_boot\<lparr>fs_initialized := False, bpb_set := False, file_open := False, disk_buffer := replicate 512 0\<rparr>"

theorem stage2_never_loads_witness:
  "(\<exists>t. stage2_main sample_ports sample_bios [] sample_ctx boot_start = Ret t \<and> \<not> fs_initialized t) \<and>
   (\<exists>t. stage2_main sample_ports strict_bios [] sample_ctx boot_start = Ret t \<and> phys t 0x100000 = phys boot_start 0x100000)"
proof (intro conjI)
  have start: "disk_buffer boot_start = replicate 512 0" "\<not> fs_initialized boot_start" by (simp_all add: boot_start_def)
  then show "\<exists>t. stage2_main sample_ports sample_bios [] sample_ctx boot_start = Ret t \<and> \<not> fs_initialized t"
    using stage2_never_loads [OF sample_ports_ready] by blast
  have "off_map (bios_writes strict_bios) 0x100000" "off_screen 0x100000"
    using sample_writes [of "0x100000"] by (auto simp: off_map_def off_screen_nat)
  then show "\<exists>t. stage2_main sample_ports strict_bios [] sample_ctx boot_start = Ret t \<and>
      phys t 0x100000 = phys boot_start 0x100000"
    using stage2_never_loads [OF sample_ports_ready start(1), of strict_bios] by blast
qed

text \<open>
  What reading the kernel image to \<open>0x100000\<close> leaves there, the file having been put at \<open>0x90000\<close>: of an image of
  at most \<open>0x70000\<close> bytes every byte, and of a longer one its first \<open>0x70000\<close> bytes over and over, for the copy overtakes the
  part of the file it has yet to read.
\<close>
theorem kernel_image_repeats:
  assumes "file_view s = Some (c, 0)" "fh_data (current_file s) = 0x90000"
    and "0 < unat len" "unat len \<le> length c" "unat len \<le> 0x4000000" "i < unat len"
  shows "\<exists>t. load_image len s = (True, t) \<and> phys t (KERNEL_LOAD_ADDR + of_nat i) = c ! (i mod 0x70000) \<and>
    (unat len \<le> 0x70000 \<longrightarrow> phys t (KERNEL_LOAD_ADDR + of_nat i) = c ! i)"
  using load_image_repeats [OF assms] assms(6) by auto

definition loaded_start :: bios_boot where
  "loaded_start = sample_boot\<lparr>current_file := \<lparr>fh_in_use = True, fh_size = 0x80000, fh_position = 0, fh_data = 0x90000\<rparr>,
     file_open := True, phys := \<lambda>a. if a = 0x90002 then 7 else 0\<rparr>"

theorem kernel_image_repeats_witness: "\<exists>t. load_image 0x80000 loaded_start = (True, t) \<and> phys t 0x170002 = 7"
proof -
  let ?c = "phys_bytes (phys loaded_start) 0x90000 0x80000"
  have view: "file_view loaded_start = Some (?c, 0)"
    by (simp add: file_view_def loaded_start_def del: upt_rec_numeral)
  have "?c ! 2 = 7" by (simp add: phys_bytes_def loaded_start_def del: upt_rec_numeral)
  then show ?thesis
    using kernel_image_repeats [OF view, of "0x80000" "0x70002"] by (simp add: loaded_start_def KERNEL_LOAD_ADDR_def)
qed

end
