(* ===== verification/BiosConfig.thy ===== *)
theory BiosConfig
  imports BiosFs
begin

text \<open>
  The boot manager of the loader for BIOS machines (\<open>bootmgr/bootmgr.c\<close>): its configuration, the parser of the
  configuration file and the menu. The parser works in place in a buffer of 1024 bytes on the stack; a pointer into
  it is an index. A string that does not fit its array is a \<open>Fault\<close>.
\<close>

section \<open>The configuration\<close>

text \<open>The arrays have 64, 128, 128 and 256 characters; the numbers are \<open>int\<close>.\<close>

record boot_config =
  cfg_title :: bytes
  cfg_kernel_path :: bytes
  cfg_initrd_path :: bytes
  cfg_cmdline :: bytes
  cfg_timeout :: int
  cfg_default_entry :: int

record bios_menu = bios_fs +
  boot_cfg :: boot_config

definition bootmgr_init :: "'z bios_menu_scheme \<Rightarrow> (bool \<times> 'z bios_menu_scheme) outcome" where
  "bootmgr_init s =
     (let c = boot_cfg s in
      bindR (bios_strcpy (cfg_title c) (lit ''HIK Boot Manager'')) (\<lambda>title.
      bindR (bios_strcpy (cfg_kernel_path c) (lit ''/HIK/kernel.hik'')) (\<lambda>kernel.
      bindR (bios_strcpy (cfg_initrd_path c) (lit '''')) (\<lambda>initrd.
      bindR (bios_strcpy (cfg_cmdline c) (lit ''console=ttyS0,115200'')) (\<lambda>cmdline.
      Ret (True, s\<lparr>boot_cfg := \<lparr>cfg_title = title, cfg_kernel_path = kernel, cfg_initrd_path = initrd,
        cfg_cmdline = cmdline, cfg_timeout = 5, cfg_default_entry = 0\<rparr>\<rparr>))))))"

definition bootmgr_get_config :: "'z bios_menu_scheme \<Rightarrow> boot_config" where "bootmgr_get_config s = boot_cfg s"

section \<open>The parser\<close>

text \<open>The index of the end of the line: the first newline or terminator from \<open>i\<close> on.\<close>

function line_end :: "nat \<Rightarrow> bytes \<Rightarrow> nat outcome" where
  "line_end i buf = (if i < length buf then if buf ! i = 0 \<or> buf ! i = 10 then Ret i else line_end (Suc i) buf else Fault)"
  by pat_completeness auto
termination by (relation "measure (\<lambda>(i, buf). length buf - i)") auto

declare line_end.simps [simp del]

text \<open>\<open>while (*value == ' ') value++\<close>.\<close>

function skip_blanks :: "nat \<Rightarrow> bytes \<Rightarrow> nat outcome" where
  "skip_blanks i buf = (if i < length buf then if buf ! i = 32 then skip_blanks (Suc i) buf else Ret i else Fault)"
  by pat_completeness auto
termination by (relation "measure (\<lambda>(i, buf). length buf - i)") auto

declare skip_blanks.simps [simp del]

text \<open>The options, compared one after the other; the value of \<open>timeout\<close> is converted to an \<open>int\<close>.\<close>

definition set_option :: "bytes \<Rightarrow> bytes \<Rightarrow> boot_config \<Rightarrow> boot_config outcome" where
  "set_option key value c =
     bindR (bios_strcmp key (lit ''title'')) (\<lambda>d.
     if d = 0 then bindR (bios_strcpy (cfg_title c) value) (\<lambda>a. Ret (c\<lparr>cfg_title := a\<rparr>))
     else bindR (bios_strcmp key (lit ''kernel'')) (\<lambda>d.
     if d = 0 then bindR (bios_strcpy (cfg_kernel_path c) value) (\<lambda>a. Ret (c\<lparr>cfg_kernel_path := a\<rparr>))
     else bindR (bios_strcmp key (lit ''initrd'')) (\<lambda>d.
     if d = 0 then bindR (bios_strcpy (cfg_initrd_path c) value) (\<lambda>a. Ret (c\<lparr>cfg_initrd_path := a\<rparr>))
     else bindR (bios_strcmp key (lit ''args'')) (\<lambda>d.
     if d = 0 then bindR (bios_strcpy (cfg_cmdline c) value) (\<lambda>a. Ret (c\<lparr>cfg_cmdline := a\<rparr>))
     else bindR (bios_strcmp key (lit ''timeout'')) (\<lambda>d.
     if d = 0 then bindR (strtoul value 10) (\<lambda>(v, _). Ret (c\<lparr>cfg_timeout := sint (ucast v :: u32)\<rparr>))
     else Ret c)))))"

text \<open>One line: the buffer with the terminators written into it, and the configuration.\<close>

definition parse_line :: "nat \<Rightarrow> bytes \<Rightarrow> boot_config \<Rightarrow> (bytes \<times> boot_config) outcome" where
  "parse_line line buf c =
     bindR (bios_strchr (drop line buf) 61) (\<lambda>found. case found of
       None \<Rightarrow> Ret (buf, c)
     | Some k \<Rightarrow>
         let buf = buf[line + k := 0] in
         bindR (skip_blanks (line + k + 1) buf) (\<lambda>v.
         bindR (set_option (drop line buf) (drop v buf) c) (\<lambda>c. Ret (buf, c))))"

text \<open>The loop over the lines, from the index \<open>line\<close> on.\<close>

function parse_lines :: "nat \<Rightarrow> bytes \<Rightarrow> boot_config \<Rightarrow> boot_config outcome" where
  "parse_lines line buf c =
     (if \<not> line < length buf then Fault
      else if buf ! line = 0 then Ret c
      else bindR (line_end line buf) (\<lambda>e.
           bindR (parse_line line (buf[e := 0]) c) (\<lambda>(buf', c).
           if length buf' = length buf \<and> line \<le> e then parse_lines (e + 1) buf' c else Fault)))"
  by pat_completeness auto
termination by (relation "measure (\<lambda>(line, buf, c). length buf - line)") auto

declare parse_lines.simps [simp del]

text \<open>The guard in the loop above is always true.\<close>

lemma line_end_ge: "line_end i buf = Ret e \<Longrightarrow> i \<le> e \<and> e < length buf"
proof (induction i buf rule: line_end.induct)
  case (1 i buf)
  then show ?case by (cases "buf ! i = 0 \<or> buf ! i = 10") (auto simp: line_end.simps [of i buf] split: if_splits)
qed

lemma parse_line_length: "parse_line line buf c = Ret (buf', c') \<Longrightarrow> length buf' = length buf"
  by (auto simp: parse_line_def outcome_simps Let_def split: option.splits)

definition bootmgr_load_config ::
  "port_env \<Rightarrow> bytes \<Rightarrow> bytes \<Rightarrow> bytes \<Rightarrow> 'z bios_menu_scheme \<Rightarrow> (bool \<times> 'z bios_menu_scheme) outcome" where
  "bootmgr_load_config env junk buffer str s =
     bindR (fs_open env junk str s) (\<lambda>(ok, s).
     if \<not> ok
     then bindR (say env [PStr ''WARNING: Cannot open boot config file: '', PBytes str, PStr ''\<newline>'',
         PStr ''Using default configuration.\<newline>''] s) (\<lambda>s. Ret (False, s))
     else case fs_read None 1023 s of (ok, r, s) \<Rightarrow>
     bindR (case r of None \<Rightarrow> Ret (0, buffer)
          | Some (n, bs) \<Rightarrow> bindR (memcpy_at (length bs) 0 0 buffer bs) (\<lambda>b. Ret (unat n, b))) (\<lambda>(n, buf).
     if \<not> ok
     then bindR (hal_print env (lit ''WARNING: Cannot read boot config file\<newline>'') s) (\<lambda>s. Ret (False, fs_close 0 s))
     else if \<not> n < length buf then Fault
     else let s = fs_close 0 s in
     bindR (parse_lines 0 (buf[n := 0]) (boot_cfg s)) (\<lambda>c.
     bindR (say env [PStr ''Boot configuration loaded:\<newline>'', PStr ''  Title: '', PBytes (cfg_title c), PStr ''\<newline>'',
       PStr ''  Kernel: '', PBytes (cfg_kernel_path c), PStr ''\<newline>'', PStr ''  Args: '', PBytes (cfg_cmdline c),
       PStr ''\<newline>''] (s\<lparr>boot_cfg := c\<rparr>)) (\<lambda>s. Ret (True, s)))))"

section \<open>The menu\<close>

text \<open>The countdown from \<open>i\<close>: whether a key was pressed. The delay has no effect on the state.\<close>

function countdown :: "port_env \<Rightarrow> int \<Rightarrow> 'z bios_menu_scheme \<Rightarrow> (bool \<times> 'z bios_menu_scheme) outcome" where
  "countdown env i s =
     (if 0 < i
      then bindR (say env [PStr [CHR 0x0D], PStr ''Booting in '', PDec (of_int i), PStr '' seconds... Press any key to stop''] s) (\<lambda>s.
        case bios_inb env 0x64 s of (v, s) \<Rightarrow>
        if v AND 1 \<noteq> 0
        then case bios_inb env 0x60 s of (_, s) \<Rightarrow>
          bindR (hal_print env (lit ''\<newline>\<newline>Boot menu activated (not implemented)\<newline>'') s) (\<lambda>s. Ret (True, s))
        else countdown env (i - 1) s)
      else bindR (hal_print env (lit ''\<newline>\<newline>'') s) (\<lambda>s. Ret (False, s)))"
  by pat_completeness auto
termination by (relation "measure (\<lambda>(env, i, s). nat i)") auto

declare countdown.simps [simp del]

definition bootmgr_display_menu :: "port_env \<Rightarrow> 'z bios_menu_scheme \<Rightarrow> (bool \<times> 'z bios_menu_scheme) outcome" where
  "bootmgr_display_menu env s =
     bindR (say env [PStr ''\<newline>'', PStr ''========================================\<newline>'', PBytes (cfg_title (boot_cfg s)),
       PStr ''\<newline>'', PStr ''========================================\<newline>'', PStr ''\<newline>'', PStr ''Boot entries:\<newline>'',
       PStr ''  [0] HIK Kernel\<newline>'', PStr ''\<newline>'', PStr ''Default: [0] (timeout in '',
       PDec (of_int (cfg_timeout (boot_cfg s))), PStr '' seconds)\<newline>'', PStr ''\<newline>''] s) (\<lambda>s.
     countdown env (cfg_timeout (boot_cfg s)) s)"

definition bootmgr_boot_default :: "port_env \<Rightarrow> 'z bios_menu_scheme \<Rightarrow> (bool \<times> 'z bios_menu_scheme) outcome" where
  "bootmgr_boot_default env s = bindR (hal_print env (lit ''Booting default entry...\<newline>'') s) (\<lambda>s. Ret (True, s))"

section \<open>What a file of lines means\<close>

text \<open>
  The key and the value the parser sees in a line: the value starts behind the first \<open>=\<close> and the blanks that follow
  it, and the key is all that stands before the \<open>=\<close>, its blanks included.
\<close>

definition line_setting :: "bytes \<Rightarrow> (bytes \<times> bytes) option" where
  "line_setting l = (if 61 \<in> set l
     then Some (takeWhile (\<lambda>c. c \<noteq> 61) l, dropWhile (\<lambda>c. c = 32) (tl (dropWhile (\<lambda>c. c \<noteq> 61) l))) else None)"

text \<open>A string put into an array, and the number a string starts with.\<close>

definition stored_string :: "bytes \<Rightarrow> bytes \<Rightarrow> bytes" where "stored_string w a = w @ 0 # drop (Suc (length w)) a"

definition is_digit :: "u8 \<Rightarrow> bool" where "is_digit c \<longleftrightarrow> 48 \<le> c \<and> c \<le> 57"

definition dec_value :: "bytes \<Rightarrow> u64" where
  "dec_value w = fold (\<lambda>c n. n * 10 + ucast (c - 48)) (takeWhile is_digit w) 0"

definition apply_setting :: "bytes \<times> bytes \<Rightarrow> boot_config \<Rightarrow> boot_config" where
  "apply_setting = (\<lambda>(k, v) c.
     if k = map of_char ''title'' then c\<lparr>cfg_title := stored_string v (cfg_title c)\<rparr>
     else if k = map of_char ''kernel'' then c\<lparr>cfg_kernel_path := stored_string v (cfg_kernel_path c)\<rparr>
     else if k = map of_char ''initrd'' then c\<lparr>cfg_initrd_path := stored_string v (cfg_initrd_path c)\<rparr>
     else if k = map of_char ''args'' then c\<lparr>cfg_cmdline := stored_string v (cfg_cmdline c)\<rparr>
     else if k = map of_char ''timeout'' then c\<lparr>cfg_timeout := sint (ucast (dec_value v) :: u32)\<rparr>
     else c)"

definition apply_line :: "bytes \<Rightarrow> boot_config \<Rightarrow> boot_config" where
  "apply_line l c = (case line_setting l of None \<Rightarrow> c | Some kv \<Rightarrow> apply_setting kv c)"

text \<open>
  A line as \<open>README.md\<close> writes it: a blank stands before the \<open>=\<close> (\<open>timeout = 5\<close>), or there is no \<open>=\<close>. No option has a
  key that ends in a blank, so such a line sets nothing.
\<close>

definition spaced_line :: "bytes \<Rightarrow> bool" where
  "spaced_line l \<longleftrightarrow> (61 \<in> set l \<longrightarrow> (\<exists>k. takeWhile (\<lambda>c. c \<noteq> 61) l = k @ [32]))"

lemma spaced_line_ignored:
  assumes "spaced_line l"
  shows "apply_line l c = c"
proof (cases "61 \<in> set l")
  case True
  with assms obtain k where k: "takeWhile (\<lambda>c. c \<noteq> 61) l = k @ [32]" by (auto simp: spaced_line_def)
  have "k @ [32] \<noteq> w" if "last w \<noteq> 32" for w :: bytes using that by auto
  then show ?thesis using True k by (simp add: apply_line_def line_setting_def apply_setting_def)
qed (simp add: apply_line_def line_setting_def)

text \<open>The arrays have their sizes, and a value fits into its array with a terminator.\<close>

definition config_ok :: "boot_config \<Rightarrow> bool" where
  "config_ok c \<longleftrightarrow> length (cfg_title c) = 64 \<and> length (cfg_kernel_path c) = 128 \<and> length (cfg_initrd_path c) = 128 \<and>
     length (cfg_cmdline c) = 256"

definition value_fits :: "bytes \<times> bytes \<Rightarrow> bool" where
  "value_fits = (\<lambda>(k, v). (k = map of_char ''title'' \<longrightarrow> length v < 64) \<and> (k = map of_char ''kernel'' \<longrightarrow> length v < 128) \<and>
     (k = map of_char ''initrd'' \<longrightarrow> length v < 128) \<and> (k = map of_char ''args'' \<longrightarrow> length v < 256))"

definition line_ok :: "bytes \<Rightarrow> bool" where
  "line_ok l \<longleftrightarrow> 0 \<notin> set l \<and> 10 \<notin> set l \<and> (\<forall>kv. line_setting l = Some kv \<longrightarrow> value_fits kv)"

lemma stored_string_length: "length w < length a \<Longrightarrow> length (stored_string w a) = length a"
  by (simp add: stored_string_def)

lemma apply_setting_ok: "config_ok c \<Longrightarrow> value_fits kv \<Longrightarrow> config_ok (apply_setting kv c)"
  by (cases kv) (auto simp: config_ok_def apply_setting_def value_fits_def stored_string_length)

section \<open>The string functions on a line\<close>

lemma strcpy_puts:
  "0 \<notin> set w \<Longrightarrow> length w < length a \<Longrightarrow>
   strcpy_loop (length p) (p @ a) (p @ w @ 0 # r) = Ret (p @ stored_string w a)"
proof (induction w arbitrary: p a)
  case Nil
  then show ?case by (cases a) (simp_all add: strcpy_loop.simps [of "length p"] stored_string_def nth_append list_update_append)
next
  case (Cons c w)
  obtain x a' where a: "a = x # a'" using Cons.prems by (cases a) auto
  have "strcpy_loop (length p) (p @ a) (p @ (c # w) @ 0 # r) =
      strcpy_loop (length (p @ [c])) ((p @ [c]) @ a') ((p @ [c]) @ w @ 0 # r)"
    using Cons.prems by (simp add: strcpy_loop.simps [of "length p"] a nth_append list_update_append)
  with Cons.IH [of a' "p @ [c]"] Cons.prems show ?case by (simp add: a stored_string_def)
qed

lemma bios_strcpy_puts:
  "0 \<notin> set w \<Longrightarrow> length w < length a \<Longrightarrow> bios_strcpy a (w @ 0 # r) = Ret (stored_string w a)"
  using strcpy_puts [of w a "[]" r] by (simp add: bios_strcpy_def)

lemma bios_strcmp_key:
  assumes "0 \<notin> set k" "0 \<notin> set (map of_char w :: bytes)"
  shows "\<exists>d. bios_strcmp (k @ 0 # r) (lit w) = Ret d \<and> (d = 0 \<longleftrightarrow> k = map of_char w)"
proof -
  have c: "is_cstr (k @ 0 # r)" "is_cstr (lit w)" "cstr (k @ 0 # r) = k" "cstr (lit w) = map of_char w"
    using assms by (auto simp: is_cstr_def lit_def cstr_def takeWhile_tail)
  obtain d where "strcmp (k @ 0 # r) (lit w) = Ret d" using strcmp_total [OF c(1,2)] by blast
  then show ?thesis using strcmp_zero_iff [OF c(1,2)] unfolding c(3,4) by (simp add: bios_strcmp_def strcmp_def)
qed

lemma digits_by_range:
  "is_digit c \<Longrightarrow> digit_of c = Some (c - 48) \<and> uint (c - 48) < 10"
  "\<not> is_digit c \<Longrightarrow> digit_of c = None \<or> (\<exists>d. digit_of c = Some d \<and> 10 \<le> uint d)"
proof -
  have sub: "48 \<le> c \<Longrightarrow> uint (c - 48) = uint c - 48" "65 \<le> c \<Longrightarrow> c \<le> 70 \<Longrightarrow> uint (c - 65 + 10) = uint c - 55"
    "97 \<le> c \<Longrightarrow> c \<le> 102 \<Longrightarrow> uint (c - 97 + 10) = uint c - 87"
  proof -
    have "uint c < 2 ^ LENGTH(8)" by (rule unsigned_less)
    then have "uint c < 256" by simp
    then show "48 \<le> c \<Longrightarrow> uint (c - 48) = uint c - 48" "65 \<le> c \<Longrightarrow> c \<le> 70 \<Longrightarrow> uint (c - 65 + 10) = uint c - 55"
      "97 \<le> c \<Longrightarrow> c \<le> 102 \<Longrightarrow> uint (c - 97 + 10) = uint c - 87"
      by (simp_all add: uint_word_ariths word_le_def mod_pos_pos_trivial)
  qed
  show "is_digit c \<Longrightarrow> digit_of c = Some (c - 48) \<and> uint (c - 48) < 10"
    using sub(1) by (simp add: is_digit_def digit_of_def word_le_def)
  show "\<not> is_digit c \<Longrightarrow> digit_of c = None \<or> (\<exists>d. digit_of c = Some d \<and> 10 \<le> uint d)"
    using sub(2,3) by (auto simp: is_digit_def digit_of_def word_le_def)
qed

lemma strtoul_prefix:
  "0 \<notin> set w \<Longrightarrow> \<exists>j. strtoul_loop (length p) n (p @ w @ 0 # r) 10 =
    Ret (fold (\<lambda>c n. n * 10 + ucast (c - 48)) (takeWhile is_digit w) n, j)"
proof (induction w arbitrary: p n)
  case Nil
  show ?case by (subst strtoul_loop.simps) (simp add: nth_append)
next
  case (Cons c w)
  show ?case
  proof (cases "is_digit c")
    case True
    note d = digits_by_range(1) [OF this]
    have "strtoul_loop (length p) n (p @ (c # w) @ 0 # r) 10 =
        strtoul_loop (length (p @ [c])) (n * 10 + ucast (c - 48)) ((p @ [c]) @ w @ 0 # r) 10"
      using Cons.prems d by (subst strtoul_loop.simps) (simp add: nth_append)
    with Cons.IH [of "p @ [c]" "n * 10 + ucast (c - 48)"] Cons.prems True show ?thesis by simp
  next
    case False
    with digits_by_range(2) [OF this] Cons.prems show ?thesis
      by (subst strtoul_loop.simps) (auto simp: nth_append)
  qed
qed

lemma set_option_applies:
  assumes "0 \<notin> set k" "0 \<notin> set v" "value_fits (k, v)" "config_ok c"
  shows "set_option (k @ 0 # r) (v @ 0 # r') c = Ret (apply_setting (k, v) c)"
proof -
  have key: "\<exists>d. bios_strcmp (k @ 0 # r) (lit w) = Ret d \<and> (d = 0 \<longleftrightarrow> k = map of_char w)"
    if "w \<in> {''title'', ''kernel'', ''initrd'', ''args'', ''timeout''}" for w
    by (rule bios_strcmp_key [OF assms(1)]) (use that in auto)
  obtain d1 d2 d3 d4 d5 where
    d: "bios_strcmp (k @ 0 # r) (lit ''title'') = Ret d1" "d1 = 0 \<longleftrightarrow> k = map of_char ''title''"
      "bios_strcmp (k @ 0 # r) (lit ''kernel'') = Ret d2" "d2 = 0 \<longleftrightarrow> k = map of_char ''kernel''"
      "bios_strcmp (k @ 0 # r) (lit ''initrd'') = Ret d3" "d3 = 0 \<longleftrightarrow> k = map of_char ''initrd''"
      "bios_strcmp (k @ 0 # r) (lit ''args'') = Ret d4" "d4 = 0 \<longleftrightarrow> k = map of_char ''args''"
      "bios_strcmp (k @ 0 # r) (lit ''timeout'') = Ret d5" "d5 = 0 \<longleftrightarrow> k = map of_char ''timeout''"
    using key by (metis insertCI)
  obtain j where j: "strtoul (v @ 0 # r') 10 = Ret (dec_value v, j)"
    using strtoul_prefix [OF assms(2), of "[]" 0 r'] by (auto simp: strtoul_def dec_value_def)
  have copy: "length v < length a \<Longrightarrow> bios_strcpy a (v @ 0 # r') = Ret (stored_string v a)" for a
    by (rule bios_strcpy_puts [OF assms(2)])
  have fit: "d1 = 0 \<Longrightarrow> length v < length (cfg_title c)" "d2 = 0 \<Longrightarrow> length v < length (cfg_kernel_path c)"
    "d3 = 0 \<Longrightarrow> length v < length (cfg_initrd_path c)" "d4 = 0 \<Longrightarrow> length v < length (cfg_cmdline c)"
    using assms(3,4) d(2,4,6,8) by (auto simp: value_fits_def config_ok_def)
  show ?thesis
    unfolding set_option_def apply_setting_def prod.case d(1,3,5,7,9) bindR.simps d(2,4,6,8,10) [symmetric] j
    using copy fit by (cases "d1 = 0"; cases "d2 = 0"; cases "d3 = 0"; cases "d4 = 0"; simp)
qed

section \<open>Lines\<close>

lemma line_end_found:
  "0 \<notin> set l \<Longrightarrow> 10 \<notin> set l \<Longrightarrow> x = 0 \<or> x = 10 \<Longrightarrow>
   line_end (length p) (p @ l @ x # r) = Ret (length p + length l)"
proof (induction l arbitrary: p)
  case Nil
  then show ?case by (subst line_end.simps) (simp add: nth_append)
next
  case (Cons c l)
  with Cons.IH [of "p @ [c]"] show ?case by (subst line_end.simps) (auto simp: nth_append)
qed

lemma skip_blanks_found:
  "0 \<notin> set w \<Longrightarrow> skip_blanks (length p) (p @ w @ 0 # r) = Ret (length p + length (takeWhile (\<lambda>c. c = 32) w))"
proof (induction w arbitrary: p)
  case Nil
  show ?case by (subst skip_blanks.simps) (simp add: nth_append)
next
  case (Cons c w)
  show ?case
  proof (cases "c = 32")
    case True
    with Cons.prems Cons.IH [of "p @ [c]"] show ?thesis by (subst skip_blanks.simps) (simp add: nth_append)
  next
    case False
    then show ?thesis by (subst skip_blanks.simps) (simp add: nth_append)
  qed
qed

lemma strchr_found:
  "0 \<notin> set l \<Longrightarrow> bios_strchr_from (length p) (p @ l @ 0 # r) c =
    Ret (if c \<in> set l \<and> c \<noteq> 0 then Some (length p + length (takeWhile (\<lambda>x. x \<noteq> c) l)) else None)"
proof (induction l arbitrary: p)
  case Nil
  show ?case by (subst bios_strchr_from.simps) (simp add: nth_append)
next
  case (Cons x l)
  show ?case
  proof (cases "x = c")
    case True
    with Cons.prems show ?thesis by (subst bios_strchr_from.simps) (auto simp: nth_append)
  next
    case False
    with Cons.prems Cons.IH [of "p @ [x]"] show ?thesis by (subst bios_strchr_from.simps) (auto simp: nth_append)
  qed
qed

text \<open>A line behind any bytes \<open>p\<close>, terminated already; what is behind it does not change.\<close>

lemma parse_line_applies:
  assumes "line_ok l" "config_ok c"
  shows "\<exists>q. parse_line (length p) (p @ l @ 0 # r) c = Ret (q @ 0 # r, apply_line l c) \<and> length q = length p + length l"
proof (cases "61 \<in> set l")
  case False
  then have "bios_strchr (drop (length p) (p @ l @ 0 # r)) 61 = Ret None"
    using strchr_found [of l "[]" r 61] assms(1) by (simp add: bios_strchr_def line_ok_def)
  with False show ?thesis
    by (intro exI [of _ "p @ l"]) (simp add: parse_line_def apply_line_def line_setting_def)
next
  case True
  obtain k w where l: "l = k @ 61 # w" "61 \<notin> set k" using split_list_first [OF True] by blast
  then have kw: "takeWhile (\<lambda>c. c \<noteq> 61) l = k" "dropWhile (\<lambda>c. c \<noteq> 61) l = 61 # w"
    by (auto simp: takeWhile_append dropWhile_append)
  define b where "b = takeWhile (\<lambda>c. c = 32) w"
  define v where "v = dropWhile (\<lambda>c. c = 32) w"
  have w: "w = b @ v" by (simp add: b_def v_def)
  have nz: "0 \<notin> set k" "0 \<notin> set w" "0 \<notin> set v" using assms(1) l(1) w by (auto simp: line_ok_def)
  have setting: "line_setting l = Some (k, v)" using True by (simp add: line_setting_def kw v_def)
  then have fits: "value_fits (k, v)" using assms(1) by (simp add: line_ok_def)
  have find: "bios_strchr (drop (length p) (p @ l @ 0 # r)) 61 = Ret (Some (length k))"
    using strchr_found [of l "[]" r 61] True assms(1) by (simp add: bios_strchr_def line_ok_def kw)
  have buf: "(p @ l @ 0 # r)[length p + length k := 0] = p @ k @ 0 # w @ 0 # r" by (simp add: l(1) list_update_append)
  have skip: "skip_blanks (length p + length k + 1) (p @ k @ 0 # w @ 0 # r) = Ret (length p + length k + 1 + length b)"
    using skip_blanks_found [OF nz(2), of "p @ k @ [0]" r] by (simp add: b_def)
  have drops: "drop (length p) (p @ k @ 0 # w @ 0 # r) = k @ 0 # w @ 0 # r"
    "drop (length p + length k + 1 + length b) (p @ k @ 0 # w @ 0 # r) = v @ 0 # r"
    by (simp_all add: w)
  have "parse_line (length p) (p @ l @ 0 # r) c = Ret (p @ k @ 0 # w @ 0 # r, apply_setting (k, v) c)"
    unfolding parse_line_def find bindR.simps option.case Let_def buf skip drops
    using set_option_applies [OF nz(1,3) fits assms(2)] by simp
  then show ?thesis
    unfolding apply_line_def setting option.case by (intro exI [of _ "p @ k @ 0 # w"]) (simp add: l(1))
qed

lemma apply_line_ok: "line_ok l \<Longrightarrow> config_ok c \<Longrightarrow> config_ok (apply_line l c)"
  by (auto simp: apply_line_def line_ok_def intro: apply_setting_ok split: option.split)

text \<open>One round of the loop: the line may end in a newline, or in a terminator if it is not empty.\<close>

lemma parse_lines_step:
  assumes "line_ok l" "config_ok c" "x = 10 \<or> (x = 0 \<and> l \<noteq> [])"
  shows "\<exists>q. parse_lines (length p) (p @ l @ x # r) c = parse_lines (length q) (q @ r) (apply_line l c) \<and>
    length q = length p + length l + 1"
proof -
  obtain q where q: "parse_line (length p) (p @ l @ 0 # r) c = Ret (q @ 0 # r, apply_line l c)" "length q = length p + length l"
    using parse_line_applies [OF assms(1,2)] by blast
  have first: "(p @ l @ x # r) ! length p \<noteq> 0" using assms by (cases l) (auto simp: line_ok_def nth_append)
  have "line_end (length p) (p @ l @ x # r) = Ret (length p + length l)"
    by (rule line_end_found) (use assms in \<open>auto simp: line_ok_def\<close>)
  moreover have "(p @ l @ x # r)[length p + length l := 0] = p @ l @ 0 # r" by (simp add: list_update_append)
  ultimately have "parse_lines (length p) (p @ l @ x # r) c = parse_lines (length p + length l + 1) (q @ 0 # r) (apply_line l c)"
    using first q by (subst parse_lines.simps) simp
  with q(2) show ?thesis by (intro exI [of _ "q @ [0]"]) simp
qed

lemma parse_lines_all:
  "\<forall>l \<in> set ls. line_ok l \<Longrightarrow> config_ok c \<Longrightarrow>
   \<exists>q. parse_lines (length p) (p @ concat (map (\<lambda>l. l @ [10]) ls) @ r) c = parse_lines (length q) (q @ r) (fold apply_line ls c) \<and>
     length q = length p + length (concat (map (\<lambda>l. l @ [10]) ls))"
proof (induction ls arbitrary: p c)
  case Nil
  show ?case by (intro exI [of _ p]) simp
next
  case (Cons l ls)
  obtain q where q: "parse_lines (length p) (p @ l @ 10 # concat (map (\<lambda>l. l @ [10]) ls) @ r) c =
      parse_lines (length q) (q @ concat (map (\<lambda>l. l @ [10]) ls) @ r) (apply_line l c)" "length q = length p + length l + 1"
    using parse_lines_step [of l c 10 p "concat (map (\<lambda>l. l @ [10]) ls) @ r"] Cons.prems by auto
  obtain q' where "parse_lines (length q) (q @ concat (map (\<lambda>l. l @ [10]) ls) @ r) (apply_line l c) =
      parse_lines (length q') (q' @ r) (fold apply_line ls (apply_line l c))"
    "length q' = length q + length (concat (map (\<lambda>l. l @ [10]) ls))"
    using Cons.IH [of "apply_line l c" q] Cons.prems apply_line_ok by auto
  with q show ?case by (intro exI [of _ q']) simp
qed

section \<open>Properties\<close>

text \<open>
  C31. The parser of the configuration file, on lines without control characters whose values fit their arrays: if
  every line ends in a newline, it returns the configuration with the setting of each line applied in order, whatever
  is behind the terminator in the buffer. The key of a line is all that stands before the \<open>=\<close>: lines with a blank
  there, which is how \<open>README.md\<close> writes them, set nothing, so that such a file leaves the configuration as it was. If the last line has no newline, the parser goes on behind the terminator of
  the file, so that its result is that of whatever bytes the stack holds there, and an access outside the buffer if
  there are none.
\<close>
theorem config_parsed:
  assumes "\<forall>l \<in> set ls. line_ok l" "config_ok c" "line_ok l" "l \<noteq> []"
    and "file = concat (map (\<lambda>l. l @ [10]) ls)"
  shows "parse_lines 0 (file @ 0 # r) c = Ret (fold apply_line ls c) \<and>
    ((\<forall>l \<in> set ls. spaced_line l) \<longrightarrow> parse_lines 0 (file @ 0 # r) c = Ret c) \<and>
    (\<exists>q. parse_lines 0 (file @ l @ 0 # r) c = parse_lines (length q) (q @ r) (fold apply_line (ls @ [l]) c) \<and>
      length q = length (file @ l @ [0])) \<and>
    (r = [] \<longrightarrow> parse_lines 0 (file @ l @ 0 # r) c = Fault)"
proof -
  obtain q where q: "parse_lines 0 (file @ 0 # r) c = parse_lines (length q) (q @ 0 # r) (fold apply_line ls c)"
    using parse_lines_all [OF assms(1,2), of "[]" "0 # r"] by (auto simp: assms(5))
  have ok: "config_ok (fold apply_line ls c)" using assms(1,2) by (induction ls arbitrary: c) (auto intro: apply_line_ok)
  obtain p where p: "parse_lines 0 (file @ l @ 0 # r) c = parse_lines (length p) (p @ l @ 0 # r) (fold apply_line ls c)"
    "length p = length file" using parse_lines_all [OF assms(1,2), of "[]" "l @ 0 # r"] by (auto simp: assms(5))
  obtain q' where q': "parse_lines (length p) (p @ l @ 0 # r) (fold apply_line ls c) =
      parse_lines (length q') (q' @ r) (apply_line l (fold apply_line ls c))" "length q' = length p + length l + 1"
    using parse_lines_step [OF assms(3) ok, of 0 p r] assms(4) by blast
  have "parse_lines (length q') q' c' = Fault" for c' by (subst parse_lines.simps) simp
  then have "r = [] \<longrightarrow> parse_lines 0 (file @ l @ 0 # r) c = Fault" unfolding p(1) q'(1) by (cases r) simp_all
  moreover have "parse_lines (length q) (q @ 0 # r) (fold apply_line ls c) = Ret (fold apply_line ls c)"
    by (subst parse_lines.simps) (simp add: nth_append)
  moreover have "parse_lines 0 (file @ l @ 0 # r) c = parse_lines (length q') (q' @ r) (fold apply_line (ls @ [l]) c) \<and>
      length q' = length (file @ l @ [0])" using p q' by simp
  moreover have "(\<forall>l \<in> set ls. spaced_line l) \<longrightarrow> fold apply_line ls c = c"
    by (induction ls arbitrary: c) (simp_all add: spaced_line_ignored)
  ultimately show ?thesis unfolding q by metis
qed

definition sample_config :: boot_config where
  "sample_config = \<lparr>cfg_title = replicate 64 0, cfg_kernel_path = replicate 128 0, cfg_initrd_path = replicate 128 0,
     cfg_cmdline = replicate 256 0, cfg_timeout = 5, cfg_default_entry = 0\<rparr>"

lemma sample_lines: "line_ok (map of_char ''timeout= 12'')" "line_ok (map of_char ''#'')"
  "cfg_timeout (apply_line (map of_char ''timeout= 12'') sample_config) = 12"
proof -
  have "line_setting (map of_char ''timeout= 12'') = Some (map of_char ''timeout'', map of_char ''12'')"
    "line_setting (map of_char ''#'') = None" by code_simp+
  then show "line_ok (map of_char ''timeout= 12'')" "line_ok (map of_char ''#'')"
    by (simp_all add: line_ok_def value_fits_def)
  show "cfg_timeout (apply_line (map of_char ''timeout= 12'') sample_config) = 12" by code_simp
qed

text \<open>The first two lines of the example in \<open>README.md\<close>.\<close>

definition readme_lines :: "bytes list" where
  "readme_lines = [map of_char ''title = \"HIK Boot Manager\"'', map of_char ''timeout = 5'']"

lemma readme_lines_ok: "\<forall>l \<in> set readme_lines. line_ok l \<and> spaced_line l"
proof -
  let ?k = "map of_char ''title'' @ [32] :: bytes" and ?k' = "map of_char ''timeout'' @ [32] :: bytes"
  have "line_setting (readme_lines ! 0) = Some (?k, map of_char ''\"HIK Boot Manager\"'')"
    "line_setting (readme_lines ! 1) = Some (?k', map of_char ''5'')"
    "takeWhile (\<lambda>c. c \<noteq> 61) (readme_lines ! 0) = ?k" "takeWhile (\<lambda>c. c \<noteq> 61) (readme_lines ! 1) = ?k'" by code_simp+
  then show ?thesis by (auto simp: readme_lines_def line_ok_def value_fits_def spaced_line_def)
qed

theorem config_parsed_witness:
  "(\<exists>c. parse_lines 0 (concat (map (\<lambda>l. l @ [10]) [map of_char ''timeout= 12'']) @ 0 # [7]) sample_config = Ret c \<and>
      cfg_timeout c = 12) \<and>
   parse_lines 0 (concat (map (\<lambda>l. l @ [10]) readme_lines) @ 0 # [7]) sample_config = Ret sample_config"
proof
  have ok: "config_ok sample_config" by (simp add: config_ok_def sample_config_def)
  from config_parsed [OF _ ok sample_lines(2) _ refl, of "[map of_char ''timeout= 12'']" "[7]"]
  have "parse_lines 0 (concat (map (\<lambda>l. l @ [10]) [map of_char ''timeout= 12'']) @ 0 # [7]) sample_config =
      Ret (fold apply_line [map of_char ''timeout= 12''] sample_config)"
    using sample_lines(1) by simp
  then show "\<exists>c. parse_lines 0 (concat (map (\<lambda>l. l @ [10]) [map of_char ''timeout= 12'']) @ 0 # [7]) sample_config = Ret c \<and>
      cfg_timeout c = 12" using sample_lines(3) by simp
  show "parse_lines 0 (concat (map (\<lambda>l. l @ [10]) readme_lines) @ 0 # [7]) sample_config = Ret sample_config"
    using config_parsed [OF _ ok sample_lines(2) _ refl, of readme_lines "[7]"] readme_lines_ok by fastforce
qed

end
