(* ===== verification/Spec2Isabelle.thy ===== *)
theory Spec2Isabelle
  imports Kernel NetService HelloApp UefiBoot BiosBoot BiosConfig
begin

text \<open>
  HIK: a microkernel in three layers, in C, and what makes it correct.

  \<^bold>\<open>The program.\<close> Core-0 (\<open>src/Core-0\<close>) is the kernel: it hands out physical frames, keeps the
  capabilities every other component asks, routes interrupts, keeps the page tables of the
  domains, schedules threads, and manages services and processes. Core-1 (\<open>src/Core-1\<close>) is the
  library of a privileged service, which runs on physical memory: a region table it checks its own
  accesses against, a heap, message endpoints and rings, and a life cycle. Core-3 (\<open>src/Core-3\<close>) is
  the library of an application: a heap, system call wrappers and an IPC library. Core-0 calls a
  component through functions on global tables guarded by one spinlock each; the layers meet in the
  \<open>core0_api\<close> table and the \<open>service_info\<close> record.

  \<^bold>\<open>How the model reads.\<close> A C function is a definition with the function's name (a prefix \<open>c1\<close>
  or \<open>c3\<close> where an outer layer has it too) from the global state to an outcome (theory \<open>Prelude\<close>): it returns a
  value and the new state, hangs, or executes an undefined operation. Integers are words of their
  width and wrap. A global is a field of a record; \<open>Kstate\<close> and the records that extend it give each
  component the globals of those below it, as does the chain from \<open>C1Isolation\<close> to \<open>C1Service\<close>. A
  fixed array is a list or a function of the index, and a pointer into one is the index; linked
  structures of Core-1 are stores from addresses. Error codes are returned values. Loops over tables
  are the search and iteration schemes of \<open>Prelude\<close>; loops along linked lists, and the spinlock, may
  not end and are partial functions whose \<open>None\<close> is a hang. Fuel is used once, for the
  depth of nested calls in \<open>NetService\<close>; every other loop is a recursion with a termination proof.

  \<^bold>\<open>Core-0, theory by theory.\<close>
  \<^item> \<open>Spinlock\<close> (\<open>spin_lock\<close>, \<open>spin_unlock\<close>, in every file): when the loop returns, and mutual exclusion
    of any number of processors. Its locale \<open>spin_locked\<close> is interpreted at every lock.
  \<^item> \<open>Tables\<close>: the contract of a table with a first free slot, interpreted at the tables below.
  \<^item> \<open>Mm\<close> (\<open>mm/mm.c\<close>): the frame allocator refines first fit over free frames; soundness, disjointness,
    counters, freeing, and the sizes that wrap.
  \<^item> \<open>Capability\<close> (\<open>capability/capability.c\<close>): the invariants of the tables over every history of calls
    (a smaller one once a counter has wrapped or an irregular call was made), what a check decides, grant and revoke, deletion, a stale handle and a lock taken twice.
  \<^item> \<open>Kstate\<close>, \<open>Irq\<close> (\<open>irq/irq.c\<close>): configuration and dispatch of interrupts.
  \<^item> \<open>Isolation\<close> (\<open>isolation/isolation.c\<close>) and \<open>PageTables\<close>: the four-level tables; a table belongs to one
    position of one domain, so that mapping and unmapping change the translation they mean to and
    no other; access verification, call gates, and the two checks that ask for the wrong thing.
  \<^item> \<open>Sched\<close> (\<open>sched/sched.c\<close>): at most one running thread, the round robin, and the slots that are
    evicted because READY is the value of a free slot.
  \<^item> \<open>Strings\<close> (\<open>lib/string.c\<close>): memory and string functions, with the exact outcome of \<open>strncpy\<close>.
  \<^item> \<open>Service\<close> (\<open>service/service.c\<close>), \<open>Process\<close> (\<open>process/process.c\<close>): tables, creation with its
    roll-back, faults, termination under a held lock.
  \<^item> \<open>MmuTest\<close> (\<open>mmu_test.c\<close>): the self test, how many of its tests fail, and on what that depends.
  \<^item> \<open>Debug\<close> (\<open>lib/debug.c\<close>), \<open>Kernel\<close> (\<open>startup/kernel.c\<close>): text output, logging and the start-up
    sequence, whose log routine halts; the self test is run with the log routines of this theory.

  \<^bold>\<open>Core-1, theory by theory.\<close>
  \<^item> \<open>C1Strings\<close> (\<open>lib/string.c\<close>): every function, \<open>snprintf\<close> included; that it stays inside its buffer,
    and when \<open>memmove\<close> is the copy it is meant to be.
  \<^item> \<open>C1Isolation\<close> (\<open>isolation/isolation.c\<close>): the region table stays disjoint over every history, and
    a granted access lies in one region that allows it, unless its end wraps.
  \<^item> \<open>Blocks\<close>, \<open>C1Heap\<close> (\<open>mm/physical_mem.c\<close>): the linked list of headers refines a sequence of blocks;
    first fit, splitting and coalescing, validation and statistics over every history. \<open>Blocks\<close> holds what
    this heap shares with that of Core-3, and the contract both meet, the locale \<open>block_allocator\<close>.
  \<^item> \<open>C1Ipc\<close> (\<open>ipc/ipc.c\<close>): endpoints, delivery, channels, and the ring as an interpretation of the
    bounded queue \<open>byte_fifo\<close>.
  \<^item> \<open>C1Service\<close> (\<open>service/service.c\<close>), \<open>Core1\<close> (\<open>core1.c\<close>): life cycle and logging, and the
    initialisation that composes the parts.
  \<^item> \<open>NetService\<close> (\<open>examples/network_service.c\<close>): a service on top of the layer, from \<open>core1_init\<close> to its main
    loop and to the answer of a message. Nested calls through function pointers are bounded by the depth of
    the stack, an argument of \<open>net_env\<close>: a set-up needs one, and for an error no depth is enough.

  \<^bold>\<open>Core-3, theory by theory.\<close>
  \<^item> \<open>C3Heap\<close> (\<open>mm/virtual_mem.c\<close>): the second interpretation of \<open>block_allocator\<close>, with a counter of used
    bytes that always agrees with the walk over the blocks; \<open>realloc\<close> keeps the bytes; \<open>calloc\<close> wraps.
  \<^item> \<open>Core3\<close> (\<open>core3.c\<close>, \<open>ipc/ipc.c\<close>, \<open>lib/string.c\<close>): system calls over a kernel that is a parameter, the
    exact outcome of \<open>ipc_call\<close>, and start-up, which leaves the heap as it found it.
  \<^item> \<open>HelloApp\<close> (\<open>examples/hello_app.c\<close>): an application on top of the layer, run from \<open>core3_init\<close> to its
    end with its three blocks of memory and its call of a service.

  \<^bold>\<open>The UEFI loader\<close> (\<open>src/Bootloader/x86_64/uefi\<close>) is a program of its own, which loads the kernel.
  \<^item> \<open>Sha384\<close> (\<open>security/sha384.c\<close>): the hash, and that it is the function of FIPS 180-4 for messages of
    fewer than \<open>2^29\<close> bytes, cut into any pieces. The locale \<open>hash_stream\<close> is the contract of the update.
  \<^item> \<open>UefiSecurity\<close> (\<open>security/rsa.c\<close>, \<open>security/verify.c\<close>, part of \<open>bootmgr/bootmgr.c\<close>, \<open>efi/efi.c\<close>): which
    images verify under which keys, and what the boot manager makes of it. Its sources use types and
    macros no file defines (\<open>VOID\<close>, \<open>EFI_ERROR\<close>); they are read with their usual meaning, and \<open>EFI_ERROR\<close>, on
    which the outcome depends, is a parameter. The UEFI specification has it test the top bit, which the error codes
    of the program lack (\<open>failed_verification_accepted\<close>).
  \<^item> \<open>UefiUtil\<close> (\<open>util/util.c\<close>, \<open>efi/string.c\<close>): strings of 16-bit characters, number printing, dumps, and the
    alignment and bit functions. What the console gets is the list \<open>con_log\<close>.
  \<^item> \<open>UefiFirmware\<close> (\<open>fs/volume.c\<close>, the calls of \<open>efi/efi.c\<close>): the firmware is a record of functions on a
    world of any type, one for each service the loader calls, and what it does to the world is its own;
    files and directories are opened, read and listed through it. \<open>documented_firmware\<close> says what the theorems
    about a firmware that keeps to the UEFI specification assume: the top bit in errors and no \<open>NULL\<close> on success.
  \<^item> \<open>UefiConfig\<close> (\<open>fs/config.c\<close>): the search for a key and the table of boot entries. What the stack holds
    when a pointer to a dead array is read is the parameter \<open>stack_view\<close>, of which
    the theorems assume nothing. A key takes the blanks before the equals sign with it, so that files in the
    documented format set nothing.
  \<^item> \<open>UefiHal\<close> (\<open>hal/*.c\<close>): descriptor tables, page tables, memory map and ACPI tables; the instructions that change
    the processor are recorded in their order in \<open>hw_log\<close>.
  \<^item> \<open>UefiBoot\<close> (\<open>bootmgr/*.c\<close>): loading the kernel, the menu, leaving the firmware, and \<open>UefiMain\<close>. Its theorems
    compose the parts: on a firmware that keeps to the specification no kernel is ever started, because the size
    of its file is not found out; what a jump would be like is a lemma (\<open>BootMgrBootKernel_jump\<close>). The
    loops of the menu and of a directory may not end and are partial functions.

  \<^bold>\<open>The loader for BIOS machines\<close> (\<open>src/Bootloader/x86_64/boot\<close>) is a third program, with 32-bit pointers.
  Its state is one record extended from theory to theory: the physical memory, a function from 32-bit
  addresses to bytes, in which the text screen, the memory map, the file and the kernel image lie; the
  reads and writes of the ports in their order; and the static objects. What a port returns and what
  the BIOS answers are parameters. Where a theorem needs the serial line to become ready
  (\<open>serial_ready\<close>) it says so; of the BIOS nothing is assumed but, for the content of the memory map, that it
  does not write into the map itself (\<open>bios_spares_map\<close>).
  \<^item> \<open>BiosConsole\<close> (\<open>util/util.c\<close>, the output of \<open>hal/hal.c\<close>): strings, number parsing, the screen, which
    refines the last 25 lines of the text, and the serial line, which misses the decimal numbers.
  \<^item> \<open>BiosHal\<close> (the rest of \<open>hal/hal.c\<close>): the memory map and the search for the ACPI root pointer.
  \<^item> \<open>BiosFs\<close> (\<open>fs/fs.c\<close>): FAT names, directory and cluster loops, and the open file, an interpretation of
    the reader contract \<open>file_reader\<close>.
  \<^item> \<open>BiosSecurity\<close> (\<open>security/*.c\<close>): the hash, the second interpretation of \<open>hash_stream\<close>, and the
    verification, which accepts any signature.
  \<^item> \<open>BiosBoot\<close> (\<open>stage2/stage2.c\<close>): the run of stage 2, which never gets to the kernel, and what reading an
    image of a given size would leave in memory.
  \<^item> \<open>BiosConfig\<close> (\<open>bootmgr/bootmgr.c\<close>): the configuration parser and the menu, which stage 2 does not call; lines
    in the documented format are ignored here too.

  \<^bold>\<open>Bounds.\<close> Statements about addresses assume the ranges they name do not wrap and say so in
  their hypotheses; what happens when they do is stated separately (\<open>mm_alloc_size_wraps\<close>,
  \<open>verify_access_wraps\<close>, \<open>block_bytes_wraps\<close>).

  \<^bold>\<open>Not modelled.\<close> The declarations of the firmware interface (\<open>efi/system_table.h\<close>, \<open>efi/protocol.h\<close>), of which
  the loader uses the services in the record \<open>firmware\<close>; the big-number routines of the UEFI loader's
  \<open>rsa.c\<close>, which nothing calls and whose calls to each other lack an argument; assembly, linker scripts
  and build products. Handlers, callbacks and the routines of the other layer are
  parameters. In the model the memory of a service holds its bytes, its block headers and its
  endpoints in separate stores, so a program that overwrites a header is outside it. Memory barriers
  have no effect on one processor; interleavings are modelled for the spinlock only.
\<close>

end
